(* ===== verification/Prelude.thy ===== *)
theory Prelude
  imports Main "HOL-Library.Word" "HOL-Library.Signed_Division"
begin

text \<open>
  Shared vocabulary of the development: the machine integer types of the emulator, the
  outcome type of a fallible Rust function (an \<open>Err\<close> value or a panic), the sequencing
  combinator of code that mutates a state and may leave early with the question-mark
  operator, a small Hoare logic for it, and little-endian byte strings.
\<close>

unbundle bit_operations_syntax

section \<open>Machine integers\<close>

type_synonym u8 = "8 word"
type_synonym u16 = "16 word"
type_synonym u32 = "32 word"
type_synonym u64 = "64 word"

section \<open>Outcomes\<close>

text \<open>
  A Rust function that returns \<open>Result<A, E>\<close> ends in one of three ways: it returns
  \<open>Ok a\<close>, it returns \<open>Err e\<close>, or it panics. \<open>Inr a\<close> is the first, \<open>Inl (Err e)\<close> the
  second and \<open>Inl Panic\<close> the third, so that an \<open>expect\<close>, an \<open>assert!\<close> and an index out of
  range are branches of the model like any other.
\<close>

datatype 'e stop = Err 'e | Panic

text \<open>
  A method with a \<open>&mut\<close> receiver: from the state to the outcome and the state it leaves
  behind. The state is returned on the error paths too, because Rust does not roll back.
\<close>

type_synonym ('s, 'e, 'a) sm = "'s \<Rightarrow> ('e stop + 'a) \<times> 's"

definition sm_return :: "'a \<Rightarrow> ('s, 'e, 'a) sm" where
  "sm_return a s = (Inr a, s)"

definition sm_err :: "'e \<Rightarrow> ('s, 'e, 'a) sm" where
  "sm_err e s = (Inl (Err e), s)"

definition sm_panic :: "('s, 'e, 'a) sm" where
  "sm_panic s = (Inl Panic, s)"

definition sm_get :: "('s \<Rightarrow> 'a) \<Rightarrow> ('s, 'e, 'a) sm" where
  "sm_get f s = (Inr (f s), s)"

definition sm_modify :: "('s \<Rightarrow> 's) \<Rightarrow> ('s, 'e, unit) sm" where
  "sm_modify f s = (Inr (), f s)"

text \<open>A \<open>Result\<close> that is already computed, under the question mark.\<close>

definition sm_result :: "'e + 'a \<Rightarrow> ('s, 'e, 'a) sm" where
  "sm_result r s = (case r of Inl e \<Rightarrow> (Inl (Err e), s) | Inr a \<Rightarrow> (Inr a, s))"

text \<open>\<open>let a = m?; f(a)\<close>\<close>

definition sm_bind :: "('s, 'e, 'a) sm \<Rightarrow> ('a \<Rightarrow> ('s, 'e, 'b) sm) \<Rightarrow> ('s, 'e, 'b) sm" where
  "sm_bind m f s = (case m s of (Inl e, s') \<Rightarrow> (Inl e, s') | (Inr a, s') \<Rightarrow> f a s')"

text \<open>\<open>Result::map_err\<close>\<close>

fun stop_map :: "('e \<Rightarrow> 'f) \<Rightarrow> 'e stop \<Rightarrow> 'f stop" where
  "stop_map h (Err e) = Err (h e)"
| "stop_map h Panic = Panic"

lemma stop_map_const [simp]: "e \<noteq> Panic \<Longrightarrow> stop_map (\<lambda>_. x) e = Err x"
  by (cases e) simp_all

definition sm_map_err :: "('e \<Rightarrow> 'f) \<Rightarrow> ('s, 'e, 'a) sm \<Rightarrow> ('s, 'f, 'a) sm" where
  "sm_map_err h m s = (case m s of (Inl e, s') \<Rightarrow> (Inl (stop_map h e), s') | (Inr a, s') \<Rightarrow> (Inr a, s'))"

text \<open>Running a method of a field of the state.\<close>

definition sm_field ::
  "('s \<Rightarrow> 't) \<Rightarrow> ('t \<Rightarrow> 's \<Rightarrow> 's) \<Rightarrow> ('t, 'e, 'a) sm \<Rightarrow> ('s, 'e, 'a) sm" where
  "sm_field g u m s = (case m (g s) of (r, t) \<Rightarrow> (r, u t s))"

lemmas sm_defs = sm_return_def sm_err_def sm_panic_def sm_get_def sm_modify_def

lemma sm_bind_Inr [simp]: "m s = (Inr a, s') \<Longrightarrow> sm_bind m f s = f a s'"
  by (simp add: sm_bind_def)

lemma sm_bind_Inl [simp]: "m s = (Inl e, s') \<Longrightarrow> sm_bind m f s = (Inl e, s')"
  by (simp add: sm_bind_def)

lemma sm_bind_eq_Inr:
  "sm_bind m f s = (Inr b, s'') \<longleftrightarrow> (\<exists>a s'. m s = (Inr a, s') \<and> f a s' = (Inr b, s''))"
  by (auto simp: sm_bind_def split: prod.splits sum.splits)

section \<open>Hoare triples for outcomes\<close>

text \<open>
  \<open>hoare P m Q E\<close>: from a state with \<open>P\<close>, \<open>m\<close> ends in \<open>Q a\<close> if it returns \<open>Ok a\<close> and in
  \<open>E e\<close> if it stops with \<open>e\<close>. A panic is one of the stops, so \<open>E Panic\<close> being false says
  that the code does not panic.
\<close>

definition hoare ::
  "('s \<Rightarrow> bool) \<Rightarrow> ('s, 'e, 'a) sm \<Rightarrow> ('a \<Rightarrow> 's \<Rightarrow> bool) \<Rightarrow> ('e stop \<Rightarrow> 's \<Rightarrow> bool) \<Rightarrow> bool" where
  "hoare P m Q E \<longleftrightarrow>
     (\<forall>s. P s \<longrightarrow> (case m s of (Inl e, s') \<Rightarrow> E e s' | (Inr a, s') \<Rightarrow> Q a s'))"

named_theorems hoare_rules \<open>introduction rules for Hoare triples\<close>

lemma hoareI:
  "(\<And>s. P s \<Longrightarrow> (case m s of (Inl e, s') \<Rightarrow> E e s' | (Inr a, s') \<Rightarrow> Q a s')) \<Longrightarrow> hoare P m Q E"
  by (auto simp: hoare_def)

lemma hoare_Inr: "hoare P m Q E \<Longrightarrow> P s \<Longrightarrow> m s = (Inr a, s') \<Longrightarrow> Q a s'"
  by (fastforce simp: hoare_def)

lemma hoare_Inl: "hoare P m Q E \<Longrightarrow> P s \<Longrightarrow> m s = (Inl e, s') \<Longrightarrow> E e s'"
  by (fastforce simp: hoare_def)

lemma hoare_bind [hoare_rules]:
  assumes "hoare P m R E" and "\<And>a. hoare (R a) (f a) Q E"
  shows "hoare P (sm_bind m f) Q E"
  using assms by (fastforce simp: hoare_def sm_bind_def split: prod.splits sum.splits)

lemma hoare_return [hoare_rules]: "(\<And>s. P s \<Longrightarrow> Q a s) \<Longrightarrow> hoare P (sm_return a) Q E"
  by (simp add: hoare_def sm_return_def)

lemma hoare_err [hoare_rules]: "(\<And>s. P s \<Longrightarrow> E (Err e) s) \<Longrightarrow> hoare P (sm_err e) Q E"
  by (simp add: hoare_def sm_err_def)

lemma hoare_get [hoare_rules]: "(\<And>s. P s \<Longrightarrow> Q (f s) s) \<Longrightarrow> hoare P (sm_get f) Q E"
  by (simp add: hoare_def sm_get_def)

lemma hoare_modify [hoare_rules]: "(\<And>s. P s \<Longrightarrow> Q () (f s)) \<Longrightarrow> hoare P (sm_modify f) Q E"
  by (simp add: hoare_def sm_modify_def)

lemma hoare_if [hoare_rules]:
  "(b \<Longrightarrow> hoare P m Q E) \<Longrightarrow> (\<not> b \<Longrightarrow> hoare P n Q E) \<Longrightarrow> hoare P (if b then m else n) Q E"
  by simp

lemma hoare_weaken:
  assumes "hoare P' m Q' E'" and "\<And>s. P s \<Longrightarrow> P' s"
    and "\<And>a s. Q' a s \<Longrightarrow> Q a s" and "\<And>e s. E' e s \<Longrightarrow> E e s"
  shows "hoare P m Q E"
  using assms by (fastforce simp: hoare_def split: prod.splits sum.splits)

lemma hoare_map_err [hoare_rules]:
  "hoare P m Q (\<lambda>e. E (stop_map h e)) \<Longrightarrow> hoare P (sm_map_err h m) Q E"
  by (fastforce simp: hoare_def sm_map_err_def split: prod.splits sum.splits)

lemma hoare_field [hoare_rules]:
  assumes "\<And>s. P s \<Longrightarrow> hoare (\<lambda>t. t = g s) m (\<lambda>a t. Q a (u t s)) (\<lambda>e t. E e (u t s))"
  shows "hoare P (sm_field g u m) Q E"
  using assms by (fastforce simp: hoare_def sm_field_def split: prod.splits sum.splits)

section \<open>Loops and slices\<close>

text \<open>\<open>for i in xs { body(i)?; }\<close>\<close>

primrec sm_for :: "'i list \<Rightarrow> ('i \<Rightarrow> ('s, 'e, unit) sm) \<Rightarrow> ('s, 'e, unit) sm" where
  "sm_for [] body = sm_return ()"
| "sm_for (i # is) body = sm_bind (body i) (\<lambda>_. sm_for is body)"

lemma hoare_for:
  assumes "\<And>i. i \<in> set is \<Longrightarrow> hoare P (body i) (\<lambda>_. P) E"
  shows "hoare P (sm_for is body) (\<lambda>_. P) E"
  using assms by (induction "is") (auto intro!: hoare_rules)

text \<open>\<open>xs.iter().position(P)\<close>\<close>

primrec position :: "('a \<Rightarrow> bool) \<Rightarrow> 'a list \<Rightarrow> nat option" where
  "position P [] = None"
| "position P (x # xs) = (if P x then Some 0 else map_option Suc (position P xs))"

lemma position_Some:
  "position P xs = Some i \<Longrightarrow> i < length xs \<and> P (xs ! i) \<and> (\<forall>j < i. \<not> P (xs ! j))"
proof (induction xs arbitrary: i)
  case (Cons x xs)
  then show ?case
    by (auto split: if_splits simp: nth_Cons split: nat.splits)
qed simp

lemma position_None: "position P xs = None \<longleftrightarrow> (\<forall>x \<in> set xs. \<not> P x)"
  by (induction xs) auto

text \<open>\<open>xs[off..off + n]\<close> as a value, and \<open>xs[off..].copy_from_slice(bs)\<close>.\<close>

definition slice :: "nat \<Rightarrow> nat \<Rightarrow> 'a list \<Rightarrow> 'a list" where
  "slice off n xs = take n (drop off xs)"

definition splice :: "nat \<Rightarrow> 'a list \<Rightarrow> 'a list \<Rightarrow> 'a list" where
  "splice off bs xs = take off xs @ bs @ drop (off + length bs) xs"

lemma length_slice: "off + n \<le> length xs \<Longrightarrow> length (slice off n xs) = n"
  by (simp add: slice_def)

lemma nth_slice: "off + n \<le> length xs \<Longrightarrow> i < n \<Longrightarrow> slice off n xs ! i = xs ! (off + i)"
  by (simp add: slice_def)

lemma length_splice: "off + length bs \<le> length xs \<Longrightarrow> length (splice off bs xs) = length xs"
  by (simp add: splice_def)

lemma nth_splice:
  "off + length bs \<le> length xs \<Longrightarrow> i < length xs \<Longrightarrow>
   splice off bs xs ! i = (if off \<le> i \<and> i < off + length bs then bs ! (i - off) else xs ! i)"
  by (auto simp: splice_def nth_append)

section \<open>Little-endian bytes\<close>

text \<open>
  \<open>to_le n v\<close> are the low \<open>n\<close> bytes of \<open>v\<close>, least significant first
  (\<open>v.to_le_bytes()[..n]\<close>), and \<open>from_le\<close> reads such a string back, zero-extended to
  the width of the result (\<open>from_le_bytes\<close> of a zero-padded array).
\<close>

primrec to_le :: "nat \<Rightarrow> 'a::len word \<Rightarrow> u8 list" where
  "to_le 0 v = []"
| "to_le (Suc n) v = ucast v # to_le n (drop_bit 8 v)"

primrec from_le :: "u8 list \<Rightarrow> 'a::len word" where
  "from_le [] = 0"
| "from_le (b # bs) = ucast b OR push_bit 8 (from_le bs)"

lemma length_to_le [simp]: "length (to_le n v) = n"
  by (induction n arbitrary: v) auto

lemma nth_to_le: "i < n \<Longrightarrow> to_le n v ! i = ucast (drop_bit (8 * i) v)"
proof (induction n arbitrary: v i)
  case (Suc n)
  then show ?case by (cases i) (simp_all add: algebra_simps)
qed simp

lemma bit_from_le:
  "bit (from_le bs :: 'a::len word) n \<longleftrightarrow>
     n < LENGTH('a) \<and> n div 8 < length bs \<and> bit (bs ! (n div 8)) (n mod 8)"
proof (induction bs arbitrary: n)
  case (Cons b bs)
  show ?case
  proof (cases "n < 8")
    case True
    then show ?thesis by (auto simp: bit_simps)
  next
    case False
    then have "n div 8 = Suc ((n - 8) div 8)" and "n mod 8 = (n - 8) mod 8"
      by (simp_all add: le_div_geq le_mod_geq)
    with False show ?thesis
      by (auto simp: bit_simps Cons.IH dest: bit_imp_le_length)
  qed
qed simp

lemma from_le_to_le: "from_le (to_le n v) = take_bit (8 * n) v"
  for v :: "'a::len word"
proof (rule bit_word_eqI)
  fix m
  assume m: "m < LENGTH('a)"
  have "m div 8 < n \<longleftrightarrow> m < 8 * n" by auto
  then show "bit (from_le (to_le n v) :: 'a word) m = bit (take_bit (8 * n) v) m"
    using m by (auto simp: bit_from_le nth_to_le bit_simps)
qed

lemma from_le_to_le_full [simp]: "LENGTH('a) \<le> 8 * n \<Longrightarrow> from_le (to_le n v) = v"
  for v :: "'a::len word"
  by (simp add: from_le_to_le take_bit_word_eq_self)

lemma to_le_from_le:
  assumes "8 * length bs \<le> LENGTH('a::len)"
  shows "to_le (length bs) (from_le bs :: 'a word) = bs"
proof (rule nth_equalityI)
  fix i
  assume "i < length (to_le (length bs) (from_le bs :: 'a word))"
  then have i: "i < length bs" by simp
  show "to_le (length bs) (from_le bs :: 'a word) ! i = bs ! i"
  proof (rule bit_word_eqI)
    fix k
    assume "k < LENGTH(8)"
    then have k: "k < 8" by simp
    have "(8 * i + k) div 8 = i" and "(8 * i + k) mod 8 = k" using k by simp_all
    moreover have "8 * i + k < LENGTH('a)" using i k assms by simp
    ultimately show "bit (to_le (length bs) (from_le bs :: 'a word) ! i) k = bit (bs ! i) k"
      using i k by (simp add: nth_to_le bit_simps bit_from_le)
  qed
qed simp

lemma to_le_take: "m \<le> n \<Longrightarrow> take m (to_le n v) = to_le m v"
  by (rule nth_equalityI) (simp_all add: nth_to_le)

lemma from_le_zeros [simp]: "from_le (replicate n 0) = 0"
  by (rule bit_word_eqI) (auto simp: bit_from_le)

lemma from_le_append_zeros [simp]: "from_le (bs @ replicate n 0) = from_le bs"
  by (rule bit_word_eqI) (auto simp: bit_from_le nth_append)

end
