(* ===== verification/Backing.thy ===== *)
theory Backing
  imports Prelude
begin

text \<open>
  The backing store of guest RAM (\<open>crates/rv64/src/backing.rs\<close>): the trait \<open>MemBacking\<close>
  as a record of operations, its contract as a locale, the in-memory \<open>FakeBacking\<close>, and
  the behavioural suite \<open>conformance\<close> that every implementation has to pass.
\<close>

abbreviation PAGE :: nat where "PAGE \<equiv> 4096"
abbreviation RAM_BASE :: u64 where "RAM_BASE \<equiv> 0x80000000"
abbreviation RAM_SIZE :: u64 where "RAM_SIZE \<equiv> 0x02000000"

datatype error = OutOfRange | Medium

text \<open>
  The trait. \<open>read_page\<close> returns the bytes it puts into the caller's buffer; the callers
  use the buffer only when the call succeeds.
\<close>

record 'b backing_ops =
  read_page :: "u32 \<Rightarrow> ('b, error, u8 list) sm"
  write_page :: "u32 \<Rightarrow> u8 list \<Rightarrow> ('b, error, unit) sm"
  flush_backing :: "('b, error, unit) sm"

section \<open>FakeBacking\<close>

record fake_backing =
  pages :: "u8 list list"

definition fake_new :: "u32 \<Rightarrow> fake_backing" where
  "fake_new n = \<lparr>pages = replicate (unat n) (replicate PAGE 0)\<rparr>"

definition fake_read_page :: "u32 \<Rightarrow> (fake_backing, error, u8 list) sm" where
  "fake_read_page page b =
     (if unat page < length (pages b) then (Inr (pages b ! unat page), b)
      else (Inl (Err OutOfRange), b))"

definition fake_write_page :: "u32 \<Rightarrow> u8 list \<Rightarrow> (fake_backing, error, unit) sm" where
  "fake_write_page page buf b =
     (if unat page < length (pages b) then (Inr (), b\<lparr>pages := (pages b)[unat page := buf]\<rparr>)
      else (Inl (Err OutOfRange), b))"

definition fake_flush :: "(fake_backing, error, unit) sm" where
  "fake_flush b = (Inr (), b)"

definition fake_ops :: "fake_backing backing_ops" where
  "fake_ops = \<lparr>read_page = fake_read_page, write_page = fake_write_page, flush_backing = fake_flush\<rparr>"

section \<open>The contract\<close>

text \<open>
  What the page cache relies on. \<open>contents b p\<close> is what page \<open>p\<close> of the store holds. A read
  that succeeds returns it and no read changes it; a write that succeeds replaces exactly
  that page; a write that \<^emph>\<open>fails\<close> may leave anything in the page it was writing (a torn
  write over a cable), but touches no other page. Nothing says that a call succeeds.
\<close>

locale mem_backing =
  fixes B :: "'b backing_ops"
    and contents :: "'b \<Rightarrow> u32 \<Rightarrow> u8 list"
    and binv :: "'b \<Rightarrow> bool"
  assumes read_frame: "binv b \<Longrightarrow> read_page B p b = (r, b') \<Longrightarrow> binv b' \<and> contents b' = contents b"
    and read_ok: "binv b \<Longrightarrow> read_page B p b = (Inr d, b') \<Longrightarrow> d = contents b p \<and> length d = PAGE"
    and write_ok: "binv b \<Longrightarrow> length d = PAGE \<Longrightarrow> write_page B p d b = (Inr (), b') \<Longrightarrow>
      binv b' \<and> contents b' = (contents b)(p := d)"
    and write_stop: "binv b \<Longrightarrow> length d = PAGE \<Longrightarrow> write_page B p d b = (Inl e, b') \<Longrightarrow>
      binv b' \<and> (\<forall>q. q \<noteq> p \<longrightarrow> contents b' q = contents b q)"
    and flush_frame: "binv b \<Longrightarrow> flush_backing B b = (u, b') \<Longrightarrow> binv b' \<and> contents b' = contents b"

text \<open>A store whose operations report every failure as an \<open>Err\<close> and never panic.\<close>

locale total_backing = mem_backing +
  assumes read_no_panic: "binv b \<Longrightarrow> fst (read_page B p b) \<noteq> Inl Panic"
    and write_no_panic: "binv b \<Longrightarrow> length d = PAGE \<Longrightarrow> fst (write_page B p d b) \<noteq> Inl Panic"
    and flush_no_panic: "binv b \<Longrightarrow> fst (flush_backing B b) \<noteq> Inl Panic"

text \<open>
  A store that works: \<open>cap\<close> pages, every call on one of them succeeds and every call beyond
  them is \<open>OutOfRange\<close>.
\<close>

locale flat_store = mem_backing +
  fixes cap :: "'b \<Rightarrow> nat"
  assumes read_in: "binv b \<Longrightarrow> unat p < cap b \<Longrightarrow> \<exists>d. read_page B p b = (Inr d, b)"
    and read_out: "binv b \<Longrightarrow> cap b \<le> unat p \<Longrightarrow> read_page B p b = (Inl (Err OutOfRange), b)"
    and write_in: "binv b \<Longrightarrow> unat p < cap b \<Longrightarrow> length d = PAGE \<Longrightarrow>
      \<exists>b'. write_page B p d b = (Inr (), b') \<and> cap b' = cap b"
    and write_out: "binv b \<Longrightarrow> cap b \<le> unat p \<Longrightarrow> length d = PAGE \<Longrightarrow>
      write_page B p d b = (Inl (Err OutOfRange), b)"
    and flush_in: "binv b \<Longrightarrow> flush_backing B b = (Inr (), b)"

sublocale flat_store \<subseteq> total_backing B contents binv
proof (unfold_locales, goal_cases)
  case (1 b p)
  then show ?case using read_in [of b p] read_out [of b p] by fastforce
next
  case (2 b d p)
  then show ?case using write_in [of b p d] write_out [of b p d] by fastforce
next
  case (3 b)
  then show ?case using flush_in [of b] by simp
qed

definition fake_contents :: "fake_backing \<Rightarrow> u32 \<Rightarrow> u8 list" where
  "fake_contents b p = (if unat p < length (pages b) then pages b ! unat p else [])"

definition fake_inv :: "fake_backing \<Rightarrow> bool" where
  "fake_inv b \<longleftrightarrow> (\<forall>d \<in> set (pages b). length d = PAGE)"

lemmas fake_defs = fake_ops_def fake_read_page_def fake_write_page_def fake_flush_def
  fake_contents_def fake_inv_def

interpretation fake: flat_store fake_ops fake_contents fake_inv "\<lambda>b. length (pages b)"
proof (unfold_locales, goal_cases)
  case (3 b d p b')
  then show ?case
    by (auto simp: fake_defs fun_eq_iff nth_list_update word_unat_eq_iff split: if_splits
      dest!: set_update_subset_insert [THEN subsetD])
qed (auto simp: fake_defs fun_eq_iff split: if_splits)

lemma fake_inv_new [simp]: "fake_inv (fake_new n)"
  by (simp add: fake_inv_def fake_new_def)

section \<open>The conformance suite\<close>

text \<open>\<open>assert!(b)\<close> and \<open>m.unwrap()\<close>.\<close>

definition sm_assert :: "bool \<Rightarrow> ('s, 'e, unit) sm" where
  "sm_assert b = (if b then sm_return () else sm_panic)"

definition sm_unwrap :: "('s, 'e, 'a) sm \<Rightarrow> ('s, 'e, 'a) sm" where
  "sm_unwrap m s = (case m s of (Inl _, s') \<Rightarrow> (Inl Panic, s') | (Inr a, s') \<Rightarrow> (Inr a, s'))"

text \<open>\<open>assert_eq!(m, Err(e))\<close>\<close>

definition sm_assert_err :: "('s, 'e, 'a) sm \<Rightarrow> 'e \<Rightarrow> ('s, 'e, unit) sm" where
  "sm_assert_err m e s = (case m s of (Inl (Err e'), s') \<Rightarrow> sm_assert (e' = e) s' | (_, s') \<Rightarrow> (Inl Panic, s'))"

definition zero_page :: "u8 list" where
  "zero_page = replicate PAGE 0"

definition pattern_page :: "u8 list" where
  "pattern_page = map (\<lambda>i. of_nat (i mod 251)) [0..<PAGE]"

definition conformance :: "'b backing_ops \<Rightarrow> u32 \<Rightarrow> ('b, error, unit) sm" where
  "conformance B n =
     sm_bind (sm_assert (4 \<le> n)) (\<lambda>_.
     sm_bind (sm_unwrap (read_page B 0)) (\<lambda>buf.
     sm_bind (sm_assert (list_all (\<lambda>x. x = 0) buf)) (\<lambda>_.
     sm_bind (sm_unwrap (write_page B 1 pattern_page)) (\<lambda>_.
     sm_bind (sm_unwrap (read_page B 1)) (\<lambda>r.
     sm_bind (sm_assert (r = pattern_page)) (\<lambda>_.
     sm_bind (sm_unwrap (read_page B 0)) (\<lambda>r.
     sm_bind (sm_assert (list_all (\<lambda>x. x = 0) r)) (\<lambda>_.
     sm_bind (sm_unwrap (read_page B 2)) (\<lambda>r.
     sm_bind (sm_assert (list_all (\<lambda>x. x = 0) r)) (\<lambda>_.
     sm_bind (sm_unwrap (write_page B 1 zero_page)) (\<lambda>_.
     sm_bind (sm_unwrap (read_page B 1)) (\<lambda>r.
     sm_bind (sm_assert (r = zero_page)) (\<lambda>_.
     sm_bind (sm_unwrap (write_page B 3 pattern_page)) (\<lambda>_.
     sm_bind (sm_unwrap (flush_backing B)) (\<lambda>_.
     sm_bind (sm_unwrap (read_page B 3)) (\<lambda>r.
     sm_bind (sm_assert (r = pattern_page)) (\<lambda>_.
     sm_bind (sm_assert_err (read_page B n) OutOfRange) (\<lambda>_.
     sm_bind (sm_assert_err (write_page B n pattern_page) OutOfRange) (\<lambda>_.
     sm_unwrap (flush_backing B))))))))))))))))))))"

lemma length_pattern_page [simp]: "length pattern_page = PAGE"
  by (simp add: pattern_page_def)

lemma length_zero_page [simp]: "length zero_page = PAGE"
  by (simp add: zero_page_def)

lemma list_all_zero_page [simp]: "list_all (\<lambda>x. x = 0) zero_page"
  by (simp add: zero_page_def list_all_iff)

text \<open>The contract implies the suite: a store that meets it, starts zeroed and has exactly the
  announced number of pages passes.\<close>

context flat_store
begin

lemma read_eq: "binv b \<Longrightarrow> unat p < cap b \<Longrightarrow> read_page B p b = (Inr (contents b p), b)"
  using read_in [of b p] read_ok [of b p] by fastforce

lemma write_eq:
  assumes "binv b" and "unat p < cap b" and "length d = PAGE"
  obtains b' where "write_page B p d b = (Inr (), b')" and "binv b'" and "cap b' = cap b"
    and "contents b' = (contents b)(p := d)"
  using write_in [OF assms] write_ok [OF assms(1,3)] by blast

lemma conformance_passes:
  assumes b: "binv b" and cap: "cap b = unat n" and n: "4 \<le> n"
    and fresh: "\<And>p. unat p < cap b \<Longrightarrow> contents b p = zero_page"
  shows "\<exists>b'. conformance B n b = (Inr (), b') \<and> binv b' \<and>
           contents b' = (contents b)(1 := zero_page, 3 := pattern_page)"
proof -
  have 4: "4 \<le> cap b" using n cap by (simp add: word_le_nat_alt)
  obtain b1 where b1: "write_page B 1 pattern_page b = (Inr (), b1)" "binv b1" "cap b1 = cap b"
    "contents b1 = (contents b)(1 := pattern_page)"
    using write_eq [OF b, of 1 pattern_page] 4 by auto
  obtain b2 where b2: "write_page B 1 zero_page b1 = (Inr (), b2)" "binv b2" "cap b2 = cap b"
    "contents b2 = (contents b)(1 := zero_page)"
    using write_eq [OF b1(2), of 1 zero_page] 4 b1(3,4) by (auto simp: fun_upd_upd)
  obtain b3 where b3: "write_page B 3 pattern_page b2 = (Inr (), b3)" "binv b3" "cap b3 = cap b"
    "contents b3 = (contents b)(1 := zero_page, 3 := pattern_page)"
    using write_eq [OF b2(2), of 3 pattern_page] 4 b2(3,4) by auto
  have z: "contents b 0 = zero_page" "contents b 2 = zero_page"
    using fresh 4 by auto
  have r: "read_page B 0 b = (Inr zero_page, b)" "read_page B 0 b1 = (Inr zero_page, b1)"
      "read_page B 1 b1 = (Inr pattern_page, b1)" "read_page B 2 b1 = (Inr zero_page, b1)"
      "read_page B 1 b2 = (Inr zero_page, b2)" "read_page B 3 b3 = (Inr pattern_page, b3)"
    using read_eq [OF b] read_eq [OF b1(2)] read_eq [OF b2(2)] read_eq [OF b3(2)] 4 z
      b1(3,4) b2(3,4) b3(3,4) by simp_all
  have o: "read_page B n b3 = (Inl (Err OutOfRange), b3)"
      "write_page B n pattern_page b3 = (Inl (Err OutOfRange), b3)"
    using read_out [OF b3(2)] write_out [OF b3(2)] b3(3) cap by simp_all
  show ?thesis
    using b1 b2 b3 r o n flush_in [OF b3(2)]
    by (simp add: conformance_def sm_bind_def sm_unwrap_def sm_assert_def sm_assert_err_def sm_defs)
qed

end

text \<open>The in-memory store passes the conformance suite at every size of at least
  four pages, and the suite ends with page 3 holding the test pattern.\<close>

theorem fake_backing_conforms:
  assumes "4 \<le> n"
  shows "\<exists>b'. conformance fake_ops n (fake_new n) = (Inr (), b') \<and>
           fake_contents b' 3 = pattern_page"
proof -
  have "\<And>p. unat p < length (pages (fake_new n)) \<Longrightarrow> fake_contents (fake_new n) p = zero_page"
    by (simp add: fake_contents_def fake_new_def zero_page_def)
  moreover have "length (pages (fake_new n)) = unat n" by (simp add: fake_new_def)
  ultimately show ?thesis
    using fake.conformance_passes [OF fake_inv_new _ assms] by fastforce
qed

lemma fake_backing_conforms_witness:
  "\<exists>b'. conformance fake_ops 16 (fake_new 16) = (Inr (), b') \<and> fake_contents b' 3 = pattern_page"
  by (rule fake_backing_conforms) simp

end
