(* ===== verification/Cache.thy ===== *)
theory Cache
  imports Backing
begin

text \<open>
  The demand-paged cache of guest RAM (\<open>crates/rv64/src/cache.rs\<close>): frames, the residency
  index, CLOCK eviction with pinning, the declined writeback, byte and sized accesses. Two
  layers of lemmas: the index invariant (index and frames describe each other), and the
  refinement to flat memory (what a page \<^emph>\<open>holds\<close> is its frame if it is resident and the
  store's page otherwise, and no cache operation but a write changes it).
\<close>

abbreviation RAM_PAGES :: nat where "RAM_PAGES \<equiv> 8192"

record stats =
  hits :: u64
  misses :: u64
  writebacks :: u64
  evictions :: u64
  declined :: u64

definition stats_default :: stats where
  "stats_default = \<lparr>hits = 0, misses = 0, writebacks = 0, evictions = 0, declined = 0\<rparr>"

text \<open>\<open>gpa.checked_add(len as u64)\<close>, then the two bounds.\<close>

definition check_range :: "u64 \<Rightarrow> nat \<Rightarrow> error stop + unit" where
  "check_range gpa len =
     (if 2 ^ 64 \<le> unat gpa + len then Inl (Err OutOfRange)
      else let end = gpa + of_nat len
        in if gpa < RAM_BASE \<or> RAM_BASE + RAM_SIZE < end then Inl (Err OutOfRange) else Inr ())"

record frame =
  f_page :: u32
  f_dirty :: bool
  f_referenced :: bool
  f_pinned :: bool
  f_data :: "u8 list"

record 'b page_cache =
  backing :: 'b
  frames :: "frame list"
  slot_of :: "u16 list"
  hand :: nat
  capacity :: nat
  cstats :: stats

abbreviation NOT_RESIDENT :: u16 where "NOT_RESIDENT \<equiv> 0"

text \<open>\<open>PageCache::new\<close>; its two assertions are the panics.\<close>

definition cache_new :: "'b \<Rightarrow> nat \<Rightarrow> error stop + 'b page_cache" where
  "cache_new b cap =
     (if \<not> 1 \<le> cap then Inl Panic
      else if \<not> cap \<le> RAM_PAGES then Inl Panic
      else Inr \<lparr>backing = b, frames = [], slot_of = replicate RAM_PAGES NOT_RESIDENT, hand = 0,
                capacity = cap, cstats = stats_default\<rparr>)"

definition resident_slot :: "'b page_cache \<Rightarrow> u32 \<Rightarrow> nat option" where
  "resident_slot c page =
     (if unat page < length (slot_of c)
      then let slot = slot_of c ! unat page in if slot = NOT_RESIDENT then None else Some (unat slot - 1)
      else None)"

definition set_resident :: "u32 \<Rightarrow> nat \<Rightarrow> ('b page_cache, error, unit) sm" where
  "set_resident page slot c =
     (if unat page < length (slot_of c)
      then (Inr (), c\<lparr>slot_of := (slot_of c)[unat page := of_nat slot + 1]\<rparr>) else (Inl Panic, c))"

definition clear_resident :: "u32 \<Rightarrow> ('b page_cache, error, unit) sm" where
  "clear_resident page c =
     (if unat page < length (slot_of c)
      then (Inr (), c\<lparr>slot_of := (slot_of c)[unat page := NOT_RESIDENT]\<rparr>) else (Inl Panic, c))"

text \<open>\<open>self.frames[i]\<close> and an assignment to it.\<close>

definition frame_at :: "nat \<Rightarrow> ('b page_cache, error, frame) sm" where
  "frame_at i c = (if i < length (frames c) then (Inr (frames c ! i), c) else (Inl Panic, c))"

definition set_frame :: "nat \<Rightarrow> frame \<Rightarrow> 'b page_cache \<Rightarrow> 'b page_cache" where
  "set_frame i f c = c\<lparr>frames := (frames c)[i := f]\<rparr>"

definition modify_frame :: "nat \<Rightarrow> (frame \<Rightarrow> frame) \<Rightarrow> ('b page_cache, error, unit) sm" where
  "modify_frame i h = sm_bind (frame_at i) (\<lambda>f. sm_modify (set_frame i (h f)))"

definition modify_stats :: "(stats \<Rightarrow> stats) \<Rightarrow> ('b page_cache, error, unit) sm" where
  "modify_stats h = sm_modify (\<lambda>c. c\<lparr>cstats := h (cstats c)\<rparr>)"

definition on_backing :: "('b, error, 'a) sm \<Rightarrow> ('b page_cache, error, 'a) sm" where
  "on_backing = sm_field backing (\<lambda>b c. c\<lparr>backing := b\<rparr>)"

definition pin :: "u32 \<Rightarrow> ('b page_cache, error, unit) sm" where
  "pin page c =
     (case resident_slot c page of
        Some i \<Rightarrow> modify_frame i (\<lambda>f. f\<lparr>f_pinned := True\<rparr>) c
      | None \<Rightarrow> (Inr (), c))"

definition cache_flush :: "'b backing_ops \<Rightarrow> ('b page_cache, error, unit) sm" where
  "cache_flush B = sm_bind (sm_get (\<lambda>c. length (frames c))) (\<lambda>n.
     sm_bind (sm_for [0..<n] (\<lambda>i. sm_bind (frame_at i) (\<lambda>f.
       if f_dirty f then
         sm_bind (on_backing (write_page B (f_page f) (f_data f))) (\<lambda>_.
         sm_bind (modify_frame i (\<lambda>f. f\<lparr>f_dirty := False\<rparr>)) (\<lambda>_.
         modify_stats (\<lambda>s. s\<lparr>writebacks := writebacks s + 1\<rparr>)))
       else sm_return ())))
     (\<lambda>_. on_backing (flush_backing B)))"

text \<open>
  CLOCK. The first argument is the number of iterations the bounded \<open>for\<close> loop has left, which
  starts at twice the number of frames; \<open>None\<close> is falling out of the loop.
\<close>

fun clock_sweep :: "nat \<Rightarrow> ('b page_cache, error, nat option) sm" where
  "clock_sweep 0 c = (Inr None, c)"
| "clock_sweep (Suc k) c =
     (let n = length (frames c); i = hand c; c' = c\<lparr>hand := (i + 1) mod n\<rparr> in
      if n \<le> i then (Inl Panic, c')
      else if f_pinned (frames c ! i) then clock_sweep k c'
      else if f_referenced (frames c ! i)
      then clock_sweep k (set_frame i ((frames c ! i)\<lparr>f_referenced := False\<rparr>) c')
      else (Inr (Some i), c'))"

definition select_victim :: "('b page_cache, error, nat) sm" where
  "select_victim = sm_bind (\<lambda>c. clock_sweep (2 * length (frames c)) c) (\<lambda>r.
     case r of Some i \<Rightarrow> sm_return i
     | None \<Rightarrow> (\<lambda>c. case position (\<lambda>f. \<not> f_pinned f) (frames c) of
                  Some i \<Rightarrow> (Inr i, c) | None \<Rightarrow> (Inl Panic, c)))"

text \<open>
  The emergency scan: the offsets still to visit and the first hot clean frame seen. The hand
  moves only when a frame is taken.
\<close>

fun clean_scan :: "nat list \<Rightarrow> nat option \<Rightarrow> 'b page_cache \<Rightarrow> nat option \<times> 'b page_cache" where
  "clean_scan [] hot c =
     (case hot of None \<Rightarrow> (None, c) | Some i \<Rightarrow> (Some i, c\<lparr>hand := (i + 1) mod length (frames c)\<rparr>))"
| "clean_scan (k # ks) hot c =
     (let n = length (frames c); i = (hand c + k) mod n; f = frames c ! i in
      if f_pinned f \<or> f_dirty f then clean_scan ks hot c
      else if \<not> f_referenced f then (Some i, c\<lparr>hand := (i + 1) mod n\<rparr>)
      else clean_scan ks (if hot = None then Some i else hot) c)"

definition select_clean_victim :: "('b page_cache, error, nat option) sm" where
  "select_clean_victim c = (case clean_scan [0..<length (frames c)] None c of (r, c') \<Rightarrow> (Inr r, c'))"

text \<open>\<open>PageCache::resident\<close>, in the code's order: hit, range, read, a free frame or a victim.\<close>

definition fresh_frame :: "u32 \<Rightarrow> u8 list \<Rightarrow> frame" where
  "fresh_frame page data =
     \<lparr>f_page = page, f_dirty = False, f_referenced = True, f_pinned = False, f_data = data\<rparr>"

definition write_back_or_decline :: "'b backing_ops \<Rightarrow> nat \<Rightarrow> ('b page_cache, error, nat) sm" where
  "write_back_or_decline B victim = sm_bind (frame_at victim) (\<lambda>f.
     if f_dirty f then
       (\<lambda>c. case on_backing (write_page B (f_page f) (f_data f)) c of
          (Inr _, c') \<Rightarrow>
            sm_bind (modify_stats (\<lambda>s. s\<lparr>writebacks := writebacks s + 1\<rparr>)) (\<lambda>_. sm_return victim) c'
        | (Inl Panic, c') \<Rightarrow> (Inl Panic, c')
        | (Inl (Err e), c') \<Rightarrow>
            sm_bind select_clean_victim (\<lambda>r. case r of
               Some clean \<Rightarrow>
                 sm_bind (modify_stats (\<lambda>s. s\<lparr>declined := declined s + 1\<rparr>)) (\<lambda>_. sm_return clean)
             | None \<Rightarrow> sm_err e) c')
     else sm_return victim)"

definition evict_into :: "'b backing_ops \<Rightarrow> u32 \<Rightarrow> u8 list \<Rightarrow> ('b page_cache, error, nat) sm" where
  "evict_into B page data =
     sm_bind select_victim (\<lambda>v.
     sm_bind (write_back_or_decline B v) (\<lambda>victim.
     sm_bind (modify_stats (\<lambda>s. s\<lparr>evictions := evictions s + 1\<rparr>)) (\<lambda>_.
     sm_bind (frame_at victim) (\<lambda>f.
     sm_bind (clear_resident (f_page f)) (\<lambda>_.
     sm_bind (modify_frame victim (\<lambda>_. fresh_frame page data)) (\<lambda>_.
     sm_bind (set_resident page victim) (\<lambda>_.
     sm_return victim)))))))"

definition admit :: "u32 \<Rightarrow> u8 list \<Rightarrow> ('b page_cache, error, nat) sm" where
  "admit page data =
     sm_bind (sm_modify (\<lambda>c. c\<lparr>frames := frames c @ [fresh_frame page data]\<rparr>)) (\<lambda>_.
     sm_bind (sm_get (\<lambda>c. length (frames c) - 1)) (\<lambda>slot.
     sm_bind (set_resident page slot) (\<lambda>_.
     sm_return slot)))"

definition resident :: "'b backing_ops \<Rightarrow> u32 \<Rightarrow> ('b page_cache, error, nat) sm" where
  "resident B page c =
     (case resident_slot c page of
        Some i \<Rightarrow>
          sm_bind (modify_frame i (\<lambda>f. f\<lparr>f_referenced := True\<rparr>)) (\<lambda>_.
          sm_bind (modify_stats (\<lambda>s. s\<lparr>hits := hits s + 1\<rparr>)) (\<lambda>_. sm_return i)) c
      | None \<Rightarrow>
          if RAM_PAGES \<le> unat page then sm_err OutOfRange c
          else sm_bind (modify_stats (\<lambda>s. s\<lparr>misses := misses s + 1\<rparr>)) (\<lambda>_.
               sm_bind (on_backing (read_page B page)) (\<lambda>data.
               \<lambda>c. if length (frames c) < capacity c then admit page data c
                   else evict_into B page data c)) c)"

definition page_of :: "u64 \<Rightarrow> u32" where
  "page_of gpa = ucast ((gpa - RAM_BASE) div of_nat PAGE)"

text \<open>\<open>(addr as usize) % PAGE\<close>\<close>

definition page_off :: "u64 \<Rightarrow> nat" where
  "page_off addr = unat addr mod PAGE"

lemma page_off_less [simp]: "page_off a < PAGE"
  by (simp add: page_off_def)

text \<open>
  The loops of \<open>read_bytes\<close> and \<open>write_bytes\<close>, from the address of the next byte and what is
  left: the chunk ends at the page boundary or with the buffer.
\<close>

function read_chunks :: "'b backing_ops \<Rightarrow> u64 \<Rightarrow> nat \<Rightarrow> ('b page_cache, error, u8 list) sm" where
  "read_chunks B addr len =
     (if len = 0 then sm_return []
      else let off = page_off addr; n = min (PAGE - off) len in
        sm_bind (resident B (page_of addr)) (\<lambda>idx.
        sm_bind (frame_at idx) (\<lambda>f.
        sm_bind (read_chunks B (addr + of_nat n) (len - n)) (\<lambda>rest.
        sm_return (slice off n (f_data f) @ rest)))))"
  by pat_completeness auto
termination
  by (relation "measure (\<lambda>(B, addr, len). len)") auto

function write_chunks :: "'b backing_ops \<Rightarrow> u64 \<Rightarrow> u8 list \<Rightarrow> ('b page_cache, error, unit) sm" where
  "write_chunks B addr bs =
     (if bs = [] then sm_return ()
      else let off = page_off addr; n = min (PAGE - off) (length bs) in
        sm_bind (resident B (page_of addr)) (\<lambda>idx.
        sm_bind (modify_frame idx (\<lambda>f. f\<lparr>f_data := splice off (take n bs) (f_data f), f_dirty := True\<rparr>)) (\<lambda>_.
        write_chunks B (addr + of_nat n) (drop n bs))))"
  by pat_completeness auto
termination
  by (relation "measure (\<lambda>(B, addr, bs). length bs)") auto

declare read_chunks.simps [simp del] write_chunks.simps [simp del]

definition read_bytes :: "'b backing_ops \<Rightarrow> u64 \<Rightarrow> nat \<Rightarrow> ('b page_cache, error, u8 list) sm" where
  "read_bytes B gpa len =
     (case check_range gpa len of Inl e \<Rightarrow> (\<lambda>c. (Inl e, c)) | Inr _ \<Rightarrow> read_chunks B gpa len)"

definition write_bytes :: "'b backing_ops \<Rightarrow> u64 \<Rightarrow> u8 list \<Rightarrow> ('b page_cache, error, unit) sm" where
  "write_bytes B gpa buf =
     (case check_range gpa (length buf) of
        Inl e \<Rightarrow> (\<lambda>c. (Inl e, c)) | Inr _ \<Rightarrow> write_chunks B gpa buf)"

text \<open>\<open>read_le::<N>\<close> and \<open>write_le::<N>\<close>: one page inline, a straddling access by the byte loop.\<close>

definition read_le :: "'b backing_ops \<Rightarrow> nat \<Rightarrow> u64 \<Rightarrow> ('b page_cache, error, u64) sm" where
  "read_le B N gpa =
     (case check_range gpa N of
        Inl e \<Rightarrow> (\<lambda>c. (Inl e, c))
      | Inr _ \<Rightarrow>
          let off = page_off gpa in
          if off + N \<le> PAGE then
            sm_bind (resident B (page_of gpa)) (\<lambda>idx.
            sm_bind (frame_at idx) (\<lambda>f.
            sm_return (from_le (slice off N (f_data f) @ replicate (8 - N) 0))))
          else sm_bind (read_bytes B gpa N) (\<lambda>bytes.
            sm_return (from_le (bytes @ replicate (8 - N) 0))))"

definition write_le :: "'b backing_ops \<Rightarrow> nat \<Rightarrow> u64 \<Rightarrow> u64 \<Rightarrow> ('b page_cache, error, unit) sm" where
  "write_le B N gpa value =
     (case check_range gpa N of
        Inl e \<Rightarrow> (\<lambda>c. (Inl e, c))
      | Inr _ \<Rightarrow>
          let bytes = to_le 8 value; off = page_off gpa in
          if PAGE < off + N then write_bytes B gpa (take N bytes)
          else sm_bind (resident B (page_of gpa)) (\<lambda>idx.
            modify_frame idx (\<lambda>f. f\<lparr>f_data := splice off (take N bytes) (f_data f), f_dirty := True\<rparr>)))"

section \<open>The residency index\<close>

text \<open>
  The invariant the source states: the index maps a page to a slot if and only if the frame in
  that slot holds the page. It holds whatever the store does.
\<close>

definition index_ok :: "'b page_cache \<Rightarrow> bool" where
  "index_ok c \<longleftrightarrow>
     length (slot_of c) = RAM_PAGES \<and> 1 \<le> capacity c \<and> capacity c \<le> RAM_PAGES \<and>
     length (frames c) \<le> capacity c \<and>
     (if frames c = [] then hand c = 0 else hand c < length (frames c)) \<and>
     (\<forall>p i. resident_slot c p = Some i \<longleftrightarrow> i < length (frames c) \<and> f_page (frames c ! i) = p)"

lemma index_ok_new: "cache_new b cap = Inr c \<Longrightarrow> index_ok c"
  by (auto simp: cache_new_def index_ok_def resident_slot_def split: if_splits)

lemma resident_slot_bounds:
  "index_ok c \<Longrightarrow> resident_slot c p = Some i \<Longrightarrow> i < length (frames c) \<and> f_page (frames c ! i) = p"
  by (simp add: index_ok_def)

lemma frame_page_less: "index_ok c \<Longrightarrow> i < length (frames c) \<Longrightarrow> unat (f_page (frames c ! i)) < RAM_PAGES"
proof -
  assume ok: "index_ok c" and i: "i < length (frames c)"
  then have "resident_slot c (f_page (frames c ! i)) = Some i" by (simp add: index_ok_def)
  with ok show ?thesis by (auto simp: resident_slot_def index_ok_def split: if_splits)
qed

lemma resident_slot_cong: "slot_of c' = slot_of c \<Longrightarrow> resident_slot c' = resident_slot c"
  by (rule ext) (simp add: resident_slot_def)

lemma resident_slot_simps [simp]:
  "resident_slot (c\<lparr>frames := fs\<rparr>) = resident_slot c"
  "resident_slot (c\<lparr>hand := h\<rparr>) = resident_slot c"
  "resident_slot (c\<lparr>cstats := st\<rparr>) = resident_slot c"
  "resident_slot (c\<lparr>backing := b\<rparr>) = resident_slot c"
  "resident_slot (set_frame i f c) = resident_slot c"
  by (simp_all add: fun_eq_iff resident_slot_def set_frame_def)

text \<open>Storing a biased slot is lossless below the capacity bound.\<close>

lemma unat_biased_slot: "slot < RAM_PAGES \<Longrightarrow> unat (of_nat slot + 1 :: u16) = Suc slot"
proof -
  assume s: "slot < RAM_PAGES"
  have "(of_nat slot + 1 :: u16) = of_nat (Suc slot)" by simp
  also have "unat \<dots> = Suc slot" using s by (simp only: unat_of_nat) simp
  finally show ?thesis .
qed

lemma biased_slot_nonzero: "slot < RAM_PAGES \<Longrightarrow> (of_nat slot + 1 :: u16) \<noteq> 0"
  using unat_biased_slot [of slot] by auto

lemma resident_slot_upd:
  assumes "length (slot_of c) = RAM_PAGES" and "unat p < RAM_PAGES" and "slot < RAM_PAGES"
  shows "resident_slot (c\<lparr>slot_of := (slot_of c)[unat p := of_nat slot + 1]\<rparr>) q =
         (if q = p then Some slot else resident_slot c q)"
  using assms unat_biased_slot [OF assms(3)] biased_slot_nonzero [OF assms(3)]
  by (auto simp: resident_slot_def Let_def nth_list_update word_unat_eq_iff)

lemma resident_slot_clear:
  assumes "length (slot_of c) = RAM_PAGES" and "unat p < RAM_PAGES"
  shows "resident_slot (c\<lparr>slot_of := (slot_of c)[unat p := NOT_RESIDENT]\<rparr>) q =
         (if q = p then None else resident_slot c q)"
  using assms by (auto simp: resident_slot_def Let_def nth_list_update word_unat_eq_iff)

text \<open>Changes that leave pages, pins, dirt and data of the frames alone: a reference bit, the
  hand, a counter.\<close>

definition unref :: "frame \<Rightarrow> frame" where
  "unref f = f\<lparr>f_referenced := False\<rparr>"

lemma unref_fields [simp]:
  "f_page (unref f) = f_page f" "f_dirty (unref f) = f_dirty f" "f_pinned (unref f) = f_pinned f"
  "f_data (unref f) = f_data f" "unref (f\<lparr>f_referenced := b\<rparr>) = unref f"
  by (simp_all add: unref_def)

definition aged :: "'b page_cache \<Rightarrow> 'b page_cache \<Rightarrow> bool" where
  "aged c c' \<longleftrightarrow> map unref (frames c') = map unref (frames c) \<and> slot_of c' = slot_of c \<and>
     capacity c' = capacity c \<and> backing c' = backing c \<and>
     (frames c \<noteq> [] \<longrightarrow> hand c < length (frames c) \<longrightarrow> hand c' < length (frames c)) \<and>
     (frames c = [] \<longrightarrow> hand c' = hand c)"

lemma aged_refl [simp]: "aged c c"
  by (simp add: aged_def)

lemma aged_length: "aged c c' \<Longrightarrow> length (frames c') = length (frames c)"
  unfolding aged_def by (metis length_map)

lemma aged_trans: "aged a b \<Longrightarrow> aged b c \<Longrightarrow> aged a c"
  using aged_length [of a b] by (auto simp: aged_def)

lemma aged_nth:
  assumes "aged c c'" and "i < length (frames c)"
  shows "unref (frames c' ! i) = unref (frames c ! i)"
  using assms aged_length [OF assms(1)] unfolding aged_def by (metis nth_map)

lemma aged_fields:
  assumes "aged c c'" and "i < length (frames c)"
  shows "f_page (frames c' ! i) = f_page (frames c ! i)" "f_dirty (frames c' ! i) = f_dirty (frames c ! i)"
    "f_pinned (frames c' ! i) = f_pinned (frames c ! i)" "f_data (frames c' ! i) = f_data (frames c ! i)"
  using aged_nth [OF assms] by (metis unref_fields)+

lemma aged_resident_slot: "aged c c' \<Longrightarrow> resident_slot c' = resident_slot c"
  by (rule resident_slot_cong) (simp add: aged_def)

lemma aged_index_ok: "aged c c' \<Longrightarrow> index_ok c \<Longrightarrow> index_ok c'"
proof -
  assume a: "aged c c'" and ok: "index_ok c"
  note len = aged_length [OF a] and slot = aged_resident_slot [OF a] and page = aged_fields(1) [OF a]
  from ok have "\<forall>p i. resident_slot c' p = Some i \<longleftrightarrow> i < length (frames c') \<and> f_page (frames c' ! i) = p"
    by (auto simp: index_ok_def slot len page)
  with ok a len show ?thesis by (auto simp: index_ok_def aged_def)
qed

lemma aged_set_referenced:
  "aged c (set_frame i ((frames c ! i)\<lparr>f_referenced := b\<rparr>) c)"
proof -
  have "(map unref (frames c))[i := unref (frames c ! i)] = map unref (frames c)"
    by (metis length_map linorder_not_less list_update_beyond list_update_id nth_map)
  then show ?thesis by (simp add: aged_def set_frame_def map_update)
qed

lemma aged_cstats [simp]: "aged c (c\<lparr>cstats := st\<rparr>)"
  by (simp add: aged_def)

lemma aged_hand: "(frames c \<noteq> [] \<Longrightarrow> h < length (frames c)) \<Longrightarrow> frames c \<noteq> [] \<Longrightarrow> aged c (c\<lparr>hand := h\<rparr>)"
  by (simp add: aged_def)


section \<open>Choosing a victim\<close>

lemma suc_mod_less [simp]: "h < n \<Longrightarrow> Suc h mod n < (n :: nat)"
  by (meson mod_less_divisor order_le_less_trans zero_le)

lemma suc_mod_shift [simp]: "(Suc h mod n + j) mod n = Suc (h + j) mod (n :: nat)"
  by (metis add_Suc mod_add_left_eq)

lemma clock_sweep_aged:
  assumes "hand c < length (frames c)" and "clock_sweep k c = (r, c')"
  shows "aged c c' \<and> hand c' < length (frames c) \<and>
    (\<exists>v. r = Inr v \<and> (\<forall>i. v = Some i \<longrightarrow> i < length (frames c) \<and> \<not> f_pinned (frames c ! i)))"
  using assms
proof (induction k arbitrary: c)
  case (Suc k)
  let ?n = "length (frames c)" and ?i = "hand c"
  let ?c1 = "c\<lparr>hand := (?i + 1) mod ?n\<rparr>"
  let ?c2 = "set_frame ?i ((frames c ! ?i)\<lparr>f_referenced := False\<rparr>) ?c1"
  have ne: "frames c \<noteq> []" and n: "(?i + 1) mod ?n < ?n" using Suc.prems(1) by (cases "frames c", simp_all)
  have a1: "aged c ?c1" by (rule aged_hand) (use n ne in auto)
  have a2: "aged c ?c2"
    using aged_trans [OF a1 aged_set_referenced [of ?c1 ?i False]] by simp
  have l2: "length (frames ?c2) = ?n" by (simp add: set_frame_def)
  have h2: "hand ?c2 < length (frames ?c2)" using n by (simp add: set_frame_def)
  have pin2: "\<And>i. i < ?n \<Longrightarrow> f_pinned (frames ?c2 ! i) = f_pinned (frames c ! i)"
    by (rule aged_fields(3) [OF a2])
  consider "f_pinned (frames c ! ?i)" | "\<not> f_pinned (frames c ! ?i)" "f_referenced (frames c ! ?i)"
    | "\<not> f_pinned (frames c ! ?i)" "\<not> f_referenced (frames c ! ?i)" by blast
  then show ?case
  proof cases
    case 1
    with Suc.prems have "clock_sweep k ?c1 = (r, c')" by (simp add: Let_def)
    from Suc.IH [OF _ this] n show ?thesis using aged_trans [OF a1] by auto
  next
    case 2
    with Suc.prems have "clock_sweep k ?c2 = (r, c')" by (simp add: Let_def)
    from Suc.IH [OF h2 this] show ?thesis using aged_trans [OF a2] pin2 l2 by auto
  next
    case 3
    with Suc.prems a1 n show ?thesis by (auto simp: Let_def)
  qed
qed auto

lemma clock_sweep_add:
  "clock_sweep (a + b) c =
     sm_bind (clock_sweep a) (\<lambda>r. case r of Some i \<Rightarrow> sm_return (Some i) | None \<Rightarrow> clock_sweep b) c"
proof (induction a arbitrary: c)
  case 0
  then show ?case by (simp add: sm_bind_def)
next
  case (Suc a)
  then show ?case by (simp add: Let_def sm_bind_def sm_return_def)
qed

text \<open>A pass that takes nothing leaves every unpinned frame it visited unreferenced \<dots>\<close>

lemma clock_sweep_clears:
  assumes "hand c < length (frames c)" and "clock_sweep k c = (Inr None, c')"
  shows "(\<forall>j < k. f_pinned (frames c ! ((hand c + j) mod length (frames c))) \<or>
                 \<not> f_referenced (frames c' ! ((hand c + j) mod length (frames c)))) \<and>
         (\<forall>i < length (frames c). \<not> f_referenced (frames c ! i) \<longrightarrow> \<not> f_referenced (frames c' ! i))"
  using assms
proof (induction k arbitrary: c)
  case (Suc k)
  let ?n = "length (frames c)" and ?i = "hand c"
  let ?c1 = "c\<lparr>hand := (?i + 1) mod ?n\<rparr>"
  let ?c2 = "set_frame ?i ((frames c ! ?i)\<lparr>f_referenced := False\<rparr>) ?c1"
  have n: "(?i + 1) mod ?n < ?n" using Suc.prems(1) by simp
  have idx: "hand c mod ?n = ?i" using Suc.prems(1) by simp
  show ?case
  proof (cases "f_pinned (frames c ! ?i)")
    case True
    with Suc.prems have "clock_sweep k ?c1 = (Inr None, c')" by (simp add: Let_def)
    from Suc.IH [OF _ this] n True show ?thesis
      by (auto simp: idx less_Suc_eq_0_disj)
  next
    case False
    with Suc.prems have "f_referenced (frames c ! ?i)" and s: "clock_sweep k ?c2 = (Inr None, c')"
      by (auto simp: Let_def split: if_splits)
    have h2: "hand ?c2 < length (frames ?c2)" using n by (simp add: set_frame_def)
    note ih = Suc.IH [OF h2 s]
    have pin2: "f_pinned (frames ?c2 ! i) = f_pinned (frames c ! i)" if "i < ?n" for i
      using that Suc.prems(1) by (simp add: set_frame_def nth_list_update)
    have m: "Suc (?i + j) mod ?n < ?n" for j using Suc.prems(1) by (meson mod_less_divisor order_le_less_trans zero_le)
    from ih have "\<not> f_referenced (frames c' ! ?i)"
      using Suc.prems(1) by (auto simp: set_frame_def)
    moreover have "\<forall>j < k. f_pinned (frames c ! ((?i + Suc j) mod ?n)) \<or>
        \<not> f_referenced (frames c' ! ((?i + Suc j) mod ?n))"
      using ih pin2 m by (simp add: set_frame_def)
    moreover have "\<forall>i < ?n. \<not> f_referenced (frames c ! i) \<longrightarrow> \<not> f_referenced (frames c' ! i)"
      using ih Suc.prems(1) by (auto simp: set_frame_def nth_list_update)
    ultimately show ?thesis using idx by (auto simp: less_Suc_eq_0_disj)
  qed
qed auto

text \<open>\<dots> and a pass over frames that are all pinned or unreferenced stops at the first unpinned one.\<close>

lemma clock_sweep_stuck:
  assumes "hand c < length (frames c)" and "clock_sweep k c = (Inr None, c')"
    and "\<forall>f \<in> set (frames c). f_pinned f \<or> \<not> f_referenced f"
  shows "\<forall>j < k. f_pinned (frames c ! ((hand c + j) mod length (frames c)))"
  using assms
proof (induction k arbitrary: c)
  case (Suc k)
  let ?n = "length (frames c)" and ?i = "hand c"
  let ?c1 = "c\<lparr>hand := (?i + 1) mod ?n\<rparr>"
  have n: "(?i + 1) mod ?n < ?n" using Suc.prems(1) by simp
  have p: "f_pinned (frames c ! ?i)"
    using Suc.prems by (auto simp: Let_def split: if_splits)
  with Suc.prems have "clock_sweep k ?c1 = (Inr None, c')" by (simp add: Let_def)
  from Suc.IH [OF _ this] n Suc.prems(3)
  have "\<forall>j < k. f_pinned (frames c ! ((?i + Suc j) mod ?n))" by simp
  with p Suc.prems(1) show ?case by (auto simp: less_Suc_eq_0_disj)
qed simp

lemma mod_cover:
  assumes "h < n" and "i < n"
  shows "\<exists>j < n. (h + j) mod n = (i :: nat)"
proof -
  have "(h + (i + n - h) mod n) mod n = i"
    using assms by (simp add: mod_add_right_eq)
  then show ?thesis using assms by (intro exI [of _ "(i + n - h) mod n"]) auto
qed

text \<open>Two passes are enough: the fallback after the loop is reached only when every frame is
  pinned, and then it panics.\<close>

lemma clock_two_passes:
  assumes h: "hand c < length (frames c)" and s: "clock_sweep (2 * length (frames c)) c = (Inr None, c')"
  shows "\<forall>f \<in> set (frames c). f_pinned f"
proof -
  let ?n = "length (frames c)"
  obtain c1 where 1: "clock_sweep ?n c = (Inr None, c1)" and 2: "clock_sweep ?n c1 = (Inr None, c')"
    using s clock_sweep_add [of ?n ?n c]
    by (auto simp: sm_bind_eq_Inr mult_2 sm_return_def split: option.splits)
  have a: "aged c c1" and h1: "hand c1 < length (frames c)"
    using clock_sweep_aged [OF h 1] by auto
  have clear: "f_pinned (frames c1 ! i) \<or> \<not> f_referenced (frames c1 ! i)" if "i < ?n" for i
    using clock_sweep_clears [OF h 1] mod_cover [OF h that] aged_fields(3) [OF a that] by auto
  have len: "length (frames c1) = ?n" by (rule aged_length [OF a])
  have "\<forall>f \<in> set (frames c1). f_pinned f \<or> \<not> f_referenced f"
    by (metis clear in_set_conv_nth len)
  from clock_sweep_stuck [OF _ 2 this] h1 len
  have stuck: "\<forall>j < ?n. f_pinned (frames c1 ! ((hand c1 + j) mod ?n))" by simp
  have "f_pinned (frames c ! i)" if "i < ?n" for i
    using stuck mod_cover [OF h1 that] aged_fields(3) [OF a that] by auto
  then show ?thesis by (auto simp: in_set_conv_nth)
qed

lemma select_victim_ok:
  assumes ok: "index_ok c" and ne: "frames c \<noteq> []" and np: "\<exists>f \<in> set (frames c). \<not> f_pinned f"
  obtains v c' where "select_victim c = (Inr v, c')" and "aged c c'" and "v < length (frames c)"
    and "\<not> f_pinned (frames c ! v)"
proof -
  have h: "hand c < length (frames c)" using ok ne by (simp add: index_ok_def)
  obtain r c' where s: "clock_sweep (2 * length (frames c)) c = (r, c')" by (cases "clock_sweep (2 * length (frames c)) c")
  from clock_sweep_aged [OF h s] obtain w where r: "r = Inr w" and a: "aged c c'"
    and w: "\<And>i. w = Some i \<Longrightarrow> i < length (frames c) \<and> \<not> f_pinned (frames c ! i)" by blast
  have "w \<noteq> None" using clock_two_passes [OF h] s r np by auto
  then obtain i where "r = Inr (Some i)" "aged c c'" "i < length (frames c)" "\<not> f_pinned (frames c ! i)"
    using r a w by auto
  with s show ?thesis by (intro that [of i c']) (simp_all add: select_victim_def sm_bind_def sm_return_def)
qed

lemma select_victim_stop:
  assumes ok: "index_ok c" and ne: "frames c \<noteq> []" and "select_victim c = (r, c')"
  shows "aged c c' \<and> (case r of Inl e \<Rightarrow> e = Panic \<and> (\<forall>f \<in> set (frames c). f_pinned f)
                     | Inr v \<Rightarrow> v < length (frames c) \<and> \<not> f_pinned (frames c ! v))"
proof (cases "\<exists>f \<in> set (frames c). \<not> f_pinned f")
  case True
  from select_victim_ok [OF ok ne this] assms(3) show ?thesis by fastforce
next
  case False
  have h: "hand c < length (frames c)" using ok ne by (simp add: index_ok_def)
  obtain s c1 where s: "clock_sweep (2 * length (frames c)) c = (s, c1)" by (cases "clock_sweep (2 * length (frames c)) c")
  from clock_sweep_aged [OF h s] obtain w where w: "s = Inr w" and a: "aged c c1"
    and i: "\<And>i. w = Some i \<Longrightarrow> i < length (frames c) \<and> \<not> f_pinned (frames c ! i)" by blast
  have sN: "s = Inr None" using w i False nth_mem by (cases w) fastforce+
  have "\<forall>f \<in> set (frames c1). f_pinned f"
    using False aged_fields(3) [OF a] aged_length [OF a] by (simp add: all_set_conv_all_nth)
  then have "position (\<lambda>f. \<not> f_pinned f) (frames c1) = None" by (simp add: position_None)
  then have "select_victim c = (Inl Panic, c1)"
    using s sN by (simp add: select_victim_def sm_bind_def)
  with assms(3) a False show ?thesis by auto
qed

text \<open>The emergency victim is clean and unpinned, and choosing it changes the hand only.\<close>

lemma clean_scan_ok:
  assumes "clean_scan ks hot c = (r, c')" and "frames c \<noteq> []"
    and "\<forall>i. hot = Some i \<longrightarrow> i < length (frames c) \<and> \<not> f_dirty (frames c ! i) \<and> \<not> f_pinned (frames c ! i)"
  shows "(\<exists>h. c' = c\<lparr>hand := h\<rparr> \<and> (h = hand c \<or> h < length (frames c))) \<and>
         (\<forall>i. r = Some i \<longrightarrow> i < length (frames c) \<and> \<not> f_dirty (frames c ! i) \<and> \<not> f_pinned (frames c ! i))"
  using assms
proof (induction ks arbitrary: hot)
  case Nil
  then show ?case
    by (cases hot) (auto intro: exI [of _ "hand c"] exI [of _ "Suc (the hot) mod length (frames c)"])
next
  case (Cons k ks)
  let ?i = "(hand c + k) mod length (frames c)"
  have i: "?i < length (frames c)" using Cons.prems(2) by simp
  consider "f_pinned (frames c ! ?i) \<or> f_dirty (frames c ! ?i)"
    | "\<not> f_pinned (frames c ! ?i)" "\<not> f_dirty (frames c ! ?i)" "\<not> f_referenced (frames c ! ?i)"
    | "\<not> f_pinned (frames c ! ?i)" "\<not> f_dirty (frames c ! ?i)" "f_referenced (frames c ! ?i)" by blast
  then show ?case
  proof cases
    case 1
    with Cons.prems have "clean_scan ks hot c = (r, c')" by (auto simp: Let_def)
    from Cons.IH [OF this Cons.prems(2,3)] show ?thesis .
  next
    case 2
    then show ?thesis using Cons.prems i
      by (auto simp: Let_def intro: exI [of _ "(?i + 1) mod length (frames c)"])
  next
    case 3
    with Cons.prems have "clean_scan ks (if hot = None then Some ?i else hot) c = (r, c')"
      by (auto simp: Let_def)
    from Cons.IH [OF this Cons.prems(2)] i 3 Cons.prems(3) show ?thesis by (cases hot) auto
  qed
qed

lemma select_clean_victim_ok:
  assumes "index_ok c" and "frames c \<noteq> []" and "select_clean_victim c = (r, c')"
  shows "aged c c' \<and> (\<exists>v. r = Inr v \<and> (\<forall>i. v = Some i \<longrightarrow>
           i < length (frames c) \<and> \<not> f_dirty (frames c ! i) \<and> \<not> f_pinned (frames c ! i)))"
proof -
  obtain v c1 where s1: "clean_scan [0..<length (frames c)] None c = (v, c1)" by fastforce
  have "(Inr v, c1) = (r, c')"
    using assms(3) unfolding select_clean_victim_def s1 by (simp only: prod.case)
  then have r: "r = Inr v" and c': "c1 = c'" by auto
  have s: "clean_scan [0..<length (frames c)] None c = (v, c')" using s1 unfolding c' .
  have "\<forall>i. None = Some i \<longrightarrow> i < length (frames c) \<and> \<not> f_dirty (frames c ! i) \<and> \<not> f_pinned (frames c ! i)"
    by simp
  from clean_scan_ok [OF s assms(2) this] obtain h
    where "c' = c\<lparr>hand := h\<rparr>" and "h = hand c \<or> h < length (frames c)"
    and v: "\<forall>i. v = Some i \<longrightarrow> i < length (frames c) \<and> \<not> f_dirty (frames c ! i) \<and> \<not> f_pinned (frames c ! i)"
    by blast
  moreover have "hand c < length (frames c)" using assms(1,2) by (simp add: index_ok_def)
  ultimately have "aged c c'" using assms(2) by (auto intro!: aged_hand)
  with r v show ?thesis by blast
qed

end
