(* ===== verification/Cache_Refine.thy ===== *)
theory Cache_Refine
  imports Cache
begin

text \<open>
  The page cache refines flat memory. \<open>page_view\<close> is what each guest page holds, whether it is
  in a frame or in the store; \<open>cache_inv\<close> is the invariant under which every operation of the
  cache preserves that view (or, for a write, changes exactly the bytes written), also when the
  store fails in the middle.
\<close>

section \<open>The abstraction and the invariant\<close>

definition page_view :: "('b \<Rightarrow> u32 \<Rightarrow> u8 list) \<Rightarrow> 'b page_cache \<Rightarrow> u32 \<Rightarrow> u8 list" where
  "page_view contents c p =
     (case resident_slot c p of Some i \<Rightarrow> f_data (frames c ! i) | None \<Rightarrow> contents (backing c) p)"

text \<open>There is a frame to evict or room for one more: what \<open>select_victim\<close>'s \<open>expect\<close> needs.\<close>

definition evictable :: "'b page_cache \<Rightarrow> bool" where
  "evictable c \<longleftrightarrow> length (frames c) < capacity c \<or> (\<exists>f \<in> set (frames c). \<not> f_pinned f)"

definition cache_inv :: "('b \<Rightarrow> u32 \<Rightarrow> u8 list) \<Rightarrow> ('b \<Rightarrow> bool) \<Rightarrow> 'b page_cache \<Rightarrow> bool" where
  "cache_inv contents binv c \<longleftrightarrow>
     index_ok c \<and> evictable c \<and> binv (backing c) \<and>
     (\<forall>i < length (frames c). length (f_data (frames c ! i)) = PAGE \<and>
        (\<not> f_dirty (frames c ! i) \<longrightarrow> contents (backing c) (f_page (frames c ! i)) = f_data (frames c ! i)))"

lemma cache_inv_index: "cache_inv contents binv c \<Longrightarrow> index_ok c"
  by (simp add: cache_inv_def)

lemma cache_inv_new:
  "cache_new b cap = Inr c \<Longrightarrow> binv b \<Longrightarrow> cache_inv contents binv c \<and> page_view contents c = contents b"
  using index_ok_new [of b cap c]
  by (auto simp: cache_inv_def cache_new_def evictable_def page_view_def resident_slot_def fun_eq_iff
      split: if_splits)

lemma resident_slot_frame:
  assumes "index_ok c" and "i < length (frames c)"
  shows "resident_slot c (f_page (frames c ! i)) = Some i"
proof -
  have "\<forall>p i. resident_slot c p = Some i \<longleftrightarrow> i < length (frames c) \<and> f_page (frames c ! i) = p"
    using assms(1) by (simp add: index_ok_def)
  with assms(2) show ?thesis by blast
qed

lemma page_view_resident:
  "index_ok c \<Longrightarrow> i < length (frames c) \<Longrightarrow> page_view contents c (f_page (frames c ! i)) = f_data (frames c ! i)"
  by (simp add: page_view_def resident_slot_frame)

lemma aged_page_view:
  assumes "aged c c'" and "index_ok c"
  shows "page_view contents c' = page_view contents c"
proof (rule ext)
  fix p
  show "page_view contents c' p = page_view contents c p"
    using assms aged_fields(4) [OF assms(1)] resident_slot_bounds [OF assms(2), of p]
    by (auto simp: page_view_def aged_resident_slot [OF assms(1)] aged_def split: option.splits)
qed

lemma evictable_nth:
  "evictable c \<longleftrightarrow> length (frames c) < capacity c \<or> (\<exists>i < length (frames c). \<not> f_pinned (frames c ! i))"
  unfolding evictable_def by (metis in_set_conv_nth)

lemma aged_evictable:
  assumes "aged c c'" and "evictable c"
  shows "evictable c'"
proof -
  have "capacity c' = capacity c" using assms(1) by (simp add: aged_def)
  with assms(2) aged_fields(3) [OF assms(1)] aged_length [OF assms(1)] show ?thesis
    by (auto simp: evictable_nth)
qed

lemma aged_cache_inv:
  assumes "aged c c'" and "cache_inv contents binv c"
  shows "cache_inv contents binv c'"
  using assms aged_fields [OF assms(1)] aged_length [OF assms(1)] aged_index_ok [OF assms(1)]
    aged_evictable [OF assms(1)]
  by (auto simp: cache_inv_def aged_def)

section \<open>Replacing a frame\<close>

definition evicted :: "nat \<Rightarrow> u32 \<Rightarrow> u8 list \<Rightarrow> 'b page_cache \<Rightarrow> 'b page_cache" where
  "evicted v page data c =
     c\<lparr>frames := (frames c)[v := fresh_frame page data],
       slot_of := (slot_of c)[unat (f_page (frames c ! v)) := NOT_RESIDENT, unat page := of_nat v + 1]\<rparr>"

lemma fresh_frame_fields [simp]:
  "f_page (fresh_frame p d) = p" "f_dirty (fresh_frame p d) = False" "f_data (fresh_frame p d) = d"
  "f_pinned (fresh_frame p d) = False" "f_referenced (fresh_frame p d) = True"
  by (simp_all add: fresh_frame_def)

lemma evicted_fields [simp]:
  "frames (evicted v p d c) = (frames c)[v := fresh_frame p d]" "backing (evicted v p d c) = backing c"
  "hand (evicted v p d c) = hand c" "capacity (evicted v p d c) = capacity c"
  "length (slot_of (evicted v p d c)) = length (slot_of c)"
  by (simp_all add: evicted_def)

lemma evicted_slot:
  assumes "index_ok c" and "v < length (frames c)" and "unat p < RAM_PAGES"
  shows "resident_slot (evicted v p d c) q =
    (if q = p then Some v else if q = f_page (frames c ! v) then None else resident_slot c q)"
proof -
  let ?c1 = "c\<lparr>slot_of := (slot_of c)[unat (f_page (frames c ! v)) := NOT_RESIDENT]\<rparr>"
  have v: "v < RAM_PAGES" and len: "length (slot_of c) = RAM_PAGES"
    using assms(1,2) by (auto simp: index_ok_def)
  have "resident_slot (evicted v p d c) q =
      resident_slot (?c1\<lparr>slot_of := (slot_of ?c1)[unat p := of_nat v + 1]\<rparr>) q"
    by (simp add: evicted_def resident_slot_def)
  also have "\<dots> = (if q = p then Some v else resident_slot ?c1 q)"
    by (rule resident_slot_upd) (use len v assms(3) in simp_all)
  also have "resident_slot ?c1 q = (if q = f_page (frames c ! v) then None else resident_slot c q)"
    by (rule resident_slot_clear) (use len frame_page_less [OF assms(1,2)] in simp_all)
  finally show ?thesis .
qed

lemma evicted_index_ok:
  assumes ok: "index_ok c" and v: "v < length (frames c)" and p: "unat p < RAM_PAGES"
    and new: "resident_slot c p = None"
  shows "index_ok (evicted v p d c)"
proof -
  have iff: "resident_slot c q = Some i \<longleftrightarrow> i < length (frames c) \<and> f_page (frames c ! i) = q" for q i
    using ok by (simp add: index_ok_def)
  have notp: "\<And>i. i < length (frames c) \<Longrightarrow> f_page (frames c ! i) \<noteq> p"
    using new iff [of p] by simp
  have inj: "\<And>i. i < length (frames c) \<Longrightarrow> f_page (frames c ! i) = f_page (frames c ! v) \<Longrightarrow> i = v"
    using iff [of "f_page (frames c ! v)"] v by (metis option.inject)
  have "resident_slot (evicted v p d c) q = Some i \<longleftrightarrow>
      i < length (frames (evicted v p d c)) \<and> f_page (frames (evicted v p d c) ! i) = q" for q i
    unfolding evicted_slot [OF ok v p]
    using v notp inj iff [of q i] by (auto simp: nth_list_update)
  with ok v show ?thesis by (auto simp: index_ok_def)
qed

definition admitted :: "u32 \<Rightarrow> u8 list \<Rightarrow> 'b page_cache \<Rightarrow> 'b page_cache" where
  "admitted page data c =
     c\<lparr>frames := frames c @ [fresh_frame page data],
       slot_of := (slot_of c)[unat page := of_nat (length (frames c)) + 1]\<rparr>"

lemma admitted_fields [simp]:
  "frames (admitted p d c) = frames c @ [fresh_frame p d]" "backing (admitted p d c) = backing c"
  "hand (admitted p d c) = hand c" "capacity (admitted p d c) = capacity c"
  "length (slot_of (admitted p d c)) = length (slot_of c)"
  by (simp_all add: admitted_def)

lemma admitted_slot:
  assumes "index_ok c" and "length (frames c) < capacity c" and "unat p < RAM_PAGES"
  shows "resident_slot (admitted p d c) q = (if q = p then Some (length (frames c)) else resident_slot c q)"
proof -
  have "resident_slot (admitted p d c) q =
      resident_slot (c\<lparr>slot_of := (slot_of c)[unat p := of_nat (length (frames c)) + 1]\<rparr>) q"
    by (simp add: admitted_def resident_slot_def)
  also have "\<dots> = (if q = p then Some (length (frames c)) else resident_slot c q)"
    by (rule resident_slot_upd) (use assms in \<open>auto simp: index_ok_def\<close>)
  finally show ?thesis .
qed

lemma admitted_index_ok:
  assumes ok: "index_ok c" and room: "length (frames c) < capacity c" and p: "unat p < RAM_PAGES"
    and new: "resident_slot c p = None"
  shows "index_ok (admitted p d c)"
proof -
  have iff: "resident_slot c q = Some i \<longleftrightarrow> i < length (frames c) \<and> f_page (frames c ! i) = q" for q i
    using ok by (simp add: index_ok_def)
  have "resident_slot (admitted p d c) q = Some i \<longleftrightarrow>
      i < length (frames (admitted p d c)) \<and> f_page (frames (admitted p d c) ! i) = q" for q i
    unfolding admitted_slot [OF ok room p]
    using new iff [of q i] iff [of p i]
    by (auto simp: nth_append less_Suc_eq)
  with ok room show ?thesis by (auto simp: index_ok_def split: if_splits)
qed

lemma admit_eq:
  assumes "index_ok c" and "unat p < RAM_PAGES"
  shows "admit p d c = (Inr (length (frames c)), admitted p d c)"
  using assms
  by (simp add: admit_def sm_bind_def sm_defs set_resident_def index_ok_def admitted_def)

section \<open>The store behind the cache\<close>

context total_backing
begin

abbreviation cinv where "cinv \<equiv> cache_inv contents binv"
abbreviation view where "view \<equiv> page_view contents"

lemma evicted_inv:
  assumes inv: "cinv c" and v: "v < length (frames c)" and p: "unat p < RAM_PAGES"
    and new: "resident_slot c p = None" and d: "contents (backing c) p = d" "length d = PAGE"
    and clean: "contents (backing c) (f_page (frames c ! v)) = f_data (frames c ! v)"
  shows "cinv (evicted v p d c) \<and> view (evicted v p d c) = view c"
proof
  have ok: "index_ok c" using inv by (simp add: cache_inv_def)
  have "evictable (evicted v p d c)"
    using v by (auto simp: evictable_def set_update_memI intro!: bexI [of _ "fresh_frame p d"])
  then show "cinv (evicted v p d c)"
    using evicted_index_ok [OF ok v p new] inv d v
    by (auto simp: cache_inv_def nth_list_update)
  show "view (evicted v p d c) = view c"
  proof (rule ext)
    fix q
    show "view (evicted v p d c) q = view c q"
    proof (cases "resident_slot c q")
      case None
      then show ?thesis
        using v d clean page_view_resident [OF ok v]
        by (auto simp: page_view_def evicted_slot [OF ok v p])
    next
      case (Some i)
      then have i: "i < length (frames c)" "f_page (frames c ! i) = q"
        using resident_slot_bounds [OF ok] by auto
      with Some new have "q \<noteq> p" by auto
      with Some i v d clean resident_slot_frame [OF ok v] show ?thesis
        by (auto simp: page_view_def evicted_slot [OF ok v p] nth_list_update)
    qed
  qed
qed

lemma admitted_inv:
  assumes inv: "cinv c" and room: "length (frames c) < capacity c" and p: "unat p < RAM_PAGES"
    and new: "resident_slot c p = None" and d: "contents (backing c) p = d" "length d = PAGE"
  shows "cinv (admitted p d c) \<and> view (admitted p d c) = view c"
proof
  have ok: "index_ok c" using inv by (simp add: cache_inv_def)
  have "evictable (admitted p d c)"
    by (auto simp: evictable_def)
  then show "cinv (admitted p d c)"
    using admitted_index_ok [OF ok room p new] inv d
    by (auto simp: cache_inv_def nth_append less_Suc_eq)
  show "view (admitted p d c) = view c"
  proof (rule ext)
    fix q
    show "view (admitted p d c) q = view c q"
      using d new resident_slot_bounds [OF ok, of q]
      by (auto simp: page_view_def admitted_slot [OF ok room p] nth_append split: option.splits)
  qed
qed

lemma write_back_step:
  assumes inv: "cinv c" and v: "v < length (frames c)"
    and w: "on_backing (write_page B (f_page (frames c ! v)) (f_data (frames c ! v))) c = (r, c')"
  obtains b' where "c' = c\<lparr>backing := b'\<rparr>"
    and "\<And>q. q \<noteq> f_page (frames c ! v) \<Longrightarrow> contents b' q = contents (backing c) q"
    and "r = Inr () \<Longrightarrow> cinv c' \<and> view c' = view c \<and> contents b' (f_page (frames c ! v)) = f_data (frames c ! v)"
    and "\<And>e. r = Inl e \<Longrightarrow> e \<noteq> Panic \<and> (f_dirty (frames c ! v) \<longrightarrow> cinv c' \<and> view c' = view c)"
proof -
  let ?p = "f_page (frames c ! v)" and ?d = "f_data (frames c ! v)"
  have ok: "index_ok c" and b: "binv (backing c)" and d: "length ?d = PAGE"
    using inv v by (auto simp: cache_inv_def)
  obtain b' where w': "write_page B ?p ?d (backing c) = (r, b')" and c': "c' = c\<lparr>backing := b'\<rparr>"
    using w by (auto simp: on_backing_def sm_field_def split: prod.splits)
  have inj: "i = v" if "i < length (frames c)" "f_page (frames c ! i) = ?p" for i
    using that resident_slot_frame [OF ok v] resident_slot_frame [OF ok that(1)] by simp
  have frame: "contents b' q = contents (backing c) q" if "q \<noteq> ?p" for q
    using write_ok [OF b d, of ?p b'] write_stop [OF b d, of ?p _ b'] w' that by (cases r) auto
  have b': "binv b'"
    using write_ok [OF b d, of ?p b'] write_stop [OF b d, of ?p _ b'] w' by (cases r) auto
  have view: "view c' = view c"
  proof (rule ext)
    fix q
    show "view c' q = view c q"
      using frame [of q] resident_slot_frame [OF ok v]
      by (cases "q = ?p") (auto simp: page_view_def c' split: option.splits)
  qed
  have inv': "cinv c'" if "contents b' ?p = ?d \<or> f_dirty (frames c ! v)"
  proof -
    have "index_ok c'" "evictable c'" using inv by (simp_all add: cache_inv_def index_ok_def evictable_def c')
    moreover have "contents b' (f_page (frames c ! i)) = f_data (frames c ! i)"
      if "i < length (frames c)" "\<not> f_dirty (frames c ! i)" for i
      using that inj [of i] frame [of "f_page (frames c ! i)"] inv \<open>contents b' ?p = ?d \<or> f_dirty (frames c ! v)\<close>
      by (cases "i = v") (auto simp: cache_inv_def)
    ultimately show ?thesis using inv b' by (simp add: cache_inv_def c')
  qed
  show ?thesis
  proof (rule that [OF c' frame])
    show "cinv c' \<and> view c' = view c \<and> contents b' ?p = ?d" if "r = Inr ()"
      using write_ok [OF b d, of ?p b'] w' that inv' view by auto
    show "e \<noteq> Panic \<and> (f_dirty (frames c ! v) \<longrightarrow> cinv c' \<and> view c' = view c)" if "r = Inl e" for e
      using write_no_panic [OF b d, of ?p] w' that inv' view by auto
  qed
qed

lemma read_step:
  assumes inv: "cinv c" and r: "on_backing (read_page B p) c = (r, c')"
  shows "\<exists>b'. c' = c\<lparr>backing := b'\<rparr> \<and> contents b' = contents (backing c) \<and> cinv c' \<and> view c' = view c \<and>
           (case r of Inl e \<Rightarrow> e \<noteq> Panic | Inr d \<Rightarrow> d = contents b' p \<and> length d = PAGE)"
proof -
  have b: "binv (backing c)" using inv by (simp add: cache_inv_def)
  obtain b' where r': "read_page B p (backing c) = (r, b')" and c': "c' = c\<lparr>backing := b'\<rparr>"
    using r by (auto simp: on_backing_def sm_field_def split: prod.splits)
  from read_frame [OF b r'] have "binv b'" and eq: "contents b' = contents (backing c)" by auto
  moreover have "case r of Inl e \<Rightarrow> e \<noteq> Panic | Inr d \<Rightarrow> d = contents b' p \<and> length d = PAGE"
    using read_ok [OF b, of p _ b'] read_no_panic [OF b, of p] r' eq by (auto split: sum.splits)
  moreover have "index_ok c'" "evictable c'"
    using inv by (simp_all add: cache_inv_def index_ok_def evictable_def c')
  ultimately show ?thesis
    using inv by (auto simp: c' cache_inv_def page_view_def fun_eq_iff split: option.splits)
qed

section \<open>Residency\<close>

text \<open>What every operation below keeps: the invariant and a given view.\<close>

definition holds where
  "holds V c \<longleftrightarrow> cinv c \<and> view c = V"

lemma holds_aged: "aged c c' \<Longrightarrow> holds V c \<Longrightarrow> holds V c'"
  by (auto simp: holds_def aged_cache_inv aged_page_view cache_inv_index)

lemma hoare_stats [hoare_rules]:
  assumes "\<And>c st. P c \<Longrightarrow> Q () (c\<lparr>cstats := st\<rparr>)"
  shows "hoare P (modify_stats h) Q E"
  unfolding modify_stats_def by (rule hoare_modify) (rule assms)

text \<open>Writing the victim back, or declining it: the frame that comes out is evictable for free.\<close>

lemma write_back_or_decline_ok:
  fixes p
  assumes v: "v < length (frames c)" and H: "holds V c" and pv: "f_page (frames c ! v) \<noteq> p"
    and slot: "resident_slot c p = None"
    and r: "write_back_or_decline B v c = (r, c')"
  shows "holds V c' \<and> resident_slot c' p = None \<and> contents (backing c') p = contents (backing c) p \<and>
    (case r of Inl e \<Rightarrow> e \<noteq> Panic
     | Inr w \<Rightarrow> w < length (frames c') \<and>
         contents (backing c') (f_page (frames c' ! w)) = f_data (frames c' ! w))"
proof (cases "f_dirty (frames c ! v)")
  case False
  then have "r = Inr v" "c' = c"
    using r v by (auto simp: write_back_or_decline_def sm_bind_def frame_at_def sm_return_def)
  with H v slot False show ?thesis by (auto simp: holds_def cache_inv_def)
next
  case True
  have inv: "cinv c" and ok: "index_ok c" using H by (auto simp: holds_def cache_inv_def)
  obtain s c1 where w: "on_backing (write_page B (f_page (frames c ! v)) (f_data (frames c ! v))) c = (s, c1)"
    by fastforce
  obtain b' where c1: "c1 = c\<lparr>backing := b'\<rparr>"
    and fr: "\<And>q. q \<noteq> f_page (frames c ! v) \<Longrightarrow> contents b' q = contents (backing c) q"
    and good: "s = Inr () \<Longrightarrow> cinv c1 \<and> view c1 = view c \<and> contents b' (f_page (frames c ! v)) = f_data (frames c ! v)"
    and bad: "\<And>e. s = Inl e \<Longrightarrow> e \<noteq> Panic \<and> (f_dirty (frames c ! v) \<longrightarrow> cinv c1 \<and> view c1 = view c)"
    by (rule write_back_step [OF inv v w]) blast
  have p1: "contents (backing c1) p = contents (backing c) p" and slot1: "resident_slot c1 p = None"
    using fr pv slot by (auto simp: c1)
  show ?thesis
  proof (cases s)
    case (Inr u)
    with r w v True have r': "r = Inr v" and c': "c' = c1\<lparr>cstats := (cstats c1)\<lparr>writebacks := writebacks (cstats c1) + 1\<rparr>\<rparr>"
      by (auto simp: write_back_or_decline_def sm_bind_def frame_at_def sm_defs modify_stats_def)
    have "holds V c'"
      unfolding c' by (rule holds_aged [OF aged_cstats]) (use good Inr H in \<open>auto simp: holds_def\<close>)
    with r' good Inr v p1 slot1 show ?thesis by (auto simp: c' c1)
  next
    case (Inl e)
    with bad True H have e: "e \<noteq> Panic" and H1: "holds V c1" by (auto simp: holds_def)
    then obtain e' where e': "e = Err e'" by (cases e) auto
    obtain t c2 where t: "select_clean_victim c1 = (t, c2)" by fastforce
    have ne: "frames c1 \<noteq> []" using v by (auto simp: c1)
    have "index_ok c1" using H1 by (auto simp: holds_def cache_inv_def)
    from select_clean_victim_ok [OF this ne t] obtain w where a: "aged c1 c2" and t': "t = Inr w"
      and clean: "\<And>i. w = Some i \<Longrightarrow> i < length (frames c1) \<and> \<not> f_dirty (frames c1 ! i)" by auto
    have H2: "holds V c2" by (rule holds_aged [OF a H1])
    have p2: "contents (backing c2) p = contents (backing c) p" and slot2: "resident_slot c2 p = None"
      using p1 slot1 a aged_resident_slot [OF a] by (auto simp: aged_def)
    show ?thesis
    proof (cases w)
      case None
      with r \<open>s = Inl e\<close> e' w v True t t' have "r = Inl (Err e')" "c' = c2"
        by (auto simp: write_back_or_decline_def sm_bind_def frame_at_def sm_defs)
      with H2 p2 slot2 show ?thesis by auto
    next
      case (Some i)
      with r \<open>s = Inl e\<close> e' w v True t t' have r': "r = Inr i"
        and c': "c' = c2\<lparr>cstats := (cstats c2)\<lparr>declined := declined (cstats c2) + 1\<rparr>\<rparr>"
        by (auto simp: write_back_or_decline_def sm_bind_def frame_at_def sm_defs modify_stats_def)
      have "holds V c'" unfolding c' by (rule holds_aged [OF aged_cstats H2])
      moreover have "i < length (frames c2)" "\<not> f_dirty (frames c2 ! i)"
        using clean [OF Some] aged_length [OF a] aged_fields(2) [OF a, of i] by auto
      ultimately show ?thesis
        using r' p2 slot2 H2 by (auto simp: c' holds_def cache_inv_def)
    qed
  qed
qed

lemma evict_into_ok:
  assumes H: "holds V c" and p: "unat p < RAM_PAGES" and new: "resident_slot c p = None"
    and full: "\<not> length (frames c) < capacity c"
    and d: "contents (backing c) p = d" "length d = PAGE" and r: "evict_into B p d c = (r, c')"
  shows "holds V c' \<and> (case r of Inl e \<Rightarrow> e \<noteq> Panic | Inr i \<Rightarrow> i < length (frames c') \<and> f_page (frames c' ! i) = p)"
proof -
  have ok: "index_ok c" and ev: "evictable c" using H by (auto simp: holds_def cache_inv_def)
  have ne: "frames c \<noteq> []" using full ok by (auto simp: index_ok_def)
  have "\<exists>f \<in> set (frames c). \<not> f_pinned f" using ev full by (simp add: evictable_def)
  then obtain v c1 where v: "select_victim c = (Inr v, c1)" and a: "aged c c1" and vl: "v < length (frames c)"
    by (rule select_victim_ok [OF ok ne])
  have H1: "holds V c1" by (rule holds_aged [OF a H])
  have vl1: "v < length (frames c1)" using vl aged_length [OF a] by simp
  have new1: "resident_slot c1 p = None" using new aged_resident_slot [OF a] by simp
  have pv: "f_page (frames c1 ! v) \<noteq> p"
    using new1 resident_slot_frame [OF _ vl1] H1 by (auto simp: holds_def cache_inv_def)
  obtain s c2 where w: "write_back_or_decline B v c1 = (s, c2)" by fastforce
  from write_back_or_decline_ok [OF vl1 H1 pv new1 w]
  have H2: "holds V c2" and new2: "resident_slot c2 p = None" and d2: "contents (backing c2) p = d"
    and s: "case s of Inl e \<Rightarrow> e \<noteq> Panic | Inr w \<Rightarrow> w < length (frames c2) \<and>
         contents (backing c2) (f_page (frames c2 ! w)) = f_data (frames c2 ! w)"
    using d a by (auto simp: aged_def)
  show ?thesis
  proof (cases s)
    case (Inl e)
    with r v w H2 s show ?thesis by (auto simp: evict_into_def sm_bind_def)
  next
    case (Inr u)
    let ?c3 = "c2\<lparr>cstats := (cstats c2)\<lparr>evictions := evictions (cstats c2) + 1\<rparr>\<rparr>"
    have u: "u < length (frames c2)" "contents (backing c2) (f_page (frames c2 ! u)) = f_data (frames c2 ! u)"
      using s Inr by auto
    have H3: "holds V ?c3" by (rule holds_aged [OF aged_cstats H2])
    then have ok3: "index_ok ?c3" and len3: "length (slot_of c2) = RAM_PAGES"
      by (auto simp: holds_def cache_inv_def index_ok_def)
    have "unat (f_page (frames c2 ! u)) < RAM_PAGES" using frame_page_less [OF ok3, of u] u by simp
    then have "r = Inr u" and c': "c' = evicted u p d ?c3"
      using r v w Inr u p len3
      by (auto simp: evict_into_def sm_bind_def sm_defs modify_stats_def frame_at_def clear_resident_def
          modify_frame_def set_frame_def set_resident_def evicted_def)
    moreover have "holds V (evicted u p d ?c3)"
      using evicted_inv [of ?c3 u p d] H3 u p new2 d2 d(2) by (simp add: holds_def)
    ultimately show ?thesis using u by simp
  qed
qed

lemma resident_ok:
  assumes H: "holds V c" and r: "resident B p c = (r, c')"
  shows "holds V c' \<and> (case r of Inl e \<Rightarrow> e \<noteq> Panic | Inr i \<Rightarrow> i < length (frames c') \<and> f_page (frames c' ! i) = p)"
proof (cases "resident_slot c p")
  case (Some i)
  have i: "i < length (frames c)" "f_page (frames c ! i) = p"
    using resident_slot_bounds [OF _ Some] H by (auto simp: holds_def cache_inv_def)
  let ?c1 = "set_frame i ((frames c ! i)\<lparr>f_referenced := True\<rparr>) c"
  have "r = Inr i" and c': "c' = ?c1\<lparr>cstats := (cstats ?c1)\<lparr>hits := hits (cstats ?c1) + 1\<rparr>\<rparr>"
    using r Some i by (auto simp: resident_def sm_bind_def modify_frame_def frame_at_def sm_defs modify_stats_def)
  moreover have "holds V c'"
    unfolding c' by (rule holds_aged [OF aged_cstats holds_aged [OF aged_set_referenced H]])
  ultimately show ?thesis using i by (simp add: set_frame_def)
next
  case None
  show ?thesis
  proof (cases "RAM_PAGES \<le> unat p")
    case True
    with None r H show ?thesis by (auto simp: resident_def sm_err_def)
  next
    case False
    let ?c1 = "c\<lparr>cstats := (cstats c)\<lparr>misses := misses (cstats c) + 1\<rparr>\<rparr>"
    have H1: "holds V ?c1" by (rule holds_aged [OF aged_cstats H])
    obtain s c2 where s: "on_backing (read_page B p) ?c1 = (s, c2)" by fastforce
    from H1 have inv1: "cinv ?c1" by (simp add: holds_def)
    from read_step [OF inv1 s] obtain b' where c2: "c2 = ?c1\<lparr>backing := b'\<rparr>"
      and inv2: "cinv c2" and view2: "view c2 = view ?c1"
      and d: "case s of Inl e \<Rightarrow> e \<noteq> Panic | Inr d \<Rightarrow> d = contents b' p \<and> length d = PAGE" by blast
    have H2: "holds V c2" unfolding holds_def using inv2 trans [OF view2, of V] H1 by (simp add: holds_def)
    have new2: "resident_slot c2 p = None" using None by (simp add: c2)
    show ?thesis
    proof (cases s)
      case (Inl e)
      with r None False s H2 d show ?thesis
        by (auto simp: resident_def sm_bind_def modify_stats_def sm_defs)
    next
      case (Inr bs)
      have bs: "contents (backing c2) p = bs" "length bs = PAGE" using d Inr by (auto simp: c2)
      have r': "(if length (frames c2) < capacity c2 then admit p bs c2 else evict_into B p bs c2) = (r, c')"
        using r None False s Inr by (simp add: resident_def sm_bind_def modify_stats_def sm_defs)
      show ?thesis
      proof (cases "length (frames c2) < capacity c2")
        case True
        have "index_ok c2" using H2 by (simp add: holds_def cache_inv_def)
        then have "r = Inr (length (frames c2))" "c' = admitted p bs c2"
          using r' True False admit_eq [of c2 p bs] by auto
        then show ?thesis
          using admitted_inv [of c2 p bs] H2 True False new2 bs by (simp add: holds_def)
      next
        case full: False
        with r' have "evict_into B p bs c2 = (r, c')" by simp
        from evict_into_ok [OF H2 _ new2 full bs this] False show ?thesis by simp
      qed
    qed
  qed
qed

text \<open>Storing into a resident frame.\<close>

lemma store_frame_ok:
  assumes H: "holds V c" and i: "i < length (frames c)" and p: "f_page (frames c ! i) = p"
    and len: "off + length bs \<le> PAGE"
  shows "\<exists>c'. modify_frame i (\<lambda>f. f\<lparr>f_data := splice off bs (f_data f), f_dirty := True\<rparr>) c = (Inr (), c') \<and>
           holds (V(p := splice off bs (V p))) c'"
proof -
  let ?f = "(frames c ! i)\<lparr>f_data := splice off bs (f_data (frames c ! i)), f_dirty := True\<rparr>"
  let ?c' = "set_frame i ?f c"
  have ok: "index_ok c" and ev: "evictable c" and dl: "length (f_data (frames c ! i)) = PAGE"
    using H i by (auto simp: holds_def cache_inv_def)
  have V: "V p = f_data (frames c ! i)"
    using page_view_resident [OF ok i] H p by (auto simp: holds_def)
  have "index_ok ?c'"
    using ok i by (auto simp: index_ok_def set_frame_def nth_list_update)
  moreover have "evictable ?c'"
    using ev i by (auto simp: evictable_nth set_frame_def nth_list_update)
  ultimately have inv: "cinv ?c'"
    using H i dl length_splice [of off bs "f_data (frames c ! i)"] len
    by (auto simp: holds_def cache_inv_def set_frame_def nth_list_update)
  moreover have "view ?c' = V(p := splice off bs (V p))"
  proof (rule ext)
    fix q
    show "view ?c' q = (V(p := splice off bs (V p))) q"
      using H i p V resident_slot_frame [OF ok i] resident_slot_bounds [OF ok, of q]
      by (auto simp: page_view_def holds_def set_frame_def nth_list_update split: option.splits)
  qed
  ultimately have "holds (V(p := splice off bs (V p))) ?c'" by (simp add: holds_def)
  moreover have "modify_frame i (\<lambda>f. f\<lparr>f_data := splice off bs (f_data f), f_dirty := True\<rparr>) c = (Inr (), ?c')"
    using i by (simp add: modify_frame_def frame_at_def sm_bind_def sm_modify_def)
  ultimately show ?thesis by blast
qed

end

end
