(* ===== verification/Cache_Flat.thy ===== *)
theory Cache_Flat
  imports Cache_Refine
begin

text \<open>
  Guest RAM as a flat array of bytes: what the byte loops and the sized accesses of the page
  cache read and write, stated over offsets from the base of RAM.
\<close>

section \<open>Offsets\<close>

abbreviation RAM_BYTES :: nat where "RAM_BYTES \<equiv> 33554432"

definition ram_off :: "u64 \<Rightarrow> nat" where
  "ram_off a = unat a - unat RAM_BASE"

text \<open>Byte \<open>n\<close> of the RAM whose pages hold \<open>V\<close>.\<close>

definition flat_byte :: "(u32 \<Rightarrow> u8 list) \<Rightarrow> nat \<Rightarrow> u8" where
  "flat_byte V n = V (of_nat (n div PAGE)) ! (n mod PAGE)"

definition flat_bytes :: "(u32 \<Rightarrow> u8 list) \<Rightarrow> nat \<Rightarrow> nat \<Rightarrow> u8 list" where
  "flat_bytes V r n = map (flat_byte V) [r..<r + n]"

text \<open>\<open>V'\<close> is \<open>V\<close> with the bytes \<open>bs\<close> written at offset \<open>r\<close>, and nothing else changed.\<close>

definition wrote :: "(u32 \<Rightarrow> u8 list) \<Rightarrow> nat \<Rightarrow> u8 list \<Rightarrow> (u32 \<Rightarrow> u8 list) \<Rightarrow> bool" where
  "wrote V r bs V' \<longleftrightarrow> (\<forall>n < RAM_BYTES.
     flat_byte V' n = (if r \<le> n \<and> n < r + length bs then bs ! (n - r) else flat_byte V n))"

lemma check_range_Inr:
  "check_range gpa len = Inr u \<longleftrightarrow> RAM_BASE \<le> gpa \<and> ram_off gpa + len \<le> RAM_BYTES"
proof (cases "2 ^ 64 \<le> unat gpa + len")
  case True
  then show ?thesis by (auto simp: check_range_def ram_off_def word_le_nat_alt)
next
  case False
  then have "unat (of_nat len :: u64) = len" by (simp only: unat_of_nat) simp
  then have "unat (gpa + of_nat len) = unat gpa + len"
    using False by (simp add: unat_word_ariths)
  then show ?thesis
    using False by (auto simp: check_range_def ram_off_def Let_def word_less_nat_alt word_le_nat_alt)
qed

lemma check_range_Inl: "check_range gpa len = Inl e \<Longrightarrow> e = Err OutOfRange"
  by (auto simp: check_range_def Let_def split: if_splits)

lemma ram_base_le: "RAM_BASE \<le> a \<longleftrightarrow> 2147483648 \<le> unat a"
  by (simp add: word_le_nat_alt)

lemma page_off_ram: "RAM_BASE \<le> a \<Longrightarrow> page_off a = ram_off a mod PAGE"
proof -
  assume "RAM_BASE \<le> a"
  then have "unat a = ram_off a + 524288 * PAGE" by (simp add: ram_base_le ram_off_def)
  then show ?thesis unfolding page_off_def by (metis mod_mult_self1)
qed

lemma page_of_ram:
  assumes "RAM_BASE \<le> a" and "ram_off a < RAM_BYTES"
  shows "page_of a = of_nat (ram_off a div PAGE)"
proof -
  have "unat (a - RAM_BASE) = ram_off a"
    using assms(1) by (simp add: ram_off_def unat_sub)
  then have "(a - RAM_BASE) div of_nat PAGE = of_nat (ram_off a div PAGE)"
    by (simp add: word_arith_nat_div)
  moreover have "ram_off a div PAGE < 2 ^ 64" "ram_off a div PAGE < 2 ^ 32" using assms(2) by auto
  ultimately show ?thesis
    unfolding page_of_def by (intro word_unat_eq_iff [THEN iffD2]) (simp add: unsigned_ucast_eq unat_of_nat take_bit_eq_mod)
qed

lemma unat_page: "n < RAM_BYTES \<Longrightarrow> unat (of_nat (n div PAGE) :: u32) = n div PAGE"
  by (simp only: unat_of_nat) (simp add: take_bit_eq_mod)

lemma ram_off_add:
  assumes "RAM_BASE \<le> a" and "ram_off a + n \<le> RAM_BYTES"
  shows "ram_off (a + of_nat n) = ram_off a + n" and "RAM_BASE \<le> a + of_nat n"
proof -
  have n: "unat (of_nat n :: u64) = n" using assms(2) by (simp only: unat_of_nat) simp
  have "unat (a + of_nat n) = unat a + n"
    using assms n by (simp add: unat_word_ariths ram_off_def ram_base_le)
  then show "ram_off (a + of_nat n) = ram_off a + n" "RAM_BASE \<le> a + of_nat n"
    using assms(1) by (simp_all add: ram_off_def ram_base_le)
qed

lemma div_mod_split: "k < m \<Longrightarrow> (k + q * m) div m = q \<and> (k + q * m) mod m = k" for k m q :: nat
  by simp

lemma div_mod_within:
  fixes r i m :: nat
  assumes "r mod m + i < m"
  shows "(r + i) div m = r div m" and "(r + i) mod m = r mod m + i"
proof -
  have "r + i = (r mod m + i) + r div m * m" by (simp add: mod_div_mult_eq)
  with div_mod_split [OF assms, of "r div m"]
  show "(r + i) div m = r div m" "(r + i) mod m = r mod m + i" by (simp_all only:)
qed

lemma slice_flat:
  assumes "r mod PAGE + n \<le> PAGE" and "length (V (of_nat (r div PAGE))) = PAGE"
  shows "slice (r mod PAGE) n (V (of_nat (r div PAGE))) = flat_bytes V r n"
proof (rule nth_equalityI)
  show "length (slice (r mod PAGE) n (V (of_nat (r div PAGE)))) = length (flat_bytes V r n)"
    using assms by (simp add: length_slice flat_bytes_def)
  fix i
  assume "i < length (slice (r mod PAGE) n (V (of_nat (r div PAGE))))"
  then have i: "i < n" using assms by (simp add: length_slice)
  have "(r + i) div PAGE = r div PAGE" "(r + i) mod PAGE = r mod PAGE + i"
    using i assms(1) by (auto intro: div_mod_within)
  then show "slice (r mod PAGE) n (V (of_nat (r div PAGE))) ! i = flat_bytes V r n ! i"
    using i assms by (simp add: nth_slice flat_bytes_def flat_byte_def)
qed

lemma flat_bytes_append: "flat_bytes V r (m + n) = flat_bytes V r m @ flat_bytes V (r + m) n"
proof -
  have "[r..<r + (m + n)] = [r..<r + m] @ [r + m..<r + m + n]"
    using upt_add_eq_append [of r "r + m" n] by (simp only: add.assoc le_add1)
  then show ?thesis by (simp add: flat_bytes_def)
qed

lemma wrote_chunk:
  assumes "r mod PAGE + length bs \<le> PAGE" and "r < RAM_BYTES"
    and "length (V (of_nat (r div PAGE))) = PAGE"
  shows "wrote V r bs (V(of_nat (r div PAGE) := splice (r mod PAGE) bs (V (of_nat (r div PAGE)))))"
  unfolding wrote_def
proof (intro allI impI)
  fix n
  assume n: "n < RAM_BYTES"
  let ?p = "of_nat (r div PAGE) :: u32"
  let ?V = "V(?p := splice (r mod PAGE) bs (V ?p))"
  have same: "(of_nat (n div PAGE) :: u32) = ?p \<longleftrightarrow> n div PAGE = r div PAGE"
    using unat_page [OF n] unat_page [OF assms(2)] by metis
  show "flat_byte ?V n = (if r \<le> n \<and> n < r + length bs then bs ! (n - r) else flat_byte V n)"
  proof (cases "n div PAGE = r div PAGE")
    case True
    have eq: "r mod PAGE \<le> n mod PAGE \<and> n mod PAGE < r mod PAGE + length bs \<longleftrightarrow>
        r \<le> n \<and> n < r + length bs" "r \<le> n \<Longrightarrow> n mod PAGE - r mod PAGE = n - r"
      using True div_mult_mod_eq [of n PAGE] div_mult_mod_eq [of r PAGE] by linarith+
    have "flat_byte ?V n = splice (r mod PAGE) bs (V ?p) ! (n mod PAGE)"
      using True same by (simp add: flat_byte_def)
    also have "\<dots> = (if r mod PAGE \<le> n mod PAGE \<and> n mod PAGE < r mod PAGE + length bs
        then bs ! (n mod PAGE - r mod PAGE) else V ?p ! (n mod PAGE))"
      by (rule nth_splice) (use assms in simp_all)
    finally show ?thesis using True eq by (auto simp: flat_byte_def)
  next
    case False
    have "\<not> (r \<le> n \<and> n < r + length bs)"
    proof
      assume in_bs: "r \<le> n \<and> n < r + length bs"
      with assms(1) have "r mod PAGE + (n - r) < PAGE" by linarith
      from div_mod_within(1) [OF this] in_bs False show False by simp
    qed
    with False same show ?thesis by (auto simp: flat_byte_def)
  qed
qed

lemma wrote_append:
  assumes "wrote V r bs V1" and "wrote V1 (r + length bs) cs V2"
  shows "wrote V r (bs @ cs) V2"
  using assms by (auto simp: wrote_def nth_append)

lemma wrote_Nil [simp]: "wrote V r [] V"
  unfolding wrote_def by auto

lemma wrote_flat_bytes:
  assumes "wrote V r bs V'" and "r + length bs \<le> RAM_BYTES"
  shows "flat_bytes V' r (length bs) = bs"
  using assms by (intro nth_equalityI) (auto simp: wrote_def flat_bytes_def)

lemma wrote_flat_bytes_other:
  assumes "wrote V r bs V'" and "q + n \<le> RAM_BYTES" and "q + n \<le> r \<or> r + length bs \<le> q"
  shows "flat_bytes V' q n = flat_bytes V q n"
  using assms by (intro nth_equalityI) (auto simp: wrote_def flat_bytes_def)

section \<open>Accesses\<close>

context total_backing
begin

lemma holds_frame:
  assumes "holds V c" and "i < length (frames c)" and "f_page (frames c ! i) = p"
  shows "f_data (frames c ! i) = V p" and "length (V p) = PAGE"
  using assms page_view_resident [of c i contents] by (auto simp: holds_def cache_inv_def)

lemma read_chunks_ok:
  assumes "holds V c" and "RAM_BASE \<le> a" and "ram_off a + len \<le> RAM_BYTES"
    and "read_chunks B a len c = (r, c')"
  shows "holds V c' \<and> (case r of Inl e \<Rightarrow> e \<noteq> Panic | Inr bs \<Rightarrow> bs = flat_bytes V (ram_off a) len)"
  using assms
proof (induction len arbitrary: a c r c' rule: less_induct)
  case (less len)
  show ?case
  proof (cases "len = 0")
    case True
    with less.prems show ?thesis
      by (auto simp: read_chunks.simps [of B a 0] sm_return_def flat_bytes_def)
  next
    case False
    let ?n = "min (PAGE - page_off a) len"
    let ?p = "of_nat (ram_off a div PAGE) :: u32"
    have off: "page_off a = ram_off a mod PAGE" and p: "page_of a = ?p"
      using page_off_ram page_of_ram less.prems(2,3) False by auto
    have n: "0 < ?n" "?n \<le> len" using False page_off_less [of a] by auto
    obtain s c1 where s: "resident B (page_of a) c = (s, c1)" by fastforce
    from resident_ok [OF less.prems(1) s, unfolded p] have H1: "holds V c1"
      and s': "case s of Inl e \<Rightarrow> e \<noteq> Panic | Inr i \<Rightarrow> i < length (frames c1) \<and> f_page (frames c1 ! i) = ?p"
      by auto
    show ?thesis
    proof (cases s)
      case (Inl e)
      with less.prems(4) False s s' H1 show ?thesis
        by (auto simp: read_chunks.simps [of B a len] Let_def sm_bind_def)
    next
      case (Inr i)
      have i: "i < length (frames c1)" "f_page (frames c1 ! i) = ?p" using s' Inr by auto
      have chunk: "slice (page_off a) ?n (f_data (frames c1 ! i)) = flat_bytes V (ram_off a) ?n"
        unfolding holds_frame(1) [OF H1 i] off
        by (rule slice_flat) (use page_off_less [of a] off holds_frame(2) [OF H1 i] in auto)
      obtain t c2 where t: "read_chunks B (a + of_nat ?n) (len - ?n) c1 = (t, c2)" by fastforce
      have le: "ram_off a + ?n \<le> RAM_BYTES" using less.prems(3) n(2) by linarith
      note adv = ram_off_add [OF less.prems(2) le]
      have "holds V c2 \<and> (case t of Inl e \<Rightarrow> e \<noteq> Panic | Inr bs \<Rightarrow> bs = flat_bytes V (ram_off a + ?n) (len - ?n))"
        using less.IH [OF _ H1 adv(2) _ t, unfolded adv(1)] n less.prems(3) by simp
      moreover have "flat_bytes V (ram_off a) len =
          flat_bytes V (ram_off a) ?n @ flat_bytes V (ram_off a + ?n) (len - ?n)"
        using flat_bytes_append [of V "ram_off a" ?n "len - ?n"] n(2) by simp
      ultimately show ?thesis
        using less.prems(4) False s Inr i t chunk
        by (cases t) (auto simp: read_chunks.simps [of B a len] Let_def sm_bind_def frame_at_def sm_return_def)
    qed
  qed
qed

text \<open>A write stores the bytes; one that fails has stored a prefix of them (whole pages' worth of
  chunks) and nothing else.\<close>

lemma write_chunks_ok:
  assumes "holds V c" and "RAM_BASE \<le> a" and "ram_off a + length bs \<le> RAM_BYTES"
    and "write_chunks B a bs c = (r, c')"
  shows "\<exists>V' k. holds V' c' \<and> k \<le> length bs \<and> wrote V (ram_off a) (take k bs) V' \<and>
           (case r of Inl e \<Rightarrow> e \<noteq> Panic | Inr _ \<Rightarrow> k = length bs)"
  using assms
proof (induction "length bs" arbitrary: a bs V c rule: less_induct)
  case less
  show ?case
  proof (cases "bs = []")
    case True
    with less.prems show ?thesis
      by (auto simp: write_chunks.simps [of B a "[]"] sm_return_def intro!: exI [of _ V])
  next
    case False
    let ?n = "min (PAGE - page_off a) (length bs)"
    let ?p = "of_nat (ram_off a div PAGE) :: u32"
    have inr: "ram_off a < RAM_BYTES" using less.prems(3) False by (cases bs) auto
    have off: "page_off a = ram_off a mod PAGE" and p: "page_of a = ?p"
      using page_off_ram page_of_ram less.prems(2) inr by auto
    have n: "0 < ?n" "?n \<le> length bs" using False page_off_less [of a] by (auto simp: min_def)
    obtain s c1 where s: "resident B (page_of a) c = (s, c1)" by fastforce
    from resident_ok [OF less.prems(1) s, unfolded p] have H1: "holds V c1"
      and s': "case s of Inl e \<Rightarrow> e \<noteq> Panic | Inr i \<Rightarrow> i < length (frames c1) \<and> f_page (frames c1 ! i) = ?p"
      by auto
    show ?thesis
    proof (cases s)
      case (Inl e)
      with less.prems(4) False s s' H1 show ?thesis
        by (auto simp: write_chunks.simps [of B a bs] Let_def sm_bind_def intro!: exI [of _ V] exI [of _ 0])
    next
      case (Inr i)
      have i: "i < length (frames c1)" "f_page (frames c1 ! i) = ?p" using s' Inr by auto
      let ?V1 = "V(?p := splice (page_off a) (take ?n bs) (V ?p))"
      have fits: "page_off a + length (take ?n bs) \<le> PAGE"
        using less_imp_le [OF page_off_less [of a]] by (auto simp: min_def)
      obtain c2 where m: "modify_frame i (\<lambda>f. f\<lparr>f_data := splice (page_off a) (take ?n bs) (f_data f), f_dirty := True\<rparr>) c1 = (Inr (), c2)"
        and H2: "holds ?V1 c2"
        using store_frame_ok [OF H1 i fits] by blast
      have w1: "wrote V (ram_off a) (take ?n bs) ?V1"
        using wrote_chunk [of "ram_off a" "take ?n bs" V] fits off inr holds_frame(2) [OF H1 i] by simp
      have le: "ram_off a + ?n \<le> RAM_BYTES" using less.prems(3) n(2) by linarith
      note adv = ram_off_add [OF less.prems(2) le]
      have rest: "write_chunks B (a + of_nat ?n) (drop ?n bs) c2 = (r, c')"
        using less.prems(4) False s Inr m
        by (simp add: write_chunks.simps [of B a bs] Let_def sm_bind_def)
      have "length (drop ?n bs) < length bs" "ram_off (a + of_nat ?n) + length (drop ?n bs) \<le> RAM_BYTES"
        using n adv(1) less.prems(3) by auto
      from less.hyps [OF this(1) H2 adv(2) this(2) rest] obtain V' k where H': "holds V' c'"
        and k: "k \<le> length (drop ?n bs)" and w2: "wrote ?V1 (ram_off a + ?n) (take k (drop ?n bs)) V'"
        and r: "case r of Inl e \<Rightarrow> e \<noteq> Panic | Inr _ \<Rightarrow> k = length (drop ?n bs)"
        using adv(1) by auto
      have "wrote V (ram_off a) (take ?n bs @ take k (drop ?n bs)) V'"
        by (rule wrote_append [OF w1]) (use w2 n in simp)
      then have "wrote V (ram_off a) (take (?n + k) bs) V'" by (simp only: take_add)
      with H' k r n(2) show ?thesis by (intro exI [of _ V'] exI [of _ "?n + k"]) (auto split: sum.splits)
    qed
  qed
qed

lemma read_le_ok:
  assumes H: "holds V c" and N: "N \<le> 8" and r: "read_le B N a c = (r, c')"
  shows "holds V c' \<and> (case r of Inl e \<Rightarrow> e \<noteq> Panic
    | Inr v \<Rightarrow> RAM_BASE \<le> a \<and> ram_off a + N \<le> RAM_BYTES \<and> v = from_le (flat_bytes V (ram_off a) N))"
proof (cases "check_range a N")
  case (Inl e)
  with r H check_range_Inl [OF Inl] show ?thesis by (auto simp: read_le_def)
next
  case (Inr u)
  then have a: "RAM_BASE \<le> a" and le: "ram_off a + N \<le> RAM_BYTES" by (simp_all add: check_range_Inr)
  show ?thesis
  proof (cases "page_off a + N \<le> PAGE \<and> N \<noteq> 0")
    case True
    let ?p = "of_nat (ram_off a div PAGE) :: u32"
    have off: "page_off a = ram_off a mod PAGE" and p: "page_of a = ?p"
      using page_off_ram page_of_ram a le True by auto
    obtain s c1 where s: "resident B (page_of a) c = (s, c1)" by fastforce
    from resident_ok [OF H s, unfolded p] have H1: "holds V c1"
      and s': "case s of Inl e \<Rightarrow> e \<noteq> Panic | Inr i \<Rightarrow> i < length (frames c1) \<and> f_page (frames c1 ! i) = ?p"
      by auto
    have "slice (page_off a) N (V ?p) = flat_bytes V (ram_off a) N" if "length (V ?p) = PAGE"
      unfolding off by (rule slice_flat) (use True off that in auto)
    with r Inr True s s' H1 a le holds_frame [OF H1] show ?thesis
      by (cases s) (auto simp: read_le_def Let_def sm_bind_def frame_at_def sm_return_def)
  next
    case False
    show ?thesis
    proof (cases "N = 0")
      case True
      obtain s c1 where s: "resident B (page_of a) c = (s, c1)" by fastforce
      from resident_ok [OF H s] r Inr True s a le show ?thesis
        using less_imp_le [OF page_off_less [of a]]
        by (cases s) (auto simp: read_le_def Let_def sm_bind_def frame_at_def sm_return_def flat_bytes_def slice_def)
    next
      case nonzero: False
      obtain s c1 where s: "read_chunks B a N c = (s, c1)" by fastforce
      from read_chunks_ok [OF H a le s] r Inr False nonzero s a le show ?thesis
        by (cases s) (auto simp: read_le_def read_bytes_def Let_def sm_bind_def sm_return_def)
    qed
  qed
qed

lemma write_le_ok:
  assumes H: "holds V c" and N: "1 \<le> N" "N \<le> 8" and r: "write_le B N a v c = (r, c')"
  shows "\<exists>V' k. holds V' c' \<and> k \<le> N \<and> wrote V (ram_off a) (to_le k v) V' \<and>
    (case r of Inl e \<Rightarrow> e \<noteq> Panic | Inr _ \<Rightarrow> RAM_BASE \<le> a \<and> ram_off a + N \<le> RAM_BYTES \<and> k = N)"
proof (cases "check_range a N")
  case (Inl e)
  with r have "r = Inl e" "c' = c" by (simp_all add: write_le_def)
  with H check_range_Inl [OF Inl] show ?thesis
    by (intro exI [of _ V] exI [of _ 0]) simp
next
  case (Inr u)
  then have a: "RAM_BASE \<le> a" and le: "ram_off a + N \<le> RAM_BYTES" by (simp_all add: check_range_Inr)
  have tN: "take N (to_le 8 v) = to_le N v" using N by (rule_tac to_le_take) simp
  show ?thesis
  proof (cases "PAGE < page_off a + N")
    case True
    with r Inr tN have w: "write_chunks B a (to_le N v) c = (r, c')"
      using N by (simp add: write_le_def write_bytes_def Let_def min_absorb2)
    from write_chunks_ok [OF H a _ w] le obtain V' k where "holds V' c'" "k \<le> N"
      "wrote V (ram_off a) (take k (to_le N v)) V'" "case r of Inl e \<Rightarrow> e \<noteq> Panic | Inr _ \<Rightarrow> k = N"
      by (cases r) auto
    with a le show ?thesis
      by (intro exI [of _ V'] exI [of _ k]) (auto simp: to_le_take split: sum.splits)
  next
    case False
    let ?p = "of_nat (ram_off a div PAGE) :: u32"
    have off: "page_off a = ram_off a mod PAGE" and p: "page_of a = ?p"
      using page_off_ram page_of_ram a le N by auto
    obtain s c1 where s: "resident B (page_of a) c = (s, c1)" by fastforce
    from resident_ok [OF H s, unfolded p] have H1: "holds V c1"
      and s': "case s of Inl e \<Rightarrow> e \<noteq> Panic | Inr i \<Rightarrow> i < length (frames c1) \<and> f_page (frames c1 ! i) = ?p"
      by auto
    show ?thesis
    proof (cases s)
      case (Inl e)
      with r Inr False s s' H1 show ?thesis
        by (intro exI [of _ V] exI [of _ 0]) (auto simp: write_le_def Let_def sm_bind_def)
    next
      case i: (Inr i)
      have fits: "page_off a + length (to_le N v) \<le> PAGE" using False by simp
      have i': "i < length (frames c1)" "f_page (frames c1 ! i) = ?p" using s' i by auto
      let ?V1 = "V(?p := splice (page_off a) (to_le N v) (V ?p))"
      obtain c2 where m: "modify_frame i (\<lambda>f. f\<lparr>f_data := splice (page_off a) (to_le N v) (f_data f), f_dirty := True\<rparr>) c1 = (Inr (), c2)"
        and H2: "holds ?V1 c2"
        using store_frame_ok [OF H1 i' fits] by blast
      have "wrote V (ram_off a) (to_le N v) ?V1"
        using wrote_chunk [of "ram_off a" "to_le N v" V] fits off le N holds_frame(2) [OF H1 i'] by simp
      moreover have "r = Inr ()" "c' = c2"
        using r Inr False s i m tN by (simp_all add: write_le_def Let_def sm_bind_def)
      ultimately show ?thesis using H2 a le
        by (intro exI [of _ ?V1] exI [of _ N]) simp
    qed
  qed
qed

end

section \<open>Flushing\<close>

context total_backing
begin

definition clean_on :: "nat set \<Rightarrow> 'a page_cache \<Rightarrow> bool" where
  "clean_on S c \<longleftrightarrow> (\<forall>i \<in> S. i < length (frames c) \<longrightarrow> \<not> f_dirty (frames c ! i))"

definition flush_body where
  "flush_body i = sm_bind (frame_at i) (\<lambda>f.
     if f_dirty f then
       sm_bind (on_backing (write_page B (f_page f) (f_data f))) (\<lambda>_.
       sm_bind (modify_frame i (\<lambda>f. f\<lparr>f_dirty := False\<rparr>)) (\<lambda>_.
       modify_stats (\<lambda>s. s\<lparr>writebacks := writebacks s + 1\<rparr>)))
     else sm_return ())"

lemma flush_body_ok:
  assumes H: "holds V c" and i: "i < length (frames c)" and r: "flush_body i c = (r, c')"
  shows "holds V c' \<and> length (frames c') = length (frames c) \<and> r \<noteq> Inl Panic \<and>
    (r = Inr () \<longrightarrow> (\<forall>S. clean_on S c \<longrightarrow> clean_on (insert i S) c'))"
proof (cases "f_dirty (frames c ! i)")
  case False
  with r i H show ?thesis
    by (auto simp: flush_body_def sm_bind_def frame_at_def sm_return_def clean_on_def)
next
  case True
  have inv: "cinv c" using H by (simp add: holds_def)
  obtain s c1 where w: "on_backing (write_page B (f_page (frames c ! i)) (f_data (frames c ! i))) c = (s, c1)"
    by fastforce
  obtain b' where c1: "c1 = c\<lparr>backing := b'\<rparr>"
    and good: "s = Inr () \<Longrightarrow> cinv c1 \<and> view c1 = view c \<and> contents b' (f_page (frames c ! i)) = f_data (frames c ! i)"
    and bad: "\<And>e. s = Inl e \<Longrightarrow> e \<noteq> Panic \<and> (f_dirty (frames c ! i) \<longrightarrow> cinv c1 \<and> view c1 = view c)"
    by (rule write_back_step [OF inv i w]) blast
  show ?thesis
  proof (cases s)
    case (Inl e)
    with r i True w bad H show ?thesis
      by (auto simp: flush_body_def sm_bind_def frame_at_def holds_def c1)
  next
    case (Inr u)
    let ?c2 = "set_frame i ((frames c1 ! i)\<lparr>f_dirty := False\<rparr>) c1"
    have inv1: "cinv c1" and view1: "view c1 = view c" using good Inr by auto
    have ok: "index_ok c1" and ev: "evictable c1" using inv1 by (auto simp: cache_inv_def)
    have "index_ok ?c2" using ok i by (auto simp: index_ok_def set_frame_def nth_list_update c1)
    moreover have "evictable ?c2" using ev i by (auto simp: evictable_nth set_frame_def nth_list_update c1)
    ultimately have "cinv ?c2"
      using inv1 good Inr i by (auto simp: cache_inv_def set_frame_def nth_list_update c1)
    moreover have "view ?c2 = view c1"
      using i by (auto simp: page_view_def fun_eq_iff set_frame_def nth_list_update c1 split: option.splits)
    ultimately have H2: "holds V ?c2" using view1 H by (simp add: holds_def)
    have r': "r = Inr ()" and c': "c' = ?c2\<lparr>cstats := (cstats ?c2)\<lparr>writebacks := writebacks (cstats ?c2) + 1\<rparr>\<rparr>"
      using r i True w Inr c1
      by (auto simp: flush_body_def sm_bind_def frame_at_def modify_frame_def modify_stats_def sm_modify_def set_frame_def)
    have "holds V c'" unfolding c' by (rule holds_aged [OF aged_cstats H2])
    with r' i show ?thesis by (auto simp: c' set_frame_def c1 clean_on_def nth_list_update)
  qed
qed

lemma flush_loop_ok:
  assumes "holds V c" and "\<forall>i \<in> set is. i < length (frames c)" and "clean_on S c"
    and "sm_for is flush_body c = (r, c')"
  shows "holds V c' \<and> length (frames c') = length (frames c) \<and> r \<noteq> Inl Panic \<and>
    (r = Inr () \<longrightarrow> clean_on (S \<union> set is) c')"
  using assms
proof (induction "is" arbitrary: c S)
  case (Cons i "is")
  obtain s c1 where s: "flush_body i c = (s, c1)" by fastforce
  from flush_body_ok [OF Cons.prems(1) _ s] Cons.prems(2,3)
  have 1: "holds V c1" "length (frames c1) = length (frames c)" "s \<noteq> Inl Panic"
    "s = Inr () \<Longrightarrow> clean_on (insert i S) c1" by auto
  show ?case
  proof (cases s)
    case (Inl e)
    with Cons.prems(4) s 1 show ?thesis by (auto simp: sm_bind_def)
  next
    case (Inr u)
    with Cons.prems(4) s have "sm_for is flush_body c1 = (r, c')" by (simp add: sm_bind_def)
    from Cons.IH [OF 1(1) _ _ this, of "insert i S"] 1 Inr Cons.prems(2) show ?thesis by simp
  qed
qed (auto simp: sm_return_def)

lemma cache_flush_ok:
  assumes H: "holds V c" and r: "cache_flush B c = (r, c')"
  shows "holds V c' \<and> r \<noteq> Inl Panic \<and> (r = Inr () \<longrightarrow> contents (backing c') = V)"
proof -
  obtain s c1 where s: "sm_for [0..<length (frames c)] flush_body c = (s, c1)" by fastforce
  have "clean_on {} c" by (simp add: clean_on_def)
  from flush_loop_ok [OF H _ this s] have H1: "holds V c1" and l1: "length (frames c1) = length (frames c)"
    and s1: "s \<noteq> Inl Panic" and cl: "s = Inr () \<Longrightarrow> clean_on {0..<length (frames c)} c1" by auto
  have eq: "cache_flush B c = sm_bind (sm_for [0..<length (frames c)] flush_body) (\<lambda>_. on_backing (flush_backing B)) c"
    by (simp add: cache_flush_def sm_bind_def sm_get_def flush_body_def [abs_def])
  show ?thesis
  proof (cases s)
    case (Inl e)
    with r s s1 H1 show ?thesis unfolding eq by (auto simp: sm_bind_def)
  next
    case (Inr u)
    have b1: "binv (backing c1)" using H1 by (simp add: holds_def cache_inv_def)
    obtain t b' where t: "flush_backing B (backing c1) = (t, b')" by fastforce
    with r s Inr have r': "r = t" and c': "c' = c1\<lparr>backing := b'\<rparr>"
      unfolding eq by (auto simp: sm_bind_def on_backing_def sm_field_def)
    have b': "binv b'" "contents b' = contents (backing c1)" using flush_frame [OF b1 t] by auto
    have "view c' = view c1" using b' by (auto simp: c' page_view_def fun_eq_iff split: option.splits)
    with H1 b' have H': "holds V c'"
      by (auto simp: holds_def c' cache_inv_def index_ok_def evictable_def)
    moreover have "contents (backing c') = V" if "r = Inr ()"
    proof (rule ext)
      fix p
      have ok: "index_ok c'" using H' by (simp add: holds_def cache_inv_def)
      show "contents (backing c') p = V p"
      proof (cases "resident_slot c' p")
        case None
        with H' show ?thesis by (auto simp: holds_def page_view_def)
      next
        case (Some i)
        with resident_slot_bounds [OF ok] have i: "i < length (frames c')" "f_page (frames c' ! i) = p" by auto
        with cl Inr l1 have "\<not> f_dirty (frames c' ! i)" by (auto simp: clean_on_def c')
        with H' i Some show ?thesis by (auto simp: holds_def page_view_def cache_inv_def)
      qed
    qed
    ultimately show ?thesis using flush_no_panic [OF b1] t r' by auto
  qed
qed

end

lemma holds_unfold: "total_backing B contents binv \<Longrightarrow>
    total_backing.holds contents binv V c \<longleftrightarrow> cache_inv contents binv c \<and> page_view contents c = V"
  by (rule total_backing.holds_def)

section \<open>Properties\<close>

text \<open>Property C7 (cache_read_is_flat_memory): a sized read through the cache returns the
  little-endian bytes of flat guest RAM at that address, whatever is resident, evicted, written
  back or declined on the way; it fails outside RAM; and neither a read nor a failed read changes
  what any page of guest RAM holds, breaks the cache invariant, or panics.\<close>

theorem cache_read_is_flat_memory:
  assumes "total_backing B contents binv" and "cache_inv contents binv c" and "N \<le> 8"
  shows "case read_le B N a c of (r, c') \<Rightarrow>
    cache_inv contents binv c' \<and> page_view contents c' = page_view contents c \<and>
    (case r of Inl e \<Rightarrow> e \<noteq> Panic
     | Inr v \<Rightarrow> RAM_BASE \<le> a \<and> ram_off a + N \<le> RAM_BYTES \<and>
                v = from_le (flat_bytes (page_view contents c) (ram_off a) N))"
  using total_backing.read_le_ok [OF assms(1) _ assms(3), of "page_view contents c" c a]
    assms(2) holds_unfold [OF assms(1)]
  by (auto split: prod.splits)

lemma cache_read_is_flat_memory_witness:
  "case cache_new (fake_new 16) 4 of Inr c \<Rightarrow>
     (case read_le fake_ops 8 0x80000000 c of (r, c') \<Rightarrow>
        cache_inv fake_contents fake_inv c' \<and> page_view fake_contents c' = page_view fake_contents c)
   | Inl _ \<Rightarrow> False"
proof -
  obtain c where c: "cache_new (fake_new 16) 4 = Inr c" by (simp add: cache_new_def)
  have "cache_inv fake_contents fake_inv c"
    using cache_inv_new [OF c, of fake_inv fake_contents] by simp
  from cache_read_is_flat_memory [OF fake.total_backing_axioms this, where N = 8 and a = "0x80000000"]
  show ?thesis by (auto simp: c split: prod.splits)
qed

text \<open>Property C6 (cache_write_is_flat_memory): a sized write that succeeds changes exactly the
  addressed bytes of guest RAM, to the little-endian bytes of the value; one that fails has
  written a prefix of them at most and no other byte, and leaves the invariant intact.\<close>

theorem cache_write_is_flat_memory:
  assumes "total_backing B contents binv" and "cache_inv contents binv c" and "1 \<le> N" and "N \<le> 8"
  shows "case write_le B N a v c of (r, c') \<Rightarrow>
    cache_inv contents binv c' \<and> r \<noteq> Inl Panic \<and>
    (\<exists>k \<le> N. wrote (page_view contents c) (ram_off a) (to_le k v) (page_view contents c') \<and>
       (r = Inr () \<longrightarrow> k = N \<and> RAM_BASE \<le> a \<and> ram_off a + N \<le> RAM_BYTES))"
proof -
  obtain r c' where w: "write_le B N a v c = (r, c')" by fastforce
  have "total_backing.holds contents binv (page_view contents c) c"
    using assms(2) holds_unfold [OF assms(1)] by blast
  from total_backing.write_le_ok [OF assms(1) this assms(3,4) w] obtain k
    where "cache_inv contents binv c'" and "k \<le> N"
      and "wrote (page_view contents c) (ram_off a) (to_le k v) (page_view contents c')"
      and "case r of Inl e \<Rightarrow> e \<noteq> Panic | Inr _ \<Rightarrow> RAM_BASE \<le> a \<and> ram_off a + N \<le> RAM_BYTES \<and> k = N"
    unfolding holds_unfold [OF assms(1)] by blast
  then show ?thesis by (auto simp: w split: sum.splits)
qed

lemma cache_write_is_flat_memory_witness:
  "case cache_new (fake_new 16) 4 of Inr c \<Rightarrow>
     (case write_le fake_ops 4 0x80000FFE 0xDEADBEEF c of (r, c') \<Rightarrow>
        cache_inv fake_contents fake_inv c' \<and> r \<noteq> Inl Panic)
   | Inl _ \<Rightarrow> False"
proof -
  obtain c where c: "cache_new (fake_new 16) 4 = Inr c" by (simp add: cache_new_def)
  have "cache_inv fake_contents fake_inv c"
    using cache_inv_new [OF c, of fake_inv fake_contents] by simp
  from cache_write_is_flat_memory [OF fake.total_backing_axioms this, where N = 4 and a = "0x80000FFE" and v = "0xDEADBEEF"]
  show ?thesis by (auto simp: c split: prod.splits)
qed

text \<open>A flush never changes what a page holds and never
  panics, and after one that reports success the store itself holds every page of guest RAM.\<close>

theorem cache_flush_makes_durable:
  assumes "total_backing B contents binv" and "cache_inv contents binv c"
  shows "case cache_flush B c of (r, c') \<Rightarrow>
    cache_inv contents binv c' \<and> page_view contents c' = page_view contents c \<and> r \<noteq> Inl Panic \<and>
    (r = Inr () \<longrightarrow> contents (backing c') = page_view contents c)"
  using total_backing.cache_flush_ok [OF assms(1), of "page_view contents c" c]
    assms(2) holds_unfold [OF assms(1)]
  by (auto split: prod.splits)

lemma cache_flush_makes_durable_witness:
  "case cache_new (fake_new 16) 4 of Inr c \<Rightarrow>
     (case cache_flush fake_ops c of (r, c') \<Rightarrow>
        r \<noteq> Inl Panic \<and> (r = Inr () \<longrightarrow> fake_contents (backing c') = page_view fake_contents c))
   | Inl _ \<Rightarrow> False"
proof -
  obtain c where c: "cache_new (fake_new 16) 4 = Inr c" by (simp add: cache_new_def)
  have "cache_inv fake_contents fake_inv c"
    using cache_inv_new [OF c, of fake_inv fake_contents] by simp
  from cache_flush_makes_durable [OF fake.total_backing_axioms this]
  show ?thesis by (auto simp: c split: prod.splits)
qed

text \<open>CLOCK finds a victim within its two passes
  whenever some frame is not pinned, the victim is not pinned, and choosing it changes nothing but
  reference bits and the hand; the fallback and its \<open>expect\<close> are reached only when every frame is
  pinned, and then the code panics.\<close>

theorem select_victim_unpinned_or_panic:
  assumes "index_ok c" and "frames c \<noteq> []"
  shows "case select_victim c of (r, c') \<Rightarrow> aged c c' \<and>
    (if \<exists>f \<in> set (frames c). \<not> f_pinned f
     then \<exists>v. r = Inr v \<and> v < length (frames c) \<and> \<not> f_pinned (frames c ! v) \<and>
            fst (clock_sweep (2 * length (frames c)) c) = Inr (Some v)
     else r = Inl Panic)"
proof (cases "\<exists>f \<in> set (frames c). \<not> f_pinned f")
  case True
  have h: "hand c < length (frames c)" using assms by (simp add: index_ok_def)
  obtain r c1 where s: "clock_sweep (2 * length (frames c)) c = (r, c1)" by fastforce
  from clock_sweep_aged [OF h s] clock_two_passes [OF h, of c1] s True
  obtain v where "r = Inr (Some v)" "aged c c1" "v < length (frames c)" "\<not> f_pinned (frames c ! v)"
    by (metis not_None_eq)
  with s True show ?thesis by (simp add: select_victim_def sm_bind_def sm_return_def)
next
  case False
  then show ?thesis
    using select_victim_stop [OF assms] by (fastforce split: prod.splits sum.splits)
qed

lemma select_victim_unpinned_or_panic_witness:
  "case select_victim \<lparr>backing = (), frames = [fresh_frame 3 []], slot_of = (replicate RAM_PAGES 0)[3 := 1],
      hand = 0, capacity = 1, cstats = stats_default\<rparr> of (r, c') \<Rightarrow> \<exists>v. r = Inr v"
proof -
  let ?c = "\<lparr>backing = (), frames = [fresh_frame 3 []], slot_of = (replicate RAM_PAGES 0)[3 := 1],
      hand = 0, capacity = 1, cstats = stats_default\<rparr>"
  have "index_ok ?c"
    by (auto simp: index_ok_def resident_slot_def Let_def nth_list_update word_unat_eq_iff fresh_frame_def)
  from select_victim_unpinned_or_panic [OF this] show ?thesis
    by (auto simp: fresh_frame_def split: prod.splits)
qed

end
