(* ===== verification/Devices.thy ===== *)
theory Devices
  imports Cache_Flat
begin

text \<open>
  Exceptions and interrupts (\<open>exception.rs\<close>), the core-local interruptor (\<open>clint.rs\<close>), the
  8250 UART (\<open>uart.rs\<close>) and the physical bus that routes an access to RAM, CLINT or UART
  (\<open>bus.rs\<close>). The console sink of the UART is a parameter: its one operation \<open>put\<close>.
\<close>

section \<open>Exceptions and interrupts\<close>

datatype exception =
    InstructionAddressMisaligned u64
  | InstructionAccessFault u64
  | IllegalInstruction u64
  | Breakpoint
  | LoadAddressMisaligned u64
  | LoadAccessFault u64
  | StoreAddressMisaligned u64
  | StoreAccessFault u64
  | EnvironmentCallFromUMode
  | EnvironmentCallFromSMode
  | EnvironmentCallFromMMode
  | InstructionPageFault u64
  | LoadPageFault u64
  | StorePageFault u64
  | BackingFailure u64

fun exc_cause :: "exception \<Rightarrow> u64" where
  "exc_cause (InstructionAddressMisaligned _) = 0"
| "exc_cause (InstructionAccessFault _) = 1"
| "exc_cause (IllegalInstruction _) = 2"
| "exc_cause Breakpoint = 3"
| "exc_cause (LoadAddressMisaligned _) = 4"
| "exc_cause (LoadAccessFault _) = 5"
| "exc_cause (StoreAddressMisaligned _) = 6"
| "exc_cause (StoreAccessFault _) = 7"
| "exc_cause EnvironmentCallFromUMode = 8"
| "exc_cause EnvironmentCallFromSMode = 9"
| "exc_cause EnvironmentCallFromMMode = 11"
| "exc_cause (InstructionPageFault _) = 12"
| "exc_cause (LoadPageFault _) = 13"
| "exc_cause (StorePageFault _) = 15"
| "exc_cause (BackingFailure _) = 5"

fun exc_tval :: "exception \<Rightarrow> u64" where
  "exc_tval (InstructionAddressMisaligned v) = v"
| "exc_tval (InstructionAccessFault v) = v"
| "exc_tval (IllegalInstruction v) = v"
| "exc_tval (LoadAddressMisaligned v) = v"
| "exc_tval (LoadAccessFault v) = v"
| "exc_tval (StoreAddressMisaligned v) = v"
| "exc_tval (StoreAccessFault v) = v"
| "exc_tval (InstructionPageFault v) = v"
| "exc_tval (LoadPageFault v) = v"
| "exc_tval (StorePageFault v) = v"
| "exc_tval (BackingFailure v) = v"
| "exc_tval _ = 0"

datatype interrupt =
    SupervisorSoftware
  | SupervisorTimer
  | SupervisorExternal
  | MachineSoftware
  | MachineTimer
  | MachineExternal

fun int_code :: "interrupt \<Rightarrow> u64" where
  "int_code SupervisorSoftware = 1"
| "int_code MachineSoftware = 3"
| "int_code SupervisorTimer = 5"
| "int_code MachineTimer = 7"
| "int_code SupervisorExternal = 9"
| "int_code MachineExternal = 11"

definition int_cause :: "interrupt \<Rightarrow> u64" where
  "int_cause i = int_code i OR push_bit 63 1"

section \<open>CLINT\<close>

abbreviation MSIP_OFF :: u64 where "MSIP_OFF \<equiv> 0"
abbreviation MTIMECMP_OFF :: u64 where "MTIMECMP_OFF \<equiv> 0x4000"
abbreviation MTIME_OFF :: u64 where "MTIME_OFF \<equiv> 0xBFF8"

record clint =
  mtime :: u64
  mtimecmp :: u64
  msip :: u32

definition clint_default :: clint where
  "clint_default = \<lparr>mtime = 0, mtimecmp = -1, msip = 0\<rparr>"

definition clint_tick :: "u64 \<Rightarrow> clint \<Rightarrow> clint" where
  "clint_tick n c = c\<lparr>mtime := mtime c + n\<rparr>"

definition clint_pending :: "clint \<Rightarrow> bool" where
  "clint_pending c \<longleftrightarrow> mtimecmp c \<le> mtime c"

definition clint_load :: "u64 \<Rightarrow> clint \<Rightarrow> u64" where
  "clint_load off c =
     (if off = MSIP_OFF then ucast (msip c)
      else if off = MTIMECMP_OFF then mtimecmp c
      else if off = MTIME_OFF then mtime c
      else 0)"

definition clint_store :: "u64 \<Rightarrow> nat \<Rightarrow> u64 \<Rightarrow> clint \<Rightarrow> clint" where
  "clint_store off sz v c =
     (if off = MSIP_OFF then c\<lparr>msip := ucast v\<rparr>
      else if off = MTIMECMP_OFF then c\<lparr>mtimecmp := v\<rparr>
      else if off = MTIME_OFF then c\<lparr>mtime := v\<rparr>
      else c)"

section \<open>UART\<close>

abbreviation RBR :: u64 where "RBR \<equiv> 0"
abbreviation THR :: u64 where "THR \<equiv> 0"
abbreviation IER :: u64 where "IER \<equiv> 1"
abbreviation IIR :: u64 where "IIR \<equiv> 2"
abbreviation LCR :: u64 where "LCR \<equiv> 3"
abbreviation LSR :: u64 where "LSR \<equiv> 5"
abbreviation LSR_DR :: u64 where "LSR_DR \<equiv> 1"
abbreviation LSR_THRE :: u64 where "LSR_THRE \<equiv> 0x20"
abbreviation LSR_TEMT :: u64 where "LSR_TEMT \<equiv> 0x40"
abbreviation LCR_DLAB :: u8 where "LCR_DLAB \<equiv> 0x80"
abbreviation IIR_NO_INTERRUPT :: u64 where "IIR_NO_INTERRUPT \<equiv> 1"
abbreviation IIR_THR_EMPTY :: u64 where "IIR_THR_EMPTY \<equiv> 2"
abbreviation IIR_RX_AVAILABLE :: u64 where "IIR_RX_AVAILABLE \<equiv> 4"
abbreviation IER_RX_AVAILABLE :: u8 where "IER_RX_AVAILABLE \<equiv> 1"
abbreviation IER_THR_EMPTY :: u8 where "IER_THR_EMPTY \<equiv> 2"

record 's uart =
  sink :: 's
  input :: "u8 list"
  ier :: u8
  lcr :: u8
  dll :: u8
  dlm :: u8

text \<open>\<open>VecSink\<close>: the bytes the guest printed, in order.\<close>

definition vec_put :: "u8 \<Rightarrow> u8 list \<Rightarrow> u8 list" where
  "vec_put b s = s @ [b]"

definition uart_new :: "'s \<Rightarrow> 's uart" where
  "uart_new s = \<lparr>sink = s, input = [], ier = 0, lcr = 0, dll = 0, dlm = 0\<rparr>"

definition push_input :: "u8 \<Rightarrow> 's uart \<Rightarrow> 's uart" where
  "push_input b u = u\<lparr>input := input u @ [b]\<rparr>"

definition dlab :: "'s uart \<Rightarrow> bool" where
  "dlab u \<longleftrightarrow> lcr u AND LCR_DLAB \<noteq> 0"

definition thr_empty :: "'s uart \<Rightarrow> bool" where
  "thr_empty u = True"

definition uart_load :: "u64 \<Rightarrow> 's uart \<Rightarrow> u64 \<times> 's uart" where
  "uart_load off u =
     (if off = RBR then
        if dlab u then (ucast (dll u), u)
        else (case input u of [] \<Rightarrow> (0, u) | b # bs \<Rightarrow> (ucast b, u\<lparr>input := bs\<rparr>))
      else if off = IER then if dlab u then (ucast (dlm u), u) else (ucast (ier u), u)
      else if off = IIR then
        if ier u AND IER_RX_AVAILABLE \<noteq> 0 \<and> input u \<noteq> [] then (IIR_RX_AVAILABLE, u)
        else if ier u AND IER_THR_EMPTY \<noteq> 0 \<and> thr_empty u then (IIR_THR_EMPTY, u)
        else (IIR_NO_INTERRUPT, u)
      else if off = LCR then (ucast (lcr u), u)
      else if off = LSR then
        ((if input u = [] then 0 else LSR_DR) OR (if thr_empty u then LSR_THRE OR LSR_TEMT else 0), u)
      else (0, u))"

definition uart_store :: "(u8 \<Rightarrow> 's \<Rightarrow> 's) \<Rightarrow> u64 \<Rightarrow> u64 \<Rightarrow> 's uart \<Rightarrow> 's uart" where
  "uart_store put off v u =
     (if off = THR then if dlab u then u\<lparr>dll := ucast v\<rparr> else u\<lparr>sink := put (ucast v) (sink u)\<rparr>
      else if off = IER then if dlab u then u\<lparr>dlm := ucast v\<rparr> else u\<lparr>ier := ucast v\<rparr>
      else if off = LCR then u\<lparr>lcr := ucast v\<rparr>
      else u)"

section \<open>The bus\<close>

abbreviation CLINT_BASE :: u64 where "CLINT_BASE \<equiv> 0x02000000"
abbreviation CLINT_SIZE :: u64 where "CLINT_SIZE \<equiv> 0x00010000"
abbreviation UART_BASE :: u64 where "UART_BASE \<equiv> 0x10000000"
abbreviation UART_SIZE :: u64 where "UART_SIZE \<equiv> 0x100"

record ('b, 's) bus =
  cache :: "'b page_cache"
  clint :: clint
  uart :: "'s uart"

definition bus_new :: "'b page_cache \<Rightarrow> 's \<Rightarrow> ('b, 's) bus" where
  "bus_new c s = \<lparr>cache = c, clint = clint_default, uart = uart_new s\<rparr>"

definition saturating_add :: "u64 \<Rightarrow> nat \<Rightarrow> u64" where
  "saturating_add a n = (if unat a + n < 2 ^ 64 then a + of_nat n else 0xFFFFFFFFFFFFFFFF)"

definition in_ram :: "u64 \<Rightarrow> nat \<Rightarrow> bool" where
  "in_ram addr sz \<longleftrightarrow> RAM_BASE \<le> addr \<and> saturating_add addr sz \<le> RAM_BASE + RAM_SIZE"

definition is_clint :: "u64 \<Rightarrow> nat \<Rightarrow> bool" where
  "is_clint addr sz \<longleftrightarrow> CLINT_BASE \<le> addr \<and> saturating_add addr sz \<le> CLINT_BASE + CLINT_SIZE"

definition is_uart :: "u64 \<Rightarrow> nat \<Rightarrow> bool" where
  "is_uart addr sz \<longleftrightarrow> UART_BASE \<le> addr \<and> saturating_add addr sz \<le> UART_BASE + UART_SIZE"

definition on_cache :: "('b page_cache, 'e, 'a) sm \<Rightarrow> (('b, 's) bus, 'e, 'a) sm" where
  "on_cache = sm_field cache (\<lambda>c b. b\<lparr>cache := c\<rparr>)"

definition valid_size :: "nat \<Rightarrow> bool" where
  "valid_size sz \<longleftrightarrow> sz = 1 \<or> sz = 2 \<or> sz = 4 \<or> sz = 8"

definition bus_load :: "'b backing_ops \<Rightarrow> u64 \<Rightarrow> nat \<Rightarrow> (('b, 's) bus, exception, u64) sm" where
  "bus_load B addr sz =
     (if \<not> valid_size sz then sm_err (LoadAccessFault addr)
      else if in_ram addr sz then sm_map_err (\<lambda>_. BackingFailure addr) (on_cache (read_le B sz addr))
      else if is_clint addr sz then sm_get (\<lambda>b. clint_load (addr - CLINT_BASE) (clint b))
      else if is_uart addr sz
      then (\<lambda>b. case uart_load (addr - UART_BASE) (uart b) of (v, u) \<Rightarrow> (Inr v, b\<lparr>uart := u\<rparr>))
      else sm_err (LoadAccessFault addr))"

definition bus_store ::
  "'b backing_ops \<Rightarrow> (u8 \<Rightarrow> 's \<Rightarrow> 's) \<Rightarrow> u64 \<Rightarrow> nat \<Rightarrow> u64 \<Rightarrow> (('b, 's) bus, exception, unit) sm" where
  "bus_store B put addr sz value =
     (if \<not> valid_size sz then sm_err (StoreAccessFault addr)
      else if in_ram addr sz then sm_map_err (\<lambda>_. BackingFailure addr) (on_cache (write_le B sz addr value))
      else if is_clint addr sz
      then sm_modify (\<lambda>b. b\<lparr>clint := clint_store (addr - CLINT_BASE) sz value (clint b)\<rparr>)
      else if is_uart addr sz
      then sm_modify (\<lambda>b. b\<lparr>uart := uart_store put (addr - UART_BASE) value (uart b)\<rparr>)
      else sm_err (StoreAccessFault addr))"

section \<open>The bus over flat memory\<close>

lemma in_ram_iff: "in_ram a n \<longleftrightarrow> RAM_BASE \<le> a \<and> ram_off a + n \<le> RAM_BYTES" if "n \<le> 8"
proof (cases "unat a + n < 2 ^ 64")
  case True
  have "unat (of_nat n :: u64) = n" using that by (simp only: unat_of_nat) simp
  then have "unat (a + of_nat n) = unat a + n" using True by (simp add: unat_word_ariths)
  with True show ?thesis
    by (auto simp: in_ram_def saturating_add_def ram_off_def word_le_nat_alt)
next
  case False
  then show ?thesis using that
    by (auto simp: in_ram_def saturating_add_def ram_off_def word_le_nat_alt)
qed

lemma valid_size_cases: "valid_size n \<Longrightarrow> n = 1 \<or> n = 2 \<or> n = 4 \<or> n = 8"
  by (simp add: valid_size_def)

lemma valid_size_bounds: "valid_size n \<Longrightarrow> 1 \<le> n \<and> n \<le> 8"
  by (auto simp: valid_size_def)

text \<open>What the bus answers at an address it maps: RAM, then CLINT, then UART.\<close>

definition mapped :: "u64 \<Rightarrow> nat \<Rightarrow> bool" where
  "mapped a n \<longleftrightarrow> valid_size n \<and> (in_ram a n \<or> is_clint a n \<or> is_uart a n)"

lemma uart_load_sink [simp]: "sink (snd (uart_load off u)) = sink u"
  by (simp add: uart_load_def split: list.split)

lemma uart_load_sinkD: "uart_load off u = (v, u') \<Longrightarrow> sink u' = sink u"
  using uart_load_sink [of off u] by simp

context total_backing
begin

lemma bus_load_ok:
  assumes H: "holds V (cache b)" and r: "bus_load B a n b = (r, b')"
  shows "holds V (cache b') \<and> clint b' = clint b \<and> sink (uart b') = sink (uart b) \<and>
    (case r of
       Inl e \<Rightarrow> e = Err (LoadAccessFault a) \<and> \<not> mapped a n \<or> e = Err (BackingFailure a) \<and> in_ram a n
     | Inr v \<Rightarrow> mapped a n \<and> (in_ram a n \<longrightarrow> v = from_le (flat_bytes V (ram_off a) n)))"
proof (cases "valid_size n \<and> in_ram a n")
  case True
  obtain s c where s: "read_le B n a (cache b) = (s, c)" by fastforce
  have n: "n \<le> 8" using True valid_size_bounds by blast
  have rb: "r = (case s of Inl e \<Rightarrow> Inl (stop_map (\<lambda>_. BackingFailure a) e) | Inr v \<Rightarrow> Inr v)" "b' = b\<lparr>cache := c\<rparr>"
    using r True s by (auto simp: bus_load_def sm_map_err_def on_cache_def sm_field_def split: sum.splits)
  from read_le_ok [OF H n s] rb True show ?thesis
    by (cases s) (auto simp: mapped_def)
next
  case False
  with r H show ?thesis
    by (auto simp: bus_load_def sm_err_def sm_get_def mapped_def split: if_splits prod.splits
        dest: uart_load_sinkD)
qed

lemma bus_store_ok:
  assumes H: "holds V (cache b)" and r: "bus_store B put a n v b = (r, b')"
  shows "\<exists>V' k. holds V' (cache b') \<and> k \<le> n \<and> wrote V (ram_off a) (to_le k v) V' \<and>
    (\<not> (valid_size n \<and> in_ram a n) \<longrightarrow> V' = V) \<and>
    (case r of
       Inl e \<Rightarrow> e = Err (StoreAccessFault a) \<and> \<not> mapped a n \<and> b' = b \<or> e = Err (BackingFailure a) \<and> in_ram a n
     | Inr _ \<Rightarrow> mapped a n \<and> (in_ram a n \<longrightarrow> k = n))"
proof (cases "valid_size n \<and> in_ram a n")
  case True
  obtain s c where s: "write_le B n a v (cache b) = (s, c)" by fastforce
  have n: "1 \<le> n" "n \<le> 8" using True valid_size_bounds by blast+
  have rb: "r = (case s of Inl e \<Rightarrow> Inl (stop_map (\<lambda>_. BackingFailure a) e) | Inr v \<Rightarrow> Inr v)" "b' = b\<lparr>cache := c\<rparr>"
    using r True s by (auto simp: bus_store_def sm_map_err_def on_cache_def sm_field_def split: sum.splits)
  from write_le_ok [OF H n s] obtain V' k where "holds V' c" "k \<le> n" "wrote V (ram_off a) (to_le k v) V'"
    "case s of Inl e \<Rightarrow> e \<noteq> Panic | Inr _ \<Rightarrow> RAM_BASE \<le> a \<and> ram_off a + n \<le> RAM_BYTES \<and> k = n" by blast
  with rb True show ?thesis
    by (intro exI [of _ V'] exI [of _ k], cases s) (auto simp: mapped_def)
next
  case False
  with r H show ?thesis
    by (intro exI [of _ V] exI [of _ 0])
      (auto simp: bus_store_def sm_err_def sm_modify_def mapped_def split: if_splits)
qed

end

text \<open>Every load the bus accepts lies wholly inside RAM, the CLINT or
  the UART window and has a legal width, and every other one is a load access fault at its own
  address; in RAM it returns the bytes of flat memory or reports a backing failure; no load
  changes guest RAM or the CLINT, or panics.\<close>

theorem bus_load_routes:
  assumes "total_backing B contents binv" and "cache_inv contents binv (cache b)"
  shows "case bus_load B a n b of (r, b') \<Rightarrow>
    cache_inv contents binv (cache b') \<and> page_view contents (cache b') = page_view contents (cache b) \<and>
    clint b' = clint b \<and>
    (case r of
       Inl e \<Rightarrow> e = Err (LoadAccessFault a) \<and> \<not> mapped a n \<or> e = Err (BackingFailure a) \<and> in_ram a n
     | Inr v \<Rightarrow> mapped a n \<and>
         (in_ram a n \<longrightarrow> v = from_le (flat_bytes (page_view contents (cache b)) (ram_off a) n)))"
proof -
  obtain r b' where r: "bus_load B a n b = (r, b')" by fastforce
  have "total_backing.holds contents binv (page_view contents (cache b)) (cache b)"
    using assms(2) holds_unfold [OF assms(1)] by blast
  from total_backing.bus_load_ok [OF assms(1) this r] show ?thesis
    unfolding holds_unfold [OF assms(1)] r by simp
qed

lemma bus_load_routes_witness:
  "case cache_new (fake_new 16) 4 of Inr c \<Rightarrow>
     (case bus_load fake_ops 0x0200FFFC 8 (bus_new c ([] :: u8 list)) of (r, b') \<Rightarrow>
        r = Inl (Err (LoadAccessFault 0x0200FFFC)))
   | Inl _ \<Rightarrow> False"
proof -
  obtain c where c: "cache_new (fake_new 16) 4 = Inr c" by (simp add: cache_new_def)
  have "cache_inv fake_contents fake_inv (cache (bus_new c ([] :: u8 list)))"
    using cache_inv_new [OF c, of fake_inv fake_contents] by (simp add: bus_new_def)
  note routes = bus_load_routes [OF fake.total_backing_axioms this, where a = "0x0200FFFC" and n = 8]
  obtain r b' where r: "bus_load fake_ops 0x0200FFFC 8 (bus_new c ([] :: u8 list)) = (r, b')" by fastforce
  from routes show ?thesis
    by (auto simp: c r mapped_def valid_size_def in_ram_def is_clint_def is_uart_def saturating_add_def
        split: prod.splits sum.splits)
qed

section \<open>The UART as its driver sees it\<close>

text \<open>The interrupt identification register names a cause
  only if the driver enabled it, and never contradicts the line status register: a transmit cause
  comes with room in the holding register, a receive cause with a byte to read, and receive
  outranks transmit.\<close>

theorem uart_iir_agrees_with_lsr:
  "case uart_load IIR u of (v, u') \<Rightarrow> u' = u \<and>
     (v = IIR_THR_EMPTY \<longrightarrow> ier u AND IER_THR_EMPTY \<noteq> 0 \<and> fst (uart_load LSR u) AND LSR_THRE \<noteq> 0) \<and>
     (v = IIR_RX_AVAILABLE \<longrightarrow> ier u AND IER_RX_AVAILABLE \<noteq> 0 \<and> fst (uart_load LSR u) AND LSR_DR \<noteq> 0) \<and>
     (ier u AND IER_RX_AVAILABLE \<noteq> 0 \<and> fst (uart_load LSR u) AND LSR_DR \<noteq> 0 \<longrightarrow> v = IIR_RX_AVAILABLE) \<and>
     (ier u = 0 \<longrightarrow> v = IIR_NO_INTERRUPT)"
  by (auto simp: uart_load_def thr_empty_def)

lemma uart_iir_agrees_with_lsr_witness:
  "fst (uart_load IIR (push_input 65 ((uart_new ([] :: u8 list))\<lparr>ier := 3\<rparr>))) = IIR_RX_AVAILABLE"
  using uart_iir_agrees_with_lsr [of "push_input 65 ((uart_new ([] :: u8 list))\<lparr>ier := 3\<rparr>)"]
  by (simp add: uart_load_def push_input_def uart_new_def)

text \<open>Reading the receive buffer \<open>n\<close> times.\<close>

primrec drain :: "nat \<Rightarrow> 's uart \<Rightarrow> u64 list \<times> 's uart" where
  "drain 0 u = ([], u)"
| "drain (Suc n) u = (case uart_load RBR u of (v, u1) \<Rightarrow> case drain n u1 of (vs, u2) \<Rightarrow> (v # vs, u2))"

lemma drain_input:
  "\<not> dlab u \<Longrightarrow> drain (length (input u)) u = (map ucast (input u), u\<lparr>input := []\<rparr>)"
proof (induction "input u" arbitrary: u)
  case Nil
  then show ?case by (simp flip: Nil)
next
  case (Cons b bs)
  from Cons.hyps(2) [symmetric] Cons.prems have "uart_load RBR u = (ucast b, u\<lparr>input := bs\<rparr>)"
    by (simp add: uart_load_def)
  moreover have "drain (length bs) (u\<lparr>input := bs\<rparr>) = (map ucast bs, u\<lparr>input := []\<rparr>)"
    using Cons.hyps(1) [of "u\<lparr>input := bs\<rparr>"] Cons.prems by (simp add: dlab_def)
  ultimately show ?case using Cons.hyps(2) [symmetric] by simp
qed

lemma input_push: "input (fold push_input bs u) = input u @ bs \<and> lcr (fold push_input bs u) = lcr u"
  by (induction bs arbitrary: u) (simp_all add: push_input_def)

text \<open>Console input reaches the guest in order and exactly once:
  with the divisor latch closed, as many reads of the receive buffer as bytes pushed return those
  bytes in the order they were pushed and leave nothing behind.\<close>

theorem uart_input_is_fifo:
  assumes "\<not> dlab u" and "input u = []"
  shows "case drain (length bs) (fold push_input bs u) of (vs, u') \<Rightarrow>
    vs = map ucast bs \<and> input u' = [] \<and> fst (uart_load RBR u') = 0"
proof -
  let ?u = "fold push_input bs u"
  have "input ?u = bs" and "\<not> dlab ?u"
    using input_push [of bs u] assms by (simp_all add: dlab_def)
  with drain_input [of ?u] show ?thesis by (simp add: uart_load_def dlab_def)
qed

lemma uart_input_is_fifo_witness:
  "case drain (length [104, 105, 10 :: u8]) (fold push_input [104, 105, 10] (uart_new ([] :: u8 list))) of
     (vs, u') \<Rightarrow> vs = map ucast [104, 105, 10 :: u8] \<and> input u' = [] \<and> fst (uart_load RBR u') = 0"
  by (rule uart_input_is_fifo) (simp_all add: uart_new_def dlab_def)

end
