(* ===== verification/Csr.thy ===== *)
theory Csr
  imports Devices
begin

text \<open>
  The control and status registers (\<open>csr.rs\<close>). The register file is the 4096-entry array of the
  code; an address is a 12-bit word, the width of the CSR field of an instruction, so that every
  index is in range. The lemmas say which fields are read-only, clamped or shared between the
  machine and supervisor views, and that no write can break them.
\<close>

type_synonym csr_addr = "12 word"

abbreviation SSTATUS :: csr_addr where "SSTATUS \<equiv> 0x100"
abbreviation SIE :: csr_addr where "SIE \<equiv> 0x104"
abbreviation STVEC :: csr_addr where "STVEC \<equiv> 0x105"
abbreviation SSCRATCH :: csr_addr where "SSCRATCH \<equiv> 0x140"
abbreviation SEPC :: csr_addr where "SEPC \<equiv> 0x141"
abbreviation SCAUSE :: csr_addr where "SCAUSE \<equiv> 0x142"
abbreviation STVAL :: csr_addr where "STVAL \<equiv> 0x143"
abbreviation SIP :: csr_addr where "SIP \<equiv> 0x144"
abbreviation SATP :: csr_addr where "SATP \<equiv> 0x180"
abbreviation MSTATUS :: csr_addr where "MSTATUS \<equiv> 0x300"
abbreviation MISA :: csr_addr where "MISA \<equiv> 0x301"
abbreviation MEDELEG :: csr_addr where "MEDELEG \<equiv> 0x302"
abbreviation MIDELEG :: csr_addr where "MIDELEG \<equiv> 0x303"
abbreviation MIE :: csr_addr where "MIE \<equiv> 0x304"
abbreviation MTVEC :: csr_addr where "MTVEC \<equiv> 0x305"
abbreviation MSCRATCH :: csr_addr where "MSCRATCH \<equiv> 0x340"
abbreviation MEPC :: csr_addr where "MEPC \<equiv> 0x341"
abbreviation MCAUSE :: csr_addr where "MCAUSE \<equiv> 0x342"
abbreviation MTVAL :: csr_addr where "MTVAL \<equiv> 0x343"
abbreviation MIP :: csr_addr where "MIP \<equiv> 0x344"
abbreviation MHARTID :: csr_addr where "MHARTID \<equiv> 0xF14"
abbreviation CYCLE :: csr_addr where "CYCLE \<equiv> 0xC00"
abbreviation TIME :: csr_addr where "TIME \<equiv> 0xC01"
abbreviation INSTRET :: csr_addr where "INSTRET \<equiv> 0xC02"
abbreviation TSELECT :: csr_addr where "TSELECT \<equiv> 0x7A0"
abbreviation TCONTROL :: csr_addr where "TCONTROL \<equiv> 0x7A5"

abbreviation MSTATUS_XLEN_FIELDS :: u64 where "MSTATUS_XLEN_FIELDS \<equiv> 0xF00000000"
abbreviation MSTATUS_XLEN_RV64 :: u64 where "MSTATUS_XLEN_RV64 \<equiv> 0xA00000000"
abbreviation SSTATUS_MASK :: u64 where "SSTATUS_MASK \<equiv> 0x80000003000DE162"

datatype priv = U | S | M

text \<open>\<open>priv_ as u64\<close>\<close>

fun priv_code :: "priv \<Rightarrow> u64" where
  "priv_code U = 0"
| "priv_code S = 1"
| "priv_code M = 3"

record csrs =
  csr_regs :: "csr_addr \<Rightarrow> u64"

definition bit_of :: "u64 \<Rightarrow> u64" where
  "bit_of n = push_bit (unat n) 1"

definition csrs_default :: csrs where
  "csrs_default =
     (let mxl = push_bit 62 2;
          ext = push_bit 0 1 OR push_bit 2 1 OR push_bit 8 1 OR push_bit 12 1 OR push_bit 18 1 OR push_bit 20 1;
          medeleg = bit_of (exc_cause (InstructionAddressMisaligned 0))
            OR bit_of (exc_cause (InstructionAccessFault 0))
            OR bit_of (exc_cause Breakpoint)
            OR bit_of (exc_cause (LoadAddressMisaligned 0))
            OR bit_of (exc_cause (LoadAccessFault 0))
            OR bit_of (exc_cause (StoreAddressMisaligned 0))
            OR bit_of (exc_cause (StoreAccessFault 0))
            OR bit_of (exc_cause EnvironmentCallFromUMode)
            OR bit_of (exc_cause (InstructionPageFault 0))
            OR bit_of (exc_cause (LoadPageFault 0))
            OR bit_of (exc_cause (StorePageFault 0))
      in \<lparr>csr_regs = (\<lambda>_. 0)
           (MISA := mxl OR ext,
            MIDELEG := push_bit 1 1 OR push_bit 5 1 OR push_bit 9 1,
            MSTATUS := MSTATUS_XLEN_RV64,
            MEDELEG := medeleg)\<rparr>)"

definition csr_read :: "csr_addr \<Rightarrow> csrs \<Rightarrow> u64" where
  "csr_read addr c =
     (if addr = SSTATUS then csr_regs c MSTATUS AND SSTATUS_MASK
      else if addr = SIE then csr_regs c MIE AND csr_regs c MIDELEG
      else if addr = SIP then csr_regs c MIP AND csr_regs c MIDELEG
      else csr_regs c addr)"

definition set_csr :: "csr_addr \<Rightarrow> u64 \<Rightarrow> csrs \<Rightarrow> csrs" where
  "set_csr addr v c = c\<lparr>csr_regs := (csr_regs c)(addr := v)\<rparr>"

definition csr_write :: "csr_addr \<Rightarrow> u64 \<Rightarrow> csrs \<Rightarrow> csrs" where
  "csr_write addr v c =
     (if addr = SSTATUS then
        (let m = csr_regs c MSTATUS; w = SSTATUS_MASK AND NOT MSTATUS_XLEN_FIELDS
         in set_csr MSTATUS ((m AND NOT w) OR (v AND w)) c)
      else if addr = MSTATUS then
        set_csr MSTATUS ((v AND NOT MSTATUS_XLEN_FIELDS) OR MSTATUS_XLEN_RV64) c
      else if addr = MTVEC \<or> addr = STVEC then set_csr addr (v AND NOT 3) c
      else if addr = SATP then
        (let mode = drop_bit 60 v
         in if mode = 0 \<or> mode = 8 then set_csr SATP (v AND NOT (push_bit 44 0xFFFF)) c else c)
      else if TSELECT \<le> addr \<and> addr \<le> TCONTROL then c
      else if addr = SIE then
        (let d = csr_regs c MIDELEG; m = csr_regs c MIE in set_csr MIE ((m AND NOT d) OR (v AND d)) c)
      else if addr = SIP then
        (let d = csr_regs c MIDELEG; m = csr_regs c MIP in set_csr MIP ((m AND NOT d) OR (v AND d)) c)
      else if addr = MISA then c
      else set_csr addr v c)"

section \<open>The invariant of the register file\<close>

text \<open>Everything a guest may rely on when it probes the machine: XLEN is 64, only the implemented
  paging modes and no ASID, direct trap vectors, a fixed ISA, no debug triggers.\<close>

definition csr_ok :: "csrs \<Rightarrow> bool" where
  "csr_ok c \<longleftrightarrow>
     csr_regs c MSTATUS AND MSTATUS_XLEN_FIELDS = MSTATUS_XLEN_RV64 \<and>
     (drop_bit 60 (csr_regs c SATP) = 0 \<or> drop_bit 60 (csr_regs c SATP) = 8) \<and>
     csr_regs c SATP AND push_bit 44 0xFFFF = 0 \<and>
     csr_regs c MTVEC AND 3 = 0 \<and> csr_regs c STVEC AND 3 = 0 \<and>
     csr_regs c MISA = csr_regs csrs_default MISA \<and>
     (\<forall>a. TSELECT \<le> a \<and> a \<le> TCONTROL \<longrightarrow> csr_regs c a = 0)"

lemma csr_regs_set [simp]: "csr_regs (set_csr a v c) b = (if b = a then v else csr_regs c b)"
  by (simp add: set_csr_def)

lemma csr_ok_default: "csr_ok csrs_default"
  by (simp add: csr_ok_def csrs_default_def bit_of_def word_le_nat_alt)

lemma and_or_mask: "r AND f = r \<Longrightarrow> ((v AND NOT f) OR r) AND f = (r :: u64)"
  by (simp add: bit.conj_disj_distrib2 and.assoc)

lemma masked_update_other: "w AND f = 0 \<Longrightarrow> ((m AND NOT w) OR (v AND w)) AND f = m AND (f :: u64)"
proof (rule bit_word_eqI)
  fix n
  assume "w AND f = 0"
  then have "bit (w AND f) n = False" by simp
  then show "bit (((m AND NOT w) OR (v AND w)) AND f) n = bit (m AND f) n"
    by (auto simp: bit_simps dest: bit_imp_le_length)
qed

lemma satp_mode_kept: "drop_bit 60 (v AND NOT (push_bit 44 0xFFFF)) = drop_bit 60 (v :: u64)"
proof -
  have m: "(0xFFFF :: u64) = mask 16" by (simp add: mask_eq_exp_minus_1)
  show ?thesis unfolding m by (rule bit_word_eqI) (auto simp: bit_simps dest: bit_imp_le_length)
qed

lemma csr_ok_write:
  assumes "csr_ok c"
  shows "csr_ok (csr_write a v c)"
proof -
  have sst: "(SSTATUS_MASK AND NOT MSTATUS_XLEN_FIELDS) AND MSTATUS_XLEN_FIELDS = 0" by simp
  have asid: "(v AND NOT (push_bit 44 0xFFFF)) AND push_bit 44 0xFFFF = (0 :: u64)"
    by (simp add: and.assoc)
  have vec: "(v AND NOT 3) AND 3 = (0 :: u64)"
    by (simp add: and.assoc)
  show ?thesis
    using assms masked_update_other [OF sst, of "csr_regs c MSTATUS" v] asid vec satp_mode_kept [of v]
      and_or_mask [of MSTATUS_XLEN_RV64 MSTATUS_XLEN_FIELDS v]
    unfolding csr_ok_def csr_write_def by (auto simp: Let_def word_le_nat_alt)
qed

section \<open>The register file as an interface\<close>

text \<open>
  What the processor relies on when it works through the register file: an invariant that holds
  at reset and that no write breaks. The lemma lifts it to any program of writes.
\<close>

locale register_file =
  fixes reset :: "'r"
    and wr :: "'a \<Rightarrow> 'v \<Rightarrow> 'r \<Rightarrow> 'r"
    and inv :: "'r \<Rightarrow> bool"
  assumes reset_ok: "inv reset"
    and wr_ok: "inv r \<Longrightarrow> inv (wr a v r)"
begin

lemma writes_ok: "inv r \<Longrightarrow> inv (fold (\<lambda>(a, v). wr a v) ws r)"
  by (induction ws arbitrary: r) (auto simp: wr_ok)

lemma writes_from_reset: "inv (fold (\<lambda>(a, v). wr a v) ws reset)"
  by (rule writes_ok) (rule reset_ok)

end

interpretation csr_file: register_file csrs_default csr_write csr_ok
  by unfold_locales (simp_all add: csr_ok_default csr_ok_write)

text \<open>Property C40 (csr_writes_keep_invariant): no program of CSR writes, at any addresses and with any
  values, makes the machine lie about itself: XLEN stays 64, satp only ever holds a paging mode
  the MMU implements and no ASID, both trap vectors stay direct, misa is fixed and the debug
  trigger block reads zero.\<close>

theorem csr_writes_keep_invariant:
  "csr_ok (fold (\<lambda>(a, v). csr_write a v) ws csrs_default)"
  by (rule csr_file.writes_from_reset)

lemma csr_writes_keep_invariant_witness:
  "csr_ok (fold (\<lambda>(a, v). csr_write a v) [(SATP, push_bit 60 10), (MSTATUS, 0), (STVEC, 0x80001235)] csrs_default)"
  by (rule csr_writes_keep_invariant)

text \<open>The write-and-read-back probe for a paging mode. A write
  with an implemented mode reads back as written, less the ASID field; a write with any other mode
  changes nothing at all.\<close>

theorem satp_readback_is_honest:
  "csr_read SATP (csr_write SATP v c) =
     (if drop_bit 60 v = 0 \<or> drop_bit 60 v = 8 then v AND NOT (push_bit 44 0xFFFF) else csr_read SATP c) \<and>
   (drop_bit 60 v = 0 \<or> drop_bit 60 v = 8 \<or> csr_write SATP v c = c)"
  by (auto simp: csr_read_def csr_write_def)

lemma satp_readback_is_honest_witness:
  "csr_read SATP (csr_write SATP (push_bit 60 10 OR 0x80100) csrs_default) = csr_read SATP csrs_default"
  using satp_readback_is_honest [of "push_bit 60 10 OR 0x80100" csrs_default] by simp

section \<open>The supervisor's share of the machine registers\<close>

text \<open>\<open>csr_addr[9:8]\<close>, the lowest privilege that may touch the register.\<close>

definition csr_level :: "csr_addr \<Rightarrow> csr_addr" where
  "csr_level a = drop_bit 8 a AND 3"

lemma masked_update_outside: "((m AND NOT w) OR (v AND w)) AND NOT w = m AND NOT (w :: u64)"
  by (rule bit_word_eqI) (auto simp: bit_simps dest: bit_imp_le_length)

lemma masked_update_inside: "((m AND NOT w) OR (v AND w)) AND w = v AND (w :: u64)"
  by (rule bit_word_eqI) (auto simp: bit_simps dest: bit_imp_le_length)

lemma csr_write_confined:
  assumes "csr_level a \<noteq> 3" and "csr_level b = 3"
  shows "(b \<in> {MSTATUS, MIE, MIP} \<or> csr_regs (csr_write a v c) b = csr_regs c b) \<and>
    csr_regs (csr_write a v c) MSTATUS AND NOT SSTATUS_MASK = csr_regs c MSTATUS AND NOT SSTATUS_MASK \<and>
    csr_regs (csr_write a v c) MIE AND NOT (csr_regs c MIDELEG) = csr_regs c MIE AND NOT (csr_regs c MIDELEG) \<and>
    csr_regs (csr_write a v c) MIP AND NOT (csr_regs c MIDELEG) = csr_regs c MIP AND NOT (csr_regs c MIDELEG)"
proof (intro conjI)
  have ne: "a \<noteq> MSTATUS" "a \<noteq> MIE" "a \<noteq> MIP" "a \<noteq> MTVEC" "a \<noteq> b" "b \<noteq> SATP" "b \<noteq> STVEC"
    using assms by (auto simp: csr_level_def)
  show "b \<in> {MSTATUS, MIE, MIP} \<or> csr_regs (csr_write a v c) b = csr_regs c b"
    using ne by (auto simp: csr_write_def Let_def)
  have sst: "(SSTATUS_MASK AND NOT MSTATUS_XLEN_FIELDS) AND NOT SSTATUS_MASK = 0" by simp
  show "csr_regs (csr_write a v c) MSTATUS AND NOT SSTATUS_MASK = csr_regs c MSTATUS AND NOT SSTATUS_MASK"
    using ne masked_update_other [OF sst, of "csr_regs c MSTATUS" v] by (auto simp: csr_write_def Let_def)
  show "csr_regs (csr_write a v c) MIE AND NOT (csr_regs c MIDELEG) = csr_regs c MIE AND NOT (csr_regs c MIDELEG)"
    using ne by (auto simp: csr_write_def Let_def masked_update_outside)
  show "csr_regs (csr_write a v c) MIP AND NOT (csr_regs c MIDELEG) = csr_regs c MIP AND NOT (csr_regs c MIDELEG)"
    using ne by (auto simp: csr_write_def Let_def masked_update_outside)
qed

text \<open>A write to a CSR below machine level leaves every
  machine-level register as it was, except the bits of mstatus that sstatus shows and the bits of
  mie and mip that mideleg delegates.\<close>

theorem csr_supervisor_confined:
  assumes "csr_level a \<noteq> 3" and "csr_level b = 3"
  shows "(b \<in> {MSTATUS, MIE, MIP} \<or> csr_regs (csr_write a v c) b = csr_regs c b) \<and>
    csr_regs (csr_write a v c) MSTATUS AND NOT SSTATUS_MASK = csr_regs c MSTATUS AND NOT SSTATUS_MASK \<and>
    csr_regs (csr_write a v c) MIE AND NOT (csr_regs c MIDELEG) = csr_regs c MIE AND NOT (csr_regs c MIDELEG) \<and>
    csr_regs (csr_write a v c) MIP AND NOT (csr_regs c MIDELEG) = csr_regs c MIP AND NOT (csr_regs c MIDELEG)"
  using csr_write_confined [OF assms] .

lemma csr_supervisor_confined_witness:
  "csr_regs (csr_write SSTATUS 0xFFFFFFFFFFFFFFFF csrs_default) MEPC = csr_regs csrs_default MEPC"
proof -
  have "csr_level SSTATUS \<noteq> 3" and "csr_level MEPC = 3" by (simp_all add: csr_level_def)
  from csr_supervisor_confined [OF this, of "0xFFFFFFFFFFFFFFFF" csrs_default] show ?thesis by simp
qed

end
