(* ===== verification/Mmu.thy ===== *)
theory Mmu
  imports Csr
begin

text \<open>
  The Sv39 memory-management unit (\<open>mmu.rs\<close>): the 32-entry direct-mapped TLB, the three-level
  walk over the bus, permissions, superpages. The reference is a translation without a TLB over
  the contents of guest RAM; the main lemma says that the two agree as long as the page tables
  and satp have not changed since the last flush.
\<close>

datatype access = Fetch | Load | Store

abbreviation TLB_ENTRIES :: nat where "TLB_ENTRIES \<equiv> 32"

record tlb_entry =
  t_valid :: bool
  t_vpn :: u64
  t_ppn :: u64
  t_perms :: u64

definition tlb_entry_default :: tlb_entry where
  "tlb_entry_default = \<lparr>t_valid = False, t_vpn = 0, t_ppn = 0, t_perms = 0\<rparr>"

record mmu =
  tlb :: "tlb_entry list"
  walks :: u64

definition mmu_default :: mmu where
  "mmu_default = \<lparr>tlb = replicate TLB_ENTRIES tlb_entry_default, walks = 0\<rparr>"

definition mmu_flush :: "mmu \<Rightarrow> mmu" where
  "mmu_flush m = m\<lparr>tlb := replicate TLB_ENTRIES tlb_entry_default\<rparr>"

fun mmu_fault :: "access \<Rightarrow> u64 \<Rightarrow> exception" where
  "mmu_fault Fetch vaddr = InstructionPageFault vaddr"
| "mmu_fault Load vaddr = LoadPageFault vaddr"
| "mmu_fault Store vaddr = StorePageFault vaddr"

definition check_perms :: "u64 \<Rightarrow> priv \<Rightarrow> access \<Rightarrow> u64 \<Rightarrow> exception + unit" where
  "check_perms pte p acc vaddr =
     (let r = pte AND push_bit 1 1 \<noteq> 0; w = pte AND push_bit 2 1 \<noteq> 0;
          x = pte AND push_bit 3 1 \<noteq> 0; u = pte AND push_bit 4 1 \<noteq> 0;
          ok = (case acc of Fetch \<Rightarrow> x | Load \<Rightarrow> r | Store \<Rightarrow> w)
      in if \<not> ok then Inl (mmu_fault acc vaddr)
         else if p = U \<and> \<not> u then Inl (mmu_fault acc vaddr)
         else if pte AND push_bit 6 1 = 0 \<or> (acc = Store \<and> pte AND push_bit 7 1 = 0)
         then Inl (mmu_fault acc vaddr)
         else Inr ())"

text \<open>\<open>idx[level]\<close>\<close>

definition vpn_index :: "nat \<Rightarrow> u64 \<Rightarrow> u64" where
  "vpn_index level vaddr =
     (if level = 0 then drop_bit 30 vaddr AND 0x1FF
      else if level = 1 then drop_bit 21 vaddr AND 0x1FF
      else drop_bit 12 vaddr AND 0x1FF)"

definition super_mask :: "nat \<Rightarrow> u64" where
  "super_mask level = (if level = 0 then 0x3FFFF else if level = 1 then 0x1FF else 0)"

definition splice_ppn :: "nat \<Rightarrow> u64 \<Rightarrow> u64 \<Rightarrow> u64" where
  "splice_ppn level ppn vaddr =
     (if level = 0 then (ppn AND NOT 0x3FFFF) OR (drop_bit 12 vaddr AND 0x3FFFF)
      else if level = 1 then (ppn AND NOT 0x1FF) OR (drop_bit 12 vaddr AND 0x1FF)
      else ppn)"

definition pte_ppn :: "u64 \<Rightarrow> u64" where
  "pte_ppn pte = drop_bit 10 pte AND 0x0FFFFFFFFFFF"

definition phys_addr :: "u64 \<Rightarrow> u64 \<Rightarrow> u64" where
  "phys_addr ppn vaddr = push_bit 12 ppn OR (vaddr AND 0xFFF)"

definition tlb_slot :: "u64 \<Rightarrow> nat" where
  "tlb_slot vaddr = unat (drop_bit 12 vaddr) mod TLB_ENTRIES"

text \<open>The state of a translation is the MMU and the bus. A PTE load keeps a backing failure and
  turns every other failure into the page fault of the access.\<close>

definition load_pte ::
  "'b backing_ops \<Rightarrow> u64 \<Rightarrow> exception \<Rightarrow> (mmu \<times> ('b, 's) bus, exception, u64) sm" where
  "load_pte B pte_addr flt s =
     (case bus_load B pte_addr 8 (snd s) of
        (Inr v, b) \<Rightarrow> (Inr v, (fst s, b))
      | (Inl Panic, b) \<Rightarrow> (Inl Panic, (fst s, b))
      | (Inl (Err (BackingFailure a)), b) \<Rightarrow> (Inl (Err (BackingFailure a)), (fst s, b))
      | (Inl (Err _), b) \<Rightarrow> (Inl (Err flt), (fst s, b)))"

text \<open>\<open>for level in 0..3\<close>: the levels still to visit and the table of the next one.\<close>

fun walk ::
  "'b backing_ops \<Rightarrow> priv \<Rightarrow> u64 \<Rightarrow> access \<Rightarrow> nat list \<Rightarrow> u64 \<Rightarrow> (mmu \<times> ('b, 's) bus, exception, u64) sm" where
  "walk B p vaddr acc [] table = sm_err (mmu_fault acc vaddr)"
| "walk B p vaddr acc (level # levels) table =
     sm_bind (load_pte B (table + vpn_index level vaddr * 8) (mmu_fault acc vaddr)) (\<lambda>pte.
       if pte AND 1 = 0 then sm_err (mmu_fault acc vaddr)
       else let ppn = pte_ppn pte in
         if pte AND 0xE \<noteq> 0 then
           sm_bind (sm_result (check_perms pte p acc vaddr)) (\<lambda>_.
             if ppn AND super_mask level \<noteq> 0 then sm_err (mmu_fault acc vaddr)
             else let ppn' = splice_ppn level ppn vaddr in
               sm_bind (sm_modify (\<lambda>(m, b). (m\<lparr>tlb := (tlb m)[tlb_slot vaddr :=
                   \<lparr>t_valid = True, t_vpn = drop_bit 12 vaddr, t_ppn = ppn', t_perms = pte\<rparr>]\<rparr>, b))) (\<lambda>_.
               sm_return (phys_addr ppn' vaddr)))
         else walk B p vaddr acc levels (push_bit 12 ppn))"

definition translate ::
  "'b backing_ops \<Rightarrow> csrs \<Rightarrow> priv \<Rightarrow> u64 \<Rightarrow> access \<Rightarrow> (mmu \<times> ('b, 's) bus, exception, u64) sm" where
  "translate B c p vaddr acc =
     (let satp = csr_read SATP c; mode = drop_bit 60 satp in
      if mode \<noteq> 8 \<or> p = M then sm_return vaddr
      else (\<lambda>s. let e = tlb (fst s) ! tlb_slot vaddr in
        if t_valid e \<and> t_vpn e = drop_bit 12 vaddr then
          sm_bind (sm_result (check_perms (t_perms e) p acc vaddr)) (\<lambda>_.
          sm_return (phys_addr (t_ppn e) vaddr)) s
        else
          sm_bind (sm_modify (\<lambda>(m, b). (m\<lparr>walks := walks m + 1\<rparr>, b))) (\<lambda>_.
          walk B p vaddr acc [0, 1, 2] (push_bit 12 (satp AND 0x0FFFFFFFFFFF))) s))"

section \<open>The reference translation\<close>

text \<open>A quadword of guest RAM.\<close>

definition ram_quad :: "(u32 \<Rightarrow> u8 list) \<Rightarrow> u64 \<Rightarrow> u64 option" where
  "ram_quad V a = (if in_ram a 8 then Some (from_le (flat_bytes V (ram_off a) 8)) else None)"

text \<open>The outcome of looking for a leaf: its level and PTE, no leaf, or a table in a device window,
  whose loads have effects and which the reference leaves out.\<close>

datatype leaf = Leaf nat u64 | NoLeaf | InMmio

fun find_leaf :: "(u32 \<Rightarrow> u8 list) \<Rightarrow> u64 \<Rightarrow> nat list \<Rightarrow> u64 \<Rightarrow> leaf" where
  "find_leaf V vaddr [] table = NoLeaf"
| "find_leaf V vaddr (level # levels) table =
     (let a = table + vpn_index level vaddr * 8 in
      if is_clint a 8 \<or> is_uart a 8 then InMmio
      else case ram_quad V a of
        None \<Rightarrow> NoLeaf
      | Some pte \<Rightarrow>
          if pte AND 1 = 0 then NoLeaf
          else if pte AND 0xE \<noteq> 0 then Leaf level pte
          else find_leaf V vaddr levels (push_bit 12 (pte_ppn pte)))"

definition sv39_leaf :: "(u32 \<Rightarrow> u8 list) \<Rightarrow> u64 \<Rightarrow> u64 \<Rightarrow> leaf" where
  "sv39_leaf V satp vaddr = find_leaf V vaddr [0, 1, 2] (push_bit 12 (satp AND 0x0FFFFFFFFFFF))"

text \<open>The answer given the leaf: permission, alignment, then base plus offset.\<close>

definition page_size :: "nat \<Rightarrow> u64" where
  "page_size level = push_bit (12 + 9 * (2 - level)) 1"

definition sv39_translate :: "(u32 \<Rightarrow> u8 list) \<Rightarrow> u64 \<Rightarrow> priv \<Rightarrow> u64 \<Rightarrow> access \<Rightarrow> exception + u64" where
  "sv39_translate V satp p vaddr acc =
     (if drop_bit 60 satp \<noteq> 8 \<or> p = M then Inr vaddr
      else case sv39_leaf V satp vaddr of
        Leaf level pte \<Rightarrow>
          (case check_perms pte p acc vaddr of
             Inl e \<Rightarrow> Inl e
           | Inr _ \<Rightarrow>
               if push_bit 12 (pte_ppn pte) mod page_size level \<noteq> 0 then Inl (mmu_fault acc vaddr)
               else Inr (push_bit 12 (pte_ppn pte) + vaddr mod page_size level))
      | _ \<Rightarrow> Inl (mmu_fault acc vaddr))"

section \<open>Splicing\<close>

lemma mask_numerals:
  "(0x3FFFF :: u64) = mask 18" "(0x1FF :: u64) = mask 9" "(0xFFF :: u64) = mask 12"
  by (simp_all add: mask_eq_exp_minus_1)

lemma splice_arith:
  fixes ppn va :: u64
  assumes "ppn AND mask k = 0" and "k \<le> 18"
  shows "push_bit 12 ((ppn AND NOT (mask k)) OR (drop_bit 12 va AND mask k)) OR (va AND mask 12) =
         push_bit 12 ppn + take_bit (12 + k) va"
proof -
  have low: "k \<le> n" if "bit ppn n" for n
    using arg_cong [OF assms(1), of "\<lambda>w. bit w n"] that
    by (auto simp: bit_simps not_less dest: bit_imp_le_length)
  have "push_bit 12 ppn AND take_bit (12 + k) va = 0"
    by (rule bit_word_eqI) (auto simp: bit_simps dest!: low)
  then have "push_bit 12 ppn + take_bit (12 + k) va = push_bit 12 ppn OR take_bit (12 + k) va"
    by (rule disjunctive_add_eq_or)
  moreover have "push_bit 12 ((ppn AND NOT (mask k)) OR (drop_bit 12 va AND mask k)) OR (va AND mask 12) =
      push_bit 12 ppn OR take_bit (12 + k) va"
    by (rule bit_word_eqI) (auto simp: bit_simps dest: low)
  ultimately show ?thesis by simp
qed

lemma aligned_iff: "(ppn AND mask k = 0) \<longleftrightarrow> take_bit (12 + k) (push_bit 12 ppn) = 0"
  if "ppn AND NOT (mask 44) = 0" and "k \<le> 18" for ppn :: u64
proof
  assume a: "ppn AND mask k = 0"
  have "\<not> bit ppn n" if "n < k" for n
    using arg_cong [OF a, of "\<lambda>w. bit w n"] that by (auto simp: bit_simps dest: bit_imp_le_length)
  then show "take_bit (12 + k) (push_bit 12 ppn) = 0"
    by (intro bit_word_eqI) (auto simp: bit_simps)
next
  assume a: "take_bit (12 + k) (push_bit 12 ppn) = 0"
  have "\<not> bit ppn n" if "n < k" for n
    using arg_cong [OF a, of "\<lambda>w. bit w (12 + n)"] that \<open>k \<le> 18\<close> by (auto simp: bit_simps)
  then show "ppn AND mask k = 0"
    by (intro bit_word_eqI) (auto simp: bit_simps)
qed

lemma pte_ppn_44: "pte_ppn pte AND NOT (mask 44) = 0"
proof -
  have m: "(0x0FFFFFFFFFFF :: u64) = mask 44" by (simp add: mask_eq_exp_minus_1)
  show ?thesis unfolding pte_ppn_def m by (simp add: and.assoc)
qed

text \<open>The width of the untranslated part of a page number, by level.\<close>

definition super_bits :: "nat \<Rightarrow> nat" where
  "super_bits level = (if level = 0 then 18 else if level = 1 then 9 else 0)"

lemma super_mask_bits: "super_mask level = mask (super_bits level)"
  by (auto simp: super_mask_def super_bits_def mask_numerals)

lemma splice_ppn_bits:
  "splice_ppn level ppn va = (ppn AND NOT (mask (super_bits level))) OR (drop_bit 12 va AND mask (super_bits level))"
  by (auto simp: splice_ppn_def super_bits_def mask_numerals)

lemma page_size_mod: "level \<le> 2 \<Longrightarrow> a mod page_size level = take_bit (12 + super_bits level) a"
  by (cases "level = 0"; cases "level = 1")
    (auto simp: page_size_def super_bits_def take_bit_eq_mod push_bit_eq_mult le_Suc_eq numeral_2_eq_2)

lemma phys_addr_splice:
  assumes "level \<le> 2" and "ppn AND super_mask level = 0"
  shows "phys_addr (splice_ppn level ppn va) va = push_bit 12 ppn + va mod page_size level"
proof -
  have "super_bits level \<le> 18" by (simp add: super_bits_def)
  from splice_arith [OF _ this, of ppn va] assms(2) show ?thesis
    by (simp add: phys_addr_def splice_ppn_bits super_mask_bits page_size_mod [OF assms(1)] mask_numerals)
qed

lemma super_aligned:
  assumes "level \<le> 2"
  shows "pte_ppn pte AND super_mask level = 0 \<longleftrightarrow> push_bit 12 (pte_ppn pte) mod page_size level = 0"
  using aligned_iff [OF pte_ppn_44, of "super_bits level" pte]
  by (simp add: super_mask_bits page_size_mod [OF assms] super_bits_def)

text \<open>The walk and the splice look at the page number of the address only.\<close>

lemma vpn_cong:
  assumes "drop_bit 12 va = drop_bit 12 (va' :: u64)"
  shows "vpn_index level va = vpn_index level va'" and "splice_ppn level ppn va = splice_ppn level ppn va'"
    and "tlb_slot va = tlb_slot va'"
proof -
  have "drop_bit 30 va = drop_bit 30 va'" "drop_bit 21 va = drop_bit 21 va'"
    using arg_cong [OF assms, of "drop_bit 18"] arg_cong [OF assms, of "drop_bit 9"]
    by (simp_all add: drop_bit_drop_bit)
  with assms show "vpn_index level va = vpn_index level va'" by (simp add: vpn_index_def)
  show "splice_ppn level ppn va = splice_ppn level ppn va'" "tlb_slot va = tlb_slot va'"
    using assms by (simp_all add: splice_ppn_def tlb_slot_def)
qed

lemma find_leaf_cong:
  assumes "drop_bit 12 va = drop_bit 12 va'"
  shows "find_leaf V va levels table = find_leaf V va' levels table"
proof (induction levels arbitrary: table)
  case (Cons level levels)
  show ?case
    unfolding find_leaf.simps vpn_cong(1) [OF assms, of level] Cons.IH ..
qed simp

section \<open>The walk against the reference\<close>

text \<open>The entry a successful walk leaves in the TLB, and what the walk answers, given the leaf.\<close>

definition walk_entry :: "nat \<Rightarrow> u64 \<Rightarrow> u64 \<Rightarrow> tlb_entry" where
  "walk_entry level pte va =
     \<lparr>t_valid = True, t_vpn = drop_bit 12 va, t_ppn = splice_ppn level (pte_ppn pte) va, t_perms = pte\<rparr>"

definition leaf_answer :: "leaf \<Rightarrow> priv \<Rightarrow> u64 \<Rightarrow> access \<Rightarrow> exception + u64" where
  "leaf_answer l p va acc = (case l of
     Leaf level pte \<Rightarrow>
       (case check_perms pte p acc va of
          Inl e \<Rightarrow> Inl e
        | Inr _ \<Rightarrow>
            if pte_ppn pte AND super_mask level \<noteq> 0 then Inl (mmu_fault acc va)
            else Inr (phys_addr (splice_ppn level (pte_ppn pte) va) va))
   | _ \<Rightarrow> Inl (mmu_fault acc va))"

definition leaf_fill :: "leaf \<Rightarrow> priv \<Rightarrow> u64 \<Rightarrow> access \<Rightarrow> mmu \<Rightarrow> mmu" where
  "leaf_fill l p va acc m = (case l of
     Leaf level pte \<Rightarrow>
       (if leaf_answer l p va acc = Inl (mmu_fault acc va) then m
        else m\<lparr>tlb := (tlb m)[tlb_slot va := walk_entry level pte va]\<rparr>)
   | _ \<Rightarrow> m)"

lemma check_perms_Inl: "check_perms pte p acc va = Inl e \<Longrightarrow> e = mmu_fault acc va"
  by (auto simp: check_perms_def Let_def split: if_splits)

lemma mmu_fault_neq [simp]: "mmu_fault acc va \<noteq> BackingFailure a"
  by (cases acc) simp_all

lemma find_leaf_level: "find_leaf V va levels table = Leaf level pte \<Longrightarrow> level \<in> set levels"
proof (induction levels arbitrary: table)
  case (Cons l levels)
  then show ?case by (auto simp: Let_def split: if_splits option.splits)
qed simp

lemma sv39_leaf_level: "sv39_leaf V satp va = Leaf level pte \<Longrightarrow> level \<le> 2"
  using find_leaf_level [of V va "[0, 1, 2]"] by (fastforce simp: sv39_leaf_def)

lemma sv39_translate_leaf:
  assumes "drop_bit 60 satp = 8" and "p \<noteq> M"
  shows "sv39_translate V satp p va acc = leaf_answer (sv39_leaf V satp va) p va acc"
proof (cases "sv39_leaf V satp va")
  case (Leaf level pte)
  note l = sv39_leaf_level [OF Leaf]
  show ?thesis
    using assms(1,2) Leaf phys_addr_splice [OF l] super_aligned [OF l]
    by (auto simp: sv39_translate_def leaf_answer_def split: sum.splits)
qed (use assms(1,2) in \<open>simp_all add: sv39_translate_def leaf_answer_def\<close>)

lemma mapped_not_ram: "mapped a n \<Longrightarrow> \<not> in_ram a n \<Longrightarrow> is_clint a n \<or> is_uart a n"
  by (simp add: mapped_def)

lemma le_saturating_add: "a \<le> saturating_add a n"
proof (cases "unat a + n < 2 ^ 64")
  case True
  then have "unat (of_nat n :: u64) = n" by (simp only: unat_of_nat) simp
  with True show ?thesis by (simp add: saturating_add_def word_le_nat_alt unat_word_ariths)
next
  case False
  have "unat a < 2 ^ 64" using unsigned_less [where ?'a = nat and w = a] by simp
  with False show ?thesis by (simp add: saturating_add_def word_le_nat_alt)
qed

lemma ram_not_mmio: "in_ram a n \<Longrightarrow> \<not> is_clint a n \<and> \<not> is_uart a n"
  using le_saturating_add [of a n]
  by (auto simp: in_ram_def is_clint_def is_uart_def word_le_nat_alt)

context total_backing
begin

lemma load_pte_ok:
  assumes H: "holds V (cache b)" and r: "load_pte B a flt (m, b) = (r, m', b')"
  shows "holds V (cache b') \<and> clint b' = clint b \<and> sink (uart b') = sink (uart b) \<and> m' = m \<and>
    (case r of
       Inl e \<Rightarrow> e = Err flt \<and> \<not> mapped a 8 \<or> e = Err (BackingFailure a) \<and> in_ram a 8
     | Inr v \<Rightarrow> mapped a 8 \<and> (in_ram a 8 \<longrightarrow> v = from_le (flat_bytes V (ram_off a) 8)))"
proof -
  obtain q b1 where q: "bus_load B a 8 b = (q, b1)" by fastforce
  from bus_load_ok [OF H q] r show ?thesis
    by (auto simp: load_pte_def q split: sum.splits stop.splits exception.splits)
qed

lemma walk_ok:
  assumes H: "holds V (cache b)" and r: "walk B p va acc levels table (m, b) = (r, m', b')"
  shows "holds V (cache b') \<and> clint b' = clint b \<and> sink (uart b') = sink (uart b) \<and>
    length (tlb m') = length (tlb m) \<and>
    (case r of Inl e \<Rightarrow> (\<exists>x. e = Err x \<and> (x = mmu_fault acc va \<or> (\<exists>a. x = BackingFailure a))) | Inr _ \<Rightarrow> True) \<and>
    ((\<exists>a. r = Inl (Err (BackingFailure a)) \<and> m' = m) \<or> find_leaf V va levels table = InMmio \<or>
     r = map_sum Err (\<lambda>x. x) (leaf_answer (find_leaf V va levels table) p va acc) \<and>
     m' = leaf_fill (find_leaf V va levels table) p va acc m)"
  using H r
proof (induction levels arbitrary: table b)
  case Nil
  then show ?case by (auto simp: sm_err_def leaf_answer_def leaf_fill_def)
next
  case (Cons level levels)
  let ?a = "table + vpn_index level va * 8"
  obtain q m1 b1 where q: "load_pte B ?a (mmu_fault acc va) (m, b) = (q, m1, b1)"
    by (metis prod.exhaust)
  note L = load_pte_ok [OF Cons.prems(1) q]
  show ?case
  proof (cases q)
    case (Inl e)
    with L Cons.prems(2) q show ?thesis
      by (auto simp: sm_bind_def mapped_def valid_size_def ram_quad_def leaf_answer_def leaf_fill_def)
  next
    case (Inr pte)
    from L Inr have L: "holds V (cache b1)" "clint b1 = clint b" "sink (uart b1) = sink (uart b)" "m1 = m"
      "mapped ?a 8" "in_ram ?a 8 \<Longrightarrow> ram_quad V ?a = Some pte"
      by (simp_all add: ram_quad_def)
    show ?thesis
    proof (cases "pte AND 1 \<noteq> 0 \<and> pte AND 0xE = 0")
      case True
      then have "walk B p va acc levels (push_bit 12 (pte_ppn pte)) (m, b1) = (r, m', b')"
        using Cons.prems(2) by (simp add: sm_bind_def q Inr L(4))
      from Cons.IH [OF L(1) this] L(2,3) mapped_not_ram [OF L(5)] ram_not_mmio L(6) True show ?thesis
        by (cases "in_ram ?a 8") (simp_all add: Let_def)
    next
      case False
      with Cons.prems(2) have rr: "r = map_sum Err (\<lambda>x. x) (leaf_answer (if pte AND 1 = 0 then NoLeaf else Leaf level pte) p va acc)"
        "m' = leaf_fill (if pte AND 1 = 0 then NoLeaf else Leaf level pte) p va acc m" "b' = b1"
        by (auto simp: sm_bind_def q Inr L(4) sm_defs sm_result_def leaf_answer_def leaf_fill_def
            walk_entry_def Let_def dest: check_perms_Inl split: sum.splits if_splits)
      have "length (tlb m') = length (tlb m)"
        by (simp add: rr(2) leaf_fill_def)
      moreover have "case r of Inl e \<Rightarrow> (\<exists>x. e = Err x \<and> (x = mmu_fault acc va \<or> (\<exists>a. x = BackingFailure a))) | Inr _ \<Rightarrow> True"
        by (auto simp: rr(1) leaf_answer_def dest: check_perms_Inl split: sum.splits)
      moreover have "find_leaf V va (level # levels) table = InMmio \<or>
          find_leaf V va (level # levels) table = (if pte AND 1 = 0 then NoLeaf else Leaf level pte)"
        using False mapped_not_ram [OF L(5)] ram_not_mmio L(6)
        by (cases "in_ram ?a 8") (auto simp: Let_def)
      ultimately show ?thesis using L(1-3) rr by auto
    qed
  qed
qed

end

section \<open>A sound TLB\<close>

text \<open>
  Every valid entry is what the walk of the current page tables would leave for each address of
  its page. The page tables are \<open>V\<close> and the root is \<open>satp\<close>: it is the flush on an SFENCE.VMA
  and on a satp write that re-establishes the invariant after either changed.
\<close>

definition entry_sound :: "(u32 \<Rightarrow> u8 list) \<Rightarrow> u64 \<Rightarrow> tlb_entry \<Rightarrow> bool" where
  "entry_sound V satp e \<longleftrightarrow> (t_valid e \<longrightarrow> (\<forall>va. drop_bit 12 va = t_vpn e \<longrightarrow>
     (\<exists>level. sv39_leaf V satp va = Leaf level (t_perms e) \<and>
        pte_ppn (t_perms e) AND super_mask level = 0 \<and> e = walk_entry level (t_perms e) va)))"

definition tlb_sound :: "(u32 \<Rightarrow> u8 list) \<Rightarrow> u64 \<Rightarrow> mmu \<Rightarrow> bool" where
  "tlb_sound V satp m \<longleftrightarrow> length (tlb m) = TLB_ENTRIES \<and> (\<forall>e \<in> set (tlb m). entry_sound V satp e)"

lemma tlb_sound_flush: "tlb_sound V satp (mmu_flush m)"
  by (simp add: tlb_sound_def mmu_flush_def entry_sound_def tlb_entry_default_def)

lemma tlb_slot_less: "tlb_slot va < TLB_ENTRIES"
  by (simp add: tlb_slot_def)

lemma sv39_leaf_cong: "drop_bit 12 va = drop_bit 12 va' \<Longrightarrow> sv39_leaf V satp va = sv39_leaf V satp va'"
  unfolding sv39_leaf_def by (rule find_leaf_cong)

lemma walk_entry_cong: "drop_bit 12 va = drop_bit 12 va' \<Longrightarrow> walk_entry level pte va = walk_entry level pte va'"
  using vpn_cong(2) [of va va' level "pte_ppn pte"] by (simp add: walk_entry_def)

lemma walk_entry_sound:
  assumes "sv39_leaf V satp va = Leaf level pte" and "pte_ppn pte AND super_mask level = 0"
  shows "entry_sound V satp (walk_entry level pte va)"
  unfolding entry_sound_def
proof (intro impI allI)
  fix va'
  assume "drop_bit 12 va' = t_vpn (walk_entry level pte va)"
  then have e: "drop_bit 12 va = drop_bit 12 va'" by (simp add: walk_entry_def)
  have "t_perms (walk_entry level pte va) = pte" by (simp add: walk_entry_def)
  with assms show "\<exists>l. sv39_leaf V satp va' = Leaf l (t_perms (walk_entry level pte va)) \<and>
      pte_ppn (t_perms (walk_entry level pte va)) AND super_mask l = 0 \<and>
      walk_entry level pte va = walk_entry l (t_perms (walk_entry level pte va)) va'"
    using sv39_leaf_cong [OF e] walk_entry_cong [OF e] by simp
qed

lemma leaf_fill_sound:
  assumes "tlb_sound V satp m"
  shows "tlb_sound V satp (leaf_fill (sv39_leaf V satp va) p va acc m)"
proof (cases "sv39_leaf V satp va")
  case (Leaf level pte)
  have "entry_sound V satp (walk_entry level pte va)"
    if "leaf_answer (Leaf level pte) p va acc \<noteq> Inl (mmu_fault acc va)"
    by (rule walk_entry_sound [OF Leaf])
      (use that in \<open>auto simp: leaf_answer_def dest: check_perms_Inl split: sum.splits if_splits\<close>)
  with assms Leaf show ?thesis
    by (auto simp: leaf_fill_def tlb_sound_def dest!: set_update_subset_insert [THEN subsetD])
qed (use assms in \<open>simp_all add: leaf_fill_def\<close>)

lemma tlb_sound_walks [simp]: "tlb_sound V satp (m\<lparr>walks := w\<rparr>) = tlb_sound V satp m"
  by (simp add: tlb_sound_def)

lemma leaf_fill_length: "length (tlb (leaf_fill l p va acc m)) = length (tlb m)"
  by (simp add: leaf_fill_def split: leaf.split)

text \<open>A hit answers as the walk would.\<close>

lemma hit_answer:
  assumes "entry_sound V satp e" and "t_valid e" and "t_vpn e = drop_bit 12 va"
  shows "leaf_answer (sv39_leaf V satp va) p va acc =
    (case check_perms (t_perms e) p acc va of Inl x \<Rightarrow> Inl x | Inr _ \<Rightarrow> Inr (phys_addr (t_ppn e) va))"
proof -
  from assms obtain level where l: "sv39_leaf V satp va = Leaf level (t_perms e)"
    "pte_ppn (t_perms e) AND super_mask level = 0" "e = walk_entry level (t_perms e) va"
    unfolding entry_sound_def by metis
  from arg_cong [OF l(3), of t_ppn] have "t_ppn e = splice_ppn level (pte_ppn (t_perms e)) va"
    by (simp add: walk_entry_def)
  with l(1,2) show ?thesis by (simp add: leaf_answer_def split: sum.split)
qed

text \<open>The three ways through \<open>translate\<close>.\<close>

lemma translate_bare:
  "drop_bit 60 (csr_read SATP c) \<noteq> 8 \<or> p = M \<Longrightarrow> translate B c p va acc s = (Inr va, s)"
  unfolding translate_def Let_def by (simp only: if_True sm_return_def)

lemma translate_hit:
  assumes "drop_bit 60 (csr_read SATP c) = 8" "p \<noteq> M"
    and "t_valid (tlb m ! tlb_slot va)" "t_vpn (tlb m ! tlb_slot va) = drop_bit 12 va"
  shows "translate B c p va acc (m, b) =
    (case check_perms (t_perms (tlb m ! tlb_slot va)) p acc va of
       Inl x \<Rightarrow> (Inl (Err x), (m, b)) | Inr _ \<Rightarrow> (Inr (phys_addr (t_ppn (tlb m ! tlb_slot va)) va), (m, b)))"
  unfolding translate_def Let_def
  using assms by (auto simp: sm_bind_def sm_result_def sm_return_def split: sum.split)

lemma translate_miss:
  assumes "drop_bit 60 (csr_read SATP c) = 8" "p \<noteq> M"
    and "\<not> (t_valid (tlb m ! tlb_slot va) \<and> t_vpn (tlb m ! tlb_slot va) = drop_bit 12 va)"
  shows "translate B c p va acc (m, b) =
    walk B p va acc [0, 1, 2] (push_bit 12 (csr_read SATP c AND 0x0FFFFFFFFFFF)) (m\<lparr>walks := walks m + 1\<rparr>, b)"
  unfolding translate_def Let_def
  by (simp only: assms fst_conv snd_conv sm_bind_def sm_modify_def case_prod_conv sum.case not_True_eq_False
      simp_thms if_False)

context total_backing
begin

text \<open>What a translation keeps, whatever is in the TLB.\<close>

lemma translate_frame:
  assumes H: "holds V (cache b)" and r: "translate B c p va acc (m, b) = (r, m', b')"
  shows "holds V (cache b') \<and> clint b' = clint b \<and> sink (uart b') = sink (uart b) \<and>
    length (tlb m') = length (tlb m) \<and>
    (case r of Inl e \<Rightarrow> (\<exists>x. e = Err x \<and> (x = mmu_fault acc va \<or> (\<exists>a. x = BackingFailure a))) | Inr _ \<Rightarrow> True)"
proof -
  let ?e = "tlb m ! tlb_slot va"
  consider (bare) "drop_bit 60 (csr_read SATP c) \<noteq> 8 \<or> p = M"
    | (hit) "drop_bit 60 (csr_read SATP c) = 8" "p \<noteq> M" "t_valid ?e" "t_vpn ?e = drop_bit 12 va"
    | (miss) "drop_bit 60 (csr_read SATP c) = 8" "p \<noteq> M" "\<not> (t_valid ?e \<and> t_vpn ?e = drop_bit 12 va)"
    by blast
  then show ?thesis
  proof cases
    case bare
    with H r show ?thesis by (auto simp: translate_bare)
  next
    case hit
    with H r show ?thesis
      by (auto simp: translate_hit dest: check_perms_Inl split: sum.splits)
  next
    case miss
    from walk_ok [OF H r [unfolded translate_miss [OF miss]]] show ?thesis by simp
  qed
qed

text \<open>With a sound TLB, a translation answers as the reference does.\<close>

lemma translate_ok:
  assumes H: "holds V (cache b)" and T: "tlb_sound V (csr_read SATP c) m"
    and r: "translate B c p va acc (m, b) = (r, m', b')"
    and D: "p = M \<or> sv39_leaf V (csr_read SATP c) va \<noteq> InMmio"
  shows "tlb_sound V (csr_read SATP c) m' \<and>
    ((\<exists>a. r = Inl (Err (BackingFailure a))) \<or>
     r = map_sum Err (\<lambda>x. x) (sv39_translate V (csr_read SATP c) p va acc))"
proof -
  let ?satp = "csr_read SATP c" and ?e = "tlb m ! tlb_slot va"
  have e: "entry_sound V ?satp ?e" using T tlb_slot_less [of va] by (simp add: tlb_sound_def)
  consider (bare) "drop_bit 60 ?satp \<noteq> 8 \<or> p = M"
    | (hit) "drop_bit 60 ?satp = 8" "p \<noteq> M" "t_valid ?e" "t_vpn ?e = drop_bit 12 va"
    | (miss) "drop_bit 60 ?satp = 8" "p \<noteq> M" "\<not> (t_valid ?e \<and> t_vpn ?e = drop_bit 12 va)"
    by blast
  then show ?thesis
  proof cases
    case bare
    with T r show ?thesis by (auto simp: translate_bare sv39_translate_def)
  next
    case hit
    with T r show ?thesis
      unfolding sv39_translate_leaf [OF hit(1,2)] hit_answer [OF e hit(3,4)] translate_hit [OF hit]
      by (auto split: sum.splits)
  next
    case miss
    from T have "tlb_sound V ?satp (m\<lparr>walks := walks m + 1\<rparr>)" by simp
    from walk_ok [OF H r [unfolded translate_miss [OF miss]]] leaf_fill_sound [OF this, of va p acc] T D miss(2) show ?thesis
      unfolding sv39_translate_leaf [OF miss(1,2)] sv39_leaf_def by auto
  qed
qed

end

section \<open>Cold and warm\<close>

text \<open>With page tables that lie in guest RAM and a TLB filled since they last changed, a translation,
  cold or warm, answers what the walk without a TLB answers, unless the backing store failed under
  the walk; it leaves guest RAM alone and the TLB sound. Theory Sv39_Arch compares that walk with
  the architecture's manual.\<close>

theorem translate_is_reference:
  assumes "total_backing B contents binv" and "cache_inv contents binv (cache b)"
    and "tlb_sound (page_view contents (cache b)) (csr_read SATP c) m"
    and "p = M \<or> sv39_leaf (page_view contents (cache b)) (csr_read SATP c) va \<noteq> InMmio"
  shows "case translate B c p va acc (m, b) of (r, m', b') \<Rightarrow>
    page_view contents (cache b') = page_view contents (cache b) \<and>
    tlb_sound (page_view contents (cache b')) (csr_read SATP c) m' \<and>
    ((\<exists>a. r = Inl (Err (BackingFailure a))) \<or>
     r = map_sum Err (\<lambda>x. x) (sv39_translate (page_view contents (cache b)) (csr_read SATP c) p va acc))"
proof -
  obtain r m' b' where r: "translate B c p va acc (m, b) = (r, m', b')" by (metis prod.exhaust)
  have h: "total_backing.holds contents binv (page_view contents (cache b)) (cache b)"
    using assms(2) holds_unfold [OF assms(1)] by blast
  from total_backing.translate_ok [OF assms(1) h assms(3) r assms(4)]
    total_backing.translate_frame [OF assms(1) h r] show ?thesis
    unfolding holds_unfold [OF assms(1)] r by simp
qed

text \<open>A root table at 0x80001000 whose third entry maps the gigapage at 0x80000000 onto itself,
  readable, writable, executable, accessed and dirty, for the supervisor.\<close>

definition demo_backing :: fake_backing where
  "demo_backing = (fake_new 16)\<lparr>pages := (pages (fake_new 16))
     [1 := splice 16 (to_le 8 (0x200000CF :: u64)) (replicate PAGE 0)]\<rparr>"

definition demo_csrs :: csrs where
  "demo_csrs = set_csr SATP 0x8000000000080001 csrs_default"

lemma flat_bytes_page:
  assumes "off + n \<le> PAGE" and "length (V (of_nat k)) = PAGE"
  shows "flat_bytes V (PAGE * k + off) n = slice off n (V (of_nat k))"
proof (rule nth_equalityI)
  fix i
  assume "i < length (flat_bytes V (PAGE * k + off) n)"
  then have i: "i < n" by (simp add: flat_bytes_def)
  with assms(1) have "(PAGE * k + (off + i)) div PAGE = k" "(PAGE * k + (off + i)) mod PAGE = off + i"
    by simp_all
  with i assms show "flat_bytes V (PAGE * k + off) n ! i = slice off n (V (of_nat k)) ! i"
    by (simp add: flat_bytes_def flat_byte_def nth_slice add.assoc)
qed (use assms in \<open>simp add: flat_bytes_def length_slice\<close>)

lemma demo_page: "fake_contents demo_backing 1 = splice 16 (to_le 8 (0x200000CF :: u64)) (replicate PAGE 0)"
  by (simp add: fake_contents_def demo_backing_def fake_new_def)

lemma slice_splice: "off + length bs \<le> length xs \<Longrightarrow> slice off (length bs) (splice off bs xs) = bs"
  by (simp add: slice_def splice_def)

lemma demo_quad: "ram_quad (fake_contents demo_backing) 0x80001010 = Some 0x200000CF"
proof -
  have "ram_off 0x80001010 = PAGE * 1 + 16" by (simp add: ram_off_def)
  moreover have "flat_bytes (fake_contents demo_backing) (PAGE * 1 + 16) 8 = to_le 8 (0x200000CF :: u64)"
    using flat_bytes_page [of 16 8 "fake_contents demo_backing" 1]
      slice_splice [of 16 "to_le 8 (0x200000CF :: u64)" "replicate PAGE 0"]
    by (simp add: demo_page length_splice del: to_le.simps)
  ultimately show ?thesis
    by (simp add: ram_quad_def in_ram_def saturating_add_def del: to_le.simps mult_1_right)
qed

lemma demo_satp: "csr_read SATP demo_csrs = 0x8000000000080001"
  by (simp add: demo_csrs_def set_csr_def csr_read_def)

lemma demo_leaf:
  assumes "vpn_index 0 va = 2"
  shows "sv39_leaf (fake_contents demo_backing) (csr_read SATP demo_csrs) va = Leaf 0 0x200000CF"
  using assms demo_quad
  by (simp add: demo_satp sv39_leaf_def is_clint_def is_uart_def saturating_add_def)

lemma demo_cache: obtains c where "cache_new demo_backing 4 = Inr c"
    "cache_inv fake_contents fake_inv c" "page_view fake_contents c = fake_contents demo_backing"
proof -
  obtain c where c: "cache_new demo_backing 4 = Inr c" by (simp add: cache_new_def)
  have "fake_inv demo_backing"
    by (auto simp: fake_inv_def demo_backing_def fake_new_def length_splice
        dest!: set_update_subset_insert [THEN subsetD])
  then show thesis
    using cache_inv_new [OF c, where binv = fake_inv and contents = fake_contents] that [OF c] by simp
qed

lemma check_perms_Inr:
  assumes "check_perms pte p acc va = Inr u"
  shows "bit pte (case acc of Fetch \<Rightarrow> 3 | Load \<Rightarrow> 1 | Store \<Rightarrow> 2) \<and> (p = U \<longrightarrow> bit pte 4) \<and>
    bit pte 6 \<and> (acc = Store \<longrightarrow> bit pte 7)"
  using assms unfolding check_perms_def Let_def bit_iff_and_push_bit_not_eq_0
  by (cases acc) (simp_all split: if_splits)

text \<open>Below machine mode with paging on, a translation
  that succeeds found a valid leaf with the permission of the access, the user bit if the access
  is the user's, the accessed bit, and the dirty bit if it is a store, and the address it returns
  lies in the page that leaf maps, at the offset of the virtual address; a TLB hit checks no less
  than a walk.\<close>

theorem translate_needs_permission:
  assumes "total_backing B contents binv" and "cache_inv contents binv (cache b)"
    and "tlb_sound (page_view contents (cache b)) (csr_read SATP c) m"
    and "sv39_leaf (page_view contents (cache b)) (csr_read SATP c) va \<noteq> InMmio"
    and "p \<noteq> M" and "drop_bit 60 (csr_read SATP c) = 8"
  shows "case translate B c p va acc (m, b) of
      (Inr pa, _) \<Rightarrow> (\<exists>level pte. sv39_leaf (page_view contents (cache b)) (csr_read SATP c) va = Leaf level pte \<and>
        bit pte (case acc of Fetch \<Rightarrow> 3 | Load \<Rightarrow> 1 | Store \<Rightarrow> 2) \<and> (p = U \<longrightarrow> bit pte 4) \<and>
        bit pte 6 \<and> (acc = Store \<longrightarrow> bit pte 7) \<and>
        pa = push_bit 12 (pte_ppn pte) + va mod page_size level \<and>
        push_bit 12 (pte_ppn pte) mod page_size level = 0)
    | (Inl _, _) \<Rightarrow> True"
proof -
  obtain r m' b' where r: "translate B c p va acc (m, b) = (r, m', b')" by (metis prod.exhaust)
  have h: "total_backing.holds contents binv (page_view contents (cache b)) (cache b)"
    using assms(2) holds_unfold [OF assms(1)] by blast
  from total_backing.translate_ok [OF assms(1) h assms(3) r] assms(4-6) show ?thesis
    by (auto simp: r sv39_translate_def split: sum.splits leaf.splits if_splits dest: check_perms_Inr)
qed

lemma translate_needs_permission_witness:
  "case cache_new demo_backing 4 of Inr c \<Rightarrow>
     (case translate fake_ops demo_csrs S 0x80000123 Load (mmu_default, bus_new c ([] :: u8 list)) of
        (Inr pa, _) \<Rightarrow> pa = 0x80000123 | _ \<Rightarrow> True)
   | Inl _ \<Rightarrow> False"
proof -
  obtain c where c: "cache_new demo_backing 4 = Inr c" "cache_inv fake_contents fake_inv c"
    "page_view fake_contents c = fake_contents demo_backing" by (rule demo_cache)
  have v: "vpn_index 0 0x80000123 = 2" by (simp add: vpn_index_def)
  have t: "tlb_sound V satp mmu_default" for V satp
    using tlb_sound_flush [of V satp mmu_default] by (simp add: mmu_flush_def mmu_default_def)
  have "cache (bus_new c ([] :: u8 list)) = c" by (simp add: bus_new_def)
  with translate_needs_permission [OF fake.total_backing_axioms, of "bus_new c ([] :: u8 list)" demo_csrs
        mmu_default "0x80000123" S Load] c t demo_leaf [OF v] show ?thesis
    by (auto simp: demo_satp pte_ppn_def page_size_def split: prod.splits sum.splits)
qed

end
