(* ===== verification/Sv39_Arch.thy ===== *)
theory Sv39_Arch
  imports Mmu
begin

text \<open>
  The address translation of the privileged architecture, written from its manual and not from
  \<open>mmu.rs\<close>: over natural numbers, with its own bit positions, permission rules and faults. The
  emulator's translation answers what it answers, on a cold or a warm TLB, for the page tables and
  accesses whose extra rules \<open>mmu.rs\<close> does not implement: canonical addresses, reserved encodings,
  and the SUM and MXR bits of mstatus.
\<close>

section \<open>The algorithm of the manual\<close>

datatype arch_result = Pa nat | Page_Fault | Access_Fault

definition arch_vpn :: "nat \<Rightarrow> nat \<Rightarrow> nat" where
  "arch_vpn va i = va div 2 ^ (12 + 9 * i) mod 512"

definition arch_ppn :: "nat \<Rightarrow> nat" where
  "arch_ppn pte = pte div 2 ^ 10 mod 2 ^ 44"

text \<open>R, W, X, U, A and D are bits 1, 2, 3, 4, 6 and 7 of an entry, V is bit 0.\<close>

definition arch_allows :: "bool \<Rightarrow> bool \<Rightarrow> priv \<Rightarrow> access \<Rightarrow> nat \<Rightarrow> bool" where
  "arch_allows sum_bit mxr_bit p acc pte \<longleftrightarrow>
     (case acc of Fetch \<Rightarrow> bit pte 3 | Load \<Rightarrow> bit pte 1 \<or> mxr_bit \<and> bit pte 3 | Store \<Rightarrow> bit pte 2) \<and>
     (if p = U then bit pte 4 else bit pte 4 \<longrightarrow> acc \<noteq> Fetch \<and> sum_bit)"

text \<open>A leaf of level \<open>i\<close>: permission, the alignment of a superpage, A and D, the address.\<close>

definition arch_leaf :: "bool \<Rightarrow> bool \<Rightarrow> priv \<Rightarrow> access \<Rightarrow> nat \<Rightarrow> nat \<Rightarrow> nat \<Rightarrow> arch_result" where
  "arch_leaf sum_bit mxr_bit p acc va i pte =
     (if \<not> arch_allows sum_bit mxr_bit p acc pte then Page_Fault
      else if arch_ppn pte mod 512 ^ i \<noteq> 0 then Page_Fault
      else if \<not> bit pte 6 \<or> acc = Store \<and> \<not> bit pte 7 then Page_Fault
      else Pa (arch_ppn pte * 4096 + va mod (4096 * 512 ^ i)))"

text \<open>
  The walk with \<open>n\<close> levels to go, over a memory of quadwords that holds the page tables; the bits
  from 54 on are reserved, as are writable entries that are not readable, and A, D and U of a pointer.
\<close>

primrec arch_walk ::
  "(nat \<Rightarrow> nat option) \<Rightarrow> bool \<Rightarrow> bool \<Rightarrow> priv \<Rightarrow> access \<Rightarrow> nat \<Rightarrow> nat \<Rightarrow> nat \<Rightarrow> arch_result" where
  "arch_walk mem sum_bit mxr_bit p acc va 0 a = Page_Fault"
| "arch_walk mem sum_bit mxr_bit p acc va (Suc i) a =
     (case mem (a + arch_vpn va i * 8) of
        None \<Rightarrow> Access_Fault
      | Some pte \<Rightarrow>
          if \<not> bit pte 0 \<or> bit pte 2 \<and> \<not> bit pte 1 \<or> pte div 2 ^ 54 \<noteq> 0 then Page_Fault
          else if bit pte 1 \<or> bit pte 3 then arch_leaf sum_bit mxr_bit p acc va i pte
          else if bit pte 4 \<or> bit pte 6 \<or> bit pte 7 then Page_Fault
          else arch_walk mem sum_bit mxr_bit p acc va i (arch_ppn pte * 4096))"

text \<open>Bits 63 to 39 of an address repeat bit 38.\<close>

definition arch_canonical :: "nat \<Rightarrow> bool" where
  "arch_canonical va \<longleftrightarrow> va div 2 ^ 38 = 0 \<or> va div 2 ^ 38 = 2 ^ 26 - 1"

definition arch_translate ::
  "(nat \<Rightarrow> nat option) \<Rightarrow> nat \<Rightarrow> bool \<Rightarrow> bool \<Rightarrow> priv \<Rightarrow> access \<Rightarrow> nat \<Rightarrow> arch_result" where
  "arch_translate mem satp sum_bit mxr_bit p acc va =
     (if satp div 2 ^ 60 \<noteq> 8 \<or> p = M then Pa va
      else if \<not> arch_canonical va then Page_Fault
      else arch_walk mem sum_bit mxr_bit p acc va 3 (satp mod 2 ^ 44 * 4096))"

text \<open>Page tables are in guest RAM. The SUM and MXR bits of mstatus are bits 18 and 19.\<close>

definition ram_memory :: "(u32 \<Rightarrow> u8 list) \<Rightarrow> nat \<Rightarrow> nat option" where
  "ram_memory V a = map_option unat (ram_quad V (of_nat a))"

abbreviation arch_answer :: "(u32 \<Rightarrow> u8 list) \<Rightarrow> csrs \<Rightarrow> priv \<Rightarrow> access \<Rightarrow> u64 \<Rightarrow> arch_result" where
  "arch_answer V c p acc va \<equiv>
     arch_translate (ram_memory V) (unat (csr_read SATP c)) (bit (csr_read MSTATUS c) 18) (bit (csr_read MSTATUS c) 19)
       p acc (unat va)"

text \<open>The emulator has no access fault of a walk: a table outside memory is a page fault there.\<close>

fun as_fault :: "access \<Rightarrow> u64 \<Rightarrow> arch_result \<Rightarrow> exception stop + u64" where
  "as_fault acc va (Pa a) = Inr (of_nat a)"
| "as_fault acc va Page_Fault = Inl (Err (mmu_fault acc va))"
| "as_fault acc va Access_Fault = Inl (Err (mmu_fault acc va))"

section \<open>What the emulator leaves out\<close>

text \<open>The entries a walk comes to, with their addresses.\<close>

primrec arch_path :: "(nat \<Rightarrow> nat option) \<Rightarrow> nat \<Rightarrow> nat \<Rightarrow> nat \<Rightarrow> (nat \<times> nat option) list" where
  "arch_path mem va 0 a = []"
| "arch_path mem va (Suc i) a =
     (let e = a + arch_vpn va i * 8 in
      (e, mem e) # (case mem e of
         None \<Rightarrow> []
       | Some pte \<Rightarrow>
           if bit pte 0 \<and> \<not> bit pte 1 \<and> \<not> bit pte 2 \<and> \<not> bit pte 3
           then arch_path mem va i (arch_ppn pte * 4096) else []))"

text \<open>
  An entry the rules that \<open>mmu.rs\<close> leaves out say nothing about: no reserved encoding, no user page
  under the supervisor that SUM would have to allow, no read that only MXR would allow.
\<close>

definition arch_regular :: "bool \<Rightarrow> bool \<Rightarrow> priv \<Rightarrow> access \<Rightarrow> nat \<Rightarrow> bool" where
  "arch_regular sum_bit mxr_bit p acc pte \<longleftrightarrow>
     (bit pte 0 \<longrightarrow>
        pte div 2 ^ 54 = 0 \<and> (bit pte 2 \<longrightarrow> bit pte 1) \<and>
        (if bit pte 1 \<or> bit pte 3
         then (p \<noteq> U \<and> bit pte 4 \<longrightarrow> acc \<noteq> Fetch \<and> sum_bit) \<and> (acc = Load \<and> mxr_bit \<and> bit pte 3 \<longrightarrow> bit pte 1)
         else \<not> bit pte 4 \<and> \<not> bit pte 6 \<and> \<not> bit pte 7))"

definition regular_path :: "(nat \<Rightarrow> nat option) \<Rightarrow> bool \<Rightarrow> bool \<Rightarrow> priv \<Rightarrow> access \<Rightarrow> (nat \<times> nat option) list \<Rightarrow> bool" where
  "regular_path mem sum_bit mxr_bit p acc es \<longleftrightarrow>
     (\<forall>(e, q) \<in> set es. \<not> is_clint (of_nat e) 8 \<and> \<not> is_uart (of_nat e) 8 \<and>
        (case q of None \<Rightarrow> True | Some pte \<Rightarrow> arch_regular sum_bit mxr_bit p acc pte))"

definition arch_plain :: "(u32 \<Rightarrow> u8 list) \<Rightarrow> csrs \<Rightarrow> priv \<Rightarrow> access \<Rightarrow> u64 \<Rightarrow> bool" where
  "arch_plain V c p acc va \<longleftrightarrow> arch_canonical (unat va) \<and>
     regular_path (ram_memory V) (bit (csr_read MSTATUS c) 18) (bit (csr_read MSTATUS c) 19) p acc
       (arch_path (ram_memory V) (unat va) 3 (unat (csr_read SATP c) mod 2 ^ 44 * 4096))"

section \<open>The two translations\<close>

lemma unat_ppn_field: "unat (pte_ppn pte) = arch_ppn (unat pte)"
proof -
  have "pte_ppn pte = take_bit 44 (drop_bit 10 pte)" by (simp add: pte_ppn_def take_bit_eq_mask mask_eq_exp_minus_1)
  then show ?thesis by (simp add: arch_ppn_def unat_drop_bit_eq unsigned_take_bit_eq take_bit_eq_mod drop_bit_eq_div unat_div unat_mod)
qed

lemma arch_ppn_less: "arch_ppn pte < 2 ^ 44"
  by (simp add: arch_ppn_def)

lemma unat_ppn: "unat (push_bit 12 (pte_ppn pte)) = arch_ppn (unat pte) * 4096"
  using arch_ppn_less [of "unat pte"] unat_ppn_field [of pte] by (simp add: push_bit_eq_mult unat_word_ariths)

lemma unat_root: "unat (push_bit 12 (satp AND 0x0FFFFFFFFFFF) :: u64) = unat satp mod 2 ^ 44 * 4096"
proof -
  have m: "satp AND 0x0FFFFFFFFFFF = take_bit 44 satp" by (simp add: take_bit_eq_mask mask_eq_exp_minus_1)
  have "unat satp mod 2 ^ 44 < 2 ^ 44" by simp
  then show ?thesis by (simp add: m unsigned_take_bit_eq take_bit_eq_mod push_bit_eq_mult unat_word_ariths unat_mod)
qed

lemma unat_vpn: "level \<le> 2 \<Longrightarrow> unat (vpn_index level va) = arch_vpn (unat va) (2 - level)"
proof -
  assume l: "level \<le> 2"
  have m: "w AND 0x1FF = take_bit 9 w" for w :: u64 by (simp add: take_bit_eq_mask mask_eq_exp_minus_1)
  from l consider "level = 0" | "level = 1" | "level = 2" by linarith
  then show ?thesis
    by cases (simp_all add: vpn_index_def arch_vpn_def m unsigned_take_bit_eq take_bit_eq_mod unat_mod unat_drop_bit_eq drop_bit_eq_div unat_div)
qed

lemma word_bits:
  fixes pte :: u64
  shows "pte AND 1 = 0 \<longleftrightarrow> \<not> bit (unat pte) 0"
    and "pte AND 0xE = 0 \<longleftrightarrow> \<not> bit (unat pte) 1 \<and> \<not> bit (unat pte) 2 \<and> \<not> bit (unat pte) 3"
    and "pte AND push_bit n 1 = 0 \<longleftrightarrow> \<not> bit (unat pte) n"
proof -
  show 1: "pte AND push_bit n 1 = 0 \<longleftrightarrow> \<not> bit (unat pte) n" for n
    using bit_iff_and_push_bit_not_eq_0 [of pte n] by (simp add: bit_unsigned_iff)
  from 1 [of 0] show "pte AND 1 = 0 \<longleftrightarrow> \<not> bit (unat pte) 0" by simp
  have "(0xE :: u64) = push_bit 1 1 OR (push_bit 2 1 OR push_bit 3 1)" by simp
  then have "pte AND 0xE = (pte AND push_bit 1 1) OR ((pte AND push_bit 2 1) OR (pte AND push_bit 3 1))"
    by (simp only: bit.conj_disj_distrib)
  then show "pte AND 0xE = 0 \<longleftrightarrow> \<not> bit (unat pte) 1 \<and> \<not> bit (unat pte) 2 \<and> \<not> bit (unat pte) 3"
    by (simp only: or_eq_0_iff 1 simp_thms)
qed

lemma perms_match:
  "check_perms pte p acc va = Inr () \<longleftrightarrow>
     bit (unat pte) (case acc of Fetch \<Rightarrow> 3 | Load \<Rightarrow> 1 | Store \<Rightarrow> 2) \<and> (p = U \<longrightarrow> bit (unat pte) 4) \<and>
     bit (unat pte) 6 \<and> (acc = Store \<longrightarrow> bit (unat pte) 7)"
  unfolding check_perms_def Let_def word_bits by (cases acc) simp_all

lemma unat_take_bit: "unat (take_bit n w :: u64) = unat w mod 2 ^ n"
  by (subst unsigned_take_bit_eq) (simp add: take_bit_eq_mod)

lemma super_size: "level \<le> 2 \<Longrightarrow> 512 ^ (2 - level) = (2 :: nat) ^ super_bits level"
  by (cases "level = 0"; cases "level = 1") (simp_all add: super_bits_def)

lemma alignment_match:
  assumes "level \<le> 2"
  shows "pte_ppn pte AND super_mask level = 0 \<longleftrightarrow> arch_ppn (unat pte) mod 512 ^ (2 - level) = 0"
proof -
  have "unat (pte_ppn pte AND super_mask level) = arch_ppn (unat pte) mod 2 ^ super_bits level"
    by (simp only: super_mask_bits take_bit_eq_mask [symmetric] unat_take_bit unat_ppn_field)
  moreover have "w = 0 \<longleftrightarrow> unat w = 0" for w :: u64 by (simp add: unat_eq_zero)
  ultimately show ?thesis by (simp add: super_size [OF assms])
qed

lemma address_match:
  assumes "level \<le> 2"
  shows "push_bit 12 (pte_ppn pte) + va mod page_size level =
    of_nat (arch_ppn (unat pte) * 4096 + unat va mod (4096 * 512 ^ (2 - level)))"
proof -
  have "super_bits level \<le> 18" by (simp add: super_bits_def)
  then have "unat (va mod page_size level) = unat va mod 2 ^ (12 + super_bits level)"
    by (simp only: page_size_mod [OF assms] unat_take_bit)
  then have "unat (va mod page_size level) = unat va mod (4096 * 512 ^ (2 - level))"
    by (simp add: super_size [OF assms] power_add)
  from arg_cong [OF this, of "of_nat :: nat \<Rightarrow> u64"]
  have "va mod page_size level = of_nat (unat va mod (4096 * 512 ^ (2 - level)))" by simp
  moreover have "push_bit 12 (pte_ppn pte) = of_nat (arch_ppn (unat pte) * 4096)"
    using arg_cong [OF unat_ppn [of pte], of "of_nat :: nat \<Rightarrow> u64"] by simp
  ultimately show ?thesis by simp
qed

lemma leaf_match:
  assumes l: "level \<le> 2" and p: "p \<noteq> M" and leaf: "bit (unat pte) 0" "bit (unat pte) 1 \<or> bit (unat pte) 3"
    and reg: "arch_regular sum_bit mxr_bit p acc (unat pte)"
  shows "map_sum Err (\<lambda>x. x) (leaf_answer (Leaf level pte) p va acc) =
    as_fault acc va (arch_leaf sum_bit mxr_bit p acc (unat va) (2 - level) (unat pte))"
proof -
  have "arch_allows sum_bit mxr_bit p acc (unat pte) \<longleftrightarrow>
      bit (unat pte) (case acc of Fetch \<Rightarrow> 3 | Load \<Rightarrow> 1 | Store \<Rightarrow> 2) \<and> (p = U \<longrightarrow> bit (unat pte) 4)"
    using reg leaf by (cases acc) (auto simp: arch_allows_def arch_regular_def split: if_splits)
  then have perms: "check_perms pte p acc va = Inr () \<longleftrightarrow> arch_allows sum_bit mxr_bit p acc (unat pte) \<and>
      bit (unat pte) 6 \<and> (acc = Store \<longrightarrow> bit (unat pte) 7)"
    unfolding perms_match by blast
  show ?thesis
  proof (cases "check_perms pte p acc va")
    case (Inl e)
    with perms check_perms_Inl [OF Inl] show ?thesis by (auto simp: leaf_answer_def arch_leaf_def)
  next
    case (Inr u)
    then show ?thesis
      using perms alignment_match [OF l, of pte] phys_addr_splice [OF l, of "pte_ppn pte" va] address_match [OF l, of pte va]
      by (auto simp: leaf_answer_def arch_leaf_def)
  qed
qed

text \<open>The levels still to visit when \<open>n\<close> are left.\<close>

primrec levels_left :: "nat \<Rightarrow> nat list" where
  "levels_left 0 = []"
| "levels_left (Suc i) = (2 - i) # levels_left i"

lemma walk_match:
  assumes "p \<noteq> M" and "n \<le> 3"
    and "regular_path (ram_memory V) sum_bit mxr_bit p acc (arch_path (ram_memory V) (unat va) n (unat table))"
  shows "find_leaf V va (levels_left n) table \<noteq> InMmio \<and>
    map_sum Err (\<lambda>x. x) (leaf_answer (find_leaf V va (levels_left n) table) p va acc) =
      as_fault acc va (arch_walk (ram_memory V) sum_bit mxr_bit p acc (unat va) n (unat table))"
  using assms(2,3)
proof (induction n arbitrary: table)
  case 0
  then show ?case by (simp add: leaf_answer_def)
next
  case (Suc i)
  let ?e = "unat table + arch_vpn (unat va) i * 8"
  have l: "2 - i \<le> 2" "2 - (2 - i) = i" using Suc.prems(1) by simp_all
  have "table + vpn_index (2 - i) va * 8 = of_nat (unat table + unat (vpn_index (2 - i) va) * 8)" by simp
  then have e: "table + vpn_index (2 - i) va * 8 = of_nat ?e" by (simp only: unat_vpn [OF l(1)] l(2))
  note reg = Suc.prems(2) [unfolded arch_path.simps Let_def regular_path_def]
  have dev: "\<not> is_clint (of_nat ?e) 8" "\<not> is_uart (of_nat ?e) 8" using reg by auto
  show ?case
  proof (cases "ram_quad V (of_nat ?e)")
    case None
    with e dev show ?thesis by (simp add: Let_def leaf_answer_def ram_memory_def)
  next
    case (Some pte)
    have m: "ram_memory V ?e = Some (unat pte)" using Some by (simp add: ram_memory_def)
    have r: "arch_regular sum_bit mxr_bit p acc (unat pte)" using reg m by auto
    show ?thesis
    proof (cases "bit (unat pte) 0 \<and> \<not> bit (unat pte) 1 \<and> \<not> bit (unat pte) 2 \<and> \<not> bit (unat pte) 3")
      case True
      have next_path: "regular_path (ram_memory V) sum_bit mxr_bit p acc
          (arch_path (ram_memory V) (unat va) i (unat (push_bit 12 (pte_ppn pte))))"
        using reg m True by (auto simp: regular_path_def unat_ppn)
      from Suc.IH [OF _ this] Suc.prems(1) True r e dev Some m show ?thesis
        by (simp add: Let_def word_bits arch_regular_def unat_ppn)
    next
      case False
      show ?thesis
      proof (cases "bit (unat pte) 0")
        case valid: True
        with False r have leaf: "bit (unat pte) 1 \<or> bit (unat pte) 3" by (auto simp: arch_regular_def)
        note lm = leaf_match [OF l(1) assms(1) valid leaf r, of va, unfolded l(2)]
        from False valid leaf r e dev Some m lm show ?thesis
          by (auto simp: Let_def word_bits arch_regular_def)
      qed (use e dev Some m in \<open>simp add: Let_def word_bits leaf_answer_def\<close>)
    qed
  qed
qed

lemma sv39_match:
  assumes "p \<noteq> M" and "drop_bit 60 (csr_read SATP c) = 8" and "arch_plain V c p acc va"
  shows "sv39_leaf V (csr_read SATP c) va \<noteq> InMmio \<and>
    map_sum Err (\<lambda>x. x) (sv39_translate V (csr_read SATP c) p va acc) = as_fault acc va (arch_answer V c p acc va)"
proof -
  let ?satp = "csr_read SATP c"
  have mode: "unat ?satp div 2 ^ 60 = 8"
    using arg_cong [OF assms(2), of unat] by (simp add: drop_bit_eq_div unat_div)
  have lv: "levels_left 3 = [0, 1, 2]" by (simp add: numeral_3_eq_3)
  have reg: "regular_path (ram_memory V) (bit (csr_read MSTATUS c) 18) (bit (csr_read MSTATUS c) 19) p acc
      (arch_path (ram_memory V) (unat va) 3 (unat (push_bit 12 (?satp AND 0x0FFFFFFFFFFF))))"
    using assms(3) unfolding arch_plain_def unat_root by blast
  from walk_match [OF assms(1) order_refl reg, unfolded lv] show ?thesis
    using assms mode unfolding sv39_translate_leaf [OF assms(2,1)] sv39_leaf_def arch_translate_def unat_root arch_plain_def
    by simp
qed

section \<open>The property\<close>

text \<open>Property C5 (translate_refines_sv39): with a TLB filled since the page tables last changed, a
  translation, cold or warm, answers what the algorithm of the privileged architecture's manual
  answers: the same physical address, or the page fault of the access at its virtual address, for
  an invalid entry, a missing permission, a user page, a misaligned superpage, an accessed or dirty
  bit that is not set, or a walk without a leaf; an access fault of the manual's walk, whose table
  is outside guest RAM, is a page fault here. The walk may instead end in a failure of the backing
  store; guest RAM is left alone and the TLB sound. The path of the walk is assumed to be plain:
  the address is canonical, no table lies in a device window, no entry has a reserved encoding, and
  the access is one SUM and MXR do not decide, because \<open>mmu.rs\<close> checks none of these. MPRV is not
  honoured, so \<open>p\<close> is the privilege of the hart.\<close>

theorem translate_refines_sv39:
  assumes "total_backing B contents binv" and "cache_inv contents binv (cache b)"
    and "tlb_sound (page_view contents (cache b)) (csr_read SATP c) m"
    and "p = M \<or> drop_bit 60 (csr_read SATP c) \<noteq> 8 \<or> arch_plain (page_view contents (cache b)) c p acc va"
  shows "case translate B c p va acc (m, b) of (r, m', b') \<Rightarrow>
    page_view contents (cache b') = page_view contents (cache b) \<and>
    tlb_sound (page_view contents (cache b')) (csr_read SATP c) m' \<and>
    ((\<exists>a. r = Inl (Err (BackingFailure a))) \<or>
     r = as_fault acc va (arch_answer (page_view contents (cache b)) c p acc va))"
proof (cases "p = M \<or> drop_bit 60 (csr_read SATP c) \<noteq> 8")
  case True
  have "unat (csr_read SATP c) div 2 ^ 60 = unat (drop_bit 60 (csr_read SATP c))"
    by (simp add: drop_bit_eq_div unat_div)
  then have "unat (csr_read SATP c) div 2 ^ 60 = 8 \<longleftrightarrow> drop_bit 60 (csr_read SATP c) = 8"
    by (simp add: word_unat_eq_iff)
  with True have "arch_answer (page_view contents (cache b)) c p acc va = Pa (unat va)"
    by (auto simp: arch_translate_def)
  with True assms(3) show ?thesis by (auto simp: translate_bare)
next
  case False
  then have "arch_plain (page_view contents (cache b)) c p acc va" using assms(4) by blast
  with False sv39_match [of p c "page_view contents (cache b)" acc va]
  have m: "sv39_leaf (page_view contents (cache b)) (csr_read SATP c) va \<noteq> InMmio"
    "map_sum Err (\<lambda>x. x) (sv39_translate (page_view contents (cache b)) (csr_read SATP c) p va acc) =
       as_fault acc va (arch_answer (page_view contents (cache b)) c p acc va)" by simp_all
  from translate_is_reference [OF assms(1-3), of p va acc] m show ?thesis by simp
qed

lemma demo_plain: "arch_plain (fake_contents demo_backing) demo_csrs S Store 0x80000123"
proof -
  have "arch_path (ram_memory (fake_contents demo_backing)) 0x80000123 3 (0x8000000000080001 mod 2 ^ 44 * 4096) =
      [(0x80001010, Some 0x200000CF)]"
    using demo_quad by (simp add: numeral_3_eq_3 arch_vpn_def ram_memory_def Let_def bit_iff_odd)
  moreover have "arch_regular x y S Store 0x200000CF" for x y by (simp add: arch_regular_def bit_iff_odd)
  ultimately show ?thesis
    by (simp add: arch_plain_def arch_canonical_def regular_path_def demo_satp is_clint_def is_uart_def saturating_add_def)
qed

lemma translate_refines_sv39_witness:
  "case cache_new demo_backing 4 of Inr c \<Rightarrow>
     (case translate fake_ops demo_csrs S 0x80000123 Store (mmu_flush mmu_default, bus_new c ([] :: u8 list)) of
        (r, m', b') \<Rightarrow> (\<exists>a. r = Inl (Err (BackingFailure a))) \<or> r = Inr 0x80000123)
   | Inl _ \<Rightarrow> False"
proof -
  obtain c where c: "cache_new demo_backing 4 = Inr c" "cache_inv fake_contents fake_inv c"
    "page_view fake_contents c = fake_contents demo_backing" by (rule demo_cache)
  have "ram_memory (fake_contents demo_backing) 0x80001010 = Some 0x200000CF"
    using demo_quad by (simp add: ram_memory_def)
  then have "arch_answer (fake_contents demo_backing) demo_csrs S Store 0x80000123 = Pa 0x80000123"
    by (simp add: arch_translate_def arch_canonical_def demo_satp numeral_3_eq_3 arch_vpn_def arch_leaf_def arch_allows_def
        arch_ppn_def bit_iff_odd)
  moreover have "cache (bus_new c ([] :: u8 list)) = c" by (simp add: bus_new_def)
  ultimately show ?thesis
    using translate_refines_sv39 [OF fake.total_backing_axioms, of "bus_new c ([] :: u8 list)" demo_csrs
        "mmu_flush mmu_default" S Store "0x80000123"] c tlb_sound_flush demo_plain
    by (auto split: prod.splits)
qed

end
