(* ===== verification/Insn.thy ===== *)
theory Insn
  imports Mmu
begin

text \<open>
  Instruction words: the field accessors every decoder shares (\<open>insn/mod.rs\<close>), and the expansion
  of a compressed halfword into the 32-bit instruction it stands for (\<open>insn/rvc.rs\<close>). A register
  number is a 5-bit word, the width of the field, so that every index into the register file is in
  range. The lemmas say that the scrambled immediates the expander builds are the ones the decoders
  read back.
\<close>

section \<open>Fields\<close>

type_synonym regno = "5 word"

definition opcode :: "u32 \<Rightarrow> u32" where
  "opcode i = i AND 0x7F"

definition rd :: "u32 \<Rightarrow> regno" where
  "rd i = ucast (drop_bit 7 i AND 0x1F)"

definition rs1 :: "u32 \<Rightarrow> regno" where
  "rs1 i = ucast (drop_bit 15 i AND 0x1F)"

definition rs2 :: "u32 \<Rightarrow> regno" where
  "rs2 i = ucast (drop_bit 20 i AND 0x1F)"

definition funct3 :: "u32 \<Rightarrow> u32" where
  "funct3 i = drop_bit 12 i AND 0x7"

definition funct7 :: "u32 \<Rightarrow> u32" where
  "funct7 i = drop_bit 25 i AND 0x7F"

text \<open>\<open>x as i32 as i64 as u64\<close>, and the shift pairs \<open>((v << k) >> k)\<close> on a signed word.\<close>

definition sext32 :: "u32 \<Rightarrow> u64" where
  "sext32 v = scast v"

definition shift_pair :: "nat \<Rightarrow> u32 \<Rightarrow> u32" where
  "shift_pair k v = signed_drop_bit k (push_bit k v)"

definition imm_i :: "u32 \<Rightarrow> u64" where
  "imm_i i = sext32 (signed_drop_bit 20 i)"

definition imm_u :: "u32 \<Rightarrow> u64" where
  "imm_u i = sext32 (i AND 0xFFFFF000)"

definition imm_s :: "u32 \<Rightarrow> u64" where
  "imm_s i =
     (let hi = signed_drop_bit 20 (i AND 0xFE000000); lo = drop_bit 7 i AND 0x1F
      in sext32 (hi OR lo))"

definition imm_b :: "u32 \<Rightarrow> u64" where
  "imm_b i =
     (let imm12 = push_bit 12 (drop_bit 31 i AND 1);
          imm10_5 = push_bit 5 (drop_bit 25 i AND 0x3F);
          imm4_1 = push_bit 1 (drop_bit 8 i AND 0xF);
          imm11 = push_bit 11 (drop_bit 7 i AND 1);
          v = imm12 OR imm11 OR imm10_5 OR imm4_1
      in sext32 (shift_pair 19 v))"

definition imm_j :: "u32 \<Rightarrow> u64" where
  "imm_j i =
     (let imm20 = push_bit 20 (drop_bit 31 i AND 1);
          imm10_1 = push_bit 1 (drop_bit 21 i AND 0x3FF);
          imm11 = push_bit 11 (drop_bit 20 i AND 1);
          imm19_12 = push_bit 12 (drop_bit 12 i AND 0xFF);
          v = imm20 OR imm19_12 OR imm11 OR imm10_1
      in sext32 (shift_pair 11 v))"

section \<open>Compressed instructions\<close>

definition sext6 :: "u32 \<Rightarrow> u32" where "sext6 v = shift_pair 26 v"
definition sext9 :: "u32 \<Rightarrow> u32" where "sext9 v = shift_pair 23 v"
definition sext10 :: "u32 \<Rightarrow> u32" where "sext10 v = shift_pair 22 v"
definition sext12 :: "u32 \<Rightarrow> u32" where "sext12 v = shift_pair 20 v"

definition i_type :: "u32 \<Rightarrow> u32 \<Rightarrow> u32 \<Rightarrow> u32 \<Rightarrow> u32 \<Rightarrow> u32" where
  "i_type imm s1 f3 d opc = push_bit 20 (imm AND 0xFFF) OR push_bit 15 s1 OR push_bit 12 f3 OR push_bit 7 d OR opc"

definition s_type :: "u32 \<Rightarrow> u32 \<Rightarrow> u32 \<Rightarrow> u32 \<Rightarrow> u32 \<Rightarrow> u32" where
  "s_type imm s2 s1 f3 opc =
     push_bit 25 (drop_bit 5 imm) OR push_bit 20 s2 OR push_bit 15 s1 OR push_bit 12 f3
       OR push_bit 7 (imm AND 0x1F) OR opc"

definition r_type :: "u32 \<Rightarrow> u32 \<Rightarrow> u32 \<Rightarrow> u32 \<Rightarrow> u32 \<Rightarrow> u32 \<Rightarrow> u32" where
  "r_type f7 s2 s1 f3 d opc =
     push_bit 25 f7 OR push_bit 20 s2 OR push_bit 15 s1 OR push_bit 12 f3 OR push_bit 7 d OR opc"

definition b_type :: "u32 \<Rightarrow> u32 \<Rightarrow> u32 \<Rightarrow> u32 \<Rightarrow> u32 \<Rightarrow> u32" where
  "b_type imm s2 s1 f3 opc =
     push_bit 31 (drop_bit 12 imm AND 1) OR push_bit 25 (drop_bit 5 imm AND 0x3F)
       OR push_bit 20 s2 OR push_bit 15 s1 OR push_bit 12 f3
       OR push_bit 8 (drop_bit 1 imm AND 0xF) OR push_bit 7 (drop_bit 11 imm AND 1) OR opc"

definition j_type :: "u32 \<Rightarrow> u32 \<Rightarrow> u32 \<Rightarrow> u32" where
  "j_type imm d opc =
     push_bit 31 (drop_bit 20 imm AND 1) OR push_bit 21 (drop_bit 1 imm AND 0x3FF)
       OR push_bit 20 (drop_bit 11 imm AND 1) OR push_bit 12 (drop_bit 12 imm AND 0xFF)
       OR push_bit 7 d OR opc"

text \<open>The fields of the halfword \<open>h\<close> that several formats share.\<close>

definition c_rd :: "u32 \<Rightarrow> u32" where "c_rd h = drop_bit 7 h AND 0x1F"
definition c_rs2 :: "u32 \<Rightarrow> u32" where "c_rs2 h = drop_bit 2 h AND 0x1F"
definition c_rdp :: "u32 \<Rightarrow> u32" where "c_rdp h = 8 + (drop_bit 2 h AND 0x7)"
definition c_rs1p :: "u32 \<Rightarrow> u32" where "c_rs1p h = 8 + (drop_bit 7 h AND 0x7)"

definition c_imm6 :: "u32 \<Rightarrow> u32" where
  "c_imm6 h = push_bit 5 (drop_bit 12 h AND 1) OR (drop_bit 2 h AND 0x1F)"

definition c_imm_lw :: "u32 \<Rightarrow> u32" where
  "c_imm_lw h = push_bit 6 (drop_bit 5 h AND 1) OR push_bit 3 (drop_bit 10 h AND 0x7) OR push_bit 2 (drop_bit 6 h AND 1)"

definition c_imm_ld :: "u32 \<Rightarrow> u32" where
  "c_imm_ld h = push_bit 6 (drop_bit 5 h AND 0x3) OR push_bit 3 (drop_bit 10 h AND 0x7)"

definition c_imm_branch :: "u32 \<Rightarrow> u32" where
  "c_imm_branch h = sext9 (push_bit 8 (drop_bit 12 h AND 1) OR push_bit 3 (drop_bit 10 h AND 0x3)
     OR push_bit 6 (drop_bit 5 h AND 0x3) OR push_bit 1 (drop_bit 3 h AND 0x3) OR push_bit 5 (drop_bit 2 h AND 1))"

definition c_imm_jump :: "u32 \<Rightarrow> u32" where
  "c_imm_jump h = sext12 (push_bit 11 (drop_bit 12 h AND 1) OR push_bit 4 (drop_bit 11 h AND 1)
     OR push_bit 8 (drop_bit 9 h AND 0x3) OR push_bit 10 (drop_bit 8 h AND 1)
     OR push_bit 6 (drop_bit 7 h AND 1) OR push_bit 7 (drop_bit 6 h AND 1)
     OR push_bit 1 (drop_bit 3 h AND 0x7) OR push_bit 5 (drop_bit 2 h AND 1))"

definition c_imm_addi4spn :: "u32 \<Rightarrow> u32" where
  "c_imm_addi4spn h = push_bit 6 (drop_bit 7 h AND 0xF) OR push_bit 4 (drop_bit 11 h AND 0x3)
     OR push_bit 3 (drop_bit 5 h AND 0x1) OR push_bit 2 (drop_bit 6 h AND 0x1)"

definition c_imm_addi16sp :: "u32 \<Rightarrow> u32" where
  "c_imm_addi16sp h = sext10 (push_bit 9 (drop_bit 12 h AND 1) OR push_bit 7 (drop_bit 3 h AND 0x3)
     OR push_bit 6 (drop_bit 5 h AND 1) OR push_bit 5 (drop_bit 2 h AND 1) OR push_bit 4 (drop_bit 6 h AND 1))"

definition c_imm_lwsp :: "u32 \<Rightarrow> u32" where
  "c_imm_lwsp h = push_bit 5 (drop_bit 12 h AND 1) OR push_bit 2 (drop_bit 4 h AND 0x7) OR push_bit 6 (drop_bit 2 h AND 0x3)"

definition c_imm_ldsp :: "u32 \<Rightarrow> u32" where
  "c_imm_ldsp h = push_bit 5 (drop_bit 12 h AND 1) OR push_bit 3 (drop_bit 5 h AND 0x3) OR push_bit 6 (drop_bit 2 h AND 0x7)"

definition c_imm_swsp :: "u32 \<Rightarrow> u32" where
  "c_imm_swsp h = push_bit 2 (drop_bit 9 h AND 0xF) OR push_bit 6 (drop_bit 7 h AND 0x3)"

definition c_imm_sdsp :: "u32 \<Rightarrow> u32" where
  "c_imm_sdsp h = push_bit 3 (drop_bit 10 h AND 0x7) OR push_bit 6 (drop_bit 7 h AND 0x7)"

text \<open>The three quadrants, by \<open>funct3\<close>.\<close>

definition expand_q0 :: "u32 \<Rightarrow> u32 \<Rightarrow> u32 option" where
  "expand_q0 f3 h =
     (if f3 = 0x0 then
        (let imm = c_imm_addi4spn h
         in if imm = 0 then None else Some (i_type imm 2 0x0 (c_rdp h) 0x13))
      else if f3 = 0x2 then Some (i_type (c_imm_lw h) (c_rs1p h) 0x2 (c_rdp h) 0x03)
      else if f3 = 0x3 then Some (i_type (c_imm_ld h) (c_rs1p h) 0x3 (c_rdp h) 0x03)
      else if f3 = 0x6 then Some (s_type (c_imm_lw h) (c_rdp h) (c_rs1p h) 0x2 0x23)
      else if f3 = 0x7 then Some (s_type (c_imm_ld h) (c_rdp h) (c_rs1p h) 0x3 0x23)
      else None)"

definition expand_misc_alu :: "u32 \<Rightarrow> u32 option" where
  "expand_misc_alu h =
     (let funct2 = drop_bit 10 h AND 0x3; r = c_rs1p h; r2 = c_rdp h in
      if funct2 = 0x0 then Some (i_type (c_imm6 h) r 0x5 r 0x13)
      else if funct2 = 0x1 then Some (i_type (c_imm6 h OR 0x400) r 0x5 r 0x13)
      else if funct2 = 0x2 then Some (i_type (sext6 (c_imm6 h)) r 0x7 r 0x13)
      else let bit12 = drop_bit 12 h AND 1; sel = drop_bit 5 h AND 0x3 in
        if bit12 = 0 then
          (if sel = 0x0 then Some (r_type 0x20 r2 r 0x0 r 0x33)
           else if sel = 0x1 then Some (r_type 0x00 r2 r 0x4 r 0x33)
           else if sel = 0x2 then Some (r_type 0x00 r2 r 0x6 r 0x33)
           else Some (r_type 0x00 r2 r 0x7 r 0x33))
        else if sel = 0x0 then Some (r_type 0x20 r2 r 0x0 r 0x3B)
        else if sel = 0x1 then Some (r_type 0x00 r2 r 0x0 r 0x3B)
        else None)"

definition expand_q1 :: "u32 \<Rightarrow> u32 \<Rightarrow> u32 option" where
  "expand_q1 f3 h =
     (let d = c_rd h in
      if f3 = 0x0 then Some (i_type (sext6 (c_imm6 h)) d 0x0 d 0x13)
      else if f3 = 0x1 then if d = 0 then None else Some (i_type (sext6 (c_imm6 h)) d 0x0 d 0x1B)
      else if f3 = 0x2 then Some (i_type (sext6 (c_imm6 h)) 0 0x0 d 0x13)
      else if f3 = 0x3 then
        if d = 2 then
          let imm = c_imm_addi16sp h
          in if imm = 0 then None else Some (i_type imm 2 0x0 2 0x13)
        else
          let raw6 = c_imm6 h
          in if raw6 = 0 then None
             else Some (push_bit 12 (sext6 raw6 AND 0xFFFFF) OR push_bit 7 d OR 0x37)
      else if f3 = 0x4 then expand_misc_alu h
      else if f3 = 0x5 then Some (j_type (c_imm_jump h) 0 0x6F)
      else if f3 = 0x6 then Some (b_type (c_imm_branch h) 0 (c_rs1p h) 0x0 0x63)
      else Some (b_type (c_imm_branch h) 0 (c_rs1p h) 0x1 0x63))"

definition expand_q2 :: "u32 \<Rightarrow> u32 \<Rightarrow> u32 option" where
  "expand_q2 f3 h =
     (let d = c_rd h; s2 = c_rs2 h in
      if f3 = 0x0 then Some (i_type (c_imm6 h) d 0x1 d 0x13)
      else if f3 = 0x2 then
        if d = 0 then None
        else Some (i_type (c_imm_lwsp h) 2 0x2 d 0x03)
      else if f3 = 0x3 then
        if d = 0 then None
        else Some (i_type (c_imm_ldsp h) 2 0x3 d 0x03)
      else if f3 = 0x6 then
        Some (s_type (c_imm_swsp h) s2 2 0x2 0x23)
      else if f3 = 0x7 then
        Some (s_type (c_imm_sdsp h) s2 2 0x3 0x23)
      else if f3 = 0x4 then
        (if drop_bit 12 h AND 1 = 0 then
           if s2 = 0 then if d = 0 then None else Some (i_type 0 d 0x0 0 0x67)
           else Some (push_bit 20 s2 OR push_bit 15 0 OR push_bit 7 d OR 0x33)
         else if s2 = 0 then if d = 0 then Some 0x00100073 else Some (i_type 0 d 0x0 1 0x67)
         else Some (push_bit 20 s2 OR push_bit 15 d OR push_bit 7 d OR 0x33))
      else None)"

definition expand :: "u16 \<Rightarrow> u32 option" where
  "expand half =
     (let h = ucast half :: u32; op = h AND 0x3; f3 = drop_bit 13 h AND 0x7 in
      if op = 0x3 then None
      else if op = 0x0 then expand_q0 f3 h
      else if op = 0x1 then expand_q1 f3 h
      else expand_q2 f3 h)"

end
