(* ===== verification/Insn_Fields.thy ===== *)
theory Insn_Fields
  imports Insn
begin

text \<open>
  The fields and immediates the decoders of \<open>insn/mod.rs\<close> read back from the words that the
  builders of \<open>insn/rvc.rs\<close> assemble, and bit tables for immediates as the instruction set manual
  prints them.
\<close>

section \<open>Reading back what the expander builds\<close>

definition fits :: "nat \<Rightarrow> u32 \<Rightarrow> bool" where
  "fits k v \<longleftrightarrow> take_bit k v = v"

lemma fitsD: "fits k v \<Longrightarrow> bit v n \<Longrightarrow> n < k"
  unfolding fits_def by (metis bit_take_bit_iff)

lemma fits_bit: "fits k v \<Longrightarrow> k \<le> n \<Longrightarrow> \<not> bit v n"
  using fitsD [of k v n] by auto

lemma fits_mono: "fits k v \<Longrightarrow> k \<le> l \<Longrightarrow> fits l v"
  unfolding fits_def by (rule bit_word_eqI) (metis bit_take_bit_iff order_less_le_trans)

lemma small_masks:
  "(1 :: u32) = mask 1" "(3 :: u32) = mask 2" "(7 :: u32) = mask 3" "(0xF :: u32) = mask 4"
  "(0x1F :: u32) = mask 5" "(0x3F :: u32) = mask 6" "(0x7F :: u32) = mask 7" "(0xFF :: u32) = mask 8"
  "(0x3FF :: u32) = mask 10" "(0xFFF :: u32) = mask 12" "(0xFFFFF :: u32) = mask 20"
  "(0xFE000000 :: u32) = push_bit 25 (mask 7)" "(0xFFFFF000 :: u32) = push_bit 12 (mask 20)"
  by (simp_all add: mask_eq_exp_minus_1)

lemmas bit_unfolds = bit_or_iff bit_and_iff bit_push_bit_iff bit_mask_iff bit_drop_bit_eq bit_take_bit_iff
  bit_unsigned_iff possible_bit_word comp_def

lemmas type_defs = i_type_def s_type_def r_type_def b_type_def j_type_def
lemmas field_defs = opcode_def rd_def rs1_def rs2_def funct3_def funct7_def
lemmas imm_defs = imm_i_def imm_s_def imm_b_def imm_j_def imm_u_def sext32_def shift_pair_def Let_def


lemma i_type_fields:
  assumes "fits 5 s1" "fits 3 f3" "fits 5 d" "fits 7 opc"
  shows "opcode (i_type imm s1 f3 d opc) = opc" "rd (i_type imm s1 f3 d opc) = ucast d"
    "rs1 (i_type imm s1 f3 d opc) = ucast s1" "funct3 (i_type imm s1 f3 d opc) = f3"
  unfolding field_defs type_defs small_masks atomize_conj
  by (intro conjI; rule bit_word_eqI)
    (auto simp: bit_simps min_def less_Suc_eq_le
      dest: fitsD [OF assms(1)] fitsD [OF assms(2)] fitsD [OF assms(3)] fitsD [OF assms(4)])

lemma s_type_fields:
  assumes "fits 5 s1" "fits 3 f3" "fits 5 s2" "fits 7 opc"
  shows "opcode (s_type imm s2 s1 f3 opc) = opc" "rs2 (s_type imm s2 s1 f3 opc) = ucast s2"
    "rs1 (s_type imm s2 s1 f3 opc) = ucast s1" "funct3 (s_type imm s2 s1 f3 opc) = f3"
  unfolding field_defs type_defs small_masks atomize_conj
  by (intro conjI; rule bit_word_eqI)
    (auto simp: bit_simps min_def less_Suc_eq_le
      dest: fitsD [OF assms(1)] fitsD [OF assms(2)] fitsD [OF assms(3)] fitsD [OF assms(4)])

lemma r_type_fields:
  assumes "fits 5 s1" "fits 3 f3" "fits 5 s2" "fits 7 opc" "fits 5 d" "fits 7 f7"
  shows "opcode (r_type f7 s2 s1 f3 d opc) = opc" "rs2 (r_type f7 s2 s1 f3 d opc) = ucast s2"
    "rs1 (r_type f7 s2 s1 f3 d opc) = ucast s1" "funct3 (r_type f7 s2 s1 f3 d opc) = f3"
    "rd (r_type f7 s2 s1 f3 d opc) = ucast d" "funct7 (r_type f7 s2 s1 f3 d opc) = f7"
  unfolding field_defs type_defs small_masks atomize_conj
  by (intro conjI; rule bit_word_eqI)
    (auto simp: bit_simps min_def less_Suc_eq_le
      dest: fitsD [OF assms(1)] fitsD [OF assms(2)] fitsD [OF assms(3)] fitsD [OF assms(4)] fitsD [OF assms(5)] fitsD [OF assms(6)])

lemma b_type_fields:
  assumes "fits 5 s1" "fits 3 f3" "fits 5 s2" "fits 7 opc"
  shows "opcode (b_type imm s2 s1 f3 opc) = opc" "rs2 (b_type imm s2 s1 f3 opc) = ucast s2"
    "rs1 (b_type imm s2 s1 f3 opc) = ucast s1" "funct3 (b_type imm s2 s1 f3 opc) = f3"
  unfolding field_defs type_defs small_masks atomize_conj
  by (intro conjI; rule bit_word_eqI)
    (auto simp: bit_simps min_def less_Suc_eq_le
      dest: fitsD [OF assms(1)] fitsD [OF assms(2)] fitsD [OF assms(3)] fitsD [OF assms(4)])

lemma j_type_fields:
  assumes "fits 5 d" "fits 7 opc"
  shows "opcode (j_type imm d opc) = opc" "rd (j_type imm d opc) = ucast d"
  unfolding field_defs type_defs small_masks atomize_conj
  by (intro conjI; rule bit_word_eqI)
    (auto simp: bit_simps min_def less_Suc_eq_le dest: fitsD [OF assms(1)] fitsD [OF assms(2)])

text \<open>Signed shift pairs are sign extensions.\<close>

lemma imm_i_i_type:
  assumes "fits 5 s1" "fits 3 f3" "fits 5 d" "fits 7 opc"
  shows "imm_i (i_type imm s1 f3 d opc) = signed_take_bit 11 (ucast imm)"
proof (rule bit_word_eqI)
  fix n
  show "bit (imm_i (i_type imm s1 f3 d opc)) n = bit (signed_take_bit 11 (ucast imm) :: u64) n" if "n < LENGTH(64)"
    using that unfolding imm_defs type_defs small_masks
    by (cases "n < 11"; cases "n = 11") (auto simp: bit_simps min_def not_less
      dest: fitsD [OF assms(1)] fitsD [OF assms(2)] fitsD [OF assms(3)] fitsD [OF assms(4)])
qed

lemma sext_pair:
  assumes "j \<le> 31"
  shows "sext32 (shift_pair (31 - j) v) = signed_take_bit j (ucast v)"
proof (rule bit_word_eqI)
  fix n
  have j: "32 - (31 - j) = Suc j" "31 - (31 - j) = j" using assms by simp_all
  show "bit (sext32 (shift_pair (31 - j) v)) n = bit (signed_take_bit j (ucast v) :: u64) n" if "n < LENGTH(64)"
    using that assms unfolding sext32_def shift_pair_def
    by (cases "j = 31"; cases "n < j"; cases "n = j") (auto simp: bit_simps min_def not_less j)
qed

lemma low_bits_eqI:
  assumes "\<And>n. n < k \<Longrightarrow> bit a n = bit b n"
  shows "a AND mask k = b AND (mask k :: u32)"
  by (rule bit_word_eqI) (auto simp: bit_simps assms)

lemma imm_b_b_type:
  assumes "fits 5 s1" "fits 3 f3" "fits 5 s2" "fits 7 opc" and "\<not> bit imm 0"
  shows "imm_b (b_type imm s2 s1 f3 opc) = signed_take_bit 12 (ucast imm)"
proof -
  let ?i = "b_type imm s2 s1 f3 opc"
  let ?v = "push_bit 12 (drop_bit 31 ?i AND 1) OR push_bit 11 (drop_bit 7 ?i AND 1)
    OR push_bit 5 (drop_bit 25 ?i AND 0x3F) OR push_bit 1 (drop_bit 8 ?i AND 0xF)"
  note fits = fits_bit [OF assms(1)] fits_bit [OF assms(2)] fits_bit [OF assms(3)] fits_bit [OF assms(4)]
  have parts: "drop_bit 31 ?i AND 1 = drop_bit 12 imm AND 1" "drop_bit 7 ?i AND 1 = drop_bit 11 imm AND 1"
    "drop_bit 25 ?i AND 0x3F = drop_bit 5 imm AND 0x3F" "drop_bit 8 ?i AND 0xF = drop_bit 1 imm AND 0xF"
    unfolding type_defs small_masks by (rule low_bits_eqI; simp only: bit_unfolds; simp add: fits)+
  have "bit (push_bit 12 (drop_bit 12 imm AND 1) OR push_bit 11 (drop_bit 11 imm AND 1)
      OR push_bit 5 (drop_bit 5 imm AND 0x3F) OR push_bit 1 (drop_bit 1 imm AND 0xF)) n = bit (take_bit 13 imm) n"
    if "n < 32" for n
    using that assms(5) unfolding small_masks
    by (cases "n = 0"; cases "n < 5"; cases "n < 11"; cases "n = 11"; cases "n = 12"; simp only: bit_unfolds; auto)
  then have "?v = take_bit 13 imm" unfolding parts by (intro bit_word_eqI) simp
  moreover have "signed_take_bit 12 (ucast (take_bit 13 imm)) = (signed_take_bit 12 (ucast imm) :: u64)"
    by (rule bit_word_eqI) (auto simp: bit_simps min_def)
  ultimately show ?thesis
    using sext_pair [of 12 "?v"] by (simp add: imm_b_def)
qed

lemma imm_j_j_type:
  assumes "fits 5 d" "fits 7 opc" and "\<not> bit imm 0"
  shows "imm_j (j_type imm d opc) = signed_take_bit 20 (ucast imm)"
proof -
  let ?i = "j_type imm d opc"
  let ?v = "push_bit 20 (drop_bit 31 ?i AND 1) OR push_bit 12 (drop_bit 12 ?i AND 0xFF)
    OR push_bit 11 (drop_bit 20 ?i AND 1) OR push_bit 1 (drop_bit 21 ?i AND 0x3FF)"
  note fits = fits_bit [OF assms(1)] fits_bit [OF assms(2)]
  have parts: "drop_bit 31 ?i AND 1 = drop_bit 20 imm AND 1" "drop_bit 12 ?i AND 0xFF = drop_bit 12 imm AND 0xFF"
    "drop_bit 20 ?i AND 1 = drop_bit 11 imm AND 1" "drop_bit 21 ?i AND 0x3FF = drop_bit 1 imm AND 0x3FF"
    unfolding type_defs small_masks by (rule low_bits_eqI; simp only: bit_unfolds; simp add: fits)+
  have "bit (push_bit 20 (drop_bit 20 imm AND 1) OR push_bit 12 (drop_bit 12 imm AND 0xFF)
      OR push_bit 11 (drop_bit 11 imm AND 1) OR push_bit 1 (drop_bit 1 imm AND 0x3FF)) n = bit (take_bit 21 imm) n"
    if "n < 32" for n
    using that assms(3) unfolding small_masks
    by (cases "n = 0"; cases "n < 11"; cases "n = 11"; cases "n < 20"; cases "n = 20"; simp only: bit_unfolds; auto)
  then have "?v = take_bit 21 imm" unfolding parts by (intro bit_word_eqI) simp
  moreover have "signed_take_bit 20 (ucast (take_bit 21 imm)) = (signed_take_bit 20 (ucast imm) :: u64)"
    by (rule bit_word_eqI) (auto simp: bit_simps min_def)
  ultimately show ?thesis
    using sext_pair [of 20 "?v"] by (simp add: imm_j_def)
qed

lemma imm_s_s_type:
  assumes "fits 5 s1" "fits 3 f3" "fits 5 s2" "fits 7 opc" and "fits 12 imm"
  shows "imm_s (s_type imm s2 s1 f3 opc) = signed_take_bit 11 (ucast imm)"
proof (rule bit_word_eqI)
  fix n
  show "bit (imm_s (s_type imm s2 s1 f3 opc)) n = bit (signed_take_bit 11 (ucast imm) :: u64) n" if "n < LENGTH(64)"
    using that unfolding imm_defs type_defs small_masks
    by (cases "n < 5"; cases "n < 11"; cases "n = 11") (auto simp: bit_simps min_def not_less
      dest: fitsD [OF assms(1)] fitsD [OF assms(2)] fitsD [OF assms(3)] fitsD [OF assms(4)] fitsD [OF assms(5)])
qed

section \<open>Bit tables\<close>

text \<open>An immediate given the way the instruction set manual prints it: which bit of the halfword
  goes to which bit of the immediate.\<close>

fun gather :: "(nat \<times> nat) list \<Rightarrow> 'a::len word \<Rightarrow> u64" where
  "gather [] w = 0"
| "gather ((s, d) # ps) w = (if bit w s then push_bit d 1 else 0) OR gather ps w"

lemma bit_gather: "bit (gather ps w) n \<longleftrightarrow> n < 64 \<and> (\<exists>(s, d) \<in> set ps. bit w s \<and> d = n)"
  by (induction ps w rule: gather.induct) (auto simp: bit_simps split: if_splits)

lemma gather_ucast: "gather ps (ucast (h :: u16) :: u32) = gather ps h"
proof -
  have "bit (ucast h :: u32) s = bit h s" for s
    by (auto simp: bit_unsigned_iff dest: bit_imp_le_length)
  then show ?thesis by (induction ps) auto
qed

lemma gather_append: "gather (ps @ qs) w = gather ps w OR gather qs w"
  by (rule bit_word_eqI) (auto simp: bit_gather bit_simps)

lemma gather_cong: "set ps = set qs \<Longrightarrow> gather ps w = gather qs w"
  by (rule bit_word_eqI) (simp add: bit_gather)

lemma field_gather:
  assumes "d + k \<le> 32"
  shows "ucast (push_bit d (drop_bit s h AND mask k) :: u32) = gather (map (\<lambda>i. (s + i, d + i)) [0..<k]) h"
proof (rule bit_word_eqI)
  fix n
  have "(\<exists>i<k. bit h (s + i) \<and> d + i = n) \<longleftrightarrow> d \<le> n \<and> n - d < k \<and> bit h (s + (n - d))"
    by (auto intro: exI [of _ "n - d"])
  then show "bit (ucast (push_bit d (drop_bit s h AND mask k) :: u32) :: u64) n =
      bit (gather (map (\<lambda>i. (s + i, d + i)) [0..<k]) h) n"
    using assms by (auto simp: bit_gather bit_simps)
qed

lemma ucast_or: "ucast (a OR b :: u32) = (ucast a OR ucast b :: u64)"
  by (rule bit_word_eqI) (auto simp: bit_simps)

end
