(* ===== verification/Rvc.thy ===== *)
theory Rvc
  imports Insn_Fields
begin

text \<open>
  The compressed instruction set as the manual tabulates it, one line per instruction with its
  immediate as a bit table, and the proof that \<open>expand\<close> followed by the base decoders agrees with
  it on every halfword.
\<close>

section \<open>The compressed instruction set, from the manual\<close>

text \<open>The six base formats with their operands, and how a 32-bit word reads as one.\<close>

datatype fmt =
    FR u32 u32 u32 regno regno regno
  | FI u32 u32 regno regno u64
  | FS u32 u32 regno regno u64
  | FB u32 u32 regno regno u64
  | FU u32 regno u64
  | FJ u32 regno u64

definition decode_fmt :: "u32 \<Rightarrow> fmt" where
  "decode_fmt w =
     (if opcode w = 0x33 \<or> opcode w = 0x3B then FR (opcode w) (funct3 w) (funct7 w) (rd w) (rs1 w) (rs2 w)
      else if opcode w = 0x23 then FS (opcode w) (funct3 w) (rs1 w) (rs2 w) (imm_s w)
      else if opcode w = 0x63 then FB (opcode w) (funct3 w) (rs1 w) (rs2 w) (imm_b w)
      else if opcode w = 0x37 then FU (opcode w) (rd w) (imm_u w)
      else if opcode w = 0x6F then FJ (opcode w) (rd w) (imm_j w)
      else FI (opcode w) (funct3 w) (rd w) (rs1 w) (imm_i w))"

text \<open>A full register field at bit \<open>k\<close>, and a three-bit one, which names x8 to x15.\<close>

definition creg :: "nat \<Rightarrow> u16 \<Rightarrow> regno" where
  "creg k h = ucast (take_bit 5 (drop_bit k h))"

definition creg' :: "nat \<Rightarrow> u16 \<Rightarrow> regno" where
  "creg' k h = 8 OR ucast (take_bit 3 (drop_bit k h))"

abbreviation "imm6_tab \<equiv> [(12, 5), (6, 4), (5, 3), (4, 2), (3, 1), (2, 0)]"
abbreviation "lw_tab \<equiv> [(12, 5), (11, 4), (10, 3), (6, 2), (5, 6)]"
abbreviation "ld_tab \<equiv> [(12, 5), (11, 4), (10, 3), (6, 7), (5, 6)]"
abbreviation "addi4spn_tab \<equiv> [(12, 5), (11, 4), (10, 9), (9, 8), (8, 7), (7, 6), (6, 2), (5, 3)]"
abbreviation "addi16sp_tab \<equiv> [(12, 9), (6, 4), (5, 6), (4, 8), (3, 7), (2, 5)]"
abbreviation "lui_tab \<equiv> [(12, 17), (6, 16), (5, 15), (4, 14), (3, 13), (2, 12)]"
abbreviation "j_tab \<equiv> [(12, 11), (11, 4), (10, 9), (9, 8), (8, 10), (7, 6), (6, 7), (5, 3), (4, 2), (3, 1), (2, 5)]"
abbreviation "b_tab \<equiv> [(12, 8), (11, 4), (10, 3), (6, 7), (5, 6), (4, 2), (3, 1), (2, 5)]"
abbreviation "lwsp_tab \<equiv> [(12, 5), (6, 4), (5, 3), (4, 2), (3, 7), (2, 6)]"
abbreviation "ldsp_tab \<equiv> [(12, 5), (6, 4), (5, 3), (4, 8), (3, 7), (2, 6)]"
abbreviation "swsp_tab \<equiv> [(12, 5), (11, 4), (10, 3), (9, 2), (8, 7), (7, 6)]"
abbreviation "sdsp_tab \<equiv> [(12, 5), (11, 4), (10, 3), (9, 8), (8, 7), (7, 6)]"

definition rvc_spec :: "u16 \<Rightarrow> fmt option" where
  "rvc_spec h = (let op = take_bit 2 h; f3 = drop_bit 13 h; sx6 = signed_take_bit 5 (gather imm6_tab h) in
     if op = 0 then
       if f3 = 0 then if gather addi4spn_tab h = 0 then None else Some (FI 0x13 0 (creg' 2 h) 2 (gather addi4spn_tab h))
       else if f3 = 2 then Some (FI 0x03 2 (creg' 2 h) (creg' 7 h) (gather lw_tab h))
       else if f3 = 3 then Some (FI 0x03 3 (creg' 2 h) (creg' 7 h) (gather ld_tab h))
       else if f3 = 6 then Some (FS 0x23 2 (creg' 7 h) (creg' 2 h) (gather lw_tab h))
       else if f3 = 7 then Some (FS 0x23 3 (creg' 7 h) (creg' 2 h) (gather ld_tab h))
       else None
     else if op = 1 then
       if f3 = 0 then Some (FI 0x13 0 (creg 7 h) (creg 7 h) sx6)
       else if f3 = 1 then if creg 7 h = 0 then None else Some (FI 0x1B 0 (creg 7 h) (creg 7 h) sx6)
       else if f3 = 2 then Some (FI 0x13 0 (creg 7 h) 0 sx6)
       else if f3 = 3 then
         if creg 7 h = 2 then
           if gather addi16sp_tab h = 0 then None
           else Some (FI 0x13 0 2 2 (signed_take_bit 9 (gather addi16sp_tab h)))
         else if gather lui_tab h = 0 then None
         else Some (FU 0x37 (creg 7 h) (signed_take_bit 17 (gather lui_tab h)))
       else if f3 = 4 then
         if \<not> bit h 11 \<and> \<not> bit h 10 then Some (FI 0x13 5 (creg' 7 h) (creg' 7 h) (gather imm6_tab h))
         else if \<not> bit h 11 then Some (FI 0x13 5 (creg' 7 h) (creg' 7 h) (gather imm6_tab h OR 0x400))
         else if \<not> bit h 10 then Some (FI 0x13 7 (creg' 7 h) (creg' 7 h) sx6)
         else if \<not> bit h 12 then
           if \<not> bit h 6 \<and> \<not> bit h 5 then Some (FR 0x33 0 0x20 (creg' 7 h) (creg' 7 h) (creg' 2 h))
           else if \<not> bit h 6 then Some (FR 0x33 4 0 (creg' 7 h) (creg' 7 h) (creg' 2 h))
           else if \<not> bit h 5 then Some (FR 0x33 6 0 (creg' 7 h) (creg' 7 h) (creg' 2 h))
           else Some (FR 0x33 7 0 (creg' 7 h) (creg' 7 h) (creg' 2 h))
         else if \<not> bit h 6 \<and> \<not> bit h 5 then Some (FR 0x3B 0 0x20 (creg' 7 h) (creg' 7 h) (creg' 2 h))
         else if \<not> bit h 6 then Some (FR 0x3B 0 0 (creg' 7 h) (creg' 7 h) (creg' 2 h))
         else None
       else if f3 = 5 then Some (FJ 0x6F 0 (signed_take_bit 11 (gather j_tab h)))
       else if f3 = 6 then Some (FB 0x63 0 (creg' 7 h) 0 (signed_take_bit 8 (gather b_tab h)))
       else Some (FB 0x63 1 (creg' 7 h) 0 (signed_take_bit 8 (gather b_tab h)))
     else if op = 2 then
       if f3 = 0 then Some (FI 0x13 1 (creg 7 h) (creg 7 h) (gather imm6_tab h))
       else if f3 = 2 then if creg 7 h = 0 then None else Some (FI 0x03 2 (creg 7 h) 2 (gather lwsp_tab h))
       else if f3 = 3 then if creg 7 h = 0 then None else Some (FI 0x03 3 (creg 7 h) 2 (gather ldsp_tab h))
       else if f3 = 6 then Some (FS 0x23 2 2 (creg 2 h) (gather swsp_tab h))
       else if f3 = 7 then Some (FS 0x23 3 2 (creg 2 h) (gather sdsp_tab h))
       else if f3 = 4 then
         if \<not> bit h 12 then
           if creg 2 h = 0 then if creg 7 h = 0 then None else Some (FI 0x67 0 0 (creg 7 h) 0)
           else Some (FR 0x33 0 0 (creg 7 h) 0 (creg 2 h))
         else if creg 2 h = 0 then
           if creg 7 h = 0 then Some (FI 0x73 0 0 0 1) else Some (FI 0x67 0 1 (creg 7 h) 0)
         else Some (FR 0x33 0 0 (creg 7 h) (creg 7 h) (creg 2 h))
       else None
     else None)"

section \<open>The expander against the manual\<close>

abbreviation up :: "u16 \<Rightarrow> u32" where "up h \<equiv> ucast h"

lemma bit_up [simp]: "bit (up h) n = bit h n"
  by (auto simp: bit_unsigned_iff dest: bit_imp_le_length)

lemma up_eq: "up x = up y \<longleftrightarrow> x = y"
proof
  assume "up x = up y"
  then have "bit x n = bit y n" for n by (metis bit_up)
  then show "x = y" by (simp add: bit_eq_iff)
qed simp

lemma up_numerals:
  "up x = 0 \<longleftrightarrow> x = 0" "up x = 1 \<longleftrightarrow> x = 1" "up x = 2 \<longleftrightarrow> x = 2" "up x = 3 \<longleftrightarrow> x = 3"
  "up x = 4 \<longleftrightarrow> x = 4" "up x = 5 \<longleftrightarrow> x = 5" "up x = 6 \<longleftrightarrow> x = 6" "up x = 7 \<longleftrightarrow> x = 7"
  using up_eq [of x 0] up_eq [of x 1] up_eq [of x 2] up_eq [of x 3]
    up_eq [of x 4] up_eq [of x 5] up_eq [of x 6] up_eq [of x 7] by simp_all

lemma quadrant: "up h AND 3 = up (take_bit 2 h)" and group: "drop_bit 13 (up h) AND 7 = up (drop_bit 13 h)"
proof -
  have "bit h (13 + n) \<Longrightarrow> n < 3" for n
    by (drule bit_imp_le_length) simp
  then show "up h AND 3 = up (take_bit 2 h)" "drop_bit 13 (up h) AND 7 = up (drop_bit 13 h)"
    unfolding small_masks by (auto intro!: bit_word_eqI simp: bit_simps)
qed

lemma two_bits: "drop_bit k (v :: u32) AND 3 = (if bit v (Suc k) then 2 else 0) OR (if bit v k then 1 else 0)"
proof (rule bit_word_eqI)
  fix n
  show "bit (drop_bit k v AND 3) n =
      bit ((if bit v (Suc k) then 2 else 0 :: u32) OR (if bit v k then 1 else 0)) n" if "n < LENGTH(32)"
    unfolding small_masks
    by (cases "n = 0"; cases "n = 1") (auto simp: bit_simps bit_2_iff)
qed

lemma one_bit: "drop_bit k (v :: u32) AND 1 = (if bit v k then 1 else 0)"
proof (rule bit_word_eqI)
  fix n
  show "bit (drop_bit k v AND 1) n = bit (if bit v k then 1 else 0 :: u32) n"
    by (cases "n = 0") (auto simp: bit_simps bit_1_iff)
qed

lemma reg_field: "fits 5 (drop_bit k (up h) AND 0x1F)" "ucast (drop_bit k (up h) AND 0x1F) = creg k h"
  unfolding fits_def creg_def small_masks atomize_conj
  by (intro conjI; rule bit_word_eqI) (auto simp: bit_simps)

lemma bit_eight: "bit (8 :: 'a::len word) n \<longleftrightarrow> n = 3 \<and> 3 < LENGTH('a)"
proof -
  have "(8 :: 'a word) = push_bit 3 1" by simp
  then show ?thesis by (simp only: bit_push_bit_iff bit_1_iff possible_bit_word) auto
qed

lemma creg'_field:
  "fits 5 (8 + (drop_bit k (up h) AND 0x7))" "ucast (8 + (drop_bit k (up h) AND 0x7)) = creg' k h"
proof -
  have "8 + (drop_bit k (up h) AND 0x7) = 8 OR (drop_bit k (up h) AND 0x7)"
    unfolding small_masks
    by (rule disjunctive_add_eq_or, rule bit_word_eqI) (simp only: bit_unfolds bit_eight; auto)
  then show "fits 5 (8 + (drop_bit k (up h) AND 0x7))" "ucast (8 + (drop_bit k (up h) AND 0x7)) = creg' k h"
    unfolding fits_def creg'_def small_masks
    by (auto intro!: bit_word_eqI simp: bit_simps bit_eight)
qed

lemma reg_small: "up (take_bit 5 (drop_bit k h)) = drop_bit k (up h) AND 0x1F"
  unfolding small_masks by (rule bit_word_eqI) (auto simp: bit_simps)

lemma fits_inj:
  assumes "fits 5 x" and "fits 5 v" and "(ucast x :: regno) = ucast v"
  shows "x = v"
proof (rule bit_word_eqI)
  fix n
  have "bit (ucast x :: regno) n = bit (ucast v :: regno) n" using assms(3) by simp
  then show "bit x n = bit v n"
    using fitsD [OF assms(1), of n] fitsD [OF assms(2), of n] by (auto simp: bit_unsigned_iff)
qed

lemma reg_is:
  assumes "fits 5 v"
  shows "drop_bit k (up h) AND 0x1F = v \<longleftrightarrow> creg k h = ucast v"
  using fits_inj [OF reg_field(1) [of k h] assms] reg_field(2) [of k h] by metis

lemma reg_numerals: "drop_bit k (up h) AND 0x1F = 0 \<longleftrightarrow> creg k h = 0" "drop_bit k (up h) AND 0x1F = 2 \<longleftrightarrow> creg k h = 2"
  using reg_is [of 0 k h] reg_is [of 2 k h] by (simp_all add: fits_def)

text \<open>Immediates of the code as bit tables.\<close>

lemma field_up:
  assumes "d + k \<le> 32"
  shows "ucast (push_bit d (drop_bit s (up h) AND mask k)) = gather (map (\<lambda>i. (s + i, d + i)) [0..<k]) h"
  using field_gather [OF assms, of s "up h"] by (simp add: gather_ucast)

lemmas field_up0 = field_up [of 0, simplified]

lemma imm_tables:
  "ucast (c_imm6 (up h)) = gather imm6_tab h"
  "ucast (c_imm_lw (up h)) = gather lw_tab h"
  "ucast (c_imm_ld (up h)) = gather ld_tab h"
  unfolding c_imm6_def c_imm_lw_def c_imm_ld_def small_masks atomize_conj
  by (intro conjI;
      simp only: ucast_or field_up field_up0 gather_append [symmetric] numeral_le_iff one_le_numeral semiring_norm
        numeral_plus_one;
      rule gather_cong; auto simp: upt_rec eval_nat_numeral)

lemma imm_tables_sp:
  "ucast (c_imm_addi4spn (up h)) = gather addi4spn_tab h"
  "ucast (c_imm_lwsp (up h)) = gather lwsp_tab h"
  "ucast (c_imm_ldsp (up h)) = gather ldsp_tab h"
  "ucast (c_imm_swsp (up h)) = gather swsp_tab h"
  "ucast (c_imm_sdsp (up h)) = gather sdsp_tab h"
  unfolding c_imm_addi4spn_def c_imm_lwsp_def c_imm_ldsp_def c_imm_swsp_def c_imm_sdsp_def small_masks atomize_conj
  by (intro conjI;
      simp only: ucast_or field_up field_up0 gather_append [symmetric] numeral_le_iff one_le_numeral semiring_norm
        numeral_plus_one;
      rule gather_cong; auto simp: upt_rec eval_nat_numeral)

text \<open>Sign extension of a narrow field, read back by a wider sign extension.\<close>

lemma sext_again:
  assumes "j \<le> k" "k \<le> 31"
  shows "signed_take_bit k (ucast (shift_pair (31 - j) v) :: u64) = signed_take_bit j (ucast v)"
proof (rule bit_word_eqI)
  fix n
  have j: "32 - (31 - j) = Suc j" "31 - (31 - j) = j" using assms by simp_all
  show "bit (signed_take_bit k (ucast (shift_pair (31 - j) v) :: u64)) n = bit (signed_take_bit j (ucast v) :: u64) n"
    if "n < LENGTH(64)"
    using that assms unfolding shift_pair_def
    by (cases "k = j"; cases "j = 31"; cases "n < j"; cases "n = j") (auto simp: bit_simps min_def not_less j)
qed

lemmas sext_again6 = sext_again [of 5 11, simplified, folded sext6_def]
  and sext_again9 = sext_again [of 8 12, simplified, folded sext9_def]
  and sext_again10 = sext_again [of 9 11, simplified, folded sext10_def]
  and sext_again12 = sext_again [of 11 20, simplified, folded sext12_def]

lemma imm_tables_signed:
  "signed_take_bit 12 (ucast (c_imm_branch (up h))) = (signed_take_bit 8 (gather b_tab h) :: u64)"
  "signed_take_bit 20 (ucast (c_imm_jump (up h))) = (signed_take_bit 11 (gather j_tab h) :: u64)"
  "signed_take_bit 11 (ucast (c_imm_addi16sp (up h))) = (signed_take_bit 9 (gather addi16sp_tab h) :: u64)"
  unfolding c_imm_branch_def c_imm_jump_def c_imm_addi16sp_def sext_again9 sext_again10 sext_again12 small_masks atomize_conj
  by (intro conjI; rule arg_cong [of _ _ "signed_take_bit _"];
      simp only: ucast_or field_up field_up0 gather_append [symmetric] numeral_le_iff one_le_numeral semiring_norm
        numeral_plus_one;
      rule gather_cong; auto simp: upt_rec eval_nat_numeral)

text \<open>Immediates with room for a sign bit above them, even offsets, and zero tests.\<close>

lemma fits_of_gather:
  assumes "ucast v = gather ps h" and "\<forall>(s, d) \<in> set ps. d < k"
  shows "fits k v"
  unfolding fits_def
proof (rule bit_word_eqI)
  fix n
  assume "n < LENGTH(32)"
  then have "bit v n = bit (gather ps h) n" by (simp flip: assms(1) add: bit_unsigned_iff)
  with assms(2) show "bit (take_bit k v) n = bit v n" by (auto simp: bit_take_bit_iff bit_gather)
qed

lemma signed_fits: "fits 11 v \<Longrightarrow> signed_take_bit 11 (ucast v) = (ucast v :: u64)"
  by (rule bit_word_eqI) (auto simp: bit_simps min_def dest: fitsD)

lemma ucast_zero: "(v :: u32) = 0 \<longleftrightarrow> (ucast v :: u64) = 0"
proof
  assume z: "(ucast v :: u64) = 0"
  have "bit (ucast v :: u64) n \<longleftrightarrow> bit v n" for n
    by (auto simp: bit_unsigned_iff dest: bit_imp_le_length)
  then have "\<not> bit v n" for n unfolding z by simp
  then show "v = 0" by (intro bit_word_eqI) simp
qed simp

lemma shift_pair_zero: "j \<le> 31 \<Longrightarrow> fits (Suc j) v \<Longrightarrow> shift_pair (31 - j) v = 0 \<longleftrightarrow> v = 0"
proof
  assume a: "j \<le> 31" "fits (Suc j) v" "shift_pair (31 - j) v = 0"
  have "bit (shift_pair (31 - j) v) n = bit v n" if "n \<le> j" for n
    using that a(1) unfolding shift_pair_def by (auto simp: bit_simps min_def)
  with a fitsD [OF a(2)] show "v = 0" by (intro bit_word_eqI) (metis bit_0_eq bot_apply less_Suc_eq_le bot_bool_def)
qed (simp add: shift_pair_def)

section \<open>One format at a time\<close>

lemma decode_i_type:
  assumes "fits 5 s1" "fits 3 f3" "fits 5 d" "opc \<in> {0x13, 0x1B, 0x03, 0x67, 0x73}"
  shows "decode_fmt (i_type imm s1 f3 d opc) = FI opc f3 (ucast d) (ucast s1) (signed_take_bit 11 (ucast imm))"
proof -
  have "fits 7 opc" using assms(4) by (auto simp: fits_def)
  note f = assms(1-3) this
  show ?thesis
    using assms(4) unfolding decode_fmt_def i_type_fields [OF f] imm_i_i_type [OF f] by auto
qed

lemma decode_s_type:
  assumes "fits 5 s1" "fits 3 f3" "fits 5 s2" "fits 11 imm"
  shows "decode_fmt (s_type imm s2 s1 f3 0x23) = FS 0x23 f3 (ucast s1) (ucast s2) (ucast imm)"
proof -
  have f: "fits 7 0x23" "fits 12 imm" using fits_mono [OF assms(4), of 12] by (simp_all add: fits_def)
  note f1 = assms(1-3) f(1)
  show ?thesis
    unfolding decode_fmt_def s_type_fields [OF f1] imm_s_s_type [OF f1 f(2)] signed_fits [OF assms(4)] by simp
qed

lemma decode_r_type:
  assumes "fits 5 s1" "fits 3 f3" "fits 5 s2" "fits 5 d" "fits 7 f7" "opc = 0x33 \<or> opc = 0x3B"
  shows "decode_fmt (r_type f7 s2 s1 f3 d opc) = FR opc f3 f7 (ucast d) (ucast s1) (ucast s2)"
proof -
  have "fits 7 opc" using assms(6) by (auto simp: fits_def)
  note f = assms(1-3) this assms(4,5)
  show ?thesis using assms(6) unfolding decode_fmt_def r_type_fields [OF f] by auto
qed

lemma decode_b_type:
  assumes "fits 5 s1" "fits 3 f3" "fits 5 s2" "\<not> bit imm 0"
  shows "decode_fmt (b_type imm s2 s1 f3 0x63) = FB 0x63 f3 (ucast s1) (ucast s2) (signed_take_bit 12 (ucast imm))"
proof -
  have "fits 7 0x63" by (simp add: fits_def)
  note f = assms(1-3) this
  show ?thesis unfolding decode_fmt_def b_type_fields [OF f] imm_b_b_type [OF f assms(4)] by simp
qed

lemma decode_j_type:
  assumes "fits 5 d" "\<not> bit imm 0"
  shows "decode_fmt (j_type imm d 0x6F) = FJ 0x6F (ucast d) (signed_take_bit 20 (ucast imm))"
proof -
  have "fits 7 0x6F" by (simp add: fits_def)
  note f = assms(1) this
  show ?thesis unfolding decode_fmt_def j_type_fields [OF f] imm_j_j_type [OF f assms(2)] by simp
qed

section \<open>Zero tests, even offsets, C.LUI\<close>

lemma gather_zero: "\<forall>(s, d) \<in> set ps. d < 64 \<Longrightarrow> gather ps h = 0 \<longleftrightarrow> (\<forall>(s, d) \<in> set ps. \<not> bit h s)"
proof
  assume d: "\<forall>(s, d) \<in> set ps. d < 64" and "gather ps h = 0"
  then have "\<not> bit (gather ps h) n" for n by simp
  with d show "\<forall>(s, d) \<in> set ps. \<not> bit h s" by (fastforce simp: bit_gather)
next
  assume "\<forall>(s, d) \<in> set ps. \<not> bit h s"
  then show "gather ps h = 0" by (intro bit_word_eqI) (auto simp: bit_gather)
qed

lemma zero_tests:
  "c_imm_addi4spn (up h) = 0 \<longleftrightarrow> gather addi4spn_tab h = 0"
  "c_imm6 (up h) = 0 \<longleftrightarrow> gather lui_tab h = 0"
  by (simp_all only: ucast_zero imm_tables imm_tables_sp) (auto simp: gather_zero simp del: gather.simps)

lemma addi16sp_zero: "c_imm_addi16sp (up h) = 0 \<longleftrightarrow> gather addi16sp_tab h = 0"
proof -
  let ?raw = "push_bit 9 (drop_bit 12 (up h) AND 1) OR push_bit 7 (drop_bit 3 (up h) AND 0x3)
     OR push_bit 6 (drop_bit 5 (up h) AND 1) OR push_bit 5 (drop_bit 2 (up h) AND 1) OR push_bit 4 (drop_bit 6 (up h) AND 1)"
  have raw: "ucast ?raw = gather addi16sp_tab h"
    unfolding small_masks
    by (simp only: ucast_or field_up field_up0 gather_append [symmetric] numeral_le_iff one_le_numeral semiring_norm
        numeral_plus_one; rule gather_cong; auto simp: upt_rec eval_nat_numeral)
  have "fits (Suc 9) ?raw" by (rule fits_of_gather [OF raw]) simp
  from shift_pair_zero [OF _ this] have "c_imm_addi16sp (up h) = 0 \<longleftrightarrow> ?raw = 0"
    unfolding c_imm_addi16sp_def sext10_def by simp
  then show ?thesis unfolding ucast_zero [of ?raw] raw .
qed

lemma even_offset:
  fixes x :: u32 and g :: u64
  assumes "signed_take_bit (Suc k) (ucast x) = signed_take_bit (Suc j) g" and "\<not> bit g 0"
  shows "\<not> bit x 0"
proof -
  have "bit (signed_take_bit (Suc k) (ucast x) :: u64) 0 = bit (signed_take_bit (Suc j) g) 0"
    by (simp only: assms(1))
  with assms(2) show ?thesis by (simp add: bit_signed_take_bit_iff bit_unsigned_iff)
qed

lemma even_offsets: "\<not> bit (c_imm_branch (up h)) 0" "\<not> bit (c_imm_jump (up h)) 0"
proof -
  show "\<not> bit (c_imm_branch (up h)) 0"
    using even_offset [of 11 "c_imm_branch (up h)" 7 "gather b_tab h"] imm_tables_signed(1) [of h]
    by (simp del: gather.simps add: bit_gather)
  show "\<not> bit (c_imm_jump (up h)) 0"
    using even_offset [of 19 "c_imm_jump (up h)" 10 "gather j_tab h"] imm_tables_signed(2) [of h]
    by (simp del: gather.simps add: bit_gather)
qed

lemma push_gather: "push_bit k (gather ps h) = gather (map (\<lambda>(s, d). (s, k + d)) ps) h"
  by (induction ps h rule: gather.induct) (auto simp: push_bit_or push_bit_of_1 push_bit_eq_mult [of _ "2 ^ _"] power_add mult.commute)

lemma lui_shift: "push_bit 12 (gather imm6_tab h) = gather lui_tab h"
  unfolding push_gather by (rule gather_cong) simp

lemma u_type_fields:
  assumes "fits 5 d" "fits 7 opc"
  shows "opcode (push_bit 12 (imm AND 0xFFFFF) OR push_bit 7 d OR opc) = opc"
    "rd (push_bit 12 (imm AND 0xFFFFF) OR push_bit 7 d OR opc) = ucast d"
  unfolding field_defs small_masks atomize_conj
  by (intro conjI; rule bit_word_eqI) (auto simp: bit_simps dest: fitsD [OF assms(1)] fitsD [OF assms(2)])

lemma imm_u_u_type:
  assumes "fits 5 d" "fits 7 opc"
  shows "imm_u (push_bit 12 (sext6 imm AND 0xFFFFF) OR push_bit 7 d OR opc) = signed_take_bit 17 (push_bit 12 (ucast imm))"
    (is "?l = ?r")
proof (rule bit_word_eqI)
  fix n
  show "bit ?l n = bit ?r n" if "n < LENGTH(64)"
    using that unfolding imm_defs small_masks sext6_def
    by (cases "n < 12"; cases "n < 17"; cases "n = 17"; cases "n < 31") (auto simp: bit_simps min_def not_less
      dest: fitsD [OF assms(1)] fitsD [OF assms(2)])
qed

lemma decode_lui:
  assumes "fits 5 d"
  shows "decode_fmt (push_bit 12 (sext6 (c_imm6 (up h)) AND 0xFFFFF) OR push_bit 7 d OR 0x37) =
    FU 0x37 (ucast d) (signed_take_bit 17 (gather lui_tab h))"
proof -
  have f: "fits 7 0x37" by (simp add: fits_def)
  show ?thesis
    unfolding decode_fmt_def u_type_fields [OF assms f] imm_u_u_type [OF assms f] imm_tables lui_shift by simp
qed

section \<open>The quadrants\<close>

lemma fits_numerals [simp]:
  "fits 3 0" "fits 3 1" "fits 3 2" "fits 3 3" "fits 3 4" "fits 3 5" "fits 3 6" "fits 3 7" "fits 5 0" "fits 5 1" "fits 5 2"
  "fits 7 0" "fits 7 0x20"
  by (simp_all add: fits_def)

lemma c_regs:
  "fits 5 (c_rd (up h))" "fits 5 (c_rs2 (up h))" "fits 5 (c_rdp (up h))" "fits 5 (c_rs1p (up h))"
  "ucast (c_rd (up h)) = creg 7 h" "ucast (c_rs2 (up h)) = creg 2 h"
  "ucast (c_rdp (up h)) = creg' 2 h" "ucast (c_rs1p (up h)) = creg' 7 h"
  "c_rd (up h) = 0 \<longleftrightarrow> creg 7 h = 0" "c_rd (up h) = 2 \<longleftrightarrow> creg 7 h = 2" "c_rs2 (up h) = 0 \<longleftrightarrow> creg 2 h = 0"
  unfolding c_rd_def c_rs2_def c_rdp_def c_rs1p_def reg_numerals by (simp_all only: reg_field creg'_field)

lemma imm_fits:
  "fits 11 (c_imm6 (up h))" "fits 11 (c_imm_lw (up h))" "fits 11 (c_imm_ld (up h))" "fits 11 (c_imm_addi4spn (up h))"
  "fits 11 (c_imm_lwsp (up h))" "fits 11 (c_imm_ldsp (up h))" "fits 11 (c_imm_swsp (up h))" "fits 11 (c_imm_sdsp (up h))"
  by (rule fits_of_gather, (rule imm_tables imm_tables_sp), simp)+

lemma srai_imm: "signed_take_bit 11 (ucast (c_imm6 (up h) OR 0x400)) = (gather imm6_tab h OR 0x400 :: u64)"
proof -
  have "fits 11 0x400" by (simp add: fits_def)
  with imm_fits(1) [of h] have "fits 11 (c_imm6 (up h) OR 0x400)" by (simp only: fits_def take_bit_or)
  from signed_fits [OF this] show ?thesis by (simp add: ucast_or imm_tables del: gather.simps)
qed

lemma signed_gather: "\<forall>(s, d) \<in> set ps. d < 11 \<Longrightarrow> signed_take_bit 11 (gather ps h) = gather ps h"
proof (rule bit_word_eqI)
  fix n
  assume "\<forall>(s, d) \<in> set ps. d < 11"
  then show "bit (signed_take_bit 11 (gather ps h)) n = bit (gather ps h) n" if "n < LENGTH(64)"
    using that by (cases "n < 11") (force simp: bit_signed_take_bit_iff bit_gather min_def)+
qed

lemmas rvc_simps = signed_gather decode_i_type decode_s_type decode_r_type decode_b_type decode_j_type decode_lui
  c_regs imm_fits signed_fits sext_again6 imm_tables imm_tables_sp imm_tables_signed zero_tests addi16sp_zero
  even_offsets srai_imm two_bits one_bit

lemma quadrant0:
  "map_option decode_fmt (expand_q0 (up f3) (up h)) =
     (if f3 = 0 then if gather addi4spn_tab h = 0 then None else Some (FI 0x13 0 (creg' 2 h) 2 (gather addi4spn_tab h))
       else if f3 = 2 then Some (FI 0x03 2 (creg' 2 h) (creg' 7 h) (gather lw_tab h))
       else if f3 = 3 then Some (FI 0x03 3 (creg' 2 h) (creg' 7 h) (gather ld_tab h))
       else if f3 = 6 then Some (FS 0x23 2 (creg' 7 h) (creg' 2 h) (gather lw_tab h))
       else if f3 = 7 then Some (FS 0x23 3 (creg' 7 h) (creg' 2 h) (gather ld_tab h))
       else None)"
  unfolding expand_q0_def Let_def up_numerals
  by (simp add: rvc_simps del: gather.simps)

lemma quadrant1:
  "map_option decode_fmt (expand_q1 (up f3) (up h)) =
     (let sx6 = signed_take_bit 5 (gather imm6_tab h) in
       if f3 = 0 then Some (FI 0x13 0 (creg 7 h) (creg 7 h) sx6)
       else if f3 = 1 then if creg 7 h = 0 then None else Some (FI 0x1B 0 (creg 7 h) (creg 7 h) sx6)
       else if f3 = 2 then Some (FI 0x13 0 (creg 7 h) 0 sx6)
       else if f3 = 3 then
         if creg 7 h = 2 then
           if gather addi16sp_tab h = 0 then None
           else Some (FI 0x13 0 2 2 (signed_take_bit 9 (gather addi16sp_tab h)))
         else if gather lui_tab h = 0 then None
         else Some (FU 0x37 (creg 7 h) (signed_take_bit 17 (gather lui_tab h)))
       else if f3 = 4 then map_option decode_fmt (expand_misc_alu (up h))
       else if f3 = 5 then Some (FJ 0x6F 0 (signed_take_bit 11 (gather j_tab h)))
       else if f3 = 6 then Some (FB 0x63 0 (creg' 7 h) 0 (signed_take_bit 8 (gather b_tab h)))
       else Some (FB 0x63 1 (creg' 7 h) 0 (signed_take_bit 8 (gather b_tab h))))"
  unfolding expand_q1_def Let_def up_numerals
  by (simp add: rvc_simps del: gather.simps push_bit_and)

lemma misc_alu:
  "map_option decode_fmt (expand_misc_alu (up h)) =
     (let sx6 = signed_take_bit 5 (gather imm6_tab h) in
         if \<not> bit h 11 \<and> \<not> bit h 10 then Some (FI 0x13 5 (creg' 7 h) (creg' 7 h) (gather imm6_tab h))
         else if \<not> bit h 11 then Some (FI 0x13 5 (creg' 7 h) (creg' 7 h) (gather imm6_tab h OR 0x400))
         else if \<not> bit h 10 then Some (FI 0x13 7 (creg' 7 h) (creg' 7 h) sx6)
         else if \<not> bit h 12 then
           if \<not> bit h 6 \<and> \<not> bit h 5 then Some (FR 0x33 0 0x20 (creg' 7 h) (creg' 7 h) (creg' 2 h))
           else if \<not> bit h 6 then Some (FR 0x33 4 0 (creg' 7 h) (creg' 7 h) (creg' 2 h))
           else if \<not> bit h 5 then Some (FR 0x33 6 0 (creg' 7 h) (creg' 7 h) (creg' 2 h))
           else Some (FR 0x33 7 0 (creg' 7 h) (creg' 7 h) (creg' 2 h))
         else if \<not> bit h 6 \<and> \<not> bit h 5 then Some (FR 0x3B 0 0x20 (creg' 7 h) (creg' 7 h) (creg' 2 h))
         else if \<not> bit h 6 then Some (FR 0x3B 0 0 (creg' 7 h) (creg' 7 h) (creg' 2 h))
         else None)"
  unfolding expand_misc_alu_def Let_def
  by (simp add: rvc_simps del: gather.simps)

lemma mv_add:
  assumes "fits 5 s2" "fits 5 d" "fits 5 s1"
  shows "decode_fmt (push_bit 20 s2 OR push_bit 15 s1 OR push_bit 7 d OR 0x33) = FR 0x33 0 0 (ucast d) (ucast s1) (ucast s2)"
  using decode_r_type [OF assms(3) fits_numerals(1) assms(1,2) fits_numerals(12), where opc = "0x33"] by (simp add: r_type_def)

lemma ebreak: "decode_fmt 0x00100073 = FI 0x73 0 0 0 1"
  by (simp add: decode_fmt_def field_defs imm_defs)

lemma quadrant2:
  "map_option decode_fmt (expand_q2 (up f3) (up h)) =
      (if f3 = 0 then Some (FI 0x13 1 (creg 7 h) (creg 7 h) (gather imm6_tab h))
       else if f3 = 2 then if creg 7 h = 0 then None else Some (FI 0x03 2 (creg 7 h) 2 (gather lwsp_tab h))
       else if f3 = 3 then if creg 7 h = 0 then None else Some (FI 0x03 3 (creg 7 h) 2 (gather ldsp_tab h))
       else if f3 = 6 then Some (FS 0x23 2 2 (creg 2 h) (gather swsp_tab h))
       else if f3 = 7 then Some (FS 0x23 3 2 (creg 2 h) (gather sdsp_tab h))
       else if f3 = 4 then
         if \<not> bit h 12 then
           if creg 2 h = 0 then if creg 7 h = 0 then None else Some (FI 0x67 0 0 (creg 7 h) 0)
           else Some (FR 0x33 0 0 (creg 7 h) 0 (creg 2 h))
         else if creg 2 h = 0 then
           if creg 7 h = 0 then Some (FI 0x73 0 0 0 1) else Some (FI 0x67 0 1 (creg 7 h) 0)
         else Some (FR 0x33 0 0 (creg 7 h) (creg 7 h) (creg 2 h))
       else None)"
  unfolding expand_q2_def Let_def up_numerals
  by (simp add: rvc_simps mv_add [of "c_rs2 (up h)" "c_rd (up h)" 0, simplified] mv_add ebreak del: gather.simps)

text \<open>Property C8 (expand_agrees_with_manual): on every one of the 65536 halfwords, expanding a
  compressed instruction and reading the result with the base decoders gives exactly the
  instruction, registers and immediate the instruction set manual tabulates for it, and the
  expander refuses exactly the encodings the manual reserves or this machine lacks.\<close>

theorem expand_agrees_with_manual:
  "map_option decode_fmt (expand h) = rvc_spec h"
proof -
  have op: "take_bit 2 h = 0 \<or> take_bit 2 h = 1 \<or> take_bit 2 h = 2 \<or> take_bit 2 h = 3"
  proof -
    have "unat (take_bit 2 h) < 4"
      using take_bit_nat_less_exp [of 2 "unat h"] by (simp add: unsigned_take_bit_eq)
    then show ?thesis by (auto simp: word_unat_eq_iff)
  qed
  have ne: "(0 :: u16) \<noteq> 1" "(0 :: u16) \<noteq> 2" "(0 :: u16) \<noteq> 3" "(1 :: u16) \<noteq> 0" "(1 :: u16) \<noteq> 2" "(1 :: u16) \<noteq> 3"
    "(2 :: u16) \<noteq> 0" "(2 :: u16) \<noteq> 1" "(2 :: u16) \<noteq> 3" "(3 :: u16) \<noteq> 0" "(3 :: u16) \<noteq> 1" "(3 :: u16) \<noteq> 2"
    by simp_all
  from op show ?thesis
    unfolding expand_def rvc_spec_def Let_def quadrant group up_numerals
    by (elim disjE) (simp_all only: ne if_True if_False simp_thms quadrant0 quadrant1 quadrant2 misc_alu Let_def option.map)
qed

lemma expand_agrees_with_manual_witness:
  "map_option decode_fmt (expand 0xA001) = Some (FJ 0x6F 0 0)"
  unfolding expand_agrees_with_manual by (simp add: rvc_spec_def)

end
