(* ===== verification/Cpu.thy ===== *)
theory Cpu
  imports Insn
begin

text \<open>
  The hart (\<open>cpu.rs\<close>): registers, program counter, reservation, translated memory accesses,
  trap entry and return, interrupts. A method that takes the bus works on the pair of the hart
  and the bus. The console sink is a parameter, as in \<open>Devices\<close>.
\<close>

record cpu =
  regs :: "regno \<Rightarrow> u64"
  pc :: u64
  reservation :: "u64 option"
  insn_len :: u64
  instret :: u64
  csrs :: csrs
  priv_mode :: priv
  mmu :: mmu
  next_pc :: "u64 option"

type_synonym ('b, 's) machine = "cpu \<times> ('b, 's) bus"

definition cpu_new :: "u64 \<Rightarrow> cpu" where
  "cpu_new start =
     \<lparr>regs = (\<lambda>_. 0), pc = start, reservation = None, insn_len = 4, instret = 0, csrs = csrs_default,
      priv_mode = M, mmu = mmu_default, next_pc = None\<rparr>"

definition reg :: "regno \<Rightarrow> cpu \<Rightarrow> u64" where
  "reg i c = regs c i"

definition set_reg :: "regno \<Rightarrow> u64 \<Rightarrow> cpu \<Rightarrow> cpu" where
  "set_reg i v c = (if i \<noteq> 0 then c\<lparr>regs := (regs c)(i := v)\<rparr> else c)"

definition jump :: "u64 \<Rightarrow> cpu \<Rightarrow> cpu" where
  "jump target c = c\<lparr>next_pc := Some target\<rparr>"

definition write_csr :: "csr_addr \<Rightarrow> u64 \<Rightarrow> cpu \<Rightarrow> cpu" where
  "write_csr a v c = c\<lparr>csrs := csr_write a v (csrs c)\<rparr>"

text \<open>Lifting updates of the hart, operations of the bus and the translation to the machine.\<close>

definition on_cpu :: "(cpu \<Rightarrow> cpu) \<Rightarrow> (('b, 's) machine, 'e, unit) sm" where
  "on_cpu f = sm_modify (apfst f)"

definition on_bus :: "(('b, 's) bus, 'e, 'a) sm \<Rightarrow> (('b, 's) machine, 'e, 'a) sm" where
  "on_bus = sm_field snd (\<lambda>b m. (fst m, b))"

definition translate_with ::
  "'b backing_ops \<Rightarrow> u64 \<Rightarrow> access \<Rightarrow> (('b, 's) machine, exception, u64) sm" where
  "translate_with B va acc = (\<lambda>(c, b).
     case translate B (csrs c) (priv_mode c) va acc (mmu c, b) of (r, m, b') \<Rightarrow> (r, (c\<lparr>mmu := m\<rparr>, b')))"

section \<open>Translated accesses\<close>

definition invalidate_reservation :: "u64 \<Rightarrow> nat \<Rightarrow> cpu \<Rightarrow> cpu" where
  "invalidate_reservation addr sz c =
     (case reservation c of
        None \<Rightarrow> c
      | Some r \<Rightarrow>
          if addr < saturating_add r 8 \<and> r < saturating_add addr sz then c\<lparr>reservation := None\<rparr> else c)"

text \<open>The byte-at-a-time form for an access that straddles a page boundary: \<open>for i in 0..size\<close>
  with the eight-byte buffer.\<close>

fun read_bytewise ::
  "'b backing_ops \<Rightarrow> u64 \<Rightarrow> access \<Rightarrow> nat list \<Rightarrow> u8 list \<Rightarrow> (('b, 's) machine, exception, u64) sm" where
  "read_bytewise B va acc [] buf = sm_return (from_le buf)"
| "read_bytewise B va acc (i # is) buf =
     sm_bind (translate_with B (va + of_nat i) acc) (\<lambda>pa.
     sm_bind (on_bus (bus_load B pa 1)) (\<lambda>b.
     read_bytewise B va acc is (buf[i := ucast b])))"

definition read_translated ::
  "'b backing_ops \<Rightarrow> u64 \<Rightarrow> nat \<Rightarrow> access \<Rightarrow> (('b, 's) machine, exception, u64) sm" where
  "read_translated B va sz acc =
     (if unat (va AND 0xFFF) + sz \<le> PAGE then
        sm_bind (translate_with B va acc) (\<lambda>pa. on_bus (bus_load B pa sz))
      else read_bytewise B va acc [0..<sz] (replicate 8 0))"

definition store_at ::
  "'b backing_ops \<Rightarrow> (u8 \<Rightarrow> 's \<Rightarrow> 's) \<Rightarrow> u64 \<Rightarrow> nat \<Rightarrow> u64 \<Rightarrow> (('b, 's) machine, exception, unit) sm" where
  "store_at B put va sz v =
     sm_bind (translate_with B va Store) (\<lambda>pa.
     sm_bind (on_bus (bus_store B put pa sz v)) (\<lambda>_.
     on_cpu (invalidate_reservation pa sz)))"

definition write_translated ::
  "'b backing_ops \<Rightarrow> (u8 \<Rightarrow> 's \<Rightarrow> 's) \<Rightarrow> u64 \<Rightarrow> nat \<Rightarrow> u64 \<Rightarrow> (('b, 's) machine, exception, unit) sm" where
  "write_translated B put va sz v =
     (if unat (va AND 0xFFF) + sz \<le> PAGE then store_at B put va sz v
      else sm_for [0..<sz] (\<lambda>i. store_at B put (va + of_nat i) 1 (ucast (to_le 8 v ! i))))"

definition fetch :: "'b backing_ops \<Rightarrow> nat \<Rightarrow> (('b, 's) machine, exception, u64) sm" where
  "fetch B sz =
     sm_bind (sm_get (pc \<circ> fst)) (\<lambda>a.
     sm_map_err (\<lambda>e. case e of
         BackingFailure _ \<Rightarrow> e
       | InstructionPageFault _ \<Rightarrow> e
       | _ \<Rightarrow> InstructionAccessFault a)
       (read_translated B a sz Fetch))"

definition vload :: "'b backing_ops \<Rightarrow> u64 \<Rightarrow> nat \<Rightarrow> (('b, 's) machine, exception, u64) sm" where
  "vload B va sz = read_translated B va sz Load"

definition vstore ::
  "'b backing_ops \<Rightarrow> (u8 \<Rightarrow> 's \<Rightarrow> 's) \<Rightarrow> u64 \<Rightarrow> nat \<Rightarrow> u64 \<Rightarrow> (('b, 's) machine, exception, unit) sm" where
  "vstore B put va sz v = write_translated B put va sz v"

section \<open>Traps\<close>

definition flag :: "nat \<Rightarrow> u64" where
  "flag n = push_bit n 1"

definition field :: "nat \<Rightarrow> u64 \<Rightarrow> u64 \<Rightarrow> u64" where
  "field n m w = drop_bit n w AND m"

definition enter_trap :: "u64 \<Rightarrow> u64 \<Rightarrow> bool \<Rightarrow> cpu \<Rightarrow> cpu" where
  "enter_trap cause tval to_s c =
     (if to_s then
        let c = write_csr SEPC (pc c) c;
            c = write_csr SCAUSE cause c;
            c = write_csr STVAL tval c;
            status = csr_read MSTATUS (csrs c);
            sie = field 1 1 status;
            spp = priv_code (priv_mode c) AND 1;
            new = (status AND NOT (flag 1 OR flag 5 OR flag 8)) OR push_bit 5 sie OR push_bit 8 spp;
            c = write_csr MSTATUS new c;
            c = c\<lparr>priv_mode := S\<rparr>
        in c\<lparr>pc := csr_read STVEC (csrs c)\<rparr>
      else
        let c = write_csr MEPC (pc c) c;
            c = write_csr MCAUSE cause c;
            c = write_csr MTVAL tval c;
            status = csr_read MSTATUS (csrs c);
            mie = field 3 1 status;
            mpp = priv_code (priv_mode c);
            new = (status AND NOT (flag 3 OR flag 7 OR push_bit 11 3)) OR push_bit 7 mie OR push_bit 11 mpp;
            c = write_csr MSTATUS new c;
            c = c\<lparr>priv_mode := M\<rparr>
        in c\<lparr>pc := csr_read MTVEC (csrs c)\<rparr>)"

definition trap :: "exception \<Rightarrow> cpu \<Rightarrow> cpu" where
  "trap e c =
     (let cause = exc_cause e; deleg = csr_read MEDELEG (csrs c);
          to_s = priv_mode c \<noteq> M \<and> field (unat cause) 1 deleg = 1
      in enter_trap cause (exc_tval e) to_s c)"

definition interrupt_enabled :: "bool \<Rightarrow> cpu \<Rightarrow> bool" where
  "interrupt_enabled to_s c =
     (let status = csr_read MSTATUS (csrs c) in
      if to_s then (case priv_mode c of M \<Rightarrow> False | S \<Rightarrow> field 1 1 status = 1 | U \<Rightarrow> True)
      else priv_mode c \<noteq> M \<or> field 3 1 status = 1)"

abbreviation MTIP :: u64 where "MTIP \<equiv> 0x80"
abbreviation STIP :: u64 where "STIP \<equiv> 0x20"

text \<open>\<open>check_interrupts\<close> reads the bus and changes only the hart.\<close>

definition check_interrupts :: "('b, 's) bus \<Rightarrow> cpu \<Rightarrow> cpu" where
  "check_interrupts b c =
     (let mip = csr_read MIP (csrs c);
          mip = (if clint_pending (clint b) then mip OR (MTIP OR STIP) else mip AND NOT MTIP);
          c = write_csr MIP mip c
      in if mip AND MTIP \<noteq> 0 \<and> csr_read MIE (csrs c) AND MTIP \<noteq> 0 \<and> interrupt_enabled False c
         then enter_trap (int_cause MachineTimer) 0 False c
         else if mip AND STIP \<noteq> 0 \<and> csr_read MIE (csrs c) AND STIP \<noteq> 0 \<and> interrupt_enabled True c
         then enter_trap (int_cause SupervisorTimer) 0 True c
         else c)"

definition mret :: "cpu \<Rightarrow> cpu" where
  "mret c =
     (let status = csr_read MSTATUS (csrs c);
          mpp = field 11 3 status;
          mpie = field 7 1 status;
          new = (status AND NOT (flag 3 OR flag 7 OR push_bit 11 3)) OR push_bit 3 mpie OR flag 7;
          new = (if mpp \<noteq> priv_code M then new AND NOT (flag 17) else new);
          c = write_csr MSTATUS new c;
          c = c\<lparr>priv_mode := (if mpp = 0 then U else if mpp = 1 then S else M)\<rparr>
      in jump (csr_read MEPC (csrs c)) c)"

definition sret :: "cpu \<Rightarrow> cpu" where
  "sret c =
     (let status = csr_read MSTATUS (csrs c);
          spp = field 8 1 status;
          spie = field 5 1 status;
          new = (status AND NOT (flag 1 OR flag 5 OR flag 8)) OR push_bit 1 spie OR flag 5;
          c = write_csr MSTATUS new c;
          c = c\<lparr>priv_mode := (if spp = 1 then S else U)\<rparr>
      in jump (csr_read SEPC (csrs c)) c)"

end
