(* ===== verification/Exec.thy ===== *)
theory Exec
  imports Cpu
begin

text \<open>
  The three executors (\<open>insn/rv64m.rs\<close>, \<open>insn/rv64a.rs\<close>, \<open>insn/rv64i.rs\<close>), each of which
  answers whether it knew the instruction, and \<open>Cpu::step\<close>, which tries them in order. The
  values an instruction computes are functions of their operands; \<open>None\<close> is the arm that
  reports an illegal instruction.
\<close>

definition illegal :: "u32 \<Rightarrow> (('b, 's) machine, exception, 'a) sm" where
  "illegal insn = sm_err (IllegalInstruction (ucast insn))"

definition get_reg :: "regno \<Rightarrow> (('b, 's) machine, exception, u64) sm" where
  "get_reg i = sm_get (reg i \<circ> fst)"

text \<open>\<open>let v = ...; cpu.set_reg(rd, v); Ok(true)\<close>\<close>

definition finish :: "u32 \<Rightarrow> u64 option \<Rightarrow> (('b, 's) machine, exception, bool) sm" where
  "finish insn v =
     (case v of
        None \<Rightarrow> illegal insn
      | Some w \<Rightarrow> sm_bind (on_cpu (set_reg (rd insn) w)) (\<lambda>_. sm_return True))"

definition of_flag :: "bool \<Rightarrow> u64" where
  "of_flag b = (if b then 1 else 0)"

section \<open>The M extension\<close>

definition div_signed :: "'a::len word \<Rightarrow> 'a word \<Rightarrow> 'a word" where
  "div_signed a b =
     (if b = 0 then -1
      else if a = push_bit (LENGTH('a) - 1) 1 \<and> b = -1 then push_bit (LENGTH('a) - 1) 1
      else word_of_int (sint a sdiv sint b))"

definition rem_signed :: "'a::len word \<Rightarrow> 'a word \<Rightarrow> 'a word" where
  "rem_signed a b =
     (if b = 0 then a
      else if a = push_bit (LENGTH('a) - 1) 1 \<and> b = -1 then 0
      else word_of_int (sint a smod sint b))"

text \<open>The 32-bit twins.\<close>

definition div_signed_w :: "u32 \<Rightarrow> u32 \<Rightarrow> u32" where
  "div_signed_w = div_signed"

definition rem_signed_w :: "u32 \<Rightarrow> u32 \<Rightarrow> u32" where
  "rem_signed_w = rem_signed"

definition mul_op :: "u32 \<Rightarrow> u64 \<Rightarrow> u64 \<Rightarrow> u64 option" where
  "mul_op f3 a b =
     (if f3 = 0 then Some (a * b)
      else if f3 = 1 then Some (ucast (signed_drop_bit 64 ((scast a :: 128 word) * scast b)))
      else if f3 = 2 then Some (ucast (signed_drop_bit 64 ((scast a :: 128 word) * ucast b)))
      else if f3 = 3 then Some (ucast (drop_bit 64 ((ucast a :: 128 word) * ucast b)))
      else if f3 = 4 then Some (div_signed a b)
      else if f3 = 5 then Some (if b = 0 then -1 else a div b)
      else if f3 = 6 then Some (rem_signed a b)
      else if f3 = 7 then Some (if b = 0 then a else a mod b)
      else None)"

definition mul_op32 :: "u32 \<Rightarrow> u32 \<Rightarrow> u32 \<Rightarrow> u32 option" where
  "mul_op32 f3 a b =
     (if f3 = 0 then Some (a * b)
      else if f3 = 4 then Some (div_signed_w a b)
      else if f3 = 5 then Some (if b = 0 then -1 else a div b)
      else if f3 = 6 then Some (rem_signed_w a b)
      else if f3 = 7 then Some (if b = 0 then a else a mod b)
      else None)"

definition rv64m_execute :: "u32 \<Rightarrow> (('b, 's) machine, exception, bool) sm" where
  "rv64m_execute insn =
     (if funct7 insn \<noteq> 0x01 then sm_return False
      else sm_bind (get_reg (rs1 insn)) (\<lambda>a. sm_bind (get_reg (rs2 insn)) (\<lambda>b.
        if opcode insn = 0x33 then finish insn (mul_op (funct3 insn) a b)
        else if opcode insn = 0x3B
        then finish insn (map_option sext32 (mul_op32 (funct3 insn) (ucast a) (ucast b)))
        else sm_return False)))"

section \<open>The A extension\<close>

text \<open>\<open>ext\<close>: a 32-bit result is sign-extended.\<close>

definition amo_ext :: "nat \<Rightarrow> u64 \<Rightarrow> u64" where
  "amo_ext sz v = (if sz = 4 then sext32 (ucast v) else v)"

definition amo_new :: "u32 \<Rightarrow> nat \<Rightarrow> u64 \<Rightarrow> u64 \<Rightarrow> u64 option" where
  "amo_new op sz old src =
     (let sold = (if sz = 4 then sext32 (ucast old) else old);
          ssrc = (if sz = 4 then sext32 (ucast src) else src);
          uold = (if sz = 4 then ucast (ucast old :: u32) else old);
          usrc = (if sz = 4 then ucast (ucast src :: u32) else src)
      in if op = 0x00 then Some (old + src)
         else if op = 0x01 then Some src
         else if op = 0x04 then Some (old XOR src)
         else if op = 0x08 then Some (old OR src)
         else if op = 0x0C then Some (old AND src)
         else if op = 0x10 then Some (if sold <s ssrc then old else src)
         else if op = 0x14 then Some (if ssrc <s sold then old else src)
         else if op = 0x18 then Some (if uold < usrc then old else src)
         else if op = 0x1C then Some (if usrc < uold then old else src)
         else None)"

definition amo_size :: "u32 \<Rightarrow> nat option" where
  "amo_size insn = (if funct3 insn = 0x2 then Some 4 else if funct3 insn = 0x3 then Some 8 else None)"

definition exec_lr :: "'b backing_ops \<Rightarrow> u32 \<Rightarrow> nat \<Rightarrow> u64 \<Rightarrow> (('b, 's) machine, exception, unit) sm" where
  "exec_lr B insn sz addr =
     sm_bind (on_bus (bus_load B addr sz)) (\<lambda>v.
     on_cpu (\<lambda>c. set_reg (rd insn) (amo_ext sz v) (c\<lparr>reservation := Some addr\<rparr>)))"

definition exec_sc ::
  "'b backing_ops \<Rightarrow> (u8 \<Rightarrow> 's \<Rightarrow> 's) \<Rightarrow> u32 \<Rightarrow> nat \<Rightarrow> u64 \<Rightarrow> u64 \<Rightarrow> (('b, 's) machine, exception, unit) sm" where
  "exec_sc B put insn sz addr src =
     sm_bind (sm_get (\<lambda>m. reservation (fst m) = Some addr)) (\<lambda>success.
     sm_bind (on_cpu (\<lambda>c. c\<lparr>reservation := None\<rparr>)) (\<lambda>_.
     if success then
       sm_bind (on_bus (bus_store B put addr sz src)) (\<lambda>_. on_cpu (set_reg (rd insn) 0))
     else on_cpu (set_reg (rd insn) 1)))"

definition exec_amo ::
  "'b backing_ops \<Rightarrow> (u8 \<Rightarrow> 's \<Rightarrow> 's) \<Rightarrow> u32 \<Rightarrow> nat \<Rightarrow> u64 \<Rightarrow> u64 \<Rightarrow> (('b, 's) machine, exception, unit) sm" where
  "exec_amo B put insn sz addr src =
     sm_bind (on_bus (bus_load B addr sz)) (\<lambda>old.
     case amo_new (drop_bit 2 (funct7 insn)) sz old src of
       None \<Rightarrow> illegal insn
     | Some new \<Rightarrow>
         sm_bind (on_bus (bus_store B put addr sz new)) (\<lambda>_.
         on_cpu (\<lambda>c. set_reg (rd insn) (amo_ext sz old) (invalidate_reservation addr sz c))))"

definition rv64a_execute ::
  "'b backing_ops \<Rightarrow> (u8 \<Rightarrow> 's \<Rightarrow> 's) \<Rightarrow> u32 \<Rightarrow> (('b, 's) machine, exception, bool) sm" where
  "rv64a_execute B put insn =
     (if opcode insn \<noteq> 0x2F then sm_return False
      else case amo_size insn of
        None \<Rightarrow> illegal insn
      | Some sz \<Rightarrow>
          sm_bind (get_reg (rs1 insn)) (\<lambda>vaddr. sm_bind (get_reg (rs2 insn)) (\<lambda>src.
          sm_bind (translate_with B vaddr Store) (\<lambda>addr.
          let op = drop_bit 2 (funct7 insn) in
          sm_bind
            (if op = 0x02 then exec_lr B insn sz addr
             else if op = 0x03 then exec_sc B put insn sz addr src
             else exec_amo B put insn sz addr src)
            (\<lambda>_. sm_return True)))))"

section \<open>The base instruction set\<close>

definition op_imm :: "u32 \<Rightarrow> u64 \<Rightarrow> u64 option" where
  "op_imm insn a =
     (let imm = imm_i insn; shamt = unat (drop_bit 20 insn AND 0x3F); f3 = funct3 insn in
      if f3 = 0x0 then Some (a + imm)
      else if f3 = 0x1 then Some (push_bit shamt a)
      else if f3 = 0x2 then Some (of_flag (a <s imm))
      else if f3 = 0x3 then Some (of_flag (a < imm))
      else if f3 = 0x4 then Some (a XOR imm)
      else if f3 = 0x5 \<and> funct7 insn AND 0x20 = 0 then Some (drop_bit shamt a)
      else if f3 = 0x5 then Some (signed_drop_bit shamt a)
      else if f3 = 0x6 then Some (a OR imm)
      else if f3 = 0x7 then Some (a AND imm)
      else None)"

definition op_imm32 :: "u32 \<Rightarrow> u32 \<Rightarrow> u32 option" where
  "op_imm32 insn a =
     (let imm = ucast (imm_i insn); shamt = unat (drop_bit 20 insn AND 0x1F); f3 = funct3 insn in
      if f3 = 0x0 then Some (a + imm)
      else if f3 = 0x1 then Some (push_bit shamt a)
      else if f3 = 0x5 \<and> funct7 insn AND 0x20 = 0 then Some (drop_bit shamt a)
      else if f3 = 0x5 then Some (signed_drop_bit shamt a)
      else None)"

definition op_reg :: "u32 \<Rightarrow> u64 \<Rightarrow> u64 \<Rightarrow> u64 option" where
  "op_reg insn a b =
     (let shamt = unat (b AND 0x3F); f3 = funct3 insn; f7 = funct7 insn in
      if f3 = 0x0 \<and> f7 = 0x00 then Some (a + b)
      else if f3 = 0x0 \<and> f7 = 0x20 then Some (a - b)
      else if f3 = 0x1 then Some (push_bit shamt a)
      else if f3 = 0x2 then Some (of_flag (a <s b))
      else if f3 = 0x3 then Some (of_flag (a < b))
      else if f3 = 0x4 then Some (a XOR b)
      else if f3 = 0x5 \<and> f7 = 0x00 then Some (drop_bit shamt a)
      else if f3 = 0x5 \<and> f7 = 0x20 then Some (signed_drop_bit shamt a)
      else if f3 = 0x6 then Some (a OR b)
      else if f3 = 0x7 then Some (a AND b)
      else None)"

definition op_reg32 :: "u32 \<Rightarrow> u32 \<Rightarrow> u32 \<Rightarrow> u32 option" where
  "op_reg32 insn a b =
     (let shamt = unat (b AND 0x1F); f3 = funct3 insn; f7 = funct7 insn in
      if f3 = 0x0 \<and> f7 = 0x00 then Some (a + b)
      else if f3 = 0x0 \<and> f7 = 0x20 then Some (a - b)
      else if f3 = 0x1 then Some (push_bit shamt a)
      else if f3 = 0x5 \<and> f7 = 0x00 then Some (drop_bit shamt a)
      else if f3 = 0x5 \<and> f7 = 0x20 then Some (signed_drop_bit shamt a)
      else None)"

text \<open>The width and the extension of a load, by \<open>funct3\<close>; the width of a store.\<close>

definition load_kind :: "u32 \<Rightarrow> (nat \<times> (u64 \<Rightarrow> u64)) option" where
  "load_kind f3 =
     (if f3 = 0x0 then Some (1, \<lambda>v. scast (ucast v :: u8))
      else if f3 = 0x1 then Some (2, \<lambda>v. scast (ucast v :: u16))
      else if f3 = 0x2 then Some (4, \<lambda>v. scast (ucast v :: u32))
      else if f3 = 0x3 then Some (8, \<lambda>v. v)
      else if f3 = 0x4 then Some (1, \<lambda>v. v)
      else if f3 = 0x5 then Some (2, \<lambda>v. v)
      else if f3 = 0x6 then Some (4, \<lambda>v. v)
      else None)"

definition store_size :: "u32 \<Rightarrow> nat option" where
  "store_size f3 =
     (if f3 = 0x0 then Some 1 else if f3 = 0x1 then Some 2 else if f3 = 0x2 then Some 4
      else if f3 = 0x3 then Some 8 else None)"

definition exec_load :: "'b backing_ops \<Rightarrow> u32 \<Rightarrow> (('b, 's) machine, exception, bool) sm" where
  "exec_load B insn =
     sm_bind (get_reg (rs1 insn)) (\<lambda>a.
     case load_kind (funct3 insn) of
       None \<Rightarrow> illegal insn
     | Some (sz, ext) \<Rightarrow>
         sm_bind (vload B (a + imm_i insn) sz) (\<lambda>v. finish insn (Some (ext v))))"

definition exec_store ::
  "'b backing_ops \<Rightarrow> (u8 \<Rightarrow> 's \<Rightarrow> 's) \<Rightarrow> u32 \<Rightarrow> (('b, 's) machine, exception, bool) sm" where
  "exec_store B put insn =
     sm_bind (get_reg (rs1 insn)) (\<lambda>a. sm_bind (get_reg (rs2 insn)) (\<lambda>v.
     case store_size (funct3 insn) of
       None \<Rightarrow> illegal insn
     | Some sz \<Rightarrow> sm_bind (vstore B put (a + imm_s insn) sz v) (\<lambda>_. sm_return True)))"

definition branch_taken :: "u32 \<Rightarrow> u64 \<Rightarrow> u64 \<Rightarrow> bool option" where
  "branch_taken f3 a b =
     (if f3 = 0x0 then Some (a = b)
      else if f3 = 0x1 then Some (a \<noteq> b)
      else if f3 = 0x4 then Some (a <s b)
      else if f3 = 0x5 then Some (b \<le>s a)
      else if f3 = 0x6 then Some (a < b)
      else if f3 = 0x7 then Some (b \<le> a)
      else None)"

definition exec_branch :: "u32 \<Rightarrow> (('b, 's) machine, exception, bool) sm" where
  "exec_branch insn =
     sm_bind (get_reg (rs1 insn)) (\<lambda>a. sm_bind (get_reg (rs2 insn)) (\<lambda>b.
     case branch_taken (funct3 insn) a b of
       None \<Rightarrow> illegal insn
     | Some taken \<Rightarrow>
         sm_bind (if taken then on_cpu (\<lambda>c. jump (pc c + imm_b insn) c) else sm_return ()) (\<lambda>_.
         sm_return True)))"

definition exec_jal :: "u32 \<Rightarrow> cpu \<Rightarrow> cpu" where
  "exec_jal insn c =
     (let ret = pc c + insn_len c in set_reg (rd insn) ret (jump (pc c + imm_j insn) c))"

definition exec_jalr :: "u32 \<Rightarrow> cpu \<Rightarrow> cpu" where
  "exec_jalr insn c =
     (let ret = pc c + insn_len c; target = (reg (rs1 insn) c + imm_i insn) AND NOT 1
      in set_reg (rd insn) ret (jump target c))"

section \<open>SYSTEM\<close>

fun ecall_exception :: "priv \<Rightarrow> exception" where
  "ecall_exception U = EnvironmentCallFromUMode"
| "ecall_exception S = EnvironmentCallFromSMode"
| "ecall_exception M = EnvironmentCallFromMMode"

definition flush_tlb :: "cpu \<Rightarrow> cpu" where
  "flush_tlb c = c\<lparr>mmu := mmu_flush (mmu c)\<rparr>"

definition exec_priv :: "u32 \<Rightarrow> (('b, 's) machine, exception, bool) sm" where
  "exec_priv insn =
     sm_bind (sm_get (priv_mode \<circ> fst)) (\<lambda>p.
     let f = drop_bit 20 insn; run = (\<lambda>g. sm_bind (on_cpu g) (\<lambda>_. sm_return True)) in
     if f = 0x000 then sm_err (ecall_exception p)
     else if f = 0x001 then sm_err Breakpoint
     else if f = 0x302 \<and> p = M then run mret
     else if f = 0x102 \<and> p \<noteq> U then run sret
     else if f = 0x105 then sm_return True
     else if drop_bit 25 insn = 0x09 \<and> p \<noteq> U then run flush_tlb
     else illegal insn)"

text \<open>The old value of a CSR: the counters live outside the register file.\<close>

definition csr_old :: "csr_addr \<Rightarrow> ('b, 's) machine \<Rightarrow> u64" where
  "csr_old a m =
     (if a = TIME then mtime (clint (snd m))
      else if a = CYCLE \<or> a = INSTRET then instret (fst m)
      else csr_read a (csrs (fst m)))"

definition csr_new :: "u32 \<Rightarrow> u64 \<Rightarrow> u64 \<Rightarrow> u64 option" where
  "csr_new f old src =
     (if f AND 3 = 1 then Some src
      else if f AND 3 = 2 then Some (old OR src)
      else if f AND 3 = 3 then Some (old AND NOT src)
      else None)"

definition csr_writes :: "u32 \<Rightarrow> bool" where
  "csr_writes insn \<longleftrightarrow> \<not> (funct3 insn AND 3 \<noteq> 1 \<and> rs1 insn = 0)"

definition exec_csr :: "u32 \<Rightarrow> (('b, 's) machine, exception, bool) sm" where
  "exec_csr insn =
     (let a = ucast (drop_bit 20 insn AND 0xFFF) :: csr_addr; f = funct3 insn; writes = csr_writes insn in
     sm_bind (sm_get (priv_mode \<circ> fst)) (\<lambda>p.
     if unat (priv_code p) < unat (csr_level a) then illegal insn
     else if drop_bit 10 a = 3 \<and> writes then illegal insn
     else
       sm_bind (sm_get (csr_old a)) (\<lambda>old.
       sm_bind (if f AND 4 \<noteq> 0 then sm_return (ucast (rs1 insn)) else get_reg (rs1 insn)) (\<lambda>src.
       case csr_new f old src of
         None \<Rightarrow> illegal insn
       | Some new \<Rightarrow>
           sm_bind
             (if writes then on_cpu (\<lambda>c. let c = write_csr a new c in if a = SATP then flush_tlb c else c)
              else sm_return ())
             (\<lambda>_. finish insn (Some old))))))"

definition rv64i_execute ::
  "'b backing_ops \<Rightarrow> (u8 \<Rightarrow> 's \<Rightarrow> 's) \<Rightarrow> u32 \<Rightarrow> (('b, 's) machine, exception, bool) sm" where
  "rv64i_execute B put insn =
     (let op = opcode insn in
      if op = 0x37 then finish insn (Some (imm_u insn))
      else if op = 0x17 then sm_bind (sm_get (pc \<circ> fst)) (\<lambda>a. finish insn (Some (a + imm_u insn)))
      else if op = 0x13 then sm_bind (get_reg (rs1 insn)) (\<lambda>a. finish insn (op_imm insn a))
      else if op = 0x1B then
        sm_bind (get_reg (rs1 insn)) (\<lambda>a. finish insn (map_option sext32 (op_imm32 insn (ucast a))))
      else if op = 0x33 then
        sm_bind (get_reg (rs1 insn)) (\<lambda>a. sm_bind (get_reg (rs2 insn)) (\<lambda>b. finish insn (op_reg insn a b)))
      else if op = 0x3B then
        sm_bind (get_reg (rs1 insn)) (\<lambda>a. sm_bind (get_reg (rs2 insn)) (\<lambda>b.
          finish insn (map_option sext32 (op_reg32 insn (ucast a) (ucast b)))))
      else if op = 0x03 then exec_load B insn
      else if op = 0x23 then exec_store B put insn
      else if op = 0x63 then exec_branch insn
      else if op = 0x6F then sm_bind (on_cpu (exec_jal insn)) (\<lambda>_. sm_return True)
      else if op = 0x67 then sm_bind (on_cpu (exec_jalr insn)) (\<lambda>_. sm_return True)
      else if op = 0x0F then if funct3 insn = 0 \<or> funct3 insn = 1 then sm_return True else illegal insn
      else if op = 0x73 then if funct3 insn = 0 then exec_priv insn else exec_csr insn
      else sm_return False)"

section \<open>One step\<close>

text \<open>\<open>a()? || b()?\<close>\<close>

definition or_else :: "('s, 'e, bool) sm \<Rightarrow> ('s, 'e, bool) sm \<Rightarrow> ('s, 'e, bool) sm" where
  "or_else m n = sm_bind m (\<lambda>h. if h then sm_return True else n)"

definition execute ::
  "'b backing_ops \<Rightarrow> (u8 \<Rightarrow> 's \<Rightarrow> 's) \<Rightarrow> u32 \<Rightarrow> (('b, 's) machine, exception, bool) sm" where
  "execute B put insn =
     or_else (or_else (rv64m_execute insn) (rv64a_execute B put insn)) (rv64i_execute B put insn)"

definition fetch_insn :: "'b backing_ops \<Rightarrow> (('b, 's) machine, exception, u32 \<times> u64) sm" where
  "fetch_insn B =
     sm_bind (fetch B 2) (\<lambda>w. let half = ucast w :: u16 in
     if half AND 3 = 3 then sm_bind (fetch B 4) (\<lambda>w. sm_return (ucast w, 4))
     else case expand half of
       None \<Rightarrow> sm_err (IllegalInstruction (ucast half))
     | Some e \<Rightarrow> sm_return (e, 2))"

definition retire :: "u64 \<Rightarrow> cpu \<Rightarrow> cpu" where
  "retire len c =
     c\<lparr>pc := (case next_pc c of Some t \<Rightarrow> t | None \<Rightarrow> pc c + len), next_pc := None, instret := instret c + 1\<rparr>"

definition step :: "'b backing_ops \<Rightarrow> (u8 \<Rightarrow> 's \<Rightarrow> 's) \<Rightarrow> (('b, 's) machine, exception, unit) sm" where
  "step B put =
     sm_bind (fetch_insn B) (\<lambda>(insn, len).
     sm_bind (on_cpu (\<lambda>c. c\<lparr>insn_len := len, next_pc := None\<rparr>)) (\<lambda>_.
     sm_bind (execute B put insn) (\<lambda>handled.
     if \<not> handled then illegal insn else on_cpu (retire len))))"

end
