(* ===== verification/Arith.thy ===== *)
theory Arith
  imports Exec
begin

text \<open>
  What the M extension computes, in integer arithmetic: the quotient and remainder of the signed
  divisions at both widths, with the two cases the instruction set defines instead of trapping,
  and the high halves of the products.
\<close>

section \<open>Signed division\<close>

lemma sint_of_int:
  assumes "- (2 ^ (LENGTH('a) - 1)) \<le> k" and "k < 2 ^ (LENGTH('a) - 1)"
  shows "sint (word_of_int k :: 'a::len word) = k"
  using signed_take_bit_int_eq_self [of "LENGTH('a) - 1" k] assms by (simp add: signed_of_int)

lemma min_word: "(push_bit (LENGTH('a) - 1) 1 :: 'a::len word) = word_of_int (- (2 ^ (LENGTH('a) - 1)))"
proof -
  have "(2 :: 'a word) ^ (LENGTH('a) - 1) + 2 ^ (LENGTH('a) - 1) = 2 ^ LENGTH('a)"
    by (cases "LENGTH('a)") simp_all
  then have "(2 :: 'a word) ^ (LENGTH('a) - 1) = - (2 ^ (LENGTH('a) - 1))"
    by (simp add: eq_neg_iff_add_eq_0)
  then show ?thesis by (simp add: push_bit_of_1)
qed

lemma sint_min: "sint (push_bit (LENGTH('a) - 1) 1 :: 'a::len word) = - (2 ^ (LENGTH('a) - 1))"
  unfolding min_word by (rule sint_of_int) simp_all

definition div_overflows :: "'a::len word \<Rightarrow> 'a word \<Rightarrow> bool" where
  "div_overflows a b \<longleftrightarrow> a = push_bit (LENGTH('a) - 1) 1 \<and> b = -1"

lemma abs_sdiv: "\<bar>x sdiv y\<bar> = \<bar>x\<bar> div \<bar>y\<bar>" for x y :: int
  by (auto simp: signed_divide_int_def abs_mult abs_sgn_eq div_int_pos_iff)

lemma sdiv_range:
  fixes x y :: int
  assumes "- k \<le> x" "x < k" "y \<noteq> 0" "\<not> (x = - k \<and> y = - 1)"
  shows "- k \<le> x sdiv y \<and> x sdiv y < k"
proof -
  consider "y = 1" | "y = - 1" | "2 \<le> \<bar>y\<bar>" using assms(3) by linarith
  then show ?thesis
  proof cases
    case 3
    then have "\<bar>x\<bar> div \<bar>y\<bar> \<le> \<bar>x\<bar> div 2" by (simp add: zdiv_mono2)
    then have "\<bar>x sdiv y\<bar> \<le> \<bar>x\<bar> div 2" by (simp add: abs_sdiv)
    with assms(1,2) show ?thesis by linarith
  qed (use assms in auto)
qed

lemma sint_nonzero: "b \<noteq> 0 \<Longrightarrow> sint b \<noteq> 0"
  by (simp add: signed_eq_0_iff)

lemma twice_min: "(2 :: 'a::len word) * 2 ^ (LENGTH('a) - Suc 0) = 0"
  by (cases "LENGTH('a)") (simp_all flip: power_Suc)

lemma sint_quotient:
  fixes a b :: "'a::len word"
  assumes "b \<noteq> 0" and "\<not> div_overflows a b"
  shows "sint (word_of_int (sint a sdiv sint b) :: 'a word) = sint a sdiv sint b"
proof (rule sint_of_int)
  have "\<not> (sint a = - (2 ^ (LENGTH('a) - 1)) \<and> sint b = - 1)"
  proof
    assume o: "sint a = - (2 ^ (LENGTH('a) - 1)) \<and> sint b = - 1"
    then have "sint a = sint (push_bit (LENGTH('a) - 1) 1 :: 'a word)" "sint b = sint (- 1 :: 'a word)"
      by (simp_all only: sint_min signed_minus_1)
    then have "a = push_bit (LENGTH('a) - 1) 1" "b = - 1" by (blast intro: signed_word_eqI)+
    with assms(2) show False by (simp add: div_overflows_def)
  qed
  moreover have "sint b \<noteq> 0" using assms(1) by (rule sint_nonzero)
  ultimately show "- (2 ^ (LENGTH('a) - 1)) \<le> sint a sdiv sint b" "sint a sdiv sint b < 2 ^ (LENGTH('a) - 1)"
    using sdiv_range [OF sint_ge [of a] sint_lt [of a], of "sint b"] by auto
qed

lemma smod_bounds: "y \<noteq> 0 \<Longrightarrow> \<bar>x smod y\<bar> < \<bar>y\<bar> \<and> \<bar>x smod y\<bar> \<le> \<bar>x\<bar>" for x y :: int
proof -
  assume y: "y \<noteq> 0"
  have "\<bar>x smod y\<bar> = \<bar>x\<bar> mod \<bar>y\<bar>"
    using y by (auto simp: signed_modulo_int_def abs_mult abs_sgn_eq)
  then show ?thesis using y pos_mod_bound [of "\<bar>y\<bar>" "\<bar>x\<bar>"] zmod_le_nonneg_dividend [of "\<bar>x\<bar>" "\<bar>y\<bar>"] by simp
qed

lemma sgn_smod: "x smod y = 0 \<or> sgn (x smod y) = sgn x" for x y :: int
proof (cases "y = 0")
  case False
  then have "0 \<le> \<bar>x\<bar> mod \<bar>y\<bar>" by simp
  then show ?thesis unfolding smod_int_alt_def
    by (cases "\<bar>x\<bar> mod \<bar>y\<bar> = 0") (auto simp: sgn_mult sgn_if)
qed simp

lemma sint_remainder:
  fixes a b :: "'a::len word"
  assumes "b \<noteq> 0"
  shows "sint (word_of_int (sint a smod sint b) :: 'a word) = sint a smod sint b"
proof (rule sint_of_int)
  have "\<bar>sint a smod sint b\<bar> < \<bar>sint b\<bar>" using smod_bounds [OF sint_nonzero [OF assms], of "sint a"] by simp
  moreover have "\<bar>sint b\<bar> \<le> 2 ^ (LENGTH('a) - 1)" using sint_ge [of b] sint_lt [of b] by linarith
  ultimately show "- (2 ^ (LENGTH('a) - 1)) \<le> sint a smod sint b" "sint a smod sint b < 2 ^ (LENGTH('a) - 1)"
    by linarith+
qed

lemma quotient_remainder: "div_signed a b * b + rem_signed a b = a" for a b :: "'a::len word"
proof -
  have "word_of_int (sint a sdiv sint b) * b + word_of_int (sint a smod sint b) = a"
    using arg_cong [OF sdiv_mult_smod_eq [of "sint a" "sint b"], of "word_of_int :: int \<Rightarrow> 'a word"] by simp
  then show ?thesis using twice_min [where ?'a = 'a] by (auto simp: div_signed_def rem_signed_def mult.commute)
qed

text \<open>Signed division and remainder at both widths are those of the
  instruction set: quotient times divisor plus remainder gives the dividend in every case; dividing
  by zero gives all ones and the dividend; the overflowing quotient wraps to itself with remainder
  zero; in every other case the quotient is the integer quotient rounded toward zero, and the
  remainder is smaller than the divisor and takes the sign of the dividend.\<close>

theorem division_is_total:
  fixes a b :: "'a::len word"
  shows "div_signed a b * b + rem_signed a b = a \<and>
    (if b = 0 then div_signed a b = - 1 \<and> rem_signed a b = a
     else if div_overflows a b then div_signed a b = a \<and> rem_signed a b = 0
     else sint (div_signed a b) = sint a sdiv sint b \<and> \<bar>sint (rem_signed a b)\<bar> < \<bar>sint b\<bar> \<and>
       (sint (rem_signed a b) = 0 \<or> sgn (sint (rem_signed a b)) = sgn (sint a)))"
proof (intro conjI)
  show "div_signed a b * b + rem_signed a b = a" by (rule quotient_remainder)
  show "if b = 0 then div_signed a b = - 1 \<and> rem_signed a b = a
     else if div_overflows a b then div_signed a b = a \<and> rem_signed a b = 0
     else sint (div_signed a b) = sint a sdiv sint b \<and> \<bar>sint (rem_signed a b)\<bar> < \<bar>sint b\<bar> \<and>
       (sint (rem_signed a b) = 0 \<or> sgn (sint (rem_signed a b)) = sgn (sint a))"
  proof (cases "b = 0 \<or> div_overflows a b")
    case True
    then show ?thesis
      by (elim disjE) (simp_all add: div_signed_def rem_signed_def div_overflows_def)
  next
    case False
    then have "div_signed a b = word_of_int (sint a sdiv sint b)" "rem_signed a b = word_of_int (sint a smod sint b)"
      by (auto simp: div_signed_def rem_signed_def div_overflows_def)
    with False show ?thesis
      using sint_quotient [of b a] sint_remainder [of b a] smod_bounds [OF sint_nonzero [of b], of "sint a"]
        sgn_smod [of "sint a" "sint b"]
      by simp
  qed
qed

lemma division_is_total_witness:
  "div_signed (- 7 :: u64) 2 * 2 + rem_signed (- 7) 2 = - 7 \<and> sint (div_signed (- 7 :: u64) 2) = - 3"
  using division_is_total [of "- 7 :: u64" 2] by (simp add: div_overflows_def)

section \<open>High halves of products\<close>

lemma ucast_down_sint: "(ucast w :: u64) = word_of_int (sint w)" for w :: "128 word"
  by (rule bit_word_eqI) (auto simp: bit_unsigned_iff bit_signed_iff bit_word_of_int_iff)

lemma signed_128:
  fixes x y :: int
  assumes "- (2 ^ 127) \<le> x * y" and "x * y < 2 ^ 127"
  shows "x * y = sint (ucast (signed_drop_bit 64 (word_of_int x * word_of_int y :: 128 word)) :: u64) * 2 ^ 64 +
    uint (word_of_int x * word_of_int y :: u64)"
proof -
  let ?p = "x * y"
  have p: "sint (word_of_int ?p :: 128 word) = ?p" by (rule sint_of_int) (use assms in simp_all)
  have h: "- (2 ^ 63) \<le> ?p div 2 ^ 64" "?p div 2 ^ 64 < 2 ^ 63"
    using zdiv_mono1 [OF assms(1), of "2 ^ 64"] zdiv_mono1 [of ?p "2 ^ 127 - 1" "2 ^ 64"] assms(2) by simp_all
  have "sint (signed_drop_bit 64 (word_of_int ?p :: 128 word)) = ?p div 2 ^ 64"
    by (simp only: sint_signed_drop_bit_eq p drop_bit_eq_div)
  then have "ucast (signed_drop_bit 64 (word_of_int ?p :: 128 word)) = (word_of_int (?p div 2 ^ 64) :: u64)"
    by (simp only: ucast_down_sint)
  then have "sint (ucast (signed_drop_bit 64 (word_of_int ?p :: 128 word)) :: u64) = ?p div 2 ^ 64"
    using sint_of_int [of "?p div 2 ^ 64", where ?'a = 64] h by simp
  moreover have "uint (word_of_int ?p :: u64) = ?p mod 2 ^ 64"
    by (simp add: unsigned_of_int take_bit_eq_mod del: of_int_mult)
  ultimately show ?thesis by (simp flip: of_int_mult)
qed

lemma unsigned_128:
  "uint a * uint b = uint (ucast (drop_bit 64 ((ucast a :: 128 word) * ucast b)) :: u64) * 2 ^ 64 + uint (a * b)"
  for a b :: u64
proof -
  let ?p = "uint a * uint b"
  have "?p \<le> (2 ^ 64 - 1) * (2 ^ 64 - 1)"
    by (rule mult_mono) (use uint_bounded [of a] uint_bounded [of b] in simp_all)
  then have p: "?p < 2 ^ 128" by simp
  have t: "take_bit 128 (uint x) = uint x" for x :: u64
    by (rule take_bit_int_eq_self) (use uint_bounded [of x] in simp_all)
  have w: "uint ((ucast a :: 128 word) * ucast b) = ?p"
    using p by (simp add: uint_word_ariths unsigned_ucast_eq t)
  have "uint (drop_bit 64 ((ucast a :: 128 word) * ucast b)) = ?p div 2 ^ 64"
    by (simp only: unsigned_drop_bit_eq w) (use p in \<open>simp add: drop_bit_eq_div take_bit_eq_mod mod_pos_pos_trivial\<close>)
  moreover have "?p div 2 ^ 64 < 2 ^ 64"
    using zdiv_mono1 [of ?p "2 ^ 128 - 1" "2 ^ 64"] p by simp
  ultimately show ?thesis
    by (simp add: unsigned_ucast_eq take_bit_eq_mod uint_word_ariths mod_pos_pos_trivial pos_imp_zdiv_nonneg_iff)
qed

text \<open>The three high multiplications return the upper 64 bits of the
  exact 128-bit product of their operands, signed, signed by unsigned, and unsigned; together with
  MUL they give the whole product.\<close>

theorem mulh_gives_high_half:
  "(\<exists>h. mul_op 1 a b = Some h \<and> sint a * sint b = sint h * 2 ^ 64 + uint (a * b)) \<and>
   (\<exists>h. mul_op 2 a b = Some h \<and> sint a * uint b = sint h * 2 ^ 64 + uint (a * b)) \<and>
   (\<exists>h. mul_op 3 a b = Some h \<and> uint a * uint b = uint h * 2 ^ 64 + uint (a * b))"
proof (intro conjI)
  have sa: "- (2 ^ 63) \<le> sint a" "sint a \<le> 2 ^ 63 - 1" for a :: u64
    using sint_ge [of a] sint_lt [of a] by simp_all
  have ss: "\<bar>sint a * sint b\<bar> \<le> 2 ^ 63 * 2 ^ 63"
    unfolding abs_mult by (rule mult_mono) (use sa [of a] sa [of b] in simp_all)
  have su: "\<bar>sint a * uint b\<bar> \<le> 2 ^ 63 * (2 ^ 64 - 1)"
    unfolding abs_mult by (rule mult_mono) (use sa [of a] uint_bounded [of b] in simp_all)
  show "\<exists>h. mul_op 1 a b = Some h \<and> sint a * sint b = sint h * 2 ^ 64 + uint (a * b)"
    using signed_128 [of "sint a" "sint b"] ss by (simp add: mul_op_def)
  show "\<exists>h. mul_op 2 a b = Some h \<and> sint a * uint b = sint h * 2 ^ 64 + uint (a * b)"
    using signed_128 [of "sint a" "uint b"] su by (simp add: mul_op_def)
  show "\<exists>h. mul_op 3 a b = Some h \<and> uint a * uint b = uint h * 2 ^ 64 + uint (a * b)"
    using unsigned_128 [of a b] by (simp add: mul_op_def)
qed

end
