(* ===== verification/Hart_Inv.thy ===== *)
theory Hart_Inv
  imports Exec
begin

text \<open>
  What one step of the hart keeps. \<open>intact\<close> says that nothing architectural has changed since a
  snapshot, which holds on every path that ends in an exception: that is what makes exceptions
  precise. \<open>advanced\<close> is what an instruction that completes may do: the register file stays a
  register file, and a guest below machine mode stays below it and inside its share of the CSRs.
\<close>

section \<open>Invariants\<close>

definition hart_ok :: "cpu \<Rightarrow> bool" where
  "hart_ok c \<longleftrightarrow> csr_ok (csrs c) \<and> regs c 0 = 0 \<and> length (tlb (mmu c)) = TLB_ENTRIES"

definition same_arch :: "cpu \<Rightarrow> cpu \<Rightarrow> bool" where
  "same_arch c0 c \<longleftrightarrow> regs c = regs c0 \<and> pc c = pc c0 \<and> instret c = instret c0 \<and> csrs c = csrs c0 \<and>
     priv_mode c = priv_mode c0 \<and> length (tlb (mmu c)) = length (tlb (mmu c0))"

text \<open>The supervisor's reach: \<open>n\<close> is what \<open>m\<close> may become from S-mode.\<close>

definition supervisor_reach :: "csrs \<Rightarrow> csrs \<Rightarrow> bool" where
  "supervisor_reach m n \<longleftrightarrow>
     (\<forall>a. csr_level a = 3 \<longrightarrow> a \<noteq> MSTATUS \<longrightarrow> a \<noteq> MIE \<longrightarrow> a \<noteq> MIP \<longrightarrow> csr_regs n a = csr_regs m a) \<and>
     csr_regs n MSTATUS AND NOT SSTATUS_MASK = csr_regs m MSTATUS AND NOT SSTATUS_MASK \<and>
     csr_regs n MIE AND NOT (csr_regs m MIDELEG) = csr_regs m MIE AND NOT (csr_regs m MIDELEG) \<and>
     csr_regs n MIP AND NOT (csr_regs m MIDELEG) = csr_regs m MIP AND NOT (csr_regs m MIDELEG)"

definition user_reach :: "csrs \<Rightarrow> csrs \<Rightarrow> bool" where
  "user_reach m n \<longleftrightarrow> (\<forall>a. csr_level a \<noteq> 0 \<longrightarrow> csr_regs n a = csr_regs m a)"

definition confined :: "cpu \<Rightarrow> cpu \<Rightarrow> bool" where
  "confined c0 c \<longleftrightarrow>
     (priv_mode c0 = U \<longrightarrow> priv_mode c = U \<and> user_reach (csrs c0) (csrs c)) \<and>
     (priv_mode c0 = S \<longrightarrow> priv_mode c \<noteq> M \<and> supervisor_reach (csrs c0) (csrs c))"

definition advanced :: "cpu \<Rightarrow> cpu \<Rightarrow> bool" where
  "advanced c0 c \<longleftrightarrow> hart_ok c \<and> pc c = pc c0 \<and> instret c = instret c0 \<and> confined c0 c"

lemma same_arch_refl [simp]: "same_arch c c"
  by (simp add: same_arch_def)

lemma reach_refl [simp]: "supervisor_reach m m" "user_reach m m"
  by (simp_all add: supervisor_reach_def user_reach_def)

lemma same_arch_advanced: "hart_ok c0 \<Longrightarrow> same_arch c0 c \<Longrightarrow> advanced c0 c"
  by (auto simp: hart_ok_def same_arch_def advanced_def confined_def)

section \<open>Updates of the hart\<close>

lemma level_facts:
  "csr_level SSTATUS = 1" "csr_level SIE = 1" "csr_level SIP = 1" "csr_level STVEC = 1" "csr_level SATP = 1"
  "csr_level MSTATUS = 3" "csr_level MTVEC = 3" "csr_level MISA = 3" "csr_level MIE = 3" "csr_level MIP = 3" "csr_level MIDELEG = 3"
  by (simp_all add: csr_level_def)

lemma level_zero_write:
  assumes "csr_level a = 0"
  shows "csr_write a v c = set_csr a v c \<or> csr_write a v c = c"
proof -
  have "a \<noteq> SSTATUS" "a \<noteq> SIE" "a \<noteq> SIP" "a \<noteq> STVEC" "a \<noteq> SATP" "a \<noteq> MSTATUS" "a \<noteq> MTVEC" "a \<noteq> MISA"
    using assms level_facts by force+
  then show ?thesis by (simp add: csr_write_def)
qed

lemma csr_write_user: "csr_level a = 0 \<Longrightarrow> user_reach c (csr_write a v c)"
  using level_zero_write [of a v c] by (auto simp: user_reach_def)

lemma csr_write_supervisor: "csr_level a \<noteq> 3 \<Longrightarrow> supervisor_reach c (csr_write a v c)"
  using csr_write_confined [of a _ v c] csr_write_confined [of a MSTATUS v c]
  by (auto simp: supervisor_reach_def level_facts)

section \<open>Nothing architectural has happened yet\<close>

definition live ::
  "('b \<Rightarrow> u32 \<Rightarrow> u8 list) \<Rightarrow> ('b \<Rightarrow> bool) \<Rightarrow> cpu \<Rightarrow> ('b, 's) machine \<Rightarrow> bool" where
  "live contents binv c0 m \<longleftrightarrow> cache_inv contents binv (cache (snd m)) \<and> same_arch c0 (fst m)"

definition stopped ::
  "('b \<Rightarrow> u32 \<Rightarrow> u8 list) \<Rightarrow> ('b \<Rightarrow> bool) \<Rightarrow> cpu \<Rightarrow> exception stop \<Rightarrow> ('b, 's) machine \<Rightarrow> bool" where
  "stopped contents binv c0 e m \<longleftrightarrow> e \<noteq> Panic \<and> live contents binv c0 m"

definition completed ::
  "('b \<Rightarrow> u32 \<Rightarrow> u8 list) \<Rightarrow> ('b \<Rightarrow> bool) \<Rightarrow> cpu \<Rightarrow> bool \<Rightarrow> ('b, 's) machine \<Rightarrow> bool" where
  "completed contents binv c0 h m \<longleftrightarrow> cache_inv contents binv (cache (snd m)) \<and>
     (if h then advanced c0 (fst m) else same_arch c0 (fst m))"

named_theorems live_rules \<open>steps that keep the architectural state\<close>

lemma live_on_cpu:
  assumes "\<And>c. same_arch c0 c \<Longrightarrow> same_arch c0 (f c)"
  shows "hoare (live contents binv c0) (on_cpu f) (\<lambda>_. live contents binv c0) (stopped contents binv c0)"
  unfolding on_cpu_def by (rule hoare_modify) (auto simp: live_def assms)

lemma live_err: "hoare (live contents binv c0) (sm_err e) Q (stopped contents binv c0)"
  by (rule hoare_err) (simp add: stopped_def)

lemma live_illegal [live_rules]: "hoare (live contents binv c0) (illegal insn) Q (stopped contents binv c0)"
  unfolding illegal_def by (rule live_err)

lemma live_return [live_rules]:
  "hoare (live contents binv c0) (sm_return a) (\<lambda>_. live contents binv c0) (stopped contents binv c0)"
  by (rule hoare_return)

lemma live_get [live_rules]:
  "hoare (live contents binv c0) (sm_get f) (\<lambda>_. live contents binv c0) (stopped contents binv c0)"
  by (rule hoare_get)

lemma live_get_reg [live_rules]:
  "hoare (live contents binv c0) (get_reg i) (\<lambda>_. live contents binv c0) (stopped contents binv c0)"
  unfolding get_reg_def by (rule live_get)

lemma live_reservation [live_rules]:
  "hoare (live contents binv c0) (on_cpu (invalidate_reservation a n)) (\<lambda>_. live contents binv c0) (stopped contents binv c0)"
  "hoare (live contents binv c0) (on_cpu (\<lambda>c. c\<lparr>reservation := r\<rparr>)) (\<lambda>_. live contents binv c0) (stopped contents binv c0)"
  by (rule live_on_cpu, simp add: same_arch_def invalidate_reservation_def split: option.split)+

lemma live_for:
  "(\<And>i. hoare (live contents binv c0) (body i) (\<lambda>_. live contents binv c0) (stopped contents binv c0)) \<Longrightarrow>
   hoare (live contents binv c0) (sm_for is body) (\<lambda>_. live contents binv c0) (stopped contents binv c0)"
  by (rule hoare_for)

context total_backing
begin

lemma live_holds: "live contents binv c0 (c, b) \<longleftrightarrow> holds (page_view contents (cache b)) (cache b) \<and> same_arch c0 c"
  by (simp add: live_def holds_def)

lemma live_translate [live_rules]:
  "hoare (live contents binv c0) (translate_with B va acc) (\<lambda>_. live contents binv c0) (stopped contents binv c0)"
proof (rule hoareI)
  fix s :: "('a, 's) machine"
  assume "live contents binv c0 s"
  moreover obtain c b where s: "s = (c, b)" by (cases s)
  moreover obtain r m' b' where t: "translate B (csrs c) (priv_mode c) va acc (mmu c, b) = (r, m', b')"
    by (metis prod.exhaust)
  ultimately show "case translate_with B va acc s of
      (Inl e, s') \<Rightarrow> stopped contents binv c0 e s' | (Inr a, s') \<Rightarrow> live contents binv c0 s'"
    using translate_frame [OF _ t, of "page_view contents (cache b)"]
    by (auto simp: translate_with_def stopped_def live_holds same_arch_def holds_def live_def split: sum.splits)
qed

lemma live_load [live_rules]:
  "hoare (live contents binv c0) (on_bus (bus_load B a n)) (\<lambda>_. live contents binv c0) (stopped contents binv c0)"
proof (rule hoareI)
  fix s :: "('a, 's) machine"
  assume "live contents binv c0 s"
  moreover obtain r b' where t: "bus_load B a n (snd s) = (r, b')" by fastforce
  ultimately show "case on_bus (bus_load B a n) s of
      (Inl e, s') \<Rightarrow> stopped contents binv c0 e s' | (Inr v, s') \<Rightarrow> live contents binv c0 s'"
    using bus_load_ok [OF _ t, of "page_view contents (cache (snd s))"]
    by (auto simp: on_bus_def sm_field_def stopped_def live_def holds_def split: sum.splits)
qed

lemma live_store [live_rules]:
  "hoare (live contents binv c0) (on_bus (bus_store B put a n v)) (\<lambda>_. live contents binv c0) (stopped contents binv c0)"
proof (rule hoareI)
  fix s :: "('a, 'b) machine"
  assume "live contents binv c0 s"
  moreover obtain r b' where t: "bus_store B put a n v (snd s) = (r, b')" by fastforce
  ultimately show "case on_bus (bus_store B put a n v) s of
      (Inl e, s') \<Rightarrow> stopped contents binv c0 e s' | (Inr u, s') \<Rightarrow> live contents binv c0 s'"
    using bus_store_ok [OF _ t, of "page_view contents (cache (snd s))"]
    by (auto simp: on_bus_def sm_field_def stopped_def live_def holds_def split: sum.splits)
qed

lemma live_read_bytewise [live_rules]:
  "hoare (live contents binv c0) (read_bytewise B va acc is buf) (\<lambda>_. live contents binv c0) (stopped contents binv c0)"
  by (induction "is" arbitrary: buf) (auto intro!: hoare_bind live_rules)

lemma live_read [live_rules]:
  "hoare (live contents binv c0) (read_translated B va n acc) (\<lambda>_. live contents binv c0) (stopped contents binv c0)"
  unfolding read_translated_def by (auto intro!: hoare_bind live_rules)

lemma live_store_at [live_rules]:
  "hoare (live contents binv c0) (store_at B put va n v) (\<lambda>_. live contents binv c0) (stopped contents binv c0)"
  unfolding store_at_def by (auto intro!: hoare_bind live_rules)

lemma live_vload [live_rules]:
  "hoare (live contents binv c0) (vload B va n) (\<lambda>_. live contents binv c0) (stopped contents binv c0)"
  unfolding vload_def by (rule live_read)

lemma live_vstore [live_rules]:
  "hoare (live contents binv c0) (vstore B put va n v) (\<lambda>_. live contents binv c0) (stopped contents binv c0)"
  unfolding vstore_def write_translated_def by (auto intro!: live_rules live_for)

lemma live_fetch [live_rules]:
  "hoare (live contents binv c0) (fetch B n) (\<lambda>_. live contents binv c0) (stopped contents binv c0)"
  unfolding fetch_def
proof (rule hoare_bind [OF live_get], rule hoare_map_err, rule hoare_weaken [OF live_read])
  fix a e and s :: "('a, 's) machine"
  assume "stopped contents binv c0 e s"
  then show "stopped contents binv c0
      (stop_map (\<lambda>e. case e of BackingFailure _ \<Rightarrow> e | InstructionPageFault _ \<Rightarrow> e | _ \<Rightarrow> InstructionAccessFault a) e) s"
    by (cases e) (simp_all add: stopped_def)
qed auto

lemma live_fetch_insn [live_rules]:
  "hoare (live contents binv c0) (fetch_insn B) (\<lambda>_. live contents binv c0) (stopped contents binv c0)"
  unfolding fetch_insn_def
  by (auto intro!: hoare_bind live_rules live_err simp: Let_def split: option.split)

end

section \<open>What completed\<close>

definition adv ::
  "('b \<Rightarrow> u32 \<Rightarrow> u8 list) \<Rightarrow> ('b \<Rightarrow> bool) \<Rightarrow> cpu \<Rightarrow> ('b, 's) machine \<Rightarrow> bool" where
  "adv contents binv c0 m \<longleftrightarrow> cache_inv contents binv (cache (snd m)) \<and> advanced c0 (fst m)"

lemma advanced_set_reg: "advanced c0 c \<Longrightarrow> advanced c0 (set_reg i v c)"
  by (simp add: advanced_def hart_ok_def confined_def set_reg_def)

lemma advanced_jump: "advanced c0 c \<Longrightarrow> advanced c0 (jump t c)"
  by (simp add: advanced_def hart_ok_def confined_def jump_def)

lemma advanced_flush: "advanced c0 c \<Longrightarrow> advanced c0 (flush_tlb c)"
  by (simp add: advanced_def hart_ok_def confined_def flush_tlb_def mmu_flush_def)

lemma advanced_reservation: "advanced c0 c \<Longrightarrow> advanced c0 (c\<lparr>reservation := r\<rparr>)"
  by (simp add: advanced_def hart_ok_def confined_def)

lemma advanced_invalidate: "advanced c0 c \<Longrightarrow> advanced c0 (invalidate_reservation a n c)"
  by (simp add: invalidate_reservation_def advanced_reservation split: option.split)

lemmas advanced_updates = advanced_set_reg advanced_jump advanced_flush advanced_reservation advanced_invalidate

text \<open>A CSR write from a privilege that reaches the register.\<close>

lemma priv_levels:
  assumes "\<not> unat (priv_code p) < unat (csr_level a)"
  shows "(p = U \<longrightarrow> csr_level a = 0) \<and> (p = S \<longrightarrow> csr_level a \<noteq> 3)"
  using assms by (cases p) (auto simp: word_unat_eq_iff)

lemma advanced_write_csr:
  assumes "hart_ok c0" and "same_arch c0 c" and "\<not> unat (priv_code (priv_mode c0)) < unat (csr_level a)"
  shows "advanced c0 (write_csr a v c)"
  using assms(1,2) priv_levels [OF assms(3)] csr_ok_write [of "csrs c0" a v]
    csr_write_user [of a "csrs c0" v] csr_write_supervisor [of a "csrs c0" v]
  by (simp add: advanced_def hart_ok_def same_arch_def confined_def write_csr_def)

lemma advanced_mret:
  assumes "hart_ok c0" and "same_arch c0 c" and "priv_mode c0 = M"
  shows "advanced c0 (mret c)"
  using assms csr_ok_write by (simp add: mret_def Let_def advanced_def hart_ok_def same_arch_def confined_def
      write_csr_def jump_def)

text \<open>The bits \<open>sret\<close> moves are bits of sstatus.\<close>

lemma subset_bit:
  assumes "w AND NOT m = (0 :: u64)" and "bit w n"
  shows "bit m n"
proof -
  have "\<not> bit (w AND NOT m) n" by (simp add: assms(1))
  then show ?thesis using assms(2) bit_imp_le_length [OF assms(2)]
    by (auto simp only: bit_and_iff bit_not_iff possible_bit_word)
qed

lemma sret_bits:
  fixes status :: u64
  assumes "status AND MSTATUS_XLEN_FIELDS = MSTATUS_XLEN_RV64"
  defines "new \<equiv> (status AND NOT (flag 1 OR flag 5 OR flag 8)) OR push_bit 1 (field 5 1 status) OR flag 5"
  shows "((new AND NOT MSTATUS_XLEN_FIELDS) OR MSTATUS_XLEN_RV64) AND NOT SSTATUS_MASK = status AND NOT SSTATUS_MASK"
proof -
  have f: "(flag 1 OR flag 5 OR flag 8) AND NOT SSTATUS_MASK = 0" "flag 5 AND NOT SSTATUS_MASK = 0"
    by (simp_all add: flag_def)
  have p: "push_bit 1 (field 5 1 status) AND NOT SSTATUS_MASK = 0"
  proof -
    have "push_bit 1 (field 5 1 status) = push_bit 1 (drop_bit 5 status) AND 2"
      by (simp add: field_def push_bit_and)
    then show ?thesis by (simp add: and.assoc)
  qed
  have "bit (((new AND NOT MSTATUS_XLEN_FIELDS) OR MSTATUS_XLEN_RV64) AND NOT SSTATUS_MASK) n =
      bit (status AND NOT SSTATUS_MASK) n" if n: "n < 64" for n
  proof (cases "bit SSTATUS_MASK n")
    case False
    have "\<not> bit (flag 1 OR flag 5 OR flag 8) n" "\<not> bit (flag 5) n" "\<not> bit (push_bit 1 (field 5 1 status)) n"
      using subset_bit [OF f(1), of n] subset_bit [OF f(2), of n] subset_bit [OF p, of n] False by blast+
    moreover have "bit status n \<and> bit MSTATUS_XLEN_FIELDS n \<longleftrightarrow> bit MSTATUS_XLEN_RV64 n"
      using arg_cong [OF assms(1), of "\<lambda>w. bit w n"] by (simp add: bit_and_iff)
    ultimately show ?thesis using False n
      unfolding new_def by (auto simp only: bit_and_iff bit_or_iff bit_not_iff)
  qed (use n in \<open>auto simp only: bit_and_iff bit_not_iff\<close>)
  then show ?thesis by (intro bit_word_eqI) simp
qed

lemma advanced_sret:
  assumes "hart_ok c0" and "same_arch c0 c" and "priv_mode c0 \<noteq> U"
  shows "advanced c0 (sret c)"
proof -
  let ?st = "csr_regs (csrs c0) MSTATUS"
  have rd: "csr_read MSTATUS (csrs c0) = ?st" by (simp add: csr_read_def)
  have ok: "csr_ok (csrs c0)" using assms(1) by (simp add: hart_ok_def)
  then have x: "?st AND MSTATUS_XLEN_FIELDS = MSTATUS_XLEN_RV64" by (simp add: csr_ok_def)
  have "supervisor_reach (csrs c0) (csrs (sret c))"
    using sret_bits [OF x] assms(2)
    by (simp add: supervisor_reach_def sret_def Let_def rd jump_def write_csr_def csr_write_def same_arch_def)
  moreover have "csr_ok (csrs (sret c))"
    using csr_ok_write [OF ok] assms(2)
    by (simp add: sret_def Let_def jump_def write_csr_def same_arch_def)
  ultimately show ?thesis
    using assms by (auto simp: advanced_def hart_ok_def confined_def same_arch_def sret_def Let_def jump_def write_csr_def)
qed

section \<open>The executors\<close>

named_theorems exec_rules \<open>the ways an executor ends\<close>

lemma live_adv: "hart_ok c0 \<Longrightarrow> live contents binv c0 m \<Longrightarrow> adv contents binv c0 m"
  by (simp add: live_def adv_def same_arch_advanced)

lemma exec_cpu:
  assumes "\<And>c. same_arch c0 c \<Longrightarrow> advanced c0 (f c)"
  shows "hoare (live contents binv c0) (on_cpu f) (\<lambda>_. adv contents binv c0) (stopped contents binv c0)"
  unfolding on_cpu_def by (rule hoare_modify) (auto simp: live_def adv_def assms)

lemma exec_done [exec_rules]:
  "hoare (adv contents binv c0) (sm_return True) (completed contents binv c0) E"
  by (rule hoare_return) (simp add: adv_def completed_def)

lemma exec_decline [exec_rules]:
  "hoare (live contents binv c0) (sm_return False) (completed contents binv c0) E"
  by (rule hoare_return) (simp add: live_def completed_def)

lemma exec_noop [exec_rules]:
  "hart_ok c0 \<Longrightarrow> hoare (live contents binv c0) (sm_return True) (completed contents binv c0) E"
  by (rule hoare_return) (simp add: live_def completed_def same_arch_advanced)

lemma adv_cpu:
  assumes "\<And>c. advanced c0 c \<Longrightarrow> advanced c0 (f c)"
  shows "hoare (adv contents binv c0) (on_cpu f) (\<lambda>_. adv contents binv c0) E"
  unfolding on_cpu_def by (rule hoare_modify) (auto simp: adv_def assms)

lemma exec_finish_adv [exec_rules]:
  "hoare (adv contents binv c0) (finish insn (Some v)) (completed contents binv c0) E"
  unfolding finish_def option.case
  by (rule hoare_bind [OF adv_cpu exec_done]) (rule advanced_set_reg)

lemma exec_finish [exec_rules]:
  assumes "hart_ok c0"
  shows "hoare (live contents binv c0) (finish insn v) (completed contents binv c0) (stopped contents binv c0)"
proof (cases v)
  case None
  then show ?thesis by (simp add: finish_def live_illegal)
next
  case (Some w)
  show ?thesis unfolding Some
    by (rule hoare_weaken [OF exec_finish_adv live_adv [OF assms]])
qed

lemma exec_m:
  assumes "hart_ok c0"
  shows "hoare (live contents binv c0) (rv64m_execute insn) (completed contents binv c0) (stopped contents binv c0)"
  unfolding rv64m_execute_def
  by (auto intro!: hoare_bind [OF live_get_reg] exec_rules assms)

lemma exec_jumps:
  assumes "hart_ok c0" and "same_arch c0 c"
  shows "advanced c0 (exec_jal insn c)" "advanced c0 (exec_jalr insn c)" "advanced c0 (jump t c)"
  using same_arch_advanced [OF assms] by (simp_all add: exec_jal_def exec_jalr_def Let_def advanced_updates)

lemma exec_branch_ok:
  assumes "hart_ok c0"
  shows "hoare (live contents binv c0) (exec_branch insn) (completed contents binv c0) (stopped contents binv c0)"
  unfolding exec_branch_def
proof (rule hoare_bind [OF live_get_reg], rule hoare_bind [OF live_get_reg])
  fix a b
  show "hoare (live contents binv c0) (case branch_taken (funct3 insn) a b of
        None \<Rightarrow> illegal insn
      | Some taken \<Rightarrow>
          sm_bind (if taken then on_cpu (\<lambda>c. jump (pc c + imm_b insn) c) else sm_return ()) (\<lambda>_. sm_return True))
      (completed contents binv c0) (stopped contents binv c0)"
  proof (cases "branch_taken (funct3 insn) a b")
    case None
    then show ?thesis by (simp add: live_illegal)
  next
    case (Some t)
    have "hoare (live contents binv c0) (if t then on_cpu (\<lambda>c. jump (pc c + imm_b insn) c) else sm_return ())
        (\<lambda>_. adv contents binv c0) (stopped contents binv c0)"
      by (auto intro!: exec_cpu exec_jumps assms hoare_return live_adv [OF assms])
    from hoare_bind [OF this exec_done] Some show ?thesis by simp
  qed
qed

lemma exec_priv_ok:
  assumes "hart_ok c0"
  shows "hoare (live contents binv c0) (exec_priv insn) (completed contents binv c0) (stopped contents binv c0)"
proof -
  have flush: "advanced c0 (flush_tlb c)" if "same_arch c0 c" for c
    by (rule advanced_flush [OF same_arch_advanced [OF assms that]])
  have m: "hoare (\<lambda>m. live contents binv c0 m \<and> p = priv_mode c0)
      (let f = drop_bit 20 insn; run = (\<lambda>g. sm_bind (on_cpu g) (\<lambda>_. sm_return True)) in
       if f = 0x000 then sm_err (ecall_exception p)
       else if f = 0x001 then sm_err Breakpoint
       else if f = 0x302 \<and> p = M then run mret
       else if f = 0x102 \<and> p \<noteq> U then run sret
       else if f = 0x105 then sm_return True
       else if drop_bit 25 insn = 0x09 \<and> p \<noteq> U then run flush_tlb
       else illegal insn) (completed contents binv c0) (stopped contents binv c0)" for p
  proof (cases "p = priv_mode c0")
    case True
    show ?thesis
      unfolding Let_def True
      by (auto intro!: hoare_bind [OF exec_cpu exec_done] exec_noop live_err live_illegal advanced_mret advanced_sret
          flush assms simp: simp_thms)
  next
    case False
    then show ?thesis by (simp add: hoare_def)
  qed
  show ?thesis unfolding exec_priv_def
    by (rule hoare_bind [OF hoare_get m]) (simp add: live_def same_arch_def)
qed

lemma exec_csr_ok:
  assumes "hart_ok c0"
  shows "hoare (live contents binv c0) (exec_csr insn) (completed contents binv c0) (stopped contents binv c0)"
proof -
  let ?a = "ucast (drop_bit 20 insn AND 0xFFF) :: csr_addr" and ?f = "funct3 insn"
  have w: "hoare (live contents binv c0)
      (sm_bind (on_cpu (\<lambda>c. let c = write_csr ?a new c in if ?a = SATP then flush_tlb c else c))
        (\<lambda>_. finish insn (Some old)))
      (completed contents binv c0) (stopped contents binv c0)"
    if "\<not> unat (priv_code (priv_mode c0)) < unat (csr_level ?a)" for new old
  proof (rule hoare_bind [OF _ exec_finish_adv])
    have "advanced c0 (let c = write_csr ?a new c in if ?a = SATP then flush_tlb c else c)" if "same_arch c0 c" for c
      unfolding Let_def
      by (simp only: split: if_split)
        (blast intro: advanced_flush advanced_write_csr [OF assms that \<open>\<not> unat _ < unat (csr_level ?a)\<close>])
    then show "hoare (live contents binv c0)
        (on_cpu (\<lambda>c. let c = write_csr ?a new c in if ?a = SATP then flush_tlb c else c))
        (\<lambda>_. adv contents binv c0) (stopped contents binv c0)"
      by (rule exec_cpu)
  qed
  have m: "hoare (\<lambda>m. live contents binv c0 m \<and> p = priv_mode c0)
      (if unat (priv_code p) < unat (csr_level ?a) then illegal insn
       else if drop_bit 10 ?a = 3 \<and> csr_writes insn then illegal insn
       else
         sm_bind (sm_get (csr_old ?a)) (\<lambda>old.
         sm_bind (if ?f AND 4 \<noteq> 0 then sm_return (ucast (rs1 insn)) else get_reg (rs1 insn)) (\<lambda>src.
         case csr_new ?f old src of
           None \<Rightarrow> illegal insn
         | Some new \<Rightarrow>
             sm_bind
               (if csr_writes insn
                then on_cpu (\<lambda>c. let c = write_csr ?a new c in if ?a = SATP then flush_tlb c else c)
                else sm_return ()) (\<lambda>_. finish insn (Some old)))))
      (completed contents binv c0) (stopped contents binv c0)" for p
  proof (cases "p = priv_mode c0")
    case True
    show ?thesis unfolding True
      by (auto intro!: hoare_if hoare_bind [OF live_get] hoare_bind [OF live_get_reg] hoare_bind [OF live_return]
          live_illegal w exec_finish [OF assms] simp: simp_thms
          split: option.split)
  next
    case False
    then show ?thesis by (simp add: hoare_def)
  qed
  show ?thesis unfolding exec_csr_def Let_def [of "ucast _"] Let_def [of "funct3 _"] Let_def [of "csr_writes _"]
    by (rule hoare_bind [OF hoare_get m]) (simp add: live_def same_arch_def)
qed

context total_backing
begin

lemma exec_load_ok:
  assumes "hart_ok c0"
  shows "hoare (live contents binv c0) (exec_load B insn) (completed contents binv c0) (stopped contents binv c0)"
  unfolding exec_load_def
  by (auto intro!: hoare_bind [OF live_get_reg] hoare_bind [OF live_vload] exec_rules live_illegal assms
      split: option.split)

lemma exec_store_ok:
  assumes "hart_ok c0"
  shows "hoare (live contents binv c0) (exec_store B put insn) (completed contents binv c0) (stopped contents binv c0)"
  unfolding exec_store_def
  by (auto intro!: hoare_bind [OF live_get_reg] hoare_bind [OF live_vstore] exec_rules live_illegal assms
      split: option.split)

lemma exec_atomics:
  assumes "hart_ok c0"
  shows "hoare (live contents binv c0) (exec_lr B insn n a) (\<lambda>_. adv contents binv c0) (stopped contents binv c0)"
    and "hoare (live contents binv c0) (exec_sc B put insn n a v) (\<lambda>_. adv contents binv c0) (stopped contents binv c0)"
    and "hoare (live contents binv c0) (exec_amo B put insn n a v) (\<lambda>_. adv contents binv c0) (stopped contents binv c0)"
proof -
  have set: "hoare (live contents binv c0) (on_cpu (\<lambda>c. set_reg i w (f c))) (\<lambda>_. adv contents binv c0) (stopped contents binv c0)"
    if "\<And>c. advanced c0 c \<Longrightarrow> advanced c0 (f c)" for i w f
    by (rule exec_cpu) (simp add: advanced_set_reg that same_arch_advanced [OF assms])
  note set0 = set [of "\<lambda>c. c"]
  show "hoare (live contents binv c0) (exec_lr B insn n a) (\<lambda>_. adv contents binv c0) (stopped contents binv c0)"
    unfolding exec_lr_def by (rule hoare_bind [OF live_load]) (rule set, rule advanced_reservation)
  show "hoare (live contents binv c0) (exec_sc B put insn n a v) (\<lambda>_. adv contents binv c0) (stopped contents binv c0)"
    unfolding exec_sc_def
    by (rule hoare_bind [OF live_get], rule hoare_bind [OF live_reservation(2)])
      (auto intro!: hoare_bind [OF live_store] set0)
  show "hoare (live contents binv c0) (exec_amo B put insn n a v) (\<lambda>_. adv contents binv c0) (stopped contents binv c0)"
    unfolding exec_amo_def
    by (rule hoare_bind [OF live_load])
      (auto intro!: hoare_bind [OF live_store] set advanced_invalidate live_illegal split: option.split)
qed

lemma exec_a:
  assumes "hart_ok c0"
  shows "hoare (live contents binv c0) (rv64a_execute B put insn) (completed contents binv c0) (stopped contents binv c0)"
  unfolding rv64a_execute_def Let_def
  by (auto intro!: hoare_bind [OF live_get_reg] hoare_bind [OF live_translate] hoare_bind [OF _ exec_done]
      exec_atomics assms exec_decline live_illegal split: option.split)

lemma exec_i:
  assumes "hart_ok c0"
  shows "hoare (live contents binv c0) (rv64i_execute B put insn) (completed contents binv c0) (stopped contents binv c0)"
  unfolding rv64i_execute_def Let_def
  by (intro hoare_if; (intro hoare_bind [OF live_get_reg] hoare_bind [OF live_get] exec_finish exec_load_ok exec_store_ok
        exec_branch_ok exec_priv_ok exec_csr_ok exec_noop exec_decline live_illegal assms
        hoare_bind [OF exec_cpu exec_done] exec_jumps)?)

lemma exec_or_else:
  assumes "hoare (live contents binv c0) m (completed contents binv c0) (stopped contents binv c0)"
    and "hoare (live contents binv c0) n (completed contents binv c0) (stopped contents binv c0)"
  shows "hoare (live contents binv c0) (or_else m n) (completed contents binv c0) (stopped contents binv c0)"
  unfolding or_else_def
proof (rule hoare_bind [OF assms(1)])
  fix h
  show "hoare (completed contents binv c0 h) (if h then sm_return True else n) (completed contents binv c0) (stopped contents binv c0)"
    using assms(2) by (cases h) (auto simp: completed_def live_def hoare_def sm_return_def)
qed

lemma execute_ok:
  assumes "hart_ok c0"
  shows "hoare (live contents binv c0) (execute B put insn) (completed contents binv c0) (stopped contents binv c0)"
  unfolding execute_def by (intro exec_or_else exec_m exec_a exec_i assms)

text \<open>A step that completes: the program counter moved and one more instruction retired.\<close>

definition stepped :: "cpu \<Rightarrow> unit \<Rightarrow> ('a, 's) machine \<Rightarrow> bool" where
  "stepped c0 u m \<longleftrightarrow> cache_inv contents binv (cache (snd m)) \<and> hart_ok (fst m) \<and>
     instret (fst m) = instret c0 + 1 \<and> confined c0 (fst m) \<and> next_pc (fst m) = None"

lemma step_ok:
  assumes "hart_ok c0"
  shows "hoare (live contents binv c0) (step B put) (stepped c0) (stopped contents binv c0)"
proof -
  have retire: "hoare (completed contents binv c0 True) (on_cpu (retire len)) (stepped c0) (stopped contents binv c0)" for len
    unfolding on_cpu_def
    by (rule hoare_modify)
      (simp add: completed_def stepped_def retire_def advanced_def hart_ok_def confined_def)
  have tail: "hoare (completed contents binv c0 h) (if \<not> h then illegal insn else on_cpu (retire len)) (stepped c0)
      (stopped contents binv c0)" for h insn len
  proof (cases h)
    case True
    then show ?thesis using retire by simp
  next
    case False
    have "hoare (completed contents binv c0 h) (illegal insn) (stepped c0) (stopped contents binv c0)"
      by (rule hoare_weaken [OF live_illegal, of _ _ _ _ _ "stepped c0"])
        (use False in \<open>simp_all add: completed_def live_def\<close>)
    with False show ?thesis by simp
  qed
  have clear: "hoare (live contents binv c0) (on_cpu (\<lambda>c. c\<lparr>insn_len := len, next_pc := None\<rparr>))
      (\<lambda>_. live contents binv c0) (stopped contents binv c0)" for len
    by (rule live_on_cpu) (simp add: same_arch_def)
  show ?thesis
    unfolding step_def
    by (rule hoare_bind [OF live_fetch_insn])
      (auto intro!: hoare_bind [OF clear] hoare_bind [OF execute_ok [OF assms]] tail simp: simp_thms)
qed

end

end
