(* ===== verification/Machine.thy ===== *)
theory Machine
  imports Hart_Inv
begin

text \<open>
  The machine as its run loop drives it: the SBI firmware calls (\<open>sbi.rs\<close>),
  \<open>Cpu::step_trapping\<close>, which turns exceptions into traps, firmware calls or host errors, and
  the interrupt poll before each step. The properties of the hart as a whole stand here.
\<close>

section \<open>SBI\<close>

datatype sbi_outcome = Handled | Shutdown

abbreviation EXT_SET_TIMER :: u64 where "EXT_SET_TIMER \<equiv> 0x00"
abbreviation EXT_CONSOLE_PUTCHAR :: u64 where "EXT_CONSOLE_PUTCHAR \<equiv> 0x01"
abbreviation EXT_CONSOLE_GETCHAR :: u64 where "EXT_CONSOLE_GETCHAR \<equiv> 0x02"
abbreviation EXT_SHUTDOWN :: u64 where "EXT_SHUTDOWN \<equiv> 0x08"
abbreviation EXT_BASE :: u64 where "EXT_BASE \<equiv> 0x10"
abbreviation EXT_TIMER_V02 :: u64 where "EXT_TIMER_V02 \<equiv> 0x54494D45"
abbreviation EXT_SRST :: u64 where "EXT_SRST \<equiv> 0x53525354"
abbreviation SBI_SUCCESS :: u64 where "SBI_SUCCESS \<equiv> 0"
abbreviation SBI_ERR_NOT_SUPPORTED :: u64 where "SBI_ERR_NOT_SUPPORTED \<equiv> - 2"

definition set_timer :: "u64 \<Rightarrow> ('b, 's) machine \<Rightarrow> ('b, 's) machine" where
  "set_timer deadline m =
     (let b = (snd m)\<lparr>clint := (clint (snd m))\<lparr>mtimecmp := deadline\<rparr>\<rparr>;
          mip = csr_read MIP (csrs (fst m))
      in (write_csr MIP (mip AND NOT STIP) (fst m), b))"

definition sbi_supported :: "u64 \<Rightarrow> bool" where
  "sbi_supported e \<longleftrightarrow> e \<in> {EXT_SET_TIMER, EXT_CONSOLE_PUTCHAR, EXT_CONSOLE_GETCHAR, EXT_SHUTDOWN,
     EXT_BASE, EXT_TIMER_V02, EXT_SRST}"

text \<open>The error and value of the base extension.\<close>

definition sbi_base :: "u64 \<Rightarrow> u64 \<Rightarrow> u64 \<times> u64" where
  "sbi_base func a0 =
     (if func = 0 then (SBI_SUCCESS, 0x00000002)
      else if func = 1 then (SBI_SUCCESS, 1)
      else if func = 2 then (SBI_SUCCESS, 1)
      else if func = 3 then (SBI_SUCCESS, of_flag (sbi_supported a0))
      else if func = 4 \<or> func = 5 \<or> func = 6 then (SBI_SUCCESS, 0)
      else (SBI_ERR_NOT_SUPPORTED, 0))"

definition sbi_put :: "(u8 \<Rightarrow> 's \<Rightarrow> 's) \<Rightarrow> u8 \<Rightarrow> ('b, 's) bus \<Rightarrow> ('b, 's) bus" where
  "sbi_put put ch b = b\<lparr>uart := (uart b)\<lparr>sink := put ch (sink (uart b))\<rparr>\<rparr>"

definition sbi_handle ::
  "(u8 \<Rightarrow> 's \<Rightarrow> 's) \<Rightarrow> ('b, 's) machine \<Rightarrow> sbi_outcome \<times> ('b, 's) machine" where
  "sbi_handle put m =
     (let ext = reg 17 (fst m); func = reg 16 (fst m); a0 = reg 10 (fst m);
          pair = (\<lambda>e v m. (Handled, apfst (set_reg 11 v) (apfst (set_reg 10 e) m))) in
      if ext = EXT_SET_TIMER then (Handled, apfst (set_reg 10 0) (set_timer a0 m))
      else if ext = EXT_CONSOLE_PUTCHAR
      then (Handled, apfst (set_reg 10 0) (apsnd (sbi_put put (ucast a0)) m))
      else if ext = EXT_CONSOLE_GETCHAR then (Handled, apfst (set_reg 10 (- 1)) m)
      else if ext = EXT_SHUTDOWN then (Shutdown, m)
      else if ext = EXT_TIMER_V02 \<and> func = 0 then pair SBI_SUCCESS 0 (set_timer a0 m)
      else if ext = EXT_SRST \<and> func = 0 then (Shutdown, m)
      else if ext = EXT_BASE then (case sbi_base func a0 of (e, v) \<Rightarrow> pair e v m)
      else pair SBI_ERR_NOT_SUPPORTED 0 m)"

section \<open>Steps that trap\<close>

definition step_trapping ::
  "'b backing_ops \<Rightarrow> (u8 \<Rightarrow> 's \<Rightarrow> 's) \<Rightarrow> (('b, 's) machine, u64, sbi_outcome) sm" where
  "step_trapping B put m =
     (case step B put m of
        (Inr _, m') \<Rightarrow> (Inr Handled, m')
      | (Inl Panic, m') \<Rightarrow> (Inl Panic, m')
      | (Inl (Err e), m') \<Rightarrow>
          (case e of
             EnvironmentCallFromSMode \<Rightarrow>
               (case sbi_handle put m' of
                  (outcome, m'') \<Rightarrow> (Inr outcome, apfst (\<lambda>c. c\<lparr>pc := pc c + insn_len c\<rparr>) m''))
           | BackingFailure addr \<Rightarrow> (Inl (Err addr), m')
           | _ \<Rightarrow> (Inr Handled, apfst (trap e) m')))"

text \<open>One turn of a run loop: advance the clock, poll interrupts, step.\<close>

definition turn ::
  "'b backing_ops \<Rightarrow> (u8 \<Rightarrow> 's \<Rightarrow> 's) \<Rightarrow> u64 \<Rightarrow> (('b, 's) machine, u64, sbi_outcome) sm" where
  "turn B put n =
     sm_bind (sm_modify (apsnd (\<lambda>b. b\<lparr>clint := clint_tick n (clint b)\<rparr>))) (\<lambda>_.
     sm_bind (sm_modify (\<lambda>(c, b). (check_interrupts b c, b))) (\<lambda>_.
     step_trapping B put))"

section \<open>The invariant of the machine\<close>

definition machine_ok ::
  "('b \<Rightarrow> u32 \<Rightarrow> u8 list) \<Rightarrow> ('b \<Rightarrow> bool) \<Rightarrow> ('b, 's) machine \<Rightarrow> bool" where
  "machine_ok contents binv m \<longleftrightarrow> cache_inv contents binv (cache (snd m)) \<and> hart_ok (fst m)"

lemma hart_ok_new: "hart_ok (cpu_new a)"
  by (simp add: hart_ok_def cpu_new_def csr_ok_default mmu_default_def)

lemma hart_ok_write_csr: "hart_ok c \<Longrightarrow> hart_ok (write_csr a v c)"
  by (simp add: hart_ok_def write_csr_def csr_ok_write)

lemma hart_ok_set_reg: "hart_ok c \<Longrightarrow> hart_ok (set_reg i v c)"
  by (simp add: hart_ok_def set_reg_def)

lemma hart_ok_upd [simp]:
  "hart_ok (c\<lparr>pc := a\<rparr>) = hart_ok c" "hart_ok (c\<lparr>priv_mode := p\<rparr>) = hart_ok c"
  by (simp_all add: hart_ok_def)

lemma hart_ok_enter_trap: "hart_ok c \<Longrightarrow> hart_ok (enter_trap cause tval to_s c)"
  by (simp add: enter_trap_def Let_def hart_ok_write_csr)

lemma hart_ok_trap: "hart_ok c \<Longrightarrow> hart_ok (trap e c)"
  by (simp add: trap_def Let_def hart_ok_enter_trap)

lemma hart_ok_interrupts: "hart_ok c \<Longrightarrow> hart_ok (check_interrupts b c)"
  by (simp add: check_interrupts_def Let_def hart_ok_enter_trap hart_ok_write_csr)

lemma hart_ok_same_arch: "same_arch c0 c \<Longrightarrow> hart_ok c0 \<Longrightarrow> hart_ok c"
  by (simp add: same_arch_def hart_ok_def)

lemma machine_ok_handle:
  assumes "machine_ok contents binv m"
  shows "machine_ok contents binv (snd (sbi_handle put m))"
  using assms
  by (cases m) (auto simp: sbi_handle_def machine_ok_def set_timer_def sbi_put_def hart_ok_set_reg hart_ok_write_csr
      Let_def split: prod.split)

context total_backing
begin

lemma step_cases:
  assumes "machine_ok contents binv m"
  shows "case step B put m of
      (Inr _, m') \<Rightarrow> stepped (fst m) () m'
    | (Inl e, m') \<Rightarrow> stopped contents binv (fst m) e m'"
proof -
  have "live contents binv (fst m) m" and "hart_ok (fst m)" using assms by (simp_all add: machine_ok_def live_def)
  from hoare_Inr [OF step_ok [OF this(2)] this(1), of put] hoare_Inl [OF step_ok [OF this(2)] this(1), of put]
  show ?thesis by (auto split: prod.split sum.split)
qed

lemma step_trapping_ok:
  assumes "machine_ok contents binv m"
  shows "case step_trapping B put m of (r, m') \<Rightarrow> r \<noteq> Inl Panic \<and> machine_ok contents binv m'"
proof -
  obtain r m1 where s: "step B put m = (r, m1)" by (cases "step B put m")
  note C = step_cases [OF assms, of put, unfolded s]
  show ?thesis
  proof (cases r)
    case (Inr u)
    with C s show ?thesis by (simp add: step_trapping_def machine_ok_def stepped_def)
  next
    case (Inl e)
    with C have "e \<noteq> Panic" and ok: "machine_ok contents binv m1"
      using assms hart_ok_same_arch by (auto simp: stopped_def live_def machine_ok_def)
    then obtain x where e: "e = Err x" by (cases e) auto
    have t: "machine_ok contents binv (apfst (trap x) m1)"
      using ok by (cases m1) (simp add: machine_ok_def hart_ok_trap)
    have h: "machine_ok contents binv (apfst (\<lambda>c. c\<lparr>pc := pc c + insn_len c\<rparr>) (snd (sbi_handle put m1)))"
      using machine_ok_handle [OF ok, of put] by (cases "snd (sbi_handle put m1)") (simp add: machine_ok_def)
    show ?thesis
      using s Inl e t h ok by (auto simp: step_trapping_def split: exception.split prod.split)
  qed
qed

lemma turn_ok:
  assumes "machine_ok contents binv m"
  shows "case turn B put n m of (r, m') \<Rightarrow> r \<noteq> Inl Panic \<and> machine_ok contents binv m'"
proof -
  obtain c b where m: "m = (c, b)" by (cases m)
  let ?b = "b\<lparr>clint := clint_tick n (clint b)\<rparr>"
  have "machine_ok contents binv (check_interrupts ?b c, ?b)"
    using assms by (simp add: m machine_ok_def hart_ok_interrupts)
  from step_trapping_ok [OF this, of put] show ?thesis
    by (simp add: turn_def m sm_bind_def sm_modify_def)
qed

end

section \<open>Properties of a step\<close>

text \<open>Any number of turns, each with its clock advance, until the guest shuts down or the store fails.\<close>

fun run_turns ::
  "'b backing_ops \<Rightarrow> (u8 \<Rightarrow> 's \<Rightarrow> 's) \<Rightarrow> u64 list \<Rightarrow> (('b, 's) machine, u64, sbi_outcome) sm" where
  "run_turns B put [] m = (Inr Handled, m)"
| "run_turns B put (n # ns) m =
     (case turn B put n m of
        (Inr Handled, m') \<Rightarrow> run_turns B put ns m'
      | (r, m') \<Rightarrow> (r, m'))"

text \<open>Property C1 (run_never_panics): from any machine whose cache and hart are well formed, in
  particular from reset with any guest image, no sequence of instructions, interrupts, traps and
  firmware calls ever makes the emulator panic, and the machine stays well formed: x0 is zero, the
  CSR file honest, the TLB full size, the page cache consistent.\<close>

theorem run_never_panics:
  assumes "total_backing B contents binv" and "machine_ok contents binv m"
  shows "case run_turns B put ns m of (r, m') \<Rightarrow> r \<noteq> Inl Panic \<and> machine_ok contents binv m'"
  using assms(2)
proof (induction ns arbitrary: m)
  case (Cons n ns)
  obtain r m1 where t: "turn B put n m = (r, m1)" by (cases "turn B put n m")
  from total_backing.turn_ok [OF assms(1) Cons.prems, of put n] t
  have "r \<noteq> Inl Panic" "machine_ok contents binv m1" by simp_all
  with Cons.IH [of m1] t show ?case by (auto split: sum.splits sbi_outcome.splits)
qed simp

definition demo_machine :: "fake_backing page_cache \<Rightarrow> (fake_backing, u8 list) machine" where
  "demo_machine c = (cpu_new RAM_BASE, bus_new c [])"

lemma demo_machine_ok: "cache_inv fake_contents fake_inv c \<Longrightarrow> machine_ok fake_contents fake_inv (demo_machine c)"
  by (simp add: machine_ok_def demo_machine_def hart_ok_new bus_new_def)

lemma run_never_panics_witness:
  "case cache_new demo_backing 4 of Inr c \<Rightarrow>
     (case run_turns fake_ops vec_put [1, 1, 1] (demo_machine c) of (r, m') \<Rightarrow> r \<noteq> Inl Panic)
   | Inl _ \<Rightarrow> False"
proof -
  obtain c where c: "cache_new demo_backing 4 = Inr c" "cache_inv fake_contents fake_inv c" by (rule demo_cache)
  from run_never_panics [OF fake.total_backing_axioms demo_machine_ok [OF c(2)], of vec_put "[1, 1, 1]"] c(1)
  show ?thesis by (auto split: prod.splits)
qed

text \<open>Property C2 (step_is_precise): an instruction that raises an exception leaves the registers, the
  program counter, the retired-instruction counter, the CSRs and the privilege exactly as they
  were; an instruction that completes advances the counter by one, and x0 is still zero.\<close>

theorem step_is_precise:
  assumes "total_backing B contents binv" and "machine_ok contents binv m"
  shows "case step B put m of
      (Inl e, m') \<Rightarrow> e \<noteq> Panic \<and> regs (fst m') = regs (fst m) \<and> pc (fst m') = pc (fst m) \<and>
        instret (fst m') = instret (fst m) \<and> csrs (fst m') = csrs (fst m) \<and> priv_mode (fst m') = priv_mode (fst m)
    | (Inr _, m') \<Rightarrow> instret (fst m') = instret (fst m) + 1 \<and> regs (fst m') 0 = 0"
  using total_backing.step_cases [OF assms, of put]
  by (auto simp: stopped_def live_def same_arch_def total_backing.stepped_def [OF assms(1)] hart_ok_def
      split: prod.splits sum.splits)

lemma step_is_precise_witness:
  "case cache_new demo_backing 4 of Inr c \<Rightarrow>
     (case step fake_ops vec_put (demo_machine c) of
        (Inl e, m') \<Rightarrow> e \<noteq> Panic \<and> pc (fst m') = RAM_BASE | (Inr _, m') \<Rightarrow> instret (fst m') = 1)
   | Inl _ \<Rightarrow> False"
proof -
  obtain c where c: "cache_new demo_backing 4 = Inr c" "cache_inv fake_contents fake_inv c" by (rule demo_cache)
  from step_is_precise [OF fake.total_backing_axioms demo_machine_ok [OF c(2)], of vec_put] c(1)
  show ?thesis by (auto simp: demo_machine_def cpu_new_def split: prod.splits sum.splits)
qed

text \<open>Property C3 (step_confines_guest): no instruction lets a guest out of its privilege. From U-mode an
  instruction that completes leaves the hart in U-mode with every supervisor and machine CSR
  unchanged; from S-mode it never reaches M-mode, and changes of the machine CSRs only the bits of
  mstatus that sstatus shows and the bits of mie and mip that are delegated.\<close>

theorem step_confines_guest:
  assumes "total_backing B contents binv" and "machine_ok contents binv m"
  shows "case step B put m of
      (Inr _, m') \<Rightarrow>
        (priv_mode (fst m) = U \<longrightarrow> priv_mode (fst m') = U \<and> user_reach (csrs (fst m)) (csrs (fst m'))) \<and>
        (priv_mode (fst m) = S \<longrightarrow> priv_mode (fst m') \<noteq> M \<and> supervisor_reach (csrs (fst m)) (csrs (fst m')))
    | (Inl _, m') \<Rightarrow> priv_mode (fst m') = priv_mode (fst m) \<and> csrs (fst m') = csrs (fst m)"
  using total_backing.step_cases [OF assms, of put]
  by (auto simp: stopped_def live_def same_arch_def total_backing.stepped_def [OF assms(1)] confined_def
      split: prod.splits sum.splits)

lemma step_confines_guest_witness:
  "case cache_new demo_backing 4 of Inr c \<Rightarrow>
     (case step fake_ops vec_put (apfst (\<lambda>h. h\<lparr>priv_mode := U\<rparr>) (demo_machine c)) of
        (_, m') \<Rightarrow> priv_mode (fst m') = U)
   | Inl _ \<Rightarrow> False"
proof -
  obtain c where c: "cache_new demo_backing 4 = Inr c" "cache_inv fake_contents fake_inv c" by (rule demo_cache)
  let ?m = "apfst (\<lambda>h. h\<lparr>priv_mode := U\<rparr>) (demo_machine c)"
  have "machine_ok fake_contents fake_inv ?m"
    using demo_machine_ok [OF c(2)] by (simp add: machine_ok_def demo_machine_def)
  from step_confines_guest [OF fake.total_backing_axioms this, of vec_put] c(1)
  show ?thesis by (auto simp: demo_machine_def split: prod.splits sum.splits)
qed

text \<open>Property C10 (backing_failure_is_no_trap): the only error a trapping step reports to its host is the
  failure of the backing store, exactly when the step itself met one, and no trap is delivered for
  it: the integer registers, the pc, the CSRs, the count of instructions and the privilege mode are
  as before the step, and the machine is well formed. This covers neither the reservation, which a
  store-conditional gives up before its store fails, nor guest memory, where a store across two pages
  may have written its first part, nor the length and target noted for the instruction, which the
  next step sets anew.\<close>

theorem backing_failure_is_no_trap:
  assumes "total_backing B contents binv" and "machine_ok contents binv m"
  shows "case step_trapping B put m of
      (Inl e, m') \<Rightarrow> (\<exists>a. e = Err a \<and> fst (step B put m) = Inl (Err (BackingFailure a))) \<and>
        machine_ok contents binv m' \<and>
        regs (fst m') = regs (fst m) \<and> pc (fst m') = pc (fst m) \<and> csrs (fst m') = csrs (fst m) \<and>
        instret (fst m') = instret (fst m) \<and> priv_mode (fst m') = priv_mode (fst m)
    | (Inr _, m') \<Rightarrow> machine_ok contents binv m' \<and> (\<forall>a. fst (step B put m) \<noteq> Inl (Err (BackingFailure a)))"
proof -
  obtain r m1 where s: "step B put m = (r, m1)" by (cases "step B put m")
  from total_backing.step_cases [OF assms, of put] total_backing.step_trapping_ok [OF assms, of put]
  show ?thesis
    by (auto simp: s step_trapping_def stopped_def live_def same_arch_def
        split: prod.splits sum.splits stop.splits exception.splits)
qed

lemma backing_failure_is_no_trap_witness:
  "case cache_new demo_backing 4 of Inr c \<Rightarrow>
     (case step_trapping fake_ops vec_put (demo_machine c) of
        (Inl e, m') \<Rightarrow> (\<exists>a. e = Err a) \<and> pc (fst m') = RAM_BASE | (Inr _, m') \<Rightarrow> machine_ok fake_contents fake_inv m')
   | Inl _ \<Rightarrow> False"
proof -
  obtain c where c: "cache_new demo_backing 4 = Inr c" "cache_inv fake_contents fake_inv c" by (rule demo_cache)
  from backing_failure_is_no_trap [OF fake.total_backing_axioms demo_machine_ok [OF c(2)], of vec_put] c(1)
  show ?thesis by (auto simp: same_arch_def demo_machine_def cpu_new_def split: prod.splits sum.splits)
qed

end
