(* ===== verification/Traps.thy ===== *)
theory Traps
  imports Machine
begin

text \<open>
  Trap entry and return, the interrupt poll and the timer calls of the firmware, as the guest
  kernel relies on them.
\<close>

section \<open>Fields of mstatus\<close>

lemma field_one: "field n 1 w = (if bit w n then 1 else 0)"
proof (rule bit_word_eqI)
  fix k
  show "bit (field n 1 w) k = bit (if bit w n then 1 else 0 :: u64) k"
    by (cases "k = 0") (auto simp: field_def bit_simps bit_1_iff)
qed

lemma read_write_mstatus:
  "csr_read MSTATUS (csrs (write_csr MSTATUS v c)) = (v AND NOT MSTATUS_XLEN_FIELDS) OR MSTATUS_XLEN_RV64"
  by (simp add: write_csr_def csr_read_def csr_write_def)

lemma read_write_other:
  assumes "a \<in> {SEPC, SCAUSE, STVAL, MEPC, MCAUSE, MTVAL, MIP}" and "b \<in> {SEPC, SCAUSE, STVAL, MEPC, MCAUSE, MTVAL, MIP, MSTATUS, STVEC, MTVEC, MIE}"
  shows "csr_read b (csrs (write_csr a v c)) = (if b = a then v else csr_read b (csrs c))"
  using assms by (elim insertE emptyE) (simp_all add: write_csr_def csr_read_def csr_write_def word_le_nat_alt)

lemma read_mstatus_other:
  "b \<in> {SEPC, SCAUSE, STVAL, MEPC, MCAUSE, MTVAL, MIP, STVEC, MTVEC, MIE} \<Longrightarrow>
   csr_read b (csrs (write_csr MSTATUS v c)) = csr_read b (csrs c)"
  by (elim insertE emptyE) (simp_all add: write_csr_def csr_read_def csr_write_def)

lemma write_csr_fields [simp]:
  "pc (write_csr a v c) = pc c" "priv_mode (write_csr a v c) = priv_mode c" "regs (write_csr a v c) = regs c"
  "mmu (write_csr a v c) = mmu c" "next_pc (write_csr a v c) = next_pc c"
  by (simp_all add: write_csr_def)

lemmas trap_simps = enter_trap_def Let_def read_write_mstatus read_write_other read_mstatus_other

text \<open>Property C39 (trap_then_return): a trap into the supervisor saves the program counter, cause and
  value, masks further interrupts and enters the vector in S-mode; \<open>sret\<close> from it then goes back to
  the interrupted instruction, at the interrupted privilege, with the interrupt enable as it was.\<close>

theorem trap_then_return:
  assumes "priv_mode c \<noteq> M"
  shows "let t = enter_trap cause tval True c; s = sret t in
    priv_mode t = S \<and> pc t = csr_read STVEC (csrs c) \<and>
    csr_read SEPC (csrs t) = pc c \<and> csr_read SCAUSE (csrs t) = cause \<and> csr_read STVAL (csrs t) = tval \<and>
    \<not> bit (csr_read MSTATUS (csrs t)) 1 \<and> regs t = regs c \<and>
    priv_mode s = priv_mode c \<and> next_pc s = Some (pc c) \<and>
    bit (csr_read MSTATUS (csrs s)) 1 = bit (csr_read MSTATUS (csrs c)) 1"
proof -
  have "priv_code (priv_mode c) AND 1 = (if priv_mode c = S then 1 else 0)"
    using assms by (cases "priv_mode c") simp_all
  then show ?thesis
    using assms
    by (cases "priv_mode c")
      (simp_all add: trap_simps sret_def jump_def field_one flag_def bit_simps)
qed

lemma trap_then_return_witness:
  "priv_mode (sret (enter_trap 8 0 True ((cpu_new 0x80000000)\<lparr>priv_mode := U\<rparr>))) = U"
  using trap_then_return [of "(cpu_new 0x80000000)\<lparr>priv_mode := U\<rparr>" 8 0] by (simp add: Let_def)

text \<open>The same for a trap into machine mode and \<open>mret\<close>, from any
  privilege, with mstatus.MPRV cleared exactly when the return leaves machine mode.\<close>

theorem machine_trap_then_return:
  "let t = enter_trap cause tval False c; s = mret t in
    priv_mode t = M \<and> pc t = csr_read MTVEC (csrs c) \<and>
    csr_read MEPC (csrs t) = pc c \<and> csr_read MCAUSE (csrs t) = cause \<and> csr_read MTVAL (csrs t) = tval \<and>
    \<not> bit (csr_read MSTATUS (csrs t)) 3 \<and>
    priv_mode s = priv_mode c \<and> next_pc s = Some (pc c) \<and>
    bit (csr_read MSTATUS (csrs s)) 3 = bit (csr_read MSTATUS (csrs c)) 3 \<and>
    bit (csr_read MSTATUS (csrs s)) 17 = (priv_mode c = M \<and> bit (csr_read MSTATUS (csrs c)) 17)"
proof -
  have mpp: "field 11 3 w = (if bit w 12 then 2 else 0) OR (if bit w 11 then 1 else 0)" for w
  proof (rule bit_word_eqI)
    fix n
    show "bit (field 11 3 w) n = bit ((if bit w 12 then 2 else 0 :: u64) OR (if bit w 11 then 1 else 0)) n"
    proof -
      have m: "(3 :: u64) = mask 2" by (simp add: mask_eq_exp_minus_1)
      show ?thesis unfolding m
        by (cases "n = 0"; cases "n = 1") (auto simp: field_def bit_simps bit_1_iff bit_2_iff)
    qed
  qed
  show ?thesis
    by (cases "priv_mode c")
      (simp_all add: trap_simps mret_def jump_def field_one mpp flag_def bit_simps)
qed

lemma machine_trap_then_return_witness:
  "next_pc (mret (enter_trap 2 7 False (cpu_new 0x80000000))) = Some 0x80000000"
  using machine_trap_then_return [of 2 7 "cpu_new 0x80000000"] by (simp add: Let_def cpu_new_def)

section \<open>Interrupts\<close>

text \<open>What the poll leaves in mip: MTIP is the comparator, STIP is only ever raised.\<close>

definition polled_mip :: "('b, 's) bus \<Rightarrow> cpu \<Rightarrow> u64" where
  "polled_mip b c =
     (let mip = csr_read MIP (csrs c)
      in if clint_pending (clint b) then mip OR (MTIP OR STIP) else mip AND NOT MTIP)"

lemma check_interrupts_unfold:
  "check_interrupts b c =
     (let c1 = write_csr MIP (polled_mip b c) c; mip = polled_mip b c
      in if mip AND MTIP \<noteq> 0 \<and> csr_read MIE (csrs c) AND MTIP \<noteq> 0 \<and> interrupt_enabled False c
         then enter_trap (int_cause MachineTimer) 0 False c1
         else if mip AND STIP \<noteq> 0 \<and> csr_read MIE (csrs c) AND STIP \<noteq> 0 \<and> interrupt_enabled True c
         then enter_trap (int_cause SupervisorTimer) 0 True c1
         else c1)"
  unfolding check_interrupts_def polled_mip_def Let_def
  by (simp add: read_write_other interrupt_enabled_def)

lemma polled_mip_again: "csr_read MIP (csrs c') = polled_mip b c \<Longrightarrow> polled_mip b c' = polled_mip b c"
  by (simp add: polled_mip_def Let_def or.assoc and.assoc)

lemma write_csr_same: "csr_read MIP (csrs c) = v \<Longrightarrow> write_csr MIP v c = c"
  by (auto simp: write_csr_def csr_read_def csr_write_def set_csr_def word_le_nat_alt fun_upd_idem)

lemma enter_trap_reads:
  "csr_read MIP (csrs (enter_trap cause tval to_s c)) = csr_read MIP (csrs c)"
  "csr_read MIE (csrs (enter_trap cause tval to_s c)) = csr_read MIE (csrs c)"
  "priv_mode (enter_trap cause tval to_s c) = (if to_s then S else M)"
  by (simp_all add: trap_simps)

lemma enter_trap_masks:
  "\<not> interrupt_enabled True (enter_trap cause tval True c)"
  "\<not> interrupt_enabled to_s (enter_trap cause tval False c)"
  by (cases "priv_mode c"; simp add: interrupt_enabled_def trap_simps field_one flag_def bit_simps; fail)+

text \<open>Polling twice is polling once: the trap that delivers a timer
  interrupt masks the source it delivers, so a handler is entered once per tick however often the
  run loop polls before the handler has acknowledged it.\<close>

theorem interrupt_delivered_once:
  "check_interrupts b (check_interrupts b c) = check_interrupts b c"
proof -
  let ?c1 = "write_csr MIP (polled_mip b c) c" and ?c' = "check_interrupts b c"
  have r: "csr_read MIP (csrs ?c1) = polled_mip b c" "csr_read MIE (csrs ?c1) = csr_read MIE (csrs c)"
    by (simp_all add: read_write_other)
  have mip: "csr_read MIP (csrs ?c') = polled_mip b c" and mie: "csr_read MIE (csrs ?c') = csr_read MIE (csrs c)"
    by (simp_all add: check_interrupts_unfold Let_def enter_trap_reads r)
  note again = polled_mip_again [OF mip]
  have same: "write_csr MIP (polled_mip b ?c') ?c' = ?c'" by (rule write_csr_same) (simp add: mip again)
  have en: "interrupt_enabled to_s ?c1 = interrupt_enabled to_s c" for to_s
    by (simp add: interrupt_enabled_def read_write_other)
  let ?m = "polled_mip b c AND MTIP \<noteq> 0 \<and> csr_read MIE (csrs c) AND MTIP \<noteq> 0"
  let ?s = "polled_mip b c AND STIP \<noteq> 0 \<and> csr_read MIE (csrs c) AND STIP \<noteq> 0"
  have below: "interrupt_enabled True c \<Longrightarrow> interrupt_enabled False c"
    by (auto simp: interrupt_enabled_def split: priv.splits)
  have c': "?c' = (if ?m \<and> interrupt_enabled False c then enter_trap (int_cause MachineTimer) 0 False ?c1
     else if ?s \<and> interrupt_enabled True c then enter_trap (int_cause SupervisorTimer) 0 True ?c1 else ?c1)"
    unfolding check_interrupts_unfold [of b c] Let_def conj_assoc ..
  have quiet: "\<not> (?m \<and> interrupt_enabled False ?c') \<and> \<not> (?s \<and> interrupt_enabled True ?c')"
  proof (cases "?m \<and> interrupt_enabled False c")
    case True
    then show ?thesis unfolding c' by (simp only: if_True enter_trap_masks simp_thms)
  next
    case noM: False
    show ?thesis
    proof (cases "?s \<and> interrupt_enabled True c")
      case True
      with noM below have "\<not> ?m" by blast
      with noM True show ?thesis unfolding c' by (simp only: if_True if_False enter_trap_masks simp_thms)
    next
      case False
      with noM show ?thesis unfolding c' by (simp only: if_False en simp_thms)
    qed
  qed
  show ?thesis
    unfolding check_interrupts_unfold [of b ?c'] Let_def again mie same [unfolded again]
    using quiet by (simp only: conj_assoc if_False simp_thms)
qed

text \<open>When the comparator has fired, a supervisor guest that has
  enabled its timer, and a user program always, is interrupted before its next instruction: it
  enters the supervisor vector with the supervisor timer cause, from the interrupted program
  counter. The hypothesis on bit 7 excludes the machine timer, which would take precedence.\<close>

theorem timer_reaches_supervisor:
  assumes "mtimecmp (clint b) \<le> mtime (clint b)" and "priv_mode c \<noteq> M"
    and "priv_mode c = U \<or> bit (csr_read MSTATUS (csrs c)) 1"
    and "bit (csr_read MIE (csrs c)) 5" and "\<not> bit (csr_read MIE (csrs c)) 7"
  shows "let t = check_interrupts b c in
    priv_mode t = S \<and> pc t = csr_read STVEC (csrs c) \<and> csr_read SEPC (csrs t) = pc c \<and>
    csr_read SCAUSE (csrs t) = 0x8000000000000005 \<and> csr_read STVAL (csrs t) = 0"
proof -
  have b5: "w AND STIP \<noteq> 0 \<longleftrightarrow> bit w 5" and b7: "w AND MTIP \<noteq> 0 \<longleftrightarrow> bit w 7" for w :: u64
    by (simp_all add: bit_iff_and_push_bit_not_eq_0)
  have "bit (polled_mip b c) 5"
    using assms(1) by (simp add: polled_mip_def Let_def clint_pending_def bit_simps)
  moreover have "interrupt_enabled True c"
    using assms(2,3) by (cases "priv_mode c") (auto simp: interrupt_enabled_def field_one)
  ultimately have "check_interrupts b c =
      enter_trap (int_cause SupervisorTimer) 0 True (write_csr MIP (polled_mip b c) c)"
    using assms(4,5) unfolding check_interrupts_unfold Let_def b5 b7 by simp
  then show ?thesis by (simp add: trap_simps int_cause_def)
qed

lemma timer_reaches_supervisor_witness:
  "\<forall>c :: fake_backing page_cache. pc (check_interrupts ((bus_new c [])\<lparr>clint := \<lparr>mtime = 9, mtimecmp = 9, msip = 0\<rparr>\<rparr>)
     ((cpu_new 0x80000000)\<lparr>priv_mode := U, csrs := csr_write MIE 0x20 (csr_write STVEC 0x80000100 csrs_default)\<rparr>)) =
   0x80000100"
proof
  fix c :: "fake_backing page_cache"
  let ?b = "(bus_new c [])\<lparr>clint := \<lparr>mtime = 9, mtimecmp = 9, msip = 0\<rparr>\<rparr>"
  let ?c = "(cpu_new 0x80000000)\<lparr>priv_mode := U, csrs := csr_write MIE 0x20 (csr_write STVEC 0x80000100 csrs_default)\<rparr>"
  have e: "csr_read MIE (csrs ?c) = 0x20" "csr_read STVEC (csrs ?c) = 0x80000100"
    by (simp_all add: csr_read_def csr_write_def)
  have p: "mtimecmp (clint ?b) \<le> mtime (clint ?b)" "priv_mode ?c \<noteq> M"
    "priv_mode ?c = U \<or> bit (csr_read MSTATUS (csrs ?c)) 1"
    "bit (csr_read MIE (csrs ?c)) 5" "\<not> bit (csr_read MIE (csrs ?c)) 7"
    unfolding e by (simp_all add: bit_simps)
  show "pc (check_interrupts ?b ?c) = 0x80000100"
    using timer_reaches_supervisor [OF p] unfolding Let_def e by blast
qed

section \<open>The firmware's timer\<close>

text \<open>A set-timer call, by either calling convention, programs the
  comparator with the deadline, acknowledges the pending tick, and reports success; from then on
  the poll raises the supervisor timer if and only if the clock has reached the deadline.\<close>

theorem sbi_timer_tick:
  assumes "reg 17 (fst m) = EXT_SET_TIMER \<or> reg 17 (fst m) = EXT_TIMER_V02 \<and> reg 16 (fst m) = 0"
  shows "case sbi_handle put m of (out, c', b') \<Rightarrow>
    out = Handled \<and> reg 10 c' = 0 \<and> mtimecmp (clint b') = reg 10 (fst m) \<and>
    \<not> bit (csr_read MIP (csrs c')) 5 \<and> pc c' = pc (fst m) \<and>
    (\<forall>t. bit (polled_mip (b'\<lparr>clint := (clint b')\<lparr>mtime := t\<rparr>\<rparr>) c') 5 \<longleftrightarrow> reg 10 (fst m) \<le> t)"
proof -
  obtain c b where m: "m = (c, b)" by (cases m)
  have csr: "csr_read MIP (csrs (set_reg i v c)) = csr_read MIP (csrs c)" "pc (set_reg i v c) = pc c" for i v c
    by (simp_all add: set_reg_def)
  have regs: "reg 10 (set_reg 11 w (set_reg 10 v c)) = v" "reg 10 (set_reg 10 v c) = v" for v w c
    by (simp_all add: set_reg_def reg_def)
  show ?thesis
    using assms
    by (auto simp: m sbi_handle_def set_timer_def Let_def regs csr read_write_other polled_mip_def clint_pending_def
        bit_simps)
qed

lemma sbi_timer_tick_witness:
  "\<forall>c :: fake_backing page_cache. case sbi_handle vec_put (set_reg 10 500 (cpu_new 0), bus_new c []) of (out, c', b') \<Rightarrow>
     out = Handled \<and> mtimecmp (clint b') = 500"
proof
  fix c :: "fake_backing page_cache"
  show "case sbi_handle vec_put (set_reg 10 500 (cpu_new 0), bus_new c []) of (out, c', b') \<Rightarrow>
     out = Handled \<and> mtimecmp (clint b') = 500"
    using sbi_timer_tick [of "(set_reg 10 500 (cpu_new 0), bus_new c [])" vec_put]
    by (auto simp: set_reg_def reg_def cpu_new_def split: prod.splits)
qed

end
