(* ===== verification/Fdt.thy ===== *)
theory Fdt
  imports Prelude
begin

text \<open>
  \<open>rv64-host/src/fdt.rs\<close>: reading a flattened device tree and overwriting one of its values in
  place. The blob is a byte list; an offset is a \<open>usize\<close>, here a natural number, and every offset
  formed from the blob is a sum of 32-bit fields, far below its range.
\<close>

section \<open>Bytes\<close>

definition from_be :: "u8 list \<Rightarrow> 'a::len word" where
  "from_be bs = from_le (rev bs)"

definition to_be :: "nat \<Rightarrow> 'a::len word \<Rightarrow> u8 list" where
  "to_be n v = rev (to_le n v)"

lemma length_to_be [simp]: "length (to_be n v) = n"
  by (simp add: to_be_def)

lemma from_be_to_be [simp]: "LENGTH('a) \<le> 8 * n \<Longrightarrow> from_be (to_be n v) = v" for v :: "'a::len word"
  by (simp add: from_be_def to_be_def)

text \<open>\<open>b.get(off..off + n)\<close>\<close>

definition get_range :: "nat \<Rightarrow> nat \<Rightarrow> 'a list \<Rightarrow> 'a list option" where
  "get_range off n b = (if off + n \<le> length b then Some (slice off n b) else None)"

definition be32 :: "u8 list \<Rightarrow> nat \<Rightarrow> u32 option" where
  "be32 b off = map_option from_be (get_range off 4 b)"

text \<open>
  \<open>core::str::from_utf8(..).is_ok()\<close>: the well-formed byte sequences of UTF-8, by the number of
  bytes of a character, without overlong forms, surrogates or values past U+10FFFF.
\<close>

definition cont :: "u8 \<Rightarrow> bool" where
  "cont b \<longleftrightarrow> 0x80 \<le> b \<and> b \<le> 0xBF"

fun utf8_ok :: "u8 list \<Rightarrow> bool" where
  "utf8_ok [] \<longleftrightarrow> True"
| "utf8_ok (a # r) \<longleftrightarrow>
     (if a \<le> 0x7F then utf8_ok r
      else case r of
        [] \<Rightarrow> False
      | b # r2 \<Rightarrow>
          if 0xC2 \<le> a \<and> a \<le> 0xDF then cont b \<and> utf8_ok r2
          else case r2 of
            [] \<Rightarrow> False
          | c # r3 \<Rightarrow>
              if 0xE0 \<le> a \<and> a \<le> 0xEF
              then cont b \<and> (a = 0xE0 \<longrightarrow> 0xA0 \<le> b) \<and> (a = 0xED \<longrightarrow> b \<le> 0x9F) \<and> cont c \<and> utf8_ok r3
              else case r3 of
                [] \<Rightarrow> False
              | d # r4 \<Rightarrow>
                  0xF0 \<le> a \<and> a \<le> 0xF4 \<and> cont b \<and> (a = 0xF0 \<longrightarrow> 0x90 \<le> b) \<and> (a = 0xF4 \<longrightarrow> b \<le> 0x8F) \<and>
                  cont c \<and> cont d \<and> utf8_ok r4)"

text \<open>The closure \<open>cstr\<close>: where the string that starts at \<open>at\<close> ends.\<close>

definition cstr :: "u8 list \<Rightarrow> nat \<Rightarrow> nat option" where
  "cstr b at =
     (if at \<le> length b then map_option (\<lambda>k. k + at) (position (\<lambda>c. c = 0) (drop at b)) else None)"

text \<open>The bytes \<open>b[from..to]\<close> as a \<open>&str\<close>.\<close>

definition str_at :: "u8 list \<Rightarrow> nat \<Rightarrow> nat \<Rightarrow> u8 list option" where
  "str_at b from to = (let s = slice from (to - from) b in if utf8_ok s then Some s else None)"

text \<open>\<open>next_multiple_of\<close> on a \<open>usize\<close>.\<close>

definition round_up :: "nat \<Rightarrow> nat \<Rightarrow> nat" where
  "round_up n m = (if n mod m = 0 then n else n + (m - n mod m))"

lemma round_up_ge: "n \<le> round_up n m"
  by (simp add: round_up_def)

text \<open>A literal of the source as bytes.\<close>

definition ascii :: "string \<Rightarrow> u8 list" where
  "ascii s = map (\<lambda>c. of_nat (of_char c)) s"

text \<open>\<open>format!("/{}", stack[1..].join("/"))\<close>\<close>

fun join :: "u8 list list \<Rightarrow> u8 list" where
  "join [] = []"
| "join [x] = x"
| "join (x # y # r) = x @ ascii ''/'' @ join (y # r)"

definition node_path :: "u8 list list \<Rightarrow> u8 list" where
  "node_path stack = ascii ''/'' @ join (tl stack)"

section \<open>The walk over the struct block\<close>

abbreviation FDT_BEGIN_NODE :: u32 where "FDT_BEGIN_NODE \<equiv> 1"
abbreviation FDT_END_NODE :: u32 where "FDT_END_NODE \<equiv> 2"
abbreviation FDT_PROP :: u32 where "FDT_PROP \<equiv> 3"
abbreviation FDT_NOP :: u32 where "FDT_NOP \<equiv> 4"
abbreviation FDT_MAGIC :: u32 where "FDT_MAGIC \<equiv> 0xD00DFEED"

text \<open>A range \<open>start..end\<close> of the blob.\<close>

type_synonym range = "nat \<times> nat"

text \<open>
  One token. The loop goes on at the next offset with the node stack, the stack being
  a list with the innermost node last; or the walk ends with the value it returns.
\<close>

definition prop_token ::
  "u8 list \<Rightarrow> nat \<Rightarrow> nat \<Rightarrow> u8 list \<Rightarrow> u8 list \<Rightarrow> u8 list \<Rightarrow> nat \<Rightarrow> u8 list list
    \<Rightarrow> range option + nat \<times> u8 list list" where
  "prop_token blob off_struct off_strings s path name i stack =
     (case be32 s i of
        None \<Rightarrow> Inl None
      | Some len \<Rightarrow>
     (case be32 s (i + 4) of
        None \<Rightarrow> Inl None
      | Some no \<Rightarrow>
          let len = unat len; nameoff = off_strings + unat no; i = i + 8;
              start = off_struct + i; stop = off_struct + (i + len)
          in if length blob < stop then Inl None
          else case Option.bind (cstr blob nameoff) (str_at blob nameoff) of
            None \<Rightarrow> Inl None
          | Some pname \<Rightarrow>
              if pname = name \<and> 1 < length stack \<and> node_path stack = path
              then Inl (Some (start, stop))
              else Inr (round_up (i + len) 4, stack)))"

definition fdt_token ::
  "u8 list \<Rightarrow> nat \<Rightarrow> nat \<Rightarrow> u8 list \<Rightarrow> u8 list \<Rightarrow> u8 list \<Rightarrow> nat \<Rightarrow> u8 list list
    \<Rightarrow> range option + nat \<times> u8 list list" where
  "fdt_token blob off_struct off_strings s path name i stack =
     (case be32 s i of
        None \<Rightarrow> Inl None
      | Some token \<Rightarrow>
          let i = i + 4 in
          if token = FDT_BEGIN_NODE
          then (case cstr s i of
                  None \<Rightarrow> Inl None
                | Some stop \<Rightarrow>
                    (case str_at s i stop of
                       None \<Rightarrow> Inl None
                     | Some node \<Rightarrow> Inr (round_up (stop + 1) 4, stack @ [node])))
          else if token = FDT_END_NODE then Inr (i, butlast stack)
          else if token = FDT_PROP then prop_token blob off_struct off_strings s path name i stack
          else if token = FDT_NOP then Inr (i, stack)
          else Inl None)"

lemma cstr_ge: "cstr b at = Some k \<Longrightarrow> at \<le> k"
  by (auto simp: cstr_def split: if_splits)

lemma prop_token_advances: "prop_token blob os on s path name i stack = Inr (j, st) \<Longrightarrow> i < j"
  using round_up_ge [of "i + 8 + k" 4 for k]
  by (fastforce simp: prop_token_def Let_def split: option.splits if_splits
      intro: less_le_trans [OF _ round_up_ge])

lemma fdt_token_advances: "fdt_token blob os on s path name i stack = Inr (j, st) \<Longrightarrow> i < j"
  by (auto simp: fdt_token_def Let_def dest!: prop_token_advances cstr_ge
      split: option.splits if_splits intro: less_le_trans [OF _ round_up_ge])

function fdt_walk ::
  "u8 list \<Rightarrow> nat \<Rightarrow> nat \<Rightarrow> u8 list \<Rightarrow> u8 list \<Rightarrow> u8 list \<Rightarrow> nat \<Rightarrow> u8 list list \<Rightarrow> range option" where
  "fdt_walk blob off_struct off_strings s path name i stack =
     (if i + 4 \<le> length s
      then case fdt_token blob off_struct off_strings s path name i stack of
             Inl r \<Rightarrow> r
           | Inr (j, stack') \<Rightarrow> fdt_walk blob off_struct off_strings s path name j stack'
      else None)"
  by pat_completeness auto
termination
  by (relation "measure (\<lambda>(blob, os, on, s, path, name, i, stack). length s - i)")
    (auto dest: fdt_token_advances sym [THEN fdt_token_advances])

declare fdt_walk.simps [simp del]

definition prop_range :: "u8 list \<Rightarrow> u8 list \<Rightarrow> u8 list \<Rightarrow> range option" where
  "prop_range blob path name =
     (case be32 blob 0 of
        None \<Rightarrow> None
      | Some magic \<Rightarrow>
          if magic \<noteq> FDT_MAGIC then None
          else case (be32 blob 8, be32 blob 12, be32 blob 36) of
            (Some off_struct, Some off_strings, Some size_struct) \<Rightarrow>
              (case get_range (unat off_struct) (unat size_struct) blob of
                 None \<Rightarrow> None
               | Some s \<Rightarrow> fdt_walk blob (unat off_struct) (unat off_strings) s path name 0 [])
          | _ \<Rightarrow> None)"

definition fdt_prop :: "u8 list \<Rightarrow> u8 list \<Rightarrow> u8 list \<Rightarrow> u8 list option" where
  "fdt_prop blob path name = map_option (\<lambda>(start, stop). slice start (stop - start) blob) (prop_range blob path name)"

text \<open>What \<open>set_u64\<close> refuses with: no such property, or one of another length.\<close>

datatype fdt_error = NoProperty | WrongLength nat

definition set_u64 :: "u8 list \<Rightarrow> u8 list \<Rightarrow> u8 list \<Rightarrow> u64 \<Rightarrow> fdt_error + u8 list" where
  "set_u64 blob path name value =
     (case prop_range blob path name of
        None \<Rightarrow> Inl NoProperty
      | Some (start, stop) \<Rightarrow>
          if stop - start \<noteq> 8 then Inl (WrongLength (stop - start))
          else Inr (splice start (to_be 8 value) blob))"

end
