(* ===== verification/Elf.thy ===== *)
theory Elf
  imports Devices Fdt
begin

text \<open>
  \<open>rv64-host/src/elf.rs\<close>: the ELF64 loader. Offsets come from 64-bit fields of the file, so
  they are words here and their sums wrap, as they do in a release build; \<open>bytes.get\<close> then
  refuses a range whose end lies before its start.
\<close>

section \<open>Reading fields\<close>

text \<open>\<open>b.get(off..end)\<close>\<close>

definition get_words :: "u64 \<Rightarrow> u64 \<Rightarrow> 'a list \<Rightarrow> 'a list option" where
  "get_words off stop b =
     (if off \<le> stop \<and> unat stop \<le> length b then Some (slice (unat off) (unat stop - unat off) b) else None)"

definition u16_at :: "u8 list \<Rightarrow> u64 \<Rightarrow> u16 option" where
  "u16_at b off = map_option from_le (get_words off (off + 2) b)"

definition u32_at :: "u8 list \<Rightarrow> u64 \<Rightarrow> u32 option" where
  "u32_at b off = map_option from_le (get_words off (off + 4) b)"

definition u64_at :: "u8 list \<Rightarrow> u64 \<Rightarrow> u64 option" where
  "u64_at b off = map_option from_le (get_words off (off + 8) b)"

datatype elf_error = NotAnElf64Riscv | Truncated | Unmapped u64

record elf_header =
  entry :: u64
  phoff :: u64
  phentsize :: u16
  phnum :: u16
  shoff :: u64
  shentsize :: u16
  shnum :: u16

abbreviation EI_CLASS :: nat where "EI_CLASS \<equiv> 4"
abbreviation EI_DATA :: nat where "EI_DATA \<equiv> 5"
abbreviation ELFCLASS64 :: u8 where "ELFCLASS64 \<equiv> 2"
abbreviation ELFDATA2LSB :: u8 where "ELFDATA2LSB \<equiv> 1"
abbreviation EM_RISCV :: u16 where "EM_RISCV \<equiv> 243"
abbreviation PT_LOAD :: u32 where "PT_LOAD \<equiv> 1"
abbreviation SHT_SYMTAB :: u32 where "SHT_SYMTAB \<equiv> 2"
abbreviation EHDR_LEN :: nat where "EHDR_LEN \<equiv> 64"
abbreviation PHDR_LEN :: nat where "PHDR_LEN \<equiv> 56"
abbreviation SHDR_LEN :: nat where "SHDR_LEN \<equiv> 64"
abbreviation SYM_LEN :: u64 where "SYM_LEN \<equiv> 24"

definition ELF_MAGIC :: "u8 list" where
  "ELF_MAGIC = [0x7F, 0x45, 0x4C, 0x46]"

text \<open>\<open>o.ok_or(Error::Truncated)?\<close> in a function that changes nothing.\<close>

definition or_truncated :: "'a option \<Rightarrow> ('a \<Rightarrow> elf_error + 'b) \<Rightarrow> elf_error + 'b" where
  "or_truncated x f = (case x of None \<Rightarrow> Inl Truncated | Some a \<Rightarrow> f a)"

definition header :: "u8 list \<Rightarrow> elf_error + elf_header" where
  "header bytes =
     (if length bytes < EHDR_LEN \<or> take 4 bytes \<noteq> ELF_MAGIC \<or> bytes ! EI_CLASS \<noteq> ELFCLASS64 \<or>
         bytes ! EI_DATA \<noteq> ELFDATA2LSB \<or> u16_at bytes 18 \<noteq> Some EM_RISCV
      then Inl NotAnElf64Riscv
      else or_truncated (u64_at bytes 24) (\<lambda>e. or_truncated (u64_at bytes 32) (\<lambda>po.
           or_truncated (u16_at bytes 54) (\<lambda>ps. or_truncated (u16_at bytes 56) (\<lambda>pn.
           or_truncated (u64_at bytes 40) (\<lambda>so. or_truncated (u16_at bytes 58) (\<lambda>ss.
           or_truncated (u16_at bytes 60) (\<lambda>sn.
             Inr \<lparr>entry = e, phoff = po, phentsize = ps, phnum = pn, shoff = so, shentsize = ss, shnum = sn\<rparr>))))))))"

section \<open>Segments\<close>

text \<open>The closure \<open>byte_of\<close>: past the data of the file the segment is zero.\<close>

definition byte_of :: "u8 list \<Rightarrow> u64 \<Rightarrow> u8" where
  "byte_of data i = (if unat i < length data then data ! unat i else 0)"

lemma off_step:
  fixes off tot :: u64
  assumes "off < tot" and "of_nat n \<le> tot - off" and "0 < n" and "n \<le> 8"
  shows "unat (off + of_nat n) = unat off + n" and "unat off + n \<le> unat tot"
proof -
  have n: "unat (of_nat n :: u64) = n" using assms(4) by (simp only: unat_of_nat) simp
  have "unat (tot - off) = unat tot - unat off" using assms(1) by (intro unat_sub) simp
  with assms(1,2) n show le: "unat off + n \<le> unat tot" by (simp add: word_le_nat_alt word_less_nat_alt)
  have "unat tot < 2 ^ 64" using unsigned_less [of tot] by simp
  with le n show "unat (off + of_nat n) = unat off + n" by (simp add: unat_word_ariths)
qed

lemma off_step_one:
  fixes off tot :: u64
  assumes "off < tot"
  shows "unat (off + 1) = unat off + 1" and "unat off + 1 \<le> unat tot"
proof -
  have "(1 :: u64) \<le> tot - off"
    using assms by (simp add: word_le_nat_alt unat_sub order_less_imp_le word_less_nat_alt)
  with off_step [OF assms, of 1] show "unat (off + 1) = unat off + 1" and "unat off + 1 \<le> unat tot" by simp_all
qed

text \<open>The loop of \<open>write_segment\<close>, eight bytes at a time where the address and the rest allow it.\<close>

function segment_loop ::
  "'b backing_ops \<Rightarrow> (u8 \<Rightarrow> 's \<Rightarrow> 's) \<Rightarrow> u64 \<Rightarrow> u8 list \<Rightarrow> u64 \<Rightarrow> u64 \<Rightarrow> (('b, 's) bus, elf_error, unit) sm" where
  "segment_loop B put addr data tot off =
     (if off < tot
      then let a = addr + off in
        if a mod 8 = 0 \<and> 8 \<le> tot - off
        then sm_bind (sm_map_err (\<lambda>_. Unmapped a)
               (bus_store B put a 8 (from_le (map (\<lambda>i. byte_of data (off + of_nat i)) [0..<8]))))
               (\<lambda>_. segment_loop B put addr data tot (off + 8))
        else sm_bind (sm_map_err (\<lambda>_. Unmapped a) (bus_store B put a 1 (ucast (byte_of data off))))
               (\<lambda>_. segment_loop B put addr data tot (off + 1))
      else sm_return ())"
  by pat_completeness auto
termination
proof (relation "measure (\<lambda>(B, put, addr, data, tot, off). unat tot - unat off)", goal_cases)
  case (2 B put addr data tot off a)
  then show ?case using off_step [of off tot 8] by (simp add: word_less_nat_alt)
next
  case (3 B put addr data tot off a)
  then show ?case using off_step_one [of off tot] by (simp add: word_less_nat_alt)
qed simp

declare segment_loop.simps [simp del]

definition write_segment ::
  "'b backing_ops \<Rightarrow> (u8 \<Rightarrow> 's \<Rightarrow> 's) \<Rightarrow> u64 \<Rightarrow> u8 list \<Rightarrow> u64 \<Rightarrow> (('b, 's) bus, elf_error, unit) sm" where
  "write_segment B put addr data memsz = segment_loop B put addr data (max memsz (of_nat (length data))) 0"

text \<open>
  The program header at \<open>base\<close>: None when it is not a loadable segment, otherwise its address,
  the file bytes it carries and its size in memory.
\<close>

definition load_phdr :: "u8 list \<Rightarrow> u64 \<Rightarrow> elf_error + (u64 \<times> u8 list \<times> u64) option" where
  "load_phdr bytes base =
     or_truncated (u32_at bytes base) (\<lambda>ty.
     if ty \<noteq> PT_LOAD then Inr None
     else or_truncated (u64_at bytes (base + 8)) (\<lambda>offset. or_truncated (u64_at bytes (base + 24)) (\<lambda>paddr.
          or_truncated (u64_at bytes (base + 32)) (\<lambda>filesz. or_truncated (u64_at bytes (base + 40)) (\<lambda>memsz.
          if 2 ^ 64 \<le> unat offset + unat filesz then Inl Truncated
          else or_truncated (get_words offset (offset + filesz) bytes) (\<lambda>data.
            Inr (Some (paddr, data, memsz))))))))"

definition phdr_base :: "elf_header \<Rightarrow> nat \<Rightarrow> u64" where
  "phdr_base h i = phoff h + of_nat i * ucast (phentsize h)"

definition load_segment ::
  "'b backing_ops \<Rightarrow> (u8 \<Rightarrow> 's \<Rightarrow> 's) \<Rightarrow> u8 list \<Rightarrow> u64 \<Rightarrow> (('b, 's) bus, elf_error, unit) sm" where
  "load_segment B put bytes base =
     sm_bind (sm_result (load_phdr bytes base)) (\<lambda>seg.
     case seg of
       None \<Rightarrow> sm_return ()
     | Some (paddr, data, memsz) \<Rightarrow> write_segment B put paddr data memsz)"

text \<open>The name of the loader has its file in front: \<open>load\<close> is also an operation of the bus.\<close>

definition elf_load :: "'b backing_ops \<Rightarrow> (u8 \<Rightarrow> 's \<Rightarrow> 's) \<Rightarrow> u8 list \<Rightarrow> (('b, 's) bus, elf_error, u64) sm" where
  "elf_load B put bytes =
     sm_bind (sm_result (header bytes)) (\<lambda>h.
     if phnum h \<noteq> 0 \<and> unat (phentsize h) < PHDR_LEN then sm_err Truncated
     else sm_bind (sm_for [0..<unat (phnum h)] (\<lambda>i. load_segment B put bytes (phdr_base h i))) (\<lambda>_.
       sm_return (entry h)))"

section \<open>The extent of an object\<close>

fun extent_loop :: "u8 list \<Rightarrow> elf_header \<Rightarrow> nat list \<Rightarrow> u64 \<Rightarrow> elf_error + u64" where
  "extent_loop bytes h [] hi = Inr hi"
| "extent_loop bytes h (i # is) hi =
     (let base = phdr_base h i in
      or_truncated (u32_at bytes base) (\<lambda>ty.
      if ty \<noteq> PT_LOAD then extent_loop bytes h is hi
      else or_truncated (u64_at bytes (base + 24)) (\<lambda>paddr. or_truncated (u64_at bytes (base + 40)) (\<lambda>memsz.
           extent_loop bytes h is (max hi (saturating_add paddr (unat memsz)))))))"

definition extent :: "u8 list \<Rightarrow> elf_error + u64" where
  "extent bytes =
     (case header bytes of
        Inl e \<Rightarrow> Inl e
      | Inr h \<Rightarrow>
          if phnum h \<noteq> 0 \<and> unat (phentsize h) < PHDR_LEN then Inl Truncated
          else extent_loop bytes h [0..<unat (phnum h)] 0)"

section \<open>Symbols\<close>

text \<open>
  The search of one symbol table, and of one section: \<open>Some r\<close> is a \<open>return r\<close> of the function
  (a field past the end of the file is \<open>return None\<close>), \<open>None\<close> goes on with the next entry.
\<close>

fun symbol_search :: "u8 list \<Rightarrow> u8 list \<Rightarrow> u8 list \<Rightarrow> u64 \<Rightarrow> u64 \<Rightarrow> nat list \<Rightarrow> u64 option option" where
  "symbol_search bytes strs name sym_off entsize [] = None"
| "symbol_search bytes strs name sym_off entsize (n # ns) =
     (let s = sym_off + of_nat n * entsize in
      case u32_at bytes s of
        None \<Rightarrow> symbol_search bytes strs name sym_off entsize ns
      | Some st_name \<Rightarrow>
          if length strs < unat st_name then symbol_search bytes strs name sym_off entsize ns
          else if takeWhile (\<lambda>c. c \<noteq> 0) (drop (unat st_name) strs) = name then Some (u64_at bytes (s + 8))
          else symbol_search bytes strs name sym_off entsize ns)"

text \<open>\<open>let x = o?; f(x)\<close> where the result so far is \<open>return None\<close>.\<close>

definition or_return :: "'a option \<Rightarrow> ('a \<Rightarrow> 'b option option) \<Rightarrow> 'b option option" where
  "or_return x f = (case x of None \<Rightarrow> Some None | Some a \<Rightarrow> f a)"

definition section_search :: "u8 list \<Rightarrow> elf_header \<Rightarrow> u8 list \<Rightarrow> nat \<Rightarrow> u64 option option" where
  "section_search bytes h name i =
     (let sh = shoff h + of_nat i * ucast (shentsize h) in
      or_return (u32_at bytes (sh + 4)) (\<lambda>ty.
      if ty \<noteq> SHT_SYMTAB then None
      else or_return (u64_at bytes (sh + 24)) (\<lambda>sym_off. or_return (u64_at bytes (sh + 32)) (\<lambda>sym_size.
           or_return (u64_at bytes (sh + 56)) (\<lambda>entsize.
           if entsize < SYM_LEN then None
           else or_return (u32_at bytes (sh + 40)) (\<lambda>link.
             let strtab = shoff h + ucast link * ucast (shentsize h) in
             or_return (u64_at bytes (strtab + 24)) (\<lambda>str_off. or_return (u64_at bytes (strtab + 32)) (\<lambda>str_size.
             if 2 ^ 64 \<le> unat str_off + unat str_size then Some None
             else or_return (get_words str_off (str_off + str_size) bytes) (\<lambda>strs.
               symbol_search bytes strs name sym_off entsize [0..<unat (sym_size div entsize)])))))))))"

fun sections_search :: "u8 list \<Rightarrow> elf_header \<Rightarrow> u8 list \<Rightarrow> nat list \<Rightarrow> u64 option" where
  "sections_search bytes h name [] = None"
| "sections_search bytes h name (i # is) =
     (case section_search bytes h name i of Some r \<Rightarrow> r | None \<Rightarrow> sections_search bytes h name is)"

definition find_symbol :: "u8 list \<Rightarrow> u8 list \<Rightarrow> u64 option" where
  "find_symbol bytes name =
     (case header bytes of
        Inl _ \<Rightarrow> None
      | Inr h \<Rightarrow> if unat (shentsize h) < SHDR_LEN then None else sections_search bytes h name [0..<unat (shnum h)])"

end
