(* ===== verification/Boot.thy ===== *)
theory Boot
  imports Elf Cpu
begin

text \<open>
  The image loader of \<open>rv64-host/src/lib.rs\<close>: where the kernel, the device tree and the initrd
  go in guest memory, and the hart that starts the kernel. The strings of its errors are
  constructors here, with the values the text quotes.
\<close>

section \<open>Raw blobs\<close>

function write_blob_from ::
  "'b backing_ops \<Rightarrow> (u8 \<Rightarrow> 's \<Rightarrow> 's) \<Rightarrow> u64 \<Rightarrow> u8 list \<Rightarrow> nat \<Rightarrow> (('b, 's) bus, exception, unit) sm" where
  "write_blob_from B put addr data off =
     (if off < length data
      then let a = addr + of_nat off in
        if a mod 8 = 0 \<and> 8 \<le> length data - off
        then sm_bind (bus_store B put a 8 (from_le (slice off 8 data))) (\<lambda>_. write_blob_from B put addr data (off + 8))
        else sm_bind (bus_store B put a 1 (ucast (data ! off))) (\<lambda>_. write_blob_from B put addr data (off + 1))
      else sm_return ())"
  by pat_completeness auto
termination
  by (relation "measure (\<lambda>(B, put, addr, data, off). length data - off)") auto

declare write_blob_from.simps [simp del]

definition write_blob ::
  "'b backing_ops \<Rightarrow> (u8 \<Rightarrow> 's \<Rightarrow> 's) \<Rightarrow> u64 \<Rightarrow> u8 list \<Rightarrow> (('b, 's) bus, exception, unit) sm" where
  "write_blob B put addr data = write_blob_from B put addr data 0"

section \<open>The boot header of a raw kernel image\<close>

abbreviation KERNEL_LOAD_ADDR :: u64 where "KERNEL_LOAD_ADDR \<equiv> 0x80200000"
abbreviation RISCV_IMAGE_HEADER_LEN :: nat where "RISCV_IMAGE_HEADER_LEN \<equiv> 64"

definition RISCV_IMAGE_MAGIC2 :: "u8 list" where
  "RISCV_IMAGE_MAGIC2 = [0x52, 0x53, 0x43, 0x05]"

definition has_riscv_image_header :: "u8 list \<Rightarrow> bool" where
  "has_riscv_image_header bytes \<longleftrightarrow>
     RISCV_IMAGE_HEADER_LEN \<le> length bytes \<and> slice 56 4 bytes = RISCV_IMAGE_MAGIC2"

definition riscv_image_footprint :: "u8 list \<Rightarrow> u64 option" where
  "riscv_image_footprint bytes =
     (if \<not> has_riscv_image_header bytes then None
      else let size = from_le (slice 16 8 bytes) in
        if of_nat (length bytes) \<le> size then Some size else None)"

definition riscv_image_text_offset :: "u8 list \<Rightarrow> u64 option" where
  "riscv_image_text_offset bytes =
     (if has_riscv_image_header bytes then Some (from_le (slice 8 8 bytes)) else None)"

section \<open>The kernel\<close>

datatype kernel_error = BrokenElf elf_error | OtherTextOffset u64 | DoesNotFit exception | SizeOverflows u64

definition starts_with :: "u8 list \<Rightarrow> u8 list \<Rightarrow> bool" where
  "starts_with bytes p \<longleftrightarrow> take (length p) bytes = p"

definition load_kernel ::
  "'b backing_ops \<Rightarrow> (u8 \<Rightarrow> 's \<Rightarrow> 's) \<Rightarrow> u8 list \<Rightarrow> (('b, 's) bus, kernel_error, u64) sm" where
  "load_kernel B put bytes =
     (if starts_with bytes ELF_MAGIC
      then sm_bind (sm_map_err BrokenElf (elf_load B put bytes)) (\<lambda>_.
        sm_map_err BrokenElf (sm_result (extent bytes)))
      else
        sm_bind (case riscv_image_text_offset bytes of
                   Some want \<Rightarrow> if want \<noteq> KERNEL_LOAD_ADDR - RAM_BASE then sm_err (OtherTextOffset want) else sm_return ()
                 | None \<Rightarrow> sm_return ()) (\<lambda>_.
        sm_bind (sm_map_err DoesNotFit (write_blob B put KERNEL_LOAD_ADDR bytes)) (\<lambda>_.
        let span = (case riscv_image_footprint bytes of Some s \<Rightarrow> s | None \<Rightarrow> of_nat (length bytes)) in
        if 2 ^ 64 \<le> unat KERNEL_LOAD_ADDR + unat span then sm_err (SizeOverflows span)
        else sm_return (KERNEL_LOAD_ADDR + span))))"

section \<open>Placement\<close>

record boot_layout =
  dtb :: u64
  initrd :: "(u64 \<times> u64) option"

text \<open>\<open>next_multiple_of\<close> on a \<open>u64\<close>; the sum wraps in a release build.\<close>

definition round_up64 :: "u64 \<Rightarrow> u64 \<Rightarrow> u64" where
  "round_up64 n m = (if n mod m = 0 then n else n + (m - n mod m))"

text \<open>The error is the top the images reach.\<close>

definition place :: "u64 \<Rightarrow> nat \<Rightarrow> nat option \<Rightarrow> u64 + boot_layout" where
  "place kernel_end dtb_len initrd_len =
     (let page = of_nat PAGE; ram_end = RAM_BASE + RAM_SIZE;
          d = round_up64 kernel_end 8; dtb_end = d + of_nat dtb_len;
          ir = (case initrd_len of
                  None \<Rightarrow> None
                | Some len \<Rightarrow> let start = round_up64 dtb_end page in Some (start, start + of_nat len));
          top = (case ir of None \<Rightarrow> dtb_end | Some (_, e) \<Rightarrow> e)
      in if ram_end < top then Inl top else Inr \<lparr>dtb = d, initrd = ir\<rparr>)"

datatype boot_error =
    KernelErr kernel_error
  | LayoutErr u64
  | DtbNotPatched fdt_error
  | DtbNotPlaced exception
  | InitrdErr exception

text \<open>The two properties of \<open>/chosen\<close> that tell the kernel where its initrd is.\<close>

definition initrd_start_prop :: "u8 list" where "initrd_start_prop = ascii ''linux,initrd-start''"
definition initrd_end_prop :: "u8 list" where "initrd_end_prop = ascii ''linux,initrd-end''"

definition record_initrd :: "(u64 \<times> u64) option \<Rightarrow> u8 list \<Rightarrow> fdt_error + u8 list" where
  "record_initrd ir tree =
     (case ir of
        None \<Rightarrow> Inr tree
      | Some (start, stop) \<Rightarrow>
          (case set_u64 tree (ascii ''/chosen'') initrd_start_prop start of
             Inl e \<Rightarrow> Inl e
           | Inr tree \<Rightarrow> set_u64 tree (ascii ''/chosen'') initrd_end_prop stop))"

definition boot_cpu :: "u64 \<Rightarrow> cpu" where
  "boot_cpu at = set_reg 11 at (set_reg 10 0 ((cpu_new KERNEL_LOAD_ADDR)\<lparr>priv_mode := S\<rparr>))"

definition load_boot_images ::
  "'b backing_ops \<Rightarrow> (u8 \<Rightarrow> 's \<Rightarrow> 's) \<Rightarrow> u8 list \<Rightarrow> u8 list \<Rightarrow> u8 list option
    \<Rightarrow> (('b, 's) bus, boot_error, cpu \<times> boot_layout) sm" where
  "load_boot_images B put kern tree ramdisk =
     sm_bind (sm_map_err KernelErr (load_kernel B put kern)) (\<lambda>kernel_end.
     sm_bind (sm_map_err LayoutErr (sm_result (place kernel_end (length tree) (map_option length ramdisk)))) (\<lambda>layout.
     sm_bind (sm_map_err DtbNotPatched (sm_result (record_initrd (initrd layout) tree))) (\<lambda>tree.
     sm_bind (sm_map_err DtbNotPlaced (write_blob B put (dtb layout) tree)) (\<lambda>_.
     sm_bind (case (ramdisk, initrd layout) of
                (Some bytes, Some (start, _)) \<Rightarrow> sm_map_err InitrdErr (write_blob B put start bytes)
              | _ \<Rightarrow> sm_return ()) (\<lambda>_.
     sm_return (boot_cpu (dtb layout), layout))))))"

end
