(* ===== verification/Fdt_Props.thy ===== *)
theory Fdt_Props
  imports Fdt
begin

text \<open>
  Overwriting a property of a device tree: the bytes that change, and why every lookup in the
  patched tree walks it as before. The walk never reads the value of a property, so two trees that
  differ in one value only are the same to it.
\<close>

section \<open>Byte strings that agree on a set of positions\<close>

definition agree :: "nat set \<Rightarrow> 'a list \<Rightarrow> 'a list \<Rightarrow> bool" where
  "agree A xs ys \<longleftrightarrow> length ys = length xs \<and> (\<forall>k \<in> A. k < length xs \<longrightarrow> ys ! k = xs ! k)"

lemma agree_mono: "agree A xs ys \<Longrightarrow> B \<subseteq> A \<Longrightarrow> agree B xs ys"
  by (auto simp: agree_def)

lemma agree_slice: "agree A xs ys \<Longrightarrow> {off..<off + n} \<subseteq> A \<Longrightarrow> slice off n ys = slice off n xs"
  by (rule nth_equalityI) (auto simp: agree_def slice_def subset_iff)

lemma agree_of_slice: "agree A xs ys \<Longrightarrow> (\<And>k. k \<in> B \<Longrightarrow> off + k \<in> A) \<Longrightarrow> agree B (slice off n xs) (slice off n ys)"
  by (auto simp: agree_def slice_def)

lemma agree_be32: "agree A xs ys \<Longrightarrow> {i..<i + 4} \<subseteq> A \<Longrightarrow> be32 ys i = be32 xs i"
  by (simp add: be32_def get_range_def agree_slice) (simp add: agree_def)

lemma agree_splice: "off + length bs \<le> length xs \<Longrightarrow> agree (- {off..<off + length bs}) xs (splice off bs xs)"
  by (auto simp: agree_def length_splice nth_splice)

lemma position_Some_iff:
  "position P xs = Some i \<longleftrightarrow> i < length xs \<and> P (xs ! i) \<and> (\<forall>j < i. \<not> P (xs ! j))"
proof
  assume i: "i < length xs \<and> P (xs ! i) \<and> (\<forall>j < i. \<not> P (xs ! j))"
  then obtain k where k: "position P xs = Some k" using position_None [of P xs] by fastforce
  with position_Some [OF k] i show "position P xs = Some i" by (metis nat_neq_iff)
qed (rule position_Some)

lemma cstr_Some:
  "cstr b at = Some k \<longleftrightarrow> at \<le> k \<and> k < length b \<and> b ! k = 0 \<and> (\<forall>m. at \<le> m \<and> m < k \<longrightarrow> b ! m \<noteq> 0)"
proof (cases "at \<le> k \<and> k < length b")
  case True
  have "(\<forall>m < k - at. b ! (at + m) \<noteq> 0) \<longleftrightarrow> (\<forall>m. at \<le> m \<and> m < k \<longrightarrow> b ! m \<noteq> 0)"
  proof (intro iffI allI impI)
    fix m assume h: "\<forall>m < k - at. b ! (at + m) \<noteq> 0" and m: "at \<le> m \<and> m < k"
    then have "m - at < k - at" by arith
    from h [rule_format, OF this] m show "b ! m \<noteq> 0" by simp
  qed simp
  moreover have "cstr b at = Some k \<longleftrightarrow> position (\<lambda>c. c = 0) (drop at b) = Some (k - at)"
    using True by (auto simp: cstr_def)
  ultimately show ?thesis using True by (auto simp: position_Some_iff)
next
  case False
  then show ?thesis by (auto simp: cstr_def position_Some_iff)
qed

lemma agree_cstr: "agree A xs ys \<Longrightarrow> cstr xs at = Some k \<Longrightarrow> {at..k} \<subseteq> A \<Longrightarrow> cstr ys at = Some k"
  by (auto simp: cstr_Some agree_def subset_iff)

lemma agree_sym: "agree A xs ys \<Longrightarrow> agree A ys xs"
  by (auto simp: agree_def)

lemma agree_cstr_from: "agree {at..} xs ys \<Longrightarrow> cstr ys at = cstr xs at"
  by (cases "cstr xs at"; cases "cstr ys at") (auto dest: agree_cstr agree_cstr [OF agree_sym])

lemma agree_str_at: "agree A xs ys \<Longrightarrow> {from..<to} \<subseteq> A \<Longrightarrow> from \<le> to \<Longrightarrow> str_at ys from to = str_at xs from to"
  using agree_slice [of A xs ys "from" "to - from"] by (simp add: str_at_def)

section \<open>The walk reads no value\<close>

text \<open>The name of a property, from the strings block.\<close>

definition name_at :: "u8 list \<Rightarrow> nat \<Rightarrow> u8 list option" where
  "name_at blob at = Option.bind (cstr blob at) (str_at blob at)"

lemma agree_name: "agree {on..} blob blob' \<Longrightarrow> on \<le> at \<Longrightarrow> name_at blob' at = name_at blob at"
proof -
  assume a: "agree {on..} blob blob'" and le: "on \<le> at"
  have c: "cstr blob' at = cstr blob at" using a le by (intro agree_cstr_from) (auto elim: agree_mono)
  show "name_at blob' at = name_at blob at"
  proof (cases "cstr blob at")
    case (Some k)
    then have "str_at blob' at k = str_at blob at k"
      using le by (intro agree_str_at [OF a]) (auto simp: cstr_Some)
    with Some c show ?thesis by (simp add: name_at_def)
  qed (use c in \<open>simp add: name_at_def\<close>)
qed

lemma prop_token_cong:
  assumes "agree {on..} blob blob'" and "be32 s' i = be32 s i" and "be32 s' (i + 4) = be32 s (i + 4)"
  shows "prop_token blob' os on s' P N i st = prop_token blob os on s P N i st"
proof -
  have "Option.bind (cstr blob' (on + k)) (str_at blob' (on + k)) = Option.bind (cstr blob (on + k)) (str_at blob (on + k))" for k
    using agree_name [OF assms(1), of "on + k"] by (simp add: name_at_def)
  moreover have "length blob' = length blob" using assms(1) by (simp add: agree_def)
  ultimately show ?thesis by (simp add: prop_token_def Let_def assms(2,3) split: option.split)
qed

lemma fdt_token_cong:
  assumes "agree {on..} blob blob'" and "be32 s' i = be32 s i"
    and "be32 s i = Some FDT_PROP \<Longrightarrow> be32 s' (i + 4) = be32 s (i + 4) \<and> be32 s' (i + 8) = be32 s (i + 8)"
    and "be32 s i = Some FDT_BEGIN_NODE \<Longrightarrow> cstr s' (i + 4) = cstr s (i + 4)"
    and "\<And>k. be32 s i = Some FDT_BEGIN_NODE \<Longrightarrow> cstr s (i + 4) = Some k \<Longrightarrow> str_at s' (i + 4) k = str_at s (i + 4) k"
  shows "fdt_token blob' os on s' P N i st = fdt_token blob os on s P N i st"
proof (cases "be32 s i")
  case (Some t)
  show ?thesis
  proof (cases "t = FDT_PROP")
    case True
    with Some assms(2,3) prop_token_cong [OF assms(1), of s' "i + 4" s os P N st] show ?thesis
      by (simp add: fdt_token_def add.assoc)
  next
    case False
    with Some assms(2,4,5) show ?thesis by (auto simp: fdt_token_def Let_def split: option.split)
  qed
qed (simp add: fdt_token_def assms(2))

text \<open>A walk that starts past every changed byte.\<close>

lemma fdt_token_after:
  assumes "agree {on..} blob blob'" and "agree {i..} s s'"
  shows "fdt_token blob' os on s' P N i st = fdt_token blob os on s P N i st"
proof (rule fdt_token_cong [OF assms(1)])
  show "cstr s' (i + 4) = cstr s (i + 4)"
    by (rule agree_cstr_from, rule agree_mono [OF assms(2)]) auto
  show "str_at s' (i + 4) k = str_at s (i + 4) k" if "cstr s (i + 4) = Some k" for k
    using that by (intro agree_str_at [OF assms(2)]) (auto simp: cstr_Some)
qed (auto intro!: agree_be32 [OF assms(2)])

lemma fdt_walk_after:
  "agree {on..} blob blob' \<Longrightarrow> agree {i..} s s' \<Longrightarrow>
   fdt_walk blob' os on s' P N i st = fdt_walk blob os on s P N i st"
proof (induction blob os on s P N i st rule: fdt_walk.induct)
  case (1 blob os on s P N i st)
  have t: "fdt_token blob' os on s' P N i st = fdt_token blob os on s P N i st"
    by (rule fdt_token_after [OF 1(2,3)])
  have l: "length s' = length s" using 1(3) by (simp add: agree_def)
  show ?case
  proof (cases "i + 4 \<le> length s \<and> (\<exists>j st'. fdt_token blob os on s P N i st = Inr (j, st'))")
    case True
    then obtain j st' where le: "i + 4 \<le> length s" and j: "fdt_token blob os on s P N i st = Inr (j, st')" by auto
    have "agree {j..} s s'" using fdt_token_advances [OF j] by (auto intro: agree_mono [OF 1(3)])
    from 1(1) [OF le j refl 1(2) this] show ?thesis by (simp add: fdt_walk.simps [of _ _ _ _ _ _ i] t l le j)
  next
    case False
    then show ?thesis
      by (auto simp: fdt_walk.simps [of _ _ _ _ _ _ i] t l split: sum.split)
  qed
qed

text \<open>The value that a walk finds lies after every token it has read.\<close>

lemma prop_token_found:
  assumes "prop_token blob os on s P N i st = Inl (Some (a, b))"
  shows "a = os + (i + 8) \<and> a \<le> b \<and> b \<le> length blob \<and>
    (\<exists>len. be32 s i = Some len \<and> b = a + unat len)"
  using assms by (auto simp: prop_token_def Let_def split: option.splits if_splits)

lemma fdt_token_found:
  assumes "fdt_token blob os on s P N i st = Inl (Some (a, b))"
  shows "a = os + (i + 12) \<and> a \<le> b \<and> b \<le> length blob \<and> be32 s i = Some FDT_PROP \<and>
    (\<exists>len. be32 s (i + 4) = Some len \<and> b = a + unat len)"
  using assms prop_token_found [of blob os on s P N "i + 4" st a b]
  by (auto simp: fdt_token_def Let_def split: option.splits if_splits)

lemma fdt_walk_found:
  "fdt_walk blob os on s P N i st = Some (a, b) \<Longrightarrow> os + (i + 12) \<le> a \<and> a \<le> b \<and> b \<le> length blob"
proof (induction blob os on s P N i st rule: fdt_walk.induct)
  case (1 blob os on s P N i st)
  have le: "i + 4 \<le> length s" using 1(2) by (auto simp: fdt_walk.simps [of _ _ _ _ _ _ i] split: if_splits)
  show ?case
  proof (cases "fdt_token blob os on s P N i st")
    case (Inl r)
    with 1(2) le show ?thesis by (auto simp: fdt_walk.simps [of _ _ _ _ _ _ i] dest!: fdt_token_found)
  next
    case (Inr p)
    obtain j st' where p: "p = (j, st')" by fastforce
    with 1(2) le Inr have "fdt_walk blob os on s P N j st' = Some (a, b)"
      by (simp add: fdt_walk.simps [of _ _ _ _ _ _ i])
    from 1(1) [OF le Inr [unfolded p] refl this] fdt_token_advances [of blob os on s P N i st j st'] Inr p show ?thesis by simp
  qed
qed

section \<open>Patched trees\<close>

lemma fdt_token_reads:
  assumes "fdt_token blob os on s P N i st = Inr (j, st')"
  shows "i + 4 \<le> j" and "be32 s i = Some FDT_PROP \<Longrightarrow> i + 12 \<le> j"
    and "be32 s i = Some FDT_BEGIN_NODE \<Longrightarrow> \<exists>k. cstr s (i + 4) = Some k \<and> k < j"
  using assms
  by (auto simp: fdt_token_def prop_token_def Let_def dest: cstr_ge split: option.splits if_splits
      intro: order_trans [OF _ round_up_ge] order_trans [OF le_SucI round_up_ge] less_le_trans [OF _ round_up_ge])

lemma fdt_token_before:
  assumes "agree {on..} blob blob'" and "agree {..<n} s s'"
    and t: "fdt_token blob os on s P N i st = Inr (j, st')" and "j \<le> n"
  shows "fdt_token blob' os on s' P' N' i st = fdt_token blob os on s P' N' i st"
proof (rule fdt_token_cong [OF assms(1)])
  show "be32 s' i = be32 s i"
    using fdt_token_reads(1) [OF t] assms(4) by (intro agree_be32 [OF assms(2)]) auto
  show "be32 s' (i + 4) = be32 s (i + 4) \<and> be32 s' (i + 8) = be32 s (i + 8)" if "be32 s i = Some FDT_PROP"
    using fdt_token_reads(2) [OF t that] assms(4) by (intro conjI agree_be32 [OF assms(2)]) auto
  assume b: "be32 s i = Some FDT_BEGIN_NODE"
  from fdt_token_reads(3) [OF t b] obtain k where k: "cstr s (i + 4) = Some k" "k < j" by blast
  with assms(4) show "cstr s' (i + 4) = cstr s (i + 4)" by (auto intro!: agree_cstr [OF assms(2)])
  show "str_at s' (i + 4) k' = str_at s (i + 4) k'" if "cstr s (i + 4) = Some k'" for k'
    using that k assms(4) cstr_ge [OF that] by (intro agree_str_at [OF assms(2)]) auto
qed

text \<open>What a search looks for decides only where it stops.\<close>

lemma fdt_token_other:
  assumes "fdt_token blob os on s P' N' i st = Inr (j', st'')"
  shows "fdt_token blob os on s P N i st = Inr (j', st'') \<or>
    (\<exists>a b. fdt_token blob os on s P N i st = Inl (Some (a, b)) \<and> b \<le> os + j')"
  using assms
  by (auto simp: fdt_token_def prop_token_def Let_def round_up_ge add.assoc split: option.splits if_splits
      intro: order_trans [OF _ round_up_ge])

lemma fdt_walk_patched:
  "fdt_walk blob os on s P N i st = Some (a, b) \<Longrightarrow> agree (- {a - os..<b - os}) s s' \<Longrightarrow> agree {on..} blob blob' \<Longrightarrow>
   fdt_walk blob' os on s' P' N' i st = fdt_walk blob os on s P' N' i st"
proof (induction blob os on s P N i st rule: fdt_walk.induct)
  case (1 blob os on s P N i st)
  let ?tok = "fdt_token blob os on s" and ?tok' = "fdt_token blob' os on s'"
  have le: "i + 4 \<le> length s" using 1(2) by (auto simp: fdt_walk.simps [of _ _ _ _ _ _ i] split: if_splits)
  have l: "length s' = length s" using 1(3) by (simp add: agree_def)
  have found: "os + (i + 12) \<le> a" using fdt_walk_found [OF 1(2)] by simp
  have same: "?tok' P' N' i st = ?tok P' N' i st" and
    rest: "\<And>j st'. ?tok P' N' i st = Inr (j, st') \<Longrightarrow>
      fdt_walk blob' os on s' P' N' j st' = fdt_walk blob os on s P' N' j st'"
  proof -
    show "?tok' P' N' i st = ?tok P' N' i st"
    proof (cases "?tok P N i st")
      case (Inl r)
      with 1(2) le have "?tok P N i st = Inl (Some (a, b))" by (simp add: fdt_walk.simps [of _ _ _ _ _ _ i])
      from fdt_token_found [OF this] found show ?thesis
        by (intro fdt_token_cong [OF 1(4)] conjI agree_be32 [OF 1(3)]) auto
    next
      case (Inr q)
      obtain j st' where j: "q = (j, st')" by fastforce
      with 1(2) le Inr have "fdt_walk blob os on s P N j st' = Some (a, b)" by (simp add: fdt_walk.simps [of _ _ _ _ _ _ i])
      then have "j \<le> a - os" using fdt_walk_found by fastforce
      moreover have "agree {..<a - os} s s'" by (rule agree_mono [OF 1(3)]) auto
      ultimately show ?thesis using fdt_token_before [OF 1(4)] Inr j by blast
    qed
  next
    fix j st' assume j: "?tok P' N' i st = Inr (j, st')"
    from fdt_token_other [OF this, of P N]
    show "fdt_walk blob' os on s' P' N' j st' = fdt_walk blob os on s P' N' j st'"
    proof (elim disjE exE conjE)
      assume t: "?tok P N i st = Inr (j, st')"
      with 1(2) le have "fdt_walk blob os on s P N j st' = Some (a, b)" by (simp add: fdt_walk.simps [of _ _ _ _ _ _ i])
      from 1(1) [OF le t refl this 1(3,4)] show ?thesis .
    next
      fix a' b' assume "?tok P N i st = Inl (Some (a', b'))" and b: "b' \<le> os + j"
      with 1(2) le have "b' = b" by (simp add: fdt_walk.simps [of _ _ _ _ _ _ i])
      with b have "agree {j..} s s'" by (intro agree_mono [OF 1(3)]) auto
      then show ?thesis by (rule fdt_walk_after [OF 1(4)])
    qed
  qed
  show ?case
    using same rest l by (auto simp: fdt_walk.simps [of _ _ _ _ _ _ i] split: sum.split)
qed

lemma prop_range_fields:
  assumes "prop_range blob path name = Some (a, b)"
  obtains os on size where "be32 blob 0 = Some FDT_MAGIC" and "be32 blob 8 = Some os" and "be32 blob 12 = Some on"
    and "be32 blob 36 = Some size" and "unat os + unat size \<le> length blob"
    and "fdt_walk blob (unat os) (unat on) (slice (unat os) (unat size) blob) path name 0 [] = Some (a, b)"
  using assms by (auto simp: prop_range_def get_range_def split: option.splits if_splits)

lemma prop_range_bounds: "prop_range blob path name = Some (a, b) \<Longrightarrow> a \<le> b \<and> b \<le> length blob"
  by (elim prop_range_fields) (auto dest: fdt_walk_found)

text \<open>The walk and the header of a tree that differs only in one value, with the value outside both.\<close>

lemma prop_range_header:
  assumes "prop_range blob path name = Some (a, b)" and "agree (- {a..<b}) blob blob'"
    and "be32 blob 8 = Some os" and "40 \<le> unat os" and "k \<le> 36"
  shows "be32 blob' k = be32 blob k"
proof -
  have "unat os + 12 \<le> a" using assms(1,3) by (auto elim!: prop_range_fields dest: fdt_walk_found)
  with assms(4,5) show ?thesis by (intro agree_be32 [OF assms(2)]) auto
qed

lemma prop_range_patched:
  assumes p: "prop_range blob path name = Some (a, b)" and "agree (- {a..<b}) blob blob'"
    and "be32 blob 8 = Some os" and "40 \<le> unat os" and "be32 blob 12 = Some on" and "b \<le> unat on"
  shows "prop_range blob' path' name' = prop_range blob path' name'"
proof -
  obtain size where h: "be32 blob 0 = Some FDT_MAGIC" "be32 blob 36 = Some size"
    "fdt_walk blob (unat os) (unat on) (slice (unat os) (unat size) blob) path name 0 [] = Some (a, b)"
    using p assms(3,5) by (auto elim: prop_range_fields)
  note head = prop_range_header [OF assms(1-4)]
  have "agree (- {a - unat os..<b - unat os}) (slice (unat os) (unat size) blob) (slice (unat os) (unat size) blob')"
    using fdt_walk_found [OF h(3)] by (intro agree_of_slice [OF assms(2)]) auto
  moreover have "agree {unat on..} blob blob'" using assms(6) by (intro agree_mono [OF assms(2)]) auto
  moreover have "length blob' = length blob" using assms(2) by (simp add: agree_def)
  ultimately show ?thesis
    using fdt_walk_patched [OF h(3)] by (simp add: prop_range_def get_range_def head h(1,2) assms(3,5))
qed

lemma set_u64_Inr:
  "set_u64 blob path name v = Inr blob' \<longleftrightarrow>
     (\<exists>a. prop_range blob path name = Some (a, a + 8) \<and> blob' = splice a (to_be 8 v) blob)"
proof -
  have "b = a + 8" if "prop_range blob path name = Some (a, b)" "b - a = 8" for a b using that by auto
  then show ?thesis by (auto simp: set_u64_def split: option.splits if_splits)
qed

lemma slice_of_splice: "a + length bs \<le> length xs \<Longrightarrow> slice a (length bs) (splice a bs xs) = bs"
  by (simp add: slice_def splice_def)

text \<open>Searches for properties of different names end at values that do not overlap.\<close>

lemma prop_token_name:
  assumes "prop_token blob os on s P N i st = Inl (Some ab)" and "prop_token blob os on s P' N' i st = Inl (Some ab')"
  shows "N = N'"
  using assms by (auto simp: prop_token_def Let_def split: option.splits if_splits)

lemma fdt_token_name:
  assumes "fdt_token blob os on s P N i st = Inl (Some ab)" and "fdt_token blob os on s P' N' i st = Inl (Some ab')"
  shows "N = N'"
  using assms prop_token_name by (auto simp: fdt_token_def Let_def split: option.splits if_splits)

lemma fdt_walk_disjoint:
  "fdt_walk blob os on s P N i st = Some (a, b) \<Longrightarrow> fdt_walk blob os on s P' N' i st = Some (a', b') \<Longrightarrow> N \<noteq> N' \<Longrightarrow>
   b \<le> a' \<or> b' \<le> a"
proof (induction blob os on s P N i st rule: fdt_walk.induct)
  case (1 blob os on s P N i st)
  let ?tok = "fdt_token blob os on s"
  have le: "i + 4 \<le> length s" using 1(2) by (auto simp: fdt_walk.simps [of _ _ _ _ _ _ i] split: if_splits)
  have past: "b1 \<le> a2" if "?tok P1 N1 i st = Inl (Some (a1, b1))" "?tok P2 N2 i st = Inr (j, st')"
      "fdt_walk blob os on s P2 N2 j st' = Some (a2, b2)" for P1 N1 P2 N2 a1 b1 a2 b2 j st'
    using fdt_token_other [OF that(2), of P1 N1] that(1) fdt_walk_found [OF that(3)] by auto
  note walk = fdt_walk.simps [of _ _ _ _ _ _ i]
  show ?case
  proof (cases "?tok P N i st")
    case (Inl r)
    then have t: "?tok P N i st = Inl (Some (a, b))" using 1(2) le by (simp add: walk)
    show ?thesis
    proof (cases "?tok P' N' i st")
      case (Inl r')
      then have "?tok P' N' i st = Inl (Some (a', b'))" using 1(3) le by (simp add: walk)
      with fdt_token_name [OF t] 1(4) show ?thesis by blast
    next
      case (Inr q)
      with 1(3) le past [OF t] show ?thesis by (cases q) (simp add: walk)
    qed
  next
    case (Inr q)
    obtain j st' where q: "q = (j, st')" by fastforce
    with 1(2) le Inr have w: "fdt_walk blob os on s P N j st' = Some (a, b)" by (simp add: walk)
    show ?thesis
    proof (cases "?tok P' N' i st")
      case (Inl r')
      then have "?tok P' N' i st = Inl (Some (a', b'))" using 1(3) le by (simp add: walk)
      with past [OF this _ w] Inr q show ?thesis by simp
    next
      case (Inr q')
      obtain j' st'' where q': "q' = (j', st'')" by fastforce
      with fdt_token_other [of blob os on s P' N' i st j' st'' P N] Inr \<open>?tok P N i st = Inr q\<close> q
      have "j' = j" "st'' = st'" by auto
      with 1(3) le Inr q' have "fdt_walk blob os on s P' N' j st' = Some (a', b')" by (simp add: walk)
      from 1(1) [OF le \<open>?tok P N i st = Inr q\<close> [unfolded q] refl w this 1(4)] show ?thesis .
    qed
  qed
qed

lemma prop_range_disjoint:
  assumes "prop_range blob path name = Some (a, b)" and "prop_range blob path' name' = Some (a', b')" and "name \<noteq> name'"
  shows "b \<le> a' \<or> b' \<le> a"
  using assms by (elim prop_range_fields) (auto dest: fdt_walk_disjoint)

section \<open>Properties\<close>

text \<open>Property C21 (set_u64_patches_in_place): overwriting a property of the device tree changes the
  eight bytes of that value and nothing else, the length included. When the blob is laid out as
  the format asks, with the header before the struct block and the value before the strings, the
  patched tree answers every lookup at the same place as before, and the lookup of the property
  itself with the big-endian bytes of the value.\<close>

theorem set_u64_patches_in_place:
  assumes "set_u64 blob path name v = Inr blob'"
  shows "\<exists>a. prop_range blob path name = Some (a, a + 8) \<and> length blob' = length blob \<and>
    slice a 8 blob' = to_be 8 v \<and> (\<forall>k < length blob. \<not> (a \<le> k \<and> k < a + 8) \<longrightarrow> blob' ! k = blob ! k) \<and>
    (\<forall>os on. be32 blob 8 = Some os \<and> 40 \<le> unat os \<and> be32 blob 12 = Some on \<and> a + 8 \<le> unat on \<longrightarrow>
       (\<forall>p n. prop_range blob' p n = prop_range blob p n) \<and> fdt_prop blob' path name = Some (to_be 8 v))"
proof -
  obtain a where a: "prop_range blob path name = Some (a, a + 8)" "blob' = splice a (to_be 8 v) blob"
    using assms by (auto simp: set_u64_Inr)
  have len: "a + 8 \<le> length blob" using prop_range_bounds [OF a(1)] by simp
  have agree: "agree (- {a..<a + 8}) blob blob'" using agree_splice [of a "to_be 8 v" blob] len a(2) by simp
  have val: "slice a 8 blob' = to_be 8 v" using slice_of_splice [of a "to_be 8 v" blob] len a(2) by simp
  have "(\<forall>p n. prop_range blob' p n = prop_range blob p n) \<and> fdt_prop blob' path name = Some (to_be 8 v)"
    if "be32 blob 8 = Some os \<and> 40 \<le> unat os \<and> be32 blob 12 = Some on \<and> a + 8 \<le> unat on" for os on
    using prop_range_patched [OF a(1) agree, of os on] that a(1) val by (simp add: fdt_prop_def)
  with a(1) agree val show ?thesis by (intro exI [of _ a]) (auto simp: agree_def)
qed

text \<open>A small tree with the two placeholders of the runner.\<close>

definition demo_dtb :: "u8 list" where
  "demo_dtb =
     (let w = to_be 4 :: u32 \<Rightarrow> u8 list; z = to_be 8 (0 :: u64) in
      w 0xD00DFEED @ w 148 @ w 40 @ w 112 @ w 40 @ w 17 @ w 16 @ w 0 @ w 36 @ w 72 @
      w 1 @ w 0 @ w 1 @ ascii ''chosen'' @ [0, 0] @ w 3 @ w 8 @ w 0 @ z @ w 3 @ w 8 @ w 19 @ z @ w 2 @ w 2 @ w 9 @
      ascii ''linux,initrd-start'' @ [0] @ ascii ''linux,initrd-end'' @ [0])"

lemma demo_dtb_facts:
  "prop_range demo_dtb (ascii ''/chosen'') (ascii ''linux,initrd-start'') = Some (72, 80)"
  "prop_range demo_dtb (ascii ''/chosen'') (ascii ''linux,initrd-end'') = Some (92, 100)"
  "be32 demo_dtb 8 = Some 40" "be32 demo_dtb 12 = Some 112"
  by code_simp+

text \<open>Both placeholders filled in: neither write disturbs the other.\<close>

lemma set_u64_patches_in_place_witness:
  "case set_u64 demo_dtb (ascii ''/chosen'') (ascii ''linux,initrd-start'') 0x81000000 of
     Inr blob' \<Rightarrow>
       fdt_prop blob' (ascii ''/chosen'') (ascii ''linux,initrd-start'') = Some [0, 0, 0, 0, 0x81, 0, 0, 0] \<and>
       prop_range blob' (ascii ''/chosen'') (ascii ''linux,initrd-end'') = Some (92, 100)
   | Inl _ \<Rightarrow> False"
proof -
  obtain blob' where b: "set_u64 demo_dtb (ascii ''/chosen'') (ascii ''linux,initrd-start'') 0x81000000 = Inr blob'"
    by (simp add: set_u64_def demo_dtb_facts)
  have "to_be 8 (0x81000000 :: u64) = [0, 0, 0, 0, 0x81, 0, 0, 0]" by code_simp
  with set_u64_patches_in_place [OF b] show ?thesis by (auto simp: b demo_dtb_facts)
qed

end
