(* ===== verification/Memory.thy ===== *)
theory Memory
  imports Machine
begin

text \<open>
  What loads, stores and atomics mean for the program: with translation off, an access of any
  width at any alignment, page-straddling ones included, reads or writes flat memory; a store over
  a reserved granule breaks the reservation, and store-conditional succeeds only on it.
\<close>

section \<open>Untranslated accesses\<close>

definition untranslated :: "cpu \<Rightarrow> bool" where
  "untranslated c \<longleftrightarrow> priv_mode c = M \<or> drop_bit 60 (csr_read SATP (csrs c)) \<noteq> 8"

lemma translate_untranslated: "untranslated c \<Longrightarrow> translate_with B va acc (c, b) = (Inr va, (c, b))"
  by (simp add: translate_with_def untranslated_def disj_commute translate_bare)

lemma byte_in_ram:
  assumes "RAM_BASE \<le> va" and "ram_off va + n \<le> RAM_BYTES" and "i < n"
  shows "in_ram (va + of_nat i) 1" and "ram_off (va + of_nat i) = ram_off va + i"
  using ram_off_add [OF assms(1), of i] assms by (simp_all add: in_ram_iff)

lemma range_in_ram: "RAM_BASE \<le> va \<Longrightarrow> ram_off va + n \<le> RAM_BYTES \<Longrightarrow> n \<le> 8 \<Longrightarrow> in_ram va n"
  by (simp add: in_ram_iff)

lemma flat_bytes_one [simp]: "flat_bytes V r (Suc 0) = [flat_byte V r]"
  by (simp add: flat_bytes_def)

lemma ucast_up_down [simp]: "ucast (ucast (x :: u8) :: u64) = x"
  by (rule bit_word_eqI) (auto simp: bit_unsigned_iff)

lemma sm_bind_return: "sm_bind m sm_return = m"
  by (rule ext) (simp add: sm_bind_def sm_return_def split: prod.split sum.split)

lemma flat_bytes_Suc: "flat_bytes V r (Suc n) = flat_bytes V r n @ [flat_byte V (r + n)]"
  by (simp add: flat_bytes_def)

text \<open>The byte loop fills the buffer from the left.\<close>

definition filled :: "(u32 \<Rightarrow> u8 list) \<Rightarrow> nat \<Rightarrow> nat \<Rightarrow> u8 list" where
  "filled V r i = flat_bytes V r i @ replicate (8 - i) 0"

lemma filled_update:
  assumes "i < 8"
  shows "(filled V r i)[i := flat_byte V (r + i)] = filled V r (Suc i)"
proof -
  have "8 - i = Suc (8 - Suc i)" using assms by simp
  then show ?thesis
    by (simp add: filled_def flat_bytes_Suc list_update_append) (simp add: flat_bytes_def)
qed

context total_backing
begin

lemma load_at:
  assumes "untranslated c" and "holds V (cache b)"
    and "sm_bind (translate_with B va acc) (\<lambda>pa. sm_bind (on_bus (bus_load B pa n)) k) (c, b) = (r, m')"
    and "in_ram va n" and "valid_size n"
  shows "(\<exists>b'. r = Inl (Err (BackingFailure va)) \<and> m' = (c, b') \<and> holds V (cache b')) \<or>
    (\<exists>b'. holds V (cache b') \<and> k (from_le (flat_bytes V (ram_off va) n)) (c, b') = (r, m'))"
proof -
  obtain q b1 where q: "bus_load B va n b = (q, b1)" by fastforce
  from bus_load_ok [OF assms(2) q] assms show ?thesis
    by (cases q) (auto simp: sm_bind_def translate_untranslated on_bus_def sm_field_def q mapped_def)
qed

lemma read_bytewise_ok:
  assumes "untranslated c" and "holds V (cache b)"
    and "RAM_BASE \<le> va" and "ram_off va + n \<le> RAM_BYTES" and "n \<le> 8" and "i \<le> n"
    and "read_bytewise B va acc [i..<n] (filled V (ram_off va) i) (c, b) = (r, m')"
  shows "\<exists>b'. m' = (c, b') \<and> holds V (cache b') \<and>
    ((\<exists>a. r = Inl (Err (BackingFailure a))) \<or> r = Inr (from_le (flat_bytes V (ram_off va) n)))"
  using assms(2,6,7)
proof (induction "n - i" arbitrary: i b)
  case 0
  then have "i = n" by simp
  with 0 show ?case by (auto simp: sm_return_def filled_def)
next
  case (Suc d)
  then have i: "i < n" and up: "[i..<n] = i # [Suc i..<n]" by (simp_all add: upt_conv_Cons)
  let ?va = "va + of_nat i"
  have upd: "(filled V (ram_off va) i)[i := ucast (from_le (flat_bytes V (ram_off ?va) 1) :: u64)] =
      filled V (ram_off va) (Suc i)"
    using filled_update [of i V "ram_off va"] i assms(5) byte_in_ram(2) [OF assms(3,4) i]
    by simp
  from load_at [OF assms(1) Suc.prems(1) Suc.prems(3) [unfolded up read_bytewise.simps]
      byte_in_ram(1) [OF assms(3,4) i]]
  consider b' where "r = Inl (Err (BackingFailure ?va))" "m' = (c, b')" "holds V (cache b')"
    | b' where "holds V (cache b')" "read_bytewise B va acc [Suc i..<n] (filled V (ram_off va) (Suc i)) (c, b') = (r, m')"
    unfolding upd valid_size_def by blast
  then show ?case
  proof cases
    case 2
    with Suc.hyps i show ?thesis by (intro Suc.hyps(1)) auto
  qed auto
qed

lemma read_untranslated:
  assumes "untranslated c" and "holds V (cache b)" and "valid_size n"
    and "RAM_BASE \<le> va" and "ram_off va + n \<le> RAM_BYTES"
    and "read_translated B va n acc (c, b) = (r, m')"
  shows "\<exists>b'. m' = (c, b') \<and> holds V (cache b') \<and>
    ((\<exists>a. r = Inl (Err (BackingFailure a))) \<or> r = Inr (from_le (flat_bytes V (ram_off va) n)))"
proof (cases "unat (va AND 0xFFF) + n \<le> PAGE")
  case True
  have n: "n \<le> 8" using valid_size_bounds [OF assms(3)] by simp
  have "sm_bind (translate_with B va acc) (\<lambda>pa. sm_bind (on_bus (bus_load B pa n)) sm_return) (c, b) = (r, m')"
    using assms(6) True by (simp add: read_translated_def sm_bind_return)
  from load_at [OF assms(1,2) this range_in_ram [OF assms(4,5) n] assms(3)] show ?thesis
    by (auto simp: sm_return_def)
next
  case False
  have "filled V (ram_off va) 0 = replicate 8 0" by (simp add: filled_def flat_bytes_def)
  with False assms(6) have "read_bytewise B va acc [0..<n] (filled V (ram_off va) 0) (c, b) = (r, m')"
    by (simp add: read_translated_def)
  from read_bytewise_ok [OF assms(1,2,4,5) _ _ this] show ?thesis
    using valid_size_bounds [OF assms(3)] by simp
qed

end

section \<open>Untranslated stores\<close>

lemma untranslated_invalidate [simp]: "untranslated (invalidate_reservation a n c) = untranslated c"
  by (simp add: untranslated_def invalidate_reservation_def split: option.split)

lemma to_le_byte: "to_le (Suc 0) (ucast (x :: u8) :: u64) = [x]"
  by simp

lemma to_le_step:
  assumes "i < k" and "k \<le> 8"
  shows "[to_le 8 v ! i] @ drop (Suc i) (to_le k v) = drop i (to_le k v)"
  using assms Cons_nth_drop_Suc [of i "to_le k v"] by (simp add: nth_to_le del: to_le.simps)

context total_backing
begin

lemma store_at_ok:
  assumes "untranslated c" and "holds V (cache b)" and "in_ram va n" and "valid_size n"
    and "store_at B put va n v (c, b) = (r, c', b')"
  shows "\<exists>V' k. holds V' (cache b') \<and> k \<le> n \<and> wrote V (ram_off va) (to_le k v) V' \<and> untranslated c' \<and>
    ((\<exists>a. r = Inl (Err (BackingFailure a))) \<or> r = Inr () \<and> k = n)"
proof -
  obtain q b1 where q: "bus_store B put va n v b = (q, b1)" by fastforce
  from bus_store_ok [OF assms(2) q] obtain V' k where
    w: "holds V' (cache b1)" "k \<le> n" "wrote V (ram_off va) (to_le k v) V'"
    and "case q of
       Inl e \<Rightarrow> e = Err (StoreAccessFault va) \<and> \<not> mapped va n \<and> b1 = b \<or> e = Err (BackingFailure va) \<and> in_ram va n
     | Inr _ \<Rightarrow> mapped va n \<and> (in_ram va n \<longrightarrow> k = n)" by blast
  with assms show ?thesis
    by (intro exI [of _ V'] exI [of _ k], cases q) (auto simp: store_at_def sm_bind_def translate_untranslated on_bus_def sm_field_def q mapped_def
        on_cpu_def sm_modify_def)
qed

lemma store_bytes_ok:
  assumes "RAM_BASE \<le> va" and "ram_off va + n \<le> RAM_BYTES" and "n \<le> 8" and "i \<le> n"
    and "untranslated c" and "holds V (cache b)"
    and "sm_for [i..<n] (\<lambda>j. store_at B put (va + of_nat j) 1 (ucast (to_le 8 v ! j))) (c, b) = (r, c', b')"
  shows "\<exists>V' k. holds V' (cache b') \<and> i \<le> k \<and> k \<le> n \<and> wrote V (ram_off va + i) (drop i (to_le k v)) V' \<and>
    untranslated c' \<and> ((\<exists>a. r = Inl (Err (BackingFailure a))) \<or> r = Inr () \<and> k = n)"
  using assms(4-7)
proof (induction "n - i" arbitrary: i c b V)
  case 0
  then have "i = n" by simp
  with 0 show ?case by (intro exI [of _ V] exI [of _ n]) (auto simp: sm_return_def)
next
  case (Suc d)
  then have i: "i < n" and up: "[i..<n] = i # [Suc i..<n]" by (simp_all add: upt_conv_Cons)
  let ?va = "va + of_nat i" and ?x = "to_le 8 v ! i"
  let ?body = "\<lambda>j. store_at B put (va + of_nat j) 1 (ucast (to_le 8 v ! j))"
  obtain q c1 b1 where q: "store_at B put ?va 1 (ucast ?x) (c, b) = (q, c1, b1)" by (metis prod.exhaust)
  from store_at_ok [OF Suc.prems(2,3) byte_in_ram(1) [OF assms(1,2) i] _ q] obtain V1 k1 where
    s: "holds V1 (cache b1)" "k1 \<le> 1" "wrote V (ram_off va + i) (to_le k1 (ucast ?x :: u64)) V1" "untranslated c1"
    "(\<exists>a. q = Inl (Err (BackingFailure a))) \<or> q = Inr () \<and> k1 = 1"
    unfolding byte_in_ram(2) [OF assms(1,2) i] valid_size_def by blast
  show ?case
  proof (cases q)
    case (Inl e)
    then have rr: "r = Inl e" "c' = c1" "b' = b1" using Suc.prems(4) by (simp_all add: up q [unfolded One_nat_def])
    have "wrote V (ram_off va + i) (drop i (to_le (i + k1) v)) V1"
    proof (cases "k1 = 0")
      case False
      with s(2) have "k1 = 1" by simp
      moreover have "drop i (to_le (Suc i) v) = [?x]"
        using to_le_step [of i "Suc i" v] i assms(3) by (simp del: to_le.simps)
      ultimately show ?thesis using s(3) by (simp add: to_le_byte del: to_le.simps)
    qed (use s(3) in simp)
    with s rr Inl i show ?thesis by (intro exI [of _ V1] exI [of _ "i + k1"]) auto
  next
    case (Inr u)
    then have k1: "k1 = 1" using s(5) by auto
    have "sm_for [Suc i..<n] ?body (c1, b1) = (r, c', b')"
      using Suc.prems(4) Inr by (simp add: up q [unfolded One_nat_def])
    moreover have "d = n - Suc i" "Suc i \<le> n" using Suc.hyps(2) i by simp_all
    ultimately obtain V' k where
      t: "holds V' (cache b')" "Suc i \<le> k" "k \<le> n" "wrote V1 (ram_off va + Suc i) (drop (Suc i) (to_le k v)) V'"
      "untranslated c'" "(\<exists>a. r = Inl (Err (BackingFailure a))) \<or> r = Inr () \<and> k = n"
      using Suc.hyps(1) [OF _ _ s(4,1)] by blast
    have "wrote V (ram_off va + i) ([?x] @ drop (Suc i) (to_le k v)) V'"
      using wrote_append [of V "ram_off va + i" "[?x]" V1] s(3) t(4) by (simp add: k1 to_le_byte del: to_le.simps)
    moreover have "[?x] @ drop (Suc i) (to_le k v) = drop i (to_le k v)"
      using to_le_step [of i k v] t(2,3) assms(3) by simp
    ultimately show ?thesis using t by (intro exI [of _ V'] exI [of _ k]) auto
  qed
qed

lemma write_untranslated:
  assumes "untranslated c" and "holds V (cache b)" and "valid_size n"
    and "RAM_BASE \<le> va" and "ram_off va + n \<le> RAM_BYTES"
    and "write_translated B put va n v (c, b) = (r, c', b')"
  shows "\<exists>V' k. holds V' (cache b') \<and> k \<le> n \<and> wrote V (ram_off va) (to_le k v) V' \<and> untranslated c' \<and>
    ((\<exists>a. r = Inl (Err (BackingFailure a))) \<or> r = Inr () \<and> k = n)"
proof -
  have n: "n \<le> 8" using valid_size_bounds [OF assms(3)] by simp
  show ?thesis
  proof (cases "unat (va AND 0xFFF) + n \<le> PAGE")
    case True
    with assms(6) have "store_at B put va n v (c, b) = (r, c', b')" by (simp add: write_translated_def)
    from store_at_ok [OF assms(1,2) range_in_ram [OF assms(4,5) n] assms(3) this] show ?thesis .
  next
    case False
    with assms(6) have "sm_for [0..<n] (\<lambda>j. store_at B put (va + of_nat j) 1 (ucast (to_le 8 v ! j))) (c, b) = (r, c', b')"
      by (simp add: write_translated_def)
    from store_bytes_ok [OF assms(4,5) n _ assms(1,2) this] show ?thesis by simp
  qed
qed

end

section \<open>Properties\<close>

text \<open>Property C9 (store_then_load): with translation off, a load of any width at any address of RAM,
  across a page boundary or not, returns the value the last store of that width put there, or the
  access reports the failure of the backing store; neither ever raises a guest exception.\<close>

theorem store_then_load:
  assumes "total_backing B contents binv" and "cache_inv contents binv (cache (snd m))"
    and "untranslated (fst m)" and "valid_size n" and "RAM_BASE \<le> va" and "ram_off va + n \<le> RAM_BYTES"
  shows "case vstore B put va n v m of
      (Inl e, _) \<Rightarrow> (\<exists>a. e = Err (BackingFailure a))
    | (Inr _, m') \<Rightarrow>
        (case vload B va n m' of
           (Inl e, _) \<Rightarrow> (\<exists>a. e = Err (BackingFailure a))
         | (Inr w, _) \<Rightarrow> w = take_bit (8 * n) v)"
proof -
  obtain c b where m: "m = (c, b)" by (cases m)
  obtain r c1 b1 where s: "vstore B put va n v m = (r, c1, b1)" by (metis prod.exhaust)
  have h: "total_backing.holds contents binv (page_view contents (cache b)) (cache b)"
    using assms(2) holds_unfold [OF assms(1)] m by simp
  have u: "untranslated c" using assms(3) m by simp
  from total_backing.write_untranslated [OF assms(1) u h assms(4-6)] s obtain V' k where
    w: "total_backing.holds contents binv V' (cache b1)" "untranslated c1"
    "wrote (page_view contents (cache b)) (ram_off va) (to_le k v) V'"
    "(\<exists>a. r = Inl (Err (BackingFailure a))) \<or> r = Inr () \<and> k = n"
    unfolding vstore_def m by blast
  obtain q m2 where l: "vload B va n (c1, b1) = (q, m2)" by (cases "vload B va n (c1, b1)")
  have readback: "from_le (flat_bytes V' (ram_off va) n) = take_bit (8 * n) v" if "k = n"
    using wrote_flat_bytes [OF w(3)] assms(6) that by (simp add: from_le_to_le)
  from total_backing.read_untranslated [OF assms(1) w(2,1) assms(4-6) l [unfolded vload_def]] w(4) readback show ?thesis
    by (auto simp: s l)
qed

lemma store_then_load_witness:
  "case cache_new (fake_new 16) 4 of Inr c \<Rightarrow>
     (case vstore fake_ops vec_put 0x80000FFD 8 0x1122334455667788 (demo_machine c) of
        (Inl e, _) \<Rightarrow> (\<exists>a. e = Err (BackingFailure a))
      | (Inr _, m') \<Rightarrow>
          (case vload fake_ops 0x80000FFD 8 m' of
             (Inl e, _) \<Rightarrow> (\<exists>a. e = Err (BackingFailure a)) | (Inr w, _) \<Rightarrow> w = 0x1122334455667788))
   | Inl _ \<Rightarrow> False"
proof -
  obtain c where c: "cache_new (fake_new 16) 4 = Inr c" by (simp add: cache_new_def)
  have i: "cache_inv fake_contents fake_inv c"
    using cache_inv_new [OF c, where binv = fake_inv and contents = fake_contents] by simp
  have "cache_inv fake_contents fake_inv (cache (snd (demo_machine c)))" "untranslated (fst (demo_machine c))"
    using i by (simp_all add: demo_machine_def bus_new_def untranslated_def cpu_new_def)
  from store_then_load [OF fake.total_backing_axioms this, where n = 8 and va = "0x80000FFD" and put = vec_put and v = "0x1122334455667788"] c
  show ?thesis by (auto simp: valid_size_def ram_off_def split: prod.splits sum.splits)
qed

text \<open>An ordinary store breaks a reservation exactly when its
  bytes and the eight bytes of the reserved granule overlap.\<close>

theorem reservation_breaks_on_overlap:
  assumes "unat a + n < 2 ^ 64" and "unat r + 8 < 2 ^ 64"
  shows "reservation (invalidate_reservation a n (c\<lparr>reservation := Some r\<rparr>)) =
    (if \<exists>x. unat a \<le> x \<and> x < unat a + n \<and> unat r \<le> x \<and> x < unat r + 8 then None
     else if n = 0 \<and> unat r < unat a \<and> unat a < unat r + 8 then None else Some r)"
proof -
  have sat: "unat (saturating_add x k) = unat x + k" if "unat x + k < 2 ^ 64" for x k
  proof -
    have "unat (of_nat k :: u64) = k" using that by (simp only: unat_of_nat) simp
    with that show ?thesis by (simp add: saturating_add_def unat_word_ariths)
  qed
  have "(\<exists>x. unat a \<le> x \<and> x < unat a + n \<and> unat r \<le> x \<and> x < unat r + 8) \<longleftrightarrow>
      0 < n \<and> unat a < unat r + 8 \<and> unat r < unat a + n"
    by (auto intro: exI [of _ "max (unat a) (unat r)"])
  then show ?thesis
    using sat [OF assms(1)] sat [OF assms(2)] by (auto simp: invalidate_reservation_def word_less_nat_alt)
qed

lemma reservation_breaks_on_overlap_witness:
  "reservation (invalidate_reservation 0x80001004 2 ((cpu_new 0)\<lparr>reservation := Some 0x80001000\<rparr>)) = None"
proof -
  have "\<exists>x. unat (0x80001004 :: u64) \<le> x \<and> x < unat (0x80001004 :: u64) + 2 \<and>
      unat (0x80001000 :: u64) \<le> x \<and> x < unat (0x80001000 :: u64) + 8"
    by (rule exI [of _ 2147487748]) simp
  with reservation_breaks_on_overlap [of "0x80001004" 2 "0x80001000" "cpu_new 0"] show ?thesis by simp
qed

text \<open>A store-conditional writes memory only if the hart holds a
  reservation on its address; it always ends without one, so a second try fails; it reports zero
  exactly when it stored, and a failed one leaves the bus alone.\<close>

theorem store_conditional:
  assumes "rd insn \<noteq> 0"
  shows "case exec_sc B put insn n a v (c, b) of
      (Inr _, c', b') \<Rightarrow> reservation c' = None \<and>
        (if reservation c = Some a then reg (rd insn) c' = 0 \<and> bus_store B put a n v b = (Inr (), b')
         else reg (rd insn) c' = 1 \<and> b' = b)
    | (Inl e, c', b') \<Rightarrow> reservation c' = None \<and> reservation c = Some a \<and> regs c' = regs c"
  using assms
  by (auto simp: exec_sc_def sm_bind_def sm_get_def on_cpu_def sm_modify_def on_bus_def sm_field_def set_reg_def reg_def
      split: prod.splits sum.splits)

lemma store_conditional_witness:
  "\<forall>c :: fake_backing page_cache.
     case exec_sc fake_ops vec_put 0x180522AF 4 0x80000000 7 (cpu_new 0, bus_new c []) of
       (Inr _, h, b') \<Rightarrow> reg (rd 0x180522AF) h = 1 | (Inl e, h, b') \<Rightarrow> False"
proof
  fix c :: "fake_backing page_cache"
  have "rd 0x180522AF \<noteq> 0" by (simp add: rd_def)
  from store_conditional [OF this, where B = fake_ops and put = vec_put and n = 4 and a = "0x80000000" and v = 7 and c = "cpu_new 0"
      and b = "bus_new c []"]
  show "case exec_sc fake_ops vec_put 0x180522AF 4 0x80000000 7 (cpu_new 0, bus_new c []) of
       (Inr _, h, b') \<Rightarrow> reg (rd 0x180522AF) h = 1 | (Inl e, h, b') \<Rightarrow> False"
    by (auto simp: cpu_new_def split: prod.splits sum.splits)
qed

end
