(* ===== verification/Boot_Props.thy ===== *)
theory Boot_Props
  imports Boot Fdt_Props Memory
begin

text \<open>
  What the loader leaves in guest memory: a blob is written byte for byte, whatever mixture of
  words and bytes it goes out in; the three images of a boot lie where the layout says, apart from
  one another; and the device tree the guest reads names the initrd it finds.
\<close>

section \<open>Blobs\<close>

lemma ram_not_device:
  assumes "RAM_BASE \<le> a" and "mapped a n"
  shows "in_ram a n"
proof -
  have "unat a < 18446744073709551616" by (rule order_less_le_trans [OF unsigned_less]) simp
  then have "a \<le> saturating_add a n"
    by (auto simp: saturating_add_def word_le_nat_alt unat_word_ariths unat_of_nat)
  with assms(1) have "\<not> is_clint a n" "\<not> is_uart a n"
    by (simp_all add: is_clint_def is_uart_def word_le_nat_alt)
  with assms(2) show ?thesis by (simp add: mapped_def)
qed

lemma blob_address:
  assumes "RAM_BASE \<le> addr" and "off = 0 \<or> ram_off addr + off \<le> RAM_BYTES"
  shows "RAM_BASE \<le> addr + of_nat off" and "ram_off (addr + of_nat off) = ram_off addr + off"
  using assms ram_off_add [OF assms(1), of off] by auto

context total_backing
begin

lemma blob_store_ok:
  assumes "holds V (cache b)" and "RAM_BASE \<le> addr" and "off = 0 \<or> ram_off addr + off \<le> RAM_BYTES"
    and "n = 1 \<or> n = 8" and "to_le n v = slice off n data"
    and "bus_store B put (addr + of_nat off) n v b = (q, b1)"
  obtains V1 k where "holds V1 (cache b1)" and "k \<le> n" and "wrote V (ram_off addr + off) (slice off k data) V1"
    and "case q of Inl e \<Rightarrow> e \<noteq> Panic | Inr _ \<Rightarrow> k = n \<and> ram_off addr + (off + n) \<le> RAM_BYTES"
proof -
  note a = blob_address [OF assms(2,3)]
  obtain V1 k where w: "holds V1 (cache b1)" "k \<le> n" "wrote V (ram_off addr + off) (to_le k v) V1"
    and q: "case q of
       Inl e \<Rightarrow> e = Err (StoreAccessFault (addr + of_nat off)) \<and> \<not> mapped (addr + of_nat off) n \<and> b1 = b
         \<or> e = Err (BackingFailure (addr + of_nat off)) \<and> in_ram (addr + of_nat off) n
     | Inr _ \<Rightarrow> mapped (addr + of_nat off) n \<and> (in_ram (addr + of_nat off) n \<longrightarrow> k = n)"
    using bus_store_ok [OF assms(1,6)] unfolding a(2) by blast
  have "to_le k v = take k (slice off n data)" using to_le_take [OF w(2), of v] assms(5) by simp
  then have "to_le k v = slice off k data" using w(2) by (simp add: slice_def min_absorb1)
  moreover have "n \<le> 8" using assms(4) by auto
  ultimately show ?thesis
    using that [OF w(1,2)] w(3) q ram_not_device [OF a(1), of n] in_ram_iff [of n "addr + of_nat off"] a(2)
    by (auto split: sum.splits)
qed

text \<open>The loop, from any point of the blob.\<close>

lemma slice_join: "slice off (k - off) data = slice off n data @ slice (off + n) (k - (off + n)) data"
  if "off + n \<le> k" "k \<le> length data"
  using that take_add [of n "k - (off + n)" "drop off data"] by (simp add: slice_def add.commute)

lemma wrote_step:
  assumes "wrote V r (slice off n data) V1" and "wrote V1 (r + n) (slice (off + n) (k - (off + n)) data) V2"
    and "off + n \<le> k" and "k \<le> length data"
  shows "wrote V r (slice off (k - off) data) V2"
  using wrote_append [OF assms(1), of "slice (off + n) (k - (off + n)) data" V2] assms(2-4)
  by (simp add: slice_join [OF assms(3,4)] length_slice)

definition blob_written where
  "blob_written V addr data off r b \<longleftrightarrow>
     (\<exists>V' k. holds V' (cache b) \<and> off \<le> k \<and> k \<le> length data \<and>
        wrote V (ram_off addr + off) (slice off (k - off) data) V' \<and>
        (case r of Inl e \<Rightarrow> e \<noteq> Panic
         | Inr _ \<Rightarrow> k = length data \<and> (off < length data \<longrightarrow> ram_off addr + length data \<le> RAM_BYTES)))"

lemma blob_written_step:
  assumes "holds V (cache b)" and "RAM_BASE \<le> addr" and "off = 0 \<or> ram_off addr + off \<le> RAM_BYTES"
    and "n = 1 \<or> n = 8" and "off + n \<le> length data" and "to_le n v = slice off n data"
    and r: "sm_bind (bus_store B put (addr + of_nat off) n v) (\<lambda>_. write_blob_from B put addr data (off + n)) b = (r, b')"
    and IH: "\<And>V1 b1. holds V1 (cache b1) \<Longrightarrow> ram_off addr + (off + n) \<le> RAM_BYTES \<Longrightarrow>
      write_blob_from B put addr data (off + n) b1 = (r, b') \<Longrightarrow> blob_written V1 addr data (off + n) r b'"
  shows "blob_written V addr data off r b'"
proof -
  obtain q b1 where q: "bus_store B put (addr + of_nat off) n v b = (q, b1)" by fastforce
  obtain V1 k where w: "holds V1 (cache b1)" "k \<le> n" "wrote V (ram_off addr + off) (slice off k data) V1"
    and c: "case q of Inl e \<Rightarrow> e \<noteq> Panic | Inr _ \<Rightarrow> k = n \<and> ram_off addr + (off + n) \<le> RAM_BYTES"
    using blob_store_ok [OF assms(1-4,6) q] .
  show ?thesis
  proof (cases q)
    case (Inl e)
    then have "r = Inl e" "b' = b1" using r by (simp_all add: sm_bind_def q)
    with w c Inl assms(5) show ?thesis
      unfolding blob_written_def by (intro exI [of _ V1] exI [of _ "off + k"]) simp
  next
    case (Inr u)
    have "blob_written V1 addr data (off + n) r b'"
      using IH [OF w(1)] r c Inr by (simp add: sm_bind_def q)
    then obtain V' j where "holds V' (cache b')" "off + n \<le> j" "j \<le> length data"
      "wrote V1 (ram_off addr + (off + n)) (slice (off + n) (j - (off + n)) data) V'"
      "case r of Inl e \<Rightarrow> e \<noteq> Panic
       | Inr _ \<Rightarrow> j = length data \<and> (off + n < length data \<longrightarrow> ram_off addr + length data \<le> RAM_BYTES)"
      unfolding blob_written_def by blast
    moreover have "wrote V (ram_off addr + off) (slice off n data) V1" using w(3) c Inr by simp
    ultimately have "wrote V (ram_off addr + off) (slice off (j - off) data) V'"
      by (intro wrote_step [of V "ram_off addr + off" off n data V1]) (simp_all add: add.assoc)
    then show ?thesis
      unfolding blob_written_def using assms(5) c Inr
        \<open>holds V' (cache b')\<close> \<open>off + n \<le> j\<close> \<open>j \<le> length data\<close>
        \<open>case r of Inl e \<Rightarrow> e \<noteq> Panic
          | Inr _ \<Rightarrow> j = length data \<and> (off + n < length data \<longrightarrow> ram_off addr + length data \<le> RAM_BYTES)\<close>
      by (intro exI [of _ V'] exI [of _ j]) (auto split: sum.splits simp: le_less)
  qed
qed

lemma write_blob_from_ok:
  "holds V (cache b) \<Longrightarrow> RAM_BASE \<le> addr \<Longrightarrow> off \<le> length data \<Longrightarrow> off = 0 \<or> ram_off addr + off \<le> RAM_BYTES \<Longrightarrow>
   write_blob_from B put addr data off b = (r, b') \<Longrightarrow> blob_written V addr data off r b'"
proof (induction "length data - off" arbitrary: off V b rule: less_induct)
  case less
  let ?a = "addr + of_nat off"
  show ?case
  proof (cases "off < length data")
    case False
    then have "off = length data" "r = Inr ()" "b' = b"
      using less.prems by (simp_all add: write_blob_from.simps sm_return_def)
    with less.prems(1) show ?thesis
      unfolding blob_written_def by (intro exI [of _ V] exI [of _ off]) (simp add: slice_def)
  next
    case True
    have IH: "blob_written V1 addr data (off + n) r b'"
      if "0 < n" "off + n \<le> length data" "holds V1 (cache b1)" "ram_off addr + (off + n) \<le> RAM_BYTES"
        "write_blob_from B put addr data (off + n) b1 = (r, b')" for n V1 b1
      using that True less.prems(2) by (intro less.hyps [of "off + n" V1 b1]) auto
    show ?thesis
    proof (cases "?a mod 8 = 0 \<and> 8 \<le> length data - off")
      case word: True
      have "length (slice off 8 data) = 8" using word by (intro length_slice) linarith
      then have "to_le 8 (from_le (slice off 8 data) :: u64) = slice off 8 data"
        using to_le_from_le [where 'a = 64, of "slice off 8 data"] by simp
      moreover have "sm_bind (bus_store B put ?a 8 (from_le (slice off 8 data)))
          (\<lambda>_. write_blob_from B put addr data (off + 8)) b = (r, b')"
        using less.prems(5) True word by (simp add: write_blob_from.simps [of _ _ _ _ off])
      ultimately show ?thesis using word True
        by (intro blob_written_step [OF less.prems(1,2,4)] IH) auto
    next
      case byte: False
      have "slice off 1 data = [data ! off]" using True by (simp add: slice_def take_Suc hd_drop_conv_nth)
      moreover have "sm_bind (bus_store B put ?a 1 (ucast (data ! off)))
          (\<lambda>_. write_blob_from B put addr data (off + 1)) b = (r, b')"
        using less.prems(5) True byte by (simp add: write_blob_from.simps [of _ _ _ _ off] del: One_nat_def)
      ultimately show ?thesis using True
        by (intro blob_written_step [OF less.prems(1,2,4)] IH) (auto simp: to_le_byte)
    qed
  qed
qed

end

end
