(* ===== verification/Boot_Image.thy ===== *)
theory Boot_Image
  imports Boot_Props
begin

text \<open>
  A boot as a whole: the kernel, the device tree and the initrd in guest memory after
  \<open>load_boot_images\<close>, apart from one another, and the hart that starts the kernel.
\<close>

section \<open>Alignment\<close>

lemma round_up_bounds: "0 < m \<Longrightarrow> round_up n m < n + m \<and> round_up n m mod m = 0"
proof -
  assume m: "0 < m"
  have "(n + (m - n mod m)) mod m = 0"
  proof -
    have "n + (m - n mod m) = (n - n mod m) + m" using m mod_less_divisor [OF m, of n] mod_less_eq_dividend [of n m] by linarith
    then show ?thesis by (simp add: minus_mod_eq_mult_div)
  qed
  with m show ?thesis by (auto simp: round_up_def)
qed

text \<open>Rounding up wraps to zero or not at all.\<close>

lemma round_up64_cases:
  assumes "m = 8 \<or> m = (4096 :: u64)"
  shows "round_up64 n m = 0 \<and> 2 ^ 64 < unat n + unat m \<or> unat (round_up64 n m) = round_up (unat n) (unat m)"
proof -
  have m: "0 < unat m" "unat m dvd 2 ^ 64" using assms by (auto simp: dvd_def intro: exI [of _ "2 ^ 61"] exI [of _ "2 ^ 52"])
  have "unat (m - n mod m) = unat m - unat (n mod m)"
    using m(1) by (intro unat_sub) (simp add: word_le_nat_alt unat_mod order_less_imp_le)
  moreover have "unat n mod 18446744073709551616 = unat n"
    by (rule mod_less, rule order_less_le_trans [OF unsigned_less]) simp
  ultimately have r: "unat (round_up64 n m) = round_up (unat n) (unat m) mod 2 ^ 64"
    by (auto simp: round_up64_def round_up_def unat_mod unat_word_ariths unat_eq_zero simp flip: unat_0_iff)
  show ?thesis
  proof (cases "round_up (unat n) (unat m) < 2 ^ 64")
    case False
    note b = round_up_bounds [OF m(1), of "unat n"]
    obtain q where q: "2 ^ 64 = unat m * q" using m(2) by (auto simp: dvd_def)
    obtain k where k: "round_up (unat n) (unat m) = unat m * k" using b by (auto simp: mod_eq_0_iff_dvd dvd_def)
    have "unat n < unat m * q" using unsigned_less [of n] q by simp
    then have "unat m * k < unat m * (q + 1)" using b k by (simp add: algebra_simps)
    then have "k < q + 1" using m(1) by (simp only: mult_less_cancel1)
    moreover have "unat m * q \<le> unat m * k" using False k q by simp
    then have "q \<le> k" using m(1) by (simp only: mult_le_cancel1)
    ultimately have "k = q" by simp
    with k q r have "unat (round_up64 n m) = 0" by simp
    with False b show ?thesis by (simp add: unat_eq_zero)
  qed (use r in simp)
qed

section \<open>The steps of a boot\<close>

lemma to_from_ram: "RAM_BASE \<le> a \<longleftrightarrow> 2147483648 \<le> unat a"
  by (simp add: word_le_nat_alt)

lemma wrote_here: "wrote V r bs V' \<Longrightarrow> bs \<noteq> [] \<longrightarrow> r + length bs \<le> RAM_BYTES \<Longrightarrow> flat_bytes V' r (length bs) = bs"
  by (cases "bs = []") (auto simp: wrote_flat_bytes, simp add: flat_bytes_def)

lemma stop_map_Panic: "stop_map h e = Panic \<longleftrightarrow> e = Panic"
  by (cases e) simp_all

lemma hoare_when: "(c \<Longrightarrow> hoare P m Q E) \<Longrightarrow> hoare (\<lambda>s. P s \<and> c) m Q E"
  by (auto simp: hoare_def)

definition kernel_at :: "(u32 \<Rightarrow> u8 list) \<Rightarrow> u8 list \<Rightarrow> u64 \<Rightarrow> bool" where
  "kernel_at V kern kend \<longleftrightarrow> flat_bytes V (ram_off KERNEL_LOAD_ADDR) (length kern) = kern \<and>
     ram_off KERNEL_LOAD_ADDR + length kern \<le> RAM_BYTES \<and> unat KERNEL_LOAD_ADDR + length kern \<le> unat kend"

definition tree_at :: "(u32 \<Rightarrow> u8 list) \<Rightarrow> u8 list \<Rightarrow> boot_layout \<Rightarrow> bool" where
  "tree_at V tree layout \<longleftrightarrow> RAM_BASE \<le> dtb layout \<and> unat (dtb layout) mod 8 = 0 \<and>
     ram_off (dtb layout) + length tree \<le> RAM_BYTES \<and> flat_bytes V (ram_off (dtb layout)) (length tree) = tree"

definition ramdisk_at :: "(u32 \<Rightarrow> u8 list) \<Rightarrow> nat \<Rightarrow> u8 list option \<Rightarrow> boot_layout \<Rightarrow> bool" where
  "ramdisk_at V lo ramdisk layout \<longleftrightarrow>
     (case (ramdisk, initrd layout) of
        (None, None) \<Rightarrow> True
      | (Some bytes, Some (start, stop)) \<Rightarrow>
          RAM_BASE \<le> start \<and> unat start mod PAGE = 0 \<and> lo \<le> ram_off start \<and>
          ram_off start + length bytes \<le> RAM_BYTES \<and> unat stop = unat start + length bytes \<and>
          flat_bytes V (ram_off start) (length bytes) = bytes
      | _ \<Rightarrow> False)"

lemma place_Inr:
  assumes "place kend tlen rlen = Inr layout"
  shows "dtb layout = round_up64 kend 8"
    and "initrd layout = map_option (\<lambda>n. let s = round_up64 (dtb layout + of_nat tlen) 4096 in (s, s + of_nat n)) rlen"
    and "rlen = Some n \<Longrightarrow> round_up64 (dtb layout + of_nat tlen) 4096 + of_nat n \<le> RAM_BASE + RAM_SIZE"
  using assms by (auto simp: place_def Let_def split: option.splits if_splits)

lemma record_initrd_length: "record_initrd ir tree = Inr tree' \<Longrightarrow> length tree' = length tree"
proof -
  have "length t' = length t" if "set_u64 t p n v = Inr t'" for t t' p n v
    using that prop_range_bounds by (fastforce simp: set_u64_Inr length_splice)
  then show "record_initrd ir tree = Inr tree' \<Longrightarrow> length tree' = length tree"
    by (fastforce simp: record_initrd_def split: option.splits sum.splits)
qed

text \<open>Nothing is mapped at address zero, where an extent that wraps would put the tree.\<close>

lemma write_blob_null: "data \<noteq> [] \<Longrightarrow> write_blob B put 0 data b = (Inl (Err (StoreAccessFault 0)), b)"
  by (simp add: write_blob_def write_blob_from.simps [of _ _ _ _ 0] bus_store_def valid_size_def in_ram_def
      is_clint_def is_uart_def sm_bind_def sm_err_def)

context total_backing
begin

lemma write_blob_ok:
  assumes "holds V (cache b)" and "RAM_BASE \<le> addr" and "write_blob B put addr data b = (r, b')"
  shows "case r of Inl e \<Rightarrow> e \<noteq> Panic
    | Inr _ \<Rightarrow> \<exists>V'. holds V' (cache b') \<and> wrote V (ram_off addr) data V' \<and>
        (data \<noteq> [] \<longrightarrow> ram_off addr + length data \<le> RAM_BYTES)"
  using write_blob_from_ok [OF assms(1,2) _ _ assms(3) [unfolded write_blob_def]]
  by (auto simp: blob_written_def slice_def split: sum.splits)

lemma hoare_write_blob:
  assumes "RAM_BASE \<le> addr"
  shows "hoare (\<lambda>b. holds V (cache b)) (write_blob B put addr data)
    (\<lambda>_ b. \<exists>V'. holds V' (cache b) \<and> wrote V (ram_off addr) data V' \<and> (data \<noteq> [] \<longrightarrow> ram_off addr + length data \<le> RAM_BYTES))
    (\<lambda>e _. e \<noteq> Panic)"
  unfolding hoare_def using write_blob_ok [OF _ assms] by (fastforce split: sum.splits)

lemma load_kernel_ok:
  assumes "holds V (cache b)" and "\<not> starts_with kern ELF_MAGIC" and "load_kernel B put kern b = (r, b')"
  shows "case r of Inl e \<Rightarrow> e \<noteq> Panic | Inr kend \<Rightarrow> \<exists>V'. holds V' (cache b') \<and> kernel_at V' kern kend"
proof -
  obtain q b1 where q: "write_blob B put KERNEL_LOAD_ADDR kern b = (q, b1)" by fastforce
  let ?k = "ram_off KERNEL_LOAD_ADDR"
  have written: "\<exists>V'. holds V' (cache b1) \<and> flat_bytes V' ?k (length kern) = kern \<and> ?k + length kern \<le> RAM_BYTES"
    if "q = Inr u" for u
  proof -
    have k: "?k = 0x200000" by (simp add: ram_off_def)
    from write_blob_ok [OF assms(1) _ q] that obtain V' where V': "holds V' (cache b1)" "wrote V ?k kern V'"
      "kern \<noteq> [] \<longrightarrow> ?k + length kern \<le> RAM_BYTES" by auto
    then have "?k + length kern \<le> RAM_BYTES" by (cases "kern = []") (simp_all add: k)
    with V' wrote_here [OF V'(2,3)] show ?thesis by blast
  qed
  have span: "unat KERNEL_LOAD_ADDR + length kern \<le> unat (KERNEL_LOAD_ADDR + s)"
    if "?k + length kern \<le> RAM_BYTES" "s = (case riscv_image_footprint kern of Some s \<Rightarrow> s | None \<Rightarrow> of_nat (length kern))"
      "unat KERNEL_LOAD_ADDR + unat s < 2 ^ 64" for s
  proof -
    have "unat (of_nat (length kern) :: u64) = length kern" using that(1) by (simp only: unat_of_nat) simp
    then have "length kern \<le> unat s"
      using that(2) by (auto simp: riscv_image_footprint_def Let_def word_le_nat_alt split: option.splits if_splits)
    moreover have "unat (KERNEL_LOAD_ADDR + s) = unat KERNEL_LOAD_ADDR + unat s"
      using that(3) by (simp add: unat_word_ariths)
    ultimately show ?thesis by simp
  qed
  show ?thesis
  proof (cases q)
    case (Inl e)
    then have "e \<noteq> Panic" using write_blob_ok [OF assms(1) _ q] by simp
    with assms(2,3) q Inl show ?thesis
      by (cases e) (auto simp: load_kernel_def sm_bind_def sm_map_err_def sm_err_def sm_return_def split: option.splits if_splits)
  next
    case (Inr u)
    with assms(2,3) q written [OF Inr] span show ?thesis
      by (auto simp: load_kernel_def sm_bind_def sm_map_err_def sm_err_def sm_return_def kernel_at_def Let_def
          split: option.splits if_splits)
  qed
qed

lemma place_tree_ok:
  assumes V: "holds V (cache b)" and kern: "kernel_at V kern kend" and pl: "place kend (length tree) rlen = Inr layout"
    and "tree \<noteq> []" and w: "write_blob B put (dtb layout) tree b = (r, b')"
  shows "case r of Inl e \<Rightarrow> e \<noteq> Panic
    | Inr _ \<Rightarrow> \<exists>V'. holds V' (cache b') \<and> kernel_at V' kern kend \<and> tree_at V' tree layout \<and> unat kend \<le> unat (dtb layout)"
proof (cases "dtb layout = 0")
  case True
  then have "r = Inl (Err (StoreAccessFault 0))" using w write_blob_null [OF assms(4), of B put b] by simp
  then show ?thesis by simp
next
  case False
  with round_up64_cases [of 8 kend] place_Inr(1) [OF pl] have "unat (dtb layout) = round_up (unat kend) 8" by simp
  then have d: "unat kend \<le> unat (dtb layout)" "unat (dtb layout) mod 8 = 0"
    using round_up_ge round_up_bounds [of 8 "unat kend"] by simp_all
  have ram: "RAM_BASE \<le> dtb layout" using d(1) kern by (simp add: kernel_at_def to_from_ram)
  have apart: "ram_off KERNEL_LOAD_ADDR + length kern \<le> ram_off (dtb layout)"
    using d(1) kern by (auto simp: kernel_at_def ram_off_def)
  from write_blob_ok [OF V ram w] d ram apart kern assms(4) show ?thesis
    by (auto simp: kernel_at_def tree_at_def wrote_flat_bytes_other wrote_flat_bytes split: sum.splits)
qed

lemma place_ramdisk_ok:
  assumes V: "holds V (cache b)" and kern: "kernel_at V kern kend" and tree: "tree_at V tree layout"
    and kd: "unat kend \<le> unat (dtb layout)" and pl: "place kend (length tree) (Some (length bytes)) = Inr layout"
    and st: "initrd layout = Some (start, stop)" and w: "write_blob B put start bytes b = (r, b')"
  shows "case r of Inl e \<Rightarrow> e \<noteq> Panic
    | Inr _ \<Rightarrow> \<exists>V'. holds V' (cache b') \<and> kernel_at V' kern kend \<and> tree_at V' tree layout \<and>
        ramdisk_at V' (ram_off (dtb layout) + length tree) (Some bytes) layout"
proof -
  let ?d = "unat (dtb layout)" and ?t = "length tree"
  have t: "2147483648 \<le> ?d" "?d + ?t \<le> 2181038080"
    using tree by (auto simp: tree_at_def ram_off_def to_from_ram)
  then have dt: "unat (dtb layout + of_nat ?t) = ?d + ?t"
  proof -
    have "unat (of_nat ?t :: u64) = ?t" using t(2) by (simp only: unat_of_nat) simp
    with t(2) show ?thesis by (simp add: unat_word_ariths)
  qed
  from st place_Inr(2,3) [OF pl] have se: "start = round_up64 (dtb layout + of_nat ?t) 4096" "stop = start + of_nat (length bytes)"
    "stop \<le> RAM_BASE + RAM_SIZE" by (auto simp: Let_def)
  have s: "unat start = round_up (?d + ?t) 4096"
    using round_up64_cases [of 4096 "dtb layout + of_nat ?t"] t(2) se(1) dt by auto
  then have s': "?d + ?t \<le> unat start" "unat start mod 4096 = 0" "unat start < ?d + ?t + 4096"
    using round_up_ge [of "?d + ?t" 4096] round_up_bounds [of 4096 "?d + ?t"] by simp_all
  have ram: "RAM_BASE \<le> start" using s'(1) t(1) by (simp add: to_from_ram)
  have fits: "ram_off start + length bytes \<le> RAM_BYTES \<and> unat stop = unat start + length bytes"
    if "bytes \<noteq> [] \<longrightarrow> ram_off start + length bytes \<le> RAM_BYTES"
  proof (cases "bytes = []")
    case True
    with se show ?thesis by (simp add: ram_off_def word_le_nat_alt)
  next
    case False
    with that have f: "ram_off start + length bytes \<le> RAM_BYTES" by simp
    then have "unat (of_nat (length bytes) :: u64) = length bytes" by (simp only: unat_of_nat) simp
    with f show ?thesis using ram by (simp add: se(2) unat_word_ariths ram_off_def to_from_ram)
  qed
  have apart: "ram_off KERNEL_LOAD_ADDR + length kern \<le> ram_off start" "ram_off (dtb layout) + ?t \<le> ram_off start"
    using kd kern s'(1) t(1) by (auto simp: kernel_at_def ram_off_def)
  show ?thesis
  proof (cases r)
    case (Inr u)
    with write_blob_ok [OF V ram w] obtain V' where V': "holds V' (cache b')" "wrote V (ram_off start) bytes V'"
      "bytes \<noteq> [] \<longrightarrow> ram_off start + length bytes \<le> RAM_BYTES" by auto
    have "kernel_at V' kern kend" "tree_at V' tree layout"
      using kern tree apart V'(2) by (auto simp: kernel_at_def tree_at_def wrote_flat_bytes_other)
    moreover have "ramdisk_at V' (ram_off (dtb layout) + ?t) (Some bytes) layout"
      using st ram s'(2) apart(2) fits [OF V'(3)] wrote_here [OF V'(2,3)] by (simp add: ramdisk_at_def)
    ultimately show ?thesis using V'(1) Inr by auto
  qed (use write_blob_ok [OF V ram w] in simp)
qed

text \<open>What holds after each step: the kernel is in, then the tree, then the initrd.\<close>

definition kernel_in :: "u8 list \<Rightarrow> u64 \<Rightarrow> ('a, 's) bus \<Rightarrow> bool" where
  "kernel_in kern kend b \<longleftrightarrow> (\<exists>V. holds V (cache b) \<and> kernel_at V kern kend)"

definition placed where
  "placed tree ramdisk kend layout tree' \<longleftrightarrow>
     place kend (length tree) (map_option length ramdisk) = Inr layout \<and> record_initrd (initrd layout) tree = Inr tree'"

definition tree_in :: "u8 list \<Rightarrow> u64 \<Rightarrow> boot_layout \<Rightarrow> u8 list \<Rightarrow> ('a, 's) bus \<Rightarrow> bool" where
  "tree_in kern kend layout tree' b \<longleftrightarrow>
     unat kend \<le> unat (dtb layout) \<and> (\<exists>V. holds V (cache b) \<and> kernel_at V kern kend \<and> tree_at V tree' layout)"

definition booted :: "u8 list \<Rightarrow> u8 list \<Rightarrow> u8 list option \<Rightarrow> boot_layout \<Rightarrow> ('a, 's) bus \<Rightarrow> bool" where
  "booted kern tree ramdisk layout b \<longleftrightarrow>
     (\<exists>V kend tree'. holds V (cache b) \<and> kernel_at V kern kend \<and> unat kend \<le> unat (dtb layout) \<and>
        record_initrd (initrd layout) tree = Inr tree' \<and> tree_at V tree' layout \<and>
        ramdisk_at V (ram_off (dtb layout) + length tree) ramdisk layout)"

lemma hoare_kernel:
  "\<not> starts_with kern ELF_MAGIC \<Longrightarrow>
   hoare (\<lambda>b. holds V (cache b)) (sm_map_err KernelErr (load_kernel B put kern)) (kernel_in kern) (\<lambda>e _. e \<noteq> Panic)"
  by (intro hoare_map_err hoareI)
    (auto simp: stop_map_Panic kernel_in_def split: prod.splits sum.splits dest: load_kernel_ok)

lemma hoare_tree:
  fixes put :: "u8 \<Rightarrow> 's \<Rightarrow> 's"
  assumes "placed tree ramdisk kend layout tree'" and "tree \<noteq> []"
  shows "hoare (kernel_in kern kend) (sm_map_err DtbNotPlaced (write_blob B put (dtb layout) tree'))
    (\<lambda>_. tree_in kern kend layout tree') (\<lambda>e _. e \<noteq> Panic)"
proof (intro hoare_map_err hoareI)
  fix b :: "('a, 's) bus" assume "kernel_in kern kend b"
  then obtain V where V: "holds V (cache b)" "kernel_at V kern kend" by (auto simp: kernel_in_def)
  have len: "length tree' = length tree" using assms(1) record_initrd_length by (auto simp: placed_def)
  then have ne: "tree' \<noteq> []" using assms(2) by auto
  obtain r b2 where w: "write_blob B put (dtb layout) tree' b = (r, b2)" by fastforce
  from assms(1) len place_tree_ok [OF V _ ne w, of "map_option length ramdisk"]
  show "case write_blob B put (dtb layout) tree' b of (Inl e, b2) \<Rightarrow> stop_map DtbNotPlaced e \<noteq> Panic
      | (Inr _, b2) \<Rightarrow> tree_in kern kend layout tree' b2"
    by (auto simp: w stop_map_Panic placed_def tree_in_def split: sum.splits)
qed

lemma hoare_ramdisk:
  fixes put :: "u8 \<Rightarrow> 's \<Rightarrow> 's"
  assumes "placed tree ramdisk kend layout tree'"
  shows "hoare (tree_in kern kend layout tree')
    (case (ramdisk, initrd layout) of
       (Some bytes, Some (start, _)) \<Rightarrow> sm_map_err InitrdErr (write_blob B put start bytes) | _ \<Rightarrow> sm_return ())
    (\<lambda>_. booted kern tree ramdisk layout) (\<lambda>e _. e \<noteq> Panic)"
proof (rule hoareI)
  fix b :: "('a, 's) bus" assume t: "tree_in kern kend layout tree' b"
  then obtain V where V: "holds V (cache b)" "kernel_at V kern kend" "tree_at V tree' layout"
    and kd: "unat kend \<le> unat (dtb layout)" by (auto simp: tree_in_def)
  have len: "length tree' = length tree" and rec: "record_initrd (initrd layout) tree = Inr tree'"
    and pl: "place kend (length tree') (map_option length ramdisk) = Inr layout"
    using assms record_initrd_length by (auto simp: placed_def)
  show "case (case (ramdisk, initrd layout) of
       (Some bytes, Some (start, _)) \<Rightarrow> sm_map_err InitrdErr (write_blob B put start bytes) | _ \<Rightarrow> sm_return ()) b of
      (Inl e, b2) \<Rightarrow> e \<noteq> Panic | (Inr _, b2) \<Rightarrow> booted kern tree ramdisk layout b2"
  proof (cases ramdisk)
    case None
    with place_Inr(2) [OF pl] have "ramdisk_at V x ramdisk layout" for x by (simp add: ramdisk_at_def)
    with V kd rec None show ?thesis by (auto simp: sm_return_def booted_def)
  next
    case (Some bytes)
    then obtain start stop where st: "initrd layout = Some (start, stop)"
      using place_Inr(2) [OF pl] by (auto simp: Let_def)
    obtain r b2 where w: "write_blob B put start bytes b = (r, b2)" by fastforce
    from place_ramdisk_ok [OF V kd _ st w] pl rec Some len kd show ?thesis
      by (auto simp: st w sm_map_err_def stop_map_Panic booted_def split: sum.splits)
  qed
qed

lemma hoare_boot:
  assumes "\<not> starts_with kern ELF_MAGIC" and "tree \<noteq> []"
  shows "hoare (\<lambda>b. holds V (cache b)) (load_boot_images B put kern tree ramdisk)
    (\<lambda>(c, layout) b. c = boot_cpu (dtb layout) \<and> booted kern tree ramdisk layout b) (\<lambda>e _. e \<noteq> Panic)"
proof -
  have result: "hoare P (sm_map_err h (sm_result x)) (\<lambda>a b. P b \<and> x = Inr a) (\<lambda>e _. e \<noteq> Panic)"
    for P x and h :: "'x \<Rightarrow> boot_error"
    by (auto simp: hoare_def sm_map_err_def sm_result_def split: sum.splits)
  let ?rest = "\<lambda>layout tree'.
      (sm_bind (sm_map_err DtbNotPlaced (write_blob B put (dtb layout) tree')) (\<lambda>_.
       sm_bind (case (ramdisk, initrd layout) of
                (Some bytes, Some (start, _)) \<Rightarrow> sm_map_err InitrdErr (write_blob B put start bytes)
              | _ \<Rightarrow> sm_return ()) (\<lambda>_. sm_return (boot_cpu (dtb layout), layout))))"
  have "hoare (kernel_in kern kend) (?rest layout tree')
      (\<lambda>(c, layout) b. c = boot_cpu (dtb layout) \<and> booted kern tree ramdisk layout b) (\<lambda>e _. e \<noteq> Panic)"
    if "placed tree ramdisk kend layout tree'" for kend layout tree'
    by (rule hoare_bind [OF hoare_tree [OF that assms(2)]], rule hoare_bind [OF hoare_ramdisk [OF that]], rule hoare_return)
      simp
  then have rest: "hoare (\<lambda>b. (kernel_in kern kend b \<and> place kend (length tree) (map_option length ramdisk) = Inr layout) \<and>
      record_initrd (initrd layout) tree = Inr tree') (?rest layout tree')
      (\<lambda>(c, layout) b. c = boot_cpu (dtb layout) \<and> booted kern tree ramdisk layout b) (\<lambda>e _. e \<noteq> Panic)"
    for kend layout tree'
    by (intro hoare_when) (simp add: placed_def)
  show ?thesis
    unfolding load_boot_images_def
    by (rule hoare_bind [OF hoare_kernel [OF assms(1)]], rule hoare_bind [OF result], rule hoare_bind [OF result], rule rest)
qed

end

section \<open>What the guest reads in the tree\<close>

text \<open>A tree laid out as the format asks around the two slots of the runner.\<close>

definition initrd_slots :: "u8 list \<Rightarrow> bool" where
  "initrd_slots tree \<longleftrightarrow> (\<exists>os on. be32 tree 8 = Some os \<and> 40 \<le> unat os \<and> be32 tree 12 = Some on \<and>
     (\<forall>name \<in> {initrd_start_prop, initrd_end_prop}. \<forall>a b.
        prop_range tree (ascii ''/chosen'') name = Some (a, b) \<longrightarrow> b \<le> unat on))"

lemma initrd_props_differ: "initrd_start_prop \<noteq> initrd_end_prop"
  by (simp add: initrd_start_prop_def initrd_end_prop_def ascii_def)

lemma record_initrd_tells:
  assumes "record_initrd (Some (start, stop)) tree = Inr t" and "initrd_slots tree"
  shows "fdt_prop t (ascii ''/chosen'') initrd_start_prop = Some (to_be 8 start) \<and>
    fdt_prop t (ascii ''/chosen'') initrd_end_prop = Some (to_be 8 stop)"
proof -
  let ?ch = "ascii ''/chosen''"
  obtain t1 where "set_u64 tree ?ch initrd_start_prop start = Inr t1" "set_u64 t1 ?ch initrd_end_prop stop = Inr t"
    using assms(1) by (auto simp: record_initrd_def split: sum.splits)
  then obtain a1 a2 where a1: "prop_range tree ?ch initrd_start_prop = Some (a1, a1 + 8)" "t1 = splice a1 (to_be 8 start) tree"
    and a2: "prop_range t1 ?ch initrd_end_prop = Some (a2, a2 + 8)" "t = splice a2 (to_be 8 stop) t1"
    by (auto simp: set_u64_Inr)
  obtain os on where h: "be32 tree 8 = Some os" "40 \<le> unat os" "be32 tree 12 = Some on" "a1 + 8 \<le> unat on"
    and e: "\<And>b. prop_range tree ?ch initrd_end_prop = Some (a2, b) \<Longrightarrow> b \<le> unat on"
    using assms(2) a1(1) unfolding initrd_slots_def by blast
  have len: "a1 + 8 \<le> length tree" "a2 + 8 \<le> length t1" using prop_range_bounds a1(1) a2(1) by blast+
  have g1: "agree (- {a1..<a1 + 8}) tree t1" using agree_splice [of a1 "to_be 8 start" tree] len a1(2) by simp
  have g2: "agree (- {a2..<a2 + 8}) t1 t" using agree_splice [of a2 "to_be 8 stop" t1] len a2(2) by simp
  have r1: "prop_range t1 p n = prop_range tree p n" for p n by (rule prop_range_patched [OF a1(1) g1 h])
  then have "a2 + 8 \<le> unat on" using a2(1) e by simp
  moreover have "be32 t1 8 = Some os" "be32 t1 12 = Some on" using prop_range_header [OF a1(1) g1 h(1,2)] h(1,3) by simp_all
  ultimately have r2: "prop_range t p n = prop_range t1 p n" for p n
    using prop_range_patched [OF a2(1) g2 _ h(2)] by blast
  have "slice a1 8 t = slice a1 8 t1"
    using prop_range_disjoint [OF a1(1) a2(1) [unfolded r1] initrd_props_differ] by (intro agree_slice [OF g2]) auto
  moreover have "slice a1 8 t1 = to_be 8 start" "slice a2 8 t = to_be 8 stop"
    using slice_of_splice [of a1 "to_be 8 start" tree] slice_of_splice [of a2 "to_be 8 stop" t1] len a1(2) a2(2) by simp_all
  ultimately show ?thesis using a1(1) a2(1) by (simp add: fdt_prop_def r1 r2)
qed

text \<open>
  An end of the kernel within eight bytes of the top of the address space, which a crafted
  \<open>image_size\<close> gives and \<open>load_kernel\<close> passes on, is rounded up past it: the layout puts the
  tree at address zero and reports no error.
\<close>

lemma place_wraps: "place 0xFFFFFFFFFFFFFFFD 148 None = Inr \<lparr>dtb = 0, initrd = None\<rparr>"
  by (simp add: place_def round_up64_def)

section \<open>Properties\<close>

text \<open>Property C12 (boot_images_lie_where_promised): loading a raw kernel image, a device tree and an
  initrd never panics, and when it succeeds guest RAM holds all three, byte for byte: the kernel at
  its load address, the tree eight-byte aligned above it, the initrd page aligned above the tree,
  none overlapping another or the end of RAM. The hart starts the kernel in S-mode with the hart
  number in a0 and the address of the tree in a1, and the tree at that address, well laid out,
  names the two ends of the initrd.\<close>

theorem boot_images_lie_where_promised:
  assumes "total_backing B contents binv" and "cache_inv contents binv (cache b)"
    and "\<not> starts_with kern ELF_MAGIC" and "tree \<noteq> []"
  shows "case load_boot_images B put kern tree ramdisk b of
      (Inl e, b') \<Rightarrow> e \<noteq> Panic
    | (Inr (c, layout), b') \<Rightarrow>
        let bytes_at = (\<lambda>a n. flat_bytes (page_view contents (cache b')) (ram_off a) n);
            t = bytes_at (dtb layout) (length tree); end_of_tree = ram_off (dtb layout) + length tree in
        cache_inv contents binv (cache b') \<and>
        pc c = KERNEL_LOAD_ADDR \<and> priv_mode c = S \<and> regs c 10 = 0 \<and> regs c 11 = dtb layout \<and>
        bytes_at KERNEL_LOAD_ADDR (length kern) = kern \<and>
        record_initrd (initrd layout) tree = Inr t \<and> unat (dtb layout) mod 8 = 0 \<and>
        unat KERNEL_LOAD_ADDR + length kern \<le> unat (dtb layout) \<and> end_of_tree \<le> RAM_BYTES \<and>
        (case (ramdisk, initrd layout) of
           (None, None) \<Rightarrow> True
         | (Some bytes, Some (start, stop)) \<Rightarrow>
             bytes_at start (length bytes) = bytes \<and> unat start mod PAGE = 0 \<and> end_of_tree \<le> ram_off start \<and>
             ram_off start + length bytes \<le> RAM_BYTES \<and> unat stop = unat start + length bytes \<and>
             (initrd_slots tree \<longrightarrow>
                fdt_prop t (ascii ''/chosen'') initrd_start_prop = Some (to_be 8 start) \<and>
                fdt_prop t (ascii ''/chosen'') initrd_end_prop = Some (to_be 8 stop))
         | _ \<Rightarrow> False)"
proof -
  obtain r b' where l: "load_boot_images B put kern tree ramdisk b = (r, b')" by fastforce
  have holds: "total_backing.holds contents binv V c \<longleftrightarrow> cache_inv contents binv c \<and> page_view contents c = V" for V c
    by (rule holds_unfold [OF assms(1)])
  note h = total_backing.hoare_boot [OF assms(1,3,4), of "page_view contents (cache b)" put ramdisk]
  show ?thesis
  proof (cases r)
    case (Inl e)
    with h assms(2) l show ?thesis by (auto simp: hoare_def holds)
  next
    case (Inr cl)
    obtain c layout where cl: "cl = (c, layout)" by fastforce
    with h assms(2) l Inr have c: "c = boot_cpu (dtb layout)"
      and "total_backing.booted contents binv kern tree ramdisk layout b'" by (auto simp: hoare_def holds)
    then obtain kend tree' where i: "cache_inv contents binv (cache b')"
      and k: "kernel_at (page_view contents (cache b')) kern kend" "unat kend \<le> unat (dtb layout)"
      and t: "record_initrd (initrd layout) tree = Inr tree'" "tree_at (page_view contents (cache b')) tree' layout"
      and d: "ramdisk_at (page_view contents (cache b')) (ram_off (dtb layout) + length tree) ramdisk layout"
      unfolding total_backing.booted_def [OF assms(1)] holds by auto
    from record_initrd_length [OF t(1)] t have t': "flat_bytes (page_view contents (cache b')) (ram_off (dtb layout)) (length tree) = tree'"
      "unat (dtb layout) mod 8 = 0" "ram_off (dtb layout) + length tree \<le> RAM_BYTES" by (auto simp: tree_at_def)
    show ?thesis
      using i k t(1) d record_initrd_tells [of _ _ tree tree']
      by (auto simp: l Inr cl c boot_cpu_def cpu_new_def set_reg_def kernel_at_def ramdisk_at_def Let_def t'
          split: option.splits)
  qed
qed

lemma demo_dtb_slots: "initrd_slots demo_dtb"
  using demo_dtb_facts by (auto simp: initrd_slots_def initrd_start_prop_def initrd_end_prop_def)

lemma boot_images_lie_where_promised_witness:
  "case cache_new demo_backing 4 of Inr c \<Rightarrow>
     (case load_boot_images fake_ops vec_put [0x6F, 0, 0, 0] demo_dtb (Some [1, 2, 3]) (bus_new c []) of
        (Inl e, b') \<Rightarrow> e \<noteq> Panic
      | (Inr (c, layout), b') \<Rightarrow> regs c 11 = dtb layout \<and>
          (\<exists>start stop. initrd layout = Some (start, stop) \<and> unat stop = unat start + 3 \<and>
             flat_bytes (page_view fake_contents (cache b')) (ram_off start) 3 = [1, 2, 3] \<and>
             fdt_prop (flat_bytes (page_view fake_contents (cache b')) (ram_off (dtb layout)) (length demo_dtb))
               (ascii ''/chosen'') initrd_start_prop = Some (to_be 8 start)))
   | Inl _ \<Rightarrow> False"
proof -
  obtain c where c: "cache_new demo_backing 4 = Inr c" "cache_inv fake_contents fake_inv c" by (rule demo_cache)
  have inv: "cache_inv fake_contents fake_inv (cache (bus_new c ([] :: u8 list)))" using c(2) by (simp add: bus_new_def)
  have raw: "\<not> starts_with [0x6F, 0, 0, 0] ELF_MAGIC" by (simp add: starts_with_def ELF_MAGIC_def)
  have "demo_dtb \<noteq> []" using demo_dtb_facts(3) by (auto simp: be32_def get_range_def)
  note th = boot_images_lie_where_promised [OF fake.total_backing_axioms inv raw this, where put = vec_put
      and ramdisk = "Some [1, 2, 3]"]
  obtain r b' where l: "load_boot_images fake_ops vec_put [0x6F, 0, 0, 0] demo_dtb (Some [1, 2, 3]) (bus_new c []) = (r, b')"
    by fastforce
  show ?thesis
  proof (cases r)
    case (Inr p)
    obtain h layout where p: "p = (h, layout)" by fastforce
    obtain start stop where "initrd layout = Some (start, stop)" using th by (auto simp: l Inr p Let_def split: option.splits)
    with th demo_dtb_slots show ?thesis by (simp add: l Inr p Let_def c(1) numeral_3_eq_3)
  qed (use th in \<open>simp add: l c(1)\<close>)
qed

end
