(* ===== verification/Elf_Props.thy ===== *)
theory Elf_Props
  imports Boot_Image
begin

text \<open>
  The ELF loader in terms of the raw one: a segment is the blob of its file bytes followed by
  zeros, and a loaded object is the old memory overlaid with its segments, in order.
\<close>

section \<open>A segment is a blob padded with zeros\<close>

fun fault_addr :: "exception \<Rightarrow> u64" where
  "fault_addr (StoreAccessFault a) = a"
| "fault_addr (BackingFailure a) = a"
| "fault_addr e = 0"

definition padded :: "u8 list \<Rightarrow> u64 \<Rightarrow> u8 list" where
  "padded data memsz = data @ replicate (unat memsz - length data) 0"

lemma sm_map_err_bind: "sm_map_err h (sm_bind m f) = sm_bind (sm_map_err h m) (\<lambda>a. sm_map_err h (f a))"
  by (rule ext) (auto simp: sm_map_err_def sm_bind_def split: prod.split sum.split)

lemma store_error_address:
  fixes put :: "u8 \<Rightarrow> 's \<Rightarrow> 's" and B :: "'b backing_ops"
  shows "sm_map_err (\<lambda>_. Unmapped a) (bus_store B put a n v) = sm_map_err (\<lambda>e. Unmapped (fault_addr e)) (bus_store B put a n v)"
proof (rule ext)
  fix b :: "('b, 's) bus"
  obtain r b' where r: "on_cache (write_le B n a v) b = (r, b')" by fastforce
  show "sm_map_err (\<lambda>_. Unmapped a) (bus_store B put a n v) b = sm_map_err (\<lambda>e. Unmapped (fault_addr e)) (bus_store B put a n v) b"
  proof (cases r)
    case (Inl e)
    with r show ?thesis by (cases e) (simp_all add: sm_map_err_def bus_store_def sm_err_def sm_modify_def)
  qed (use r in \<open>simp add: sm_map_err_def bus_store_def sm_err_def sm_modify_def\<close>)
qed

lemma byte_of_padded: "unat i < length (padded data m) \<Longrightarrow> byte_of data i = padded data m ! unat i"
  by (auto simp: byte_of_def padded_def nth_append)

lemma length_padded: "length (padded data m) = max (unat m) (length data)"
  by (simp add: padded_def)

lemma segment_loop_is_blob:
  assumes "unat tot = length (padded data memsz)"
  shows "off \<le> tot \<Longrightarrow> segment_loop B put addr data tot off =
    sm_map_err (\<lambda>e. Unmapped (fault_addr e)) (write_blob_from B put addr (padded data memsz) (unat off))"
proof (induction "unat tot - unat off" arbitrary: off rule: less_induct)
  case less
  let ?bs = "padded data memsz" and ?a = "addr + off" and ?h = "\<lambda>e. Unmapped (fault_addr e)"
  show ?case
  proof (cases "off < tot")
    case False
    then have "off = tot" using less.prems by simp
    then show ?thesis
      by (simp add: segment_loop.simps [of _ _ _ _ _ tot] write_blob_from.simps [of _ _ _ _ "unat tot"] assms [symmetric]
          sm_map_err_def sm_return_def fun_eq_iff)
  next
    case True
    then have lt: "unat off < length ?bs" using assms by (simp add: word_less_nat_alt)
    have fit: "8 \<le> tot - off \<longleftrightarrow> 8 \<le> length ?bs - unat off"
      using unat_sub [of off tot] lt True assms by (simp add: word_le_nat_alt order_less_imp_le)
    have IH: "segment_loop B put addr data tot (off + of_nat n) = sm_map_err ?h (write_blob_from B put addr ?bs (unat off + n))"
      if "unat (off + of_nat n) = unat off + n" "unat off + n \<le> unat tot" "0 < n" for n
      using less.hyps [of "off + of_nat n"] that True by (simp add: word_less_nat_alt word_le_nat_alt)
    note unfold = segment_loop.simps [of _ _ _ _ _ off] write_blob_from.simps [of _ _ _ _ "unat off"]
    show ?thesis
    proof (cases "?a mod 8 = 0 \<and> 8 \<le> tot - off")
      case word: True
      note s = off_step [OF True, of 8]
      have room: "unat off + 8 \<le> length ?bs" using word fit by linarith
      have "map (\<lambda>i. byte_of data (off + of_nat i)) [0..<8] = slice (unat off) 8 ?bs"
      proof (rule nth_equalityI)
        fix i assume "i < length (map (\<lambda>i. byte_of data (off + of_nat i)) [0..<8])"
        then have i: "i < 8" by simp
        have w: "of_nat i \<le> tot - off"
          using word i by (auto simp: word_le_nat_alt unat_of_nat intro: order_trans less_imp_le)
        have "unat (off + of_nat i) = unat off + i"
          using i w off_step(1) [OF True w] by (cases "i = 0") auto
        with i room show "map (\<lambda>i. byte_of data (off + of_nat i)) [0..<8] ! i = slice (unat off) 8 ?bs ! i"
          by (simp add: byte_of_padded [of _ data memsz] nth_slice)
      qed (use room in \<open>simp add: length_slice\<close>)
      with IH [of 8] s word fit lt True show ?thesis
        by (simp add: unfold Let_def sm_map_err_bind store_error_address)
    next
      case byte: False
      then have no: "(?a mod 8 = 0 \<and> 8 \<le> tot - off) = False" "(?a mod 8 = 0 \<and> 8 \<le> length ?bs - unat off) = False"
        using fit by simp_all
      have b: "byte_of data off = ?bs ! unat off" using lt by (rule byte_of_padded)
      have o: "of_nat (unat off) = off" by simp
      from IH [of 1] off_step_one [OF True] lt True show ?thesis
        by (simp only: unfold o Let_def no if_True if_False sm_map_err_bind store_error_address b of_nat_1 simp_thms
            less_numeral_extra)
    qed
  qed
qed

lemma write_segment_is_blob:
  assumes "length data < 2 ^ 64"
  shows "write_segment B put addr data memsz = sm_map_err (\<lambda>e. Unmapped (fault_addr e)) (write_blob B put addr (padded data memsz))"
proof -
  have "unat (of_nat (length data) :: u64) = length data" using assms by (simp only: unat_of_nat) simp
  then have "unat (max memsz (of_nat (length data))) = length (padded data memsz)"
    by (auto simp: length_padded max_def word_le_nat_alt)
  from segment_loop_is_blob [OF this, of 0] show ?thesis by (simp add: write_segment_def write_blob_def)
qed

section \<open>Loaded objects\<close>

text \<open>The loadable segments of an object, each as the offset in RAM and the bytes of its memory.\<close>

definition segment_of :: "u8 list \<Rightarrow> elf_header \<Rightarrow> nat \<Rightarrow> (u64 \<times> u8 list) list" where
  "segment_of bytes h i =
     (case load_phdr bytes (phdr_base h i) of Inr (Some (paddr, data, memsz)) \<Rightarrow> [(paddr, padded data memsz)] | _ \<Rightarrow> [])"

definition elf_segments :: "u8 list \<Rightarrow> elf_header \<Rightarrow> nat list \<Rightarrow> (u64 \<times> u8 list) list" where
  "elf_segments bytes h is = concat (map (segment_of bytes h) is)"

text \<open>Memory with segments laid over it, a later one on top of an earlier one.\<close>

fun overlay :: "(u64 \<times> u8 list) list \<Rightarrow> (nat \<Rightarrow> u8) \<Rightarrow> nat \<Rightarrow> u8" where
  "overlay [] mem = mem"
| "overlay ((a, bs) # segs) mem =
     overlay segs (\<lambda>k. if ram_off a \<le> k \<and> k < ram_off a + length bs then bs ! (k - ram_off a) else mem k)"

lemma overlay_append: "overlay (xs @ ys) mem = overlay ys (overlay xs mem)"
  by (induction xs arbitrary: mem) auto

lemma overlay_cong: "(\<And>k. k < RAM_BYTES \<Longrightarrow> m k = m' k) \<Longrightarrow> n < RAM_BYTES \<Longrightarrow> overlay segs m n = overlay segs m' n"
proof (induction segs arbitrary: m m')
  case (Cons s segs)
  show ?case by (cases s) (simp only: overlay.simps, rule Cons.IH, simp_all add: Cons.prems)
qed simp

lemma load_phdr_length: "load_phdr bytes base = Inr (Some (paddr, data, memsz)) \<Longrightarrow> length data < 2 ^ 64"
proof -
  have "length d < 2 ^ 64" if "get_words x y bytes = Some d" for x y d
  proof -
    have "unat y < 2 ^ 64" by (rule order_less_le_trans [OF unsigned_less]) simp
    with that show ?thesis by (auto simp: get_words_def slice_def split: if_splits)
  qed
  then show "load_phdr bytes base = Inr (Some (paddr, data, memsz)) \<Longrightarrow> length data < 2 ^ 64"
    by (auto simp: load_phdr_def or_truncated_def split: option.splits if_splits)
qed

context total_backing
begin

lemma load_segments_ok:
  "holds V (cache b) \<Longrightarrow> \<forall>(a, bs) \<in> set (elf_segments bytes h is). RAM_BASE \<le> a \<Longrightarrow>
   sm_for is (\<lambda>i. load_segment B put bytes (phdr_base h i)) b = (r, b') \<Longrightarrow>
   case r of Inl e \<Rightarrow> e \<noteq> Panic
   | Inr _ \<Rightarrow> \<exists>V'. holds V' (cache b') \<and>
       (\<forall>n < RAM_BYTES. flat_byte V' n = overlay (elf_segments bytes h is) (flat_byte V) n) \<and>
       (\<forall>(a, bs) \<in> set (elf_segments bytes h is). bs \<noteq> [] \<longrightarrow> ram_off a + length bs \<le> RAM_BYTES)"
proof (induction "is" arbitrary: V b)
  case Nil
  then show ?case by (auto simp: sm_return_def elf_segments_def)
next
  case (Cons i "is")
  obtain q b1 where q: "load_segment B put bytes (phdr_base h i) b = (q, b1)" by fastforce
  have first: "case q of Inl e \<Rightarrow> e \<noteq> Panic
     | Inr _ \<Rightarrow> \<exists>V1. holds V1 (cache b1) \<and>
       (\<forall>n < RAM_BYTES. flat_byte V1 n = overlay (segment_of bytes h i) (flat_byte V) n) \<and>
       (\<forall>(a, bs) \<in> set (segment_of bytes h i). bs \<noteq> [] \<longrightarrow> ram_off a + length bs \<le> RAM_BYTES)"
  proof (cases "\<exists>paddr data memsz. load_phdr bytes (phdr_base h i) = Inr (Some (paddr, data, memsz))")
    case True
    then obtain paddr data memsz where p: "load_phdr bytes (phdr_base h i) = Inr (Some (paddr, data, memsz))" by blast
    then have s: "segment_of bytes h i = [(paddr, padded data memsz)]" by (simp add: segment_of_def)
    have ram: "RAM_BASE \<le> paddr" using Cons.prems(2) s by (simp add: elf_segments_def)
    obtain q' where w: "write_blob B put paddr (padded data memsz) b = (q', b1)"
      "q = (case q' of Inl e \<Rightarrow> Inl (stop_map (\<lambda>e. Unmapped (fault_addr e)) e) | Inr u \<Rightarrow> Inr u)"
      using q p write_segment_is_blob [OF load_phdr_length [OF p], of B put paddr memsz]
      by (auto simp: load_segment_def sm_bind_def sm_result_def sm_map_err_def split: prod.splits sum.splits)
    from write_blob_ok [OF Cons.prems(1) ram w(1)] w(2) s show ?thesis
      by (auto simp: wrote_def stop_map_Panic split: sum.splits)
  next
    case False
    then have "segment_of bytes h i = []" by (auto simp: segment_of_def split: sum.splits option.splits)
    with False q Cons.prems(1) show ?thesis
      by (auto simp: load_segment_def sm_bind_def sm_result_def sm_return_def split: sum.splits option.splits)
  qed
  show ?case
  proof (cases q)
    case (Inl e)
    with first Cons.prems(3) show ?thesis by (auto simp: sm_bind_def q)
  next
    case (Inr u)
    with first obtain V1 where V1: "holds V1 (cache b1)"
      "\<forall>n < RAM_BYTES. flat_byte V1 n = overlay (segment_of bytes h i) (flat_byte V) n"
      "\<forall>(a, bs) \<in> set (segment_of bytes h i). bs \<noteq> [] \<longrightarrow> ram_off a + length bs \<le> RAM_BYTES" by auto
    have rest: "sm_for is (\<lambda>i. load_segment B put bytes (phdr_base h i)) b1 = (r, b')"
      using Cons.prems(3) Inr by (simp add: sm_bind_def q)
    have ram: "\<forall>(a, bs) \<in> set (elf_segments bytes h is). RAM_BASE \<le> a"
      using Cons.prems(2) by (auto simp: elf_segments_def)
    have app: "elf_segments bytes h (i # is) = segment_of bytes h i @ elf_segments bytes h is" by (simp add: elf_segments_def)
    then have mem: "overlay (elf_segments bytes h (i # is)) (flat_byte V) n = overlay (elf_segments bytes h is) (flat_byte V1) n"
      if "n < RAM_BYTES" for n
      using overlay_cong [of "flat_byte V1" "overlay (segment_of bytes h i) (flat_byte V)" n] that V1(2)
      by (simp add: overlay_append)
    show ?thesis
    proof (cases r)
      case (Inr v)
      with Cons.IH [OF V1(1) ram rest] obtain V' where "holds V' (cache b')"
        "\<forall>n < RAM_BYTES. flat_byte V' n = overlay (elf_segments bytes h is) (flat_byte V1) n"
        "\<forall>(a, bs) \<in> set (elf_segments bytes h is). bs \<noteq> [] \<longrightarrow> ram_off a + length bs \<le> RAM_BYTES" by auto
      with V1(3) Inr show ?thesis by (auto simp: mem intro!: exI [of _ V']) (auto simp: app)
    qed (use Cons.IH [OF V1(1) ram rest] in simp)
  qed
qed

end

section \<open>The extent of a loaded object\<close>

lemma extent_loop_ge:
  "extent_loop bytes h is hi = Inr t \<Longrightarrow> unat hi \<le> unat t \<and>
   (\<forall>i \<in> set is. \<forall>p d m. load_phdr bytes (phdr_base h i) = Inr (Some (p, d, m)) \<longrightarrow> unat (saturating_add p (unat m)) \<le> unat t)"
proof (induction "is" arbitrary: hi)
  case (Cons i "is")
  show ?case
  proof (cases "\<exists>p d m. load_phdr bytes (phdr_base h i) = Inr (Some (p, d, m))")
    case True
    then obtain p d m where l: "load_phdr bytes (phdr_base h i) = Inr (Some (p, d, m))" by blast
    then have "extent_loop bytes h is (max hi (saturating_add p (unat m))) = Inr t"
      using Cons.prems by (auto simp: load_phdr_def or_truncated_def Let_def split: option.splits if_splits)
    from Cons.IH [OF this] l show ?thesis by (auto simp: max_def word_le_nat_alt split: if_splits)
  next
    case False
    obtain hi' where "extent_loop bytes h is hi' = Inr t" "hi \<le> hi'"
      using Cons.prems by (auto simp: or_truncated_def Let_def split: option.splits if_splits)
    with Cons.IH [of hi'] False show ?thesis by (auto simp: word_le_nat_alt)
  qed
qed simp

section \<open>Properties\<close>

text \<open>Property C20 (elf_kernel_is_overlaid): loading an ELF kernel whose loadable segments lie at or above
  the base of RAM never panics, and when it succeeds guest RAM is what it was with the segments
  laid over it in the order of the program headers, each its bytes of the file followed by
  zeros up to its size in memory; every segment lies inside RAM, and below the end that is
  reported for the kernel if its file size does not exceed its memory size.\<close>

theorem elf_kernel_is_overlaid:
  assumes "total_backing B contents binv" and "cache_inv contents binv (cache b)"
    and "starts_with bytes ELF_MAGIC"
    and "\<And>h. header bytes = Inr h \<Longrightarrow> \<forall>(a, bs) \<in> set (elf_segments bytes h [0..<unat (phnum h)]). RAM_BASE \<le> a"
  shows "case load_kernel B put bytes b of
      (Inl e, b') \<Rightarrow> e \<noteq> Panic
    | (Inr kend, b') \<Rightarrow> cache_inv contents binv (cache b') \<and>
        (\<exists>h. header bytes = Inr h \<and>
           (\<forall>n < RAM_BYTES. flat_byte (page_view contents (cache b')) n =
              overlay (elf_segments bytes h [0..<unat (phnum h)]) (flat_byte (page_view contents (cache b))) n) \<and>
           (\<forall>i < unat (phnum h). \<forall>a data memsz. load_phdr bytes (phdr_base h i) = Inr (Some (a, data, memsz)) \<longrightarrow>
              (padded data memsz \<noteq> [] \<longrightarrow> ram_off a + length (padded data memsz) \<le> RAM_BYTES) \<and>
              (padded data memsz \<noteq> [] \<and> length data \<le> unat memsz \<longrightarrow>
                 unat a + length (padded data memsz) \<le> unat kend)))"
proof (cases "header bytes")
  case (Inl e)
  with assms(3) show ?thesis
    by (simp add: load_kernel_def elf_load_def sm_bind_def sm_map_err_def sm_result_def)
next
  case (Inr h)
  let ?is = "[0..<unat (phnum h)]"
  let ?segs = "elf_segments bytes h ?is"
  obtain q b1 where q: "sm_for ?is (\<lambda>i. load_segment B put bytes (phdr_base h i)) b = (q, b1)" by fastforce
  have holds: "total_backing.holds contents binv V c \<longleftrightarrow> cache_inv contents binv c \<and> page_view contents c = V" for V c
    by (rule holds_unfold [OF assms(1)])
  note ok = total_backing.load_segments_ok [OF assms(1) _ assms(4) [OF Inr] q, of "page_view contents (cache b)",
      unfolded holds]
  have inside: "unat a + length (padded data memsz) \<le> unat t"
    if "extent bytes = Inr t" "i < unat (phnum h)" "load_phdr bytes (phdr_base h i) = Inr (Some (a, data, memsz))"
      "ram_off a + length (padded data memsz) \<le> RAM_BYTES" "RAM_BASE \<le> a" "length data \<le> unat memsz" for t i a data memsz
  proof -
    have "extent_loop bytes h ?is 0 = Inr t" using that(1) Inr by (simp add: extent_def split: if_splits)
    from extent_loop_ge [OF this] that(2,3) have "unat (saturating_add a (unat memsz)) \<le> unat t" by auto
    moreover have "unat a + unat memsz \<le> 2181038080"
      using that(4-6) by (auto simp: length_padded ram_off_def to_from_ram)
    then have "unat (saturating_add a (unat memsz)) = unat a + unat memsz"
      by (simp add: saturating_add_def unat_word_ariths)
    ultimately show ?thesis using that(6) by (simp add: length_padded)
  qed
  have seg: "(a, padded data memsz) \<in> set ?segs"
    if "i < unat (phnum h)" "load_phdr bytes (phdr_base h i) = Inr (Some (a, data, memsz))" for i a data memsz
    using that by (auto simp: elf_segments_def segment_of_def intro!: bexI [of _ i])
  show ?thesis
  proof (cases q)
    case (Inl e)
    with ok assms(2,3) q Inr show ?thesis
      by (auto simp: load_kernel_def elf_load_def sm_bind_def sm_map_err_def sm_result_def sm_err_def stop_map_Panic)
  next
    case (Inr u)
    with ok assms(2) have mem: "cache_inv contents binv (cache b1)"
      "\<forall>n < RAM_BYTES. flat_byte (page_view contents (cache b1)) n = overlay ?segs (flat_byte (page_view contents (cache b))) n"
      and fits: "\<forall>(a, bs) \<in> set ?segs. bs \<noteq> [] \<longrightarrow> ram_off a + length bs \<le> RAM_BYTES" by auto
    have load: "load_kernel B put bytes b =
        (if phnum h \<noteq> 0 \<and> unat (phentsize h) < PHDR_LEN then (Inl (Err (BrokenElf Truncated)), b)
         else case extent bytes of Inl e \<Rightarrow> (Inl (Err (BrokenElf e)), b1) | Inr t \<Rightarrow> (Inr t, b1))"
      using assms(3) q Inr \<open>header bytes = Inr h\<close>
      by (auto simp: load_kernel_def elf_load_def sm_bind_def sm_map_err_def sm_result_def sm_err_def sm_return_def
          split: sum.split)
    have fit: "ram_off a + length (padded data memsz) \<le> RAM_BYTES" and low: "RAM_BASE \<le> a"
      if "i < unat (phnum h)" "load_phdr bytes (phdr_base h i) = Inr (Some (a, data, memsz))" "padded data memsz \<noteq> []"
      for i a data memsz
      using fits assms(4) [OF \<open>header bytes = Inr h\<close>] seg [OF that(1,2)] that(3) by auto
    show ?thesis
      using mem fit low inside \<open>header bytes = Inr h\<close> by (auto simp: load split: sum.split)
  qed
qed

text \<open>An object with one segment of four file bytes and four more of zeros, at the base of RAM.\<close>

definition demo_elf :: "u8 list" where
  "demo_elf =
     [127, 69, 76, 70, 2, 1, 1, 0, 0, 0, 0, 0, 0, 0, 0, 0, 2, 0, 243, 0, 1, 0, 0, 0,
      0, 0, 0, 128, 0, 0, 0, 0, 64, 0, 0, 0, 0, 0, 0, 0, 0, 0, 0, 0, 0, 0, 0, 0,
      0, 0, 0, 0, 64, 0, 56, 0, 1, 0, 0, 0, 0, 0, 0, 0, 1, 0, 0, 0, 5, 0, 0, 0,
      120, 0, 0, 0, 0, 0, 0, 0, 0, 0, 0, 128, 0, 0, 0, 0, 0, 0, 0, 128, 0, 0, 0, 0,
      4, 0, 0, 0, 0, 0, 0, 0, 8, 0, 0, 0, 0, 0, 0, 0, 0, 16, 0, 0, 0, 0, 0, 0,
      115, 0, 0, 0]"

lemma demo_elf_facts:
  "header demo_elf = Inr \<lparr>entry = RAM_BASE, phoff = 64, phentsize = 56, phnum = 1, shoff = 0, shentsize = 0, shnum = 0\<rparr>"
  "load_phdr demo_elf 64 = Inr (Some (RAM_BASE, [0x73, 0, 0, 0], 8))"
  "starts_with demo_elf ELF_MAGIC"
  by (simp_all add: header_def load_phdr_def or_truncated_def u16_at_def u32_at_def u64_at_def get_words_def slice_def
      demo_elf_def ELF_MAGIC_def starts_with_def)

lemma demo_elf_segment: "padded [0x73, 0, 0, 0] 8 = [0x73, 0, 0, 0, 0, 0, 0, 0]"
  by code_simp

lemma elf_kernel_is_overlaid_witness:
  "case cache_new demo_backing 4 of Inr c \<Rightarrow>
     (case load_kernel fake_ops vec_put demo_elf (bus_new c []) of
        (Inl e, b') \<Rightarrow> e \<noteq> Panic
      | (Inr kend, b') \<Rightarrow> 0x80000008 \<le> kend \<and> flat_byte (page_view fake_contents (cache b')) 0 = 0x73)
   | Inl _ \<Rightarrow> False"
proof -
  obtain c where c: "cache_new demo_backing 4 = Inr c" "cache_inv fake_contents fake_inv c" by (rule demo_cache)
  let ?h = "\<lparr>entry = RAM_BASE, phoff = 64, phentsize = 56, phnum = 1, shoff = 0, shentsize = 0, shnum = 0\<rparr>"
  have segs: "elf_segments demo_elf ?h [0..<unat (phnum ?h)] = [(RAM_BASE, [0x73, 0, 0, 0, 0, 0, 0, 0])]"
    by (simp add: elf_segments_def segment_of_def phdr_base_def demo_elf_facts demo_elf_segment)
  have inv: "cache_inv fake_contents fake_inv (cache (bus_new c ([] :: u8 list)))" using c(2) by (simp add: bus_new_def)
  have ram: "\<forall>(a, bs) \<in> set (elf_segments demo_elf h [0..<unat (phnum h)]). RAM_BASE \<le> a" if "header demo_elf = Inr h" for h
    using that segs by (auto simp: demo_elf_facts)
  have "ram_off RAM_BASE = 0" by (simp add: ram_off_def)
  moreover have "unat (phnum ?h) = 1" "phdr_base ?h 0 = 64" by (simp_all add: phdr_base_def)
  moreover note elf_kernel_is_overlaid [OF fake.total_backing_axioms inv demo_elf_facts(3) ram, of vec_put]
  ultimately show ?thesis
    using segs by (auto simp: c(1) demo_elf_facts demo_elf_segment word_le_nat_alt split: prod.splits sum.splits)
qed

text \<open>
  The same object with a memory size of zero: the loader still writes the four file bytes, and the
  extent does not count them.
\<close>

lemma extent_misses_file_bytes:
  "load_phdr (demo_elf[104 := 0]) 64 = Inr (Some (RAM_BASE, [0x73, 0, 0, 0], 0))"
  "padded [0x73, 0, 0, 0] 0 = [0x73, 0, 0, 0]"
  "extent (demo_elf[104 := 0]) = Inr RAM_BASE"
  by (simp_all add: header_def load_phdr_def or_truncated_def u16_at_def u32_at_def u64_at_def get_words_def slice_def
      demo_elf_def ELF_MAGIC_def padded_def extent_def phdr_base_def saturating_add_def)

end
