(* ===== verification/Oled.thy ===== *)
theory Oled
  imports Fdt
begin

text \<open>
  \<open>badge/app/src/oled.rs\<close>: the character grid that turns the console bytes of the guest into a
  screen, and the sink that draws it. Indexing outside the grid is a panic. The display server is
  the record \<open>screen_ops\<close>, the trait \<open>Screen\<close>.
\<close>

abbreviation COLS :: nat where "COLS \<equiv> 16"
abbreviation ROWS :: nat where "ROWS \<equiv> 8"
abbreviation TAB :: nat where "TAB \<equiv> 8"
abbreviation ALERT_AFTER :: u32 where "ALERT_AFTER \<equiv> 3"
abbreviation BLANK :: u8 where "BLANK \<equiv> 0x20"

definition HEARTBEAT :: "u8 list" where
  "HEARTBEAT = [0x7C, 0x2F, 0x2D, 0x5C]"

section \<open>The grid\<close>

datatype esc = Ground | Seen | Csi

record grid =
  cells :: "u8 list list"
  grow :: nat
  gcol :: nat
  dirty :: bool
  escape :: esc

type_synonym 'a gridm = "(grid, unit, 'a) sm"

definition grid_blank :: grid where
  "grid_blank = \<lparr>cells = replicate ROWS (replicate COLS BLANK), grow = 0, gcol = 0, dirty = True, escape = Ground\<rparr>"

definition newline :: "grid \<Rightarrow> grid" where
  "newline g =
     (if grow g + 1 < ROWS then g\<lparr>grow := grow g + 1\<rparr>
      else g\<lparr>cells := (rotate1 (cells g))[ROWS - 1 := replicate COLS BLANK]\<rparr>)"

definition grid_write :: "u8 \<Rightarrow> unit gridm" where
  "grid_write b g =
     (let g = (if gcol g = COLS then newline (g\<lparr>gcol := 0\<rparr>) else g) in
      if grow g < length (cells g) \<and> gcol g < length (cells g ! grow g)
      then (Inr (), g\<lparr>cells := (cells g)[grow g := (cells g ! grow g)[gcol g := b]], gcol := gcol g + 1\<rparr>)
      else (Inl Panic, g))"

definition is_ascii_graphic :: "u8 \<Rightarrow> bool" where
  "is_ascii_graphic b \<longleftrightarrow> 0x21 \<le> b \<and> b \<le> 0x7E"

text \<open>A byte in ordinary text.\<close>

definition put_ground :: "u8 \<Rightarrow> unit gridm" where
  "put_ground b =
     (if b = 0x1B then sm_modify (\<lambda>g. g\<lparr>escape := Seen\<rparr>)
      else if b = 0x0A then sm_modify (\<lambda>g. newline (g\<lparr>gcol := 0\<rparr>))
      else if b = 0x0D then sm_modify (\<lambda>g. g\<lparr>gcol := 0\<rparr>)
      else if b = 0x08 then sm_modify (\<lambda>g. g\<lparr>gcol := gcol g - 1\<rparr>)
      else if b = 0x09
      then sm_bind (sm_get gcol) (\<lambda>c.
        let stop = (c div TAB + 1) * TAB in sm_for [c..<min stop COLS] (\<lambda>_. grid_write BLANK))
      else if is_ascii_graphic b \<or> b = BLANK then grid_write b
      else sm_return ())"

definition grid_put :: "u8 \<Rightarrow> unit gridm" where
  "grid_put b =
     sm_bind (sm_modify (\<lambda>g. g\<lparr>dirty := True\<rparr>)) (\<lambda>_.
     sm_bind (sm_get escape) (\<lambda>e.
     case e of
       Seen \<Rightarrow> sm_modify (\<lambda>g. g\<lparr>escape := (if b = 0x5B then Csi else Ground)\<rparr>)
     | Csi \<Rightarrow> if 0x40 \<le> b \<and> b \<le> 0x7E then sm_modify (\<lambda>g. g\<lparr>escape := Ground\<rparr>) else sm_return ()
     | Ground \<Rightarrow> put_ground b))"

definition write_str :: "u8 list \<Rightarrow> unit gridm" where
  "write_str s = sm_for s grid_put"

text \<open>\<open>Grid::new\<close>: the banner and the ruler.\<close>

definition grid_new :: "(unit stop + unit) \<times> grid" where
  "grid_new =
     sm_bind (write_str (ascii ''rv64 emu 16x8'' @ [0x0A])) (\<lambda>_.
       write_str (ascii ''0123456789abcdef'' @ [0x0A])) grid_blank"

definition take_dirty :: "grid \<Rightarrow> bool \<times> grid" where
  "take_dirty g = (dirty g, g\<lparr>dirty := False\<rparr>)"

section \<open>The sink\<close>

datatype screen_error = DrawFailed | FlushFailed

record 'c screen_ops =
  draw :: "u8 list \<Rightarrow> 'c \<Rightarrow> (screen_error + unit) \<times> 'c"
  alert :: "'c \<Rightarrow> 'c"

record 'c oled =
  grid :: grid
  screen :: 'c
  pending :: bool
  beat :: u64
  heartbeat :: bool
  frames_drawn :: u32
  fails :: u32
  streak :: u32

fun lines_of :: "u8 list list \<Rightarrow> u8 list" where
  "lines_of [] = []"
| "lines_of [r] = r"
| "lines_of (r # s # rs) = r @ [0x0A] @ lines_of (s # rs)"

text \<open>\<open>frame\<close>: the rows with the spinner over a blank last cell.\<close>

definition oled_frame :: "'c oled \<Rightarrow> u8 list" where
  "oled_frame s =
     (let out = lines_of (cells (grid s)); final = length out - 1 in
      if heartbeat s \<and> out ! final = BLANK
      then out[final := HEARTBEAT ! (unat (beat s) mod length HEARTBEAT)] else out)"

definition oled_flush :: "'c screen_ops \<Rightarrow> 'c oled \<Rightarrow> 'c oled" where
  "oled_flush S s =
     (case take_dirty (grid s) of (was, g) \<Rightarrow>
      let s = s\<lparr>grid := g, pending := (if was then True else pending s)\<rparr> in
      if \<not> pending s then s
      else case draw S (oled_frame s) (screen s) of
        (Inr _, c) \<Rightarrow> s\<lparr>screen := c, pending := False, frames_drawn := frames_drawn s + 1, streak := 0\<rparr>
      | (Inl e, c) \<Rightarrow>
          let s = s\<lparr>screen := c, fails := fails s + 1, streak := streak s + 1\<rparr> in
          if streak s = ALERT_AFTER then s\<lparr>screen := alert S (screen s)\<rparr> else s)"

definition with_screen :: "'c screen_ops \<Rightarrow> 'c \<Rightarrow> unit stop + 'c oled" where
  "with_screen S c =
     (case grid_new of
        (Inl e, _) \<Rightarrow> Inl e
      | (Inr _, g) \<Rightarrow>
          Inr (oled_flush S \<lparr>grid = g, screen = c, pending = True, beat = 0, heartbeat = True,
                 frames_drawn = 0, fails = 0, streak = 0\<rparr>))"

definition oled_tick :: "'c oled \<Rightarrow> 'c oled" where
  "oled_tick s = s\<lparr>beat := beat s + 1, pending := True\<rparr>"

definition set_heartbeat :: "bool \<Rightarrow> 'c oled \<Rightarrow> 'c oled" where
  "set_heartbeat on s = s\<lparr>heartbeat := on, pending := True\<rparr>"

definition oled_put :: "u8 \<Rightarrow> ('c oled, unit, unit) sm" where
  "oled_put b = sm_field grid (\<lambda>g s. s\<lparr>grid := g\<rparr>) (grid_put b)"

text \<open>The laptop end of the seam: the frames it was given, and whether it refuses them.\<close>

record fake_screen =
  shown :: "u8 list list"
  alerts :: u32
  failing :: bool

definition fake_screen_ops :: "fake_screen screen_ops" where
  "fake_screen_ops =
     \<lparr>draw = (\<lambda>f c. if failing c then (Inl DrawFailed, c) else (Inr (), c\<lparr>shown := shown c @ [f]\<rparr>)),
      alert = (\<lambda>c. c\<lparr>alerts := alerts c + 1\<rparr>)\<rparr>"

end
