(* ===== verification/Oled_Props.thy ===== *)
theory Oled_Props
  imports Oled
begin

text \<open>
  The grid against a terminal that never scrolls: every byte stream leaves in its cells the last
  rows of the text that terminal holds, and whatever calls the sink is given, a flush leaves the
  picture of those rows on the display.
\<close>

section \<open>A terminal with all its rows\<close>

record scroll =
  srows :: "u8 list list"
  scol :: nat
  sescape :: esc

abbreviation BLANK_ROW :: "u8 list" where "BLANK_ROW \<equiv> replicate COLS BLANK"

definition scroll_new :: scroll where
  "scroll_new = \<lparr>srows = [BLANK_ROW], scol = 0, sescape = Ground\<rparr>"

definition scroll_newline :: "scroll \<Rightarrow> scroll" where
  "scroll_newline t = t\<lparr>srows := srows t @ [BLANK_ROW], scol := 0\<rparr>"

definition scroll_write :: "u8 \<Rightarrow> scroll \<Rightarrow> scroll" where
  "scroll_write b t =
     (let t = (if scol t = COLS then scroll_newline t else t)
      in t\<lparr>srows := butlast (srows t) @ [(last (srows t))[scol t := b]], scol := scol t + 1\<rparr>)"

definition scroll_put :: "u8 \<Rightarrow> scroll \<Rightarrow> scroll" where
  "scroll_put b t =
     (case sescape t of
        Seen \<Rightarrow> t\<lparr>sescape := (if b = 0x5B then Csi else Ground)\<rparr>
      | Csi \<Rightarrow> t\<lparr>sescape := (if 0x40 \<le> b \<and> b \<le> 0x7E then Ground else Csi)\<rparr>
      | Ground \<Rightarrow>
          if b = 0x1B then t\<lparr>sescape := Seen\<rparr>
          else if b = 0x0A then scroll_newline t
          else if b = 0x0D then t\<lparr>scol := 0\<rparr>
          else if b = 0x08 then t\<lparr>scol := scol t - 1\<rparr>
          else if b = 0x09 then (scroll_write BLANK ^^ (min ((scol t div TAB + 1) * TAB) COLS - scol t)) t
          else if 0x20 \<le> b \<and> b \<le> 0x7E then scroll_write b t
          else t)"

text \<open>What a screen of \<open>ROWS\<close> rows shows of it: the last of them, over blank rows if there are fewer.\<close>

definition visible :: "u8 list list \<Rightarrow> u8 list list" where
  "visible R = drop (length R - ROWS) R @ replicate (ROWS - length R) BLANK_ROW"

definition printable_row :: "u8 list \<Rightarrow> bool" where
  "printable_row r \<longleftrightarrow> length r = COLS \<and> (\<forall>b \<in> set r. BLANK \<le> b \<and> b \<le> 0x7E)"

lemma printable_blank [simp]: "printable_row BLANK_ROW"
  by (simp add: printable_row_def)

lemma printable_row_update:
  "printable_row r \<Longrightarrow> BLANK \<le> b \<Longrightarrow> b \<le> 0x7E \<Longrightarrow> printable_row (r[i := b])"
  unfolding printable_row_def using set_update_subset_insert [of r i b] by auto

definition on_screen :: "grid \<Rightarrow> scroll \<Rightarrow> bool" where
  "on_screen g t \<longleftrightarrow> cells g = visible (srows t) \<and> grow g = min (length (srows t)) ROWS - 1 \<and> gcol g = scol t \<and>
     escape g = sescape t \<and> srows t \<noteq> [] \<and> scol t \<le> COLS \<and>
     (\<forall>r \<in> set (srows t). printable_row r)"

lemma length_visible [simp]: "length (visible R) = ROWS"
  by (simp add: visible_def)

lemma visible_newline:
  "visible (R @ [BLANK_ROW]) = (if length R < ROWS then visible R else (rotate1 (visible R))[ROWS - 1 := BLANK_ROW])"
proof (cases "length R < ROWS")
  case True
  then have "ROWS - length R = Suc (ROWS - Suc (length R))" by simp
  with True show ?thesis by (simp add: visible_def)
next
  case False
  let ?v = "drop (length R - ROWS) R"
  have l: "length ?v = ROWS" using False by simp
  then obtain x xs where v: "?v = x # xs" "length xs = ROWS - 1" by (cases ?v) auto
  have "Suc (length R) - ROWS = Suc (length R - ROWS)" using False by simp
  then have "drop (Suc (length R) - ROWS) R = tl ?v" by (simp add: drop_Suc tl_drop)
  with False v show ?thesis by (simp add: visible_def list_update_append)
qed

lemma visible_last:
  assumes "R \<noteq> []"
  shows "visible R ! (min (length R) ROWS - 1) = last R"
    and "visible (butlast R @ [x]) = (visible R)[min (length R) ROWS - 1 := x]"
proof -
  obtain S y where R: "R = S @ [y]" using assms by (metis append_butlast_last_id)
  let ?k = "length R - ROWS"
  have k: "drop ?k (S @ [z]) = drop ?k S @ [z]" "length (drop ?k S) = min (length R) ROWS - 1" for z
    by (auto simp: R)
  show "visible R ! (min (length R) ROWS - 1) = last R"
    unfolding visible_def using k by (simp add: R nth_append)
  show "visible (butlast R @ [x]) = (visible R)[min (length R) ROWS - 1 := x]"
    unfolding visible_def using k by (simp add: R list_update_append)
qed

section \<open>The operations\<close>

lemma on_screen_newline: "on_screen g t \<Longrightarrow> on_screen (newline (g\<lparr>gcol := 0\<rparr>)) (scroll_newline t)"
  by (auto simp: on_screen_def newline_def scroll_newline_def visible_newline)

lemma on_screen_write:
  assumes "on_screen g t" and "BLANK \<le> b" and "b \<le> 0x7E"
  shows "\<exists>g'. grid_write b g = (Inr (), g') \<and> on_screen g' (scroll_write b t)"
proof -
  let ?g = "if gcol g = COLS then newline (g\<lparr>gcol := 0\<rparr>) else g"
  let ?t = "if scol t = COLS then scroll_newline t else t"
  have s: "on_screen ?g ?t" using assms(1) on_screen_newline [OF assms(1)] by (auto simp: on_screen_def)
  have c: "scol ?t < COLS" using assms(1) by (auto simp: on_screen_def scroll_newline_def)
  have ne: "srows ?t \<noteq> []" using s unfolding on_screen_def by blast
  have row: "cells ?g ! grow ?g = last (srows ?t)" using s visible_last(1) [OF ne] unfolding on_screen_def by simp
  have len: "length (last (srows ?t)) = COLS" using s ne unfolding on_screen_def printable_row_def by (meson last_in_set)
  have inb: "grow ?g < length (cells ?g)" using s unfolding on_screen_def by simp
  let ?h = "?g\<lparr>cells := (cells ?g)[grow ?g := (last (srows ?t))[scol ?t := b]], gcol := scol ?t + 1\<rparr>"
  have "grid_write b g = (Inr (), ?h)"
    using inb row len c s unfolding grid_write_def on_screen_def by (simp add: Let_def)
  moreover have "on_screen ?h (scroll_write b t)"
  proof -
    have upd: "cells ?h = visible (butlast (srows ?t) @ [(last (srows ?t))[scol ?t := b]])"
      using s visible_last(2) [OF ne] unfolding on_screen_def by simp
    have old: "\<forall>r \<in> set (srows ?t). printable_row r"
      using s unfolding on_screen_def by blast
    have "printable_row ((last (srows ?t))[scol ?t := b])"
      using old ne assms(2,3) by (intro printable_row_update) auto
    then have "\<forall>r \<in> set (butlast (srows ?t) @ [(last (srows ?t))[scol ?t := b]]). printable_row r"
      using old by (auto dest: in_set_butlastD)
    with s c upd ne show ?thesis unfolding on_screen_def scroll_write_def Let_def
      by (simp add: Suc_le_eq)
  qed
  ultimately show ?thesis by blast
qed

lemma on_screen_tab:
  "on_screen g t \<Longrightarrow>
   \<exists>g'. sm_for xs (\<lambda>_. grid_write BLANK) g = (Inr (), g') \<and> on_screen g' ((scroll_write BLANK ^^ length xs) t)"
proof (induction xs arbitrary: g t)
  case (Cons x xs)
  obtain g1 where "grid_write BLANK g = (Inr (), g1)" and s: "on_screen g1 (scroll_write BLANK t)"
    using on_screen_write [OF Cons.prems, of BLANK] by auto
  with Cons.IH [OF s] show ?case by (simp add: sm_bind_def funpow_swap1)
qed (simp add: sm_return_def)

lemma on_screen_escape: "on_screen g t \<Longrightarrow> on_screen (g\<lparr>escape := e\<rparr>) (t\<lparr>sescape := e\<rparr>)"
  and on_screen_column: "on_screen g t \<Longrightarrow> c \<le> COLS \<Longrightarrow> on_screen (g\<lparr>gcol := c\<rparr>) (t\<lparr>scol := c\<rparr>)"
  and on_screen_dirty: "on_screen g t \<Longrightarrow> on_screen (g\<lparr>dirty := d\<rparr>) t"
  and on_screen_cursor: "on_screen g t \<Longrightarrow> gcol g = scol t"
  and on_screen_state: "on_screen g t \<Longrightarrow> escape g = sescape t"
  and on_screen_inside: "on_screen g t \<Longrightarrow> scol t \<le> COLS"
  and on_screen_cells: "on_screen g t \<Longrightarrow> cells g = visible (srows t)"
  and on_screen_printable: "on_screen g t \<Longrightarrow> r \<in> set (srows t) \<Longrightarrow> printable_row r"
  by (auto simp: on_screen_def)

lemma drawable_byte: "is_ascii_graphic b \<or> b = BLANK \<longleftrightarrow> BLANK \<le> b \<and> b \<le> (0x7E :: u8)"
  unfolding is_ascii_graphic_def by unat_arith

lemma on_screen_ground:
  assumes "on_screen g t" and "sescape t = Ground"
  shows "\<exists>g'. put_ground b g = (Inr (), g') \<and> on_screen g' (scroll_put b t)"
proof -
  consider (esc) "b = 0x1B" | (newline) "b = 0x0A" | (cr) "b = 0x0D" | (bs) "b = 0x08" | (tab) "b = 0x09"
    | (glyph) "BLANK \<le> b \<and> b \<le> 0x7E" "b \<noteq> 0x1B" "b \<noteq> 0x0A" "b \<noteq> 0x0D" "b \<noteq> 0x08" "b \<noteq> 0x09"
    | (other) "\<not> (BLANK \<le> b \<and> b \<le> 0x7E)" "b \<noteq> 0x1B" "b \<noteq> 0x0A" "b \<noteq> 0x0D" "b \<noteq> 0x08" "b \<noteq> 0x09"
    by blast
  then show ?thesis
  proof cases
    case esc
    then show ?thesis using on_screen_escape [OF assms(1), of Seen] assms(2)
      by (simp add: put_ground_def scroll_put_def sm_modify_def)
  next
    case newline
    then show ?thesis using on_screen_newline [OF assms(1)] assms(2)
      by (simp add: put_ground_def scroll_put_def sm_modify_def)
  next
    case cr
    then show ?thesis using on_screen_column [OF assms(1), of 0] assms(2)
      by (simp add: put_ground_def scroll_put_def sm_modify_def)
  next
    case bs
    then show ?thesis
      using on_screen_column [OF assms(1), of "scol t - 1"] on_screen_inside [OF assms(1)]
        on_screen_cursor [OF assms(1)] assms(2)
      by (simp add: put_ground_def scroll_put_def sm_modify_def)
  next
    case tab
    then show ?thesis
      using on_screen_tab [OF assms(1), of "[scol t..<min ((scol t div TAB + 1) * TAB) COLS]"]
        on_screen_cursor [OF assms(1)] assms(2)
      by (simp add: put_ground_def scroll_put_def sm_bind_def sm_get_def)
  next
    case glyph
    then show ?thesis using on_screen_write [OF assms(1), of b] assms(2) drawable_byte [of b]
      by (simp add: put_ground_def scroll_put_def)
  next
    case other
    have "\<not> (is_ascii_graphic b \<or> b = BLANK)" using other(1) drawable_byte [of b] by blast
    then have "put_ground b g = (Inr (), g)"
      using other(2-) by (simp add: put_ground_def sm_return_def)
    moreover have "scroll_put b t = t"
      using other(2-) assms(2) by (simp only: scroll_put_def if_not_P [OF other(1)] esc.case if_False)
    ultimately show ?thesis using assms(1) by simp
  qed
qed

lemma on_screen_put:
  assumes "on_screen g t"
  shows "\<exists>g'. grid_put b g = (Inr (), g') \<and> on_screen g' (scroll_put b t)"
proof -
  let ?g = "g\<lparr>dirty := True\<rparr>"
  have s: "on_screen ?g t" by (rule on_screen_dirty [OF assms])
  note e = on_screen_state [OF assms]
  show ?thesis
  proof (cases "sescape t")
    case Ground
    with on_screen_ground [OF s Ground, of b] e show ?thesis
      by (simp add: grid_put_def sm_bind_def sm_modify_def sm_get_def)
  next
    case Seen
    with on_screen_escape [OF s] e show ?thesis
      by (simp add: grid_put_def scroll_put_def sm_bind_def sm_modify_def sm_get_def)
  next
    case Csi
    then have [simp]: "t\<lparr>sescape := Csi\<rparr> = t" by (cases t) simp
    from Csi on_screen_escape [OF s, of Ground] s e show ?thesis
      by (simp add: grid_put_def scroll_put_def sm_bind_def sm_modify_def sm_get_def sm_return_def)
  qed
qed

lemma on_screen_stream:
  "on_screen g t \<Longrightarrow> \<exists>g'. sm_for bs grid_put g = (Inr (), g') \<and> on_screen g' (fold scroll_put bs t)"
proof (induction bs arbitrary: g t)
  case (Cons b bs)
  obtain g1 where "grid_put b g = (Inr (), g1)" and s: "on_screen g1 (scroll_put b t)"
    using on_screen_put [OF Cons.prems, of b] by blast
  with Cons.IH [OF s] show ?case by (simp add: sm_bind_def)
qed (simp add: sm_return_def)

lemma on_screen_blank: "on_screen grid_blank scroll_new"
  by (simp add: on_screen_def grid_blank_def scroll_new_def visible_def flip: replicate_Suc)

section \<open>The picture\<close>

text \<open>
  The calls of the sink: a byte of the console, a flush, a beat of the emulator, the spinner switched
  on or off.
\<close>

datatype sink_call = Put u8 | Flush | Tick | Spin bool

fun call_sink :: "'c screen_ops \<Rightarrow> sink_call \<Rightarrow> ('c oled, unit, unit) sm" where
  "call_sink S (Put b) = oled_put b"
| "call_sink S Flush = sm_modify (oled_flush S)"
| "call_sink S Tick = sm_modify oled_tick"
| "call_sink S (Spin on) = sm_modify (set_heartbeat on)"

text \<open>What the calls print, count and switch.\<close>

definition printed :: "sink_call list \<Rightarrow> u8 list" where
  "printed cs = concat (map (\<lambda>c. case c of Put b \<Rightarrow> [b] | _ \<Rightarrow> []) cs)"

definition beats :: "sink_call list \<Rightarrow> nat" where
  "beats cs = length (filter (\<lambda>c. c = Tick) cs)"

definition spinning :: "sink_call list \<Rightarrow> bool" where
  "spinning cs = fold (\<lambda>c on. case c of Spin b \<Rightarrow> b | _ \<Rightarrow> on) cs True"

text \<open>The picture of some rows, line by line, with the spinner in the last cell unless text is there.\<close>

definition with_spinner :: "bool \<Rightarrow> nat \<Rightarrow> u8 list \<Rightarrow> u8 list" where
  "with_spinner on n r =
     (if on \<and> r ! (COLS - 1) = BLANK then r[COLS - 1 := [0x7C, 0x2F, 0x2D, 0x5C] ! (n mod 4)] else r)"

definition picture :: "bool \<Rightarrow> nat \<Rightarrow> u8 list list \<Rightarrow> u8 list" where
  "picture on n rows = concat (map (\<lambda>r. r @ [0x0A]) (butlast rows)) @ with_spinner on n (last rows)"

definition banner :: "u8 list" where
  "banner = ascii ''rv64 emu 16x8'' @ [0x0A] @ ascii ''0123456789abcdef'' @ [0x0A]"

definition text_rows :: "sink_call list \<Rightarrow> u8 list list" where
  "text_rows cs = visible (srows (fold scroll_put (banner @ printed cs) scroll_new))"

text \<open>A display that keeps the last frame it took.\<close>

definition showing :: "'c screen_ops \<Rightarrow> ('c \<times> u8 list) screen_ops" where
  "showing S =
     \<lparr>draw = (\<lambda>f (c, old). case draw S f c of (Inr _, c) \<Rightarrow> (Inr (), (c, f)) | (Inl e, c) \<Rightarrow> (Inl e, (c, old))),
      alert = (\<lambda>(c, old). (alert S c, old))\<rparr>"

lemma lines_of_concat: "rs \<noteq> [] \<Longrightarrow> lines_of rs = concat (map (\<lambda>r. r @ [0x0A]) (butlast rs)) @ last rs"
  by (induction rs rule: lines_of.induct) simp_all

lemma frame_picture:
  assumes "cells (grid s) = visible R" and "\<forall>r \<in> set (visible R). printable_row r" and "beat s = of_nat n"
  shows "oled_frame s = picture (heartbeat s) n (visible R)"
proof -
  let ?v = "visible R"
  have ne: "?v \<noteq> []" by (metis length_visible list.size(3) zero_neq_numeral)
  have l: "length (last ?v) = COLS" using assms(2) last_in_set [OF ne] by (simp add: printable_row_def)
  let ?pre = "concat (map (\<lambda>r. r @ [0x0A]) (butlast ?v))"
  have out: "lines_of (cells (grid s)) = ?pre @ last ?v" by (simp add: assms(1) lines_of_concat [OF ne])
  have final: "length (?pre @ last ?v) - 1 = length ?pre + (COLS - 1)" using l by simp
  have n: "unat (beat s) mod 4 = n mod 4"
    unfolding assms(3) by (simp add: unsigned_of_nat take_bit_eq_mod mod_mod_cancel)
  show ?thesis
    unfolding oled_frame_def picture_def with_spinner_def out Let_def final using n
    by (simp add: nth_append list_update_append HEARTBEAT_def)
qed

lemma grid_put_dirty: "grid_put b g = (r, g') \<Longrightarrow> dirty g'"
proof -
  have n: "dirty (newline g) = dirty g" for g by (simp add: newline_def)
  have w: "grid_write b g = (r, g') \<Longrightarrow> dirty g' = dirty g" for b g r g'
    by (auto simp: grid_write_def Let_def n split: if_splits)
  have t: "sm_for xs (\<lambda>_. grid_write BLANK) g = (r, g') \<Longrightarrow> dirty g' = dirty g" for xs :: "nat list" and g r g'
    by (induction xs arbitrary: g) (auto simp: sm_bind_def sm_return_def dest: w split: prod.splits sum.splits)
  assume "grid_put b g = (r, g')"
  then show ?thesis
    by (auto simp: grid_put_def put_ground_def sm_bind_def sm_modify_def sm_get_def sm_return_def n Let_def
        dest!: w t split: esc.splits if_splits)
qed

definition sink_inv :: "sink_call list \<Rightarrow> ('c \<times> u8 list) oled \<Rightarrow> bool" where
  "sink_inv cs s \<longleftrightarrow> on_screen (grid s) (fold scroll_put (banner @ printed cs) scroll_new) \<and>
     beat s = of_nat (beats cs) \<and> heartbeat s = spinning cs \<and>
     (dirty (grid s) \<or> pending s \<or> snd (screen s) = oled_frame s)"

lemma call_lists [simp]:
  "printed (cs @ ds) = printed cs @ printed ds" "beats (cs @ ds) = beats cs + beats ds"
  "spinning (cs @ [d]) = (case d of Spin b \<Rightarrow> b | _ \<Rightarrow> spinning cs)"
  by (simp_all add: printed_def beats_def spinning_def split: sink_call.split)

lemma frame_cong:
  "cells (grid s) = cells (grid s') \<Longrightarrow> beat s = beat s' \<Longrightarrow> heartbeat s = heartbeat s' \<Longrightarrow> oled_frame s = oled_frame s'"
  by (simp only: oled_frame_def)

lemma flush_inv:
  fixes s :: "('c \<times> u8 list) oled"
  assumes "sink_inv cs s"
  shows "sink_inv cs (oled_flush (showing S) s)"
    and "(\<exists>e. fst (draw S (oled_frame s) (fst (screen s))) = Inl e) \<or> snd (screen (oled_flush (showing S) s)) = oled_frame s"
proof -
  obtain c old where sc: "screen s = (c, old)" by (cases "screen s")
  obtain r c' where d: "draw S (oled_frame s) c = (r, c')" by (cases "draw S (oled_frame s) c")
  have f': "oled_frame (s\<lparr>grid := grid s\<lparr>dirty := x\<rparr>, pending := p\<rparr>) = oled_frame s" for x p by (rule frame_cong) simp_all
  note defs = sink_inv_def oled_flush_def take_dirty_def showing_def sc Let_def d f'
  have "on_screen (grid s\<lparr>dirty := False\<rparr>) (fold scroll_put (banner @ printed cs) scroll_new)"
    using assms on_screen_dirty by (auto simp: sink_inv_def)
  with assms show "sink_inv cs (oled_flush (showing S) s)"
    by (cases r) (auto simp: defs intro: frame_cong)
  show "(\<exists>e. fst (draw S (oled_frame s) (fst (screen s))) = Inl e) \<or> snd (screen (oled_flush (showing S) s)) = oled_frame s"
    using assms by (cases r) (auto simp: defs)
qed


lemma call_inv:
  fixes s :: "('c \<times> u8 list) oled"
  assumes "sink_inv cs s"
  shows "\<exists>s'. call_sink (showing S) c s = (Inr (), s') \<and> sink_inv (cs @ [c]) s'"
proof (cases c)
  case (Put b)
  obtain g where g: "grid_put b (grid s) = (Inr (), g)" and o: "on_screen g (scroll_put b (fold scroll_put (banner @ printed cs) scroll_new))"
    using assms on_screen_put unfolding sink_inv_def by blast
  have "sink_inv (cs @ [Put b]) (s\<lparr>grid := g\<rparr>)"
    using assms o grid_put_dirty [OF g] by (simp add: sink_inv_def printed_def beats_def)
  with g Put show ?thesis by (simp add: oled_put_def sm_field_def)
next
  case Flush
  have "sink_inv (cs @ [Flush]) s' = sink_inv cs s'" for s' :: "('c \<times> u8 list) oled"
    by (simp add: sink_inv_def printed_def beats_def)
  with flush_inv(1) [OF assms, of S] Flush show ?thesis by (simp add: sm_modify_def)
next
  case Tick
  with assms show ?thesis by (simp add: sm_modify_def oled_tick_def sink_inv_def printed_def beats_def)
next
  case (Spin on)
  with assms show ?thesis by (simp add: sm_modify_def set_heartbeat_def sink_inv_def printed_def beats_def)
qed

lemma calls_inv:
  "sink_inv cs s \<Longrightarrow> \<exists>s'. sm_for ds (call_sink (showing S)) s = (Inr (), s') \<and> sink_inv (cs @ ds) s'"
proof (induction ds arbitrary: cs s)
  case (Cons d ds)
  obtain s1 where s1: "call_sink (showing S) d s = (Inr (), s1)" "sink_inv (cs @ [d]) s1" using call_inv [OF Cons.prems] by blast
  with Cons.IH [OF s1(2)] show ?case by (simp add: sm_bind_def)
qed (simp add: sm_return_def)

lemma grid_new_banner: "\<exists>g. grid_new = (Inr (), g) \<and> on_screen g (fold scroll_put banner scroll_new)"
proof -
  let ?t = "fold scroll_put (ascii ''rv64 emu 16x8'' @ [0x0A]) scroll_new"
  obtain g1 where 1: "sm_for (ascii ''rv64 emu 16x8'' @ [0x0A]) grid_put grid_blank = (Inr (), g1)" "on_screen g1 ?t"
    using on_screen_stream [OF on_screen_blank] by blast
  obtain g2 where 2: "sm_for (ascii ''0123456789abcdef'' @ [0x0A]) grid_put g1 = (Inr (), g2)"
      "on_screen g2 (fold scroll_put (ascii ''0123456789abcdef'' @ [0x0A]) ?t)"
    using on_screen_stream [OF 1(2)] by blast
  have "grid_new = (Inr (), g2)" using 1(1) 2(1) by (simp only: grid_new_def write_str_def sm_bind_def prod.case sum.case)
  moreover have "fold scroll_put (ascii ''0123456789abcdef'' @ [0x0A]) ?t = fold scroll_put banner scroll_new"
    by (simp only: banner_def fold_append comp_apply)
  ultimately show ?thesis using 2(2) by (simp only:) blast
qed

lemma new_inv: "\<exists>s. with_screen (showing S) (c, []) = Inr s \<and> sink_inv [] s"
proof -
  obtain g where g: "grid_new = (Inr (), g)" "on_screen g (fold scroll_put banner scroll_new)" using grid_new_banner by blast
  have "sink_inv [] \<lparr>grid = g, screen = (c, []), pending = True, beat = 0, heartbeat = True, frames_drawn = 0, fails = 0, streak = 0\<rparr>"
    using g(2) by (simp add: sink_inv_def printed_def beats_def spinning_def)
  from flush_inv(1) [OF this, of S] show ?thesis unfolding with_screen_def g(1) by simp
qed

lemma printable_visible: "on_screen g t \<Longrightarrow> \<forall>r \<in> set (visible (srows t)). printable_row r"
  by (auto simp: on_screen_def visible_def dest: in_set_dropD split: if_splits)

text \<open>Property C31 (screen_shows_last_rows): whatever bytes the guest prints, interleaved in any way with
  flushes, beats and switching of the spinner, the sink never panics, and after a flush the display
  shows, unless it refused just this frame, the last eight rows of the text that an unbounded
  terminal holds after the banner and the same bytes, top to bottom, one line each: no row is lost
  before it scrolls off and none is changed by scrolling. The one exception is the very last cell:
  while it is blank and the spinner is on, it shows the glyph of the number of beats. Every cell is a
  character that can be drawn.\<close>

theorem screen_shows_last_rows:
  "\<exists>s s'. with_screen (showing S) (c, []) = Inr s \<and> sm_for calls (call_sink (showing S)) s = (Inr (), s') \<and>
     list_all printable_row (text_rows calls) \<and>
     ((\<exists>e. fst (draw S (picture (spinning calls) (beats calls) (text_rows calls)) (fst (screen s'))) = Inl e) \<or>
      snd (screen (oled_flush (showing S) s')) = picture (spinning calls) (beats calls) (text_rows calls))"
proof -
  obtain s where s: "with_screen (showing S) (c, []) = Inr s" "sink_inv [] s" using new_inv [of S c] by (elim exE conjE) (rule that)
  obtain s' where s': "sm_for calls (call_sink (showing S)) s = (Inr (), s')" "sink_inv calls s'"
    using calls_inv [OF s(2), of calls S, unfolded append_Nil] by (elim exE conjE) (rule that)
  have o: "on_screen (grid s') (fold scroll_put (banner @ printed calls) scroll_new)" "heartbeat s' = spinning calls"
      "beat s' = of_nat (beats calls)" using s'(2) unfolding sink_inv_def by blast+
  have f: "oled_frame s' = picture (spinning calls) (beats calls) (text_rows calls)"
    using frame_picture [OF on_screen_cells [OF o(1)] printable_visible [OF o(1)] o(3)]
    unfolding o(2) text_rows_def .
  have "list_all printable_row (text_rows calls)" using printable_visible [OF o(1)] by (simp add: list_all_iff text_rows_def)
  then show ?thesis using flush_inv(2) [OF s'(2), of S, unfolded f] s(1) s'(1)
    by (intro exI [of _ s] exI [of _ s'] conjI) assumption+
qed

end
