(* ===== verification/Text.thy ===== *)
theory Text
  imports Prelude
begin

text \<open>
  The part of Rust's \<open>format!\<close> that the messages use: decimal and hexadecimal numbers, padded
  numbers, joined pieces; and the parsing of numbers. A message is a \<open>string\<close>.
\<close>

section \<open>Numbers\<close>

definition digit :: "nat \<Rightarrow> char" where
  "digit d = char_of (if d < 10 then 48 + d else 87 + d)"

fun in_base :: "nat \<Rightarrow> nat \<Rightarrow> string" where
  "in_base b n = (if b < 2 \<or> n < b then [digit n] else in_base b (n div b) @ [digit (n mod b)])"

declare in_base.simps [simp del]

text \<open>\<open>{}\<close>, \<open>{:x}\<close>, \<open>{:#x}\<close> and the zero-padded widths.\<close>

definition decimal :: "nat \<Rightarrow> string" where "decimal n = in_base 10 n"
definition hex :: "nat \<Rightarrow> string" where "hex n = in_base 16 n"
definition hex_alt :: "nat \<Rightarrow> string" where "hex_alt n = ''0x'' @ hex n"

definition zero_pad :: "nat \<Rightarrow> string \<Rightarrow> string" where
  "zero_pad w s = replicate (w - length s) CHR ''0'' @ s"

definition hex_alt_pad :: "nat \<Rightarrow> nat \<Rightarrow> string" where
  "hex_alt_pad w n = ''0x'' @ zero_pad (w - 2) (hex n)"

definition hex_byte :: "u8 \<Rightarrow> string" where "hex_byte b = zero_pad 2 (hex (unat b))"

fun joined :: "string \<Rightarrow> string list \<Rightarrow> string" where
  "joined sep [] = []"
| "joined sep [s] = s"
| "joined sep (s # t # ts) = s @ sep @ joined sep (t # ts)"

section \<open>Reading them back\<close>

definition digit_val :: "char \<Rightarrow> nat" where
  "digit_val c = (if of_char c < (58 :: nat) then of_char c - 48 else of_char c - 87)"

definition read_base :: "nat \<Rightarrow> string \<Rightarrow> nat" where
  "read_base b s = foldl (\<lambda>a c. a * b + digit_val c) 0 s"

lemma digit_val_digit: "d < 16 \<Longrightarrow> digit_val (digit d) = d"
  by (auto simp: digit_val_def digit_def)

lemma read_in_base: "2 \<le> b \<Longrightarrow> b \<le> 16 \<Longrightarrow> read_base b (in_base b n) = n"
proof (induction b n rule: in_base.induct)
  case (1 b n)
  show ?case
  proof (cases "n < b")
    case True
    with 1(2,3) show ?thesis by (subst in_base.simps) (simp add: read_base_def digit_val_digit)
  next
    case False
    with 1 have "read_base b (in_base b (n div b)) = n div b" by simp
    moreover have "digit_val (digit (n mod b)) = n mod b"
      using 1(2,3) by (intro digit_val_digit order_less_le_trans [OF mod_less_divisor]) simp_all
    ultimately show ?thesis using False 1(2)
      by (subst in_base.simps) (simp add: read_base_def)
  qed
qed

lemma in_base_inject: "2 \<le> b \<Longrightarrow> b \<le> 16 \<Longrightarrow> in_base b m = in_base b n \<longleftrightarrow> m = n"
  by (metis read_in_base)

lemma decimal_inject [simp]: "decimal m = decimal n \<longleftrightarrow> m = n"
  and hex_inject [simp]: "hex m = hex n \<longleftrightarrow> m = n"
  by (simp_all add: decimal_def hex_def in_base_inject)

lemma in_base_not_Nil [simp]: "in_base b n \<noteq> []"
  by (subst in_base.simps) simp

lemma length_in_base: "2 \<le> b \<Longrightarrow> length (in_base b n) \<le> Suc k \<longleftrightarrow> n < b ^ Suc k"
proof (induction k arbitrary: n)
  case 0
  have "in_base b (n div b) \<noteq> []" by simp
  with 0 show ?case by (subst in_base.simps) auto
next
  case (Suc k)
  show ?case
  proof (cases "n < b")
    case True
    have "b * 1 \<le> b * b ^ Suc k" using Suc.prems by (intro mult_le_mono2 one_le_power) simp
    then have "n < b ^ Suc (Suc k)" using True by (simp only: power_Suc)
    with True Suc.prems show ?thesis by (subst in_base.simps) simp
  next
    case False
    with Suc.prems have "length (in_base b n) = Suc (length (in_base b (n div b)))" by (subst in_base.simps) simp
    then have "length (in_base b n) \<le> Suc (Suc k) \<longleftrightarrow> n div b < b ^ Suc k"
      using Suc.IH [OF Suc.prems, of "n div b"] by simp
    also have "\<dots> \<longleftrightarrow> n < b ^ Suc (Suc k)"
      using Suc.prems by (simp add: div_less_iff_less_mult mult.commute)
    finally show ?thesis .
  qed
qed

lemma length_decimal: "length (decimal n) \<le> Suc k \<longleftrightarrow> n < 10 ^ Suc k"
  by (simp only: decimal_def length_in_base)

text \<open>Every character of a number is printable.\<close>

lemma in_base_chars:
  "2 \<le> b \<Longrightarrow> b \<le> 16 \<Longrightarrow> c \<in> set (in_base b n) \<Longrightarrow> of_char c \<in> {48 :: nat .. 57} \<union> {97 .. 102}"
proof (induction b n rule: in_base.induct)
  case (1 b n)
  have d: "of_char (digit d) \<in> {48 :: nat .. 57} \<union> {97 .. 102}" if "d < 16" for d
    using that by (auto simp: digit_def)
  show ?case
  proof (cases "n < b")
    case True
    with 1(2-) d [of n] show ?thesis by (subst (asm) in_base.simps) auto
  next
    case False
    have "n mod b < 16" using 1(2,3) by (intro order_less_le_trans [OF mod_less_divisor]) simp_all
    moreover have "c \<in> set (in_base b (n div b)) \<or> c = digit (n mod b)"
      using False 1(2,4) by (subst (asm) in_base.simps) auto
    ultimately show ?thesis using False 1(1-3) d by auto
  qed
qed

section \<open>Parsing\<close>

text \<open>\<open>from_str_radix\<close> and \<open>parse\<close> of an unsigned number below \<open>limit\<close>; a plus sign may lead.\<close>

definition digit_of :: "nat \<Rightarrow> char \<Rightarrow> nat option" where
  "digit_of b c =
     (let n = of_char c; d = (if 48 \<le> n \<and> n < 58 then n - 48 else if 97 \<le> n \<and> n < 123 then n - 87
        else if 65 \<le> n \<and> n < 91 then n - 55 else b)
      in if d < b then Some d else None)"

fun radix_digits :: "nat \<Rightarrow> nat \<Rightarrow> nat \<Rightarrow> string \<Rightarrow> nat option" where
  "radix_digits b limit acc [] = Some acc"
| "radix_digits b limit acc (c # cs) =
     (case digit_of b c of
        None \<Rightarrow> None
      | Some d \<Rightarrow> if acc * b + d < limit then radix_digits b limit (acc * b + d) cs else None)"

definition from_str_radix :: "nat \<Rightarrow> nat \<Rightarrow> string \<Rightarrow> nat option" where
  "from_str_radix b limit s =
     (let ds = (if s \<noteq> [] \<and> hd s = CHR ''+'' then tl s else s) in if ds = [] then None else radix_digits b limit 0 ds)"

lemma digit_of_digit: "d < b \<Longrightarrow> b \<le> 16 \<Longrightarrow> digit_of b (digit d) = Some d"
  by (auto simp: digit_of_def digit_def Let_def)

lemma radix_digits_append:
  "radix_digits b limit acc (s @ t) =
     (case radix_digits b limit acc s of None \<Rightarrow> None | Some a \<Rightarrow> radix_digits b limit a t)"
  by (induction b limit acc s rule: radix_digits.induct) (auto split: option.split)

lemma radix_digits_in_base:
  "2 \<le> b \<Longrightarrow> b \<le> 16 \<Longrightarrow> n < limit \<Longrightarrow> radix_digits b limit 0 (in_base b n) = Some n"
proof (induction b n rule: in_base.induct)
  case (1 b n)
  show ?case
  proof (cases "n < b")
    case True
    with 1(2-4) show ?thesis by (subst in_base.simps) (simp add: digit_of_digit)
  next
    case False
    have "n div b < limit" using 1(4) by (meson div_le_dividend le_less_trans)
    with 1 False have "radix_digits b limit 0 (in_base b (n div b)) = Some (n div b)" by simp
    moreover have "n mod b < b" using 1(2) by simp
    ultimately show ?thesis
      using False 1(2-4) by (subst in_base.simps) (simp add: radix_digits_append digit_of_digit)
  qed
qed

text \<open>A number that is printed is read back.\<close>

lemma parse_decimal: "n < limit \<Longrightarrow> from_str_radix 10 limit (decimal n) = Some n"
proof -
  assume n: "n < limit"
  have "hd (decimal n) \<noteq> CHR ''+''"
    using in_base_chars [of 10 "hd (in_base 10 n)" n] hd_in_set [OF in_base_not_Nil [of 10 n]] by (auto simp: decimal_def)
  with radix_digits_in_base [of 10 n limit] n show ?thesis by (simp add: from_str_radix_def decimal_def Let_def)
qed

end
