(* ===== verification/Wire.thy ===== *)
theory Wire
  imports Prelude
begin

text \<open>
  The link protocol between the badge and its host (\<open>rv64-proto/src/lib.rs\<close>): frames, their CRC,
  the encoder, the resynchronising decoder with its bounded capture of off-protocol bytes, and
  the demultiplexer. Buffers are byte lists; a decoder call is a state-passing method that can
  panic on an out-of-range drain.
\<close>

section \<open>Frames\<close>

abbreviation SYNC :: u16 where "SYNC \<equiv> 0xB0C1"
abbreviation WIRE_PAGE :: nat where "WIRE_PAGE \<equiv> 4096"
abbreviation HEADER :: nat where "HEADER \<equiv> 5"
abbreviation TRAILER :: nat where "TRAILER \<equiv> 4"
abbreviation MAX_PAYLOAD :: nat where "MAX_PAYLOAD \<equiv> 4100"
abbreviation MAX_NOISE :: nat where "MAX_NOISE \<equiv> 65536"

datatype wire_frame =
    ReadReq u32
  | ReadResp u32 "u8 list"
  | WriteReq u32 "u8 list"
  | WriteAck u32
  | ConOut "u8 list"
  | ConIn "u8 list"
  | ErrFrame u16 u32

text \<open>The payload of a page frame is an array of exactly one page.\<close>

fun frame_ok :: "wire_frame \<Rightarrow> bool" where
  "frame_ok (ReadResp _ d) = (length d = WIRE_PAGE)"
| "frame_ok (WriteReq _ d) = (length d = WIRE_PAGE)"
| "frame_ok _ = True"

fun type_byte :: "wire_frame \<Rightarrow> u8" where
  "type_byte (ReadReq _) = 1"
| "type_byte (ReadResp _ _) = 2"
| "type_byte (WriteReq _ _) = 3"
| "type_byte (WriteAck _) = 4"
| "type_byte (ConOut _) = 5"
| "type_byte (ConIn _) = 6"
| "type_byte (ErrFrame _ _) = 7"

section \<open>CRC-32\<close>

definition crc_bit :: "u32 \<Rightarrow> u32" where
  "crc_bit crc = (let mask = - (crc AND 1) in drop_bit 1 crc XOR (0xEDB88320 AND mask))"

definition crc_byte :: "u32 \<Rightarrow> u8 \<Rightarrow> u32" where
  "crc_byte crc b = (crc_bit ^^ 8) (crc XOR ucast b)"

definition crc32 :: "u8 list \<Rightarrow> u32" where
  "crc32 bytes = NOT (foldl crc_byte (NOT 0) bytes)"

section \<open>Encoding\<close>

definition encode_frame_body :: "u8 \<Rightarrow> u8 list \<Rightarrow> u8 list \<Rightarrow> u8 list" where
  "encode_frame_body ty payload out =
     (let len = of_nat (length payload) :: u16;
          body = ty # to_le 2 len @ payload
      in out @ to_le 2 SYNC @ body @ to_le 4 (crc32 body))"

text \<open>\<open>b.chunks(n)\<close>\<close>

function chunks :: "nat \<Rightarrow> 'a list \<Rightarrow> 'a list list" where
  "chunks n xs = (if xs = [] \<or> n = 0 then [] else take n xs # chunks n (drop n xs))"
  by pat_completeness auto
termination
  by (relation "measure (\<lambda>(n, xs). length xs)") auto

declare chunks.simps [simp del]

definition encode_console :: "u8 \<Rightarrow> u8 list \<Rightarrow> u8 list \<Rightarrow> u8 list" where
  "encode_console ty b out =
     (let out' = foldl (\<lambda>out chunk. encode_frame_body ty chunk out) out (chunks MAX_PAYLOAD b)
      in if b = [] then encode_frame_body ty [] out' else out')"

fun encode :: "wire_frame \<Rightarrow> u8 list \<Rightarrow> u8 list" where
  "encode (ConOut b) out = encode_console 5 b out"
| "encode (ConIn b) out = encode_console 6 b out"
| "encode (ReadReq page) out = encode_frame_body 1 (to_le 4 page) out"
| "encode (WriteAck page) out = encode_frame_body 4 (to_le 4 page) out"
| "encode (ReadResp page data) out = encode_frame_body 2 (to_le 4 page @ data) out"
| "encode (WriteReq page data) out = encode_frame_body 3 (to_le 4 page @ data) out"
| "encode (ErrFrame code page) out = encode_frame_body 7 (to_le 2 code @ to_le 4 page) out"

section \<open>The decoder\<close>

record decoder =
  buf :: "u8 list"
  noise :: "u8 list"
  dropped_noise :: nat
  capture :: bool
  noise_cap :: nat

definition decoder_new :: decoder where
  "decoder_new = \<lparr>buf = [], noise = [], dropped_noise = 0, capture = False, noise_cap = 0\<rparr>"

definition capturing_noise_capped :: "nat \<Rightarrow> decoder" where
  "capturing_noise_capped cap = decoder_new\<lparr>capture := True, noise_cap := cap\<rparr>"

definition capturing_noise :: decoder where
  "capturing_noise = capturing_noise_capped MAX_NOISE"

definition dec_push :: "u8 list \<Rightarrow> decoder \<Rightarrow> decoder" where
  "dec_push bytes d = d\<lparr>buf := buf d @ bytes\<rparr>"

definition take_noise :: "decoder \<Rightarrow> (u8 list \<times> nat) \<times> decoder" where
  "take_noise d = ((noise d, dropped_noise d), d\<lparr>noise := [], dropped_noise := 0\<rparr>)"

text \<open>\<open>drain(..n)\<close> panics past the end of the buffer.\<close>

definition discard :: "nat \<Rightarrow> (decoder, unit, unit) sm" where
  "discard n d =
     (if length (buf d) < n then (Inl Panic, d)
      else let d1 = (if capture d
                     then let room = noise_cap d - length (noise d); keep = min room n
                          in d\<lparr>noise := noise d @ take keep (buf d), dropped_noise := dropped_noise d + (n - keep)\<rparr>
                     else d)
           in (Inr (), d1\<lparr>buf := drop n (buf d1)\<rparr>))"

text \<open>\<open>windows(2).position(|w| w == s)\<close>\<close>

fun find_sync :: "u8 list \<Rightarrow> nat option" where
  "find_sync [] = None"
| "find_sync [x] = None"
| "find_sync (x # y # r) = (if [x, y] = to_le 2 SYNC then Some 0 else map_option Suc (find_sync (y # r)))"

definition decode_body :: "u8 \<Rightarrow> u8 list \<Rightarrow> wire_frame option" where
  "decode_body ty p =
     (let page = from_le (take 4 p) :: u32; boxed = take WIRE_PAGE (drop 4 p) in
      if ty = 1 \<and> length p = 4 then Some (ReadReq page)
      else if ty = 2 \<and> length p = 4 + WIRE_PAGE then Some (ReadResp page boxed)
      else if ty = 3 \<and> length p = 4 + WIRE_PAGE then Some (WriteReq page boxed)
      else if ty = 4 \<and> length p = 4 then Some (WriteAck page)
      else if ty = 5 then Some (ConOut p)
      else if ty = 6 then Some (ConIn p)
      else if ty = 7 \<and> length p = 6 then Some (ErrFrame (from_le (take 2 p)) (from_le (slice 2 4 p)))
      else None)"

text \<open>One turn of the loop of \<open>next_frame\<close>: it returns, continues, or has a frame.\<close>

datatype scan = Wait | Again | Got wire_frame

definition scan_header :: "(decoder, unit, scan) sm" where
  "scan_header d =
     (if length (buf d) < HEADER then (Inr Wait, d)
      else let len = unat (from_le (slice 3 2 (buf d)) :: u16) in
      if MAX_PAYLOAD < len then sm_bind (discard 2) (\<lambda>_. sm_return Again) d
      else let total = HEADER + len + TRAILER in
      if length (buf d) < total then (Inr Wait, d)
      else let body = slice 2 (HEADER + len - 2) (buf d);
               want = from_le (slice (HEADER + len) 4 (buf d)) :: u32 in
      if crc32 body \<noteq> want then sm_bind (discard 2) (\<lambda>_. sm_return Again) d
      else let fr = decode_body (buf d ! 2) (slice HEADER len (buf d)) in
        (Inr (case fr of Some f \<Rightarrow> Got f | None \<Rightarrow> Again), d\<lparr>buf := drop total (buf d)\<rparr>))"

definition scan_once :: "(decoder, unit, scan) sm" where
  "scan_once d =
     (case find_sync (buf d) of
        None \<Rightarrow>
          let keep = (if buf d \<noteq> [] \<and> last (buf d) = to_le 2 SYNC ! 0 then 1 else 0)
          in sm_bind (discard (length (buf d) - keep)) (\<lambda>_. sm_return Wait) d
      | Some start \<Rightarrow>
          sm_bind (if 0 < start then discard start else sm_return ()) (\<lambda>_. scan_header) d)"

lemma discard_shorter: "discard n d = (r, d') \<Longrightarrow> length (buf d') \<le> length (buf d)"
  by (auto simp: discard_def Let_def split: if_splits)

lemma discard_two: "discard 2 d = (r, d') \<Longrightarrow> 2 \<le> length (buf d) \<Longrightarrow> length (buf d') < length (buf d)"
  by (auto simp: discard_def Let_def split: if_splits)

lemma scan_header_shorter:
  "scan_header d = (Inr Again, d') \<Longrightarrow> length (buf d') < length (buf d)"
  by (auto simp: scan_header_def Let_def sm_bind_eq_Inr sm_return_def dest: discard_two split: if_splits option.splits)

lemma scan_once_shorter:
  "scan_once d = (Inr Again, d') \<Longrightarrow> length (buf d') < length (buf d)"
  by (auto simp: scan_once_def Let_def sm_bind_eq_Inr sm_return_def dest!: scan_header_shorter discard_shorter
      split: if_splits option.splits)

function next_frame :: "decoder \<Rightarrow> (unit stop + wire_frame option) \<times> decoder" where
  "next_frame d =
     (case scan_once d of
        (Inl e, d') \<Rightarrow> (Inl e, d')
      | (Inr Wait, d') \<Rightarrow> (Inr None, d')
      | (Inr (Got f), d') \<Rightarrow> (Inr (Some f), d')
      | (Inr Again, d') \<Rightarrow> next_frame d')"
  by pat_completeness auto
termination
  by (relation "measure (\<lambda>d. length (buf d))") (auto dest!: sym [THEN scan_once_shorter] scan_once_shorter)

declare next_frame.simps [simp del]

section \<open>The demultiplexer\<close>

record mux =
  dec :: decoder
  console :: "u8 list"
  held :: "wire_frame list"

definition mux_new :: mux where
  "mux_new = \<lparr>dec = decoder_new, console = [], held = []\<rparr>"

definition mux_capturing_noise :: mux where
  "mux_capturing_noise = mux_new\<lparr>dec := capturing_noise\<rparr>"

definition mux_capturing_noise_capped :: "nat \<Rightarrow> mux" where
  "mux_capturing_noise_capped cap = mux_new\<lparr>dec := capturing_noise_capped cap\<rparr>"

definition mux_take_noise :: "mux \<Rightarrow> (u8 list \<times> nat) \<times> mux" where
  "mux_take_noise m = (case take_noise (dec m) of (r, d) \<Rightarrow> (r, m\<lparr>dec := d\<rparr>))"

fun route :: "wire_frame \<Rightarrow> mux \<Rightarrow> mux" where
  "route (ConIn b) m = m\<lparr>console := console m @ b\<rparr>"
| "route (ConOut b) m = m\<lparr>console := console m @ b\<rparr>"
| "route other m = m\<lparr>held := held m @ [other]\<rparr>"

lemma dec_route [simp]: "dec (route f m) = dec m"
  by (cases f) simp_all

lemma scan_header_frame_shorter: "scan_header d = (Inr (Got f), d') \<Longrightarrow> length (buf d') < length (buf d)"
  by (auto simp: scan_header_def Let_def sm_bind_eq_Inr sm_return_def split: if_splits option.splits)

lemma scan_once_frame_shorter: "scan_once d = (Inr (Got f), d') \<Longrightarrow> length (buf d') < length (buf d)"
  by (auto simp: scan_once_def Let_def sm_bind_eq_Inr sm_return_def dest!: scan_header_frame_shorter discard_shorter
      split: if_splits option.splits)

lemma next_frame_shorter: "next_frame d = (Inr (Some f), d') \<Longrightarrow> length (buf d') < length (buf d)"
proof (induction d rule: next_frame.induct)
  case (1 d)
  obtain r d1 where s: "scan_once d = (r, d1)" by force
  show ?case
  proof (cases r)
    case (Inr v)
    show ?thesis
    proof (cases v)
      case Again
      with s Inr have s: "scan_once d = (Inr Again, d1)" by simp
      with 1(2) have "next_frame d1 = (Inr (Some f), d')" by (simp add: next_frame.simps [of d])
      with s 1(1) [OF s [symmetric] refl] show ?thesis by (auto dest!: scan_once_shorter)
    qed (use s Inr 1(2) in \<open>auto simp: next_frame.simps [of d] dest: scan_once_frame_shorter\<close>)
  qed (use s 1(2) in \<open>simp add: next_frame.simps [of d]\<close>)
qed

text \<open>The loop of \<open>Mux::push\<close>, after the bytes have been appended.\<close>

function mux_drain :: "(mux, unit, unit) sm" where
  "mux_drain m =
     (case next_frame (dec m) of
        (Inl e, d) \<Rightarrow> (Inl e, m\<lparr>dec := d\<rparr>)
      | (Inr None, d) \<Rightarrow> (Inr (), m\<lparr>dec := d\<rparr>)
      | (Inr (Some f), d) \<Rightarrow> mux_drain (route f (m\<lparr>dec := d\<rparr>)))"
  by pat_completeness auto
termination
  by (relation "measure (\<lambda>m. length (buf (dec m)))") (auto dest: sym [THEN next_frame_shorter] next_frame_shorter)

declare mux_drain.simps [simp del]

definition mux_push :: "u8 list \<Rightarrow> (mux, unit, unit) sm" where
  "mux_push bytes m = mux_drain (m\<lparr>dec := dec_push bytes (dec m)\<rparr>)"

definition take_matching :: "u8 \<Rightarrow> mux \<Rightarrow> wire_frame option \<times> mux" where
  "take_matching want m =
     (case position (\<lambda>f. type_byte f = want) (held m) of
        None \<Rightarrow> (None, m)
      | Some i \<Rightarrow> (Some (held m ! i), m\<lparr>held := take i (held m) @ drop (Suc i) (held m)\<rparr>))"

definition take_console :: "mux \<Rightarrow> u8 list \<times> mux" where
  "take_console m = (console m, m\<lparr>console := []\<rparr>)"

end
