(* ===== verification/Link.thy ===== *)
theory Link
  imports Backing Wire
begin

text \<open>
  The badge's end of the page link (\<open>badge/app/src/usbhost.rs\<close>): the paced sender, the transmit
  counters, the park confirmation, and \<open>LinkInner\<close> with its request/response exchange, over a
  transport given as a record of operations (the trait \<open>Transport\<close>; the badge's own transport is
  theory Usb). Counters of type \<open>usize\<close> are naturals, milliseconds are 64-bit words. The texts of
  faults are in theory Messages. The shared handle is used by one
  thread between instructions, so its borrows never fail and are direct accesses here.
\<close>

abbreviation TY_READ_RESP :: u8 where "TY_READ_RESP \<equiv> 2"
abbreviation TY_WRITE_ACK :: u8 where "TY_WRITE_ACK \<equiv> 4"
abbreviation TY_ERR :: u8 where "TY_ERR \<equiv> 7"
abbreviation RECV_DEADLINE_MS :: u64 where "RECV_DEADLINE_MS \<equiv> 2000"
abbreviation ATTEMPT_DEADLINE_MS :: u64 where "ATTEMPT_DEADLINE_MS \<equiv> 250"
abbreviation RETRY_BUDGET :: nat where "RETRY_BUDGET \<equiv> 3"
abbreviation NOISE_SAMPLE :: nat where "NOISE_SAMPLE \<equiv> 64"
abbreviation SEND_RETRY_BUDGET :: nat where "SEND_RETRY_BUDGET \<equiv> 64"
abbreviation TX_PACKET :: nat where "TX_PACKET \<equiv> 512"
abbreviation USIZE_MAX :: nat where "USIZE_MAX \<equiv> 2 ^ 32 - 1"

definition saturating_sub :: "u64 \<Rightarrow> u64 \<Rightarrow> u64" where
  "saturating_sub a b = (if b \<le> a then a - b else 0)"

definition saturating_plus :: "u64 \<Rightarrow> u64 \<Rightarrow> u64" where
  "saturating_plus a b = (if unat a + unat b < 2 ^ 64 then a + b else - 1)"

section \<open>Sending\<close>

datatype send_error = Stalled_E | Failed_E | TimedOut_E nat nat

datatype 'e send_fault = Stalled_F | Link_F 'e | TimedOut_F nat nat

text \<open>
  The loop of \<open>send_paced\<close>. The closures share a state: \<open>write_some\<close> offers a slice to the sink,
  \<open>gap\<close> waits, \<open>out_of_time\<close> reads the clock.
\<close>

function send_loop ::
  "(u8 list \<Rightarrow> 's \<Rightarrow> ('e + nat) \<times> 's) \<Rightarrow> ('s \<Rightarrow> 's) \<Rightarrow> ('s \<Rightarrow> bool \<times> 's) \<Rightarrow> nat \<Rightarrow> u8 list \<Rightarrow>
   nat \<Rightarrow> nat \<Rightarrow> bool \<Rightarrow> 's \<Rightarrow> ('e send_fault + unit) \<times> 's" where
  "send_loop write_some gap out_of_time chunk bytes sent idle first s =
     (if length bytes \<le> sent then (Inr (), s)
      else case out_of_time s of (late, s1) \<Rightarrow>
        if late then (Inl (TimedOut_F sent (length bytes)), s1)
        else
          let s2 = (if first then s1 else gap s1);
              hi = min (length bytes) (sent + max chunk 1)
          in case write_some (slice sent (hi - sent) bytes) s2 of
               (Inl e, s3) \<Rightarrow> (Inl (Link_F e), s3)
             | (Inr n, s3) \<Rightarrow>
                 if n = 0
                 then (if SEND_RETRY_BUDGET < idle + 1 then (Inl Stalled_F, s3)
                       else send_loop write_some gap out_of_time chunk bytes sent (idle + 1) False s3)
                 else send_loop write_some gap out_of_time chunk bytes (sent + n) 0 False s3)"
  by pat_completeness auto
termination
  by (relation "measures [\<lambda>(w, g, t, k, bytes, sent, idle, first, s). length bytes - sent,
      \<lambda>(w, g, t, k, bytes, sent, idle, first, s). SEND_RETRY_BUDGET + 1 - idle]") auto

declare send_loop.simps [simp del]

definition send_paced ::
  "(u8 list \<Rightarrow> 's \<Rightarrow> ('e + nat) \<times> 's) \<Rightarrow> ('s \<Rightarrow> 's) \<Rightarrow> ('s \<Rightarrow> bool \<times> 's) \<Rightarrow> nat \<Rightarrow> u8 list \<Rightarrow> 's \<Rightarrow>
   ('e send_fault + unit) \<times> 's" where
  "send_paced write_some gap out_of_time chunk bytes =
     send_loop write_some gap out_of_time chunk bytes 0 0 True"

definition send_all ::
  "(u8 list \<Rightarrow> 's \<Rightarrow> ('e + nat) \<times> 's) \<Rightarrow> u8 list \<Rightarrow> 's \<Rightarrow> ('e send_fault + unit) \<times> 's" where
  "send_all write_some bytes = send_paced write_some (\<lambda>s. s) (\<lambda>s. (False, s)) USIZE_MAX bytes"

section \<open>The transmit counters\<close>

record tx_tally =
  asked :: nat
  calls :: nat
  accepted :: nat
  refusals :: nat
  shorts :: nat
  flushes :: nat
  ms :: u64

definition tally_new :: "nat \<Rightarrow> tx_tally" where
  "tally_new n = \<lparr>asked = n, calls = 0, accepted = 0, refusals = 0, shorts = 0, flushes = 0, ms = 0\<rparr>"

definition record_result :: "nat \<Rightarrow> 'e + nat \<Rightarrow> tx_tally \<Rightarrow> tx_tally" where
  "record_result offered r t =
     (let t = t\<lparr>calls := calls t + 1\<rparr> in
      case r of
        Inl _ \<Rightarrow> t
      | Inr n \<Rightarrow>
          if n = 0 then t\<lparr>refusals := refusals t + 1\<rparr>
          else let t = t\<lparr>accepted := accepted t + n\<rparr>
               in if n < offered then t\<lparr>shorts := shorts t + 1\<rparr> else t)"

definition record_flush :: "tx_tally \<Rightarrow> tx_tally" where
  "record_flush t = t\<lparr>flushes := flushes t + 1\<rparr>"

definition multi_packet :: "tx_tally \<Rightarrow> bool" where
  "multi_packet t \<longleftrightarrow> TX_PACKET < asked t"

record tx_log =
  last_tx :: tx_tally
  frames :: nat
  multi_frames :: nat
  total_accepted :: nat
  total_refusals :: nat

definition tx_finish :: "tx_tally \<Rightarrow> tx_log \<Rightarrow> tx_log" where
  "tx_finish t l =
     (let l = l\<lparr>frames := frames l + 1\<rparr>;
          l = (if multi_packet t then l\<lparr>multi_frames := multi_frames l + 1\<rparr> else l)
      in l\<lparr>total_accepted := min USIZE_MAX (total_accepted l + accepted t),
           total_refusals := min USIZE_MAX (total_refusals l + refusals t), last_tx := t\<rparr>)"

section \<open>Park confirmation\<close>

text \<open>The loop ends only when the reader parks or the clock passes the deadline, so it is partial.\<close>

partial_function (option) confirm_loop ::
  "('s \<Rightarrow> bool \<times> 's) \<Rightarrow> ('s \<Rightarrow> u64 \<times> 's) \<Rightarrow> ('s \<Rightarrow> 's) \<Rightarrow> u64 \<Rightarrow> nat \<Rightarrow> 's \<Rightarrow> ((nat + nat) \<times> 's) option" where
  "confirm_loop parked elapsed_ms settle deadline_ms unparks s =
     (case parked s of (p, s1) \<Rightarrow>
      (case (if p then case parked (settle s1) of (q, s2) \<Rightarrow> (q, unparks + 1, s2) else (False, unparks, s1)) of
         (settled, unparks', s2) \<Rightarrow>
           if settled then Some (Inr unparks, s2)
           else case elapsed_ms s2 of (e, s3) \<Rightarrow>
             if deadline_ms < e then Some (Inl unparks', s3)
             else confirm_loop parked elapsed_ms settle deadline_ms unparks' (settle s3)))"

definition confirm_park ::
  "('s \<Rightarrow> bool \<times> 's) \<Rightarrow> ('s \<Rightarrow> u64 \<times> 's) \<Rightarrow> ('s \<Rightarrow> 's) \<Rightarrow> u64 \<Rightarrow> 's \<Rightarrow> ((nat + nat) \<times> 's) option" where
  "confirm_park parked elapsed_ms settle deadline_ms = confirm_loop parked elapsed_ms settle deadline_ms 0"

section \<open>Faults\<close>

datatype link_fault =
    NotParked
  | Stalled
  | SendTimedOut nat nat
  | SendFailed
  | RecvFailed
  | Timeout (attempts_of: nat) (elapsed_of: u64) (waited_of: u64) (deliveries_of: nat) (bytes_in_of: nat)
  | WrongPage u32 u32
  | WrongType

datatype page_op = Op_Read u32 | Op_Write u32

text \<open>\<open>discarded\<close> is the count and the sample the report prints.\<close>

record link_fault_report =
  kind :: link_fault
  fault_op :: "page_op option"
  platform :: "string option"
  status :: "string option"
  discarded :: "(nat \<times> u8 list) option"

fun send_link_fault :: "send_error \<Rightarrow> link_fault" where
  "send_link_fault Stalled_E = Stalled"
| "send_link_fault Failed_E = SendFailed"
| "send_link_fault (TimedOut_E sent len) = SendTimedOut sent len"

section \<open>The link\<close>

text \<open>The trait \<open>Transport\<close>. Its own errors are units: the detail comes out as text.\<close>

record 't transport =
  arm :: "'t \<Rightarrow> (unit + unit) \<times> 't"
  send :: "u8 list \<Rightarrow> 't \<Rightarrow> (send_error + unit) \<times> 't"
  recv :: "'t \<Rightarrow> (unit + u8 list) \<times> 't"
  poll :: "'t \<Rightarrow> (unit + u8 list) \<times> 't"
  now_ms :: "'t \<Rightarrow> u64 \<times> 't"
  take_platform_fault :: "'t \<Rightarrow> string option \<times> 't"
  transport_status :: "'t \<Rightarrow> string option \<times> 't"

record 't link_inner =
  transport_of :: 't
  cur_op :: "page_op option"
  link_mux :: mux
  link_console :: "u8 list"
  link_fault_seen :: "link_fault_report option"
  retries :: nat
  stale_dropped :: nat
  late_dropped :: nat
  scratch :: "u8 list"
  noise_sample :: "u8 list"
  noise_dropped :: nat
  deliveries :: nat
  bytes_in :: nat
  blocked_ms :: u64
  exchanges :: nat

definition link_new :: "'t \<Rightarrow> 't link_inner" where
  "link_new t = \<lparr>transport_of = t, cur_op = None, link_mux = mux_capturing_noise_capped NOISE_SAMPLE,
     link_console = [], link_fault_seen = None, retries = 0, stale_dropped = 0, late_dropped = 0,
     scratch = [], noise_sample = [], noise_dropped = 0, deliveries = 0, bytes_in = 0, blocked_ms = 0,
     exchanges = 0\<rparr>"

text \<open>A call of a transport operation on the link's transport.\<close>

definition on_transport :: "('t \<Rightarrow> 'a \<times> 't) \<Rightarrow> 't link_inner \<Rightarrow> 'a \<times> 't link_inner" where
  "on_transport f l = (case f (transport_of l) of (a, t) \<Rightarrow> (a, l\<lparr>transport_of := t\<rparr>))"

definition stash_noise :: "'t link_inner \<Rightarrow> 't link_inner" where
  "stash_noise l =
     (case mux_take_noise (link_mux l) of ((sample, dropped), m) \<Rightarrow>
        let l = l\<lparr>link_mux := m\<rparr> in
        if sample = [] \<and> dropped = 0 then l
        else l\<lparr>noise_sample := sample, noise_dropped := noise_dropped l + dropped\<rparr>)"

definition noise_report :: "'t link_inner \<Rightarrow> (nat \<times> u8 list) option \<times> 't link_inner" where
  "noise_report l =
     (let total = length (noise_sample l) + noise_dropped l
      in (if total = 0 then None else Some (total, noise_sample l), l\<lparr>noise_sample := [], noise_dropped := 0\<rparr>))"

definition note_fault :: "'t transport \<Rightarrow> link_fault \<Rightarrow> 't link_inner \<Rightarrow> error \<times> 't link_inner" where
  "note_fault T k l =
     (case on_transport (take_platform_fault T) l of (pf, l) \<Rightarrow>
      case on_transport (transport_status T) l of (st, l) \<Rightarrow>
      case noise_report (stash_noise l) of (d, l) \<Rightarrow>
        (Medium, l\<lparr>link_fault_seen :=
           Some \<lparr>kind = k, fault_op = cur_op l, platform = pf, status = st, discarded = d\<rparr>\<rparr>))"

text \<open>Console bytes the demultiplexer has collected move to the link's own buffer.\<close>

definition move_console :: "'t link_inner \<Rightarrow> 't link_inner" where
  "move_console l =
     (case take_console (link_mux l) of (con, m) \<Rightarrow> l\<lparr>link_mux := m, link_console := link_console l @ con\<rparr>)"

definition absorb :: "u8 list \<Rightarrow> ('t link_inner, error, unit) sm" where
  "absorb bytes l =
     (let l = l\<lparr>deliveries := deliveries l + 1, bytes_in := bytes_in l + length bytes\<rparr> in
      case mux_push bytes (link_mux l) of
        (Inl _, m) \<Rightarrow> (Inl Panic, l\<lparr>link_mux := m\<rparr>)
      | (Inr _, m) \<Rightarrow> (Inr (), move_console (l\<lparr>link_mux := m\<rparr>)))"

definition resync :: "'t link_inner \<Rightarrow> 't link_inner" where
  "resync l = (stash_noise (move_console l))\<lparr>link_mux := mux_capturing_noise_capped NOISE_SAMPLE\<rparr>"

definition RESPONSE_TYPES :: "u8 list" where
  "RESPONSE_TYPES = [TY_READ_RESP, TY_WRITE_ACK, TY_ERR]"

text \<open>\<open>while take_matching(ty).is_some() { n += 1 }\<close>\<close>

lemma take_matching_shorter: "take_matching ty m = (Some f, m') \<Longrightarrow> length (held m') < length (held m)"
  by (auto simp: take_matching_def dest: position_Some split: option.splits)

function drop_matching :: "u8 \<Rightarrow> nat \<Rightarrow> mux \<Rightarrow> nat \<times> mux" where
  "drop_matching ty n m =
     (case take_matching ty m of (None, m') \<Rightarrow> (n, m') | (Some _, m') \<Rightarrow> drop_matching ty (n + 1) m')"
  by pat_completeness auto
termination
  by (relation "measure (\<lambda>(ty, n, m). length (held m))")
    (auto dest: take_matching_shorter sym [THEN take_matching_shorter])

declare drop_matching.simps [simp del]

definition discard_stale_responses :: "'t link_inner \<Rightarrow> nat \<times> 't link_inner" where
  "discard_stale_responses l =
     (case fold (\<lambda>ty (n, m). drop_matching ty n m) RESPONSE_TYPES (0, link_mux l) of
        (n, m) \<Rightarrow> (n, l\<lparr>link_mux := m\<rparr>))"

fun frame_page :: "wire_frame \<Rightarrow> u32 option" where
  "frame_page (ReadReq p) = Some p"
| "frame_page (WriteAck p) = Some p"
| "frame_page (ReadResp p _) = Some p"
| "frame_page (WriteReq p _) = Some p"
| "frame_page (ErrFrame _ p) = Some p"
| "frame_page (ConIn _) = None"
| "frame_page (ConOut _) = None"

definition err_code :: "u16 \<Rightarrow> error" where
  "err_code code = (if code = 1 \<or> code = 2 then OutOfRange else Medium)"

section \<open>One exchange\<close>

text \<open>The locals of \<open>exchange_inner\<close>.\<close>

record xchg =
  x_asked :: u32
  x_want :: u8
  x_out :: "u8 list"
  x_began :: u64
  x_attempts :: nat
  x_mismatched :: nat
  x_last_mismatch :: "u32 option"

text \<open>At the head of the attempts loop, or in the receive loop of an attempt sent at a time.\<close>

datatype phase = Attempt | Waiting u64

datatype xchg_end = Answered wire_frame | Refused error | Faulted link_fault | Crashed

type_synonym 't xchg_state = "phase \<times> xchg \<times> 't link_inner"
type_synonym 't xchg_done = "xchg_end \<times> xchg \<times> 't link_inner"

text \<open>The head of an attempt: purge, deadline, arm, deadline, send.\<close>

definition xchg_attempt :: "'t transport \<Rightarrow> xchg \<Rightarrow> 't link_inner \<Rightarrow> 't xchg_state + 't xchg_done" where
  "xchg_attempt T x l =
     (let x = x\<lparr>x_attempts := x_attempts x + 1\<rparr> in
      case discard_stale_responses l of (stale, l) \<Rightarrow>
      let l = l\<lparr>stale_dropped := stale_dropped l + stale\<rparr> in
      case on_transport (now_ms T) l of (now, l) \<Rightarrow>
      let elapsed = saturating_sub now (x_began x) in
      if RECV_DEADLINE_MS < elapsed
      then Inr (Faulted (Timeout (x_attempts x) elapsed elapsed (deliveries l) (bytes_in l)), x, l)
      else case on_transport (arm T) l of
        (Inl _, l) \<Rightarrow> Inr (Faulted NotParked, x, l)
      | (Inr _, l) \<Rightarrow>
          (case on_transport (now_ms T) l of (now, l) \<Rightarrow>
           let elapsed = saturating_sub now (x_began x) in
           if RECV_DEADLINE_MS < elapsed
           then Inr (Faulted (Timeout (x_attempts x) elapsed elapsed (deliveries l) (bytes_in l)), x, l)
           else case on_transport (send T (x_out x)) l of
             (Inl e, l) \<Rightarrow> Inr (Faulted (send_link_fault e), x, l)
           | (Inr _, l) \<Rightarrow> (case on_transport (now_ms T) l of (sent_at, l) \<Rightarrow> Inl (Waiting sent_at, x, l))))"

text \<open>The end of a turn of the receive loop: the two deadlines, then the next delivery.\<close>

definition xchg_receive :: "'t transport \<Rightarrow> u64 \<Rightarrow> xchg \<Rightarrow> 't link_inner \<Rightarrow> 't xchg_state + 't xchg_done" where
  "xchg_receive T sent_at x l =
     (case on_transport (now_ms T) l of (now, l) \<Rightarrow>
      let timeout = Timeout (x_attempts x) (saturating_sub now (x_began x)) (saturating_sub now sent_at)
                      (deliveries l) (bytes_in l) in
      if RECV_DEADLINE_MS < saturating_sub now (x_began x) then Inr (Faulted timeout, x, l)
      else if ATTEMPT_DEADLINE_MS < saturating_sub now sent_at
      then (if RETRY_BUDGET < x_attempts x then Inr (Faulted timeout, x, l)
            else Inl (Attempt, x, l\<lparr>retries := retries l + 1\<rparr>))
      else case on_transport (recv T) l of
        (Inl _, l) \<Rightarrow> Inr (Faulted RecvFailed, x, l)
      | (Inr bytes, l) \<Rightarrow>
          if bytes = [] then Inl (Waiting sent_at, x, l)
          else case absorb bytes l of
            (Inl _, l) \<Rightarrow> Inr (Crashed, x, l)
          | (Inr _, l) \<Rightarrow> Inl (Waiting sent_at, x, l))"

text \<open>One turn of the receive loop.\<close>

definition xchg_wait :: "'t transport \<Rightarrow> u64 \<Rightarrow> xchg \<Rightarrow> 't link_inner \<Rightarrow> 't xchg_state + 't xchg_done" where
  "xchg_wait T sent_at x l =
     (case take_matching (x_want x) (link_mux l) of (found, m) \<Rightarrow>
      let l = l\<lparr>link_mux := m\<rparr> in
      case found of
        Some r \<Rightarrow>
          if frame_page r = Some (x_asked x) then Inr (Answered r, x, l\<lparr>scratch := x_out x\<rparr>)
          else Inl (Waiting sent_at,
                 x\<lparr>x_mismatched := x_mismatched x + 1, x_last_mismatch := frame_page r\<rparr>,
                 l\<lparr>late_dropped := late_dropped l + 1\<rparr>)
      | None \<Rightarrow>
          (case take_matching TY_ERR (link_mux l) of (found, m) \<Rightarrow>
           let l = l\<lparr>link_mux := m\<rparr> in
           case found of
             Some (ErrFrame code page) \<Rightarrow>
               if page = x_asked x then Inr (Refused (err_code code), x, l\<lparr>scratch := x_out x\<rparr>)
               else Inl (Waiting sent_at, x, l)
           | _ \<Rightarrow> xchg_receive T sent_at x l))"

definition xchg_step :: "'t transport \<Rightarrow> 't xchg_state \<Rightarrow> 't xchg_state + 't xchg_done" where
  "xchg_step T s =
     (case s of (ph, x, l) \<Rightarrow> case ph of Attempt \<Rightarrow> xchg_attempt T x l | Waiting sent_at \<Rightarrow> xchg_wait T sent_at x l)"

text \<open>Whether the loops end depends on the transport's clock, so their iteration is partial.\<close>

partial_function (option) xchg_loop :: "'t transport \<Rightarrow> 't xchg_state \<Rightarrow> 't xchg_done option" where
  "xchg_loop T s = (case xchg_step T s of Inl s' \<Rightarrow> xchg_loop T s' | Inr r \<Rightarrow> Some r)"

definition xchg_finish :: "'t transport \<Rightarrow> 't xchg_done \<Rightarrow> (error stop + wire_frame) \<times> 't link_inner" where
  "xchg_finish T r =
     (case r of (e, x, l) \<Rightarrow> case e of
        Answered f \<Rightarrow> (Inr f, l)
      | Refused err \<Rightarrow> (Inl (Err err), l)
      | Crashed \<Rightarrow> (Inl Panic, l)
      | Faulted k \<Rightarrow>
          let l = l\<lparr>scratch := x_out x\<rparr>;
              k = (case k of
                     Timeout _ _ _ _ _ \<Rightarrow>
                       if 0 < x_mismatched x
                       then WrongPage (x_asked x) (case x_last_mismatch x of Some p \<Rightarrow> p | None \<Rightarrow> - 1) else k
                   | _ \<Rightarrow> k)
          in case note_fault T k (resync l) of (err, l) \<Rightarrow> (Inl (Err err), l))"

definition exchange_inner ::
  "'t transport \<Rightarrow> wire_frame \<Rightarrow> u8 \<Rightarrow> 't link_inner \<Rightarrow> ((error stop + wire_frame) \<times> 't link_inner) option" where
  "exchange_inner T f want l =
     (case frame_page f of
        None \<Rightarrow> Some (Inl (Err Medium), l)
      | Some page \<Rightarrow>
          let l = l\<lparr>cur_op := Some (case f of WriteReq _ _ \<Rightarrow> Op_Write page | _ \<Rightarrow> Op_Read page), scratch := []\<rparr>;
              out = encode f []
          in case on_transport (now_ms T) l of (began, l) \<Rightarrow>
             map_option (xchg_finish T)
               (xchg_loop T (Attempt, \<lparr>x_asked = page, x_want = want, x_out = out, x_began = began, x_attempts = 0,
                  x_mismatched = 0, x_last_mismatch = None\<rparr>, l)))"

definition exchange ::
  "'t transport \<Rightarrow> wire_frame \<Rightarrow> u8 \<Rightarrow> 't link_inner \<Rightarrow> ((error stop + wire_frame) \<times> 't link_inner) option" where
  "exchange T f want l =
     (case on_transport (now_ms T) l of (t0, l) \<Rightarrow>
      case exchange_inner T f want l of
        None \<Rightarrow> None
      | Some (r, l) \<Rightarrow>
          (case on_transport (now_ms T) l of (t1, l) \<Rightarrow>
             Some (r, l\<lparr>blocked_ms := saturating_plus (blocked_ms l) (saturating_sub t1 t0),
                        exchanges := exchanges l + 1\<rparr>)))"

section \<open>The handle and the backing store\<close>

definition link_take_console :: "'t link_inner \<Rightarrow> u8 list \<times> 't link_inner" where
  "link_take_console l = (link_console l, l\<lparr>link_console := []\<rparr>)"

definition take_fault :: "'t link_inner \<Rightarrow> link_fault_report option \<times> 't link_inner" where
  "take_fault l = (link_fault_seen l, l\<lparr>link_fault_seen := None\<rparr>)"

definition blocked :: "'t link_inner \<Rightarrow> u64 \<times> nat" where
  "blocked l = (blocked_ms l, exchanges l)"

definition pump :: "'t transport \<Rightarrow> ('t link_inner, error, unit) sm" where
  "pump T l =
     (case on_transport (poll T) (l\<lparr>cur_op := None\<rparr>) of
        (Inr b, l) \<Rightarrow> if b = [] then (Inr (), l) else absorb b l
      | (Inl _, l) \<Rightarrow> (case note_fault T RecvFailed l of (e, l) \<Rightarrow> (Inl (Err e), l)))"

definition send_console :: "'t transport \<Rightarrow> u8 list \<Rightarrow> ('t link_inner, error, unit) sm" where
  "send_console T bytes l =
     (if bytes = [] then (Inr (), l)
      else case on_transport (send T (encode (ConOut bytes) [])) (l\<lparr>cur_op := None\<rparr>) of
        (Inr _, l) \<Rightarrow> (Inr (), l)
      | (Inl e, l) \<Rightarrow> (case note_fault T (send_link_fault e) l of (e', l) \<Rightarrow> (Inl (Err e'), l)))"

text \<open>
  The backing store operations return only if the exchange does: a run of the loops that never
  ends is the outcome \<open>Panic\<close> here, so a theorem that excludes it also shows that they end.
\<close>

definition usb_read_page :: "'t transport \<Rightarrow> u32 \<Rightarrow> ('t link_inner, error, u8 list) sm" where
  "usb_read_page T page l =
     (case exchange T (ReadReq page) TY_READ_RESP l of
        None \<Rightarrow> (Inl Panic, l)
      | Some (Inl e, l) \<Rightarrow> (Inl e, l)
      | Some (Inr (ReadResp _ data), l) \<Rightarrow> (Inr data, l)
      | Some (Inr _, l) \<Rightarrow> (case note_fault T WrongType l of (e, l) \<Rightarrow> (Inl (Err e), l)))"

definition usb_write_page :: "'t transport \<Rightarrow> u32 \<Rightarrow> u8 list \<Rightarrow> ('t link_inner, error, unit) sm" where
  "usb_write_page T page data l =
     (case exchange T (WriteReq page data) TY_WRITE_ACK l of
        None \<Rightarrow> (Inl Panic, l)
      | Some (Inl e, l) \<Rightarrow> (Inl e, l)
      | Some (Inr (WriteAck _), l) \<Rightarrow> (Inr (), l)
      | Some (Inr _, l) \<Rightarrow> (case note_fault T WrongType l of (e, l) \<Rightarrow> (Inl (Err e), l)))"

definition usb_flush :: "('t link_inner, error, unit) sm" where
  "usb_flush l = (Inr (), l)"

definition usb_ops :: "'t transport \<Rightarrow> 't link_inner backing_ops" where
  "usb_ops T = \<lparr>read_page = usb_read_page T, write_page = usb_write_page T, flush_backing = usb_flush\<rparr>"

end
