(* ===== verification/Startup.thy ===== *)
theory Startup
  imports Text Link Oled
begin

text \<open>
  \<open>badge/app/src/startup.rs\<close>: waiting for a service with a bound, the report of what came up, and
  the ways the app halts. The closures of a wait share a state. Attempts are of type \<open>usize\<close> and
  stop at a limit of that type, so they are naturals here.
\<close>

abbreviation NO_CLOCK_ATTEMPTS :: nat where "NO_CLOCK_ATTEMPTS \<equiv> 2000000"
abbreviation DEADLINE_MS :: u64 where "DEADLINE_MS \<equiv> 30000"

section \<open>Waiting\<close>

datatype 's wait_clock = No_Clock | Ms "'s \<Rightarrow> u64 \<times> 's"

record wait_limits =
  deadline_ms :: u64
  max_attempts :: nat

definition without_a_clock :: wait_limits where
  "without_a_clock = \<lparr>deadline_ms = - 1, max_attempts = NO_CLOCK_ATTEMPTS\<rparr>"

definition with_a_clock :: wait_limits where
  "with_a_clock = \<lparr>deadline_ms = DEADLINE_MS, max_attempts = NO_CLOCK_ATTEMPTS\<rparr>"

record waited =
  probes :: nat
  elapsed_ms :: u64

definition waited_default :: waited where
  "waited_default = \<lparr>probes = 0, elapsed_ms = 0\<rparr>"

function wait_loop ::
  "('s \<Rightarrow> bool \<times> 's) \<Rightarrow> 's wait_clock \<Rightarrow> ('s \<Rightarrow> 's) \<Rightarrow> wait_limits \<Rightarrow> u64 \<Rightarrow> waited \<Rightarrow> 's
    \<Rightarrow> (waited + waited) \<times> 's" where
  "wait_loop ready clock backoff limits started w s =
     (let w = w\<lparr>probes := probes w + 1\<rparr>;
          (w, s) = (case clock of
             No_Clock \<Rightarrow> (w, s)
           | Ms now \<Rightarrow> (case now s of (t, s) \<Rightarrow> (w\<lparr>elapsed_ms := saturating_sub t started\<rparr>, s)))
      in case ready s of (up, s) \<Rightarrow>
         if up then (Inr w, s)
         else if max_attempts limits \<le> probes w \<or> deadline_ms limits \<le> elapsed_ms w then (Inl w, s)
         else wait_loop ready clock backoff limits started w (backoff s))"
  by pat_completeness auto
termination
  by (relation "measure (\<lambda>(ready, clock, backoff, limits, started, w, s). max_attempts limits - probes w)")
    (auto split: wait_clock.splits prod.splits)

declare wait_loop.simps [simp del]

definition wait_for ::
  "('s \<Rightarrow> bool \<times> 's) \<Rightarrow> 's wait_clock \<Rightarrow> ('s \<Rightarrow> 's) \<Rightarrow> wait_limits \<Rightarrow> 's \<Rightarrow> (waited + waited) \<times> 's" where
  "wait_for ready clock backoff limits s =
     (let (started, s) = (case clock of No_Clock \<Rightarrow> (0, s) | Ms now \<Rightarrow> now s)
      in wait_loop ready clock backoff limits started waited_default s)"

section \<open>The report\<close>

record dep =
  dep_name :: string
  outcome :: "waited + waited"

definition dep_line :: "dep \<Rightarrow> string" where
  "dep_line d =
     (case outcome d of
        Inr w \<Rightarrow>
          if probes w \<le> 1 then dep_name d @ '' ok''
          else if 0 < elapsed_ms w then dep_name d @ '' ok '' @ decimal (unat (elapsed_ms w)) @ ''ms''
          else dep_name d @ '' ok '' @ decimal (probes w) @ ''p''
      | Inl _ \<Rightarrow> dep_name d @ '' MISSING'')"

definition is_missing :: "dep \<Rightarrow> bool" where
  "is_missing d \<longleftrightarrow> (\<exists>w. outcome d = Inl w)"

lemma is_missing_code [code]: "is_missing d = (case outcome d of Inl _ \<Rightarrow> True | Inr _ \<Rightarrow> False)"
  by (simp add: is_missing_def split: sum.split)

type_synonym startup = "dep list"

definition startup_record :: "string \<Rightarrow> waited + waited \<Rightarrow> startup \<Rightarrow> (waited + waited) \<times> startup" where
  "startup_record n r deps = (r, deps @ [\<lparr>dep_name = n, outcome = r\<rparr>])"

definition startup_lines :: "startup \<Rightarrow> string list" where
  "startup_lines deps = map dep_line deps"

definition missing :: "startup \<Rightarrow> string option" where
  "missing deps = map_option dep_name (List.find is_missing deps)"

definition startup_summary :: "startup \<Rightarrow> string" where
  "startup_summary deps =
     joined '' '' (map (\<lambda>d. case outcome d of
        Inr w \<Rightarrow> dep_name d @ ''=ok('' @ decimal (probes w) @ ''p,'' @ decimal (unat (elapsed_ms w)) @ ''ms)''
      | Inl w \<Rightarrow> dep_name d @ ''=MISSING('' @ decimal (probes w) @ ''p,'' @ decimal (unat (elapsed_ms w)) @ ''ms)'') deps)"

section \<open>Halting\<close>

datatype halt = NoTicktimer | NoScreen string | CannotStartGuest string

fun halt_short :: "halt \<Rightarrow> string" where
  "halt_short NoTicktimer = ''STOP: no tt''"
| "halt_short (NoScreen _) = ''STOP: no gfx''"
| "halt_short (CannotStartGuest _) = ''STOP: no guest''"

fun halt_long :: "halt \<Rightarrow> string" where
  "halt_long NoTicktimer =
     ''`ticktimer-server` never registered. It is waited for before anything '' @
     ''else because `std` itself needs it: `std::thread::sleep` and '' @
     ''`Instant::now()` connect to it internally and panic if it is absent, so '' @
     ''any library reached before it can die inside std. Nothing ran after this '' @
     ''point, and there was no screen or log server yet to say so on.''"
| "halt_long (NoScreen why) =
     ''no console: Gfx::new failed ('' @ why @ ''). Parking rather than exiting, so '' @
     ''this is visible as a live process with a dark screen rather than as a '' @
     ''badge that never started''"
| "halt_long (CannotStartGuest why) = ''cannot start the guest: '' @ why"

definition is_reportable :: "halt \<Rightarrow> bool" where
  "is_reportable h \<longleftrightarrow> halt_long h \<noteq> []"

text \<open>No halt is silent, and every screen line fits the screen.\<close>

lemma halts_are_reported: "is_reportable h \<and> halt_short h \<noteq> [] \<and> length (halt_short h) \<le> COLS"
  by (cases h) (simp_all add: is_reportable_def)

section \<open>What a wait costs\<close>

text \<open>A turn that finds nothing: a look at the clock, a probe, a pause.\<close>

definition look :: "'s wait_clock \<Rightarrow> 's \<Rightarrow> 's" where
  "look clock s = (case clock of No_Clock \<Rightarrow> s | Ms now \<Rightarrow> snd (now s))"

definition probe :: "('s \<Rightarrow> bool \<times> 's) \<Rightarrow> 's wait_clock \<Rightarrow> 's \<Rightarrow> bool \<times> 's" where
  "probe ready clock s = ready (look clock s)"

definition idle_turn :: "('s \<Rightarrow> bool \<times> 's) \<Rightarrow> 's wait_clock \<Rightarrow> ('s \<Rightarrow> 's) \<Rightarrow> 's \<Rightarrow> 's" where
  "idle_turn ready clock backoff s = backoff (snd (probe ready clock s))"

text \<open>The probe after \<open>k\<close> turns that found nothing.\<close>

definition probe_at :: "('s \<Rightarrow> bool \<times> 's) \<Rightarrow> 's wait_clock \<Rightarrow> ('s \<Rightarrow> 's) \<Rightarrow> 's \<Rightarrow> nat \<Rightarrow> bool \<times> 's" where
  "probe_at ready clock backoff s k = probe ready clock ((idle_turn ready clock backoff ^^ k) s)"

definition after_turn :: "'s wait_clock \<Rightarrow> u64 \<Rightarrow> waited \<Rightarrow> 's \<Rightarrow> waited" where
  "after_turn clock started w s =
     w\<lparr>probes := Suc (probes w),
       elapsed_ms := (case clock of No_Clock \<Rightarrow> elapsed_ms w | Ms now \<Rightarrow> saturating_sub (fst (now s)) started)\<rparr>"

definition bound_reached :: "wait_limits \<Rightarrow> waited \<Rightarrow> bool" where
  "bound_reached limits w \<longleftrightarrow> max_attempts limits \<le> probes w \<or> deadline_ms limits \<le> elapsed_ms w"

lemma after_turn_simps [simp]:
  "probes (after_turn clock started w s) = Suc (probes w)"
  "elapsed_ms (after_turn No_Clock started w s) = elapsed_ms w"
  by (simp_all add: after_turn_def)

lemma wait_loop_turn:
  "wait_loop ready clock backoff limits started w s =
     (let v = after_turn clock started w s; p = probe ready clock s in
      if fst p then (Inr v, snd p) else if bound_reached limits v then (Inl v, snd p)
      else wait_loop ready clock backoff limits started v (backoff (snd p)))"
  by (subst wait_loop.simps)
    (cases clock; simp add: after_turn_def bound_reached_def probe_def look_def Let_def split_beta)

lemma probe_at_simps [simp]:
  "probe_at ready clock backoff s 0 = probe ready clock s"
  "probe_at ready clock backoff s (Suc k) = probe_at ready clock backoff (backoff (snd (probe ready clock s))) k"
  by (simp_all add: probe_at_def idle_turn_def funpow_swap1)

text \<open>How a wait that had \<open>m\<close> probes behind it ends, \<open>n\<close> of its probes having found nothing.\<close>

definition waited_well ::
  "('s \<Rightarrow> bool \<times> 's) \<Rightarrow> 's wait_clock \<Rightarrow> ('s \<Rightarrow> 's) \<Rightarrow> wait_limits \<Rightarrow> 's \<Rightarrow> nat \<Rightarrow> (waited + waited) \<times> 's \<Rightarrow> bool" where
  "waited_well ready clock backoff limits s m rs \<longleftrightarrow>
     (\<exists>n v. probes v = m + Suc n \<and> n \<le> max_attempts limits - Suc m \<and>
        (\<forall>k < n. \<not> fst (probe_at ready clock backoff s k)) \<and> snd rs = snd (probe_at ready clock backoff s n) \<and>
        (if fst (probe_at ready clock backoff s n) then fst rs = Inr v else fst rs = Inl v \<and> bound_reached limits v))"

lemma wait_loop_waits:
  "waited_well ready clock backoff limits s (probes w) (wait_loop ready clock backoff limits started w s)"
proof (induction "max_attempts limits - probes w" arbitrary: w s rule: less_induct)
  case less
  let ?v = "after_turn clock started w s" and ?p = "probe ready clock s"
  show ?case
  proof (cases "fst ?p \<or> bound_reached limits ?v")
    case True
    then show ?thesis unfolding waited_well_def
      by (intro exI [of _ 0] exI [of _ ?v]) (auto simp: wait_loop_turn [of ready clock] Let_def)
  next
    case False
    then have "max_attempts limits - probes ?v < max_attempts limits - probes w"
      by (auto simp: bound_reached_def)
    from less [OF this, of "backoff (snd ?p)"] False obtain n u where
      n: "probes u = Suc (probes w) + Suc n" "n \<le> max_attempts limits - Suc (Suc (probes w))"
        "\<forall>k < n. \<not> fst (probe_at ready clock backoff s (Suc k))"
        "snd (wait_loop ready clock backoff limits started w s) = snd (probe_at ready clock backoff s (Suc n))"
        "if fst (probe_at ready clock backoff s (Suc n)) then fst (wait_loop ready clock backoff limits started w s) = Inr u
         else fst (wait_loop ready clock backoff limits started w s) = Inl u \<and> bound_reached limits u"
      by (auto simp: waited_well_def wait_loop_turn [of ready clock backoff limits started w] Let_def)
    have "\<forall>k < Suc n. \<not> fst (probe_at ready clock backoff s k)" using n(3) False by (auto simp: less_Suc_eq_0_disj)
    with n False show ?thesis unfolding waited_well_def
      by (intro exI [of _ "Suc n"] exI [of _ u]) (auto simp: bound_reached_def)
  qed
qed

lemma wait_loop_no_clock:
  "elapsed_ms (case fst (wait_loop ready No_Clock backoff limits started w s) of Inl v \<Rightarrow> v | Inr v \<Rightarrow> v) = elapsed_ms w"
proof (induction "max_attempts limits - probes w" arbitrary: w s rule: less_induct)
  case less
  let ?v = "after_turn No_Clock started w s"
  show ?case
  proof (cases "fst (probe ready No_Clock s) \<or> bound_reached limits ?v")
    case False
    then have "max_attempts limits - probes ?v < max_attempts limits - probes w" by (auto simp: bound_reached_def)
    from less [OF this] False show ?thesis by (simp add: wait_loop_turn [of ready _ backoff limits started w] Let_def)
  next
    case True
    then show ?thesis by (cases "fst (probe ready No_Clock s)")
      (simp_all add: wait_loop_turn [of ready _ backoff limits started w] Let_def)
  qed
qed

lemma wait_for_waits:
  "case wait_for ready clock backoff limits s of (r, s') \<Rightarrow>
     let w = (case r of Inl w \<Rightarrow> w | Inr w \<Rightarrow> w); up = (case r of Inl _ \<Rightarrow> False | Inr _ \<Rightarrow> True);
         turn = probe_at ready clock backoff (look clock s)
     in map (fst \<circ> turn) [0..<probes w] = replicate (probes w - 1) False @ [up] \<and>
        s' = snd (turn (probes w - 1)) \<and> 1 \<le> probes w \<and> probes w \<le> max 1 (max_attempts limits) \<and>
        (up \<or> bound_reached limits w)"
proof -
  obtain r s' where e: "wait_for ready clock backoff limits s = (r, s')" by fastforce
  obtain started where "wait_loop ready clock backoff limits started waited_default (look clock s) = (r, s')"
    using e by (cases clock) (auto simp: wait_for_def look_def split_beta Let_def)
  with wait_loop_waits [of ready clock backoff limits "look clock s" waited_default started]
  have "waited_well ready clock backoff limits (look clock s) 0 (r, s')" by (simp add: waited_default_def)
  then obtain n v where n: "probes v = Suc n" "n \<le> max_attempts limits - 1"
      "\<forall>k < n. \<not> fst (probe_at ready clock backoff (look clock s) k)" "s' = snd (probe_at ready clock backoff (look clock s) n)"
      "if fst (probe_at ready clock backoff (look clock s) n) then r = Inr v else r = Inl v \<and> bound_reached limits v"
    unfolding waited_well_def fst_conv snd_conv add_0 One_nat_def by blast
  have "map (fst \<circ> probe_at ready clock backoff (look clock s)) [0..<n] = replicate n False"
    using n(3) by (intro nth_equalityI) auto
  with n show ?thesis by (auto simp: e Let_def split: if_splits)
qed

text \<open>The line of a wait without a clock fits the screen, for every name of three letters.\<close>

lemma clockless_line_fits:
  assumes "length n \<le> 3"
  shows "length (dep_line \<lparr>dep_name = n, outcome = fst (wait_for ready No_Clock backoff without_a_clock s)\<rparr>) \<le> COLS"
proof -
  obtain r s' where e: "wait_for ready No_Clock backoff without_a_clock s = (r, s')" by fastforce
  let ?w = "case r of Inl w \<Rightarrow> w | Inr w \<Rightarrow> w"
  have z: "elapsed_ms ?w = 0"
    using wait_loop_no_clock [of ready backoff without_a_clock 0 waited_default s] e
    by (simp add: wait_for_def waited_default_def)
  from wait_for_waits [where ready = ready and clock = No_Clock and backoff = backoff and limits = without_a_clock and s = s] e
  have "probes ?w \<le> NO_CLOCK_ATTEMPTS" by (simp add: without_a_clock_def Let_def)
  then have "length (decimal (probes ?w)) \<le> 7" using length_decimal [of "probes ?w" 6] by simp
  with assms z e show ?thesis by (auto simp: dep_line_def split: sum.splits)
qed

text \<open>A wait returns after at most as many probes as its limit
  allows, and at least one. Every probe but the last found the service missing, the last one decides
  the result, there is one pause between two probes and none after the last, and a wait that gives
  up has reached one of its two bounds.\<close>

theorem startup_wait_is_bounded:
  "case wait_for ready clock backoff limits s of (r, s') \<Rightarrow>
     let w = (case r of Inl w \<Rightarrow> w | Inr w \<Rightarrow> w); up = (case r of Inl _ \<Rightarrow> False | Inr _ \<Rightarrow> True);
         turn = probe_at ready clock backoff (look clock s)
     in map (fst \<circ> turn) [0..<probes w] = replicate (probes w - 1) False @ [up] \<and>
        s' = snd (turn (probes w - 1)) \<and> 1 \<le> probes w \<and> probes w \<le> max 1 (max_attempts limits) \<and>
        (up \<or> bound_reached limits w)"
  by (rule wait_for_waits)

end
