(* ===== verification/Hostfile.thy ===== *)
theory Hostfile
  imports Backing
begin

text \<open>
  Ordinary files as the host uses them, and \<open>HostFile\<close>, the guest memory kept in one
  (\<open>rv64-host/src/hostfile.rs\<close>). The file is the standard library's: its documented behaviour is
  the locale \<open>file_medium\<close>, and a fault-free file held in memory is the instance.
\<close>

section \<open>Files\<close>

text \<open>
  A seek followed by \<open>read_exact\<close> or \<open>write_all\<close>, and \<open>flush\<close>, with the io error left out.
\<close>

record 'f file_ops =
  read_at :: "nat \<Rightarrow> nat \<Rightarrow> 'f \<Rightarrow> (unit + u8 list) \<times> 'f"
  write_at :: "nat \<Rightarrow> u8 list \<Rightarrow> 'f \<Rightarrow> (unit + unit) \<times> 'f"
  flush_file :: "'f \<Rightarrow> (unit + unit) \<times> 'f"

locale file_medium =
  fixes F :: "'f file_ops"
    and img :: "'f \<Rightarrow> u8 list"
  assumes read_keeps: "read_at F off n f = (r, f') \<Longrightarrow> img f' = img f"
    and read_all: "read_at F off n f = (Inr d, f') \<Longrightarrow> off + n \<le> length (img f) \<and> d = slice off n (img f)"
    and write_done: "off + length d \<le> length (img f) \<Longrightarrow> write_at F off d f = (Inr (), f') \<Longrightarrow>
      img f' = splice off d (img f)"
    and write_torn: "off + length d \<le> length (img f) \<Longrightarrow> write_at F off d f = (Inl e, f') \<Longrightarrow>
      length (img f') = length (img f) \<and>
      (\<forall>i < length (img f). i < off \<or> off + length d \<le> i \<longrightarrow> img f' ! i = img f ! i)"
    and flush_keeps: "flush_file F f = (u, f') \<Longrightarrow> img f' = img f"

definition ram_file_ops :: "u8 list file_ops" where
  "ram_file_ops =
     \<lparr>read_at = \<lambda>off n f. (if off + n \<le> length f then Inr (slice off n f) else Inl (), f),
      write_at = \<lambda>off d f. (Inr (), take off (f @ replicate (off - length f) 0) @ d @ drop (off + length d) f),
      flush_file = \<lambda>f. (Inr (), f)\<rparr>"

lemma ram_file_simps [simp]:
  "read_at ram_file_ops off n f = (if off + n \<le> length f then Inr (slice off n f) else Inl (), f)"
  "off + length d \<le> length f \<Longrightarrow> write_at ram_file_ops off d f = (Inr (), splice off d f)"
  "flush_file ram_file_ops f = (Inr (), f)"
  by (simp_all add: ram_file_ops_def splice_def)

interpretation ram_file: file_medium ram_file_ops "\<lambda>f. f"
  by unfold_locales (auto split: if_splits)

section \<open>Pages of an image\<close>

definition image_page :: "u8 list \<Rightarrow> u32 \<Rightarrow> u8 list" where
  "image_page bs p = slice (unat p * PAGE) PAGE bs"

lemma image_page_splice:
  assumes "(unat p + 1) * PAGE \<le> length bs" and "length d = PAGE"
  shows "image_page (splice (unat p * PAGE) d bs) = (image_page bs)(p := d)"
proof
  fix q
  let ?bs = "splice (unat p * PAGE) d bs"
  have len: "length ?bs = length bs" using assms by (intro length_splice) simp
  show "image_page ?bs q = ((image_page bs)(p := d)) q"
  proof (cases "q = p")
    case True
    with assms show ?thesis by (simp add: image_page_def slice_def splice_def)
  next
    case False
    then have apart: "unat q < unat p \<or> unat p < unat q" by (simp add: word_unat_eq_iff) linarith
    have "slice (unat q * PAGE) PAGE ?bs = slice (unat q * PAGE) PAGE bs"
    proof (rule nth_equalityI)
      show "length (slice (unat q * PAGE) PAGE ?bs) = length (slice (unat q * PAGE) PAGE bs)"
        using len by (simp add: slice_def)
      fix i assume "i < length (slice (unat q * PAGE) PAGE ?bs)"
      then have i: "i < PAGE" "unat q * PAGE + i < length bs" using len by (auto simp: slice_def)
      have "\<not> (unat p * PAGE \<le> unat q * PAGE + i \<and> unat q * PAGE + i < unat p * PAGE + length d)"
        using apart i(1) assms(2) by linarith
      with i assms show "slice (unat q * PAGE) PAGE ?bs ! i = slice (unat q * PAGE) PAGE bs ! i"
        using nth_splice [of "unat p * PAGE" d bs "unat q * PAGE + i"] len by (auto simp: slice_def)
    qed
    with False show ?thesis by (simp add: image_page_def)
  qed
qed

section \<open>HostFile\<close>

record 'f hostfile =
  hfile :: 'f
  hf_pages :: u32

text \<open>A freshly truncated file set to its length reads as zeros.\<close>

definition hostfile_new :: "u32 \<Rightarrow> u8 list hostfile" where
  "hostfile_new n = \<lparr>hfile = replicate (unat n * PAGE) 0, hf_pages = n\<rparr>"

definition hf_read_page :: "'f file_ops \<Rightarrow> u32 \<Rightarrow> ('f hostfile, error, u8 list) sm" where
  "hf_read_page F page h =
     (if hf_pages h \<le> page then (Inl (Err OutOfRange), h)
      else case read_at F (unat page * PAGE) PAGE (hfile h) of
        (Inl _, f) \<Rightarrow> (Inl (Err Medium), h\<lparr>hfile := f\<rparr>)
      | (Inr d, f) \<Rightarrow> (Inr d, h\<lparr>hfile := f\<rparr>))"

definition hf_write_page :: "'f file_ops \<Rightarrow> u32 \<Rightarrow> u8 list \<Rightarrow> ('f hostfile, error, unit) sm" where
  "hf_write_page F page data h =
     (if hf_pages h \<le> page then (Inl (Err OutOfRange), h)
      else case write_at F (unat page * PAGE) data (hfile h) of
        (Inl _, f) \<Rightarrow> (Inl (Err Medium), h\<lparr>hfile := f\<rparr>)
      | (Inr _, f) \<Rightarrow> (Inr (), h\<lparr>hfile := f\<rparr>))"

definition hf_flush :: "'f file_ops \<Rightarrow> ('f hostfile, error, unit) sm" where
  "hf_flush F h =
     (case flush_file F (hfile h) of
        (Inl _, f) \<Rightarrow> (Inl (Err Medium), h\<lparr>hfile := f\<rparr>) | (Inr _, f) \<Rightarrow> (Inr (), h\<lparr>hfile := f\<rparr>))"

definition hostfile_ops :: "'f file_ops \<Rightarrow> 'f hostfile backing_ops" where
  "hostfile_ops F = \<lparr>read_page = hf_read_page F, write_page = hf_write_page F, flush_backing = hf_flush F\<rparr>"

definition hf_contents :: "('f \<Rightarrow> u8 list) \<Rightarrow> 'f hostfile \<Rightarrow> u32 \<Rightarrow> u8 list" where
  "hf_contents img h = image_page (img (hfile h))"

definition hf_inv :: "('f \<Rightarrow> u8 list) \<Rightarrow> 'f hostfile \<Rightarrow> bool" where
  "hf_inv img h \<longleftrightarrow> length (img (hfile h)) = unat (hf_pages h) * PAGE"

lemmas hf_defs = hostfile_ops_def hf_read_page_def hf_write_page_def hf_flush_def hf_contents_def hf_inv_def

lemma page_in_image: "\<not> n \<le> p \<Longrightarrow> (unat p + 1) * PAGE \<le> unat n * PAGE" for n p :: u32
  by (simp add: word_le_nat_alt)

lemma torn_page:
  assumes "length bs' = length bs" and "(unat p + 1) * PAGE \<le> length bs" and "q \<noteq> p"
    and "\<forall>i < length bs. i < unat p * PAGE \<or> unat p * PAGE + PAGE \<le> i \<longrightarrow> bs' ! i = bs ! i"
  shows "image_page bs' q = image_page bs q"
proof -
  let ?d = "slice (unat p * PAGE) PAGE bs'"
  have d: "length ?d = PAGE" using assms(1,2) by (intro length_slice) simp
  have "bs' = splice (unat p * PAGE) ?d bs"
  proof (rule nth_equalityI)
    show "length bs' = length (splice (unat p * PAGE) ?d bs)" using assms(1,2) d by (simp add: length_splice)
    fix i assume "i < length bs'"
    then show "bs' ! i = splice (unat p * PAGE) ?d bs ! i"
      using assms d nth_splice [of "unat p * PAGE" ?d bs i] by (auto simp: slice_def)
  qed
  then show ?thesis using image_page_splice [OF assms(2) d] assms(3) by (metis fun_upd_apply)
qed

sublocale file_medium \<subseteq> hf: total_backing "hostfile_ops F" "hf_contents img" "hf_inv img"
proof (unfold_locales, goal_cases)
  case (1 b p r b')
  then show ?case by (auto simp: hf_defs dest: read_keeps split: if_splits prod.splits sum.splits)
next
  case (2 b p d b')
  then obtain f where f: "read_at F (unat p * PAGE) PAGE (hfile b) = (Inr d, f)"
    by (auto simp: hf_defs split: if_splits prod.splits sum.splits)
  from read_all [OF f] show ?case by (simp add: hf_contents_def image_page_def length_slice)
next
  case (3 b d p b')
  then obtain f where f: "write_at F (unat p * PAGE) d (hfile b) = (Inr (), f)" "b' = b\<lparr>hfile := f\<rparr>"
    and "\<not> hf_pages b \<le> p"
    by (auto simp: hf_defs split: if_splits prod.splits sum.splits)
  then have p: "(unat p + 1) * PAGE \<le> length (img (hfile b))"
    using page_in_image 3(1) by (simp add: hf_inv_def)
  have "img f = splice (unat p * PAGE) d (img (hfile b))" using write_done [OF _ f(1)] p 3(2) by simp
  with 3 p f(2) image_page_splice [OF p, of d] show ?case by (simp add: hf_inv_def hf_contents_def length_splice)
next
  case (4 b d p e b')
  show ?case
  proof (cases "hf_pages b \<le> p")
    case True
    with 4 show ?thesis by (auto simp: hf_defs)
  next
    case False
    with 4 obtain f u where f: "write_at F (unat p * PAGE) d (hfile b) = (Inl u, f)" "b' = b\<lparr>hfile := f\<rparr>"
      by (auto simp: hf_defs split: prod.splits sum.splits)
    have p: "(unat p + 1) * PAGE \<le> length (img (hfile b))" using 4(1) page_in_image [OF False] by (simp add: hf_inv_def)
    have "length (img f) = length (img (hfile b)) \<and> (\<forall>i < length (img (hfile b)).
        i < unat p * PAGE \<or> unat p * PAGE + PAGE \<le> i \<longrightarrow> img f ! i = img (hfile b) ! i)"
      using write_torn [OF _ f(1)] p 4(2) by simp
    then have len: "length (img f) = length (img (hfile b))"
      and "\<And>q. q \<noteq> p \<Longrightarrow> image_page (img f) q = image_page (img (hfile b)) q"
      using torn_page [OF _ p] by blast+
    then show ?thesis using f(2) 4(1) by (simp add: hf_inv_def hf_contents_def)
  qed
next
  case (5 b u b')
  then show ?case by (auto simp: hf_defs dest: flush_keeps split: prod.splits sum.splits)
next
  case (6 b p)
  then show ?case by (auto simp: hf_defs split: prod.splits sum.splits)
next
  case (7 b d p)
  then show ?case by (auto simp: hf_defs split: prod.splits sum.splits)
next
  case (8 b)
  then show ?case by (auto simp: hf_defs split: prod.splits sum.splits)
qed

context file_medium
begin

lemma hf_reads:
  assumes "hf_inv img h"
  shows "case hf_read_page F p h of
       (Inr bs, h') \<Rightarrow> p < hf_pages h \<and> bs = image_page (img (hfile h)) p \<and> length bs = PAGE \<and> hf_contents img h' = hf_contents img h
     | (Inl e, h') \<Rightarrow> e = Err (if p < hf_pages h then Medium else OutOfRange) \<and> hf_contents img h' = hf_contents img h"
proof (cases "hf_read_page F p h")
  case (Pair r h')
  have "hf_contents img h' = hf_contents img h" using hf.read_frame [OF assms, of p r h'] Pair by (simp add: hostfile_ops_def)
  then show ?thesis
  proof (cases r)
    case (Inl e)
    with Pair \<open>hf_contents img h' = _\<close> show ?thesis
      by (auto simp: hf_read_page_def split: if_splits prod.splits sum.splits)
  next
    case (Inr bs)
    have "p < hf_pages h" using Pair Inr by (auto simp: hf_read_page_def split: if_splits)
    with hf.read_ok [OF assms, of p bs h'] Pair Inr \<open>hf_contents img h' = _\<close> show ?thesis
      by (auto simp: hostfile_ops_def hf_contents_def)
  qed
qed

lemma hf_writes:
  assumes "hf_inv img h" and "length d = PAGE"
  shows "case hf_write_page F p d h of
       (Inr _, h') \<Rightarrow> p < hf_pages h \<and> hf_inv img h' \<and> hf_contents img h' = (hf_contents img h)(p := d)
     | (Inl e, h') \<Rightarrow> e = Err (if p < hf_pages h then Medium else OutOfRange) \<and> hf_inv img h' \<and>
         (\<forall>q. q \<noteq> p \<longrightarrow> hf_contents img h' q = hf_contents img h q)"
proof (cases "hf_write_page F p d h")
  case (Pair r h')
  show ?thesis
  proof (cases r)
    case (Inl e)
    have "e = Err (if p < hf_pages h then Medium else OutOfRange)"
      using Pair Inl by (auto simp: hf_write_page_def split: if_splits prod.splits sum.splits)
    with hf.write_stop [OF assms, of p e h'] Pair Inl show ?thesis by (simp add: hostfile_ops_def)
  next
    case (Inr u)
    have "p < hf_pages h" using Pair Inr by (auto simp: hf_write_page_def split: if_splits)
    with hf.write_ok [OF assms, of p h'] Pair Inr show ?thesis by (simp add: hostfile_ops_def)
  qed
qed

end

text \<open>A page of guest memory is its 4096 bytes of the file: a read
  inside the store returns them or reports the medium, and changes nothing; a write replaces
  exactly them, and one that fails damages no other page; a page outside is refused.\<close>

theorem hostfile_is_paged_file:
  assumes "file_medium F img" and "hf_inv img h" and "length d = PAGE"
  shows "(case hf_read_page F p h of
       (Inr bs, h') \<Rightarrow> p < hf_pages h \<and> bs = image_page (img (hfile h)) p \<and> length bs = PAGE \<and> hf_contents img h' = hf_contents img h
     | (Inl e, h') \<Rightarrow> e = Err (if p < hf_pages h then Medium else OutOfRange) \<and> hf_contents img h' = hf_contents img h) \<and>
    (case hf_write_page F p d h of
       (Inr _, h') \<Rightarrow> p < hf_pages h \<and> hf_inv img h' \<and> hf_contents img h' = (hf_contents img h)(p := d)
     | (Inl e, h') \<Rightarrow> e = Err (if p < hf_pages h then Medium else OutOfRange) \<and> hf_inv img h' \<and>
         (\<forall>q. q \<noteq> p \<longrightarrow> hf_contents img h' q = hf_contents img h q))"
  by (intro conjI file_medium.hf_reads [OF assms(1,2)] file_medium.hf_writes [OF assms])

lemma hostfile_is_paged_file_witness:
  "case hf_write_page ram_file_ops 2 (replicate PAGE 7) (hostfile_new 4) of
     (Inr _, h') \<Rightarrow> hf_contents (\<lambda>f. f) h' 2 = replicate PAGE 7 | (Inl e, h') \<Rightarrow> e = Err Medium"
  using hostfile_is_paged_file [OF ram_file.file_medium_axioms, of "hostfile_new 4" "replicate PAGE 7" 2]
  by (auto simp: hf_inv_def hostfile_new_def split: prod.splits sum.splits)

end
