(* ===== verification/Serve.thy ===== *)
theory Serve
  imports Hostfile Wire
begin

text \<open>
  The host's end of the page link (\<open>rv64-host/src/serve.rs\<close>): page requests answered from a flat
  image, the loop over the bytes of the cable, the record of repeated requests, paced replies, and
  the keyboard pump. The image is a file of theory Hostfile. Writes to the console and to stderr
  are returned as values; the sentence that describes a rejected frame is in theory Messages.
\<close>

section \<open>Replies\<close>

record pace =
  pace_chunk :: nat
  pace_gap :: nat

text \<open>The writes of \<open>write_reply\<close>, each flushed before the gap.\<close>

definition write_reply :: "u8 list \<Rightarrow> pace option \<Rightarrow> u8 list list" where
  "write_reply out p =
     (case p of None \<Rightarrow> [out] | Some p \<Rightarrow> chunks (max (pace_chunk p) 1) out)"

section \<open>The image\<close>

definition out_of_range :: "nat \<Rightarrow> nat \<Rightarrow> bool" where
  "out_of_range start len \<longleftrightarrow> len < start + WIRE_PAGE"

definition serve_read_page :: "'f file_ops \<Rightarrow> nat \<Rightarrow> u32 \<Rightarrow> 'f \<Rightarrow> (unit + u8 list) \<times> 'f" where
  "serve_read_page F len page f =
     (let start = unat page * WIRE_PAGE
      in if out_of_range start len then (Inl (), f) else read_at F start WIRE_PAGE f)"

definition serve_write_page :: "'f file_ops \<Rightarrow> nat \<Rightarrow> u32 \<Rightarrow> u8 list \<Rightarrow> 'f \<Rightarrow> (unit + unit) \<times> 'f" where
  "serve_write_page F len page data f =
     (let start = unat page * WIRE_PAGE
      in if out_of_range start len then (Inl (), f) else write_at F start data f)"

section \<open>Answering requests\<close>

text \<open>\<open>m.take_matching(0x01).or_else(|| m.take_matching(0x03))\<close>\<close>

definition next_request :: "mux \<Rightarrow> wire_frame option \<times> mux" where
  "next_request m =
     (case take_matching 1 m of (Some f, m') \<Rightarrow> (Some f, m') | (None, m') \<Rightarrow> take_matching 3 m')"

text \<open>The type byte and page noted for a request, and its reply. Any other frame is unreachable.\<close>

fun serve_frame :: "'f file_ops \<Rightarrow> nat \<Rightarrow> wire_frame \<Rightarrow> 'f \<Rightarrow> ((u8 \<times> u32) \<times> wire_frame \<times> 'f) option" where
  "serve_frame F len (ReadReq page) f =
     (case serve_read_page F len page f of
        (Inr d, f') \<Rightarrow> Some ((1, page), ReadResp page d, f')
      | (Inl _, f') \<Rightarrow> Some ((1, page), ErrFrame 1 page, f'))"
| "serve_frame F len (WriteReq page data) f =
     (case serve_write_page F len page data f of
        (Inr _, f') \<Rightarrow> Some ((3, page), WriteAck page, f')
      | (Inl _, f') \<Rightarrow> Some ((3, page), ErrFrame 2 page, f'))"
| "serve_frame F len _ f = None"

record 'f server =
  img :: 'f
  smux :: mux
  out :: "u8 list"
  answered :: "(u8 \<times> u32) list"

lemma next_request_shorter: "next_request m = (Some f, m') \<Longrightarrow> length (held m') < length (held m)"
  by (auto simp: next_request_def take_matching_def dest: position_Some split: option.splits)

function serve_loop :: "'f file_ops \<Rightarrow> nat \<Rightarrow> ('f server, unit, unit) sm" where
  "serve_loop F len s =
     (case next_request (smux s) of
        (None, m) \<Rightarrow> (Inr (), s\<lparr>smux := m\<rparr>)
      | (Some r, m) \<Rightarrow>
          (case serve_frame F len r (img s) of
             None \<Rightarrow> (Inl Panic, s\<lparr>smux := m\<rparr>)
           | Some (req, reply, f') \<Rightarrow>
               serve_loop F len
                 (s\<lparr>img := f', smux := m, out := encode reply (out s), answered := answered s @ [req]\<rparr>)))"
  by pat_completeness auto
termination
  by (relation "measure (\<lambda>(F, len, s). length (held (smux s)))")
    (auto dest: next_request_shorter sym [THEN next_request_shorter])

declare serve_loop.simps [simp del]

text \<open>What a call of \<open>serve_once\<close> wrote to the guest console and to stderr.\<close>

record served =
  con_bytes :: "u8 list"
  noise_bytes :: "u8 list"
  noise_more :: nat

definition serve_once :: "'f file_ops \<Rightarrow> nat \<Rightarrow> u8 list \<Rightarrow> ('f server, unit, served) sm" where
  "serve_once F len bytes s =
     (case mux_push bytes (smux s) of
        (Inl e, m) \<Rightarrow> (Inl e, s\<lparr>smux := m\<rparr>)
      | (Inr _, m) \<Rightarrow>
          (case serve_loop F len (s\<lparr>smux := m, answered := []\<rparr>) of
             (Inl e, s) \<Rightarrow> (Inl e, s)
           | (Inr _, s) \<Rightarrow>
               (case take_console (smux s) of (con, m) \<Rightarrow>
                case mux_take_noise m of ((sample, dropped), m) \<Rightarrow>
                  (Inr \<lparr>con_bytes = con, noise_bytes = sample, noise_more = dropped\<rparr>, s\<lparr>smux := m\<rparr>))))"

section \<open>Repeated requests\<close>

record trail =
  last_request :: "(u8 \<times> u32) option"
  dupes :: nat
  trail_answered :: nat

definition trail_new :: trail where
  "trail_new = \<lparr>last_request = None, dupes = 0, trail_answered = 0\<rparr>"

text \<open>The lines \<open>Trail::note\<close> prints are given by the request and the two counts they quote.\<close>

fun trail_note :: "(u8 \<times> u32) list \<Rightarrow> trail \<Rightarrow> ((u8 \<times> u32) \<times> nat \<times> nat) list \<times> trail" where
  "trail_note [] t = ([], t)"
| "trail_note (req # reqs) t =
     (let t = t\<lparr>trail_answered := trail_answered t + 1\<rparr>;
          dup = (last_request t = Some req);
          t = (if dup then t\<lparr>dupes := dupes t + 1\<rparr> else t);
          line = (if dup then [(req, dupes t, trail_answered t)] else []) in
      case trail_note reqs (t\<lparr>last_request := Some req\<rparr>) of (lines, t') \<Rightarrow> (line @ lines, t'))"

definition tally :: "trail \<Rightarrow> nat \<times> nat" where
  "tally t = (trail_answered t, dupes t)"

section \<open>The loop over the cable\<close>

text \<open>
  \<open>serve_shared\<close> over the deliveries of its reader: at most 4096 bytes each, an empty one is the end
  of the stream. The replies of each delivery go out as one run of frames.
\<close>

fun serve_shared :: "'f file_ops \<Rightarrow> nat \<Rightarrow> pace option \<Rightarrow> u8 list list \<Rightarrow> trail \<Rightarrow> 'f server \<Rightarrow>
    (unit stop + (nat \<times> nat)) \<times> u8 list list \<times> 'f server" where
  "serve_shared F len p [] t s = (Inr (tally t), [], s)"
| "serve_shared F len p (chunk # rest) t s =
     (if chunk = [] then (Inr (tally t), [], s)
      else case serve_once F len chunk (s\<lparr>out := []\<rparr>) of
        (Inl e, s) \<Rightarrow> (Inl e, [], s)
      | (Inr _, s) \<Rightarrow>
          (let t = snd (trail_note (answered s) t);
               sent = (if out s = [] then [] else write_reply (out s) p) in
           case serve_shared F len p rest t s of (r, next_sent, s') \<Rightarrow> (r, sent @ next_sent, s')))"

definition server_new :: "'f \<Rightarrow> 'f server" where
  "server_new f = \<lparr>img = f, smux = mux_capturing_noise, out = [], answered = []\<rparr>"

section \<open>The keyboard\<close>

abbreviation QUIT :: u8 where "QUIT \<equiv> 0x03"
abbreviation ESCAPE :: u8 where "ESCAPE \<equiv> 0x1d"

datatype input_end = Quit | Eof

text \<open>One read: what it adds to the payload, whether it ends escaped, whether it quits.\<close>

fun pump_bytes :: "bool \<Rightarrow> u8 list \<Rightarrow> u8 list \<times> bool \<times> bool" where
  "pump_bytes escaped [] = ([], escaped, False)"
| "pump_bytes escaped (b # bs) =
     (if escaped then (case pump_bytes False bs of (p, e, q) \<Rightarrow> (b # p, e, q))
      else if b = ESCAPE then pump_bytes True bs
      else if b = QUIT then ([], False, True)
      else (case pump_bytes False bs of (p, e, q) \<Rightarrow> (b # p, e, q)))"

text \<open>\<open>pump_input\<close> over the reads of its source, the frames it sends, and how it ends.\<close>

fun pump_input :: "bool \<Rightarrow> u8 list list \<Rightarrow> u8 list list \<times> input_end option" where
  "pump_input escaped [] = ([], None)"
| "pump_input escaped (r # reads) =
     (if r = [] then ([], Some Eof)
      else case pump_bytes escaped r of (payload, escaped, quit) \<Rightarrow>
        let sent = (if payload \<noteq> [] then [encode (ConIn payload) []] else []) in
        if quit then (sent, Some Quit)
        else case pump_input escaped reads of (next_sent, e) \<Rightarrow> (sent @ next_sent, e))"

end
