(* ===== verification/Runner.thy ===== *)
theory Runner
  imports Boot Machine "HOL-Library.Sublist"
begin

text \<open>
  The run loops of \<open>rv64-host/src/lib.rs\<close>: the boot loop and its endings, the slices in which a
  capturing boot watches the console, and the loop that takes an ISA test to its verdict.
\<close>

section \<open>The boot loop\<close>

datatype run_outcome =
    RanShutdown u64
  | RanCapped u64
  | RanBackingFailure u64 u64
  | RanMachineTrap u64 u64 u64 u64

fun executed :: "run_outcome \<Rightarrow> u64" where
  "executed (RanShutdown n) = n"
| "executed (RanCapped n) = n"
| "executed (RanBackingFailure n _) = n"
| "executed (RanMachineTrap n _ _ _) = n"

fun with_executed :: "u64 \<Rightarrow> run_outcome \<Rightarrow> run_outcome" where
  "with_executed n (RanShutdown _) = RanShutdown n"
| "with_executed n (RanCapped _) = RanCapped n"
| "with_executed n (RanBackingFailure _ a) = RanBackingFailure n a"
| "with_executed n (RanMachineTrap _ c e t) = RanMachineTrap n c e t"

text \<open>A trap was vectored to a handler that does not exist.\<close>

definition dead_end :: "cpu \<Rightarrow> bool" where
  "dead_end c \<longleftrightarrow> priv_mode c = M \<and> pc c = 0 \<and> csr_read MTVEC (csrs c) = 0"

definition poll_then_step ::
  "'b backing_ops \<Rightarrow> (u8 \<Rightarrow> 's \<Rightarrow> 's) \<Rightarrow> (('b, 's) machine, u64, sbi_outcome) sm" where
  "poll_then_step B put m = step_trapping B put (check_interrupts (snd m) (fst m), snd m)"

definition tick_one :: "('b, 's) machine \<Rightarrow> ('b, 's) machine" where
  "tick_one = apsnd (\<lambda>b. b\<lparr>clint := clint_tick 1 (clint b)\<rparr>)"

lemma unat_succ: "\<not> n \<le> ex \<Longrightarrow> unat (ex + 1 :: u64) = unat ex + 1 \<and> unat ex < unat n"
  using off_step_one [of ex n] by (simp add: not_le)

text \<open>The loop of \<open>run_until\<close> with \<open>ex\<close> instructions executed.\<close>

function run_from ::
  "'b backing_ops \<Rightarrow> (u8 \<Rightarrow> 's \<Rightarrow> 's) \<Rightarrow> u64 \<Rightarrow> u64 \<Rightarrow> (('b, 's) machine, unit, run_outcome) sm" where
  "run_from B put max_insns ex m =
     (if dead_end (fst m)
      then (Inr (RanMachineTrap ex (csr_read MCAUSE (csrs (fst m))) (csr_read MEPC (csrs (fst m)))
             (csr_read MTVAL (csrs (fst m)))), m)
      else if max_insns \<le> ex then (Inr (RanCapped ex), m)
      else case poll_then_step B put m of
        (Inr Shutdown, m') \<Rightarrow> (Inr (RanShutdown (ex + 1)), m')
      | (Inr Handled, m') \<Rightarrow> run_from B put max_insns (ex + 1) (tick_one m')
      | (Inl (Err addr), m') \<Rightarrow> (Inr (RanBackingFailure ex addr), m')
      | (Inl Panic, m') \<Rightarrow> (Inl Panic, m'))"
  by pat_completeness auto
termination
  by (relation "measure (\<lambda>(B, put, n, ex, m). unat n - unat ex)") (auto dest!: unat_succ)

declare run_from.simps [simp del]

definition run_until ::
  "'b backing_ops \<Rightarrow> (u8 \<Rightarrow> 's \<Rightarrow> 's) \<Rightarrow> u64 \<Rightarrow> (('b, 's) machine, unit, run_outcome) sm" where
  "run_until B put max_insns = run_from B put max_insns 0"

lemma run_from_capped:
  "run_from B put n ex m = (Inr (RanCapped e), m') \<Longrightarrow> ex \<le> n \<Longrightarrow> e = n \<and> \<not> dead_end (fst m')"
proof (induction B put n ex m rule: run_from.induct)
  case (1 B put n ex m)
  show ?case
  proof (cases "dead_end (fst m) \<or> n \<le> ex")
    case False
    then obtain m1 where s: "poll_then_step B put m = (Inr Handled, m1)"
      using 1(2) by (auto simp: run_from.simps [of _ _ _ ex] split: prod.splits sum.splits stop.splits sbi_outcome.splits)
    with False 1(2) have r: "run_from B put n (ex + 1) (tick_one m1) = (Inr (RanCapped e), m')"
      by (simp add: run_from.simps [of _ _ _ ex])
    have "ex + 1 \<le> n" using False unat_succ [of n ex] by (simp add: word_le_nat_alt)
    with 1(1) [OF _ _ s [symmetric] refl refl r] False show ?thesis by simp
  qed (use 1(2,3) in \<open>auto simp: run_from.simps [of _ _ _ ex] split: if_splits\<close>)
qed

section \<open>Watching the console\<close>

text \<open>\<open>xs.windows(marker.len()).any(|w| w == marker)\<close>\<close>

definition has_window :: "u8 list \<Rightarrow> u8 list \<Rightarrow> bool" where
  "has_window marker xs \<longleftrightarrow> list_ex (\<lambda>i. slice i (length marker) xs = marker) [0..<length xs + 1 - length marker]"

definition console_reached :: "u8 list \<Rightarrow> u8 list \<Rightarrow> (nat, unit, bool) sm" where
  "console_reached out marker scanned =
     (if marker = [] then (Inr False, scanned)
      else if length out < scanned then (Inl Panic, scanned)
      else (Inr (has_window marker (drop scanned out)), length out - (length marker - 1)))"

abbreviation CONSOLE_POLL_INSNS :: u64 where "CONSOLE_POLL_INSNS \<equiv> 100000"

lemma poll_size:
  fixes ex n :: u64
  assumes "\<not> n \<le> ex"
  defines "k \<equiv> min CONSOLE_POLL_INSNS (n - ex)"
  shows "unat (ex + k) = unat ex + unat k" and "0 < unat k" and "unat ex + unat k \<le> unat n"
proof -
  have d: "unat (n - ex) = unat n - unat ex" "unat ex < unat n"
    using assms(1) unat_sub [of ex n] by (simp_all add: word_le_nat_alt not_le)
  then have k: "unat k = min 100000 (unat n - unat ex)" by (auto simp: k_def min_def word_le_nat_alt)
  with d show "0 < unat k" and le: "unat ex + unat k \<le> unat n" by auto
  have "unat n < 2 ^ 64" by (rule order_less_le_trans [OF unsigned_less]) simp
  with le show "unat (ex + k) = unat ex + unat k" by (simp add: unat_word_ariths)
qed

text \<open>
  The loop of \<open>boot_capturing_frames\<close>: the ending (None when the marker was seen) and the count.
  The console is the byte vector the UART writes to.
\<close>

function boot_loop ::
  "'b backing_ops \<Rightarrow> (u8 \<Rightarrow> u8 list \<Rightarrow> u8 list) \<Rightarrow> u64 \<Rightarrow> u8 list \<Rightarrow> u64 \<Rightarrow> nat
    \<Rightarrow> (('b, u8 list) machine, unit, run_outcome option \<times> u64) sm" where
  "boot_loop B put max_insns marker ex scanned m =
     (if max_insns \<le> ex then (Inr (Some (RanCapped ex), ex), m)
      else case run_until B put (min CONSOLE_POLL_INSNS (max_insns - ex)) m of
        (Inl e, m') \<Rightarrow> (Inl e, m')
      | (Inr part, m') \<Rightarrow>
          let ex' = ex + executed part in
          (case part of
             RanCapped _ \<Rightarrow>
               (case console_reached (sink (uart (snd m'))) marker scanned of
                  (Inl e, _) \<Rightarrow> (Inl e, m')
                | (Inr found, scanned') \<Rightarrow>
                    if found then (Inr (None, ex'), m') else boot_loop B put max_insns marker ex' scanned' m')
           | _ \<Rightarrow> (Inr (Some (with_executed ex' part), ex'), m')))"
  by pat_completeness auto
termination
proof (relation "measure (\<lambda>(B, put, n, marker, ex, scanned, m). unat n - unat ex)", goal_cases)
  case (2 B put n marker ex scanned m r m' part ex' e s found scanned')
  note p = poll_size [OF 2(1)]
  obtain e' where "run_until B put (min CONSOLE_POLL_INSNS (n - ex)) m = (Inr (RanCapped e'), m')" "part = RanCapped e'"
    using 2 by metis
  then have "part = RanCapped (min CONSOLE_POLL_INSNS (n - ex))"
    using run_from_capped [of B put "min CONSOLE_POLL_INSNS (n - ex)" 0 m e' m'] by (simp add: run_until_def)
  with 2 p show ?case by simp
qed simp

declare boot_loop.simps [simp del]

section \<open>Whole runs over an in-memory backing\<close>

abbreviation RAM_PAGE_COUNT :: u32 where "RAM_PAGE_COUNT \<equiv> 8192"

record boot_run =
  run_output :: "u8 list"
  run_executed :: u64
  reached_marker :: bool
  run_ending :: "run_outcome option"
  run_cache :: stats
  mmu_walks :: u64

text \<open>
  \<open>boot_capturing_frames\<close> from the contents of its three files. The output stays a byte string:
  the lossy conversion to text is the caller's view of it.
\<close>

definition boot_capturing_frames ::
  "u8 list \<Rightarrow> u8 list \<Rightarrow> u8 list \<Rightarrow> u64 \<Rightarrow> u8 list \<Rightarrow> nat \<Rightarrow> boot_error stop + boot_run" where
  "boot_capturing_frames kern tree ramdisk max_insns marker nframes =
     (case cache_new (fake_new RAM_PAGE_COUNT) nframes of
        Inl _ \<Rightarrow> Inl Panic
      | Inr c \<Rightarrow>
     (case load_boot_images fake_ops vec_put kern tree (Some ramdisk) (bus_new c []) of
        (Inl e, _) \<Rightarrow> Inl e
      | (Inr (h, _), b) \<Rightarrow>
     (case boot_loop fake_ops vec_put max_insns marker 0 0 (h, b) of
        (Inl _, _) \<Rightarrow> Inl Panic
      | (Inr (ending, n), m) \<Rightarrow>
          Inr \<lparr>run_output = sink (uart (snd m)), run_executed = n, reached_marker = (ending = None),
               run_ending = ending, run_cache = cstats (cache (snd m)), mmu_walks = walks (mmu (fst m))\<rparr>)))"

text \<open>\<open>run_program_capturing\<close>: every failure is a panic of this fixture.\<close>

definition run_program_capturing :: "u32 list \<Rightarrow> u64 \<Rightarrow> unit stop + u8 list" where
  "run_program_capturing program max_insns =
     (case cache_new (fake_new RAM_PAGE_COUNT) 64 of
        Inl _ \<Rightarrow> Inl Panic
      | Inr c \<Rightarrow>
     (case sm_for [0..<length program]
             (\<lambda>i. bus_store fake_ops vec_put (RAM_BASE + 4 * of_nat i) 4 (ucast (program ! i))) (bus_new c []) of
        (Inl _, _) \<Rightarrow> Inl Panic
      | (Inr _, b) \<Rightarrow>
     (case run_until fake_ops vec_put max_insns ((cpu_new RAM_BASE)\<lparr>priv_mode := S\<rparr>, b) of
        (Inr (RanShutdown _), m) \<Rightarrow> Inr (sink (uart (snd m)))
      | _ \<Rightarrow> Inl Panic)))"

section \<open>The ISA test harness\<close>

abbreviation MAX_STEPS :: nat where "MAX_STEPS \<equiv> 10000000"
abbreviation UNEXPECTED_TRAP :: u64 where "UNEXPECTED_TRAP \<equiv> 1337"

definition unexpected_trap_subtest :: "u64 \<Rightarrow> u64" where
  "unexpected_trap_subtest tohost = tohost AND NOT UNEXPECTED_TRAP"

text \<open>The ways a test does not pass, with the values its message quotes.\<close>

datatype test_failure =
    NotLoadable elf_error
  | NoTohost
  | BackingFailed u64
  | TohostUnreadable u64
  | UnexpectedTrap u64 u64 u64 u64 u64
  | SubTestFailed u64 u64
  | NoVerdict u64

definition test_verdict :: "cpu \<Rightarrow> u64 \<Rightarrow> test_failure + unit" where
  "test_verdict c v =
     (if v = 1 then Inr ()
      else if v AND UNEXPECTED_TRAP = UNEXPECTED_TRAP
      then Inl (UnexpectedTrap (csr_read MCAUSE (csrs c)) (csr_read MEPC (csrs c)) (csr_read MTVAL (csrs c))
             (unexpected_trap_subtest v) v)
      else Inl (SubTestFailed (drop_bit 1 v) v))"

text \<open>
  One turn: poll, step, deliver an exception, tick, read the verdict. \<open>None\<close> is no verdict yet.
\<close>

definition test_turn ::
  "'b backing_ops \<Rightarrow> (u8 \<Rightarrow> 's \<Rightarrow> 's) \<Rightarrow> u64 \<Rightarrow> (('b, 's) machine, test_failure, bool) sm" where
  "test_turn B put tohost =
     sm_bind (sm_modify (\<lambda>(c, b). (check_interrupts b c, b))) (\<lambda>_.
     sm_bind (\<lambda>m. case step B put m of
                (Inr _, m') \<Rightarrow> (Inr (), m')
              | (Inl Panic, m') \<Rightarrow> (Inl Panic, m')
              | (Inl (Err (BackingFailure a)), m') \<Rightarrow> (Inl (Err (BackingFailed a)), m')
              | (Inl (Err e), m') \<Rightarrow> (Inr (), apfst (trap e) m')) (\<lambda>_.
     sm_bind (sm_modify tick_one) (\<lambda>_.
     sm_bind (sm_map_err (\<lambda>_. TohostUnreadable tohost) (on_bus (bus_load B tohost 8))) (\<lambda>v.
     if v = 0 then sm_return False
     else (\<lambda>m. case test_verdict (fst m) v of Inr _ \<Rightarrow> (Inr True, m) | Inl f \<Rightarrow> (Inl (Err f), m))))))"

primrec test_loop ::
  "'b backing_ops \<Rightarrow> (u8 \<Rightarrow> 's \<Rightarrow> 's) \<Rightarrow> u64 \<Rightarrow> nat \<Rightarrow> (('b, 's) machine, test_failure, unit) sm" where
  "test_loop B put tohost 0 = (\<lambda>m. (Inl (Err (NoVerdict (pc (fst m)))), m))"
| "test_loop B put tohost (Suc n) =
     sm_bind (test_turn B put tohost) (\<lambda>passed. if passed then sm_return () else test_loop B put tohost n)"

definition run_test_elf :: "u8 list \<Rightarrow> test_failure stop + unit" where
  "run_test_elf bytes =
     (case cache_new (fake_new RAM_PAGE_COUNT) 64 of
        Inl _ \<Rightarrow> Inl Panic
      | Inr c \<Rightarrow>
     (case elf_load fake_ops vec_put bytes (bus_new c []) of
        (Inl e, _) \<Rightarrow> Inl (stop_map NotLoadable e)
      | (Inr start, b) \<Rightarrow>
     (case find_symbol bytes (ascii ''tohost'') of
        None \<Rightarrow> Inl (Err NoTohost)
      | Some tohost \<Rightarrow> fst (test_loop fake_ops vec_put tohost MAX_STEPS (cpu_new start, b)))))"

end
