(* ===== verification/Messages.thy ===== *)
theory Messages
  imports Text Link Serve Runner
begin

text \<open>
  The texts the two ends print: the counters and faults of the badge's link (\<open>usbhost.rs\<close>), the
  bytes the server's decoder threw away (\<open>serve.rs\<close>), and the way a run on the host ended
  (\<open>rv64-host/src/lib.rs\<close>).
\<close>

abbreviation SEND_DEADLINE_MS :: nat where "SEND_DEADLINE_MS \<equiv> 500"

section \<open>The link\<close>

definition describe_tx :: "tx_log \<Rightarrow> string" where
  "describe_tx t =
     (let l = last_tx t in
      ''tx: last '' @ decimal (asked l) @ '' B asked / '' @ decimal (accepted l) @ '' accepted in '' @
      decimal (calls l) @ '' call(s), '' @ decimal (refusals l) @ '' refused, '' @ decimal (shorts l) @
      '' short, '' @ decimal (flushes l) @ '' flush(es), '' @ decimal (unat (ms l)) @ '' ms | life '' @
      decimal (tx_log.frames t) @ '' frames ('' @ decimal (multi_frames t) @ '' multi-packet), '' @
      decimal (total_accepted t) @ '' bytes accepted, '' @ decimal (total_refusals t) @ '' refusals'')"

text \<open>What the measured figures of a timeout say.\<close>

definition timeout_reading :: "u64 \<Rightarrow> nat \<Rightarrow> string" where
  "timeout_reading waited_ms n =
     (if n = 0
      then (if waited_ms < ATTEMPT_DEADLINE_MS div 2
            then ''RETURNED EARLY and heard nothing: the attempt gave up well short '' @
                 ''of its own deadline, so the receive path is failing fast rather '' @
                 ''than waiting -- look at arm/recv, not at the peer''
            else ''waited and heard nothing: no delivery ever reached the decoder, '' @
                 ''so either nothing arrived or the listener never took it'')
      else (if waited_ms < ATTEMPT_DEADLINE_MS div 2
            then ''RETURNED EARLY though bytes were arriving: the wait is not being '' @ ''waited''
            else ''bytes arrived but never formed the frame asked for: framing, CRC, '' @
                 ''truncation, or an answer for another page''))"

fun fault_text :: "link_fault \<Rightarrow> string" where
  "fault_text NotParked = ''no receive listener confirmed parked before send''"
| "fault_text Stalled = ''send sink accepted nothing '' @ decimal SEND_RETRY_BUDGET @ '' times running''"
| "fault_text (SendTimedOut sent len) =
     ''send gave up after '' @ decimal SEND_DEADLINE_MS @ '' ms with '' @ decimal sent @ '' of '' @ decimal len @
     '' bytes handed over: the transmit path is accepting bytes and not draining them''"
| "fault_text SendFailed = ''transport send failed''"
| "fault_text RecvFailed = ''transport recv failed''"
| "fault_text (Timeout n elapsed w d b) =
     ''no answer after '' @ decimal n @ '' attempt(s); measured '' @ decimal (unat elapsed) @ '' ms total, '' @
     decimal (unat w) @ '' ms on the last attempt, '' @ decimal d @ '' deliveries ('' @ decimal b @
     '' bytes) ever received. Policy: '' @ decimal (unat RECV_DEADLINE_MS) @ '' ms total, '' @
     decimal (unat ATTEMPT_DEADLINE_MS) @ '' ms per attempt, '' @ decimal RETRY_BUDGET @
     '' re-sends. Reading: '' @ timeout_reading w d"
| "fault_text (WrongPage asked_for got) =
     ''response for page '' @ decimal (unat got) @ '' while waiting for page '' @ decimal (unat asked_for)"
| "fault_text WrongType = ''response frame was the wrong type''"

definition describe_kind :: "link_fault \<Rightarrow> string option \<Rightarrow> string" where
  "describe_kind k pf = (case pf of Some p \<Rightarrow> fault_text k @ '' ('' @ p @ '')'' | None \<Rightarrow> fault_text k)"

fun describe_op :: "page_op \<Rightarrow> string" where
  "describe_op (Op_Read p) = ''reading page '' @ decimal (unat p)"
| "describe_op (Op_Write p) = ''writing page '' @ decimal (unat p)"

text \<open>The line \<open>noise_report\<close> prints of the bytes the decoder discarded.\<close>

fun discarded_text :: "nat \<times> u8 list \<Rightarrow> string" where
  "discarded_text (n, sample) =
     ''decoder discarded '' @ decimal n @ '' bytes; first '' @ decimal (length sample) @ '': '' @
     joined '' '' (map hex_byte sample)"

definition describe_fault :: "link_fault_report \<Rightarrow> string" where
  "describe_fault f =
     (case fault_op f of
        Some op \<Rightarrow> describe_op op @ '': '' @ describe_kind (kind f) (platform f)
      | None \<Rightarrow> describe_kind (kind f) (platform f)) @
     (case status f of Some s \<Rightarrow> '' ['' @ s @ '']'' | None \<Rightarrow> []) @
     (case discarded f of Some d \<Rightarrow> '' ['' @ discarded_text d @ '']'' | None \<Rightarrow> [])"

section \<open>What the server's decoder threw away\<close>

definition reject_name :: "u8 \<Rightarrow> string option" where
  "reject_name ty =
     (if ty = 1 then Some ''ReadReq'' else if ty = 2 then Some ''ReadResp''
      else if ty = 3 then Some ''WriteReq'' else if ty = 4 then Some ''WriteAck''
      else if ty = 5 then Some ''ConOut'' else if ty = 6 then Some ''ConIn''
      else if ty = 7 then Some ''Err'' else None)"

definition reject_page :: "u8 \<Rightarrow> u8 list \<Rightarrow> u32 option" where
  "reject_page ty body =
     (case (if ty = 1 \<or> ty = 2 \<or> ty = 3 \<or> ty = 4 then Some 0 else if ty = 7 then Some 2 else None) of
        Some at \<Rightarrow> if at + 4 \<le> length body then Some (from_le (slice at 4 body)) else None
      | None \<Rightarrow> None)"

text \<open>The pairs of equal 512-byte blocks.\<close>

definition equal_blocks :: "u8 list list \<Rightarrow> (nat \<times> nat) list" where
  "equal_blocks blocks =
     concat (map (\<lambda>i. map (\<lambda>j. (i, j)) (filter (\<lambda>j. blocks ! i = blocks ! j) [i + 1..<length blocks]))
       [0..<length blocks])"

definition repeats_text :: "u8 list \<Rightarrow> string" where
  "repeats_text body =
     (let blk = drop 4 body; dupes = equal_blocks (chunks 512 blk) in
      if 2 * 512 \<le> length blk
      then ''; '' @ decimal (length blk div 512) @ '' full '' @ decimal 512 @ ''-byte blocks, '' @
           (if dupes = [] then ''all distinct''
            else ''REPEATED: '' @ joined '' '' (map (\<lambda>(i, j). decimal i @ ''='' @ decimal j) dupes))
      else [])"

definition describe_reject :: "u8 list \<Rightarrow> string option" where
  "describe_reject bytes =
     (case find_sync bytes of
        None \<Rightarrow> None
      | Some at \<Rightarrow>
          let rest = drop at bytes in
          if length rest < 5 then None
          else case reject_name (rest ! 2) of
            None \<Rightarrow> None
          | Some n \<Rightarrow>
              let body = drop 5 rest in
              Some (''[rv64-host: discarded '' @ decimal (length bytes) @ '' bytes; frame-shaped at offset '' @
                decimal at @ '': '' @ n @ '', declared len '' @ decimal (unat (from_le (slice 3 2 rest) :: u16)) @
                (case reject_page (rest ! 2) body of Some p \<Rightarrow> '', page '' @ decimal (unat p) | None \<Rightarrow> []) @
                repeats_text body @ '']''))"

section \<open>How a run on the host ended\<close>

definition mcause_name :: "u64 \<Rightarrow> string" where
  "mcause_name c =
     (if drop_bit 63 c = 1 then ''interrupt''
      else
        (if c = 0 then ''instruction address misaligned'' else if c = 1 then ''instruction access fault''
         else if c = 2 then ''illegal instruction'' else if c = 3 then ''breakpoint''
         else if c = 4 then ''load address misaligned'' else if c = 5 then ''load access fault''
         else if c = 6 then ''store/AMO address misaligned'' else if c = 7 then ''store/AMO access fault''
         else if c = 8 then ''environment call from U-mode'' else if c = 9 then ''environment call from S-mode''
         else if c = 11 then ''environment call from M-mode'' else if c = 12 then ''instruction page fault''
         else if c = 13 then ''load page fault'' else if c = 15 then ''store/AMO page fault''
         else ''unknown cause''))"

fun diagnostic :: "run_outcome \<Rightarrow> string option" where
  "diagnostic (RanShutdown _) = None"
| "diagnostic (RanCapped n) = Some (''stopped after reaching the '' @ decimal (unat n) @ ''-instruction cap'')"
| "diagnostic (RanBackingFailure _ a) = Some (''guest memory backing store failed at '' @ hex_alt (unat a))"
| "diagnostic (RanMachineTrap _ c e t) =
     Some (''unhandled M-mode trap: mcause='' @ hex_alt (unat c) @ '' ('' @ mcause_name c @ ''), mepc='' @
       hex_alt (unat e) @ '', mtval='' @ hex_alt (unat t) @ ''.'' @
       (if c = 2
        then '' mtval is the offending instruction encoding '' @ [CHR 0xE2, CHR 0x80, CHR 0x94] @
             '' decode it with the Task 16 harness, and mepc is the pc to look up in the kernel'' @ [CHR 0x27] @ ''s '' @ ''System.map.''
        else []) @
       '' This emulator plays the M-mode firmware role in '' @
       ''host code and installs no trap vector, so `mtvec` is 0 and the guest '' @
       ''would otherwise spin at address 0 forever with no output.'')"

end
