(* ===== verification/Badge_Run.thy ===== *)
theory Badge_Run
  imports Messages Oled
begin

text \<open>
  \<open>badge/app/src/run.rs\<close>: the badge's run loop over its page link, its console seam, its clock
  spans and its report. The link handle and the page cache share one \<open>LinkInner\<close>: here it is the
  backing state of the cache, and a call on the handle is an access to that state. What goes to
  the log is a list of lines.
\<close>

abbreviation HEARTBEAT_SLICES :: u64 where "HEARTBEAT_SLICES \<equiv> 16"
abbreviation SLICE_INSNS :: u64 where "SLICE_INSNS \<equiv> 100000"
abbreviation RATE_SLICES :: u64 where "RATE_SLICES \<equiv> 256"
abbreviation FIRST_RATE_SLICE :: u64 where "FIRST_RATE_SLICE \<equiv> 16"
abbreviation MIRROR_CAP :: nat where "MIRROR_CAP \<equiv> 8192"

section \<open>Timing\<close>

record span =
  open_at :: "u64 option"
  total_ms :: u64
  span_dropped :: u32

definition span_default :: span where
  "span_default = \<lparr>open_at = None, total_ms = 0, span_dropped = 0\<rparr>"

definition span_open :: "u64 option \<Rightarrow> span \<Rightarrow> span" where
  "span_open now s = s\<lparr>open_at := now\<rparr>"

definition span_close :: "u64 option \<Rightarrow> span \<Rightarrow> span" where
  "span_close now s =
     (let was = open_at s; s = s\<lparr>open_at := None\<rparr> in
      case (was, now) of
        (Some a, Some b) \<Rightarrow> s\<lparr>total_ms := saturating_plus (total_ms s) (saturating_sub b a)\<rparr>
      | _ \<Rightarrow> s\<lparr>span_dropped := (if span_dropped s = - 1 then - 1 else span_dropped s + 1)\<rparr>)"

definition saturating_mul :: "u64 \<Rightarrow> u64 \<Rightarrow> u64" where
  "saturating_mul a b = (if unat a * unat b < 2 ^ 64 then a * b else - 1)"

definition insn_rate :: "u64 \<Rightarrow> u64 \<Rightarrow> u64 option" where
  "insn_rate n cpu = (if cpu = 0 then None else Some (saturating_mul n 1000 div cpu))"

definition rate_line :: "u64 \<Rightarrow> u64 \<Rightarrow> u64 \<Rightarrow> u64 \<Rightarrow> string" where
  "rate_line n wall_ms link_ms service_ms =
     (let cpu = saturating_sub (saturating_sub wall_ms link_ms) service_ms;
          num = (\<lambda>v. decimal (unat v)) in
      ''rv64 rate: insn='' @ num n @ '' wall='' @ num wall_ms @ ''ms link='' @ num link_ms @ ''ms svc='' @
      num service_ms @ ''ms '' @ ''cpu='' @ num cpu @ ''ms ips='' @
      (case insn_rate n cpu of Some v \<Rightarrow> num v | None \<Rightarrow> ''?''))"

section \<open>The console seam\<close>

text \<open>The trait \<open>Console\<close>, over \<open>ConsoleSink\<close>'s \<open>put\<close>.\<close>

record 'c console_ops =
  con_put :: "u8 \<Rightarrow> 'c \<Rightarrow> 'c"
  con_flush :: "'c \<Rightarrow> 'c"
  con_tick :: "'c \<Rightarrow> 'c"
  con_take :: "'c \<Rightarrow> u8 list \<times> 'c"

text \<open>A byte never makes the grid panic (\<open>Oled_Props\<close>), so its outcome is dropped here.\<close>

definition oled_console :: "'d screen_ops \<Rightarrow> 'd oled console_ops" where
  "oled_console D =
     \<lparr>con_put = \<lambda>b s. snd (oled_put b s), con_flush = oled_flush D, con_tick = oled_tick, con_take = \<lambda>s. ([], s)\<rparr>"

record 'c mirrored =
  inner :: 'c
  mirror_buf :: "u8 list"
  mirror_dropped :: nat

definition mirrored_new :: "'c \<Rightarrow> 'c mirrored" where
  "mirrored_new c = \<lparr>inner = c, mirror_buf = [], mirror_dropped = 0\<rparr>"

definition mirrored_put :: "'c console_ops \<Rightarrow> u8 \<Rightarrow> 'c mirrored \<Rightarrow> 'c mirrored" where
  "mirrored_put C b m =
     (let m = m\<lparr>inner := con_put C b (inner m)\<rparr> in
      if length (mirror_buf m) < MIRROR_CAP then m\<lparr>mirror_buf := mirror_buf m @ [b]\<rparr>
      else m\<lparr>mirror_dropped := mirror_dropped m + 1\<rparr>)"

definition mirrored_console :: "'c console_ops \<Rightarrow> 'c mirrored console_ops" where
  "mirrored_console C =
     \<lparr>con_put = mirrored_put C, con_flush = \<lambda>m. m\<lparr>inner := con_flush C (inner m)\<rparr>,
      con_tick = \<lambda>m. m\<lparr>inner := con_tick C (inner m)\<rparr>, con_take = \<lambda>m. (mirror_buf m, m\<lparr>mirror_buf := []\<rparr>)\<rparr>"

definition note_line :: "'c console_ops \<Rightarrow> string \<Rightarrow> 'c \<Rightarrow> 'c" where
  "note_line C s c = con_flush C (con_put C 0x0A (fold (con_put C) (ascii s) c))"

section \<open>The link behind the bus\<close>

type_synonym ('t, 'c) link_bus = "('t link_inner, 'c) bus"
type_synonym ('t, 'c) badge_machine = "('t link_inner, 'c) machine"

definition on_link :: "('t link_inner \<Rightarrow> 'a \<times> 't link_inner) \<Rightarrow> ('t, 'c) link_bus \<Rightarrow> 'a \<times> ('t, 'c) link_bus" where
  "on_link f b = (case f (backing (cache b)) of (a, l) \<Rightarrow> (a, b\<lparr>cache := (cache b)\<lparr>backing := l\<rparr>\<rparr>))"

definition link_now :: "'t transport \<Rightarrow> ('t, 'c) link_bus \<Rightarrow> u64 option \<times> ('t, 'c) link_bus" where
  "link_now T b = (case on_link (on_transport (now_ms T)) b of (t, b) \<Rightarrow> (Some t, b))"

section \<open>Recovering the device tree's address\<close>

datatype boot_probe_error =
    ReadFailed u64 "link_fault_report option"
  | NoImageHeader
  | ForeignTextOffset u64
  | BadImageSize u64
  | NoFdt u64 u32

definition describe_probe :: "boot_probe_error \<Rightarrow> string" where
  "describe_probe e =
     (case e of
        ReadFailed a (Some f) \<Rightarrow> ''read '' @ hex_alt (unat a) @ '' failed: '' @ describe_fault f
      | ReadFailed a None \<Rightarrow> ''read '' @ hex_alt (unat a) @ '' failed''
      | NoImageHeader \<Rightarrow> ''no RSC'' @ [CHR 0x5C] @ ''x05 magic at '' @ hex_alt (unat KERNEL_LOAD_ADDR) @
          '': host served no image?''
      | ForeignTextOffset off \<Rightarrow> ''kernel wants text_offset '' @ hex_alt (unat off) @ '', we run at '' @
          hex_alt (unat KERNEL_LOAD_ADDR)
      | BadImageSize s \<Rightarrow> ''bad image_size '' @ hex_alt (unat s)
      | NoFdt at magic \<Rightarrow> ''no dtb at '' @ hex_alt (unat at) @ '' (magic '' @ hex_alt_pad 10 (unat magic) @ '')'')"

abbreviation IMAGE_MAGIC2 :: u64 where "IMAGE_MAGIC2 \<equiv> 0x05435352"
abbreviation FDT_MAGIC_LE :: u32 where "FDT_MAGIC_LE \<equiv> 0xEDFE0DD0"

definition probe_load ::
  "'t transport \<Rightarrow> u64 \<Rightarrow> nat \<Rightarrow> (('t, 'c) link_bus, boot_probe_error, u64) sm" where
  "probe_load T addr n b =
     (case bus_load (usb_ops T) addr n b of
        (Inr v, b) \<Rightarrow> (Inr v, b)
      | (Inl Panic, b) \<Rightarrow> (Inl Panic, b)
      | (Inl (Err _), b) \<Rightarrow> (case on_link take_fault b of (f, b) \<Rightarrow> (Inl (Err (ReadFailed addr f)), b)))"

definition dtb_address :: "'t transport \<Rightarrow> (('t, 'c) link_bus, boot_probe_error, u64) sm" where
  "dtb_address T =
     sm_bind (probe_load T (KERNEL_LOAD_ADDR + 56) 4) (\<lambda>magic2.
     if magic2 \<noteq> IMAGE_MAGIC2 then sm_err NoImageHeader else
     sm_bind (probe_load T (KERNEL_LOAD_ADDR + 8) 8) (\<lambda>text_offset.
     if text_offset \<noteq> KERNEL_LOAD_ADDR - RAM_BASE then sm_err (ForeignTextOffset text_offset) else
     sm_bind (probe_load T (KERNEL_LOAD_ADDR + 16) 8) (\<lambda>image_size.
     if image_size < of_nat PAGE then sm_err (BadImageSize image_size)
     else if 2 ^ 64 \<le> unat KERNEL_LOAD_ADDR + unat image_size then sm_err (BadImageSize image_size)
     else
       let at = round_up64 (KERNEL_LOAD_ADDR + image_size) 8 in
       sm_bind (probe_load T at 4) (\<lambda>magic.
       if ucast magic \<noteq> FDT_MAGIC_LE then sm_err (NoFdt at (ucast magic)) else sm_return at))))"

definition start_cpu :: "'t transport \<Rightarrow> (('t, 'c) link_bus, boot_probe_error, cpu) sm" where
  "start_cpu T =
     sm_bind (dtb_address T) (\<lambda>at.
     let c = (cpu_new KERNEL_LOAD_ADDR)\<lparr>priv_mode := S\<rparr>
     in sm_return (set_reg 11 at (set_reg 10 0 c)))"

definition assemble ::
  "'t transport \<Rightarrow> 't \<Rightarrow> 'c \<Rightarrow> nat \<Rightarrow> boot_probe_error stop + ('t, 'c) badge_machine" where
  "assemble T t con nframes =
     (case cache_new (link_new t) nframes of
        Inl _ \<Rightarrow> Inl Panic
      | Inr c \<Rightarrow>
          (case start_cpu T (bus_new c con) of (Inl e, _) \<Rightarrow> Inl e | (Inr h, b) \<Rightarrow> Inr (h, b)))"

section \<open>Endings and the report\<close>

record run_config =
  slice_insns :: u64
  max_insns :: u64
  heartbeat_slices :: u64

definition config_default :: run_config where
  "config_default = \<lparr>slice_insns = SLICE_INSNS, max_insns = - 1, heartbeat_slices = HEARTBEAT_SLICES\<rparr>"

datatype ending =
    EndShutdown
  | EndCapped
  | EndBacking u64 "link_fault_report option"
  | EndMachineTrap u64 u64 u64
  | EndStopped

definition describe_ending :: "ending \<Rightarrow> string" where
  "describe_ending e =
     (case e of
        EndShutdown \<Rightarrow> ''-- shutdown --''
      | EndCapped \<Rightarrow> ''-- insn cap --''
      | EndBacking a (Some f) \<Rightarrow> ''MEM FAULT '' @ hex_alt (unat a) @ '' '' @ describe_fault f
      | EndBacking a None \<Rightarrow> ''MEM FAULT '' @ hex_alt (unat a) @ '' (no link fault recorded)''
      | EndMachineTrap c e t \<Rightarrow>
          ''M-TRAP c'' @ decimal (unat c) @ '' pc '' @ hex_alt (unat e) @ '' tv '' @ hex_alt (unat t)
      | EndStopped \<Rightarrow> ''-- stopped --'')"

record run_report =
  r_ending :: ending
  r_executed :: u64
  r_cache :: stats
  r_walks :: u64
  r_retries :: nat
  r_stale :: nat
  r_late :: nat
  r_pump_faults :: nat
  r_mirror_faults :: nat
  r_wall_ms :: u64
  r_link_ms :: u64
  r_service_ms :: u64
  r_exchanges :: nat
  r_clock_drops :: u32

definition cpu_ms :: "run_report \<Rightarrow> u64" where
  "cpu_ms r = saturating_sub (saturating_sub (r_wall_ms r) (r_link_ms r)) (r_service_ms r)"

definition insn_per_sec :: "run_report \<Rightarrow> u64 option" where
  "insn_per_sec r = insn_rate (r_executed r) (cpu_ms r)"

definition report_rate_line :: "run_report \<Rightarrow> string" where
  "report_rate_line r = rate_line (r_executed r) (r_wall_ms r) (r_link_ms r) (r_service_ms r)"

definition report_summary :: "run_report \<Rightarrow> string" where
  "report_summary r =
     (let num = (\<lambda>v. decimal (unat v)); nl = [CHR 0x0A]; c = r_cache r in
      describe_ending (r_ending r) @ nl @ ''instructions: '' @ num (r_executed r) @ nl @
      ''page cache: hits='' @ num (hits c) @ '' misses='' @ num (misses c) @ '' evictions='' @ num (evictions c) @
      '' writebacks='' @ num (writebacks c) @ '' declined='' @ num (declined c) @ nl @
      ''mmu walks: '' @ num (r_walks r) @ nl @ ''link: retries='' @ decimal (r_retries r) @ '' stale='' @
      decimal (r_stale r) @ '' late='' @ decimal (r_late r) @ '' pump_faults='' @ decimal (r_pump_faults r) @
      '' mirror_faults='' @ decimal (r_mirror_faults r) @ nl @ report_rate_line r @ nl @ ''exchanges: '' @
      decimal (r_exchanges r) @
      (if r_clock_drops r = 0 then []
       else nl @ ''WARNING: '' @ decimal (unat (r_clock_drops r)) @ '' dropped clock samples; the timing above is short''))"

section \<open>The loop\<close>

text \<open>The locals of \<open>run\<close>.\<close>

record run_locals =
  n_executed :: u64
  n_slices :: u64
  n_pump_faults :: nat
  n_mirror_faults :: nat
  wall :: span
  service :: span
  run_log :: "string list"

text \<open>The inner loop: an ending, or None at the end of the budget, and the count of instructions.\<close>

primrec run_slice ::
  "'t transport \<Rightarrow> (u8 \<Rightarrow> 'c \<Rightarrow> 'c) \<Rightarrow> nat \<Rightarrow> u64 \<Rightarrow> (('t, 'c) badge_machine, unit, ending option \<times> u64) sm" where
  "run_slice T put 0 ex m = (Inr (None, ex), m)"
| "run_slice T put (Suc n) ex m =
     (if pc (fst m) = 0 \<and> priv_mode (fst m) = M \<and> csr_read MTVEC (csrs (fst m)) = 0
      then (Inr (Some (EndMachineTrap (csr_read MCAUSE (csrs (fst m))) (csr_read MEPC (csrs (fst m)))
              (csr_read MTVAL (csrs (fst m)))), ex), m)
      else case poll_then_step (usb_ops T) put m of
        (Inr Shutdown, m) \<Rightarrow> (Inr (Some EndShutdown, ex + 1), m)
      | (Inr Handled, m) \<Rightarrow> run_slice T put n (ex + 1) (tick_one m)
      | (Inl Panic, m) \<Rightarrow> (Inl Panic, m)
      | (Inl (Err addr), (c, b)) \<Rightarrow>
          (case on_link take_fault b of (f, b) \<Rightarrow> (Inr (Some (EndBacking addr f), ex), (c, b))))"

text \<open>Keystrokes in, guest output out: failures are counted and the fault they leave is drained.\<close>

definition pump_console :: "'t transport \<Rightarrow> (run_locals \<times> ('t, 'c) link_bus, unit, unit) sm" where
  "pump_console T s =
     (case s of (k, b) \<Rightarrow>
      case on_link (pump T) b of
        (Inl Panic, b) \<Rightarrow> (Inl Panic, (k, b))
      | (pumped, b) \<Rightarrow>
          let (k, b) = (case pumped of
                 Inr _ \<Rightarrow> (k, b)
               | Inl _ \<Rightarrow> (k\<lparr>n_pump_faults := n_pump_faults k + 1\<rparr>, snd (on_link take_fault b)))
          in case on_link link_take_console b of
            (typed, b) \<Rightarrow> (Inr (), (k, b\<lparr>uart := fold push_input typed (uart b)\<rparr>)))"

definition on_sink :: "('c \<Rightarrow> 'c) \<Rightarrow> ('t, 'c) link_bus \<Rightarrow> ('t, 'c) link_bus" where
  "on_sink f b = b\<lparr>uart := (uart b)\<lparr>sink := f (sink (uart b))\<rparr>\<rparr>"

definition mirror_output :: "'t transport \<Rightarrow> 'c console_ops \<Rightarrow> (run_locals \<times> ('t, 'c) link_bus, unit, unit) sm" where
  "mirror_output T C s =
     (case s of (k, b) \<Rightarrow>
      case con_take C (sink (uart b)) of
        (said, c) \<Rightarrow>
          let b = on_sink (\<lambda>_. c) b in
          if said = [] then (Inr (), (k, b))
          else case on_link (send_console T said) b of
            (Inr _, b) \<Rightarrow> (Inr (), (k, b))
          | (Inl Panic, b) \<Rightarrow> (Inl Panic, (k, b))
          | (Inl (Err _), b) \<Rightarrow>
              (Inr (), (k\<lparr>n_mirror_faults := n_mirror_faults k + 1\<rparr>, snd (on_link take_fault b))))"

definition beat_and_flush :: "'c console_ops \<Rightarrow> run_config \<Rightarrow> run_locals \<times> ('t, 'c) link_bus \<Rightarrow> run_locals \<times> ('t, 'c) link_bus" where
  "beat_and_flush C cfg s =
     (case s of (k, b) \<Rightarrow>
      let k = k\<lparr>n_slices := n_slices k + 1\<rparr>;
          b = (if heartbeat_slices cfg \<noteq> 0 \<and> n_slices k mod heartbeat_slices cfg = 0
               then on_sink (con_tick C) b else b)
      in (k, on_sink (con_flush C) b))"

definition timed_service :: "(u64 option \<Rightarrow> span \<Rightarrow> span) \<Rightarrow> 't transport \<Rightarrow> run_locals \<times> ('t, 'c) link_bus \<Rightarrow> run_locals \<times> ('t, 'c) link_bus" where
  "timed_service f T s = (case s of (k, b) \<Rightarrow>
     case link_now T b of (now, b) \<Rightarrow> (k\<lparr>service := f now (service k)\<rparr>, b))"

text \<open>The throughput line, at the first reporting slice and then periodically.\<close>

definition rate_report :: "'t transport \<Rightarrow> run_locals \<times> ('t, 'c) link_bus \<Rightarrow> run_locals \<times> ('t, 'c) link_bus" where
  "rate_report T s =
     (case s of (k, b) \<Rightarrow>
      if n_slices k = FIRST_RATE_SLICE \<or> n_slices k mod RATE_SLICES = 0
      then
        let link_ms = fst (blocked (backing (cache b))) in
        case link_now T b of (now, b) \<Rightarrow>
          let so_far = (case (open_at (wall k), now) of (Some a, Some t) \<Rightarrow> saturating_sub t a | _ \<Rightarrow> 0)
          in (k\<lparr>run_log := run_log k @ [rate_line (n_executed k) so_far link_ms (total_ms (service k))]\<rparr>, b)
      else (k, b))"

definition service_block ::
  "'t transport \<Rightarrow> 'c console_ops \<Rightarrow> run_config \<Rightarrow> (run_locals \<times> ('t, 'c) link_bus, unit, unit) sm" where
  "service_block T C cfg =
     sm_bind (sm_modify (timed_service span_open T)) (\<lambda>_.
     sm_bind (pump_console T) (\<lambda>_.
     sm_bind (mirror_output T C) (\<lambda>_.
     sm_bind (sm_modify (beat_and_flush C cfg)) (\<lambda>_.
     sm_bind (sm_modify (timed_service span_close T)) (\<lambda>_.
     sm_modify (rate_report T))))))"

text \<open>
  A slice and the services after it: the run goes on (\<open>Inl\<close>) or has ended. The closure \<open>watch\<close>
  has a state of its own and may change the bus.
\<close>

type_synonym ('t, 'c, 'w) run_state = "run_locals \<times> 'w \<times> ('t, 'c) badge_machine"
type_synonym ('t, 'c, 'w) watcher = "u64 \<Rightarrow> ('t, 'c) link_bus \<Rightarrow> 'w \<Rightarrow> bool \<times> ('t, 'c) link_bus \<times> 'w"

definition run_turn ::
  "'t transport \<Rightarrow> 'c console_ops \<Rightarrow> run_config \<Rightarrow> ('t, 'c, 'w) watcher \<Rightarrow> ('t, 'c, 'w) run_state
    \<Rightarrow> ('t, 'c, 'w) run_state + (unit stop + ending) \<times> ('t, 'c, 'w) run_state" where
  "run_turn T C cfg watch s =
     (case s of (k, w, m) \<Rightarrow>
      if max_insns cfg \<le> n_executed k then Inr (Inr EndCapped, s)
      else
        case run_slice T (con_put C) (unat (min (slice_insns cfg) (max_insns cfg - n_executed k))) (n_executed k) m of
          (Inl e, m) \<Rightarrow> Inr (Inl e, (k, w, m))
        | (Inr (Some fin, ex), m) \<Rightarrow> Inr (Inr fin, (k\<lparr>n_executed := ex\<rparr>, w, m))
        | (Inr (None, ex), (c, b)) \<Rightarrow>
            (case service_block T C cfg (k\<lparr>n_executed := ex\<rparr>, b) of
               (Inl e, (k, b)) \<Rightarrow> Inr (Inl e, (k, w, (c, b)))
             | (Inr _, (k, b)) \<Rightarrow>
                 (case watch (n_executed k) b w of
                    (go, b, w) \<Rightarrow> if go then Inl (k, w, (c, b)) else Inr (Inr EndStopped, (k, w, (c, b))))))"

text \<open>With slices of no instructions the loop runs until \<open>watch\<close> stops it, so it is partial.\<close>

partial_function (option) run_loop ::
  "'t transport \<Rightarrow> 'c console_ops \<Rightarrow> run_config \<Rightarrow> ('t, 'c, 'w) watcher \<Rightarrow> ('t, 'c, 'w) run_state
    \<Rightarrow> ((unit stop + ending) \<times> ('t, 'c, 'w) run_state) option" where
  "run_loop T C cfg watch s =
     (case run_turn T C cfg watch s of Inl s' \<Rightarrow> run_loop T C cfg watch s' | Inr r \<Rightarrow> Some r)"

definition run_start :: "'t transport \<Rightarrow> ('t, 'c) link_bus \<Rightarrow> run_locals \<times> ('t, 'c) link_bus" where
  "run_start T b =
     (case link_now T b of (now, b) \<Rightarrow>
       (\<lparr>n_executed = 0, n_slices = 0, n_pump_faults = 0, n_mirror_faults = 0,
         wall = span_open now span_default, service = span_default, run_log = []\<rparr>, b))"

definition saturating_plus32 :: "u32 \<Rightarrow> u32 \<Rightarrow> u32" where
  "saturating_plus32 a b = (if unat a + unat b < 2 ^ 32 then a + b else - 1)"

definition run_finish ::
  "'t transport \<Rightarrow> 'c console_ops \<Rightarrow> ending \<Rightarrow> run_locals \<Rightarrow> ('t, 'c) badge_machine
    \<Rightarrow> (unit stop + run_report \<times> string list) \<times> ('t, 'c) badge_machine" where
  "run_finish T C fin k m =
     (case m of (c, b) \<Rightarrow>
      case link_now T b of (now, b) \<Rightarrow>
      let k = k\<lparr>wall := span_close now (wall k), run_log := run_log k @ [''rv64: '' @ describe_ending fin]\<rparr>;
          b = (if fin \<noteq> EndStopped
               then on_sink (note_line C (describe_ending fin) \<circ> note_line C []) b else b)
      in case mirror_output T C (k, b) of
           (Inl e, (k, b)) \<Rightarrow> (Inl e, (c, b))
         | (Inr _, (k, b)) \<Rightarrow>
             let l = backing (cache b);
                 r = \<lparr>r_ending = fin, r_executed = n_executed k, r_cache = cstats (cache b), r_walks = walks (mmu c),
                      r_retries = retries l, r_stale = stale_dropped l, r_late = late_dropped l,
                      r_pump_faults = n_pump_faults k, r_mirror_faults = n_mirror_faults k,
                      r_wall_ms = total_ms (wall k), r_link_ms = fst (blocked l), r_service_ms = total_ms (service k),
                      r_exchanges = snd (blocked l),
                      r_clock_drops = saturating_plus32 (span_dropped (wall k)) (span_dropped (service k))\<rparr>
             in (Inr (r, run_log k @ [report_rate_line r]), (c, b)))"

definition badge_run ::
  "'t transport \<Rightarrow> 'c console_ops \<Rightarrow> run_config \<Rightarrow> ('t, 'c, 'w) watcher \<Rightarrow> 'w \<Rightarrow> ('t, 'c) badge_machine
    \<Rightarrow> ((unit stop + run_report \<times> string list) \<times> 'w \<times> ('t, 'c) badge_machine) option" where
  "badge_run T C cfg watch w m =
     (case run_start T (snd m) of (k, b) \<Rightarrow>
        map_option (\<lambda>(r, (k, w, m)).
            case r of
              Inl e \<Rightarrow> (Inl e, w, m)
            | Inr fin \<Rightarrow> (case run_finish T C fin k m of (rep, m) \<Rightarrow> (rep, w, m)))
          (run_loop T C cfg watch (k, w, (fst m, b))))"

end
