(* ===== verification/Runner_Props.thy ===== *)
theory Runner_Props
  imports Runner
begin

text \<open>
  A run in slices is the run in one go, and the incremental search of the console is the search
  of all of it.
\<close>

section \<open>Slices\<close>

text \<open>Stopping at \<open>k\<close> instructions and going on to \<open>n\<close>.\<close>

lemma run_from_split:
  "k \<le> n \<Longrightarrow> run_from B put n ex m =
     (case run_from B put k ex m of
        (Inr (RanCapped _), m') \<Rightarrow> run_from B put n (max k ex) m'
      | r \<Rightarrow> r)"
proof (induction B put k ex m rule: run_from.induct)
  case (1 B put k ex m)
  note step = run_from.simps [of _ _ _ ex]
  show ?case
  proof (cases "dead_end (fst m) \<or> k \<le> ex")
    case True
    then show ?thesis
      by (auto simp: run_from.simps [of B put k ex] max_def) (simp_all add: step)
  next
    case False
    then have e: "\<not> dead_end (fst m)" "\<not> k \<le> ex" "\<not> n \<le> ex" using 1(2) by auto
    show ?thesis
    proof (cases "\<exists>m1. poll_then_step B put m = (Inr Handled, m1)")
      case True
      then obtain m1 where s: "poll_then_step B put m = (Inr Handled, m1)" by blast
      have "max k (ex + 1) = k" "max k ex = k"
        using unat_succ [OF e(2)] e(2) by (simp_all add: max_absorb1 word_le_nat_alt)
      then have "max k (ex + 1) = max k ex" by simp
      from 1(1) [OF e(1,2) s [symmetric] refl refl 1(2), unfolded this] e s show ?thesis
        by (simp add: step)
    next
      case False
      with e show ?thesis
        by (auto simp: step split: prod.splits sum.splits stop.splits sbi_outcome.splits)
    qed
  qed
qed

definition shifted :: "u64 \<Rightarrow> run_outcome \<Rightarrow> run_outcome" where
  "shifted d r = with_executed (d + executed r) r"

lemma shifted_simps [simp]:
  "shifted d (RanShutdown n) = RanShutdown (d + n)" "shifted d (RanCapped n) = RanCapped (d + n)"
  "shifted d (RanBackingFailure n a) = RanBackingFailure (d + n) a"
  "shifted d (RanMachineTrap n c e t) = RanMachineTrap (d + n) c e t"
  by (simp_all add: shifted_def)

text \<open>The count at the start only shifts the count of the ending.\<close>

lemma run_from_shift:
  "unat d + unat n < 2 ^ 64 \<Longrightarrow> ex \<le> n \<Longrightarrow>
   run_from B put (d + n) (d + ex) m = apfst (map_sum id (shifted d)) (run_from B put n ex m)"
proof (induction B put n ex m rule: run_from.induct)
  case (1 B put n ex m)
  have le: "d + n \<le> d + ex \<longleftrightarrow> n \<le> ex"
    using 1(2,3) by (simp add: word_le_nat_alt unat_word_ariths)
  show ?case
  proof (cases "dead_end (fst m) \<or> n \<le> ex")
    case True
    then show ?thesis using le by (auto simp: run_from.simps [of B put])
  next
    case False
    then have e: "\<not> dead_end (fst m)" "\<not> n \<le> ex" by auto
    have succ: "ex + 1 \<le> n" using unat_succ [OF e(2)] by (simp add: word_le_nat_alt)
    show ?thesis
    proof (cases "\<exists>m1. poll_then_step B put m = (Inr Handled, m1)")
      case True
      then obtain m1 where s: "poll_then_step B put m = (Inr Handled, m1)" by blast
      from 1(1) [OF e s [symmetric] refl refl 1(2) succ] e s le show ?thesis
        by (simp add: run_from.simps [of B put "d + n" "d + ex"] run_from.simps [of B put n ex] add.assoc)
    next
      case False
      with e le show ?thesis
        by (auto simp: run_from.simps [of B put "d + n" "d + ex"] run_from.simps [of B put n ex] add.assoc
            split: prod.splits sum.splits stop.splits sbi_outcome.splits)
    qed
  qed
qed

text \<open>A slice of the capturing loop, in the run as a whole.\<close>

lemma run_from_slice:
  assumes "\<not> n \<le> ex"
  defines "k \<equiv> min CONSOLE_POLL_INSNS (n - ex)"
  shows "run_from B put n ex m =
    (case run_until B put k m of
       (Inr (RanCapped _), m') \<Rightarrow> run_from B put n (ex + k) m'
     | (r, m') \<Rightarrow> (map_sum id (shifted ex) r, m'))"
proof -
  note p = poll_size [OF assms(1), folded k_def]
  have "unat ex + unat k < 2 ^ 64"
    by (rule le_less_trans [OF p(3)], rule order_less_le_trans [OF unsigned_less]) simp
  from run_from_shift [OF this, of 0 B put m]
  have "run_from B put (ex + k) ex m = apfst (map_sum id (shifted ex)) (run_until B put k m)"
    by (simp add: run_until_def)
  moreover have "ex + k \<le> n" "max (ex + k) ex = ex + k" using p by (simp_all add: word_le_nat_alt max_def)
  ultimately show ?thesis
    using run_from_split [of "ex + k" n B put ex m]
    by (auto split: prod.splits sum.splits run_outcome.splits)
qed

lemma slice_within:
  assumes "\<not> n \<le> ex"
  defines "k \<equiv> min CONSOLE_POLL_INSNS (n - ex)"
  assumes l: "ex + k \<le> l" "l \<le> n" and u: "run_until B put k m = (Inr (RanCapped k), m1)"
  shows "run_from B put l ex m = run_from B put l (ex + k) m1"
proof -
  note p = poll_size [OF assms(1), folded k_def]
  have "unat ex + unat k < 2 ^ 64"
    by (rule le_less_trans [OF p(3)], rule order_less_le_trans [OF unsigned_less]) simp
  from run_from_shift [OF this, of 0 B put m] u
  have "run_from B put (ex + k) ex m = (Inr (RanCapped (ex + k)), m1)" by (simp add: run_until_def)
  moreover have "max (ex + k) ex = ex + k" using p(1) by (simp add: word_le_nat_alt max_absorb1)
  ultimately show ?thesis using run_from_split [OF l(1), of B put ex m] by simp
qed

section \<open>The console\<close>

lemma has_window_sublist: "has_window marker xs \<longleftrightarrow> sublist marker xs"
proof
  assume "has_window marker xs"
  then obtain i where "slice i (length marker) xs = marker" by (auto simp: has_window_def list_ex_iff)
  then have "xs = take i xs @ marker @ drop (length marker) (drop i xs)"
    by (metis append_take_drop_id slice_def)
  then show "sublist marker xs" by (metis sublist_appendI)
next
  assume "sublist marker xs"
  then obtain ps qs where "xs = ps @ marker @ qs" by (auto simp: sublist_def)
  then have "slice (length ps) (length marker) xs = marker" "length ps < length xs + 1 - length marker"
    by (simp_all add: slice_def)
  then show "has_window marker xs" by (auto simp: has_window_def list_ex_iff intro!: bexI [of _ "length ps"])
qed

lemma console_reached_found:
  "console_reached out marker scanned = (Inr True, s) \<Longrightarrow> sublist marker out"
  by (auto simp: console_reached_def has_window_sublist split: if_splits intro: sublist_order.order.trans sublist_drop)

text \<open>What the loop returns, against the run it cuts into slices.\<close>

definition ran_as :: "'b backing_ops \<Rightarrow> u64 \<Rightarrow> u8 list \<Rightarrow> u64 \<Rightarrow> ('b, u8 list) machine
    \<Rightarrow> run_outcome option \<Rightarrow> u64 \<Rightarrow> ('b, u8 list) machine \<Rightarrow> (u8 \<Rightarrow> u8 list \<Rightarrow> u8 list) \<Rightarrow> bool" where
  "ran_as B n marker ex m ending done m' put \<longleftrightarrow>
     (case ending of
        Some r \<Rightarrow> run_from B put n ex m = (Inr r, m') \<and> executed r = done
      | None \<Rightarrow> run_from B put done ex m = (Inr (RanCapped done), m') \<and> ex \<le> done \<and> done \<le> n \<and>
          sublist marker (sink (uart (snd m'))))"

lemma boot_loop_run:
  "boot_loop B put n marker ex scanned m = (Inr (ending, done), m') \<Longrightarrow> ex \<le> n \<Longrightarrow>
   (n \<le> ex \<Longrightarrow> \<not> dead_end (fst m)) \<Longrightarrow> ran_as B n marker ex m ending done m' put"
proof (induction B put n marker ex scanned m rule: boot_loop.induct)
  case (1 B put n marker ex scanned m)
  let ?k = "min CONSOLE_POLL_INSNS (n - ex)"
  show ?case
  proof (cases "n \<le> ex")
    case True
    with 1(2-4) show ?thesis
      by (auto simp: boot_loop.simps [of _ _ _ _ ex] ran_as_def) (simp add: run_from.simps)
  next
    case False
    note p = poll_size [OF False] and sl = run_from_slice [OF False, of B put m]
    obtain r m1 where u: "run_until B put ?k m = (r, m1)" by (metis surj_pair)
    show ?thesis
    proof (cases "\<exists>c. r = Inr (RanCapped c)")
      case True
      then have r: "r = Inr (RanCapped ?k)" and live: "\<not> dead_end (fst m1)"
        using run_from_capped [of B put ?k 0 m] u by (auto simp: run_until_def)
      obtain q sc where c: "console_reached (sink (uart (snd m1))) marker scanned = (q, sc)" by fastforce
      have le: "ex + ?k \<le> n" using p by (simp add: word_le_nat_alt)
      have whole: "run_from B put l ex m = run_from B put l (ex + ?k) m1" if l: "ex + ?k \<le> l" "l \<le> n" for l
        using slice_within [OF False l u [unfolded r]] .
      have b: "boot_loop B put n marker ex scanned m =
          (case q of Inl e \<Rightarrow> (Inl e, m1)
           | Inr found \<Rightarrow> if found then (Inr (None, ex + ?k), m1) else boot_loop B put n marker (ex + ?k) sc m1)"
        using False u r c by (simp add: boot_loop.simps [of _ _ _ _ ex] split: sum.split)
      show ?thesis
      proof (cases "q = Inr True")
        case True
        then have res: "ending = None" "done = ex + ?k" "m' = m1" using 1(2) b by simp_all
        have "sublist marker (sink (uart (snd m1)))" using c True console_reached_found by blast
        then show ?thesis
          using res le p(1) live whole [of "ex + ?k"]
          by (auto simp: ran_as_def run_from.simps [of _ _ "ex + ?k" "ex + ?k"] word_le_nat_alt)
      next
        case False
        with b 1(2) have q: "q = Inr False" and r2: "boot_loop B put n marker (ex + ?k) sc m1 = (Inr (ending, done), m')"
          by (auto split: sum.splits if_splits)
        have "ran_as B n marker (ex + ?k) m1 ending done m' put"
          using 1(1) [OF \<open>\<not> n \<le> ex\<close> u [symmetric] r _ refl] c q r2 le live by simp
        then show ?thesis
          using whole le p(1) by (auto simp: ran_as_def word_le_nat_alt split: option.splits)
      qed
    next
      case False
      with 1(2) \<open>\<not> n \<le> ex\<close> u sl show ?thesis
        by (auto simp: boot_loop.simps [of _ _ _ _ ex] ran_as_def shifted_def Let_def split: sum.splits run_outcome.splits)
    qed
  qed
qed

section \<open>How a run ends\<close>

definition ends_well :: "u64 \<Rightarrow> run_outcome \<Rightarrow> cpu \<Rightarrow> bool" where
  "ends_well n r c \<longleftrightarrow> executed r \<le> n \<and>
     (case r of
        RanCapped k \<Rightarrow> k = n \<and> \<not> dead_end c
      | RanMachineTrap _ cause epc tval \<Rightarrow> dead_end c \<and> cause = csr_read MCAUSE (csrs c) \<and>
          epc = csr_read MEPC (csrs c) \<and> tval = csr_read MTVAL (csrs c)
      | _ \<Rightarrow> True)"

context total_backing
begin

lemma poll_then_step_ok:
  assumes "machine_ok contents binv m"
  shows "case poll_then_step B put m of (r, m') \<Rightarrow> r \<noteq> Inl Panic \<and> machine_ok contents binv m'"
proof -
  have "machine_ok contents binv (check_interrupts (snd m) (fst m), snd m)"
    using assms by (simp add: machine_ok_def hart_ok_interrupts)
  from step_trapping_ok [OF this, of put] show ?thesis by (simp add: poll_then_step_def)
qed

lemma run_from_ok:
  "machine_ok contents binv m \<Longrightarrow> ex \<le> n \<Longrightarrow> run_from B put n ex m = (r, m') \<Longrightarrow>
   machine_ok contents binv m' \<and> (\<exists>q. r = Inr q \<and> ends_well n q (fst m'))"
proof (induction "unat n - unat ex" arbitrary: ex m rule: less_induct)
  case less
  note step = run_from.simps [of B put n ex m]
  show ?case
  proof (cases "dead_end (fst m) \<or> n \<le> ex")
    case True
    with less.prems show ?thesis by (auto simp: step ends_well_def split: if_splits)
  next
    case False
    then have e: "\<not> dead_end (fst m)" "\<not> n \<le> ex" by auto
    note succ = unat_succ [OF e(2)]
    then have le: "ex + 1 \<le> n" by (simp add: word_le_nat_alt)
    obtain q m1 where s: "poll_then_step B put m = (q, m1)" by (metis surj_pair)
    with poll_then_step_ok [OF less.prems(1), of put] have ok: "q \<noteq> Inl Panic" "machine_ok contents binv m1" by simp_all
    show ?thesis
    proof (cases "q = Inr Handled")
      case True
      have "machine_ok contents binv (tick_one m1)" using ok(2) by (simp add: machine_ok_def tick_one_def)
      moreover have "run_from B put n (ex + 1) (tick_one m1) = (r, m')" using less.prems(3) e s True by (simp add: step)
      ultimately show ?thesis using less.hyps [of "ex + 1" "tick_one m1"] succ le by (simp add: diff_less_mono2)
    next
      case False
      with less.prems(2,3) e s ok le show ?thesis
        by (auto simp: step ends_well_def split: sum.splits stop.splits sbi_outcome.splits)
    qed
  qed
qed

end

section \<open>The endings, turn by turn\<close>

text \<open>The boot turn by turn, as a relation: \<open>k\<close> turns in a row that were each handled outside the dead end.\<close>

definition handled_turn ::
  "'b backing_ops \<Rightarrow> (u8 \<Rightarrow> 's \<Rightarrow> 's) \<Rightarrow> ('b, 's) machine \<Rightarrow> ('b, 's) machine \<Rightarrow> bool" where
  "handled_turn B put m m' \<longleftrightarrow>
     \<not> dead_end (fst m) \<and> (\<exists>m1. poll_then_step B put m = (Inr Handled, m1) \<and> m' = tick_one m1)"

text \<open>
  The last turn: \<open>k\<close> instructions were executed, the machine is \<open>m\<close>, and the run over at most \<open>n\<close>
  instructions ends there with \<open>r\<close>, leaving \<open>m'\<close>.
\<close>

definition last_turn ::
  "'b backing_ops \<Rightarrow> (u8 \<Rightarrow> 's \<Rightarrow> 's) \<Rightarrow> u64 \<Rightarrow> nat \<Rightarrow> ('b, 's) machine \<Rightarrow> run_outcome \<Rightarrow> ('b, 's) machine \<Rightarrow> bool" where
  "last_turn B put n k m r m' \<longleftrightarrow>
     (case r of
        RanMachineTrap e cause epc tval \<Rightarrow> dead_end (fst m) \<and> m' = m \<and> unat e = k \<and>
          cause = csr_read MCAUSE (csrs (fst m)) \<and> epc = csr_read MEPC (csrs (fst m)) \<and> tval = csr_read MTVAL (csrs (fst m))
      | RanCapped e \<Rightarrow> \<not> dead_end (fst m) \<and> m' = m \<and> unat e = k \<and> k = unat n
      | RanShutdown e \<Rightarrow> \<not> dead_end (fst m) \<and> k < unat n \<and> unat e = k + 1 \<and> poll_then_step B put m = (Inr Shutdown, m')
      | RanBackingFailure e a \<Rightarrow> \<not> dead_end (fst m) \<and> k < unat n \<and> unat e = k \<and> poll_then_step B put m = (Inl (Err a), m'))"

definition ends_as ::
  "'b backing_ops \<Rightarrow> (u8 \<Rightarrow> 's \<Rightarrow> 's) \<Rightarrow> u64 \<Rightarrow> ('b, 's) machine \<Rightarrow> run_outcome \<Rightarrow> ('b, 's) machine \<Rightarrow> bool" where
  "ends_as B put n m r m' \<longleftrightarrow>
     (\<exists>k m1. (handled_turn B put ^^ k) m m1 \<and> k \<le> unat n \<and> last_turn B put n k m1 r m')"

lemma run_from_turns:
  "(handled_turn B put ^^ k) m m1 \<Longrightarrow> unat ex + k \<le> unat n \<Longrightarrow>
   run_from B put n ex m = run_from B put n (ex + of_nat k) m1 \<and> unat (ex + of_nat k) = unat ex + k"
proof (induction k arbitrary: ex m)
  case (Suc k)
  obtain m2 where m2: "handled_turn B put m m2" "(handled_turn B put ^^ k) m2 m1"
    using Suc.prems(1) by (meson relpowp_Suc_D2)
  then obtain m3 where s: "\<not> dead_end (fst m)" "poll_then_step B put m = (Inr Handled, m3)" "m2 = tick_one m3"
    by (auto simp: handled_turn_def)
  have lt: "\<not> n \<le> ex" using Suc.prems(2) by (simp add: word_le_nat_alt)
  note u = unat_succ [OF lt]
  have "run_from B put n ex m = run_from B put n (ex + 1) m2" using s lt by (simp add: run_from.simps [of _ _ _ ex])
  with Suc.IH [OF m2(2), of "ex + 1"] Suc.prems(2) u show ?case by (simp add: add.assoc)
qed simp

lemma turns_end:
  fixes ex n :: u64
  shows "unat ex \<le> unat n \<Longrightarrow> \<exists>k m1. (handled_turn B put ^^ k) m m1 \<and> unat ex + k \<le> unat n \<and>
     (dead_end (fst m1) \<or> unat ex + k = unat n \<or> fst (poll_then_step B put m1) \<noteq> Inr Handled)"
proof (induction "unat n - unat ex" arbitrary: ex m rule: less_induct)
  case less
  show ?case
  proof (cases "dead_end (fst m) \<or> unat ex = unat n \<or> fst (poll_then_step B put m) \<noteq> Inr Handled")
    case True
    with less.prems show ?thesis by (intro exI [of _ 0] exI [of _ m]) auto
  next
    case False
    then obtain m1 where s: "handled_turn B put m (tick_one m1)" unfolding handled_turn_def by (metis fst_eqD surj_pair)
    have lt: "\<not> n \<le> ex" using False less.prems by (simp add: word_le_nat_alt)
    note u = unat_succ [OF lt]
    obtain k m2 where k: "(handled_turn B put ^^ k) (tick_one m1) m2" "unat (ex + 1) + k \<le> unat n"
        "dead_end (fst m2) \<or> unat (ex + 1) + k = unat n \<or> fst (poll_then_step B put m2) \<noteq> Inr Handled"
      using less.hyps [of "ex + 1" "tick_one m1"] u by fastforce
    show ?thesis using u k relpowp_Suc_I2 [of "handled_turn B put", OF s k(1)]
      by (intro exI [of _ "Suc k"] exI [of _ m2]) simp
  qed
qed

lemma run_from_end:
  assumes "ex \<le> n" and "dead_end (fst m) \<or> n = ex \<or> fst (poll_then_step B put m) \<noteq> Inr Handled"
  shows "run_from B put n ex m = (Inr r, m') \<longleftrightarrow> last_turn B put n (unat ex) m r m'"
proof -
  have e: "unat a = unat ex \<longleftrightarrow> a = ex" for a by (simp add: word_unat_eq_iff)
  show ?thesis
  proof (cases "dead_end (fst m) \<or> n \<le> ex")
    case True
    then show ?thesis using assms(1) e
      by (cases r) (auto simp: run_from.simps [of _ _ _ ex] last_turn_def word_less_nat_alt word_le_nat_alt)
  next
    case False
    then have lt: "\<not> n \<le> ex" by simp
    note u = unat_succ [OF lt]
    have s: "unat a = Suc (unat ex) \<longleftrightarrow> a = ex + 1" for a using u by (simp add: word_unat_eq_iff)
    have "n \<noteq> ex" "unat ex \<noteq> unat n" using lt by (auto simp: word_le_nat_alt)
    with False assms(2) e s u lt show ?thesis
      by (cases r) (auto simp: run_from.simps [of _ _ _ ex] last_turn_def split: prod.splits sum.splits stop.splits sbi_outcome.splits)
  qed
qed

lemma last_turn_end:
  "last_turn B put n k m r m' \<Longrightarrow> dead_end (fst m) \<or> k = unat n \<or> fst (poll_then_step B put m) \<noteq> Inr Handled"
  by (cases r) (auto simp: last_turn_def)

lemma run_until_ends_as: "run_until B put n m = (Inr r, m') \<longleftrightarrow> ends_as B put n m r m'"
proof
  assume r: "run_until B put n m = (Inr r, m')"
  obtain k m1 where k: "(handled_turn B put ^^ k) m m1" "k \<le> unat n"
      "dead_end (fst m1) \<or> k = unat n \<or> fst (poll_then_step B put m1) \<noteq> Inr Handled"
    using turns_end [of 0 n B put m] by auto
  from run_from_turns [OF k(1), of 0 n] k(2) r
  have w: "run_from B put n (of_nat k) m1 = (Inr r, m')" "unat (of_nat k :: u64) = k" by (simp_all add: run_until_def)
  have "of_nat k \<le> n" "k = unat n \<longleftrightarrow> n = of_nat k" using k(2) w(2) by (auto simp: word_le_nat_alt)
  with run_from_end [of "of_nat k" n m1 B put r m'] k(3) w have "last_turn B put n k m1 r m'" by auto
  with k show "ends_as B put n m r m'" unfolding ends_as_def by blast
next
  assume "ends_as B put n m r m'"
  then obtain k m1 where k: "(handled_turn B put ^^ k) m m1" "k \<le> unat n" "last_turn B put n k m1 r m'"
    by (auto simp: ends_as_def)
  note w = run_from_turns [OF k(1), of 0 n]
  have u: "unat (of_nat k :: u64) = k" using w k(2) by simp
  have "of_nat k \<le> n" "k = unat n \<longleftrightarrow> n = of_nat k" using k(2) u by (auto simp: word_le_nat_alt)
  with run_from_end [of "of_nat k" n m1 B put r m'] last_turn_end [OF k(3)] k u w show "run_until B put n m = (Inr r, m')"
    by (simp add: run_until_def)
qed
section \<open>Properties\<close>

text \<open>Property C19 (run_until_ends_well): the boot loop always returns, without a panic, with the machine
  still well formed and after at most the instructions it was allowed; and it returns an ending
  exactly when the boot, turn by turn, comes to it: a machine trap when some turns, all handled,
  lead into the dead end, with their number and the trap registers as they are there; the cap when
  all the turns allowed were handled and the hart can go on; the shutdown when the guest asks for it
  in the next turn, which is counted; a backing failure, at its address, when the next turn meets
  one, which is not counted.\<close>

theorem run_until_ends_well:
  assumes "total_backing B contents binv" and "machine_ok contents binv m"
  shows "(\<exists>r m'. run_until B put n m = (Inr r, m') \<and> machine_ok contents binv m' \<and> executed r \<le> n) \<and>
    (\<forall>r m'. run_until B put n m = (Inr r, m') \<longleftrightarrow>
       (\<exists>k m1. (handled_turn B put ^^ k) m m1 \<and> k \<le> unat n \<and> last_turn B put n k m1 r m'))"
proof -
  obtain r m' where r: "run_until B put n m = (r, m')" by (metis surj_pair)
  with total_backing.run_from_ok [OF assms, of 0 n put r m']
  obtain q where "r = Inr q" "machine_ok contents binv m'" "executed q \<le> n" by (auto simp: run_until_def ends_well_def)
  with r have "\<exists>r m'. run_until B put n m = (Inr r, m') \<and> machine_ok contents binv m' \<and> executed r \<le> n" by blast
  then show ?thesis using run_until_ends_as [of B put n m] unfolding ends_as_def by simp
qed

lemma run_until_ends_well_witness:
  "case cache_new demo_backing 4 of Inr c \<Rightarrow>
     \<exists>r m'. run_until fake_ops vec_put 3 (demo_machine c) = (Inr r, m') \<and> executed r \<le> 3
   | Inl _ \<Rightarrow> False"
proof -
  obtain c where c: "cache_new demo_backing 4 = Inr c" "cache_inv fake_contents fake_inv c" by (rule demo_cache)
  from run_until_ends_well [OF fake.total_backing_axioms demo_machine_ok [OF c(2)], where put = vec_put and n = 3]
  have "\<exists>r m'. run_until fake_ops vec_put 3 (demo_machine c) = (Inr r, m') \<and> executed r \<le> 3" by blast
  with c(1) show ?thesis by simp
qed

text \<open>Watching the console in slices of a boot does not change
  the boot. If the marker never shows, the loop ends exactly as the uninterrupted run of the
  same instruction budget does, in the same machine state and with the same count; if it shows, the
  loop stops in the state of the run capped at the count it reports, and the marker is on the
  console.\<close>

theorem capturing_boot_is_one_run:
  assumes "boot_loop B put n marker 0 0 m = (Inr (ending, done), m')" and "0 < n"
  shows "case ending of
      Some r \<Rightarrow> run_until B put n m = (Inr r, m') \<and> executed r = done
    | None \<Rightarrow> run_until B put done m = (Inr (RanCapped done), m') \<and> done \<le> n \<and> sublist marker (sink (uart (snd m')))"
  using boot_loop_run [OF assms(1)] assms(2) by (auto simp: ran_as_def run_until_def split: option.splits)

text \<open>A hart started where no handler is: the boot ends at once with the machine trap.\<close>

lemma capturing_boot_is_one_run_witness:
  "\<forall>b :: (fake_backing, u8 list) bus.
     run_until fake_ops vec_put 5 (cpu_new 0, b) = (Inr (RanMachineTrap 0 0 0 0), (cpu_new 0, b))"
proof
  fix b :: "(fake_backing, u8 list) bus"
  have z: "csr_read a csrs_default = 0" if "a \<in> {MTVEC, MCAUSE, MEPC, MTVAL}" for a
    using that by (elim insertE emptyE) (simp_all add: csr_read_def csrs_default_def)
  have "run_until fake_ops vec_put 5 (cpu_new 0, b) = (Inr (RanMachineTrap 0 0 0 0), (cpu_new 0, b))" if "min 100000 5 = (5 :: u64)"
    by (simp add: run_until_def run_from.simps dead_end_def cpu_new_def z)
  then have "boot_loop fake_ops vec_put 5 [0x23] 0 0 (cpu_new 0, b) =
      (Inr (Some (RanMachineTrap 0 0 0 0), 0), (cpu_new 0, b))"
    by (simp add: boot_loop.simps min_def word_le_nat_alt)
  from capturing_boot_is_one_run [OF this]
  show "run_until fake_ops vec_put 5 (cpu_new 0, b) = (Inr (RanMachineTrap 0 0 0 0), (cpu_new 0, b))" by simp
qed

text \<open>The search of the console that resumes where the last one
  stopped finds the marker exactly when it is anywhere in the output, also when it straddles the
  two polls, and never panics.\<close>

theorem console_reached_is_search:
  assumes "marker \<noteq> []" and "\<not> sublist marker before"
  shows "console_reached (before @ new) marker (length before - (length marker - 1)) =
    (Inr (sublist marker (before @ new)), length (before @ new) - (length marker - 1))"
proof -
  let ?s = "length before - (length marker - 1)"
  have "sublist marker (drop ?s (before @ new))" if sub: "sublist marker (before @ new)"
  proof -
    obtain ps qs where e: "before @ new = ps @ marker @ qs" using sub by (auto simp: sublist_def)
    show ?thesis
    proof (cases "length ps + length marker \<le> length before")
      case True
      have "before = take (length before) (ps @ marker @ qs)" by (simp flip: e)
      also have "\<dots> = ps @ marker @ take (length before - (length ps + length marker)) qs" using True by simp
      finally have "sublist marker before" by (metis sublist_appendI)
      with assms(2) show ?thesis by simp
    next
      case False
      then have "?s \<le> length ps" using assms(1) by (cases marker) auto
      then have "drop ?s (before @ new) = drop ?s ps @ marker @ qs" by (simp add: e del: drop_append) simp
      then show ?thesis by (metis sublist_appendI)
    qed
  qed
  then have "sublist marker (drop ?s (before @ new)) \<longleftrightarrow> sublist marker (before @ new)"
    using sublist_order.order.trans sublist_drop by blast
  then show ?thesis using assms(1) by (simp add: console_reached_def has_window_sublist)
qed

lemma console_reached_is_search_witness:
  "console_reached ([0x7E] @ [0x20, 0x23]) [0x7E, 0x20, 0x23] 0 = (Inr True, 1)"
proof -
  have "\<not> sublist [0x7E, 0x20, 0x23] [0x7E :: u8]" by (auto dest: sublist_length_le)
  from console_reached_is_search [OF _ this, of "[0x20, 0x23]"] show ?thesis by simp
qed

end
