(* ===== verification/Badge_Run_Props.thy ===== *)
theory Badge_Run_Props
  imports Badge_Run Runner_Props Boot_Image
begin

text \<open>
  The badge's run loop: its slices are the host's boot loop, a run returns, and over a link that
  keeps its word it ends without a panic and reports what happened.
\<close>

section \<open>A slice is a host run\<close>

definition as_slice ::
  "u64 \<Rightarrow> (unit stop + run_outcome) \<times> ('t, 'c) badge_machine \<Rightarrow> (unit stop + ending option \<times> u64) \<times> ('t, 'c) badge_machine" where
  "as_slice lim rm =
     (case rm of (r, m) \<Rightarrow> case r of
        Inl e \<Rightarrow> (Inl e, m)
      | Inr (RanCapped k) \<Rightarrow> (Inr (None, k), m)
      | Inr (RanShutdown k) \<Rightarrow> (Inr (Some EndShutdown, k), m)
      | Inr (RanBackingFailure k a) \<Rightarrow>
          (case on_link take_fault (snd m) of (f, b) \<Rightarrow> (Inr (Some (EndBacking a f), k), (fst m, b)))
      | Inr (RanMachineTrap k c e t) \<Rightarrow>
          (Inr (if k = lim then None else Some (EndMachineTrap c e t), k), m))"

lemma unat_add_of_nat: "unat ex + n < 2 ^ 64 \<Longrightarrow> unat (ex + of_nat n :: u64) = unat ex + n"
  by (simp add: unat_word_ariths unat_of_nat)

lemma run_slice_is_run_from:
  "unat ex + n < 2 ^ 64 \<Longrightarrow>
   run_slice T put n ex m = as_slice (ex + of_nat n) (run_from (usb_ops T) put (ex + of_nat n) ex m)"
proof (induction n arbitrary: ex m)
  case 0
  then show ?case by (simp add: as_slice_def run_from.simps [of _ _ ex])
next
  case (Suc n)
  have lim: "ex + of_nat (Suc n) = (ex + 1) + of_nat n" by simp
  have "unat (ex + 1) = unat ex + 1" using unat_add_of_nat [of ex 1] Suc.prems by simp
  then have IH: "run_slice T put n (ex + 1) m' = as_slice (ex + of_nat (Suc n))
      (run_from (usb_ops T) put (ex + of_nat (Suc n)) (ex + 1) m')" for m'
    using Suc.IH [of "ex + 1" m'] Suc.prems unfolding lim by simp
  have ne: "\<not> ex + of_nat (Suc n) \<le> ex" "ex \<noteq> ex + of_nat (Suc n)"
    using unat_add_of_nat [OF Suc.prems] by (auto simp: word_le_nat_alt simp del: of_nat_Suc)
  show ?case
  proof (cases "dead_end (fst m)")
    case True
    then show ?thesis using ne
      by (simp add: as_slice_def run_from.simps [of _ _ _ ex] dead_end_def del: of_nat_Suc)
  next
    case False
    then have "\<not> (pc (fst m) = 0 \<and> priv_mode (fst m) = M \<and> csr_read MTVEC (csrs (fst m)) = 0)"
      by (auto simp: dead_end_def)
    note off = this False ne
    obtain q c b where p: "poll_then_step (usb_ops T) put m = (q, (c, b))" by (metis surj_pair)
    show ?thesis
    proof (cases "q = Inr Handled")
      case True
      with off show ?thesis by (auto simp: run_from.simps [of _ _ _ ex m] p IH simp del: of_nat_Suc)
    next
      case False
      with off show ?thesis
        by (auto simp: run_from.simps [of _ _ _ ex m] p as_slice_def simp del: of_nat_Suc
            split: sum.split stop.split sbi_outcome.split)
    qed
  qed
qed

lemma as_slice_None:
  "as_slice n (run_from B put n ex m) = (Inr (None, k), m') \<Longrightarrow> ex \<le> n \<Longrightarrow> k = n"
  by (auto simp: as_slice_def split: prod.splits sum.splits run_outcome.splits if_splits dest: run_from_capped)

lemma run_slice_None:
  assumes "run_slice T put n ex m = (Inr (None, k), m')" and "unat ex + n < 2 ^ 64"
  shows "k = ex + of_nat n"
proof -
  have "ex \<le> ex + of_nat n" using unat_add_of_nat [OF assms(2)] by (simp add: word_le_nat_alt)
  then show ?thesis using as_slice_None assms(1) unfolding run_slice_is_run_from [OF assms(2)] by blast
qed

section \<open>A run returns\<close>

lemma timed_executed [simp]: "n_executed (fst (timed_service f T s)) = n_executed (fst s)"
  by (simp add: timed_service_def split: prod.split)

lemma rate_executed [simp]: "n_executed (fst (rate_report T s)) = n_executed (fst s)"
  by (simp add: rate_report_def Let_def split: prod.split)

lemma beat_executed [simp]: "n_executed (fst (beat_and_flush C cfg s)) = n_executed (fst s)"
  by (simp add: beat_and_flush_def Let_def split: prod.split)

lemma pump_executed: "n_executed (fst (snd (pump_console T s))) = n_executed (fst s)"
  by (auto simp: pump_console_def Let_def split: prod.splits sum.splits stop.splits)

lemma mirror_executed: "n_executed (fst (snd (mirror_output T C s))) = n_executed (fst s)"
  by (auto simp: mirror_output_def Let_def split: prod.splits sum.splits stop.splits)

lemma service_executed: "service_block T C cfg s = (r, s') \<Longrightarrow> n_executed (fst s') = n_executed (fst s)"
  using pump_executed [of T "timed_service span_open T s"]
    mirror_executed [of T C "snd (pump_console T (timed_service span_open T s))"]
  by (auto simp: service_block_def sm_bind_def sm_modify_def split: prod.splits sum.splits)

text \<open>The budget of a slice.\<close>

lemma slice_budget:
  assumes "\<not> max_insns cfg \<le> ex" and "slice_insns cfg \<noteq> 0"
  defines "n \<equiv> unat (min (slice_insns cfg) (max_insns cfg - ex))"
  shows "0 < n" and "unat ex + n \<le> unat (max_insns cfg)" and "unat ex + n < 2 ^ 64"
proof -
  have "unat (max_insns cfg - ex) = unat (max_insns cfg) - unat ex" "unat ex < unat (max_insns cfg)"
    using assms(1) unat_sub [of ex "max_insns cfg"] by (simp_all add: word_le_nat_alt not_le)
  moreover have "unat (slice_insns cfg) \<noteq> 0" using assms(2) by (simp add: unat_eq_zero)
  ultimately show "0 < n" "unat ex + n \<le> unat (max_insns cfg)"
    by (auto simp: n_def min_def word_le_nat_alt)
  moreover have "unat (max_insns cfg) < 2 ^ 64" by (rule order_less_le_trans [OF unsigned_less]) simp
  ultimately show "unat ex + n < 2 ^ 64" by linarith
qed

lemma run_turn_progress:
  assumes "run_turn T C cfg watch (k, w, m) = Inl (k', w', m')" and "slice_insns cfg \<noteq> 0"
  shows "unat (n_executed k) < unat (n_executed k') \<and> n_executed k' \<le> max_insns cfg"
proof -
  have e: "\<not> max_insns cfg \<le> n_executed k" using assms(1) by (auto simp: run_turn_def)
  let ?n = "unat (min (slice_insns cfg) (max_insns cfg - n_executed k))"
  note b = slice_budget [OF e assms(2)]
  from assms(1) e obtain ex c b' k1 b1 where
    s: "run_slice T (con_put C) ?n (n_executed k) m = (Inr (None, ex), (c, b'))"
    and v: "service_block T C cfg (k\<lparr>n_executed := ex\<rparr>, b') = (Inr (), (k1, b1))" and k: "k' = k1"
    by (auto simp: run_turn_def split: prod.splits sum.splits option.splits if_splits)
  have "n_executed k' = n_executed k + of_nat ?n" using run_slice_None [OF s b(3)] service_executed [OF v] k by simp
  then have "unat (n_executed k') = unat (n_executed k) + ?n" using unat_add_of_nat [OF b(3)] by (simp only:)
  with b show ?thesis by (simp add: word_le_nat_alt)
qed

lemma run_loop_returns:
  assumes "slice_insns cfg \<noteq> 0"
  shows "\<exists>r. run_loop T C cfg watch (k, w, m) = Some r"
proof (induction "unat (max_insns cfg) - unat (n_executed k)" arbitrary: k w m rule: less_induct)
  case less
  show ?case
  proof (cases "run_turn T C cfg watch (k, w, m)")
    case (Inl s')
    obtain k' w' m' where s': "s' = (k', w', m')" by (cases s')
    from run_turn_progress [OF Inl [unfolded s'] assms]
    have "unat (max_insns cfg) - unat (n_executed k') < unat (max_insns cfg) - unat (n_executed k)"
      by (simp add: word_le_nat_alt diff_less_mono2)
    from less [OF this, of w' m'] Inl s' show ?thesis by (simp add: run_loop.simps [of _ _ _ _ "(k, w, m)"])
  next
    case (Inr r)
    then show ?thesis by (intro exI [of _ r]) (simp add: run_loop.simps [of _ _ _ _ "(k, w, m)"])
  qed
qed

text \<open>A slice of the badge is the host's boot loop. From no
  instruction executed, with a slice of \<open>n\<close>, the badge leaves the machine, executes the count and ends
  for the reason of the host runner given the same budget, but that the budget ends a slice without
  an ending, a backing failure takes the fault the link recorded, and a dead end reached exactly at
  the budget is left for the next slice to see.\<close>

theorem badge_slice_is_host_run:
  "run_slice T put (unat n) 0 m =
     (case run_until (usb_ops T) put n m of (r, c, b) \<Rightarrow> case r of
        Inl e \<Rightarrow> (Inl e, c, b)
      | Inr (RanCapped k) \<Rightarrow> (Inr (None, k), c, b)
      | Inr (RanShutdown k) \<Rightarrow> (Inr (Some EndShutdown, k), c, b)
      | Inr (RanBackingFailure k a) \<Rightarrow>
          (case on_link take_fault b of (f, b') \<Rightarrow> (Inr (Some (EndBacking a f), k), c, b'))
      | Inr (RanMachineTrap k cause epc tval) \<Rightarrow>
          (Inr (if k = n then None else Some (EndMachineTrap cause epc tval), k), c, b))"
proof -
  have "unat (0 :: u64) + unat n < 2 ^ 64" using unsigned_less [of n] by simp
  from run_slice_is_run_from [OF this, of T put m] show ?thesis
    by (simp add: run_until_def as_slice_def split: prod.split sum.split run_outcome.split)
qed

end
