(* ===== verification/Badge_Link.thy ===== *)
theory Badge_Link
  imports Badge_Run_Props
begin

text \<open>
  What the run loop needs of its link, as an interface: page operations that are a backing store,
  and calls on the handle that leave the store alone. Over any such link the loop never panics and
  its report is true, and the badge finds the kernel and the device tree where the host put them.
\<close>

section \<open>The interface\<close>

definition link_keeps :: "('l \<Rightarrow> bool) \<Rightarrow> ('l \<Rightarrow> 'p) \<Rightarrow> ('l \<Rightarrow> 'a \<times> 'l) \<Rightarrow> bool" where
  "link_keeps binv contents f \<longleftrightarrow> (\<forall>l. binv l \<longrightarrow> binv (snd (f l)) \<and> contents (snd (f l)) = contents l)"

locale page_link = total_backing "usb_ops T" contents binv
  for T :: "'t transport" and contents and binv +
  assumes fault_keeps: "link_keeps binv contents take_fault"
    and console_keeps: "link_keeps binv contents link_take_console"
    and clock_keeps: "link_keeps binv contents (on_transport (now_ms T))"
    and pump_keeps: "link_keeps binv contents (pump T)"
    and send_keeps: "link_keeps binv contents (send_console T bs)"
    and pump_no_panic: "binv l \<Longrightarrow> fst (pump T l) \<noteq> Inl Panic"

text \<open>A watcher that looks at the bus without storing to guest memory.\<close>

definition leaves_memory :: "('t, 'c, 'w) watcher \<Rightarrow> bool" where
  "leaves_memory watch \<longleftrightarrow> (\<forall>n b w. cache (fst (snd (watch n b w))) = cache b)"

lemma send_console_no_panic: "fst (send_console T bs l) \<noteq> Inl Panic"
  by (auto simp: send_console_def split: prod.splits sum.splits)

lemma other_backing [simp]:
  "index_ok (c\<lparr>backing := l\<rparr>) = index_ok c" "evictable (c\<lparr>backing := l\<rparr>) = evictable c"
  "resident_slot (c\<lparr>backing := l\<rparr>) p = resident_slot c p"
  by (simp_all add: index_ok_def evictable_def resident_slot_def)

lemma hoareD: "hoare P m Q E \<Longrightarrow> P s \<Longrightarrow> case m s of (Inl e, s') \<Rightarrow> E e s' | (Inr a, s') \<Rightarrow> Q a s'"
  by (simp add: hoare_def)

lemma view_other_backing:
  assumes "cache_inv contents binv c" and "binv l" and "contents l = contents (backing c)"
  shows "cache_inv contents binv (c\<lparr>backing := l\<rparr>) \<and> page_view contents (c\<lparr>backing := l\<rparr>) = page_view contents c"
  using assms
  by (auto simp: cache_inv_def page_view_def fun_eq_iff split: option.split)

lemma flat_bytes_slice: "off + k \<le> n \<Longrightarrow> flat_bytes V (r + off) k = slice off k (flat_bytes V r n)"
  by (auto simp: flat_bytes_def slice_def add.assoc intro!: nth_equalityI)

lemma on_link_fields:
  "clint (snd (on_link f b)) = clint b" "uart (snd (on_link f b)) = uart b"
  "fst (on_link f b) = fst (f (backing (cache b)))"
  by (simp_all add: on_link_def split: prod.split)

context page_link
begin

lemma on_link_holds: "link_keeps binv contents f \<Longrightarrow> holds V (cache b) \<Longrightarrow> holds V (cache (snd (on_link f b)))"
  using view_other_backing [of contents binv "cache b" "snd (f (backing (cache b)))"]
  by (auto simp: holds_def on_link_def link_keeps_def cache_inv_def split: prod.splits)

lemma link_now_holds: "holds V (cache b) \<Longrightarrow> holds V (cache (snd (link_now T b)))"
  using on_link_holds [OF clock_keeps, of V b] by (simp add: link_now_def split_beta)

section \<open>Starting up\<close>

definition read_failed :: "boot_probe_error stop \<Rightarrow> bool" where
  "read_failed e \<longleftrightarrow> (\<exists>a f. e = Err (ReadFailed a f))"

lemma hoare_probe:
  assumes "in_ram a n" and "valid_size n"
  shows "hoare (\<lambda>b. holds V (cache b)) (probe_load T a n :: (('t, 'c) link_bus, boot_probe_error, u64) sm)
    (\<lambda>v b. holds V (cache b) \<and> v = from_le (flat_bytes V (ram_off a) n)) (\<lambda>e b. holds V (cache b) \<and> read_failed e)"
proof (rule hoareI)
  fix b :: "('t, 'c) link_bus" assume h: "holds V (cache b)"
  obtain r b1 where r: "bus_load (usb_ops T) a n b = (r, b1)" by fastforce
  note ok = bus_load_ok [OF h r]
  have "holds V (cache (snd (on_link take_fault b1)))" using on_link_holds [OF fault_keeps] ok by blast
  with ok assms show "case probe_load T a n b of
      (Inl e, s') \<Rightarrow> holds V (cache s') \<and> read_failed e
    | (Inr v, s') \<Rightarrow> holds V (cache s') \<and> v = from_le (flat_bytes V (ram_off a) n)"
    by (auto simp: probe_load_def r read_failed_def mapped_def split: sum.splits prod.splits)
qed

lemma hoare_read:
  assumes "in_ram a n" and "valid_size n" and "from_le (flat_bytes V (ram_off a) n) = v"
    and "hoare (\<lambda>b. holds V (cache b)) (f v) Q (\<lambda>e b. holds V (cache b) \<and> read_failed e)"
  shows "hoare (\<lambda>b. holds V (cache b)) (sm_bind (probe_load T a n) f) Q (\<lambda>e b. holds V (cache b) \<and> read_failed e)"
  by (rule hoare_bind [OF hoare_probe [OF assms(1,2)]], rule hoare_when) (use assms(3,4) in simp)

lemma hoare_dtb_address:
  assumes "from_le (flat_bytes V (ram_off (KERNEL_LOAD_ADDR + 56)) 4) = IMAGE_MAGIC2"
    and "from_le (flat_bytes V (ram_off (KERNEL_LOAD_ADDR + 8)) 8) = KERNEL_LOAD_ADDR - RAM_BASE"
    and "from_le (flat_bytes V (ram_off (KERNEL_LOAD_ADDR + 16)) 8) = sz"
    and "of_nat PAGE \<le> sz" and "unat KERNEL_LOAD_ADDR + unat sz < 2 ^ 64"
    and "d = round_up64 (KERNEL_LOAD_ADDR + sz) 8" and "in_ram d 4"
    and "ucast (from_le (flat_bytes V (ram_off d) 4) :: u64) = FDT_MAGIC_LE"
  shows "hoare (\<lambda>b. holds V (cache b)) (dtb_address T) (\<lambda>a b. holds V (cache b) \<and> a = d)
    (\<lambda>e b. holds V (cache b) \<and> read_failed e)"
proof -
  have ram: "in_ram (KERNEL_LOAD_ADDR + 56) 4" "in_ram (KERNEL_LOAD_ADDR + 8) 8" "in_ram (KERNEL_LOAD_ADDR + 16) 8"
    by (simp_all add: in_ram_def saturating_add_def)
  have v: "valid_size 4" "valid_size 8" by (simp_all add: valid_size_def)
  have c: "\<not> sz < of_nat PAGE" "\<not> 2 ^ 64 \<le> unat KERNEL_LOAD_ADDR + unat sz" using assms(4,5) by (simp_all only: not_less not_le)
  show ?thesis
    unfolding dtb_address_def Let_def
    by (rule hoare_read [OF ram(1) v(1) assms(1)], simp only: refl not_True_eq_False if_False,
        rule hoare_read [OF ram(2) v(2) assms(2)], simp only: refl not_True_eq_False if_False,
        rule hoare_read [OF ram(3) v(2) assms(3)], simp only: c if_False assms(6) [symmetric],
        rule hoare_read [OF assms(7) v(1) refl], simp only: assms(8) refl not_True_eq_False if_False,
        rule hoare_return, simp)
qed

end

context page_link
begin

section \<open>Running\<close>

definition bus_fine :: "('t, 'c) link_bus \<Rightarrow> bool" where
  "bus_fine b \<longleftrightarrow> cache_inv contents binv (cache b)"

lemma bus_fine_holds: "bus_fine b \<longleftrightarrow> holds (page_view contents (cache b)) (cache b)"
  by (simp add: bus_fine_def holds_def)

lemma fine_on_link: "link_keeps binv contents f \<Longrightarrow> bus_fine b \<Longrightarrow> bus_fine (snd (on_link f b))"
  using on_link_holds [of f "page_view contents (cache b)" b] by (simp add: bus_fine_def holds_def)

lemma fine_link_now: "bus_fine b \<Longrightarrow> bus_fine (snd (link_now T b))"
  using link_now_holds [of "page_view contents (cache b)" b] by (simp add: bus_fine_def holds_def)

lemma fine_on_sink [simp]: "bus_fine (on_sink f b) = bus_fine b"
  by (simp add: bus_fine_def on_sink_def)

lemma fine_uart [simp]: "bus_fine (b\<lparr>uart := u\<rparr>) = bus_fine b"
  by (simp add: bus_fine_def)

lemma fine_timed: "bus_fine (snd s) \<Longrightarrow> bus_fine (snd (timed_service f T s))"
  using fine_link_now [of "snd s"] by (simp add: timed_service_def split_beta)

lemma fine_rate: "bus_fine (snd s) \<Longrightarrow> bus_fine (snd (rate_report T s))"
  using fine_link_now [of "snd s"] by (simp add: rate_report_def split_beta Let_def)

lemma fine_beat: "bus_fine (snd s) \<Longrightarrow> bus_fine (snd (beat_and_flush C cfg s))"
  by (simp add: beat_and_flush_def split_beta Let_def)

lemma fine_binv: "bus_fine b \<Longrightarrow> binv (backing (cache b))"
  by (simp add: bus_fine_def cache_inv_def)

lemma hoare_pump: "hoare (\<lambda>s. bus_fine (snd s)) (pump_console T) (\<lambda>_ s. bus_fine (snd s)) (\<lambda>_ _. False)"
proof (rule hoareI)
  fix s :: "run_locals \<times> ('t, 'c) link_bus" assume f: "bus_fine (snd s)"
  obtain k b where s: "s = (k, b)" by fastforce
  obtain r b1 where p: "on_link (pump T) b = (r, b1)" by fastforce
  have r: "r \<noteq> Inl Panic"
    using pump_no_panic [OF fine_binv [OF f]] on_link_fields(3) [of "pump T" b] by (simp add: s p)
  have b1: "bus_fine b1" using fine_on_link [OF pump_keeps, of b] f by (simp add: s p)
  note k = fine_on_link [OF console_keeps b1] fine_on_link [OF console_keeps fine_on_link [OF fault_keeps b1]]
  with r b1 show "case pump_console T s of (Inl e, s') \<Rightarrow> False | (Inr u, s') \<Rightarrow> bus_fine (snd s')"
    by (cases r) (auto simp: pump_console_def s p Let_def split: stop.split prod.split)
qed

lemma hoare_mirror:
  fixes C :: "'c console_ops"
  shows "hoare (\<lambda>s. bus_fine (snd s)) (mirror_output T C) (\<lambda>_ s. bus_fine (snd s)) (\<lambda>_ _. False)"
proof (rule hoareI)
  fix s :: "run_locals \<times> ('t, 'c) link_bus" assume f: "bus_fine (snd s)"
  obtain k b where s: "s = (k, b)" by fastforce
  obtain said c where t: "con_take C (sink (uart b)) = (said, c)" by fastforce
  let ?b = "on_sink (\<lambda>_. c) b"
  obtain r b1 where p: "on_link (send_console T said) ?b = (r, b1)" by fastforce
  have r: "r \<noteq> Inl Panic"
    using send_console_no_panic [of T said] on_link_fields(3) [of "send_console T said" ?b] by (metis p fst_conv)
  have b1: "bus_fine b1" using fine_on_link [OF send_keeps, of ?b said] f by (simp add: s p)
  note fine_on_link [OF fault_keeps b1]
  with r b1 f show "case mirror_output T C s of (Inl e, s') \<Rightarrow> False | (Inr u, s') \<Rightarrow> bus_fine (snd s')"
    by (cases r) (auto simp: mirror_output_def s t p Let_def split: stop.split prod.split)
qed

lemma hoare_service: "hoare (\<lambda>s. bus_fine (snd s)) (service_block T C cfg) (\<lambda>_ s. bus_fine (snd s)) (\<lambda>_ _. False)"
  unfolding service_block_def
  by (intro hoare_bind [where R = "\<lambda>_ s. bus_fine (snd s)"] hoare_pump hoare_mirror hoare_modify
      fine_timed fine_rate fine_beat)

text \<open>How a slice and a run may end.\<close>

definition true_ending :: "u64 \<Rightarrow> u64 \<Rightarrow> cpu \<Rightarrow> ending \<Rightarrow> bool" where
  "true_ending lim n c e \<longleftrightarrow> n \<le> lim \<and>
     (case e of
        EndCapped \<Rightarrow> n = lim
      | EndMachineTrap cause epc tval \<Rightarrow> dead_end c \<and> cause = csr_read MCAUSE (csrs c) \<and>
          epc = csr_read MEPC (csrs c) \<and> tval = csr_read MTVAL (csrs c)
      | _ \<Rightarrow> True)"

lemma run_slice_ok:
  assumes "machine_ok contents binv m" and "unat ex + n < 2 ^ 64" and "run_slice T put n ex m = (r, m')"
  shows "machine_ok contents binv m' \<and> (\<exists>e k. r = Inr (e, k) \<and> k \<le> ex + of_nat n \<and>
    (\<forall>fin. e = Some fin \<longrightarrow> fin \<noteq> EndCapped \<and> true_ending (ex + of_nat n) k (fst m') fin))"
proof -
  have le: "ex \<le> ex + of_nat n" using unat_add_of_nat [OF assms(2)] by (simp add: word_le_nat_alt)
  obtain q m1 where q: "run_from (usb_ops T) put (ex + of_nat n) ex m = (q, m1)" by (metis surj_pair)
  from run_from_ok [OF assms(1) le q] obtain h where h: "q = Inr h" "ends_well (ex + of_nat n) h (fst m1)"
    and m1: "machine_ok contents binv m1" by blast
  have f: "machine_ok contents binv (fst m1, snd (on_link take_fault (snd m1)))"
    using fine_on_link [OF fault_keeps, of "snd m1"] m1 by (simp add: machine_ok_def bus_fine_def)
  have "as_slice (ex + of_nat n) (q, m1) = (r, m')" using assms(3) unfolding run_slice_is_run_from [OF assms(2)] q .
  with h m1 f show ?thesis
    by (cases h) (auto simp: as_slice_def ends_well_def true_ending_def split: prod.splits if_splits)
qed

lemma run_turn_ok:
  assumes m: "machine_ok contents binv m" and n: "n_executed k \<le> max_insns cfg"
    and sl: "slice_insns cfg \<noteq> 0" and w: "leaves_memory watch"
  shows "case run_turn T C cfg watch (k, w, m) of
      Inl (k', w', m') \<Rightarrow> machine_ok contents binv m' \<and> n_executed k' \<le> max_insns cfg
    | Inr (r, k', w', m') \<Rightarrow> machine_ok contents binv m' \<and>
        (\<exists>fin. r = Inr fin \<and> true_ending (max_insns cfg) (n_executed k') (fst m') fin)"
proof (cases "max_insns cfg \<le> n_executed k")
  case True
  with n m show ?thesis by (auto simp: run_turn_def true_ending_def)
next
  case False
  let ?n = "unat (min (slice_insns cfg) (max_insns cfg - n_executed k))"
  note b = slice_budget [OF False sl]
  have lim: "n_executed k + of_nat ?n \<le> max_insns cfg" using unat_add_of_nat [OF b(3)] b(2) by (simp add: word_le_nat_alt del: of_nat_unat)
  obtain r m1 where s: "run_slice T (con_put C) ?n (n_executed k) m = (r, m1)" by (metis surj_pair)
  from run_slice_ok [OF m b(3) s] obtain e ex where m1: "machine_ok contents binv m1" and r: "r = Inr (e, ex)"
    and ex: "ex \<le> n_executed k + of_nat ?n" and fin: "\<And>f. e = Some f \<Longrightarrow> f \<noteq> EndCapped \<and> true_ending (n_executed k + of_nat ?n) ex (fst m1) f"
    by blast
  have exl: "ex \<le> max_insns cfg" using ex lim by (rule order_trans)
  show ?thesis
  proof (cases e)
    case (Some f)
    have "true_ending (max_insns cfg) ex (fst m1) f"
      using fin [OF Some] exl by (auto simp: true_ending_def split: ending.splits)
    with Some False s r m1 show ?thesis by (simp add: run_turn_def)
  next
    case None
    obtain c b1 where cb: "m1 = (c, b1)" by fastforce
    obtain q k2 b2 where v: "service_block T C cfg (k\<lparr>n_executed := ex\<rparr>, b1) = (q, (k2, b2))" by (metis surj_pair)
    have q: "q = Inr () \<and> bus_fine b2"
      using hoareD [OF hoare_service, of "(k\<lparr>n_executed := ex\<rparr>, b1)" C cfg] m1 v
      by (cases q) (auto simp: bus_fine_def machine_ok_def cb)
    obtain go b3 w3 where g: "watch (n_executed k2) b2 w = (go, b3, w3)" by (metis surj_pair)
    have "machine_ok contents binv (c, b3)" using q m1 w [unfolded leaves_memory_def, rule_format, of "n_executed k2" b2 w] g
      by (simp add: machine_ok_def bus_fine_def cb)
    moreover have "n_executed k2 \<le> max_insns cfg" using service_executed [OF v] exl by simp
    ultimately show ?thesis using None False s r v q g by (simp add: run_turn_def cb true_ending_def)
  qed
qed

lemma run_loop_ok:
  assumes "slice_insns cfg \<noteq> 0" and "leaves_memory watch"
    and "machine_ok contents binv m" and "n_executed k \<le> max_insns cfg"
  shows "\<exists>fin k' w' m'. run_loop T C cfg watch (k, w, m) = Some (Inr fin, k', w', m') \<and>
    machine_ok contents binv m' \<and> true_ending (max_insns cfg) (n_executed k') (fst m') fin"
  using assms(3,4)
proof (induction "unat (max_insns cfg) - unat (n_executed k)" arbitrary: k w m rule: less_induct)
  case less
  note ok = run_turn_ok [OF less.prems assms(1,2), where C = C and w = w]
  show ?case
  proof (cases "run_turn T C cfg watch (k, w, m)")
    case (Inl s')
    obtain k' w' m' where s': "s' = (k', w', m')" by (cases s')
    from run_turn_progress [OF Inl [unfolded s'] assms(1)]
    have "unat (max_insns cfg) - unat (n_executed k') < unat (max_insns cfg) - unat (n_executed k)"
      by (simp add: word_le_nat_alt diff_less_mono2)
    from less.hyps [OF this, of m' w'] ok Inl s' show ?thesis by (simp add: run_loop.simps [of _ _ _ _ "(k, w, m)"])
  next
    case (Inr r)
    with ok show ?thesis by (auto simp: run_loop.simps [of _ _ _ _ "(k, w, m)"] split: prod.splits)
  qed
qed

lemma run_finish_ok:
  assumes "machine_ok contents binv m"
  shows "\<exists>rep log m'. run_finish T C fin k m = (Inr (rep, log), m') \<and> machine_ok contents binv m' \<and>
    fst m' = fst m \<and> r_ending rep = fin \<and> r_executed rep = n_executed k"
proof -
  obtain c b where m: "m = (c, b)" by fastforce
  obtain now b1 where n: "link_now T b = (now, b1)" by fastforce
  have "bus_fine b1" using fine_link_now [of b] assms n by (simp add: machine_ok_def bus_fine_def m)
  let ?k = "k\<lparr>wall := span_close now (wall k), run_log := run_log k @ [''rv64: '' @ describe_ending fin]\<rparr>"
  let ?b = "if fin \<noteq> EndStopped then on_sink (note_line C (describe_ending fin) \<circ> note_line C []) b1 else b1"
  have f: "bus_fine ?b" using \<open>bus_fine b1\<close> by simp
  obtain q k2 b2 where v: "mirror_output T C (?k, ?b) = (q, (k2, b2))" by (metis surj_pair)
  have "q = Inr () \<and> bus_fine b2" using hoareD [OF hoare_mirror, of "(?k, ?b)" C] f v by (cases q) auto
  moreover have "n_executed k2 = n_executed k" using mirror_executed [of T C "(?k, ?b)"] v by simp
  ultimately show ?thesis using v n assms by (simp add: run_finish_def m Let_def machine_ok_def bus_fine_def)
qed

end

text \<open>The report of a run, for the property below and for the entry point.\<close>

lemma run_returns_report:
  assumes "page_link T contents binv" and "machine_ok contents binv m" and "slice_insns cfg \<noteq> 0"
    and "leaves_memory watch"
  shows "case badge_run T C cfg watch w m of
      Some (Inr (rep, log), w', m') \<Rightarrow>
        machine_ok contents binv m' \<and> r_executed rep \<le> max_insns cfg \<and>
        (case r_ending rep of
           EndCapped \<Rightarrow> r_executed rep = max_insns cfg
         | EndMachineTrap cause epc tval \<Rightarrow> dead_end (fst m') \<and> cause = csr_read MCAUSE (csrs (fst m')) \<and>
             epc = csr_read MEPC (csrs (fst m')) \<and> tval = csr_read MTVAL (csrs (fst m'))
         | _ \<Rightarrow> True)
    | _ \<Rightarrow> False"
proof -
  obtain k b where st: "run_start T (snd m) = (k, b)" by fastforce
  have k: "n_executed k = 0" and b: "b = snd (link_now T (snd m))" using st by (auto simp: run_start_def split_beta)
  have "machine_ok contents binv (fst m, b)"
    using page_link.fine_link_now [OF assms(1), of "snd m"] assms(2)
    by (simp add: machine_ok_def page_link.bus_fine_def [OF assms(1)] b)
  from page_link.run_loop_ok [OF assms(1,3,4) this, where k = k and C = C and w = w] k obtain fin k' w' m1 where
    l: "run_loop T C cfg watch (k, w, (fst m, b)) = Some (Inr fin, k', w', m1)" and m1: "machine_ok contents binv m1"
    and t: "page_link.true_ending (max_insns cfg) (n_executed k') (fst m1) fin" by auto
  from page_link.run_finish_ok [OF assms(1) m1, of C fin k'] obtain rep log m2 where
    f: "run_finish T C fin k' m1 = (Inr (rep, log), m2)" "machine_ok contents binv m2" "fst m2 = fst m1"
      "r_ending rep = fin" "r_executed rep = n_executed k'" by blast
  with l t st show ?thesis
    by (cases fin) (simp_all add: badge_run_def page_link.true_ending_def [OF assms(1)])
qed

text \<open>Property C27 (badge_run_ends_well): over a link that keeps its word the badge's run always returns a
  report, without a panic and with the machine well formed, whatever the guest does and whatever is
  typed at it. The count never passes the budget and is the budget when the run is reported as
  capped; a machine trap is reported exactly in the dead end, with the trap registers as they are.\<close>

theorem badge_run_ends_well:
  assumes "page_link T contents binv" and "machine_ok contents binv m" and "slice_insns cfg \<noteq> 0"
    and "leaves_memory watch"
  shows "case badge_run T C cfg watch w m of
      Some (Inr (rep, log), w', m') \<Rightarrow>
        machine_ok contents binv m' \<and> r_executed rep \<le> max_insns cfg \<and>
        (case r_ending rep of
           EndCapped \<Rightarrow> r_executed rep = max_insns cfg
         | EndMachineTrap cause epc tval \<Rightarrow> dead_end (fst m') \<and> cause = csr_read MCAUSE (csrs (fst m')) \<and>
             epc = csr_read MEPC (csrs (fst m')) \<and> tval = csr_read MTVAL (csrs (fst m'))
         | _ \<Rightarrow> True)
    | _ \<Rightarrow> False"
  by (rule run_returns_report [OF assms])

section \<open>Where the host put them\<close>

lemma load_kernel_raw_end:
  assumes "\<not> starts_with kern ELF_MAGIC" and "riscv_image_footprint kern = Some span"
    and "load_kernel B put kern b = (Inr kend, b')"
  shows "has_riscv_image_header kern" and "from_le (slice 16 8 kern) = span" and "64 \<le> length kern"
    and "from_le (slice 8 8 kern) = KERNEL_LOAD_ADDR - RAM_BASE"
    and "unat KERNEL_LOAD_ADDR + unat span < 2 ^ 64" and "kend = KERNEL_LOAD_ADDR + span"
proof -
  show h: "has_riscv_image_header kern" "from_le (slice 16 8 kern) = span"
    using assms(2) by (auto simp: riscv_image_footprint_def Let_def split: if_splits)
  then show "64 \<le> length kern" by (simp add: has_riscv_image_header_def)
  have off: "riscv_image_text_offset kern = Some (from_le (slice 8 8 kern))" using h(1) by (simp add: riscv_image_text_offset_def)
  show "from_le (slice 8 8 kern) = KERNEL_LOAD_ADDR - RAM_BASE" "unat KERNEL_LOAD_ADDR + unat span < 2 ^ 64"
    "kend = KERNEL_LOAD_ADDR + span"
    using assms off by (auto simp: load_kernel_def sm_bind_eq_Inr sm_err_def sm_return_def split: if_splits)
qed

lemma sm_map_err_Inr: "sm_map_err h m s = (Inr a, s') \<longleftrightarrow> m s = (Inr a, s')"
  by (simp add: sm_map_err_def split: prod.split sum.split)

lemma sm_result_Inr: "sm_result r s = (Inr a, s') \<longleftrightarrow> r = Inr a \<and> s' = s"
  by (cases r) (auto simp: sm_result_def)

lemma load_boot_images_layout:
  assumes "load_boot_images B put kern tree ramdisk b = (Inr (c, layout), b')"
  obtains kend b1 where "load_kernel B put kern b = (Inr kend, b1)"
    and "place kend (length tree) (map_option length ramdisk) = Inr layout"
  using assms unfolding load_boot_images_def
  by (auto simp: sm_bind_eq_Inr sm_map_err_Inr sm_result_Inr) (simp add: sm_return_def)

text \<open>Recording the initrd leaves the start of the tree alone.\<close>

lemma set_u64_head:
  assumes "set_u64 tree path name v = Inr t" and "be32 tree 8 = Some os" and "40 \<le> unat os"
  shows "slice 0 4 t = slice 0 4 tree \<and> be32 t 8 = be32 tree 8"
proof -
  obtain a where a: "prop_range tree path name = Some (a, a + 8)" "t = splice a (to_be 8 v) tree"
    using assms(1) by (auto simp: set_u64_Inr)
  have g: "agree (- {a..<a + 8}) tree t" using agree_splice [of a "to_be 8 v" tree] prop_range_bounds [OF a(1)] a(2) by simp
  have "unat os + 12 \<le> a" using a(1) assms(2) by (auto elim!: prop_range_fields dest: fdt_walk_found)
  then have "slice 0 4 t = slice 0 4 tree" using assms(3) by (intro agree_slice [OF g]) auto
  with prop_range_header [OF a(1) g assms(2,3), of 8] show ?thesis by simp
qed

lemma record_initrd_head:
  assumes "record_initrd ir tree = Inr t" and "initrd_slots tree"
  shows "slice 0 4 t = slice 0 4 tree"
proof (cases ir)
  case (Some se)
  then obtain t1 start stop where "set_u64 tree (ascii ''/chosen'') initrd_start_prop start = Inr t1"
    "set_u64 t1 (ascii ''/chosen'') initrd_end_prop stop = Inr t"
    using assms(1) by (cases se) (auto simp: record_initrd_def split: sum.splits)
  with assms(2) set_u64_head [of tree _ _ start t1] set_u64_head [of t1 _ _ stop t] show ?thesis
    unfolding initrd_slots_def by metis
qed (use assms(1) in \<open>simp add: record_initrd_def\<close>)

text \<open>Property C29 (badge_recovers_host_layout): the badge finds the machine the host laid out. When the
  host's loader has placed a raw kernel whose header declares at least a page, a device tree and
  perhaps an initrd, and the badge's memory over its link holds the same bytes, the badge reads the
  address of the device tree back out of the kernel's header and starts the very hart the host's
  loader returned, or a page read failed and it says at which address. Memory is unchanged, and no
  other error and no panic is possible.\<close>

theorem badge_recovers_host_layout:
  assumes "total_backing B contents binv" and "cache_inv contents binv (cache hb)"
    and "page_link T lcontents linv" and "cache_inv lcontents linv (cache lb)"
    and "\<not> starts_with kern ELF_MAGIC" and "riscv_image_footprint kern = Some span" and "of_nat PAGE \<le> span"
    and "initrd_slots tree" and "take 4 tree = [0xD0, 0x0D, 0xFE, 0xED]"
    and "load_boot_images B put kern tree ramdisk hb = (Inr (c, layout), hb')"
    and "page_view lcontents (cache lb) = page_view contents (cache hb')"
  shows "case start_cpu T lb of
      (Inr c', lb') \<Rightarrow> c' = c \<and> page_view lcontents (cache lb') = page_view lcontents (cache lb)
    | (Inl e, lb') \<Rightarrow> (\<exists>a f. e = Err (ReadFailed a f)) \<and> page_view lcontents (cache lb') = page_view lcontents (cache lb)"
proof -
  let ?V = "page_view contents (cache hb')" and ?k = "ram_off KERNEL_LOAD_ADDR"
  have L: "total_backing (usb_ops T) lcontents linv" using assms(3) by (simp add: page_link_def)
  have "tree \<noteq> []" using assms(9) by auto
  from total_backing.hoare_boot [OF assms(1,5) this, of "page_view contents (cache hb)" put ramdisk]
  have c: "c = boot_cpu (dtb layout)" and b: "total_backing.booted contents binv kern tree ramdisk layout hb'"
    using assms(2,10) by (auto simp: hoare_def total_backing.holds_def [OF assms(1)])
  obtain kend tree' where k: "kernel_at ?V kern kend" and t: "record_initrd (initrd layout) tree = Inr tree'"
      "tree_at ?V tree' layout"
    using b unfolding total_backing.booted_def [OF assms(1)] total_backing.holds_def [OF assms(1)] by auto
  obtain kend b1 where e: "load_kernel B put kern hb = (Inr kend, b1)"
      "place kend (length tree) (map_option length ramdisk) = Inr layout"
    by (rule load_boot_images_layout [OF assms(10)])
  note raw = load_kernel_raw_end [OF assms(5,6) e(1)]
  have d: "dtb layout = round_up64 (KERNEL_LOAD_ADDR + span) 8" using place_Inr(1) [OF e(2)] raw(6) by simp
  have kb: "flat_bytes ?V ?k (length kern) = kern" using k by (simp add: kernel_at_def)
  have rd: "flat_bytes ?V (ram_off (KERNEL_LOAD_ADDR + of_nat i)) n = slice i n kern" if "i + n \<le> 64" for i n
  proof -
    have "ram_off (KERNEL_LOAD_ADDR + of_nat i) = ?k + i" using that ram_off_add [of KERNEL_LOAD_ADDR i] by (simp add: ram_off_def)
    then show ?thesis using flat_bytes_slice [of i n "length kern" ?V ?k] kb that raw(3) by simp
  qed
  have "length (take 4 tree) = 4" by (simp add: assms(9))
  then have len: "4 \<le> length tree'" using record_initrd_length [OF t(1)] by simp
  have ram: "in_ram (dtb layout) 4" using t(2) len by (intro range_in_ram) (auto simp: tree_at_def)
  have "flat_bytes ?V (ram_off (dtb layout)) 4 = slice 0 4 tree'"
    using flat_bytes_slice [of 0 4 "length tree'" ?V "ram_off (dtb layout)"] t(2) len by (simp add: tree_at_def)
  also have "\<dots> = [0xD0, 0x0D, 0xFE, 0xED]" using record_initrd_head [OF t(1) assms(8)] assms(9) by (simp add: slice_def)
  finally have magic: "ucast (from_le (flat_bytes ?V (ram_off (dtb layout)) 4) :: u64) = FDT_MAGIC_LE" by simp
  have m2: "from_le (flat_bytes ?V (ram_off (KERNEL_LOAD_ADDR + 56)) 4) = IMAGE_MAGIC2"
    using rd [of 56 4] raw(1) by (simp add: has_riscv_image_header_def RISCV_IMAGE_MAGIC2_def)
  have "hoare (\<lambda>b. total_backing.holds lcontents linv ?V (cache b)) (dtb_address T)
      (\<lambda>a b. total_backing.holds lcontents linv ?V (cache b) \<and> a = dtb layout)
      (\<lambda>e b. total_backing.holds lcontents linv ?V (cache b) \<and> page_link.read_failed e)"
    by (rule page_link.hoare_dtb_address [OF assms(3) m2 _ _ assms(7) raw(5) d ram magic])
      (use rd [of 8 8] rd [of 16 8] raw in simp_all)
  moreover have h: "total_backing.holds lcontents linv ?V (cache lb)"
    using assms(4,11) by (simp add: total_backing.holds_def [OF L])
  moreover obtain r lb' where r: "dtb_address T lb = (r, lb')" by fastforce
  ultimately have "case r of Inl e \<Rightarrow> total_backing.holds lcontents linv ?V (cache lb') \<and> page_link.read_failed e
      | Inr a \<Rightarrow> total_backing.holds lcontents linv ?V (cache lb') \<and> a = dtb layout"
    unfolding hoare_def by (auto split: sum.splits)
  then show ?thesis
    using assms(11) unfolding total_backing.holds_def [OF L] page_link.read_failed_def [OF assms(3)]
    by (cases r) (auto simp: start_cpu_def sm_bind_def sm_return_def r c boot_cpu_def)
qed

end
