(* ===== verification/Wire_Stream.thy ===== *)
theory Wire_Stream
  imports Wire
begin

text \<open>
  The decoder as a function of the byte stream: \<open>classify\<close> says what stands at the front of a
  buffer, \<open>parse\<close> splits a buffer into frames, off-protocol bytes and an unfinished rest. The
  loops of the decoder and of the demultiplexer compute exactly that (they never panic), and
  the split does not depend on how the stream was cut into reads.
\<close>

section \<open>What stands at the front of a buffer\<close>

text \<open>The verdict, the number of off-protocol bytes, and the number of protocol bytes consumed.\<close>

definition at_sync :: "u8 list \<Rightarrow> scan \<times> nat \<times> nat" where
  "at_sync b =
     (if length b < HEADER then (Wait, 0, 0)
      else let len = unat (from_le (slice 3 2 b) :: u16) in
      if MAX_PAYLOAD < len then (Again, 2, 0)
      else let total = HEADER + len + TRAILER in
      if length b < total then (Wait, 0, 0)
      else if crc32 (slice 2 (HEADER + len - 2) b) \<noteq> from_le (slice (HEADER + len) 4 b) then (Again, 2, 0)
      else (case decode_body (b ! 2) (slice HEADER len b) of Some f \<Rightarrow> Got f | None \<Rightarrow> Again, 0, total))"

definition classify :: "u8 list \<Rightarrow> scan \<times> nat \<times> nat" where
  "classify b =
     (case find_sync b of
        None \<Rightarrow> (Wait, length b - (if b \<noteq> [] \<and> last b = to_le 2 SYNC ! 0 then 1 else 0), 0)
      | Some start \<Rightarrow> (case at_sync (drop start b) of (v, n, u) \<Rightarrow> (v, start + n, u)))"

text \<open>Off-protocol bytes as a capturing decoder records them: the first ones up to the cap, and a count.\<close>

definition lost :: "u8 list \<Rightarrow> decoder \<Rightarrow> decoder" where
  "lost bs d =
     (if capture d
      then let room = noise_cap d - length (noise d)
           in d\<lparr>noise := noise d @ take room bs, dropped_noise := dropped_noise d + (length bs - room)\<rparr>
      else d)"

lemma lost_simps [simp]:
  "buf (lost bs d) = buf d" "lost [] d = d" "capture (lost bs d) = capture d" "noise_cap (lost bs d) = noise_cap d"
  "lost bs (d\<lparr>buf := b\<rparr>) = (lost bs d)\<lparr>buf := b\<rparr>"
  by (simp_all add: lost_def Let_def)

lemma lost_append: "lost (xs @ ys) d = lost ys (lost xs d)"
  by (simp add: lost_def Let_def min_def)

lemma discard_ok:
  "n \<le> length (buf d) \<Longrightarrow> discard n d = (Inr (), (lost (take n (buf d)) d)\<lparr>buf := drop n (buf d)\<rparr>)"
  by (simp add: discard_def lost_def Let_def min_def)

lemma scan_header_ok:
  "at_sync (buf d) = (v, n, u) \<Longrightarrow>
   scan_header d = (Inr v, (lost (take n (buf d)) d)\<lparr>buf := drop (n + u) (buf d)\<rparr>) \<and> n + u \<le> length (buf d)"
  by (auto simp: at_sync_def scan_header_def Let_def sm_bind_def sm_return_def discard_ok split: if_splits)

lemma find_sync_bound: "find_sync b = Some i \<Longrightarrow> i + 2 \<le> length b"
  by (induction b arbitrary: i rule: find_sync.induct) (auto split: if_splits)

lemma scan_once_ok:
  assumes "classify (buf d) = (v, n, u)"
  shows "scan_once d = (Inr v, (lost (take n (buf d)) d)\<lparr>buf := drop (n + u) (buf d)\<rparr>) \<and> n + u \<le> length (buf d)"
proof (cases "find_sync (buf d)")
  case None
  with assms show ?thesis
    by (auto simp: classify_def scan_once_def Let_def sm_bind_def sm_return_def discard_ok)
next
  case (Some st)
  define d1 where "d1 = (lost (take st (buf d)) d)\<lparr>buf := drop st (buf d)\<rparr>"
  have st: "st \<le> length (buf d)" using find_sync_bound [OF Some] by simp
  obtain n1 where n1: "at_sync (drop st (buf d)) = (v, n1, u)" "n = st + n1"
    using assms Some by (auto simp: classify_def split: prod.splits)
  have "(if 0 < st then discard st else sm_return ()) d = (Inr (), d1)"
    using st by (simp add: discard_ok d1_def sm_return_def)
  then have "scan_once d = scan_header d1" by (simp add: scan_once_def Some sm_bind_def)
  moreover have "take n (buf d) = take st (buf d) @ take n1 (drop st (buf d))"
    unfolding n1(2) by (rule take_add)
  ultimately show ?thesis
    using scan_header_ok [of d1] n1 st by (auto simp: d1_def lost_append add_ac)
qed

lemma classify_bound: "classify b = (v, n, u) \<Longrightarrow> n + u \<le> length b"
  using scan_once_ok [of "decoder_new\<lparr>buf := b\<rparr>"] by simp

lemma at_sync_progress: "at_sync b = (v, n, u) \<Longrightarrow> v \<noteq> Wait \<Longrightarrow> 0 < n + u"
  by (auto simp: at_sync_def Let_def split: if_splits)

lemma classify_progress: "classify b = (v, n, u) \<Longrightarrow> v \<noteq> Wait \<Longrightarrow> 0 < n + u"
  by (fastforce simp: classify_def split: option.splits prod.splits dest: at_sync_progress)

lemma classify_shorter: "classify b = (v, n, u) \<Longrightarrow> v \<noteq> Wait \<Longrightarrow> length (drop (n + u) b) < length b"
  using classify_bound [of b v n u] classify_progress [of b v n u] unfolding length_drop by linarith

section \<open>The stream parser\<close>

function parse :: "u8 list \<Rightarrow> wire_frame list \<times> u8 list \<times> u8 list" where
  "parse b =
     (case classify b of (v, n, u) \<Rightarrow>
        (case v of
           Wait \<Rightarrow> ([], take n b, drop n b)
         | Again \<Rightarrow> (case parse (drop (n + u) b) of (fs, ns, r) \<Rightarrow> (fs, take n b @ ns, r))
         | Got f \<Rightarrow> (case parse (drop (n + u) b) of (fs, ns, r) \<Rightarrow> (f # fs, take n b @ ns, r))))"
  by pat_completeness auto
termination
  by (relation "measure length") (auto dest!: sym [THEN classify_shorter] classify_shorter)

declare parse.simps [simp del]

lemma classify_Wait: "classify b = (Wait, n, u) \<Longrightarrow> u = 0"
  by (auto simp: classify_def at_sync_def Let_def split: option.splits if_splits)

lemma next_frame_parse:
  assumes "parse (buf d) = (fs, ns, r)"
  shows "case fs of
      [] \<Rightarrow> next_frame d = (Inr None, (lost ns d)\<lparr>buf := r\<rparr>)
    | f # fs' \<Rightarrow> (\<exists>ns1 ns2 r1. next_frame d = (Inr (Some f), (lost ns1 d)\<lparr>buf := r1\<rparr>) \<and>
        ns = ns1 @ ns2 \<and> parse r1 = (fs', ns2, r))"
  using assms
proof (induction d arbitrary: fs ns r rule: next_frame.induct)
  case (1 d)
  obtain v n u where c: "classify (buf d) = (v, n, u)" by (cases "classify (buf d)")
  let ?d1 = "(lost (take n (buf d)) d)\<lparr>buf := drop (n + u) (buf d)\<rparr>"
  have s: "scan_once d = (Inr v, ?d1)" using scan_once_ok [OF c] by simp
  show ?case
  proof (cases v)
    case Wait
    with 1(2) s c classify_Wait [of "buf d" n u] show ?thesis
      by (auto simp: next_frame.simps [of d] parse.simps [of "buf d"])
  next
    case Again
    obtain fs1 ns1 r1 where p: "parse (drop (n + u) (buf d)) = (fs1, ns1, r1)"
      by (cases "parse (drop (n + u) (buf d))")
    have n: "next_frame d = next_frame ?d1" using s Again by (simp add: next_frame.simps [of d])
    have e: "fs = fs1" "ns = take n (buf d) @ ns1" "r = r1"
      using 1(2) c Again p by (simp_all add: parse.simps [of "buf d"])
    have "parse (buf ?d1) = (fs1, ns1, r1)" using p by simp
    note IH = 1(1) [OF s [symmetric] refl Again this]
    show ?thesis
    proof (cases fs1)
      case Nil
      with IH show ?thesis unfolding e n by (simp add: lost_append)
    next
      case (Cons f fs')
      with IH obtain na nb ra where i: "next_frame ?d1 = (Inr (Some f), (lost na ?d1)\<lparr>buf := ra\<rparr>)"
        "ns1 = na @ nb" "parse ra = (fs', nb, r1)" by auto
      have "next_frame d = (Inr (Some f), (lost (take n (buf d) @ na) d)\<lparr>buf := ra\<rparr>)"
        unfolding n i(1) by (simp add: lost_append)
      with i Cons show ?thesis unfolding e by fastforce
    qed
  next
    case (Got f)
    obtain fs1 ns1 r1 where p: "parse (drop (n + u) (buf d)) = (fs1, ns1, r1)"
      by (cases "parse (drop (n + u) (buf d))")
    have e: "fs = f # fs1" "ns = take n (buf d) @ ns1" "r = r1"
      using 1(2) c Got p by (simp_all add: parse.simps [of "buf d"])
    have "next_frame d = (Inr (Some f), ?d1)" using s Got by (simp add: next_frame.simps [of d])
    with p show ?thesis unfolding e by fastforce
  qed
qed


lemma dec_fold_route [simp]: "dec (fold route fs m) = dec m"
  by (induction fs arbitrary: m) simp_all

lemma route_dec: "(route f m)\<lparr>dec := d\<rparr> = route f (m\<lparr>dec := d\<rparr>)"
  by (cases f) simp_all

lemma fold_route_dec: "(fold route fs m)\<lparr>dec := d\<rparr> = fold route fs (m\<lparr>dec := d\<rparr>)"
  by (induction fs arbitrary: m) (simp_all add: route_dec)

text \<open>\<open>Mux::push\<close> routes the parsed frames in order.\<close>

lemma mux_drain_parse:
  "parse (buf (dec m)) = (fs, ns, r) \<Longrightarrow>
   mux_drain m = (Inr (), fold route fs (m\<lparr>dec := (lost ns (dec m))\<lparr>buf := r\<rparr>\<rparr>))"
proof (induction fs arbitrary: m ns)
  case Nil
  then show ?case using next_frame_parse [of "dec m" "[]" ns r] by (simp add: mux_drain.simps [of m])
next
  case (Cons f fs)
  then obtain na nb ra where i: "next_frame (dec m) = (Inr (Some f), (lost na (dec m))\<lparr>buf := ra\<rparr>)"
    "ns = na @ nb" "parse ra = (fs, nb, r)"
    using next_frame_parse [of "dec m" "f # fs" ns r] by auto
  let ?m1 = "route f (m\<lparr>dec := (lost na (dec m))\<lparr>buf := ra\<rparr>\<rparr>)"
  have "mux_drain m = mux_drain ?m1" by (simp add: mux_drain.simps [of m] i(1))
  moreover have "parse (buf (dec ?m1)) = (fs, nb, r)" using i(3) by simp
  moreover have "?m1\<lparr>dec := (lost nb (dec ?m1))\<lparr>buf := r\<rparr>\<rparr> = route f (m\<lparr>dec := (lost ns (dec m))\<lparr>buf := r\<rparr>\<rparr>)"
    by (cases f) (simp_all add: i(2) lost_append)
  ultimately show ?case using Cons.IH [of ?m1 nb] by simp
qed

lemma mux_push_parse:
  assumes "parse (buf (dec m) @ bytes) = (fs, ns, r)"
  shows "mux_push bytes m = (Inr (), fold route fs (m\<lparr>dec := (lost ns (dec m))\<lparr>buf := r\<rparr>\<rparr>))"
proof -
  have "parse (buf (dec (m\<lparr>dec := dec_push bytes (dec m)\<rparr>))) = (fs, ns, r)" using assms by (simp add: dec_push_def)
  from mux_drain_parse [OF this] show ?thesis by (simp add: mux_push_def dec_push_def)
qed

section \<open>More input only extends the parse\<close>

lemma find_sync_append: "find_sync b = Some i \<Longrightarrow> find_sync (b @ c) = Some i"
  by (induction b arbitrary: i rule: find_sync.induct) (auto split: if_splits)

lemma slice_append: "off + n \<le> length xs \<Longrightarrow> slice off n (xs @ ys) = slice off n xs"
  by (simp add: slice_def)

lemma at_sync_append:
  "at_sync b = (v, n, u) \<Longrightarrow> v \<noteq> Wait \<Longrightarrow> at_sync (b @ c) = (v, n, u)"
  by (auto simp: at_sync_def Let_def slice_append nth_append split: if_splits option.splits)

lemma classify_append:
  assumes "classify b = (v, n, u)" and "v \<noteq> Wait"
  shows "classify (b @ c) = (v, n, u)"
proof -
  obtain st where st: "find_sync b = Some st"
    using assms by (cases "find_sync b") (auto simp: classify_def)
  have "st \<le> length b" using find_sync_bound [OF st] by simp
  with assms at_sync_append [of "drop st b" _ _ _ c] show ?thesis
    by (auto simp: classify_def st find_sync_append split: prod.splits)
qed

text \<open>Off-protocol bytes at the front of a buffer that hold no start of a frame.\<close>

definition skippable :: "u8 list \<Rightarrow> u8 list \<Rightarrow> bool" where
  "skippable pre b \<longleftrightarrow> find_sync (pre @ b) = map_option (\<lambda>i. length pre + i) (find_sync b) \<and>
     (b = [] \<longrightarrow> pre = [] \<or> last pre \<noteq> 0xC1)"

lemma sync_bytes: "to_le 2 SYNC = [0xC1, 0xB0]"
  by (simp only: numeral_2_eq_2 to_le.simps) simp

lemma classify_skippable:
  assumes "skippable pre b" and "classify b = (v, n, u)"
  shows "classify (pre @ b) = (v, length pre + n, u)"
proof (cases "find_sync b")
  case (Some i)
  with assms show ?thesis by (auto simp: skippable_def classify_def split: prod.splits)
next
  case None
  then have f: "find_sync (pre @ b) = None" using assms(1) by (simp add: skippable_def)
  show ?thesis
  proof (cases b)
    case Nil
    with assms None f show ?thesis by (auto simp: skippable_def classify_def sync_bytes)
  next
    case (Cons x r)
    then have "1 \<le> length b" "last (pre @ b) = last b" "pre @ b \<noteq> []" "b \<noteq> []" by simp_all
    with assms(2) None f show ?thesis by (auto simp: classify_def sync_bytes)
  qed
qed

lemma parse_skippable:
  assumes "skippable pre b" and "parse b = (fs, ns, r)"
  shows "parse (pre @ b) = (fs, pre @ ns, r)"
proof -
  obtain v n u where c: "classify b = (v, n, u)" by (cases "classify b")
  from assms(2) c classify_skippable [OF assms(1) c] show ?thesis
    by (auto simp: parse.simps [of "pre @ b"] parse.simps [of b] split: scan.splits prod.splits)
qed

lemma skippable_no_sync:
  assumes "find_sync b = None"
  defines "k \<equiv> length b - (if b \<noteq> [] \<and> last b = 0xC1 then 1 else 0)"
  shows "skippable (take k b) (drop k b @ c)"
  using assms(1) unfolding k_def
proof (induction b rule: find_sync.induct)
  case (3 x y r)
  then have IH: "skippable (take (length (y # r) - (if last (y # r) = 0xC1 then 1 else 0)) (y # r))
      (drop (length (y # r) - (if last (y # r) = 0xC1 then 1 else 0)) (y # r) @ c)"
    by (simp split: if_splits)
  have f: "find_sync (x # y # r @ c) = map_option Suc (find_sync (y # r @ c))"
    using 3(2) by (auto split: if_splits)
  show ?case
  proof (cases "last (y # r) = 0xC1")
    case True
    then show ?thesis using IH f by (cases r rule: rev_cases) (auto simp: skippable_def option.map_comp comp_def split: if_splits)
  next
    case False
    then show ?thesis using IH f by (auto simp: skippable_def option.map_comp comp_def split: if_splits)
  qed
next
  case (2 v)
  have "find_sync (v # c) = map_option Suc (find_sync c)" if "v \<noteq> 0xC1"
    using that by (cases c) (auto simp: sync_bytes)
  then show ?case by (simp add: skippable_def option.map_ident)
qed (simp add: skippable_def option.map_ident)


lemma find_sync_drop: "find_sync b = Some st \<Longrightarrow> find_sync (drop st b) = Some 0"
  by (induction b arbitrary: st rule: find_sync.induct) (auto split: if_splits)

lemma at_sync_Wait: "at_sync b = (Wait, n, u) \<Longrightarrow> n = 0"
  by (auto simp: at_sync_def Let_def split: if_splits option.splits)

lemma take_drop_append: "take n b @ drop n b @ c = b @ c"
  unfolding append_assoc [symmetric] append_take_drop_id ..

lemma skippable_waiting:
  assumes "classify b = (Wait, n, u)"
  shows "skippable (take n b) (drop n b @ c)"
proof (cases "find_sync b")
  case None
  then show ?thesis using assms skippable_no_sync [OF None, of c] by (auto simp: classify_def sync_bytes)
next
  case (Some st)
  then have n: "n = st" using assms by (auto simp: classify_def split: prod.splits dest: at_sync_Wait)
  have "find_sync (drop st b @ c) = Some 0" by (rule find_sync_append [OF find_sync_drop [OF Some]])
  with find_sync_append [OF Some, of c] find_sync_bound [OF Some] show ?thesis
    by (auto simp: skippable_def n take_drop_append)
qed

lemma parse_append:
  "parse xs = (f1, n1, r1) \<Longrightarrow> parse (r1 @ ys) = (f2, n2, r2) \<Longrightarrow> parse (xs @ ys) = (f1 @ f2, n1 @ n2, r2)"
proof (induction xs arbitrary: f1 n1 rule: parse.induct)
  case (1 b)
  obtain v n u where c: "classify b = (v, n, u)" by (cases "classify b")
  show ?case
  proof (cases "v = Wait")
    case True
    with 1(3) c have e: "f1 = []" "n1 = take n b" "r1 = drop n b" by (simp_all add: parse.simps [of b])
    from parse_skippable [OF skippable_waiting 1(4) [unfolded e], of u] c True show ?thesis
      by (simp add: e take_drop_append)
  next
    case False
    let ?b = "drop (n + u) b"
    obtain f0 n0 r0 where p: "parse ?b = (f0, n0, r0)" by (cases "parse ?b")
    have e: "f1 = (case v of Got f \<Rightarrow> [f] | _ \<Rightarrow> []) @ f0" "n1 = take n b @ n0" "r1 = r0"
      using 1(3) c p False by (auto simp: parse.simps [of b] split: scan.splits)
    have IH: "parse (?b @ ys) = (f0 @ f2, n0 @ n2, r2)"
      using 1(1) [OF c [symmetric] refl, of f0 n0] 1(2) [OF c [symmetric] refl, of _ f0 n0] p e(3) 1(4) False
      by (cases v) auto
    have d: "n + u - length b = 0" "n - length b = 0"
      using classify_bound [OF c] by simp_all
    show ?thesis
      using IH classify_append [OF c False, of ys] False
      by (cases v) (simp_all add: parse.simps [of "b @ ys"] d e)
  qed
qed

text \<open>Property C14 (reads_may_cut_anywhere): delivering a stream in two reads, cut at any byte, leaves the
  demultiplexer in exactly the state that one read of the whole leaves it in: the same frames in
  the same order, the same console bytes, the same captured noise and count, the same rest.\<close>

theorem reads_may_cut_anywhere:
  "mux_push (xs @ ys) m = sm_bind (mux_push xs) (\<lambda>_. mux_push ys) m"
proof -
  obtain f1 n1 r1 where p: "parse (buf (dec m) @ xs) = (f1, n1, r1)" by (cases "parse (buf (dec m) @ xs)")
  obtain f2 n2 r2 where q: "parse (r1 @ ys) = (f2, n2, r2)" by (cases "parse (r1 @ ys)")
  let ?m1 = "fold route f1 (m\<lparr>dec := (lost n1 (dec m))\<lparr>buf := r1\<rparr>\<rparr>)"
  have "mux_push xs m = (Inr (), ?m1)" by (rule mux_push_parse [OF p])
  moreover have "mux_push ys ?m1 =
      (Inr (), fold route f2 (?m1\<lparr>dec := (lost n2 (dec ?m1))\<lparr>buf := r2\<rparr>\<rparr>))"
    by (rule mux_push_parse) (simp add: q)
  moreover have "mux_push (xs @ ys) m =
      (Inr (), fold route (f1 @ f2) (m\<lparr>dec := (lost (n1 @ n2) (dec m))\<lparr>buf := r2\<rparr>\<rparr>))"
    by (rule mux_push_parse) (simp add: parse_append [OF p q, simplified])
  ultimately show ?thesis by (simp add: fold_route_dec lost_append)
qed

section \<open>Bounds\<close>

lemma at_sync_Wait_bound: "at_sync b = (Wait, n, u) \<Longrightarrow> length b < HEADER + MAX_PAYLOAD + TRAILER"
  by (auto simp: at_sync_def Let_def split: if_splits option.splits)

lemma parse_rest_bound: "parse b = (fs, ns, r) \<Longrightarrow> length r < HEADER + MAX_PAYLOAD + TRAILER"
proof (induction b arbitrary: fs ns rule: parse.induct)
  case (1 b)
  obtain v n u where c: "classify b = (v, n, u)" by (cases "classify b")
  show ?case
  proof (cases v)
    case Wait
    with c have "length (drop n b) < HEADER + MAX_PAYLOAD + TRAILER"
      by (auto simp: classify_def split: option.splits if_splits prod.splits dest!: at_sync_Wait_bound)
    with c Wait 1(3) show ?thesis by (simp add: parse.simps [of b])
  next
    case Again
    with c 1(3) 1(1) [OF c [symmetric] refl Again] show ?thesis
      by (auto simp: parse.simps [of b] split: prod.splits)
  next
    case (Got f)
    with c 1(3) 1(2) [OF c [symmetric] refl Got] show ?thesis
      by (auto simp: parse.simps [of b] split: prod.splits)
  qed
qed

lemma lost_bounds:
  "length (noise d) \<le> noise_cap d \<Longrightarrow> length (noise (lost bs d)) \<le> noise_cap d"
  "length (noise d) \<le> noise_cap d \<Longrightarrow> capture d \<Longrightarrow>
    length (noise (lost bs d)) + dropped_noise (lost bs d) = length (noise d) + dropped_noise d + length bs"
  by (auto simp: lost_def Let_def)

text \<open>Property C15 (decoder_memory_is_bounded): whatever bytes arrive, pushing them never panics, at most
  one incomplete frame stays buffered, fewer than 4109 bytes, and the captured sample of
  off-protocol bytes never exceeds its cap, while the count of the bytes discarded stays exact.\<close>

theorem decoder_memory_is_bounded:
  assumes "length (noise (dec m)) \<le> noise_cap (dec m)"
  shows "case mux_push bytes m of (r, m') \<Rightarrow>
    r = Inr () \<and> length (buf (dec m')) < HEADER + MAX_PAYLOAD + TRAILER \<and>
    length (noise (dec m')) \<le> noise_cap (dec m') \<and> noise_cap (dec m') = noise_cap (dec m) \<and>
    (capture (dec m) \<longrightarrow>
      (\<exists>fs ns r. parse (buf (dec m) @ bytes) = (fs, ns, r) \<and>
        length (noise (dec m')) + dropped_noise (dec m') =
        length (noise (dec m)) + dropped_noise (dec m) + length ns))"
proof -
  obtain fs ns r where p: "parse (buf (dec m) @ bytes) = (fs, ns, r)" by (cases "parse (buf (dec m) @ bytes)")
  show ?thesis
    unfolding mux_push_parse [OF p]
    using parse_rest_bound [OF p] lost_bounds [OF assms, of ns] p by simp
qed

lemma decoder_memory_is_bounded_witness:
  "length (buf (dec (snd (mux_push (replicate 5000 0xC1) mux_capturing_noise)))) < 4109"
  using decoder_memory_is_bounded [of mux_capturing_noise "replicate 5000 0xC1"]
  by (simp add: mux_capturing_noise_def mux_new_def capturing_noise_def capturing_noise_capped_def decoder_new_def
      split: prod.splits)

end
