(* ===== verification/Wire_Codec.thy ===== *)
theory Wire_Codec
  imports Wire_Stream
begin

text \<open>
  Encoder against decoder: what \<open>encode\<close> writes is what \<open>Mux::push\<close> delivers, behind any
  off-protocol text and however the bytes are cut; and the CRC rejects every frame damaged
  within four consecutive bytes.
\<close>

section \<open>The CRC step is linear and invertible\<close>

abbreviation POLY :: u32 where "POLY \<equiv> 0xEDB88320"

lemma bit_mask_of_flag: "bit (- (x AND 1) :: u32) n \<longleftrightarrow> n < 32 \<and> bit x 0"
proof -
  have "x AND 1 = (if bit x 0 then 1 else 0)" by (simp add: and_one_eq odd_iff_mod_2_eq_one bit_0)
  then show ?thesis by simp
qed

lemma bit_crc_bit:
  "bit (crc_bit x) n \<longleftrightarrow> bit x (Suc n) \<noteq> (n < 32 \<and> bit POLY n \<and> bit x 0)"
  unfolding crc_bit_def Let_def by (auto simp: bit_xor_iff bit_and_iff bit_drop_bit_eq bit_mask_of_flag
      dest: bit_imp_le_length)

lemma crc_bit_xor: "crc_bit (x XOR y) = crc_bit x XOR crc_bit y"
  by (rule bit_word_eqI) (auto simp: bit_crc_bit bit_xor_iff)

lemma crc_bit_0 [simp]: "crc_bit 0 = 0"
  by (simp add: crc_bit_def)

lemma crc_bit_inj: "crc_bit x = crc_bit y \<Longrightarrow> x = y"
proof (rule bit_word_eqI)
  fix n assume e: "crc_bit x = crc_bit y" and n: "n < LENGTH(32)"
  have low: "bit z 0 = bit (crc_bit z) 31" for z
    by (simp add: bit_crc_bit) (auto dest: bit_imp_le_length)
  show "bit x n = bit y n"
  proof (cases n)
    case 0
    then show ?thesis by (simp add: low e)
  next
    case (Suc k)
    have "bit z n \<longleftrightarrow> bit (crc_bit z) k \<noteq> (k < 32 \<and> bit POLY k \<and> bit z 0)" for z
      unfolding bit_crc_bit Suc by blast
    then show ?thesis using e low by metis
  qed
qed

definition crc8 :: "u32 \<Rightarrow> u32" where
  "crc8 = crc_bit ^^ 8"

lemma crc_pow_xor: "(crc_bit ^^ k) (x XOR y) = (crc_bit ^^ k) x XOR (crc_bit ^^ k) y"
  by (induction k) (simp_all add: crc_bit_xor)

lemma crc_pow_inj: "(crc_bit ^^ k) x = (crc_bit ^^ k) y \<Longrightarrow> x = y"
  by (induction k) (auto dest: crc_bit_inj)

lemma crc8_xor: "crc8 (x XOR y) = crc8 x XOR crc8 y"
  unfolding crc8_def by (rule crc_pow_xor)

lemma crc8_inj: "crc8 x = crc8 y \<Longrightarrow> x = y"
  unfolding crc8_def by (rule crc_pow_inj)

lemma xor_cancel:
  "x XOR z = y XOR z \<longleftrightarrow> x = y" "z XOR x = z XOR y \<longleftrightarrow> x = y" for x y z :: u32
  by (auto simp: bit_eq_iff bit_xor_iff)

lemma crc8_pow_inj: "(crc8 ^^ k) x = (crc8 ^^ k) y \<Longrightarrow> x = y"
  by (induction k) (auto dest: crc8_inj)

lemma crc_byte_eq: "crc_byte c b = crc8 (c XOR ucast b)"
  by (simp add: crc_byte_def crc8_def)

lemma crc_bit_push: "bit x 0 = False \<Longrightarrow> crc_bit x = drop_bit 1 x"
  by (rule bit_word_eqI) (simp add: bit_crc_bit bit_drop_bit_eq)

lemma crc_bit_pow_push:
  "(\<And>i. i < k \<Longrightarrow> \<not> bit x i) \<Longrightarrow> (crc_bit ^^ k) x = drop_bit k x"
proof (induction k)
  case (Suc k)
  then have "(crc_bit ^^ k) x = drop_bit k x" by simp
  moreover have "\<not> bit (drop_bit k x) 0" using Suc.prems [of k] by (simp add: bit_drop_bit_eq)
  ultimately show ?case by (simp add: crc_bit_push add.commute)
qed simp

lemma crc8_push: "take_bit 24 w = w \<Longrightarrow> crc8 (push_bit 8 w) = w"
proof -
  assume w: "take_bit 24 w = w"
  have "crc8 (push_bit 8 w) = drop_bit 8 (push_bit 8 w)"
    unfolding crc8_def by (rule crc_bit_pow_push) (simp add: bit_push_bit_iff)
  also have "\<dots> = w"
  proof (rule bit_word_eqI)
    fix n
    have "bit w n \<longleftrightarrow> n < 24 \<and> bit w n" using w by (metis bit_take_bit_iff)
    then show "bit (drop_bit 8 (push_bit 8 w)) n = bit w n"
      by (auto simp: bit_drop_bit_eq bit_push_bit_iff)
  qed
  finally show ?thesis .
qed

lemma crc_fold_short:
  "length l \<le> 4 \<Longrightarrow> foldl crc_byte s l = (crc8 ^^ length l) (s XOR from_le l)"
proof (induction l arbitrary: s)
  case (Cons b l)
  let ?w = "from_le l :: u32"
  have w: "take_bit 24 ?w = ?w"
    by (rule bit_word_eqI) (use Cons.prems in \<open>auto simp: bit_take_bit_iff bit_from_le\<close>)
  have e: "from_le (b # l) = ucast b XOR push_bit 8 ?w"
    by (rule bit_word_eqI) (auto simp: bit_or_iff bit_xor_iff bit_push_bit_iff bit_ucast_iff dest: bit_imp_le_length)
  have "s XOR from_le (b # l) = (s XOR ucast b) XOR push_bit 8 ?w" unfolding e xor.assoc ..
  then have "crc8 (s XOR from_le (b # l)) = crc8 (s XOR ucast b) XOR ?w"
    by (simp only: crc8_xor crc8_push [OF w])
  then show ?case using Cons by (simp add: crc_byte_eq funpow_swap1)
qed simp

lemma crc_fold_inj: "foldl crc_byte s l = foldl crc_byte t l \<Longrightarrow> s = t"
proof (induction l arbitrary: s t)
  case (Cons b l)
  then have "crc_byte s b = crc_byte t b" unfolding foldl_Cons by blast
  then have "s XOR ucast b = t XOR ucast b" unfolding crc_byte_eq by (rule crc8_inj)
  then show ?case unfolding xor_cancel .
qed simp

lemma NOT_cancel: "NOT x = NOT y \<longleftrightarrow> x = y" for x y :: u32
  by (simp add: bit.compl_eq_compl_iff)

lemma crc_detects_burst:
  assumes "length x = length y" and "length x \<le> 4" and "x \<noteq> y"
  shows "crc32 (a @ x @ b) \<noteq> crc32 (a @ y @ b)"
proof
  let ?s = "foldl crc_byte (NOT 0) a"
  assume "crc32 (a @ x @ b) = crc32 (a @ y @ b)"
  then have "foldl crc_byte (foldl crc_byte ?s x) b = foldl crc_byte (foldl crc_byte ?s y) b"
    unfolding crc32_def foldl_append NOT_cancel .
  then have "foldl crc_byte ?s x = foldl crc_byte ?s y" by (rule crc_fold_inj)
  then have "(crc8 ^^ length y) (?s XOR from_le x) = (crc8 ^^ length y) (?s XOR from_le y)"
    using assms(1,2) crc_fold_short [of x ?s] crc_fold_short [of y ?s] by metis
  then have "?s XOR from_le x = ?s XOR (from_le y :: u32)" by (rule crc8_pow_inj)
  then have "from_le x = (from_le y :: u32)" unfolding xor_cancel .
  then show False
    using to_le_from_le [of x, where 'a = 32] to_le_from_le [of y, where 'a = 32] assms by simp
qed

section \<open>One encoded frame\<close>

text \<open>The frames \<open>encode\<close> writes for one frame: a console frame is cut into payload-sized pieces.\<close>

fun pieces :: "wire_frame \<Rightarrow> wire_frame list" where
  "pieces (ConOut b) = (if b = [] then [ConOut []] else map ConOut (chunks MAX_PAYLOAD b))"
| "pieces (ConIn b) = (if b = [] then [ConIn []] else map ConIn (chunks MAX_PAYLOAD b))"
| "pieces f = [f]"

fun payload :: "wire_frame \<Rightarrow> u8 list" where
  "payload (ReadReq page) = to_le 4 page"
| "payload (ReadResp page data) = to_le 4 page @ data"
| "payload (WriteReq page data) = to_le 4 page @ data"
| "payload (WriteAck page) = to_le 4 page"
| "payload (ConOut b) = b"
| "payload (ConIn b) = b"
| "payload (ErrFrame code page) = to_le 2 code @ to_le 4 page"

definition small :: "wire_frame \<Rightarrow> bool" where
  "small f \<longleftrightarrow> frame_ok f \<and> length (payload f) \<le> MAX_PAYLOAD"

abbreviation encode_one :: "wire_frame \<Rightarrow> u8 list" where
  "encode_one f \<equiv> encode_frame_body (type_byte f) (payload f) []"

lemma encode_frame_body_out: "encode_frame_body ty p out = out @ encode_frame_body ty p []"
  by (simp add: encode_frame_body_def Let_def)

lemma foldl_encode:
  "foldl (\<lambda>out chunk. encode_frame_body ty chunk out) out cs =
   out @ concat (map (\<lambda>chunk. encode_frame_body ty chunk []) cs)"
proof (induction cs arbitrary: out)
  case (Cons c cs)
  show ?case by (simp add: Cons.IH [of "out @ encode_frame_body ty c []"] encode_frame_body_out [of ty c out])
qed simp

lemma chunks_Nil [simp]: "chunks n [] = []"
  by (simp add: chunks.simps)

lemma encode_pieces: "encode f out = out @ concat (map encode_one (pieces f))"
proof (cases f)
  case (ConOut b)
  then show ?thesis by (simp add: encode_console_def foldl_encode Let_def encode_frame_body_out [of 5 "[]" out] comp_def)
next
  case (ConIn b)
  then show ?thesis by (simp add: encode_console_def foldl_encode Let_def encode_frame_body_out [of 6 "[]" out] comp_def)
qed (simp_all add: encode_frame_body_out [of _ _ out])

lemma chunks_props:
  assumes "0 < n"
  shows "concat (chunks n xs) = xs" and "\<forall>c \<in> set (chunks n xs). length c \<le> n"
proof -
  have "concat (chunks n xs) = xs \<and> (\<forall>c \<in> set (chunks n xs). length c \<le> n)" using assms
  proof (induction n xs rule: chunks.induct)
    case (1 n xs)
    then show ?case by (cases "xs = []") (simp_all add: chunks.simps [of n xs])
  qed
  then show "concat (chunks n xs) = xs" "\<forall>c \<in> set (chunks n xs). length c \<le> n" by auto
qed

lemma pieces_small: "frame_ok f \<Longrightarrow> \<forall>g \<in> set (pieces f). small g"
  using chunks_props(2) [of MAX_PAYLOAD] by (cases f) (auto simp: small_def)

lemma route_pieces: "fold route (pieces f) m = route f m"
proof -
  have out: "fold route (map ConOut cs) m = m\<lparr>console := console m @ concat cs\<rparr>" for cs m
    by (induction cs arbitrary: m) simp_all
  have "in": "fold route (map ConIn cs) m = m\<lparr>console := console m @ concat cs\<rparr>" for cs m
    by (induction cs arbitrary: m) simp_all
  show ?thesis by (cases f) (simp_all add: out "in" chunks_props(1))
qed

lemma decode_payload: "frame_ok f \<Longrightarrow> decode_body (type_byte f) (payload f) = Some f"
  by (cases f) (simp_all add: decode_body_def Let_def slice_def)

lemma find_sync_encoded: "find_sync (encode_frame_body ty p [] @ rest) = Some 0"
  by (simp add: encode_frame_body_def Let_def sync_bytes)

lemma at_sync_shape:
  fixes p :: "u8 list"
  assumes "length p \<le> MAX_PAYLOAD" and "length crc = 4"
  shows "at_sync (to_le 2 SYNC @ (ty # to_le 2 (of_nat (length p) :: u16) @ p) @ crc @ rest) =
    (if crc32 (ty # to_le 2 (of_nat (length p) :: u16) @ p) \<noteq> from_le crc then (Again, 2, 0)
     else (case decode_body ty p of Some f \<Rightarrow> Got f | None \<Rightarrow> Again, 0, HEADER + length p + TRAILER))"
proof -
  obtain l0 l1 where l: "to_le 2 (of_nat (length p) :: u16) = [l0, l1]"
    by (simp add: numeral_2_eq_2)
  have len: "unat (from_le [l0, l1] :: u16) = length p"
    unfolding l [symmetric] using assms(1) by (simp add: unat_of_nat take_bit_nat_eq_self)
  let ?b = "[0xC1, 0xB0, ty, l0, l1] @ p @ crc @ rest"
  have s: "slice 3 2 ?b = [l0, l1]" "slice 2 (HEADER + length p - 2) ?b = [ty, l0, l1] @ p"
    "slice HEADER (length p) ?b = p" "slice (HEADER + length p) 4 ?b = crc" "?b ! 2 = ty"
    using assms(2) by (simp_all add: slice_def eval_nat_numeral)
  have "at_sync ?b =
      (if crc32 ([ty, l0, l1] @ p) \<noteq> from_le crc then (Again, 2, 0)
       else (case decode_body ty p of Some f \<Rightarrow> Got f | None \<Rightarrow> Again, 0, HEADER + length p + TRAILER))"
    unfolding at_sync_def s Let_def len using assms by simp
  then show ?thesis by (simp add: l sync_bytes)
qed

lemma parse_encoded:
  assumes "small f" and "parse rest = (fs, ns, r)"
  shows "parse (encode_one f @ rest) = (f # fs, ns, r)"
proof -
  let ?b = "encode_one f @ rest" and ?p = "payload f"
  have p: "length ?p \<le> MAX_PAYLOAD" and d: "decode_body (type_byte f) ?p = Some f"
    using assms(1) by (simp_all add: small_def decode_payload)
  have "at_sync ?b = (Got f, 0, HEADER + length ?p + TRAILER)"
    using at_sync_shape [OF p, of "to_le 4 (crc32 (type_byte f # to_le 2 (of_nat (length ?p) :: u16) @ ?p))" "type_byte f" rest]
    by (simp add: encode_frame_body_def Let_def d)
  then have c: "classify ?b = (Got f, 0, HEADER + length ?p + TRAILER)"
    by (simp add: classify_def find_sync_encoded)
  have "HEADER + length ?p + TRAILER = length (encode_one f)"
    by (simp add: encode_frame_body_def Let_def)
  then have "drop (HEADER + length ?p + TRAILER) ?b = rest" by simp
  then show ?thesis by (simp add: parse.simps [of ?b] c assms(2))
qed

lemma parse_encoded_list:
  assumes "\<forall>f \<in> set fs. small f" and "parse rest = (gs, ns, r)"
  shows "parse (concat (map encode_one fs) @ rest) = (fs @ gs, ns, r)"
  using assms by (induction fs) (simp_all add: parse_encoded)

lemma find_sync_skip:
  assumes "find_sync g = None" and "b = 0xC1 # t" and "find_sync b = Some 0"
  shows "find_sync (g @ b) = Some (length g)"
  using assms
proof (induction g rule: find_sync.induct)
  case (2 v)
  then show ?case by (auto simp: sync_bytes)
qed (auto split: if_splits)

lemma parse_nil [simp]: "parse [] = ([], [], [])"
  by (simp add: parse.simps [of "[]"] classify_def)

lemma fold_encode: "fold encode fs out = out @ concat (map encode_one (concat (map pieces fs)))"
  by (induction fs arbitrary: out) (simp_all add: encode_pieces)

lemma fold_route_pieces: "fold route (concat (map pieces fs)) m = fold route fs m"
  by (induction fs arbitrary: m) (simp_all add: route_pieces)

lemma pieces_nonempty: "pieces f \<noteq> []"
  by (cases f) (auto simp: chunks.simps [of MAX_PAYLOAD])

lemma link_parse:
  assumes "find_sync g = None" and "fs \<noteq> []" and "\<forall>f \<in> set fs. frame_ok f"
  shows "parse (fold encode fs g) = (concat (map pieces fs), g, [])"
proof -
  let ?l = "concat (map pieces fs)" and ?b = "concat (map encode_one (concat (map pieces fs)))"
  have small: "\<forall>f \<in> set ?l. small f" using assms(3) pieces_small by auto
  obtain f l where fl: "?l = f # l" using assms(2) pieces_nonempty by (cases fs; cases "pieces (hd fs)") auto
  then have b: "?b = encode_one f @ concat (map encode_one l)" by simp
  have z: "find_sync ?b = Some 0" unfolding b by (rule find_sync_encoded)
  obtain t where t: "?b = 0xC1 # t" unfolding b by (simp add: encode_frame_body_def Let_def sync_bytes)
  have "skippable g ?b"
    using find_sync_skip [OF assms(1) t z] z t unfolding skippable_def by simp
  moreover have "parse (?b @ []) = (?l @ [], [], [])" by (rule parse_encoded_list [OF small]) simp
  ultimately show ?thesis using parse_skippable [of g ?b ?l "[]" "[]"] by (simp add: fold_encode)
qed

text \<open>Property C13 (link_delivers_frames): frames written by the encoder behind any off-protocol text that
  holds no sync word arrive at the demultiplexer complete and in order: console frames join the
  console stream byte for byte, however long, the others the queue, the text is captured as
  noise and nothing stays buffered.\<close>

theorem link_delivers_frames:
  assumes "find_sync text = None" and "fs \<noteq> []" and "\<forall>f \<in> set fs. frame_ok f" and "buf (dec m) = []"
  shows "mux_push (fold encode fs text) m = (Inr (), fold route fs (m\<lparr>dec := lost text (dec m)\<rparr>))"
proof -
  have "parse (buf (dec m) @ fold encode fs text) = (concat (map pieces fs), text, [])"
    using link_parse [OF assms(1,2,3)] assms(4) by simp
  moreover have "(lost text (dec m))\<lparr>buf := []\<rparr> = lost text (dec m)"
    using assms(4) by (simp add: decoder.equality)
  ultimately show ?thesis using mux_push_parse [of m "fold encode fs text"] by (simp add: fold_route_pieces)
qed

lemma link_delivers_frames_witness:
  "mux_push (fold encode [ConOut [104, 105], ReadReq 7] [0x50, 0xC1]) mux_capturing_noise =
   (Inr (), \<lparr>dec = \<lparr>buf = [], noise = [0x50, 0xC1], dropped_noise = 0, capture = True, noise_cap = MAX_NOISE\<rparr>,
     console = [104, 105], held = [ReadReq 7]\<rparr>)"
  using link_delivers_frames [of "[0x50, 0xC1]" "[ConOut [104, 105], ReadReq 7]" mux_capturing_noise]
  by (simp add: sync_bytes mux_capturing_noise_def mux_new_def capturing_noise_def capturing_noise_capped_def
      decoder_new_def lost_def)

lemma drop_length_append: "drop (length xs) (xs @ ys) = ys"
  by simp

text \<open>Property C16 (damaged_frame_is_rejected): a frame whose payload was damaged within four consecutive
  bytes never becomes a frame: its CRC does not match, and the decoder discards the sync word as
  noise and scans on, without a panic.\<close>

theorem damaged_frame_is_rejected:
  assumes "length x = length y" and "length x \<le> 4" and "x \<noteq> y" and "length (a @ x @ b) \<le> MAX_PAYLOAD"
    and "sent = encode_frame_body ty (a @ x @ b) []"
    and "buf d = take (HEADER + length a) sent @ y @ drop (HEADER + length (a @ x)) sent @ rest"
  shows "scan_once d = (Inr Again, (lost (to_le 2 SYNC) d)\<lparr>buf := drop 2 (buf d)\<rparr>)"
proof -
  let ?len = "to_le 2 (of_nat (length (a @ x @ b)) :: u16)" and ?p = "a @ y @ b"
  let ?crc = "to_le 4 (crc32 (ty # ?len @ a @ x @ b))"
  have l: "length ?p = length (a @ x @ b)" using assms(1) by simp
  let ?pre = "to_le 2 SYNC @ ty # ?len @ a" and ?post = "b @ ?crc"
  have sent: "sent = ?pre @ x @ ?post"
    unfolding assms(5) by (simp only: encode_frame_body_def Let_def append_Nil append_Cons append_assoc)
  have n: "HEADER + length a = length ?pre" "HEADER + length (a @ x) = length (?pre @ x)" by simp_all
  have "take (HEADER + length a) sent = ?pre" unfolding n sent by simp
  moreover have "drop (HEADER + length (a @ x)) sent = ?post"
    unfolding n sent append_assoc [symmetric, of ?pre x] by (rule drop_length_append)
  ultimately have b: "buf d = to_le 2 SYNC @ (ty # ?len @ ?p) @ ?crc @ rest"
    unfolding assms(6) using assms(1) by simp
  have "crc32 (ty # ?len @ a @ y @ b) \<noteq> crc32 (ty # ?len @ a @ x @ b)"
    using crc_detects_burst [of y x "ty # ?len @ a" b] assms(1-3) by simp
  then have "at_sync (buf d) = (Again, 2, 0)"
    unfolding b using at_sync_shape [of ?p ?crc ty rest] assms(4) l by simp
  moreover have "find_sync (buf d) = Some 0" unfolding b by (simp add: sync_bytes)
  ultimately have "classify (buf d) = (Again, 2, 0)" by (simp add: classify_def)
  from scan_once_ok [OF this] show ?thesis unfolding b by simp
qed

lemma damaged_frame_is_rejected_witness:
  "fst (scan_once (decoder_new\<lparr>buf := take 5 (encode (ReadReq 7) []) @ [8] @ drop 6 (encode (ReadReq 7) [])\<rparr>)) = Inr Again"
proof -
  have four: "(4 :: nat) = Suc (Suc (Suc (Suc 0)))" by simp
  have "to_le 4 (7 :: u32) = [7, 0, 0, 0]" unfolding four to_le.simps by simp
  then have "encode (ReadReq 7) [] = encode_frame_body 1 ([] @ [7] @ [0, 0, 0]) []" by simp
  with damaged_frame_is_rejected [of "[7]" "[8]" "[]" "[0, 0, 0]" _ 1
      "decoder_new\<lparr>buf := take 5 (encode (ReadReq 7) []) @ [8] @ drop 6 (encode (ReadReq 7) [])\<rparr>" "[]"]
  show ?thesis by simp
qed

end
