(* ===== verification/Serve_Props.thy ===== *)
theory Serve_Props
  imports Serve Wire_Codec
begin

text \<open>
  The keyboard pump does not depend on how its input is cut and never sends an empty frame, and the
  server answers a request delivered to an idle link with exactly its reply.
\<close>

section \<open>The keyboard pump\<close>

lemma pump_bytes_append:
  "pump_bytes esc (xs @ ys) =
     (case pump_bytes esc xs of (p, e, q) \<Rightarrow>
        if q then (p, e, q) else case pump_bytes e ys of (p', e', q') \<Rightarrow> (p @ p', e', q'))"
  by (induction esc xs rule: pump_bytes.induct) (simp_all split: prod.splits if_splits)

text \<open>The frames of the reads are the pieces of one pass over all of the input.\<close>

lemma pump_input_pieces:
  assumes "[] \<notin> set reads"
  shows "\<exists>ps. fst (pump_input escaped reads) = map (\<lambda>p. encode (ConIn p) []) ps \<and> [] \<notin> set ps \<and>
    (case pump_bytes escaped (concat reads) of (keys, _, quit) \<Rightarrow>
       concat ps = keys \<and> snd (pump_input escaped reads) = (if quit then Some Quit else None))"
  using assms
proof (induction escaped reads rule: pump_input.induct)
  case (2 escaped r reads)
  obtain p e q where r: "pump_bytes escaped r = (p, e, q)" by (cases "pump_bytes escaped r")
  have ne: "r \<noteq> []" "[] \<notin> set reads" using 2(2) by auto
  show ?case
  proof (cases q)
    case True
    have "fst (pump_input escaped (r # reads)) = map (\<lambda>p. encode (ConIn p) []) (if p = [] then [] else [p])"
      "snd (pump_input escaped (r # reads)) = Some Quit"
      using r ne True by (simp_all add: Let_def)
    moreover have "pump_bytes escaped (concat (r # reads)) = (p, e, True)"
      using r True by (simp add: pump_bytes_append)
    ultimately show ?thesis by (intro exI [of _ "if p = [] then [] else [p]"]) auto
  next
    case False
    obtain ps where ps: "fst (pump_input e reads) = map (\<lambda>p. encode (ConIn p) []) ps" "[] \<notin> set ps"
      "case pump_bytes e (concat reads) of (keys, _, quit) \<Rightarrow>
         concat ps = keys \<and> snd (pump_input e reads) = (if quit then Some Quit else None)"
      using 2(1) [OF ne(1) r [symmetric] refl refl False ne(2)] by (elim exE conjE) (rule that)
    obtain p' e' q' where k: "pump_bytes e (concat reads) = (p', e', q')" by (cases "pump_bytes e (concat reads)")
    have "fst (pump_input escaped (r # reads)) = map (\<lambda>p. encode (ConIn p) []) ((if p = [] then [] else [p]) @ ps)"
      "snd (pump_input escaped (r # reads)) = snd (pump_input e reads)"
      using r ne False ps(1) by (auto simp: Let_def split: prod.splits)
    moreover have "pump_bytes escaped (concat (r # reads)) = (p @ p', e', q')"
      using r False k by (simp add: pump_bytes_append)
    ultimately show ?thesis
      using ps(2,3) k by (intro exI [of _ "(if p = [] then [] else [p]) @ ps"]) auto
  qed
qed simp

text \<open>
  What is typed: a plain key is one byte, neither the escape \<open>Ctrl-]\<close> nor the quit \<open>Ctrl-C\<close>; any key
  can be typed behind an escape, the escape and the quit themselves included.
\<close>

datatype keystroke = Typed u8 | Behind_Escape u8

fun key_bytes :: "keystroke \<Rightarrow> u8 list" where
  "key_bytes (Typed b) = [b]"
| "key_bytes (Behind_Escape b) = [0x1D, b]"

fun key_meant :: "keystroke \<Rightarrow> u8" where
  "key_meant (Typed b) = b"
| "key_meant (Behind_Escape b) = b"

fun plain_enough :: "keystroke \<Rightarrow> bool" where
  "plain_enough (Typed b) \<longleftrightarrow> b \<noteq> 0x1D \<and> b \<noteq> 0x03"
| "plain_enough (Behind_Escape b) \<longleftrightarrow> True"

lemma pump_bytes_keys:
  "pump_bytes escaped bs = (p, e, q) \<Longrightarrow>
   \<exists>ks more. (if escaped then [0x1D] else []) @ bs = concat (map key_bytes ks) @ more \<and> list_all plain_enough ks \<and>
     p = map key_meant ks \<and> (if q then \<exists>rest. more = 0x03 # rest else more = (if e then [0x1D] else []))"
proof (induction escaped bs arbitrary: p e q rule: pump_bytes.induct)
  case (1 escaped)
  then show ?case by (intro exI [of _ "[]"] exI [of _ "if escaped then [0x1D] else []"]) auto
next
  case (2 escaped b bs)
  consider "escaped" | "\<not> escaped" "b = 0x1D" | "\<not> escaped" "b = 0x03" | "\<not> escaped" "b \<noteq> 0x1D" "b \<noteq> 0x03" by blast
  then show ?case
  proof cases
    case 1
    then obtain p' where p: "p = b # p'" "pump_bytes False bs = (p', e, q)" using 2(4) by (auto split: prod.splits)
    from 2(1) [OF 1 p(2)] obtain ks more where "bs = concat (map key_bytes ks) @ more" "list_all plain_enough ks" "p' = map key_meant ks"
      "if q then \<exists>rest. more = 0x03 # rest else more = (if e then [0x1D] else [])" by auto
    with 1 p(1) show ?thesis by (intro exI [of _ "Behind_Escape b # ks"] exI [of _ more]) simp
  next
    case 2
    with "2.IH"(2) "2.prems" show ?thesis by simp
  next
    case 3
    with "2.prems" show ?thesis by (intro exI [of _ "[]"] exI [of _ "b # bs"]) auto
  next
    case 4
    then obtain p' where p: "p = b # p'" "pump_bytes False bs = (p', e, q)" using "2.prems" by (auto split: prod.splits)
    from "2.IH"(3) [OF _ _ _ p(2)] 4 obtain ks more where "bs = concat (map key_bytes ks) @ more" "list_all plain_enough ks" "p' = map key_meant ks"
      "if q then \<exists>rest. more = 0x03 # rest else more = (if e then [0x1D] else [])" by auto
    with 4 p(1) show ?thesis by (intro exI [of _ "Typed b # ks"] exI [of _ more]) simp
  qed
qed

text \<open>Property C34 (keyboard_frames_are_the_keys): all of the input, wherever the reads cut it, is a
  sequence of keys, plain or behind an escape, with nothing behind them but an escape whose key is
  yet to come, or, exactly if the pump quits, an unescaped quit and whatever follows it. The frames
  the pump sends carry exactly the keys meant, in order, a doubled escape as one escape; no frame
  is empty.\<close>

theorem keyboard_frames_are_the_keys:
  assumes "[] \<notin> set reads"
  shows "\<exists>ps ks more. fst (pump_input escaped reads) = map (\<lambda>p. encode (ConIn p) []) ps \<and> [] \<notin> set ps \<and>
    (if escaped then [0x1D] else []) @ concat reads = concat (map key_bytes ks) @ more \<and> list_all plain_enough ks \<and>
    concat ps = map key_meant ks \<and>
    (case snd (pump_input escaped reads) of
       None \<Rightarrow> more = [] \<or> more = [0x1D]
     | Some Quit \<Rightarrow> (\<exists>rest. more = 0x03 # rest)
     | Some Eof \<Rightarrow> False)"
proof -
  obtain p e q where b: "pump_bytes escaped (concat reads) = (p, e, q)" by (cases "pump_bytes escaped (concat reads)")
  obtain ps where ps: "fst (pump_input escaped reads) = map (\<lambda>p. encode (ConIn p) []) ps" "[] \<notin> set ps" "concat ps = p"
      "snd (pump_input escaped reads) = (if q then Some Quit else None)"
    using pump_input_pieces [OF assms, of escaped] b by auto
  with pump_bytes_keys [OF b] show ?thesis by (elim exE) (intro exI [of _ ps], auto split: if_splits)
qed

lemma keyboard_frames_are_the_keys_witness:
  "\<exists>ps ks more. fst (pump_input False [[0x6C, 0x1D], [0x1D, 0x1D, 0x03, 0x0A], [0x03, 0x71]]) = map (\<lambda>p. encode (ConIn p) []) ps \<and>
     [0x6C, 0x1D, 0x1D, 0x1D, 0x03, 0x0A, 0x03, 0x71] = concat (map key_bytes ks) @ 0x03 # more \<and> list_all plain_enough ks \<and>
     concat ps = map key_meant ks"
proof -
  let ?in = "[[0x6C, 0x1D], [0x1D, 0x1D, 0x03, 0x0A], [0x03, 0x71]] :: u8 list list"
  have q: "snd (pump_input False ?in) = Some Quit" by (simp add: Let_def)
  have c: "concat ?in = [0x6C, 0x1D, 0x1D, 0x1D, 0x03, 0x0A, 0x03, 0x71]" by simp
  from keyboard_frames_are_the_keys [of ?in False, unfolded q c] show ?thesis
    by (simp del: pump_input.simps encode.simps) blast
qed

section \<open>One request\<close>

text \<open>A link on which nothing is outstanding.\<close>

definition idle_mux :: "mux \<Rightarrow> bool" where
  "idle_mux m \<longleftrightarrow> buf (dec m) = [] \<and> held m = [] \<and> noise (dec m) = [] \<and> dropped_noise (dec m) = 0 \<and> console m = []"

definition is_request :: "wire_frame \<Rightarrow> bool" where
  "is_request f \<longleftrightarrow> type_byte f \<in> {1, 3} \<and> frame_ok f"

lemma push_frame:
  assumes "frame_ok f" and "buf (dec m) = []"
  shows "mux_push (encode f []) m = (Inr (), route f m)"
proof -
  have "parse (buf (dec m) @ encode f []) = (pieces f, [], [])"
    using link_parse [of "[]" "[f]"] assms by simp
  moreover have "(dec m)\<lparr>buf := []\<rparr> = dec m" using assms(2) by (simp add: decoder.equality)
  ultimately show ?thesis using mux_push_parse [of m "encode f []"] by (simp add: route_pieces)
qed

lemma take_only:
  "held m = [f] \<Longrightarrow> take_matching ty m = (if type_byte f = ty then (Some f, m\<lparr>held := []\<rparr>) else (None, m))"
  by (simp add: take_matching_def)

lemma take_none: "held m = [] \<Longrightarrow> take_matching ty m = (None, m)"
  by (simp add: take_matching_def)

lemma serve_once_request:
  assumes idle: "idle_mux (smux s)" and f: "is_request f" and o: "out s = []"
    and r: "serve_frame F len f (img s) = Some (req, reply, f')"
  shows "serve_once F len (encode f []) s =
    (Inr \<lparr>con_bytes = [], noise_bytes = [], noise_more = 0\<rparr>,
     s\<lparr>img := f', out := encode reply [], answered := [req]\<rparr>)"
proof -
  let ?m = "smux s"
  have m: "buf (dec ?m) = []" "held ?m = []" "noise (dec ?m) = []" "dropped_noise (dec ?m) = 0" "console ?m = []"
    using idle by (simp_all add: idle_mux_def)
  have route: "route f ?m = ?m\<lparr>held := [f]\<rparr>" using f m(2) by (cases f) (simp_all add: is_request_def)
  have next1: "next_request (?m\<lparr>held := [f]\<rparr>) = (Some f, ?m)"
    using f m(2) by (auto simp: next_request_def take_only is_request_def)
  have next2: "next_request ?m = (None, ?m)" using m(2) by (simp add: next_request_def take_none)
  have loop: "serve_loop F len (s\<lparr>smux := ?m\<lparr>held := [f]\<rparr>, answered := []\<rparr>) =
      (Inr (), s\<lparr>img := f', out := encode reply [], answered := [req]\<rparr>)"
    by (subst serve_loop.simps) (simp add: next1 r o, subst serve_loop.simps, simp add: next2)
  have push: "mux_push (encode f []) ?m = (Inr (), ?m\<lparr>held := [f]\<rparr>)"
    using push_frame [of f ?m] f m(1) route by (simp add: is_request_def)
  have con: "take_console ?m = ([], ?m)" using m(5) by (simp add: take_console_def)
  have nse: "mux_take_noise ?m = (([], 0), ?m)"
    using m(3,4) by (simp add: mux_take_noise_def take_noise_def)
  show ?thesis by (simp add: serve_once_def push loop con nse)
qed

end
