(* ===== verification/Link_Safe.thy ===== *)
theory Link_Safe
  imports Link Wire_Codec
begin

text \<open>
  What the link promises on any transport: a paced send hands over every byte exactly once and in
  order; an exchange transmits only behind a confirmed park and inside its deadline, at most four
  times, and returns only an answer for the page it asked for that was completed by bytes delivered
  after the last transmission; and it returns at all as soon as the transport's clock moves.
\<close>

section \<open>The paced sender\<close>

text \<open>
  A sink that takes a prefix of what it is offered and reports its length; \<open>taken\<close> is what it has
  taken so far. Waiting and reading the clock take nothing.
\<close>

definition sink_law ::
  "(u8 list \<Rightarrow> 's \<Rightarrow> ('e + nat) \<times> 's) \<Rightarrow> ('s \<Rightarrow> 's) \<Rightarrow> ('s \<Rightarrow> bool \<times> 's) \<Rightarrow> ('s \<Rightarrow> u8 list) \<Rightarrow> bool" where
  "sink_law write_some gap out_of_time taken \<longleftrightarrow>
     (\<forall>bs s. case write_some bs s of
        (Inr n, s') \<Rightarrow> n \<le> length bs \<and> taken s' = taken s @ take n bs
      | (Inl _, s') \<Rightarrow> taken s' = taken s) \<and>
     (\<forall>s. taken (gap s) = taken s) \<and> (\<forall>s. taken (snd (out_of_time s)) = taken s)"

lemma sink_lawD:
  assumes "sink_law w g t taken"
  shows "w bs s = (Inr n, s') \<Longrightarrow> n \<le> length bs \<and> taken s' = taken s @ take n bs"
    and "w bs s = (Inl e, s') \<Longrightarrow> taken s' = taken s"
    and "taken (g s) = taken s" and "t s = (b, s') \<Longrightarrow> taken s' = taken s"
proof -
  from assms have "case w bs s of (Inr n, s') \<Rightarrow> n \<le> length bs \<and> taken s' = taken s @ take n bs
      | (Inl _, s') \<Rightarrow> taken s' = taken s"
    and g: "taken (g s) = taken s" and t: "taken (snd (t s)) = taken s" by (auto simp: sink_law_def)
  then show "w bs s = (Inr n, s') \<Longrightarrow> n \<le> length bs \<and> taken s' = taken s @ take n bs"
    and "w bs s = (Inl e, s') \<Longrightarrow> taken s' = taken s"
    and "taken (g s) = taken s" and "t s = (b, s') \<Longrightarrow> taken s' = taken s" by auto
qed

text \<open>How a send ends, relative to what had been taken before it.\<close>

definition send_outcome :: "u8 list \<Rightarrow> u8 list \<Rightarrow> 'e send_fault + unit \<Rightarrow> u8 list \<Rightarrow> bool" where
  "send_outcome bytes before r after \<longleftrightarrow>
     (\<exists>k \<le> length bytes. after = before @ take k bytes \<and>
        (case r of
           Inr _ \<Rightarrow> k = length bytes
         | Inl (TimedOut_F sent len) \<Rightarrow> sent = k \<and> len = length bytes \<and> k < length bytes
         | Inl _ \<Rightarrow> k < length bytes))"

lemma send_loop_outcome:
  "sink_law w g t taken \<Longrightarrow> sent \<le> length bytes \<Longrightarrow> taken s = before @ take sent bytes \<Longrightarrow>
   send_loop w g t chunk bytes sent idle first s = (r, s') \<Longrightarrow> send_outcome bytes before r (taken s')"
proof (induction w g t chunk bytes sent idle first s rule: send_loop.induct)
  case (1 w g t chunk bytes sent idle first s)
  note law = sink_lawD [OF 1(3)] and run = 1(6) [unfolded send_loop.simps [of w g t chunk bytes sent idle first s]]
  show ?case
  proof (cases "length bytes \<le> sent")
    case True
    with run 1(4,5) show ?thesis by (auto simp: send_outcome_def intro!: exI [of _ "length bytes"])
  next
    case False
    then have short: "sent < length bytes" by simp
    obtain late s1 where t: "t s = (late, s1)" by force
    have s1: "taken s1 = before @ take sent bytes" using law(4) [OF t] 1(5) by simp
    let ?s2 = "if first then s1 else g s1" and ?hi = "min (length bytes) (sent + max chunk 1)"
    have s2: "taken ?s2 = before @ take sent bytes" using s1 law(3) by simp
    obtain r3 s3 where w: "w (slice sent (?hi - sent) bytes) ?s2 = (r3, s3)" by force
    show ?thesis
    proof (cases late)
      case True
      with run t short s1 show ?thesis by (auto simp: send_outcome_def)
    next
      case on_time: False
      note run = run [unfolded Let_def] and steps = 1(1,2) [OF False t [symmetric] on_time refl refl w [symmetric]]
      show ?thesis
      proof (cases r3)
        case (Inl e)
        with run t on_time w False law(2) [of _ _ e s3] s2 short show ?thesis
          by (auto simp: send_outcome_def intro!: exI [of _ sent])
      next
        case (Inr n)
        note taken3 = law(1) [OF w [unfolded Inr]]
        have "sent + (?hi - sent) \<le> length bytes" using short by linarith
        with taken3 have nk: "n \<le> ?hi - sent" and n: "n \<le> length bytes - sent" by (auto simp: length_slice)
        have "take n (slice sent (?hi - sent) bytes) = take n (drop sent bytes)"
          by (simp only: slice_def take_take min_absorb1 [OF nk])
        then have s3: "taken s3 = before @ take (sent + n) bytes"
          using taken3 s2 by (simp add: take_add)
        show ?thesis
        proof (cases "n = 0")
          case True
          with s3 run t on_time w False Inr short steps(1) [OF Inr] 1(3) show ?thesis
            by (auto simp: send_outcome_def intro!: exI [of _ sent] split: if_splits)
        next
          case more: False
          with s3 n run t on_time w False Inr short steps(2) [OF Inr] 1(3) show ?thesis by auto
        qed
      qed
    qed
  qed
qed

text \<open>Property C23 (paced_send_is_exact): a paced send always ends, and whatever the sink did, refused,
  took in part, failed, it has handed over an exact prefix of the bytes, each once and in order:
  all of them if it reports success, and on its deadline exactly as many as the report says.\<close>

theorem paced_send_is_exact:
  assumes "sink_law write_some gap out_of_time taken"
  shows "case send_paced write_some gap out_of_time chunk bytes s of (r, s') \<Rightarrow>
    send_outcome bytes (taken s) r (taken s')"
  using send_loop_outcome [OF assms, of 0 bytes s "taken s" chunk 0 True]
  by (auto simp: send_paced_def)

text \<open>A sink that takes at most three bytes a call.\<close>

definition three_sink :: "u8 list \<Rightarrow> u8 list \<Rightarrow> (unit + nat) \<times> u8 list" where
  "three_sink bs s = (Inr (min 3 (length bs)), s @ take (min 3 (length bs)) bs)"

lemma paced_send_is_exact_witness:
  "case send_paced three_sink (\<lambda>s. s) (\<lambda>s. (False, s)) 512 [1, 2, 3, 4, 5] [] of (r, s') \<Rightarrow>
     send_outcome [1, 2, 3, 4, 5] [] r s'"
  using paced_send_is_exact [where write_some = three_sink and gap = "\<lambda>s. s" and
    out_of_time = "\<lambda>s. (False, s)" and taken = "\<lambda>s. s" and chunk = 512 and bytes = "[1, 2, 3, 4, 5]" and s = "[]"]
  by (simp add: sink_law_def three_sink_def)

section \<open>What an exchange puts on the wire\<close>

text \<open>A transport that records what passes through it.\<close>

datatype event = Ev_Clock u64 | Ev_Arm bool | Ev_Send "u8 list" bool | Ev_Recv "u8 list" | Ev_Dead

definition logging :: "'t transport \<Rightarrow> ('t \<times> event list) transport" where
  "logging T =
     \<lparr>arm = (\<lambda>(t, es). case arm T t of (r, t') \<Rightarrow> (r, t', es @ [Ev_Arm (r = Inr ())])),
      send = (\<lambda>bs (t, es). case send T bs t of (r, t') \<Rightarrow> (r, t', es @ [Ev_Send bs (r = Inr ())])),
      recv = (\<lambda>(t, es). case recv T t of (r, t') \<Rightarrow>
        (r, t', es @ [case r of Inl _ \<Rightarrow> Ev_Dead | Inr b \<Rightarrow> Ev_Recv b])),
      poll = (\<lambda>(t, es). case poll T t of (r, t') \<Rightarrow>
        (r, t', es @ [case r of Inl _ \<Rightarrow> Ev_Dead | Inr b \<Rightarrow> Ev_Recv b])),
      now_ms = (\<lambda>(t, es). case now_ms T t of (n, t') \<Rightarrow> (n, t', es @ [Ev_Clock n])),
      take_platform_fault = (\<lambda>(t, es). case take_platform_fault T t of (r, t') \<Rightarrow> (r, t', es)),
      transport_status = (\<lambda>(t, es). case transport_status T t of (r, t') \<Rightarrow> (r, t', es))\<rparr>"

abbreviation events :: "('t \<times> event list) link_inner \<Rightarrow> event list" where
  "events l \<equiv> snd (transport_of l)"

lemma logging_ops:
  "on_transport (arm (logging T)) l = (r, l') \<Longrightarrow> events l' = events l @ [Ev_Arm (r = Inr ())] \<and> link_mux l' = link_mux l"
  "on_transport (send (logging T) bs) l = (e, l') \<Longrightarrow> events l' = events l @ [Ev_Send bs (e = Inr ())] \<and> link_mux l' = link_mux l"
  "on_transport (recv (logging T)) l = (d, l') \<Longrightarrow>
     events l' = events l @ [case d of Inl _ \<Rightarrow> Ev_Dead | Inr b \<Rightarrow> Ev_Recv b] \<and> link_mux l' = link_mux l"
  "on_transport (now_ms (logging T)) l = (n, l') \<Longrightarrow> events l' = events l @ [Ev_Clock n] \<and> link_mux l' = link_mux l"
  "on_transport (take_platform_fault (logging T)) l = (f, l') \<Longrightarrow> events l' = events l"
  "on_transport (transport_status (logging T)) l = (f, l') \<Longrightarrow> events l' = events l"
  by (auto simp: on_transport_def logging_def split: prod.splits)

lemma silent_updates [simp]:
  "events (stash_noise l) = events l" "events (move_console l) = events l" "events (resync l) = events l"
  by (simp_all add: stash_noise_def move_console_def resync_def Let_def split: prod.splits)

lemma discard_transport: "discard_stale_responses l = (n, l') \<Longrightarrow> transport_of l' = transport_of l"
  by (auto simp: discard_stale_responses_def split: prod.splits)

lemma absorb_events: "absorb bs l = (r, l') \<Longrightarrow> events l' = events l"
  by (auto simp: absorb_def Let_def split: prod.splits sum.splits)

lemma note_fault_events: "note_fault (logging T) k l = (e, l') \<Longrightarrow> events l' = events l"
  by (auto simp: note_fault_def noise_report_def Let_def split: prod.splits dest!: logging_ops)

text \<open>
  The traces of one exchange that began at \<open>began\<close> with the request \<open>req\<close>, with the number of
  transmissions: only a transmission behind a confirmed park and a clock reading inside the
  deadline, while the budget lasts, is one.
\<close>

inductive exchange_trace :: "u64 \<Rightarrow> u8 list \<Rightarrow> nat \<Rightarrow> event list \<Rightarrow> bool" for began req where
  begins: "exchange_trace began req 0 [Ev_Clock began]"
| quiet: "exchange_trace began req n es \<Longrightarrow> (\<forall>bs ok. e \<noteq> Ev_Send bs ok) \<Longrightarrow> exchange_trace began req n (es @ [e])"
| sends: "exchange_trace began req n es \<Longrightarrow> n \<le> RETRY_BUDGET \<Longrightarrow> saturating_sub now began \<le> RECV_DEADLINE_MS \<Longrightarrow>
    exchange_trace began req (Suc n) (es @ [Ev_Arm True, Ev_Clock now, Ev_Send req ok])"

definition sends_of :: "event list \<Rightarrow> event list" where
  "sends_of es = filter (\<lambda>e. case e of Ev_Send _ _ \<Rightarrow> True | _ \<Rightarrow> False) es"

lemma exchange_trace_count: "exchange_trace began req n es \<Longrightarrow> length (sends_of es) = n \<and> n \<le> RETRY_BUDGET + 1"
  by (induction rule: exchange_trace.induct) (auto simp: sends_of_def split: event.splits)

lemma exchange_trace_begins: "exchange_trace began req n es \<Longrightarrow> es \<noteq> [] \<and> es ! 0 = Ev_Clock began"
  by (induction rule: exchange_trace.induct) (simp_all add: nth_append)

lemma in_time: "saturating_sub now began \<le> 2000 \<longleftrightarrow> unat now \<le> unat began + 2000"
  by (auto simp: saturating_sub_def word_le_nat_alt unat_sub)

lemma exchange_trace_sends:
  "exchange_trace began req n es \<Longrightarrow> i < length es \<Longrightarrow> es ! i = Ev_Send bs ok \<Longrightarrow>
   bs = req \<and> 2 \<le> i \<and> es ! (i - 2) = Ev_Arm True \<and>
   (\<exists>now. es ! (i - 1) = Ev_Clock now \<and> saturating_sub now began \<le> RECV_DEADLINE_MS)"
proof (induction arbitrary: i rule: exchange_trace.induct)
  case begins
  then show ?case by simp
next
  case (quiet n es e)
  then show ?case by (cases "i < length es") (auto simp: nth_append less_Suc_eq)
next
  case (sends n es now ok')
  show ?case
  proof (cases "i < length es")
    case True
    with sends.IH [of i] sends.prems show ?thesis by (auto simp: nth_append)
  next
    case False
    then obtain j where i: "i = length es + j" using le_Suc_ex by (meson not_le)
    with sends.prems have "j < 3" by simp
    then consider "j = 0" | "j = 1" | "j = 2" by linarith
    then show ?thesis
      using sends.prems sends.hyps(3) by cases (auto simp: i nth_append numeral_2_eq_2)
  qed
qed

text \<open>The loops of the exchange keep to these traces.\<close>

definition trace_inv :: "event list \<Rightarrow> u64 \<Rightarrow> u8 list \<Rightarrow> ('t \<times> event list) xchg_state \<Rightarrow> bool" where
  "trace_inv es0 began req s \<longleftrightarrow>
     (case s of (ph, x, l) \<Rightarrow>
        x_began x = began \<and> x_out x = req \<and>
        (\<exists>es n. events l = es0 @ es \<and> exchange_trace began req n es \<and> n \<le> x_attempts x) \<and>
        (ph = Attempt \<longrightarrow> x_attempts x \<le> RETRY_BUDGET))"

definition trace_done :: "event list \<Rightarrow> u64 \<Rightarrow> u8 list \<Rightarrow> ('t \<times> event list) xchg_done \<Rightarrow> bool" where
  "trace_done es0 began req d \<longleftrightarrow>
     (case d of (e, x, l) \<Rightarrow> \<exists>es n. events l = es0 @ es \<and> exchange_trace began req n es)"

lemma trace_more:
  "events l' = events l @ [e] \<Longrightarrow> (\<forall>bs ok. e \<noteq> Ev_Send bs ok) \<Longrightarrow>
   events l = es0 @ es \<Longrightarrow> exchange_trace began req n es \<Longrightarrow>
   events l' = es0 @ (es @ [e]) \<and> exchange_trace began req n (es @ [e])"
  by (auto intro: exchange_trace.quiet)

lemma xchg_attempt_trace:
  assumes es: "events l = es0 @ es" "exchange_trace began req n es" "n \<le> x_attempts x"
    and x: "x_began x = began" "x_out x = req" "x_attempts x \<le> RETRY_BUDGET"
  shows "case xchg_attempt (logging T) x l of
    Inl s' \<Rightarrow> trace_inv es0 began req s' | Inr d \<Rightarrow> trace_done es0 began req d"
proof -
  obtain stale l1 where d: "discard_stale_responses l = (stale, l1)" by force
  let ?l1 = "l1\<lparr>stale_dropped := stale_dropped l1 + stale\<rparr>"
  obtain now l2 where c: "on_transport (now_ms (logging T)) ?l1 = (now, l2)" by force
  have e1: "events ?l1 = es0 @ es" using discard_transport [OF d] es(1) by simp
  note l2 = trace_more [OF conjunct1 [OF logging_ops(4) [OF c]] _ e1 es(2), simplified]
  obtain a l3 where r: "on_transport (arm (logging T)) l2 = (a, l3)" by force
  note e3 = conjunct1 [OF logging_ops(1) [OF r]]
  note l3 = trace_more [OF e3 _ conjunct1 [OF l2] conjunct2 [OF l2], simplified]
  obtain now' l4 where c': "on_transport (now_ms (logging T)) l3 = (now', l4)" by force
  note e4 = conjunct1 [OF logging_ops(4) [OF c']]
  note l4 = trace_more [OF e4 _ conjunct1 [OF l3] conjunct2 [OF l3], simplified]
  obtain y l5 where p: "on_transport (send (logging T) (x_out x)) l4 = (y, l5)" by force
  note e5 = conjunct1 [OF logging_ops(2) [OF p]]
  obtain sent_at l6 where q: "on_transport (now_ms (logging T)) l5 = (sent_at, l6)" by force
  note e6 = conjunct1 [OF logging_ops(4) [OF q]]
  show ?thesis
  proof (cases "RECV_DEADLINE_MS < saturating_sub now began \<or> a = Inl () \<or> RECV_DEADLINE_MS < saturating_sub now' began")
    case True
    then show ?thesis
      using l2 l3 l4 x by (auto simp: xchg_attempt_def d c r c' trace_done_def Let_def split: sum.splits)
  next
    case False
    then have a: "a = Inr ()" by (cases a) auto
    let ?es5 = "(es @ [Ev_Clock now]) @ [Ev_Arm True, Ev_Clock now', Ev_Send req (y = Inr ())]"
    have l5: "events l5 = es0 @ ?es5" using e5 e4 e3 l2 a x(2) by simp
    have t5: "exchange_trace began req (Suc n) ?es5"
      using l2 False x(3) es(3) by (intro exchange_trace.sends) auto
    note l6 = trace_more [OF e6 _ l5 t5, simplified]
    show ?thesis
      using False x es(3) l5 t5 l6
      by (cases y) (auto simp: xchg_attempt_def d c r c' p q a trace_done_def trace_inv_def Let_def
          intro!: exI [of _ "Suc n"])
  qed
qed

lemma xchg_receive_trace:
  assumes es: "events l = es0 @ es" "exchange_trace began req n es" "n \<le> x_attempts x"
    and x: "x_began x = began" "x_out x = req"
  shows "case xchg_receive (logging T) sent_at x l of
    Inl s' \<Rightarrow> trace_inv es0 began req s' | Inr d \<Rightarrow> trace_done es0 began req d"
proof -
  obtain now l2 where c: "on_transport (now_ms (logging T)) l = (now, l2)" by force
  note l2 = trace_more [OF conjunct1 [OF logging_ops(4) [OF c]] _ es(1,2), simplified]
  obtain r l3 where rv: "on_transport (recv (logging T)) l2 = (r, l3)" by force
  note e3 = conjunct1 [OF logging_ops(3) [OF rv]]
  have q: "\<forall>bs ok. (case r of Inl _ \<Rightarrow> Ev_Dead | Inr b \<Rightarrow> Ev_Recv b) \<noteq> Ev_Send bs ok" by (simp split: sum.splits)
  note l3 = trace_more [OF e3 q conjunct1 [OF l2] conjunct2 [OF l2]]
  have absorbed: "events l4 = events l3" if "absorb b l3 = (v, l4)" for b v l4 using absorb_events [OF that] .
  show ?thesis
  proof (cases "RECV_DEADLINE_MS < saturating_sub now began \<or> ATTEMPT_DEADLINE_MS < saturating_sub now sent_at")
    case True
    then show ?thesis
      using l2 x es(3) by (auto simp: xchg_receive_def c trace_done_def trace_inv_def Let_def)
  next
    case False
    show ?thesis
    proof (cases r)
      case (Inl u)
      with False l3 x show ?thesis by (auto simp: xchg_receive_def c rv trace_done_def Let_def)
    next
      case (Inr b)
      obtain v l4 where ab: "absorb b l3 = (v, l4)" by force
      have "events l4 = es0 @ (es @ [Ev_Clock now]) @ [Ev_Recv b]"
        "exchange_trace began req n ((es @ [Ev_Clock now]) @ [Ev_Recv b])"
        using l3 absorbed [OF ab] Inr by simp_all
      with False l3 x es(3) Inr ab show ?thesis
        by (cases v) (auto simp: xchg_receive_def c rv trace_done_def trace_inv_def Let_def)
    qed
  qed
qed

lemma xchg_wait_trace:
  assumes es: "events l = es0 @ es" "exchange_trace began req n es" "n \<le> x_attempts x"
    and x: "x_began x = began" "x_out x = req"
  shows "case xchg_wait (logging T) sent_at x l of
    Inl s' \<Rightarrow> trace_inv es0 began req s' | Inr d \<Rightarrow> trace_done es0 began req d"
proof -
  obtain g m where m: "take_matching (x_want x) (link_mux l) = (g, m)" by force
  obtain g' m' where m': "take_matching TY_ERR m = (g', m')" by force
  have e: "events (l\<lparr>link_mux := m\<rparr>) = es0 @ es" "events (l\<lparr>link_mux := m'\<rparr>) = es0 @ es" using es(1) by simp_all
  have "case xchg_receive (logging T) sent_at x (l\<lparr>link_mux := m'\<rparr>) of
    Inl s' \<Rightarrow> trace_inv es0 began req s' | Inr d \<Rightarrow> trace_done es0 began req d"
    by (rule xchg_receive_trace [OF e(2) es(2,3) x])
  then show ?thesis
    using es x e
    by (auto simp: xchg_wait_def m m' Let_def trace_done_def trace_inv_def split: option.splits wire_frame.splits)
qed

lemma xchg_step_trace:
  assumes "trace_inv es0 began req s"
  shows "case xchg_step (logging T) s of
    Inl s' \<Rightarrow> trace_inv es0 began req s' | Inr d \<Rightarrow> trace_done es0 began req d"
proof -
  obtain ph x l where s: "s = (ph, x, l)" by (cases s)
  from assms obtain es n where i: "events l = es0 @ es" "exchange_trace began req n es" "n \<le> x_attempts x"
    "x_began x = began" "x_out x = req" "ph = Attempt \<longrightarrow> x_attempts x \<le> RETRY_BUDGET"
    by (auto simp: s trace_inv_def)
  show ?thesis
    using xchg_attempt_trace [OF i(1-5)] xchg_wait_trace [OF i(1-5)] i(6)
    by (cases ph) (simp_all add: s xchg_step_def)
qed

text \<open>What every step keeps holds where the loop ends.\<close>

lemma xchg_loop_rule:
  assumes step: "\<And>s. I s \<Longrightarrow> case xchg_step T s of Inl s' \<Rightarrow> I s' | Inr d \<Rightarrow> Q d"
    and "xchg_loop T s = Some d" and "I s"
  shows "Q d"
proof -
  have "T' = T \<longrightarrow> I s \<longrightarrow> Q d" if "xchg_loop T' s = Some d" for T' s d
  proof (rule xchg_loop.raw_induct [where P = "\<lambda>T' s d. T' = T \<longrightarrow> I s \<longrightarrow> Q d", OF _ that], intro impI)
    fix loop T' s d
    assume IH: "\<And>T' s d. loop T' s = Some d \<Longrightarrow> T' = T \<longrightarrow> I s \<longrightarrow> Q d"
      and run: "(case xchg_step T' s of Inl s' \<Rightarrow> loop T' s' | Inr r \<Rightarrow> Some r) = Some d"
      and "T' = T" and "I s"
    show "Q d"
    proof (cases "xchg_step T s")
      case (Inl s')
      with run \<open>T' = T\<close> have "loop T s' = Some d" by simp
      from IH [OF this] step [OF \<open>I s\<close>] Inl show ?thesis by simp
    next
      case (Inr d')
      with run \<open>T' = T\<close> step [OF \<open>I s\<close>] show ?thesis by simp
    qed
  qed
  with assms show ?thesis by blast
qed


lemma exchange_inner_trace:
  assumes run: "exchange_inner (logging T) f want l = Some (r, l')" and p: "frame_page f = Some page"
  shows "\<exists>es n. events l' = events l @ es \<and> exchange_trace (fst (now_ms T (fst (transport_of l)))) (encode f []) n es"
proof -
  let ?l = "l\<lparr>cur_op := Some (case f of WriteReq _ _ \<Rightarrow> Op_Write page | _ \<Rightarrow> Op_Read page), scratch := []\<rparr>"
  obtain began l1 where c: "on_transport (now_ms (logging T)) ?l = (began, l1)" by force
  let ?x = "\<lparr>x_asked = page, x_want = want, x_out = encode f [], x_began = began, x_attempts = 0,
    x_mismatched = 0, x_last_mismatch = None\<rparr>"
  obtain d where d: "xchg_loop (logging T) (Attempt, ?x, l1) = Some d" "(r, l') = xchg_finish (logging T) d"
    using run p c by (auto simp: exchange_inner_def Let_def)
  have began: "began = fst (now_ms T (fst (transport_of l)))"
    using c by (auto simp: on_transport_def logging_def split: prod.splits)
  have "events l1 = events l @ [Ev_Clock began]" using logging_ops(4) [OF c] by simp
  then have "trace_inv (events l) began (encode f []) (Attempt, ?x, l1)"
    by (auto simp: trace_inv_def intro: exchange_trace.begins)
  from xchg_loop_rule [OF xchg_step_trace d(1) this]
  have done': "trace_done (events l) began (encode f []) d" .
  obtain e x m where dd: "d = (e, x, m)" by (cases d)
  have "events l' = events m"
    using d(2) by (auto simp: dd xchg_finish_def Let_def split: xchg_end.splits prod.splits dest!: note_fault_events)
  with done' show ?thesis by (auto simp: trace_done_def dd began)
qed

text \<open>Property C22 (requests_go_out_armed_and_in_time): however the transport behaves, and however the
  exchange ends, the exchange opens by reading the transport's clock; it transmits nothing but its
  request, at most four times, and each time directly behind a confirmed park and a second clock
  reading, at most two seconds after the opening one.\<close>

theorem requests_go_out_armed_and_in_time:
  assumes "exchange_inner (logging T) f want l = Some (r, l')" and "frame_page f = Some page"
  shows "\<exists>es began. events l' = events l @ es \<and>
    es \<noteq> [] \<and> es ! 0 = Ev_Clock began \<and> began = fst (now_ms T (fst (transport_of l))) \<and>
    length (sends_of es) \<le> 4 \<and>
    (\<forall>i bs ok. i < length es \<longrightarrow> es ! i = Ev_Send bs ok \<longrightarrow>
       bs = encode f [] \<and> 2 \<le> i \<and> es ! (i - 2) = Ev_Arm True \<and>
       (\<exists>now. es ! (i - 1) = Ev_Clock now \<and> unat now \<le> unat began + 2000))"
proof -
  obtain es n where es: "events l' = events l @ es" and
    t: "exchange_trace (fst (now_ms T (fst (transport_of l)))) (encode f []) n es"
    using exchange_inner_trace [OF assms] by blast
  have "length (sends_of es) \<le> 4" using exchange_trace_count [OF t] by simp
  with es exchange_trace_begins [OF t] exchange_trace_sends [OF t, unfolded in_time] show ?thesis
    by (intro exI [of _ es] exI [of _ "fst (now_ms T (fst (transport_of l)))"]) blast
qed

text \<open>A transport whose receive path is dead.\<close>

definition deaf :: "u64 transport" where
  "deaf = \<lparr>arm = \<lambda>t. (Inr (), t), send = \<lambda>bs t. (Inr (), t), recv = \<lambda>t. (Inl (), t), poll = \<lambda>t. (Inl (), t),
     now_ms = \<lambda>t. (t, t), take_platform_fault = \<lambda>t. (None, t), transport_status = \<lambda>t. (None, t)\<rparr>"

lemma deaf_run: "\<exists>r l'. exchange_inner (logging deaf) (ReadReq 7) TY_READ_RESP (link_new (5, [])) = Some (r, l')"
proof -
  have pos: "position P ([] :: wire_frame list) = None" for P by simp
  show ?thesis
    by (simp add: exchange_inner_def on_transport_def logging_def deaf_def link_new_def Let_def xchg_loop.simps
        xchg_step_def xchg_attempt_def xchg_wait_def xchg_receive_def discard_stale_responses_def RESPONSE_TYPES_def
        drop_matching.simps take_matching_def mux_capturing_noise_capped_def mux_new_def saturating_sub_def)
qed

lemma requests_go_out_armed_and_in_time_witness:
  "case exchange_inner (logging deaf) (ReadReq 7) TY_READ_RESP (link_new (5, [])) of
     Some (r, l') \<Rightarrow> \<exists>es. events l' = es \<and> length (sends_of es) \<le> 4 | None \<Rightarrow> False"
proof -
  obtain r l' where run: "exchange_inner (logging deaf) (ReadReq 7) TY_READ_RESP (link_new (5, [])) = Some (r, l')"
    using deaf_run by blast
  have "events (link_new (5 :: u64, [])) = []" by (simp add: link_new_def)
  with requests_go_out_armed_and_in_time [OF run] show ?thesis by (auto simp: run)
qed

section \<open>What an exchange accepts\<close>

text \<open>The bytes delivered in a trace.\<close>

definition received :: "event list \<Rightarrow> u8 list" where
  "received es = concat (map (\<lambda>e. case e of Ev_Recv b \<Rightarrow> b | _ \<Rightarrow> []) es)"

lemma received_append [simp]: "received (es @ es') = received es @ received es'"
  by (simp add: received_def)

text \<open>A decoder that has been drained holds no complete frame.\<close>

definition drained :: "u8 list \<Rightarrow> bool" where
  "drained b \<longleftrightarrow> parse b = ([], [], b)"

lemma drained_wait: "classify b = (Wait, n, u) \<Longrightarrow> drained (drop n b)"
proof -
  assume c: "classify b = (Wait, n, u)"
  have "classify (drop n b) = (Wait, 0, 0)"
  proof (cases "find_sync b")
    case (Some st)
    with c have "n = st" "at_sync (drop st b) = (Wait, 0, 0)"
      by (auto simp: classify_def split: prod.splits dest: at_sync_Wait) (auto simp: at_sync_def Let_def split: if_splits option.splits)
    then show ?thesis using find_sync_drop [OF Some] by (simp add: classify_def)
  next
    case None
    then have "n = length b - (if b \<noteq> [] \<and> last b = 0xC1 then 1 else 0)" using c by (simp add: classify_def sync_bytes)
    then have "drop n b = [] \<or> drop n b = [0xC1]"
      by (cases b rule: rev_cases) auto
    then show ?thesis by (auto simp: classify_def sync_bytes)
  qed
  then show ?thesis by (simp add: drained_def parse.simps [of "drop n b"])
qed

lemma parse_drained: "parse b = (fs, ns, r) \<Longrightarrow> drained r"
proof (induction b arbitrary: fs ns rule: parse.induct)
  case (1 b)
  obtain v n u where c: "classify b = (v, n, u)" by (cases "classify b")
  show ?case
  proof (cases v)
    case Wait
    with c 1(3) drained_wait [of b n u] show ?thesis by (simp add: parse.simps [of b])
  next
    case Again
    with c 1(3) 1(1) [OF c [symmetric] refl Again] show ?thesis by (auto simp: parse.simps [of b] split: prod.splits)
  next
    case (Got f)
    with c 1(3) 1(2) [OF c [symmetric] refl Got] show ?thesis by (auto simp: parse.simps [of b] split: prod.splits)
  qed
qed

definition is_response :: "wire_frame \<Rightarrow> bool" where
  "is_response f \<longleftrightarrow> type_byte f \<in> set RESPONSE_TYPES"

lemma take_matching_held:
  "take_matching ty m = (g, m') \<Longrightarrow>
   dec m' = dec m \<and> set (held m') \<subseteq> set (held m) \<and>
   (case g of None \<Rightarrow> m' = m \<and> (\<forall>f \<in> set (held m). type_byte f \<noteq> ty) | Some f \<Rightarrow> f \<in> set (held m) \<and> type_byte f = ty)"
  by (auto simp: take_matching_def position_None dest: position_Some in_set_takeD in_set_dropD split: option.splits)

lemma drop_matching_held:
  "drop_matching ty n m = (n', m') \<Longrightarrow>
   dec m' = dec m \<and> set (held m') \<subseteq> set (held m) \<and> (\<forall>f \<in> set (held m'). type_byte f \<noteq> ty)"
proof (induction ty n m rule: drop_matching.induct)
  case (1 ty n m)
  obtain g m1 where t: "take_matching ty m = (g, m1)" by force
  show ?case
  proof (cases g)
    case None
    with 1(2) t take_matching_held [OF t] show ?thesis by (simp add: drop_matching.simps [of ty n m])
  next
    case (Some f)
    with 1(2) t have "drop_matching ty (n + 1) m1 = (n', m')" by (simp add: drop_matching.simps [of ty n m])
    from 1(1) [OF t [symmetric] Some this] take_matching_held [OF t] show ?thesis by auto
  qed
qed

lemma discard_held:
  assumes "discard_stale_responses l = (n, l')"
  shows "dec (link_mux l') = dec (link_mux l) \<and> (\<forall>f \<in> set (held (link_mux l')). \<not> is_response f)"
proof -
  obtain n1 m1 where 1: "drop_matching TY_READ_RESP 0 (link_mux l) = (n1, m1)" by force
  obtain n2 m2 where 2: "drop_matching TY_WRITE_ACK n1 m1 = (n2, m2)" by force
  obtain n3 m3 where 3: "drop_matching TY_ERR n2 m2 = (n3, m3)" by force
  have "link_mux l' = m3" using assms by (auto simp: discard_stale_responses_def RESPONSE_TYPES_def 1 2 3)
  with drop_matching_held [OF 1] drop_matching_held [OF 2] drop_matching_held [OF 3] show ?thesis
    by (auto simp: is_response_def RESPONSE_TYPES_def)
qed

text \<open>
  While an attempt waits, every response held was completed by bytes delivered since the attempt's
  transmission, behind a decoder that held no complete frame at that moment.
\<close>

definition fresh :: "event list \<Rightarrow> u8 list \<Rightarrow> ('t \<times> event list) link_inner \<Rightarrow> wire_frame set \<Rightarrow> bool" where
  "fresh es0 req l answers \<longleftrightarrow>
     (\<exists>pre post b ns r fs. events l = es0 @ pre @ Ev_Send req True # post \<and> sends_of post = [] \<and> drained b \<and>
        parse (b @ received post) = (fs, ns, r) \<and> answers \<subseteq> set fs)"

definition waiting_ok :: "event list \<Rightarrow> u8 list \<Rightarrow> ('t \<times> event list) link_inner \<Rightarrow> bool" where
  "waiting_ok es0 req l \<longleftrightarrow>
     (\<exists>pre post b ns fs. events l = es0 @ pre @ Ev_Send req True # post \<and> sends_of post = [] \<and> drained b \<and>
        parse (b @ received post) = (fs, ns, buf (dec (link_mux l))) \<and>
        (\<forall>f \<in> set (held (link_mux l)). is_response f \<longrightarrow> f \<in> set fs))"

definition link_ok :: "'t link_inner \<Rightarrow> bool" where
  "link_ok l \<longleftrightarrow> drained (buf (dec (link_mux l)))"

lemma waiting_fresh:
  "waiting_ok es0 req l \<Longrightarrow> A \<subseteq> {f \<in> set (held (link_mux l)). is_response f} \<Longrightarrow> fresh es0 req l A"
  unfolding waiting_ok_def fresh_def by blast

lemma fresh_cong: "fresh es0 req l A \<Longrightarrow> events l' = events l \<Longrightarrow> fresh es0 req l' A"
  by (simp add: fresh_def)

text \<open>Events that are no transmission and deliver nothing, and frames leaving the queue, keep it.\<close>

lemma waiting_quiet:
  assumes "waiting_ok es0 req l" and "events l' = events l @ es" and "sends_of es = []" and "received es = []"
    and "dec (link_mux l') = dec (link_mux l)" and "set (held (link_mux l')) \<subseteq> set (held (link_mux l))"
  shows "waiting_ok es0 req l'"
proof -
  obtain pre post b ns fs where w: "events l = es0 @ pre @ Ev_Send req True # post" "sends_of post = []" "drained b"
    "parse (b @ received post) = (fs, ns, buf (dec (link_mux l)))"
    "\<forall>f \<in> set (held (link_mux l)). is_response f \<longrightarrow> f \<in> set fs"
    using assms(1) by (auto simp: waiting_ok_def)
  show ?thesis
    unfolding waiting_ok_def
    using w assms(2-6) by (intro exI [of _ pre] exI [of _ "post @ es"] exI [of _ b] exI [of _ ns] exI [of _ fs])
      (auto simp: sends_of_def)
qed

lemma fold_route_held: "held (fold route fs m) = held m @ filter (\<lambda>f. type_byte f \<notin> {5, 6}) fs"
proof (induction fs arbitrary: m)
  case (Cons f fs)
  then show ?case by (cases f) simp_all
qed simp

lemma absorb_ok:
  assumes "parse (buf (dec (link_mux l)) @ bytes) = (fs, ns, r)" and "absorb bytes l = (v, l')"
  shows "v = Inr () \<and> transport_of l' = transport_of l \<and> buf (dec (link_mux l')) = r \<and>
    held (link_mux l') = held (link_mux l) @ filter (\<lambda>f. type_byte f \<notin> {5, 6}) fs"
  using assms(2) mux_push_parse [OF assms(1)]
  by (auto simp: absorb_def Let_def move_console_def take_console_def fold_route_held)

lemma waiting_absorb:
  assumes "waiting_ok es0 req l" and e: "events l1 = events l @ [Ev_Recv bytes]" and m: "link_mux l1 = link_mux l"
    and ab: "absorb bytes l1 = (v, l')"
  shows "v = Inr () \<and> waiting_ok es0 req l'"
proof -
  obtain pre post b ns fs where w: "events l = es0 @ pre @ Ev_Send req True # post" "sends_of post = []" "drained b"
    "parse (b @ received post) = (fs, ns, buf (dec (link_mux l)))"
    "\<forall>f \<in> set (held (link_mux l)). is_response f \<longrightarrow> f \<in> set fs"
    using assms(1) by (auto simp: waiting_ok_def)
  obtain fs' ns' r where q: "parse (buf (dec (link_mux l)) @ bytes) = (fs', ns', r)" by (cases "parse (buf (dec (link_mux l)) @ bytes)")
  have a: "v = Inr ()" "transport_of l' = transport_of l1" "buf (dec (link_mux l')) = r"
    "held (link_mux l') = held (link_mux l) @ filter (\<lambda>f. type_byte f \<notin> {5, 6}) fs'"
    using absorb_ok [OF _ ab] q m by auto
  have "parse (b @ received (post @ [Ev_Recv bytes])) = (fs @ fs', ns @ ns', r)"
    using parse_append [OF w(4) q] by (simp add: received_def)
  moreover have "events l' = es0 @ pre @ Ev_Send req True # (post @ [Ev_Recv bytes])" using a(2) e w(1) by simp
  moreover have "sends_of (post @ [Ev_Recv bytes]) = []" using w(2) by (simp add: sends_of_def)
  ultimately show ?thesis
    unfolding waiting_ok_def using a w(3,5)
    by (intro conjI exI [of _ pre] exI [of _ "post @ [Ev_Recv bytes]"] exI [of _ b] exI [of _ "ns @ ns'"] exI [of _ "fs @ fs'"]) auto
qed

text \<open>The invariant of the loops, and what it leaves.\<close>

definition answer_inv :: "event list \<Rightarrow> u32 \<Rightarrow> u8 \<Rightarrow> u8 list \<Rightarrow> ('t \<times> event list) xchg_state \<Rightarrow> bool" where
  "answer_inv es0 page want req s \<longleftrightarrow>
     (case s of (ph, x, l) \<Rightarrow>
        x_asked x = page \<and> x_want x = want \<and> x_out x = req \<and> link_ok l \<and> (\<exists>es. events l = es0 @ es) \<and>
        (case ph of Attempt \<Rightarrow> True | Waiting _ \<Rightarrow> waiting_ok es0 req l))"

definition answer_done :: "event list \<Rightarrow> u32 \<Rightarrow> u8 \<Rightarrow> u8 list \<Rightarrow> ('t \<times> event list) xchg_done \<Rightarrow> bool" where
  "answer_done es0 page want req d \<longleftrightarrow>
     (case d of (e, x, l) \<Rightarrow> link_ok l \<and>
        (case e of
           Answered f \<Rightarrow> type_byte f = want \<and> frame_page f = Some page \<and> fresh es0 req l {f}
         | Refused err \<Rightarrow> (\<exists>code. err = err_code code \<and> fresh es0 req l {ErrFrame code page})
         | Faulted _ \<Rightarrow> True
         | Crashed \<Rightarrow> False))"

lemma waiting_link_ok: "waiting_ok es0 req l \<Longrightarrow> link_ok l"
  by (auto simp: waiting_ok_def link_ok_def dest: parse_drained)

lemma link_ok_cong: "dec (link_mux l') = dec (link_mux l) \<Longrightarrow> link_ok l' = link_ok l"
  by (simp add: link_ok_def)

lemma xchg_attempt_answer:
  assumes l: "link_ok l" "events l = es0 @ es" and x: "x_asked x = page" "x_want x = want" "x_out x = req"
  shows "case xchg_attempt (logging T) x l of
    Inl s' \<Rightarrow> answer_inv es0 page want req s' | Inr d \<Rightarrow> answer_done es0 page want req d"
proof -
  obtain stale l1 where d: "discard_stale_responses l = (stale, l1)" by force
  let ?l1 = "l1\<lparr>stale_dropped := stale_dropped l1 + stale\<rparr>"
  obtain now l2 where c: "on_transport (now_ms (logging T)) ?l1 = (now, l2)" by force
  obtain a l3 where r: "on_transport (arm (logging T)) l2 = (a, l3)" by force
  obtain now' l4 where c': "on_transport (now_ms (logging T)) l3 = (now', l4)" by force
  obtain y l5 where p: "on_transport (send (logging T) (x_out x)) l4 = (y, l5)" by force
  obtain sent_at l6 where q: "on_transport (now_ms (logging T)) l5 = (sent_at, l6)" by force
  have mux: "link_mux l2 = link_mux l1" "link_mux l3 = link_mux l1" "link_mux l4 = link_mux l1"
    "link_mux l5 = link_mux l1" "link_mux l6 = link_mux l1"
    using logging_ops(4) [OF c] logging_ops(1) [OF r] logging_ops(4) [OF c'] logging_ops(2) [OF p] logging_ops(4) [OF q]
    by simp_all
  note held = discard_held [OF d]
  have ok: "link_ok l2" "link_ok l3" "link_ok l4" "link_ok l5" "link_ok l6"
    using l(1) held by (simp_all add: link_ok_def mux)
  show ?thesis
  proof (cases "RECV_DEADLINE_MS < saturating_sub now (x_began x) \<or> a = Inl () \<or>
      RECV_DEADLINE_MS < saturating_sub now' (x_began x) \<or> y \<noteq> Inr ()")
    case True
    then show ?thesis
      using ok by (auto simp: xchg_attempt_def d c r c' p answer_done_def Let_def split: sum.splits)
  next
    case False
    then have a: "a = Inr ()" "y = Inr ()" by (cases a; auto)+
    have "events l6 = es0 @ (es @ [Ev_Clock now, Ev_Arm True, Ev_Clock now']) @ Ev_Send req True # [Ev_Clock sent_at]"
      using logging_ops(4) [OF c] logging_ops(1) [OF r] logging_ops(4) [OF c'] logging_ops(2) [OF p]
        logging_ops(4) [OF q] discard_transport [OF d] l(2) a x(3) by simp
    moreover have "parse (buf (dec (link_mux l6)) @ received [Ev_Clock sent_at]) = ([], [], buf (dec (link_mux l6)))"
      using ok(5) by (simp add: link_ok_def drained_def received_def)
    ultimately have "waiting_ok es0 req l6"
      unfolding waiting_ok_def using ok(5) held
      by (intro exI [of _ "es @ [Ev_Clock now, Ev_Arm True, Ev_Clock now']"] exI [of _ "[Ev_Clock sent_at]"]
          exI [of _ "buf (dec (link_mux l6))"] exI [of _ "[]"]) (simp add: sends_of_def link_ok_def mux)
    moreover have "\<exists>es. events l6 = es0 @ es" using calculation by (auto simp: waiting_ok_def)
    ultimately show ?thesis
      using False a x ok by (auto simp: xchg_attempt_def d c r c' p q answer_inv_def Let_def)
  qed
qed

lemma waiting_events: "waiting_ok es0 req l \<Longrightarrow> \<exists>es. events l = es0 @ es"
  by (auto simp: waiting_ok_def)

lemma xchg_receive_answer:
  assumes w: "waiting_ok es0 req l" and x: "x_asked x = page" "x_want x = want" "x_out x = req"
  shows "case xchg_receive (logging T) sent_at x l of
    Inl s' \<Rightarrow> answer_inv es0 page want req s' | Inr d \<Rightarrow> answer_done es0 page want req d"
proof -
  obtain now l2 where c: "on_transport (now_ms (logging T)) l = (now, l2)" by force
  have w2: "waiting_ok es0 req l2"
    using logging_ops(4) [OF c] by (intro waiting_quiet [OF w, of _ "[Ev_Clock now]"]) (simp_all add: sends_of_def received_def)
  have w2': "waiting_ok es0 req (l2\<lparr>retries := k\<rparr>)" for k using w2 by (simp add: waiting_ok_def)
  obtain r l3 where rv: "on_transport (recv (logging T)) l2 = (r, l3)" by force
  note e3 = logging_ops(3) [OF rv]
  show ?thesis
  proof (cases "RECV_DEADLINE_MS < saturating_sub now (x_began x) \<or> ATTEMPT_DEADLINE_MS < saturating_sub now sent_at")
    case True
    then show ?thesis
      using w2 waiting_link_ok [OF w2] waiting_link_ok [OF w2'] waiting_events [OF w2] x
      by (auto simp: xchg_receive_def c answer_done_def answer_inv_def Let_def)
  next
    case False
    show ?thesis
    proof (cases r)
      case (Inl u)
      have "link_ok l3" using e3 waiting_link_ok [OF w2] by (simp add: link_ok_def)
      with False Inl show ?thesis by (auto simp: xchg_receive_def c rv answer_done_def Let_def)
    next
      case (Inr b)
      show ?thesis
      proof (cases "b = []")
        case True
        have "waiting_ok es0 req l3"
          using e3 Inr True by (intro waiting_quiet [OF w2, of _ "[Ev_Recv []]"]) (simp_all add: sends_of_def received_def)
        with False Inr True x waiting_link_ok waiting_events show ?thesis
          by (auto simp: xchg_receive_def c rv answer_inv_def Let_def)
      next
        case more: False
        obtain v l4 where ab: "absorb b l3 = (v, l4)" by force
        have "v = Inr () \<and> waiting_ok es0 req l4"
          using e3 Inr by (intro waiting_absorb [OF w2 _ _ ab]) simp_all
        with False Inr more x ab waiting_link_ok waiting_events show ?thesis
          by (auto simp: xchg_receive_def c rv answer_inv_def Let_def)
      qed
    qed
  qed
qed

lemma xchg_wait_answer:
  assumes w: "waiting_ok es0 req l" and x: "x_asked x = page" "x_want x = want" "x_out x = req"
    and want: "want \<in> set RESPONSE_TYPES"
  shows "case xchg_wait (logging T) sent_at x l of
    Inl s' \<Rightarrow> answer_inv es0 page want req s' | Inr d \<Rightarrow> answer_done es0 page want req d"
proof -
  obtain g m where m: "take_matching (x_want x) (link_mux l) = (g, m)" by force
  obtain g' m' where m': "take_matching TY_ERR m = (g', m')" by force
  note h = take_matching_held [OF m] and h' = take_matching_held [OF m']
  have wm: "waiting_ok es0 req (l\<lparr>link_mux := m\<rparr>)" "waiting_ok es0 req (l\<lparr>link_mux := m'\<rparr>)"
    using h h' by (auto intro!: waiting_quiet [OF w, of _ "[]"] simp: sends_of_def received_def)
  have keep: "waiting_ok es0 req (l\<lparr>link_mux := m, scratch := a\<rparr>)" "waiting_ok es0 req (l\<lparr>link_mux := m', scratch := a\<rparr>)"
    "waiting_ok es0 req (l\<lparr>link_mux := m, late_dropped := k\<rparr>)" for a k
    using wm by (simp_all add: waiting_ok_def)
  show ?thesis
  proof (cases g)
    case (Some f)
    have "fresh es0 req l {f}"
      using h Some want x by (intro waiting_fresh [OF w]) (auto simp: is_response_def)
    then have "fresh es0 req (l\<lparr>link_mux := m, scratch := x_out x\<rparr>) {f}" by (rule fresh_cong) simp
    with Some h x keep [THEN waiting_link_ok] keep [THEN waiting_events] keep show ?thesis
      by (auto simp: xchg_wait_def m answer_done_def answer_inv_def Let_def)
  next
    case None
    then have "m = link_mux l" using h by simp
    show ?thesis
    proof (cases g')
      case None': None
      have "case xchg_receive (logging T) sent_at x (l\<lparr>link_mux := m'\<rparr>) of
          Inl s' \<Rightarrow> answer_inv es0 page want req s' | Inr d \<Rightarrow> answer_done es0 page want req d"
        by (rule xchg_receive_answer [OF wm(2) x])
      with None None' show ?thesis by (simp add: xchg_wait_def m m' Let_def)
    next
      case (Some f)
      then obtain code p where f: "f = ErrFrame code p" using h' by (cases f) auto
      have "fresh es0 req l {f}"
        using h' Some \<open>m = link_mux l\<close> by (intro waiting_fresh [OF w]) (auto simp: is_response_def RESPONSE_TYPES_def)
      then have "fresh es0 req (l\<lparr>link_mux := m', scratch := x_out x\<rparr>) {f}" by (rule fresh_cong) simp
      with Some None f x keep [THEN waiting_link_ok] wm [THEN waiting_link_ok] wm [THEN waiting_events] wm show ?thesis
        by (auto simp: xchg_wait_def m m' answer_done_def answer_inv_def Let_def)
    qed
  qed
qed

lemma xchg_step_answer:
  assumes "answer_inv es0 page want req s" and "want \<in> set RESPONSE_TYPES"
  shows "case xchg_step (logging T) s of
    Inl s' \<Rightarrow> answer_inv es0 page want req s' | Inr d \<Rightarrow> answer_done es0 page want req d"
proof -
  obtain ph x l where s: "s = (ph, x, l)" by (cases s)
  from assms(1) obtain es where i: "x_asked x = page" "x_want x = want" "x_out x = req" "link_ok l" "events l = es0 @ es"
    "case ph of Attempt \<Rightarrow> True | Waiting _ \<Rightarrow> waiting_ok es0 req l"
    by (auto simp: s answer_inv_def)
  show ?thesis
    using xchg_attempt_answer [OF i(4,5,1-3)] xchg_wait_answer [OF _ i(1-3) assms(2)] i(6)
    by (cases ph) (simp_all add: s xchg_step_def)
qed

lemma exchange_inner_answer:
  assumes run: "exchange_inner (logging T) f want l = Some (r, l')" and p: "frame_page f = Some page"
    and "want \<in> set RESPONSE_TYPES" and "link_ok l"
  shows "\<exists>d. answer_done (events l) page want (encode f []) d \<and> (r, l') = xchg_finish (logging T) d"
proof -
  let ?l = "l\<lparr>cur_op := Some (case f of WriteReq _ _ \<Rightarrow> Op_Write page | _ \<Rightarrow> Op_Read page), scratch := []\<rparr>"
  obtain began l1 where c: "on_transport (now_ms (logging T)) ?l = (began, l1)" by force
  let ?x = "\<lparr>x_asked = page, x_want = want, x_out = encode f [], x_began = began, x_attempts = 0,
    x_mismatched = 0, x_last_mismatch = None\<rparr>"
  obtain d where d: "xchg_loop (logging T) (Attempt, ?x, l1) = Some d" "(r, l') = xchg_finish (logging T) d"
    using run p c by (auto simp: exchange_inner_def Let_def)
  have "link_ok l1" "\<exists>es. events l1 = events l @ es"
    using logging_ops(4) [OF c] assms(4) by (simp_all add: link_ok_def)
  then have "answer_inv (events l) page want (encode f []) (Attempt, ?x, l1)" by (simp add: answer_inv_def)
  from xchg_loop_rule [where I = "answer_inv (events l) page want (encode f [])", OF xchg_step_answer d(1) this] assms(3)
  show ?thesis using d(2) by blast
qed

text \<open>Property C17 (answers_are_fresh_and_asked_for): an exchange returns only a frame of the type it wants
  for the page it asked for, and reports a host error only for that page; and the frame that
  decides it was completed by bytes delivered after the last transmission of its request, through
  a decoder that held no complete frame then, so no answer to an earlier exchange decides it
  unless it was still on the wire. The exchange never panics and leaves a drained decoder.\<close>

theorem answers_are_fresh_and_asked_for:
  assumes "exchange_inner (logging T) f want l = Some (r, l')" and "frame_page f = Some page"
    and "want \<in> set RESPONSE_TYPES" and "link_ok l"
  shows "link_ok l' \<and>
    (case r of
       Inr g \<Rightarrow> type_byte g = want \<and> frame_page g = Some page \<and> fresh (events l) (encode f []) l' {g}
     | Inl (Err e) \<Rightarrow> e = Medium \<or> (\<exists>code. e = err_code code \<and> fresh (events l) (encode f []) l' {ErrFrame code page})
     | Inl Panic \<Rightarrow> False)"
proof -
  obtain e x m where d: "answer_done (events l) page want (encode f []) (e, x, m)"
    "(r, l') = xchg_finish (logging T) (e, x, m)"
    using exchange_inner_answer [OF assms] by (metis prod_cases3)
  show ?thesis
  proof (cases e)
    case (Faulted k)
    have n: "err = Medium \<and> dec (link_mux l2) = decoder_new\<lparr>capture := True, noise_cap := NOISE_SAMPLE\<rparr>"
      if "note_fault (logging T) k' (resync l1) = (err, l2)" for k' l1 err l2
      using that
      by (auto simp: note_fault_def on_transport_def stash_noise_def noise_report_def mux_take_noise_def take_noise_def
          resync_def mux_capturing_noise_capped_def mux_new_def capturing_noise_capped_def decoder_new_def Let_def
          split: prod.splits if_splits)
    have "drained []" by (simp add: drained_def)
    with d(2) Faulted show ?thesis
      by (auto simp: xchg_finish_def Let_def link_ok_def decoder_new_def split: prod.splits dest!: n)
  qed (use d in \<open>auto simp: xchg_finish_def answer_done_def\<close>)
qed

lemma answers_are_fresh_and_asked_for_witness:
  "case exchange_inner (logging deaf) (ReadReq 7) TY_READ_RESP (link_new (5, [])) of
     Some (r, l') \<Rightarrow> link_ok l' \<and> r \<noteq> Inl Panic | None \<Rightarrow> False"
proof -
  obtain r l' where run: "exchange_inner (logging deaf) (ReadReq 7) TY_READ_RESP (link_new (5, [])) = Some (r, l')"
    using deaf_run by blast
  have "link_ok (link_new (5 :: u64, []))"
    by (simp add: link_ok_def link_new_def mux_capturing_noise_capped_def mux_new_def capturing_noise_capped_def
        decoder_new_def drained_def)
  with answers_are_fresh_and_asked_for [OF run] show ?thesis
    by (auto simp: run RESPONSE_TYPES_def split: sum.splits stop.splits)
qed

end
