(* ===== verification/Link_Live.thy ===== *)
theory Link_Live
  imports Link_Safe
begin

text \<open>
  The exchange returns. The transport's clock need only move between deliveries that find nothing
  pending; then the deadlines bound every wait, the budget the attempts, and the queue of held
  frames the turns between them.
\<close>

text \<open>
  The clock \<open>clk\<close> in milliseconds never runs backwards and \<open>now_ms\<close> reads it, up to the end of its
  64 bits; \<open>pending\<close> bounds the deliveries the transport can still make without waiting. A delivery
  consumes pending ones or takes time; no other operation adds any without time passing.
\<close>

definition clock_value :: "nat \<Rightarrow> u64" where
  "clock_value n = of_nat (min n (2 ^ 64 - 1))"

text \<open>The clock still has the time of one exchange before its end.\<close>

definition in_time :: "nat \<Rightarrow> bool" where
  "in_time n \<longleftrightarrow> n + unat RECV_DEADLINE_MS < 2 ^ 64 - 1"

lemma unat_clock_value: "unat (clock_value n) = min n (2 ^ 64 - 1)"
  by (simp add: clock_value_def unat_of_nat take_bit_nat_eq_self min_def)

definition clock_law :: "'t transport \<Rightarrow> ('t \<Rightarrow> nat) \<Rightarrow> ('t \<Rightarrow> nat) \<Rightarrow> bool" where
  "clock_law T clk pending \<longleftrightarrow>
     (let later = (\<lambda>t t'. clk t < clk t' \<or> clk t' = clk t \<and> pending t' \<le> pending t);
          strictly = (\<lambda>t t'. clk t < clk t' \<or> clk t' = clk t \<and> pending t' < pending t) in
      (\<forall>t. fst (now_ms T t) = clock_value (clk t) \<and> later t (snd (now_ms T t))) \<and>
      (\<forall>t. later t (snd (arm T t))) \<and> (\<forall>bs t. later t (snd (send T bs t))) \<and>
      (\<forall>t b t'. recv T t = (Inr b, t') \<longrightarrow> strictly t t'))"

definition later :: "('t \<Rightarrow> nat) \<Rightarrow> ('t \<Rightarrow> nat) \<Rightarrow> 't \<Rightarrow> 't \<Rightarrow> bool" where
  "later clk pending t t' \<longleftrightarrow> clk t < clk t' \<or> clk t' = clk t \<and> pending t' \<le> pending t"

lemma later_refl [simp]: "later clk pending t t"
  by (simp add: later_def)

lemma later_trans: "later clk pending t t' \<Longrightarrow> later clk pending t' t'' \<Longrightarrow> later clk pending t t''"
  by (auto simp: later_def)

lemma on_transport_trans: "on_transport f l = (a, l') \<Longrightarrow> f (transport_of l) = (a, transport_of l') \<and> link_mux l' = link_mux l"
  by (auto simp: on_transport_def split: prod.splits)

lemma clock_ops:
  assumes "clock_law T clk pending"
  shows "on_transport (now_ms T) l = (n, l') \<Longrightarrow>
      n = clock_value (clk (transport_of l)) \<and> later clk pending (transport_of l) (transport_of l') \<and> link_mux l' = link_mux l"
    and "on_transport (arm T) l = (a, l') \<Longrightarrow> later clk pending (transport_of l) (transport_of l') \<and> link_mux l' = link_mux l"
    and "on_transport (send T bs) l = (e, l') \<Longrightarrow> later clk pending (transport_of l) (transport_of l') \<and> link_mux l' = link_mux l"
    and "on_transport (recv T) l = (Inr b, l') \<Longrightarrow>
      clk (transport_of l) < clk (transport_of l') \<or>
      clk (transport_of l') = clk (transport_of l) \<and> pending (transport_of l') < pending (transport_of l)"
  using assms on_transport_trans [of "now_ms T" l n l'] on_transport_trans [of "arm T" l a l']
    on_transport_trans [of "send T bs" l e l'] on_transport_trans [of "recv T" l "Inr b" l']
  unfolding clock_law_def Let_def later_def by (metis fst_conv snd_conv)+

text \<open>The measure of a state of the loops, in lexicographic order.\<close>

definition xchg_rank :: "('t \<Rightarrow> nat) \<Rightarrow> ('t \<Rightarrow> nat) \<Rightarrow> 't xchg_state \<Rightarrow> nat \<times> nat \<times> nat \<times> nat" where
  "xchg_rank clk pending s =
     (case s of (ph, x, l) \<Rightarrow>
        (case ph of Attempt \<Rightarrow> 2 * (RETRY_BUDGET + 1 - x_attempts x) + 1
           | Waiting _ \<Rightarrow> 2 * (RETRY_BUDGET + 1 - x_attempts x) + 2,
         unat (x_began x) + unat RECV_DEADLINE_MS + 1 - clk (transport_of l), pending (transport_of l),
         length (held (link_mux l))))"

abbreviation rank_order :: "((nat \<times> nat \<times> nat \<times> nat) \<times> (nat \<times> nat \<times> nat \<times> nat)) set" where
  "rank_order \<equiv> less_than <*lex*> less_than <*lex*> less_than <*lex*> less_than"

definition live_inv :: "('t \<Rightarrow> nat) \<Rightarrow> 't xchg_state \<Rightarrow> bool" where
  "live_inv clk s \<longleftrightarrow>
     (case s of (ph, x, l) \<Rightarrow> unat (x_began x) \<le> clk (transport_of l) \<and> in_time (unat (x_began x)) \<and>
        (case ph of Attempt \<Rightarrow> x_attempts x \<le> RETRY_BUDGET | Waiting _ \<Rightarrow> x_attempts x \<le> RETRY_BUDGET + 1))"

lemma later_clk: "later clk pending t t' \<Longrightarrow> clk t \<le> clk t'"
  by (auto simp: later_def)

lemma elapsed_bound:
  assumes "\<not> d < saturating_sub (clock_value c) began" and "unat began \<le> c" and "unat began + unat d < 2 ^ 64 - 1"
  shows "c \<le> unat began + unat d"
proof -
  let ?c = "clock_value c"
  have c: "unat ?c = min c (2 ^ 64 - 1)" by (rule unat_clock_value)
  have le: "began \<le> ?c" using assms(2,3) c by (simp add: word_le_nat_alt)
  then have "unat (?c - began) \<le> unat d"
    using assms(1) by (simp add: saturating_sub_def word_less_nat_alt)
  with le have "unat ?c \<le> unat began + unat d" by (simp add: unat_sub word_le_nat_alt)
  with c assms(3) show ?thesis by (simp add: min_def split: if_splits)
qed

lemma xchg_attempt_rank:
  assumes law: "clock_law T clk pending" and i: "live_inv clk (Attempt, x, l)" and s: "xchg_attempt T x l = Inl s'"
  shows "live_inv clk s' \<and> (xchg_rank clk pending s', xchg_rank clk pending (Attempt, x, l)) \<in> rank_order"
proof -
  obtain stale l1 where d: "discard_stale_responses l = (stale, l1)" by force
  let ?l1 = "l1\<lparr>stale_dropped := stale_dropped l1 + stale\<rparr>"
  obtain now l2 where c: "on_transport (now_ms T) ?l1 = (now, l2)" by force
  obtain a l3 where r: "on_transport (arm T) l2 = (a, l3)" by force
  obtain now' l4 where c': "on_transport (now_ms T) l3 = (now', l4)" by force
  obtain y l5 where p: "on_transport (send T (x_out x)) l4 = (y, l5)" by force
  obtain sent_at l6 where q: "on_transport (now_ms T) l5 = (sent_at, l6)" by force
  have "s' = (Waiting sent_at, x\<lparr>x_attempts := x_attempts x + 1\<rparr>, l6)"
    using s by (auto simp: xchg_attempt_def d c r c' p q Let_def split: if_splits sum.splits)
  moreover have "clk (transport_of l) \<le> clk (transport_of l6)"
    using clock_ops(1) [OF law c] clock_ops(2) [OF law r] clock_ops(1) [OF law c'] clock_ops(3) [OF law p]
      clock_ops(1) [OF law q] discard_transport [OF d] by (auto dest!: later_clk)
  ultimately show ?thesis using i by (auto simp: live_inv_def xchg_rank_def)
qed

lemma xchg_receive_rank:
  assumes law: "clock_law T clk pending" and i: "live_inv clk (Waiting sent_at, x, l)"
    and s: "xchg_receive T sent_at x l = Inl s'"
  shows "live_inv clk s' \<and> (xchg_rank clk pending s', xchg_rank clk pending (Waiting sent_at, x, l)) \<in> rank_order"
proof -
  obtain now l2 where c: "on_transport (now_ms T) l = (now, l2)" by force
  obtain r l3 where rv: "on_transport (recv T) l2 = (r, l3)" by force
  note n = clock_ops(1) [OF law c]
  have began: "unat (x_began x) \<le> clk (transport_of l)" "in_time (unat (x_began x))" using i by (simp_all add: live_inv_def)
  show ?thesis
  proof (cases "ATTEMPT_DEADLINE_MS < saturating_sub now sent_at")
    case True
    then have "s' = (Attempt, x, l2\<lparr>retries := retries l2 + 1\<rparr>)" and "x_attempts x \<le> RETRY_BUDGET"
      using s by (auto simp: xchg_receive_def c Let_def split: if_splits)
    then show ?thesis using n began by (auto simp: live_inv_def xchg_rank_def dest!: later_clk)
  next
    case False
    obtain b where b: "r = Inr b" and ne: "\<not> RECV_DEADLINE_MS < saturating_sub now (x_began x)"
      using s False by (auto simp: xchg_receive_def c rv Let_def split: if_splits sum.splits)
    obtain l4 where l4: "s' = (Waiting sent_at, x, l4)" "transport_of l4 = transport_of l3"
      using s False ne b
      by (auto simp: xchg_receive_def c rv Let_def absorb_def move_console_def take_console_def
          split: if_splits sum.splits prod.splits)
    have c0: "clk (transport_of l) \<le> unat (x_began x) + unat RECV_DEADLINE_MS"
      using elapsed_bound [OF _ began(1) began(2) [unfolded in_time_def]] ne n by simp
    have rvs: "clk (transport_of l2) < clk (transport_of l3) \<or>
        clk (transport_of l3) = clk (transport_of l2) \<and> pending (transport_of l3) < pending (transport_of l2)"
      using clock_ops(4) [OF law] rv b by blast
    show ?thesis
      using n rvs c0 began i by (auto simp: l4 live_inv_def xchg_rank_def later_def)
  qed
qed

lemma xchg_wait_rank:
  assumes law: "clock_law T clk pending" and i: "live_inv clk (Waiting sent_at, x, l)"
    and s: "xchg_wait T sent_at x l = Inl s'"
  shows "live_inv clk s' \<and> (xchg_rank clk pending s', xchg_rank clk pending (Waiting sent_at, x, l)) \<in> rank_order"
proof -
  obtain g m where m: "take_matching (x_want x) (link_mux l) = (g, m)" by force
  obtain g' m' where m': "take_matching TY_ERR m = (g', m')" by force
  show ?thesis
  proof (cases g)
    case (Some f)
    with take_matching_shorter [of "x_want x" "link_mux l" f m] m s i show ?thesis
      by (auto simp: xchg_wait_def Let_def live_inv_def xchg_rank_def split: if_splits)
  next
    case None
    then have mm: "m = link_mux l" using take_matching_held [OF m] by simp
    show ?thesis
    proof (cases g')
      case None': None
      then have "m' = link_mux l" using take_matching_held [OF m'] mm by simp
      then have "l\<lparr>link_mux := m'\<rparr> = l" by simp
      with s None None' have "xchg_receive T sent_at x l = Inl s'" by (simp add: xchg_wait_def m m' [unfolded mm] Let_def mm)
      then show ?thesis by (rule xchg_receive_rank [OF law i])
    next
      case (Some f)
      then obtain code p where f: "f = ErrFrame code p" using take_matching_held [OF m'] by (cases f) auto
      with Some None s take_matching_shorter [of TY_ERR m f m'] m' mm i show ?thesis
        by (auto simp: xchg_wait_def m Let_def live_inv_def xchg_rank_def split: if_splits)
    qed
  qed
qed

lemma rank_wf: "wf (inv_image rank_order (xchg_rank clk pending))"
  by (intro wf_inv_image wf_lex_prod wf_less_than)

lemma xchg_loop_returns:
  assumes law: "clock_law T clk pending"
  shows "live_inv clk s \<Longrightarrow> \<exists>d. xchg_loop T s = Some d"
proof (induction s rule: wf_induct_rule [OF rank_wf [of clk pending]])
  case (1 s)
  show ?case
  proof (cases "xchg_step T s")
    case (Inr d)
    then show ?thesis by (cases d) (simp add: xchg_loop.simps [of T s])
  next
    case (Inl s')
    obtain ph x l where sl: "s = (ph, x, l)" by (cases s)
    have r: "live_inv clk s' \<and> (xchg_rank clk pending s', xchg_rank clk pending s) \<in> rank_order"
      using Inl 1(2) xchg_attempt_rank [OF law, of x l s'] xchg_wait_rank [OF law, of _ x l s']
      by (cases ph) (simp_all add: sl xchg_step_def)
    then have "(s', s) \<in> inv_image rank_order (xchg_rank clk pending)" by (simp only: in_inv_image)
    from 1(1) [OF this] r Inl show ?thesis by (auto simp: xchg_loop.simps [of T s])
  qed
qed

lemma exchange_returns:
  assumes "clock_law T clk pending" and "in_time (clk (transport_of (snd (on_transport (now_ms T) l))))"
  shows "\<exists>r l'. exchange T f want l = Some (r, l')"
proof -
  obtain t0 l0 where c0: "on_transport (now_ms T) l = (t0, l0)" by force
  have "\<exists>r l'. exchange_inner T f want l0 = Some (r, l')"
  proof (cases "frame_page f")
    case None
    then show ?thesis by (simp add: exchange_inner_def)
  next
    case (Some page)
    let ?l = "l0\<lparr>cur_op := Some (case f of WriteReq _ _ \<Rightarrow> Op_Write page | _ \<Rightarrow> Op_Read page), scratch := []\<rparr>"
    obtain began l1 where c: "on_transport (now_ms T) ?l = (began, l1)" by force
    let ?x = "\<lparr>x_asked = page, x_want = want, x_out = encode f [], x_began = began, x_attempts = 0,
      x_mismatched = 0, x_last_mismatch = None\<rparr>"
    have t: "in_time (clk (transport_of ?l))" using assms(2) c0 by simp
    then have "unat began = clk (transport_of ?l)"
      using clock_ops(1) [OF assms(1) c] by (simp add: unat_clock_value in_time_def)
    moreover have "clk (transport_of ?l) \<le> clk (transport_of l1)"
      using clock_ops(1) [OF assms(1) c] by (auto dest: later_clk)
    ultimately have "live_inv clk (Attempt, ?x, l1)" using t by (simp add: live_inv_def)
    then obtain d where "xchg_loop T (Attempt, ?x, l1) = Some d" using xchg_loop_returns [OF assms(1)] by blast
    then show ?thesis
      using c by (cases "xchg_finish T d") (simp add: exchange_inner_def Some Let_def)
  qed
  then show ?thesis by (auto simp: exchange_def c0 split: prod.splits)
qed

text \<open>Property C18 (exchange_always_returns): on a transport whose clock moves whenever a delivery finds
  nothing pending, and is not within two seconds of the end of its 64 bits, every exchange returns,
  with an answer, an error or a recorded fault: the two deadlines and the retry budget leave no way
  to wait for ever.\<close>

theorem exchange_always_returns:
  assumes "clock_law T clk pending" and "in_time (clk (transport_of (snd (on_transport (now_ms T) l))))"
  shows "\<exists>r l'. exchange T f want l = Some (r, l')"
  by (rule exchange_returns [OF assms])

text \<open>A transport that delivers nothing, a millisecond at a time, until its clock stands still.\<close>

definition silent :: "nat transport" where
  "silent = \<lparr>arm = \<lambda>t. (Inr (), t), send = \<lambda>bs t. (Inr (), t),
     recv = \<lambda>t. if t < 10000 then (Inr [], t + 1) else (Inl (), t), poll = \<lambda>t. (Inr [], t),
     now_ms = \<lambda>t. (of_nat (min t 10000), t), take_platform_fault = \<lambda>t. (None, t), transport_status = \<lambda>t. (None, t)\<rparr>"

lemma exchange_always_returns_witness:
  "\<exists>r l'. exchange silent (ReadReq 7) TY_READ_RESP (link_new 0) = Some (r, l')"
  by (rule exchange_always_returns [where clk = "\<lambda>t. min t 10000" and pending = "\<lambda>_. 0"])
    (auto simp: clock_law_def silent_def Let_def clock_value_def in_time_def on_transport_def link_new_def split: if_splits)

end
