(* ===== verification/Cable.thy ===== *)
theory Cable
  imports Serve_Props Link_Live
begin

text \<open>
  The two ends of the link put together: the badge's exchange over a transport that is the host's
  serving loop at the other end of a lossless cable. The guest memory the badge reads and writes
  through \<open>UsbHost\<close> is then the host's image, page for page, and \<open>UsbHost\<close> is a backing store like
  the local ones, so that everything proved of the cache and the hart holds over the cable too.
\<close>

section \<open>Frames in pieces\<close>

lemma encode_single: "pieces f = [f] \<Longrightarrow> encode f [] = encode_one f"
  using encode_pieces [of f "[]"] by simp

lemma parse_prefix:
  assumes f: "small f" and n: "n < length (encode_one f)"
  shows "parse (take n (encode_one f)) = ([], [], take n (encode_one f))"
proof -
  let ?e = "encode_one f" and ?b = "take n (encode_one f)"
  have full: "classify ?e = (Got f, 0, length ?e)"
  proof -
    have p: "length (payload f) \<le> MAX_PAYLOAD" and d: "decode_body (type_byte f) (payload f) = Some f"
      using f by (simp_all add: small_def decode_payload)
    have "at_sync ?e = (Got f, 0, length ?e)"
      using at_sync_shape [OF p, of "to_le 4 (crc32 (type_byte f # to_le 2 (of_nat (length (payload f)) :: u16) @ payload f))"
          "type_byte f" "[]"]
      by (simp add: encode_frame_body_def Let_def d)
    then show ?thesis using find_sync_encoded [of "type_byte f" "payload f" "[]"] by (simp add: classify_def)
  qed
  obtain v a u where c: "classify ?b = (v, a, u)" by (cases "classify ?b")
  have "v = Wait"
  proof (rule ccontr)
    assume "v \<noteq> Wait"
    from classify_append [OF c this, of "drop n ?e"] full have "a + u = length ?e" by simp
    with classify_bound [OF c] n show False by simp
  qed
  have "a = 0"
  proof (cases "n < 2")
    case True
    then consider "n = 0" | "n = 1" by linarith
    then have "?b = [] \<or> ?b = [0xC1]"
      by cases (simp_all add: encode_frame_body_def Let_def sync_bytes)
    then show ?thesis using c by (auto simp: classify_def sync_bytes)
  next
    case False
    then obtain k where "n = Suc (Suc k)" by (metis Suc_1 add_2_eq_Suc le_Suc_ex not_less)
    then have "find_sync ?b = Some 0" by (simp add: encode_frame_body_def Let_def sync_bytes)
    with c \<open>v = Wait\<close> show ?thesis by (auto simp: classify_def dest: at_sync_Wait)
  qed
  with c \<open>v = Wait\<close> show ?thesis by (simp add: parse.simps [of ?b])
qed

text \<open>What one more piece of a frame does to a parser that holds the pieces before it.\<close>

lemma parse_piece:
  assumes "small f" and "D @ c @ W = encode_one f"
  shows "parse (D @ c) = (if W = [] then ([f], [], []) else ([], [], D @ c))"
proof (cases "W = []")
  case True
  with assms(2) have "D @ c = encode_one f @ []" by simp
  with parse_encoded [OF assms(1), of "[]" "[]" "[]" "[]"] True show ?thesis by simp
next
  case False
  have "D @ c = take (length (D @ c)) (encode_one f)" using assms(2) by (metis append.assoc append_eq_conv_conj)
  moreover have "length (D @ c) < length (encode_one f)" using assms(2) False by (metis append.assoc length_append length_greater_0_conv less_add_same_cancel1)
  ultimately show ?thesis using parse_prefix [OF assms(1)] False by metis
qed

section \<open>The host's end\<close>

text \<open>A server that has received part of a request, and nothing else since its last reply.\<close>

definition host_ready :: "u8 list \<Rightarrow> 'f server \<Rightarrow> bool" where
  "host_ready D s \<longleftrightarrow> buf (dec (smux s)) = D \<and> held (smux s) = [] \<and> console (smux s) = [] \<and>
     noise (dec (smux s)) = [] \<and> dropped_noise (dec (smux s)) = 0"

lemma mux_push_piece:
  assumes "parse (buf (dec m) @ c) = (fs, [], r)"
  shows "mux_push c m = (Inr (), fold route fs (m\<lparr>dec := (dec m)\<lparr>buf := r\<rparr>\<rparr>))"
  using mux_push_parse [OF assms] by simp

lemma serve_once_piece:
  assumes h: "host_ready D s" and f: "is_request f" "D @ c @ W = encode_one f" and o: "out s = []"
    and r: "serve_frame F len f (img s) = Some (req, reply, f')"
  shows "\<exists>v s'. serve_once F len c s = (Inr v, s') \<and>
    (if W = [] then host_ready [] s' \<and> img s' = f' \<and> out s' = encode reply []
     else host_ready (D @ c) s' \<and> img s' = img s \<and> out s' = [])"
proof -
  have small: "small f" using f(1) by (cases f) (auto simp: is_request_def small_def)
  let ?m = "smux s"
  note m = h [unfolded host_ready_def]
  have p: "parse (buf (dec ?m) @ c) = (if W = [] then ([f], [], []) else ([], [], D @ c))"
    using parse_piece [OF small f(2)] m by simp
  show ?thesis
  proof (cases "W = []")
    case True
    let ?mz = "?m\<lparr>dec := (dec ?m)\<lparr>buf := []\<rparr>\<rparr>"
    have "parse (buf (dec ?m) @ c) = ([f], [], [])" using p True by argo
    from mux_push_piece [OF this] have "mux_push c ?m = (Inr (), route f ?mz)" by simp
    moreover have "route f ?mz = ?mz\<lparr>held := [f]\<rparr>" using f(1) m by (cases f) (simp_all add: is_request_def)
    ultimately have push: "mux_push c ?m = (Inr (), ?mz\<lparr>held := [f]\<rparr>)" by simp
    have next1: "next_request (?mz\<lparr>held := [f]\<rparr>) = (Some f, ?mz\<lparr>held := []\<rparr>)"
      using f(1) by (auto simp: next_request_def take_only is_request_def)
    have next2: "next_request (?mz\<lparr>held := []\<rparr>) = (None, ?mz\<lparr>held := []\<rparr>)"
      by (simp add: next_request_def take_none)
    have loop: "serve_loop F len (s\<lparr>smux := ?mz\<lparr>held := [f]\<rparr>, answered := []\<rparr>) =
        (Inr (), s\<lparr>img := f', smux := ?mz\<lparr>held := []\<rparr>, out := encode reply [], answered := [req]\<rparr>)"
      by (subst serve_loop.simps) (simp add: next1 r o, subst serve_loop.simps, simp add: next2)
    show ?thesis
      using True m by (simp add: serve_once_def push loop take_console_def mux_take_noise_def take_noise_def host_ready_def)
  next
    case False
    let ?mz = "?m\<lparr>dec := (dec ?m)\<lparr>buf := D @ c\<rparr>\<rparr>"
    have push: "mux_push c ?m = (Inr (), ?mz)" using mux_push_piece [of ?m c "[]" "D @ c"] p False by simp
    have "next_request ?mz = (None, ?mz)" using m by (simp add: next_request_def take_none)
    then have loop: "serve_loop F len (s\<lparr>smux := ?mz, answered := []\<rparr>) = (Inr (), s\<lparr>smux := ?mz, answered := []\<rparr>)"
      by (subst serve_loop.simps) simp
    show ?thesis
      using False m o by (simp add: serve_once_def push loop take_console_def mux_take_noise_def take_noise_def host_ready_def)
  qed
qed

lemma serve_shared_request:
  assumes "host_ready D s" and "is_request f" and "D @ concat cs = encode_one f" and "[] \<notin> set cs" and "cs \<noteq> []"
    and "serve_frame F len f (img s) = Some (req, reply, f')" and "encode reply [] \<noteq> []"
  shows "\<exists>r s'. serve_shared F len None cs t s = (Inr r, [encode reply []], s') \<and> host_ready [] s' \<and> img s' = f'"
  using assms
proof (induction cs arbitrary: D s t)
  case (Cons c cs)
  have h: "host_ready D (s\<lparr>out := []\<rparr>)" using Cons.prems(1) by (simp add: host_ready_def)
  have e: "D @ c @ concat cs = encode_one f" using Cons.prems(3) by simp
  obtain v s1 where once: "serve_once F len c (s\<lparr>out := []\<rparr>) = (Inr v, s1)"
    and s1: "if concat cs = [] then host_ready [] s1 \<and> img s1 = f' \<and> out s1 = encode reply []
      else host_ready (D @ c) s1 \<and> img s1 = img s \<and> out s1 = []"
    using serve_once_piece [OF h Cons.prems(2) e, of F len req reply f'] Cons.prems(6) by auto
  show ?case
  proof (cases "cs = []")
    case True
    with once s1 Cons.prems(4,7) show ?thesis by (auto simp: write_reply_def)
  next
    case False
    then have "concat cs \<noteq> []" using Cons.prems(4) by (cases cs) auto
    with s1 have s1: "host_ready (D @ c) s1" "img s1 = img s" "out s1 = []" by simp_all
    have "(D @ c) @ concat cs = encode_one f" "[] \<notin> set cs" using e Cons.prems(4) by simp_all
    from Cons.IH [OF s1(1) Cons.prems(2) this False _ Cons.prems(7), of "snd (trail_note (answered s1) t)"] Cons.prems(6) s1(2)
    obtain r s' where "serve_shared F len None cs (snd (trail_note (answered s1) t)) s1 = (Inr r, [encode reply []], s')"
      "host_ready [] s'" "img s' = f'" by auto
    with once s1 Cons.prems(4) show ?thesis by (auto simp: Let_def)
  qed
qed simp

section \<open>The cable\<close>

text \<open>
  The badge's transport when the host serves the other end: what the badge sends reaches the server
  in reads of at most 4096 bytes, what the server writes waits on the wire, and a delivery takes at
  most 3840 bytes of it. Nothing is lost, and a round trip stays inside one tick of the clock.
\<close>

record 'f cable =
  host :: "'f server"
  wire :: "u8 list"

definition cable_send :: "'f file_ops \<Rightarrow> nat \<Rightarrow> u8 list \<Rightarrow> 'f cable \<Rightarrow> (send_error + unit) \<times> 'f cable" where
  "cable_send F len bs c =
     (case serve_shared F len None (chunks 4096 bs) trail_new (host c) of
        (Inl _, sent, s) \<Rightarrow> (Inl Failed_E, c\<lparr>host := s\<rparr>)
      | (Inr _, sent, s) \<Rightarrow> (Inr (), c\<lparr>host := s, wire := wire c @ concat sent\<rparr>))"

definition cable_recv :: "'f cable \<Rightarrow> (unit + u8 list) \<times> 'f cable" where
  "cable_recv c = (Inr (take 3840 (wire c)), c\<lparr>wire := drop 3840 (wire c)\<rparr>)"

definition cable_transport :: "'f file_ops \<Rightarrow> nat \<Rightarrow> u64 \<Rightarrow> 'f cable transport" where
  "cable_transport F len now =
     \<lparr>arm = \<lambda>c. (Inr (), c), send = cable_send F len, recv = cable_recv, poll = cable_recv,
      now_ms = \<lambda>c. (now, c), take_platform_fault = \<lambda>c. (None, c), transport_status = \<lambda>c. (None, c)\<rparr>"

text \<open>Nothing outstanding at either end, nothing on the wire.\<close>

definition cable_ready :: "'f cable link_inner \<Rightarrow> bool" where
  "cable_ready l \<longleftrightarrow> buf (dec (link_mux l)) = [] \<and> held (link_mux l) = [] \<and>
     wire (transport_of l) = [] \<and> host_ready [] (host (transport_of l))"

lemma cable_ops [simp]:
  "on_transport (now_ms (cable_transport F len now)) l = (now, l)"
  "on_transport (arm (cable_transport F len now)) l = (Inr (), l)"
  "on_transport (recv (cable_transport F len now)) l =
     (Inr (take 3840 (wire (transport_of l))),
      l\<lparr>transport_of := (transport_of l)\<lparr>wire := drop 3840 (wire (transport_of l))\<rparr>\<rparr>)"
  by (simp_all add: on_transport_def cable_transport_def cable_recv_def)

lemma discard_nothing: "held (link_mux l) = [] \<Longrightarrow> discard_stale_responses l = (0, l)"
  by (simp add: discard_stale_responses_def RESPONSE_TYPES_def drop_matching.simps take_none)

lemma saturating_sub_same [simp]: "saturating_sub a a = 0"
  by (simp add: saturating_sub_def)

text \<open>The receive loop while the reply arrives: the part that has arrived is in the decoder.\<close>

definition reply_end :: "xchg \<Rightarrow> wire_frame \<Rightarrow> xchg_end" where
  "reply_end x reply = (case reply of ErrFrame code _ \<Rightarrow> Refused (err_code code) | _ \<Rightarrow> Answered reply)"

definition is_reply :: "xchg \<Rightarrow> wire_frame \<Rightarrow> bool" where
  "is_reply x reply \<longleftrightarrow> frame_ok reply \<and> frame_page reply = Some (x_asked x) \<and>
     (type_byte reply = x_want x \<or> type_byte reply = TY_ERR) \<and> x_want x \<in> {TY_READ_RESP, TY_WRITE_ACK}"

lemma reply_small: "is_reply x reply \<Longrightarrow> small reply \<and> pieces reply = [reply]"
  by (cases reply) (auto simp: is_reply_def small_def)

lemma xchg_step_reply:
  assumes "is_reply x reply" and "held (link_mux l) = [reply]"
  shows "xchg_step (cable_transport F len now) (Waiting now, x, l) =
    Inr (reply_end x reply, x, l\<lparr>link_mux := (link_mux l)\<lparr>held := []\<rparr>, scratch := x_out x\<rparr>)"
  using assms
  by (cases reply) (auto simp: xchg_step_def xchg_wait_def take_only reply_end_def is_reply_def Let_def)

lemma absorb_piece:
  assumes "parse (buf (dec (link_mux l)) @ c) = (fs, [], r)" and "\<forall>f \<in> set fs. type_byte f \<notin> {5, 6}"
    and "held (link_mux l) = []"
  shows "\<exists>l'. absorb c l = (Inr (), l') \<and> transport_of l' = transport_of l \<and> held (link_mux l') = fs \<and>
    buf (dec (link_mux l')) = r"
  using absorb_ok [OF assms(1)] assms(2,3) by (cases "absorb c l") (auto intro: filter_id_conv [THEN iffD2])

lemma wait_for_reply:
  assumes "is_reply x reply" and "x_began x = now"
  shows "buf (dec (link_mux l)) @ wire (transport_of l) = encode reply [] \<Longrightarrow> wire (transport_of l) \<noteq> [] \<Longrightarrow>
    held (link_mux l) = [] \<Longrightarrow>
    \<exists>l'. xchg_loop (cable_transport F len now) (Waiting now, x, l) = Some (reply_end x reply, x, l') \<and>
      transport_of l' = (transport_of l)\<lparr>wire := []\<rparr> \<and> held (link_mux l') = [] \<and> buf (dec (link_mux l')) = []"
proof (induction "length (wire (transport_of l))" arbitrary: l rule: less_induct)
  case less
  let ?T = "cable_transport F len now" and ?w = "wire (transport_of l)" and ?b = "buf (dec (link_mux l))"
  let ?c = "take 3840 ?w" and ?W = "drop 3840 ?w"
  let ?l1 = "l\<lparr>transport_of := (transport_of l)\<lparr>wire := ?W\<rparr>\<rparr>"
  have small: "small reply" "encode reply [] = encode_one reply"
    using reply_small [OF assms(1)] encode_single by auto
  have e: "?b @ ?c @ ?W = encode_one reply" using less(2) small(2) by simp
  have fs: "\<forall>f \<in> set (if ?W = [] then [reply] else []). type_byte f \<notin> {5, 6}"
    using assms(1) by (auto simp: is_reply_def)
  have p: "parse (buf (dec (link_mux ?l1)) @ ?c) = (if ?W = [] then [reply] else [], [], if ?W = [] then [] else ?b @ ?c)"
    using parse_piece [OF small(1) e] by simp
  obtain l2 where ab: "absorb ?c ?l1 = (Inr (), l2)" and l2: "transport_of l2 = transport_of ?l1"
    "held (link_mux l2) = (if ?W = [] then [reply] else [])" "buf (dec (link_mux l2)) = (if ?W = [] then [] else ?b @ ?c)"
    using absorb_piece [OF p fs] less(4) by auto
  have "xchg_step ?T (Waiting now, x, l) = Inl (Waiting now, x, l2)"
    using less(3,4) assms(2) ab by (simp add: xchg_step_def xchg_wait_def take_none xchg_receive_def)
  then have step: "xchg_loop ?T (Waiting now, x, l) = xchg_loop ?T (Waiting now, x, l2)"
    by (simp add: xchg_loop.simps [of ?T "(Waiting now, x, l)"])
  show ?case
  proof (cases "?W = []")
    case True
    then have "held (link_mux l2) = [reply]" using l2 by simp
    from xchg_step_reply [OF assms(1) this] True l2 show ?thesis
      unfolding step by (simp add: xchg_loop.simps [of ?T "(Waiting now, x, l2)"])
  next
    case False
    have "length (wire (transport_of l2)) < length ?w" using l2(1) less(3) by simp
    from less(1) [OF this] False l2 e small(2) show ?thesis unfolding step by simp
  qed
qed

lemma chunks_nonempty: "[] \<notin> set (chunks n xs)"
proof (induction n xs rule: chunks.induct)
  case (1 n xs)
  then show ?case by (auto simp: chunks.simps [of n xs])
qed

lemma encode_nonempty: "pieces f = [f] \<Longrightarrow> encode f [] \<noteq> []"
  by (simp add: encode_single encode_frame_body_def Let_def sync_bytes)

lemma cable_send_request:
  assumes "host_ready [] (host c)" and "wire c = []" and f: "is_request f"
    and r: "serve_frame F len f (img (host c)) = Some (req, reply, f')" and reply: "pieces reply = [reply]"
  shows "\<exists>s'. cable_send F len (encode f []) c = (Inr (), c\<lparr>host := s', wire := encode reply []\<rparr>) \<and>
    host_ready [] s' \<and> img s' = f'"
proof -
  have pf: "pieces f = [f]" using f by (cases f) (simp_all add: is_request_def)
  let ?cs = "chunks 4096 (encode f [])"
  have cs: "[] @ concat ?cs = encode_one f" "[] \<notin> set ?cs" "?cs \<noteq> []"
    using chunks_props(1) [of 4096 "encode f []"] chunks_nonempty encode_single [OF pf] encode_nonempty [OF pf]
    by (auto simp: chunks.simps [of 4096 "encode f []"])
  from serve_shared_request [OF assms(1) f cs r encode_nonempty [OF reply], of trail_new]
  show ?thesis using assms(2) by (auto simp: cable_send_def)
qed

lemma exchange_over_cable:
  assumes ready: "cable_ready l" and f: "is_request f" "frame_page f = Some page"
    and want: "want = (if type_byte f = 1 then TY_READ_RESP else TY_WRITE_ACK)"
    and r: "serve_frame F len f (img (host (transport_of l))) = Some (req, reply, f')"
    and reply: "frame_ok reply" "frame_page reply = Some page" "type_byte reply \<in> {want, TY_ERR}"
  shows "\<exists>l'. exchange (cable_transport F len now) f want l =
      Some (case reply of ErrFrame code _ \<Rightarrow> Inl (Err (err_code code)) | _ \<Rightarrow> Inr reply, l') \<and>
    cable_ready l' \<and> img (host (transport_of l')) = f'"
proof -
  let ?T = "cable_transport F len now"
  let ?l = "l\<lparr>cur_op := Some (case f of WriteReq _ _ \<Rightarrow> Op_Write page | _ \<Rightarrow> Op_Read page), scratch := []\<rparr>"
  let ?x = "\<lparr>x_asked = page, x_want = want, x_out = encode f [], x_began = now, x_attempts = 0,
    x_mismatched = 0, x_last_mismatch = None\<rparr>"
  let ?x1 = "?x\<lparr>x_attempts := 1\<rparr>"
  have x1: "is_reply ?x1 reply" using reply want by (auto simp: is_reply_def)
  note m = ready [unfolded cable_ready_def]
  obtain s' where s': "cable_send F len (encode f []) (transport_of l) =
      (Inr (), (transport_of l)\<lparr>host := s', wire := encode reply []\<rparr>)" "host_ready [] s'" "img s' = f'"
    using cable_send_request [OF _ _ f(1) r] reply_small [OF x1] m by auto
  let ?l1 = "?l\<lparr>transport_of := (transport_of l)\<lparr>host := s', wire := encode reply []\<rparr>\<rparr>"
  have send: "on_transport (send ?T (encode f [])) ?l = (Inr (), ?l1)"
    using s'(1) by (simp add: on_transport_def cable_transport_def)
  have "xchg_step ?T (Attempt, ?x, ?l) = Inl (Waiting now, ?x1, ?l1)"
    using discard_nothing [of ?l] m send by (simp add: xchg_step_def xchg_attempt_def Let_def)
  then have step: "xchg_loop ?T (Attempt, ?x, ?l) = xchg_loop ?T (Waiting now, ?x1, ?l1)"
    by (simp add: xchg_loop.simps [of ?T "(Attempt, ?x, ?l)"])
  have "encode reply [] \<noteq> []" using encode_nonempty reply_small [OF x1] by blast
  then obtain l2 where l2: "xchg_loop ?T (Waiting now, ?x1, ?l1) = Some (reply_end ?x1 reply, ?x1, l2)"
    "transport_of l2 = (transport_of ?l1)\<lparr>wire := []\<rparr>" "held (link_mux l2) = []" "buf (dec (link_mux l2)) = []"
    using wait_for_reply [OF x1, of now ?l1] m by auto
  have "exchange_inner ?T f want l =
      Some (case reply of ErrFrame code _ \<Rightarrow> Inl (Err (err_code code)) | _ \<Rightarrow> Inr reply, l2)"
    using f(2) step l2(1) by (cases reply) (simp_all add: exchange_inner_def Let_def xchg_finish_def reply_end_def)
  then show ?thesis
    using l2(2-4) s'(2,3) by (simp add: exchange_def cable_ready_def)
qed

section \<open>The image as guest memory\<close>

definition cable_contents :: "('f \<Rightarrow> u8 list) \<Rightarrow> 'f cable link_inner \<Rightarrow> u32 \<Rightarrow> u8 list" where
  "cable_contents view l = image_page (view (img (host (transport_of l))))"

definition cable_inv :: "('f \<Rightarrow> u8 list) \<Rightarrow> nat \<Rightarrow> 'f cable link_inner \<Rightarrow> bool" where
  "cable_inv view len l \<longleftrightarrow> cable_ready l \<and> length (view (img (host (transport_of l)))) = len"

lemma cable_read:
  assumes F: "file_medium F view" and inv: "cable_inv view len l"
  shows "\<exists>l'. cable_inv view len l' \<and> cable_contents view l' = cable_contents view l \<and>
    (usb_read_page (cable_transport F len now) p l = (Inl (Err OutOfRange), l') \<or>
     usb_read_page (cable_transport F len now) p l = (Inr (cable_contents view l p), l') \<and>
       length (cable_contents view l p) = PAGE \<and> (unat p + 1) * PAGE \<le> len)"
proof -
  let ?f = "img (host (transport_of l))"
  obtain r f' where rd: "serve_read_page F len p ?f = (r, f')" by force
  have keep: "view f' = view ?f"
    using rd file_medium.read_keeps [OF F] by (auto simp: serve_read_page_def Let_def split: if_splits)
  let ?reply = "case r of Inr d \<Rightarrow> ReadResp p d | Inl _ \<Rightarrow> ErrFrame 1 p"
  have s: "serve_frame F len (ReadReq p) ?f = Some ((1, p), ?reply, f')"
    using rd by (simp split: sum.splits)
  have data: "d = cable_contents view l p \<and> length d = PAGE \<and> (unat p + 1) * PAGE \<le> len" if "r = Inr d" for d
    using rd that file_medium.read_all [OF F, of "unat p * PAGE" PAGE ?f d f']
    by (auto simp: serve_read_page_def Let_def cable_contents_def image_page_def length_slice out_of_range_def split: if_splits)
  have ok: "frame_ok ?reply" "frame_page ?reply = Some p" "type_byte ?reply \<in> {TY_READ_RESP, TY_ERR}"
    using data by (auto split: sum.splits)
  obtain l' where x: "exchange (cable_transport F len now) (ReadReq p) TY_READ_RESP l =
      Some (case ?reply of ErrFrame code _ \<Rightarrow> Inl (Err (err_code code)) | _ \<Rightarrow> Inr ?reply, l')"
    "cable_ready l'" "img (host (transport_of l')) = f'"
    using exchange_over_cable [OF _ _ _ _ s, of p TY_READ_RESP now] inv ok by (auto simp: cable_inv_def is_request_def)
  have "cable_inv view len l' \<and> cable_contents view l' = cable_contents view l"
    using x(2,3) keep inv by (simp add: cable_inv_def cable_contents_def)
  then show ?thesis
    using x(1) data by (intro exI [of _ l']) (cases r; simp add: usb_read_page_def err_code_def)
qed

lemma cable_write:
  assumes F: "file_medium F view" and inv: "cable_inv view len l" and d: "length d = PAGE"
  shows "\<exists>l'. cable_inv view len l' \<and>
    (usb_write_page (cable_transport F len now) p d l = (Inr (), l') \<and> (unat p + 1) * PAGE \<le> len \<and>
       cable_contents view l' = (cable_contents view l)(p := d) \<or>
     usb_write_page (cable_transport F len now) p d l = (Inl (Err OutOfRange), l') \<and>
       (\<forall>q. q \<noteq> p \<longrightarrow> cable_contents view l' q = cable_contents view l q))"
proof -
  let ?f = "img (host (transport_of l))"
  obtain r f' where wr: "serve_write_page F len p d ?f = (r, f')" by force
  let ?reply = "case r of Inr _ \<Rightarrow> WriteAck p | Inl _ \<Rightarrow> ErrFrame 2 p"
  have s: "serve_frame F len (WriteReq p d) ?f = Some ((3, p), ?reply, f')"
    using wr by (simp split: sum.splits)
  have len: "length (view ?f) = len" using inv by (simp add: cable_inv_def)
  have done': "view f' = splice (unat p * PAGE) d (view ?f) \<and> (unat p + 1) * PAGE \<le> len" if "r = Inr u" for u
    using wr that len d file_medium.write_done [OF F, of "unat p * PAGE" d ?f f']
    by (auto simp: serve_write_page_def Let_def out_of_range_def split: if_splits)
  have torn: "length (view f') = len \<and> (\<forall>q. q \<noteq> p \<longrightarrow> image_page (view f') q = image_page (view ?f) q)" if "r = Inl u" for u
  proof (cases "out_of_range (unat p * PAGE) len")
    case True
    with wr len show ?thesis by (auto simp: serve_write_page_def)
  next
    case False
    then have p: "(unat p + 1) * PAGE \<le> length (view ?f)" using len by (simp add: out_of_range_def)
    have "write_at F (unat p * PAGE) d ?f = (Inl u, f')" using wr False that by (simp add: serve_write_page_def)
    from file_medium.write_torn [OF F _ this] p d have
      "length (view f') = length (view ?f)"
      "\<forall>i < length (view ?f). i < unat p * PAGE \<or> unat p * PAGE + PAGE \<le> i \<longrightarrow> view f' ! i = view ?f ! i" by simp_all
    with torn_page [OF this(1) p] len show ?thesis by blast
  qed
  have ok: "frame_ok ?reply" "frame_page ?reply = Some p" "type_byte ?reply \<in> {TY_WRITE_ACK, TY_ERR}"
    by (auto split: sum.splits)
  obtain l' where x: "exchange (cable_transport F len now) (WriteReq p d) TY_WRITE_ACK l =
      Some (case ?reply of ErrFrame code _ \<Rightarrow> Inl (Err (err_code code)) | _ \<Rightarrow> Inr ?reply, l')"
    "cable_ready l'" "img (host (transport_of l')) = f'"
    using exchange_over_cable [OF _ _ _ _ s, of p TY_WRITE_ACK now] inv ok d by (auto simp: cable_inv_def is_request_def)
  show ?thesis
  proof (cases r)
    case (Inr u)
    have p: "(unat p + 1) * PAGE \<le> length (view ?f)" using done' [OF Inr] len by simp
    have "cable_contents view l' = (cable_contents view l)(p := d)" "length (view f') = len"
      using x(3) done' [OF Inr] image_page_splice [OF p d] d len by (simp_all add: cable_contents_def length_splice)
    then show ?thesis
      using x done' [OF Inr] Inr by (intro exI [of _ l']) (simp add: usb_write_page_def cable_inv_def)
  next
    case (Inl u)
    then show ?thesis
      using x torn [OF Inl] by (intro exI [of _ l']) (simp add: usb_write_page_def cable_inv_def cable_contents_def err_code_def)
  qed
qed

text \<open>Property C11 (link_memory_is_the_image): over a lossless cable the badge's backing store is the host's
  image. A page read returns the page's 4096 bytes of the image, a page write replaces exactly them
  and is acknowledged after the host has stored it, a failure is reported as such and damages no
  other page, both leave nothing outstanding, and neither panics nor fails to return.\<close>

theorem link_memory_is_the_image:
  assumes "file_medium F view" and "cable_inv view len l" and "length d = PAGE"
  shows "(case read_page (usb_ops (cable_transport F len now)) p l of
       (Inr bs, l') \<Rightarrow> bs = cable_contents view l p \<and> length bs = PAGE \<and> cable_inv view len l' \<and>
         cable_contents view l' = cable_contents view l
     | (Inl e, l') \<Rightarrow> e = Err OutOfRange \<and> cable_inv view len l' \<and> cable_contents view l' = cable_contents view l) \<and>
    (case write_page (usb_ops (cable_transport F len now)) p d l of
       (Inr _, l') \<Rightarrow> cable_inv view len l' \<and> cable_contents view l' = (cable_contents view l)(p := d)
     | (Inl e, l') \<Rightarrow> e = Err OutOfRange \<and> cable_inv view len l' \<and>
         (\<forall>q. q \<noteq> p \<longrightarrow> cable_contents view l' q = cable_contents view l q))"
  using cable_read [OF assms(1,2), of now p] cable_write [OF assms, of now p] by (auto simp: usb_ops_def)

definition demo_link :: "u8 list cable link_inner" where
  "demo_link = link_new \<lparr>host = server_new (replicate (4 * PAGE) 0), wire = []\<rparr>"

lemma demo_link_ready: "cable_inv (\<lambda>f. f) (4 * PAGE) demo_link"
  by (simp add: cable_inv_def cable_ready_def demo_link_def link_new_def server_new_def host_ready_def
      mux_capturing_noise_def mux_capturing_noise_capped_def mux_new_def capturing_noise_def
      capturing_noise_capped_def decoder_new_def)

lemma link_memory_is_the_image_witness:
  "case write_page (usb_ops (cable_transport ram_file_ops (4 * PAGE) 0)) 2 (replicate PAGE 7) demo_link of
     (Inr _, l') \<Rightarrow> cable_contents (\<lambda>f. f) l' 2 = replicate PAGE 7 | (Inl e, l') \<Rightarrow> e = Err OutOfRange"
  using link_memory_is_the_image [OF ram_file.file_medium_axioms demo_link_ready, where d = "replicate PAGE 7" and now = 0 and p = 2]
  by (auto split: prod.splits sum.splits)

lemma cable_backing:
  assumes "file_medium F view"
  shows "total_backing (usb_ops (cable_transport F len now)) (cable_contents view) (cable_inv view len)"
proof (unfold_locales, goal_cases)
  case (1 b p r b')
  then show ?case using cable_read [OF assms 1(1), of now p] by (auto simp: usb_ops_def)
next
  case (2 b p d b')
  then show ?case using cable_read [OF assms 2(1), of now p] by (auto simp: usb_ops_def)
next
  case (3 b d p b')
  then show ?case using cable_write [OF assms 3(1,2), of now p] by (auto simp: usb_ops_def)
next
  case (4 b d p e b')
  then show ?case using cable_write [OF assms 4(1,2), of now p] by (auto simp: usb_ops_def)
next
  case (5 b u b')
  then show ?case by (simp add: usb_ops_def usb_flush_def)
next
  case (6 b p)
  then show ?case using cable_read [OF assms 6, of now p] by (auto simp: usb_ops_def)
next
  case (7 b d p)
  then show ?case using cable_write [OF assms 7, of now p] by (auto simp: usb_ops_def)
next
  case (8 b)
  then show ?case by (simp add: usb_ops_def usb_flush_def)
qed

interpretation ram_cable: total_backing "usb_ops (cable_transport ram_file_ops len now)" "cable_contents (\<lambda>f. f)"
    "cable_inv (\<lambda>f. f) len" for len now
  by (rule cable_backing [OF ram_file.file_medium_axioms])

end
