(* ===== verification/Badge_Cable.thy ===== *)
theory Badge_Cable
  imports Badge_Link Cable
begin

text \<open>
  The interface of the run loop over the lossless cable: the console frames the badge sends are
  taken by the host without disturbing the image or the next exchange, and a poll of a quiet wire
  finds nothing. So everything proved of a page link holds of the badge and the host together.
\<close>

section \<open>Console frames at the host\<close>

definition is_console_out :: "wire_frame \<Rightarrow> bool" where
  "is_console_out f \<longleftrightarrow> (\<exists>b. f = ConOut b)"

lemma parse_Nil: "parse [] = ([], [], [])"
  by (simp add: parse.simps [of "[]"] classify_def)

text \<open>A prefix of a stream of frames parses to the whole frames in it and keeps the rest.\<close>

lemma parse_stream_prefix:
  "P @ W = concat (map encode_one fs) \<Longrightarrow> \<forall>f \<in> set fs. small f \<Longrightarrow>
   \<exists>fs1 fs2 r. fs = fs1 @ fs2 \<and> parse P = (fs1, [], r) \<and> r @ W = concat (map encode_one fs2)"
proof (induction fs arbitrary: P)
  case Nil
  then show ?case by (simp add: parse_Nil)
next
  case (Cons f fs)
  show ?case
  proof (cases "length P < length (encode_one f)")
    case True
    have "P = take (length P) (P @ W)" by simp
    also have "\<dots> = take (length P) (encode_one f)" using Cons.prems(1) True by simp
    finally have "parse P = ([], [], P)" using parse_prefix [of f "length P"] True Cons.prems(2) by simp
    with Cons.prems(1) show ?thesis by (intro exI [of _ "[]"] exI [of _ "f # fs"] exI [of _ P]) simp
  next
    case False
    define Q where "Q = drop (length (encode_one f)) P"
    have "take (length (encode_one f)) (P @ W) = encode_one f" using Cons.prems(1) by simp
    then have P: "P = encode_one f @ Q" using False by (simp add: Q_def) (metis append_take_drop_id)
    then have "Q @ W = concat (map encode_one fs)" using Cons.prems(1) by simp
    from Cons.IH [OF this] Cons.prems(2) obtain fs1 fs2 r where
      "fs = fs1 @ fs2" "parse Q = (fs1, [], r)" "r @ W = concat (map encode_one fs2)" by auto
    with parse_encoded [of f Q fs1 "[]" r] Cons.prems(2) P show ?thesis
      by (intro exI [of _ "f # fs1"] exI [of _ fs2] exI [of _ r]) simp
  qed
qed

lemma route_console_out:
  "\<forall>f \<in> set fs. is_console_out f \<Longrightarrow> held (fold route fs m) = held m \<and> dec (fold route fs m) = dec m"
  by (induction fs arbitrary: m) (auto simp: is_console_out_def)

lemma serve_once_console:
  assumes h: "host_ready D s" and o: "out s = []"
    and p: "parse (D @ c) = (fs, [], r)" and fs: "\<forall>f \<in> set fs. is_console_out f"
  shows "\<exists>v s'. serve_once F len c s = (Inr v, s') \<and> host_ready r s' \<and> img s' = img s \<and> out s' = []"
proof -
  let ?m = "(smux s)\<lparr>dec := (dec (smux s))\<lparr>buf := r\<rparr>\<rparr>"
  note m = h [unfolded host_ready_def]
  have push: "mux_push c (smux s) = (Inr (), fold route fs ?m)"
    using mux_push_parse [of "smux s" c fs "[]" r] p m by simp
  have k: "held (fold route fs ?m) = []" "dec (fold route fs ?m) = (dec (smux s))\<lparr>buf := r\<rparr>"
    using route_console_out [OF fs, of ?m] m by simp_all
  have "next_request (fold route fs ?m) = (None, fold route fs ?m)" using k(1) by (simp add: next_request_def take_none)
  then have "serve_loop F len (s\<lparr>smux := fold route fs ?m, answered := []\<rparr>) = (Inr (), s\<lparr>smux := fold route fs ?m, answered := []\<rparr>)"
    by (subst serve_loop.simps) simp
  then show ?thesis using push k m o
    by (simp add: serve_once_def take_console_def mux_take_noise_def take_noise_def host_ready_def)
qed

lemma serve_shared_console:
  assumes "host_ready D s" and "D @ concat cs = concat (map encode_one fs)" and "[] \<notin> set cs"
    and "parse D = ([], [], D)" and "\<forall>f \<in> set fs. small f \<and> is_console_out f"
  shows "\<exists>r s'. serve_shared F len None cs t s = (Inr r, [], s') \<and> host_ready [] s' \<and> img s' = img s"
  using assms
proof (induction cs arbitrary: D s t fs)
  case Nil
  have "parse (concat (map encode_one fs) @ []) = (fs @ [], [], [])"
    using parse_encoded_list [OF _ parse_Nil, of fs] Nil.prems(5) by blast
  then have "D = []" using Nil.prems(2,4) by simp
  with Nil.prems(1) show ?case by simp
next
  case (Cons c cs)
  have "(D @ c) @ concat cs = concat (map encode_one fs)" using Cons.prems(2) by simp
  from parse_stream_prefix [OF this] Cons.prems(5) obtain fs1 fs2 r where
    f: "fs = fs1 @ fs2" "parse (D @ c) = (fs1, [], r)" "r @ concat cs = concat (map encode_one fs2)" by blast
  have h: "host_ready D (s\<lparr>out := []\<rparr>)" using Cons.prems(1) by (simp add: host_ready_def)
  from serve_once_console [OF h _ f(2), of F len] f(1) Cons.prems(5) obtain v s1 where
    s1: "serve_once F len c (s\<lparr>out := []\<rparr>) = (Inr v, s1)" "host_ready r s1" "img s1 = img s" "out s1 = []" by auto
  have rest: "parse r = ([], [], r)"
  proof -
    have *: "parse (r @ []) = (fst (parse r), fst (snd (parse r)), snd (snd (parse r)))" by simp
    from parse_append [OF f(2) *] f(2) show ?thesis by (cases "parse r") simp
  qed
  have "[] \<notin> set cs" "\<forall>f \<in> set fs2. small f \<and> is_console_out f" using Cons.prems(3,5) f(1) by auto
  from Cons.IH [OF s1(2) f(3) this(1) rest this(2), of "snd (trail_note (answered s1) t)"]
  obtain q s' where "serve_shared F len None cs (snd (trail_note (answered s1) t)) s1 = (Inr q, [], s')"
    "host_ready [] s'" "img s' = img s1" by blast
  with s1 Cons.prems(3) show ?case by (auto simp: Let_def)
qed

lemma console_pieces: "f \<in> set (pieces (ConOut bs)) \<Longrightarrow> is_console_out f"
  by (auto simp: is_console_out_def split: if_splits)

lemma cable_send_console:
  assumes "cable_inv view len l"
  shows "\<exists>l'. send_console (cable_transport F len now) bs l = (Inr (), l') \<and> cable_inv view len l' \<and>
    cable_contents view l' = cable_contents view l"
proof (cases "bs = []")
  case True
  with assms show ?thesis by (simp add: send_console_def)
next
  case False
  let ?s = "host (transport_of l)" and ?e = "encode (ConOut bs) []"
  have r: "host_ready [] ?s" "wire (transport_of l) = []" using assms by (auto simp: cable_inv_def cable_ready_def)
  have e: "[] @ concat (chunks 4096 ?e) = concat (map encode_one (pieces (ConOut bs)))"
    using chunks_props(1) [of 4096 ?e] encode_pieces [of "ConOut bs" "[]"] by simp
  have small: "\<forall>f \<in> set (pieces (ConOut bs)). small f \<and> is_console_out f"
    using pieces_small [of "ConOut bs"] console_pieces by auto
  from serve_shared_console [OF r(1) e chunks_nonempty parse_Nil small, of F len trail_new]
  obtain q s' where "serve_shared F len None (chunks 4096 ?e) trail_new ?s = (Inr q, [], s')" "host_ready [] s'" "img s' = img ?s"
    by blast
  with False assms r(2) show ?thesis
    by (auto simp: send_console_def on_transport_def cable_transport_def cable_send_def cable_inv_def cable_ready_def
        cable_contents_def)
qed

section \<open>The interface holds\<close>

lemma cable_page_link:
  assumes "file_medium F view"
  shows "page_link (cable_transport F len now) (cable_contents view) (cable_inv view len)"
proof (intro page_link.intro page_link_axioms.intro cable_backing [OF assms])
  show "link_keeps (cable_inv view len) (cable_contents view) take_fault"
    "link_keeps (cable_inv view len) (cable_contents view) link_take_console"
    by (auto simp: link_keeps_def take_fault_def link_take_console_def cable_inv_def cable_ready_def cable_contents_def)
  show "link_keeps (cable_inv view len) (cable_contents view) (on_transport (now_ms (cable_transport F len now)))"
    by (simp add: link_keeps_def)
  have pump: "pump (cable_transport F len now) l = (Inr (), l\<lparr>cur_op := None\<rparr>)" if "cable_inv view len l" for l
    using that by (simp add: pump_def on_transport_def cable_transport_def cable_recv_def cable_inv_def cable_ready_def)
  show "link_keeps (cable_inv view len) (cable_contents view) (pump (cable_transport F len now))"
    using pump by (auto simp: link_keeps_def cable_inv_def cable_ready_def cable_contents_def)
  show "fst (pump (cable_transport F len now) l) \<noteq> Inl Panic" if "cable_inv view len l" for l
    using pump [OF that] by simp
  show "link_keeps (cable_inv view len) (cable_contents view) (send_console (cable_transport F len now) bs)" for bs
    using cable_send_console [of view len _ F now bs] by (fastforce simp: link_keeps_def)
qed

interpretation ram_link: page_link "cable_transport ram_file_ops len now" "cable_contents (\<lambda>f. f)" "cable_inv (\<lambda>f. f) len"
  for len now
  by (rule cable_page_link [OF ram_file.file_medium_axioms])

definition demo_screen :: "fake_screen oled" where
  "demo_screen = \<lparr>grid = grid_blank, screen = \<lparr>shown = [], alerts = 0, failing = False\<rparr>, pending = True, beat = 0,
     heartbeat = True, frames_drawn = 0, fails = 0, streak = 0\<rparr>"

text \<open>A badge on the cable, with four pages of guest memory and nothing in them.\<close>

lemma badge_run_ends_well_witness:
  "case cache_new demo_link 4 of
     Inr c \<Rightarrow>
       (case badge_run (cable_transport ram_file_ops (4 * PAGE) 0) (oled_console fake_screen_ops)
               \<lparr>slice_insns = 2, max_insns = 5, heartbeat_slices = 1\<rparr> (\<lambda>n b w. (True, b, w)) ()
               (cpu_new RAM_BASE, bus_new c (demo_screen)) of
          Some (Inr (rep, log), _, _) \<Rightarrow> r_executed rep \<le> 5 | _ \<Rightarrow> False)
   | Inl _ \<Rightarrow> False"
proof -
  obtain c where c: "cache_new demo_link 4 = Inr c" by (simp add: cache_new_def)
  have "machine_ok (cable_contents (\<lambda>f. f)) (cable_inv (\<lambda>f. f) (4 * PAGE)) (cpu_new RAM_BASE, bus_new c demo_screen)"
    using cache_inv_new [where binv = "cable_inv (\<lambda>f. f) (4 * PAGE)" and contents = "cable_contents (\<lambda>f. f)", OF c demo_link_ready]
    by (simp add: machine_ok_def hart_ok_new bus_new_def)
  from badge_run_ends_well [OF ram_link.page_link_axioms [of "4 * PAGE" 0] this, where cfg = "\<lparr>slice_insns = 2, max_insns = 5, heartbeat_slices = 1\<rparr>"
      and watch = "\<lambda>n b w. (True, b, w)" and C = "oled_console fake_screen_ops" and w = "()"]
  show ?thesis by (auto simp: c leaves_memory_def split: option.splits sum.splits prod.splits)
qed

end
