(* ===== verification/Working_Store.thy ===== *)
theory Working_Store
  imports Badge_Cable
begin

text \<open>
  A store that never fails on a page of guest RAM. Over it the cache, the bus and the loader do not
  fail either, short of what the guest or the images ask for: a boot whose images fit succeeds.
\<close>

section \<open>The interface\<close>

locale working_store = total_backing +
  assumes read_works: "binv b \<Longrightarrow> unat p < RAM_PAGES \<Longrightarrow> \<exists>d b'. read_page B p b = (Inr d, b')"
    and write_works: "binv b \<Longrightarrow> unat p < RAM_PAGES \<Longrightarrow> length d = PAGE \<Longrightarrow> \<exists>b'. write_page B p d b = (Inr (), b')"
begin

lemma write_back_works:
  assumes "holds V c" and "v < length (frames c)"
  shows "\<exists>c'. write_back_or_decline B v c = (Inr v, c')"
proof (cases "f_dirty (frames c ! v)")
  case False
  then show ?thesis using assms(2) by (simp add: write_back_or_decline_def sm_bind_def frame_at_def sm_return_def)
next
  case True
  have "binv (backing c)" "length (f_data (frames c ! v)) = PAGE" "unat (f_page (frames c ! v)) < RAM_PAGES"
    using assms frame_page_less [of c v] by (auto simp: holds_def cache_inv_def)
  from write_works [OF this(1,3,2)] obtain b' where
    "write_page B (f_page (frames c ! v)) (f_data (frames c ! v)) (backing c) = (Inr (), b')" by blast
  with True assms(2) show ?thesis
    by (simp add: write_back_or_decline_def sm_bind_def frame_at_def sm_defs modify_stats_def on_backing_def sm_field_def)
qed

lemma evict_into_works:
  assumes H: "holds V c" and p: "unat p < RAM_PAGES" and new: "resident_slot c p = None"
    and full: "\<not> length (frames c) < capacity c"
    and d: "contents (backing c) p = d" "length d = PAGE"
  shows "\<exists>i c'. evict_into B p d c = (Inr i, c')"
proof -
  have ok: "index_ok c" and ev: "evictable c" using H by (auto simp: holds_def cache_inv_def)
  have ne: "frames c \<noteq> []" using full ok by (auto simp: index_ok_def)
  have "\<exists>f \<in> set (frames c). \<not> f_pinned f" using ev full by (simp add: evictable_def)
  then obtain v c1 where v: "select_victim c = (Inr v, c1)" and a: "aged c c1" and vl: "v < length (frames c)"
    by (rule select_victim_ok [OF ok ne])
  have H1: "holds V c1" by (rule holds_aged [OF a H])
  have vl1: "v < length (frames c1)" using vl aged_length [OF a] by simp
  have new1: "resident_slot c1 p = None" using new aged_resident_slot [OF a] by simp
  have pv: "f_page (frames c1 ! v) \<noteq> p"
    using new1 resident_slot_frame [OF _ vl1] H1 by (auto simp: holds_def cache_inv_def)
  obtain c2 where w: "write_back_or_decline B v c1 = (Inr v, c2)" using write_back_works [OF H1 vl1] by blast
  have H2: "holds V c2" and u: "v < length (frames c2)" using write_back_or_decline_ok [OF vl1 H1 pv new1 w] by auto
  then have "unat (f_page (frames c2 ! v)) < RAM_PAGES" "length (slot_of c2) = RAM_PAGES"
    using frame_page_less [of c2 v] by (auto simp: holds_def cache_inv_def index_ok_def)
  with v w u p show ?thesis
    by (simp add: evict_into_def sm_bind_def sm_defs modify_stats_def frame_at_def clear_resident_def
        modify_frame_def set_frame_def set_resident_def)
qed

lemma resident_works:
  assumes H: "holds V c" and p: "unat p < RAM_PAGES"
  shows "\<exists>i c'. resident B p c = (Inr i, c')"
proof (cases "resident_slot c p")
  case (Some i)
  then have "i < length (frames c)"
    using resident_slot_bounds [OF _ Some] H by (auto simp: holds_def cache_inv_def)
  with Some show ?thesis by (simp add: resident_def sm_bind_def modify_frame_def frame_at_def sm_defs modify_stats_def)
next
  case None
  let ?c1 = "c\<lparr>cstats := (cstats c)\<lparr>misses := misses (cstats c) + 1\<rparr>\<rparr>"
  have H1: "holds V ?c1" by (rule holds_aged [OF aged_cstats H])
  then have inv1: "cinv ?c1" by (simp add: holds_def)
  from read_works [OF _ p, of "backing c"] H obtain bs b' where rd: "read_page B p (backing c) = (Inr bs, b')"
    by (auto simp: holds_def cache_inv_def)
  then have s: "on_backing (read_page B p) ?c1 = (Inr bs, ?c1\<lparr>backing := b'\<rparr>)"
    by (simp add: on_backing_def sm_field_def)
  let ?c2 = "?c1\<lparr>backing := b'\<rparr>"
  from read_step [OF inv1 s] have c2: "cinv ?c2" "view ?c2 = view ?c1" "contents b' p = bs" "length bs = PAGE"
    by (auto dest: arg_cong [where f = backing])
  have H2: "holds V ?c2" unfolding holds_def using c2(1) trans [OF c2(2), of V] H1 by (simp add: holds_def)
  have new: "resident_slot ?c2 p = None" using None by simp
  have "\<exists>i c'. (if length (frames ?c2) < capacity ?c2 then admit p bs ?c2 else evict_into B p bs ?c2) = (Inr i, c')"
  proof (cases "length (frames ?c2) < capacity ?c2")
    case True
    have "index_ok ?c2" using H2 by (simp add: holds_def cache_inv_def)
    with admit_eq [of ?c2 p bs] True p show ?thesis by auto
  next
    case False
    from evict_into_works [OF H2 p new False _ c2(4)] c2(3) False show ?thesis by auto
  qed
  with None p s show ?thesis by (simp add: resident_def sm_bind_def modify_stats_def sm_defs)
qed

section \<open>Stores and blobs\<close>

lemma page_of_works:
  assumes "RAM_BASE \<le> a" and "ram_off a < RAM_BYTES"
  shows "unat (page_of a) < RAM_PAGES"
  using unat_page [OF assms(2)] page_of_ram [OF assms] assms(2) by simp

lemma write_chunks_works:
  "holds V c \<Longrightarrow> RAM_BASE \<le> a \<Longrightarrow> ram_off a + length bs \<le> RAM_BYTES \<Longrightarrow> \<exists>c'. write_chunks B a bs c = (Inr (), c')"
proof (induction "length bs" arbitrary: a bs V c rule: less_induct)
  case less
  show ?case
  proof (cases "bs = []")
    case False
    let ?n = "min (PAGE - page_off a) (length bs)"
    have n: "0 < ?n" "?n \<le> length bs" using False page_off_less [of a] by (auto simp: min_def)
    have "ram_off a < RAM_BYTES" using less.prems(3) False by (cases bs) auto
    from resident_works [OF less.prems(1) page_of_works [OF less.prems(2) this]] obtain i c1 where
      s: "resident B (page_of a) c = (Inr i, c1)" by blast
    from resident_ok [OF less.prems(1) s] have H1: "holds V c1" and i: "i < length (frames c1)" by auto
    have fits: "page_off a + length (take ?n bs) \<le> PAGE"
      using less_imp_le [OF page_off_less [of a]] by (auto simp: min_def)
    from store_frame_ok [OF H1 i refl fits] obtain c2 V2 where
      m: "modify_frame i (\<lambda>f. f\<lparr>f_data := splice (page_off a) (take ?n bs) (f_data f), f_dirty := True\<rparr>) c1 = (Inr (), c2)"
      and H2: "holds V2 c2" by blast
    have le: "ram_off a + ?n \<le> RAM_BYTES" using less.prems(3) n(2) by linarith
    note adv = ram_off_add [OF less.prems(2) le]
    from less.hyps [OF _ H2 adv(2), of "drop ?n bs"] n adv(1) less.prems(3) obtain c' where
      "write_chunks B (a + of_nat ?n) (drop ?n bs) c2 = (Inr (), c')" by auto
    with False s m show ?thesis by (simp add: write_chunks.simps [of B a bs] Let_def sm_bind_def)
  qed (simp add: write_chunks.simps [of B a "[]"] sm_return_def)
qed

lemma write_le_works:
  assumes H: "holds V c" and N: "1 \<le> N" "N \<le> 8" and a: "RAM_BASE \<le> a" "ram_off a + N \<le> RAM_BYTES"
  shows "\<exists>c'. write_le B N a v c = (Inr (), c')"
proof -
  have cr: "check_range a N = Inr ()" using a by (simp add: check_range_Inr)
  show ?thesis
  proof (cases "PAGE < page_off a + N")
    case True
    with cr N write_chunks_works [OF H a(1), of "take N (to_le 8 v)"] a show ?thesis
      by (simp add: write_le_def write_bytes_def Let_def min_absorb2)
  next
    case False
    have "ram_off a < RAM_BYTES" using a N by linarith
    from resident_works [OF H page_of_works [OF a(1) this]] obtain i c1 where
      s: "resident B (page_of a) c = (Inr i, c1)" by blast
    from resident_ok [OF H s] have "i < length (frames c1)" by auto
    with cr False s show ?thesis
      by (simp add: write_le_def Let_def sm_bind_def modify_frame_def frame_at_def sm_defs)
  qed
qed

lemma bus_store_works:
  assumes "holds V (cache b)" and "RAM_BASE \<le> a" and "ram_off a + n \<le> RAM_BYTES" and "valid_size n"
  shows "\<exists>b' V'. bus_store B put a n v b = (Inr (), b') \<and> holds V' (cache b')"
proof -
  obtain r b' where r: "bus_store B put a n v b = (r, b')" by fastforce
  have n: "1 \<le> n" "n \<le> 8" using assms(4) by (auto simp: valid_size_def)
  obtain c' where "write_le B n a v (cache b) = (Inr (), c')" using write_le_works [OF assms(1) n assms(2,3)] by blast
  with range_in_ram [of a n] assms(2,3,4) n r have "r = Inr ()"
    by (simp add: bus_store_def sm_map_err_def on_cache_def sm_field_def)
  with bus_store_ok [OF assms(1) r] r show ?thesis by blast
qed

lemma write_blob_works:
  assumes "holds V (cache b)" and "RAM_BASE \<le> addr" and "ram_off addr + length data \<le> RAM_BYTES"
  shows "\<exists>b' V'. write_blob B put addr data b = (Inr (), b') \<and> holds V' (cache b')"
proof -
  have "\<exists>b' V'. write_blob_from B put addr data off b = (Inr (), b') \<and> holds V' (cache b')"
    if "holds V (cache b)" "off \<le> length data" for off V b
    using that
  proof (induction "length data - off" arbitrary: off V b rule: less_induct)
    case less
    show ?case
    proof (cases "off < length data")
      case True
      let ?a = "addr + of_nat off"
      have le: "ram_off addr + off \<le> RAM_BYTES" using assms(3) True by linarith
      note adv = ram_off_add [OF assms(2) le]
      have "\<exists>n v. (n = 8 \<or> n = 1) \<and> off + n \<le> length data \<and> write_blob_from B put addr data off b =
          sm_bind (bus_store B put ?a n v) (\<lambda>_. write_blob_from B put addr data (off + n)) b"
        using True by (cases "?a mod 8 = 0 \<and> 8 \<le> length data - off")
          (fastforce simp: write_blob_from.simps [of B put addr data off] Let_def)+
      then obtain n v where n: "n = 8 \<or> n = 1" "off + n \<le> length data" and w: "write_blob_from B put addr data off b =
          sm_bind (bus_store B put ?a n v) (\<lambda>_. write_blob_from B put addr data (off + n)) b" by blast
      from bus_store_works [OF less.prems(1) adv(2), where n = n and v = v and put = put] adv(1) n assms(3) obtain b1 V1 where
        "bus_store B put ?a n v b = (Inr (), b1)" "holds V1 (cache b1)" by (auto simp: valid_size_def)
      with less.hyps [of "off + n" V1 b1] n w True show ?thesis by (auto simp: sm_bind_def)
    qed (use less.prems in \<open>auto simp: write_blob_from.simps [of B put addr data "length data"] sm_return_def\<close>)
  qed
  from this [OF assms(1), of 0] show ?thesis by (simp add: write_blob_def)
qed

end

section \<open>Images that fit\<close>

text \<open>The room a boot takes, in plain numbers: the kernel with what its header reserves, the tree on
  the next multiple of eight, the initrd on the next page, all below the end of RAM.\<close>

definition kernel_span :: "u8 list \<Rightarrow> nat" where
  "kernel_span kern = max (length kern) (case riscv_image_footprint kern of Some s \<Rightarrow> unat s | None \<Rightarrow> 0)"

definition tree_address :: "u8 list \<Rightarrow> nat" where
  "tree_address kern = round_up (unat KERNEL_LOAD_ADDR + kernel_span kern) 8"

definition images_fit :: "u8 list \<Rightarrow> u8 list \<Rightarrow> u8 list option \<Rightarrow> bool" where
  "images_fit kern tree ramdisk \<longleftrightarrow>
     (let e = tree_address kern + length tree in
      (case ramdisk of None \<Rightarrow> e | Some bytes \<Rightarrow> round_up e PAGE + length bytes) \<le> unat RAM_BASE + RAM_BYTES)"

lemma round_up64_exact:
  assumes "m = 8 \<or> m = (4096 :: u64)" and "unat n \<le> 2181038080"
  shows "unat (round_up64 n m) = round_up (unat n) (unat m)"
  using round_up64_cases [OF assms(1), of n] assms by auto

lemma unat_sum: "unat (a :: u64) + n < 2 ^ 64 \<Longrightarrow> unat (a + of_nat n) = unat a + n"
  by (rule unat_add_of_nat)

lemma images_fit_bounds:
  assumes "images_fit kern tree ramdisk"
  shows "tree_address kern + length tree \<le> 2181038080" and "unat KERNEL_LOAD_ADDR + kernel_span kern \<le> tree_address kern"
    and "ramdisk = Some bytes \<Longrightarrow> round_up (tree_address kern + length tree) 4096 + length bytes \<le> 2181038080"
  using assms round_up_ge [of "tree_address kern + length tree" 4096] round_up_ge [of "unat KERNEL_LOAD_ADDR + kernel_span kern" 8]
  by (auto simp: images_fit_def Let_def tree_address_def split: option.splits)

definition kernel_reach :: "u8 list \<Rightarrow> u64" where
  "kernel_reach kern = KERNEL_LOAD_ADDR + (case riscv_image_footprint kern of Some s \<Rightarrow> s | None \<Rightarrow> of_nat (length kern))"

lemma kernel_reach:
  assumes "images_fit kern tree ramdisk"
  shows "unat (kernel_reach kern) = unat KERNEL_LOAD_ADDR + kernel_span kern"
    and "unat KERNEL_LOAD_ADDR + unat (kernel_reach kern - KERNEL_LOAD_ADDR) < 2 ^ 64"
proof -
  let ?s = "case riscv_image_footprint kern of Some s \<Rightarrow> s | None \<Rightarrow> of_nat (length kern)"
  have k: "unat KERNEL_LOAD_ADDR + kernel_span kern \<le> 2181038080" using images_fit_bounds(1,2) [OF assms] by linarith
  then have len: "length kern \<le> 2181038080" by (simp add: kernel_span_def)
  then have u: "unat (of_nat (length kern) :: u64) = length kern" by (simp only: unat_of_nat) simp
  have s: "unat ?s = kernel_span kern"
    using u by (auto simp: kernel_span_def riscv_image_footprint_def Let_def word_le_nat_alt max_def split: option.splits if_splits)
  then show "unat (kernel_reach kern) = unat KERNEL_LOAD_ADDR + kernel_span kern"
    using k by (simp add: kernel_reach_def unat_word_ariths)
  show "unat KERNEL_LOAD_ADDR + unat (kernel_reach kern - KERNEL_LOAD_ADDR) < 2 ^ 64"
    using s k by (simp add: kernel_reach_def)
qed

definition fitted_layout :: "u8 list \<Rightarrow> u8 list \<Rightarrow> u8 list option \<Rightarrow> boot_layout" where
  "fitted_layout kern tree ramdisk =
     (let d = of_nat (tree_address kern); s = of_nat (round_up (tree_address kern + length tree) PAGE) in
      \<lparr>dtb = d, initrd = map_option (\<lambda>bytes. (s, s + of_nat (length bytes))) ramdisk\<rparr>)"

lemma place_fits:
  assumes "images_fit kern tree ramdisk"
  shows "place (kernel_reach kern) (length tree) (map_option length ramdisk) = Inr (fitted_layout kern tree ramdisk)"
proof -
  note b = images_fit_bounds [OF assms] and r = kernel_reach(1) [OF assms]
  let ?d = "round_up64 (kernel_reach kern) 8"
  have d: "unat ?d = tree_address kern"
    using round_up64_exact [of 8 "kernel_reach kern"] b(1,2) r by (simp add: tree_address_def)
  then have d': "?d = of_nat (tree_address kern)" by (metis of_nat_unat ucast_id)
  have e: "unat (?d + of_nat (length tree)) = tree_address kern + length tree"
    using unat_sum [of ?d "length tree"] d b(1) by simp
  have s: "unat (round_up64 (?d + of_nat (length tree)) 4096) = round_up (tree_address kern + length tree) 4096"
    using round_up64_exact [of 4096 "?d + of_nat (length tree)"] b(1) e by simp
  then have s': "round_up64 (?d + of_nat (length tree)) 4096 = of_nat (round_up (tree_address kern + length tree) 4096)"
    by (metis of_nat_unat ucast_id)
  have f: "unat (round_up64 (?d + of_nat (length tree)) 4096 + of_nat (length bytes)) =
      round_up (tree_address kern + length tree) 4096 + length bytes" if "ramdisk = Some bytes" for bytes
    using unat_sum [of "round_up64 (?d + of_nat (length tree)) 4096" "length bytes"] b(3) [OF that] s by simp
  have top: "\<not> RAM_BASE + RAM_SIZE < ?d + of_nat (length tree)" using e b(1) by (simp add: word_less_nat_alt)
  have "\<not> RAM_BASE + RAM_SIZE < round_up64 (?d + of_nat (length tree)) 4096 + of_nat (length bytes)" if "ramdisk = Some bytes" for bytes
    using f [OF that] b(3) [OF that] by (simp add: word_less_nat_alt)
  with top show ?thesis
    by (cases ramdisk) (simp_all add: place_def Let_def fitted_layout_def d' [symmetric] s' [symmetric])
qed

text \<open>A tree with the two eight-byte properties, apart from one another, can record any initrd.\<close>

definition has_slots :: "u8 list \<Rightarrow> bool" where
  "has_slots tree \<longleftrightarrow> initrd_slots tree \<and>
     (\<exists>a b. prop_range tree (ascii ''/chosen'') initrd_start_prop = Some (a, a + 8) \<and>
        prop_range tree (ascii ''/chosen'') initrd_end_prop = Some (b, b + 8))"

lemma record_initrd_slots:
  assumes "has_slots tree"
  shows "\<exists>t. record_initrd (Some (start, stop)) tree = Inr t"
proof -
  let ?ch = "ascii ''/chosen''"
  obtain a b where p: "prop_range tree ?ch initrd_start_prop = Some (a, a + 8)" "prop_range tree ?ch initrd_end_prop = Some (b, b + 8)"
    and i: "initrd_slots tree" using assms unfolding has_slots_def by blast
  obtain os on where h: "be32 tree 8 = Some os" "40 \<le> unat os" "be32 tree 12 = Some on" "a + 8 \<le> unat on"
    using i p(1) unfolding initrd_slots_def by blast
  let ?t = "splice a (to_be 8 start) tree"
  have g: "agree (- {a..<a + 8}) tree ?t" using agree_splice [of a "to_be 8 start" tree] prop_range_bounds [OF p(1)] by simp
  have "prop_range ?t ?ch initrd_end_prop = Some (b, b + 8)" using prop_range_patched [OF p(1) g h] p(2) by simp
  with p(1) show ?thesis by (simp add: record_initrd_def set_u64_def)
qed

context working_store
begin

lemma load_kernel_works:
  assumes "holds V (cache b)" and "\<not> starts_with kern ELF_MAGIC" and "images_fit kern tree ramdisk"
    and "riscv_image_text_offset kern \<in> {None, Some (KERNEL_LOAD_ADDR - RAM_BASE)}"
  shows "\<exists>b' V'. load_kernel B put kern b = (Inr (kernel_reach kern), b') \<and> holds V' (cache b')"
proof -
  have "unat KERNEL_LOAD_ADDR + length kern \<le> 2181038080"
    using images_fit_bounds(1,2) [OF assms(3)] by (simp add: kernel_span_def)
  then have "ram_off KERNEL_LOAD_ADDR + length kern \<le> RAM_BYTES" by (simp add: ram_off_def)
  from write_blob_works [OF assms(1) _ this, of put] obtain b' V' where
    "write_blob B put KERNEL_LOAD_ADDR kern b = (Inr (), b')" "holds V' (cache b')" by auto
  with assms(2,4) kernel_reach(2) [OF assms(3)] show ?thesis
    by (auto simp: load_kernel_def kernel_reach_def Let_def sm_bind_def sm_map_err_def sm_return_def
        split: option.splits)
qed

lemma load_boot_images_works:
  assumes "holds V (cache b)" and "\<not> starts_with kern ELF_MAGIC" and fit: "images_fit kern tree ramdisk"
    and "riscv_image_text_offset kern \<in> {None, Some (KERNEL_LOAD_ADDR - RAM_BASE)}"
    and "ramdisk \<noteq> None \<longrightarrow> has_slots tree"
  defines "layout \<equiv> fitted_layout kern tree ramdisk"
  shows "\<exists>b'. load_boot_images B put kern tree ramdisk b = (Inr (boot_cpu (dtb layout), layout), b')"
proof -
  note bnd = images_fit_bounds [OF fit]
  obtain b1 V1 where k: "load_kernel B put kern b = (Inr (kernel_reach kern), b1)" "holds V1 (cache b1)"
    using load_kernel_works [OF assms(1-4)] by blast
  have "\<exists>t. record_initrd (initrd layout) tree = Inr t"
    using record_initrd_slots [of tree] assms(5)
    by (cases ramdisk) (simp_all add: layout_def fitted_layout_def Let_def, simp add: record_initrd_def)
  then obtain t where t: "record_initrd (initrd layout) tree = Inr t" by blast
  have d: "unat (dtb layout) = tree_address kern"
    using bnd(1) by (simp add: layout_def fitted_layout_def Let_def unat_of_nat)
  then have ram: "RAM_BASE \<le> dtb layout" "ram_off (dtb layout) + length t \<le> RAM_BYTES"
    using bnd(1,2) record_initrd_length [OF t] by (auto simp: to_from_ram ram_off_def)
  from write_blob_works [OF k(2) this, of put] obtain b2 V2 where w: "write_blob B put (dtb layout) t b1 = (Inr (), b2)"
    "holds V2 (cache b2)" by blast
  have "\<exists>b3. (case (ramdisk, initrd layout) of (Some bytes, Some (start, _)) \<Rightarrow> sm_map_err InitrdErr (write_blob B put start bytes)
       | _ \<Rightarrow> sm_return ()) b2 = (Inr (), b3)"
  proof (cases ramdisk)
    case (Some bytes)
    let ?s = "of_nat (round_up (tree_address kern + length tree) PAGE) :: u64"
    have s: "unat ?s = round_up (tree_address kern + length tree) PAGE" using bnd(3) [OF Some] by (simp add: unat_of_nat)
    have "RAM_BASE \<le> ?s" "ram_off ?s + length bytes \<le> RAM_BYTES"
      using s bnd(2) bnd(3) [OF Some] round_up_ge [of "tree_address kern + length tree" PAGE] by (auto simp: to_from_ram ram_off_def)
    from write_blob_works [OF w(2) this, of put] Some show ?thesis
      by (auto simp: layout_def fitted_layout_def Let_def sm_map_err_def)
  qed (simp add: sm_return_def)
  with k(1) t w(1) place_fits [OF fit] show ?thesis
    by (auto simp: load_boot_images_def sm_bind_def sm_map_err_def sm_result_def sm_return_def layout_def)
qed

end

end
