(* ===== verification/Boot_Works.thy ===== *)
theory Boot_Works
  imports Working_Store
begin

text \<open>
  A boot that succeeds: over a store that works, images that fit are loaded where the arithmetic of
  the layout puts them. The in-memory backing is such a store, and a badge on a cable to a file with
  what it then holds finds the machine the loader left.
\<close>

text \<open>Property C30 (boot_succeeds_when_images_fit): over a store that works on every page of guest RAM, a
  raw kernel linked for the load address, a device tree and an initrd whose sizes add up to no more
  than RAM are loaded without an error, whatever the cache evicts on the way. The tree is at the
  first multiple of eight past what the kernel's header reserves, the initrd at the first page past
  the tree, and the hart returned starts the kernel with that address of the tree.\<close>

theorem boot_succeeds_when_images_fit:
  assumes "working_store B contents binv" and "cache_inv contents binv (cache b)"
    and "\<not> starts_with kern ELF_MAGIC" and "images_fit kern tree ramdisk"
    and "riscv_image_text_offset kern \<in> {None, Some (KERNEL_LOAD_ADDR - RAM_BASE)}"
    and "ramdisk \<noteq> None \<longrightarrow> has_slots tree"
  shows "\<exists>layout b'. load_boot_images B put kern tree ramdisk b = (Inr (boot_cpu (dtb layout), layout), b') \<and>
    unat (dtb layout) = round_up (unat KERNEL_LOAD_ADDR + kernel_span kern) 8 \<and>
    (case (ramdisk, initrd layout) of
       (None, None) \<Rightarrow> True
     | (Some bytes, Some (start, stop)) \<Rightarrow>
         unat start = round_up (unat (dtb layout) + length tree) PAGE \<and> unat stop = unat start + length bytes
     | _ \<Rightarrow> False)"
proof -
  let ?l = "fitted_layout kern tree ramdisk"
  note bnd = images_fit_bounds [OF assms(4)]
  have "total_backing B contents binv" using assms(1) by (simp add: working_store_def)
  then have "total_backing.holds contents binv (page_view contents (cache b)) (cache b)"
    using assms(2) by (simp add: total_backing.holds_def)
  from working_store.load_boot_images_works [OF assms(1) this assms(3-6)] obtain b' where
    l: "load_boot_images B put kern tree ramdisk b = (Inr (boot_cpu (dtb ?l), ?l), b')" by blast
  have d: "unat (of_nat (tree_address kern) :: u64) = tree_address kern" using bnd(1) by (simp add: unat_of_nat)
  have s: "unat (of_nat (round_up (tree_address kern + length tree) 4096) :: u64) = round_up (tree_address kern + length tree) 4096"
    and e: "unat (of_nat (round_up (tree_address kern + length tree) 4096) + of_nat (length bytes) :: u64) =
      round_up (tree_address kern + length tree) 4096 + length bytes" if "ramdisk = Some bytes" for bytes
    using bnd(3) [OF that] by (simp_all add: unat_of_nat flip: of_nat_add)
  show ?thesis
    using l d s e by (intro exI [of _ ?l] exI [of _ b'])
      (cases ramdisk; simp add: fitted_layout_def Let_def tree_address_def)
qed

section \<open>The stores that work\<close>

definition full_store :: "fake_backing \<Rightarrow> bool" where
  "full_store b \<longleftrightarrow> fake_inv b \<and> length (pages b) = RAM_PAGES"

interpretation full: working_store fake_ops fake_contents full_store
proof (unfold_locales, goal_cases)
  case (1 b p r b')
  then show ?case using fake.read_frame [of b p r b'] by (auto simp: full_store_def fake_defs split: if_splits)
next
  case (2 b p d b')
  then show ?case using fake.read_ok [of b p d b'] by (auto simp: full_store_def)
next
  case (3 b d p b')
  then show ?case using fake.write_ok [of b d p b'] by (auto simp: full_store_def) (auto simp: fake_defs split: if_splits)
next
  case (4 b d p e b')
  then show ?case using fake.write_stop [of b d p e b'] by (auto simp: full_store_def) (auto simp: fake_defs split: if_splits)
qed (auto simp: full_store_def fake_defs split: if_splits)

lemma full_store_new: "full_store (fake_new 8192)"
  by (simp add: full_store_def) (simp add: fake_new_def)

definition demo_kernel :: "u8 list" where
  "demo_kernel = [0x6F, 0, 0, 0] @ replicate 4 0 @ to_le 8 (0x200000 :: u64) @ to_le 8 (4096 :: u64) @
     replicate 32 0 @ RISCV_IMAGE_MAGIC2 @ replicate 4 0"

lemma demo_kernel_facts:
  "\<not> starts_with demo_kernel ELF_MAGIC" "riscv_image_text_offset demo_kernel = Some 0x200000"
  "riscv_image_footprint demo_kernel = Some 4096" "length demo_kernel = 64"
  by code_simp+

lemma demo_dtb_length: "length demo_dtb = 148" "take 4 demo_dtb = [0xD0, 0x0D, 0xFE, 0xED]"
  by code_simp+

lemma demo_fits: "images_fit demo_kernel demo_dtb (Some [1, 2, 3])"
  using demo_kernel_facts demo_dtb_length
  by (simp add: images_fit_def tree_address_def kernel_span_def round_up_def Let_def)

lemma demo_has_slots: "has_slots demo_dtb"
  using demo_dtb_facts demo_dtb_slots by (simp add: has_slots_def initrd_start_prop_def initrd_end_prop_def)

lemma full_cache:
  obtains c where "cache_new (fake_new 8192) 4 = Inr c" and "cache_inv fake_contents full_store c"
proof -
  obtain c where c: "cache_new (fake_new 8192) 4 = Inr c" by (simp add: cache_new_def)
  with that cache_inv_new [where binv = full_store and contents = fake_contents, OF c full_store_new] show thesis by blast
qed

lemma boot_succeeds_when_images_fit_witness:
  "case cache_new (fake_new 8192) 4 of Inr c \<Rightarrow>
     (case load_boot_images fake_ops vec_put demo_kernel demo_dtb (Some [1, 2, 3]) (bus_new c []) of
        (Inr (h, layout), b') \<Rightarrow> dtb layout = 0x80201000 \<and> regs h 11 = 0x80201000 \<and> initrd layout = Some (0x80202000, 0x80202003)
      | _ \<Rightarrow> False)
   | Inl _ \<Rightarrow> False"
proof -
  obtain c where c: "cache_new (fake_new 8192) 4 = Inr c" "cache_inv fake_contents full_store c" by (rule full_cache)
  have inv: "cache_inv fake_contents full_store (cache (bus_new c ([] :: u8 list)))" using c(2) by (simp add: bus_new_def)
  from boot_succeeds_when_images_fit [OF full.working_store_axioms inv demo_kernel_facts(1) demo_fits, of vec_put] obtain layout b' where
    l: "load_boot_images fake_ops vec_put demo_kernel demo_dtb (Some [1, 2, 3]) (bus_new c []) = (Inr (boot_cpu (dtb layout), layout), b')"
    and d: "unat (dtb layout) = 0x80201000"
    and i: "case initrd layout of Some (start, stop) \<Rightarrow>
        unat start = round_up (unat (dtb layout) + length demo_dtb) PAGE \<and> unat stop = unat start + 3 | None \<Rightarrow> False"
    using demo_kernel_facts demo_has_slots by (auto simp: kernel_span_def round_up_def split: option.splits)
  obtain start stop where s: "initrd layout = Some (start, stop)" "unat start = 0x80202000" "unat stop = 0x80202003"
    using i d demo_dtb_length by (auto simp: round_up_def split: option.splits)
  have "dtb layout = 0x80201000" "start = 0x80202000" "stop = 0x80202003"
    using d s by (simp_all add: word_unat_eq_iff)
  with s(1) show ?thesis by (simp add: c(1) l boot_cpu_def set_reg_def)
qed

section \<open>From the loader's store to the badge\<close>

lemma length_concat_same: "(\<And>i. i < n \<Longrightarrow> length (g i) = k) \<Longrightarrow> length (concat (map g [0..<n])) = n * k"
  by (induction n) simp_all

lemma slice_concat:
  "p < n \<Longrightarrow> (\<And>i. i < n \<Longrightarrow> length (g i) = k) \<Longrightarrow> slice (p * k) k (concat (map g [0..<n])) = g p"
proof (induction n)
  case (Suc n)
  have len: "length (concat (map g [0..<n])) = n * k"
    using Suc.prems(2) by (intro length_concat_same) simp
  show ?case
  proof (cases "p = n")
    case True
    with len Suc.prems(2) show ?thesis by (simp add: slice_def)
  next
    case False
    with Suc.prems have "p < n" by simp
    then have "p * k + k \<le> n * k" using mult_le_mono1 [of "p + 1" n k] by simp
    with Suc.IH [OF \<open>p < n\<close>] Suc.prems(2) len show ?thesis by (simp add: slice_def)
  qed
qed simp

definition image_of :: "fake_backing page_cache \<Rightarrow> u8 list" where
  "image_of c = concat (map (\<lambda>i. page_view fake_contents c (of_nat i)) [0..<RAM_PAGES])"

lemma image_of:
  assumes "cache_inv fake_contents full_store c"
  shows "length (image_of c) = RAM_BYTES" and "image_page (image_of c) = page_view fake_contents c"
proof -
  let ?V = "page_view fake_contents c"
  have len: "length (?V p) = PAGE" if "unat p < RAM_PAGES" for p
  proof (cases "resident_slot c p")
    case None
    then show ?thesis using assms that by (auto simp: page_view_def fake_contents_def cache_inv_def full_store_def fake_inv_def)
  next
    case (Some i)
    then have "i < length (frames c)" using assms by (auto simp: cache_inv_def dest: resident_slot_bounds)
    then show ?thesis using assms Some by (simp add: page_view_def cache_inv_def)
  qed
  then have l: "length (?V (of_nat i)) = PAGE" if "i < RAM_PAGES" for i using that by (simp add: unat_of_nat)
  then show "length (image_of c) = RAM_BYTES"
    unfolding image_of_def by (subst length_concat_same) simp_all
  show "image_page (image_of c) = ?V"
  proof
    fix p
    show "image_page (image_of c) p = ?V p"
    proof (cases "unat p < RAM_PAGES")
      case True
      then show ?thesis using slice_concat [OF True, of "\<lambda>i. ?V (of_nat i)", OF l] by (simp add: image_page_def image_of_def)
    next
      case False
      then have "resident_slot c p = None" using assms by (auto simp: cache_inv_def index_ok_def resident_slot_def)
      with False assms show ?thesis
        using \<open>length (image_of c) = RAM_BYTES\<close>
        by (simp add: image_page_def slice_def page_view_def fake_contents_def cache_inv_def full_store_def)
    qed
  qed
qed

definition image_link :: "fake_backing page_cache \<Rightarrow> u8 list cable link_inner" where
  "image_link c = link_new \<lparr>host = server_new (image_of c), wire = []\<rparr>"

lemma image_link_ready:
  "cable_inv (\<lambda>f. f) (length (image_of c)) (image_link c)"
  "cable_contents (\<lambda>f. f) (image_link c) = image_page (image_of c)"
  by (simp_all add: cable_inv_def cable_contents_def cable_ready_def image_link_def link_new_def server_new_def host_ready_def
      mux_capturing_noise_def mux_capturing_noise_capped_def mux_new_def capturing_noise_def
      capturing_noise_capped_def decoder_new_def)

text \<open>A badge with four frames whose host serves what the loader wrote.\<close>

definition badge_bus :: "fake_backing page_cache \<Rightarrow> (u8 list cable, unit) link_bus option" where
  "badge_bus c = (case cache_new (image_link c) 4 of Inr lc \<Rightarrow> Some (bus_new lc ()) | Inl _ \<Rightarrow> None)"

lemma badge_recovers_host_layout_witness:
  "case cache_new (fake_new 8192) 4 of Inr c \<Rightarrow>
     (case load_boot_images fake_ops vec_put demo_kernel demo_dtb (Some [1, 2, 3]) (bus_new c []) of
        (Inr (h, layout), hb') \<Rightarrow>
          (case badge_bus (cache hb') of Some lb \<Rightarrow>
             (case start_cpu (cable_transport ram_file_ops RAM_BYTES 0) lb of
                (Inr h', _) \<Rightarrow> h' = h | (Inl e, _) \<Rightarrow> \<exists>a f. e = Err (ReadFailed a f))
           | None \<Rightarrow> False)
      | _ \<Rightarrow> False)
   | Inl _ \<Rightarrow> False"
proof -
  obtain c where c: "cache_new (fake_new 8192) 4 = Inr c" "cache_inv fake_contents full_store c" by (rule full_cache)
  let ?b = "bus_new c ([] :: u8 list)"
  have inv: "cache_inv fake_contents full_store (cache ?b)" using c(2) by (simp add: bus_new_def)
  then have "full.holds (page_view fake_contents (cache ?b)) (cache ?b)" by (simp add: full.holds_def)
  from full.load_boot_images_works [OF this demo_kernel_facts(1) demo_fits, of vec_put] demo_kernel_facts demo_has_slots obtain h layout hb' where
    l: "load_boot_images fake_ops vec_put demo_kernel demo_dtb (Some [1, 2, 3]) ?b = (Inr (h, layout), hb')" by auto
  have "demo_dtb \<noteq> []" using demo_dtb_length(1) by auto
  from full.hoare_boot [OF demo_kernel_facts(1) this, of "page_view fake_contents (cache ?b)" vec_put "Some [1, 2, 3]"] l inv
  have inv': "cache_inv fake_contents full_store (cache hb')" by (auto simp: hoare_def full.booted_def full.holds_def)
  note i = image_of [OF inv']
  obtain lc where lc: "cache_new (image_link (cache hb')) 4 = Inr lc" by (simp add: cache_new_def)
  let ?lb = "bus_new lc ()"
  note new = cache_inv_new [where binv = "cable_inv (\<lambda>f. f) RAM_BYTES" and contents = "cable_contents (\<lambda>f. f)",
      OF lc image_link_ready(1) [of "cache hb'", unfolded i(1)]]
  then have "cache_inv (cable_contents (\<lambda>f. f)) (cable_inv (\<lambda>f. f) RAM_BYTES) (cache ?lb)"
    and v: "page_view (cable_contents (\<lambda>f. f)) (cache ?lb) = page_view fake_contents (cache hb')"
    using image_link_ready(2) [of "cache hb'"] i(2) by (simp_all add: bus_new_def)
  from badge_recovers_host_layout [OF full.total_backing_axioms inv ram_link.page_link_axioms [of RAM_BYTES 0] this(1)
      demo_kernel_facts(1,3) _ demo_dtb_slots demo_dtb_length(2) l v] show ?thesis
    by (auto simp: c(1) l badge_bus_def lc split: prod.splits sum.splits)
qed

end
