(* ===== verification/Usb.thy ===== *)
theory Usb
  imports Messages
begin

text \<open>
  The badge's own transport (\<open>UsbTransport\<close> in \<open>badge/app/src/usbhost.rs\<close>): a reader thread that
  keeps a listener parked at the USB driver and queues what it delivers, and the calls of the main
  thread, which are an instance of the trait \<open>Transport\<close> of the link. The two threads share atomic
  flags and a queue under a lock; every access to them is a step of its own, and between two steps
  of the main thread the reader may take any number of steps. The driver, the ticktimer and the
  scheduler are the operating system's: a record of operations over a state of their own. The
  diagnostic that inspects the memory of a delivery (theory Addresses) is a text the platform gives.
\<close>

abbreviation SYNC_LO :: u8 where "SYNC_LO \<equiv> 0xC1"
abbreviation PARK_WAIT_MS :: u64 where "PARK_WAIT_MS \<equiv> 1000"
abbreviation POLL_MS :: u64 where "POLL_MS \<equiv> 1"
abbreviation TX_PACE_MS :: u64 where "TX_PACE_MS \<equiv> 1"
abbreviation SPIN_TURNS :: nat where "SPIN_TURNS \<equiv> 256"
abbreviation RX_ERR_BUDGET :: nat where "RX_ERR_BUDGET \<equiv> 24"
abbreviation RX_FINGERPRINT :: nat where "RX_FINGERPRINT \<equiv> 16"
abbreviation HEAP_MAX :: nat where "HEAP_MAX \<equiv> 8 * 1024 * 1024"

section \<open>The reader thread\<close>

text \<open>Where the reader is: about to do the step its name says, with what it holds.\<close>

datatype reader_pc =
    Parking
  | Blocked
  | Unparking "nat + u8 list"
  | Counting "u8 list"
  | Checking "u8 list"
  | Printing "u8 list"
  | Queueing "u8 list"
  | Noting nat
  | Charging
  | Giving_Up
  | Sleeping
  | Halted

text \<open>
  What the reader publishes, with its program counter. A driver error is its number. The counters of
  bytes and of strange deliveries wrap at the badge's 32 bits; the count of failures stays below its
  budget.
\<close>

record rx =
  reader :: reader_pc
  parked :: bool
  rx_queue :: "u8 list list"
  errs :: nat
  last_err :: nat
  gave_up :: bool
  fingerprint :: "u8 list"
  rx_bytes :: u32
  not_sync :: u32

definition rx_new :: rx where
  "rx_new = \<lparr>reader = Parking, parked = False, rx_queue = [], errs = 0, last_err = 0, gave_up = False,
     fingerprint = [], rx_bytes = 0, not_sync = 0\<rparr>"

text \<open>
  One step of the reader. The answer is the driver's, if it has one: the reader blocked in
  \<open>wait_binary\<close> does not move without it, and no other step looks at it.
\<close>

fun reader_step :: "(nat + u8 list) option \<Rightarrow> rx \<Rightarrow> rx" where
  "reader_step a r =
     (case reader r of
        Parking \<Rightarrow> r\<lparr>parked := True, reader := Blocked\<rparr>
      | Blocked \<Rightarrow> (case a of None \<Rightarrow> r | Some x \<Rightarrow> r\<lparr>reader := Unparking x\<rparr>)
      | Unparking x \<Rightarrow>
          (case x of
             Inl e \<Rightarrow> r\<lparr>parked := False, reader := Noting e\<rparr>
           | Inr d \<Rightarrow> r\<lparr>parked := False, reader := (if d = [] then Parking else Counting d)\<rparr>)
      | Counting d \<Rightarrow> r\<lparr>rx_bytes := rx_bytes r + of_nat (length d), reader := Checking d\<rparr>
      | Checking d \<Rightarrow> r\<lparr>not_sync := (if hd d \<noteq> SYNC_LO then not_sync r + 1 else not_sync r), reader := Printing d\<rparr>
      | Printing d \<Rightarrow>
          r\<lparr>fingerprint := (if fingerprint r = [] then take RX_FINGERPRINT d else fingerprint r), reader := Queueing d\<rparr>
      | Queueing d \<Rightarrow> r\<lparr>rx_queue := rx_queue r @ [d], reader := Parking\<rparr>
      | Noting e \<Rightarrow> r\<lparr>last_err := e, reader := Charging\<rparr>
      | Charging \<Rightarrow>
          r\<lparr>errs := errs r + 1, reader := (if RX_ERR_BUDGET \<le> errs r + 1 then Giving_Up else Sleeping)\<rparr>
      | Giving_Up \<Rightarrow> r\<lparr>gave_up := True, reader := Halted\<rparr>
      | Sleeping \<Rightarrow> r\<lparr>reader := Parking\<rparr>
      | Halted \<Rightarrow> r)"

declare reader_step.simps [simp del]

section \<open>The transport\<close>

text \<open>
  The operating system, as the transport sees it. \<open>others\<close> gives the answers of the driver in the
  steps the reader takes before the main thread's next step; \<open>serial_send\<close> answers a driver error or
  the number of bytes taken; \<open>adjust_limit\<close> is the compare-and-set of the heap ceiling.
\<close>

record 'p badge_os =
  others :: "'p \<Rightarrow> (nat + u8 list) option list \<times> 'p"
  elapsed_ms :: "'p \<Rightarrow> u64 \<times> 'p"
  sleep_ms :: "u64 \<Rightarrow> 'p \<Rightarrow> 'p"
  yield_now :: "'p \<Rightarrow> 'p"
  serial_send :: "u8 list \<Rightarrow> 'p \<Rightarrow> (nat + nat) \<times> 'p"
  serial_flush :: "'p \<Rightarrow> 'p"
  adjust_limit :: "nat \<Rightarrow> nat \<Rightarrow> 'p \<Rightarrow> nat option \<times> 'p"
  address_report :: "'p \<Rightarrow> string"

record 'p usb =
  os :: 'p
  rx_of :: rx
  reported_errs :: nat
  send_err :: "nat option"
  recv_spins_left :: nat
  unparks :: nat
  arm_fail :: "nat option"
  primed :: bool
  tx :: tx_log

text \<open>The reader runs, then the main thread's access to what the two share.\<close>

definition reader_runs :: "'p badge_os \<Rightarrow> 'p usb \<Rightarrow> 'p usb" where
  "reader_runs P u =
     (case others P (os u) of (as, p) \<Rightarrow> u\<lparr>os := p, rx_of := fold reader_step as (rx_of u)\<rparr>)"

definition look :: "'p badge_os \<Rightarrow> (rx \<Rightarrow> 'a) \<Rightarrow> 'p usb \<Rightarrow> 'a \<times> 'p usb" where
  "look P f u = (let u = reader_runs P u in (f (rx_of u), u))"

definition usb_now :: "'p badge_os \<Rightarrow> 'p usb \<Rightarrow> u64 \<times> 'p usb" where
  "usb_now P u = (case elapsed_ms P (os u) of (n, p) \<Rightarrow> (n, u\<lparr>os := p\<rparr>))"

definition usb_sleep :: "'p badge_os \<Rightarrow> u64 \<Rightarrow> 'p usb \<Rightarrow> 'p usb" where
  "usb_sleep P n u = u\<lparr>os := sleep_ms P n (os u)\<rparr>"

definition usb_yield :: "'p badge_os \<Rightarrow> 'p usb \<Rightarrow> 'p usb" where
  "usb_yield P u = u\<lparr>os := yield_now P (os u)\<rparr>"

definition drain :: "'p badge_os \<Rightarrow> 'p usb \<Rightarrow> u8 list \<times> 'p usb" where
  "drain P u = (let u = reader_runs P u in (concat (rx_queue (rx_of u)), u\<lparr>rx_of := (rx_of u)\<lparr>rx_queue := []\<rparr>\<rparr>))"

subsection \<open>Arming\<close>

text \<open>The closures of \<open>arm\<close> share the count of turns.\<close>

definition arm_settle :: "'p badge_os \<Rightarrow> nat \<times> 'p usb \<Rightarrow> nat \<times> 'p usb" where
  "arm_settle P s =
     (case s of (turns, u) \<Rightarrow>
        (turns + 1, if turns + 1 \<le> SPIN_TURNS then usb_yield P u else usb_sleep P POLL_MS u))"

definition arm_parked :: "'p badge_os \<Rightarrow> nat \<times> 'p usb \<Rightarrow> bool \<times> (nat \<times> 'p usb)" where
  "arm_parked P s = (case s of (turns, u) \<Rightarrow> case look P parked u of (b, u) \<Rightarrow> (b, (turns, u)))"

definition arm_clock :: "'p badge_os \<Rightarrow> u64 \<Rightarrow> nat \<times> 'p usb \<Rightarrow> u64 \<times> (nat \<times> 'p usb)" where
  "arm_clock P t0 s = (case s of (turns, u) \<Rightarrow> case usb_now P u of (n, u) \<Rightarrow> (saturating_sub n t0, (turns, u)))"

definition arm_wait :: "'p badge_os \<Rightarrow> 'p usb \<Rightarrow> ((nat + nat) \<times> (nat \<times> 'p usb)) option" where
  "arm_wait P u =
     (case usb_now P u of (t0, u) \<Rightarrow>
        confirm_park (arm_parked P) (arm_clock P t0) (arm_settle P) PARK_WAIT_MS (0, u))"

text \<open>
  None is a wait that never ends, which the clock excludes (\<open>arm_returns\<close>); as an operation of the
  transport it has to be total, and is an error there.
\<close>

definition usb_arm :: "'p badge_os \<Rightarrow> 'p usb \<Rightarrow> (unit + unit) \<times> 'p usb" where
  "usb_arm P u =
     (case arm_wait P u of
        None \<Rightarrow> (Inl (), u)
      | Some (Inr n, _, u) \<Rightarrow> (Inr (), u\<lparr>unparks := usb.unparks u + n, recv_spins_left := SPIN_TURNS\<rparr>)
      | Some (Inl n, _, u) \<Rightarrow> (Inl (), u\<lparr>unparks := usb.unparks u + n, arm_fail := Some n\<rparr>))"

subsection \<open>Sending\<close>

definition tx_write :: "'p badge_os \<Rightarrow> u8 list \<Rightarrow> tx_tally \<times> 'p usb \<Rightarrow> (nat + nat) \<times> (tx_tally \<times> 'p usb)" where
  "tx_write P bs s =
     (case s of (t, u) \<Rightarrow> case serial_send P bs (os u) of (r, p) \<Rightarrow>
        (r, (record_result (length bs) r t, u\<lparr>os := p\<rparr>)))"

definition tx_gap :: "'p badge_os \<Rightarrow> tx_tally \<times> 'p usb \<Rightarrow> tx_tally \<times> 'p usb" where
  "tx_gap P s = (case s of (t, u) \<Rightarrow> (t, if TX_PACE_MS = 0 then usb_yield P u else usb_sleep P TX_PACE_MS u))"

definition tx_late :: "'p badge_os \<Rightarrow> u64 \<Rightarrow> tx_tally \<times> 'p usb \<Rightarrow> bool \<times> (tx_tally \<times> 'p usb)" where
  "tx_late P t0 s =
     (case s of (t, u) \<Rightarrow> case usb_now P u of (n, u) \<Rightarrow> (of_nat SEND_DEADLINE_MS < saturating_sub n t0, (t, u)))"

text \<open>The tail of a frame of several packets is pushed out.\<close>

definition tx_flush :: "'p badge_os \<Rightarrow> tx_tally \<times> 'p usb \<Rightarrow> tx_tally \<times> 'p usb" where
  "tx_flush P s =
     (case s of (t, u) \<Rightarrow>
        if multi_packet t then (record_flush t, u\<lparr>os := serial_flush P (os u)\<rparr>) else (t, u))"

definition usb_send :: "'p badge_os \<Rightarrow> u8 list \<Rightarrow> 'p usb \<Rightarrow> (send_error + unit) \<times> 'p usb" where
  "usb_send P bytes u =
     (case usb_now P u of (t0, u) \<Rightarrow>
      case send_paced (tx_write P) (tx_gap P) (tx_late P t0) TX_PACKET bytes (tally_new (length bytes), u) of
        (paced, s) \<Rightarrow>
      case tx_flush P s of (t, u) \<Rightarrow>
      case usb_now P u of (n, u) \<Rightarrow>
      let u = u\<lparr>tx := tx_finish (t\<lparr>ms := saturating_sub n t0\<rparr>) (tx u)\<rparr> in
      case paced of
        Inr _ \<Rightarrow> (Inr (), u)
      | Inl (Link_F e) \<Rightarrow> (Inl Failed_E, u\<lparr>send_err := Some e\<rparr>)
      | Inl Stalled_F \<Rightarrow> (Inl Stalled_E, u)
      | Inl (TimedOut_F sent len) \<Rightarrow> (Inl (TimedOut_E sent len), u))"

subsection \<open>Receiving\<close>

function usb_spin :: "'p badge_os \<Rightarrow> 'p usb \<Rightarrow> u8 list option \<times> 'p usb" where
  "usb_spin P u =
     (if recv_spins_left u = 0 then (None, u)
      else case drain P u of (got, u) \<Rightarrow>
        if got \<noteq> [] then (Some got, u)
        else usb_spin P (usb_yield P (u\<lparr>recv_spins_left := recv_spins_left u - 1\<rparr>)))"
  by pat_completeness auto
termination
  by (relation "measure (\<lambda>(P, u). recv_spins_left u)")
    (auto simp: drain_def reader_runs_def usb_yield_def Let_def split: prod.splits)

declare usb_spin.simps [simp del]

definition usb_recv :: "'p badge_os \<Rightarrow> 'p usb \<Rightarrow> (unit + u8 list) \<times> 'p usb" where
  "usb_recv P u =
     (case usb_spin P u of
        (Some got, u) \<Rightarrow> (Inr got, u)
      | (None, u) \<Rightarrow> (case drain P (usb_sleep P POLL_MS u) of (got, u) \<Rightarrow> (Inr got, u)))"

definition usb_poll :: "'p badge_os \<Rightarrow> 'p usb \<Rightarrow> (unit + u8 list) \<times> 'p usb" where
  "usb_poll P u = (case drain P u of (got, u) \<Rightarrow> (Inr got, u))"

subsection \<open>What it says of itself\<close>

definition err_name :: "nat \<Rightarrow> string" where
  "err_name code =
     (if code = 0 then ''NoError'' else if code = 1 then ''BadAlignment'' else if code = 2 then ''BadAddress''
      else if code = 3 then ''OutOfMemory'' else if code = 9 then ''ServerNotFound''
      else if code = 14 then ''InternalError'' else if code = 15 then ''ServerQueueFull''
      else if code = 19 then ''ShareViolation'' else ''other -- look it up in xous-rs/src/definitions.rs'')"

definition stopped_text :: "nat \<Rightarrow> nat \<Rightarrow> string" where
  "stopped_text n code =
     ''reader STOPPED after '' @ decimal n @ '' listener lends failed (budget '' @ decimal RX_ERR_BUDGET @
     ''), last '' @ err_name code @ ''; nothing will park again and every exchange from here fails''"

definition unparked_text :: "nat \<Rightarrow> string" where
  "unparked_text n =
     ''no park confirmed in '' @ decimal (unat PARK_WAIT_MS) @ '' ms after absorbing '' @ decimal n @ '' watchdog un-parks''"

definition unprimed_text :: string where
  "unprimed_text =
     ''the reader never parked during construction: the listen mode may '' @
     ''still be NoListener or ConsoleListener, in which case the first '' @
     ''response was cleared rather than queued''"

definition lend_text :: "nat \<Rightarrow> nat \<Rightarrow> string" where
  "lend_text n code =
     ''listener lend failed '' @ decimal n @ ''x, last '' @ err_name code @ ''; each costs one page permanently''"

definition usb_fault :: "'p badge_os \<Rightarrow> 'p usb \<Rightarrow> string option \<times> 'p usb" where
  "usb_fault P u =
     (case look P gave_up u of (over, u) \<Rightarrow>
      if over
      then (case look P errs u of (n, u) \<Rightarrow> case look P last_err u of (code, u) \<Rightarrow> (Some (stopped_text n code), u))
      else case send_err u of
        Some e \<Rightarrow> (Some (''serial_send: '' @ err_name e), u\<lparr>send_err := None\<rparr>)
      | None \<Rightarrow>
      (case arm_fail u of
        Some n \<Rightarrow> (Some (unparked_text n), u\<lparr>arm_fail := None\<rparr>)
      | None \<Rightarrow>
      if \<not> primed u then (Some unprimed_text, u\<lparr>primed := True\<rparr>)
      else case look P errs u of (n, u) \<Rightarrow>
        if reported_errs u < n
        then (case look P last_err (u\<lparr>reported_errs := n\<rparr>) of (code, u) \<Rightarrow> (Some (lend_text n code), u))
        else (None, u)))"

definition bool_text :: "bool \<Rightarrow> string" where
  "bool_text b = (if b then ''true'' else ''false'')"

definition status_text :: "'p badge_os \<Rightarrow> 'p usb \<Rightarrow> u8 list \<Rightarrow> bool \<Rightarrow> bool \<Rightarrow> nat \<Rightarrow> u32 \<Rightarrow> u32 \<Rightarrow> string" where
  "status_text P u f pk over n nb ns =
     ''reader: parked='' @ bool_text pk @ '' stopped='' @ bool_text over @ '' lend_errs='' @ decimal n @
     '' unparks='' @ decimal (usb.unparks u) @ '' primed='' @ bool_text (primed u) @ '' rx_bytes='' @ decimal (unat nb) @
     '' not_sync='' @ decimal (unat ns) @ '' first_delivery=['' @ joined '' '' (map hex_byte f) @ ''] | '' @
     describe_tx (tx u) @ '' | '' @ address_report P (os u)"

definition usb_status :: "'p badge_os \<Rightarrow> 'p usb \<Rightarrow> string option \<times> 'p usb" where
  "usb_status P u =
     (case look P fingerprint u of (f, u) \<Rightarrow>
      case look P parked u of (pk, u) \<Rightarrow>
      case look P gave_up u of (over, u) \<Rightarrow>
      case look P errs u of (n, u) \<Rightarrow>
      case look P rx_bytes u of (nb, u) \<Rightarrow>
      case look P not_sync u of (ns, u) \<Rightarrow> (Some (status_text P u f pk over n nb ns), u))"

subsection \<open>Construction\<close>

definition raise_heap_ceiling :: "'p badge_os \<Rightarrow> 'p \<Rightarrow> 'p" where
  "raise_heap_ceiling P p =
     (case adjust_limit P 0 HEAP_MAX p of
        (Some cur, p) \<Rightarrow> snd (adjust_limit P cur HEAP_MAX p)
      | (None, p) \<Rightarrow> p)"

definition usb_start :: "'p \<Rightarrow> 'p usb" where
  "usb_start p =
     \<lparr>os = p, rx_of = rx_new, reported_errs = 0, send_err = None, recv_spins_left = 0, unparks = 0,
      arm_fail = None, primed = False,
      tx = \<lparr>last_tx = tally_new 0, frames = 0, multi_frames = 0, total_accepted = 0, total_refusals = 0\<rparr>\<rparr>"

definition usb_new :: "'p badge_os \<Rightarrow> 'p \<Rightarrow> 'p usb" where
  "usb_new P p = (case usb_arm P (usb_start (raise_heap_ceiling P p)) of (r, u) \<Rightarrow> u\<lparr>primed := (r = Inr ())\<rparr>)"

definition usb_transport :: "'p badge_os \<Rightarrow> 'p usb transport" where
  "usb_transport P =
     \<lparr>arm = usb_arm P, send = usb_send P, recv = usb_recv P, poll = usb_poll P, now_ms = usb_now P,
      take_platform_fault = usb_fault P, transport_status = usb_status P\<rparr>"

end
