(* ===== verification/Usb_Reader.thy ===== *)
theory Usb_Reader
  imports Usb
begin

text \<open>
  The two threads of the badge's transport as a transition system: the reader's steps, the answers
  of the driver and the main thread's drains in any order. Every byte delivered is handed to the
  main thread once and in order, the reader stops after its budget of failures, and the calls of
  the transport are runs of this system.
\<close>

section \<open>Interleavings\<close>

datatype rx_event = Quiet | Answer "nat + u8 list" | Drained "u8 list"

inductive rx_step :: "rx \<Rightarrow> rx_event \<Rightarrow> rx \<Rightarrow> bool" where
  reads: "reader r \<noteq> Blocked \<Longrightarrow> rx_step r Quiet (reader_step None r)"
| answers: "reader r = Blocked \<Longrightarrow> rx_step r (Answer a) (reader_step (Some a) r)"
| drains: "rx_step r (Drained (concat (rx_queue r))) (r\<lparr>rx_queue := []\<rparr>)"

inductive rx_run :: "rx \<Rightarrow> rx_event list \<Rightarrow> rx \<Rightarrow> bool" where
  stays: "rx_run r [] r"
| moves: "rx_run r es r' \<Longrightarrow> rx_step r' e r'' \<Longrightarrow> rx_run r (es @ [e]) r''"

inductive_cases rx_stepE: "rx_step r e r'"

lemma rx_run_append: "rx_run r' fs r'' \<Longrightarrow> rx_run r es r' \<Longrightarrow> rx_run r (es @ fs) r''"
proof (induction rule: rx_run.induct)
  case (moves r1 fs r2 e r3)
  then have "rx_run r ((es @ fs) @ [e]) r3" by (blast intro: rx_run.moves)
  then show ?case by simp
qed simp

lemma rx_run_single: "rx_step r e r' \<Longrightarrow> rx_run r [e] r'"
  using rx_run.moves [OF rx_run.stays] by fastforce

fun event_in :: "rx_event \<Rightarrow> u8 list" where
  "event_in (Answer (Inr d)) = d"
| "event_in _ = []"

fun event_out :: "rx_event \<Rightarrow> u8 list" where
  "event_out (Drained d) = d"
| "event_out _ = []"

fun failed_answer :: "rx_event \<Rightarrow> bool" where
  "failed_answer (Answer (Inl _)) = True"
| "failed_answer _ = False"

definition bytes_delivered :: "rx_event list \<Rightarrow> u8 list" where
  "bytes_delivered es = concat (map event_in es)"

definition bytes_taken :: "rx_event list \<Rightarrow> u8 list" where
  "bytes_taken es = concat (map event_out es)"

fun event_answer :: "rx_event \<Rightarrow> (nat + u8 list) list" where
  "event_answer (Answer a) = [a]"
| "event_answer _ = []"

definition answers_of :: "rx_event list \<Rightarrow> (nat + u8 list) list" where
  "answers_of es = concat (map event_answer es)"

definition delivered_by :: "(nat + u8 list) list \<Rightarrow> u8 list" where
  "delivered_by as = concat (map (case_sum (\<lambda>_. []) id) as)"

definition failures :: "rx_event list \<Rightarrow> nat" where
  "failures es = length (filter failed_answer es)"

lemma event_lists [simp]:
  "bytes_delivered [] = []" "bytes_delivered (es @ fs) = bytes_delivered es @ bytes_delivered fs"
  "bytes_delivered [e] = event_in e"
  "bytes_taken [] = []" "bytes_taken (es @ fs) = bytes_taken es @ bytes_taken fs" "bytes_taken [e] = event_out e"
  "failures [] = 0" "failures (es @ fs) = failures es + failures fs"
  "failures [e] = (if failed_answer e then 1 else 0)"
  "answers_of [] = []" "answers_of (es @ fs) = answers_of es @ answers_of fs" "answers_of [e] = event_answer e"
  by (simp_all add: bytes_delivered_def bytes_taken_def failures_def answers_of_def)

lemma answers_account:
  "bytes_delivered es = delivered_by (answers_of es)" "failures es = length (filter isl (answers_of es))"
proof (induction es)
  case (Cons e es)
  {
    case 1
    with Cons show ?case
      by (cases e rule: event_in.cases) (auto simp: bytes_delivered_def delivered_by_def answers_of_def)
  next
    case 2
    with Cons show ?case by (cases e rule: failed_answer.cases) (auto simp: failures_def answers_of_def)
  }
qed (simp_all add: delivered_by_def)

section \<open>The invariant\<close>

text \<open>The delivery the reader holds, the part of it not yet counted, and a failure not yet charged.\<close>

fun in_hand :: "reader_pc \<Rightarrow> u8 list" where
  "in_hand (Unparking (Inr d)) = d"
| "in_hand (Counting d) = d"
| "in_hand (Checking d) = d"
| "in_hand (Printing d) = d"
| "in_hand (Queueing d) = d"
| "in_hand _ = []"

fun uncounted :: "reader_pc \<Rightarrow> u8 list" where
  "uncounted (Unparking (Inr d)) = d"
| "uncounted (Counting d) = d"
| "uncounted _ = []"

fun unprinted :: "reader_pc \<Rightarrow> u8 list" where
  "unprinted (Checking d) = d"
| "unprinted (Printing d) = d"
| "unprinted w = uncounted w"

fun uncharged :: "reader_pc \<Rightarrow> nat" where
  "uncharged (Unparking (Inl _)) = 1"
| "uncharged (Noting _) = 1"
| "uncharged Charging = 1"
| "uncharged _ = 0"

fun pc_ok :: "reader_pc \<Rightarrow> bool" where
  "pc_ok (Counting d) \<longleftrightarrow> d \<noteq> []"
| "pc_ok (Checking d) \<longleftrightarrow> d \<noteq> []"
| "pc_ok (Printing d) \<longleftrightarrow> d \<noteq> []"
| "pc_ok (Queueing d) \<longleftrightarrow> d \<noteq> []"
| "pc_ok _ \<longleftrightarrow> True"

definition rx_inv :: "rx \<Rightarrow> bool" where
  "rx_inv r \<longleftrightarrow>
     pc_ok (reader r) \<and>
     parked r = (case reader r of Blocked \<Rightarrow> True | Unparking _ \<Rightarrow> True | _ \<Rightarrow> False) \<and>
     gave_up r = (reader r = Halted) \<and>
     errs r \<le> RX_ERR_BUDGET \<and> (errs r = RX_ERR_BUDGET \<longleftrightarrow> reader r = Giving_Up \<or> reader r = Halted)"

definition rx_account :: "rx_event list \<Rightarrow> rx \<Rightarrow> bool" where
  "rx_account es r \<longleftrightarrow>
     bytes_delivered es = bytes_taken es @ concat (rx_queue r) @ in_hand (reader r) \<and>
     of_nat (length (bytes_delivered es)) = rx_bytes r + of_nat (length (uncounted (reader r))) \<and>
     failures es = errs r + uncharged (reader r)"

text \<open>The fingerprint is the start of what was delivered, and empty only before the first delivery is printed.\<close>

definition rx_printed :: "rx_event list \<Rightarrow> rx \<Rightarrow> bool" where
  "rx_printed es r \<longleftrightarrow>
     fingerprint r = take (length (fingerprint r)) (bytes_delivered es) \<and>
     (fingerprint r = [] \<longrightarrow> bytes_delivered es = unprinted (reader r))"

lemma rx_inv_new: "rx_inv rx_new"
  by (simp add: rx_inv_def rx_new_def)

lemma rx_inv_step: "rx_step r e r' \<Longrightarrow> rx_inv r \<Longrightarrow> rx_inv r'"
  by (erule rx_step.cases; cases "reader r"; simp add: rx_inv_def reader_step.simps split: sum.splits; fail)

lemma rx_inv_run: "rx_run r es r' \<Longrightarrow> rx_inv r \<Longrightarrow> rx_inv r'"
  by (induction rule: rx_run.induct) (blast intro: rx_inv_step)+

lemma rx_account_step:
  assumes "rx_step r e r'" and "rx_inv r" and "rx_account es r"
  shows "rx_account (es @ [e]) r'"
  using assms
proof cases
  case (answers a)
  with assms(3) show ?thesis by (cases a) (auto simp: rx_account_def reader_step.simps)
next
  case drains
  then have "rx_account (es @ [e]) r' \<longleftrightarrow> rx_account es r" by (simp add: rx_account_def)
  with assms(3) show ?thesis by blast
next
  case reads
  with assms(2,3) show ?thesis
    by (cases "reader r") (auto simp: rx_account_def rx_inv_def reader_step.simps split: sum.splits)
qed

lemma take_min_length: "take (min (length xs) n) xs = take n xs"
  by (simp add: min_def)

lemma rx_printed_step:
  assumes "rx_step r e r'" and "rx_inv r" and "rx_printed es r"
  shows "rx_printed (es @ [e]) r'"
  using assms
proof cases
  case (answers a)
  have "length (fingerprint r) \<le> length (bytes_delivered es)"
    using assms(3) unfolding rx_printed_def by (metis length_take min.cobounded1)
  with assms(3) answers show ?thesis by (cases a) (auto simp: rx_printed_def reader_step.simps)
next
  case drains
  with assms(3) show ?thesis by (simp add: rx_printed_def)
next
  case reads
  with assms(2,3) show ?thesis
    by (cases "reader r") (auto simp: rx_printed_def rx_inv_def reader_step.simps take_min_length split: sum.splits)
qed

lemma rx_account_run: "rx_run rx_new es r \<Longrightarrow> rx_account es r \<and> rx_printed es r"
proof (induction rx_new es r rule: rx_run.induct)
  case stays
  show ?case by (simp add: rx_account_def rx_printed_def rx_new_def)
next
  case (moves es r' e r'')
  then show ?case using rx_account_step rx_printed_step rx_inv_run [OF moves(1) rx_inv_new] by blast
qed

section \<open>The calls of the transport are such runs\<close>

text \<open>
  A platform that also keeps every answer the driver had for the reader, in order. The reader takes
  one only while it is blocked in its wait.
\<close>

definition recording :: "'p badge_os \<Rightarrow> ('p \<times> (nat + u8 list) option list) badge_os" where
  "recording P =
     \<lparr>others = (\<lambda>(p, log). case others P p of (as, p) \<Rightarrow> (as, (p, log @ as))),
      elapsed_ms = (\<lambda>(p, log). case elapsed_ms P p of (n, p) \<Rightarrow> (n, (p, log))),
      sleep_ms = (\<lambda>n (p, log). (sleep_ms P n p, log)), yield_now = (\<lambda>(p, log). (yield_now P p, log)),
      serial_send = (\<lambda>bs (p, log). case serial_send P bs p of (r, p) \<Rightarrow> (r, (p, log))),
      serial_flush = (\<lambda>(p, log). (serial_flush P p, log)),
      adjust_limit = (\<lambda>a b (p, log). case adjust_limit P a b p of (r, p) \<Rightarrow> (r, (p, log))),
      address_report = (\<lambda>(p, log). address_report P p)\<rparr>"

primrec answers_taken :: "(nat + u8 list) option list \<Rightarrow> rx \<Rightarrow> (nat + u8 list) list" where
  "answers_taken [] r = []"
| "answers_taken (a # as) r =
     (if reader r = Blocked then (case a of None \<Rightarrow> [] | Some x \<Rightarrow> [x]) else []) @ answers_taken as (reader_step a r)"

lemma answers_taken_append: "answers_taken (as @ bs) r = answers_taken as r @ answers_taken bs (fold reader_step as r)"
  by (induction as arbitrary: r) simp_all

text \<open>What the reader does does not depend on the queue.\<close>

definition sans_queue :: "rx \<Rightarrow> rx" where
  "sans_queue r = r\<lparr>rx_queue := []\<rparr>"

lemma reader_step_sans: "sans_queue r = sans_queue r' \<Longrightarrow> sans_queue (reader_step a r) = sans_queue (reader_step a r')"
  by (cases r; cases r'; cases "reader r") (auto simp: sans_queue_def reader_step.simps split: option.splits sum.splits)

lemma answers_taken_sans:
  "sans_queue r = sans_queue r' \<Longrightarrow>
   answers_taken as r = answers_taken as r' \<and> sans_queue (fold reader_step as r) = sans_queue (fold reader_step as r')"
proof (induction as arbitrary: r r')
  case (Cons a as)
  have "reader r = reader r'" using Cons.prems by (cases r; cases r') (simp add: sans_queue_def)
  then show ?case using Cons.IH [OF reader_step_sans [OF Cons.prems, of a]] by simp
qed simp

text \<open>From \<open>u\<close> to \<open>u'\<close> the main thread takes \<open>bs\<close>, and the reader the driver's recorded answers.\<close>

definition usb_moves :: "u8 list \<Rightarrow> ('p \<times> (nat + u8 list) option list) usb \<Rightarrow> ('p \<times> (nat + u8 list) option list) usb \<Rightarrow> bool" where
  "usb_moves bs u u' \<longleftrightarrow>
     (\<exists>as es. snd (os u') = snd (os u) @ as \<and> sans_queue (rx_of u') = sans_queue (fold reader_step as (rx_of u)) \<and>
        rx_run (rx_of u) es (rx_of u') \<and> bytes_taken es = bs \<and> answers_of es = answers_taken as (rx_of u))"

lemma usb_moves_refl: "rx_of u' = rx_of u \<Longrightarrow> snd (os u') = snd (os u) \<Longrightarrow> usb_moves [] u u'"
  unfolding usb_moves_def by (intro exI [of _ "[]"]) (simp add: rx_run.stays)

lemma usb_moves_trans:
  assumes "usb_moves bs u u'" and "usb_moves cs u' u''"
  shows "usb_moves (bs @ cs) u u''"
proof -
  obtain as es where 1: "snd (os u') = snd (os u) @ as" "sans_queue (rx_of u') = sans_queue (fold reader_step as (rx_of u))"
      "rx_run (rx_of u) es (rx_of u')" "bytes_taken es = bs" "answers_of es = answers_taken as (rx_of u)"
    using assms(1) unfolding usb_moves_def by blast
  obtain as' es' where 2: "snd (os u'') = snd (os u') @ as'" "sans_queue (rx_of u'') = sans_queue (fold reader_step as' (rx_of u'))"
      "rx_run (rx_of u') es' (rx_of u'')" "bytes_taken es' = cs" "answers_of es' = answers_taken as' (rx_of u')"
    using assms(2) unfolding usb_moves_def by blast
  note same = answers_taken_sans [OF 1(2), of as']
  show ?thesis unfolding usb_moves_def
    by (intro exI [of _ "as @ as'"] exI [of _ "es @ es'"])
      (simp add: 1 2 same answers_taken_append rx_run_append [OF 2(3) 1(3)])
qed

lemma reader_step_run:
  "\<exists>es. rx_run r es (reader_step a r) \<and> bytes_taken es = [] \<and>
     answers_of es = (if reader r = Blocked then (case a of None \<Rightarrow> [] | Some x \<Rightarrow> [x]) else [])"
proof (cases "reader r = Blocked")
  case True
  then show ?thesis
  proof (cases a)
    case None
    with True have "reader_step a r = r" by (simp add: reader_step.simps)
    with None show ?thesis by (auto intro: rx_run.stays exI [of _ "[]"])
  next
    case (Some x)
    have "rx_run r [Answer x] (reader_step a r)" unfolding Some by (rule rx_run_single [OF rx_step.answers [OF True]])
    with Some True show ?thesis by (intro exI [of _ "[Answer x]"]) simp
  qed
next
  case False
  have "reader_step a r = reader_step None r" using False by (cases "reader r") (simp_all add: reader_step.simps)
  then have "rx_run r [Quiet] (reader_step a r)" using rx_run_single [OF rx_step.reads [OF False]] by simp
  with False show ?thesis by (intro exI [of _ "[Quiet]"]) simp
qed

lemma reader_steps_run:
  "\<exists>es. rx_run r es (fold reader_step as r) \<and> bytes_taken es = [] \<and> answers_of es = answers_taken as r"
proof (induction as arbitrary: r)
  case (Cons a as)
  obtain es where es: "rx_run r es (reader_step a r)" "bytes_taken es = []"
      "answers_of es = (if reader r = Blocked then (case a of None \<Rightarrow> [] | Some x \<Rightarrow> [x]) else [])"
    using reader_step_run by blast
  obtain fs where fs: "rx_run (reader_step a r) fs (fold reader_step as (reader_step a r))" "bytes_taken fs = []"
      "answers_of fs = answers_taken as (reader_step a r)"
    using Cons by blast
  have "rx_run r (es @ fs) (fold reader_step (a # as) r)" using rx_run_append [OF fs(1) es(1)] by simp
  with es fs show ?case by (intro exI [of _ "es @ fs"]) simp
qed (auto intro: rx_run.stays exI [of _ "[]"])

lemma reader_runs_moves: "usb_moves [] u (reader_runs (recording P) u)"
proof -
  obtain q log where o: "os u = (q, log)" by (cases "os u")
  obtain as p where a: "others P q = (as, p)" by (cases "others P q")
  obtain es where "rx_run (rx_of u) es (fold reader_step as (rx_of u))" "bytes_taken es = []" "answers_of es = answers_taken as (rx_of u)"
    using reader_steps_run by blast
  with a o show ?thesis unfolding usb_moves_def
    by (intro exI [of _ as] exI [of _ es]) (simp add: reader_runs_def recording_def)
qed

text \<open>
  What every step of the main thread respects, the calls that are made of them respect: arming and
  sending never touch the queue, and looking is a run of the reader.
\<close>

locale usb_relation =
  fixes P :: "'p badge_os" and R :: "'p usb \<Rightarrow> 'p usb \<Rightarrow> bool"
  assumes same: "os u' = os u \<Longrightarrow> rx_of u' = rx_of u \<Longrightarrow> R u u'"
    and trans: "R u u' \<Longrightarrow> R u' u'' \<Longrightarrow> R u u''"
    and reader: "R u (reader_runs P u)"
    and clock: "R u (snd (usb_now P u))"
    and sleeps: "0 < n \<Longrightarrow> R u (usb_sleep P n u)"
    and yields: "R u (usb_yield P u)"
    and writes: "R u (u\<lparr>os := snd (serial_send P bs (os u))\<rparr>)"
    and flushes: "R u (u\<lparr>os := serial_flush P (os u)\<rparr>)"
begin

lemma now_rel: "usb_now P u = (n, u') \<Longrightarrow> R u u'"
  using clock [of u] by simp

lemma look_rel: "look P f u = (a, u') \<Longrightarrow> R u u'"
  using reader by (auto simp: look_def Let_def)

lemma settle_rel: "R (snd s) (snd (arm_settle P s))"
  using sleeps [of POLL_MS] yields by (auto simp: arm_settle_def split: prod.splits)

lemma parked_rel: "arm_parked P s = (b, s') \<Longrightarrow> R (snd s) (snd s')"
  using look_rel by (auto simp: arm_parked_def split: prod.splits)

lemma arm_clock_rel: "arm_clock P t0 s = (n, s') \<Longrightarrow> R (snd s) (snd s')"
  using now_rel by (auto simp: arm_clock_def split: prod.splits)

lemma confirm_rel:
  assumes "confirm_loop (arm_parked P) (arm_clock P t0) (arm_settle P) d n s = Some (r, s')"
  shows "R (snd s) (snd s') \<and> (\<forall>m. r = Inr m \<longrightarrow> parked (rx_of (snd s')))"
proof -
  let ?good = "\<lambda>s x. R (snd s) (snd (snd x)) \<and> (\<forall>m. fst x = Inr m \<longrightarrow> parked (rx_of (snd (snd x))))"
  have "pk = arm_parked P \<longrightarrow> ck = arm_clock P t0 \<longrightarrow> st = arm_settle P \<longrightarrow> ?good s x"
    if "confirm_loop pk ck st d n s = Some x" for pk ck st x
  proof (rule confirm_loop.raw_induct [where P = "\<lambda>pk ck st d n s x.
      pk = arm_parked P \<longrightarrow> ck = arm_clock P t0 \<longrightarrow> st = arm_settle P \<longrightarrow> ?good s x", OF _ that], intro impI)
    fix rec pk ck st d n s x
    assume IH: "\<And>pk ck st d n s x. rec pk ck st d n s = Some x \<Longrightarrow>
        pk = arm_parked P \<longrightarrow> ck = arm_clock P t0 \<longrightarrow> st = arm_settle P \<longrightarrow> ?good s x"
      and run: "(case pk s of (p, s1) \<Rightarrow>
        (case (if p then case pk (st s1) of (q, s2) \<Rightarrow> (q, n + 1, s2) else (False, n, s1)) of
           (settled, n', s2) \<Rightarrow>
             if settled then Some (Inr n, s2)
             else case ck s2 of (e, s3) \<Rightarrow> if d < e then Some (Inl n', s3) else rec pk ck st d n' (st s3))) = Some x"
      and ops: "pk = arm_parked P" "ck = arm_clock P t0" "st = arm_settle P"
    obtain p s1 where p: "pk s = (p, s1)" by (cases "pk s")
    define mid where "mid = (if p then case pk (st s1) of (q, s2) \<Rightarrow> (q, n + 1, s2) else (False, n, s1))"
    obtain settled n' s2 where m: "mid = (settled, n', s2)" by (cases mid)
    have seen: "b \<longleftrightarrow> parked (rx_of (snd y))" if "pk y' = (b, y)" for b y y'
      using that ops(1) by (auto simp: arm_parked_def look_def Let_def split: prod.splits)
    have "R (snd s) (snd s1)" using parked_rel p ops by blast
    moreover have "R (snd s1) (snd s2)"
    proof (cases p)
      case True
      then obtain q where q: "pk (st s1) = (q, s2)" using m by (auto simp: mid_def split: prod.splits)
      have "R (snd (arm_settle P s1)) (snd s2)" by (rule parked_rel) (use q ops in simp)
      with settle_rel [of s1] show ?thesis by (rule trans)
    qed (use m same in \<open>simp add: mid_def\<close>)
    ultimately have 2: "R (snd s) (snd s2)" by (rule trans)
    obtain e s3 where c: "ck s2 = (e, s3)" by (cases "ck s2")
    have 3: "R (snd s) (snd s3)" by (rule trans [OF 2 arm_clock_rel]) (use c ops in simp)
    have 4: "R (snd s) (snd (st s3))" unfolding ops by (rule trans [OF 3 settle_rel])
    have "(if settled then Some (Inr n, s2)
      else if d < e then Some (Inl n', s3) else rec pk ck st d n' (st s3)) = Some x"
      using run by (simp only: p prod.case mid_def [symmetric] m c)
    then consider "x = (Inr n, s2)" "settled" | "x = (Inl n', s3)" | "rec pk ck st d n' (st s3) = Some x"
      by (metis option.inject)
    then show "?good s x"
    proof cases
      case 3
      from IH [OF this] ops have good: "?good (st s3) x" by blast
      show ?thesis by (rule conjI [OF trans [OF 4 conjunct1 [OF good]] conjunct2 [OF good]])
    next
      case 1
      have "parked (rx_of (snd s2))" if settled
        using that m seen by (auto simp: mid_def split: if_splits prod.splits)
      with 1 2 show ?thesis by simp
    qed (use 3 in simp)
  qed
  from this [OF assms] show ?thesis by simp
qed

lemma arm_rel: "usb_arm P u = (r, u') \<Longrightarrow> R u u'"
proof -
  assume run: "usb_arm P u = (r, u')"
  obtain t0 u1 where n: "usb_now P u = (t0, u1)" by force
  show ?thesis
  proof (cases "arm_wait P u")
    case None
    with run same show ?thesis by (auto simp: usb_arm_def)
  next
    case (Some x)
    then obtain a turns u2 where x: "x = (a, turns, u2)" by (cases x)
    have "R u1 u2" using Some x n confirm_rel [of t0 _ _ "(0, u1)" a "(turns, u2)"] by (simp add: arm_wait_def confirm_park_def)
    moreover have "R u2 u'" using run Some x same by (auto simp: usb_arm_def split: sum.splits)
    ultimately show ?thesis using now_rel [OF n] trans by blast
  qed
qed

lemma send_loop_rel:
  "w = tx_write P \<Longrightarrow> g = tx_gap P \<Longrightarrow> t = tx_late P t0 \<Longrightarrow>
   send_loop w g t chunk bytes sent idle first s = (r, s') \<Longrightarrow> R (snd s) (snd s')"
proof (induction w g t chunk bytes sent idle first s rule: send_loop.induct)
  case (1 w g t chunk bytes sent idle first s)
  note run = 1(6) [unfolded send_loop.simps [of w g t chunk bytes sent idle first s] Let_def]
  show ?case
  proof (cases "length bytes \<le> sent")
    case True
    with run same show ?thesis by simp
  next
    case False
    obtain late s1 where t: "t s = (late, s1)" by (cases "t s")
    have r1: "R (snd s) (snd s1)" using t clock now_rel unfolding 1(5) by (auto simp: tx_late_def split: prod.splits)
    let ?s2 = "if first then s1 else g s1" and ?hi = "min (length bytes) (sent + max chunk 1)"
    have r2: "R (snd s1) (snd ?s2)" unfolding 1(4) using same yields sleeps [of TX_PACE_MS]
      by (auto simp: tx_gap_def split: prod.splits)
    obtain a s3 where w: "w (slice sent (?hi - sent) bytes) ?s2 = (a, s3)"
      by (cases "w (slice sent (?hi - sent) bytes) ?s2")
    have r3: "R (snd ?s2) (snd s3)" using w writes [of "snd ?s2" "slice sent (?hi - sent) bytes"] unfolding 1(3)
      by (auto simp: tx_write_def split: prod.splits)
    have r: "R (snd s) (snd s3)" by (rule trans [OF r1 trans [OF r2 r3]])
    show ?thesis
    proof (cases late)
      case True
      with run t False r1 show ?thesis by simp
    next
      case on_time: False
      note IH = 1(1,2) [OF False t [symmetric] on_time refl refl w [symmetric]]
      show ?thesis
      proof (cases a)
        case (Inl e)
        with run t on_time w False r show ?thesis by simp
      next
        case (Inr n)
        note next_turn = IH(1) [OF Inr _ _ 1(3-5)] IH(2) [OF Inr _ 1(3-5)]
        show ?thesis using run t on_time w False Inr r trans [OF r] next_turn by (auto split: if_splits)
      qed
    qed
  qed
qed

lemma send_rel: "usb_send P bytes u = (r, u') \<Longrightarrow> R u u'"
proof -
  assume run: "usb_send P bytes u = (r, u')"
  obtain t0 u1 where n: "usb_now P u = (t0, u1)" by (cases "usb_now P u")
  obtain paced s where p: "send_paced (tx_write P) (tx_gap P) (tx_late P t0) TX_PACKET bytes (tally_new (length bytes), u1) = (paced, s)"
    by (cases "send_paced (tx_write P) (tx_gap P) (tx_late P t0) TX_PACKET bytes (tally_new (length bytes), u1)")
  obtain t u2 where f: "tx_flush P s = (t, u2)" by (cases "tx_flush P s")
  obtain m u3 where n2: "usb_now P u2 = (m, u3)" by (cases "usb_now P u2")
  have "R u1 (snd s)" using send_loop_rel [OF refl refl refl p [unfolded send_paced_def]] by simp
  moreover have "R (snd s) u2" using f flushes [of "snd s"] same by (auto simp: tx_flush_def split: prod.splits if_splits)
  ultimately have "R u u3" using now_rel [OF n] now_rel [OF n2] trans by blast
  moreover have "R u3 u'" using run n p f n2 by (auto simp: Let_def intro!: same simp: usb_send_def split: sum.splits send_fault.splits)
  ultimately show ?thesis by (rule trans)
qed

lemma looks_rel: "R u u' \<Longrightarrow> look P f u' = (a, u'') \<Longrightarrow> R u u''"
  by (rule trans [OF _ look_rel])

lemma status_rel: "usb_status P u = (r, u') \<Longrightarrow> R u u'"
proof -
  assume run: "usb_status P u = (r, u')"
  obtain a u1 where 1: "look P fingerprint u = (a, u1)" by (cases "look P fingerprint u")
  obtain b u2 where 2: "look P parked u1 = (b, u2)" by (cases "look P parked u1")
  obtain c u3 where 3: "look P gave_up u2 = (c, u3)" by (cases "look P gave_up u2")
  obtain d u4 where 4: "look P errs u3 = (d, u4)" by (cases "look P errs u3")
  obtain e u5 where 5: "look P rx_bytes u4 = (e, u5)" by (cases "look P rx_bytes u4")
  obtain f u6 where 6: "look P not_sync u5 = (f, u6)" by (cases "look P not_sync u5")
  have "R u u6" by (rule looks_rel [OF looks_rel [OF looks_rel [OF looks_rel [OF looks_rel [OF look_rel [OF 1] 2] 3] 4] 5] 6])
  with run show ?thesis by (simp add: usb_status_def 1 2 3 4 5 6)
qed

lemma fault_rel: "usb_fault P u = (r, u') \<Longrightarrow> R u u'"
proof -
  assume run: "usb_fault P u = (r, u')"
  obtain over u1 where l: "look P gave_up u = (over, u1)" by (cases "look P gave_up u")
  note 1 = look_rel [OF l]
  obtain n u2 where n: "look P errs u1 = (n, u2)" by (cases "look P errs u1")
  note 2 = looks_rel [OF 1 n]
  obtain c u3 where c: "look P last_err u2 = (c, u3)" by (cases "look P last_err u2")
  obtain c' u4 where c': "look P last_err (u2\<lparr>reported_errs := n\<rparr>) = (c', u4)" by (cases "look P last_err (u2\<lparr>reported_errs := n\<rparr>)")
  have 3: "R u u4" by (rule trans [OF 2 trans [OF same look_rel [OF c']]]) simp_all
  have "R u v" if "os v = os u1" "rx_of v = rx_of u1" for v by (rule trans [OF 1 same]) (use that in simp_all)
  with run 1 2 3 looks_rel [OF 2 c] show ?thesis
    by (auto simp: usb_fault_def l n c c' split: if_splits option.splits)
qed

end

section \<open>What the main thread gets\<close>

interpretation quiet: usb_relation "recording P" "usb_moves []" for P :: "'p badge_os"
proof (unfold_locales, goal_cases)
  case (2 u u' u'')
  then show ?case using usb_moves_trans [of "[]" u u' "[]" u''] by simp
next
  case (3 u)
  show ?case by (rule reader_runs_moves)
qed (auto intro!: usb_moves_refl simp: usb_now_def usb_sleep_def usb_yield_def recording_def split: prod.splits)

lemma drain_moves: "drain (recording P) u = (got, u') \<Longrightarrow> usb_moves got u u'"
proof -
  assume run: "drain (recording P) u = (got, u')"
  let ?u = "reader_runs (recording P) u"
  have "rx_step (rx_of ?u) (Drained got) (rx_of u')" using run rx_step.drains [of "rx_of ?u"] by (auto simp: drain_def Let_def)
  moreover have "sans_queue (rx_of u') = sans_queue (rx_of ?u)" "os u' = os ?u"
    using run by (auto simp: drain_def Let_def sans_queue_def)
  ultimately have "usb_moves got ?u u'" unfolding usb_moves_def
    using rx_run_single by (intro exI [of _ "[]"] exI [of _ "[Drained got]"]) simp
  with usb_moves_trans [OF reader_runs_moves this] show ?thesis by simp
qed

lemma spin_moves:
  "usb_spin Q u = (g, u') \<Longrightarrow> Q = recording P \<Longrightarrow> usb_moves (case g of None \<Rightarrow> [] | Some b \<Rightarrow> b) u u'"
proof (induction Q u arbitrary: g u' rule: usb_spin.induct)
  case (1 Q u)
  show ?case
  proof (cases "recv_spins_left u = 0")
    case True
    with 1(2) show ?thesis by (auto simp: usb_spin.simps [of Q u] intro: usb_moves_refl)
  next
    case False
    obtain got u1 where d: "drain Q u = (got, u1)" by (cases "drain Q u")
    note moved = drain_moves [OF d [unfolded 1(3)]]
    show ?thesis
    proof (cases "got = []")
      case True
      let ?u = "usb_yield Q (u1\<lparr>recv_spins_left := recv_spins_left u1 - 1\<rparr>)"
      have y: "usb_moves [] u1 ?u"
        by (rule usb_moves_refl) (simp_all add: usb_yield_def 1(3) recording_def split: prod.splits)
      have "usb_spin Q ?u = (g, u')" using 1(2) False True d by (simp add: usb_spin.simps [of Q u])
      then have "usb_moves (case g of None \<Rightarrow> [] | Some b \<Rightarrow> b) ?u u'" using 1(1) [OF False d [symmetric]] True 1(3) by simp
      from usb_moves_trans [OF usb_moves_trans [OF moved y] this] True show ?thesis by simp
    next
      case nonempty: False
      with 1(2) False d moved show ?thesis by (auto simp: usb_spin.simps [of Q u])
    qed
  qed
qed

lemma recv_moves: "usb_recv (recording P) u = (Inr got, u') \<Longrightarrow> usb_moves got u u'"
proof -
  assume run: "usb_recv (recording P) u = (Inr got, u')"
  obtain g u1 where s: "usb_spin (recording P) u = (g, u1)" by (cases "usb_spin (recording P) u")
  show ?thesis
  proof (cases g)
    case None
    obtain d u2 where d: "drain (recording P) (usb_sleep (recording P) POLL_MS u1) = (d, u2)" by (cases "drain (recording P) (usb_sleep (recording P) POLL_MS u1)")
    have "usb_moves [] u (usb_sleep (recording P) POLL_MS u1)"
      using usb_moves_trans [OF spin_moves [OF s refl] quiet.sleeps [of POLL_MS u1 P]] None by simp
    from usb_moves_trans [OF this drain_moves [OF d]] run s None d show ?thesis by (simp add: usb_recv_def)
  next
    case (Some b)
    with run s spin_moves [OF s refl] show ?thesis by (simp add: usb_recv_def)
  qed
qed

lemma poll_moves: "usb_poll (recording P) u = (Inr got, u') \<Longrightarrow> usb_moves got u u'"
  by (auto simp: usb_poll_def split: prod.splits intro: drain_moves)

text \<open>The calls of the trait, and any sequence of them, with the bytes the caller receives.\<close>

datatype transport_call = Arm | Send "u8 list" | Recv | Poll | Clock | Fault | Status

definition received_bytes :: "(unit + u8 list) \<times> 'p usb \<Rightarrow> u8 list \<times> 'p usb" where
  "received_bytes x = (case x of (Inl _, u) \<Rightarrow> ([], u) | (Inr b, u) \<Rightarrow> (b, u))"

fun do_call :: "'p badge_os \<Rightarrow> transport_call \<Rightarrow> 'p usb \<Rightarrow> u8 list \<times> 'p usb" where
  "do_call P Arm u = ([], snd (usb_arm P u))"
| "do_call P (Send bs) u = ([], snd (usb_send P bs u))"
| "do_call P Recv u = received_bytes (usb_recv P u)"
| "do_call P Poll u = received_bytes (usb_poll P u)"
| "do_call P Clock u = ([], snd (usb_now P u))"
| "do_call P Fault u = ([], snd (usb_fault P u))"
| "do_call P Status u = ([], snd (usb_status P u))"

primrec usb_session :: "'p badge_os \<Rightarrow> transport_call list \<Rightarrow> 'p usb \<Rightarrow> u8 list \<times> 'p usb" where
  "usb_session P [] u = ([], u)"
| "usb_session P (c # cs) u =
     (case do_call P c u of (got, u) \<Rightarrow> case usb_session P cs u of (rest, u) \<Rightarrow> (got @ rest, u))"

lemma recv_total: "\<exists>b. fst (usb_recv P u) = Inr b"
  by (auto simp: usb_recv_def split: prod.splits option.splits)

lemma poll_total: "\<exists>b. fst (usb_poll P u) = Inr b"
  by (auto simp: usb_poll_def split: prod.splits)

lemma call_moves: "do_call (recording P) c u = (got, u') \<Longrightarrow> usb_moves got u u'"
proof -
  assume run: "do_call (recording P) c u = (got, u')"
  obtain b v where b: "usb_recv (recording P) u = (Inr b, v)" using recv_total [of "recording P" u] by (metis prod.collapse)
  obtain d w where d: "usb_poll (recording P) u = (Inr d, w)" using poll_total [of "recording P" u] by (metis prod.collapse)
  have "usb_moves [] u (snd (usb_send (recording P) bs u))" for bs by (rule quiet.send_rel [OF prod.collapse [symmetric]])
  moreover have "usb_moves [] u (snd (usb_arm (recording P) u))" by (rule quiet.arm_rel [OF prod.collapse [symmetric]])
  moreover have "usb_moves [] u (snd (usb_fault (recording P) u))" by (rule quiet.fault_rel [OF prod.collapse [symmetric]])
  moreover have "usb_moves [] u (snd (usb_status (recording P) u))" by (rule quiet.status_rel [OF prod.collapse [symmetric]])
  ultimately show ?thesis using run quiet.clock [where u = u and P = P] recv_moves [OF b] poll_moves [OF d]
    by (cases c) (auto simp: received_bytes_def b d split: prod.splits sum.splits)
qed

lemma session_moves: "usb_session (recording P) cs u = (got, u') \<Longrightarrow> usb_moves got u u'"
proof (induction cs arbitrary: u got)
  case (Cons c cs)
  then show ?case by (auto split: prod.splits intro: usb_moves_trans call_moves)
qed (simp add: usb_moves_refl)

lemma raised_log: "snd (raise_heap_ceiling (recording P) (p, [])) = []"
  by (simp add: raise_heap_ceiling_def recording_def split: prod.splits option.splits)

lemma session_run:
  assumes "usb_session (recording P) cs (usb_new (recording P) (p, [])) = (got, u)"
  shows "\<exists>es. rx_run rx_new es (rx_of u) \<and> bytes_taken es = got \<and> answers_of es = answers_taken (snd (os u)) rx_new \<and>
    sans_queue (rx_of u) = sans_queue (fold reader_step (snd (os u)) rx_new)"
proof -
  let ?s = "usb_start (raise_heap_ceiling (recording P) (p, []))"
  obtain r v where a: "usb_arm (recording P) ?s = (r, v)" by (cases "usb_arm (recording P) ?s")
  have new: "usb_new (recording P) (p, []) = v\<lparr>primed := (r = Inr ())\<rparr>" by (simp add: usb_new_def a)
  have "usb_moves [] v (usb_new (recording P) (p, []))" by (rule usb_moves_refl) (simp_all add: new)
  from usb_moves_trans [OF usb_moves_trans [OF quiet.arm_rel [OF a] this] session_moves [OF assms]]
  have m: "usb_moves got ?s u" by simp
  have "rx_of ?s = rx_new" "snd (os ?s) = []" by (simp_all add: usb_start_def raised_log)
  with m show ?thesis unfolding usb_moves_def by auto
qed

end
