(* ===== verification/Usb_Live.thy ===== *)
theory Usb_Live
  imports Usb_Reader Link_Live
begin

text \<open>
  What the link may rely on over the badge's own transport: bytes arrive once and in order, a reader
  that has spent its budget of failures is noticed by every call that needs it, and on a platform
  whose clock moves every wait ends.
\<close>

section \<open>A reader that has given up\<close>

definition stays_halted :: "'p usb \<Rightarrow> 'p usb \<Rightarrow> bool" where
  "stays_halted u u' \<longleftrightarrow> (rx_inv (rx_of u) \<and> gave_up (rx_of u) \<longrightarrow> rx_of u' = rx_of u)"

lemma fold_halted: "rx_inv r \<Longrightarrow> gave_up r \<Longrightarrow> fold reader_step as r = r"
proof (induction as)
  case (Cons a as)
  then have "reader_step a r = r" by (simp add: rx_inv_def reader_step.simps)
  with Cons show ?case by simp
qed simp

interpretation halted: usb_relation P stays_halted for P :: "'p badge_os"
  by unfold_locales
    (auto simp: stays_halted_def reader_runs_def usb_now_def usb_sleep_def usb_yield_def fold_halted split: prod.splits)

lemma halted_arm:
  assumes "rx_inv (rx_of u)" and "gave_up (rx_of u)"
  shows "fst (usb_arm P u) = Inl ()"
proof (cases "arm_wait P u")
  case (Some x)
  then obtain a turns v where x: "x = (a, turns, v)" by (cases x)
  obtain t0 w where n: "usb_now P u = (t0, w)" by (cases "usb_now P u")
  have c: "stays_halted w v \<and> (\<forall>m. a = Inr m \<longrightarrow> parked (rx_of v))"
    using halted.confirm_rel [of P t0 PARK_WAIT_MS 0 "(0, w)" a "(turns, v)"] Some x n
    by (simp add: arm_wait_def confirm_park_def)
  have "rx_of w = rx_of u" using halted.now_rel [OF n] assms by (simp add: stays_halted_def)
  then have "rx_of v = rx_of u" using c assms by (simp add: stays_halted_def)
  then have "\<not> parked (rx_of v)" using assms by (simp add: rx_inv_def)
  with c have "\<not> (\<exists>m. a = Inr m)" by blast
  with Some x show ?thesis by (cases a) (auto simp: usb_arm_def)
qed (simp add: usb_arm_def)

lemma halted_fault:
  assumes "rx_inv (rx_of u)" and "gave_up (rx_of u)"
  shows "fst (usb_fault P u) = Some (stopped_text RX_ERR_BUDGET (last_err (rx_of u)))"
proof -
  have r: "rx_of (reader_runs P v) = rx_of v" if "rx_of v = rx_of u" for v
    using halted.reader [of v P] assms that by (simp add: stays_halted_def)
  have "errs (rx_of u) = RX_ERR_BUDGET" using assms by (simp add: rx_inv_def)
  then show ?thesis using assms r by (simp add: usb_fault_def look_def Let_def)
qed

lemma answers_halted: "rx_inv r \<Longrightarrow> gave_up r \<Longrightarrow> answers_taken as r = []"
proof (induction as)
  case (Cons a as)
  then have "reader_step a r = r" "reader r = Halted" by (simp_all add: rx_inv_def reader_step.simps)
  with Cons show ?case by simp
qed simp

lemma session_log:
  assumes "usb_session (recording P) cs (usb_new (recording P) (p, [])) = (got, u)"
  shows "sans_queue (rx_of u) = sans_queue (fold reader_step (snd (os u)) rx_new)"
  using session_run [OF assms] by blast

lemma halted_session:
  assumes "usb_session (recording P) cs u = (got, u')" and "rx_inv (rx_of u)" and "gave_up (rx_of u)"
    and "sans_queue (rx_of u) = sans_queue (fold reader_step (snd (os u)) r)"
  shows "gave_up (rx_of u') \<and> answers_taken (snd (os u')) r = answers_taken (snd (os u)) r"
proof -
  obtain as where as: "snd (os u') = snd (os u) @ as" "sans_queue (rx_of u') = sans_queue (fold reader_step as (rx_of u))"
    using session_moves [OF assms(1)] unfolding usb_moves_def by blast
  have "gave_up (sans_queue q) = gave_up q" for q by (simp add: sans_queue_def)
  then have "gave_up (rx_of u')" using as(2) fold_halted [OF assms(2,3), of as] assms(3) by metis
  moreover have "answers_taken as (fold reader_step (snd (os u)) r) = []"
    using answers_taken_sans [OF assms(4), of as] answers_halted [OF assms(2,3)] by simp
  ultimately show ?thesis using as(1) by (simp add: answers_taken_append)
qed

lemma charged_bound:
  "rx_inv r \<Longrightarrow> errs r + uncharged (reader r) \<le> 24 \<and> (gave_up r \<longrightarrow> errs r + uncharged (reader r) = 24)"
  by (cases "reader r" rule: uncharged.cases) (auto simp: rx_inv_def)

text \<open>Property C25 (usb_bytes_arrive_in_order): whatever the calls of the transport, and however the reader
  and the driver run between any two of its accesses to what they share, the bytes the caller has
  received are the first of those in the answers the driver has given to the reader's waits, each
  once, unchanged and in order; the rest are queued or in the reader's hands, the count of bytes is
  exact in its 32 bits, and the fingerprint shows the start of the stream.\<close>

theorem usb_bytes_arrive_in_order:
  "case usb_session (recording P) cs (usb_new (recording P) (p, [])) of (got, u) \<Rightarrow>
     delivered_by (answers_taken (snd (os u)) rx_new) = got @ concat (rx_queue (rx_of u)) @ in_hand (reader (rx_of u)) \<and>
     rx_bytes (rx_of u) + of_nat (length (uncounted (reader (rx_of u)))) =
       of_nat (length (delivered_by (answers_taken (snd (os u)) rx_new))) \<and>
     fingerprint (rx_of u) =
       take (length (fingerprint (rx_of u))) (delivered_by (answers_taken (snd (os u)) rx_new))"
proof (cases "usb_session (recording P) cs (usb_new (recording P) (p, []))")
  case (Pair got u)
  obtain es where es: "rx_run rx_new es (rx_of u)" "bytes_taken es = got" "answers_of es = answers_taken (snd (os u)) rx_new"
    using session_run [OF Pair] by blast
  with rx_account_run [OF es(1)] Pair show ?thesis by (auto simp: rx_account_def rx_printed_def answers_account(1))
qed

text \<open>Property C26 (stopped_reader_is_noticed): over the whole life of the transport the reader takes at most
  24 failed answers from the driver, each of which costs a page, and has taken exactly that many
  when it has given up. Then it stays so and takes no answer any more; every attempt to arm fails,
  so that nothing more is sent, and every fault reported says that the reader has stopped.\<close>

theorem stopped_reader_is_noticed:
  assumes "usb_session (recording P) cs (usb_new (recording P) (p, [])) = (got, u)"
  shows "length (filter isl (answers_taken (snd (os u)) rx_new)) \<le> 24 \<and>
    (gave_up (rx_of u) \<longrightarrow>
       length (filter isl (answers_taken (snd (os u)) rx_new)) = 24 \<and>
       fst (usb_arm (recording P) u) = Inl () \<and>
       fst (usb_fault (recording P) u) = Some (stopped_text 24 (last_err (rx_of u))) \<and>
       (\<forall>cs' got' u'. usb_session (recording P) cs' u = (got', u') \<longrightarrow>
          gave_up (rx_of u') \<and> answers_taken (snd (os u')) rx_new = answers_taken (snd (os u)) rx_new))"
proof -
  obtain es where es: "rx_run rx_new es (rx_of u)" "answers_of es = answers_taken (snd (os u)) rx_new"
    using session_run [OF assms] by blast
  have inv: "rx_inv (rx_of u)" using rx_inv_run [OF es(1)] rx_inv_new by blast
  have count: "length (filter isl (answers_taken (snd (os u)) rx_new)) = errs (rx_of u) + uncharged (reader (rx_of u))"
    using rx_account_run [OF es(1)] es(2) by (simp add: rx_account_def answers_account(2))
  have "gave_up (rx_of u') \<and> answers_taken (snd (os u')) rx_new = answers_taken (snd (os u)) rx_new"
    if "gave_up (rx_of u)" "usb_session (recording P) cs' u = (got', u')" for cs' got' u'
    using halted_session [OF that(2) inv that(1) session_log [OF assms]] .
  then show ?thesis using count charged_bound [OF inv] halted_arm [OF inv] halted_fault [OF inv] by simp
qed

text \<open>A platform whose driver fails every request, as often as the reader asks.\<close>

definition all_fail :: "(nat + u8 list) option list" where
  "all_fail = concat (replicate 24 [None, Some (Inl 15), None, None, None, None])"

definition failing_os :: "nat badge_os" where
  "failing_os =
     \<lparr>others = \<lambda>n. (all_fail, n), elapsed_ms = \<lambda>n. (of_nat n, n + 2000), sleep_ms = \<lambda>k n. n + unat k,
      yield_now = \<lambda>n. n, serial_send = \<lambda>bs n. (Inr (length bs), n), serial_flush = \<lambda>n. n,
      adjust_limit = \<lambda>a b n. (Some 524288, n), address_report = \<lambda>n. []\<rparr>"

lemma failing_reader: "gave_up (fold reader_step all_fail rx_new)" "\<not> parked (fold reader_step all_fail rx_new)"
  by (simp_all add: all_fail_def numeral_eq_Suc reader_step.simps rx_new_def)

lemma failing_new: "gave_up (rx_of (usb_new (recording failing_os) (0, [])))"
proof -
  have "confirm_loop (arm_parked (recording failing_os)) (arm_clock (recording failing_os) 0)
      (arm_settle (recording failing_os)) PARK_WAIT_MS 0 (0, (usb_start (0, []))\<lparr>os := (2000, [])\<rparr>) =
    Some (Inl 0, 0, (usb_start (0, []))\<lparr>os := (4000, all_fail), rx_of := fold reader_step all_fail rx_new\<rparr>)"
    by (subst confirm_loop.simps)
      (simp add: arm_parked_def look_def reader_runs_def recording_def failing_os_def arm_clock_def usb_now_def usb_start_def
        failing_reader saturating_sub_def)
  then show ?thesis using failing_reader
    by (simp add: usb_new_def usb_arm_def arm_wait_def confirm_park_def raise_heap_ceiling_def usb_now_def failing_os_def
        recording_def usb_start_def)
qed

lemma stopped_reader_is_noticed_witness:
  "\<exists>u. usb_session (recording failing_os) [] (usb_new (recording failing_os) (0, [])) = ([], u) \<and> gave_up (rx_of u) \<and>
    fst (usb_arm (recording failing_os) u) = Inl () \<and> length (filter isl (answers_taken (snd (os u)) rx_new)) = 24"
  using stopped_reader_is_noticed [of failing_os "[]" 0 "[]" "usb_new (recording failing_os) (0, [])"] failing_new by simp

section \<open>Waiting\<close>

text \<open>
  The platform: its clock never runs backwards, a sleep takes time, and within one millisecond the
  driver answers the reader only so many times.
\<close>

locale badge_platform =
  fixes P :: "'p badge_os" and clk :: "'p \<Rightarrow> nat" and arrivals :: "'p \<Rightarrow> nat"
  assumes clock_reads: "elapsed_ms P p = (n, p') \<Longrightarrow> n = clock_value (clk p) \<and> later clk arrivals p p'"
    and others_answer: "others P p = (as, p') \<Longrightarrow>
      clk p < clk p' \<or> clk p' = clk p \<and> arrivals p' + length (filter (\<lambda>a. a \<noteq> None) as) \<le> arrivals p"
    and sleep_passes: "0 < k \<Longrightarrow> clk p < clk (sleep_ms P k p)"
    and yield_keeps: "later clk arrivals p (yield_now P p)"
    and send_keeps: "later clk arrivals p (snd (serial_send P bs p))"
    and flush_keeps: "later clk arrivals p (serial_flush P p)"

text \<open>The deliveries the main thread may still get without waiting: queued, carried, or to be answered.\<close>

fun carried :: "reader_pc \<Rightarrow> nat" where
  "carried (Unparking (Inr d)) = 1"
| "carried (Counting d) = 1"
| "carried (Checking d) = 1"
| "carried (Printing d) = 1"
| "carried (Queueing d) = 1"
| "carried _ = 0"

definition rx_load :: "rx \<Rightarrow> nat" where
  "rx_load r = length (rx_queue r) + carried (reader r)"

lemma carried_le: "carried w \<le> 1"
  by (cases w rule: carried.cases) simp_all

lemma reader_step_load: "rx_load (reader_step a r) \<le> rx_load r + (if a = None then 0 else 1)"
  using carried_le by (cases "reader r") (auto simp: rx_load_def reader_step.simps split: option.splits sum.splits)

lemma reader_steps_load: "rx_load (fold reader_step as r) \<le> rx_load r + length (filter (\<lambda>a. a \<noteq> None) as)"
proof (induction as arbitrary: r)
  case (Cons a as)
  from Cons [of "reader_step a r"] reader_step_load [of a r] show ?case by (cases a) simp_all
qed simp

context badge_platform
begin

abbreviation usb_clk :: "'p usb \<Rightarrow> nat" where "usb_clk u \<equiv> clk (os u)"

definition usb_pending :: "'p usb \<Rightarrow> nat" where
  "usb_pending u = arrivals (os u) + rx_load (rx_of u)"

abbreviation usb_later :: "'p usb \<Rightarrow> 'p usb \<Rightarrow> bool" where "usb_later \<equiv> later usb_clk usb_pending"

lemma runs_later: "usb_later u (reader_runs P u)"
proof -
  obtain as p where o: "others P (os u) = (as, p)" by (cases "others P (os u)")
  from others_answer [OF o] reader_steps_load [of as "rx_of u"] show ?thesis
    by (auto simp: later_def reader_runs_def o usb_pending_def)
qed

lemma os_later: "later clk arrivals (os u) p \<Longrightarrow> usb_later u (u\<lparr>os := p\<rparr>)"
  by (auto simp: later_def usb_pending_def)

end

sublocale badge_platform \<subseteq> timed: usb_relation P usb_later
proof (unfold_locales, goal_cases)
  case (3 u)
  show ?case by (rule runs_later)
next
  case (4 u)
  then show ?case using clock_reads [of "os u"] os_later by (auto simp: usb_now_def split: prod.splits)
next
  case (5 n u)
  then show ?case using sleep_passes by (simp add: later_def usb_sleep_def)
next
  case (2 u u' u'')
  then show ?case by (rule later_trans)
qed (simp_all add: usb_yield_def os_later yield_keeps send_keeps flush_keeps, simp add: later_def usb_pending_def)

context badge_platform
begin

lemma drain_strict:
  assumes "drain P u = (got, u')" and "got \<noteq> []"
  shows "usb_clk u < usb_clk u' \<or> usb_clk u' = usb_clk u \<and> usb_pending u' < usb_pending u"
proof -
  have "rx_queue (rx_of (reader_runs P u)) \<noteq> []" using assms by (auto simp: drain_def Let_def)
  then have "usb_clk u' = usb_clk (reader_runs P u) \<and> usb_pending u' < usb_pending (reader_runs P u)"
    using assms(1) by (auto simp: drain_def Let_def usb_pending_def rx_load_def)
  with runs_later [of u] show ?thesis by (auto simp: later_def)
qed

lemma drain_later: "drain P u = (got, u') \<Longrightarrow> usb_later u u'"
  using runs_later [of u] by (auto simp: drain_def Let_def later_def usb_pending_def rx_load_def)

lemma spin_later:
  "usb_spin P u = (g, u') \<Longrightarrow>
    usb_later u u' \<and> (g \<noteq> None \<longrightarrow> usb_clk u < usb_clk u' \<or> usb_clk u' = usb_clk u \<and> usb_pending u' < usb_pending u)"
proof (induction "recv_spins_left u" arbitrary: u g u')
  case 0
  then show ?case by (simp add: usb_spin.simps [of P u])
next
  case (Suc n)
  obtain got u1 where d: "drain P u = (got, u1)" by (cases "drain P u")
  have left: "recv_spins_left u1 = Suc n" using d Suc(2) by (auto simp: drain_def reader_runs_def Let_def split: prod.splits)
  show ?case
  proof (cases "got = []")
    case True
    let ?u = "usb_yield P (u1\<lparr>recv_spins_left := n\<rparr>)"
    have "usb_later u1 (u1\<lparr>recv_spins_left := n\<rparr>)" by (rule timed.same) simp_all
    then have 1: "usb_later u ?u" by (rule later_trans [OF drain_later [OF d] later_trans [OF _ timed.yields]])
    have r: "usb_spin P ?u = (g, u')" using Suc(3) Suc(2) [symmetric] True d left by (simp add: usb_spin.simps [of P u])
    have n: "n = recv_spins_left ?u" by (simp add: usb_yield_def)
    from Suc(1) [OF n r] 1 show ?thesis by (auto simp: later_def)
  next
    case False
    with Suc(2,3) d have "g = Some got" "u' = u1" by (auto simp: usb_spin.simps [of P u])
    with drain_later [OF d] drain_strict [OF d False] show ?thesis by simp
  qed
qed

lemma recv_strict:
  assumes "usb_recv P u = (Inr b, u')"
  shows "usb_clk u < usb_clk u' \<or> usb_clk u' = usb_clk u \<and> usb_pending u' < usb_pending u"
proof -
  obtain g u1 where s: "usb_spin P u = (g, u1)" by (cases "usb_spin P u")
  show ?thesis
  proof (cases g)
    case (Some got)
    with assms s spin_later [OF s] show ?thesis by (simp add: usb_recv_def)
  next
    case None
    have "usb_clk u1 < usb_clk (usb_sleep P POLL_MS u1)" using sleep_passes by (simp add: usb_sleep_def)
    moreover have "usb_later (usb_sleep P POLL_MS u1) u'"
      using assms s None by (auto simp: usb_recv_def intro: drain_later split: prod.splits)
    ultimately show ?thesis using spin_later [OF s] by (auto simp: later_def)
  qed
qed

lemma usb_clock_law: "clock_law (usb_transport P) usb_clk usb_pending"
proof -
  have "fst (usb_now P u) = clock_value (usb_clk u)" for u
    using clock_reads [of "os u"] by (auto simp: usb_now_def split: prod.splits)
  moreover have "usb_later u (snd (usb_arm P u))" for u by (rule timed.arm_rel [OF prod.collapse [symmetric]])
  moreover have "usb_later u (snd (usb_send P bs u))" for bs u by (rule timed.send_rel [OF prod.collapse [symmetric]])
  moreover note timed.clock recv_strict
  ultimately show ?thesis by (simp add: clock_law_def usb_transport_def Let_def later_def)
qed

section \<open>Arming ends\<close>

lemma settle_time:
  "usb_clk (snd s) < usb_clk (snd (arm_settle P s)) \<or>
   usb_clk (snd (arm_settle P s)) = usb_clk (snd s) \<and> fst s < SPIN_TURNS \<and> fst (arm_settle P s) = fst s + 1"
  using sleep_passes [of POLL_MS "os (snd s)"] yield_keeps [of "os (snd s)"]
  by (auto simp: arm_settle_def usb_sleep_def usb_yield_def later_def split: prod.splits)

lemma fst_settle: "fst (arm_settle P s) = fst s + 1"
  by (simp add: arm_settle_def split: prod.splits)

lemma parked_time: "arm_parked P s = (b, s') \<Longrightarrow> fst s' = fst s \<and> usb_clk (snd s) \<le> usb_clk (snd s')"
  using timed.parked_rel [of s b s'] later_clk by (fastforce simp: arm_parked_def split: prod.splits)

lemma arm_clock_time:
  "arm_clock P t0 s = (n, s') \<Longrightarrow>
    fst s' = fst s \<and> usb_clk (snd s) \<le> usb_clk (snd s') \<and> n = saturating_sub (clock_value (usb_clk (snd s))) t0"
  using timed.arm_clock_rel [of t0 s n s'] later_clk clock_reads [of "os (snd s)"]
  by (fastforce simp: arm_clock_def usb_now_def split: prod.splits)

lemma confirm_returns:
  assumes t0: "t0 + 1001 < 2 ^ 64 - 1"
  shows "t0 \<le> usb_clk (snd s) \<longrightarrow>
    (\<exists>x. confirm_loop (arm_parked P) (arm_clock P (clock_value t0)) (arm_settle P) PARK_WAIT_MS n s = Some x)"
proof (induction s arbitrary: n rule: measure_induct_rule [where f = "\<lambda>s. (t0 + 1001 - usb_clk (snd s)) + (SPIN_TURNS - fst s)"])
  case (less s)
  let ?loop = "confirm_loop (arm_parked P) (arm_clock P (clock_value t0)) (arm_settle P) PARK_WAIT_MS"
  show ?case
  proof
    assume began: "t0 \<le> usb_clk (snd s)"
    obtain p s1 where p: "arm_parked P s = (p, s1)" by (cases "arm_parked P s")
    define mid where "mid = (if p then case arm_parked P (arm_settle P s1) of (q, s2) \<Rightarrow> (q, n + 1, s2) else (False, n, s1))"
    obtain settled n' s2 where m: "mid = (settled, n', s2)" by (cases mid)
    have 2: "fst s \<le> fst s2" "usb_clk (snd s) \<le> usb_clk (snd s2)"
      using m parked_time [OF p] parked_time [of "arm_settle P s1" settled s2] settle_time [of s1] fst_settle [of s1]
      by (auto simp: mid_def split: if_splits prod.splits)
    obtain e s3 where c: "arm_clock P (clock_value t0) s2 = (e, s3)" by (cases "arm_clock P (clock_value t0) s2")
    note 3 = arm_clock_time [OF c]
    have loop: "?loop n s = (if settled then Some (Inr n, s2)
      else if PARK_WAIT_MS < e then Some (Inl n', s3) else ?loop n' (arm_settle P s3))"
      by (subst confirm_loop.simps) (simp only: p prod.case mid_def [symmetric] m c)
    show "\<exists>x. ?loop n s = Some x"
    proof (cases "settled \<or> PARK_WAIT_MS < e")
      case False
      have u: "unat (clock_value t0) = t0" using t0 by (simp add: unat_clock_value)
      then have near: "usb_clk (snd s2) \<le> t0 + 1000"
        using elapsed_bound [of PARK_WAIT_MS "usb_clk (snd s2)" "clock_value t0"] False 3 began 2 t0 by simp
      have "(t0 + 1001 - usb_clk (snd (arm_settle P s3))) + (SPIN_TURNS - fst (arm_settle P s3)) <
          (t0 + 1001 - usb_clk (snd s)) + (SPIN_TURNS - fst s)"
        using settle_time [of s3] fst_settle [of s3] near 2 3 by auto
      moreover have "t0 \<le> usb_clk (snd (arm_settle P s3))" using settle_time [of s3] began 2 3 by auto
      ultimately show ?thesis using less [of "arm_settle P s3" n'] loop False by simp
    qed (use loop in auto)
  qed
qed

lemma arm_returns:
  assumes "usb_clk u + 1001 < 2 ^ 64 - 1"
  shows "\<exists>x. arm_wait P u = Some x"
proof -
  obtain n v where n: "usb_now P u = (n, v)" by (cases "usb_now P u")
  have "n = clock_value (usb_clk u)" using n clock_reads [of "os u"] by (auto simp: usb_now_def split: prod.splits)
  moreover have "usb_clk u \<le> usb_clk v" using timed.now_rel [OF n] by (rule later_clk)
  ultimately show ?thesis using confirm_returns [OF assms, of "(0, v)" 0] n by (simp add: arm_wait_def confirm_park_def)
qed

end

text \<open>Property C24 (badge_exchange_returns): over the badge's own transport, on a platform whose clock never
  runs backwards and moves during a sleep, and whose driver answers the reader only so many times in
  a millisecond, arming always returns, and so does every exchange, however the threads interleave
  and whatever the driver and the scheduler do.\<close>

theorem badge_exchange_returns:
  assumes "badge_platform P clk arrivals" and "in_time (clk (os (snd (usb_now P (transport_of l)))))"
  shows "(\<exists>r l'. exchange (usb_transport P) f want l = Some (r, l')) \<and>
    (\<forall>u. in_time (clk (os u)) \<longrightarrow> (\<exists>x. arm_wait P u = Some x))"
proof
  have "in_time (clk (os (transport_of (snd (on_transport (now_ms (usb_transport P)) l)))))"
    using assms(2) by (cases "usb_now P (transport_of l)") (simp add: on_transport_def usb_transport_def)
  then show "\<exists>r l'. exchange (usb_transport P) f want l = Some (r, l')"
    by (rule exchange_returns [OF badge_platform.usb_clock_law [OF assms(1)]])
  show "\<forall>u. in_time (clk (os u)) \<longrightarrow> (\<exists>x. arm_wait P u = Some x)"
    using badge_platform.arm_returns [OF assms(1)] by (simp add: in_time_def)
qed

section \<open>An instance\<close>

text \<open>A platform that works through a script of answers, one each time the reader is given a turn.\<close>

definition scripted_os :: "(nat \<times> (nat + u8 list) list) badge_os" where
  "scripted_os =
     \<lparr>others = \<lambda>(t, s). (case s of [] \<Rightarrow> ([None, None], (t, [])) | a # s \<Rightarrow> ([None, Some a, None, None, None, None, None], (t, s))),
      elapsed_ms = \<lambda>(t, s). (clock_value t, (t, s)), sleep_ms = \<lambda>k (t, s). (t + unat k, s), yield_now = \<lambda>p. p,
      serial_send = \<lambda>bs p. (Inr (length bs), p), serial_flush = \<lambda>p. p, adjust_limit = \<lambda>a b p. (Some 524288, p),
      address_report = \<lambda>p. []\<rparr>"

interpretation scripted: badge_platform scripted_os fst "\<lambda>p. length (snd p)"
  by unfold_locales (auto simp: scripted_os_def word_less_nat_alt split: list.splits)

lemma badge_exchange_returns_witness:
  "\<exists>r l'. exchange (usb_transport scripted_os) (ReadReq 7) TY_READ_RESP
    (link_new (usb_start (5, [Inr [SYNC_LO, 0xB0], Inl 15]))) = Some (r, l')"
  using badge_exchange_returns [OF scripted.badge_platform_axioms, of "link_new (usb_start (5, [Inr [SYNC_LO, 0xB0], Inl 15]))"
      "ReadReq 7" TY_READ_RESP]
  by (simp add: link_new_def usb_start_def usb_now_def in_time_def scripted_os_def)

end
