(* ===== verification/Gen.thy ===== *)
theory Gen
  imports Text Insn
begin

text \<open>
  The program generator of the differential tests (\<open>rv64-difftest/src/gen.rs\<close>). A generator threads
  the state of the random numbers; \<open>None\<close> is a loop that never ends, \<open>Inl Panic\<close> an assertion that
  fails. An \<open>i32\<close> is a 32-bit word read as a signed number. Byte offsets within the image, which the
  code keeps in a \<open>u64\<close>, are natural numbers: none reaches the size of the image.
\<close>

section \<open>Encoders\<close>

abbreviation ECALL :: u32 where "ECALL \<equiv> 0x00000073"

definition gen_r_type :: "u32 \<Rightarrow> u32 \<Rightarrow> u32 \<Rightarrow> nat \<Rightarrow> nat \<Rightarrow> nat \<Rightarrow> u32" where
  "gen_r_type op f3 f7 d a b =
     op OR push_bit 7 (of_nat d) OR push_bit 12 f3 OR push_bit 15 (of_nat a) OR push_bit 20 (of_nat b) OR push_bit 25 f7"

definition gen_i_type :: "u32 \<Rightarrow> u32 \<Rightarrow> nat \<Rightarrow> nat \<Rightarrow> u32 \<Rightarrow> u32" where
  "gen_i_type op f3 d a imm =
     op OR push_bit 7 (of_nat d) OR push_bit 12 f3 OR push_bit 15 (of_nat a) OR push_bit 20 (imm AND 0xFFF)"

definition gen_s_type :: "u32 \<Rightarrow> u32 \<Rightarrow> nat \<Rightarrow> nat \<Rightarrow> u32 \<Rightarrow> u32" where
  "gen_s_type op f3 a b imm =
     (let imm = imm AND 0xFFF in
      op OR push_bit 7 (imm AND 0x1F) OR push_bit 12 f3 OR push_bit 15 (of_nat a) OR push_bit 20 (of_nat b)
        OR push_bit 25 (drop_bit 5 imm))"

definition gen_b_type :: "u32 \<Rightarrow> nat \<Rightarrow> nat \<Rightarrow> u32 \<Rightarrow> u32" where
  "gen_b_type f3 a b i =
     0x63 OR push_bit 7 (drop_bit 11 i AND 1) OR push_bit 8 (drop_bit 1 i AND 0xF) OR push_bit 12 f3
       OR push_bit 15 (of_nat a) OR push_bit 20 (of_nat b) OR push_bit 25 (drop_bit 5 i AND 0x3F)
       OR push_bit 31 (drop_bit 12 i AND 1)"

definition gen_u_type :: "u32 \<Rightarrow> nat \<Rightarrow> u32 \<Rightarrow> u32" where
  "gen_u_type op d imm = op OR push_bit 7 (of_nat d) OR push_bit 12 (imm AND 0xFFFFF)"

definition gen_j_type :: "nat \<Rightarrow> u32 \<Rightarrow> u32" where
  "gen_j_type d i =
     0x6F OR push_bit 7 (of_nat d) OR push_bit 12 (drop_bit 12 i AND 0xFF) OR push_bit 20 (drop_bit 11 i AND 1)
       OR push_bit 21 (drop_bit 1 i AND 0x3FF) OR push_bit 31 (drop_bit 20 i AND 1)"

section \<open>Random numbers\<close>

type_synonym 'a gen = "u64 \<Rightarrow> ((unit stop + 'a) \<times> u64) option"

definition gen_return :: "'a \<Rightarrow> 'a gen" where
  "gen_return a s = Some (Inr a, s)"

definition gen_bind :: "'a gen \<Rightarrow> ('a \<Rightarrow> 'b gen) \<Rightarrow> 'b gen" where
  "gen_bind m f s =
     (case m s of None \<Rightarrow> None | Some (Inl e, s') \<Rightarrow> Some (Inl e, s') | Some (Inr a, s') \<Rightarrow> f a s')"

definition gen_lift :: "unit stop + 'a \<Rightarrow> 'a gen" where
  "gen_lift r s = Some (r, s)"

text \<open>\<open>assert!(b)\<close>\<close>

definition gen_assert :: "bool \<Rightarrow> unit gen" where
  "gen_assert b = gen_lift (if b then Inr () else Inl Panic)"

primrec gen_many :: "nat \<Rightarrow> 'a gen \<Rightarrow> 'a list gen" where
  "gen_many 0 m = gen_return []"
| "gen_many (Suc n) m = gen_bind m (\<lambda>a. gen_bind (gen_many n m) (\<lambda>as. gen_return (a # as)))"

definition rng_new :: "u64 \<Rightarrow> u64" where
  "rng_new seed = (seed * 0x9E3779B97F4A7C15) XOR 0xD1B54A32D192ED03"

text \<open>One round of xorshift.\<close>

definition xorshift :: "u64 \<Rightarrow> u64" where
  "xorshift x =
     (let x = x XOR push_bit 13 x; x = x XOR drop_bit 7 x; x = x XOR push_bit 17 x in x)"

definition next_u64 :: "u64 gen" where
  "next_u64 s = (let x = xorshift s in Some (Inr x, x))"

definition below :: "nat \<Rightarrow> nat gen" where
  "below n = gen_bind next_u64 (\<lambda>x. if n = 0 then gen_lift (Inl Panic) else gen_return (unat x mod n))"

definition pick :: "'a list \<Rightarrow> 'a gen" where
  "pick xs = gen_bind (below (length xs)) (\<lambda>i. gen_return (xs ! i))"

definition any_reg :: "nat gen" where
  "any_reg = below 32"

definition nzreg :: "nat gen" where
  "nzreg = gen_bind (below 31) (\<lambda>r. gen_return (1 + r))"

definition c_reg :: "nat gen" where
  "c_reg = gen_bind (below 8) (\<lambda>r. gen_return (8 + r))"

definition coin :: "bool gen" where
  "coin = gen_bind (below 2) (\<lambda>b. gen_return (b = 1))"

text \<open>\<open>while bad(v) { v = draw() }\<close>\<close>

partial_function (option) redraw :: "('a \<Rightarrow> bool) \<Rightarrow> 'a gen \<Rightarrow> 'a \<Rightarrow> u64 \<Rightarrow> ((unit stop + 'a) \<times> u64) option" where
  "redraw bad draw v s =
     (if bad v
      then (case draw s of
              None \<Rightarrow> None
            | Some rs \<Rightarrow> (case fst rs of Inl e \<Rightarrow> Some (Inl e, snd rs) | Inr v' \<Rightarrow> redraw bad draw v' (snd rs)))
      else Some (Inr v, s))"

declare redraw.simps [code]

definition draw_until :: "('a \<Rightarrow> bool) \<Rightarrow> 'a gen \<Rightarrow> 'a gen" where
  "draw_until bad draw = gen_bind draw (redraw bad draw)"

section \<open>Instructions\<close>

record ins =
  isize :: nat
  iword :: u32
  itext :: string

definition ins_w :: "u32 \<Rightarrow> string \<Rightarrow> ins" where
  "ins_w word t = \<lparr>isize = 4, iword = word, itext = t\<rparr>"

definition ins_c :: "u16 \<Rightarrow> string \<Rightarrow> ins" where
  "ins_c half t = \<lparr>isize = 2, iword = ucast half, itext = t\<rparr>"

text \<open>Registers and signed numbers in the texts.\<close>

definition xr :: "nat \<Rightarrow> string" where
  "xr r = ''x'' @ decimal r"

definition i32_text :: "u32 \<Rightarrow> string" where
  "i32_text i = (if sint i < 0 then ''-'' @ decimal (nat (- sint i)) else decimal (nat (sint i)))"

definition three :: "string \<Rightarrow> string \<Rightarrow> string \<Rightarrow> string \<Rightarrow> string" where
  "three n a b c = n @ '' '' @ a @ '', '' @ b @ '', '' @ c"

datatype chunk =
    Plain "ins list"
  | Branch u32 nat nat nat
  | Jal nat nat
  | Jalr nat nat nat
  | CBranch bool nat nat
  | CJ nat
  | CJr nat bool nat

fun chunk_len :: "chunk \<Rightarrow> nat" where
  "chunk_len (Plain v) = sum_list (map isize v)"
| "chunk_len (Branch _ _ _ _) = 4"
| "chunk_len (Jal _ _) = 4"
| "chunk_len (Jalr _ _ _) = 12"
| "chunk_len (CBranch _ _ _) = 2"
| "chunk_len (CJ _) = 2"
| "chunk_len (CJr _ _ _) = 10"

abbreviation MAX_CHUNK :: nat where "MAX_CHUNK \<equiv> 24"
abbreviation MAX_SKIP :: nat where "MAX_SKIP \<equiv> 6"

definition INTERESTING :: "u64 list" where
  "INTERESTING =
     [0, 1, -1, push_bit 63 1, 0x7FFFFFFFFFFFFFFF, 0xFFFFFFFF, 0x80000000, 0xFFFFFFFF80000000, 63, 32, 0xFF,
      0xAAAAAAAA55555555]"

definition seed_table :: "u64 list gen" where
  "seed_table =
     gen_many 31 (gen_bind (below 3) (\<lambda>k. if k = 0 then pick INTERESTING else next_u64))"

section \<open>Memory operands\<close>

abbreviation WINDOW :: u32 where "WINDOW \<equiv> 0xFF"

text \<open>The mask of an aligned offset in the window: \<open>WINDOW & !(align - 1)\<close>.\<close>

definition window_mask :: "nat \<Rightarrow> u32" where
  "window_mask align = WINDOW AND NOT (of_nat align - 1)"

definition address_code :: "nat \<Rightarrow> nat \<Rightarrow> nat \<Rightarrow> nat \<Rightarrow> ins list" where
  "address_code align rt ru rs =
     (let mask = window_mask align in
      [ins_w (gen_u_type 0x17 rt 2) (''auipc '' @ xr rt @ '', 2''),
       ins_w (gen_i_type 0x13 7 rt rt (- 2048)) (three ''andi'' (xr rt) (xr rt) ''-2048''),
       ins_w (gen_i_type 0x13 7 ru rs mask) (three ''andi'' (xr ru) (xr rs) (hex_alt (unat mask))),
       ins_w (gen_r_type 0x33 0 0 rt rt ru) (three ''add'' (xr rt) (xr rt) (xr ru))])"

definition scratch_addr_in :: "nat \<Rightarrow> nat \<Rightarrow> ins list gen" where
  "scratch_addr_in align rt =
     gen_bind (gen_assert (rt \<noteq> 0)) (\<lambda>_.
     gen_bind (draw_until (\<lambda>ru. ru = rt) nzreg) (\<lambda>ru.
     gen_bind any_reg (\<lambda>rs. gen_return (address_code align rt ru rs))))"

text \<open>The base register, and the code that sets it.\<close>

definition scratch_addr :: "nat \<Rightarrow> (nat \<times> ins list) gen" where
  "scratch_addr align =
     gen_bind nzreg (\<lambda>rt. gen_bind (scratch_addr_in align rt) (\<lambda>v. gen_return (rt, v)))"

section \<open>Plain chunks\<close>

definition OPS :: "(u32 \<times> u32 \<times> string) list" where
  "OPS = [(0, 0x00, ''add''), (0, 0x20, ''sub''), (1, 0x00, ''sll''), (2, 0x00, ''slt''), (3, 0x00, ''sltu''),
     (4, 0x00, ''xor''), (5, 0x00, ''srl''), (5, 0x20, ''sra''), (6, 0x00, ''or''), (7, 0x00, ''and'')]"

definition OPS32 :: "(u32 \<times> u32 \<times> string) list" where
  "OPS32 = [(0, 0x00, ''addw''), (0, 0x20, ''subw''), (1, 0x00, ''sllw''), (5, 0x00, ''srlw''), (5, 0x20, ''sraw'')]"

definition OPS_IMM :: "(u32 \<times> string) list" where
  "OPS_IMM = [(0, ''addi''), (2, ''slti''), (3, ''sltiu''), (4, ''xori''), (6, ''ori''), (7, ''andi'')]"

definition three_regs :: "(nat \<times> nat \<times> nat) gen" where
  "three_regs = gen_bind any_reg (\<lambda>d. gen_bind any_reg (\<lambda>a. gen_bind any_reg (\<lambda>b. gen_return (d, a, b))))"

definition gen_op :: "u32 \<Rightarrow> (u32 \<times> u32 \<times> string) list \<Rightarrow> ins list gen" where
  "gen_op op ops =
     gen_bind (pick ops) (\<lambda>(f3, f7, n). gen_bind three_regs (\<lambda>(d, a, b).
     gen_return [ins_w (gen_r_type op f3 f7 d a b) (three n (xr d) (xr a) (xr b))]))"

text \<open>A shift by an immediate below \<open>bound\<close>; \<open>sfx\<close> is the suffix of the 32-bit forms.\<close>

definition gen_shift_imm :: "u32 \<Rightarrow> nat \<Rightarrow> string \<Rightarrow> nat \<Rightarrow> nat \<Rightarrow> ins list gen" where
  "gen_shift_imm op bound sfx d a =
     gen_bind (below bound) (\<lambda>shamt. gen_bind coin (\<lambda>arith. gen_bind (below 2) (\<lambda>k.
     let imm = (if arith then of_nat shamt OR 0x400 else of_nat shamt);
         n = (if arith then ''srai'' else ''srli'');
         (f3, n) = (if k = 0 \<and> \<not> arith then (1, ''slli'') else (5, n))
     in gen_return [ins_w (gen_i_type op f3 d a imm) (three (n @ sfx) (xr d) (xr a) (decimal shamt))])))"

text \<open>\<open>(rng.next_u64() as i32) >> 20\<close>\<close>

definition imm12 :: "u32 gen" where
  "imm12 = gen_bind next_u64 (\<lambda>x. gen_return (signed_drop_bit 20 (ucast x)))"

definition gen_op_imm :: "ins list gen" where
  "gen_op_imm =
     gen_bind any_reg (\<lambda>d. gen_bind any_reg (\<lambda>a. gen_bind (below 4) (\<lambda>k.
     if k = 0 then gen_shift_imm 0x13 64 [] d a
     else gen_bind (pick OPS_IMM) (\<lambda>(f3, n). gen_bind imm12 (\<lambda>imm.
       gen_return [ins_w (gen_i_type 0x13 f3 d a imm) (three n (xr d) (xr a) (i32_text imm))])))))"

definition gen_op_imm32 :: "ins list gen" where
  "gen_op_imm32 =
     gen_bind any_reg (\<lambda>d. gen_bind any_reg (\<lambda>a. gen_bind (below 2) (\<lambda>k.
     if k = 0 then gen_shift_imm 0x1B 32 ''w'' d a
     else gen_bind imm12 (\<lambda>imm.
       gen_return [ins_w (gen_i_type 0x1B 0 d a imm) (three ''addiw'' (xr d) (xr a) (i32_text imm))]))))"

definition gen_upper :: "ins list gen" where
  "gen_upper =
     gen_bind any_reg (\<lambda>d. gen_bind next_u64 (\<lambda>x. gen_bind (below 2) (\<lambda>k.
     let imm = ucast (x AND 0xFFFFF) :: u32 in
     if k = 0 then gen_return [ins_w (gen_u_type 0x37 d imm) (''lui '' @ xr d @ '', '' @ hex_alt (unat imm))]
     else
       let imm = imm AND 1 in
       gen_return [ins_w (gen_u_type 0x17 d imm) (''auipc '' @ xr d @ '', '' @ hex_alt (unat imm))])))"

definition M64 :: "(u32 \<times> string) list" where
  "M64 = [(0, ''mul''), (1, ''mulh''), (2, ''mulhsu''), (3, ''mulhu''), (4, ''div''), (5, ''divu''), (6, ''rem''), (7, ''remu'')]"

definition M32 :: "(u32 \<times> string) list" where
  "M32 = [(0, ''mulw''), (4, ''divw''), (5, ''divuw''), (6, ''remw''), (7, ''remuw'')]"

definition gen_mul :: "ins list gen" where
  "gen_mul =
     gen_bind three_regs (\<lambda>(d, a, b). gen_bind (below 3) (\<lambda>k.
     gen_bind (if k = 0 then gen_bind (pick M32) (\<lambda>(f3, n). gen_return (0x3B, f3, n))
               else gen_bind (pick M64) (\<lambda>(f3, n). gen_return (0x33, f3, n))) (\<lambda>(op, f3, n).
     gen_return [ins_w (gen_r_type op f3 0x01 d a b) (three n (xr d) (xr a) (xr b))])))"

definition LOADS :: "(u32 \<times> nat \<times> string) list" where
  "LOADS = [(0, 1, ''lb''), (1, 2, ''lh''), (2, 4, ''lw''), (3, 8, ''ld''), (4, 1, ''lbu''), (5, 2, ''lhu''), (6, 4, ''lwu'')]"

definition STORES :: "(u32 \<times> nat \<times> string) list" where
  "STORES = [(0, 1, ''sb''), (1, 2, ''sh''), (2, 4, ''sw''), (3, 8, ''sd'')]"

text \<open>\<open>x<r>, 0(x<base>)\<close>\<close>

definition mem_text :: "string \<Rightarrow> nat \<Rightarrow> nat \<Rightarrow> string" where
  "mem_text n r base = n @ '' '' @ xr r @ '', 0('' @ xr base @ '')''"

definition gen_mem :: "ins list gen" where
  "gen_mem =
     gen_bind (below 2) (\<lambda>k.
     if k = 0 then
       gen_bind (pick LOADS) (\<lambda>(f3, w, n). gen_bind (scratch_addr w) (\<lambda>(rt, v). gen_bind any_reg (\<lambda>d.
       gen_return (v @ [ins_w (gen_i_type 0x03 f3 d rt 0) (mem_text n d rt)]))))
     else
       gen_bind (pick STORES) (\<lambda>(f3, w, n). gen_bind (scratch_addr w) (\<lambda>(rt, v). gen_bind any_reg (\<lambda>rs.
       gen_return (v @ [ins_w (gen_s_type 0x23 f3 rt rs 0) (mem_text n rs rt)])))))"

definition AMOS :: "(u32 \<times> string) list" where
  "AMOS = [(0x00, ''amoadd''), (0x01, ''amoswap''), (0x04, ''amoxor''), (0x08, ''amoor''), (0x0C, ''amoand''),
     (0x10, ''amomin''), (0x14, ''amomax''), (0x18, ''amominu''), (0x1C, ''amomaxu'')]"

text \<open>A word or a doubleword: \<open>funct3\<close>, the width and the suffix.\<close>

definition amo_width :: "(u32 \<times> nat \<times> string) gen" where
  "amo_width = gen_bind (below 2) (\<lambda>k. gen_return (if k = 0 then (2, 4, ''w'') else (3, 8, ''d'')))"

definition gen_amo :: "ins list gen" where
  "gen_amo =
     gen_bind (pick AMOS) (\<lambda>(op, n). gen_bind amo_width (\<lambda>(f3, w, sfx). gen_bind (scratch_addr w) (\<lambda>(rt, v).
     gen_bind any_reg (\<lambda>d. gen_bind any_reg (\<lambda>rs.
     gen_return (v @ [ins_w (gen_r_type 0x2F f3 (push_bit 2 op) d rt rs)
       (three (n @ ''.'' @ sfx) (xr d) (xr rs) (''('' @ xr rt @ '')''))]))))))"

definition gen_lr_sc :: "ins list gen" where
  "gen_lr_sc =
     gen_bind amo_width (\<lambda>(f3, w, sfx). gen_bind (scratch_addr w) (\<lambda>(rt, v).
     gen_bind (draw_until (\<lambda>r. r = rt) any_reg) (\<lambda>rd1. gen_bind any_reg (\<lambda>rd2. gen_bind any_reg (\<lambda>rs.
     gen_return (v @
       [ins_w (gen_r_type 0x2F f3 (push_bit 2 0x02) rd1 rt 0) (''lr.'' @ sfx @ '' '' @ xr rd1 @ '', ('' @ xr rt @ '')''),
        ins_w (gen_r_type 0x2F f3 (push_bit 2 0x03) rd2 rt rs)
          (three (''sc.'' @ sfx) (xr rd2) (xr rs) (''('' @ xr rt @ '')''))]))))))"

section \<open>Compressed instructions\<close>

definition imm6 :: "u32 gen" where
  "imm6 = gen_bind (below 64) (\<lambda>n. gen_return (signed_drop_bit 26 (push_bit 26 (of_nat n))))"

definition nz_imm6 :: "u32 gen" where
  "nz_imm6 = draw_until (\<lambda>v. v = 0) imm6"

definition ci :: "u16 \<Rightarrow> u16 \<Rightarrow> nat \<Rightarrow> u32 \<Rightarrow> u16" where
  "ci f3 op d imm =
     (let i = imm AND 0x3F in
      push_bit 13 f3 OR push_bit 12 (ucast (drop_bit 5 i)) OR push_bit 7 (of_nat d) OR push_bit 2 (ucast (i AND 0x1F)) OR op)"

definition cb_imm :: "u16 \<Rightarrow> nat \<Rightarrow> u32 \<Rightarrow> u16" where
  "cb_imm f2 d imm =
     (let i = imm AND 0x3F in
      push_bit 13 4 OR push_bit 12 (ucast (drop_bit 5 i)) OR push_bit 10 f2 OR push_bit 7 (of_nat (d - 8))
        OR push_bit 2 (ucast (i AND 0x1F)) OR 1)"

definition ca :: "u16 \<Rightarrow> u16 \<Rightarrow> nat \<Rightarrow> nat \<Rightarrow> u16" where
  "ca w f2 d s2 =
     push_bit 13 4 OR push_bit 12 w OR push_bit 10 3 OR push_bit 7 (of_nat (d - 8)) OR push_bit 5 f2
       OR push_bit 2 (of_nat (s2 - 8)) OR 1"

text \<open>\<open>(v >> k) as u16 & m\<close>: the same bits whether the shift of the \<open>i32\<close> is signed or not, since the
  mask keeps fewer than the \<open>32 - k\<close> bits below the sign.\<close>

definition half_bits :: "nat \<Rightarrow> u16 \<Rightarrow> u32 \<Rightarrow> u16" where
  "half_bits k m v = ucast (drop_bit k v) AND m"

definition two_regs :: "string \<Rightarrow> nat \<Rightarrow> nat \<Rightarrow> string" where
  "two_regs n a b = n @ '' '' @ xr a @ '', '' @ xr b"

definition reg_imm :: "string \<Rightarrow> nat \<Rightarrow> u32 \<Rightarrow> string" where
  "reg_imm n a i = n @ '' '' @ xr a @ '', '' @ i32_text i"

definition c_mv_half :: "nat \<Rightarrow> nat \<Rightarrow> u16" where
  "c_mv_half d s2 = 0x8002 OR push_bit 7 (of_nat d) OR push_bit 2 (of_nat s2)"

definition c_add_half :: "nat \<Rightarrow> nat \<Rightarrow> u16" where
  "c_add_half d s2 = 0x9002 OR push_bit 7 (of_nat d) OR push_bit 2 (of_nat s2)"

definition c_addi4spn_half :: "nat \<Rightarrow> u32 \<Rightarrow> u16" where
  "c_addi4spn_half d imm =
     push_bit 11 (half_bits 4 0x3 imm) OR push_bit 7 (half_bits 6 0xF imm) OR push_bit 6 (half_bits 2 1 imm)
       OR push_bit 5 (half_bits 3 1 imm) OR push_bit 2 (of_nat (d - 8))"

definition c_addi16sp_half :: "u32 \<Rightarrow> u16" where
  "c_addi16sp_half imm =
     push_bit 13 3 OR push_bit 12 (half_bits 9 1 imm) OR push_bit 7 2 OR push_bit 6 (half_bits 4 1 imm)
       OR push_bit 5 (half_bits 6 1 imm) OR push_bit 3 (half_bits 7 0x3 imm) OR push_bit 2 (half_bits 5 1 imm) OR 1"

definition CA_OPS :: "(u16 \<times> string) list" where
  "CA_OPS = [(0, ''c.sub''), (1, ''c.xor''), (2, ''c.or''), (3, ''c.and'')]"

definition CA_OPS32 :: "(u16 \<times> string) list" where
  "CA_OPS32 = [(0, ''c.subw''), (1, ''c.addw'')]"

definition gen_ca :: "u16 \<Rightarrow> (u16 \<times> string) list \<Rightarrow> ins gen" where
  "gen_ca w ops =
     gen_bind c_reg (\<lambda>d. gen_bind c_reg (\<lambda>s2. gen_bind (pick ops) (\<lambda>(f2, n).
     gen_return (ins_c (ca w f2 d s2) (two_regs n d s2)))))"

definition gen_ci :: "u16 \<Rightarrow> string \<Rightarrow> nat gen \<Rightarrow> u32 gen \<Rightarrow> ins gen" where
  "gen_ci f3 n reg imm =
     gen_bind reg (\<lambda>d. gen_bind imm (\<lambda>i. gen_return (ins_c (ci f3 1 d i) (reg_imm n d i))))"

definition gen_compressed :: "ins gen" where
  "gen_compressed = gen_bind (below 16) (\<lambda>k.
     if k = 0 then gen_ci 0 ''c.addi'' nzreg nz_imm6
     else if k = 1 then gen_ci 1 ''c.addiw'' nzreg imm6
     else if k = 2 then gen_ci 2 ''c.li'' nzreg imm6
     else if k = 3 then gen_ci 3 ''c.lui'' (draw_until (\<lambda>r. r = 2) nzreg) nz_imm6
     else if k = 4 then
       gen_bind nzreg (\<lambda>d. gen_bind (below 63) (\<lambda>n. let sh = of_nat (1 + n) in
         gen_return (ins_c (ci 0 2 d sh) (reg_imm ''c.slli'' d sh))))
     else if k = 5 \<or> k = 6 then
       gen_bind c_reg (\<lambda>d. gen_bind (below 63) (\<lambda>n. gen_bind (below 2) (\<lambda>b.
         let sh = of_nat (1 + n); (f2, t) = (if b = 0 then (0, ''c.srli'') else (1, ''c.srai'')) in
         gen_return (ins_c (cb_imm f2 d sh) (reg_imm t d sh)))))
     else if k = 7 then
       gen_bind c_reg (\<lambda>d. gen_bind imm6 (\<lambda>i. gen_return (ins_c (cb_imm 2 d i) (reg_imm ''c.andi'' d i))))
     else if k = 8 \<or> k = 9 then gen_ca 0 CA_OPS
     else if k = 10 then gen_ca 1 CA_OPS32
     else if k = 11 \<or> k = 12 then
       gen_bind nzreg (\<lambda>d. gen_bind nzreg (\<lambda>s2. gen_return (ins_c (c_mv_half d s2) (two_regs ''c.mv'' d s2))))
     else if k = 13 then
       gen_bind c_reg (\<lambda>d. gen_bind (below 255) (\<lambda>n. let imm = of_nat (4 * (1 + n)) in
         gen_return (ins_c (c_addi4spn_half d imm) (three ''c.addi4spn'' (xr d) ''x2'' (i32_text imm)))))
     else if k = 14 then
       gen_bind (below 64) (\<lambda>n.
         let n = of_nat n - 32 :: u32; n = (if n = 0 then 1 else n); imm = n * 16 in
         gen_return (ins_c (c_addi16sp_half imm) (''c.addi16sp x2, '' @ i32_text imm)))
     else
       gen_bind nzreg (\<lambda>d. gen_bind nzreg (\<lambda>s2. gen_return (ins_c (c_add_half d s2) (two_regs ''c.add'' d s2)))))"

text \<open>The memory forms.\<close>

definition cl_imm :: "bool \<Rightarrow> u32 \<Rightarrow> u16" where
  "cl_imm wide off =
     (if wide then push_bit 10 (half_bits 3 0x7 off) OR push_bit 5 (half_bits 6 0x3 off)
      else push_bit 10 (half_bits 3 0x7 off) OR push_bit 6 (half_bits 2 1 off) OR push_bit 5 (half_bits 6 1 off))"

definition cl_half :: "bool \<Rightarrow> bool \<Rightarrow> nat \<Rightarrow> nat \<Rightarrow> u32 \<Rightarrow> u16" where
  "cl_half wide store rt r off =
     push_bit 13 (if store then if wide then 7 else 6 else if wide then 3 else 2)
       OR cl_imm wide off OR push_bit 7 (of_nat (rt - 8)) OR push_bit 2 (of_nat (r - 8))"

definition css_half :: "bool \<Rightarrow> nat \<Rightarrow> u32 \<Rightarrow> u16" where
  "css_half wide s2 off =
     (if wide
      then push_bit 13 7 OR push_bit 10 (half_bits 3 0x7 off) OR push_bit 7 (half_bits 6 0x7 off) OR push_bit 2 (of_nat s2) OR 2
      else push_bit 13 6 OR push_bit 9 (half_bits 2 0xF off) OR push_bit 7 (half_bits 6 0x3 off) OR push_bit 2 (of_nat s2) OR 2)"

definition clsp_half :: "bool \<Rightarrow> nat \<Rightarrow> u32 \<Rightarrow> u16" where
  "clsp_half wide d off =
     (if wide
      then push_bit 13 3 OR push_bit 12 (half_bits 5 1 off) OR push_bit 7 (of_nat d) OR push_bit 5 (half_bits 3 0x3 off)
        OR push_bit 2 (half_bits 6 0x7 off) OR 2
      else push_bit 13 2 OR push_bit 12 (half_bits 5 1 off) OR push_bit 7 (of_nat d) OR push_bit 4 (half_bits 2 0x7 off)
        OR push_bit 2 (half_bits 6 0x3 off) OR 2)"

definition c_mem_text :: "bool \<Rightarrow> bool \<Rightarrow> string \<Rightarrow> nat \<Rightarrow> nat \<Rightarrow> nat \<Rightarrow> string" where
  "c_mem_text store wide sfx r off base =
     ''c.'' @ (if store then ''s'' else ''l'') @ (if wide then ''d'' else ''w'') @ sfx @ '' '' @ xr r @ '', '' @
     decimal off @ ''('' @ xr base @ '')''"

definition gen_compressed_mem :: "ins list gen" where
  "gen_compressed_mem = gen_bind (below 2) (\<lambda>k.
     if k = 0 then
       gen_bind (below 2) (\<lambda>w. let wide = (w = 0); scale = (if wide then 8 else 4); maxoff = (if wide then 248 else 124) in
       gen_bind c_reg (\<lambda>rt. gen_bind (scratch_addr_in scale rt) (\<lambda>v. gen_bind (below (maxoff div scale + 1)) (\<lambda>q.
       let off = scale * q in
       gen_bind c_reg (\<lambda>r. gen_bind (below 2) (\<lambda>st. let store = (st = 0) in
       gen_return (v @ [ins_c (cl_half wide store rt r (of_nat off)) (c_mem_text store wide [] r off rt)])))))))
     else
       gen_bind (below 2) (\<lambda>w. let wide = (w = 0); scale = (if wide then 8 else 4); maxoff = (if wide then 504 else 252) in
       gen_bind (scratch_addr_in scale 2) (\<lambda>v. gen_bind (below (maxoff div scale + 1)) (\<lambda>q.
       let off = scale * q in
       gen_bind (below 2) (\<lambda>st. let store = (st = 0) in
       gen_bind (if store then any_reg else nzreg) (\<lambda>r.
       let half = (if store then css_half wide r (of_nat off) else clsp_half wide r (of_nat off));
           n = unat ((if store then drop_bit 2 half else drop_bit 7 half) AND 0x1F) in
       gen_return (v @ [ins_c half (c_mem_text store wide ''sp'' n off 2)])))))))"

section \<open>Chunks\<close>

datatype gen_kind =
    KOp | KOp32 | KOpImm | KOpImm32 | KUpper | KMul | KMem | KAmo | KLrSc
  | KBranch | KJal | KJalr | KCompressed | KCMem | KCBranch | KCJ | KCJr | KFence

definition WEIGHTS :: "(u32 \<times> gen_kind) list" where
  "WEIGHTS =
     [(12, KOp), (6, KOp32), (12, KOpImm), (6, KOpImm32), (3, KUpper), (10, KMul), (9, KMem), (5, KAmo), (2, KLrSc),
      (7, KBranch), (3, KJal), (2, KJalr), (12, KCompressed), (6, KCMem), (4, KCBranch), (2, KCJ), (2, KCJr), (1, KFence)]"

fun weighted :: "(u32 \<times> gen_kind) list \<Rightarrow> u32 \<Rightarrow> unit stop + gen_kind" where
  "weighted [] p = Inl Panic"
| "weighted ((w, k) # ws) p = (if p < w then Inr k else weighted ws (p - w))"

definition gen_skip :: "nat gen" where
  "gen_skip = gen_bind (below MAX_SKIP) (\<lambda>n. gen_return (1 + n))"

definition plain :: "ins list gen \<Rightarrow> chunk gen" where
  "plain m = gen_bind m (\<lambda>v. gen_return (Plain v))"

fun gen_kind_chunk :: "gen_kind \<Rightarrow> chunk gen" where
  "gen_kind_chunk KOp = plain (gen_op 0x33 OPS)"
| "gen_kind_chunk KOp32 = plain (gen_op 0x3B OPS32)"
| "gen_kind_chunk KOpImm = plain gen_op_imm"
| "gen_kind_chunk KOpImm32 = plain gen_op_imm32"
| "gen_kind_chunk KUpper = plain gen_upper"
| "gen_kind_chunk KMul = plain gen_mul"
| "gen_kind_chunk KMem = plain gen_mem"
| "gen_kind_chunk KAmo = plain gen_amo"
| "gen_kind_chunk KLrSc = plain gen_lr_sc"
| "gen_kind_chunk KBranch = gen_bind (pick [0, 1, 4, 5, 6, 7]) (\<lambda>f3.
     gen_bind any_reg (\<lambda>a. gen_bind any_reg (\<lambda>b. gen_bind gen_skip (\<lambda>n. gen_return (Branch f3 a b n)))))"
| "gen_kind_chunk KJal = gen_bind any_reg (\<lambda>d. gen_bind gen_skip (\<lambda>n. gen_return (Jal d n)))"
| "gen_kind_chunk KJalr = gen_bind nzreg (\<lambda>rt. gen_bind any_reg (\<lambda>d. gen_bind gen_skip (\<lambda>n. gen_return (Jalr rt d n))))"
| "gen_kind_chunk KCBranch = gen_bind coin (\<lambda>ne. gen_bind c_reg (\<lambda>a. gen_bind gen_skip (\<lambda>n. gen_return (CBranch ne a n))))"
| "gen_kind_chunk KCJ = gen_bind gen_skip (\<lambda>n. gen_return (CJ n))"
| "gen_kind_chunk KCJr = gen_bind nzreg (\<lambda>rt. gen_bind coin (\<lambda>l. gen_bind gen_skip (\<lambda>n. gen_return (CJr rt l n))))"
| "gen_kind_chunk KCompressed = plain (gen_bind gen_compressed (\<lambda>i. gen_return [i]))"
| "gen_kind_chunk KCMem = plain gen_compressed_mem"
| "gen_kind_chunk KFence = plain (gen_return [ins_w 0x0FF0000F ''fence''])"

definition gen_chunk :: "chunk gen" where
  "gen_chunk =
     gen_bind (below (unat (sum_list (map fst WEIGHTS)))) (\<lambda>p.
     gen_bind (gen_lift (weighted WEIGHTS (of_nat p))) gen_kind_chunk)"

end
