(* ===== verification/Gen_Program.thy ===== *)
theory Gen_Program
  imports Gen
begin

text \<open>
  Whole programs (\<open>gen.rs\<close>, from \<open>exit_stub\<close>): the prologue, the layout of the chunks, the resolution of
  control transfers against it, and the image.
\<close>

abbreviation BASE :: u64 where "BASE \<equiv> RAM_BASE"
abbreviation EXIT_OFF :: nat where "EXIT_OFF \<equiv> 0"
abbreviation ENTRY_OFF :: nat where "ENTRY_OFF \<equiv> 0x40"
abbreviation TOHOST_OFF :: nat where "TOHOST_OFF \<equiv> 0x1000"
abbreviation FROMHOST_OFF :: nat where "FROMHOST_OFF \<equiv> 0x1008"
abbreviation TABLE_OFF :: nat where "TABLE_OFF \<equiv> 0x1100"
abbreviation SCRATCH_OFF :: nat where "SCRATCH_OFF \<equiv> 0x2000"
abbreviation MEMSZ :: nat where "MEMSZ \<equiv> 0x3000"
abbreviation CODE_LIMIT :: nat where "CODE_LIMIT \<equiv> 0x1000"
abbreviation CHUNKS :: nat where "CHUNKS \<equiv> 48"

section \<open>Fixed code\<close>

definition exit_stub :: "ins list" where
  "exit_stub =
     [ins_w (gen_u_type 0x17 5 (of_nat (TOHOST_OFF div 4096))) ''auipc x5, 1  # &tohost'',
      ins_w (gen_i_type 0x13 0 6 0 1) ''addi x6, x0, 1'',
      ins_w (gen_s_type 0x23 3 5 6 0) ''sd x6, 0(x5)  # tohost = 1'',
      ins_w (gen_j_type 0 0) ''j .'']"

text \<open>The \<open>addi\<close> that brings the base of the table into reach of the loads.\<close>

definition prologue_head :: "ins list" where
  "prologue_head =
     [ins_w (gen_u_type 0x17 5 0) ''auipc x5, 0'',
      ins_w (gen_i_type 0x13 0 5 5 (- of_nat ENTRY_OFF)) (''addi x5, x5, -'' @ decimal ENTRY_OFF),
      ins_w (gen_i_type 0x73 1 0 5 0x305) ''csrw mtvec, x5'']"

definition prologue_delta :: int where
  "prologue_delta = int TABLE_OFF - (int (ENTRY_OFF + 4 * length prologue_head) + 0x1000)"

definition prologue_load :: "nat \<Rightarrow> ins" where
  "prologue_load n =
     (let off = 8 * (n - 1) in
      ins_w (gen_i_type 0x03 3 n 31 (of_nat off)) (''ld '' @ xr n @ '', '' @ decimal off @ ''(x31)''))"

definition prologue :: "unit stop + ins list" where
  "prologue =
     (if - 2048 \<le> prologue_delta \<and> prologue_delta \<le> 2047
      then Inr (prologue_head @
        [ins_w (gen_u_type 0x17 31 1) ''auipc x31, 1'',
         ins_w (gen_i_type 0x13 0 31 31 (word_of_int prologue_delta))
           (three ''addi'' ''x31'' ''x31'' (i32_text (word_of_int prologue_delta)))] @
        map prologue_load [1..<32])
      else Inl Panic)"

definition code_size :: "ins list \<Rightarrow> nat" where
  "code_size v = sum_list (map isize v)"

section \<open>The body\<close>

text \<open>Chunks until there are enough or the next would not fit.\<close>

primrec body_chunks :: "nat \<Rightarrow> nat \<Rightarrow> chunk list gen" where
  "body_chunks 0 off = gen_return []"
| "body_chunks (Suc n) off =
     gen_bind gen_chunk (\<lambda>c.
     gen_bind (gen_assert (chunk_len c \<le> MAX_CHUNK)) (\<lambda>_.
     if CODE_LIMIT - 64 < off + chunk_len c then gen_return []
     else gen_bind (body_chunks n (off + chunk_len c)) (\<lambda>cs. gen_return (c # cs))))"

definition stop_marker :: chunk where
  "stop_marker = Plain [ins_w ECALL ''ecall  # stop marker'']"

fun chunk_offs :: "nat \<Rightarrow> chunk list \<Rightarrow> nat list" where
  "chunk_offs off [] = []"
| "chunk_offs off (c # cs) = off # chunk_offs (off + chunk_len c) cs"

definition branch_name :: "u32 \<Rightarrow> string" where
  "branch_name f3 = [''beq'', ''bne'', ''?'', ''?'', ''blt'', ''bge'', ''bltu'', ''bgeu''] ! unat f3"

text \<open>\<open>(offs[t] - here) as i32\<close> for the target \<open>t\<close>, which no chunk passes.\<close>

definition displacement :: "nat list \<Rightarrow> nat \<Rightarrow> nat \<Rightarrow> nat" where
  "displacement offs i skip = offs ! min (i + skip) (length offs - 1) - offs ! i"

definition cb_half :: "bool \<Rightarrow> nat \<Rightarrow> u32 \<Rightarrow> u16" where
  "cb_half ne a d =
     push_bit 13 (if ne then 7 else 6) OR push_bit 12 (half_bits 8 1 d) OR push_bit 10 (half_bits 3 0x3 d)
       OR push_bit 7 (of_nat (a - 8)) OR push_bit 5 (half_bits 6 0x3 d) OR push_bit 3 (half_bits 1 0x3 d)
       OR push_bit 2 (half_bits 5 1 d) OR 1"

definition cj_half :: "u32 \<Rightarrow> u16" where
  "cj_half d =
     push_bit 13 5 OR push_bit 12 (half_bits 11 1 d) OR push_bit 11 (half_bits 4 1 d) OR push_bit 9 (half_bits 8 0x3 d)
       OR push_bit 8 (half_bits 10 1 d) OR push_bit 7 (half_bits 6 1 d) OR push_bit 6 (half_bits 7 1 d)
       OR push_bit 3 (half_bits 1 0x7 d) OR push_bit 2 (half_bits 5 1 d) OR 1"

definition cjr_half :: "bool \<Rightarrow> nat \<Rightarrow> u16" where
  "cjr_half l rt = (if l then 0x9002 else 0x8002) OR push_bit 7 (of_nat rt)"

fun resolve :: "nat list \<Rightarrow> nat \<Rightarrow> chunk \<Rightarrow> unit stop + ins list" where
  "resolve offs i (Plain v) = Inr v"
| "resolve offs i (Branch f3 a b skip) =
     (let d = displacement offs i skip in
      if 8 \<le> unat f3 then Inl Panic
      else Inr [ins_w (gen_b_type f3 a b (of_nat d)) (three (branch_name f3) (xr a) (xr b) (''.+'' @ decimal d))])"
| "resolve offs i (Jal r skip) =
     (let d = displacement offs i skip in
      Inr [ins_w (gen_j_type r (of_nat d)) (''jal '' @ xr r @ '', .+'' @ decimal d)])"
| "resolve offs i (Jalr rt r skip) =
     (let d = displacement offs i skip; d1 = min d 2047; d2 = d - d1 in
      if 2047 < d2 then Inl Panic
      else Inr
        [ins_w (gen_u_type 0x17 rt 0) (''auipc '' @ xr rt @ '', 0''),
         ins_w (gen_i_type 0x13 0 rt rt (of_nat d1)) (three ''addi'' (xr rt) (xr rt) (decimal d1)),
         ins_w (gen_i_type 0x67 0 r rt (of_nat d2))
           (''jalr '' @ xr r @ '', '' @ decimal d2 @ ''('' @ xr rt @ '')  # -> .+'' @ decimal d)])"
| "resolve offs i (CBranch ne a skip) =
     (let d = displacement offs i skip in
      if 256 \<le> d then Inl Panic
      else Inr [ins_c (cb_half ne a (of_nat d)) ((if ne then ''c.bnez '' else ''c.beqz '') @ xr a @ '', .+'' @ decimal d)])"
| "resolve offs i (CJ skip) =
     (let d = displacement offs i skip in
      if 2048 \<le> d then Inl Panic else Inr [ins_c (cj_half (of_nat d)) (''c.j .+'' @ decimal d)])"
| "resolve offs i (CJr rt l skip) =
     (let d = displacement offs i skip in
      if 2047 < d then Inl Panic
      else Inr
        [ins_w (gen_u_type 0x17 rt 0) (''auipc '' @ xr rt @ '', 0''),
         ins_w (gen_i_type 0x13 0 rt rt (of_nat d)) (three ''addi'' (xr rt) (xr rt) (decimal d)),
         ins_c (cjr_half l rt) ((if l then ''c.jalr '' else ''c.jr '') @ xr rt @ ''  # -> .+'' @ decimal d)])"

fun resolve_from :: "nat list \<Rightarrow> nat \<Rightarrow> chunk list \<Rightarrow> unit stop + ins list" where
  "resolve_from offs i [] = Inr []"
| "resolve_from offs i (c # cs) =
     (case resolve offs i c of
        Inl e \<Rightarrow> Inl e
      | Inr v \<Rightarrow> (case resolve_from offs (i + 1) cs of Inl e \<Rightarrow> Inl e | Inr rest \<Rightarrow> Inr (v @ rest)))"

section \<open>The image\<close>

definition scratch_word :: "u64 gen" where
  "scratch_word = gen_bind (below 4) (\<lambda>k. if k = 0 then pick [0, - 1, 0x8000800080008000] else next_u64)"

text \<open>\<open>image[o..o + n].copy_from_slice(bs)\<close>\<close>

definition copy_into :: "nat \<Rightarrow> u8 list \<Rightarrow> u8 list \<Rightarrow> unit stop + u8 list" where
  "copy_into off bs img = (if off + length bs \<le> length img then Inr (splice off bs img) else Inl Panic)"

fun place_code :: "nat \<Rightarrow> ins list \<Rightarrow> u8 list \<Rightarrow> unit stop + u8 list" where
  "place_code off [] img = Inr img"
| "place_code off (i # is) img =
     (case copy_into off (take (isize i) (to_le 4 (iword i))) img of
        Inl e \<Rightarrow> Inl e | Inr img \<Rightarrow> place_code (off + isize i) is img)"

fun listing_of :: "nat \<Rightarrow> ins list \<Rightarrow> (u64 \<times> string) list" where
  "listing_of off [] = []"
| "listing_of off (i # is) = (BASE + of_nat off, itext i) # listing_of (off + isize i) is"

record prog =
  p_seed :: u64
  p_image :: "u8 list"
  body_start :: u64
  ecall_pc :: u64
  body_len :: nat
  p_listing :: "(u64 \<times> string) list"

definition disasm_at :: "prog \<Rightarrow> u64 \<Rightarrow> string option" where
  "disasm_at p at = map_option snd (find (\<lambda>(a, _). a = at) (p_listing p))"

text \<open>The file image: random scratch words, then the code and the seed table over it.\<close>

definition layout_image :: "u64 list \<Rightarrow> ins list \<Rightarrow> nat \<Rightarrow> ins list \<Rightarrow> u64 list \<Rightarrow> unit stop + u8 list" where
  "layout_image words pro start body table =
     (case place_code EXIT_OFF exit_stub (replicate SCRATCH_OFF 0 @ concat (map (to_le 8) words)) of
        Inl e \<Rightarrow> Inl e
      | Inr img \<Rightarrow> (case place_code ENTRY_OFF pro img of
          Inl e \<Rightarrow> Inl e
        | Inr img \<Rightarrow> (case place_code start body img of
            Inl e \<Rightarrow> Inl e
          | Inr img \<Rightarrow> copy_into TABLE_OFF (concat (map (to_le 8) table)) img)))"

definition program_of :: "u64 \<Rightarrow> prog gen" where
  "program_of seed =
     gen_bind seed_table (\<lambda>table.
     gen_bind (gen_lift prologue) (\<lambda>pro.
     let start = ENTRY_OFF + code_size pro in
     gen_bind (body_chunks CHUNKS start) (\<lambda>cs.
     let chunks = cs @ [stop_marker]; offs = chunk_offs start chunks in
     gen_bind (gen_lift (resolve_from offs 0 chunks)) (\<lambda>body.
     gen_bind (gen_many (PAGE div 8) scratch_word) (\<lambda>words.
     gen_bind (gen_lift (layout_image words pro start body table)) (\<lambda>img.
     gen_return
       \<lparr>p_seed = seed, p_image = img, body_start = BASE + of_nat start, ecall_pc = BASE + of_nat (last offs),
        body_len = length body,
        p_listing = sort_key fst (listing_of EXIT_OFF exit_stub @ listing_of ENTRY_OFF pro @ listing_of start body)\<rparr>))))))"

definition program :: "u64 \<Rightarrow> (unit stop + prog) option" where
  "program seed = map_option fst (program_of seed (rng_new seed))"

end
