(* ===== verification/Gen_Encode.thy ===== *)
theory Gen_Encode
  imports Rvc Exec Gen_Program
begin

text \<open>
  The instructions of generated programs read back: the fields and the immediates that the decoders
  of the emulator find in the words and halfwords that the generator assembles.
\<close>

section \<open>The encoders\<close>

lemma gen_types:
  "gen_r_type op f3 f7 d a b = r_type f7 (of_nat b) (of_nat a) f3 (of_nat d) op"
  "gen_i_type op f3 d a imm = i_type imm (of_nat a) f3 (of_nat d) op"
  "gen_s_type op f3 a b imm = s_type (imm AND 0xFFF) (of_nat b) (of_nat a) f3 op"
  "gen_b_type f3 a b imm = b_type imm (of_nat b) (of_nat a) f3 0x63"
  "gen_j_type d imm = j_type imm (of_nat d) 0x6F"
  "gen_u_type op d imm = push_bit 12 (imm AND 0xFFFFF) OR push_bit 7 (of_nat d) OR op"
  by (simp_all only: gen_r_type_def gen_i_type_def gen_s_type_def gen_b_type_def gen_j_type_def gen_u_type_def
      type_defs Let_def or.assoc or.commute or.left_commute ac_simps)

lemma small_bits: "n < 2 ^ k \<Longrightarrow> bit (of_nat n :: 'a::len word) j \<Longrightarrow> j < k"
proof -
  assume n: "n < 2 ^ k" and "bit (of_nat n :: 'a word) j"
  then have "bit n j" by (simp add: bit_of_nat_iff)
  then have "2 ^ j \<le> n" by (auto simp: bit_iff_odd intro!: leI)
  with n have "(2 :: nat) ^ j < 2 ^ k" by linarith
  then show "j < k" by simp
qed

lemma fits_of_nat: "n < 2 ^ k \<Longrightarrow> fits k (of_nat n)"
  unfolding fits_def by (rule bit_word_eqI) (auto simp: bit_take_bit_iff dest: small_bits)

lemma fits_reg [simp]: "n < 32 \<Longrightarrow> fits 5 (of_nat n)"
  using fits_of_nat [of n 5] by simp

lemma ucast_reg [simp]: "(ucast (of_nat n :: u32) :: regno) = of_nat n"
  by (rule bit_word_eqI) (auto simp: bit_unsigned_iff bit_of_nat_iff)

lemma unat_reg [simp]: "n < 32 \<Longrightarrow> unat (of_nat n :: regno) = n"
  by (simp add: unat_of_nat)

lemma reg_inject: "a < 32 \<Longrightarrow> b < 32 \<Longrightarrow> (of_nat a :: regno) = of_nat b \<longleftrightarrow> a = b"
  by (metis unat_reg)


section \<open>Instructions that compute\<close>

text \<open>The words that write at most one register and touch neither memory nor the program counter.\<close>

definition calc_word :: "u32 \<Rightarrow> bool" where
  "calc_word w \<longleftrightarrow>
     (let op = opcode w; f3 = funct3 w; f7 = funct7 w in
      op = 0x37 \<or> op = 0x17 \<or> op = 0x13 \<or> op = 0x0F \<and> f3 = 0 \<or> op = 0x1B \<and> (f3 = 0 \<or> f3 = 1 \<or> f3 = 5) \<or>
      op = 0x33 \<and> (f7 = 1 \<or> f7 = 0 \<or> f7 = 0x20 \<and> (f3 = 0 \<or> f3 = 5)) \<or>
      op = 0x3B \<and> (f7 = 1 \<and> (f3 = 0 \<or> f3 = 4 \<or> f3 = 5 \<or> f3 = 6 \<or> f3 = 7) \<or>
        f7 = 0 \<and> (f3 = 0 \<or> f3 = 1 \<or> f3 = 5) \<or> f7 = 0x20 \<and> (f3 = 0 \<or> f3 = 5)))"

lemma funct3_cases:
  "funct3 w = 0 \<or> funct3 w = 1 \<or> funct3 w = 2 \<or> funct3 w = 3 \<or> funct3 w = 4 \<or> funct3 w = 5 \<or> funct3 w = 6 \<or> funct3 w = 7"
proof -
  have "unat (funct3 w) < 8" using word_and_le1 [of "drop_bit 12 w" 7] by (simp add: funct3_def word_le_nat_alt)
  then obtain k where k: "funct3 w = of_nat k" "k < 8" by (metis of_nat_unat ucast_id)
  from k(2) have "k = 0 \<or> k = 1 \<or> k = 2 \<or> k = 3 \<or> k = 4 \<or> k = 5 \<or> k = 6 \<or> k = 7" by linarith
  with k(1) show ?thesis by (elim disjE) simp_all
qed

text \<open>The executor that knows the opcode is the one that answers.\<close>

lemma not_mul: "opcode w \<noteq> 0x33 \<Longrightarrow> opcode w \<noteq> 0x3B \<Longrightarrow> rv64m_execute w m = (Inr False, m)"
  by (simp add: rv64m_execute_def sm_bind_def sm_defs get_reg_def)

lemma not_mul7: "funct7 w \<noteq> 1 \<Longrightarrow> rv64m_execute w m = (Inr False, m)"
  by (simp add: rv64m_execute_def sm_defs)

lemma not_amo: "opcode w \<noteq> 0x2F \<Longrightarrow> rv64a_execute B put w m = (Inr False, m)"
  by (simp add: rv64a_execute_def sm_defs)

lemma execute_base:
  assumes "opcode w \<noteq> 0x2F" and "opcode w \<noteq> 0x33 \<and> opcode w \<noteq> 0x3B \<or> funct7 w \<noteq> 1"
  shows "execute B put w m = rv64i_execute B put w m"
proof -
  have "rv64m_execute w m = (Inr False, m)" using assms(2) not_mul not_mul7 by blast
  then show ?thesis by (simp add: execute_def or_else_def sm_bind_def not_amo [OF assms(1)])
qed

lemma finish_Some: "finish w (Some v) (c, b) = (Inr True, (set_reg (rd w) v c, b))"
  by (simp add: finish_def sm_bind_def on_cpu_def sm_defs)

lemma execute_calc:
  assumes "calc_word w"
  shows "\<exists>d v. execute B put w (c, b) = (Inr True, (set_reg d v c, b))"
proof (cases "(opcode w = 0x33 \<or> opcode w = 0x3B) \<and> funct7 w = 1")
  case True
  let ?x = "reg (rs1 w) c" and ?y = "reg (rs2 w) c"
  have "\<exists>v. mul_op (funct3 w) ?x ?y = Some v"
    using funct3_cases [of w] by (elim disjE) (simp_all add: mul_op_def)
  moreover have "\<exists>v. mul_op32 (funct3 w) (ucast ?x) (ucast ?y) = Some v" if "opcode w = 0x3B"
    using assms True that by (auto simp: calc_word_def mul_op32_def)
  ultimately have "\<exists>v. rv64m_execute w (c, b) = (Inr True, (set_reg (rd w) v c, b))"
    using True by (cases "opcode w = 0x33") (auto simp: rv64m_execute_def sm_bind_def get_reg_def sm_get_def finish_Some)
  then obtain v where "rv64m_execute w (c, b) = (Inr True, (set_reg (rd w) v c, b))" by blast
  then have "execute B put w (c, b) = (Inr True, (set_reg (rd w) v c, b))" by (simp add: execute_def or_else_def sm_bind_def sm_return_def)
  then show ?thesis by blast
next
  case False
  have "opcode w \<noteq> 0x2F" using assms by (auto simp: calc_word_def)
  with False have e: "execute B put w (c, b) = rv64i_execute B put w (c, b)" by (intro execute_base) auto
  have z: "set_reg 0 0 c = c" by (simp add: set_reg_def)
  have imm: "\<exists>v. op_imm w x = Some v" for x using funct3_cases [of w] by (auto simp: op_imm_def Let_def)
  have imm32: "\<exists>v. op_imm32 w x = Some v" if "opcode w = 0x1B" for x
    using assms that by (auto simp: calc_word_def op_imm32_def Let_def)
  have reg: "\<exists>v. op_reg w x y = Some v" if "opcode w = 0x33" for x y
    using assms that False funct3_cases [of w] by (auto simp: calc_word_def op_reg_def Let_def)
  have reg32: "\<exists>v. op_reg32 w x y = Some v" if "opcode w = 0x3B" for x y
    using assms that False by (auto simp: calc_word_def op_reg32_def Let_def)
  have z: "set_reg 0 0 c = c" by (simp add: set_reg_def)
  consider "opcode w = 0x37" | "opcode w = 0x17" | "opcode w = 0x13" | "opcode w = 0x1B" | "opcode w = 0x33"
    | "opcode w = 0x3B" | "opcode w = 0x0F" "funct3 w = 0" using assms unfolding calc_word_def Let_def by argo
  then have "\<exists>d v. rv64i_execute B put w (c, b) = (Inr True, (set_reg d v c, b))"
  proof cases
    case 3
    with imm [of "reg (rs1 w) c"] show ?thesis
      by (fastforce simp: rv64i_execute_def sm_bind_def get_reg_def sm_get_def finish_Some)
  next
    case 4
    with imm32 [of "ucast (reg (rs1 w) c)"] show ?thesis
      by (fastforce simp: rv64i_execute_def sm_bind_def get_reg_def sm_get_def finish_Some)
  next
    case 5
    with reg [of "reg (rs1 w) c" "reg (rs2 w) c"] show ?thesis
      by (fastforce simp: rv64i_execute_def sm_bind_def get_reg_def sm_get_def finish_Some)
  next
    case 6
    with reg32 [of "ucast (reg (rs1 w) c)" "ucast (reg (rs2 w) c)"] show ?thesis
      by (fastforce simp: rv64i_execute_def sm_bind_def get_reg_def sm_get_def finish_Some)
  next
    case 7
    then show ?thesis by (intro exI [of _ 0] exI [of _ 0]) (simp add: rv64i_execute_def z sm_return_def)
  qed (auto simp: rv64i_execute_def sm_bind_def sm_get_def finish_Some)
  with e show ?thesis by simp
qed

end
