(* ===== verification/Gen_Halves.thy ===== *)
theory Gen_Halves
  imports Gen_Encode
begin

text \<open>
  Compressed halves and their fields: the encoders of the generator put each bit of a value where the
  expander looks for it, and the register forms compute what their expansion does.
\<close>

lemma small_masks16:
  "(1 :: u16) = mask 1" "(3 :: u16) = mask 2" "(7 :: u16) = mask 3" "(0xF :: u16) = mask 4" "(0x1F :: u16) = mask 5"
  by (simp_all add: mask_eq_exp_minus_1)

definition low :: "nat \<Rightarrow> u16 \<Rightarrow> bool" where
  "low k v \<longleftrightarrow> take_bit k v = v"

lemma lowD: "low k v \<Longrightarrow> bit v n \<Longrightarrow> n < k"
  unfolding low_def by (metis bit_take_bit_iff)

lemma low_of_nat: "n < 2 ^ k \<Longrightarrow> low k (of_nat n)"
  unfolding low_def by (rule bit_word_eqI) (auto simp: bit_take_bit_iff dest: small_bits)

lemma low_and [simp]: "low k (v AND mask k)"
  unfolding low_def by (simp add: take_bit_eq_mask and.assoc)

lemma nat_low: "(n :: nat) < 2 ^ k \<Longrightarrow> bit n j \<Longrightarrow> j < k"
proof -
  assume n: "n < 2 ^ k" and "bit n j"
  then have "2 ^ j \<le> n" by (auto simp: bit_iff_odd intro!: leI)
  with n have "(2 :: nat) ^ j < 2 ^ k" by linarith
  then show "j < k" by simp
qed

lemmas nat_low5 = nat_low [of _ 5, simplified]

lemma word_eq_below:
  fixes a b :: "'a::len word"
  assumes "\<And>n. n < k \<Longrightarrow> bit a n = bit b n" and "\<And>n. k \<le> n \<Longrightarrow> bit a n = bit b n"
  shows "a = b"
  by (rule bit_word_eqI) (metis assms not_le)

text \<open>An immediate from the table of its bits.\<close>

lemma imm_from_table:
  assumes "ucast x = gather tab h" and "\<And>n. n < 32 \<Longrightarrow> (\<exists>(s, d) \<in> set tab. bit h s \<and> d = n) = bit v n"
  shows "x = (v :: u32)"
proof (rule bit_word_eqI)
  fix n :: nat
  assume n: "n < LENGTH(32)"
  have "bit x n = bit (ucast x :: u64) n" using n by (simp add: bit_unsigned_iff)
  also have "\<dots> = bit v n" unfolding assms(1) bit_gather using assms(2) [of n] n by auto
  finally show "bit x n = bit v n" .
qed

section \<open>Fields\<close>

lemmas field_masks = small_masks small_masks16

text \<open>The forms with two registers of five bits.\<close>

lemma ci_form:
  fixes f3 x d s op :: u16
  assumes "low 3 f3" "low 1 x" "low 5 d" "low 5 s" "low 2 op"
    and "h = push_bit 13 f3 OR push_bit 12 x OR push_bit 7 d OR push_bit 2 s OR op"
  shows "up h AND 3 = up op" "drop_bit 13 (up h) AND 7 = up f3" "drop_bit 12 (up h) AND 1 = up x"
    "c_rd (up h) = up d" "c_rs2 (up h) = up s"
proof -
  note f = lowD [OF assms(1)] lowD [OF assms(2)] lowD [OF assms(3)] lowD [OF assms(4)] lowD [OF assms(5)]
  note u = assms(6) c_rd_def c_rs2_def field_masks
  show "up h AND 3 = up op" unfolding u by (rule word_eq_below [where k = 2]) (auto simp: bit_simps dest: f)
  show "drop_bit 13 (up h) AND 7 = up f3" unfolding u by (rule word_eq_below [where k = 3]) (auto simp: bit_simps dest: f)
  show "drop_bit 12 (up h) AND 1 = up x" unfolding u by (rule word_eq_below [where k = 1]) (auto simp: bit_simps dest: f)
  show "c_rd (up h) = up d" unfolding u by (rule word_eq_below [where k = 5]) (auto simp: bit_simps dest: f)
  show "c_rs2 (up h) = up s" unfolding u by (rule word_eq_below [where k = 5]) (auto simp: bit_simps dest: f)
qed

text \<open>The forms with a register of three bits below a field of two.\<close>

lemma cb_form:
  fixes f3 x f2 d v s op :: u16
  assumes "low 3 f3" "low 1 x" "low 2 f2" "low 3 d" "low 2 v" "low 3 s" "low 2 op"
    and "h = push_bit 13 f3 OR push_bit 12 x OR push_bit 10 f2 OR push_bit 7 d OR push_bit 5 v OR push_bit 2 s OR op"
  shows "up h AND 3 = up op" "drop_bit 13 (up h) AND 7 = up f3" "drop_bit 12 (up h) AND 1 = up x"
    "drop_bit 10 (up h) AND 3 = up f2" "c_rs1p (up h) = 8 + up d" "drop_bit 5 (up h) AND 3 = up v" "c_rdp (up h) = 8 + up s"
proof -
  note f = lowD [OF assms(1)] lowD [OF assms(2)] lowD [OF assms(3)] lowD [OF assms(4)] lowD [OF assms(5)] lowD [OF assms(6)]
    lowD [OF assms(7)]
  note u = assms(8) field_masks
  show "up h AND 3 = up op" unfolding u by (rule word_eq_below [where k = 2]) (auto simp: bit_simps dest: f)
  show "drop_bit 13 (up h) AND 7 = up f3" unfolding u by (rule word_eq_below [where k = 3]) (auto simp: bit_simps dest: f)
  show "drop_bit 12 (up h) AND 1 = up x" unfolding u by (rule word_eq_below [where k = 1]) (auto simp: bit_simps dest: f)
  show "drop_bit 10 (up h) AND 3 = up f2" unfolding u by (rule word_eq_below [where k = 2]) (auto simp: bit_simps dest: f)
  show "drop_bit 5 (up h) AND 3 = up v" unfolding u by (rule word_eq_below [where k = 2]) (auto simp: bit_simps dest: f)
  have "drop_bit 7 (up h) AND 7 = up d" unfolding u by (rule word_eq_below [where k = 3]) (auto simp: bit_simps dest: f)
  then show "c_rs1p (up h) = 8 + up d" by (simp add: c_rs1p_def)
  have "drop_bit 2 (up h) AND 7 = up s" unfolding u by (rule word_eq_below [where k = 3]) (auto simp: bit_simps dest: f)
  then show "c_rdp (up h) = 8 + up s" by (simp add: c_rdp_def)
qed

lemma low_numerals [simp]:
  "low k 0" "low 3 1" "low 3 2" "low 3 3" "low 3 4" "low 3 5" "low 3 6" "low 3 7" "low 2 1" "low 2 2" "low 2 3" "low 1 1" "low (Suc 0) 1"
  by (simp_all add: low_def)

lemma low_regs [simp]: "n < 32 \<Longrightarrow> low 5 (of_nat n)" "n < 8 \<Longrightarrow> low 3 (of_nat n)"
  using low_of_nat [of n 5] low_of_nat [of n 3] by simp_all

lemma up_reg: "up (of_nat n) = of_nat n" if "n < 32"
  using that by (simp add: unsigned_of_nat take_bit_nat_eq_self)

lemma of_nat_reg: "a < 32 \<Longrightarrow> b < 32 \<Longrightarrow> (of_nat a :: u32) = of_nat b \<longleftrightarrow> a = b"
  by (metis reg_inject ucast_reg)

lemma up_reg': "8 + up (of_nat (r - 8)) = of_nat r" if "8 \<le> r" "r < 16"
proof -
  have "up (of_nat (r - 8)) = of_nat (r - 8)" using that by (intro up_reg) simp
  then have "8 + up (of_nat (r - 8)) = of_nat (8 + (r - 8))" by simp
  then show ?thesis using that by simp
qed

lemma expand_quadrants:
  "up h AND 3 = 0 \<Longrightarrow> expand h = expand_q0 (drop_bit 13 (up h) AND 7) (up h)"
  "up h AND 3 = 1 \<Longrightarrow> expand h = expand_q1 (drop_bit 13 (up h) AND 7) (up h)"
  "up h AND 3 = 2 \<Longrightarrow> expand h = expand_q2 (drop_bit 13 (up h) AND 7) (up h)"
  by (simp_all add: expand_def Let_def)

section \<open>Compressed computations\<close>

lemma calc_types:
  "fits 5 s1 \<Longrightarrow> fits 3 f3 \<Longrightarrow> fits 5 d \<Longrightarrow> calc_word (i_type imm s1 f3 d 0x13)"
  "fits 5 s1 \<Longrightarrow> fits 5 d \<Longrightarrow> f3 = 0 \<or> f3 = 1 \<or> f3 = 5 \<Longrightarrow> calc_word (i_type imm s1 f3 d 0x1B)"
  "fits 5 d \<Longrightarrow> opc = 0x37 \<or> opc = 0x17 \<Longrightarrow> calc_word (push_bit 12 (imm AND 0xFFFFF) OR push_bit 7 d OR opc)"
proof -
  have o: "fits 7 0x13" "fits 7 0x1B" "fits 7 0x37" "fits 7 0x17" by (simp_all add: fits_def)
  show "fits 5 s1 \<Longrightarrow> fits 3 f3 \<Longrightarrow> fits 5 d \<Longrightarrow> calc_word (i_type imm s1 f3 d 0x13)"
    using i_type_fields(1) [OF _ _ _ o(1)] by (simp add: calc_word_def)
  show "calc_word (i_type imm s1 f3 d 0x1B)" if "fits 5 s1" "fits 5 d" "f3 = 0 \<or> f3 = 1 \<or> f3 = 5"
  proof -
    have "fits 3 f3" using that(3) by auto
    from i_type_fields [OF that(1) this that(2) o(2)] that(3) show ?thesis by (auto simp: calc_word_def)
  qed
  show "fits 5 d \<Longrightarrow> opc = 0x37 \<or> opc = 0x17 \<Longrightarrow> calc_word (push_bit 12 (imm AND 0xFFFFF) OR push_bit 7 d OR opc)"
    using u_type_fields(1) [OF _ o(3)] u_type_fields(1) [OF _ o(4)] by (auto simp: calc_word_def)
qed

lemma calc_r_type:
  assumes "fits 5 s1" "fits 3 f3" "fits 5 s2" "fits 5 d"
    and "opc = 0x33 \<and> (f7 = 0 \<or> f7 = 1 \<or> f7 = 0x20 \<and> (f3 = 0 \<or> f3 = 5)) \<or>
      opc = 0x3B \<and> (f7 = 1 \<and> (f3 = 0 \<or> f3 = 4 \<or> f3 = 5 \<or> f3 = 6 \<or> f3 = 7) \<or>
        f7 = 0 \<and> (f3 = 0 \<or> f3 = 1 \<or> f3 = 5) \<or> f7 = 0x20 \<and> (f3 = 0 \<or> f3 = 5))"
  shows "calc_word (r_type f7 s2 s1 f3 d opc)"
proof -
  have "fits 7 opc" "fits 7 f7" using assms(5) by (auto simp: fits_def)
  with r_type_fields [OF assms(1-3) _ assms(4)] assms(5) show ?thesis by (auto simp: calc_word_def Let_def)
qed

lemma c_regs_fit [simp]: "fits 5 (c_rd (up h))" "fits 5 (c_rs2 (up h))" "fits 5 (c_rdp (up h))" "fits 5 (c_rs1p (up h))"
  by (simp_all add: c_rd_def c_rs2_def c_rdp_def c_rs1p_def reg_field creg'_field)

lemma imm_halves: "low 1 (ucast (drop_bit 5 (imm AND 0x3F :: u32)))" "low 5 (ucast ((imm AND 0x3F) AND 0x1F :: u32))"
proof -
  have "drop_bit 5 (imm AND 0x3F) = drop_bit 5 imm AND 1"
    unfolding field_masks by (rule word_eq_below [where k = 1]) (auto simp: bit_simps)
  then show "low 1 (ucast (drop_bit 5 (imm AND 0x3F)))" by (simp add: one_bit low_def)
  show "low 5 (ucast ((imm AND 0x3F) AND 0x1F :: u32))"
    unfolding low_def field_masks by (rule bit_word_eqI) (auto simp: bit_simps)
qed

lemma five: "n < 6 \<Longrightarrow> \<not> n < 5 \<Longrightarrow> n = (5 :: nat)" "n < 6 \<Longrightarrow> 5 \<le> n \<Longrightarrow> n = (5 :: nat)"
  by simp_all

lemma ci_fields:
  assumes "low 3 f3" "low 2 op" "d < 32"
  shows "up (ci f3 op d imm) AND 3 = up op" "drop_bit 13 (up (ci f3 op d imm)) AND 7 = up f3"
    "c_rd (up (ci f3 op d imm)) = of_nat d" "c_imm6 (up (ci f3 op d imm)) = imm AND 0x3F"
proof -
  let ?i = "imm AND 0x3F"
  have h: "ci f3 op d imm = push_bit 13 f3 OR push_bit 12 (ucast (drop_bit 5 ?i)) OR push_bit 7 (of_nat d) OR
      push_bit 2 (ucast (?i AND 0x1F)) OR op" by (simp only: ci_def Let_def or.assoc)
  note F = ci_form [OF assms(1) imm_halves(1) low_regs(1) [OF assms(3)] imm_halves(2) assms(2) h]
  show "up (ci f3 op d imm) AND 3 = up op" "drop_bit 13 (up (ci f3 op d imm)) AND 7 = up f3"
    "c_rd (up (ci f3 op d imm)) = of_nat d" using F(1,2,4) up_reg [OF assms(3)] by simp_all
  have "push_bit 5 (up (ucast (drop_bit 5 ?i))) OR up (ucast (?i AND 0x1F)) = ?i"
    unfolding field_masks by (rule word_eq_below [where k = 6]) (auto simp: bit_simps dest!: five)
  then show "c_imm6 (up (ci f3 op d imm)) = ?i"
    using F(3,5) by (simp add: c_imm6_def c_rs2_def)
qed

lemma calc_ci:
  assumes "d < 32" and "f3 = 0 \<or> f3 = 1 \<and> d \<noteq> 0 \<or> f3 = 2 \<or> f3 = 3 \<and> d \<noteq> 2 \<and> imm AND 0x3F \<noteq> 0"
  shows "\<exists>w. expand (ci f3 1 d imm) = Some w \<and> calc_word w"
proof -
  have "low 3 f3" using assms(2) by auto
  note F = ci_fields [OF this low_numerals(9) assms(1), of imm]
  have d: "(of_nat d :: u32) = 0 \<longleftrightarrow> d = 0" "(of_nat d :: u32) = 2 \<longleftrightarrow> d = 2"
    using of_nat_reg [of d 0] of_nat_reg [of d 2] assms(1) by simp_all
  show ?thesis
    using assms F d by (elim disjE) (auto simp: expand_quadrants expand_q1_def Let_def calc_types simp del: push_bit_and)
qed


lemma calc_slli: "d < 32 \<Longrightarrow> \<exists>w. expand (ci 0 2 d imm) = Some w \<and> calc_word w"
  using ci_fields [OF low_numerals(1) low_numerals(10), where d = d and imm = imm]
  by (simp add: expand_quadrants expand_q2_def Let_def calc_types)

lemma calc_cb:
  assumes "8 \<le> d" "d < 16" and "f2 = 0 \<or> f2 = 1 \<or> f2 = 2"
  shows "\<exists>w. expand (cb_imm f2 d imm) = Some w \<and> calc_word w"
proof -
  have f2: "low 2 f2" using assms by auto
  have d: "low 3 (of_nat (d - 8))" by (rule low_regs(2)) (use assms in simp)
  let ?s = "ucast ((imm AND 0x3F) AND 0x1F) :: u16" and ?h = "cb_imm f2 d imm"
  have v: "low 2 (drop_bit 3 ?s)" "low 3 (?s AND 7)" and split: "push_bit 2 ?s = push_bit 5 (drop_bit 3 ?s) OR push_bit 2 (?s AND 7)"
    using lowD [OF imm_halves(2)] unfolding low_def field_masks by (auto intro!: bit_word_eqI simp: bit_simps)
  have "?h = push_bit 13 4 OR push_bit 12 (ucast (drop_bit 5 (imm AND 0x3F))) OR push_bit 10 f2 OR push_bit 7 (of_nat (d - 8)) OR
      push_bit 5 (drop_bit 3 ?s) OR push_bit 2 (?s AND 7) OR 1"
    unfolding cb_imm_def Let_def split by (simp only: or.assoc)
  from cb_form(1,2,4) [OF low_numerals(5) imm_halves(1) f2 d v low_numerals(9) this] assms(3)
  show ?thesis by (auto simp: expand_quadrants expand_q1_def expand_misc_alu_def Let_def calc_types)
qed

lemma calc_ca:
  assumes "8 \<le> d" "d < 16" "8 \<le> s" "s < 16" and "w = 0 \<and> (f2 = 0 \<or> f2 = 1 \<or> f2 = 2 \<or> f2 = 3) \<or> w = 1 \<and> (f2 = 0 \<or> f2 = 1)"
  shows "\<exists>i. expand (ca w f2 d s) = Some i \<and> calc_word i"
proof -
  have l: "low 1 w" "low 2 f2" using assms(5) by auto
  have r: "low 3 (of_nat (d - 8))" "low 3 (of_nat (s - 8))" by (rule low_regs(2), use assms in simp)+
  have "ca w f2 d s = push_bit 13 4 OR push_bit 12 w OR push_bit 10 3 OR push_bit 7 (of_nat (d - 8)) OR push_bit 5 f2 OR
      push_bit 2 (of_nat (s - 8)) OR 1" by (simp only: ca_def or.assoc)
  from cb_form(1-4,6) [OF low_numerals(5) l(1) low_numerals(11) r(1) l(2) r(2) low_numerals(9) this] assms(5)
  show ?thesis by (auto simp: expand_quadrants expand_q1_def expand_misc_alu_def Let_def intro!: calc_r_type)
qed

lemma bare_r_type: "push_bit 20 s2 OR push_bit 15 s1 OR push_bit 7 d OR 0x33 = r_type 0 s2 s1 0 d 0x33"
  "push_bit 20 s2 OR push_bit 7 d OR 0x33 = r_type 0 s2 0 0 d 0x33"
  by (simp_all add: r_type_def)

lemma c_consts: "(0x8002 :: u16) = push_bit 13 4 OR 2" "(0x9002 :: u16) = push_bit 13 4 OR push_bit 12 1 OR 2"
  by simp_all

lemma calc_mv:
  assumes "d < 32" "1 \<le> s" "s < 32"
  shows "\<exists>w. expand (c_mv_half d s) = Some w \<and> calc_word w" "\<exists>w. expand (c_add_half d s) = Some w \<and> calc_word w"
proof -
  have s: "(of_nat s :: u32) \<noteq> 0" using of_nat_reg [of s 0] assms by auto
  note r = low_regs(1) [OF assms(1)] low_regs(1) [OF assms(3)]
  have mv: "c_mv_half d s = push_bit 13 4 OR push_bit 12 0 OR push_bit 7 (of_nat d) OR push_bit 2 (of_nat s) OR 2"
    and add: "c_add_half d s = push_bit 13 4 OR push_bit 12 1 OR push_bit 7 (of_nat d) OR push_bit 2 (of_nat s) OR 2"
    by (simp_all only: c_mv_half_def c_add_half_def c_consts push_bit_of_0 or.left_neutral or.assoc or.commute or.left_commute)
  note F = ci_form [OF low_numerals(5) _ r low_numerals(10)]
  from F(1-3,5) [OF _ mv] F(1-3,5) [OF _ add] s show "\<exists>w. expand (c_mv_half d s) = Some w \<and> calc_word w"
    "\<exists>w. expand (c_add_half d s) = Some w \<and> calc_word w"
    by (simp_all add: expand_quadrants expand_q2_def Let_def up_reg assms bare_r_type calc_r_type)
qed

end
