(* ===== verification/Gen_Compressed.thy ===== *)
theory Gen_Compressed
  imports Gen_Halves
begin

text \<open>
  The compressed instructions of the generator with immediates that are not one plain field (the
  stack pointer forms, loads and stores): what \<open>gen_compressed\<close> and \<open>gen_compressed_mem\<close> encode, the
  expander decodes to the instruction that was meant.
\<close>

lemma bit_half:
  "bit (half_bits k 1 v) n \<longleftrightarrow> n = 0 \<and> bit v k"
  "bit (half_bits k 3 v) n \<longleftrightarrow> n < 2 \<and> bit v (k + n)"
  "bit (half_bits k 7 v) n \<longleftrightarrow> n < 3 \<and> bit v (k + n)" "bit (half_bits k 0xF v) n \<longleftrightarrow> n < 4 \<and> bit v (k + n)"
  unfolding half_bits_def small_masks16 by (cases n; auto simp: bit_simps)+

lemma half_of_one: "half_bits k 1 v = (if bit v k then 1 else 0)"
  by (rule bit_word_eqI) (auto simp: bit_half bit_1_iff)

lemma sp_imm_nonzero:
  assumes "n < 64"
  shows "(if of_nat n - 32 = (0 :: u32) then 1 else of_nat n - 32 :: u32) * 16 AND 0x3F0 \<noteq> 0"
proof -
  have "list_all (\<lambda>n. (if of_nat n - 32 = (0 :: u32) then 1 else of_nat n - 32 :: u32) * 16 AND 0x3F0 \<noteq> 0) [0..<64]"
    by code_simp
  with assms show ?thesis by (auto simp: list_all_iff)
qed

lemma calc_addi4spn:
  assumes "8 \<le> d" "d < 16" "fits 10 imm" "\<not> bit imm 0" "\<not> bit imm 1" "imm \<noteq> 0"
  shows "\<exists>w. expand (c_addi4spn_half d imm) = Some w \<and> calc_word w"
proof -
  define x :: u16 where "x = of_nat (d - 8)"
  have x: "low 3 x" unfolding x_def by (rule low_regs(2)) (use assms in simp)
  let ?h = "c_addi4spn_half d imm"
  note u = c_addi4spn_half_def x_def [symmetric] and s = bit_half lowD [OF x]
  have q: "up ?h AND 3 = 0" unfolding u small_masks by (rule word_eq_below [where k = 2]) (auto simp: bit_simps bit_half dest: lowD [OF x])
  have f: "drop_bit 13 (up ?h) AND 7 = 0" unfolding u small_masks by (rule word_eq_below [where k = 3]) (auto simp: bit_simps bit_half dest: lowD [OF x])
  have bits: "bit ?h 12 = bit imm 5" "bit ?h 11 = bit imm 4" "bit ?h 10 = bit imm 9" "bit ?h 9 = bit imm 8"
    "bit ?h 8 = bit imm 7" "bit ?h 7 = bit imm 6" "bit ?h 6 = bit imm 2" "bit ?h 5 = bit imm 3"
    unfolding u by (auto simp: bit_simps bit_half dest: lowD [OF x])
  have "c_imm_addi4spn (up ?h) \<noteq> 0"
  proof
    assume "c_imm_addi4spn (up ?h) = 0"
    then have z: "\<not> bit imm n" if "n < 10" for n
      using that bits assms(4,5) unfolding zero_tests(1) by (auto simp: gather_zero numeral_eq_Suc less_Suc_eq simp del: gather.simps)
    have "imm = 0" by (rule word_eq_below [where k = 10]) (use z fitsD [OF assms(3)] in \<open>auto simp: not_le\<close>)
    with assms(6) show False by simp
  qed
  with q f show ?thesis by (simp add: expand_quadrants expand_q0_def Let_def calc_types)
qed

section \<open>Forms with a scattered immediate\<close>

text \<open>\<open>x\<close> is the immediate, whose bits lie where no field does.\<close>

definition within :: "nat set \<Rightarrow> u16 \<Rightarrow> bool" where
  "within ns x \<longleftrightarrow> (\<forall>n. bit x n \<longrightarrow> n \<in> ns)"

lemma withinD: "within ns x \<Longrightarrow> bit x n \<Longrightarrow> n \<in> ns"
  by (simp add: within_def)

lemma rd_form:
  assumes "low 3 f3" "within ({2..6} \<union> {12}) x" "low 5 d" "low 2 op" and "h = push_bit 13 f3 OR x OR push_bit 7 d OR op"
  shows "up h AND 3 = up op" "drop_bit 13 (up h) AND 7 = up f3" "c_rd (up h) = up d"
proof -
  note f = lowD [OF assms(1)] withinD [OF assms(2)] lowD [OF assms(3)] lowD [OF assms(4)] and u = assms(5) c_rd_def small_masks
  show "up h AND 3 = up op" unfolding u by (rule word_eq_below [where k = 2]) (auto simp: bit_simps dest: f)
  show "drop_bit 13 (up h) AND 7 = up f3" unfolding u by (rule word_eq_below [where k = 3]) (auto simp: bit_simps dest: f)
  show "c_rd (up h) = up d" unfolding u by (rule word_eq_below [where k = 5]) (auto simp: bit_simps dest: f)
qed

lemma rs1_form:
  assumes "low 3 f3" "within ({2..6} \<union> {10..12}) x" "low 3 a" "low 2 op" and "h = push_bit 13 f3 OR x OR push_bit 7 a OR op"
  shows "up h AND 3 = up op" "drop_bit 13 (up h) AND 7 = up f3" "c_rs1p (up h) = 8 + up a"
proof -
  note f = lowD [OF assms(1)] withinD [OF assms(2)] lowD [OF assms(3)] lowD [OF assms(4)] and u = assms(5) small_masks
  show "up h AND 3 = up op" unfolding u by (rule word_eq_below [where k = 2]) (auto simp: bit_simps dest: f)
  show "drop_bit 13 (up h) AND 7 = up f3" unfolding u by (rule word_eq_below [where k = 3]) (auto simp: bit_simps dest: f)
  have "drop_bit 7 (up h) AND 7 = up a" unfolding u by (rule word_eq_below [where k = 3]) (auto simp: bit_simps dest: f)
  then show "c_rs1p (up h) = 8 + up a" by (simp add: c_rs1p_def)
qed

lemma bare_form:
  assumes "low 3 f3" "within {2..12} x" "low 2 op" and "h = push_bit 13 f3 OR x OR op"
  shows "up h AND 3 = up op" "drop_bit 13 (up h) AND 7 = up f3"
proof -
  note f = lowD [OF assms(1)] withinD [OF assms(2)] lowD [OF assms(3)] and u = assms(4) small_masks
  show "up h AND 3 = up op" unfolding u by (rule word_eq_below [where k = 2]) (auto simp: bit_simps dest: f)
  show "drop_bit 13 (up h) AND 7 = up f3" unfolding u by (rule word_eq_below [where k = 3]) (auto simp: bit_simps dest: f)
qed

lemma calc_addi16sp:
  assumes "v AND 0x3F0 \<noteq> 0"
  shows "\<exists>w. expand (c_addi16sp_half v) = Some w \<and> calc_word w"
proof -
  let ?x = "push_bit 12 (half_bits 9 1 v) OR push_bit 6 (half_bits 4 1 v) OR push_bit 5 (half_bits 6 1 v) OR
    push_bit 3 (half_bits 7 3 v) OR push_bit 2 (half_bits 5 1 v)" and ?h = "c_addi16sp_half v"
  have x: "within ({2..6} \<union> {12}) ?x" by (auto simp: within_def bit_simps bit_half)
  have h: "?h = push_bit 13 3 OR ?x OR push_bit 7 2 OR 1"
    by (simp only: c_addi16sp_half_def or.assoc or.commute or.left_commute)
  have two: "low 5 2" by (simp add: low_def)
  note F = rd_form [OF low_numerals(4) x two low_numerals(9) h]
  have bits: "bit ?h 12 = bit v 9" "bit ?h 6 = bit v 4" "bit ?h 5 = bit v 6" "bit ?h 4 = bit v 8" "bit ?h 3 = bit v 7" "bit ?h 2 = bit v 5"
    unfolding h by (auto simp: bit_simps bit_half)
  have "c_imm_addi16sp (up ?h) \<noteq> 0"
  proof
    assume "c_imm_addi16sp (up ?h) = 0"
    then have z: "\<not> bit v n" if "4 \<le> n" "n < 10" for n
      using that bits unfolding addi16sp_zero by (auto simp: gather_zero numeral_eq_Suc less_Suc_eq simp del: gather.simps)
    have e: "(0x3F0 :: u32) = push_bit 4 (mask 6)" by (simp add: mask_eq_exp_minus_1)
    have "4 \<le> n \<and> n < 10" if "bit (0x3F0 :: u32) n" for n
      using that unfolding e by (simp only: bit_push_bit_iff bit_mask_iff) auto
    with z have "v AND 0x3F0 = 0" by (intro bit_word_eqI) (auto simp: bit_and_iff)
    with assms show False by simp
  qed
  with F show ?thesis by (simp add: expand_quadrants expand_q1_def Let_def calc_types)
qed

section \<open>Memory operands\<close>

text \<open>A word that reads or writes \<open>sz\<close> bytes at \<open>off\<close> past the register \<open>r\<close>.\<close>

definition mem_word :: "u32 \<Rightarrow> nat \<Rightarrow> nat \<Rightarrow> nat \<Rightarrow> bool" where
  "mem_word w r off sz \<longleftrightarrow> rs1 w = of_nat r \<and>
     (opcode w = 0x03 \<and> imm_i w = of_nat off \<and> map_option fst (load_kind (funct3 w)) = Some sz \<or>
      opcode w = 0x23 \<and> imm_s w = of_nat off \<and> store_size (funct3 w) = Some sz \<or>
      opcode w = 0x2F \<and> off = 0 \<and> amo_size w = Some sz \<and>
        drop_bit 2 (funct7 w) \<in> {0x00, 0x01, 0x02, 0x03, 0x04, 0x08, 0x0C, 0x10, 0x14, 0x18, 0x1C})"

lemma small_offset:
  assumes "off < 2048"
  shows "fits 11 (of_nat off)" "(ucast (of_nat off :: u32) :: u64) = of_nat off" "signed_take_bit 11 (of_nat off :: u64) = of_nat off"
proof -
  show f: "fits 11 (of_nat off)" using fits_of_nat [of off 11] assms by simp
  show u: "(ucast (of_nat off :: u32) :: u64) = of_nat off" using assms by (simp add: unsigned_of_nat take_bit_nat_eq_self)
  show "signed_take_bit 11 (of_nat off :: u64) = of_nat off" using signed_fits [OF f] unfolding u .
qed

lemma mem_load:
  assumes "off < 2048" "r < 32" "fits 5 d" "fits 3 f3" "map_option fst (load_kind f3) = Some sz"
  shows "mem_word (i_type (of_nat off) (of_nat r) f3 d 0x03) r off sz"
proof -
  have o: "fits 7 0x03" by (simp add: fits_def)
  note f = fits_reg [OF assms(2)] assms(4,3) o
  show ?thesis
    unfolding mem_word_def i_type_fields [OF f] imm_i_i_type [OF f] small_offset(2,3) [OF assms(1)]
    using assms(5) by simp
qed

lemma mem_store:
  assumes "off < 2048" "r < 32" "fits 5 s" "fits 3 f3" "store_size f3 = Some sz"
  shows "mem_word (s_type (of_nat off) s (of_nat r) f3 0x23) r off sz"
proof -
  have o: "fits 7 0x23" by (simp add: fits_def)
  note f = fits_reg [OF assms(2)] assms(4,3) o and v = small_offset(1) [OF assms(1)]
  have "fits 12 (of_nat off)" using fits_mono [OF v] by simp
  then show ?thesis
    unfolding mem_word_def s_type_fields [OF f] imm_s_s_type [OF f \<open>fits 12 (of_nat off)\<close>]
      small_offset(2,3) [OF assms(1)] using assms(5) by simp
qed

lemma table_imm:
  assumes "ucast x = gather tab h" and "fits k v" and "k \<le> 32"
    and "\<And>n. n < k \<Longrightarrow> (\<exists>(s, d) \<in> set tab. bit h s \<and> d = n) = bit v n"
    and "\<forall>(s, d) \<in> set tab. k \<le> d \<longrightarrow> \<not> bit h s"
  shows "x = v"
proof (rule imm_from_table [OF assms(1)])
  fix n
  show "(\<exists>(s, d) \<in> set tab. bit h s \<and> d = n) = bit v n"
  proof (cases "n < k")
    case False
    with assms(5) fitsD [OF assms(2), of n] show ?thesis by (auto simp: not_less)
  qed (rule assms(4))
qed

lemma cl_imm_within: "within ({2..6} \<union> {10..12}) (cl_imm wide v OR push_bit 2 b)" if "low 3 b"
  using lowD [OF that] by (force simp: within_def cl_imm_def bit_simps bit_half)

lemma cl_bits:
  assumes "low 3 a" "low 3 b" and "h = push_bit 13 f3 OR (cl_imm wide v OR push_bit 2 b) OR push_bit 7 a OR 0"
  shows "bit h 12 = bit v 5" "bit h 11 = bit v 4" "bit h 10 = bit v 3"
    "bit h 6 = (if wide then bit v 7 else bit v 2)" "bit h 5 = bit v 6"
  unfolding assms(3) cl_imm_def by (auto simp: bit_simps bit_half dest: lowD [OF assms(1)] lowD [OF assms(2)])

lemma cl_access:
  assumes "8 \<le> r" "r < 16" "8 \<le> d" "d < 16" and "q < 32" and "off = (if wide then 8 else 4) * q"
  shows "\<exists>w. expand (cl_half wide store r d (of_nat off)) = Some w \<and> mem_word w r off (if wide then 8 else 4)"
proof -
  define a b :: u16 where "a = of_nat (r - 8)" and "b = of_nat (d - 8)"
  have a: "low 3 a" and b: "low 3 b" unfolding a_def b_def by (rule low_regs(2), use assms in simp)+
  define f3 :: u16 where "f3 = (if store then if wide then 7 else 6 else if wide then 3 else 2)"
  have f3: "low 3 f3" by (simp add: f3_def)
  let ?v = "of_nat off :: u32" and ?h = "cl_half wide store r d (of_nat off)"
  have h: "?h = push_bit 13 f3 OR (cl_imm wide ?v OR push_bit 2 b) OR push_bit 7 a OR 0"
    by (simp only: cl_half_def f3_def [symmetric] a_def [symmetric] b_def [symmetric] or.right_neutral or.left_neutral or.assoc or.commute or.left_commute)
  note F = rs1_form [OF f3 cl_imm_within [OF b] a low_numerals(1) h] and bits = cl_bits [OF a b h]
  have r: "8 + up a = of_nat r" using up_reg' [of r] assms unfolding a_def by simp
  have off: "off < 2 ^ (if wide then 8 else 7)" "off < 2048" "off = push_bit (if wide then 3 else 2) q"
    using assms(5,6) by (auto simp: push_bit_eq_mult)
  note v = fits_of_nat [OF off(1)]
  have z: "\<not> bit ?v 0" "\<not> bit ?v 1" "wide \<Longrightarrow> \<not> bit ?v 2" unfolding off(3) by (auto simp: bit_simps)
  have "c_imm_ld (up ?h) = ?v" if "wide"
    by (rule table_imm [OF imm_tables(3) v]) (use bits z that in \<open>auto simp: numeral_eq_Suc less_Suc_eq\<close>)
  moreover have "c_imm_lw (up ?h) = ?v" if "\<not> wide"
    by (rule table_imm [OF imm_tables(2) v]) (use bits z that in \<open>auto simp: numeral_eq_Suc less_Suc_eq\<close>)
  ultimately show ?thesis
    using F r off(2) assms(2) by (auto simp: expand_quadrants expand_q0_def Let_def f3_def load_kind_def store_size_def
        intro!: mem_load mem_store)
qed

end
