(* ===== verification/Gen_Jumps.thy ===== *)
theory Gen_Jumps
  imports Gen_Compressed
begin

text \<open>
  The stack-pointer forms and the compressed control transfers of generated programs.
\<close>

lemma css_access:
  assumes "s < 32" and "q < 64" and "off = (if wide then 8 else 4) * q"
  shows "\<exists>w. expand (css_half wide s (of_nat off)) = Some w \<and> mem_word w 2 off (if wide then 8 else 4)"
proof -
  define s2 :: u16 where "s2 = of_nat s"
  have s2: "low 5 s2" unfolding s2_def by (rule low_regs(1)) (rule assms(1))
  let ?v = "of_nat off :: u32" and ?h = "css_half wide s (of_nat off)"
  let ?x = "(if wide then push_bit 10 (half_bits 3 7 ?v) OR push_bit 7 (half_bits 6 7 ?v)
    else push_bit 9 (half_bits 2 0xF ?v) OR push_bit 7 (half_bits 6 3 ?v)) OR push_bit 2 s2"
  have x: "within {2..12} ?x" using lowD [OF s2] by (force simp: within_def bit_simps bit_half)
  define f3 :: u16 where "f3 = (if wide then 7 else 6)"
  have f3: "low 3 f3" by (simp add: f3_def)
  have h: "?h = push_bit 13 f3 OR ?x OR 2"
    by (cases wide) (simp_all only: css_half_def f3_def s2_def if_True if_False simp_thms or.assoc)
  note F = bare_form [OF f3 x low_numerals(10) h]
  have off: "off < 2 ^ (if wide then 9 else 8)" "off < 2048" "off = push_bit (if wide then 3 else 2) q"
    using assms by (auto simp: push_bit_eq_mult)
  note v = fits_of_nat [OF off(1)]
  have z: "\<not> bit ?v 0" "\<not> bit ?v 1" "wide \<Longrightarrow> \<not> bit ?v 2" unfolding off(3) by (auto simp: bit_simps)
  have bits: "bit ?h 12 = bit ?v 5" "bit ?h 11 = bit ?v 4" "bit ?h 10 = bit ?v 3" "bit ?h 9 = (if wide then bit ?v 8 else bit ?v 2)"
    "bit ?h 8 = bit ?v 7" "bit ?h 7 = bit ?v 6"
    unfolding h f3_def by (auto simp: bit_simps bit_half dest: lowD [OF s2])
  have "c_imm_sdsp (up ?h) = ?v" if "wide"
    by (rule table_imm [OF imm_tables_sp(5) v]) (use bits z that in \<open>auto simp: numeral_eq_Suc less_Suc_eq\<close>)
  moreover have "c_imm_swsp (up ?h) = ?v" if "\<not> wide"
    by (rule table_imm [OF imm_tables_sp(4) v]) (use bits z that in \<open>auto simp: numeral_eq_Suc less_Suc_eq\<close>)
  ultimately show ?thesis
    using F off(2) mem_store [OF off(2), of 2 "c_rs2 (up ?h)"]
    by (auto simp: expand_quadrants expand_q2_def Let_def f3_def store_size_def)
qed

lemma clsp_access:
  assumes "1 \<le> d" "d < 32" and "q < 64" and "off = (if wide then 8 else 4) * q"
  shows "\<exists>w. expand (clsp_half wide d (of_nat off)) = Some w \<and> mem_word w 2 off (if wide then 8 else 4)"
proof -
  let ?v = "of_nat off :: u32" and ?h = "clsp_half wide d (of_nat off)"
  define x :: u16 where "x = push_bit 12 (half_bits 5 1 ?v) OR
    (if wide then push_bit 5 (half_bits 3 3 ?v) OR push_bit 2 (half_bits 6 7 ?v)
     else push_bit 4 (half_bits 2 7 ?v) OR push_bit 2 (half_bits 6 3 ?v))"
  have x: "within ({2..6} \<union> {12}) x" unfolding x_def by (force simp: within_def bit_simps bit_half)
  define f3 :: u16 where "f3 = (if wide then 3 else 2)"
  have f3: "low 3 f3" by (simp add: f3_def)
  have h: "?h = push_bit 13 f3 OR x OR push_bit 7 (of_nat d) OR 2"
    by (cases wide) (simp_all only: clsp_half_def f3_def x_def if_True if_False simp_thms or.assoc or.commute or.left_commute)
  note F = rd_form [OF f3 x low_regs(1) [OF assms(2)] low_numerals(10) h]
  have d: "(of_nat d :: u32) \<noteq> 0" using of_nat_reg [of d 0] assms by auto
  have off: "off < 2 ^ (if wide then 9 else 8)" "off < 2048" "off = push_bit (if wide then 3 else 2) q"
    using assms by (auto simp: push_bit_eq_mult)
  note v = fits_of_nat [OF off(1)]
  have z: "\<not> bit ?v 0" "\<not> bit ?v 1" "wide \<Longrightarrow> \<not> bit ?v 2" unfolding off(3) by (auto simp: bit_simps)
  have bits: "bit ?h 12 = bit ?v 5" "bit ?h 6 = bit ?v 4" "bit ?h 5 = bit ?v 3" "bit ?h 4 = (if wide then bit ?v 8 else bit ?v 2)"
    "bit ?h 3 = bit ?v 7" "bit ?h 2 = bit ?v 6"
    unfolding h f3_def x_def using assms(2) by (auto simp: bit_simps bit_half dest: nat_low5)
  have "c_imm_ldsp (up ?h) = ?v" if "wide"
    by (rule table_imm [OF imm_tables_sp(3) v]) (use bits z that in \<open>auto simp: numeral_eq_Suc less_Suc_eq\<close>)
  moreover have "c_imm_lwsp (up ?h) = ?v" if "\<not> wide"
    by (rule table_imm [OF imm_tables_sp(2) v]) (use bits z that in \<open>auto simp: numeral_eq_Suc less_Suc_eq\<close>)
  ultimately show ?thesis
    using F off(2) d up_reg [OF assms(2)] mem_load [OF off(2), of 2 "of_nat d"] assms(2)
    by (auto simp: expand_quadrants expand_q2_def Let_def f3_def load_kind_def)
qed

section \<open>Control transfers\<close>

lemma gather_is:
  assumes "d < 2 ^ k" and "k \<le> 63" and "\<And>n. n < k \<Longrightarrow> (\<exists>(s, e) \<in> set tab. bit h s \<and> e = n) = bit d n"
    and "\<forall>(s, e) \<in> set tab. k \<le> e \<longrightarrow> \<not> bit h s"
  shows "gather tab h = of_nat d"
proof (rule bit_word_eqI)
  fix n :: nat
  assume "n < LENGTH(64)"
  then show "bit (gather tab h) n = bit (of_nat d :: u64) n"
    using assms(3) [of n] assms(4) nat_low [OF assms(1), of n]
    by (cases "n < k") (auto simp: bit_gather bit_of_nat_iff not_less)
qed

lemma signed_of_nat:
  assumes "d < 2 ^ k"
  shows "signed_take_bit k (of_nat d :: u64) = of_nat d"
  by (rule bit_word_eqI) (auto simp: bit_simps min_def dest: nat_low [OF assms])

lemma below_8: "(n :: nat) < 8 \<Longrightarrow> 7 = n \<or> 5 = n \<or> 3 = n \<or> 1 = n \<or> 6 = n \<or> 4 = n \<or> 2 = n \<or> 0 = n"
  by linarith

lemma below_11: "(n :: nat) < 11 \<Longrightarrow> 10 = n \<or> 8 = n \<or> 6 = n \<or> 4 = n \<or> 2 = n \<or> 0 = n \<or> 9 = n \<or> 7 = n \<or> 5 = n \<or> 3 = n \<or> 1 = n"
  by presburger

lemma cb_branch:
  assumes "8 \<le> r" "r < 16" and "d < 256" and "even d"
  shows "\<exists>w. expand (cb_half ne r (of_nat d)) = Some w \<and> opcode w = 0x63 \<and> (funct3 w = 0 \<or> funct3 w = 1) \<and> imm_b w = of_nat d"
proof -
  define a :: u16 where "a = of_nat (r - 8)"
  have a: "low 3 a" unfolding a_def by (rule low_regs(2)) (use assms in simp)
  let ?v = "of_nat d :: u32" and ?h = "cb_half ne r (of_nat d)"
  define x :: u16 where "x = push_bit 12 (half_bits 8 1 ?v) OR push_bit 10 (half_bits 3 3 ?v) OR push_bit 5 (half_bits 6 3 ?v) OR
    push_bit 3 (half_bits 1 3 ?v) OR push_bit 2 (half_bits 5 1 ?v)"
  have x: "within ({2..6} \<union> {10..12}) x" unfolding x_def by (force simp: within_def bit_simps bit_half)
  define f3 :: u16 where "f3 = (if ne then 7 else 6)"
  have f3: "low 3 f3" by (simp add: f3_def)
  have h: "?h = push_bit 13 f3 OR x OR push_bit 7 a OR 1"
    by (simp only: cb_half_def f3_def [symmetric] x_def a_def [symmetric] or.assoc or.commute or.left_commute)
  note F = rs1_form [OF f3 x a low_numerals(9) h]
  have b0: "\<not> bit d 0" using assms(4) by (simp add: bit_0)
  have d: "d < 2 ^ 8" using assms(3) by simp
  have hi: "\<not> bit d 8" using nat_low [OF d, of 8] by auto
  have bits: "bit ?h 12 = bit d 8" "bit ?h 11 = bit d 4" "bit ?h 10 = bit d 3" "bit ?h 6 = bit d 7" "bit ?h 5 = bit d 6"
    "bit ?h 4 = bit d 2" "bit ?h 3 = bit d 1" "bit ?h 2 = bit d 5"
    unfolding h x_def by (auto simp: bit_simps bit_half dest: lowD [OF f3] lowD [OF a]) (simp_all add: numeral_2_eq_2)
  have g: "gather b_tab ?h = of_nat d"
  proof (rule gather_is [OF d])
    show "(\<exists>(s, e) \<in> set b_tab. bit ?h s \<and> e = n) = bit d n" if "n < 8" for n
      using below_8 [OF that] b0 by (elim disjE) (simp_all add: bits)
  qed (simp_all add: bits hi)
  have s: "signed_take_bit 12 (ucast (c_imm_branch (up ?h))) = (of_nat d :: u64)"
    unfolding imm_tables_signed(1) g by (rule signed_of_nat [OF d])
  have o: "fits 7 0x63" by (simp add: fits_def)
  have z: "fits 5 0" "fits 3 0" "fits 3 1" by (simp_all add: fits_def)
  let ?w = "\<lambda>f. b_type (c_imm_branch (up ?h)) 0 (c_rs1p (up ?h)) f 0x63"
  have w: "opcode (?w f) = 0x63" "funct3 (?w f) = f" "imm_b (?w f) = of_nat d" if "fits 3 f" for f
    using b_type_fields(1,4) [OF c_regs_fit(4) that z(1) o] imm_b_b_type [OF c_regs_fit(4) that z(1) o even_offsets(1)] s by simp_all
  have "expand ?h = Some (?w (if ne then 1 else 0))"
    using F(1,2) by (cases ne) (simp_all add: expand_quadrants expand_q1_def Let_def f3_def)
  moreover have "fits 3 (if ne then 1 else 0)" using z by simp
  ultimately show ?thesis using w [of "if ne then 1 else 0"] by (cases ne) auto
qed

lemma cj_jump:
  assumes "d < 2048" and "even d"
  shows "\<exists>w. expand (cj_half (of_nat d)) = Some w \<and> opcode w = 0x6F \<and> imm_j w = of_nat d"
proof -
  let ?v = "of_nat d :: u32" and ?h = "cj_half (of_nat d)"
  define x :: u16 where "x = push_bit 12 (half_bits 11 1 ?v) OR push_bit 11 (half_bits 4 1 ?v) OR push_bit 9 (half_bits 8 3 ?v) OR
    push_bit 8 (half_bits 10 1 ?v) OR push_bit 7 (half_bits 6 1 ?v) OR push_bit 6 (half_bits 7 1 ?v) OR
    push_bit 3 (half_bits 1 7 ?v) OR push_bit 2 (half_bits 5 1 ?v)"
  have x: "within {2..12} x" unfolding x_def by (force simp: within_def bit_simps bit_half)
  have h: "?h = push_bit 13 5 OR x OR 1" by (simp only: cj_half_def x_def or.assoc)
  note F = bare_form [OF low_numerals(6) x low_numerals(9) h]
  have b0: "\<not> bit d 0" using assms(2) by (simp add: bit_0)
  have d: "d < 2 ^ 11" using assms(1) by simp
  have hi: "\<not> bit d 11" using nat_low [OF d, of 11] by auto
  have bits: "bit ?h 12 = bit d 11" "bit ?h 11 = bit d 4" "bit ?h 10 = bit d 9" "bit ?h 9 = bit d 8" "bit ?h 8 = bit d 10"
    "bit ?h 7 = bit d 6" "bit ?h 6 = bit d 7" "bit ?h 5 = bit d 3" "bit ?h 4 = bit d 2" "bit ?h 3 = bit d 1" "bit ?h 2 = bit d 5"
    unfolding h x_def by (auto simp: bit_simps bit_half) (simp_all add: numeral_2_eq_2 numeral_3_eq_3)
  have g: "gather j_tab ?h = of_nat d"
  proof (rule gather_is [OF d])
    show "(\<exists>(s, e) \<in> set j_tab. bit ?h s \<and> e = n) = bit d n" if "n < 11" for n
      using below_11 [OF that] b0 by (elim disjE) (simp_all add: bits)
  qed (simp_all add: bits hi)
  have s: "signed_take_bit 20 (ucast (c_imm_jump (up ?h))) = (of_nat d :: u64)"
    unfolding imm_tables_signed(2) g by (rule signed_of_nat [OF d])
  have o: "fits 7 0x6F" "fits 5 0" by (simp_all add: fits_def)
  show ?thesis
    using F j_type_fields [OF o(2,1)] imm_j_j_type [OF o(2,1) even_offsets(2)] s
    by (auto simp: expand_quadrants expand_q1_def Let_def)
qed

lemma cjr_jump:
  assumes "1 \<le> r" "r < 32"
  shows "\<exists>w. expand (cjr_half l r) = Some w \<and> opcode w = 0x67 \<and> rs1 w = of_nat r \<and> imm_i w = 0"
proof -
  define x :: u16 where "x = (if l then 1 else 0)"
  have x: "low 1 x" by (simp add: x_def)
  have h: "cjr_half l r = push_bit 13 4 OR push_bit 12 x OR push_bit 7 (of_nat r) OR push_bit 2 0 OR 2"
    by (cases l) (simp_all only: cjr_half_def x_def c_consts if_True if_False push_bit_of_0 or.left_neutral or.assoc or.commute or.left_commute)
  note F = ci_form [OF low_numerals(5) x low_regs(1) [OF assms(2)] low_numerals(1) low_numerals(10) h]
  have d: "(of_nat r :: u32) \<noteq> 0" using of_nat_reg [of r 0] assms by auto
  have o: "fits 7 0x67" "fits 5 0" "fits 5 1" "fits 3 0" by (simp_all add: fits_def)
  note f = fits_reg [OF assms(2)]
  note I = i_type_fields [OF f o(4,2,1), of 0] imm_i_i_type [OF f o(4,2,1), of 0] i_type_fields [OF f o(4,3,1), of 0] imm_i_i_type [OF f o(4,3,1), of 0]
  show ?thesis
    using F d I up_reg [OF assms(2)] by (cases l) (simp_all add: expand_quadrants expand_q2_def Let_def x_def)
qed

end
