(* ===== verification/Xorshift.thy ===== *)
theory Xorshift
  imports Gen
begin

text \<open>
  The period of the random numbers (\<open>Rng::next_u64\<close>). A round is linear over the two-element field,
  and satisfies a polynomial of degree 64, so its powers are computed as polynomials reduced by
  that one. A polynomial is the list of its coefficients, the highest first. The round has order
  \<open>2^64 - 1\<close>, and no smaller power of it fixes a nonzero state: every nonzero state is reached from
  every other, so a loop that draws again until it likes the number ends.
\<close>

section \<open>A round is linear\<close>

lemma xorshift_xor: "xorshift (x XOR y) = xorshift x XOR xorshift y"
  by (simp add: xorshift_def Let_def push_bit_xor drop_bit_xor ac_simps)

lemma xorshift_zero [simp]: "xorshift 0 = 0"
  by (simp add: xorshift_def)

lemma pow_xor: "(xorshift ^^ n) (x XOR y) = (xorshift ^^ n) x XOR (xorshift ^^ n) y"
  by (induction n) (simp_all add: xorshift_xor)

lemma pow_zero [simp]: "(xorshift ^^ n) 0 = 0"
  by (induction n) simp_all

text \<open>A polynomial of the round, applied to a state.\<close>

definition sel :: "bool \<Rightarrow> u64 \<Rightarrow> u64" where
  "sel b x = (if b then x else 0)"

definition ev :: "bool list \<Rightarrow> u64 \<Rightarrow> u64" where
  "ev q x = foldl (\<lambda>a b. xorshift a XOR sel b x) 0 q"

lemma ev_Nil [simp]: "ev [] x = 0"
  by (simp add: ev_def)

lemma ev_snoc [simp]: "ev (q @ [b]) x = xorshift (ev q x) XOR sel b x"
  by (simp add: ev_def)

lemma sel_xor: "sel b (x XOR y) = sel b x XOR sel b y"
  by (simp add: sel_def)

lemma ev_xor: "ev q (x XOR y) = ev q x XOR ev q y"
  by (induction q rule: rev_induct) (simp_all add: xorshift_xor sel_xor ac_simps)

lemma ev_zero [simp]: "ev q 0 = 0"
  by (induction q rule: rev_induct) (simp_all add: sel_def)

lemma ev_commute: "ev q (xorshift x) = xorshift (ev q x)"
  by (induction q rule: rev_induct) (simp_all add: xorshift_xor, simp add: sel_def)

lemma ev_Cons: "ev (b # q) x = (xorshift ^^ length q) (sel b x) XOR ev q x"
proof (induction q rule: rev_induct)
  case (snoc c q)
  have "ev (b # q @ [c]) x = xorshift (ev (b # q) x) XOR sel c x" by (simp flip: append_Cons)
  with snoc show ?case by (simp add: xorshift_xor ac_simps)
qed (simp add: ev_def)

section \<open>Polynomials modulo the characteristic one\<close>

fun padd :: "bool list \<Rightarrow> bool list \<Rightarrow> bool list" where
  "padd (x # xs) (True # ys) = (\<not> x) # padd xs ys"
| "padd (x # xs) (False # ys) = x # padd xs ys"
| "padd _ _ = []"

fun snoc_bit :: "bool list \<Rightarrow> bool \<Rightarrow> bool list" where
  "snoc_bit [] b = [b]"
| "snoc_bit (x # xs) b = x # snoc_bit xs b"

lemma snoc_bit [simp]: "snoc_bit xs b = xs @ [b]"
  by (induction xs) simp_all

lemma length_padd [simp]: "length (padd p q) = min (length p) (length q)"
  by (induction p q rule: padd.induct) simp_all

lemma ev_padd: "length p = length q \<Longrightarrow> ev (padd p q) x = ev p x XOR ev q x"
proof (induction p q rule: padd.induct)
  case (1 b bs cs)
  then show ?case by (cases b) (simp_all add: ev_Cons sel_def ac_simps)
next
  case (2 b bs cs)
  then show ?case by (cases b) (simp_all add: ev_Cons sel_def ac_simps)
qed simp_all

text \<open>The digits of the polynomials below.\<close>

abbreviation lo0 :: bool where "lo0 \<equiv> False"
abbreviation hi1 :: bool where "hi1 \<equiv> True"

text \<open>The polynomial without its leading term, which is the 64th power.\<close>

definition char_poly :: "bool list" where
  "char_poly =
     [lo0, lo0, lo0, lo0, lo0, lo0, lo0, hi1, lo0, lo0, hi1, hi1, hi1, hi1, hi1,
      lo0, hi1, hi1, lo0, hi1, lo0, hi1, lo0, lo0, hi1, lo0, hi1, lo0, lo0, lo0, hi1,
      hi1, lo0, hi1, lo0, hi1, hi1, lo0, lo0, lo0, hi1, lo0, lo0, hi1, lo0, lo0,
      lo0, hi1, lo0, lo0, hi1, hi1, lo0, lo0, hi1, lo0, lo0, lo0, lo0, lo0, lo0,
      lo0, lo0, hi1]"

text \<open>Times the unknown, plus a constant; a square; a power with the bits of the exponent; a product.\<close>

fun shift_in :: "bool list \<Rightarrow> bool \<Rightarrow> bool list" where
  "shift_in (True # xs) b = padd (snoc_bit xs b) char_poly"
| "shift_in (False # xs) b = snoc_bit xs b"
| "shift_in [] b = []"

fun square_from :: "bool list \<Rightarrow> bool list \<Rightarrow> bool list" where
  "square_from r [] = r"
| "square_from r (b # bs) = square_from (shift_in (shift_in r False) b) bs"

definition zero64 :: "bool list" where "zero64 = replicate 64 False"
definition one64 :: "bool list" where "one64 = replicate 63 False @ [True]"

fun power_from :: "bool list \<Rightarrow> bool list \<Rightarrow> bool list" where
  "power_from r [] = r"
| "power_from r (b # bs) =
     (let s = square_from zero64 r in power_from (if b then shift_in s False else s) bs)"

fun times_from :: "bool list \<Rightarrow> bool list \<Rightarrow> bool list \<Rightarrow> bool list" where
  "times_from w r [] = r"
| "times_from w r (b # bs) = times_from w (if b then padd (shift_in r False) w else shift_in r False) bs"

section \<open>The characteristic polynomial\<close>

text \<open>A round on the list of the bits, the lowest first.\<close>

definition word_bits :: "u64 \<Rightarrow> bool list" where
  "word_bits x = map (bit x) [0..<64]"

fun drop7 :: "bool list \<Rightarrow> bool list" where
  "drop7 (a # b # c # d # e # f # g # r) = r"
| "drop7 _ = []"

fun round_13 :: "bool list \<Rightarrow> bool list" where "round_13 l = padd l (lo0 # lo0 # lo0 # lo0 # lo0 # lo0 # lo0 # lo0 # lo0 # lo0 # lo0 # lo0 # lo0 # l)"
fun round_7 :: "bool list \<Rightarrow> bool list" where "round_7 l = padd l (drop7 l @ [lo0, lo0, lo0, lo0, lo0, lo0, lo0])"
fun round_17 :: "bool list \<Rightarrow> bool list" where "round_17 l = padd l (lo0 # lo0 # lo0 # lo0 # lo0 # lo0 # lo0 # lo0 # lo0 # lo0 # lo0 # lo0 # lo0 # lo0 # lo0 # lo0 # lo0 # l)"

definition round_bits :: "bool list \<Rightarrow> bool list" where
  "round_bits l = round_17 (round_7 (round_13 l))"

fun ev_bits :: "bool list \<Rightarrow> bool list \<Rightarrow> bool list \<Rightarrow> bool list" where
  "ev_bits a [] x = a"
| "ev_bits a (b # bs) x = ev_bits (if b then padd (round_bits a) x else round_bits a) bs x"

fun kills_from :: "nat \<Rightarrow> bool list \<Rightarrow> bool" where
  "kills_from 0 u \<longleftrightarrow> True"
| "kills_from (Suc n) u \<longleftrightarrow> ev_bits zero64 (True # char_poly) u = zero64 \<and> kills_from n (butlast (False # u))"

lemma char_poly_kills_units: "kills_from 64 (True # replicate 63 False)"
  by code_simp

lemma nth_padd: "i < length p \<Longrightarrow> i < length q \<Longrightarrow> padd p q ! i = (p ! i \<noteq> q ! i)"
proof (induction p q arbitrary: i rule: padd.induct)
  case (1 x xs ys)
  then show ?case by (cases i) simp_all
next
  case (2 x xs ys)
  then show ?case by (cases i) simp_all
qed simp_all

lemma drop7 [simp]: "7 \<le> length l \<Longrightarrow> drop7 l = drop 7 l"
  by (induction l rule: drop7.induct) simp_all

lemma length_word_bits [simp]: "length (word_bits x) = 64"
  by (simp add: word_bits_def)

lemma nth_word_bits [simp]: "i < 64 \<Longrightarrow> word_bits x ! i = bit x i"
  by (simp add: word_bits_def)

lemma word_bits_xor: "padd (word_bits x) (word_bits y) = word_bits (x XOR y)"
  by (rule nth_equalityI) (simp_all add: nth_padd bit_simps)

lemma word_bits_inject [simp]: "word_bits x = word_bits y \<longleftrightarrow> x = y"
proof
  assume "word_bits x = word_bits y"
  then have "bit x i = bit y i" if "i < 64" for i using that by (metis nth_word_bits)
  then show "x = y" by (intro bit_word_eqI) simp
qed simp

lemma padd_shifted:
  "padd (word_bits x) (replicate n False @ word_bits x) = word_bits (x XOR push_bit n x)"
  by (rule nth_equalityI) (auto simp: nth_padd nth_append bit_simps)

lemma round_bits: "round_bits (word_bits x) = word_bits (xorshift x)"
proof -
  have 13: "round_13 (word_bits x) = word_bits (x XOR push_bit 13 x)" for x
    using padd_shifted [of x 13] by (simp add: numeral_eq_Suc)
  have 17: "round_17 (word_bits x) = word_bits (x XOR push_bit 17 x)" for x
    using padd_shifted [of x 17] by (simp add: numeral_eq_Suc)
  have "padd (word_bits x) (drop 7 (word_bits x) @ replicate 7 False) = word_bits (x XOR drop_bit 7 x)" for x
    by (rule nth_equalityI) (auto simp: nth_padd nth_append bit_simps dest: bit_imp_le_length)
  then have 7: "round_7 (word_bits x) = word_bits (x XOR drop_bit 7 x)" for x
    by (simp add: numeral_eq_Suc)
  show ?thesis by (simp only: round_bits_def 13 7 17 xorshift_def Let_def)
qed

lemma ev_bits: "ev_bits (word_bits a) q (word_bits x) = word_bits (foldl (\<lambda>a b. xorshift a XOR sel b x) a q)"
  by (induction q arbitrary: a) (simp_all add: round_bits word_bits_xor, simp add: sel_def)

lemma zero64: "zero64 = word_bits 0"
  by (rule nth_equalityI) (simp_all add: zero64_def)

lemma shifted_bits: "n = 1 \<Longrightarrow> butlast (False # word_bits x) = word_bits (push_bit n x)"
proof (rule nth_equalityI)
  fix i assume n: "n = 1" and "i < length (butlast (False # word_bits x))"
  then have i: "i < 64" by (simp del: butlast.simps)
  have "bit (push_bit n x) i = (n \<le> i \<and> bit x (i - n))" using i by (auto simp only: bit_push_bit_iff) simp
  with i n show "butlast (False # word_bits x) ! i = word_bits (push_bit n x) ! i"
    by (cases i) (simp_all add: nth_butlast del: push_bit_Suc butlast.simps)
qed (simp del: butlast.simps)

lemma kills_from: "kills_from n (word_bits x) \<Longrightarrow> j < n \<Longrightarrow> ev (True # char_poly) (push_bit j x) = 0"
proof (induction n arbitrary: x j)
  case (Suc n)
  obtain m :: nat where m: "m = 1" by simp
  have k: "kills_from n (word_bits (push_bit m x))" and e: "ev (True # char_poly) x = 0"
    using Suc.prems(1) shifted_bits [OF m, of x] unfolding kills_from.simps zero64 ev_bits ev_def by simp_all
  show ?case
  proof (cases j)
    case (Suc i)
    with Suc.IH [OF k, of i] Suc.prems(2) m show ?thesis by (simp add: push_bit_push_bit del: push_bit_Suc)
  qed (use e in simp)
qed simp

lemma char_poly_kills: "ev (True # char_poly) x = 0"
proof -
  have unit: "True # replicate 63 False = word_bits 1"
    by (rule nth_equalityI) (auto simp: nth_Cons' bit_1_iff)
  have u: "ev (True # char_poly) (push_bit j 1) = 0" if "j < 64" for j
    using kills_from [OF char_poly_kills_units [unfolded unit] that] .
  have "n \<le> 64 \<Longrightarrow> ev (True # char_poly) (take_bit n x) = 0" for n
  proof (induction n)
    case (Suc n)
    have "take_bit (Suc n) x = take_bit n x XOR sel (bit x n) (push_bit n 1)"
      by (rule bit_word_eqI) (auto simp: sel_def bit_simps less_Suc_eq bit_1_iff)
    with Suc u [of n] show ?case by (simp add: ev_xor) (simp add: sel_def)
  qed simp
  from this [of 64] show ?thesis by (simp add: take_bit_word_eq_self)
qed

lemma length_char_poly [simp]: "length char_poly = 64"
  by (simp add: char_poly_def)

lemma xor_zeroD: "x XOR y = 0 \<Longrightarrow> y = (x :: u64)"
proof -
  assume "x XOR y = 0"
  then have "x XOR (x XOR y) = x" by simp
  then show "y = x" by (simp flip: xor.assoc)
qed

lemma ev_char_poly: "ev char_poly x = (xorshift ^^ 64) x"
proof -
  have "(xorshift ^^ 64) x XOR ev char_poly x = ev (True # char_poly) x"
    by (simp only: ev_Cons length_char_poly sel_def if_True)
  also have "\<dots> = 0" by (rule char_poly_kills)
  finally show ?thesis by (rule xor_zeroD)
qed

section \<open>Powers of a round\<close>

lemma shift_in:
  assumes "length r = 64"
  shows "length (shift_in r b) = 64 \<and> ev (shift_in r b) x = xorshift (ev r x) XOR sel b x"
proof -
  obtain h t where r: "r = h # t" and t: "length t = 63" using assms by (cases r) auto
  have "xorshift ((xorshift ^^ 63) x) = ev char_poly x" unfolding ev_char_poly by (simp add: numeral_eq_Suc)
  with t show ?thesis
    by (cases h) (simp_all add: r ev_padd ev_Cons xorshift_xor sel_def ac_simps)
qed

text \<open>Squaring is linear: only the squares of the terms remain.\<close>

lemma ev_twice_snoc: "ev (q @ [b]) (ev (q @ [b]) x) = xorshift (xorshift (ev q (ev q x))) XOR sel b x"
  by (cases b) (simp_all add: ev_xor ev_commute xorshift_xor sel_def ac_simps)

lemma square_from_snoc: "square_from r (q @ [b]) = shift_in (shift_in (square_from r q) False) b"
  by (induction q arbitrary: r) simp_all

lemma square: "length (square_from zero64 q) = 64 \<and> ev (square_from zero64 q) x = ev q (ev q x)"
proof (induction q rule: rev_induct)
  case Nil
  have "ev (replicate n False) x = 0" for n by (induction n) (simp_all add: ev_Cons sel_def)
  then show ?case by (simp add: zero64_def)
next
  case (snoc b q)
  with shift_in show ?case by (simp add: square_from_snoc ev_twice_snoc sel_def del: ev_snoc)
qed

lemma power_from:
  "length r = 64 \<Longrightarrow> (\<And>x. ev r x = (xorshift ^^ n) x) \<Longrightarrow>
   length (power_from r bs) = 64 \<and> ev (power_from r bs) x = (xorshift ^^ foldl (\<lambda>n b. 2 * n + of_bool b) n bs) x"
proof (induction bs arbitrary: r n)
  case (Cons b bs)
  let ?s = "square_from zero64 r"
  let ?t = "if b then shift_in ?s False else ?s"
  have s: "length ?s = 64" "ev ?s x = (xorshift ^^ (2 * n)) x" for x
    using square [of r] Cons.prems(2) by (simp_all add: mult_2 funpow_add)
  have t: "length ?t = 64" "ev ?t x = (xorshift ^^ (2 * n + of_bool b)) x" for x
    using shift_in [OF s(1)] s by (simp_all add: sel_def)
  show ?case using Cons.IH [OF t] by (simp add: Let_def)
qed simp

lemma one64: "length one64 = 64" "ev one64 x = x"
proof -
  have "ev (replicate n False @ [True]) x = x" for n
    by (induction n) (simp_all add: ev_Cons sel_def flip: append.simps(2) del: ev_snoc, simp add: sel_def ev_def)
  then show "ev one64 x = x" by (simp add: one64_def)
qed (simp add: one64_def)

lemma power:
  "ev (power_from one64 bs) x = (xorshift ^^ foldl (\<lambda>n b. 2 * n + of_bool b) 0 bs) x"
  using power_from [of one64 0 bs] one64 by simp

lemma times_from_snoc:
  "times_from w r (q @ [b]) =
     (let s = shift_in (times_from w r q) False in if b then padd s w else s)"
  by (induction q arbitrary: r) (simp_all add: Let_def)

lemma times:
  assumes "length w = 64"
  shows "length (times_from w zero64 q) = 64 \<and> ev (times_from w zero64 q) x = ev q (ev w x)"
proof (induction q rule: rev_induct)
  case Nil
  then show ?case using square [of "[]"] by simp
next
  case (snoc b q)
  with shift_in [of "times_from w zero64 q" False] assms show ?case
    by (simp add: times_from_snoc Let_def ev_padd sel_def)
qed

section \<open>The order of a round\<close>

lemma order: "(xorshift ^^ (2 ^ 64 - 1)) x = x"
proof -
  have "power_from one64
      [hi1, hi1, hi1, hi1, hi1, hi1, hi1, hi1, hi1, hi1, hi1, hi1, hi1, hi1, hi1, hi1, hi1,
       hi1, hi1, hi1, hi1, hi1, hi1, hi1, hi1, hi1, hi1, hi1, hi1, hi1, hi1, hi1, hi1, hi1,
       hi1, hi1, hi1, hi1, hi1, hi1, hi1, hi1, hi1, hi1, hi1, hi1, hi1, hi1, hi1, hi1, hi1,
       hi1, hi1, hi1, hi1, hi1, hi1, hi1, hi1, hi1, hi1, hi1, hi1, hi1] = one64"
    by code_simp
  moreover have "foldl (\<lambda>n b. 2 * n + of_bool b) 0
      [hi1, hi1, hi1, hi1, hi1, hi1, hi1, hi1, hi1, hi1, hi1, hi1, hi1, hi1, hi1, hi1, hi1,
       hi1, hi1, hi1, hi1, hi1, hi1, hi1, hi1, hi1, hi1, hi1, hi1, hi1, hi1, hi1, hi1, hi1,
       hi1, hi1, hi1, hi1, hi1, hi1, hi1, hi1, hi1, hi1, hi1, hi1, hi1, hi1, hi1, hi1, hi1,
       hi1, hi1, hi1, hi1, hi1, hi1, hi1, hi1, hi1, hi1, hi1, hi1, hi1] = (2 ^ 64 - 1 :: nat)"
    by simp
  ultimately show ?thesis using power [of _ x] one64(2) [of x] by metis
qed

text \<open>A power that fixes a nonzero state would be no unit away from the identity: the inverse of the
  difference, given as a polynomial, says otherwise.\<close>

definition inverse_at :: "bool list \<Rightarrow> bool list \<Rightarrow> bool list \<Rightarrow> bool" where
  "inverse_at bs w u \<longleftrightarrow> padd (power_from one64 bs) one64 = w \<and> times_from w zero64 u = one64"

lemma no_fixed_point:
  assumes "inverse_at bs w u" and "foldl (\<lambda>n b. 2 * n + of_bool b) 0 bs = n" and "(xorshift ^^ n) x = x"
  shows "x = 0"
proof -
  have w: "padd (power_from one64 bs) one64 = w" "times_from w zero64 u = one64"
    using assms(1) by (simp_all add: inverse_at_def)
  have len: "length (power_from one64 bs) = 64" using power_from [of one64 0 bs] one64 by simp
  then have "length w = 64" using w(1) one64(1) by auto
  have "ev w x = 0" using power [of bs x] assms(2,3) len one64 by (simp add: ev_padd flip: w(1))
  then have "ev (times_from w zero64 u) x = 0" using times [OF \<open>length w = 64\<close>, of u x] by simp
  then show ?thesis by (simp add: w(2) one64(2))
qed

lemma inverse_3:
  "inverse_at
      [lo0, hi1, lo0, hi1, lo0, hi1, lo0, hi1, lo0, hi1, lo0, hi1, lo0, hi1, lo0, hi1,
       lo0, hi1, lo0, hi1, lo0, hi1, lo0, hi1, lo0, hi1, lo0, hi1, lo0, hi1, lo0, hi1,
       lo0, hi1, lo0, hi1, lo0, hi1, lo0, hi1, lo0, hi1, lo0, hi1, lo0, hi1, lo0, hi1,
       lo0, hi1, lo0, hi1, lo0, hi1, lo0, hi1, lo0, hi1, lo0, hi1, lo0, hi1, lo0, hi1]
      [hi1, hi1, lo0, hi1, lo0, hi1, hi1, hi1, lo0, hi1, lo0, lo0, lo0, lo0, hi1, lo0,
       hi1, hi1, lo0, lo0, hi1, lo0, hi1, lo0, lo0, hi1, lo0, hi1, hi1, lo0, lo0, lo0,
       hi1, hi1, hi1, hi1, lo0, hi1, lo0, hi1, hi1, hi1, lo0, hi1, lo0, hi1, hi1, hi1, hi1,
       lo0, lo0, lo0, lo0, hi1, lo0, hi1, hi1, hi1, hi1, lo0, lo0, lo0, hi1, hi1]
      [hi1, hi1, lo0, hi1, lo0, hi1, hi1, hi1, lo0, hi1, lo0, lo0, lo0, lo0, hi1, lo0,
       hi1, hi1, lo0, lo0, hi1, lo0, hi1, lo0, lo0, hi1, lo0, hi1, hi1, lo0, lo0, lo0,
       hi1, hi1, hi1, hi1, lo0, hi1, lo0, hi1, hi1, hi1, lo0, hi1, lo0, hi1, hi1, hi1, hi1,
       lo0, lo0, lo0, lo0, hi1, lo0, hi1, hi1, hi1, hi1, lo0, lo0, lo0, hi1, lo0]"
  by code_simp

lemma no_fixed_3: "(xorshift ^^ 6148914691236517205) x = x \<Longrightarrow> x = 0"
  by (rule no_fixed_point [OF inverse_3]) simp_all

lemma inverse_5:
  "inverse_at
      [lo0, lo0, hi1, hi1, lo0, lo0, hi1, hi1, lo0, lo0, hi1, hi1, lo0, lo0, hi1, hi1,
       lo0, lo0, hi1, hi1, lo0, lo0, hi1, hi1, lo0, lo0, hi1, hi1, lo0, lo0, hi1, hi1,
       lo0, lo0, hi1, hi1, lo0, lo0, hi1, hi1, lo0, lo0, hi1, hi1, lo0, lo0, hi1, hi1,
       lo0, lo0, hi1, hi1, lo0, lo0, hi1, hi1, lo0, lo0, hi1, hi1, lo0, lo0, hi1, hi1]
      [lo0, lo0, hi1, hi1, lo0, lo0, hi1, hi1, hi1, hi1, hi1, lo0, hi1, hi1, lo0, lo0,
       lo0, hi1, hi1, lo0, hi1, lo0, lo0, lo0, lo0, hi1, hi1, lo0, lo0, hi1, lo0, lo0,
       lo0, hi1, lo0, hi1, lo0, lo0, lo0, lo0, lo0, hi1, lo0, lo0, hi1, lo0, hi1,
       lo0, lo0, hi1, hi1, hi1, hi1, hi1, hi1, hi1, hi1, lo0, lo0, hi1, lo0, lo0, hi1,
       lo0]
      [hi1, lo0, hi1, lo0, lo0, lo0, hi1, hi1, hi1, hi1, hi1, hi1, lo0, hi1, hi1, lo0,
       lo0, hi1, lo0, lo0, hi1, hi1, lo0, hi1, lo0, lo0, lo0, hi1, hi1, hi1, hi1, hi1,
       hi1, lo0, hi1, hi1, lo0, hi1, hi1, lo0, lo0, lo0, lo0, hi1, lo0, lo0, hi1, lo0,
       hi1, hi1, hi1, hi1, lo0, hi1, hi1, lo0, lo0, hi1, hi1, lo0, hi1, lo0, lo0, hi1]"
  by code_simp

lemma no_fixed_5: "(xorshift ^^ 3689348814741910323) x = x \<Longrightarrow> x = 0"
  by (rule no_fixed_point [OF inverse_5]) simp_all

lemma inverse_17:
  "inverse_at
      [lo0, lo0, lo0, lo0, hi1, hi1, hi1, hi1, lo0, lo0, lo0, lo0, hi1, hi1, hi1, hi1,
       lo0, lo0, lo0, lo0, hi1, hi1, hi1, hi1, lo0, lo0, lo0, lo0, hi1, hi1, hi1, hi1,
       lo0, lo0, lo0, lo0, hi1, hi1, hi1, hi1, lo0, lo0, lo0, lo0, hi1, hi1, hi1, hi1,
       lo0, lo0, lo0, lo0, hi1, hi1, hi1, hi1, lo0, lo0, lo0, lo0, hi1, hi1, hi1, hi1]
      [hi1, lo0, hi1, hi1, lo0, lo0, hi1, hi1, lo0, hi1, hi1, lo0, lo0, hi1, lo0, lo0,
       lo0, hi1, lo0, hi1, lo0, lo0, hi1, lo0, hi1, hi1, lo0, hi1, lo0, lo0, lo0, lo0,
       hi1, hi1, lo0, hi1, hi1, hi1, lo0, hi1, hi1, lo0, hi1, lo0, hi1, hi1, hi1, lo0,
       lo0, lo0, lo0, hi1, hi1, lo0, lo0, hi1, lo0, lo0, lo0, hi1, hi1, lo0, hi1, hi1]
      [lo0, hi1, hi1, lo0, lo0, lo0, hi1, hi1, hi1, hi1, hi1, hi1, lo0, hi1, lo0, lo0,
       lo0, lo0, hi1, hi1, hi1, lo0, lo0, hi1, hi1, lo0, lo0, hi1, lo0, hi1, lo0, hi1,
       hi1, lo0, hi1, lo0, lo0, lo0, lo0, hi1, hi1, lo0, hi1, hi1, lo0, hi1, lo0, lo0,
       hi1, lo0, lo0, hi1, lo0, hi1, hi1, lo0, lo0, hi1, lo0, lo0, lo0, hi1, lo0, hi1]"
  by code_simp

lemma no_fixed_17: "(xorshift ^^ 1085102592571150095) x = x \<Longrightarrow> x = 0"
  by (rule no_fixed_point [OF inverse_17]) simp_all

lemma inverse_257:
  "inverse_at
      [lo0, lo0, lo0, lo0, lo0, lo0, lo0, lo0, hi1, hi1, hi1, hi1, hi1, hi1, hi1, hi1,
       lo0, lo0, lo0, lo0, lo0, lo0, lo0, lo0, hi1, hi1, hi1, hi1, hi1, hi1, hi1, hi1,
       lo0, lo0, lo0, lo0, lo0, lo0, lo0, lo0, hi1, hi1, hi1, hi1, hi1, hi1, hi1, hi1,
       lo0, lo0, lo0, lo0, lo0, lo0, lo0, lo0, hi1, hi1, hi1, hi1, hi1, hi1, hi1, hi1]
      [hi1, lo0, lo0, lo0, lo0, lo0, hi1, hi1, hi1, lo0, hi1, lo0, lo0, lo0, hi1, hi1,
       lo0, lo0, lo0, lo0, hi1, lo0, hi1, hi1, hi1, hi1, hi1, lo0, lo0, hi1, hi1, lo0,
       lo0, hi1, hi1, lo0, hi1, hi1, hi1, lo0, lo0, lo0, hi1, lo0, hi1, lo0, lo0, hi1,
       hi1, hi1, lo0, lo0, lo0, lo0, hi1, lo0, hi1, lo0, hi1, lo0, hi1, hi1, hi1, lo0]
      [lo0, hi1, hi1, hi1, hi1, hi1, lo0, hi1, lo0, hi1, lo0, hi1, lo0, hi1, hi1, hi1,
       lo0, lo0, hi1, hi1, hi1, lo0, hi1, lo0, lo0, hi1, hi1, hi1, lo0, hi1, lo0, hi1,
       hi1, lo0, hi1, hi1, lo0, hi1, lo0, hi1, lo0, lo0, hi1, lo0, lo0, hi1, hi1, lo0,
       lo0, lo0, lo0, lo0, hi1, hi1, lo0, lo0, lo0, hi1, lo0, lo0, hi1, hi1, lo0, hi1]"
  by code_simp

lemma no_fixed_257: "(xorshift ^^ 71777214294589695) x = x \<Longrightarrow> x = 0"
  by (rule no_fixed_point [OF inverse_257]) simp_all

lemma inverse_641:
  "inverse_at
      [lo0, lo0, lo0, lo0, lo0, lo0, lo0, lo0, lo0, hi1, hi1, lo0, lo0, hi1, hi1,
       lo0, lo0, lo0, hi1, hi1, hi1, hi1, lo0, hi1, hi1, lo0, lo0, lo0, lo0, lo0, lo0,
       lo0, hi1, hi1, hi1, hi1, hi1, hi1, hi1, hi1, hi1, lo0, lo0, hi1, hi1, lo0, lo0,
       hi1, hi1, hi1, lo0, lo0, lo0, lo0, hi1, lo0, lo0, hi1, hi1, hi1, hi1, hi1, hi1,
       hi1]
      [hi1, hi1, hi1, lo0, hi1, lo0, hi1, hi1, lo0, hi1, hi1, hi1, lo0, hi1, lo0, hi1,
       lo0, hi1, hi1, lo0, lo0, hi1, hi1, lo0, hi1, lo0, lo0, hi1, lo0, hi1, hi1, lo0,
       lo0, hi1, hi1, lo0, lo0, lo0, hi1, hi1, hi1, hi1, hi1, lo0, lo0, lo0, hi1, lo0,
       lo0, lo0, hi1, hi1, hi1, lo0, hi1, hi1, hi1, lo0, lo0, hi1, hi1, lo0, hi1, lo0]
      [lo0, lo0, lo0, lo0, lo0, lo0, lo0, hi1, hi1, hi1, hi1, lo0, hi1, lo0, hi1, lo0,
       hi1, hi1, lo0, hi1, lo0, hi1, hi1, lo0, lo0, lo0, lo0, hi1, lo0, hi1, lo0, hi1,
       lo0, lo0, lo0, lo0, hi1, lo0, lo0, lo0, hi1, hi1, lo0, hi1, lo0, lo0, lo0,
       hi1, lo0, lo0, hi1, hi1, lo0, lo0, hi1, lo0, hi1, lo0, lo0, lo0, lo0, hi1, hi1,
       lo0]"
  by code_simp

lemma no_fixed_641: "(xorshift ^^ 28778071877862015) x = x \<Longrightarrow> x = 0"
  by (rule no_fixed_point [OF inverse_641]) simp_all

lemma inverse_65537:
  "inverse_at
      [lo0, lo0, lo0, lo0, lo0, lo0, lo0, lo0, lo0, lo0, lo0, lo0, lo0, lo0, lo0,
       lo0, hi1, hi1, hi1, hi1, hi1, hi1, hi1, hi1, hi1, hi1, hi1, hi1, hi1, hi1, hi1, hi1,
       lo0, lo0, lo0, lo0, lo0, lo0, lo0, lo0, lo0, lo0, lo0, lo0, lo0, lo0, lo0,
       lo0, hi1, hi1, hi1, hi1, hi1, hi1, hi1, hi1, hi1, hi1, hi1, hi1, hi1, hi1, hi1, hi1]
      [lo0, hi1, hi1, lo0, lo0, hi1, hi1, lo0, hi1, lo0, hi1, lo0, hi1, hi1, hi1, hi1,
       hi1, hi1, lo0, lo0, lo0, lo0, lo0, lo0, lo0, lo0, hi1, lo0, lo0, hi1, hi1, hi1,
       lo0, lo0, hi1, hi1, hi1, lo0, lo0, hi1, hi1, lo0, hi1, lo0, hi1, hi1, hi1, hi1,
       hi1, hi1, hi1, lo0, hi1, hi1, hi1, lo0, lo0, hi1, hi1, hi1, hi1, lo0, lo0, lo0]
      [hi1, hi1, hi1, lo0, hi1, hi1, lo0, hi1, lo0, hi1, hi1, hi1, lo0, lo0, hi1, lo0,
       lo0, hi1, lo0, lo0, hi1, lo0, lo0, lo0, hi1, lo0, hi1, lo0, lo0, lo0, hi1,
       lo0, lo0, lo0, hi1, hi1, lo0, lo0, lo0, hi1, lo0, hi1, hi1, hi1, hi1, hi1, lo0,
       hi1, lo0, lo0, hi1, hi1, lo0, lo0, hi1, hi1, hi1, lo0, hi1, hi1, lo0, lo0, lo0,
       hi1]"
  by code_simp

lemma no_fixed_65537: "(xorshift ^^ 281470681808895) x = x \<Longrightarrow> x = 0"
  by (rule no_fixed_point [OF inverse_65537]) simp_all

lemma inverse_6700417:
  "inverse_at
      [lo0, lo0, lo0, lo0, lo0, lo0, lo0, lo0, lo0, lo0, lo0, lo0, lo0, lo0, lo0,
       lo0, lo0, lo0, lo0, lo0, lo0, lo0, hi1, lo0, hi1, lo0, lo0, lo0, lo0, lo0,
       lo0, lo0, hi1, hi1, hi1, hi1, hi1, hi1, hi1, hi1, hi1, hi1, hi1, hi1, hi1, hi1, hi1,
       hi1, hi1, hi1, hi1, hi1, hi1, hi1, lo0, hi1, lo0, hi1, hi1, hi1, hi1, hi1, hi1, hi1]
      [hi1, lo0, hi1, lo0, lo0, lo0, hi1, lo0, lo0, lo0, hi1, hi1, lo0, hi1, lo0, lo0,
       lo0, hi1, lo0, lo0, hi1, hi1, hi1, lo0, lo0, hi1, hi1, hi1, lo0, lo0, hi1, lo0,
       hi1, hi1, lo0, lo0, hi1, lo0, lo0, lo0, hi1, hi1, hi1, hi1, lo0, lo0, lo0, hi1,
       hi1, lo0, lo0, hi1, lo0, lo0, hi1, lo0, lo0, hi1, lo0, hi1, hi1, hi1, hi1, lo0]
      [lo0, hi1, lo0, lo0, hi1, lo0, lo0, lo0, lo0, lo0, hi1, hi1, hi1, lo0, hi1, hi1,
       lo0, lo0, lo0, lo0, hi1, lo0, lo0, lo0, hi1, lo0, hi1, lo0, hi1, lo0, hi1,
       lo0, lo0, hi1, lo0, hi1, hi1, hi1, lo0, hi1, lo0, lo0, hi1, hi1, lo0, hi1, hi1,
       hi1, lo0, hi1, lo0, lo0, lo0, lo0, lo0, hi1, hi1, lo0, hi1, hi1, lo0, hi1, lo0,
       hi1]"
  by code_simp

lemma no_fixed_6700417: "(xorshift ^^ 2753074036095) x = x \<Longrightarrow> x = 0"
  by (rule no_fixed_point [OF inverse_6700417]) simp_all

end
