(* ===== verification/Rng_Period.thy ===== *)
theory Rng_Period
  imports Xorshift
begin

text \<open>
  The period of the random numbers is the largest it can be: a round moves every nonzero state
  through all of them.
\<close>

section \<open>The period\<close>

definition undivided :: "nat \<Rightarrow> nat \<Rightarrow> nat \<Rightarrow> bool" where
  "undivided p a b \<longleftrightarrow> list_all (\<lambda>k. p mod k \<noteq> 0) [a..<b]"

lemma undivided_join: "undivided p a b \<Longrightarrow> undivided p b c \<Longrightarrow> undivided p a c"
  by (force simp: undivided_def list_all_iff not_le)

lemma few_divisors:
  assumes "undivided p 2 b" and "p < b * b" and "g dvd p" and "0 < p"
  shows "g = 1 \<or> g = p"
proof -
  obtain h where h: "p = g * h" using assms(3) by blast
  then have "0 < g" "0 < h" using assms(4) by auto
  have small: "k = 1 \<or> b \<le> k" if "k dvd p" "0 < k" for k
  proof (rule ccontr)
    assume "\<not> (k = 1 \<or> b \<le> k)"
    then have "k \<in> set [2..<b]" using that(2) by auto
    with assms(1) have "p mod k \<noteq> 0" unfolding undivided_def list_all_iff by blast
    with that(1) show False by simp
  qed
  have "\<not> (b \<le> g \<and> b \<le> h)" using mult_le_mono [of b g b h] assms(2) h by auto
  with small [of g] small [of h] h \<open>0 < g\<close> \<open>0 < h\<close> show ?thesis by auto
qed

definition PERIOD :: nat where "PERIOD = 2 ^ 64 - 1"
definition PERIOD_PRIMES :: "nat list" where "PERIOD_PRIMES = [3, 5, 17, 257, 641, 65537, 6700417]"

lemma undivided_small:
  "undivided 3 2 2" "undivided 5 2 3" "undivided 17 2 5" "undivided 257 2 17" "undivided 641 2 26" "undivided 65537 2 257"
  by (simp_all add: undivided_def upt_rec_numeral)

text \<open>Trial division up to the root, in runs of a hundred.\<close>

lemma undivided_to_702:
  "undivided 6700417 2 102" "undivided 6700417 102 202" "undivided 6700417 202 302"
  "undivided 6700417 302 402" "undivided 6700417 402 502" "undivided 6700417 502 602"
  "undivided 6700417 602 702"
  by (simp_all add: undivided_def upt_rec_numeral)

lemma undivided_to_1402:
  "undivided 6700417 702 802" "undivided 6700417 802 902" "undivided 6700417 902 1002"
  "undivided 6700417 1002 1102" "undivided 6700417 1102 1202" "undivided 6700417 1202 1302"
  "undivided 6700417 1302 1402"
  by (simp_all add: undivided_def upt_rec_numeral)

lemma undivided_to_2102:
  "undivided 6700417 1402 1502" "undivided 6700417 1502 1602" "undivided 6700417 1602 1702"
  "undivided 6700417 1702 1802" "undivided 6700417 1802 1902" "undivided 6700417 1902 2002"
  "undivided 6700417 2002 2102"
  by (simp_all add: undivided_def upt_rec_numeral)

lemma undivided_to_2589:
  "undivided 6700417 2102 2202" "undivided 6700417 2202 2302" "undivided 6700417 2302 2402"
  "undivided 6700417 2402 2502" "undivided 6700417 2502 2589"
  by (simp_all add: undivided_def upt_rec_numeral)

lemma undivided_6700417: "undivided 6700417 2 2589"
proof -
  have a: "undivided 6700417 2 702"
    by (rule undivided_join [OF undivided_to_702(1) undivided_join [OF undivided_to_702(2) undivided_join [OF
      undivided_to_702(3) undivided_join [OF undivided_to_702(4) undivided_join [OF undivided_to_702(5)
      undivided_join [OF undivided_to_702(6) undivided_to_702(7)]]]]]])
  have b: "undivided 6700417 702 1402"
    by (rule undivided_join [OF undivided_to_1402(1) undivided_join [OF undivided_to_1402(2) undivided_join [OF
      undivided_to_1402(3) undivided_join [OF undivided_to_1402(4) undivided_join [OF undivided_to_1402(5)
      undivided_join [OF undivided_to_1402(6) undivided_to_1402(7)]]]]]])
  have c: "undivided 6700417 1402 2102"
    by (rule undivided_join [OF undivided_to_2102(1) undivided_join [OF undivided_to_2102(2) undivided_join [OF
      undivided_to_2102(3) undivided_join [OF undivided_to_2102(4) undivided_join [OF undivided_to_2102(5)
      undivided_join [OF undivided_to_2102(6) undivided_to_2102(7)]]]]]])
  have d: "undivided 6700417 2102 2589"
    by (rule undivided_join [OF undivided_to_2589(1) undivided_join [OF undivided_to_2589(2) undivided_join [OF
      undivided_to_2589(3) undivided_join [OF undivided_to_2589(4) undivided_to_2589(5)]]]])
  show ?thesis by (rule undivided_join [OF a undivided_join [OF b undivided_join [OF c d]]])
qed

lemma period_prime_divisors:
  assumes "p \<in> set PERIOD_PRIMES" and "g dvd p"
  shows "g = 1 \<or> g = p"
  using assms few_divisors [OF undivided_small(1), of g] few_divisors [OF undivided_small(2), of g]
    few_divisors [OF undivided_small(3), of g] few_divisors [OF undivided_small(4), of g]
    few_divisors [OF undivided_small(5), of g] few_divisors [OF undivided_small(6), of g] few_divisors [OF undivided_6700417, of g]
  unfolding PERIOD_PRIMES_def list.set insert_iff empty_iff by (elim disjE) simp_all

lemma period_factor:
  assumes "m dvd PERIOD" and "m \<noteq> 1"
  shows "\<exists>p \<in> set PERIOD_PRIMES. p dvd m"
proof (rule ccontr)
  assume no: "\<not> (\<exists>p \<in> set PERIOD_PRIMES. p dvd m)"
  have cop: "coprime p m" if p: "p \<in> set PERIOD_PRIMES" for p
  proof -
    have "gcd p m = 1 \<or> gcd p m = p" using period_prime_divisors [OF p] by simp
    moreover have "gcd p m \<noteq> p"
    proof
      assume "gcd p m = p"
      then have "p dvd m" by (metis gcd_dvd2)
      with no p show False by blast
    qed
    ultimately show ?thesis by (simp add: coprime_iff_gcd_eq_1)
  qed
  have "PERIOD = 3 * (5 * (17 * (257 * (641 * (65537 * 6700417)))))" by (simp add: PERIOD_def)
  moreover have "coprime (3 * (5 * (17 * (257 * (641 * (65537 * 6700417)))))) m"
    unfolding coprime_mult_left_iff using cop by (simp add: PERIOD_PRIMES_def)
  ultimately have "coprime PERIOD m" by simp
  then have "m = 1" using assms(1) by (metis coprime_absorb_right nat_dvd_1_iff_1)
  with assms(2) show False by simp
qed

lemma no_fixed: "p \<in> set PERIOD_PRIMES \<Longrightarrow> (xorshift ^^ (PERIOD div p)) x = x \<Longrightarrow> x = 0"
  using no_fixed_3 [of x] no_fixed_5 [of x] no_fixed_17 [of x] no_fixed_257 [of x] no_fixed_641 [of x]
    no_fixed_65537 [of x] no_fixed_6700417 [of x]
  unfolding PERIOD_PRIMES_def PERIOD_def list.set insert_iff empty_iff by (elim disjE) (simp_all only:, simp_all del: funpow.simps)

lemma pow_split: "(xorshift ^^ m) ((xorshift ^^ n) x) = (xorshift ^^ (m + n)) x"
  by (simp add: funpow_add)

lemma pow_multiple: "(xorshift ^^ d) x = x \<Longrightarrow> d dvd n \<Longrightarrow> (xorshift ^^ n) x = x"
proof -
  assume d: "(xorshift ^^ d) x = x" and "d dvd n"
  then obtain k where n: "n = d * k" by blast
  have "(xorshift ^^ (d * k)) x = x" using d by (induction k) (simp_all add: funpow_add)
  then show ?thesis by (simp add: n)
qed

lemma pow_mod: "(xorshift ^^ d) x = x \<Longrightarrow> (xorshift ^^ n) x = x \<Longrightarrow> (xorshift ^^ (n mod d)) x = x"
proof -
  assume d: "(xorshift ^^ d) x = x" and n: "(xorshift ^^ n) x = x"
  have "(xorshift ^^ (n div d * d)) x = x" by (rule pow_multiple [OF d]) simp
  then have "(xorshift ^^ (n mod d)) x = (xorshift ^^ (n mod d + n div d * d)) x" by (metis pow_split)
  also have "\<dots> = x" using n by (simp only: mod_div_mult_eq)
  finally show ?thesis .
qed

lemma shortest_period:
  assumes "x \<noteq> 0" and "0 < n" and "(xorshift ^^ n) x = x"
  shows "PERIOD \<le> n"
proof -
  let ?Q = "\<lambda>n. 0 < n \<and> (xorshift ^^ n) x = x"
  define d where "d = (LEAST n. ?Q n)"
  have d: "?Q d" unfolding d_def by (rule LeastI [of ?Q n]) (use assms in simp)
  have least: "d \<le> k" if "?Q k" for k unfolding d_def by (rule Least_le) (rule that)
  have N: "(xorshift ^^ PERIOD) x = x" using order by (simp add: PERIOD_def)
  have "PERIOD mod d = 0"
  proof (rule ccontr)
    assume "PERIOD mod d \<noteq> 0"
    with pow_mod [OF conjunct2 [OF d] N] have "d \<le> PERIOD mod d" by (intro least) simp
    with d mod_less_divisor [of d PERIOD] show False by linarith
  qed
  then obtain m where m: "PERIOD = d * m" by (auto simp: mod_eq_0_iff_dvd)
  have "m = 1"
  proof (rule ccontr)
    assume "m \<noteq> 1"
    moreover have "m dvd PERIOD" unfolding m by simp
    ultimately obtain p where p: "p \<in> set PERIOD_PRIMES" "p dvd m" using period_factor [of m] by blast
    then obtain k where k: "m = p * k" by blast
    have "0 < p" using p(1) by (auto simp: PERIOD_PRIMES_def)
    then have "PERIOD div p = d * k" using m k by (metis mult.left_commute nonzero_mult_div_cancel_left not_gr_zero)
    then have "(xorshift ^^ (PERIOD div p)) x = x" using pow_multiple [OF conjunct2 [OF d], of "PERIOD div p"] by simp
    then show False using no_fixed [OF p(1)] assms(1) by simp
  qed
  with m least [of n] assms show ?thesis by simp
qed

lemma nonzero_pow: "x \<noteq> 0 \<Longrightarrow> (xorshift ^^ n) x \<noteq> 0"
proof
  assume x: "x \<noteq> 0" and z: "(xorshift ^^ n) x = 0"
  have "(xorshift ^^ (PERIOD * Suc n)) x = x" by (rule pow_multiple [of PERIOD]) (use order in \<open>simp_all add: PERIOD_def\<close>)
  moreover have "n \<le> PERIOD * Suc n" by (simp add: PERIOD_def)
  then have "(xorshift ^^ (PERIOD * Suc n)) x = (xorshift ^^ (PERIOD * Suc n - n)) ((xorshift ^^ n) x)"
    by (metis comp_apply funpow_add le_add_diff_inverse2)
  ultimately show False using x z by simp
qed

lemma orbit:
  assumes "x \<noteq> 0" and "y \<noteq> 0"
  shows "\<exists>k < PERIOD. (xorshift ^^ k) x = y"
proof -
  let ?f = "\<lambda>k. (xorshift ^^ k) x"
  have N: "(xorshift ^^ PERIOD) z = z" for z using order by (simp add: PERIOD_def)
  have apart: "?f i \<noteq> ?f j" if "i < j" "j < PERIOD" for i j
  proof
    assume eq: "?f i = ?f j"
    have "x = (xorshift ^^ (PERIOD - i + i)) x" using N [of x] that by simp
    also have "\<dots> = (xorshift ^^ (PERIOD - i + j)) x" using eq by (metis pow_split)
    also have "PERIOD - i + j = j - i + PERIOD" using that by simp
    also have "(xorshift ^^ (j - i + PERIOD)) x = (xorshift ^^ (j - i)) x" using N [of x] by (metis pow_split)
    finally have "(xorshift ^^ (j - i)) x = x" by (rule sym)
    from shortest_period [OF assms(1) _ this] that show False by simp
  qed
  have "inj_on ?f {..<PERIOD}" using apart by (auto simp: inj_on_def) (metis linorder_neqE_nat)
  then have "card (?f ` {..<PERIOD}) = PERIOD" by (simp add: card_image)
  moreover have "card (UNIV - {0} :: u64 set) = PERIOD" by (simp add: card_Diff_subset card_word PERIOD_def)
  moreover have "?f ` {..<PERIOD} \<subseteq> UNIV - {0}" using nonzero_pow [OF assms(1)] by auto
  ultimately have "?f ` {..<PERIOD} = UNIV - {0}" by (intro card_subset_eq) simp_all
  with assms(2) have "y \<in> ?f ` {..<PERIOD}" by simp
  then show ?thesis by auto
qed

end
