(* ===== verification/Gen_Yields.thy ===== *)
theory Gen_Yields
  imports Rng_Period Gen_Program
begin

text \<open>
  Generators that always yield: from every state of the random numbers in a set closed under the
  round, the generator returns, with a result that satisfies a postcondition, in a state of the set.
  The two sets of interest are the nonzero states, among which the loops that draw again end because
  the random numbers pass through all of them, and the zero state, from which no loop is reached.
\<close>

section \<open>The calculus\<close>

definition yields :: "(u64 \<Rightarrow> bool) \<Rightarrow> 'a gen \<Rightarrow> ('a \<Rightarrow> bool) \<Rightarrow> bool" where
  "yields Z m P \<longleftrightarrow> (\<forall>s. Z s \<longrightarrow> (\<exists>a s'. m s = Some (Inr a, s') \<and> Z s' \<and> P a))"

lemma yieldsD: "yields Z m P \<Longrightarrow> Z s \<Longrightarrow> \<exists>a s'. m s = Some (Inr a, s') \<and> Z s' \<and> P a"
  by (simp add: yields_def)

lemma yields_weaken: "yields Z m Q \<Longrightarrow> (\<And>a. Q a \<Longrightarrow> P a) \<Longrightarrow> yields Z m P"
  unfolding yields_def by blast

lemma yields_return: "P a \<Longrightarrow> yields Z (gen_return a) P"
  by (simp add: yields_def gen_return_def)

lemma yields_bind: "yields Z m Q \<Longrightarrow> (\<And>a. Q a \<Longrightarrow> yields Z (f a) P) \<Longrightarrow> yields Z (gen_bind m f) P"
  unfolding yields_def gen_bind_def by fastforce

lemma yields_lift: "P a \<Longrightarrow> yields Z (gen_lift (Inr a)) P"
  by (simp add: yields_def gen_lift_def)

lemma yields_assert: "b \<Longrightarrow> yields Z (gen_assert b) (\<lambda>_. True)"
  by (simp add: gen_assert_def yields_lift)

lemma yields_many: "yields Z m P \<Longrightarrow> yields Z (gen_many n m) (\<lambda>as. length as = n \<and> list_all P as)"
proof (induction n)
  case (Suc n)
  from yields_bind [OF Suc.IH [OF Suc.prems]] Suc.prems show ?case
    by (auto intro!: yields_bind [OF Suc.prems] yields_bind [OF Suc.IH [OF Suc.prems]] yields_return)
qed (simp add: yields_return)

text \<open>A set of states closed under the round.\<close>

locale entropy =
  fixes Z :: "u64 \<Rightarrow> bool"
  assumes round: "Z s \<Longrightarrow> Z (xorshift s)"
begin

lemma next_yields: "yields Z next_u64 (\<lambda>_. True)"
  by (simp add: yields_def next_u64_def Let_def round)

lemma below_yields: "0 < n \<Longrightarrow> yields Z (below n) (\<lambda>x. x < n)"
  unfolding below_def by (rule yields_bind [OF next_yields]) (simp add: yields_return)

lemma pick_yields: "xs \<noteq> [] \<Longrightarrow> yields Z (pick xs) (\<lambda>x. x \<in> set xs)"
  unfolding pick_def by (rule yields_bind [OF below_yields]) (simp_all add: yields_return)

lemma any_reg_yields: "yields Z any_reg (\<lambda>r. r < 32)"
  unfolding any_reg_def by (rule below_yields) simp

lemma nzreg_yields: "yields Z nzreg (\<lambda>r. 1 \<le> r \<and> r < 32)"
  unfolding nzreg_def by (rule yields_bind [OF below_yields]) (simp_all add: yields_return)

lemma c_reg_yields: "yields Z c_reg (\<lambda>r. 8 \<le> r \<and> r < 16)"
  unfolding c_reg_def by (rule yields_bind [OF below_yields]) (simp_all add: yields_return)

lemma coin_yields: "yields Z coin (\<lambda>_. True)"
  unfolding coin_def by (rule yields_bind [OF below_yields]) (simp_all add: yields_return)

lemma seed_table_yields: "yields Z seed_table (\<lambda>t. length t = 31)"
  unfolding seed_table_def
  by (rule yields_weaken, rule yields_many, rule yields_bind [OF below_yields])
    (auto intro: yields_weaken [OF pick_yields, where P = "\<lambda>_. True"] next_yields simp: INTERESTING_def)

lemma scratch_word_yields: "yields Z scratch_word (\<lambda>_. True)"
  unfolding scratch_word_def
  by (rule yields_bind [OF below_yields]) (auto intro: yields_weaken [OF pick_yields] next_yields)

end

interpretation nonzero: entropy "\<lambda>s. s \<noteq> 0"
proof
  show "xorshift s \<noteq> 0" if "s \<noteq> 0" for s using nonzero_pow [OF that, of 1] by simp
qed

interpretation stuck: entropy "\<lambda>s. s = 0"
  by standard simp

abbreviation "always \<equiv> yields (\<lambda>s. s \<noteq> 0)"

section \<open>Drawing again\<close>

text \<open>A generator that draws one number ends its loop: the numbers pass through every nonzero state.\<close>

lemma redraw_ends:
  assumes "\<And>s. draw s = Some (Inr (v (xorshift s)), xorshift s)"
  shows "t \<noteq> 0 \<Longrightarrow> \<not> bad (v ((xorshift ^^ k) t)) \<Longrightarrow>
    \<exists>x s'. redraw bad draw (v t) t = Some (Inr (v s'), s') \<and> s' \<noteq> 0 \<and> \<not> bad (v s')"
proof (induction k arbitrary: t)
  case 0
  then show ?case by (subst redraw.simps) auto
next
  case (Suc k)
  show ?case
  proof (cases "bad (v t)")
    case True
    have "xorshift t \<noteq> 0" using nonzero.round Suc.prems(1) by simp
    moreover have "\<not> bad (v ((xorshift ^^ k) (xorshift t)))" using Suc.prems(2) by (simp add: funpow_swap1)
    ultimately obtain s' where "redraw bad draw (v (xorshift t)) (xorshift t) = Some (Inr (v s'), s')" "s' \<noteq> 0" "\<not> bad (v s')"
      using Suc.IH by blast
    with True assms show ?thesis by (subst redraw.simps) auto
  next
    case False
    with Suc.prems(1) show ?thesis by (subst redraw.simps) auto
  qed
qed

lemma draw_until_always:
  assumes "\<And>s. draw s = Some (Inr (v (xorshift s)), xorshift s)" and "\<And>x. P (v x)" and "\<not> bad (v y)" and "y \<noteq> 0"
  shows "always (draw_until bad draw) (\<lambda>a. P a \<and> \<not> bad a)"
  unfolding yields_def
proof (intro allI impI)
  fix s :: u64
  assume s: "s \<noteq> 0"
  obtain k where "(xorshift ^^ k) (xorshift s) = y" using orbit [OF nonzero.round [OF s] assms(4)] by blast
  with redraw_ends [where draw = draw and v = v, OF assms(1) nonzero.round [OF s], of bad k] assms(3) obtain s' where
    "redraw bad draw (v (xorshift s)) (xorshift s) = Some (Inr (v s'), s')" "s' \<noteq> 0" "\<not> bad (v s')" by auto
  with assms(1,2) show "\<exists>a s'. draw_until bad draw s = Some (Inr a, s') \<and> s' \<noteq> 0 \<and> P a \<and> \<not> bad a"
    by (simp add: draw_until_def gen_bind_def)
qed

lemma nzreg_draw: "nzreg s = Some (Inr (1 + unat (xorshift s) mod 31), xorshift s)"
  and any_reg_draw: "any_reg s = Some (Inr (unat (xorshift s) mod 32), xorshift s)"
  and imm6_draw: "imm6 s = Some (Inr (signed_drop_bit 26 (push_bit 26 (of_nat (unat (xorshift s) mod 64)))), xorshift s)"
  by (simp_all add: nzreg_def any_reg_def imm6_def below_def gen_bind_def next_u64_def gen_return_def Let_def)

lemma other_nzreg: "always (draw_until (\<lambda>r. r = x) nzreg) (\<lambda>r. (1 \<le> r \<and> r < 32) \<and> r \<noteq> x)"
proof (rule draw_until_always [where v = "\<lambda>u. 1 + unat u mod 31" and y = "if x = 2 then 2 else 1"])
  show "1 \<le> 1 + unat u mod 31 \<and> 1 + unat u mod 31 < 32" for u :: u64
    using mod_less_divisor [of 31 "unat u"] by linarith
qed (simp_all add: nzreg_draw)

lemma other_reg: "always (draw_until (\<lambda>r. r = x) any_reg) (\<lambda>r. r < 32 \<and> r \<noteq> x)"
  by (rule draw_until_always [where v = "\<lambda>u. unat u mod 32" and y = "if x = 2 then 1 else 2"]) (simp_all add: any_reg_draw)

definition imm6s :: "u32 set" where
  "imm6s = range (\<lambda>n. signed_drop_bit 26 (push_bit 26 (of_nat n)))"

lemma imm6_always: "always imm6 (\<lambda>i. i \<in> imm6s)"
  unfolding imm6_def by (rule yields_bind [OF nonzero.below_yields]) (auto simp: imm6s_def intro: yields_return)

lemma nz_imm6_always: "always nz_imm6 (\<lambda>i. i \<in> imm6s \<and> i \<noteq> 0)"
  unfolding nz_imm6_def
  by (rule draw_until_always [where y = 1, OF imm6_draw]) (auto simp: imm6s_def)

end
