(* ===== verification/Gen_Chunks.thy ===== *)
theory Gen_Chunks
  imports Gen_Jumps Gen_Yields
begin

text \<open>
  What the generator emits: the chunks it draws are well formed. Each instruction of a plain chunk
  is one that the emulator's decoder takes, and is either a computation or an access through a base
  register that the code before it has pointed into the scratch page.
\<close>

section \<open>Well-formed chunks\<close>

text \<open>The word the emulator executes for an instruction as it is placed in the image.\<close>

definition decoded :: "ins \<Rightarrow> u32 option" where
  "decoded i =
     (if isize i = 4 \<and> iword i AND 3 = 3 then Some (iword i)
      else if isize i = 2 then expand (ucast (iword i)) else None)"

definition calc_ins :: "ins \<Rightarrow> bool" where
  "calc_ins i \<longleftrightarrow> (\<exists>w. decoded i = Some w \<and> calc_word w)"

definition mem_ins :: "nat \<Rightarrow> nat \<Rightarrow> nat \<Rightarrow> ins \<Rightarrow> bool" where
  "mem_ins r off sz i \<longleftrightarrow> (\<exists>w. decoded i = Some w \<and> mem_word w r off sz)"

text \<open>A load-reserved that leaves its base register alone.\<close>

definition reserves :: "nat \<Rightarrow> nat \<Rightarrow> ins \<Rightarrow> bool" where
  "reserves r sz i \<longleftrightarrow> (\<exists>w. decoded i = Some w \<and> mem_word w r 0 sz \<and> rd w \<noteq> of_nat r)"

definition base_ok :: "nat \<Rightarrow> nat \<Rightarrow> nat \<Rightarrow> nat \<Rightarrow> bool" where
  "base_ok al rt ru rs \<longleftrightarrow> al \<in> {1, 2, 4, 8} \<and> 1 \<le> rt \<and> rt < 32 \<and> 1 \<le> ru \<and> ru < 32 \<and> ru \<noteq> rt \<and> rs < 32"

definition plain_ok :: "ins list \<Rightarrow> bool" where
  "plain_ok v \<longleftrightarrow>
     (\<exists>i. v = [i] \<and> calc_ins i) \<or>
     (\<exists>al rt ru rs off i. v = address_code al rt ru rs @ [i] \<and> base_ok al rt ru rs \<and> al dvd off \<and> off + al \<le> 512 \<and>
        mem_ins rt off al i) \<or>
     (\<exists>al rt ru rs i j. v = address_code al rt ru rs @ [i, j] \<and> base_ok al rt ru rs \<and> isize i = 4 \<and> isize j = 4 \<and>
        reserves rt al i \<and> mem_ins rt 0 al j)"

fun chunk_ok :: "chunk \<Rightarrow> bool" where
  "chunk_ok (Plain v) = plain_ok v"
| "chunk_ok (Branch f3 a b n) = (f3 \<in> {0, 1, 4, 5, 6, 7} \<and> a < 32 \<and> b < 32 \<and> 1 \<le> n \<and> n \<le> MAX_SKIP)"
| "chunk_ok (Jal d n) = (d < 32 \<and> 1 \<le> n \<and> n \<le> MAX_SKIP)"
| "chunk_ok (Jalr rt d n) = (1 \<le> rt \<and> rt < 32 \<and> d < 32 \<and> 1 \<le> n \<and> n \<le> MAX_SKIP)"
| "chunk_ok (CBranch ne a n) = (8 \<le> a \<and> a < 16 \<and> 1 \<le> n \<and> n \<le> MAX_SKIP)"
| "chunk_ok (CJ n) = (1 \<le> n \<and> n \<le> MAX_SKIP)"
| "chunk_ok (CJr rt l n) = (1 \<le> rt \<and> rt < 32 \<and> 1 \<le> n \<and> n \<le> MAX_SKIP)"

section \<open>Instructions the decoder takes\<close>

lemma low_opcode: "w AND 3 = opcode w AND 3"
  unfolding opcode_def and.assoc by simp

lemma low_words: "calc_word w \<Longrightarrow> w AND 3 = 3" "mem_word w r off sz \<Longrightarrow> w AND 3 = 3"
  unfolding low_opcode [of w] by (auto simp: calc_word_def Let_def mem_word_def)

lemma decoded_w: "w AND 3 = 3 \<Longrightarrow> decoded (ins_w w t) = Some w"
  and decoded_c: "decoded (ins_c h t) = expand h"
  by (simp_all add: decoded_def ins_w_def ins_c_def ucast_down_ucast_id is_down)

lemma calc_w: "calc_word w \<Longrightarrow> calc_ins (ins_w w t)"
  by (simp add: calc_ins_def decoded_w low_words)

lemma mem_w: "mem_word w r off sz \<Longrightarrow> mem_ins r off sz (ins_w w t)"
  by (simp add: mem_ins_def decoded_w low_words)

lemma calc_c: "\<exists>w. expand h = Some w \<and> calc_word w \<Longrightarrow> calc_ins (ins_c h t)"
  and mem_c: "\<exists>w. expand h = Some w \<and> mem_word w r off sz \<Longrightarrow> mem_ins r off sz (ins_c h t)"
  by (simp_all add: calc_ins_def mem_ins_def decoded_c)

lemma plain_calc: "calc_ins i \<Longrightarrow> plain_ok [i]"
  and plain_mem: "base_ok al rt ru rs \<Longrightarrow> al dvd off \<Longrightarrow> off + al \<le> 512 \<Longrightarrow> mem_ins rt off al i \<Longrightarrow> plain_ok (address_code al rt ru rs @ [i])"
  and plain_reserve: "base_ok al rt ru rs \<Longrightarrow> isize i = 4 \<Longrightarrow> isize j = 4 \<Longrightarrow> reserves rt al i \<Longrightarrow> mem_ins rt 0 al j \<Longrightarrow>
    plain_ok (address_code al rt ru rs @ [i, j])"
  unfolding plain_ok_def by blast+

section \<open>Computations\<close>

text \<open>A generator of one computation.\<close>

lemma three_regs_always: "always three_regs (\<lambda>(d, a, b). d < 32 \<and> a < 32 \<and> b < 32)"
  unfolding three_regs_def
  by (auto intro!: yields_bind [OF nonzero.any_reg_yields] yields_return)

lemma gen_op_always:
  assumes "ops \<noteq> []" and "\<And>f3 f7 n d a b. (f3, f7, n) \<in> set ops \<Longrightarrow> d < 32 \<Longrightarrow> a < 32 \<Longrightarrow> b < 32 \<Longrightarrow> calc_word (gen_r_type opc f3 f7 d a b)"
  shows "always (gen_op opc ops) plain_ok"
  unfolding gen_op_def
proof (rule yields_bind [OF nonzero.pick_yields [OF assms(1)]], clarify)
  fix f3 f7 n
  assume "(f3, f7, n) \<in> set ops"
  with assms(2) show "always (gen_bind three_regs (\<lambda>(d, a, b). gen_return [ins_w (gen_r_type opc f3 f7 d a b) (three n (xr d) (xr a) (xr b))])) plain_ok"
    by (auto intro!: yields_bind [OF three_regs_always] yields_return plain_calc calc_w)
qed

lemma r_type_calc:
  assumes "d < 32" "a < 32" "b < 32" "fits 3 f3"
    and "opc = 0x33 \<and> (f7 = 0 \<or> f7 = 1 \<or> f7 = 0x20 \<and> (f3 = 0 \<or> f3 = 5)) \<or>
      opc = 0x3B \<and> (f7 = 1 \<and> (f3 = 0 \<or> f3 = 4 \<or> f3 = 5 \<or> f3 = 6 \<or> f3 = 7) \<or>
        f7 = 0 \<and> (f3 = 0 \<or> f3 = 1 \<or> f3 = 5) \<or> f7 = 0x20 \<and> (f3 = 0 \<or> f3 = 5))"
  shows "calc_word (gen_r_type opc f3 f7 d a b)"
  unfolding gen_types by (rule calc_r_type [OF fits_reg [OF assms(2)] assms(4) fits_reg [OF assms(3)] fits_reg [OF assms(1)] assms(5)])

lemma fits_3 [simp]: "fits 3 0" "fits 3 1" "fits 3 2" "fits 3 3" "fits 3 4" "fits 3 5" "fits 3 6" "fits 3 7"
  by (simp_all add: fits_def)

lemma ops_always: "always (gen_op 0x33 OPS) plain_ok" "always (gen_op 0x3B OPS32) plain_ok"
  by (rule gen_op_always; auto simp: OPS_def OPS32_def intro!: r_type_calc)+

lemma gen_mul_always: "always gen_mul plain_ok"
proof -
  let ?Q = "\<lambda>(opc, f3, n). \<forall>d a b. d < 32 \<and> a < 32 \<and> b < 32 \<longrightarrow> calc_word (gen_r_type opc f3 1 d a b)"
  have "always (gen_bind (pick M32) (\<lambda>(f3, n). gen_return (0x3B, f3, n))) ?Q"
    "always (gen_bind (pick M64) (\<lambda>(f3, n). gen_return (0x33, f3, n))) ?Q"
    by (rule yields_bind [OF nonzero.pick_yields]; auto simp: M32_def M64_def intro!: yields_return r_type_calc)+
  then have k: "always (if k = 0 then gen_bind (pick M32) (\<lambda>(f3, n). gen_return (0x3B, f3, n))
      else gen_bind (pick M64) (\<lambda>(f3, n). gen_return (0x33, f3, n))) ?Q" for k :: nat by simp
  have "always (gen_bind (below 3) (\<lambda>k. gen_bind (if k = 0 then gen_bind (pick M32) (\<lambda>(f3, n). gen_return (0x3B, f3, n))
      else gen_bind (pick M64) (\<lambda>(f3, n). gen_return (0x33, f3, n))) (\<lambda>(opc, f3, n).
      gen_return [ins_w (gen_r_type opc f3 0x01 d a b) (three n (xr d) (xr a) (xr b))]))) plain_ok"
    if "d < 32" "a < 32" "b < 32" for d a b
    by (rule yields_bind [OF nonzero.below_yields], simp, rule yields_bind [OF k])
      (use that in \<open>auto intro!: yields_return plain_calc calc_w\<close>)
  then show ?thesis unfolding gen_mul_def by (auto intro!: yields_bind [OF three_regs_always])
qed

lemma i_type_calc:
  "a < 32 \<Longrightarrow> d < 32 \<Longrightarrow> fits 3 f3 \<Longrightarrow> calc_word (gen_i_type 0x13 f3 d a imm)"
  "a < 32 \<Longrightarrow> d < 32 \<Longrightarrow> f3 = 0 \<or> f3 = 1 \<or> f3 = 5 \<Longrightarrow> calc_word (gen_i_type 0x1B f3 d a imm)"
  "d < 32 \<Longrightarrow> opc = 0x37 \<or> opc = 0x17 \<Longrightarrow> calc_word (gen_u_type opc d imm)"
  unfolding gen_types using calc_types by simp_all

lemma gen_shift_imm_always:
  assumes "0 < bound" "d < 32" "a < 32" and "opc = 0x13 \<or> opc = 0x1B"
  shows "always (gen_shift_imm opc bound sfx d a) plain_ok"
proof -
  have w: "calc_ins (ins_w (gen_i_type opc f3 d a imm) t)" if "f3 = 1 \<or> f3 = 5" for f3 imm t
    using assms that by (auto intro!: calc_w i_type_calc)
  show ?thesis
    unfolding gen_shift_imm_def
    by (rule yields_bind [OF nonzero.below_yields [OF assms(1)]], rule yields_bind [OF nonzero.coin_yields],
        rule yields_bind [OF nonzero.below_yields]) (auto simp: Let_def intro!: yields_return plain_calc w)
qed

lemma imm12_always: "always imm12 (\<lambda>_. True)"
  unfolding imm12_def by (rule yields_bind [OF nonzero.next_yields]) (simp add: yields_return)

lemma gen_op_imm_always: "always gen_op_imm plain_ok"
proof -
  have p: "always (gen_bind (pick OPS_IMM) (\<lambda>(f3, n). gen_bind imm12 (\<lambda>imm.
      gen_return [ins_w (gen_i_type 0x13 f3 d a imm) (three n (xr d) (xr a) (i32_text imm))]))) plain_ok" if "d < 32" "a < 32" for d a
    by (rule yields_bind [OF nonzero.pick_yields])
      (use that in \<open>auto simp: OPS_IMM_def intro!: yields_bind [OF imm12_always] yields_return plain_calc calc_w i_type_calc\<close>)
  show ?thesis
    unfolding gen_op_imm_def
    by (rule yields_bind [OF nonzero.any_reg_yields], rule yields_bind [OF nonzero.any_reg_yields],
        rule yields_bind [OF nonzero.below_yields]) (simp_all add: p gen_shift_imm_always)
qed

lemma gen_op_imm32_always: "always gen_op_imm32 plain_ok"
  unfolding gen_op_imm32_def
  by (rule yields_bind [OF nonzero.any_reg_yields], rule yields_bind [OF nonzero.any_reg_yields],
      rule yields_bind [OF nonzero.below_yields])
    (auto intro!: gen_shift_imm_always yields_bind [OF imm12_always] yields_return plain_calc calc_w i_type_calc)

lemma gen_upper_always: "always gen_upper plain_ok"
  unfolding gen_upper_def
  by (rule yields_bind [OF nonzero.any_reg_yields], rule yields_bind [OF nonzero.next_yields],
      rule yields_bind [OF nonzero.below_yields])
    (auto simp: Let_def intro!: yields_return plain_calc calc_w i_type_calc)

section \<open>Accesses\<close>

lemma scratch_addr_always:
  assumes "al \<in> {1, 2, 4, 8}"
  shows "1 \<le> rt \<Longrightarrow> rt < 32 \<Longrightarrow> always (scratch_addr_in al rt) (\<lambda>v. \<exists>ru rs. v = address_code al rt ru rs \<and> base_ok al rt ru rs)"
    and "always (scratch_addr al) (\<lambda>(rt, v). \<exists>ru rs. v = address_code al rt ru rs \<and> base_ok al rt ru rs)"
proof -
  show I: "always (scratch_addr_in al rt) (\<lambda>v. \<exists>ru rs. v = address_code al rt ru rs \<and> base_ok al rt ru rs)" if "1 \<le> rt" "rt < 32" for rt
    unfolding scratch_addr_in_def
    by (rule yields_bind [OF yields_assert], use that in simp, rule yields_bind [OF other_nzreg], rule yields_bind [OF nonzero.any_reg_yields])
      (use assms that in \<open>auto simp: base_ok_def intro!: yields_return\<close>)
  show "always (scratch_addr al) (\<lambda>(rt, v). \<exists>ru rs. v = address_code al rt ru rs \<and> base_ok al rt ru rs)"
    unfolding scratch_addr_def
    by (rule yields_bind [OF nonzero.nzreg_yields], rule yields_bind [OF I]) (auto intro!: yields_return)
qed

lemma gen_load: "base_ok al rt ru rs \<Longrightarrow> d < 32 \<Longrightarrow> map_option fst (load_kind f3) = Some al \<Longrightarrow> fits 3 f3 \<Longrightarrow>
    plain_ok (address_code al rt ru rs @ [ins_w (gen_i_type 0x03 f3 d rt 0) t])"
  using mem_load [of 0 rt "of_nat d" f3 al] by (auto simp: gen_types base_ok_def intro!: plain_mem [of _ _ _ _ 0] mem_w)

lemma gen_store: "base_ok al rt ru rs \<Longrightarrow> s < 32 \<Longrightarrow> store_size f3 = Some al \<Longrightarrow> fits 3 f3 \<Longrightarrow>
    plain_ok (address_code al rt ru rs @ [ins_w (gen_s_type 0x23 f3 rt s 0) t])"
  using mem_store [of 0 rt "of_nat s" f3 al] by (auto simp: gen_types base_ok_def intro!: plain_mem [of _ _ _ _ 0] mem_w)

lemma gen_mem_always: "always gen_mem plain_ok"
proof -
  have L: "always (gen_bind (pick LOADS) (\<lambda>(f3, w, n). gen_bind (scratch_addr w) (\<lambda>(rt, v). gen_bind any_reg (\<lambda>d.
       gen_return (v @ [ins_w (gen_i_type 0x03 f3 d rt 0) (mem_text n d rt)]))))) plain_ok"
    by (rule yields_bind [OF nonzero.pick_yields])
      (auto simp: LOADS_def load_kind_def intro!: yields_bind [OF scratch_addr_always(2)] yields_bind [OF nonzero.any_reg_yields] yields_return gen_load)
  have S: "always (gen_bind (pick STORES) (\<lambda>(f3, w, n). gen_bind (scratch_addr w) (\<lambda>(rt, v). gen_bind any_reg (\<lambda>rs.
       gen_return (v @ [ins_w (gen_s_type 0x23 f3 rt rs 0) (mem_text n rs rt)]))))) plain_ok"
    by (rule yields_bind [OF nonzero.pick_yields])
      (auto simp: STORES_def store_size_def intro!: yields_bind [OF scratch_addr_always(2)] yields_bind [OF nonzero.any_reg_yields] yields_return gen_store)
  show ?thesis unfolding gen_mem_def by (rule yields_bind [OF nonzero.below_yields]) (simp_all add: L S)
qed

lemma gen_amo_word:
  assumes "rt < 32" "d < 32" "rs < 32" and "f3 = 2 \<and> sz = 4 \<or> f3 = 3 \<and> sz = 8"
    and "opn \<in> {0x00, 0x01, 0x02, 0x03, 0x04, 0x08, 0x0C, 0x10, 0x14, 0x18, 0x1C}"
  shows "mem_word (gen_r_type 0x2F f3 (push_bit 2 opn) d rt rs) rt 0 sz" "rd (gen_r_type 0x2F f3 (push_bit 2 opn) d rt rs) = of_nat d"
proof -
  have o: "fits 7 0x2F" by (simp add: fits_def)
  have f3: "fits 3 f3" and f7: "fits 7 (push_bit 2 opn)" and b: "drop_bit 2 (push_bit 2 opn) = opn"
    using assms(4,5) by (auto simp: fits_def)
  note F = r_type_fields [OF fits_reg [OF assms(1)] f3 fits_reg [OF assms(3)] o fits_reg [OF assms(2)] f7]
  show "mem_word (gen_r_type 0x2F f3 (push_bit 2 opn) d rt rs) rt 0 sz"
    unfolding mem_word_def amo_size_def gen_types F using assms(4,5) b by auto
  show "rd (gen_r_type 0x2F f3 (push_bit 2 opn) d rt rs) = of_nat d" unfolding gen_types F by simp
qed

lemma amo_width_always: "always amo_width (\<lambda>(f3, w, sfx). f3 = 2 \<and> w = 4 \<or> f3 = 3 \<and> w = 8)"
  unfolding amo_width_def by (rule yields_bind [OF nonzero.below_yields]) (auto intro!: yields_return)

lemma gen_amo_always: "always gen_amo plain_ok"
proof -
  have i: "plain_ok (address_code w rt ru rs' @ [ins_w (gen_r_type 0x2F f3 (push_bit 2 opn) d rt rs) t])"
    if "base_ok w rt ru rs'" "d < 32" "rs < 32" "f3 = 2 \<and> w = 4 \<or> f3 = 3 \<and> w = 8" "(opn, n) \<in> set AMOS"
    for w rt ru rs' opn n f3 d rs t
  proof -
    have m: "mem_word (gen_r_type 0x2F f3 (push_bit 2 opn) d rt rs) rt 0 w"
      by (rule gen_amo_word(1)) (use that in \<open>auto simp: base_ok_def AMOS_def\<close>)
    from that(4) show ?thesis by (intro plain_mem [OF that(1), of 0] mem_w [OF m]) auto
  qed
  show ?thesis
    unfolding gen_amo_def
  proof (rule yields_bind [OF nonzero.pick_yields], simp add: AMOS_def, clarify)
    fix opn :: u32 and n
    assume a: "(opn, n) \<in> set AMOS"
    show "always (gen_bind amo_width (\<lambda>(f3, w, sfx). gen_bind (scratch_addr w) (\<lambda>(rt, v). gen_bind any_reg (\<lambda>d. gen_bind any_reg (\<lambda>rs.
        gen_return (v @ [ins_w (gen_r_type 0x2F f3 (push_bit 2 opn) d rt rs)
          (three (n @ ''.'' @ sfx) (xr d) (xr rs) (''('' @ xr rt @ '')''))])))))) plain_ok"
    proof (rule yields_bind [OF amo_width_always], clarify)
      fix f3 :: u32 and w :: nat and sfx
      assume w: "f3 = 2 \<and> w = 4 \<or> f3 = 3 \<and> w = 8"
      show "always (gen_bind (scratch_addr w) (\<lambda>(rt, v). gen_bind any_reg (\<lambda>d. gen_bind any_reg (\<lambda>rs.
          gen_return (v @ [ins_w (gen_r_type 0x2F f3 (push_bit 2 opn) d rt rs)
            (three (n @ ''.'' @ sfx) (xr d) (xr rs) (''('' @ xr rt @ '')''))]))))) plain_ok"
        by (rule yields_bind [OF scratch_addr_always(2)])
          (use w a i in \<open>auto intro!: yields_bind [OF nonzero.any_reg_yields] yields_return\<close>)
    qed
  qed
qed

lemma gen_lr_sc_always: "always gen_lr_sc plain_ok"
proof -
  have i: "plain_ok (address_code w rt ru rs' @ [ins_w (gen_r_type 0x2F f3 (push_bit 2 2) d rt 0) t, ins_w (gen_r_type 0x2F f3 (push_bit 2 3) e rt rs) u])"
    if "base_ok w rt ru rs'" "d < 32" "d \<noteq> rt" "e < 32" "rs < 32" "f3 = 2 \<and> w = 4 \<or> f3 = 3 \<and> w = 8"
    for w rt ru rs' f3 d e rs t u
  proof -
    have rt: "rt < 32" using that(1) by (simp add: base_ok_def)
    have two: "(2 :: u32) \<in> {0x00, 0x01, 0x02, 0x03, 0x04, 0x08, 0x0C, 0x10, 0x14, 0x18, 0x1C}"
      and three: "(3 :: u32) \<in> {0x00, 0x01, 0x02, 0x03, 0x04, 0x08, 0x0C, 0x10, 0x14, 0x18, 0x1C}" by simp_all
    note a = gen_amo_word [OF rt that(2) _ that(6) two, of 0] and b = gen_amo_word [OF rt that(4,5,6) three]
    have "reserves rt w (ins_w (gen_r_type 0x2F f3 (push_bit 2 2) d rt 0) t)"
      using a reg_inject [OF that(2) rt] that(3) by (simp add: reserves_def decoded_w low_words)
    then show ?thesis by (intro plain_reserve that(1) mem_w b(1)) (simp_all add: ins_w_def)
  qed
  have "always (gen_bind (scratch_addr w) (\<lambda>(rt, v). gen_bind (draw_until (\<lambda>r. r = rt) any_reg) (\<lambda>rd1. gen_bind any_reg (\<lambda>rd2.
     gen_bind any_reg (\<lambda>rs. gen_return (v @ [ins_w (gen_r_type 0x2F f3 (push_bit 2 2) rd1 rt 0) (t rd1 rt),
        ins_w (gen_r_type 0x2F f3 (push_bit 2 3) rd2 rt rs) (u rd2 rs rt)])))))) plain_ok"
    if "f3 = 2 \<and> w = 4 \<or> f3 = 3 \<and> w = 8" for f3 w t u
    by (rule yields_bind [OF scratch_addr_always(2)])
      (use that i in \<open>auto intro!: yields_bind [OF other_reg] yields_bind [OF nonzero.any_reg_yields] yields_return\<close>)
  then show ?thesis
    unfolding gen_lr_sc_def by (intro yields_bind [OF amo_width_always]) auto
qed

section \<open>Compressed instructions\<close>

lemma imm6s_bits: "imm \<in> imm6s \<Longrightarrow> imm \<noteq> 0 \<Longrightarrow> imm AND 0x3F \<noteq> 0"
proof -
  assume "imm \<in> imm6s" "imm \<noteq> 0"
  then obtain n where n: "imm = signed_drop_bit 26 (push_bit 26 (of_nat n))" by (auto simp: imm6s_def)
  show "imm AND 0x3F \<noteq> 0"
  proof
    assume z: "imm AND 0x3F = 0"
    have b: "bit imm k \<longleftrightarrow> k < 32 \<and> bit (of_nat n :: u32) (min k 5)" for k unfolding n by (auto simp: bit_simps min_def)
    have "\<not> bit imm k" if "k < 6" for k
      using arg_cong [OF z, of "\<lambda>w. bit w k"] that by (simp add: bit_simps small_masks)
    then have "\<not> bit (of_nat n :: u32) j" if "j < 6" for j using b [of j] that by simp
    then have "imm = 0" by (intro bit_word_eqI) (use b in auto)
    with \<open>imm \<noteq> 0\<close> show False ..
  qed
qed

lemma gen_ci_always:
  assumes "always dst (\<lambda>d. d < 32 \<and> R d)" "always imm I"
    and "\<And>d i. d < 32 \<Longrightarrow> R d \<Longrightarrow> I i \<Longrightarrow> f3 = 0 \<or> f3 = 1 \<and> d \<noteq> 0 \<or> f3 = 2 \<or> f3 = 3 \<and> d \<noteq> 2 \<and> i AND 0x3F \<noteq> 0"
  shows "always (gen_ci f3 n dst imm) calc_ins"
  unfolding gen_ci_def
  by (rule yields_bind [OF assms(1)], rule yields_bind [OF assms(2)], rule yields_return, rule calc_c, rule calc_ci)
    (use assms(3) in auto)

lemma nzreg_always: "always nzreg (\<lambda>r. r < 32 \<and> 1 \<le> r)"
  by (rule yields_weaken [OF nonzero.nzreg_yields]) simp

lemma gen_ci_cases:
  "always (gen_ci 0 n nzreg nz_imm6) calc_ins" "always (gen_ci 1 n nzreg imm6) calc_ins" "always (gen_ci 2 n nzreg imm6) calc_ins"
  "always (gen_ci 3 n (draw_until (\<lambda>r. r = 2) nzreg) nz_imm6) calc_ins"
  by (rule gen_ci_always [OF nzreg_always nz_imm6_always] gen_ci_always [OF nzreg_always imm6_always]; simp)+
    (rule gen_ci_always [OF yields_weaken [OF other_nzreg] nz_imm6_always, where R = "\<lambda>r. r \<noteq> 2"], auto simp: imm6s_bits)

lemma gen_ca_always:
  assumes "ops \<noteq> []" and "w = 0 \<and> fst ` set ops \<subseteq> {0, 1, 2, 3} \<or> w = 1 \<and> fst ` set ops \<subseteq> {0, 1}"
  shows "always (gen_ca w ops) calc_ins"
  unfolding gen_ca_def
  by (rule yields_bind [OF nonzero.c_reg_yields], rule yields_bind [OF nonzero.c_reg_yields], rule yields_bind [OF nonzero.pick_yields])
    (use assms in \<open>force intro!: yields_return calc_c calc_ca\<close>)+

lemma addi4spn_always:
  "always (gen_bind c_reg (\<lambda>d. gen_bind (below 255) (\<lambda>n. let imm = of_nat (4 * (1 + n)) in
      gen_return (ins_c (c_addi4spn_half d imm) (t d imm))))) calc_ins"
proof (rule yields_bind [OF nonzero.c_reg_yields], rule yields_bind [OF nonzero.below_yields], simp, unfold Let_def, rule yields_return, rule calc_c)
  fix d n :: nat
  assume d: "8 \<le> d \<and> d < 16" and n: "n < 255"
  let ?v = "of_nat (4 * (1 + n)) :: u32"
  have f: "fits 10 ?v" by (rule fits_of_nat) (use n in simp)
  have e: "4 * (1 + n) = push_bit 2 (1 + n)" by (simp add: push_bit_eq_mult)
  have b: "\<not> bit ?v 0" "\<not> bit ?v 1" unfolding e by (simp_all add: bit_of_nat_iff bit_push_bit_iff del: add.commute)
  have "unat ?v = 4 * (1 + n)" unfolding unat_of_nat by (rule mod_less) (use n in simp)
  then have "?v \<noteq> 0" by (metis mult_is_0 add_is_0 one_neq_zero unat_0 zero_neq_numeral)
  with d f b show "\<exists>w. expand (c_addi4spn_half d ?v) = Some w \<and> calc_word w" by (intro calc_addi4spn) simp_all
qed

lemma addi16sp_always:
  "always (gen_bind (below 64) (\<lambda>n. let n = of_nat n - 32 :: u32; n = (if n = 0 then 1 else n); imm = n * 16 in
      gen_return (ins_c (c_addi16sp_half imm) (t imm)))) calc_ins"
  by (rule yields_bind [OF nonzero.below_yields], simp, unfold Let_def, rule yields_return, rule calc_c, rule calc_addi16sp, rule sp_imm_nonzero)

lemma gen_compressed_always: "always gen_compressed calc_ins"
proof -
  have slli: "always (gen_bind nzreg (\<lambda>d. gen_bind (below 63) (\<lambda>n. let sh = of_nat (1 + n) in
      gen_return (ins_c (ci 0 2 d sh) (t d sh))))) calc_ins" for t
    by (rule yields_bind [OF nzreg_always], rule yields_bind [OF nonzero.below_yields]) (auto simp: Let_def intro!: yields_return calc_c calc_slli)
  have shift: "always (gen_bind c_reg (\<lambda>d. gen_bind (below 63) (\<lambda>n. gen_bind (below 2) (\<lambda>b.
      let sh = of_nat (1 + n); (f2, t) = (if b = 0 then (0, ''c.srli'') else (1, ''c.srai'')) in
      gen_return (ins_c (cb_imm f2 d sh) (reg_imm t d sh)))))) calc_ins"
    by (rule yields_bind [OF nonzero.c_reg_yields], rule yields_bind [OF nonzero.below_yields], simp, rule yields_bind [OF nonzero.below_yields])
      (auto simp: Let_def intro!: yields_return calc_c calc_cb)
  have andi: "always (gen_bind c_reg (\<lambda>d. gen_bind imm6 (\<lambda>i. gen_return (ins_c (cb_imm 2 d i) (t d i))))) calc_ins" for t
    by (rule yields_bind [OF nonzero.c_reg_yields], rule yields_bind [OF imm6_always]) (auto intro!: yields_return calc_c calc_cb)
  have ca: "always (gen_ca 0 CA_OPS) calc_ins" "always (gen_ca 1 CA_OPS32) calc_ins"
    by (rule gen_ca_always; simp add: CA_OPS_def CA_OPS32_def)+
  have mv: "always (gen_bind nzreg (\<lambda>d. gen_bind nzreg (\<lambda>s2. gen_return (ins_c (c_mv_half d s2) (t d s2))))) calc_ins"
    "always (gen_bind nzreg (\<lambda>d. gen_bind nzreg (\<lambda>s2. gen_return (ins_c (c_add_half d s2) (t d s2))))) calc_ins" for t
    by (rule yields_bind [OF nzreg_always], rule yields_bind [OF nzreg_always], auto intro!: yields_return calc_c calc_mv)+
  show ?thesis
    unfolding gen_compressed_def
    by (rule yields_bind [OF nonzero.below_yields], simp)
      (simp only: gen_ci_cases slli shift andi ca mv addi4spn_always addi16sp_always split: if_splits, simp)
qed

lemma scale: "(if wide then 8 else 4) \<in> {1, 2, 4, 8 :: nat}" by simp

lemma register_forms_always:
  "always (gen_bind c_reg (\<lambda>rt. gen_bind (scratch_addr_in (if wide then 8 else 4) rt) (\<lambda>v.
      gen_bind (below ((if wide then 248 else 124) div (if wide then 8 else 4) + 1)) (\<lambda>q.
      let off = (if wide then 8 else 4) * q in
      gen_bind c_reg (\<lambda>r. gen_bind (below 2) (\<lambda>st. let store = (st = 0) in
      gen_return (v @ [ins_c (cl_half wide store rt r (of_nat off)) (c_mem_text store wide [] r off rt)]))))))) plain_ok"
  unfolding Let_def
proof (rule yields_bind [OF nonzero.c_reg_yields], rule yields_bind [OF scratch_addr_always(1) [OF scale]],
    simp, simp, rule yields_bind [OF nonzero.below_yields], simp, rule yields_bind [OF nonzero.c_reg_yields],
    rule yields_bind [OF nonzero.below_yields], simp, rule yields_return, elim exE conjE)
  fix rt q r st ru rs :: nat and v
  assume a: "8 \<le> rt" "rt < 16" "8 \<le> r" "r < 16" and v: "v = address_code (if wide then 8 else 4) rt ru rs"
    "base_ok (if wide then 8 else 4) rt ru rs" and "q < (if wide then 248 else 124) div (if wide then 8 else 4) + (1 :: nat)"
  then have q: "q < 32" by (cases wide) auto
  show "plain_ok (v @ [ins_c (cl_half wide (st = 0) rt r (of_nat ((if wide then 8 else 4) * q)))
      (c_mem_text (st = 0) wide [] r ((if wide then 8 else 4) * q) rt)])"
    unfolding v(1) by (rule plain_mem [OF v(2) _ _ mem_c [OF cl_access [OF a q refl]]]) (use q in auto)
qed

definition stack_half :: "bool \<Rightarrow> bool \<Rightarrow> nat \<Rightarrow> nat \<Rightarrow> u16" where
  "stack_half wide store r q =
     (let off = of_nat ((if wide then 8 else 4) * q) in if store then css_half wide r off else clsp_half wide r off)"

lemma stack_forms_always:
  "always (gen_bind (scratch_addr_in (if wide then 8 else 4) 2) (\<lambda>v.
      gen_bind (below ((if wide then 504 else 252) div (if wide then 8 else 4) + 1)) (\<lambda>q.
      gen_bind (below 2) (\<lambda>st. gen_bind (if st = 0 then any_reg else nzreg) (\<lambda>r.
      gen_return (v @ [ins_c (stack_half wide (st = 0) r q) (t st r q)])))))) plain_ok"
proof (rule yields_bind [OF scratch_addr_always(1) [OF scale]],
    simp, simp, rule yields_bind [OF nonzero.below_yields], simp, rule yields_bind [OF nonzero.below_yields], simp)
  fix v and q st :: nat
  assume "\<exists>ru rs. v = address_code (if wide then 8 else 4) 2 ru rs \<and> base_ok (if wide then 8 else 4) 2 ru rs"
    and "q < (if wide then 504 else 252) div (if wide then 8 else 4) + (1 :: nat)"
  then obtain ru rs where v: "v = address_code (if wide then 8 else 4) 2 ru rs"
    "base_ok (if wide then 8 else 4) 2 ru rs" and q: "q < 64" by (cases wide) auto
  have r: "always (if st = 0 then any_reg else nzreg) (\<lambda>r. r < 32 \<and> (st = 0 \<or> 1 \<le> r))"
    using yields_weaken [OF nonzero.any_reg_yields] yields_weaken [OF nzreg_always] by auto
  have m: "mem_ins 2 ((if wide then 8 else 4) * q) (if wide then 8 else 4) (ins_c (stack_half wide (st = 0) r q) t)"
    if "r < 32 \<and> (st = 0 \<or> 1 \<le> r)" for r t
    using that css_access [OF _ q refl, of r wide] clsp_access [OF _ _ q refl, of r wide]
    by (cases "st = 0") (simp_all add: mem_c stack_half_def Let_def del: of_nat_mult)
  show "always (gen_bind (if st = 0 then any_reg else nzreg) (\<lambda>r. gen_return (v @ [ins_c (stack_half wide (st = 0) r q) (t st r q)]))) plain_ok"
    unfolding v(1) by (rule yields_bind [OF r], rule yields_return, rule plain_mem [OF v(2) _ _ m]) (use q in auto)
qed

lemmas stack_forms = stack_forms_always [where t = "\<lambda>st r q. c_mem_text (st = 0) wide ''sp''
  (unat ((if st = 0 then drop_bit 2 (stack_half wide (st = 0) r q) else drop_bit 7 (stack_half wide (st = 0) r q)) AND 0x1F))
    ((if wide then 8 else 4) * q) 2" and wide = wide for wide, unfolded stack_half_def Let_def]

lemma gen_compressed_mem_always: "always gen_compressed_mem plain_ok"
proof -
  have two: "always (gen_bind (below 2) (\<lambda>w. f (w = 0))) plain_ok" if "\<And>wide. always (f wide) plain_ok" for f
    by (rule yields_bind [OF nonzero.below_yields]) (simp_all add: that)
  show ?thesis
    unfolding gen_compressed_mem_def Let_def
    by (rule yields_bind [OF nonzero.below_yields], simp, split if_split, intro conjI impI)
      (rule two [OF register_forms_always [unfolded Let_def]], rule two [OF stack_forms])
qed

section \<open>Chunks\<close>

lemma plain_always: "always m plain_ok \<Longrightarrow> always (plain m) chunk_ok"
  unfolding plain_def by (erule yields_bind) (simp add: yields_return)

lemma gen_skip_always: "always gen_skip (\<lambda>n. 1 \<le> n \<and> n \<le> MAX_SKIP)"
  unfolding gen_skip_def by (rule yields_bind [OF nonzero.below_yields]) (simp_all add: yields_return)

lemma fence_calc: "plain_ok [ins_w 0x0FF0000F t]"
proof -
  have "calc_word 0x0FF0000F" by code_simp
  then show ?thesis by (intro plain_calc calc_w)
qed

lemma gen_kind_chunk_always: "always (gen_kind_chunk k) chunk_ok"
proof (cases k)
  case KCompressed
  then show ?thesis
    by (auto intro!: plain_always yields_bind [OF gen_compressed_always] yields_return plain_calc)
next
  case KBranch
  then show ?thesis
    by (auto intro!: yields_bind [OF nonzero.pick_yields] yields_bind [OF nonzero.any_reg_yields] yields_bind [OF gen_skip_always] yields_return)
next
  case KFence
  then show ?thesis by (auto intro!: plain_always yields_return fence_calc)
qed (auto intro!: plain_always ops_always gen_op_imm_always gen_op_imm32_always gen_upper_always gen_mul_always gen_mem_always
  gen_amo_always gen_lr_sc_always gen_compressed_mem_always yields_bind [OF nonzero.any_reg_yields] yields_bind [OF nonzero.nzreg_yields]
  yields_bind [OF nonzero.c_reg_yields] yields_bind [OF nonzero.coin_yields] yields_bind [OF gen_skip_always] yields_return)

text \<open>The weights add up, so the selection always finds a kind.\<close>

lemma weighted_finds: "p < sum_list (map fst WEIGHTS) \<Longrightarrow> \<exists>k. weighted WEIGHTS p = Inr k"
proof -
  assume "p < sum_list (map fst WEIGHTS)"
  then have n: "unat p < 104" by (simp add: WEIGHTS_def word_less_nat_alt)
  have "list_all (\<lambda>n. \<not> isl (weighted WEIGHTS (of_nat n))) [0..<104]" by code_simp
  with n have "\<not> isl (weighted WEIGHTS (of_nat (unat p)))" by (auto simp: list_all_iff simp del: of_nat_unat)
  then show ?thesis by (cases "weighted WEIGHTS p") auto
qed

lemma gen_chunk_always: "always gen_chunk chunk_ok"
proof -
  have w: "unat (sum_list (map fst WEIGHTS)) = 104" by (simp add: WEIGHTS_def)
  show ?thesis
    unfolding gen_chunk_def w
  proof (rule yields_bind [OF nonzero.below_yields], simp)
    fix p :: nat
    assume "p < 104"
    then have "(of_nat p :: u32) < sum_list (map fst WEIGHTS)" using w by (simp add: word_less_nat_alt unat_of_nat)
    then obtain k where k: "weighted WEIGHTS (of_nat p) = Inr k" using weighted_finds by blast
    show "always (gen_bind (gen_lift (weighted WEIGHTS (of_nat p))) gen_kind_chunk) chunk_ok"
      unfolding k by (rule yields_bind [OF yields_lift [of "\<lambda>_. True"]]) (simp_all add: gen_kind_chunk_always)
  qed
qed

text \<open>From the zero state every number drawn is zero, and the chunk is \<open>add x0, x0, x0\<close>.\<close>

lemma gen_chunk_stuck: "yields (\<lambda>s. s = 0) gen_chunk chunk_ok"
proof -
  have z: "next_u64 0 = Some (Inr 0, 0)" by (simp add: next_u64_def xorshift_def)
  have b: "below n 0 = Some (Inr 0, 0)" if "0 < n" for n using that z by (simp add: below_def gen_bind_def gen_return_def)
  have w: "0 < unat (sum_list (map fst WEIGHTS))" "weighted WEIGHTS 0 = Inr KOp" by (simp_all add: WEIGHTS_def)
  have "gen_chunk 0 = Some (Inr (Plain [ins_w (gen_r_type 0x33 0 0 0 0 0) (three ''add'' (xr 0) (xr 0) (xr 0))]), 0)"
    by (simp add: gen_chunk_def gen_bind_def b w gen_lift_def plain_def gen_op_def pick_def OPS_def three_regs_def any_reg_def gen_return_def)
  moreover have "calc_word (gen_r_type 0x33 0 0 0 0 0)" by (rule r_type_calc) simp_all
  ultimately show ?thesis by (simp add: yields_def plain_calc calc_w)
qed

end
