(* ===== verification/Gen_Total.thy ===== *)
theory Gen_Total
  imports Gen_Chunks
begin

text \<open>
  Every seed has a program: no loop of the generator runs forever and no assertion of it fails. The
  program is laid out as the chunks were drawn, below the limit of the code, and its control
  transfers go forward.
\<close>

section \<open>Lengths\<close>

lemma decoded_size: "decoded i = Some w \<Longrightarrow> isize i = 2 \<or> isize i = 4"
  by (simp add: decoded_def split: if_splits)

lemma ins_sizes: "calc_ins i \<Longrightarrow> isize i = 2 \<or> isize i = 4" "mem_ins r off sz i \<Longrightarrow> isize i = 2 \<or> isize i = 4"
  using decoded_size by (auto simp: calc_ins_def mem_ins_def)

lemma size_address_code [simp]: "code_size (address_code al rt ru rs) = 16"
  by (simp add: code_size_def address_code_def Let_def ins_w_def)

lemma code_size_append [simp]: "code_size (v @ w) = code_size v + code_size w"
  and code_size_Nil [simp]: "code_size [] = 0"
  and code_size_Cons [simp]: "code_size (i # v) = isize i + code_size v"
  by (simp_all add: code_size_def)

lemma chunk_len_Plain [simp]: "chunk_len (Plain v) = code_size v"
  by (simp add: code_size_def)

declare chunk_len.simps(1) [simp del]

lemma plain_sizes:
  assumes "plain_ok v"
  shows "even (code_size v) \<and> 2 \<le> code_size v \<and> code_size v \<le> MAX_CHUNK"
proof -
  have "code_size v \<in> {2, 4, 18, 20, 24}"
    using assms unfolding plain_ok_def
  proof (elim disjE exE conjE)
    fix i assume "v = [i]" "calc_ins i"
    then show ?thesis using ins_sizes(1) [of i] by auto
  next
    fix al rt ru rs off i assume "v = address_code al rt ru rs @ [i]" "mem_ins rt off al i"
    then show ?thesis using ins_sizes(2) [of rt off al i] by auto
  qed simp
  then show ?thesis by auto
qed

lemma chunk_sizes: "chunk_ok c \<Longrightarrow> even (chunk_len c) \<and> 2 \<le> chunk_len c \<and> chunk_len c \<le> MAX_CHUNK"
  by (cases c) (use plain_sizes in auto)

lemma length_chunk_offs [simp]: "length (chunk_offs off cs) = length cs"
  by (induction cs arbitrary: off) simp_all

lemma nth_chunk_offs: "i < length cs \<Longrightarrow> chunk_offs off cs ! i = off + sum_list (map chunk_len (take i cs))"
proof (induction cs arbitrary: off i)
  case (Cons c cs)
  then show ?case by (cases i) simp_all
qed simp

section \<open>Displacements\<close>

lemma chunks_span:
  assumes "list_all chunk_ok cs"
  shows "even (sum_list (map chunk_len cs))" "2 * length cs \<le> sum_list (map chunk_len cs)"
    "sum_list (map chunk_len cs) \<le> 24 * length cs"
  using assms by (induction cs) (use chunk_sizes in fastforce)+

text \<open>The target of a control transfer is a later chunk, at most six ahead.\<close>

lemma displacement_eq:
  assumes "i < length cs" and "offs = chunk_offs off (cs @ [stop_marker])"
  shows "displacement offs i skip = sum_list (map chunk_len (take skip (drop i cs)))"
proof -
  let ?t = "min (i + skip) (length cs)"
  have e: "sum_list (map chunk_len (take ?t cs)) =
      sum_list (map chunk_len (take i cs)) + sum_list (map chunk_len (take (?t - i) (drop i cs)))"
    using assms(1) by (metis take_add sum_list_append map_append le_add_diff_inverse min.boundedI le_add1 less_imp_le)
  have "take (?t - i) (drop i cs) = take skip (drop i cs)" by (cases "i + skip \<le> length cs") auto
  with e assms show ?thesis by (simp add: displacement_def nth_chunk_offs)
qed

lemma displacement_bounds:
  assumes "i < length cs" "offs = chunk_offs off (cs @ [stop_marker])" "list_all chunk_ok cs" "1 \<le> skip" "skip \<le> MAX_SKIP"
  shows "even (displacement offs i skip)" "2 \<le> displacement offs i skip" "displacement offs i skip \<le> 144"
proof -
  have ok: "list_all chunk_ok (take skip (drop i cs))"
    using assms(3) by (auto simp: list_all_iff dest: in_set_takeD in_set_dropD)
  have len: "1 \<le> length (take skip (drop i cs))" "length (take skip (drop i cs)) \<le> 6" using assms(1,4,5) by auto
  show "even (displacement offs i skip)" "2 \<le> displacement offs i skip" "displacement offs i skip \<le> 144"
    unfolding displacement_eq [OF assms(1,2)] using chunks_span [OF ok] len by auto
qed

section \<open>Chunks until the room is used\<close>

locale chunk_source = entropy +
  assumes chunk: "yields Z gen_chunk chunk_ok"
begin

lemma body_chunks_yield:
  "yields Z (body_chunks n off) (\<lambda>cs. list_all chunk_ok cs \<and> length cs \<le> n \<and>
     off + sum_list (map chunk_len cs) \<le> max off (CODE_LIMIT - 64))"
proof (induction n arbitrary: off)
  case (Suc n)
  show ?case
    unfolding body_chunks.simps
  proof (rule yields_bind [OF chunk], rule yields_bind [OF yields_assert])
    fix c
    assume c: "chunk_ok c"
    then show "chunk_len c \<le> MAX_CHUNK" using chunk_sizes by blast
    show "yields Z (if CODE_LIMIT - 64 < off + chunk_len c then gen_return []
        else gen_bind (body_chunks n (off + chunk_len c)) (\<lambda>cs. gen_return (c # cs)))
        (\<lambda>cs. list_all chunk_ok cs \<and> length cs \<le> Suc n \<and> off + sum_list (map chunk_len cs) \<le> max off (CODE_LIMIT - 64))"
      using c by (auto intro!: yields_return yields_bind [OF Suc.IH])
  qed
qed (simp add: yields_return)

end

interpretation nonzero_chunks: chunk_source "\<lambda>s. s \<noteq> 0"
  by unfold_locales (rule gen_chunk_always)

interpretation stuck_chunks: chunk_source "\<lambda>s. s = 0"
  by unfold_locales (rule gen_chunk_stuck)

section \<open>Resolved control transfers\<close>

text \<open>What a chunk becomes when the distance to its target is known: a plain chunk stays, and a
  control transfer decodes to a jump by that distance, or to one through a register the code before
  it has set to the target.\<close>

definition branches :: "nat \<Rightarrow> ins \<Rightarrow> bool" where
  "branches d i \<longleftrightarrow> (\<exists>w. decoded i = Some w \<and> opcode w = 0x63 \<and> funct3 w \<in> {0, 1, 4, 5, 6, 7} \<and> imm_b w = of_nat d)"

definition jumps :: "nat \<Rightarrow> ins \<Rightarrow> bool" where
  "jumps d i \<longleftrightarrow> (\<exists>w. decoded i = Some w \<and> opcode w = 0x6F \<and> imm_j w = of_nat d)"

definition jumps_to :: "nat \<Rightarrow> ins \<Rightarrow> bool" where
  "jumps_to r i \<longleftrightarrow> (\<exists>w. decoded i = Some w \<and> opcode w = 0x67 \<and> rs1 w = of_nat r \<and> imm_i w = 0)"

text \<open>\<open>auipc rt, 0\<close> and \<open>addi rt, rt, d\<close>\<close>

definition target_code :: "nat \<Rightarrow> nat \<Rightarrow> ins list \<Rightarrow> bool" where
  "target_code rt d v \<longleftrightarrow> map isize v = [4, 4] \<and> map iword v = [gen_u_type 0x17 rt 0, gen_i_type 0x13 0 rt rt (of_nat d)]"

fun resolved :: "nat \<Rightarrow> chunk \<Rightarrow> ins list \<Rightarrow> bool" where
  "resolved d (Plain v) u \<longleftrightarrow> u = v"
| "resolved d (Branch f3 a b n) u \<longleftrightarrow> (\<exists>i. u = [i] \<and> isize i = 4 \<and> branches d i)"
| "resolved d (Jal r n) u \<longleftrightarrow> (\<exists>i. u = [i] \<and> isize i = 4 \<and> jumps d i)"
| "resolved d (Jalr rt r n) u \<longleftrightarrow> (\<exists>v i. u = v @ [i] \<and> isize i = 4 \<and> target_code rt d v \<and> jumps_to rt i)"
| "resolved d (CBranch ne a n) u \<longleftrightarrow> (\<exists>i. u = [i] \<and> isize i = 2 \<and> branches d i)"
| "resolved d (CJ n) u \<longleftrightarrow> (\<exists>i. u = [i] \<and> isize i = 2 \<and> jumps d i)"
| "resolved d (CJr rt l n) u \<longleftrightarrow> (\<exists>v i. u = v @ [i] \<and> isize i = 2 \<and> target_code rt d v \<and> jumps_to rt i)"

lemma branches_w:
  assumes "f3 \<in> {0, 1, 4, 5, 6, 7}" "a < 32" "b < 32" and "even d" "d < 2048"
  shows "branches d (ins_w (gen_b_type f3 a b (of_nat d)) t)"
proof -
  have o: "fits 7 0x63" and f3: "fits 3 f3" using assms(1) by (auto simp: fits_def)
  have e: "\<not> bit (of_nat d :: u32) 0" using assms(4) by (simp add: bit_0)
  have s: "signed_take_bit 12 (of_nat d :: u64) = of_nat d" by (rule signed_of_nat) (use assms(5) in simp)
  let ?w = "b_type (of_nat d) (of_nat b) (of_nat a) f3 0x63"
  note F = b_type_fields(1,4) [OF fits_reg [OF assms(2)] f3 fits_reg [OF assms(3)] o, where imm = "of_nat d"]
  note I = imm_b_b_type [OF fits_reg [OF assms(2)] f3 fits_reg [OF assms(3)] o e]
  have "?w AND 3 = 3" unfolding low_opcode [of ?w] F(1) by simp
  then show ?thesis using F I s assms(1,5) by (simp add: branches_def gen_types decoded_w small_offset(2))
qed

lemma jumps_w:
  assumes "r < 32" and "even d" "d < 2048"
  shows "jumps d (ins_w (gen_j_type r (of_nat d)) t)"
proof -
  have o: "fits 7 0x6F" by (simp add: fits_def)
  have e: "\<not> bit (of_nat d :: u32) 0" using assms(2) by (simp add: bit_0)
  have s: "signed_take_bit 20 (of_nat d :: u64) = of_nat d" by (rule signed_of_nat) (use assms(3) in simp)
  let ?w = "j_type (of_nat d) (of_nat r) 0x6F"
  note F = j_type_fields(1) [OF fits_reg [OF assms(1)] o, of "of_nat d"] and I = imm_j_j_type [OF fits_reg [OF assms(1)] o e]
  have "?w AND 3 = 3" unfolding low_opcode [of ?w] F by simp
  then show ?thesis using F I s assms(3) by (simp add: jumps_def gen_types decoded_w small_offset(2))
qed

lemma jumps_to_w:
  assumes "r < 32" "rt < 32"
  shows "jumps_to rt (ins_w (gen_i_type 0x67 0 r rt 0) t)"
proof -
  have o: "fits 7 0x67" "fits 3 0" by (simp_all add: fits_def)
  let ?w = "i_type 0 (of_nat rt) 0 (of_nat r) 0x67"
  note F = i_type_fields [OF fits_reg [OF assms(2)] o(2) fits_reg [OF assms(1)] o(1), of 0]
    and I = imm_i_i_type [OF fits_reg [OF assms(2)] o(2) fits_reg [OF assms(1)] o(1), of 0]
  have "?w AND 3 = 3" unfolding low_opcode [of ?w] F(1) by simp
  then show ?thesis using F I by (simp add: jumps_to_def gen_types decoded_w)
qed

lemma expand_jumps:
  "\<exists>w. expand h = Some w \<and> opcode w = 0x63 \<and> (funct3 w = 0 \<or> funct3 w = 1) \<and> imm_b w = of_nat d \<Longrightarrow> branches d (ins_c h t)"
  "\<exists>w. expand h = Some w \<and> opcode w = 0x6F \<and> imm_j w = of_nat d \<Longrightarrow> jumps d (ins_c h t)"
  "\<exists>w. expand h = Some w \<and> opcode w = 0x67 \<and> rs1 w = of_nat r \<and> imm_i w = 0 \<Longrightarrow> jumps_to r (ins_c h t)"
  by (auto simp: branches_def jumps_def jumps_to_def decoded_c)

fun skip_of :: "chunk \<Rightarrow> nat" where
  "skip_of (Plain v) = 1"
| "skip_of (Branch _ _ _ n) = n"
| "skip_of (Jal _ n) = n"
| "skip_of (Jalr _ _ n) = n"
| "skip_of (CBranch _ _ n) = n"
| "skip_of (CJ n) = n"
| "skip_of (CJr _ _ n) = n"

lemma skip_of: "chunk_ok c \<Longrightarrow> 1 \<le> skip_of c \<and> skip_of c \<le> MAX_SKIP"
  by (cases c) auto

lemma isize_ins [simp]: "isize (ins_w w t) = 4" "isize (ins_c h t) = 2"
  by (simp_all add: ins_w_def ins_c_def)

lemma target_code: "target_code rt d [ins_w (gen_u_type 0x17 rt 0) t, ins_w (gen_i_type 0x13 0 rt rt (of_nat d)) u]"
  by (simp add: target_code_def ins_w_def)

lemma resolve_ok:
  assumes "chunk_ok c" and d: "d = displacement offs i (skip_of c)" and "even d" "2 \<le> d" "d \<le> 144"
  shows "\<exists>u. resolve offs i c = Inr u \<and> resolved d c u \<and> code_size u = chunk_len c"
proof (cases c)
  case (Branch f3 a b n)
  have "\<not> 8 \<le> unat f3" using assms(1) Branch by auto
  with Branch assms show ?thesis by (auto simp: Let_def intro!: branches_w)
next
  case (Jal r n)
  with assms show ?thesis by (auto simp: Let_def intro!: jumps_w)
next
  case (Jalr rt r n)
  let ?v = "\<lambda>t u. [ins_w (gen_u_type 0x17 rt 0) t, ins_w (gen_i_type 0x13 0 rt rt (of_nat d)) u]"
  have "\<exists>w j. ?v t u @ [ins_w (gen_i_type 0x67 0 r rt 0) l] = w @ [j] \<and> isize j = 4 \<and> target_code rt d w \<and> jumps_to rt j" for t u l
    using assms(1) Jalr by (intro exI [of _ "?v t u"] exI [of _ "ins_w (gen_i_type 0x67 0 r rt 0) l"]) (simp add: target_code jumps_to_w)
  with Jalr assms show ?thesis by (simp add: Let_def min_absorb1)
next
  case (CBranch ne a n)
  with assms cb_branch [of a d ne] show ?thesis by (auto simp: Let_def intro!: expand_jumps)
next
  case (CJ n)
  with assms cj_jump [of d] show ?thesis by (auto simp: Let_def intro!: expand_jumps)
next
  case (CJr rt l n)
  let ?v = "\<lambda>t u. [ins_w (gen_u_type 0x17 rt 0) t, ins_w (gen_i_type 0x13 0 rt rt (of_nat d)) u]"
  have "\<exists>w j. ?v t u @ [ins_c (cjr_half l rt) k] = w @ [j] \<and> isize j = 2 \<and> target_code rt d w \<and> jumps_to rt j" for t u k
    using assms(1) CJr cjr_jump [of rt l]
    by (intro exI [of _ "?v t u"] exI [of _ "ins_c (cjr_half l rt) k"]) (simp add: target_code expand_jumps(3))
  with CJr assms show ?thesis by (simp add: Let_def)
qed auto

section \<open>The body\<close>

text \<open>The chunks from the \<open>i\<close>th on, each resolved, one after the other.\<close>

fun resolves :: "nat list \<Rightarrow> nat \<Rightarrow> chunk list \<Rightarrow> ins list list \<Rightarrow> bool" where
  "resolves offs i [] us \<longleftrightarrow> us = []"
| "resolves offs i (c # cs) us \<longleftrightarrow>
     (\<exists>u vs. us = u # vs \<and> resolved (displacement offs i (skip_of c)) c u \<and> code_size u = chunk_len c \<and> resolves offs (i + 1) cs vs)"

lemma resolve_from_ok:
  assumes "offs = chunk_offs off (cs @ [stop_marker])" "list_all chunk_ok cs"
  shows "i \<le> length cs \<Longrightarrow>
    \<exists>us. resolve_from offs i (drop i cs @ [stop_marker]) = Inr (concat us @ [ins_w ECALL ''ecall  # stop marker'']) \<and> resolves offs i (drop i cs) us"
proof (induction "length cs - i" arbitrary: i)
  case 0
  then show ?case by (intro exI [of _ "[]"]) (simp add: stop_marker_def)
next
  case (Suc k)
  then have i: "i < length cs" by simp
  have k: "k = length cs - (i + 1)" "i + 1 \<le> length cs" using Suc.hyps(2) i by simp_all
  obtain c where c: "drop i cs = c # drop (i + 1) cs" "chunk_ok c"
    using assms(2) i by (metis Cons_nth_drop_Suc Suc_eq_plus1 list_all_length)
  note sk = skip_of [OF c(2)]
  note D = displacement_bounds [OF i assms(1,2), of "skip_of c"]
  obtain u where u: "resolve offs i c = Inr u" "resolved (displacement offs i (skip_of c)) c u" "code_size u = chunk_len c"
    using resolve_ok [OF c(2) refl] D sk by blast
  obtain us where "resolve_from offs (i + 1) (drop (i + 1) cs @ [stop_marker]) = Inr (concat us @ [ins_w ECALL ''ecall  # stop marker''])"
    "resolves offs (i + 1) (drop (i + 1) cs) us" using Suc.hyps(1) [of "i + 1"] k i by (fastforce simp only: Suc_eq_plus1 Suc_leI)
  with u c(1) show ?case by (intro exI [of _ "u # us"]) simp
qed

section \<open>The image\<close>

text \<open>The bytes of the instructions lie in the image from an offset on.\<close>

fun code_at :: "u8 list \<Rightarrow> nat \<Rightarrow> ins list \<Rightarrow> bool" where
  "code_at img off [] \<longleftrightarrow> True"
| "code_at img off (i # is) \<longleftrightarrow>
     off + isize i \<le> length img \<and> slice off (isize i) img = take (isize i) (to_le 4 (iword i)) \<and> code_at img (off + isize i) is"

lemma code_at_append: "code_at img off (v @ w) \<longleftrightarrow> code_at img off v \<and> code_at img (off + code_size v) w"
  by (induction v arbitrary: off) (auto simp: add.assoc)

lemma code_at_cong:
  assumes "length img' = length img" and "\<And>k. off \<le> k \<Longrightarrow> k < off + code_size v \<Longrightarrow> img' ! k = img ! k"
  shows "code_at img' off v \<longleftrightarrow> code_at img off v"
  using assms(2)
proof (induction v arbitrary: off)
  case (Cons i v)
  have "slice off (isize i) img' = slice off (isize i) img" if "off + isize i \<le> length img"
    by (rule nth_equalityI) (use that assms(1) Cons.prems in \<open>auto simp: length_slice nth_slice\<close>)
  moreover have "code_at img' (off + isize i) v = code_at img (off + isize i) v" by (rule Cons.IH) (use Cons.prems in auto)
  ultimately show ?case using assms(1) by auto
qed simp

abbreviation "short \<equiv> list_all (\<lambda>i. isize i \<le> 4)"

lemma place_code_ok:
  "short v \<Longrightarrow> off + code_size v \<le> length img \<Longrightarrow>
   \<exists>img'. place_code off v img = Inr img' \<and> length img' = length img \<and> code_at img' off v \<and>
     (\<forall>k < length img. k < off \<or> off + code_size v \<le> k \<longrightarrow> img' ! k = img ! k)"
proof (induction v arbitrary: off img)
  case (Cons i v)
  let ?bs = "take (isize i) (to_le 4 (iword i))" and ?img = "splice off (take (isize i) (to_le 4 (iword i))) img"
  have len: "length ?bs = isize i" using Cons.prems(1) by simp
  have fit: "off + length ?bs \<le> length img" using Cons.prems(2) len by simp
  have l: "length ?img = length img" by (rule length_splice [OF fit])
  note nth = nth_splice [OF fit, unfolded len]
  obtain img' where I: "place_code (off + isize i) v ?img = Inr img'" "length img' = length img" "code_at img' (off + isize i) v"
    "\<And>k. k < length img \<Longrightarrow> k < off + isize i \<or> off + isize i + code_size v \<le> k \<Longrightarrow> img' ! k = ?img ! k"
    using Cons.IH [of "off + isize i" ?img] Cons.prems l by auto
  have "slice off (isize i) img' = ?bs"
    by (rule nth_equalityI) (use I(2,4) fit len nth in \<open>auto simp: length_slice nth_slice\<close>)
  moreover have "place_code off (i # v) img = Inr img'" using I(1) fit by (simp add: copy_into_def)
  moreover have "img' ! k = img ! k" if "k < length img" "k < off \<or> off + code_size (i # v) \<le> k" for k
    using I(4) [of k] nth [OF that(1)] that by auto
  ultimately show ?case using I fit len by auto
qed simp


lemma layout_image_ok:
  assumes "length words = PAGE div 8" "length table = 31" "short pro" "short body"
    and "ENTRY_OFF + code_size pro = start" and "start + code_size body \<le> CODE_LIMIT"
  shows "\<exists>img. layout_image words pro start body table = Inr img \<and> length img = MEMSZ \<and>
    code_at img ENTRY_OFF pro \<and> code_at img start body \<and> slice TABLE_OFF 248 img = concat (map (to_le 8) table)"
proof -
  let ?img = "replicate SCRATCH_OFF 0 @ concat (map (to_le 8) words)"
  have concat8: "length (concat (map (to_le 8) ws)) = 8 * length ws" for ws :: "u64 list" by (induction ws) simp_all
  have l: "length ?img = MEMSZ" using assms(1) concat8 [of words] by simp
  have e: "short exit_stub" "code_size exit_stub = 16" by (simp_all add: exit_stub_def)
  obtain i1 where i1: "place_code EXIT_OFF exit_stub ?img = Inr i1" "length i1 = MEMSZ"
    using place_code_ok [OF e(1), of EXIT_OFF ?img] e(2) l by auto
  obtain i2 where i2: "place_code ENTRY_OFF pro i1 = Inr i2" "length i2 = MEMSZ" "code_at i2 ENTRY_OFF pro"
    using place_code_ok [OF assms(3), of ENTRY_OFF i1] assms(5,6) i1(2) by auto
  obtain i3 where i3: "place_code start body i2 = Inr i3" "length i3 = MEMSZ" "code_at i3 start body"
    "\<And>k. k < MEMSZ \<Longrightarrow> k < start \<Longrightarrow> i3 ! k = i2 ! k"
    using place_code_ok [OF assms(4), of start i2] assms(6) i2(2) by auto
  let ?t = "concat (map (to_le 8) table)"
  have t: "length ?t = 248" using concat8 [of table] assms(2) by simp
  let ?i4 = "splice TABLE_OFF ?t i3"
  have l4: "length ?i4 = MEMSZ" using length_splice [of TABLE_OFF ?t i3] t i3(2) by simp
  have n4: "?i4 ! k = i3 ! k" if "k < CODE_LIMIT" for k using nth_splice [of TABLE_OFF ?t i3 k] t i3(2) that by simp
  have "code_at ?i4 ENTRY_OFF pro \<longleftrightarrow> code_at i2 ENTRY_OFF pro"
    by (rule code_at_cong) (use l4 i2(2) n4 i3(4) assms(5,6) in auto)
  moreover have "code_at ?i4 start body \<longleftrightarrow> code_at i3 start body"
    by (rule code_at_cong) (use l4 i3(2) n4 assms(6) in auto)
  moreover have "slice TABLE_OFF 248 ?i4 = ?t" using t i3(2) by (simp add: slice_def splice_def)
  moreover have "layout_image words pro start body table = Inr ?i4"
    using i1(1) i2(1) i3(1,2) t by (simp add: layout_image_def copy_into_def)
  ultimately show ?thesis using i2(3) i3(3) l4 by auto
qed

section \<open>Every seed has a program\<close>

abbreviation BODY_OFF :: nat where "BODY_OFF \<equiv> 0xD0"

text \<open>The distance the prologue checks is 180, so its check passes.\<close>

definition prologue_code :: "ins list" where
  "prologue_code =
     prologue_head @
     [ins_w (gen_u_type 0x17 31 1) ''auipc x31, 1'', ins_w (gen_i_type 0x13 0 31 31 180) (three ''addi'' ''x31'' ''x31'' (i32_text 180))] @
     map prologue_load [1..<32]"

lemma prologue_eq: "prologue = Inr prologue_code"
proof -
  have d: "prologue_delta = 180" by (simp add: prologue_delta_def prologue_head_def)
  show ?thesis unfolding prologue_def prologue_code_def d by simp
qed

lemma short_loads: "short (map prologue_load ns)" "code_size (map prologue_load ns) = 4 * length ns"
  by (induction ns) (simp_all add: prologue_load_def Let_def)

lemma prologue_sizes: "short prologue_code" "code_size prologue_code = 0x90"
  using short_loads [of "[1..<32]"] by (simp_all add: prologue_code_def prologue_head_def)

lemma short_plain: "plain_ok v \<Longrightarrow> short v"
proof -
  have a: "short (address_code al rt ru rs)" for al rt ru rs by (simp add: address_code_def Let_def)
  show "plain_ok v \<Longrightarrow> short v" unfolding plain_ok_def using ins_sizes a by fastforce
qed

lemma short_resolved: "chunk_ok c \<Longrightarrow> resolved d c u \<Longrightarrow> short u"
  by (cases c) (auto simp: short_plain target_code_def)

lemma short_resolves: "resolves offs i cs us \<Longrightarrow> list_all chunk_ok cs \<Longrightarrow> short (concat us)"
  and size_resolves: "resolves offs i cs us \<Longrightarrow> code_size (concat us) = sum_list (map chunk_len cs)"
  by (induction cs arbitrary: i us) (auto dest: short_resolved)

text \<open>The program is the given chunks, resolved and laid out after the prologue.\<close>

definition made_of :: "chunk list \<Rightarrow> ins list list \<Rightarrow> prog \<Rightarrow> bool" where
  "made_of cs us p \<longleftrightarrow>
     (let offs = chunk_offs BODY_OFF (cs @ [stop_marker]) in
      list_all chunk_ok cs \<and> length cs \<le> CHUNKS \<and> BODY_OFF + sum_list (map chunk_len cs) \<le> CODE_LIMIT - 64 \<and>
      resolves offs 0 cs us \<and> length (p_image p) = MEMSZ \<and> code_at (p_image p) ENTRY_OFF prologue_code \<and>
      code_at (p_image p) BODY_OFF (concat us @ [ins_w ECALL ''ecall  # stop marker'']) \<and>
      body_start p = BASE + of_nat BODY_OFF \<and> ecall_pc p = BASE + of_nat (last offs) \<and>
      body_len p = length (concat us) + 1)"

lemma bind_lift [simp]: "gen_bind (gen_lift (Inr a)) f = f a"
  by (rule ext) (simp add: gen_bind_def gen_lift_def)

lemma made_of_layout:
  assumes "list_all chunk_ok cs" "length cs \<le> CHUNKS" "BODY_OFF + sum_list (map chunk_len cs) \<le> CODE_LIMIT - 64"
    and "length words = PAGE div 8" "length table = 31"
  shows "\<exists>us img. resolve_from (chunk_offs BODY_OFF (cs @ [stop_marker])) 0 (cs @ [stop_marker]) =
      Inr (concat us @ [ins_w ECALL ''ecall  # stop marker'']) \<and>
    layout_image words prologue_code BODY_OFF (concat us @ [ins_w ECALL ''ecall  # stop marker'']) table = Inr img \<and>
    made_of cs us \<lparr>p_seed = s, p_image = img, body_start = BASE + of_nat BODY_OFF,
      ecall_pc = BASE + of_nat (last (chunk_offs BODY_OFF (cs @ [stop_marker]))), body_len = length (concat us) + 1, p_listing = l\<rparr>"
proof -
  let ?ecall = "ins_w ECALL ''ecall  # stop marker''"
  obtain us where us: "resolve_from (chunk_offs BODY_OFF (cs @ [stop_marker])) 0 (cs @ [stop_marker]) = Inr (concat us @ [?ecall])"
    "resolves (chunk_offs BODY_OFF (cs @ [stop_marker])) 0 cs us" using resolve_from_ok [OF refl assms(1), of 0 BODY_OFF] by auto
  have "short (concat us @ [?ecall])" using short_resolves [OF us(2) assms(1)] by simp
  moreover have "BODY_OFF + code_size (concat us @ [?ecall]) \<le> CODE_LIMIT" using size_resolves [OF us(2)] assms(3) by simp
  ultimately obtain img where img: "layout_image words prologue_code BODY_OFF (concat us @ [?ecall]) table = Inr img" "length img = MEMSZ"
    "code_at img ENTRY_OFF prologue_code" "code_at img BODY_OFF (concat us @ [?ecall])"
    using layout_image_ok [OF assms(4,5) prologue_sizes(1), of "concat us @ [?ecall]" BODY_OFF] prologue_sizes(2) by auto
  with us assms(1-3) show ?thesis unfolding made_of_def Let_def by (intro exI [of _ us] exI [of _ img]) simp
qed

context chunk_source
begin

lemma program_yields: "yields Z (program_of s) (\<lambda>p. p_seed p = s \<and> (\<exists>cs us. made_of cs us p))"
proof -
  have off: "ENTRY_OFF + code_size prologue_code = BODY_OFF" by (simp add: prologue_sizes)
  show ?thesis
    unfolding program_of_def prologue_eq bind_lift Let_def off
  proof (rule yields_bind [OF seed_table_yields], rule yields_bind [OF body_chunks_yield])
    fix table cs
    assume t: "length (table :: u64 list) = 31" and "list_all chunk_ok cs \<and> length cs \<le> CHUNKS \<and>
      BODY_OFF + sum_list (map chunk_len cs) \<le> max BODY_OFF (CODE_LIMIT - 64)"
    then have cs: "list_all chunk_ok cs" "length cs \<le> CHUNKS" "BODY_OFF + sum_list (map chunk_len cs) \<le> CODE_LIMIT - 64" by auto
    let ?offs = "chunk_offs BODY_OFF (cs @ [stop_marker])"
    let ?p = "\<lambda>body img. \<lparr>p_seed = s, p_image = img, body_start = BASE + of_nat BODY_OFF, ecall_pc = BASE + of_nat (last ?offs),
      body_len = length body, p_listing = sort_key fst (listing_of EXIT_OFF exit_stub @ listing_of ENTRY_OFF prologue_code @ listing_of BODY_OFF body)\<rparr>"
    obtain us where us: "resolve_from ?offs 0 (cs @ [stop_marker]) = Inr (concat us @ [ins_w ECALL ''ecall  # stop marker''])"
      using resolve_from_ok [OF refl cs(1), of 0 BODY_OFF] by auto
    show "yields Z (gen_bind (gen_lift (resolve_from ?offs 0 (cs @ [stop_marker]))) (\<lambda>body. gen_bind (gen_many (PAGE div 8) scratch_word) (\<lambda>words.
        gen_bind (gen_lift (layout_image words prologue_code BODY_OFF body table)) (\<lambda>img. gen_return (?p body img)))))
        (\<lambda>p. p_seed p = s \<and> (\<exists>cs us. made_of cs us p))"
      unfolding us bind_lift
    proof (rule yields_bind [OF yields_many [OF scratch_word_yields]])
      fix words
      assume "length (words :: u64 list) = PAGE div 8 \<and> list_all (\<lambda>_. True) words"
      then have "length words = PAGE div 8" ..
      let ?body = "concat us @ [ins_w ECALL ''ecall  # stop marker'']"
      obtain vs img where v: "concat vs = concat us" "layout_image words prologue_code BODY_OFF ?body table = Inr img"
        "made_of cs vs (?p ?body img)"
        using made_of_layout [OF cs \<open>length words = PAGE div 8\<close> t, of s
          "sort_key fst (listing_of EXIT_OFF exit_stub @ listing_of ENTRY_OFF prologue_code @ listing_of BODY_OFF ?body)"] us
        by auto
      from v(3) show "yields Z (gen_bind (gen_lift (layout_image words prologue_code BODY_OFF ?body table))
          (\<lambda>img. gen_return (?p ?body img))) (\<lambda>p. p_seed p = s \<and> (\<exists>cs us. made_of cs us p))"
        unfolding v(2) bind_lift by (intro yields_return conjI exI) simp_all
    qed
  qed
qed

end

text \<open>Both kinds of state yield a program, so every seed has one.\<close>

lemma program_made:
  "\<exists>p cs us. program s = Some (Inr p) \<and> p_seed p = s \<and> made_of cs us p"
proof -
  have "\<exists>p s'. program_of s (rng_new s) = Some (Inr p, s') \<and> p_seed p = s \<and> (\<exists>cs us. made_of cs us p)"
    using yieldsD [OF nonzero_chunks.program_yields, of "rng_new s"] yieldsD [OF stuck_chunks.program_yields, of "rng_new s"] by blast
  then show ?thesis by (auto simp: program_def)
qed

end
