(* ===== verification/Access_Works.thy ===== *)
theory Access_Works
  imports Boot_Works
begin

text \<open>
  Over a store that works, an untranslated access within one page of guest RAM succeeds: a fetch or a
  load returns the bytes that are there, a store replaces them, an atomic does both. What a step
  fetches is what the bytes at the program counter decode to.
\<close>

lemma unat_page_mask: "unat (va AND 0xFFF) = page_off va"
proof -
  have "va AND 0xFFF = take_bit 12 va" by (simp add: take_bit_eq_mask mask_eq_exp_minus_1)
  then show ?thesis by (simp add: page_off_def take_bit_eq_mod unat_mod)
qed

text \<open>An access within a page of RAM.\<close>

definition in_page :: "u64 \<Rightarrow> nat \<Rightarrow> bool" where
  "in_page va n \<longleftrightarrow> RAM_BASE \<le> va \<and> ram_off va mod PAGE + n \<le> PAGE \<and> ram_off va + n \<le> RAM_BYTES"

lemma in_pageD:
  assumes "in_page va n" "valid_size n"
  shows "unat (va AND 0xFFF) + n \<le> PAGE" "in_ram va n" "RAM_BASE \<le> va" "ram_off va < RAM_BYTES" "page_off va + n \<le> PAGE"
  using assms page_off_ram [of va] valid_size_bounds [of n]
  by (auto simp: in_page_def in_ram_iff unat_page_mask)

context working_store
begin

lemma bus_load_works:
  assumes H: "holds V (cache b)" and "in_page va n" "valid_size n"
  shows "\<exists>b'. bus_load B va n b = (Inr (from_le (flat_bytes V (ram_off va) n)), b') \<and> holds V (cache b')"
proof -
  note d = in_pageD [OF assms(2,3)]
  obtain r b' where r: "bus_load B va n b = (r, b')" by fastforce
  have cr: "check_range va n = Inr ()" using d valid_size_bounds [OF assms(3)] by (auto simp: check_range_Inr in_ram_iff)
  from resident_works [OF H page_of_works [OF d(3,4)]] obtain i c1 where s: "resident B (page_of va) (cache b) = (Inr i, c1)" by blast
  then have "i < length (frames c1)" using resident_ok [OF H s] by auto
  with s cr d(5) have "\<exists>v c'. read_le B n va (cache b) = (Inr v, c')"
    by (auto simp: read_le_def Let_def sm_bind_def frame_at_def sm_return_def)
  then have "\<not> isl r" using r assms(3) d(2) by (auto simp: bus_load_def sm_map_err_def on_cache_def sm_field_def)
  with bus_load_ok [OF H r] r d(2) show ?thesis by (cases r) auto
qed

lemma load_works:
  assumes "untranslated c" "holds V (cache b)" "in_page va n" "valid_size n"
  shows "\<exists>b'. read_translated B va n acc (c, b) = (Inr (from_le (flat_bytes V (ram_off va) n)), (c, b')) \<and> holds V (cache b')"
  using bus_load_works [OF assms(2-4)] in_pageD(1) [OF assms(3,4)]
  by (auto simp: read_translated_def sm_bind_def translate_untranslated [OF assms(1)] on_bus_def sm_field_def)

lemma bus_store_in_page:
  assumes H: "holds V (cache b)" and "in_page va n" "valid_size n"
  shows "\<exists>b' V'. bus_store B put va n v b = (Inr (), b') \<and> holds V' (cache b') \<and> wrote V (ram_off va) (to_le n v) V'"
proof -
  note d = in_pageD [OF assms(2,3)]
  have "ram_off va + n \<le> RAM_BYTES" using assms(2) by (simp add: in_page_def)
  from bus_store_works [OF H d(3) this assms(3)] obtain b' where s: "bus_store B put va n v b = (Inr (), b')" by blast
  with bus_store_ok [OF H s] d(2) assms(3) show ?thesis by auto
qed

lemma store_works:
  assumes "untranslated c" "holds V (cache b)" "in_page va n" "valid_size n"
  shows "\<exists>b' V'. write_translated B put va n v (c, b) = (Inr (), (invalidate_reservation va n c, b')) \<and> holds V' (cache b') \<and>
    wrote V (ram_off va) (to_le n v) V'"
  using bus_store_in_page [OF assms(2-4), of put v] in_pageD(1) [OF assms(3,4)]
  by (auto simp: write_translated_def store_at_def sm_bind_def translate_untranslated [OF assms(1)] on_bus_def sm_field_def
      on_cpu_def sm_modify_def)

section \<open>Fetching\<close>

lemma fetch_works:
  assumes "untranslated c" "holds V (cache b)" "in_page (pc c) n" "valid_size n"
  shows "\<exists>b'. fetch B n (c, b) = (Inr (from_le (flat_bytes V (ram_off (pc c)) n)), (c, b')) \<and> holds V (cache b')"
  using load_works [OF assms, of Fetch] by (auto simp: fetch_def sm_bind_def sm_get_def sm_map_err_def)

end

text \<open>The word a step executes for bytes in memory: two of them, or four when the low bits say so.\<close>

definition holds_word :: "(u32 \<Rightarrow> u8 list) \<Rightarrow> nat \<Rightarrow> nat \<Rightarrow> u32 \<Rightarrow> bool" where
  "holds_word V off len w \<longleftrightarrow>
     len = 4 \<and> flat_bytes V off 4 = to_le 4 w \<and> w AND 3 = 3 \<or>
     len = 2 \<and> (\<exists>h :: u16. flat_bytes V off 2 = to_le 2 h \<and> expand h = Some w)"

lemma expand_low: "expand h = Some w \<Longrightarrow> h AND 3 \<noteq> 3"
proof
  assume e: "expand h = Some w" and "h AND 3 = 3"
  then have "(ucast (h AND 3) :: u32) = 3" by simp
  then have "ucast h AND (3 :: u32) = 3" by (simp add: unsigned_and_eq)
  with e show False by (simp add: expand_def Let_def)
qed

lemma low_half:
  fixes w :: u32
  assumes "w AND 3 = 3"
  shows "(ucast w :: u16) AND 3 = 3"
proof -
  have "(ucast (w AND 3) :: u16) = 3" using assms by simp
  then show ?thesis by (simp add: unsigned_and_eq)
qed

lemma flat_bytes_take: "m \<le> n \<Longrightarrow> flat_bytes V r m = take m (flat_bytes V r n)"
  by (simp add: flat_bytes_def take_map min_def)

context working_store
begin

lemma fetch_insn_works:
  assumes u: "untranslated c" and H: "holds V (cache b)" and p: "in_page (pc c) len" and w: "holds_word V (ram_off (pc c)) len w"
  shows "\<exists>b'. fetch_insn B (c, b) = (Inr (w, of_nat len), (c, b')) \<and> holds V (cache b')"
proof -
  have two: "in_page (pc c) 2" using p w by (auto simp: in_page_def holds_word_def)
  obtain b1 where f: "fetch B 2 (c, b) = (Inr (from_le (flat_bytes V (ram_off (pc c)) 2)), (c, b1))" and H1: "holds V (cache b1)"
    using fetch_works [OF u H two] by (auto simp: valid_size_def)
  from w show ?thesis
    unfolding holds_word_def
  proof (elim disjE conjE exE)
    assume l: "len = 4" and fb: "flat_bytes V (ram_off (pc c)) 4 = to_le 4 w" and lo: "w AND 3 = 3"
    have fb2: "flat_bytes V (ram_off (pc c)) 2 = to_le 2 w"
      using flat_bytes_take [of 2 4 V "ram_off (pc c)"] fb to_le_take [of 2 4 w] by simp
    have half: "ucast (from_le (to_le 2 w) :: u64) = (ucast w :: u16)"
      by (rule bit_word_eqI) (auto simp: bit_from_le nth_to_le bit_simps)
    have full: "ucast (from_le (to_le 4 w) :: u64) = w"
      by (rule bit_word_eqI) (auto simp: bit_from_le nth_to_le bit_simps)
    obtain b2 where f4: "fetch B 4 (c, b1) = (Inr (from_le (to_le 4 w)), (c, b2))" and H2: "holds V (cache b2)"
      using fetch_works [OF u H1 p [unfolded l]] by (auto simp: valid_size_def fb)
    show ?thesis
      using f f4 H2 l low_half [OF lo] half full by (simp add: fetch_insn_def sm_bind_def fb2 Let_def sm_return_def del: to_le.simps)
  next
    fix h :: u16
    assume l: "len = 2" and fb: "flat_bytes V (ram_off (pc c)) 2 = to_le 2 h" and e: "expand h = Some w"
    have half: "ucast (from_le (to_le 2 h) :: u64) = h"
      by (rule bit_word_eqI) (auto simp: bit_from_le nth_to_le bit_simps)
    show ?thesis
      using f H1 l expand_low [OF e] half e by (simp add: fetch_insn_def sm_bind_def fb Let_def sm_return_def del: to_le.simps)
  qed
qed

lemma step_works:
  assumes "untranslated c" "holds V (cache b)" "in_page (pc c) len" "holds_word V (ram_off (pc c)) len w"
    and "\<And>b'. holds V (cache b') \<Longrightarrow> \<exists>c1 b1. execute B put w (c\<lparr>insn_len := of_nat len, next_pc := None\<rparr>, b') = (Inr True, (c1, b1)) \<and> Q c1 b1"
  shows "\<exists>c1 b1. step B put (c, b) = (Inr (), (retire (of_nat len) c1, b1)) \<and> Q c1 b1"
proof -
  obtain b' where f: "fetch_insn B (c, b) = (Inr (w, of_nat len), (c, b'))" and H: "holds V (cache b')"
    using fetch_insn_works [OF assms(1-4)] by blast
  from assms(5) [OF H] f show ?thesis
    by (auto simp: step_def sm_bind_def on_cpu_def sm_modify_def)
qed

end

end
