(* ===== verification/Difftest.thy ===== *)
theory Difftest
  imports Gen_Program Exec Elf
begin

text \<open>
  The differential tests around the generator: the ELF object a program is wrapped in
  (\<open>rv64-difftest/src/elf.rs\<close>), the run of the emulator over it and the comparison of traces
  (\<open>lib.rs\<close>), the log of the reference simulator read back (\<open>spike.rs\<close>) and the command
  (\<open>main.rs\<close>). The reference simulator is a process: from an object it makes a log, a parameter here.
  The log is ASCII, so its white space is that of ASCII and a character is a byte.
\<close>

section \<open>The object\<close>

abbreviation SEG_OFF :: nat where "SEG_OFF \<equiv> 0x1000"

definition SHSTR :: "u8 list" where
  "SHSTR = 0 # ascii ''.text'' @ 0 # ascii ''.symtab'' @ 0 # ascii ''.strtab'' @ 0 # ascii ''.shstrtab'' @ [0]"

definition STRTAB :: "u8 list" where
  "STRTAB = 0 # ascii ''tohost'' @ 0 # ascii ''fromhost'' @ [0]"

definition shdr :: "u32 \<Rightarrow> u32 \<Rightarrow> u64 \<Rightarrow> u64 \<Rightarrow> u64 \<Rightarrow> u64 \<Rightarrow> u32 \<Rightarrow> u32 \<Rightarrow> u64 \<Rightarrow> u64 \<Rightarrow> u8 list" where
  "shdr name typ flags addr off sz link info align entsize =
     to_le 4 name @ to_le 4 typ @ to_le 8 flags @ to_le 8 addr @ to_le 8 off @ to_le 8 sz @ to_le 4 link @
     to_le 4 info @ to_le 8 align @ to_le 8 entsize"

definition sym_entry :: "u32 \<Rightarrow> u64 \<Rightarrow> u8 list" where
  "sym_entry name value = to_le 4 name @ [0x11, 0] @ to_le 2 (1 :: u16) @ to_le 8 value @ to_le 8 (8 :: u64)"

text \<open>\<open>f[a..a + n].copy_from_slice(bs)\<close> for several fields in turn, all inside the file.\<close>

definition poke :: "(nat \<times> u8 list) list \<Rightarrow> u8 list \<Rightarrow> u8 list" where
  "poke ws f = foldl (\<lambda>f (a, bs). splice a bs f) f ws"

definition ehdr_fields :: "nat \<Rightarrow> (nat \<times> u8 list) list" where
  "ehdr_fields sh =
     [(0, ELF_MAGIC), (4, [2]), (5, [1]), (6, [1]), (16, to_le 2 (2 :: u16)), (18, to_le 2 (243 :: u16)),
      (20, to_le 4 (1 :: u32)), (24, to_le 8 (BASE + of_nat ENTRY_OFF)), (32, to_le 8 (of_nat EHDR_LEN :: u64)),
      (40, to_le 8 (of_nat sh :: u64)), (52, to_le 2 (of_nat EHDR_LEN :: u16)), (54, to_le 2 (of_nat PHDR_LEN :: u16)),
      (56, to_le 2 (1 :: u16)), (58, to_le 2 (of_nat SHDR_LEN :: u16)), (60, to_le 2 (5 :: u16)), (62, to_le 2 (4 :: u16))]"

definition phdr_fields :: "nat \<Rightarrow> (nat \<times> u8 list) list" where
  "phdr_fields filesz =
     [(64, to_le 4 (1 :: u32)), (68, to_le 4 (7 :: u32)), (72, to_le 8 (of_nat SEG_OFF :: u64)), (80, to_le 8 BASE),
      (88, to_le 8 BASE), (96, to_le 8 (of_nat filesz :: u64)), (104, to_le 8 (of_nat MEMSZ :: u64)),
      (112, to_le 8 (0x1000 :: u64))]"

text \<open>\<open>while !f.len().is_multiple_of(8) { f.push(0) }\<close>\<close>

definition pad_to_8 :: "u8 list \<Rightarrow> u8 list" where
  "pad_to_8 f = f @ replicate ((8 - length f mod 8) mod 8) 0"

definition section_headers :: "nat \<Rightarrow> nat \<Rightarrow> nat \<Rightarrow> nat \<Rightarrow> u8 list" where
  "section_headers filesz symtab_off strtab_off shstr_off =
     shdr 0 0 0 0 0 0 0 0 0 0 @
     shdr 1 1 0x6 BASE (of_nat SEG_OFF) (of_nat filesz) 0 0 0x1000 0 @
     shdr 7 2 0 0 (of_nat symtab_off) (of_nat (strtab_off - symtab_off)) 3 1 8 SYM_LEN @
     shdr 15 3 0 0 (of_nat strtab_off) (of_nat (length STRTAB)) 0 0 1 0 @
     shdr 23 3 0 0 (of_nat shstr_off) (of_nat (length SHSTR)) 0 0 1 0"

definition build :: "prog \<Rightarrow> unit stop + u8 list" where
  "build p =
     (let filesz = length (p_image p) in
      if MEMSZ < filesz then Inl Panic
      else
        let f = replicate SEG_OFF 0 @ p_image p;
            symtab_off = length f;
            f = f @ replicate (unat SYM_LEN) 0 @ sym_entry 1 (BASE + of_nat TOHOST_OFF) @ sym_entry 8 (BASE + of_nat FROMHOST_OFF);
            strtab_off = length f;
            f = f @ STRTAB;
            shstr_off = length f;
            f = pad_to_8 (f @ SHSTR);
            sh = length f;
            f = f @ section_headers filesz symtab_off strtab_off shstr_off
        in Inr (poke (phdr_fields filesz) (poke (ehdr_fields sh) f)))"

section \<open>Our trace\<close>

text \<open>The two texts that are not printable ASCII: a line end, and the three bytes of a dash.\<close>

definition eol :: string where "eol = [CHR 0x0A]"
definition em_dash :: string where "em_dash = [CHR 0xE2, CHR 0x80, CHR 0x94]"

record state =
  st_pc :: u64
  st_regs :: "regno \<Rightarrow> u64"

fun elf_error_text :: "elf_error \<Rightarrow> string" where
  "elf_error_text NotAnElf64Riscv = ''not a little-endian 64-bit RISC-V ELF''"
| "elf_error_text Truncated = ''truncated ELF''"
| "elf_error_text (Unmapped a) = ''PT_LOAD segment at '' @ hex_alt (unat a) @ '' is outside guest memory''"

text \<open>\<open>{e:?}\<close> of an exception.\<close>

definition with_arg :: "string \<Rightarrow> u64 \<Rightarrow> string" where
  "with_arg n v = n @ ''('' @ decimal (unat v) @ '')''"

fun exception_debug :: "exception \<Rightarrow> string" where
  "exception_debug (InstructionAddressMisaligned v) = with_arg ''InstructionAddressMisaligned'' v"
| "exception_debug (InstructionAccessFault v) = with_arg ''InstructionAccessFault'' v"
| "exception_debug (IllegalInstruction v) = with_arg ''IllegalInstruction'' v"
| "exception_debug Breakpoint = ''Breakpoint''"
| "exception_debug (LoadAddressMisaligned v) = with_arg ''LoadAddressMisaligned'' v"
| "exception_debug (LoadAccessFault v) = with_arg ''LoadAccessFault'' v"
| "exception_debug (StoreAddressMisaligned v) = with_arg ''StoreAddressMisaligned'' v"
| "exception_debug (StoreAccessFault v) = with_arg ''StoreAccessFault'' v"
| "exception_debug EnvironmentCallFromUMode = ''EnvironmentCallFromUMode''"
| "exception_debug EnvironmentCallFromSMode = ''EnvironmentCallFromSMode''"
| "exception_debug EnvironmentCallFromMMode = ''EnvironmentCallFromMMode''"
| "exception_debug (InstructionPageFault v) = with_arg ''InstructionPageFault'' v"
| "exception_debug (LoadPageFault v) = with_arg ''LoadPageFault'' v"
| "exception_debug (StorePageFault v) = with_arg ''StorePageFault'' v"
| "exception_debug (BackingFailure v) = with_arg ''BackingFailure'' v"

type_synonym diff_machine = "(fake_backing, u8 list) machine"

abbreviation DIFF_MAX_STEPS :: nat where "DIFF_MAX_STEPS \<equiv> 100000"

definition escape_text :: "prog \<Rightarrow> nat \<Rightarrow> u64 \<Rightarrow> u64 \<Rightarrow> string" where
  "escape_text p a got want =
     ''seed '' @ decimal (unat (p_seed p)) @ '': a memory operand escaped the scratch page '' @ em_dash @ '' '' @
     hex_alt (unat (BASE + of_nat a)) @ '' is '' @ hex_alt (unat got) @ '', should be '' @ hex_alt (unat want)"

text \<open>The code and the table are compared with the image, eight bytes at a time.\<close>

fun check_escape :: "prog \<Rightarrow> nat list \<Rightarrow> ((fake_backing, u8 list) bus, string, unit) sm" where
  "check_escape p [] = sm_return ()"
| "check_escape p (a # as) =
     sm_bind (sm_map_err exception_debug (bus_load fake_ops (BASE + of_nat a) 8)) (\<lambda>got.
     if length (p_image p) < a + 8 then sm_panic
     else let want = from_le (slice a 8 (p_image p)) in
       if got \<noteq> want then sm_err (escape_text p a got want) else check_escape p as)"

definition trap_text :: "prog \<Rightarrow> u64 \<Rightarrow> exception \<Rightarrow> string" where
  "trap_text p a e =
     ''trapped at pc '' @ hex_alt (unat a) @ '' ('' @ (case disasm_at p a of Some t \<Rightarrow> t | None \<Rightarrow> ''?'') @ ''): '' @
     exception_debug e @ '' '' @ em_dash @
     '' the generator is supposed to make traps impossible, so this is a generator or emulator bug''"

definition no_marker_text :: "u64 \<Rightarrow> string" where
  "no_marker_text a = ''no `ecall` marker after '' @ decimal DIFF_MAX_STEPS @ '' instructions (pc = '' @ hex_alt (unat a) @ '')''"

primrec diff_loop :: "nat \<Rightarrow> prog \<Rightarrow> bool \<Rightarrow> state list \<Rightarrow> diff_machine \<Rightarrow> string stop + state list" where
  "diff_loop 0 p started states m = Inl (Err (no_marker_text (pc (fst m))))"
| "diff_loop (Suc n) p started states m =
     (let at = pc (fst m);
          started = (started \<or> at = body_start p);
          states = (if started then states @ [\<lparr>st_pc = at, st_regs = regs (fst m)\<rparr>] else states)
      in if started \<and> at = ecall_pc p
         then (case check_escape p (map (\<lambda>k. 8 * k) [0..<SCRATCH_OFF div 8]) (snd m) of
                 (Inl e, _) \<Rightarrow> Inl e | (Inr _, _) \<Rightarrow> Inr states)
         else (case step fake_ops vec_put m of
                 (Inl e, m') \<Rightarrow> Inl (stop_map (trap_text p (pc (fst m'))) e)
               | (Inr _, m') \<Rightarrow> diff_loop n p started states m'))"

definition run_ours :: "prog \<Rightarrow> string stop + state list" where
  "run_ours p =
     (case cache_new (fake_new (of_nat (unat RAM_SIZE div PAGE))) 64 of
        Inl _ \<Rightarrow> Inl Panic
      | Inr c \<Rightarrow> (case build p of
          Inl _ \<Rightarrow> Inl Panic
        | Inr bytes \<Rightarrow> (case elf_load fake_ops vec_put bytes (bus_new c []) of
            (Inl e, _) \<Rightarrow> Inl (stop_map elf_error_text e)
          | (Inr start, b) \<Rightarrow> diff_loop DIFF_MAX_STEPS p False [] (cpu_new start, b))))"

section \<open>Comparison\<close>

definition reg_line :: "state \<Rightarrow> state \<Rightarrow> nat \<Rightarrow> string" where
  "reg_line a b r =
     (let x = st_regs a (of_nat r); y = st_regs b (of_nat r) in
      if x \<noteq> y
      then ''  x'' @ decimal r @ '': ours '' @ hex_alt_pad 18 (unat x) @ ''  spike '' @ hex_alt_pad 18 (unat y) @ eol
      else [])"

definition context_line :: "prog \<Rightarrow> state \<Rightarrow> string" where
  "context_line p s =
     ''    '' @ hex_alt_pad 10 (unat (st_pc s)) @ ''  '' @
     (case disasm_at p (st_pc s) of Some t \<Rightarrow> t | None \<Rightarrow> ''<not in body>'') @ eol"

definition divergence_text :: "prog \<Rightarrow> state list \<Rightarrow> nat \<Rightarrow> state \<Rightarrow> state \<Rightarrow> string" where
  "divergence_text p ours i a b =
     ''seed '' @ decimal (unat (p_seed p)) @ '': diverged at step '' @ decimal i @ eol @
     (if st_pc a \<noteq> st_pc b
      then ''  pc:  ours '' @ hex_alt (unat (st_pc a)) @ ''  spike '' @ hex_alt (unat (st_pc b)) @ eol else []) @
     concat (map (reg_line a b) [0..<32]) @
     ''  context (last executed instruction first):'' @ eol @
     concat (map (context_line p) (rev (slice (i - 4) (i + 1 - (i - 4)) ours)))"

text \<open>The first index at which two traces differ, within the shorter.\<close>

fun first_difference :: "nat \<Rightarrow> state list \<Rightarrow> state list \<Rightarrow> (nat \<times> state \<times> state) option" where
  "first_difference i (a # as) (b # bs) = (if a = b then first_difference (i + 1) as bs else Some (i, a, b))"
| "first_difference i _ _ = None"

definition describe_divergence :: "prog \<Rightarrow> state list \<Rightarrow> state list \<Rightarrow> string option" where
  "describe_divergence p ours theirs =
     (case first_difference 0 ours theirs of
        Some (i, a, b) \<Rightarrow> Some (divergence_text p ours i a b)
      | None \<Rightarrow>
          if length ours \<noteq> length theirs
          then Some (''seed '' @ decimal (unat (p_seed p)) @ '': step count differs '' @ em_dash @ '' ours '' @
            decimal (length ours) @ '', spike '' @ decimal (length theirs) @ '' (common prefix matches)'')
          else None)"

section \<open>Reading the log of the reference simulator\<close>

text \<open>\<open>str::lines\<close>: the line end goes, with a carriage return before it.\<close>

definition strip_cr :: "string \<Rightarrow> string" where
  "strip_cr s = (if s \<noteq> [] \<and> last s = CHR 0x0D then butlast s else s)"

fun log_lines :: "string \<Rightarrow> string \<Rightarrow> string list" where
  "log_lines acc [] = (if acc = [] then [] else [acc])"
| "log_lines acc (c # cs) = (if c = CHR 0x0A then strip_cr acc # log_lines [] cs else log_lines (acc @ [c]) cs)"

definition white :: "char \<Rightarrow> bool" where
  "white c \<longleftrightarrow> of_char c \<in> {9 :: nat, 10, 11, 12, 13, 32}"

fun split_white :: "string \<Rightarrow> string \<Rightarrow> string list" where
  "split_white acc [] = (if acc = [] then [] else [acc])"
| "split_white acc (c # cs) =
     (if white c then (if acc = [] then split_white [] cs else acc # split_white [] cs) else split_white (acc @ [c]) cs)"

definition strip_prefix :: "string \<Rightarrow> string \<Rightarrow> string option" where
  "strip_prefix pre s = (if take (length pre) s = pre then Some (drop (length pre) s) else None)"

text \<open>\<open>{s:?}\<close> of ASCII text.\<close>

definition escaped :: "char \<Rightarrow> string" where
  "escaped c =
     (if c = CHR 0x22 then [CHR 0x5C, CHR 0x22] else if c = CHR 0x5C then [CHR 0x5C, CHR 0x5C]
      else if c = CHR 0x09 then [CHR 0x5C, CHR ''t''] else if c = CHR 0x0D then [CHR 0x5C, CHR ''r'']
      else if c = CHR 0x0A then [CHR 0x5C, CHR ''n''] else if c = CHR 0x00 then [CHR 0x5C, CHR ''0'']
      else if of_char c < (32 :: nat) \<or> of_char c = (127 :: nat)
      then CHR 0x5C # ''u{'' @ Text.hex (of_char c) @ ''}'' else [c])"

definition str_debug :: "string \<Rightarrow> string" where
  "str_debug s = CHR 0x22 # concat (map escaped s) @ [CHR 0x22]"

definition parse_hex :: "string \<Rightarrow> string + u64" where
  "parse_hex s =
     (case from_str_radix 16 (2 ^ 64) s of None \<Rightarrow> Inl (''not a hex number: '' @ str_debug s) | Some n \<Rightarrow> Inr (of_nat n))"

definition reg_index :: "string \<Rightarrow> nat option" where
  "reg_index t = (case strip_prefix ''x'' t of None \<Rightarrow> None | Some d \<Rightarrow> from_str_radix 10 (2 ^ 64) d)"

text \<open>The fields after the instruction word of a commit line.\<close>

fun parse_writes :: "string \<Rightarrow> string list \<Rightarrow> (regno \<Rightarrow> u64) \<Rightarrow> string + (regno \<Rightarrow> u64)" where
  "parse_writes line [] rs = Inr rs"
| "parse_writes line [t] rs =
     (case reg_index t of None \<Rightarrow> Inr rs | Some n \<Rightarrow> Inl (''register write with no value: '' @ str_debug line))"
| "parse_writes line (t # v # ts) rs =
     (case reg_index t of
        None \<Rightarrow> parse_writes line (v # ts) rs
      | Some n \<Rightarrow>
          (case strip_prefix ''0x'' v of
             None \<Rightarrow> Inl (''register write with no value: '' @ str_debug line)
           | Some h \<Rightarrow>
               if 32 \<le> n then Inl (''register index out of range: '' @ str_debug line)
               else (case parse_hex h of Inl e \<Rightarrow> Inl e | Inr x \<Rightarrow> parse_writes line ts (rs(of_nat n := x)))))"

definition commit_line :: "string list \<Rightarrow> bool" where
  "commit_line t \<longleftrightarrow> length (t ! 2) = 1 \<and> (let c = of_char (t ! 2 ! 0) :: nat in 48 \<le> c \<and> c < 58)"

fun parse_lines ::
  "u64 \<Rightarrow> u64 \<Rightarrow> string list \<Rightarrow> (regno \<Rightarrow> u64) \<Rightarrow> state list \<Rightarrow> bool \<Rightarrow> nat \<Rightarrow> string + state list" where
  "parse_lines start stop [] rs states started traced =
     (if traced = 0 then Inl (''no instruction trace lines in spike'' @ [CHR 0x27] @ ''s log '' @ em_dash @ '' the log format changed'')
      else if \<not> started then Inl (''spike never reached the body at '' @ hex_alt (unat start))
      else Inl (''spike never reached the `ecall` marker at '' @ hex_alt (unat stop)))"
| "parse_lines start stop (line # ls) rs states started traced =
     (let t = split_white [] line in
      if length t < 3 \<or> t ! 0 \<noteq> ''core'' then parse_lines start stop ls rs states started traced
      else case strip_prefix ''0x'' (t ! 2) of
        Some h \<Rightarrow>
          (case parse_hex h of
             Inl e \<Rightarrow> Inl e
           | Inr a \<Rightarrow>
               if started \<or> a = start
               then let rs = rs(0 := 0); states = states @ [\<lparr>st_pc = a, st_regs = rs\<rparr>] in
                 if a = stop then Inr states else parse_lines start stop ls rs states True (traced + 1)
               else parse_lines start stop ls rs states False (traced + 1))
      | None \<Rightarrow>
          if commit_line t
          then (case parse_writes line (drop 5 t) rs of
                  Inl e \<Rightarrow> Inl e | Inr rs \<Rightarrow> parse_lines start stop ls rs states started traced)
          else parse_lines start stop ls rs states started traced)"

definition parse_log :: "string \<Rightarrow> u64 \<Rightarrow> u64 \<Rightarrow> string + state list" where
  "parse_log log start stop = parse_lines start stop (log_lines [] log) (\<lambda>_. 0) [] False 0"

section \<open>The command\<close>

text \<open>The reference simulator: from a seed and an object to the log, or the text of what went wrong;
  \<open>kept\<close> is the name of the directory of a seed.\<close>

record spike_ops =
  spike_log :: "u64 \<Rightarrow> u8 list \<Rightarrow> string + string"
  kept :: "u64 \<Rightarrow> string"
  available :: bool

definition spike_trace :: "spike_ops \<Rightarrow> prog \<Rightarrow> string stop + state list" where
  "spike_trace K p =
     (case build p of
        Inl _ \<Rightarrow> Inl Panic
      | Inr bytes \<Rightarrow> (case spike_log K (p_seed p) bytes of
          Inl e \<Rightarrow> Inl (Err e)
        | Inr log \<Rightarrow> (case parse_log log (body_start p) (ecall_pc p) of
            Inl e \<Rightarrow> Inl (Err (''seed '' @ decimal (unat (p_seed p)) @ '': '' @ e @ '' (kept '' @ kept K (p_seed p) @ '')''))
          | Inr states \<Rightarrow> Inr states)))"

definition arg_after :: "string \<Rightarrow> string list \<Rightarrow> string option" where
  "arg_after name args =
     (case position (\<lambda>a. a = name) args of
        None \<Rightarrow> None | Some i \<Rightarrow> if i + 1 < length args then Some (args ! (i + 1)) else None)"

definition flag_or :: "string list \<Rightarrow> string \<Rightarrow> u64 \<Rightarrow> u64" where
  "flag_or args name d =
     (case arg_after name args of
        None \<Rightarrow> d
      | Some v \<Rightarrow> (case from_str_radix 10 (2 ^ 64) v of None \<Rightarrow> d | Some n \<Rightarrow> of_nat n))"

definition listing_line :: "prog \<Rightarrow> u64 \<times> string \<Rightarrow> string" where
  "listing_line p = (\<lambda>(a, text).
     ''  '' @ hex_alt_pad 10 (unat a) @ ''  '' @ text @
     (if a = body_start p then '' <- body starts'' else if a = ecall_pc p then '' <- body ends'' else []))"

definition dump_lines :: "u64 \<Rightarrow> prog \<Rightarrow> string list" where
  "dump_lines s p =
     (''--- seed '' @ decimal (unat s) @ '': '' @ decimal (body_len p) @ '' body instructions ---'') #
     map (listing_line p) (p_listing p)"

text \<open>One seed: what is printed, and whether it counts as a failure.\<close>

definition check_seed :: "spike_ops \<Rightarrow> u64 \<Rightarrow> prog \<Rightarrow> unit stop + string \<times> bool" where
  "check_seed K s p =
     (let name = ''seed '' @ decimal (unat s) @ '': '' in
      case run_ours p of
        Inl Panic \<Rightarrow> Inl Panic
      | Inl (Err e) \<Rightarrow> Inr (name @ ''rv64 failed: '' @ e, True)
      | Inr ours \<Rightarrow> (case spike_trace K p of
          Inl Panic \<Rightarrow> Inl Panic
        | Inl (Err e) \<Rightarrow> Inr (name @ ''spike failed: '' @ e, True)
        | Inr theirs \<Rightarrow> (case describe_divergence p ours theirs of
            Some d \<Rightarrow> Inr (d, True)
          | None \<Rightarrow> Inr (name @ ''ok ('' @ decimal (length ours) @ '' steps, '' @ decimal (body_len p) @ '' body instructions)'', False))))"

text \<open>The failures are counted in an \<open>i32\<close>, which wraps in a release build.\<close>

datatype verdict = WroteElf string "u8 list" string | NoSpike | Checked "string list" u32

fun check_seeds :: "spike_ops \<Rightarrow> bool \<Rightarrow> u64 list \<Rightarrow> string list \<Rightarrow> u32 \<Rightarrow> (unit stop + verdict) option" where
  "check_seeds K dump [] out failures = Some (Inr (Checked out failures))"
| "check_seeds K dump (s # ss) out failures =
     (case program s of
        None \<Rightarrow> None
      | Some (Inl e) \<Rightarrow> Some (Inl e)
      | Some (Inr p) \<Rightarrow> (case check_seed K s p of
          Inl e \<Rightarrow> Some (Inl e)
        | Inr (line, bad) \<Rightarrow>
            check_seeds K dump ss (out @ (if dump then dump_lines s p else []) @ [line]) (if bad then failures + 1 else failures)))"

text \<open>\<open>seed..seed + count\<close>, whose end wraps in a release build.\<close>

definition seeds :: "u64 \<Rightarrow> u64 \<Rightarrow> u64 list" where
  "seeds s count = map of_nat [unat s..<unat (s + count)]"

definition difftest_main :: "spike_ops \<Rightarrow> string list \<Rightarrow> (unit stop + verdict) option" where
  "difftest_main K args =
     (let s = flag_or args ''--seed'' 0; count = flag_or args ''--count'' 1; dump = (''--dump'' \<in> set args) in
      case arg_after ''--elf'' args of
        Some path \<Rightarrow> (case program s of
            None \<Rightarrow> None
          | Some (Inl e) \<Rightarrow> Some (Inl e)
          | Some (Inr p) \<Rightarrow> Some (case build p of
              Inl e \<Rightarrow> Inl e
            | Inr bytes \<Rightarrow> Inr (WroteElf path bytes (''wrote '' @ path @ '' for seed '' @ decimal (unat s) @ '': body '' @
                hex_alt (unat (body_start p)) @ ''..'' @ hex_alt (unat (ecall_pc p))))))
      | None \<Rightarrow> if available K then check_seeds K dump (seeds s count) [] 0 else Some (Inr NoSpike))"

definition exits_well :: "verdict \<Rightarrow> bool" where
  "exits_well v = (case v of WroteElf _ _ _ \<Rightarrow> True | NoSpike \<Rightarrow> False | Checked _ failures \<Rightarrow> failures = 0)"

end
