(* ===== verification/Sandbox.thy ===== *)
theory Sandbox
  imports Gen_Total Access_Works Difftest
begin

text \<open>
  Single instructions of generated programs, executed over a store that works: each one is handled,
  leaves the hart in machine mode, and writes no byte of guest RAM below the scratch page.
\<close>

section \<open>What an instruction may change\<close>

definition sandboxed :: "u8 list \<Rightarrow> (u32 \<Rightarrow> u8 list) \<Rightarrow> bool" where
  "sandboxed im V \<longleftrightarrow> (\<forall>n < SCRATCH_OFF. flat_byte V n = im ! n)"

text \<open>One register, the reservation and what does not steer the hart.\<close>

definition same_but :: "regno \<Rightarrow> cpu \<Rightarrow> cpu \<Rightarrow> bool" where
  "same_but d c c' \<longleftrightarrow> pc c' = pc c \<and> next_pc c' = next_pc c \<and> priv_mode c' = priv_mode c \<and> (\<forall>q. q \<noteq> d \<longrightarrow> regs c' q = regs c q)"

lemma same_but_set [intro]: "same_but d c (set_reg d v c)"
  and same_but_refl [intro]: "same_but d c c"
  and same_but_invalidate [intro]: "same_but d c (invalidate_reservation a n c)"
  and same_but_reserve [intro]: "same_but d c (set_reg d v (c\<lparr>reservation := r\<rparr>))"
  and same_but_invalidate_set [intro]: "same_but d c (set_reg d v (invalidate_reservation a n c))"
  by (auto simp: same_but_def set_reg_def invalidate_reservation_def split: option.split)

lemma sandboxed_wrote:
  assumes "sandboxed im V" and "wrote V r bs V'" and "SCRATCH_OFF \<le> r"
  shows "sandboxed im V'"
  using assms by (auto simp: sandboxed_def wrote_def)

lemma machine_untranslated [simp]: "priv_mode c = M \<Longrightarrow> untranslated c"
  by (simp add: untranslated_def)

section \<open>Accesses to the scratch page\<close>

context working_store
begin

definition safe :: "u8 list \<Rightarrow> ('a, 's) bus \<Rightarrow> bool" where
  "safe im b \<longleftrightarrow> (\<exists>V. holds V (cache b) \<and> sandboxed im V)"

lemma safeI: "holds V (cache b) \<Longrightarrow> sandboxed im V \<Longrightarrow> safe im b"
  by (auto simp: safe_def)

lemma execute_load:
  assumes "opcode w = 0x03" and "map_option fst (load_kind (funct3 w)) = Some sz" and "priv_mode c = M" and "safe im b"
    and "in_page (reg (rs1 w) c + imm_i w) sz" "valid_size sz"
  shows "\<exists>b'. (\<exists>v. execute B put w (c, b) = (Inr True, (set_reg (rd w) v c, b'))) \<and> safe im b'"
proof -
  obtain ext where k: "load_kind (funct3 w) = Some (sz, ext)" using assms(2) by auto
  obtain V where V: "holds V (cache b)" "sandboxed im V" using assms(4) by (auto simp: safe_def)
  have e: "execute B put w (c, b) = exec_load B w (c, b)" using assms(1) by (simp add: execute_base rv64i_execute_def Let_def)
  from load_works [OF machine_untranslated [OF assms(3)] V(1) assms(5,6), of Load] obtain b' where
    "vload B (reg (rs1 w) c + imm_i w) sz (c, b) = (Inr (from_le (flat_bytes V (ram_off (reg (rs1 w) c + imm_i w)) sz)), (c, b'))"
    "holds V (cache b')" by (auto simp: vload_def)
  with k V(2) show ?thesis unfolding e by (auto simp: exec_load_def sm_bind_def get_reg_def sm_get_def finish_Some intro!: exI [of _ b'] safeI)
qed

lemma execute_store:
  assumes "opcode w = 0x23" and "store_size (funct3 w) = Some sz" and "priv_mode c = M" and "safe im b"
    and "in_page (reg (rs1 w) c + imm_s w) sz" "valid_size sz" "SCRATCH_OFF \<le> ram_off (reg (rs1 w) c + imm_s w)"
  shows "\<exists>c' b'. execute B put w (c, b) = (Inr True, (c', b')) \<and> same_but (rd w) c c' \<and> safe im b'"
proof -
  obtain V where V: "holds V (cache b)" "sandboxed im V" using assms(4) by (auto simp: safe_def)
  have e: "execute B put w (c, b) = exec_store B put w (c, b)" using assms(1) by (simp add: execute_base rv64i_execute_def Let_def)
  from store_works [OF machine_untranslated [OF assms(3)] V(1) assms(5,6), of put "reg (rs2 w) c"] obtain b' V' where
    s: "vstore B put (reg (rs1 w) c + imm_s w) sz (reg (rs2 w) c) (c, b) =
      (Inr (), (invalidate_reservation (reg (rs1 w) c + imm_s w) sz c, b'))"
    "holds V' (cache b')" "wrote V (ram_off (reg (rs1 w) c + imm_s w)) (to_le sz (reg (rs2 w) c)) V'" by (auto simp: vstore_def)
  with assms(2) safeI [OF s(2) sandboxed_wrote [OF V(2) s(3) assms(7)]] show ?thesis
    unfolding e by (auto simp: exec_store_def sm_bind_def get_reg_def sm_get_def sm_return_def)
qed

lemma amo_new_known:
  "opn \<in> {0x00, 0x01, 0x04, 0x08, 0x0C, 0x10, 0x14, 0x18, 0x1C} \<Longrightarrow> \<exists>v. amo_new opn sz a b = Some v"
  by (auto simp: amo_new_def Let_def)

lemma execute_amo:
  assumes "opcode w = 0x2F" and "amo_size w = Some sz" and "priv_mode c = M" and "safe im b"
    and "drop_bit 2 (funct7 w) \<in> {0x00, 0x01, 0x02, 0x03, 0x04, 0x08, 0x0C, 0x10, 0x14, 0x18, 0x1C}"
    and "in_page (reg (rs1 w) c) sz" "valid_size sz" "SCRATCH_OFF \<le> ram_off (reg (rs1 w) c)"
  shows "\<exists>c' b'. execute B put w (c, b) = (Inr True, (c', b')) \<and> same_but (rd w) c c' \<and> safe im b'"
proof -
  obtain V where V: "holds V (cache b)" "sandboxed im V" using assms(4) by (auto simp: safe_def)
  let ?a = "reg (rs1 w) c" and ?x = "reg (rs2 w) c" and ?op = "drop_bit 2 (funct7 w)"
  have m: "rv64m_execute w (c, b) = (Inr False, (c, b))" by (rule not_mul) (simp_all add: assms(1))
  let ?m = "if ?op = 0x02 then exec_lr B w sz ?a else if ?op = 0x03 then exec_sc B put w sz ?a ?x else exec_amo B put w sz ?a ?x"
  obtain b1 where l: "bus_load B ?a sz b = (Inr (from_le (flat_bytes V (ram_off ?a) sz)), b1)" "holds V (cache b1)"
    using bus_load_works [OF V(1) assms(6,7)] by blast
  have st: "\<exists>b2. bus_store B put ?a sz x b' = (Inr (), b2) \<and> safe im b2" if "holds V (cache b')" for x b'
    using bus_store_in_page [OF that assms(6,7), of put x] sandboxed_wrote [OF V(2) _ assms(8)] by (blast intro: safeI)
  have "\<exists>c' b'. ?m (c, b) = (Inr (), (c', b')) \<and> same_but (rd w) c c' \<and> safe im b'"
  proof -
    consider "?op = 0x02" | "?op = 0x03" "reservation c = Some ?a" | "?op = 0x03" "reservation c \<noteq> Some ?a"
      | "?op \<in> {0x00, 0x01, 0x04, 0x08, 0x0C, 0x10, 0x14, 0x18, 0x1C}" using assms(5) by auto
    then show ?thesis
    proof cases
      case 1
      with l safeI [OF l(2) V(2)] show ?thesis
        by (auto simp: exec_lr_def sm_bind_def on_bus_def sm_field_def on_cpu_def sm_modify_def)
    next
      case 2
      obtain b2 where "bus_store B put ?a sz ?x b = (Inr (), b2)" "safe im b2" using st [OF V(1)] by blast
      with 2 show ?thesis by (auto simp: exec_sc_def sm_bind_def sm_get_def on_bus_def sm_field_def on_cpu_def sm_modify_def)
    next
      case 3
      with assms(4) show ?thesis by (auto simp: exec_sc_def sm_bind_def sm_get_def on_cpu_def sm_modify_def)
    next
      case 4
      obtain v where v: "amo_new ?op sz (from_le (flat_bytes V (ram_off ?a) sz)) ?x = Some v" using amo_new_known [OF 4] by blast
      obtain b2 where "bus_store B put ?a sz v b1 = (Inr (), b2)" "safe im b2" using st [OF l(2)] by blast
      with 4 l v show ?thesis by (auto simp: exec_amo_def sm_bind_def on_bus_def sm_field_def on_cpu_def sm_modify_def)
    qed
  qed
  then obtain c' b' where M: "?m (c, b) = (Inr (), (c', b'))" "same_but (rd w) c c'" "safe im b'" by blast
  have "rv64a_execute B put w (c, b) = sm_bind ?m (\<lambda>_. sm_return True) (c, b)"
    using assms(1,2) by (simp add: rv64a_execute_def sm_bind_def get_reg_def sm_get_def Let_def
        translate_untranslated [OF machine_untranslated [OF assms(3)]])
  then have "rv64a_execute B put w (c, b) = (Inr True, (c', b'))" by (simp only: sm_bind_def M(1)) (simp add: sm_return_def)
  with m have "execute B put w (c, b) = (Inr True, (c', b'))" by (simp add: execute_def or_else_def sm_bind_def sm_return_def)
  with M show ?thesis by blast
qed

end

section \<open>Single steps\<close>

lemma code_address:
  assumes "off < RAM_BYTES"
  shows "ram_off (RAM_BASE + of_nat off) = off" "RAM_BASE \<le> RAM_BASE + of_nat off"
  using ram_off_add [of RAM_BASE off] assms by (simp_all add: ram_off_def)

lemma sandboxed_bytes:
  assumes "sandboxed im V" "off + n \<le> SCRATCH_OFF" "SCRATCH_OFF \<le> length im"
  shows "flat_bytes V off n = slice off n im"
  by (rule nth_equalityI) (use assms in \<open>auto simp: flat_bytes_def length_slice nth_slice sandboxed_def\<close>)

lemma holds_word_ins:
  assumes "sandboxed im V" "SCRATCH_OFF \<le> length im" "code_at im off (i # v)" "decoded i = Some w" "off + isize i \<le> CODE_LIMIT"
  shows "holds_word V off (isize i) w"
proof -
  have "flat_bytes V off (isize i) = take (isize i) (to_le 4 (iword i))"
    using sandboxed_bytes [OF assms(1) _ assms(2), of off "isize i"] assms(3,5) by simp
  moreover have "take 2 (to_le 4 (iword i)) = to_le 2 (ucast (iword i) :: u16)"
  proof (rule nth_equalityI)
    fix k
    assume "k < length (take 2 (to_le 4 (iword i)))"
    then have k: "k < 2" by simp
    then have "ucast (drop_bit (8 * k) (iword i)) = (ucast (drop_bit (8 * k) (ucast (iword i) :: u16)) :: u8)"
      by (intro bit_word_eqI) (auto simp: bit_simps)
    with k show "take 2 (to_le 4 (iword i)) ! k = to_le 2 (ucast (iword i) :: u16) ! k" by (simp add: nth_to_le del: to_le.simps)
  qed simp
  ultimately show ?thesis
    using assms(4) by (auto simp: holds_word_def decoded_def simp del: to_le.simps split: if_splits)
qed

context working_store
begin

text \<open>At an offset of the code, in machine mode, with the code in memory.\<close>

definition ready :: "u8 list \<Rightarrow> nat \<Rightarrow> ('a, 's) machine \<Rightarrow> bool" where
  "ready im off m \<longleftrightarrow> pc (fst m) = RAM_BASE + of_nat off \<and> priv_mode (fst m) = M \<and> safe im (snd m)"

abbreviation fetched :: "ins \<Rightarrow> cpu \<Rightarrow> cpu" where
  "fetched i c \<equiv> c\<lparr>insn_len := of_nat (isize i), next_pc := None\<rparr>"

lemma step_ins:
  assumes "ready im off (c, b)" and "SCRATCH_OFF \<le> length im" and "code_at im off (i # v)" and "decoded i = Some w"
    and "off + isize i \<le> CODE_LIMIT"
    and "\<And>b'. safe im b' \<Longrightarrow> \<exists>c1 b1. execute B put w (fetched i c, b') = (Inr True, (c1, b1)) \<and> safe im b1 \<and> R c1"
  shows "\<exists>c1 b1. step B put (c, b) = (Inr (), (retire (of_nat (isize i)) c1, b1)) \<and> safe im b1 \<and> R c1"
proof -
  have r: "pc c = RAM_BASE + of_nat off" "priv_mode c = M" "safe im b" using assms(1) by (simp_all add: ready_def)
  obtain V where V: "holds V (cache b)" "sandboxed im V" using r(3) by (auto simp: safe_def)
  have lt: "off < RAM_BYTES" using assms(5) by simp
  note a = code_address [OF lt] and w = holds_word_ins [OF V(2) assms(2-5)]
  have p: "in_page (pc c) (isize i)" using a assms(5) w by (auto simp: in_page_def r holds_word_def)
  have w': "holds_word V (ram_off (pc c)) (isize i) w" using w a by (simp add: r)
  show ?thesis
    by (rule step_works [OF machine_untranslated [OF r(2)] V(1) p w']) (rule assms(6), rule safeI [OF _ V(2)])
qed

lemma ready_retired:
  assumes "ready im off (c, b)" and "same_but d (fetched i c) c1" and "safe im b1"
  shows "ready im (off + isize i) (retire (of_nat (isize i)) c1, b1)"
  using assms by (simp add: ready_def same_but_def retire_def algebra_simps)

text \<open>A step that goes on to the next instruction and changes at most the register \<open>d\<close>.\<close>

lemma step_same:
  assumes "ready im off (c, b)" and "SCRATCH_OFF \<le> length im" and "code_at im off (i # v)" and "decoded i = Some w"
    and "off + isize i \<le> CODE_LIMIT"
    and "\<And>b'. safe im b' \<Longrightarrow> \<exists>c1 b1. execute B put w (fetched i c, b') = (Inr True, (c1, b1)) \<and> same_but d (fetched i c) c1 \<and> safe im b1 \<and> P (regs c1 d)"
  shows "\<exists>m. step B put (c, b) = (Inr (), m) \<and> ready im (off + isize i) m \<and> (\<forall>q. q \<noteq> d \<longrightarrow> regs (fst m) q = regs c q) \<and> P (regs (fst m) d)"
proof -
  have "\<exists>c1 b1. step B put (c, b) = (Inr (), (retire (of_nat (isize i)) c1, b1)) \<and> safe im b1 \<and> (same_but d (fetched i c) c1 \<and> P (regs c1 d))"
    by (rule step_ins [OF assms(1-5)]) (use assms(6) in blast)
  then obtain c1 b1 where s: "step B put (c, b) = (Inr (), (retire (of_nat (isize i)) c1, b1))" "safe im b1" "same_but d (fetched i c) c1" "P (regs c1 d)"
    by blast
  from s(3,4) have "(\<forall>q. q \<noteq> d \<longrightarrow> regs (retire (of_nat (isize i)) c1) q = regs c q)" "P (regs (retire (of_nat (isize i)) c1) d)"
    by (simp_all add: same_but_def retire_def)
  with s(1) ready_retired [OF assms(1) s(3,2)] show ?thesis by auto
qed

lemma step_calc:
  assumes "ready im off m" "SCRATCH_OFF \<le> length im" "code_at im off (i # v)" "calc_ins i" "off + isize i \<le> CODE_LIMIT"
  shows "\<exists>m'. step B put m = (Inr (), m') \<and> ready im (off + isize i) m'"
proof -
  obtain c b where m: "m = (c, b)" by (cases m)
  obtain w where w: "decoded i = Some w" "calc_word w" using assms(4) by (auto simp: calc_ins_def)
  have e: "\<exists>d x. execute B put w (fetched i c, b') = (Inr True, (set_reg d x (fetched i c), b'))" for b' :: "('a, 'b) bus"
    by (rule execute_calc [OF w(2)])
  have "\<exists>c1 b1. step B put (c, b) = (Inr (), (retire (of_nat (isize i)) c1, b1)) \<and> safe im b1 \<and> (\<exists>d. same_but d (fetched i c) c1)"
    by (rule step_ins [OF assms(1) [unfolded m] assms(2,3) w(1) assms(5)]) (use e in blast)
  with ready_retired [OF assms(1) [unfolded m]] m show ?thesis by blast
qed

end

end
