(* ===== verification/Sandbox_Steps.thy ===== *)
theory Sandbox_Steps
  imports Sandbox
begin

text \<open>
  The steps of each kind of instruction in generated programs, and the two idioms the generator
  relies on: the code that points a register into the scratch page, and the code that points one at
  the target of a jump.
\<close>

section \<open>Instructions with a known result\<close>

lemma unat_page_aligned: "unat (RAM_BASE + of_nat n) = 2147483648 + n" if "n < RAM_BYTES"
  using that by (simp add: unat_word_ariths unat_of_nat)

lemma clear_low:
  fixes x :: u64
  assumes "even x"
  shows "x AND NOT 1 = x"
proof (rule bit_word_eqI)
  show "bit (x AND NOT 1) n = bit x n" if "n < LENGTH(64)" for n
    using that assms by (cases "n = 0") (simp_all only: bit_and_iff bit_not_iff bit_1_iff, simp_all add: bit_0)
qed

lemma signed_small: "signed_take_bit 11 (ucast (- 2048 :: u32) :: u64) = - 2048"
  by simp

lemma execute_auipc:
  assumes "d < 32"
  shows "execute B put (gen_u_type 0x17 d imm) (c, b) = (Inr True, (set_reg (of_nat d) (pc c + sext32 (push_bit 12 (imm AND 0xFFFFF))) c, b))"
proof -
  let ?w = "gen_u_type 0x17 d imm" and ?u = "push_bit 12 (imm AND 0xFFFFF) OR push_bit 7 (of_nat d) OR 0x17"
  have o: "fits 7 (0x17 :: u32)" by (simp add: fits_def)
  note F = u_type_fields [OF fits_reg [OF assms] o, of imm]
  have masks: "(0xFFFFF000 :: u32) = push_bit 12 (mask 20)" "(0xFFFFF :: u32) = mask 20" by (simp_all add: mask_eq_exp_minus_1)
  have "(push_bit 12 (imm AND mask 20) OR push_bit 7 e OR opc) AND push_bit 12 (mask 20) = push_bit 12 (imm AND mask 20)"
    if "fits 5 e" "fits 7 opc" for e opc :: u32
    by (rule bit_word_eqI) (auto simp: bit_simps dest: fitsD [OF that(1)] fitsD [OF that(2)])
  from this [OF fits_reg [OF assms] o] have "?u AND 0xFFFFF000 = push_bit 12 (imm AND 0xFFFFF)" unfolding masks .
  then have "imm_u ?u = sext32 (push_bit 12 (imm AND 0xFFFFF))" by (simp only: imm_u_def)
  moreover have "opcode ?w = 0x17" "rd ?w = of_nat d" unfolding gen_types F by (simp_all only: ucast_reg)
  ultimately show ?thesis
    by (simp add: execute_base rv64i_execute_def Let_def sm_bind_def sm_get_def finish_Some gen_types(6) del: push_bit_and)
qed

lemma execute_op_imm:
  assumes "d < 32" "a < 32" "fits 3 f3" and "op_imm (gen_i_type 0x13 f3 d a imm) (reg (of_nat a) c) = Some v"
  shows "execute B put (gen_i_type 0x13 f3 d a imm) (c, b) = (Inr True, (set_reg (of_nat d) v c, b))"
proof -
  let ?w = "gen_i_type 0x13 f3 d a imm"
  have o: "fits 7 (0x13 :: u32)" by (simp add: fits_def)
  note F = i_type_fields [OF fits_reg [OF assms(2)] assms(3) fits_reg [OF assms(1)] o, of imm]
  have "opcode ?w = 0x13" "rd ?w = of_nat d" "rs1 ?w = of_nat a" unfolding gen_types F by (simp_all only: ucast_reg)
  with assms(4) show ?thesis by (simp add: execute_base rv64i_execute_def Let_def sm_bind_def get_reg_def sm_get_def finish_Some)
qed

lemma op_imm_cases:
  assumes "d < 32" "a < 32"
  shows "op_imm (gen_i_type 0x13 7 d a imm) x = Some (x AND signed_take_bit 11 (ucast imm))"
    "op_imm (gen_i_type 0x13 0 d a imm) x = Some (x + signed_take_bit 11 (ucast imm))"
proof -
  have o: "fits 7 (0x13 :: u32)" "fits 3 (7 :: u32)" "fits 3 (0 :: u32)" by (simp_all add: fits_def)
  note f = fits_reg [OF assms(2)] _ fits_reg [OF assms(1)] o(1)
  have "funct3 (gen_i_type 0x13 7 d a imm) = 7" "imm_i (gen_i_type 0x13 7 d a imm) = signed_take_bit 11 (ucast imm)"
    "funct3 (gen_i_type 0x13 0 d a imm) = 0" "imm_i (gen_i_type 0x13 0 d a imm) = signed_take_bit 11 (ucast imm)"
    unfolding gen_types using i_type_fields [OF f, of 7 imm] i_type_fields [OF f, of 0 imm]
      imm_i_i_type [OF f, of 7 imm] imm_i_i_type [OF f, of 0 imm] o by simp_all
  then show "op_imm (gen_i_type 0x13 7 d a imm) x = Some (x AND signed_take_bit 11 (ucast imm))"
    "op_imm (gen_i_type 0x13 0 d a imm) x = Some (x + signed_take_bit 11 (ucast imm))" by (simp_all add: op_imm_def)
qed

lemma execute_add:
  assumes "d < 32" "a < 32" "a' < 32"
  shows "execute B put (gen_r_type 0x33 0 0 d a a') (c, b) =
    (Inr True, (set_reg (of_nat d) (reg (of_nat a) c + reg (of_nat a') c) c, b))"
proof -
  let ?w = "gen_r_type 0x33 0 0 d a a'"
  have o: "fits 7 (0x33 :: u32)" "fits 3 (0 :: u32)" "fits 7 (0 :: u32)" by (simp_all add: fits_def)
  note F = r_type_fields [OF fits_reg [OF assms(2)] o(2) fits_reg [OF assms(3)] o(1) fits_reg [OF assms(1)] o(3)]
  have "opcode ?w = 0x33" "rd ?w = of_nat d" "rs1 ?w = of_nat a" "rs2 ?w = of_nat a'" "funct3 ?w = 0" "funct7 ?w = 0"
    unfolding gen_types F by (simp_all only: ucast_reg)
  then show ?thesis
    by (simp add: execute_base rv64i_execute_def Let_def sm_bind_def get_reg_def sm_get_def finish_Some op_reg_def)
qed

lemma decoded_types:
  "d < 32 \<Longrightarrow> decoded (ins_w (gen_u_type 0x17 d imm) t) = Some (gen_u_type 0x17 d imm)"
  "d < 32 \<Longrightarrow> a < 32 \<Longrightarrow> fits 3 f3 \<Longrightarrow> decoded (ins_w (gen_i_type 0x13 f3 d a imm) t) = Some (gen_i_type 0x13 f3 d a imm)"
  "d < 32 \<Longrightarrow> a < 32 \<Longrightarrow> a' < 32 \<Longrightarrow> decoded (ins_w (gen_r_type 0x33 0 0 d a a') t) = Some (gen_r_type 0x33 0 0 d a a')"
  by (rule decoded_w, rule low_words(1), simp add: i_type_calc r_type_calc)+

section \<open>The step of each kind\<close>

context working_store
begin

lemma step_sets:
  assumes "ready im off (c, b)" "SCRATCH_OFF \<le> length im" "code_at im off (i # v)" "decoded i = Some w" "off + isize i \<le> CODE_LIMIT"
    and "d \<noteq> 0" and "\<And>b'. execute B put w (fetched i c, b') = (Inr True, (set_reg d x (fetched i c), b'))"
  shows "\<exists>c' b'. step B put (c, b) = (Inr (), (c', b')) \<and> ready im (off + isize i) (c', b') \<and> regs c' = (regs c)(d := x)"
proof -
  have "\<exists>m. step B put (c, b) = (Inr (), m) \<and> ready im (off + isize i) m \<and> (\<forall>q. q \<noteq> d \<longrightarrow> regs (fst m) q = regs c q) \<and> regs (fst m) d = x"
    by (rule step_same [OF assms(1-5), where P = "\<lambda>y. y = x"]) (use assms(6,7) in \<open>auto simp: set_reg_def same_but_def\<close>)
  then show ?thesis by (auto intro!: ext)
qed

lemma step_mem:
  assumes "ready im off (c, b)" "SCRATCH_OFF \<le> length im" "code_at im off (i # v)" "off + isize i \<le> CODE_LIMIT"
    and "decoded i = Some w" "mem_word w r k sz" and "valid_size sz"
    and "in_page (regs c (of_nat r) + of_nat k) sz" "SCRATCH_OFF \<le> ram_off (regs c (of_nat r) + of_nat k)"
  shows "\<exists>m. step B put (c, b) = (Inr (), m) \<and> ready im (off + isize i) m \<and> (\<forall>q. q \<noteq> rd w \<longrightarrow> regs (fst m) q = regs c q)"
proof -
  have M: "priv_mode (fetched i c) = M" using assms(1) by (simp add: ready_def)
  have e: "\<exists>c1 b1. execute B put w (fetched i c, b') = (Inr True, (c1, b1)) \<and> same_but (rd w) (fetched i c) c1 \<and> safe im b1 \<and> True"
    if S: "safe im b'" for b'
  proof -
    from assms(6) consider
        "rs1 w = of_nat r" "opcode w = 0x03" "imm_i w = of_nat k" "map_option fst (load_kind (funct3 w)) = Some sz"
      | "rs1 w = of_nat r" "opcode w = 0x23" "imm_s w = of_nat k" "store_size (funct3 w) = Some sz"
      | "rs1 w = of_nat r" "opcode w = 0x2F" "k = 0" "amo_size w = Some sz"
        "drop_bit 2 (funct7 w) \<in> {0x00, 0x01, 0x02, 0x03, 0x04, 0x08, 0x0C, 0x10, 0x14, 0x18, 0x1C}"
      unfolding mem_word_def by blast
    then show ?thesis
    proof cases
      case 1
      with execute_load [OF 1(2,4) M S, of put] assms(7,8) obtain b1 x where
        "execute B put w (fetched i c, b') = (Inr True, (set_reg (rd w) x (fetched i c), b1))" "safe im b1" by (auto simp: reg_def)
      then show ?thesis by blast
    next
      case 2
      with execute_store [OF 2(2,4) M S] assms(7-9) show ?thesis by (auto simp: reg_def)
    next
      case 3
      with execute_amo [OF 3(2,4) M S 3(5)] assms(7-9) show ?thesis by (auto simp: reg_def)
    qed
  qed
  from step_same [OF assms(1-3,5,4), where P = "\<lambda>_. True" and d = "rd w", OF e] show ?thesis by blast
qed

text \<open>A step that jumps.\<close>

lemma step_jumps:
  assumes "ready im off (c, b)" "SCRATCH_OFF \<le> length im" "code_at im off (i # v)" "decoded i = Some w" "off + isize i \<le> CODE_LIMIT"
    and "\<And>b'. \<exists>c1. execute B put w (fetched i c, b') = (Inr True, (c1, b')) \<and> priv_mode c1 = M \<and>
      (next_pc c1 = Some (RAM_BASE + of_nat t) \<or> fall \<and> next_pc c1 = None \<and> pc c1 = pc c)"
  shows "\<exists>m. step B put (c, b) = (Inr (), m) \<and> (ready im t m \<or> fall \<and> ready im (off + isize i) m)"
proof -
  have "\<exists>c1 b1. step B put (c, b) = (Inr (), (retire (of_nat (isize i)) c1, b1)) \<and> safe im b1 \<and>
      (priv_mode c1 = M \<and> (next_pc c1 = Some (RAM_BASE + of_nat t) \<or> fall \<and> next_pc c1 = None \<and> pc c1 = pc c))"
    by (rule step_ins [OF assms(1-5)]) (use assms(6) in blast)
  with assms(1) show ?thesis by (fastforce simp: ready_def retire_def algebra_simps)
qed

lemma step_branch:
  assumes "ready im off (c, b)" "SCRATCH_OFF \<le> length im" "code_at im off (i # v)" "off + isize i \<le> CODE_LIMIT" "branches d i"
  shows "\<exists>m. step B put (c, b) = (Inr (), m) \<and> (ready im (off + d) m \<or> ready im (off + isize i) m)"
proof -
  obtain w where w: "decoded i = Some w" "opcode w = 0x63" "funct3 w \<in> {0, 1, 4, 5, 6, 7}" "imm_b w = of_nat d"
    using assms(5) by (auto simp: branches_def)
  have "\<exists>c1. execute B put w (fetched i c, b') = (Inr True, (c1, b')) \<and> priv_mode c1 = M \<and>
      (next_pc c1 = Some (RAM_BASE + of_nat (off + d)) \<or> True \<and> next_pc c1 = None \<and> pc c1 = pc c)" for b' :: "('a, 'b) bus"
  proof -
    obtain taken where "branch_taken (funct3 w) (regs c (rs1 w)) (regs c (rs2 w)) = Some taken" using w(3) by (auto simp: branch_taken_def)
    moreover have "execute B put w (fetched i c, b') = exec_branch w (fetched i c, b')"
      using w(2) by (simp add: execute_base rv64i_execute_def Let_def)
    ultimately show ?thesis using assms(1) w(4)
      by (cases taken) (auto simp: exec_branch_def sm_bind_def get_reg_def sm_get_def reg_def on_cpu_def sm_modify_def sm_return_def
        jump_def ready_def algebra_simps)
  qed
  from step_jumps [OF assms(1-3) w(1) assms(4) this] show ?thesis by auto
qed

lemma step_jal:
  assumes "ready im off (c, b)" "SCRATCH_OFF \<le> length im" "code_at im off (i # v)" "off + isize i \<le> CODE_LIMIT" "jumps d i"
  shows "\<exists>m. step B put (c, b) = (Inr (), m) \<and> ready im (off + d) m"
proof -
  obtain w where w: "decoded i = Some w" "opcode w = 0x6F" "imm_j w = of_nat d" using assms(5) by (auto simp: jumps_def)
  have e: "execute B put w (fetched i c, b') = (Inr True, (exec_jal w (fetched i c), b'))" for b' :: "('a, 'b) bus"
    using w(2) by (simp add: execute_base rv64i_execute_def Let_def sm_bind_def on_cpu_def sm_modify_def sm_return_def)
  have "priv_mode (exec_jal w (fetched i c)) = M" "next_pc (exec_jal w (fetched i c)) = Some (RAM_BASE + of_nat (off + d))"
    using assms(1) w(3) by (simp_all add: exec_jal_def set_reg_def jump_def ready_def algebra_simps)
  with e have "\<exists>c1. execute B put w (fetched i c, b') = (Inr True, (c1, b')) \<and> priv_mode c1 = M \<and>
      (next_pc c1 = Some (RAM_BASE + of_nat (off + d)) \<or> False \<and> next_pc c1 = None \<and> pc c1 = pc c)" for b' :: "('a, 'b) bus"
    by blast
  from step_jumps [OF assms(1-3) w(1) assms(4) this] show ?thesis by auto
qed

lemma step_jalr:
  assumes "ready im off (c, b)" "SCRATCH_OFF \<le> length im" "code_at im off (i # v)" "off + isize i \<le> CODE_LIMIT" "jumps_to r i"
    and "regs c (of_nat r) = RAM_BASE + of_nat t" "even t" "t < RAM_BYTES"
  shows "\<exists>m. step B put (c, b) = (Inr (), m) \<and> ready im t m"
proof -
  obtain w where w: "decoded i = Some w" "opcode w = 0x67" "rs1 w = of_nat r" "imm_i w = 0" using assms(5) by (auto simp: jumps_to_def)
  have "even (RAM_BASE + of_nat t)" using assms(7,8) unat_page_aligned [OF assms(8)] by (simp add: even_word_iff)
  note ev = clear_low [OF this]
  have e: "execute B put w (fetched i c, b') = (Inr True, (exec_jalr w (fetched i c), b'))" for b' :: "('a, 'b) bus"
    using w(2) by (simp add: execute_base rv64i_execute_def Let_def sm_bind_def on_cpu_def sm_modify_def sm_return_def)
  have "priv_mode (exec_jalr w (fetched i c)) = M" "next_pc (exec_jalr w (fetched i c)) = Some (RAM_BASE + of_nat t)"
    using assms(1,6) w(3,4) ev by (simp_all add: exec_jalr_def set_reg_def jump_def ready_def reg_def Let_def)
  with e have "\<exists>c1. execute B put w (fetched i c, b') = (Inr True, (c1, b')) \<and> priv_mode c1 = M \<and>
      (next_pc c1 = Some (RAM_BASE + of_nat t) \<or> False \<and> next_pc c1 = None \<and> pc c1 = pc c)" for b' :: "('a, 'b) bus"
    by blast
  from step_jumps [OF assms(1-3) w(1) assms(4) this] show ?thesis by auto
qed

end

end
