(* ===== verification/Sandbox_Chunks.thy ===== *)
theory Sandbox_Chunks
  imports Sandbox_Steps
begin

text \<open>
  Whole chunks: entered at its first instruction, a chunk is left after at most six steps at the
  start of a later chunk, with the code still in memory.
\<close>

section \<open>Addresses in the scratch page\<close>

lemma round_down_2048:
  fixes x :: u64
  shows "unat (x AND - 2048) = unat x div 2048 * 2048"
proof -
  have "x AND - 2048 = push_bit 11 (drop_bit 11 x)"
  proof (rule bit_word_eqI)
    have m: "(- 2048 :: u64) = NOT (mask 11)" by (simp add: mask_eq_exp_minus_1)
    show "bit (x AND - 2048) n = bit (push_bit 11 (drop_bit 11 x)) n" if "n < LENGTH(64)" for n
      using that unfolding m by (auto simp: bit_simps)
  qed
  moreover have "unat (drop_bit 11 x) = unat x div 2048" by (simp add: drop_bit_eq_div unat_div)
  moreover have "unat x div 2048 * 2048 < 2 ^ 64"
    by (rule order_le_less_trans [OF div_times_less_eq_dividend]) (use unsigned_less [of x] in simp)
  ultimately show ?thesis by (simp add: push_bit_eq_mult unat_mult_lem mult.commute unat_word_ariths)
qed

text \<open>The window of offsets: below 256 and aligned.\<close>

lemma window:
  fixes x :: u64
  assumes "al \<in> {1, 2, 4, 8 :: nat}"
  shows "unat (x AND signed_take_bit 11 (ucast (window_mask al))) + al \<le> 256"
    and "al dvd unat (x AND signed_take_bit 11 (ucast (window_mask al)))"
proof -
  define y where "y = x AND signed_take_bit 11 (ucast (window_mask al))"
  have w: "signed_take_bit 11 (ucast (window_mask al)) = (256 - of_nat al :: u64)"
    using assms by (auto simp: window_mask_def)
  have le: "y \<le> 256 - of_nat al" unfolding y_def w by (rule word_and_le1)
  have "unat (256 - of_nat al :: u64) = 256 - al" using assms by auto
  with le have "unat y \<le> 256 - al" by (simp add: word_le_nat_alt)
  then show "unat (x AND signed_take_bit 11 (ucast (window_mask al))) + al \<le> 256" using assms unfolding y_def by auto
  obtain k where k: "al = 2 ^ k" "k \<le> 3"
  proof -
    have "\<exists>k \<le> 3. al = 2 ^ k" using assms by (auto intro: exI [of _ 0] exI [of _ 1] exI [of _ 2] exI [of _ 3])
    then show ?thesis using that by blast
  qed
  have "\<not> bit y n" if "n < k" for n
  proof -
    have "n = 0 \<or> n = 1 \<or> n = 2" using that k(2) by linarith
    moreover have "k = 1 \<or> k = 2 \<or> k = 3" using that k(2) by linarith
    ultimately show ?thesis using that k(1) unfolding y_def w by (auto simp: bit_and_iff)
  qed
  then have "take_bit k y = 0" by (intro bit_word_eqI) (auto simp: bit_take_bit_iff)
  then have "take_bit k (unat y) = 0" by (metis unsigned_take_bit_eq unsigned_0)
  then have "2 ^ k dvd unat y" by (simp add: take_bit_eq_mod dvd_eq_mod_eq_0)
  then show "al dvd unat (x AND signed_take_bit 11 (ucast (window_mask al)))" unfolding y_def using k(1) by metis
qed

text \<open>Where the address code points: one of the two halves of the page, and an offset in the window.\<close>

definition scratch_base :: "nat \<Rightarrow> nat" where
  "scratch_base off = (off + SCRATCH_OFF) div 2048 * 2048"

lemma scratch_base_bounds: "off < CODE_LIMIT \<Longrightarrow> SCRATCH_OFF \<le> scratch_base off \<and> scratch_base off + 2048 \<le> MEMSZ"
proof -
  assume "off < CODE_LIMIT"
  moreover have "SCRATCH_OFF div 2048 \<le> (off + SCRATCH_OFF) div 2048" by (rule div_le_mono) simp
  ultimately have "4 \<le> (off + SCRATCH_OFF) div 2048" "(off + SCRATCH_OFF) div 2048 < 6"
    using less_mult_imp_div_less [of "off + SCRATCH_OFF" 6 2048] by simp_all
  then show ?thesis by (simp add: scratch_base_def)
qed

lemma scratch_half:
  assumes "off < CODE_LIMIT"
  shows "(RAM_BASE + of_nat off + sext32 (push_bit 12 (2 AND 0xFFFFF))) AND signed_take_bit 11 (ucast (- 2048 :: u32)) =
    RAM_BASE + of_nat (scratch_base off)"
proof -
  have s: "RAM_BASE + of_nat off + sext32 (push_bit 12 (2 AND 0xFFFFF)) = RAM_BASE + of_nat (off + SCRATCH_OFF)"
    by (simp add: sext32_def)
  have "unat ((RAM_BASE + of_nat (off + SCRATCH_OFF)) AND - 2048) = unat (RAM_BASE + of_nat (scratch_base off))"
  proof -
    have "unat (RAM_BASE + of_nat (off + SCRATCH_OFF)) = off + SCRATCH_OFF + 1048576 * 2048"
      "unat (RAM_BASE + of_nat (scratch_base off)) = scratch_base off + 1048576 * 2048"
      using unat_page_aligned [of "off + SCRATCH_OFF"] unat_page_aligned [of "scratch_base off"] scratch_base_bounds [OF assms] assms by simp_all
    then show ?thesis unfolding round_down_2048 by (simp only: div_mult_self1 scratch_base_def) simp
  qed
  then show ?thesis unfolding s signed_small by (simp only: word_unat_eq_iff)
qed

section \<open>Walks\<close>

lemma code_next: "code_at im off (ins_w w t # v) \<Longrightarrow> code_at im (off + 4) v"
  by simp

context working_store
begin

text \<open>Steps from one machine to another, each from an offset below the limit.\<close>

fun walks :: "(u8 \<Rightarrow> 's \<Rightarrow> 's) \<Rightarrow> u8 list \<Rightarrow> nat \<Rightarrow> nat \<Rightarrow> ('a, 's) machine \<Rightarrow> ('a, 's) machine \<Rightarrow> bool" where
  "walks put im lim 0 m m' \<longleftrightarrow> m' = m"
| "walks put im lim (Suc n) m m' \<longleftrightarrow>
     (\<exists>off m1. ready im off m \<and> off < lim \<and> step B put m = (Inr (), m1) \<and> walks put im lim n m1 m')"

lemma walks_trans: "walks put im lim k m m1 \<Longrightarrow> walks put im lim n m1 m' \<Longrightarrow> walks put im lim (k + n) m m'"
  by (induction k arbitrary: m) auto

lemma walks_one: "ready im off m \<Longrightarrow> off < lim \<Longrightarrow> step B put m = (Inr (), m') \<Longrightarrow> walks put im lim 1 m m'"
  by auto

lemma step_auipc:
  assumes "ready im off (c, b)" "SCRATCH_OFF \<le> length im" "code_at im off (ins_w (gen_u_type 0x17 d imm) t # v)" "off + 4 \<le> CODE_LIMIT"
    and "1 \<le> d" "d < 32"
  shows "\<exists>c' b'. step B put (c, b) = (Inr (), (c', b')) \<and> ready im (off + 4) (c', b') \<and>
    regs c' = (regs c)(of_nat d := RAM_BASE + of_nat off + sext32 (push_bit 12 (imm AND 0xFFFFF)))"
proof -
  have "(of_nat d :: regno) \<noteq> 0" using reg_inject [of d 0] assms by auto
  moreover have "pc (fetched (ins_w (gen_u_type 0x17 d imm) t) c) = RAM_BASE + of_nat off" using assms(1) by (simp add: ready_def)
  ultimately show ?thesis
    using step_sets [OF assms(1-3) decoded_types(1) [OF assms(6)] _ _ execute_auipc [OF assms(6)]] assms(4)
    by (simp only: isize_ins not_False_eq_True)
qed

lemma step_op_imm:
  assumes "ready im off (c, b)" "SCRATCH_OFF \<le> length im" "code_at im off (ins_w (gen_i_type 0x13 f3 d a imm) t # v)" "off + 4 \<le> CODE_LIMIT"
    and "1 \<le> d" "d < 32" "a < 32" "fits 3 f3" and "op_imm (gen_i_type 0x13 f3 d a imm) (regs c (of_nat a)) = Some x"
  shows "\<exists>c' b'. step B put (c, b) = (Inr (), (c', b')) \<and> ready im (off + 4) (c', b') \<and> regs c' = (regs c)(of_nat d := x)"
proof -
  have "(of_nat d :: regno) \<noteq> 0" using reg_inject [of d 0] assms by auto
  moreover have "op_imm (gen_i_type 0x13 f3 d a imm) (reg (of_nat a) (fetched (ins_w (gen_i_type 0x13 f3 d a imm) t) c)) = Some x"
    using assms(9) by (simp add: reg_def)
  ultimately show ?thesis
    using step_sets [OF assms(1-3) decoded_types(2) [OF assms(6,7,8)] _ _ execute_op_imm [OF assms(6,7,8)]] assms(4)
    by (simp only: isize_ins not_False_eq_True)
qed

lemma step_add:
  assumes "ready im off (c, b)" "SCRATCH_OFF \<le> length im" "code_at im off (ins_w (gen_r_type 0x33 0 0 d a a') t # v)" "off + 4 \<le> CODE_LIMIT"
    and "1 \<le> d" "d < 32" "a < 32" "a' < 32"
  shows "\<exists>c' b'. step B put (c, b) = (Inr (), (c', b')) \<and> ready im (off + 4) (c', b') \<and>
    regs c' = (regs c)(of_nat d := regs c (of_nat a) + regs c (of_nat a'))"
proof -
  have "(of_nat d :: regno) \<noteq> 0" using reg_inject [of d 0] assms by auto
  then show ?thesis
    using step_sets [OF assms(1-3) decoded_types(3) [OF assms(6,7,8)] _ _ execute_add [OF assms(6,7,8)]] assms(4)
    by (simp add: reg_def)
qed

lemma address_code_walk:
  assumes "ready im off (c, b)" "SCRATCH_OFF \<le> length im" "code_at im off (address_code al rt ru rs)" "base_ok al rt ru rs"
    and "off + 16 \<le> lim" "lim \<le> CODE_LIMIT"
  shows "\<exists>c' b' k. walks put im lim 4 (c, b) (c', b') \<and> ready im (off + 16) (c', b') \<and>
    regs c' (of_nat rt) = RAM_BASE + of_nat k \<and> SCRATCH_OFF \<le> k \<and> k + 512 \<le> MEMSZ \<and> al dvd k"
proof -
  have al: "al \<in> {1, 2, 4, 8}" and r: "1 \<le> rt" "rt < 32" "1 \<le> ru" "ru < 32" "ru \<noteq> rt" "rs < 32" using assms(4) by (auto simp: base_ok_def)
  have ne: "(of_nat rt :: regno) \<noteq> of_nat ru" using reg_inject [of rt ru] r by auto
  have f: "fits 3 (7 :: u32)" by simp
  have code: "code_at im off [ins_w (gen_u_type 0x17 rt 2) (''auipc '' @ xr rt @ '', 2''),
       ins_w (gen_i_type 0x13 7 rt rt (- 2048)) (three ''andi'' (xr rt) (xr rt) ''-2048''),
       ins_w (gen_i_type 0x13 7 ru rs (window_mask al)) (three ''andi'' (xr ru) (xr rs) (hex_alt (unat (window_mask al)))),
       ins_w (gen_r_type 0x33 0 0 rt rt ru) (three ''add'' (xr rt) (xr rt) (xr ru))]"
    using assms(3) by (simp only: address_code_def Let_def)
  have lims: "off + 4 \<le> CODE_LIMIT" "off + 4 + 4 \<le> CODE_LIMIT" "off + 4 + 4 + 4 \<le> CODE_LIMIT" "off + 4 + 4 + 4 + 4 \<le> CODE_LIMIT" "off < CODE_LIMIT"
    using assms(5,6) by simp_all
  note code1 = code_next [OF code]
  note code2 = code_next [OF code1]
  note code3 = code_next [OF code2]
  let ?b = "RAM_BASE + of_nat (scratch_base off) :: u64"
  obtain c1 b1 where s1: "step B put (c, b) = (Inr (), (c1, b1))" "ready im (off + 4) (c1, b1)"
    "regs c1 = (regs c)(of_nat rt := RAM_BASE + of_nat off + sext32 (push_bit 12 (2 AND 0xFFFFF)))"
    using step_auipc [OF assms(1,2) code lims(1) r(1,2)] by blast
  have o1: "op_imm (gen_i_type 0x13 7 rt rt (- 2048)) (regs c1 (of_nat rt)) = Some ?b"
    unfolding op_imm_cases(1) [OF r(2) r(2)] s1(3) fun_upd_same scratch_half [OF lims(5)] ..
  obtain c2 b2 where s2: "step B put (c1, b1) = (Inr (), (c2, b2))" "ready im (off + 4 + 4) (c2, b2)" "regs c2 = (regs c1)(of_nat rt := ?b)"
    using step_op_imm [OF s1(2) assms(2) code1 lims(2) r(1,2) r(2) f o1] by blast
  let ?x = "regs c2 (of_nat rs) AND signed_take_bit 11 (ucast (window_mask al))"
  obtain c3 b3 where s3: "step B put (c2, b2) = (Inr (), (c3, b3))" "ready im (off + 4 + 4 + 4) (c3, b3)" "regs c3 = (regs c2)(of_nat ru := ?x)"
    using step_op_imm [OF s2(2) assms(2) code2 lims(3) r(3,4,6) f op_imm_cases(1) [OF r(4,6)]] by blast
  obtain c4 b4 where s4: "step B put (c3, b3) = (Inr (), (c4, b4))" "ready im (off + 4 + 4 + 4 + 4) (c4, b4)"
    "regs c4 = (regs c3)(of_nat rt := regs c3 (of_nat rt) + regs c3 (of_nat ru))"
    using step_add [OF s3(2) assms(2) code3 lims(4) r(1,2) r(2,4)] by blast
  have v: "regs c4 (of_nat rt) = ?b + ?x" using s4(3) s3(3) s2(3) ne by simp
  let ?k = "scratch_base off + unat ?x"
  have "regs c4 (of_nat rt) = RAM_BASE + of_nat ?k" unfolding v by simp
  moreover have "SCRATCH_OFF \<le> ?k" "?k + 512 \<le> MEMSZ" using scratch_base_bounds [OF lims(5)] window(1) [OF al, of "regs c2 (of_nat rs)"] by simp_all
  moreover have "al dvd ?k"
  proof (rule dvd_add [OF _ window(2) [OF al]])
    have "al dvd 2048" using al by auto
    then show "al dvd scratch_base off" by (simp add: scratch_base_def)
  qed
  moreover have "walks put im lim 4 (c, b) (c4, b4)"
  proof -
    have four: "(4 :: nat) = 1 + (1 + (1 + 1))" by simp
    show ?thesis unfolding four using assms(1,5) s1 s2 s3 s4 by (intro walks_trans walks_one) auto
  qed
  moreover have "ready im (off + 16) (c4, b4)" using s4(2) by (simp add: add.assoc)
  ultimately show ?thesis by blast
qed

end

section \<open>Chunks\<close>

lemma scratch_access:
  assumes "SCRATCH_OFF \<le> k" "k + sz \<le> MEMSZ"
  shows "in_page (RAM_BASE + of_nat k) sz" "ram_off (RAM_BASE + of_nat k) = k"
proof -
  have k: "k < RAM_BYTES" using assms by simp
  have "k mod PAGE + sz \<le> PAGE"
  proof (cases "k < MEMSZ")
    case True
    then have "k = (k - SCRATCH_OFF) + 2 * PAGE" "k - SCRATCH_OFF < PAGE" using assms(1) by simp_all
    then have "k mod PAGE = k - SCRATCH_OFF" by (metis mod_mult_self1 mod_less)
    then show ?thesis using assms by simp
  next
    case False
    then have "k = 3 * PAGE" "sz = 0" using assms by simp_all
    then show ?thesis by simp
  qed
  with code_address [OF k] assms show "in_page (RAM_BASE + of_nat k) sz" "ram_off (RAM_BASE + of_nat k) = k" by (simp_all add: in_page_def)
qed

lemma valid_align: "al \<in> {1, 2, 4, 8} \<Longrightarrow> valid_size al"
  by (auto simp: valid_size_def)

lemma target_code_cases: "target_code rt d v \<Longrightarrow> \<exists>t t'. v = [ins_w (gen_u_type 0x17 rt 0) t, ins_w (gen_i_type 0x13 0 rt rt (of_nat d)) t']"
proof -
  have i: "i = ins_w (iword i) (itext i)" if "isize i = 4" for i :: ins using that by (simp add: ins_w_def)
  assume "target_code rt d v"
  then obtain i j where v: "v = [i, j]" "isize i = 4" "isize j = 4" "iword i = gen_u_type 0x17 rt 0" "iword j = gen_i_type 0x13 0 rt rt (of_nat d)"
    by (auto simp: target_code_def)
  show ?thesis using i [OF v(2)] i [OF v(3)] v(1,4,5) by metis
qed

context working_store
begin

lemma access_walk:
  assumes "ready im off (c, b)" "SCRATCH_OFF \<le> length im" "code_at im off (i # v)" "off + isize i \<le> lim" "lim \<le> CODE_LIMIT" "off < lim"
    and "decoded i = Some w" "mem_word w r q al" "al \<in> {1, 2, 4, 8}"
    and "regs c (of_nat r) = RAM_BASE + of_nat k" "SCRATCH_OFF \<le> k" "k + 512 \<le> MEMSZ" "q + al \<le> 512"
  shows "\<exists>c' b'. walks put im lim 1 (c, b) (c', b') \<and> ready im (off + isize i) (c', b') \<and> (\<forall>q. q \<noteq> rd w \<longrightarrow> regs c' q = regs c q)"
proof -
  have k: "SCRATCH_OFF \<le> k + q" "k + q + al \<le> MEMSZ" using assms(11-13) by simp_all
  have a: "regs c (of_nat r) + of_nat q = RAM_BASE + of_nat (k + q)" by (simp add: assms(10))
  have le: "off + isize i \<le> CODE_LIMIT" using assms(4,5) by simp
  obtain m where m: "step B put (c, b) = (Inr (), m)" "ready im (off + isize i) m" "\<forall>q. q \<noteq> rd w \<longrightarrow> regs (fst m) q = regs c q"
    using step_mem [OF assms(1-3) le assms(7,8) valid_align [OF assms(9)]] scratch_access [OF k] k(1) unfolding a by metis
  obtain c' b' where "m = (c', b')" by (cases m)
  with m walks_one [OF assms(1,6) m(1)] show ?thesis by auto
qed

lemma plain_walk:
  assumes "ready im off m" "SCRATCH_OFF \<le> length im" "code_at im off v" "plain_ok v" "off + code_size v \<le> lim" "lim \<le> CODE_LIMIT"
  shows "\<exists>n m'. n \<le> 6 \<and> walks put im lim n m m' \<and> ready im (off + code_size v) m'"
proof -
  obtain c b where m: "m = (c, b)" by (cases m)
  from assms(4) consider i where "v = [i]" "calc_ins i"
    | al rt ru rs q i where "v = address_code al rt ru rs @ [i]" "base_ok al rt ru rs" "q + al \<le> 512" "mem_ins rt q al i"
    | al rt ru rs i j where "v = address_code al rt ru rs @ [i, j]" "base_ok al rt ru rs" "isize i = 4" "isize j = 4" "reserves rt al i" "mem_ins rt 0 al j"
    unfolding plain_ok_def by blast
  then show ?thesis
  proof cases
    case (1 i)
    have le: "off + isize i \<le> CODE_LIMIT" "off < lim" using assms(5,6) 1 ins_sizes(1) [OF 1(2)] by auto
    obtain m' where "step B put m = (Inr (), m')" "ready im (off + isize i) m'" using step_calc [OF assms(1,2) _ 1(2) le(1)] assms(3) 1(1) by blast
    with walks_one [OF assms(1) le(2)] 1(1) show ?thesis by (intro exI [of _ 1] exI [of _ m']) auto
  next
    case (2 al rt ru rs q i)
    have al: "al \<in> {1, 2, 4, 8}" using 2(2) by (simp add: base_ok_def)
    obtain w where w: "decoded i = Some w" "mem_word w rt q al" using 2(4) by (auto simp: mem_ins_def)
    have code: "code_at im off (address_code al rt ru rs)" "code_at im (off + 16) [i]" using assms(3) 2(1) by (simp_all add: code_at_append)
    have le: "off + 16 \<le> lim" "off + 16 + isize i \<le> lim" "off + 16 < lim" using assms(5) 2(1) decoded_size [OF w(1)] by auto
    obtain c1 b1 k where A: "walks put im lim 4 (c, b) (c1, b1)" "ready im (off + 16) (c1, b1)" "regs c1 (of_nat rt) = RAM_BASE + of_nat k"
      "SCRATCH_OFF \<le> k" "k + 512 \<le> MEMSZ" using address_code_walk [OF assms(1) [unfolded m] assms(2) code(1) 2(2) le(1) assms(6)] by blast
    obtain c2 b2 where C: "walks put im lim 1 (c1, b1) (c2, b2)" "ready im (off + 16 + isize i) (c2, b2)"
      using access_walk [OF A(2) assms(2) code(2) le(2) assms(6) le(3) w al A(3-5) 2(3)] by blast
    show ?thesis using walks_trans [OF A(1) C(1)] C(2) 2(1) m by (intro exI [of _ "4 + 1"] exI [of _ "(c2, b2)"]) (simp add: add.assoc)
  next
    case (3 al rt ru rs i j)
    have al: "al \<in> {1, 2, 4, 8}" "0 + al \<le> 512" using 3(2) by (auto simp: base_ok_def)
    obtain w where w: "decoded i = Some w" "mem_word w rt 0 al" "rd w \<noteq> of_nat rt" using 3(5) by (auto simp: reserves_def)
    obtain x where x: "decoded j = Some x" "mem_word x rt 0 al" using 3(6) by (auto simp: mem_ins_def)
    have code: "code_at im off (address_code al rt ru rs)" "code_at im (off + 16) [i, j]" "code_at im (off + 16 + isize i) [j]"
      using assms(3) 3(1) by (simp_all add: code_at_append)
    have le: "off + 16 \<le> lim" "off + 16 + isize i \<le> lim" "off + 16 < lim" "off + 16 + isize i + isize j \<le> lim" "off + 16 + isize i < lim"
      using assms(5) 3(1,3,4) by simp_all
    obtain c1 b1 k where A: "walks put im lim 4 (c, b) (c1, b1)" "ready im (off + 16) (c1, b1)" "regs c1 (of_nat rt) = RAM_BASE + of_nat k"
      "SCRATCH_OFF \<le> k" "k + 512 \<le> MEMSZ" using address_code_walk [OF assms(1) [unfolded m] assms(2) code(1) 3(2) le(1) assms(6)] by blast
    obtain c2 b2 where C: "walks put im lim 1 (c1, b1) (c2, b2)" "ready im (off + 16 + isize i) (c2, b2)" "\<forall>q. q \<noteq> rd w \<longrightarrow> regs c2 q = regs c1 q"
      using access_walk [OF A(2) assms(2) code(2) le(2) assms(6) le(3) w(1,2) al(1) A(3-5) al(2)] by blast
    have rt: "regs c2 (of_nat rt) = RAM_BASE + of_nat k" using C(3) w(3) A(3) by metis
    obtain c3 b3 where D: "walks put im lim 1 (c2, b2) (c3, b3)" "ready im (off + 16 + isize i + isize j) (c3, b3)"
      using access_walk [OF C(2) assms(2) code(3) le(4) assms(6) le(5) x al(1) rt A(4,5) al(2)] by blast
    show ?thesis using walks_trans [OF A(1) walks_trans [OF C(1) D(1)]] D(2) 3(1,3,4) m
      by (intro exI [of _ "4 + (1 + 1)"] exI [of _ "(c3, b3)"]) (simp add: add.assoc)
  qed
qed

lemma target_walk:
  assumes "ready im off m" "SCRATCH_OFF \<le> length im" "code_at im off (v @ [i])" "target_code rt d v" "jumps_to rt i" "1 \<le> rt" "rt < 32"
    and "off + 8 + isize i \<le> lim" "off + 8 < lim" "lim \<le> CODE_LIMIT" "even (off + d)" "d < 2048"
  shows "\<exists>m'. walks put im lim 3 m m' \<and> ready im (off + d) m'"
proof -
  obtain c b where m: "m = (c, b)" by (cases m)
  obtain t t' where v: "v = [ins_w (gen_u_type 0x17 rt 0) t, ins_w (gen_i_type 0x13 0 rt rt (of_nat d)) t']" using target_code_cases [OF assms(4)] by blast
  have code: "code_at im off (ins_w (gen_u_type 0x17 rt 0) t # [ins_w (gen_i_type 0x13 0 rt rt (of_nat d)) t', i])" using assms(3) v by simp
  note code1 = code_next [OF code]
  note code2 = code_next [OF code1]
  have lims: "off + 4 \<le> CODE_LIMIT" "off + 4 + 4 \<le> CODE_LIMIT" "off + 4 + 4 + isize i \<le> CODE_LIMIT" "off + d < RAM_BYTES" using assms(8-12) by simp_all
  obtain c1 b1 where s1: "step B put (c, b) = (Inr (), (c1, b1))" "ready im (off + 4) (c1, b1)"
    "regs c1 = (regs c)(of_nat rt := RAM_BASE + of_nat off + sext32 (push_bit 12 (0 AND 0xFFFFF)))"
    using step_auipc [OF assms(1) [unfolded m] assms(2) code lims(1) assms(6,7)] by blast
  have "signed_take_bit 11 (ucast (of_nat d :: u32)) = (of_nat d :: u64)" using small_offset(2,3) [OF assms(12)] by simp
  then have x: "op_imm (gen_i_type 0x13 0 rt rt (of_nat d)) (regs c1 (of_nat rt)) = Some (RAM_BASE + of_nat (off + d))"
    using op_imm_cases(2) [OF assms(7,7), of "of_nat d" "regs c1 (of_nat rt)"] s1(3) by (simp add: sext32_def)
  obtain c2 b2 where s2: "step B put (c1, b1) = (Inr (), (c2, b2))" "ready im (off + 4 + 4) (c2, b2)"
    "regs c2 = (regs c1)(of_nat rt := RAM_BASE + of_nat (off + d))"
    using step_op_imm [OF s1(2) assms(2) code1 lims(2) assms(6,7,7) fits_3(1) x] by blast
  obtain m' where s3: "step B put (c2, b2) = (Inr (), m')" "ready im (off + d) m'"
    using step_jalr [OF s2(2) assms(2) code2 lims(3) assms(5) _ assms(11) lims(4), of put] s2(3) by auto
  have three: "(3 :: nat) = 1 + (1 + 1)" by simp
  have "walks put im lim 3 m m'"
    unfolding three m by (rule walks_trans [OF walks_one [OF assms(1) [unfolded m] _ s1(1)]
        walks_trans [OF walks_one [OF s1(2) _ s2(1)] walks_one [OF s2(2) _ s3(1)]]]) (use assms(9) in simp_all)
  with s3(2) show ?thesis by blast
qed

lemma chunk_walk:
  assumes "ready im off m" "SCRATCH_OFF \<le> length im" "code_at im off u" "chunk_ok ch" "resolved d ch u"
    and "off + chunk_len ch \<le> lim" "lim \<le> CODE_LIMIT" "code_size u = chunk_len ch" "even off" "even d" "d < 2048"
  shows "\<exists>n m'. n \<le> 6 \<and> walks put im lim n m m' \<and> (ready im (off + chunk_len ch) m' \<or> (\<forall>v. ch \<noteq> Plain v) \<and> ready im (off + d) m')"
proof -
  obtain c b where m: "m = (c, b)" by (cases m)
  have lt: "off < lim" using assms(6) chunk_sizes [OF assms(4)] by simp
  have br: ?thesis if "u = [i]" "branches d i" "\<forall>v. ch \<noteq> Plain v" for i
  proof -
    note t = that
    have "isize i = chunk_len ch" using assms(8) t by simp
    then obtain m' where "step B put m = (Inr (), m')" "ready im (off + d) m' \<or> ready im (off + chunk_len ch) m'"
      using step_branch [OF assms(1) [unfolded m] assms(2) _ _ t(2), of "[]" put] assms(3,6,7) t(1) m by auto
    with walks_one [OF assms(1) lt] t(3) show ?thesis by (intro exI [of _ 1] exI [of _ m']) auto
  qed
  have jp: ?thesis if "u = [i]" "jumps d i" "\<forall>v. ch \<noteq> Plain v" for i
  proof -
    note t = that
    have "isize i = chunk_len ch" using assms(8) t by simp
    then obtain m' where "step B put m = (Inr (), m')" "ready im (off + d) m'"
      using step_jal [OF assms(1) [unfolded m] assms(2) _ _ t(2), of "[]" put] assms(3,6,7) t(1) m by auto
    with walks_one [OF assms(1) lt] t(3) show ?thesis by (intro exI [of _ 1] exI [of _ m']) auto
  qed
  have jr: ?thesis if "u = v @ [i]" "target_code rt d v" "jumps_to rt i" "1 \<le> rt" "rt < 32" "\<forall>v. ch \<noteq> Plain v" for v i rt
  proof -
    have "code_size v = 8" using target_code_cases [OF that(2)] by auto
    then have sz: "8 + isize i = chunk_len ch" using assms(8) that(1) by simp
    have "isize i \<noteq> 0" using that(3) decoded_size [of i] by (auto simp: jumps_to_def)
    with target_walk [OF assms(1,2) assms(3) [unfolded that(1)] that(2-5) _ _ assms(7) _ assms(11), of put] sz assms(6,9,10) that(6)
    show ?thesis by (auto intro!: exI [of _ 3])
  qed
  show ?thesis
  proof (cases ch)
    case (Plain v)
    with plain_walk [OF assms(1-3) _ _ assms(7), of put] assms(4-6,8) show ?thesis by auto
  next
    case (Branch f3 a a' n) then show ?thesis using br assms(5) by auto
  next
    case (Jal r n) then show ?thesis using jp assms(5) by auto
  next
    case (Jalr rt r n) then show ?thesis using jr assms(4,5) by auto
  next
    case (CBranch ne a n) then show ?thesis using br assms(5) by auto
  next
    case (CJ n) then show ?thesis using jp assms(5) by auto
  next
    case (CJr rt l n) then show ?thesis using jr assms(4,5) by auto
  qed
qed

end

end
