(* ===== verification/Sandbox_Runs.thy ===== *)
theory Sandbox_Runs
  imports Sandbox_Chunks
begin

text \<open>
  A generated program, once in memory, runs from its entry through the prologue and the chunks to
  the stop marker: no step of it traps, and what lies below the scratch page is what the image has.
\<close>

section \<open>Where the chunks are\<close>

lemma resolves_nth:
  "resolves offs i cs us \<Longrightarrow> length us = length cs \<and> (\<forall>k < length cs.
     resolved (displacement offs (i + k) (skip_of (cs ! k))) (cs ! k) (us ! k) \<and> code_size (us ! k) = chunk_len (cs ! k))"
proof (induction cs arbitrary: i us)
  case (Cons c cs)
  then obtain u vs where u: "us = u # vs" "resolved (displacement offs i (skip_of c)) c u" "code_size u = chunk_len c" "resolves offs (i + 1) cs vs"
    by auto
  have "resolved (displacement offs (i + k) (skip_of ((c # cs) ! k))) ((c # cs) ! k) (us ! k) \<and> code_size (us ! k) = chunk_len ((c # cs) ! k)"
    if "k < length (c # cs)" for k
    using Cons.IH [OF u(4)] u that by (cases k) auto
  with Cons.IH [OF u(4)] u(1) show ?case by simp
qed simp

text \<open>The offset of the \<open>i\<close>th chunk; the stop marker comes after the last.\<close>

definition chunk_off :: "chunk list \<Rightarrow> nat \<Rightarrow> nat" where
  "chunk_off cs i = BODY_OFF + sum_list (map chunk_len (take i cs))"

lemma nth_offs: "i \<le> length cs \<Longrightarrow> chunk_offs BODY_OFF (cs @ [stop_marker]) ! i = chunk_off cs i"
  by (simp add: nth_chunk_offs chunk_off_def)

lemma last_offs: "last (chunk_offs BODY_OFF (cs @ [stop_marker])) = chunk_off cs (length cs)"
proof -
  have "chunk_offs BODY_OFF (cs @ [stop_marker]) \<noteq> []" by (metis length_chunk_offs length_0_conv append_is_Nil_conv list.distinct(1))
  then show ?thesis using nth_offs [of "length cs" cs] by (simp add: last_conv_nth)
qed

lemma chunk_off_step:
  assumes "i < length cs"
  shows "chunk_off cs i + chunk_len (cs ! i) = chunk_off cs (i + 1)"
    and "chunk_off cs i + displacement (chunk_offs BODY_OFF (cs @ [stop_marker])) i skip = chunk_off cs (min (i + skip) (length cs))"
proof -
  show "chunk_off cs i + chunk_len (cs ! i) = chunk_off cs (i + 1)" using assms by (simp add: chunk_off_def take_Suc_conv_app_nth)
  have "take (min (i + skip) (length cs)) cs = take i cs @ take skip (drop i cs)" by (simp add: take_add min_def)
  then show "chunk_off cs i + displacement (chunk_offs BODY_OFF (cs @ [stop_marker])) i skip = chunk_off cs (min (i + skip) (length cs))"
    unfolding displacement_eq [OF assms refl] by (simp add: chunk_off_def)
qed

lemma chunk_off_mono: "i \<le> j \<Longrightarrow> chunk_off cs i \<le> chunk_off cs j"
proof -
  assume "i \<le> j"
  then have "take j cs = take i cs @ take (j - i) (drop i cs)" by (metis take_add le_add_diff_inverse)
  then show ?thesis by (simp add: chunk_off_def)
qed

lemma chunk_off_even: "list_all chunk_ok cs \<Longrightarrow> even (chunk_off cs i)"
  using chunks_span(1) [of "take i cs"] by (auto simp: chunk_off_def list_all_iff dest: in_set_takeD)

lemma code_at_chunk:
  assumes "resolves offs 0 cs us" "code_at im BODY_OFF (concat us @ v)" "i < length cs"
  shows "code_at im (chunk_off cs i) (us ! i)"
proof -
  have n: "length us = length cs" "\<And>k. k < length cs \<Longrightarrow> code_size (us ! k) = chunk_len (cs ! k)" using resolves_nth [OF assms(1)] by auto
  have sz: "code_size (concat (take k us)) = sum_list (map chunk_len (take k cs))" if "k \<le> length cs" for k
    using that by (induction k) (simp_all add: take_Suc_conv_app_nth n)
  have "concat us = concat (take i us) @ us ! i @ concat (drop (i + 1) us)"
    using assms(3) n(1) id_take_nth_drop [of i us] by (metis concat.simps(2) concat_append Suc_eq_plus1)
  with assms(2) have "code_at im (BODY_OFF + code_size (concat (take i us))) (us ! i)" by (simp add: code_at_append)
  then show ?thesis using sz [of i] assms(3) by (simp add: chunk_off_def)
qed

section \<open>The body\<close>

context working_store
begin

lemma body_walk:
  assumes "made_of cs us p" "i \<le> length cs" "ready (p_image p) (chunk_off cs i) m"
  shows "\<exists>n m'. n \<le> 6 * (length cs - i) \<and> walks put (p_image p) (chunk_off cs (length cs)) n m m' \<and>
    ready (p_image p) (chunk_off cs (length cs)) m'"
  using assms(2,3)
proof (induction "length cs - i" arbitrary: i m rule: less_induct)
  case less
  show ?case
  proof (cases "i = length cs")
    case True
    with less.prems(2) show ?thesis by (intro exI [of _ 0] exI [of _ m]) simp
  next
    case False
    with less.prems(1) have i: "i < length cs" by simp
    let ?offs = "chunk_offs BODY_OFF (cs @ [stop_marker])" and ?lim = "chunk_off cs (length cs)" and ?im = "p_image p"
    have made: "list_all chunk_ok cs" "resolves ?offs 0 cs us" "length ?im = MEMSZ" "?lim \<le> CODE_LIMIT"
      "code_at ?im BODY_OFF (concat us @ [ins_w ECALL ''ecall  # stop marker''])"
      using assms(1) by (simp_all add: made_of_def Let_def chunk_off_def)
    let ?c = "cs ! i" and ?d = "displacement ?offs i (skip_of (cs ! i))"
    have ok: "chunk_ok ?c" using made(1) i by (simp add: list_all_length)
    have u: "resolved ?d ?c (us ! i)" "code_size (us ! i) = chunk_len ?c" using resolves_nth [OF made(2)] i by auto
    note d = displacement_bounds [OF i refl made(1), where skip = "skip_of ?c" and off = BODY_OFF]
    note next1 = chunk_off_step(1) [OF i] and next2 = chunk_off_step(2) [OF i, of "skip_of ?c"]
    have lim: "chunk_off cs i + chunk_len ?c \<le> ?lim" unfolding next1 using i by (intro chunk_off_mono) simp
    have scr: "SCRATCH_OFF \<le> length ?im" using made(3) by simp
    have d': "even ?d" "?d < 2048" using d skip_of [OF ok] by simp_all
    obtain n m1 where w: "n \<le> 6" "walks put ?im ?lim n m m1" and r: "ready ?im (chunk_off cs i + chunk_len ?c) m1 \<or> ready ?im (chunk_off cs i + ?d) m1"
      using chunk_walk [OF less.prems(2) scr code_at_chunk [OF made(2,5) i] ok u(1) lim made(4) u(2) chunk_off_even [OF made(1)] d'] by blast
    obtain j where j: "i < j" "j \<le> length cs" "ready ?im (chunk_off cs j) m1"
    proof -
      have "i < min (i + skip_of ?c) (length cs)" using i skip_of [OF ok] by auto
      with r i that [of "i + 1"] that [of "min (i + skip_of ?c) (length cs)"] show thesis unfolding next1 next2 by auto
    qed
    obtain k m' where k: "k \<le> 6 * (length cs - j)" "walks put ?im ?lim k m1 m'" "ready ?im ?lim m'"
      using less.hyps [OF diff_less_mono2 [OF j(1) i] j(2,3)] by blast
    have "n + k \<le> 6 * (length cs - i)" using w(1) k(1) j by linarith
    with walks_trans [OF w(2) k(2)] k(3) show ?thesis by blast
  qed
qed

section \<open>The prologue\<close>

lemma step_csrw:
  assumes "ready im off (c, b)" "SCRATCH_OFF \<le> length im" "code_at im off (ins_w (gen_i_type 0x73 1 0 5 0x305) t # v)" "off + 4 \<le> CODE_LIMIT"
  shows "\<exists>c' b'. step B put (c, b) = (Inr (), (c', b')) \<and> ready im (off + 4) (c', b')"
proof -
  let ?w = "0x30529073 :: u32"
  have w: "gen_i_type 0x73 1 0 5 0x305 = ?w" by (simp add: gen_i_type_def)
  have f: "opcode ?w = 0x73" "funct3 ?w = 1" "rd ?w = 0" "drop_bit 20 ?w = 0x305" "rs1 ?w = 5" by code_simp+
  have dec: "decoded (ins_w (gen_i_type 0x73 1 0 5 0x305) t) = Some ?w" unfolding w by (rule decoded_w) simp
  have "\<exists>c1. execute B put ?w (fetched i c, b') = (Inr True, (c1, b')) \<and> same_but 0 (fetched i c) c1" for i and b' :: "('a, 'b) bus"
    using assms(1) by (simp add: execute_base rv64i_execute_def f exec_csr_def Let_def sm_bind_def sm_get_def get_reg_def csr_writes_def csr_new_def
        finish_def on_cpu_def sm_modify_def sm_return_def set_reg_def write_csr_def same_but_def ready_def csr_level_def)
  then have e: "\<exists>c1 b1. execute B put ?w (fetched i c, b') = (Inr True, (c1, b1)) \<and> same_but 0 (fetched i c) c1 \<and> safe im b1 \<and> True"
    if "safe im b'" for i and b' :: "('a, 'b) bus" using that by blast
  have le: "off + isize (ins_w (gen_i_type 0x73 1 0 5 0x305) t) \<le> CODE_LIMIT" using assms(4) by simp
  obtain m where "step B put (c, b) = (Inr (), m)" "ready im (off + 4) m"
    using step_same [OF assms(1-3) dec le, where P = "\<lambda>_. True" and d = 0, OF e] by auto
  then show ?thesis by (cases m) auto
qed

lemma step_table_load:
  assumes "ready im off (c, b)" "SCRATCH_OFF \<le> length im" "code_at im off (prologue_load n # v)" "off + 4 \<le> CODE_LIMIT"
    and "1 \<le> n" "n < 32" and "regs c 31 = RAM_BASE + of_nat TABLE_OFF"
  shows "\<exists>c' b'. step B put (c, b) = (Inr (), (c', b')) \<and> ready im (off + 4) (c', b') \<and> (n < 31 \<longrightarrow> regs c' 31 = regs c 31)"
proof -
  let ?q = "8 * (n - 1)"
  let ?w = "gen_i_type 0x03 3 n 31 (of_nat ?q)"
  obtain t where i: "prologue_load n = ins_w ?w t" by (simp add: prologue_load_def Let_def)
  have mw: "mem_word ?w 31 ?q 8"
    unfolding gen_types by (rule mem_load) (use assms(6) in \<open>simp_all add: load_kind_def\<close>)
  have o: "fits 7 (0x03 :: u32)" by (simp add: fits_def)
  have r31: "fits 5 (of_nat 31 :: u32)" by (rule fits_reg) simp
  have F: "rd ?w = of_nat n" "opcode ?w = 0x03" "funct3 ?w = 3"
    unfolding gen_types i_type_fields [OF r31 fits_3(4) fits_reg [OF assms(6)] o] by (simp_all only: ucast_reg)
  have fields: "rs1 ?w = 31" "imm_i ?w = of_nat ?q" "map_option fst (load_kind (funct3 ?w)) = Some 8"
    using mw F(2) by (auto simp: mem_word_def simp del: of_nat_mult)
  have dec: "decoded (prologue_load n) = Some ?w" unfolding i by (rule decoded_w [OF low_words(2) [OF mw]])
  have a: "regs c 31 + of_nat ?q = RAM_BASE + of_nat (TABLE_OFF + ?q)" unfolding assms(7) by simp
  have lt: "TABLE_OFF + ?q < RAM_BYTES" "(TABLE_OFF + ?q) mod PAGE + 8 \<le> PAGE"
    using assms(5,6) by (simp_all add: mod_if)
  have page: "in_page (RAM_BASE + of_nat (TABLE_OFF + ?q)) 8"
    using code_address [OF lt(1)] lt assms(6) by (simp add: in_page_def del: of_nat_add)
  have M: "priv_mode (fetched (prologue_load n) c) = M" using assms(1) by (simp add: ready_def)
  have e: "\<exists>c1 b1. execute B put ?w (fetched (prologue_load n) c, b') = (Inr True, (c1, b1)) \<and>
      same_but (of_nat n) (fetched (prologue_load n) c) c1 \<and> safe im b1 \<and> True" if S: "safe im b'" for b' :: "('a, 'b) bus"
  proof -
    obtain x b1 where "execute B put ?w (fetched (prologue_load n) c, b') = (Inr True, (set_reg (rd ?w) x (fetched (prologue_load n) c), b1))" "safe im b1"
      using execute_load [OF F(2) fields(3) M S, of put] fields(1,2) a page by (auto simp: reg_def valid_size_def simp del: of_nat_add of_nat_mult)
    with F(1) show ?thesis by auto
  qed
  have le: "off + isize (prologue_load n) \<le> CODE_LIMIT" using assms(4) i by simp
  obtain m where m: "step B put (c, b) = (Inr (), m)" "ready im (off + 4) m" "\<forall>q. q \<noteq> of_nat n \<longrightarrow> regs (fst m) q = regs c q"
    using step_same [OF assms(1-3) dec le, where P = "\<lambda>_. True" and d = "of_nat n", OF e] i by auto
  have "(31 :: regno) \<noteq> of_nat n" if "n < 31" using reg_inject [of 31 n] that by auto
  with m show ?thesis by (cases m) auto
qed

lemma loads_walk:
  assumes "SCRATCH_OFF \<le> length im" "lim \<le> CODE_LIMIT"
  shows "1 \<le> n \<Longrightarrow> n \<le> 32 \<Longrightarrow> ready im off (c, b) \<Longrightarrow> n < 32 \<longrightarrow> regs c 31 = RAM_BASE + of_nat TABLE_OFF \<Longrightarrow>
    code_at im off (map prologue_load [n..<32]) \<Longrightarrow> off + 4 * (32 - n) \<le> lim \<Longrightarrow>
    \<exists>m'. walks put im lim (32 - n) (c, b) m' \<and> ready im (off + 4 * (32 - n)) m'"
proof (induction "32 - n" arbitrary: n off c b)
  case 0
  then show ?case by simp
next
  case (Suc k)
  then have n: "n < 32" "k = 32 - Suc n" by simp_all
  have code: "code_at im off (prologue_load n # map prologue_load [Suc n..<32])" using Suc.prems(5) n(1) by (simp add: upt_conv_Cons)
  have sz: "isize (prologue_load n) = 4" by (simp add: prologue_load_def Let_def)
  have le: "off + 4 \<le> CODE_LIMIT" "off < lim" using Suc.prems(6) assms(2) n(1) by simp_all
  have r31: "regs c 31 = RAM_BASE + of_nat TABLE_OFF" using Suc.prems(4) n(1) by simp
  obtain c1 b1 where s: "step B put (c, b) = (Inr (), (c1, b1))" "ready im (off + 4) (c1, b1)" "n < 31 \<longrightarrow> regs c1 31 = regs c 31"
    using step_table_load [OF Suc.prems(3) assms(1) code le(1) Suc.prems(1) n(1) r31] by blast
  have tbl: "Suc n < 32 \<longrightarrow> regs c1 31 = RAM_BASE + of_nat TABLE_OFF" using s(3) r31 by simp
  have "code_at im (off + 4) (map prologue_load [Suc n..<32])" using code sz by simp
  moreover have "off + 4 + 4 * (32 - Suc n) \<le> lim" using Suc.prems(6) n(1) by simp
  ultimately obtain m' where m': "walks put im lim (32 - Suc n) (c1, b1) m'" "ready im (off + 4 + 4 * (32 - Suc n)) m'"
    using Suc.hyps(1) [OF n(2) _ _ s(2) tbl] n(1) by auto
  have e: "32 - n = 1 + (32 - Suc n)" "off + 4 + 4 * (32 - Suc n) = off + 4 * (32 - n)" using n(1) by simp_all
  show ?case using walks_trans [OF walks_one [OF Suc.prems(3) le(2) s(1)] m'(1)] m'(2) e by metis
qed

lemma prologue_walk:
  assumes "ready im ENTRY_OFF m" "SCRATCH_OFF \<le> length im" "code_at im ENTRY_OFF prologue_code" "BODY_OFF \<le> lim" "lim \<le> CODE_LIMIT"
  shows "\<exists>m'. walks put im lim 36 m m' \<and> ready im BODY_OFF m'"
proof -
  obtain c b where m: "m = (c, b)" by (cases m)
  obtain t1 t2 t3 t4 t5 where P: "prologue_code = ins_w (gen_u_type 0x17 5 0) t1 # ins_w (gen_i_type 0x13 0 5 5 (- of_nat ENTRY_OFF)) t2 #
      ins_w (gen_i_type 0x73 1 0 5 0x305) t3 # ins_w (gen_u_type 0x17 31 1) t4 # ins_w (gen_i_type 0x13 0 31 31 180) t5 # map prologue_load [1..<32]"
    by (simp add: prologue_code_def prologue_head_def del: upt_Suc map_upt_Suc)
  note code = assms(3) [unfolded P]
  note code1 = code_next [OF code]
  note code2 = code_next [OF code1]
  note code3 = code_next [OF code2]
  note code4 = code_next [OF code3]
  note code5 = code_next [OF code4]
  have lims: "ENTRY_OFF + 4 \<le> CODE_LIMIT" "ENTRY_OFF + 4 + 4 \<le> CODE_LIMIT" "ENTRY_OFF + 4 + 4 + 4 \<le> CODE_LIMIT"
    "ENTRY_OFF + 4 + 4 + 4 + 4 \<le> CODE_LIMIT" "ENTRY_OFF + 4 + 4 + 4 + 4 + 4 \<le> CODE_LIMIT" by simp_all
  have r: "(1 :: nat) \<le> 5" "(5 :: nat) < 32" "(1 :: nat) \<le> 31" "(31 :: nat) < 32" by simp_all
  obtain c1 b1 where s1: "step B put (c, b) = (Inr (), (c1, b1))" "ready im (ENTRY_OFF + 4) (c1, b1)"
    using step_auipc [OF assms(1) [unfolded m] assms(2) code lims(1) r(1,2)] by blast
  obtain c2 b2 where s2: "step B put (c1, b1) = (Inr (), (c2, b2))" "ready im (ENTRY_OFF + 4 + 4) (c2, b2)"
    using step_op_imm [OF s1(2) assms(2) code1 lims(2) r(1,2,2) fits_3(1) op_imm_cases(2) [OF r(2,2)]] by blast
  obtain c3 b3 where s3: "step B put (c2, b2) = (Inr (), (c3, b3))" "ready im (ENTRY_OFF + 4 + 4 + 4) (c3, b3)"
    using step_csrw [OF s2(2) assms(2) code2 lims(3)] by blast
  obtain c4 b4 where s4: "step B put (c3, b3) = (Inr (), (c4, b4))" "ready im (ENTRY_OFF + 4 + 4 + 4 + 4) (c4, b4)"
    "regs c4 = (regs c3)(of_nat 31 := RAM_BASE + of_nat (ENTRY_OFF + 4 + 4 + 4) + sext32 (push_bit 12 (1 AND 0xFFFFF)))"
    using step_auipc [OF s3(2) assms(2) code3 lims(4) r(3,4)] by blast
  obtain c5 b5 where s5: "step B put (c4, b4) = (Inr (), (c5, b5))" "ready im (ENTRY_OFF + 4 + 4 + 4 + 4 + 4) (c5, b5)"
    "regs c5 = (regs c4)(of_nat 31 := regs c4 (of_nat 31) + signed_take_bit 11 (ucast (180 :: u32)))"
    using step_op_imm [OF s4(2) assms(2) code4 lims(5) r(3,4,4) fits_3(1) op_imm_cases(2) [OF r(4,4)]] by blast
  have "regs c5 31 = RAM_BASE + of_nat TABLE_OFF" using s4(3) s5(3) by (simp add: sext32_def)
  then obtain m' where w: "walks put im lim 31 (c5, b5) m'" "ready im BODY_OFF m'"
    using loads_walk [OF assms(2,5) _ _ s5(2) _ code5, of put] assms(4) by auto
  have lt: "ENTRY_OFF < lim" "ENTRY_OFF + 4 < lim" "ENTRY_OFF + 4 + 4 < lim" "ENTRY_OFF + 4 + 4 + 4 < lim" "ENTRY_OFF + 4 + 4 + 4 + 4 < lim"
    using assms(4) by simp_all
  note w5 = walks_trans [OF walks_one [OF s4(2) lt(5) s5(1)] w(1)]
  note w4 = walks_trans [OF walks_one [OF s3(2) lt(4) s4(1)] w5]
  note w3 = walks_trans [OF walks_one [OF s2(2) lt(3) s3(1)] w4]
  note w2 = walks_trans [OF walks_one [OF s1(2) lt(2) s2(1)] w3]
  note w1 = walks_trans [OF walks_one [OF assms(1) [unfolded m] lt(1) s1(1)] w2]
  have "1 + (1 + (1 + (1 + (1 + 31)))) = (36 :: nat)" by simp
  with w1 have "walks put im lim 36 m m'" unfolding m by metis
  with w(2) show ?thesis by blast
qed

end

end
