(* ===== verification/Object.thy ===== *)
theory Object
  imports Difftest
begin

text \<open>
  The object a program is wrapped in, read back: the loader and the symbol search of the host find
  in it the entry, the image at the base of RAM and the words of the test interface.
\<close>

section \<open>Fields that do not overlap\<close>

fun apart :: "nat \<Rightarrow> (nat \<times> u8 list) list \<Rightarrow> bool" where
  "apart lo [] \<longleftrightarrow> True"
| "apart lo ((a, bs) # ws) \<longleftrightarrow> lo \<le> a \<and> apart (a + length bs) ws"

definition inside :: "nat \<Rightarrow> (nat \<times> u8 list) list \<Rightarrow> bool" where
  "inside n ws \<longleftrightarrow> (\<forall>(a, bs) \<in> set ws. a + length bs \<le> n)"

lemma poke_Cons: "poke ((a, bs) # ws) f = poke ws (splice a bs f)"
  by (simp add: poke_def)

lemma poke_append: "poke (vs @ ws) f = poke ws (poke vs f)"
  by (simp add: poke_def)

lemma length_poke: "inside (length f) ws \<Longrightarrow> length (poke ws f) = length f"
proof (induction ws arbitrary: f)
  case (Cons w ws)
  obtain a bs where w: "w = (a, bs)" by (cases w)
  with Cons show ?case by (simp add: poke_Cons inside_def length_splice)
qed (simp add: poke_def)

lemma poke_outside:
  "inside (length f) ws \<Longrightarrow> k < length f \<Longrightarrow> (\<forall>(a, bs) \<in> set ws. k < a \<or> a + length bs \<le> k) \<Longrightarrow> poke ws f ! k = f ! k"
proof (induction ws arbitrary: f)
  case (Cons w ws)
  obtain a bs where w: "w = (a, bs)" by (cases w)
  have fit: "a + length bs \<le> length f" using Cons.prems(1) w by (simp add: inside_def)
  have "poke ws (splice a bs f) ! k = splice a bs f ! k"
    using Cons.IH [of "splice a bs f"] Cons.prems w fit by (simp add: inside_def length_splice)
  also have "\<dots> = f ! k" using nth_splice [OF fit Cons.prems(2)] Cons.prems(3) w by auto
  finally show ?case by (simp add: w poke_Cons)
qed (simp add: poke_def)

lemma apart_mono: "apart lo ws \<Longrightarrow> lo' \<le> lo \<Longrightarrow> apart lo' ws"
  by (cases "(lo, ws)" rule: apart.cases) auto

lemma apart_below: "apart lo ws \<Longrightarrow> (a, bs) \<in> set ws \<Longrightarrow> lo \<le> a"
proof (induction ws arbitrary: lo)
  case (Cons w ws)
  then show ?case by (cases w) fastforce
qed simp

lemma slice_poke: "apart lo ws \<Longrightarrow> inside (length f) ws \<Longrightarrow> (a, bs) \<in> set ws \<Longrightarrow> slice a (length bs) (poke ws f) = bs"
proof (induction ws arbitrary: lo f)
  case (Cons w ws)
  obtain c cs where w: "w = (c, cs)" by (cases w)
  have fit: "c + length cs \<le> length f" and rest: "inside (length (splice c cs f)) ws"
    using Cons.prems(2) w by (simp_all add: inside_def length_splice)
  show ?case
  proof (cases "(a, bs) \<in> set ws")
    case True
    with Cons.IH [of "c + length cs" "splice c cs f"] Cons.prems(1) rest w show ?thesis by (simp add: poke_Cons)
  next
    case False
    then have e: "a = c" "bs = cs" using Cons.prems(3) w by auto
    have len: "length (poke ws (splice c cs f)) = length f" using length_poke [OF rest] length_splice [OF fit] by simp
    show ?thesis
      unfolding w poke_Cons e
    proof (rule nth_equalityI)
      show "length (slice c (length cs) (poke ws (splice c cs f))) = length cs" using fit len by (simp add: length_slice)
      fix i
      assume "i < length (slice c (length cs) (poke ws (splice c cs f)))"
      then have i: "i < length cs" using fit len by (simp add: length_slice)
      have "poke ws (splice c cs f) ! (c + i) = splice c cs f ! (c + i)"
        using Cons.prems(1) w i fit length_splice [OF fit] apart_below [of "c + length cs" ws]
        by (intro poke_outside rest) fastforce+
      then show "slice c (length cs) (poke ws (splice c cs f)) ! i = cs ! i"
        using i fit len nth_splice [OF fit, of "c + i"] by (simp add: nth_slice)
    qed
  qed
qed simp

section \<open>The object of a program\<close>

text \<open>The fields of both headers, and what follows the image: it does not depend on the program.\<close>

definition header_fields :: "(nat \<times> u8 list) list" where
  "header_fields = ehdr_fields 0x4080 @ phdr_fields MEMSZ"

definition object_tail :: "u8 list" where
  "object_tail =
     replicate 24 0 @ sym_entry 1 (BASE + of_nat TOHOST_OFF) @ sym_entry 8 (BASE + of_nat FROMHOST_OFF) @ STRTAB @ SHSTR @
     replicate 6 0 @ section_headers MEMSZ 0x4000 0x4048 0x4059"

lemma ascii_length [simp]: "length (ascii s) = length s"
  by (simp add: ascii_def)

lemma string_tables: "length STRTAB = 17" "length SHSTR = 33" "length (sym_entry n v) = 24"
  by (simp_all add: STRTAB_def SHSTR_def sym_entry_def)

lemma build_eq:
  assumes "length (p_image p) = MEMSZ"
  shows "build p = Inr (poke header_fields (replicate SEG_OFF 0 @ p_image p @ object_tail))"
  using assms string_tables
  by (simp add: build_def Let_def pad_to_8_def header_fields_def poke_append object_tail_def)

lemma header_fields_ok: "apart 0 header_fields" "inside SEG_OFF header_fields" "\<forall>(a, bs) \<in> set header_fields. a + length bs \<le> 120"
  by (simp_all add: header_fields_def ehdr_fields_def phdr_fields_def inside_def ELF_MAGIC_def)

lemma field_at:
  assumes "slice a n b = bs" "a + n \<le> length b" "a + n < 2 ^ 64" "n \<le> 8"
  shows "get_words (of_nat a) (of_nat a + of_nat n) b = Some bs"
proof -
  have u: "unat (of_nat a :: u64) = a" "unat (of_nat a + of_nat n :: u64) = a + n"
    using assms(3) by (simp_all add: unat_of_nat flip: of_nat_add)
  then have "(of_nat a :: u64) \<le> of_nat a + of_nat n" by (simp add: word_le_nat_alt)
  with u assms(1,2) show ?thesis by (simp add: get_words_def)
qed

lemma words_at:
  "slice a 2 b = to_le 2 (x :: u16) \<Longrightarrow> a + 2 \<le> length b \<Longrightarrow> a + 2 < 2 ^ 64 \<Longrightarrow> u16_at b (of_nat a) = Some x"
  "slice a 4 b = to_le 4 (y :: u32) \<Longrightarrow> a + 4 \<le> length b \<Longrightarrow> a + 4 < 2 ^ 64 \<Longrightarrow> u32_at b (of_nat a) = Some y"
  "slice a 8 b = to_le 8 (z :: u64) \<Longrightarrow> a + 8 \<le> length b \<Longrightarrow> a + 8 < 2 ^ 64 \<Longrightarrow> u64_at b (of_nat a) = Some z"
  using field_at [of a 2 b] field_at [of a 4 b] field_at [of a 8 b]
  by (simp_all add: u16_at_def u32_at_def u64_at_def del: to_le.simps)

section \<open>Reading the object back\<close>

definition object_of :: "prog \<Rightarrow> u8 list" where
  "object_of p = poke header_fields (replicate SEG_OFF 0 @ p_image p @ object_tail)"

definition object_header :: elf_header where
  "object_header =
     \<lparr>entry = BASE + of_nat ENTRY_OFF, phoff = 64, phentsize = 56, phnum = 1, shoff = 0x4080, shentsize = 64, shnum = 5\<rparr>"

lemma length_tail: "length object_tail = 0x1C0"
  by (simp add: object_tail_def string_tables section_headers_def shdr_def)

lemma length_object: "length (p_image p) = MEMSZ \<Longrightarrow> length (object_of p) = 0x41C0"
proof -
  assume img: "length (p_image p) = MEMSZ"
  have "inside (length (replicate SEG_OFF 0 @ p_image p @ object_tail)) header_fields"
    using header_fields_ok(2) img length_tail by (auto simp: inside_def)
  from length_poke [OF this] show ?thesis using img length_tail by (simp add: object_of_def)
qed

lemma object_field: "length (p_image p) = MEMSZ \<Longrightarrow> (a, bs) \<in> set header_fields \<Longrightarrow> slice a (length bs) (object_of p) = bs"
  unfolding object_of_def
  by (rule slice_poke [OF header_fields_ok(1)]) (use header_fields_ok(2) length_tail in \<open>auto simp: inside_def\<close>)

lemma object_body:
  assumes "length (p_image p) = MEMSZ" and "SEG_OFF \<le> k" "k < 0x41C0"
  shows "object_of p ! k = (p_image p @ object_tail) ! (k - SEG_OFF)"
proof -
  let ?f = "replicate SEG_OFF 0 @ p_image p @ object_tail"
  have "object_of p ! k = ?f ! k"
    unfolding object_of_def
    by (rule poke_outside) (use header_fields_ok(2,3) length_tail assms in \<open>auto simp: inside_def\<close>)
  then show ?thesis using assms(2) by (simp add: nth_append)
qed

lemma object_image: "length (p_image p) = MEMSZ \<Longrightarrow> slice SEG_OFF MEMSZ (object_of p) = p_image p"
  by (rule nth_equalityI) (simp_all add: length_slice nth_slice length_object object_body nth_append)

lemma object_tail_slice: "length (p_image p) = MEMSZ \<Longrightarrow> k + n \<le> 0x1C0 \<Longrightarrow> slice (0x4000 + k) n (object_of p) = slice k n object_tail"
  by (rule nth_equalityI) (simp_all add: length_slice nth_slice length_object object_body nth_append length_tail)

lemma object_fields:
  assumes "length (p_image p) = MEMSZ"
  shows "slice 0 4 (object_of p) = ELF_MAGIC" "slice 4 1 (object_of p) = [2]" "slice 5 1 (object_of p) = [1]"
    "slice 18 2 (object_of p) = to_le 2 EM_RISCV" "slice 24 8 (object_of p) = to_le 8 (BASE + of_nat ENTRY_OFF)"
    "slice 32 8 (object_of p) = to_le 8 (64 :: u64)" "slice 40 8 (object_of p) = to_le 8 (0x4080 :: u64)"
    "slice 54 2 (object_of p) = to_le 2 (56 :: u16)" "slice 56 2 (object_of p) = to_le 2 (1 :: u16)"
    "slice 58 2 (object_of p) = to_le 2 (64 :: u16)" "slice 60 2 (object_of p) = to_le 2 (5 :: u16)"
    "slice 64 4 (object_of p) = to_le 4 PT_LOAD" "slice 72 8 (object_of p) = to_le 8 (0x1000 :: u64)"
    "slice 88 8 (object_of p) = to_le 8 BASE" "slice 96 8 (object_of p) = to_le 8 (0x3000 :: u64)"
    "slice 104 8 (object_of p) = to_le 8 (0x3000 :: u64)"
proof -
  note F = object_field [OF assms]
  have m: "length ELF_MAGIC = 4" by (simp add: ELF_MAGIC_def)
  show "slice 0 4 (object_of p) = ELF_MAGIC" "slice 4 1 (object_of p) = [2]" "slice 5 1 (object_of p) = [1]"
    "slice 18 2 (object_of p) = to_le 2 EM_RISCV" "slice 24 8 (object_of p) = to_le 8 (BASE + of_nat ENTRY_OFF)"
    "slice 32 8 (object_of p) = to_le 8 (64 :: u64)" "slice 40 8 (object_of p) = to_le 8 (0x4080 :: u64)"
    "slice 54 2 (object_of p) = to_le 2 (56 :: u16)" "slice 56 2 (object_of p) = to_le 2 (1 :: u16)"
    "slice 58 2 (object_of p) = to_le 2 (64 :: u16)" "slice 60 2 (object_of p) = to_le 2 (5 :: u16)"
    using F [of 0 ELF_MAGIC] F [of 4 "[2]"] F [of 5 "[1]"] F [of 18 "to_le 2 EM_RISCV"] F [of 24 "to_le 8 (BASE + of_nat ENTRY_OFF)"]
      F [of 32 "to_le 8 (of_nat EHDR_LEN :: u64)"] F [of 40 "to_le 8 (of_nat 0x4080 :: u64)"] F [of 54 "to_le 2 (of_nat PHDR_LEN :: u16)"]
      F [of 56 "to_le 2 (1 :: u16)"] F [of 58 "to_le 2 (of_nat SHDR_LEN :: u16)"] F [of 60 "to_le 2 (5 :: u16)"] m
    by (simp_all add: header_fields_def ehdr_fields_def del: to_le.simps)
  show "slice 64 4 (object_of p) = to_le 4 PT_LOAD" "slice 72 8 (object_of p) = to_le 8 (0x1000 :: u64)"
    "slice 88 8 (object_of p) = to_le 8 BASE" "slice 96 8 (object_of p) = to_le 8 (0x3000 :: u64)"
    "slice 104 8 (object_of p) = to_le 8 (0x3000 :: u64)"
    using F [of 64 "to_le 4 PT_LOAD"] F [of 72 "to_le 8 (of_nat SEG_OFF :: u64)"] F [of 88 "to_le 8 BASE"]
      F [of 96 "to_le 8 (of_nat MEMSZ :: u64)"] F [of 104 "to_le 8 (of_nat MEMSZ :: u64)"]
    by (simp_all add: header_fields_def phdr_fields_def del: to_le.simps)
qed

lemma object_words:
  assumes "length (p_image p) = MEMSZ"
  shows "u16_at (object_of p) 18 = Some EM_RISCV" "u64_at (object_of p) 24 = Some (BASE + of_nat ENTRY_OFF)"
    "u64_at (object_of p) 32 = Some 64" "u64_at (object_of p) 40 = Some 0x4080" "u16_at (object_of p) 54 = Some 56"
    "u16_at (object_of p) 56 = Some 1" "u16_at (object_of p) 58 = Some 64" "u16_at (object_of p) 60 = Some 5"
    "u32_at (object_of p) 64 = Some PT_LOAD" "u64_at (object_of p) 72 = Some 0x1000" "u64_at (object_of p) 88 = Some BASE"
    "u64_at (object_of p) 96 = Some 0x3000" "u64_at (object_of p) 104 = Some 0x3000"
  using object_fields(4,8-11) [OF assms, THEN words_at(1)] object_fields(12) [OF assms, THEN words_at(2)]
    object_fields(5-7,13-16) [OF assms, THEN words_at(3)]
  by (simp_all add: length_object [OF assms] del: to_le.simps)

lemma header_object:
  assumes "length (p_image p) = MEMSZ"
  shows "header (object_of p) = Inr object_header"
proof -
  note l = length_object [OF assms]
  have "take 4 (object_of p) = ELF_MAGIC" using object_fields(1) [OF assms] by (simp add: slice_def)
  moreover have "object_of p ! 4 = 2" "object_of p ! 5 = 1"
    using nth_slice [of 4 1 "object_of p" 0] nth_slice [of 5 1 "object_of p" 0] object_fields(2,3) [OF assms] l by simp_all
  ultimately show ?thesis
    using l object_words [OF assms] by (simp add: header_def or_truncated_def object_header_def)
qed

lemma phdr_object:
  assumes "length (p_image p) = MEMSZ"
  shows "load_phdr (object_of p) (phdr_base object_header 0) = Inr (Some (BASE, p_image p, 0x3000))"
proof -
  have "get_words 0x1000 (0x1000 + 0x3000) (object_of p) = Some (p_image p)"
    using object_image [OF assms] length_object [OF assms] by (simp add: get_words_def)
  then show ?thesis
    using object_words [OF assms] by (simp add: load_phdr_def phdr_base_def object_header_def or_truncated_def)
qed

section \<open>The words of the test interface\<close>

text \<open>Section headers and symbols, read in the tail.\<close>

lemma tail_words:
  assumes "length (p_image p) = MEMSZ" "k + 8 \<le> 0x1C0"
  shows "slice k 4 object_tail = to_le 4 x \<Longrightarrow> u32_at (object_of p) (of_nat (0x4000 + k)) = Some x"
    and "slice k 8 object_tail = to_le 8 y \<Longrightarrow> u64_at (object_of p) (of_nat (0x4000 + k)) = Some y"
  using words_at(2) [of "0x4000 + k" "object_of p" x] words_at(3) [of "0x4000 + k" "object_of p" y]
    object_tail_slice [OF assms(1), of k 4] object_tail_slice [OF assms(1), of k 8] length_object [OF assms(1)] assms(2) by simp_all

lemma tail_types: "slice 132 4 object_tail = to_le 4 (0 :: u32)" "slice 196 4 object_tail = to_le 4 (1 :: u32)"
    "slice 260 4 object_tail = to_le 4 (2 :: u32)"
  by (simp_all add: object_tail_def section_headers_def shdr_def sym_entry_def slice_def string_tables [unfolded sym_entry_def] del: to_le.simps)

lemma tail_symtab: "slice 280 8 object_tail = to_le 8 (0x4000 :: u64)" "slice 288 8 object_tail = to_le 8 (72 :: u64)"
    "slice 312 8 object_tail = to_le 8 (24 :: u64)" "slice 296 4 object_tail = to_le 4 (3 :: u32)"
    "slice 344 8 object_tail = to_le 8 (0x4048 :: u64)" "slice 352 8 object_tail = to_le 8 (17 :: u64)" "slice 72 17 object_tail = STRTAB"
  by (simp_all add: object_tail_def section_headers_def shdr_def sym_entry_def slice_def string_tables [unfolded sym_entry_def] del: to_le.simps)

lemma tail_symbols: "slice 0 4 object_tail = to_le 4 (0 :: u32)" "slice 24 4 object_tail = to_le 4 (1 :: u32)"
    "slice 48 4 object_tail = to_le 4 (8 :: u32)" "slice 32 8 object_tail = to_le 8 (BASE + of_nat TOHOST_OFF)"
    "slice 56 8 object_tail = to_le 8 (BASE + of_nat FROMHOST_OFF)"
  by (simp_all add: object_tail_def section_headers_def shdr_def sym_entry_def slice_def string_tables [unfolded sym_entry_def] del: to_le.simps)
    (simp add: eval_nat_numeral)

lemma object_sections:
  assumes "length (p_image p) = MEMSZ"
  shows "u32_at (object_of p) 0x4084 = Some 0" "u32_at (object_of p) 0x40C4 = Some 1" "u32_at (object_of p) 0x4104 = Some 2"
    "u64_at (object_of p) 0x4118 = Some 0x4000" "u64_at (object_of p) 0x4120 = Some 72" "u64_at (object_of p) 0x4138 = Some 24"
    "u32_at (object_of p) 0x4128 = Some 3" "u64_at (object_of p) 0x4158 = Some 0x4048" "u64_at (object_of p) 0x4160 = Some 17"
    "u32_at (object_of p) 0x4000 = Some 0" "u32_at (object_of p) 0x4018 = Some 1" "u32_at (object_of p) 0x4030 = Some 8"
    "u64_at (object_of p) 0x4020 = Some (BASE + of_nat TOHOST_OFF)" "u64_at (object_of p) 0x4038 = Some (BASE + of_nat FROMHOST_OFF)"
  using tail_words(1) [OF assms _ tail_types(1)] tail_words(1) [OF assms _ tail_types(2)] tail_words(1) [OF assms _ tail_types(3)]
    tail_words(2) [OF assms _ tail_symtab(1)] tail_words(2) [OF assms _ tail_symtab(2)] tail_words(2) [OF assms _ tail_symtab(3)]
    tail_words(1) [OF assms _ tail_symtab(4)] tail_words(2) [OF assms _ tail_symtab(5)] tail_words(2) [OF assms _ tail_symtab(6)]
    tail_words(1) [OF assms _ tail_symbols(1)] tail_words(1) [OF assms _ tail_symbols(2)] tail_words(1) [OF assms _ tail_symbols(3)]
    tail_words(2) [OF assms _ tail_symbols(4)] tail_words(2) [OF assms _ tail_symbols(5)]
  by simp_all

lemma object_strings:
  assumes "length (p_image p) = MEMSZ"
  shows "get_words 0x4048 (0x4048 + 17) (object_of p) = Some STRTAB"
  using object_tail_slice [OF assms, of 72 17] tail_symtab(7) length_object [OF assms] by (simp add: get_words_def)

lemma symbols_object:
  assumes "length (p_image p) = MEMSZ"
  shows "find_symbol (object_of p) (ascii ''tohost'') = Some (BASE + of_nat TOHOST_OFF)"
    and "find_symbol (object_of p) (ascii ''fromhost'') = Some (BASE + of_nat FROMHOST_OFF)"
proof -
  note S = object_sections [OF assms] and T = object_strings [OF assms]
  have five: "[0..<5] = [0, 1, 2, 3, 4 :: nat]" "[0..<3] = [0, 1, 2 :: nat]" by (simp_all add: upt_rec)
  have st: "length STRTAB = 17" by (simp add: string_tables)
  have names: "takeWhile (\<lambda>c. c \<noteq> 0) (drop 0 STRTAB) = []" "takeWhile (\<lambda>c. c \<noteq> 0) (drop 1 STRTAB) = ascii ''tohost''"
    "takeWhile (\<lambda>c. c \<noteq> 0) (drop 8 STRTAB) = ascii ''fromhost''" "ascii ''tohost'' \<noteq> []" "ascii ''fromhost'' \<noteq> []"
    "ascii ''tohost'' \<noteq> ascii ''fromhost''"
    by (simp_all add: STRTAB_def ascii_def)
  show "find_symbol (object_of p) (ascii ''tohost'') = Some (BASE + of_nat TOHOST_OFF)"
    "find_symbol (object_of p) (ascii ''fromhost'') = Some (BASE + of_nat FROMHOST_OFF)"
    using S T st names
    by (simp_all add: find_symbol_def header_object [OF assms] object_header_def five section_search_def or_return_def Let_def)
qed

end
