(* ===== verification/Difftest_Runs.thy ===== *)
theory Difftest_Runs
  imports Sandbox_Runs Object Elf_Props
begin

text \<open>
  The run of the differential test: for every seed the object is loaded, the program runs to its
  marker without a trap, and no access has left the scratch page.
\<close>

section \<open>Loading\<close>

context working_store
begin

lemma load_object:
  assumes "holds V (cache b)" "length (p_image p) = MEMSZ"
  shows "\<exists>b'. elf_load B put (object_of p) b = (Inr (BASE + of_nat ENTRY_OFF), b') \<and> safe (p_image p) b'"
proof -
  have pad: "padded (p_image p) 0x3000 = p_image p" using assms(2) by (simp add: padded_def)
  have ram: "RAM_BASE \<le> BASE" "ram_off BASE + length (p_image p) \<le> RAM_BYTES" using assms(2) by (simp_all add: ram_off_def)
  obtain b' where w: "write_blob B put BASE (p_image p) b = (Inr (), b')" using write_blob_works [OF assms(1) ram] by blast
  from write_blob_ok [OF assms(1) ram(1) w] obtain V' where V': "holds V' (cache b')" "wrote V (ram_off BASE) (p_image p) V'" by auto
  have "sandboxed (p_image p) V'" using V'(2) assms(2) by (auto simp: sandboxed_def wrote_def ram_off_def)
  with V'(1) have s: "safe (p_image p) b'" by (rule safeI)
  have "write_segment B put BASE (p_image p) 0x3000 b = (Inr (), b')"
    using write_segment_is_blob [of "p_image p" B put BASE "0x3000"] w assms(2) by (simp add: pad sm_map_err_def)
  then have "elf_load B put (object_of p) b = (Inr (BASE + of_nat ENTRY_OFF), b')"
    using header_object [OF assms(2)] phdr_object [OF assms(2)]
    by (simp add: elf_load_def sm_bind_def sm_result_def object_header_def load_segment_def sm_return_def)
  with s show ?thesis by blast
qed

end

section \<open>The comparison with the image\<close>

lemma check_escape_ok:
  "full.safe (p_image p) b \<Longrightarrow> length (p_image p) = MEMSZ \<Longrightarrow> \<forall>a \<in> set as. 8 dvd a \<and> a + 8 \<le> SCRATCH_OFF \<Longrightarrow>
    \<exists>b'. check_escape p as b = (Inr (), b')"
proof (induction as arbitrary: b)
  case (Cons a as)
  obtain V where V: "full.holds V (cache b)" "sandboxed (p_image p) V" using Cons.prems(1) by (auto simp: full.safe_def)
  have a: "8 dvd a" "a + 8 \<le> SCRATCH_OFF" using Cons.prems(3) by auto
  have lt: "a < RAM_BYTES" using a(2) by simp
  have "a mod PAGE + 8 \<le> PAGE"
  proof -
    have "8 dvd a mod PAGE" using a(1) by (simp add: dvd_mod)
    then obtain k where "a mod PAGE = 8 * k" by blast
    moreover have "a mod PAGE < PAGE" by simp
    ultimately show ?thesis by simp
  qed
  then have page: "in_page (BASE + of_nat a) 8" using code_address [OF lt] a(2) by (simp add: in_page_def)
  have v: "valid_size 8" by (simp add: valid_size_def)
  have fb: "flat_bytes V a 8 = slice a 8 (p_image p)" using sandboxed_bytes [OF V(2) a(2)] Cons.prems(2) by simp
  obtain b1 where l: "bus_load fake_ops (BASE + of_nat a) 8 b = (Inr (from_le (slice a 8 (p_image p))), b1)" "full.holds V (cache b1)"
    using full.bus_load_works [OF V(1) page v] code_address(1) [OF lt] fb by auto
  have "full.safe (p_image p) b1" by (rule full.safeI [OF l(2) V(2)])
  then obtain b' where "check_escape p as b1 = (Inr (), b')" using Cons.IH Cons.prems(2,3) by auto
  with l(1) a(2) Cons.prems(2) show ?case by (auto simp: sm_bind_def sm_map_err_def Let_def)
qed (simp add: sm_return_def)

section \<open>The loop\<close>

lemma diff_loop_walks:
  assumes "ecall_pc p = BASE + of_nat lim" "lim \<le> CODE_LIMIT"
  shows "full.walks vec_put im lim n m m' \<Longrightarrow>
    \<exists>started' states'. (started \<longrightarrow> started') \<and> diff_loop (n + k) p started states m = diff_loop k p started' states' m'"
proof (induction n arbitrary: started states m)
  case (Suc n)
  then obtain off m1 where s: "full.ready im off m" "off < lim" "step fake_ops vec_put m = (Inr (), m1)" "full.walks vec_put im lim n m1 m'" by auto
  have "pc (fst m) \<noteq> ecall_pc p"
  proof -
    have "unat (BASE + of_nat off) \<noteq> unat (BASE + of_nat lim)" using unat_page_aligned [of off] unat_page_aligned [of lim] s(2) assms(2) by simp
    then show ?thesis using s(1) assms(1) by (auto simp: full.ready_def)
  qed
  then have "\<exists>st' ss'. (started \<longrightarrow> st') \<and> diff_loop (Suc n + k) p started states m = diff_loop (n + k) p st' ss' m1"
    using s(3) by (simp add: Let_def) blast
  with Suc.IH [OF s(4)] show ?case by metis
qed auto

lemma diff_loop_body: "pc (fst m) = body_start p \<Longrightarrow> diff_loop (Suc k) p started states m = diff_loop (Suc k) p True states m"
  by (simp only: diff_loop.simps Let_def simp_thms)

lemma diff_loop_ends:
  assumes "full.ready (p_image p) lim m" "ecall_pc p = BASE + of_nat lim" "length (p_image p) = MEMSZ"
  shows "\<exists>states'. diff_loop (Suc k) p True states m = Inr states' \<and> states' \<noteq> [] \<and> st_pc (last states') = ecall_pc p"
proof -
  have s: "full.safe (p_image p) (snd m)" using assms(1) by (simp add: full.ready_def)
  obtain b' where c: "check_escape p (map (\<lambda>k. 8 * k) [0..<SCRATCH_OFF div 8]) (snd m) = (Inr (), b')"
    using check_escape_ok [OF s assms(3), of "map (\<lambda>k. 8 * k) [0..<SCRATCH_OFF div 8]"] by auto
  have "pc (fst m) = ecall_pc p" using assms(1,2) by (simp add: full.ready_def)
  with c show ?thesis by (simp add: Let_def)
qed

lemma made_program_runs:
  assumes "made_of cs us p"
  shows "\<exists>states. run_ours p = Inr states \<and> states \<noteq> [] \<and> st_pc (last states) = ecall_pc p"
proof -
  let ?im = "p_image p" and ?lim = "chunk_off cs (length cs)"
  have made: "length ?im = MEMSZ" "code_at ?im ENTRY_OFF prologue_code" "body_start p = BASE + of_nat BODY_OFF"
    "ecall_pc p = BASE + of_nat ?lim" "?lim \<le> CODE_LIMIT" "BODY_OFF \<le> ?lim" "length cs \<le> CHUNKS"
    using assms by (simp_all add: made_of_def Let_def last_offs) (simp_all add: chunk_off_def)
  have scr: "SCRATCH_OFF \<le> length ?im" using made(1) by simp
  obtain c where c: "cache_new (fake_new (of_nat (unat RAM_SIZE div PAGE))) 64 = Inr c" "cache_inv fake_contents full_store c"
  proof -
    obtain c where c: "cache_new (fake_new 8192) 64 = Inr c" by (simp add: cache_new_def)
    have "cache_inv fake_contents full_store c" using cache_inv_new [where binv = full_store and contents = fake_contents, OF c full_store_new] ..
    with c that show thesis by simp
  qed
  have H: "full.holds (page_view fake_contents c) (cache (bus_new c []))" using c(2) by (simp add: full.holds_def bus_new_def)
  obtain b where l: "elf_load fake_ops vec_put (object_of p) (bus_new c []) = (Inr (BASE + of_nat ENTRY_OFF), b)" "full.safe ?im b"
    using full.load_object [OF H made(1)] by blast
  let ?m = "(cpu_new (BASE + of_nat ENTRY_OFF), b)"
  have r: "full.ready ?im ENTRY_OFF ?m" using l(2) by (simp add: full.ready_def cpu_new_def)
  obtain m1 where w1: "full.walks vec_put ?im ?lim 36 ?m m1" "full.ready ?im BODY_OFF m1"
    using full.prologue_walk [OF r scr made(2) made(6,5)] by blast
  have r1: "full.ready ?im (chunk_off cs 0) m1" using w1(2) by (simp add: chunk_off_def)
  obtain n m2 where w2: "n \<le> 6 * length cs" "full.walks vec_put ?im ?lim n m1 m2" "full.ready ?im ?lim m2"
    using full.body_walk [OF assms _ r1, of vec_put] by auto
  have n: "DIFF_MAX_STEPS = 36 + (n + Suc (DIFF_MAX_STEPS - 36 - n - 1))" using w2(1) made(7) by simp
  let ?k = "DIFF_MAX_STEPS - 36 - n - 1"
  have run: "run_ours p = diff_loop DIFF_MAX_STEPS p False [] ?m"
    using c(1) l(1) build_eq [OF made(1)] by (simp add: run_ours_def object_of_def)
  obtain st ss where d1: "diff_loop (36 + (n + Suc ?k)) p False [] ?m = diff_loop (n + Suc ?k) p st ss m1"
    using diff_loop_walks [OF made(4,5) w1(1)] by blast
  have pc1: "pc (fst m1) = body_start p" using w1(2) made(3) by (simp add: full.ready_def)
  have d2: "diff_loop (n + Suc ?k) p st ss m1 = diff_loop (n + Suc ?k) p True ss m1" using diff_loop_body [OF pc1, of "n + ?k"] by simp
  obtain ss' where d3: "diff_loop (n + Suc ?k) p True ss m1 = diff_loop (Suc ?k) p True ss' m2"
    using diff_loop_walks [OF made(4,5) w2(2), of True "Suc ?k" ss] by auto
  obtain states where "diff_loop (Suc ?k) p True ss' m2 = Inr states" "states \<noteq> []" "st_pc (last states) = ecall_pc p" using diff_loop_ends [OF w2(3) made(4,1)] by blast
  with run d1 d2 d3 n show ?thesis by metis
qed

text \<open>Property C4 (no_generated_program_traps): for every seed the generator returns a program, and the
  run of the emulator over it ends at its stop marker: the object is loaded, no instruction traps,
  the marker is reached within the bound on steps and is where the trace ends, and the memory below
  the scratch page is still what the image has, whatever the random registers and memory operands
  were.\<close>

theorem no_generated_program_traps:
  "\<exists>p states. program seed = Some (Inr p) \<and> p_seed p = seed \<and> run_ours p = Inr states \<and>
     states \<noteq> [] \<and> st_pc (last states) = ecall_pc p"
  using program_made [of seed] made_program_runs by blast

section \<open>The comparison of traces\<close>

lemma first_difference_None: "first_difference i as bs = None \<longleftrightarrow> (\<forall>k < min (length as) (length bs). as ! k = bs ! k)"
proof (induction i as bs rule: first_difference.induct)
  case (1 i a as b bs)
  have "(\<forall>k < Suc n. P k) \<longleftrightarrow> P 0 \<and> (\<forall>k < n. P (Suc k))" for P and n :: nat by (auto simp: less_Suc_eq_0_disj)
  then show ?case using 1 by (simp add: min_Suc_Suc)
qed simp_all

lemma describe_divergence_None: "describe_divergence p ours theirs = None \<longleftrightarrow> ours = theirs"
proof (cases "first_difference 0 ours theirs")
  case None
  then have "\<forall>k < min (length ours) (length theirs). ours ! k = theirs ! k" by (simp only: first_difference_None)
  then have "length ours = length theirs \<longrightarrow> ours = theirs" by (simp add: list_eq_iff_nth_eq)
  with None show ?thesis by (auto simp: describe_divergence_def)
next
  case (Some d)
  with first_difference_None [of 0 ours theirs] have "ours \<noteq> theirs" by auto
  with Some show ?thesis by (cases d) (simp add: describe_divergence_def)
qed

lemma spike_trace_cases:
  assumes "length (p_image p) = MEMSZ"
  shows "spike_trace K p \<noteq> Inl Panic"
  using build_eq [OF assms] by (auto simp: spike_trace_def split: sum.split)

definition agrees :: "spike_ops \<Rightarrow> u64 \<Rightarrow> bool" where
  "agrees K s \<longleftrightarrow> (\<exists>p states. program s = Some (Inr p) \<and> run_ours p = Inr states \<and> spike_trace K p = Inr states)"

lemma check_seed_agrees:
  assumes "program s = Some (Inr p)"
  shows "\<exists>line. check_seed K s p = Inr (line, \<not> agrees K s)"
proof -
  obtain q cs us where q: "program s = Some (Inr q)" "made_of cs us q" using program_made by blast
  then have made: "made_of cs us p" using assms by simp
  then have len: "length (p_image p) = MEMSZ" by (simp add: made_of_def Let_def)
  obtain ours where ours: "run_ours p = Inr ours" using made_program_runs [OF made] by blast
  have a: "agrees K s \<longleftrightarrow> spike_trace K p = Inr ours" using assms ours by (auto simp: agrees_def)
  show ?thesis
  proof (cases "spike_trace K p")
    case (Inl e)
    with spike_trace_cases [OF len] obtain m where "e = Err m" by (cases e) auto
    with Inl a ours show ?thesis by (simp add: check_seed_def Let_def)
  next
    case (Inr theirs)
    with a ours describe_divergence_None [of p ours theirs] show ?thesis
      by (cases "describe_divergence p ours theirs") (auto simp: check_seed_def Let_def)
  qed
qed

definition disagreements :: "spike_ops \<Rightarrow> u64 list \<Rightarrow> nat" where
  "disagreements K ss = length (filter (\<lambda>s. \<not> agrees K s) ss)"

lemma check_seeds_counts:
  "\<exists>lines. check_seeds K dump ss printed failures = Some (Inr (Checked lines (failures + of_nat (disagreements K ss))))"
proof (induction ss arbitrary: printed failures)
  case (Cons s ss)
  obtain p where p: "program s = Some (Inr p)" using program_made by blast
  obtain line where line: "check_seed K s p = Inr (line, \<not> agrees K s)" using check_seed_agrees [OF p] by blast
  let ?printed = "printed @ (if dump then dump_lines s p else []) @ [line]"
  have step: "check_seeds K dump (s # ss) printed failures = check_seeds K dump ss ?printed (if agrees K s then failures else failures + 1)"
    by (simp add: p line)
  from Cons.IH [of ?printed "if agrees K s then failures else failures + 1"] show ?case
    unfolding step by (cases "agrees K s") (simp_all add: disagreements_def ac_simps)
qed (simp add: disagreements_def)

lemma small_count:
  assumes "n < 2 ^ 31"
  shows "sint (of_nat n :: u32) = int n" and "(of_nat n :: u32) = 0 \<longleftrightarrow> n = 0"
proof -
  have l: "int n < 2147483648" "n < 2147483648" using assms by simp_all
  have "sint (of_nat n :: u32) = signed_take_bit (32 - Suc 0) (int n)" by (subst Word.signed_of_nat) simp
  also have "\<dots> = int n" using l(1) by (subst signed_take_bit_int_eq_self_iff) simp
  finally show "sint (of_nat n :: u32) = int n" .
  have "n < 2 ^ LENGTH(32)" using l(2) by simp
  then have u: "unat (of_nat n :: u32) = n" by (simp add: unsigned_of_nat take_bit_nat_eq_self)
  show "(of_nat n :: u32) = 0 \<longleftrightarrow> n = 0"
  proof
    assume "(of_nat n :: u32) = 0"
    with u show "n = 0" by simp
  qed simp
qed

text \<open>Property C36 (difftest_counts_disagreements): over any seeds the differential test ends without a panic,
  whatever the reference simulator says. Its count of failures is the number of seeds for which the
  simulator gives no trace or one that is not ours, state for state, in the 32 bits the program
  counts in; below \<open>2 ^ 31\<close> disagreements the signed count is that number, and the program exits
  with success exactly when there was no disagreement.\<close>

theorem difftest_counts_disagreements:
  "\<exists>lines failures. check_seeds K dump ss [] 0 = Some (Inr (Checked lines failures)) \<and>
     failures = of_nat (disagreements K ss) \<and>
     (disagreements K ss < 2 ^ 31 \<longrightarrow>
        sint failures = int (disagreements K ss) \<and>
        (exits_well (Checked lines failures) \<longleftrightarrow> (\<forall>s \<in> set ss. agrees K s)))"
proof -
  obtain lines where "check_seeds K dump ss [] 0 = Some (Inr (Checked lines (of_nat (disagreements K ss))))"
    using check_seeds_counts [of K dump ss "[]" 0] by auto
  moreover have "disagreements K ss = 0 \<longleftrightarrow> (\<forall>s \<in> set ss. agrees K s)" by (auto simp: disagreements_def filter_empty_conv)
  ultimately show ?thesis using small_count [of "disagreements K ss"] by (auto simp: exits_well_def)
qed

text \<open>A simulator that logs nothing disagrees on every seed.\<close>

definition mute_spike :: spike_ops where
  "mute_spike = \<lparr>spike_log = (\<lambda>_ _. Inl ''no log''), kept = (\<lambda>_. []), available = True\<rparr>"

lemma mute_spike_disagrees: "\<not> agrees mute_spike s"
  by (auto simp: agrees_def mute_spike_def spike_trace_def split: sum.splits)

lemma difftest_counts_disagreements_witness:
  "\<exists>lines failures. check_seeds mute_spike True [7, 8, 9] [] 0 = Some (Inr (Checked lines failures)) \<and>
     sint failures = 3 \<and> \<not> exits_well (Checked lines failures)"
proof -
  have "disagreements mute_spike [7, 8, 9] = 3" by (simp add: disagreements_def mute_spike_disagrees)
  then show ?thesis using difftest_counts_disagreements [of mute_spike True "[7, 8, 9]"] mute_spike_disagrees by auto
qed

text \<open>Property C37 (object_reads_back): the object built from a program is one the host's loader understands:
  its entry, its only segment, which is the image at the base of RAM, and the two words of the test
  interface are found in it where the generator put them.\<close>

theorem object_reads_back:
  assumes "program seed = Some (Inr p)"
  shows "\<exists>bytes h. build p = Inr bytes \<and> header bytes = Inr h \<and> entry h = BASE + of_nat ENTRY_OFF \<and>
    elf_segments bytes h [0..<unat (phnum h)] = [(BASE, p_image p)] \<and>
    find_symbol bytes (ascii ''tohost'') = Some (BASE + of_nat TOHOST_OFF) \<and>
    find_symbol bytes (ascii ''fromhost'') = Some (BASE + of_nat FROMHOST_OFF)"
proof -
  have len: "length (p_image p) = MEMSZ" using program_made [of seed] assms by (auto simp: made_of_def Let_def)
  have "elf_segments (object_of p) object_header [0..<unat (phnum object_header)] = [(BASE, p_image p)]"
    using phdr_object [OF len] len by (simp add: elf_segments_def segment_of_def padded_def object_header_def)
  moreover have "entry object_header = BASE + of_nat ENTRY_OFF" by (simp add: object_header_def)
  ultimately show ?thesis using build_eq [OF len] header_object [OF len] symbols_object [OF len] by (auto simp: object_of_def)
qed

lemma object_reads_back_witness:
  "\<exists>p bytes h. program 7 = Some (Inr p) \<and> build p = Inr bytes \<and> header bytes = Inr h \<and>
    find_symbol bytes (ascii ''tohost'') = Some 0x80001000"
proof -
  obtain p where p: "program 7 = Some (Inr p)" using program_made by blast
  from object_reads_back [OF p] p show ?thesis by auto
qed

text \<open>Property C35 (generated_chunks_are_legal): from every state of the random numbers the generator draws a
  chunk, and a legal one: each instruction of a plain chunk is taken by the decoder and either
  computes or accesses memory through a base that the chunk itself points into the scratch page, a
  control transfer skips one to six chunks, and the chunk has between two and 24 bytes, an even
  number.\<close>

theorem generated_chunks_are_legal:
  "\<exists>c s'. gen_chunk s = Some (Inr c, s') \<and> chunk_ok c \<and> even (chunk_len c) \<and> 2 \<le> chunk_len c \<and> chunk_len c \<le> MAX_CHUNK"
proof -
  have "\<exists>c s'. gen_chunk s = Some (Inr c, s') \<and> chunk_ok c"
    using yieldsD [OF gen_chunk_always, of s] yieldsD [OF gen_chunk_stuck, of s] by (cases "s = 0") auto
  with chunk_sizes show ?thesis by blast
qed

text \<open>Property C38 (random_numbers_reach_every_state): the round of the random numbers is one cycle through
  all nonzero states, so that a loop that draws again until a value fits ends.\<close>

theorem random_numbers_reach_every_state:
  assumes "x \<noteq> 0" and "y \<noteq> 0"
  shows "\<exists>k < 2 ^ 64 - 1. (xorshift ^^ k) x = y"
  using orbit [OF assms] by (simp add: PERIOD_def)

lemma random_numbers_reach_every_state_witness: "\<exists>k < 2 ^ 64 - 1. (xorshift ^^ k) (rng_new 0) = 1"
  by (rule random_numbers_reach_every_state) (simp_all add: rng_new_def)

end
