(* ===== verification/Rawtty.thy ===== *)
theory Rawtty
  imports Prelude
begin

text \<open>
  Putting a terminal into raw mode and back (\<open>rv64-host/src/rawtty.rs\<close>). The constants of the C
  library and its calls on a descriptor are the platform's: records of flags and of operations. The
  fallback for platforms without terminals is not modelled.
\<close>

type_synonym tcflag = "32 word"

record libc =
  IGNBRK :: tcflag
  BRKINT :: tcflag
  IGNPAR :: tcflag
  PARMRK :: tcflag
  INPCK :: tcflag
  ISTRIP :: tcflag
  INLCR :: tcflag
  IGNCR :: tcflag
  ICRNL :: tcflag
  IXON :: tcflag
  IXOFF :: tcflag
  IXANY :: tcflag
  IMAXBEL :: tcflag
  OPOST :: tcflag
  ONLCR :: tcflag
  OCRNL :: tcflag
  ONOCR :: tcflag
  ONLRET :: tcflag
  ECHO :: tcflag
  ECHOE :: tcflag
  ECHOK :: tcflag
  ECHONL :: tcflag
  ICANON :: tcflag
  ISIG :: tcflag
  IEXTEN :: tcflag
  PARENB :: tcflag
  CSIZE :: tcflag
  HUPCL :: tcflag
  CS8 :: tcflag
  CREAD :: tcflag
  CLOCAL :: tcflag

record termios =
  c_iflag :: tcflag
  c_oflag :: tcflag
  c_lflag :: tcflag
  c_cflag :: tcflag
  c_vmin :: u8
  c_vtime :: u8

text \<open>The calls on one descriptor: \<open>isatty\<close>, \<open>tcgetattr\<close>, \<open>tcsetattr\<close> with the error they leave.\<close>

record 't tty_ops =
  isatty :: "'t \<Rightarrow> bool"
  tcgetattr :: "'t \<Rightarrow> (string + termios) \<times> 't"
  tcsetattr :: "termios \<Rightarrow> 't \<Rightarrow> (string + unit) \<times> 't"

datatype raw = Port | Console

section \<open>The flags\<close>

definition IFLAGS_OFF :: "libc \<Rightarrow> tcflag list" where
  "IFLAGS_OFF L = [IGNBRK L, BRKINT L, IGNPAR L, PARMRK L, INPCK L, ISTRIP L, INLCR L, IGNCR L, ICRNL L, IXON L, IXOFF L,
     IXANY L, IMAXBEL L]"

definition OFLAGS_OFF :: "libc \<Rightarrow> tcflag list" where
  "OFLAGS_OFF L = [OPOST L, ONLCR L, OCRNL L, ONOCR L, ONLRET L]"

definition LFLAGS_OFF :: "libc \<Rightarrow> tcflag list" where
  "LFLAGS_OFF L = [ECHO L, ECHOE L, ECHOK L, ECHONL L, ICANON L, ISIG L, IEXTEN L]"

definition CFLAGS_OFF :: "libc \<Rightarrow> tcflag list" where
  "CFLAGS_OFF L = [PARENB L, CSIZE L, HUPCL L]"

definition CFLAGS_ON :: "libc \<Rightarrow> tcflag list" where
  "CFLAGS_ON L = [CS8 L, CREAD L, CLOCAL L]"

definition flag_mask :: "tcflag list \<Rightarrow> tcflag" where
  "flag_mask fs = foldl (\<lambda>acc f. acc OR f) 0 fs"

fun keep :: "libc \<Rightarrow> raw \<Rightarrow> tcflag \<times> tcflag" where
  "keep L Port = (0, 0)"
| "keep L Console = (ICRNL L, flag_mask (OFLAGS_OFF L))"

section \<open>Applying them\<close>

text \<open>The errors of \<open>apply\<close>: a call that failed, bits that stayed, bits that did not take.\<close>

datatype raw_error = Os_Error string | Bits_Stuck string tcflag | Bits_Missing

definition raw_attrs :: "libc \<Rightarrow> raw \<Rightarrow> termios \<Rightarrow> termios" where
  "raw_attrs L mode t =
     (case keep L mode of (ikeep, okeep) \<Rightarrow>
        t\<lparr>c_iflag := c_iflag t AND NOT (flag_mask (IFLAGS_OFF L) AND NOT ikeep),
          c_oflag := c_oflag t AND NOT (flag_mask (OFLAGS_OFF L) AND NOT okeep),
          c_lflag := c_lflag t AND NOT (flag_mask (LFLAGS_OFF L)),
          c_cflag := (c_cflag t AND NOT (flag_mask (CFLAGS_OFF L))) OR flag_mask (CFLAGS_ON L),
          c_vmin := 1, c_vtime := 0\<rparr>)"

text \<open>What must be clear in the attributes read back, by the name the error quotes.\<close>

definition stuck_bits :: "libc \<Rightarrow> raw \<Rightarrow> termios \<Rightarrow> (string \<times> tcflag) list" where
  "stuck_bits L mode t =
     (case keep L mode of (ikeep, okeep) \<Rightarrow>
        [(''iflag'', c_iflag t AND (flag_mask (IFLAGS_OFF L) AND NOT ikeep)),
         (''oflag'', c_oflag t AND (flag_mask (OFLAGS_OFF L) AND NOT okeep)),
         (''lflag'', c_lflag t AND flag_mask (LFLAGS_OFF L)),
         (''cflag'', c_cflag t AND (flag_mask (CFLAGS_OFF L) AND NOT (flag_mask (CFLAGS_ON L))))])"

definition raw_apply :: "libc \<Rightarrow> 't tty_ops \<Rightarrow> raw \<Rightarrow> 't \<Rightarrow> (raw_error + unit) \<times> 't" where
  "raw_apply L T mode d =
     (case tcgetattr T d of
        (Inl e, d) \<Rightarrow> (Inl (Os_Error e), d)
      | (Inr t, d) \<Rightarrow>
     (case tcsetattr T (raw_attrs L mode t) d of
        (Inl e, d) \<Rightarrow> (Inl (Os_Error e), d)
      | (Inr _, d) \<Rightarrow>
     (case tcgetattr T d of
        (Inl e, d) \<Rightarrow> (Inl (Os_Error e), d)
      | (Inr check, d) \<Rightarrow>
     (case List.find (\<lambda>(_, b). b \<noteq> 0) (stuck_bits L mode check) of
        Some (which, bits) \<Rightarrow> (Inl (Bits_Stuck which bits), d)
      | None \<Rightarrow>
          if c_cflag check AND flag_mask (CFLAGS_ON L) \<noteq> flag_mask (CFLAGS_ON L) then (Inl Bits_Missing, d)
          else (Inr (), d)))))"

definition make_raw :: "libc \<Rightarrow> 't tty_ops \<Rightarrow> 't \<Rightarrow> (raw_error + bool) \<times> 't" where
  "make_raw L T d =
     (if \<not> isatty T d then (Inr False, d)
      else case raw_apply L T Port d of (Inl e, d) \<Rightarrow> (Inl e, d) | (Inr _, d) \<Rightarrow> (Inr True, d))"

section \<open>Putting it back\<close>

record restore =
  saved :: termios
  done_restoring :: bool

text \<open>
  \<open>restore\<close> has two steps that another thread may come between: the flag is swapped, and whoever found
  it clear sets the attributes.
\<close>

definition swap_done :: "restore \<Rightarrow> bool \<times> restore" where
  "swap_done r = (done_restoring r, r\<lparr>done_restoring := True\<rparr>)"

definition set_saved :: "'t tty_ops \<Rightarrow> restore \<Rightarrow> 't \<Rightarrow> 't" where
  "set_saved T r d = snd (tcsetattr T (saved r) d)"

definition do_restore :: "'t tty_ops \<Rightarrow> restore \<times> 't \<Rightarrow> restore \<times> 't" where
  "do_restore T s =
     (case s of (r, d) \<Rightarrow> case swap_done r of (was, r) \<Rightarrow> (r, if was then d else set_saved T r d))"

text \<open>When \<open>apply\<close> fails the guard is dropped, and so restores.\<close>

definition make_raw_console :: "libc \<Rightarrow> 't tty_ops \<Rightarrow> 't \<Rightarrow> (raw_error + restore option) \<times> 't" where
  "make_raw_console L T d =
     (if \<not> isatty T d then (Inr None, d)
      else case tcgetattr T d of
        (Inl e, d) \<Rightarrow> (Inl (Os_Error e), d)
      | (Inr t, d) \<Rightarrow>
          let r = \<lparr>saved = t, done_restoring = False\<rparr> in
          case raw_apply L T Console d of
            (Inl e, d) \<Rightarrow> (Inl e, snd (do_restore T (r, d)))
          | (Inr _, d) \<Rightarrow> (Inr (Some r), d))"

section \<open>What they leave\<close>

lemma flag_mask_from: "foldl (\<lambda>acc f. acc OR f) a fs = a OR flag_mask fs"
proof (induction fs arbitrary: a)
  case (Cons f fs)
  from Cons [of "a OR f"] Cons [of "0 OR f"] show ?case by (simp add: flag_mask_def or.assoc)
qed (simp add: flag_mask_def)

lemma flag_in_mask: "f \<in> set fs \<Longrightarrow> f AND flag_mask fs = f"
proof (induction fs)
  case (Cons g fs)
  have m: "flag_mask (g # fs) = g OR flag_mask fs" using flag_mask_from [of g fs] by (simp add: flag_mask_def)
  from Cons show ?case by (auto simp: m bit_eq_iff bit_simps)
qed simp

lemma masked_flag:
  assumes "f \<in> set fs" and "x AND flag_mask fs = 0"
  shows "x AND f = 0"
proof -
  have "x AND f = x AND (f AND flag_mask fs)" using flag_in_mask [OF assms(1)] by simp
  also have "\<dots> = (x AND flag_mask fs) AND f" by (simp only: ac_simps)
  finally show ?thesis using assms(2) by simp
qed

text \<open>
  A restored terminal is restored once: the second call, from the other thread or on drop, does
  nothing.
\<close>

lemma restore_once: "do_restore T (do_restore T s) = do_restore T s"
  by (cases s) (simp add: do_restore_def swap_done_def)

lemma raw_apply_clear:
  assumes "raw_apply L T mode d = (Inr (), d')"
  shows "\<exists>t d1. tcgetattr T d1 = (Inr t, d') \<and> (\<forall>x \<in> set (stuck_bits L mode t). snd x = 0) \<and>
    c_cflag t AND flag_mask (CFLAGS_ON L) = flag_mask (CFLAGS_ON L)"
  using assms by (auto simp: raw_apply_def find_None_iff split: prod.splits sum.splits option.splits if_splits)

text \<open>
  A port reported raw is raw: of the attributes it reads back, none of the flags that rewrite, echo or
  swallow a byte is set, on either way through the line discipline.
\<close>

lemma raw_port_is_clear:
  assumes "make_raw L T d = (Inr True, d')"
  shows "\<exists>t d1. tcgetattr T d1 = (Inr t, d') \<and>
    (\<forall>f \<in> set (IFLAGS_OFF L). c_iflag t AND f = 0) \<and> (\<forall>f \<in> set (OFLAGS_OFF L). c_oflag t AND f = 0) \<and>
    (\<forall>f \<in> set (LFLAGS_OFF L). c_lflag t AND f = 0)"
proof -
  obtain d1 t d2 where t: "tcgetattr T d2 = (Inr t, d')" "\<forall>x \<in> set (stuck_bits L Port t). snd x = 0"
    using assms raw_apply_clear [of L T Port d d'] by (auto simp: make_raw_def split: if_splits prod.splits sum.splits)
  then have "c_iflag t AND flag_mask (IFLAGS_OFF L) = 0" "c_oflag t AND flag_mask (OFLAGS_OFF L) = 0"
    "c_lflag t AND flag_mask (LFLAGS_OFF L) = 0"
    by (simp_all add: stuck_bits_def)
  with t(1) show ?thesis using masked_flag by blast
qed

end
