(* ===== verification/Command.thy ===== *)
theory Command
  imports Messages Boot Serve Rawtty
begin

text \<open>
  The command of the host (\<open>rv64-host/src/main.rs\<close>, \<open>stdout_sink.rs\<close>): flags, the boot mode, and
  what \<open>serve\<close> does before and after serving: the image is laid into the file, flushed and reopened,
  the port is configured, the outputs are chosen. What it prints is a list of notices that carry the
  values their texts quote. Files, descriptors and standard streams are the operating system's.
\<close>

section \<open>Flags\<close>

definition flag :: "string list \<Rightarrow> string \<Rightarrow> string option" where
  "flag args name =
     (case position (\<lambda>a. a = name) args of
        None \<Rightarrow> None | Some i \<Rightarrow> if i + 1 < length args then Some (args ! (i + 1)) else None)"

text \<open>The error is the name and the value its text quotes.\<close>

definition num_flag :: "string list \<Rightarrow> string \<Rightarrow> u64 \<Rightarrow> string \<times> string + u64" where
  "num_flag args name d =
     (case flag args name of
        None \<Rightarrow> Inr d
      | Some v \<Rightarrow> (case from_str_radix 10 (2 ^ 64) v of None \<Rightarrow> Inl (name, v) | Some n \<Rightarrow> Inr (of_nat n)))"

definition asks_help :: "string list \<Rightarrow> bool" where
  "asks_help args \<longleftrightarrow> (\<exists>a \<in> set args. a = ''--help'' \<or> a = ''-h'')"

abbreviation DEFAULT_FRAMES :: u64 where "DEFAULT_FRAMES \<equiv> 256"
abbreviation CDC_PACKET :: nat where "CDC_PACKET \<equiv> 512"

section \<open>What is printed\<close>

datatype notice =
    Usage
  | Serve_Usage
  | Flags_Missing
  | Serve_Flags_Missing
  | Bad_Number string string
  | Too_Few_Frames u64
  | Image_Unread string string string
  | Mem_Unopened string string
  | Footprint_Guessed string bool nat
  | Boot_Failed boot_error "string option"
  | Counters u64 u64 stats u64
  | Run_Failed string
  | Flush_Failed string error
  | Mem_Not_Reopened string string
  | Port_Unopened string string
  | Raw_Mode_Set string
  | Port_Not_A_Terminal string
  | Port_Not_Raw string raw_error
  | Port_Not_Cloned string string
  | Pacing nat u64
  | Console_Unopened string string
  | Console_To string bool
  | Stdin_Not_A_Terminal
  | Typing_Goes_To_Guest
  | Stdin_Not_Raw raw_error
  | Serving_Failed string string
  | Typed_Quit
  | Keyboard_Stopped string

datatype exit_code = Success | Failure

text \<open>
  What has been printed, the standard output as the console of the guest, and the standard input, a
  terminal perhaps.
\<close>

record ('s, 'i) cli =
  said :: "notice list"
  stdout :: 's
  stdin :: 'i

definition say :: "notice \<Rightarrow> (('s, 'i) cli, exit_code, unit) sm" where
  "say n = sm_modify (\<lambda>c. c\<lparr>said := said c @ [n]\<rparr>)"

definition give_up :: "notice \<Rightarrow> (('s, 'i) cli, exit_code, 'a) sm" where
  "give_up n = sm_bind (say n) (\<lambda>_. sm_err Failure)"

definition or_give_up :: "('e \<Rightarrow> notice) \<Rightarrow> 'e + 'a \<Rightarrow> (('s, 'i) cli, exit_code, 'a) sm" where
  "or_give_up f r = (case r of Inl e \<Rightarrow> give_up (f e) | Inr a \<Rightarrow> sm_return a)"

text \<open>\<open>StdoutSink::put\<close>: errors of the stream are ignored.\<close>

record 'w writer =
  write_all :: "u8 list \<Rightarrow> 'w \<Rightarrow> (string + unit) \<times> 'w"
  flush_writer :: "'w \<Rightarrow> (string + unit) \<times> 'w"

definition write_and_flush :: "'w writer \<Rightarrow> u8 \<Rightarrow> 'w \<Rightarrow> 'w" where
  "write_and_flush W b w = snd (flush_writer W (snd (write_all W [b] w)))"

section \<open>Files\<close>

record ('f, 'p, 'c) host_os =
  read_file :: "string \<Rightarrow> string + u8 list"
  create_file :: "string \<Rightarrow> string + 'f"
  set_len :: "nat \<Rightarrow> 'f \<Rightarrow> string + 'f"
  reopen :: "string \<Rightarrow> 'f \<Rightarrow> string + 'f"
  image_len :: "'f \<Rightarrow> nat"
  open_port :: "string \<Rightarrow> string + 'p"
  clone_port :: "'p \<Rightarrow> string + 'p"
  append_file :: "string \<Rightarrow> string + 'c"

text \<open>\<open>HostFile::new\<close>\<close>

definition hostfile_open :: "('f, 'p, 'c) host_os \<Rightarrow> string \<Rightarrow> u32 \<Rightarrow> string + 'f hostfile" where
  "hostfile_open E path count =
     (case create_file E path of
        Inl e \<Rightarrow> Inl e
      | Inr f \<Rightarrow> (case set_len E (unat count * PAGE) f of
          Inl e \<Rightarrow> Inl e | Inr f \<Rightarrow> Inr \<lparr>hfile = f, hf_pages = count\<rparr>))"

definition frames_flag :: "string list \<Rightarrow> (('s, 'i) cli, exit_code, u64) sm" where
  "frames_flag args =
     sm_bind (or_give_up (\<lambda>(n, v). Bad_Number n v) (num_flag args ''--frames'' DEFAULT_FRAMES)) (\<lambda>n.
     if n < 1 then give_up (Too_Few_Frames n) else sm_return n)"

definition read_image :: "('f, 'p, 'c) host_os \<Rightarrow> string \<Rightarrow> string \<Rightarrow> (('s, 'i) cli, exit_code, u8 list) sm" where
  "read_image E what path = or_give_up (Image_Unread what path) (read_file E path)"

definition read_initrd :: "('f, 'p, 'c) host_os \<Rightarrow> string option \<Rightarrow> (('s, 'i) cli, exit_code, u8 list option) sm" where
  "read_initrd E path =
     (case path of
        None \<Rightarrow> sm_return None
      | Some p \<Rightarrow> sm_bind (read_image E ''initrd'' p) (\<lambda>bytes. sm_return (Some bytes)))"

text \<open>\<open>HostFile::new\<close>, \<open>PageCache::new\<close> (which asserts its bounds) and \<open>Bus::new\<close>.\<close>

definition new_bus :: "('f, 'p, 'c) host_os \<Rightarrow> string \<Rightarrow> u64 \<Rightarrow> (('s, 'i) cli, exit_code, ('f hostfile, 's) bus) sm" where
  "new_bus E path n =
     sm_bind (or_give_up (Mem_Unopened path) (hostfile_open E path RAM_PAGE_COUNT)) (\<lambda>h.
     case cache_new h (unat n) of
       Inl _ \<Rightarrow> sm_panic
     | Inr c \<Rightarrow> sm_get (\<lambda>s. bus_new c (stdout s)))"

definition footprint_notice :: "string \<Rightarrow> u8 list \<Rightarrow> (('s, 'i) cli, exit_code, unit) sm" where
  "footprint_notice path kern =
     (if \<not> starts_with kern ELF_MAGIC \<and> riscv_image_footprint kern = None
      then say (Footprint_Guessed path (has_riscv_image_header kern) (length kern)) else sm_return ())"

text \<open>The file named with a failure to load.\<close>

fun failed_file :: "string \<Rightarrow> string \<Rightarrow> string option \<Rightarrow> boot_error \<Rightarrow> string option" where
  "failed_file kp dp ip (KernelErr _) = Some kp"
| "failed_file kp dp ip (DtbNotPatched _) = Some dp"
| "failed_file kp dp ip (DtbNotPlaced _) = Some dp"
| "failed_file kp dp ip (InitrdErr _) = Some (case ip of Some p \<Rightarrow> p | None \<Rightarrow> ''?'')"
| "failed_file kp dp ip (LayoutErr _) = None"

text \<open>A call on the bus, whose sink is the standard output.\<close>

definition on_bus ::
  "(('b, 's) bus, 'e, 'a) sm \<Rightarrow> ('e \<Rightarrow> notice) \<Rightarrow> ('b, 's) bus \<Rightarrow> (('s, 'i) cli, exit_code, 'a \<times> ('b, 's) bus) sm" where
  "on_bus m f b s =
     (case m b of (r, b') \<Rightarrow>
        let s = s\<lparr>stdout := sink (uart b')\<rparr> in
        case r of
          Inl Panic \<Rightarrow> (Inl Panic, s)
        | Inl (Err e) \<Rightarrow> give_up (f e) s
        | Inr a \<Rightarrow> (Inr (a, b'), s))"

definition load_images ::
  "'f file_ops \<Rightarrow> (u8 \<Rightarrow> 's \<Rightarrow> 's) \<Rightarrow> string \<Rightarrow> string \<Rightarrow> string option \<Rightarrow> u8 list \<Rightarrow> u8 list \<Rightarrow> u8 list option
    \<Rightarrow> ('f hostfile, 's) bus \<Rightarrow> (('s, 'i) cli, exit_code, (cpu \<times> boot_layout) \<times> ('f hostfile, 's) bus) sm" where
  "load_images F put kp dp ip kern tree ramdisk =
     on_bus (load_boot_images (hostfile_ops F) put kern tree ramdisk) (\<lambda>e. Boot_Failed e (failed_file kp dp ip e))"

section \<open>The boot mode\<close>

definition report_run ::
  "u64 \<Rightarrow> run_outcome \<Rightarrow> ('f hostfile, 's) machine \<Rightarrow> (('s, 'i) cli, exit_code, exit_code) sm" where
  "report_run n outcome m =
     sm_bind (say (Counters (executed outcome) n (cstats (cache (snd m))) (walks (mmu (fst m))))) (\<lambda>_.
     case diagnostic outcome of
       None \<Rightarrow> sm_return Success
     | Some msg \<Rightarrow> give_up (Run_Failed msg))"

definition run_machine ::
  "'f file_ops \<Rightarrow> (u8 \<Rightarrow> 's \<Rightarrow> 's) \<Rightarrow> u64 \<Rightarrow> u64 \<Rightarrow> ('f hostfile, 's) machine \<Rightarrow> (('s, 'i) cli, exit_code, exit_code) sm" where
  "run_machine F put n max_insns m s =
     (case run_until (hostfile_ops F) put max_insns m of
        (Inl _, m') \<Rightarrow> (Inl Panic, s\<lparr>stdout := sink (uart (snd m'))\<rparr>)
      | (Inr outcome, m') \<Rightarrow> report_run n outcome m' (s\<lparr>stdout := sink (uart (snd m'))\<rparr>))"

definition boot_main ::
  "('f, 'p, 'c) host_os \<Rightarrow> 'f file_ops \<Rightarrow> (u8 \<Rightarrow> 's \<Rightarrow> 's) \<Rightarrow> string list \<Rightarrow> (('s, 'i) cli, exit_code, exit_code) sm" where
  "boot_main E F put args =
     (if asks_help args then sm_bind (say Usage) (\<lambda>_. sm_return Success)
      else case (flag args ''--kernel'', flag args ''--dtb'', flag args ''--mem'') of
        (Some kp, Some dp, Some mp) \<Rightarrow>
          sm_bind (frames_flag args) (\<lambda>n.
          sm_bind (or_give_up (\<lambda>(n, v). Bad_Number n v) (num_flag args ''--max-insns'' (- 1))) (\<lambda>max_insns.
          sm_bind (read_image E ''kernel'' kp) (\<lambda>kern.
          sm_bind (read_image E ''dtb'' dp) (\<lambda>tree.
          sm_bind (read_initrd E (flag args ''--initrd'')) (\<lambda>ramdisk.
          sm_bind (new_bus E mp n) (\<lambda>b.
          sm_bind (footprint_notice kp kern) (\<lambda>_.
          sm_bind (load_images F put kp dp (flag args ''--initrd'') kern tree ramdisk b) (\<lambda>((h, _), b).
          run_machine F put n max_insns (h, b)))))))))
      | _ \<Rightarrow> sm_bind (say Flags_Missing) (\<lambda>_. give_up Usage))"

section \<open>Serving\<close>

text \<open>Every page the loader wrote goes to the file, which is then opened anew.\<close>

definition save_image ::
  "('f, 'p, 'c) host_os \<Rightarrow> 'f file_ops \<Rightarrow> string \<Rightarrow> ('f hostfile, 's) bus \<Rightarrow> (('s, 'i) cli, exit_code, 'f) sm" where
  "save_image E F mp b =
     (case cache_flush (hostfile_ops F) (cache b) of
        (Inl Panic, c) \<Rightarrow> sm_panic
      | (Inl (Err e), c) \<Rightarrow> give_up (Flush_Failed mp e)
      | (Inr _, c) \<Rightarrow> or_give_up (Mem_Not_Reopened mp) (reopen E mp (hfile (backing c))))"

text \<open>The load phase.\<close>

definition serve_load ::
  "('f, 'p, 'c) host_os \<Rightarrow> 'f file_ops \<Rightarrow> (u8 \<Rightarrow> 's \<Rightarrow> 's) \<Rightarrow> string list \<Rightarrow> string \<Rightarrow> string \<Rightarrow> string
    \<Rightarrow> (('s, 'i) cli, exit_code, 'f) sm" where
  "serve_load E F put args kp dp mp =
     sm_bind (frames_flag args) (\<lambda>n.
     sm_bind (read_image E ''kernel'' kp) (\<lambda>kern.
     sm_bind (read_image E ''dtb'' dp) (\<lambda>tree.
     sm_bind (read_initrd E (flag args ''--initrd'')) (\<lambda>ramdisk.
     sm_bind (new_bus E mp n) (\<lambda>b.
     sm_bind (load_images F put kp dp (flag args ''--initrd'') kern tree ramdisk b) (\<lambda>(_, b).
     save_image E F mp b))))))"

datatype 'c con_sink = To_Stdout | To_File 'c | To_Both 'c

text \<open>Everything the serving is started with.\<close>

record ('f, 'p, 'c) serving =
  image_file :: 'f
  port_tx :: 'p
  port_rx :: 'p
  reply_pace :: "pace option"
  con_to :: "'c con_sink"
  keyboard :: bool
  guard :: "restore option"

definition raw_port :: "libc \<Rightarrow> 'p tty_ops \<Rightarrow> string \<Rightarrow> 'p \<Rightarrow> (('s, 'i) cli, exit_code, 'p) sm" where
  "raw_port L T path p =
     (case make_raw L T p of
        (Inr True, p) \<Rightarrow> sm_bind (say (Raw_Mode_Set path)) (\<lambda>_. sm_return p)
      | (Inr False, p) \<Rightarrow> sm_bind (say (Port_Not_A_Terminal path)) (\<lambda>_. sm_return p)
      | (Inl e, p) \<Rightarrow> give_up (Port_Not_Raw path e))"

definition pace_flag :: "string list \<Rightarrow> (('s, 'i) cli, exit_code, pace option) sm" where
  "pace_flag args =
     (case flag args ''--pace-ms'' of
        None \<Rightarrow> sm_return None
      | Some v \<Rightarrow> (case from_str_radix 10 (2 ^ 64) v of
          None \<Rightarrow> give_up (Bad_Number ''--pace-ms'' v)
        | Some n \<Rightarrow> sm_bind (say (Pacing CDC_PACKET (of_nat n))) (\<lambda>_.
            sm_return (Some \<lparr>pace_chunk = CDC_PACKET, pace_gap = n\<rparr>))))"

definition choose_console ::
  "('f, 'p, 'c) host_os \<Rightarrow> string list \<Rightarrow> bool \<Rightarrow> (('s, 'i) cli, exit_code, 'c con_sink) sm" where
  "choose_console E args typed =
     (case flag args ''--console'' of
        None \<Rightarrow> sm_return To_Stdout
      | Some path \<Rightarrow>
          sm_bind (or_give_up (Console_Unopened path) (append_file E path)) (\<lambda>f.
          sm_bind (say (Console_To path typed)) (\<lambda>_.
          sm_return (if typed then To_Both f else To_File f))))"

definition raw_stdin :: "libc \<Rightarrow> 'i tty_ops \<Rightarrow> bool \<Rightarrow> (('s, 'i) cli, exit_code, restore option) sm" where
  "raw_stdin L TI typed s =
     (if \<not> typed then sm_return None s
      else case make_raw_console L TI (stdin s) of (r, i) \<Rightarrow>
        (case r of
           Inr None \<Rightarrow> sm_bind (say Stdin_Not_A_Terminal) (\<lambda>_. sm_return None)
         | Inr (Some g) \<Rightarrow> sm_bind (say Typing_Goes_To_Guest) (\<lambda>_. sm_return (Some g))
         | Inl e \<Rightarrow> sm_bind (say (Stdin_Not_Raw e)) (\<lambda>_. sm_return None)) (s\<lparr>stdin := i\<rparr>))"

definition serve_open ::
  "('f, 'p, 'c) host_os \<Rightarrow> libc \<Rightarrow> 'p tty_ops \<Rightarrow> 'i tty_ops \<Rightarrow> string list \<Rightarrow> string \<Rightarrow> 'f
    \<Rightarrow> (('s, 'i) cli, exit_code, ('f, 'p, 'c) serving) sm" where
  "serve_open E L TP TI args path f =
     sm_bind (or_give_up (Port_Unopened path) (open_port E path)) (\<lambda>p.
     sm_bind (raw_port L TP path p) (\<lambda>p.
     sm_bind (or_give_up (Port_Not_Cloned path) (clone_port E p)) (\<lambda>rx.
     sm_bind (pace_flag args) (\<lambda>pc.
     sm_bind (choose_console E args (''--input'' \<in> set args)) (\<lambda>con.
     sm_bind (raw_stdin L TI (''--input'' \<in> set args)) (\<lambda>r.
     sm_return \<lparr>image_file = f, port_tx = p, port_rx = rx, reply_pace = pc, con_to = con,
       keyboard = (''--input'' \<in> set args), guard = r\<rparr>))))))"

section \<open>The two threads of a serving process\<close>

text \<open>
  With \<open>--input\<close> a keyboard thread runs beside the serve loop; both put the terminal back when they
  end, through the guard they share. A step of a thread is what it does from one access to what they
  share, or one call of the system, to the next; the scheduler takes them in any order, and the
  process ends when one of them exits, wherever the other is.
\<close>

datatype keys_at =
    Reading bool
  | Keys_Swap "string + input_end"
  | Keys_Set "string + input_end"
  | Keys_End "string + input_end"
  | No_Keys

datatype serve_at =
    Serving
  | Serve_Swap "string + unit"
  | Serve_Set "string + unit"
  | Serve_End "string + unit"

text \<open>\<open>ended\<close> is the exit code, or a panic of the main thread.\<close>

record ('f, 'i) process =
  keys :: keys_at
  server_at :: serve_at
  guarding :: "restore option"
  tty :: 'i
  page_server :: "'f server"
  repeats :: trail
  frames_sent :: "u8 list list"
  told :: "notice list"
  ended :: "(unit + exit_code) option"

definition process_new :: "('f, 'p, 'c) serving \<Rightarrow> 'i \<Rightarrow> ('f, 'i) process" where
  "process_new sv i =
     \<lparr>keys = (if keyboard sv then Reading False else No_Keys), server_at = Serving, guarding = guard sv, tty = i,
      page_server = server_new (image_file sv), repeats = trail_new, frames_sent = [], told = [], ended = None\<rparr>"

text \<open>The first step of \<open>restore\<close>: whether it falls to this thread to set the attributes.\<close>

definition swap_guard :: "restore option \<Rightarrow> bool \<times> restore option" where
  "swap_guard g = (case g of None \<Rightarrow> (False, None) | Some r \<Rightarrow> (case swap_done r of (was, r) \<Rightarrow> (\<not> was, Some r)))"

definition set_guard :: "'i tty_ops \<Rightarrow> restore option \<Rightarrow> 'i \<Rightarrow> 'i" where
  "set_guard TI g i = (case g of None \<Rightarrow> i | Some r \<Rightarrow> set_saved TI r i)"

text \<open>
  A step of the keyboard thread: \<open>pump_input\<close>, read by read, with what the read gave and the failure of
  the write, if the system has one for it; then the terminal is put back, and after that the process
  exits on \<open>Ctrl-C\<close>, or serving goes on without a keyboard.
\<close>

definition keys_turn :: "'i tty_ops \<Rightarrow> string + u8 list \<Rightarrow> string option \<Rightarrow> ('f, 'i) process \<Rightarrow> ('f, 'i) process" where
  "keys_turn TI got failed p =
     (case keys p of
        Reading escaped \<Rightarrow>
          (case got of
             Inl e \<Rightarrow> p\<lparr>keys := Keys_Swap (Inl e)\<rparr>
           | Inr r \<Rightarrow>
               if r = [] then p\<lparr>keys := Keys_Swap (Inr Eof)\<rparr>
               else (case pump_bytes escaped r of (payload, escaped, quit) \<Rightarrow>
                 let after = (if quit then Keys_Swap (Inr Quit) else Reading escaped) in
                 if payload = [] then p\<lparr>keys := after\<rparr>
                 else (case failed of
                   Some e \<Rightarrow> p\<lparr>keys := Keys_Swap (Inl e)\<rparr>
                 | None \<Rightarrow> p\<lparr>keys := after, frames_sent := frames_sent p @ [encode (ConIn payload) []]\<rparr>)))
      | Keys_Swap e \<Rightarrow>
          (case swap_guard (guarding p) of (mine, g) \<Rightarrow>
             p\<lparr>guarding := g, keys := (if mine then Keys_Set e else Keys_End e)\<rparr>)
      | Keys_Set e \<Rightarrow> p\<lparr>tty := set_guard TI (guarding p) (tty p), keys := Keys_End e\<rparr>
      | Keys_End e \<Rightarrow>
          (case e of
             Inr Quit \<Rightarrow> p\<lparr>told := told p @ [Typed_Quit], ended := Some (Inr Success)\<rparr>
           | Inr Eof \<Rightarrow> p\<lparr>keys := No_Keys\<rparr>
           | Inl m \<Rightarrow> p\<lparr>told := told p @ [Keyboard_Stopped m], keys := No_Keys\<rparr>)
      | No_Keys \<Rightarrow> p)"

text \<open>
  A panic of the main thread drops its share of the guard, which restores only if the keyboard
  thread no longer holds the other.
\<close>

definition main_panics :: "'i tty_ops \<Rightarrow> ('f, 'i) process \<Rightarrow> ('f, 'i) process" where
  "main_panics TI p =
     (if keys p = No_Keys
      then (case swap_guard (guarding p) of (mine, g) \<Rightarrow>
        p\<lparr>guarding := g, tty := (if mine then set_guard TI g (tty p) else tty p), ended := Some (Inl ())\<rparr>)
      else p\<lparr>ended := Some (Inl ())\<rparr>)"

text \<open>
  A step of the main thread: a turn of the loop of \<open>serve_shared\<close>, with what its read gave and the
  failure of a write to the console, to stderr or to the port, if there is one; then the terminal is
  put back and \<open>main\<close> returns.
\<close>

definition serve_turn ::
  "'i tty_ops \<Rightarrow> 'f file_ops \<Rightarrow> nat \<Rightarrow> pace option \<Rightarrow> string \<Rightarrow> string + u8 list \<Rightarrow> string option \<Rightarrow>
   ('f, 'i) process \<Rightarrow> ('f, 'i) process" where
  "serve_turn TI F len gap path got failed p =
     (case server_at p of
        Serving \<Rightarrow>
          (case got of
             Inl e \<Rightarrow> p\<lparr>server_at := Serve_Swap (Inl e)\<rparr>
           | Inr chunk \<Rightarrow>
               if chunk = [] then p\<lparr>server_at := Serve_Swap (case failed of Some e \<Rightarrow> Inl e | None \<Rightarrow> Inr ())\<rparr>
               else (case serve_once F len chunk ((page_server p)\<lparr>out := []\<rparr>) of
                 (Inl _, v) \<Rightarrow> main_panics TI (p\<lparr>page_server := v\<rparr>)
               | (Inr _, v) \<Rightarrow>
                   (let p = p\<lparr>page_server := v, repeats := snd (trail_note (answered v) (repeats p))\<rparr> in
                    case failed of
                      Some e \<Rightarrow> p\<lparr>server_at := Serve_Swap (Inl e)\<rparr>
                    | None \<Rightarrow> p\<lparr>frames_sent := frames_sent p @ (if out v = [] then [] else write_reply (out v) gap)\<rparr>)))
      | Serve_Swap r \<Rightarrow>
          (case swap_guard (guarding p) of (mine, g) \<Rightarrow>
             p\<lparr>guarding := g, server_at := (if mine then Serve_Set r else Serve_End r)\<rparr>)
      | Serve_Set r \<Rightarrow> p\<lparr>tty := set_guard TI (guarding p) (tty p), server_at := Serve_End r\<rparr>
      | Serve_End r \<Rightarrow>
          (case r of
             Inr _ \<Rightarrow> p\<lparr>ended := Some (Inr Success)\<rparr>
           | Inl e \<Rightarrow> p\<lparr>told := told p @ [Serving_Failed path e], ended := Some (Inr Failure)\<rparr>))"

text \<open>A schedule: which thread moves, and what the system answers it.\<close>

datatype turn = Keys_Turn "string + u8 list" "string option" | Serve_Turn "string + u8 list" "string option"

fun process_turn ::
  "'i tty_ops \<Rightarrow> 'f file_ops \<Rightarrow> nat \<Rightarrow> pace option \<Rightarrow> string \<Rightarrow> turn \<Rightarrow> ('f, 'i) process \<Rightarrow> ('f, 'i) process" where
  "process_turn TI F len gap path (Keys_Turn got failed) p = (if ended p = None then keys_turn TI got failed p else p)"
| "process_turn TI F len gap path (Serve_Turn got failed) p =
     (if ended p = None then serve_turn TI F len gap path got failed p else p)"

text \<open>The serving: the command returned a code early, or this is where the schedule left the process.\<close>

datatype ('f, 'i) left = Code exit_code | Served "('f, 'i) process"

definition serve_run ::
  "('f, 'p, 'c) host_os \<Rightarrow> 'f file_ops \<Rightarrow> 'i tty_ops \<Rightarrow> turn list \<Rightarrow> string \<Rightarrow> ('f, 'p, 'c) serving \<Rightarrow>
   (('s, 'i) cli, exit_code, ('f, 'i) left) sm" where
  "serve_run E F TI turns path sv s =
     (let p = fold (process_turn TI F (image_len E (image_file sv)) (reply_pace sv) path) turns (process_new sv (stdin s))
      in (Inr (Served p), s\<lparr>stdin := tty p, said := said s @ told p\<rparr>))"

definition serve_main ::
  "('f, 'p, 'c) host_os \<Rightarrow> 'f file_ops \<Rightarrow> libc \<Rightarrow> 'p tty_ops \<Rightarrow> 'i tty_ops \<Rightarrow> turn list \<Rightarrow>
   (u8 \<Rightarrow> 's \<Rightarrow> 's) \<Rightarrow> string list \<Rightarrow> (('s, 'i) cli, exit_code, ('f, 'i) left) sm" where
  "serve_main E F L TP TI turns put args =
     (if asks_help args then sm_bind (say Serve_Usage) (\<lambda>_. sm_return (Code Success))
      else case (flag args ''--kernel'', flag args ''--dtb'', flag args ''--mem'', flag args ''--port'') of
        (Some kp, Some dp, Some mp, Some pp) \<Rightarrow>
          sm_bind (serve_load E F put args kp dp mp) (\<lambda>f.
          sm_bind (serve_open E L TP TI args pp f) (serve_run E F TI turns pp))
      | _ \<Rightarrow> sm_bind (say Serve_Flags_Missing) (\<lambda>_. give_up Serve_Usage))"

definition host_main ::
  "('f, 'p, 'c) host_os \<Rightarrow> 'f file_ops \<Rightarrow> libc \<Rightarrow> 'p tty_ops \<Rightarrow> 'i tty_ops \<Rightarrow> turn list \<Rightarrow>
   (u8 \<Rightarrow> 's \<Rightarrow> 's) \<Rightarrow> string list \<Rightarrow> (('s, 'i) cli, exit_code, ('f, 'i) left) sm" where
  "host_main E F L TP TI turns put args =
     (if args \<noteq> [] \<and> hd args = ''serve'' then serve_main E F L TP TI turns put (tl args)
      else sm_bind (boot_main E F put args) (\<lambda>c. sm_return (Code c)))"

text \<open>The exit code, whether it is returned early or at the end; none after a panic or while it serves.\<close>

fun exit_of :: "exit_code stop + ('f, 'i) left \<Rightarrow> exit_code option" where
  "exit_of (Inr (Code c)) = Some c"
| "exit_of (Inr (Served p)) = (case ended p of Some (Inr c) \<Rightarrow> Some c | _ \<Rightarrow> None)"
| "exit_of (Inl (Err c)) = Some c"
| "exit_of (Inl Panic) = None"

section \<open>The console of the guest\<close>

text \<open>\<open>Write\<close> for \<open>ConSink\<close>: the file before the terminal, and nothing more after an error.\<close>

definition con_write ::
  "'c writer \<Rightarrow> 'o writer \<Rightarrow> u8 list \<Rightarrow> 'c con_sink \<times> 'o \<Rightarrow> (string + nat) \<times> ('c con_sink \<times> 'o)" where
  "con_write WF WO bytes s =
     (case s of (k, o1) \<Rightarrow> (case k of
        To_Stdout \<Rightarrow>
          (case write_all WO bytes o1 of (Inl e, o2) \<Rightarrow> (Inl e, (k, o2)) | (Inr _, o2) \<Rightarrow> (Inr (length bytes), (k, o2)))
      | To_File f \<Rightarrow>
          (case write_all WF bytes f of
             (Inl e, f) \<Rightarrow> (Inl e, (To_File f, o1)) | (Inr _, f) \<Rightarrow> (Inr (length bytes), (To_File f, o1)))
      | To_Both f \<Rightarrow>
          (case write_all WF bytes f of
             (Inl e, f) \<Rightarrow> (Inl e, (To_Both f, o1))
           | (Inr _, f) \<Rightarrow>
               (case write_all WO bytes o1 of
                  (Inl e, o2) \<Rightarrow> (Inl e, (To_Both f, o2)) | (Inr _, o2) \<Rightarrow> (Inr (length bytes), (To_Both f, o2))))))"

definition con_flush :: "'c writer \<Rightarrow> 'o writer \<Rightarrow> 'c con_sink \<times> 'o \<Rightarrow> (string + unit) \<times> ('c con_sink \<times> 'o)" where
  "con_flush WF WO s =
     (case s of (k, o1) \<Rightarrow> (case k of
        To_Stdout \<Rightarrow> (case flush_writer WO o1 of (r, o2) \<Rightarrow> (r, (k, o2)))
      | To_File f \<Rightarrow> (case flush_writer WF f of (r, f) \<Rightarrow> (r, (To_File f, o1)))
      | To_Both f \<Rightarrow>
          (case flush_writer WF f of
             (Inl e, f) \<Rightarrow> (Inl e, (To_Both f, o1))
           | (Inr _, f) \<Rightarrow> (case flush_writer WO o1 of (r, o2) \<Rightarrow> (r, (To_Both f, o2))))))"

end
