(* ===== verification/Command_Props.thy ===== *)
theory Command_Props
  imports Command Boot_Image Wire_Stream
begin

text \<open>
  What the host's command leaves behind: the file it serves is the guest memory its loader built, and
  the terminal it put into raw mode is put back.
\<close>

section \<open>The file that is served\<close>

text \<open>
  Where the images lie in a file of guest RAM: the kernel at its load address, the tree above it with
  the initrd recorded, the initrd above the tree.
\<close>

definition laid_out :: "u8 list \<Rightarrow> u8 list \<Rightarrow> u8 list \<Rightarrow> u8 list option \<Rightarrow> boot_layout \<Rightarrow> bool" where
  "laid_out bs kern tree ramdisk layout \<longleftrightarrow>
     length bs = RAM_BYTES \<and> slice (ram_off KERNEL_LOAD_ADDR) (length kern) bs = kern \<and>
     unat KERNEL_LOAD_ADDR + length kern \<le> unat (dtb layout) \<and> unat (dtb layout) mod 8 = 0 \<and>
     ram_off (dtb layout) + length tree \<le> RAM_BYTES \<and>
     record_initrd (initrd layout) tree = Inr (slice (ram_off (dtb layout)) (length tree) bs) \<and>
     (case (ramdisk, initrd layout) of
        (None, None) \<Rightarrow> True
      | (Some bytes, Some (start, stop)) \<Rightarrow>
          unat start mod PAGE = 0 \<and> ram_off (dtb layout) + length tree \<le> ram_off start \<and>
          ram_off start + length bytes \<le> RAM_BYTES \<and> unat stop = unat start + length bytes \<and>
          slice (ram_off start) (length bytes) bs = bytes
      | _ \<Rightarrow> False)"

lemma flat_bytes_image:
  assumes "length bs = RAM_BYTES" and "r + n \<le> RAM_BYTES"
  shows "flat_bytes (image_page bs) r n = slice r n bs"
proof (rule nth_equalityI)
  show "length (flat_bytes (image_page bs) r n) = length (slice r n bs)"
    using assms by (simp add: flat_bytes_def length_slice)
  fix i assume "i < length (flat_bytes (image_page bs) r n)"
  then have i: "i < n" "r + i < RAM_BYTES" using assms(2) by (simp_all add: flat_bytes_def)
  have p: "unat (of_nat ((r + i) div PAGE) :: u32) = (r + i) div PAGE" using i(2) by (simp add: unat_of_nat)
  have "(r + i) div PAGE * PAGE + (r + i) mod PAGE = r + i" by simp
  then show "flat_bytes (image_page bs) r n ! i = slice r n bs ! i"
    using i assms by (simp add: flat_bytes_def flat_byte_def image_page_def slice_def p)
qed

text \<open>
  A platform whose files keep what is written: a created file takes the length it is given, and
  reopening one by its name gives its contents.
\<close>

locale host_files = file_medium F img for F :: "'f file_ops" and img +
  fixes E :: "('f, 'p, 'c) host_os"
  assumes sized: "set_len E n f = Inr f' \<Longrightarrow> length (img f') = n"
    and reopened: "reopen E path f = Inr f' \<Longrightarrow> img f' = img f"

definition whole_ram :: "('f \<Rightarrow> u8 list) \<Rightarrow> 'f hostfile \<Rightarrow> bool" where
  "whole_ram bytes h \<longleftrightarrow> hf_inv bytes h \<and> hf_pages h = RAM_PAGE_COUNT"

context file_medium
begin

lemma pages_fixed:
  "hf_pages (snd (read_page (hostfile_ops F) p h)) = hf_pages h"
  "hf_pages (snd (write_page (hostfile_ops F) p d h)) = hf_pages h"
  "hf_pages (snd (flush_backing (hostfile_ops F) h)) = hf_pages h"
  by (auto simp: hostfile_ops_def hf_read_page_def hf_write_page_def hf_flush_def split: prod.splits sum.splits)

lemma whole_backing: "total_backing (hostfile_ops F) (hf_contents img) (whole_ram img)"
proof (unfold_locales, goal_cases)
  case (1 b p r b')
  with hf.read_frame [of b p r b'] pages_fixed(1) [of p b] show ?case by (auto simp: whole_ram_def)
next
  case (2 b p d b')
  with hf.read_ok [of b p d b'] show ?case by (auto simp: whole_ram_def)
next
  case (3 b d p b')
  with hf.write_ok [of b d p b'] pages_fixed(2) [of p d b] show ?case by (simp add: whole_ram_def)
next
  case (4 b d p e b')
  with hf.write_stop [of b d p e b'] pages_fixed(2) [of p d b] show ?case by (simp add: whole_ram_def)
next
  case (5 b u b')
  with hf.flush_frame [of b u b'] pages_fixed(3) [of b] show ?case by (simp add: whole_ram_def)
next
  case (6 b p)
  with hf.read_no_panic show ?case by (simp add: whole_ram_def)
next
  case (7 b d p)
  with hf.write_no_panic show ?case by (simp add: whole_ram_def)
next
  case (8 b)
  with hf.flush_no_panic show ?case by (simp add: whole_ram_def)
qed

end

sublocale file_medium \<subseteq> whole: total_backing "hostfile_ops F" "hf_contents img" "whole_ram img"
  by (rule whole_backing)

section \<open>The load phase\<close>

text \<open>Nothing here depends on what has been printed, only on the values.\<close>

lemma hoare_or_give_up: "hoare (\<lambda>_. True) (or_give_up f r) (\<lambda>a _. r = Inr a) (\<lambda>e _. e \<noteq> Panic)"
  by (cases r) (auto simp: hoare_def or_give_up_def give_up_def say_def sm_defs sm_bind_def)

lemma hoare_given: "(c \<Longrightarrow> hoare (\<lambda>_. True) m Q E) \<Longrightarrow> hoare (\<lambda>_. c) m Q E"
  by (simp add: hoare_def)

lemma hoare_stops: "hoare P m Q (\<lambda>e _. e \<noteq> Panic) \<Longrightarrow> hoare P m Q (\<lambda>e _. e = Panic \<longrightarrow> c)"
  by (erule hoare_weaken) auto

lemma hoare_frames:
  "hoare (\<lambda>_. True) (frames_flag args) (\<lambda>n _. num_flag args ''--frames'' DEFAULT_FRAMES = Inr n \<and> n \<noteq> 0) (\<lambda>e _. e \<noteq> Panic)"
  by (cases "num_flag args ''--frames'' DEFAULT_FRAMES")
    (auto simp: hoare_def frames_flag_def or_give_up_def give_up_def say_def sm_defs sm_bind_def)

lemma hoare_initrd:
  "hoare (\<lambda>_. True) (read_initrd E p)
     (\<lambda>ramdisk _. map_option (\<lambda>p. read_file E p) p = map_option Inr ramdisk) (\<lambda>e _. e \<noteq> Panic)"
  by (auto simp: hoare_def read_initrd_def read_image_def or_give_up_def give_up_def say_def sm_defs sm_bind_def
      split: option.splits sum.splits)

context host_files
begin

lemma hoare_new_bus:
  assumes "n \<noteq> 0"
  shows "hoare (\<lambda>_. True) (new_bus E path n) (\<lambda>b _. cache_inv (hf_contents img) (whole_ram img) (cache b))
    (\<lambda>e _. e = Panic \<longrightarrow> RAM_PAGES < unat n)"
proof -
  have h: "whole_ram img h" if "hostfile_open E path RAM_PAGE_COUNT = Inr h" for h
    using that sized by (auto simp: hostfile_open_def whole_ram_def hf_inv_def split: sum.splits)
  have n: "1 \<le> unat n" using assms unat_gt_0 [of n] by linarith
  have c: "cache_inv (hf_contents img) (whole_ram img) c" if "hostfile_open E path RAM_PAGE_COUNT = Inr h" "cache_new h (unat n) = Inr c" for h c
    using cache_inv_new [OF that(2), of "whole_ram img"] h [OF that(1)] by blast
  show ?thesis unfolding new_bus_def
    by (rule hoare_bind [OF hoare_stops [OF hoare_or_give_up]])
      (use n in \<open>auto simp: hoare_def sm_defs bus_new_def cache_new_def c split: sum.splits if_splits dest: c\<close>)
qed

lemma hoare_load_images:
  assumes "cache_inv (hf_contents img) (whole_ram img) (cache b)"
    and "\<not> starts_with kern ELF_MAGIC" and "tree \<noteq> []"
  shows "hoare (\<lambda>_. True) (load_images F put kp dp ip kern tree ramdisk b)
    (\<lambda>((_, layout), b) _. whole.booted kern tree ramdisk layout b) (\<lambda>e _. e \<noteq> Panic)"
proof -
  have "whole.holds (page_view (hf_contents img) (cache b)) (cache b)" using assms(1) by (simp add: whole.holds_def)
  with whole.hoare_boot [OF assms(2,3), of _ put ramdisk] show ?thesis
    by (fastforce simp: hoare_def load_images_def on_bus_def give_up_def say_def sm_defs sm_bind_def Let_def
        split: prod.splits sum.splits stop.splits)
qed

lemma flushed_image:
  assumes "whole.booted kern tree ramdisk layout b" and "cache_flush (hostfile_ops F) (cache b) = (r, c)"
  shows "r \<noteq> Inl Panic \<and> (r = Inr () \<longrightarrow> laid_out (img (hfile (backing c))) kern tree ramdisk layout)"
proof -
  obtain V kend tree' where V: "whole.holds V (cache b)" "kernel_at V kern kend" "unat kend \<le> unat (dtb layout)"
    and t: "record_initrd (initrd layout) tree = Inr tree'" "tree_at V tree' layout"
    and d: "ramdisk_at V (ram_off (dtb layout) + length tree) ramdisk layout"
    using assms(1) by (auto simp: whole.booted_def)
  from whole.cache_flush_ok [OF V(1) assms(2)] have r: "r \<noteq> Inl Panic"
    and c: "whole.holds V c" "r = Inr () \<Longrightarrow> image_page (img (hfile (backing c))) = V"
    by (auto simp: hf_contents_def)
  have len: "length (img (hfile (backing c))) = RAM_BYTES"
    using c(1) by (auto simp: whole.holds_def cache_inv_def whole_ram_def hf_inv_def)
  note flat = flat_bytes_image [OF len]
  have tl: "length tree' = length tree" using record_initrd_length t(1) by auto
  have "laid_out (img (hfile (backing c))) kern tree ramdisk layout" if "r = Inr ()"
    using V(2,3) t d tl len flat c(2) [OF that]
    by (auto simp: laid_out_def kernel_at_def tree_at_def ramdisk_at_def split: option.splits)
  with r show ?thesis by blast
qed

lemma hoare_frames_bound:
  assumes "num_flag args ''--frames'' DEFAULT_FRAMES = Inr n"
    and "hoare P m Q (\<lambda>e _. e = Panic \<longrightarrow> RAM_PAGES < unat n)"
  shows "hoare P m Q (\<lambda>e _. e = Panic \<longrightarrow> (\<exists>n. num_flag args ''--frames'' DEFAULT_FRAMES = Inr n \<and> RAM_PAGES < unat n))"
  using assms by (elim hoare_weaken) auto

lemma hoare_serve_load:
  fixes put :: "u8 \<Rightarrow> 'u \<Rightarrow> 'u"
  assumes "read_file E kp = Inr kern" and "\<not> starts_with kern ELF_MAGIC"
    and "read_file E dp = Inr tree" and "tree \<noteq> []"
  shows "hoare (\<lambda>_. True) (serve_load E F put args kp dp mp)
    (\<lambda>f _. \<exists>ramdisk layout. laid_out (img f) kern tree ramdisk layout \<and>
       map_option (read_file E) (flag args ''--initrd'') = map_option Inr ramdisk)
    (\<lambda>e _. e = Panic \<longrightarrow> (\<exists>n. num_flag args ''--frames'' DEFAULT_FRAMES = Inr n \<and> RAM_PAGES < unat n))"
    (is "hoare _ _ ?served ?failed")
proof -
  let ?initrd = "\<lambda>ramdisk. map_option (read_file E) (flag args ''--initrd'') = map_option Inr ramdisk"
  have kernel: "hoare (\<lambda>_. True) (read_image E w kp) (\<lambda>x _. x = kern) (\<lambda>e _. e \<noteq> Panic)" for w
    unfolding read_image_def by (rule hoare_weaken [OF hoare_or_give_up]) (auto simp: assms(1))
  have tree: "hoare (\<lambda>_. True) (read_image E w dp) (\<lambda>x _. x = tree) (\<lambda>e _. e \<noteq> Panic)" for w
    unfolding read_image_def by (rule hoare_weaken [OF hoare_or_give_up]) (auto simp: assms(3))
  have flush: "hoare (\<lambda>_. True) (save_image E F mp b) ?served (\<lambda>e _. e \<noteq> Panic)"
    if "whole.booted kern tree ramdisk layout b" "?initrd ramdisk" for b ramdisk layout
  proof -
    obtain r c where f: "cache_flush (hostfile_ops F) (cache b) = (r, c)" by fastforce
    from flushed_image [OF that(1) f] that(2) reopened show ?thesis
      by (cases "reopen E mp (hfile (backing c))")
        (auto simp: f save_image_def hoare_def or_give_up_def give_up_def say_def sm_defs sm_bind_def split: sum.splits stop.splits)
  qed
  have load: "hoare (\<lambda>_. True) (sm_bind (load_images F put kp dp ip kern tree ramdisk b)
      (\<lambda>(_, b). save_image E F mp b)) ?served (\<lambda>e _. e \<noteq> Panic)"
    if "cache_inv (hf_contents img) (whole_ram img) (cache b)" "?initrd ramdisk" for b :: "('f hostfile, 'u) bus" and ramdisk ip
  proof (rule hoare_bind [OF hoare_load_images [OF that(1) assms(2,4)]], goal_cases)
    case (1 p)
    obtain h layout b' where p: "p = ((h, layout), b')" by (metis prod.exhaust)
    show ?case unfolding p prod.case by (rule hoare_given) (rule flush [OF _ that(2)])
  qed
  show ?thesis
    unfolding serve_load_def
  proof (rule hoare_bind [OF hoare_stops [OF hoare_frames]], rule hoare_given, elim conjE,
      rule hoare_bind [OF hoare_stops [OF kernel]], rule hoare_given,
      rule hoare_bind [OF hoare_stops [OF tree]], rule hoare_given,
      rule hoare_bind [OF hoare_stops [OF hoare_initrd]], rule hoare_given)
    fix n x y ramdisk
    assume n: "num_flag args ''--frames'' DEFAULT_FRAMES = Inr n" "n \<noteq> 0"
      and xy: "x = kern" "y = tree" and i: "?initrd ramdisk"
    show "hoare (\<lambda>_. True) (sm_bind (new_bus E mp n) (\<lambda>b.
        sm_bind (load_images F put kp dp (flag args ''--initrd'') x y ramdisk b) (\<lambda>(_, b).
        save_image E F mp b))) ?served ?failed"
      unfolding xy
      by (rule hoare_bind [OF hoare_frames_bound [OF n(1) hoare_new_bus [OF n(2)]]]) (rule hoare_given, rule hoare_stops, rule load [OF _ i])
  qed
qed

end

text \<open>Property C32 (served_file_is_the_loaded_ram): for a kernel image that is not an ELF object and a tree
  file that is not empty, on files that keep what is written: when the load phase of \<open>serve\<close> succeeds,
  the file it goes on to serve is 32 MiB of guest memory in which the kernel, the device tree with the
  initrd recorded in it, and the initrd lie byte for byte where the loader promises, whatever the page
  cache held back until the flush; and it never panics, unless \<open>--frames\<close> asks for more frames than the
  guest has pages, which an assertion of the cache refuses. An ELF kernel, which \<open>serve\<close> also accepts,
  is the subject of theory Elf_Props and not of this statement.\<close>

theorem served_file_is_the_loaded_ram:
  assumes "host_files F bytes_of E" and "read_file E kp = Inr kern" and "\<not> starts_with kern ELF_MAGIC"
    and "read_file E dp = Inr tree" and "tree \<noteq> []"
  shows "case serve_load E F put args kp dp mp s of
      (Inr f, s') \<Rightarrow> \<exists>ramdisk layout. laid_out (bytes_of f) kern tree ramdisk layout \<and>
        map_option (read_file E) (flag args ''--initrd'') = map_option Inr ramdisk
    | (Inl e, s') \<Rightarrow> e = Panic \<longrightarrow> (\<exists>n. num_flag args ''--frames'' DEFAULT_FRAMES = Inr n \<and> RAM_PAGES < unat n)"
  using host_files.hoare_serve_load [OF assms, of put args mp, unfolded hoare_def, rule_format, OF TrueI, of s]
  by (simp split: prod.splits sum.splits)

text \<open>Files in memory, two of them images.\<close>

definition two_images :: "(u8 list, unit, unit) host_os" where
  "two_images = \<lparr>read_file = \<lambda>p. Inr (if p = ''k'' then [0x6F, 0, 0, 0] else demo_dtb),
     create_file = \<lambda>_. Inr [], set_len = \<lambda>n f. Inr (take n f @ replicate (n - length f) 0),
     reopen = \<lambda>_. Inr, image_len = length, open_port = \<lambda>_. Inr (), clone_port = Inr, append_file = \<lambda>_. Inr ()\<rparr>"

interpretation in_memory: host_files ram_file_ops "\<lambda>f. f" two_images
  by unfold_locales (auto simp: two_images_def)

lemma laid_out_word: "laid_out bs [a, b, c, d] tree ramdisk layout \<Longrightarrow> slice (ram_off KERNEL_LOAD_ADDR) 4 bs = [a, b, c, d]"
proof -
  have "length [a, b, c, d] = 4" by simp
  then show "laid_out bs [a, b, c, d] tree ramdisk layout \<Longrightarrow> slice (ram_off KERNEL_LOAD_ADDR) 4 bs = [a, b, c, d]"
    unfolding laid_out_def by metis
qed

lemma served_file_is_the_loaded_ram_witness:
  "case serve_load two_images ram_file_ops vec_put [] ''k'' ''d'' ''m'' \<lparr>said = [], stdout = [], stdin = ()\<rparr> of
     (Inr f, s') \<Rightarrow> slice (ram_off KERNEL_LOAD_ADDR) 4 f = [0x6F, 0, 0, 0] | (Inl e, s') \<Rightarrow> e \<noteq> Panic"
proof -
  have k: "read_file two_images ''k'' = Inr [0x6F, 0, 0, 0]" and d: "read_file two_images ''d'' = Inr demo_dtb"
    by (simp_all add: two_images_def)
  have raw: "\<not> starts_with [0x6F, 0, 0, 0] ELF_MAGIC" by (simp add: starts_with_def ELF_MAGIC_def)
  have "demo_dtb \<noteq> []" using demo_dtb_facts(3) by (auto simp: be32_def get_range_def)
  note th = served_file_is_the_loaded_ram [OF in_memory.host_files_axioms k raw d this, where put = vec_put and args = "[]"]
  show ?thesis using th [of "''m''" "\<lparr>said = [], stdout = [], stdin = ()\<rparr>"]
    by (auto simp: num_flag_def flag_def dest!: laid_out_word split: prod.splits sum.splits)
qed

section \<open>The terminal\<close>

text \<open>
  A terminal: reading its attributes tells them and changes nothing, and setting attributes it has had
  before, the \<open>sane\<close> ones, takes.
\<close>

locale terminal =
  fixes T :: "'t tty_ops" and attrs :: "'t \<Rightarrow> termios" and sane :: "termios \<Rightarrow> bool"
  assumes told: "tcgetattr T d = (Inr t, d') \<Longrightarrow> t = attrs d"
    and unchanged: "tcgetattr T d = (r, d') \<Longrightarrow> attrs d' = attrs d"
    and taken: "sane t \<Longrightarrow> attrs (snd (tcsetattr T t d)) = t"

text \<open>Nothing but \<open>raw_stdin\<close> and the end of the serving touches the standard input.\<close>

definition leaves_stdin :: "(('s, 'i) cli, 'e, 'a) sm \<Rightarrow> bool" where
  "leaves_stdin m \<longleftrightarrow> (\<forall>s. stdin (snd (m s)) = stdin s)"

lemma leaves_basic:
  "leaves_stdin (say n)" "leaves_stdin (sm_return a)" "leaves_stdin (sm_err e)" "leaves_stdin sm_panic"
  "leaves_stdin (sm_get f)"
  by (simp_all add: leaves_stdin_def say_def sm_defs)

lemma leavesD: "leaves_stdin m \<Longrightarrow> m s = (r, s') \<Longrightarrow> stdin s' = stdin s"
  unfolding leaves_stdin_def by (metis snd_conv)

lemma leavesI: "(\<And>s r s'. m s = (r, s') \<Longrightarrow> stdin s' = stdin s) \<Longrightarrow> leaves_stdin m"
  unfolding leaves_stdin_def by (metis prod.collapse)

lemma leaves_bind:
  assumes "leaves_stdin m" and "\<And>a. leaves_stdin (f a)"
  shows "leaves_stdin (sm_bind m f)"
  by (intro leavesI)
    (auto simp: sm_bind_def dest!: leavesD [OF assms(1)] leavesD [OF assms(2)] split: prod.splits sum.splits)

lemma leaves_or_give_up: "leaves_stdin (give_up n)" "leaves_stdin (or_give_up f r)"
  by (cases r; auto simp: give_up_def or_give_up_def intro!: leaves_bind leaves_basic)+

lemma leaves_if: "leaves_stdin m \<Longrightarrow> leaves_stdin n \<Longrightarrow> leaves_stdin (if b then m else n)"
  by simp

lemmas leaves_rules = leaves_basic leaves_bind leaves_or_give_up leaves_if

lemma leaves_on_bus: "leaves_stdin (on_bus m f b)"
  by (intro leavesI) (auto simp: on_bus_def Let_def dest: leavesD [OF leaves_or_give_up(1)] split: prod.splits sum.splits stop.splits)

lemma leaves_serve_load: "leaves_stdin (serve_load E F put args kp dp mp)"
  unfolding serve_load_def frames_flag_def read_image_def read_initrd_def new_bus_def load_images_def save_image_def
  by (intro leaves_rules leaves_on_bus; simp add: leaves_rules leaves_on_bus split: option.split sum.split prod.split stop.split)

lemma leaves_raw_port: "leaves_stdin (raw_port L T path p)"
  unfolding raw_port_def by (auto intro!: leaves_rules split: prod.split sum.split bool.split)

lemma leaves_pace_flag: "leaves_stdin (pace_flag args)"
  unfolding pace_flag_def by (auto intro!: leaves_rules split: option.split)

lemma leaves_choose_console: "leaves_stdin (choose_console E args typed)"
  unfolding choose_console_def by (auto intro!: leaves_rules split: option.split)

lemma hoare_leaves: "leaves_stdin m \<Longrightarrow> hoare (\<lambda>s. P (stdin s)) m (\<lambda>_ s. P (stdin s)) (\<lambda>_ s. P (stdin s))"
  by (auto simp: hoare_def dest!: leavesD split: prod.splits sum.splits)

text \<open>The terminal is as it was, or the guard knows how it was.\<close>

definition guarded :: "('t \<Rightarrow> termios) \<Rightarrow> termios \<Rightarrow> restore option \<Rightarrow> 't \<Rightarrow> bool" where
  "guarded attrs a g d \<longleftrightarrow>
     (case g of None \<Rightarrow> attrs d = a | Some r \<Rightarrow> saved r = a \<and> (done_restoring r \<longrightarrow> attrs d = a))"

context terminal
begin

lemma make_raw_console_guarded:
  assumes "make_raw_console L T d = (r, d')" and "sane (attrs d)"
  shows "guarded attrs (attrs d) (case r of Inr g \<Rightarrow> g | Inl e \<Rightarrow> None) d'"
  using assms taken [OF assms(2)]
  by (auto simp: make_raw_console_def guarded_def do_restore_def swap_done_def set_saved_def Let_def dest: told unchanged
      split: if_splits prod.splits sum.splits)

lemma hoare_raw_stdin:
  assumes "sane a"
  shows "hoare (\<lambda>s. attrs (stdin s) = a) (raw_stdin L T typed) (\<lambda>g s. guarded attrs a g (stdin s)) (\<lambda>_ s. attrs (stdin s) = a)"
proof -
  have "guarded attrs (attrs d) None d" for d by (simp add: guarded_def)
  moreover have "guarded attrs a (case r of Inr g \<Rightarrow> g | Inl e \<Rightarrow> None) d'"
    if "make_raw_console L T d = (r, d')" "attrs d = a" for d r d'
    using make_raw_console_guarded [OF that(1)] that(2) assms by simp
  ultimately show ?thesis
    by (fastforce simp: hoare_def raw_stdin_def say_def sm_defs sm_bind_def split: prod.splits sum.splits option.splits)
qed

lemma hoare_serve_open:
  assumes "sane a"
  shows "hoare (\<lambda>s. attrs (stdin s) = a) (serve_open E L TP T args path f)
    (\<lambda>sv s. guarded attrs a (guard sv) (stdin s)) (\<lambda>_ s. attrs (stdin s) = a)"
  unfolding serve_open_def
  by (rule hoare_bind [OF hoare_leaves [where P = "\<lambda>i. attrs i = a"]] hoare_bind [OF hoare_raw_stdin [OF assms]]
      leaves_or_give_up(2) leaves_raw_port leaves_pace_flag leaves_choose_console hoare_return)+ simp

end

text \<open>
  While the threads run, the terminal is as it was once the guard is done, or a thread is between the
  swap of the flag and the call that sets the attributes; and no thread is past its swap before.
\<close>

definition mid_restore :: "('f, 'i) process \<Rightarrow> bool" where
  "mid_restore p \<longleftrightarrow> (\<exists>e. keys p = Keys_Set e) \<or> (\<exists>r. server_at p = Serve_Set r)"

definition past_swap :: "('f, 'i) process \<Rightarrow> bool" where
  "past_swap p \<longleftrightarrow> mid_restore p \<or> (\<exists>e. keys p = Keys_End e) \<or> (\<exists>r. server_at p = Serve_End r) \<or> ended p \<noteq> None"

definition process_inv :: "('i \<Rightarrow> termios) \<Rightarrow> termios \<Rightarrow> ('f, 'i) process \<Rightarrow> bool" where
  "process_inv attrs a p \<longleftrightarrow> ended p \<noteq> Some (Inl ()) \<and>
     (case guarding p of
        None \<Rightarrow> attrs (tty p) = a
      | Some r \<Rightarrow> saved r = a \<and> (done_restoring r \<longrightarrow> attrs (tty p) = a \<or> mid_restore p) \<and>
          (past_swap p \<longrightarrow> done_restoring r))"

lemma next_request_type: "next_request m = (Some f, m') \<Longrightarrow> type_byte f = 1 \<or> type_byte f = 3"
  by (auto simp: next_request_def take_matching_def dest: position_Some split: option.splits)

lemma serve_frame_answers: "type_byte f = 1 \<or> type_byte f = 3 \<Longrightarrow> serve_frame F len f im \<noteq> None"
  by (cases f) (auto split: prod.splits sum.splits)

lemma serve_loop_never_panics: "fst (serve_loop F len s) = Inr ()"
proof (induction F len s rule: serve_loop.induct)
  case (1 F len s)
  obtain q m where q: "next_request (smux s) = (q, m)" by (cases "next_request (smux s)")
  show ?case
  proof (cases q)
    case None
    then show ?thesis by (simp add: serve_loop.simps [of F len s] q)
  next
    case (Some r)
    then obtain req reply f' where a: "serve_frame F len r (img s) = Some (req, reply, f')"
      using serve_frame_answers [OF next_request_type, of "smux s" r m F len "img s"] q by (metis not_None_eq prod_cases3)
    from 1 [OF q [symmetric] Some a refl refl] show ?thesis by (simp add: serve_loop.simps [of F len s] q Some a)
  qed
qed

lemma serve_once_never_panics: "\<exists>v s'. serve_once F len bytes s = (Inr v, s')"
proof -
  obtain fs ns r where "parse (buf (dec (smux s)) @ bytes) = (fs, ns, r)" by (cases "parse (buf (dec (smux s)) @ bytes)")
  note p = mux_push_parse [OF this]
  obtain q t where t: "serve_loop F len (s\<lparr>smux := snd (mux_push bytes (smux s)), answered := []\<rparr>) = (q, t)"
    by (cases "serve_loop F len (s\<lparr>smux := snd (mux_push bytes (smux s)), answered := []\<rparr>)")
  then have "q = Inr ()" using serve_loop_never_panics by (metis fst_conv)
  with p t show ?thesis by (auto simp: serve_once_def split: prod.splits)
qed

context terminal
begin

lemma taken_set: "sane a \<Longrightarrow> saved r = a \<Longrightarrow> attrs (set_saved T r d) = a"
  using taken by (simp add: set_saved_def)

lemma keys_turn_inv:
  assumes "process_inv attrs a p" and "sane a" and "ended p = None"
  shows "process_inv attrs a (keys_turn T got failed p)"
proof (cases "keys p")
  case (Keys_Set e)
  with assms taken_set [OF assms(2)] show ?thesis
    by (auto simp: keys_turn_def process_inv_def past_swap_def mid_restore_def set_guard_def split: option.splits)
qed (use assms in \<open>auto simp: keys_turn_def process_inv_def past_swap_def mid_restore_def swap_guard_def swap_done_def Let_def
    split: option.splits sum.splits input_end.splits prod.splits\<close>)

lemma serve_turn_inv:
  assumes "process_inv attrs a p" and "sane a" and "ended p = None"
  shows "process_inv attrs a (serve_turn T F len gap path got failed p)"
proof (cases "server_at p")
  case Serving
  show ?thesis
  proof (cases got)
    case (Inr chunk)
    obtain v w where "serve_once F len chunk ((page_server p)\<lparr>out := []\<rparr>) = (Inr v, w)" using serve_once_never_panics by blast
    with Serving Inr assms show ?thesis
      by (auto simp: serve_turn_def process_inv_def past_swap_def mid_restore_def Let_def split: option.splits)
  qed (use Serving assms in \<open>auto simp: serve_turn_def process_inv_def past_swap_def mid_restore_def split: option.splits\<close>)
next
  case (Serve_Set r)
  with assms taken_set [OF assms(2)] show ?thesis
    by (auto simp: serve_turn_def process_inv_def past_swap_def mid_restore_def set_guard_def split: option.splits)
qed (use assms in \<open>auto simp: serve_turn_def process_inv_def past_swap_def mid_restore_def swap_guard_def swap_done_def
    split: option.splits sum.splits\<close>)

lemma process_run_inv:
  "process_inv attrs a p \<Longrightarrow> sane a \<Longrightarrow> process_inv attrs a (fold (process_turn T F len gap path) turns p)"
proof (induction turns arbitrary: p)
  case (Cons t turns)
  have "process_inv attrs a (process_turn T F len gap path t p)"
    using keys_turn_inv [OF Cons.prems] serve_turn_inv [OF Cons.prems] Cons.prems(1) by (cases t) simp_all
  with Cons show ?case by simp
qed simp

lemma process_new_inv: "guarded attrs a (guard sv) i \<Longrightarrow> process_inv attrs a (process_new sv i)"
  by (auto simp: guarded_def process_inv_def process_new_def past_swap_def mid_restore_def split: option.splits)

text \<open>What is promised of the end of the command.\<close>

definition put_back_at_end :: "termios \<Rightarrow> ('f, 't) left \<Rightarrow> ('s, 't) cli \<Rightarrow> bool" where
  "put_back_at_end a r s \<longleftrightarrow>
     (case r of
        Code c \<Rightarrow> attrs (stdin s) = a
      | Served p \<Rightarrow> ended p \<noteq> None \<longrightarrow> (\<exists>c. ended p = Some (Inr c)) \<and> (attrs (stdin s) = a \<or> mid_restore p))"

lemma served_end: "process_inv attrs a p \<Longrightarrow> put_back_at_end a (Served p) (s\<lparr>stdin := tty p, said := n\<rparr>)"
proof -
  assume i: "process_inv attrs a p"
  have "attrs (tty p) = a \<or> mid_restore p" if "ended p \<noteq> None"
    using i that by (auto simp: process_inv_def past_swap_def split: option.splits)
  then show ?thesis using i by (cases "ended p"; cases "the (ended p)") (auto simp: put_back_at_end_def process_inv_def)
qed

lemma hoare_serve_run:
  assumes "sane a"
  shows "hoare (\<lambda>s. guarded attrs a (guard sv) (stdin s)) (serve_run E F T turns path sv) (put_back_at_end a)
    (\<lambda>_ s. attrs (stdin s) = a)"
  unfolding hoare_def serve_run_def Let_def
  by (auto intro!: served_end process_run_inv [OF process_new_inv assms])

lemma hoare_serve_main:
  assumes "sane a"
  shows "hoare (\<lambda>s. attrs (stdin s) = a) (serve_main E F L TP T turns put args) (put_back_at_end a)
    (\<lambda>_ s. attrs (stdin s) = a)"
proof -
  have "hoare (\<lambda>s. attrs (stdin s) = a) (sm_bind (serve_load E F put args kp dp mp) (\<lambda>f.
      sm_bind (serve_open E L TP T args pp f) (serve_run E F T turns pp))) (put_back_at_end a)
      (\<lambda>_ s. attrs (stdin s) = a)" for kp dp mp pp
    by (rule hoare_bind [OF hoare_leaves [OF leaves_serve_load]], rule hoare_bind [OF hoare_serve_open [OF assms]],
        rule hoare_serve_run [OF assms])
  moreover have "hoare (\<lambda>s. attrs (stdin s) = a) (sm_bind (say n) (\<lambda>_. sm_return (Code x))) (put_back_at_end a)
      (\<lambda>_ s. attrs (stdin s) = a)" for n x
    by (simp add: hoare_def sm_bind_def say_def sm_modify_def sm_return_def put_back_at_end_def)
  moreover have "hoare (\<lambda>s. attrs (stdin s) = a) (sm_bind (say n) (\<lambda>_. give_up n')) (put_back_at_end a)
      (\<lambda>_ s. attrs (stdin s) = a)" for n n'
    by (simp add: hoare_def sm_bind_def say_def sm_modify_def give_up_def sm_err_def)
  ultimately show ?thesis by (auto simp: serve_main_def split: option.split)
qed

end

text \<open>Property C33 (terminal_is_put_back): for every schedule of the serve loop and the keyboard thread,
  whatever the reads and writes of the port, the console and the keyboard give, the main thread does
  not panic while it serves, and however \<open>serve\<close> exits, with help, on an error before or after the
  keyboard was set up, on \<open>Ctrl-C\<close>, or with the port closed or failing, the terminal the operator types
  at has the attributes it had at the start. The one exception is an exit of one thread while the other
  is between the two steps of \<open>restore\<close>: it has swapped the flag and not yet set the attributes.
  Signals from outside and a panic of \<open>eprintln!\<close> on a closed stderr are not modelled.\<close>

theorem terminal_is_put_back:
  assumes "terminal TI attrs sane" and "sane (attrs (stdin s))"
  shows "case serve_main E F L TP TI turns put args s of
      (Inr (Served p), s') \<Rightarrow> ended p \<noteq> None \<longrightarrow>
        (\<exists>c. ended p = Some (Inr c)) \<and> (attrs (stdin s') = attrs (stdin s) \<or> mid_restore p)
    | (_, s') \<Rightarrow> attrs (stdin s') = attrs (stdin s)"
  using terminal.hoare_serve_main [OF assms, where E = E and F = F and L = L and TP = TP and put = put and args = args and turns = turns,
      unfolded hoare_def, rule_format, of s]
  by (auto simp: terminal.put_back_at_end_def [OF assms(1)] split: prod.splits sum.splits left.splits)

text \<open>A terminal that does as it is told, and a keyboard whose input ends at once.\<close>

definition steady_tty :: "termios tty_ops" where
  "steady_tty = \<lparr>isatty = \<lambda>_. True, tcgetattr = \<lambda>t. (Inr t, t), tcsetattr = \<lambda>t _. (Inr (), t)\<rparr>"

definition no_tty :: "unit tty_ops" where
  "no_tty = \<lparr>isatty = \<lambda>_. False, tcgetattr = \<lambda>d. (Inl ''not a terminal'', d), tcsetattr = \<lambda>_ d. (Inr (), d)\<rparr>"

text \<open>The flags of the C library on Linux.\<close>

definition linux_libc :: libc where
  "linux_libc = \<lparr>IGNBRK = 0x1, BRKINT = 0x2, IGNPAR = 0x4, PARMRK = 0x8, INPCK = 0x10, ISTRIP = 0x20, INLCR = 0x40,
     IGNCR = 0x80, ICRNL = 0x100, IXON = 0x400, IXOFF = 0x1000, IXANY = 0x800, IMAXBEL = 0x2000,
     OPOST = 0x1, ONLCR = 0x4, OCRNL = 0x8, ONOCR = 0x10, ONLRET = 0x20,
     ECHO = 0x8, ECHOE = 0x10, ECHOK = 0x20, ECHONL = 0x40, ICANON = 0x2, ISIG = 0x1, IEXTEN = 0x8000,
     PARENB = 0x100, CSIZE = 0x30, HUPCL = 0x400, CS8 = 0x30, CREAD = 0x80, CLOCAL = 0x800\<rparr>"

interpretation steady: terminal steady_tty "\<lambda>t. t" "\<lambda>_. True"
  by unfold_locales (simp_all add: steady_tty_def)

lemma terminal_is_put_back_witness:
  "case serve_main two_images ram_file_ops linux_libc no_tty steady_tty
       [Serve_Turn (Inr [0xC1]) None, Keys_Turn (Inr [0x6C, 0x03]) None, Keys_Turn (Inr []) None, Keys_Turn (Inr []) None,
        Keys_Turn (Inr []) None] vec_put
       [''--kernel'', ''k'', ''--dtb'', ''d'', ''--mem'', ''m'', ''--port'', ''p'', ''--input'']
       \<lparr>said = [], stdout = [], stdin = \<lparr>c_iflag = 0x500, c_oflag = 5, c_lflag = 0x8A3B, c_cflag = 0xBF, c_vmin = 1, c_vtime = 0\<rparr>\<rparr> of
     (Inr (Served p), s') \<Rightarrow> ended p \<noteq> None \<longrightarrow> c_lflag (stdin s') = 0x8A3B \<or> mid_restore p
   | (_, s') \<Rightarrow> c_lflag (stdin s') = 0x8A3B"
  using terminal_is_put_back [OF steady.terminal_axioms TrueI, where
      s = "\<lparr>said = [], stdout = [] :: u8 list, stdin = \<lparr>c_iflag = 0x500, c_oflag = 5, c_lflag = 0x8A3B, c_cflag = 0xBF, c_vmin = 1, c_vtime = 0\<rparr>\<rparr>"
      and E = two_images and F = ram_file_ops and L = linux_libc and TP = no_tty and put = vec_put and
      args = "[''--kernel'', ''k'', ''--dtb'', ''d'', ''--mem'', ''m'', ''--port'', ''p'', ''--input'']" and
      turns = "[Serve_Turn (Inr [0xC1]) None, Keys_Turn (Inr [0x6C, 0x03]) None, Keys_Turn (Inr []) None, Keys_Turn (Inr []) None,
        Keys_Turn (Inr []) None]"]
  by (auto split: prod.splits sum.splits left.splits)

text \<open>
  The exception is real. The port closes while the keyboard thread, whose input has ended, has claimed
  the restore but not made its call: the main thread finds the flag set, skips its own, and exits with
  the terminal still raw. Without the main thread in between, \<open>Ctrl-C\<close> leaves the terminal as it was.
\<close>

definition raw_process :: "(u8 list, termios) process" where
  "raw_process = \<lparr>keys = Reading False, server_at = Serving,
     guarding = Some \<lparr>saved = \<lparr>c_iflag = 0x500, c_oflag = 5, c_lflag = 0x8A3B, c_cflag = 0xBF, c_vmin = 1, c_vtime = 0\<rparr>,
       done_restoring = False\<rparr>,
     tty = \<lparr>c_iflag = 0x100, c_oflag = 5, c_lflag = 0, c_cflag = 0xBF, c_vmin = 1, c_vtime = 0\<rparr>,
     page_server = server_new [], repeats = trail_new, frames_sent = [], told = [], ended = None\<rparr>"

lemma exit_during_restore:
  "let p = fold (process_turn steady_tty ram_file_ops 0 None ''p'')
       [Keys_Turn (Inr []) None, Keys_Turn (Inr []) None, Serve_Turn (Inr []) None, Serve_Turn (Inr []) None, Serve_Turn (Inr []) None]
       raw_process
   in ended p = Some (Inr Success) \<and> c_lflag (tty p) = 0"
  "let p = fold (process_turn steady_tty ram_file_ops 0 None ''p'')
       [Keys_Turn (Inr [0x03]) None, Keys_Turn (Inr []) None, Keys_Turn (Inr []) None, Keys_Turn (Inr []) None] raw_process
   in ended p = Some (Inr Success) \<and> c_lflag (tty p) = 0x8A3B"
  by (simp_all add: raw_process_def keys_turn_def serve_turn_def swap_guard_def swap_done_def set_guard_def set_saved_def
      steady_tty_def)

text \<open>
  A standard input that could not be made raw is said to leave serving without a keyboard; the thread
  that forwards it is started all the same.
\<close>

lemma keyboard_without_raw_mode:
  assumes "serve_open E L TP TI args path f s = (Inr sv, s')"
  shows "keyboard sv \<longleftrightarrow> ''--input'' \<in> set args"
  using assms by (auto simp: serve_open_def sm_bind_eq_Inr sm_return_def)

end
