(* ===== verification/Entry.thy ===== *)
theory Entry
  imports Startup Badge_Cable
begin

text \<open>
  The entry point of the badge (\<open>badge/app/src/main.rs\<close>): the order of the start-up, what each step
  leaves on the screen and in the log, the calls it may wait in for ever, and the three ways it stops.
  The system calls are a record of operations over the state of the operating system; those that wait
  for a server without a bound may not return, which is None. Nothing here returns: the result says
  where the badge ends, waiting in a call, parked for ever, or after a panic. None as the result of the
  whole start-up is a wait of the link without an end, which a live link excludes.
\<close>

section \<open>The operating system\<close>


text \<open>
  \<open>sid_connect\<close> is \<open>xous::connect\<close>, which the kernel retries until the server is there; \<open>connect_names\<close>,
  \<open>open_gfx\<close>, \<open>init_logger\<close>, \<open>open_usb\<close>, \<open>try_hook_mirror\<close> and \<open>new_transport\<close> block in the same way. The result of \<open>init_logger\<close> is whether a logger is
  installed after it.
\<close>

record ('w, 'd, 't) board =
  try_connect :: "string \<Rightarrow> 'w \<Rightarrow> bool \<times> 'w"
  sid_connect :: "string \<Rightarrow> 'w \<Rightarrow> (bool \<times> 'w) option"
  yield_slice :: "'w \<Rightarrow> 'w"
  connect_names :: "'w \<Rightarrow> (bool \<times> 'w) option"
  open_gfx :: "'w \<Rightarrow> ((string + 'd) \<times> 'w) option"
  open_ticktimer :: "'w \<Rightarrow> bool \<times> 'w"
  uptime_ms :: "'w \<Rightarrow> u64 \<times> 'w"
  pause_ms :: "u64 \<Rightarrow> 'w \<Rightarrow> 'w"
  init_logger :: "'w \<Rightarrow> (bool \<times> 'w) option"
  open_usb :: "'w \<Rightarrow> 'w option"
  try_hook_mirror :: "'w \<Rightarrow> (nat option \<times> 'w) option"
  new_transport :: "'w \<Rightarrow> 't option"


definition hook_panic_mirror :: "('w, 'd, 't) board \<Rightarrow> 'w \<Rightarrow> (nat option \<times> 'w) option" where
  "hook_panic_mirror B w =
     (if length ''xous-log-server '' \<noteq> 16 then Some (None, w)
      else case sid_connect B ''xous-log-server '' w of
        None \<Rightarrow> None | Some (False, w) \<Rightarrow> Some (None, w) | Some (True, w) \<Rightarrow> try_hook_mirror B w)"

section \<open>Where it ends\<close>

text \<open>
  What reached the log: None while no logger is installed, when a line logged is lost. The call the
  badge waits in is named after its line on the screen; the screen is None before the first paint, and
  when the machine has taken it.
\<close>

type_synonym wire_log = "string list option"

definition log_line :: "string \<Rightarrow> wire_log \<Rightarrow> wire_log" where
  "log_line l lg = map_option (\<lambda>ls. ls @ [l]) lg"

datatype stage = At_Names | At_Gfx | At_Log | At_Usb | At_Mirror | At_Link




section \<open>The steps\<close>





definition start_usb ::
  "('w, 'd, 't) board \<Rightarrow> 'c console_ops \<Rightarrow> 'c \<Rightarrow> wire_log \<Rightarrow> 'w \<Rightarrow> (stage \<times> 'c \<times> wire_log) + (wire_log \<times> 'c \<times> 'w)"
where
  "start_usb B C c lg w =
     (let c = note_line C ''usb...'' c in
      case open_usb B w of
        None \<Rightarrow> Inl (At_Usb, c, lg)
      | Some w \<Rightarrow>
          (let c = note_line C ''mirror...'' (note_line C ''usb ok'' c) in
           case hook_panic_mirror B w of
             None \<Rightarrow> Inl (At_Mirror, c, lg)
           | Some (hooked, w) \<Rightarrow>
               (case hooked of
                  Some v \<Rightarrow> if v = 1 then Inr (lg, note_line C ''mirror ok'' c, w)
                    else Inr (log_line (''rv64: panic mirror NOT hooked (Some('' @ decimal v @ ''))'') lg, note_line C ''mirror BAD'' c, w)
                | None \<Rightarrow> Inr (log_line ''rv64: panic mirror NOT hooked (None)'' lg, note_line C ''mirror BAD'' c, w))))"




text \<open>A turn of the loop after the run: the heartbeat moves on the screen.\<close>

definition parked_turn :: "'c console_ops \<Rightarrow> ('t, 'c) badge_machine \<Rightarrow> ('t, 'c) badge_machine" where
  "parked_turn C m = (fst m, on_sink (\<lambda>c. con_flush C (con_tick C c)) (snd m))"

section \<open>Assembling\<close>




section \<open>Where power-on ends\<close>





lemma log_line_None [simp]: "log_line l lg = None \<longleftrightarrow> lg = None"
  by (simp add: log_line_def)





text \<open>
  A log server that never comes up is not fatal to its own step, but the mirror connects to it again
  without a bound, and the badge waits there.
\<close>

lemma mirror_waits_for_the_log_server:
  assumes "sid_connect B ''xous-log-server '' w1 = None" and "open_usb B w = Some w1"
  shows "start_usb B C c lg w = Inl (At_Mirror, note_line C ''mirror...'' (note_line C ''usb ok'' (note_line C ''usb...'' c)), lg)"
  using assms by (simp add: start_usb_def hook_panic_mirror_def)



section \<open>A badge that starts\<close>




end
