(* ===== verification/Addresses.thy ===== *)
theory Addresses
  imports Text
begin

text \<open>
  The diagnostic of the badge's transport that tells where a delivery of the USB server is read from
  (\<open>capture_addresses\<close> and \<open>address_report\<close> in \<open>badge/app/src/usbhost.rs\<close>). Memory is a function of
  the address and the size and alignment of the archived structure, a third-party type, are
  parameters. An address is a word of 32 bits, as on the badge.
\<close>

section \<open>One capture\<close>

record layout =
  asize :: nat
  aalign :: nat

text \<open>\<open>Buffer::to_raw_parts\<close>\<close>

record delivered =
  d_base :: u32
  d_pagelen :: nat
  d_used :: nat

record captured =
  a_base :: u32
  a_pagelen :: nat
  a_used :: nat
  a_root :: u32
  a_reloff :: u32
  a_resolved :: u32
  a_veclen :: nat
  a_head :: "u8 list"
  a_pkt1 :: "u8 list"
  a_pkt2 :: "u8 list"
  a_rootb :: "u8 list"
  a_text :: u32
  a_heap :: u32
  a_stack :: u32

definition bytes_from :: "(u32 \<Rightarrow> u8) \<Rightarrow> u32 \<Rightarrow> nat \<Rightarrow> u8 list" where
  "bytes_from mem a n = map (\<lambda>i. mem (a + of_nat i)) [0..<n]"

definition expected_used :: "layout \<Rightarrow> nat \<Rightarrow> nat" where
  "expected_used A veclen = (veclen + aalign A - 1) div aalign A * aalign A + asize A"

text \<open>The relative pointer of the archived vector and the length beside it, each half of the root.\<close>

definition root_word :: "layout \<Rightarrow> (u32 \<Rightarrow> u8) \<Rightarrow> u32 \<Rightarrow> u32" where
  "root_word A mem a = ucast (from_le (bytes_from mem a (if asize A div 2 = 8 then 8 else 4)) :: u64)"

definition packet_window :: "(u32 \<Rightarrow> u8) \<Rightarrow> delivered \<Rightarrow> nat \<Rightarrow> nat \<Rightarrow> u8 list" where
  "packet_window mem d veclen off =
     (if off + 16 \<le> min veclen (d_pagelen d) then bytes_from mem (d_base d + of_nat off) 16 else [])"

text \<open>
  The first delivery that carried something is captured, and no other. \<open>places\<close> are an address of the
  program text, one of the heap and one of the stack.
\<close>

definition capture_addresses ::
  "layout \<Rightarrow> (u32 \<Rightarrow> u8) \<Rightarrow> u32 \<times> u32 \<times> u32 \<Rightarrow> delivered \<Rightarrow> captured option \<Rightarrow> captured option" where
  "capture_addresses A mem places d seen =
     (case seen of
        Some c \<Rightarrow> Some c
      | None \<Rightarrow>
          if d_used d \<le> asize A \<or> d_pagelen d < d_used d then None
          else
            let root = d_base d + of_nat (d_used d - asize A);
                reloff = root_word A mem root;
                veclen = unat (root_word A mem (root + of_nat (asize A div 2)))
            in case places of (txt, heap, stack) \<Rightarrow> Some
              \<lparr>a_base = d_base d, a_pagelen = d_pagelen d, a_used = d_used d, a_root = root, a_reloff = reloff,
               a_resolved = root + reloff, a_veclen = veclen,
               a_head = bytes_from mem (d_base d) (min 32 (d_pagelen d)),
               a_pkt1 = packet_window mem d veclen 512, a_pkt2 = packet_window mem d veclen 1024,
               a_rootb = bytes_from mem root (asize A), a_text = txt, a_heap = heap, a_stack = stack\<rparr>)"

section \<open>The report\<close>

definition address_text :: "u32 \<Rightarrow> string" where
  "address_text a = hex_alt_pad 10 (unat a)"

definition signed_text :: "u32 \<Rightarrow> string" where
  "signed_text v = (if sint v < 0 then ''-'' else []) @ decimal (nat \<bar>sint v\<bar>)"

definition bytes_text :: "u8 list \<Rightarrow> string" where
  "bytes_text bs = joined '' '' (map hex_byte bs)"

text \<open>Whether the packet boundaries of the delivery show the same bytes again.\<close>

definition packets_repeat :: "captured \<Rightarrow> bool option" where
  "packets_repeat c =
     (let h = take 16 (a_head c) in
      if a_pkt1 c = [] then None else Some (h = a_pkt1 c \<and> (a_pkt2 c = [] \<or> h = a_pkt2 c)))"

definition repeat_text :: "captured \<Rightarrow> string" where
  "repeat_text c = (case packets_repeat c of None \<Rightarrow> ''n/a'' | Some b \<Rightarrow> if b then ''true'' else ''false'')"

definition address_report_text :: "layout \<Rightarrow> captured option \<Rightarrow> string" where
  "address_report_text A seen =
     (case seen of
        None \<Rightarrow> ''addrs: no non-empty delivery captured yet''
      | Some c \<Rightarrow>
          ''addrs: base='' @ address_text (a_base c) @ '' pagelen='' @ decimal (a_pagelen c) @
          '' used='' @ decimal (a_used c) @ '' (expected '' @ decimal (expected_used A (a_veclen c)) @
          '' for veclen) arch=size'' @ decimal (asize A) @ ''/align'' @ decimal (aalign A) @
          '' root='' @ address_text (a_root c) @ '' root_align='' @ decimal (unat (a_root c) mod aalign A) @
          '' reloff='' @ signed_text (a_reloff c) @ '' resolved='' @ address_text (a_resolved c) @
          '' veclen='' @ decimal (a_veclen c) @ '' | head@base=['' @ bytes_text (a_head c) @
          ''] +512=['' @ bytes_text (a_pkt1 c) @ ''] +1024=['' @ bytes_text (a_pkt2 c) @
          ''] pkt_repeat='' @ repeat_text c @ '' rootbytes=['' @ bytes_text (a_rootb c) @
          ''] | text='' @ address_text (a_text c) @ '' heap='' @ address_text (a_heap c) @
          '' stack='' @ address_text (a_stack c))"

section \<open>What a capture tells\<close>

text \<open>A delivery laid out as the archive format has it: payload, padding, then the root.\<close>

definition well_archived :: "layout \<Rightarrow> (u32 \<Rightarrow> u8) \<Rightarrow> delivered \<Rightarrow> u8 list \<Rightarrow> bool" where
  "well_archived A mem d payload \<longleftrightarrow>
     payload \<noteq> [] \<and> 0 < aalign A \<and> d_used d = expected_used A (length payload) \<and> d_used d \<le> d_pagelen d \<and>
     length payload < 2 ^ 32 \<and> bytes_from mem (d_base d) (length payload) = payload \<and>
     (let root = d_base d + of_nat (d_used d - asize A) in
      root_word A mem root = d_base d - root \<and> root_word A mem (root + of_nat (asize A div 2)) = of_nat (length payload))"

lemma padded_le: "0 < k \<Longrightarrow> n \<le> (n + k - 1) div k * k" for n k :: nat
proof -
  assume k: "0 < k"
  have "(n + k - 1) div k * k + (n + k - 1) mod k = n + k - 1" by simp
  moreover have "(n + k - 1) mod k < k" using k by simp
  ultimately show ?thesis by linarith
qed

text \<open>
  Of a well laid out delivery the capture resolves to the payload itself, of its length, and the size
  it compares with is the size that was used; later deliveries change nothing.
\<close>

lemma capture_resolves_payload:
  assumes "well_archived A mem d payload"
  shows "\<exists>c. capture_addresses A mem places d None = Some c \<and>
    bytes_from mem (a_resolved c) (a_veclen c) = payload \<and> a_used c = expected_used A (a_veclen c) \<and>
    capture_addresses A mem places d' (Some c) = Some c"
proof -
  obtain x y z where p: "places = (x, y, z)" by (rule prod_cases3)
  have n: "0 < length payload" "length payload < 2 ^ 32" using assms by (simp_all add: well_archived_def)
  have "length payload + asize A \<le> d_used d"
    using padded_le [of "aalign A" "length payload"] assms by (simp add: well_archived_def expected_used_def)
  moreover have "d_used d \<le> d_pagelen d" using assms by (simp add: well_archived_def)
  ultimately have "\<not> d_used d \<le> asize A" "\<not> d_pagelen d < d_used d" using n(1) by linarith+
  then have u: "(d_used d \<le> asize A \<or> d_pagelen d < d_used d) = False" by blast
  have w: "unat (of_nat (length payload) :: u32) = length payload" using n by (simp add: unat_of_nat)
  from assms have a: "bytes_from mem (d_base d) (length payload) = payload" "d_used d = expected_used A (length payload)"
    and r: "root_word A mem (d_base d + of_nat (d_used d - asize A)) = d_base d - (d_base d + of_nat (d_used d - asize A))"
      "root_word A mem (d_base d + of_nat (d_used d - asize A) + of_nat (asize A div 2)) = of_nat (length payload)"
    unfolding well_archived_def Let_def by blast+
  show ?thesis
    unfolding capture_addresses_def p u option.case if_False prod.case Let_def r w using a by simp
qed

end
