(* ===== verification/Spec2Isabelle.thy ===== *)
theory Spec2Isabelle
  imports Sv39_Arch Rvc Arith Traps Elf_Props Oled_Props Startup Boot_Works Usb_Live Difftest_Runs Command_Props Entry Addresses
begin

text \<open>
  The rv64 emulator of the badge, and what carries its memory over USB. The program boots a Linux
  guest on a RISC-V hart whose RAM does not fit in the badge: guest pages live in a file on a
  host, the badge keeps a few of them in a page cache, and a framed protocol over a serial link
  moves them. This development models the emulator core (\<open>crates/rv64\<close>), the protocol
  (\<open>crates/rv64-proto\<close>), the badge's program (\<open>badge/app\<close>), the host side (\<open>crates/rv64-host\<close>: page
  server, file-backed memory, image loader, run loops, command line) and the differential tests of
  the emulator (\<open>crates/rv64-difftest\<close>).

  The parts and how they interact. A hart (\<open>cpu.rs\<close>) fetches and executes instructions; loads and
  stores go through the MMU (\<open>mmu.rs\<close>) to a bus (\<open>bus.rs\<close>) with RAM, a timer (\<open>clint.rs\<close>) and a
  console UART (\<open>uart.rs\<close>). RAM is a page cache (\<open>cache.rs\<close>) over a \<open>MemBacking\<close> (\<open>backing.rs\<close>),
  which is a vector in memory, a file (\<open>hostfile.rs\<close>), or the USB link (\<open>usbhost.rs\<close>), whose requests
  the page server (\<open>serve.rs\<close>) answers from such a file. Supervisor calls of the guest reach the
  firmware (\<open>sbi.rs\<close>). The loader (\<open>lib.rs\<close>, \<open>elf.rs\<close>, \<open>fdt.rs\<close>) puts a kernel, a device tree and an
  initrd in RAM: on the host, whose command (\<open>main.rs\<close>) boots them or serves the file. The badge waits
  for its servers (\<open>startup.rs\<close>), finds the images over the link and runs the guest in slices
  (\<open>run.rs\<close>), with a text display (\<open>oled.rs\<close>). The tests generate programs (\<open>gen.rs\<close>), run them on the
  emulator and compare with the log of a reference simulator (\<open>spike.rs\<close>).
\<close>

text \<open>
  Theories, in the order of the import graph.

  \<^item> Prelude: machine integers, outcomes (\<open>Inr\<close> a value, \<open>Inl (Err e)\<close> an \<open>Err\<close>, \<open>Inl Panic\<close> a panic),
    the state-and-error combinators \<open>sm_bind\<close> and its kin, a Hoare logic for them, byte strings.
    Text: the part of \<open>format!\<close> and of number parsing that is used.
  \<^item> Backing (\<open>backing.rs\<close>): the operations of \<open>MemBacking\<close> as a record, the contract
    \<open>total_backing\<close> every client relies on, and the in-memory backing that is an instance of it.
  \<^item> Cache (\<open>cache.rs\<close>): frames, the residency index, CLOCK eviction, write-back, sized accesses and
    flush. Cache_Refine has the invariant and what each internal operation keeps of it;
    Cache_Flat shows that the cache is flat memory, whatever is resident.
  \<^item> Devices (\<open>exception.rs\<close>, \<open>clint.rs\<close>, \<open>uart.rs\<close>, \<open>bus.rs\<close>) and Csr (\<open>csr.rs\<close>).
  \<^item> Mmu (\<open>mmu.rs\<close>): the Sv39 walk, permissions, the TLB, and that a warm one answers what a cold one
    does. Sv39_Arch: the algorithm of the privileged manual, written apart from the code, which the
    translation agrees with; the rules \<open>mmu.rs\<close> leaves out (canonical addresses, reserved encodings,
    SUM, MXR, access faults of the walk) are a condition on the path of the walk, \<open>arch_plain\<close>.
  \<^item> Insn and Insn_Fields (\<open>insn/mod.rs\<close>), Rvc (\<open>insn/rvc.rs\<close>): instruction fields and the expansion of
    compressed instructions, against bit tables of the manual.
  \<^item> Cpu (\<open>cpu.rs\<close>): the hart, traps and returns. Exec (\<open>insn/rv64i.rs\<close>, \<open>rv64m.rs\<close>, \<open>rv64a.rs\<close>,
    \<open>cpu.rs\<close>): the executors and the step. Hart_Inv: what a step keeps. Machine (\<open>sbi.rs\<close>,
    \<open>step_trapping\<close>): firmware calls and whole runs. Arith, Memory and Traps: what arithmetic,
    memory accesses and traps mean for a guest.
  \<^item> Fdt and Fdt_Props (\<open>fdt.rs\<close>), Elf and Elf_Props (\<open>elf.rs\<close>), Boot, Boot_Props and Boot_Image
    (\<open>lib.rs\<close>): where a boot puts its images. Runner and Runner_Props (\<open>lib.rs\<close>): the boot loop, the
    capturing boot and the ISA test harness; what the loop returns is characterised turn by turn.
  \<^item> Wire (\<open>rv64-proto/src/lib.rs\<close>): frames, CRC, encoder, decoder, demultiplexer. Wire_Stream: the
    decoder does not see how reads are cut, and keeps bounded memory. Wire_Codec: what is encoded
    arrives, what is damaged does not.
  \<^item> Link (\<open>usbhost.rs\<close>): the paced sender, transmit counters, the exchange with its retries and
    deadlines, and the backing it makes. Link_Safe: what an exchange sends and accepts. Link_Live:
    every exchange returns. Usb (\<open>UsbTransport\<close>): the reader thread as a step function, the calls of
    the main thread between whose accesses it may take any number of steps; Usb_Reader: its step
    relation and invariants; Usb_Live: order, faults and termination over the badge's transport, with
    a platform that records the answers of the driver, so that what arrives is compared with what the
    driver gave.
    Addresses: the diagnostic that tells where a delivery is read from.
  \<^item> Hostfile (\<open>hostfile.rs\<close>), Serve and Serve_Props (\<open>serve.rs\<close>), Cable: the badge's memory over a
    lossless cable is the host's image. Messages (\<open>usbhost.rs\<close>, \<open>serve.rs\<close>, \<open>lib.rs\<close>): the texts.
  \<^item> Oled and Oled_Props (\<open>oled.rs\<close>): the text grid and its sink; the picture of an unbounded terminal,
    which is what a flush draws. Startup (\<open>startup.rs\<close>). Badge_Run and
    Badge_Run_Props (\<open>run.rs\<close>): the sliced run loop with its statistics. Badge_Link: the run over any
    link that keeps its word, and where the badge finds the images; Badge_Cable: the cable is such a
    link. Entry (\<open>badge/app/src/main.rs\<close>): power-on, from the first wait to the parked badge. A system
    call that blocks until its server is there returns an option, whose None is waiting for ever, and
    a line logged before a logger is installed is lost.
  \<^item> Working_Store, Boot_Works and Access_Works: over a store that works, booting and accesses succeed.
  \<^item> Rawtty (\<open>rawtty.rs\<close>), Command (\<open>main.rs\<close>, \<open>stdout_sink.rs\<close>) and Command_Props: the host's command,
    the file it serves and the terminal it borrows. While it serves, the serve loop and the keyboard
    thread take turns as a schedule, a list that also says what their reads and writes give, decides;
    \<open>restore\<close> is two steps, between which the other thread may end the process.
  \<^item> Gen and Gen_Program (\<open>gen.rs\<close>): random numbers, encoders, chunks, layout and image of a generated
    program. Xorshift and Rng_Period: the random numbers are one cycle. Gen_Yields: drawing ends.
    Gen_Encode, Gen_Halves, Gen_Compressed and Gen_Jumps: what is encoded, the executors and the
    expander take apart again. Gen_Chunks and Gen_Total: every seed yields a program of legal chunks.
    Difftest (\<open>difftest/src/elf.rs\<close>, \<open>lib.rs\<close>, \<open>spike.rs\<close>, \<open>main.rs\<close>). Sandbox, Sandbox_Steps,
    Sandbox_Chunks and Sandbox_Runs: a generated program stays in its image and reaches its end.
    Object: the object file reads back. Difftest_Runs: the properties of the tests.
\<close>

text \<open>
  Interfaces. \<open>total_backing\<close> is the contract of \<open>MemBacking\<close>: operations that never panic, keep an
  invariant, and read and write whole pages. The cache, the bus, the machine and the loader are
  proved inside it; it is interpreted on the in-memory backing, on the file and on the cable, and
  \<open>working_store\<close> extends it by success. \<open>file_medium\<close> states the documented behaviour of a file of the
  standard library and \<open>host_files\<close> that of creating and reopening one. \<open>page_link\<close> is what the run loop
  needs of its link; the cable is an instance. The transport under the link (\<open>trait Transport\<close>) is a
  record of operations; \<open>UsbTransport\<close> is an instance of it over the operating system's calls, with
  \<open>usb_relation\<close> for what every access of the main thread keeps, whatever the reader does in between,
  and \<open>badge_platform\<close> for the clock and the driver. \<open>terminal\<close> is a terminal whose attributes can be
  put back. \<open>register_file\<close> is an invariant every write of a control register keeps. \<open>entropy\<close> and \<open>chunk_source\<close> are what the generator needs of its random numbers.

  Correspondence with the code. A \<open>u8\<close>, \<open>u16\<close>, \<open>u32\<close>, \<open>u64\<close> is a word of that width, whose overflow
  wraps: the release profile sets no overflow checks. A \<open>usize\<close> that is a length or an offset within
  a buffer in memory is a natural number; where one comes from a 64-bit field of a file (\<open>elf.rs\<close>)
  it stays a word. The running counts that may wrap on the badge or in the differential test (bytes
  received, packets out of step, seeds that failed) are 32-bit words. The decoder's count of discarded
  bytes is a natural number: what is said of it holds of the code below \<open>2 ^ 32\<close> discarded bytes, where
  the \<open>usize\<close> of the badge wraps. An index out of range, an \<open>expect\<close>, an \<open>assert!\<close> or an \<open>unreachable!\<close> is \<open>Panic\<close>.
  A method with a \<open>&mut\<close> receiver returns the state also when it fails, since Rust does not roll back.
  An error is a constructor that carries the values its text quotes; the texts themselves are in
  Messages, Startup, Badge_Run, Usb, Difftest and Runner, and the notices of the host's command stay
  constructors. The console sink is a parameter \<open>put\<close> with its state.

  Termination. Every loop is a terminating function by a measure (bytes left in a buffer, budget
  left, frames held), but for the retry loop of the exchange, which is a partial function into
  \<open>option\<close>: None is a wait that never ends, and Link_Live shows that it does end when the clock
  moves. \<open>test_loop\<close> has the step budget of the harness as its fuel, as the code has, and so has
  \<open>diff_loop\<close>: its 100000 steps are enough, since a generated program has at most 48 chunks of at most
  six instructions after a prologue of 36. Where the backing is the link, an operation that would not
  return is a panic of the model, so that a client that never panics never waits forever.

  What the properties show. The machine never panics, is precise at exceptions and confines guests
  (Machine); memory is flat under the cache and the link, and translation is the architecture's
  (Cache_Flat, Sv39_Arch, Memory, Cable);
  the protocol delivers what was sent and nothing else (Wire_Codec, Wire_Stream, Link_Safe); a wait
  ends, over the badge's own transport too (Link_Live, Usb_Live); the images of a boot are in RAM, and
  in the file that is served, as promised, the run loops end as they report, and power-on ends where it can be told or says why not (Boot_Image,
  Elf_Props, Fdt_Props, Boot_Works, Command_Props, Runner_Props, Badge_Link, Entry); the display shows
  the last rows of a terminal (Oled_Props); the terminal is put back, but for the race of \<open>restore\<close>,
  which \<open>exit_during_restore\<close> exhibits (Command_Props); generated
  programs are legal, never trap and are compared truly (Difftest_Runs).

  Not modelled. The badge's screen (\<open>GfxScreen\<close>: calls of a graphics server outside the repository),
  a parameter of the display; the
  failure of \<open>eprintln!\<close> on a closed stderr and signals sent to the host's command; the
  measurement probe, which is calls of the same system around counters; the fallback of \<open>rawtty.rs\<close>
  for platforms without terminals; usage texts; and the locks that make a reply, or an access of two
  threads to a shared value, one step.
\<close>

end
